(* ===== verification/Prelude.thy ===== *)
theory Prelude
  imports Complex_Main "HOL-Library.Word"
begin

text \<open>Types, results and lemmas that every component of the development shares.

  \<^item> The fixed width integers of the C++ code are words: \<open>uint8_t\<close> is \<open>u8\<close>, and so on.
    Arithmetic on them wraps, as in C++.  A C++ \<open>int\<close> is \<open>int\<close>, a \<open>double\<close> is \<open>real\<close>
    (rounding of IEEE doubles is not modelled).
  \<^item> \<open>error\<close> names the ways the code stops: \<open>NS_FATAL_ERROR\<close> is \<open>Fatal\<close>, a failed
    \<open>NS_ASSERT_MSG\<close> is \<open>Assertion\<close>, \<open>std::vector::at\<close> or \<open>std::map::at\<close> out of range is
    \<open>OutOfRange\<close>, and the use of an end iterator or an index behind the end of an array is
    \<open>Undefined\<close>, a loop whose \<open>uint8_t\<close> counter can never reach its bound is \<open>Diverges\<close>.  The
    assertions are those of a debug build.  A fallible operation returns \<open>error + 'a\<close>; \<open>rbind\<close> runs the next
    step after a success.
  \<^item> The collection \<open>result_simps\<close> holds the evaluation rules of results.\<close>

unbundle bit_operations_syntax

section \<open>Types\<close>

type_synonym u8 = "8 word"
type_synonym u16 = "16 word"
type_synonym u32 = "32 word"
type_synonym u64 = "64 word"

datatype error =
    Fatal string
  | Assertion string
  | OutOfRange
  | Diverges
  | Undefined string

type_synonym 'a result = "error + 'a"

text \<open>Simulation time in nanoseconds; \<open>GetMilliSeconds\<close> rounds down.\<close>

type_synonym time = int

abbreviation ms_of :: "time \<Rightarrow> int" where "ms_of t \<equiv> t div 1000000"

abbreviation UINT8_MAX :: u8 where "UINT8_MAX \<equiv> 255"
abbreviation UINT32_MAX :: u32 where "UINT32_MAX \<equiv> 4294967295"

named_theorems result_simps

section \<open>Results\<close>

definition rbind :: "'a result \<Rightarrow> ('a \<Rightarrow> 'b result) \<Rightarrow> 'b result" where
  "rbind r f = (case r of Inl e \<Rightarrow> Inl e | Inr x \<Rightarrow> f x)"

definition rassert :: "bool \<Rightarrow> string \<Rightarrow> unit result" where
  "rassert b msg = (if b then Inr () else Inl (Assertion msg))"

definition is_ok :: "'a result \<Rightarrow> bool" where
  "is_ok r = (case r of Inl _ \<Rightarrow> False | Inr _ \<Rightarrow> True)"

lemma rbind_simps [simp, result_simps]:
  "rbind (Inl e) f = Inl e"
  "rbind (Inr x) f = f x"
  by (simp_all add: rbind_def)

lemma rbind_Inr_iff:
  "rbind r f = Inr y \<longleftrightarrow> (\<exists>x. r = Inr x \<and> f x = Inr y)"
  by (cases r) auto

lemma rbind_InrE [elim!]:
  assumes "rbind r f = Inr y"
  obtains x where "r = Inr x" "f x = Inr y"
  using assms by (auto simp: rbind_Inr_iff)

lemma rbind_Inr_right [simp, result_simps]: "rbind r Inr = r"
  by (cases r) simp_all

lemma rbind_assoc: "rbind (rbind r f) g = rbind r (\<lambda>x. rbind (f x) g)"
  by (cases r) simp_all

lemma rassert_simps [simp, result_simps]:
  "rassert True msg = Inr ()"
  "rassert False msg = Inl (Assertion msg)"
  by (simp_all add: rassert_def)

lemma rassert_Inr_iff [simp]: "rassert b msg = Inr u \<longleftrightarrow> b"
  by (simp add: rassert_def)

lemma is_ok_simps [simp, result_simps]:
  "is_ok (Inr x)"
  "\<not> is_ok (Inl e)"
  by (simp_all add: is_ok_def)

lemma is_ok_iff: "is_ok r \<longleftrightarrow> (\<exists>x. r = Inr x)"
  by (cases r) auto

section \<open>Vectors\<close>

text \<open>\<open>v.at(i)\<close> throws \<open>std::out_of_range\<close>; \<open>v.at(i) = x\<close> does so too.\<close>

definition vec_at :: "'a list \<Rightarrow> nat \<Rightarrow> 'a result" where
  "vec_at xs i = (if i < length xs then Inr (xs ! i) else Inl OutOfRange)"

definition vec_upd :: "'a list \<Rightarrow> nat \<Rightarrow> 'a \<Rightarrow> 'a list result" where
  "vec_upd xs i x = (if i < length xs then Inr (xs[i := x]) else Inl OutOfRange)"

lemma vec_at_ok [simp]: "i < length xs \<Longrightarrow> vec_at xs i = Inr (xs ! i)"
  by (simp add: vec_at_def)

lemma vec_at_out: "length xs \<le> i \<Longrightarrow> vec_at xs i = Inl OutOfRange"
  by (simp add: vec_at_def)

lemma vec_at_Inr_iff: "vec_at xs i = Inr x \<longleftrightarrow> i < length xs \<and> xs ! i = x"
  by (auto simp: vec_at_def)

lemma vec_upd_ok [simp]: "i < length xs \<Longrightarrow> vec_upd xs i x = Inr (xs[i := x])"
  by (simp add: vec_upd_def)

lemma vec_upd_Inr_iff: "vec_upd xs i x = Inr ys \<longleftrightarrow> i < length xs \<and> ys = xs[i := x]"
  by (auto simp: vec_upd_def)

text \<open>A loop \<open>for (ind = 0; ind < n; ind++)\<close> whose body may fail.\<close>

fun rfoldl :: "('s \<Rightarrow> 'a \<Rightarrow> 's result) \<Rightarrow> 's \<Rightarrow> 'a list \<Rightarrow> 's result" where
  "rfoldl f s [] = Inr s"
| "rfoldl f s (x # xs) = rbind (f s x) (\<lambda>s'. rfoldl f s' xs)"

lemma rfoldl_append: "rfoldl f s (xs @ ys) = rbind (rfoldl f s xs) (\<lambda>s'. rfoldl f s' ys)"
  by (induction xs arbitrary: s) (simp_all add: rbind_assoc)

lemma rfoldl_invariant:
  assumes "rfoldl f s xs = Inr t" and "P s"
    and "\<And>s x s'. x \<in> set xs \<Longrightarrow> P s \<Longrightarrow> f s x = Inr s' \<Longrightarrow> P s'"
  shows "P t"
  using assms
proof (induction xs arbitrary: s)
  case (Cons x xs)
  then obtain s' where "f s x = Inr s'" "rfoldl f s' xs = Inr t" by auto
  with Cons show ?case by (meson list.set_intros)
qed simp

lemma foldl_invariant: "P s \<Longrightarrow> (\<And>s x. x \<in> set xs \<Longrightarrow> P s \<Longrightarrow> P (f s x)) \<Longrightarrow> P (foldl f s xs)"
  by (induction xs arbitrary: s) auto

lemma rfoldl_total:
  assumes "P s" and "\<And>s x. x \<in> set xs \<Longrightarrow> P s \<Longrightarrow> \<exists>s'. f s x = Inr s' \<and> P s'"
  shows "\<exists>t. rfoldl f s xs = Inr t \<and> P t"
  using assms
proof (induction xs arbitrary: s)
  case (Cons x xs)
  then obtain s' where "f s x = Inr s'" "P s'" by (meson list.set_intros(1))
  with Cons show ?case by simp
qed simp

lemma rfoldl_ok:
  assumes "\<And>s x. x \<in> set xs \<Longrightarrow> is_ok (f s x)"
  shows "is_ok (rfoldl f s xs)"
  using rfoldl_total [of "\<lambda>_. True" s xs f] assms by (auto simp: is_ok_iff)

text \<open>A loop that pushes one value per turn.\<close>

lemma rfoldl_map:
  "(\<And>i l. i \<in> set xs \<Longrightarrow> g l i = Inr (l @ [f i])) \<Longrightarrow> rfoldl g l xs = Inr (l @ map f xs)"
  by (induction xs arbitrary: l) simp_all

lemma sum_list_upt: "sum_list (map f [0..<n]) = (\<Sum>i<n. f i)" for f :: "nat \<Rightarrow> 'a :: comm_monoid_add"
  by (induction n) (simp_all add: add.commute)

section \<open>Words\<close>

lemma u8_numeral_neq_1 [simp]:
  "(5 :: u8) \<noteq> 1" "(6 :: u8) \<noteq> 1" "(7 :: u8) \<noteq> 1" "(8 :: u8) \<noteq> 1" "(9 :: u8) \<noteq> 1" "(10 :: u8) \<noteq> 1"
  by code_simp+

lemma unat_u8_less [simp]: "unat (x :: u8) < 256"
  using unsigned_less [of x, where 'a = nat] by simp

lemma unat_u8_le [simp]: "unat (x :: u8) \<le> 255"
  using unat_u8_less [of x] by linarith

lemma unat_u32_less [simp]: "unat (x :: u32) < 4294967296"
  using unsigned_less [of x, where 'a = nat] by simp

lemma uint_word_of_int_u32: "0 \<le> k \<Longrightarrow> k < 4294967296 \<Longrightarrow> uint (word_of_int k :: u32) = k"
  by (simp add: uint_word_of_int)

lemma unat_u8_u32 [simp]: "unat (ucast (x :: u8) :: u32) = unat x"
  by (simp add: unsigned_ucast_eq take_bit_nat_eq_self_iff order_less_trans [OF unat_u8_less])

text \<open>Flag words: the sum of the shifted flags has exactly the flags as its bits, and the loop
  that reads \<open>flags % 2\<close> and shifts gets them back.\<close>

lemma foldl_flags_horner:
  assumes "n \<le> length bs"
  shows "foldl (\<lambda>fl i. fl + push_bit i (of_bool (bs ! i))) 0 [0..<n]
    = (horner_sum of_bool 2 (take n bs) :: 'a :: len word)"
  using assms
  by (induction n) (simp_all add: take_Suc_conv_app_nth horner_sum_append push_bit_eq_mult ac_simps)

lemma bit_foldl_flags:
  assumes "length bs = n" "n \<le> LENGTH('a :: len)"
  shows "bit (foldl (\<lambda>fl i. fl + push_bit i (of_bool (bs ! i))) 0 [0..<n] :: 'a word) k
    \<longleftrightarrow> k < n \<and> bs ! k"
  using assms by (auto simp: foldl_flags_horner bit_horner_sum_bit_word_iff)

lemma upt_8: "[0..<8] = [0, 1, 2, 3, 4, 5, 6, 7 :: nat]"
  by code_simp

lemma upt_16: "[0..<16] = [0, 1, 2, 3, 4, 5, 6, 7, 8, 9, 10, 11, 12, 13, 14, 15 :: nat]"
  by code_simp

lemma mod_2_eq_1_iff_bit: "w mod 2 = 1 \<longleftrightarrow> bit w 0" for w :: "'a :: len word"
  by (simp add: bit_0 odd_iff_mod_2_eq_one)

lemma list_update_take_map:
  assumes "n < length bs"
  shows "(map f [0..<n] @ drop n bs)[n := f n] = map f [0..<Suc n] @ drop (Suc n) bs"
  using assms by (simp add: list_update_append Cons_nth_drop_Suc [symmetric])

section \<open>Conversions\<close>

text \<open>The conversion of a \<open>double\<close> to \<open>uint32_t\<close> cuts off the fraction and is undefined out of range.\<close>

definition real_to_u32 :: "real \<Rightarrow> u32 result" where
  "real_to_u32 x =
    (if - 1 < x \<and> x < 4294967296 then Inr (of_int (if 0 \<le> x then \<lfloor>x\<rfloor> else \<lceil>x\<rceil>))
     else Inl (Undefined ''conversion of a double to uint32_t''))"

lemma real_to_u32_int:
  assumes "0 \<le> k" "k < 4294967296"
  shows "real_to_u32 (real_of_int k) = Inr (of_int k)"
proof -
  have "0 \<le> real_of_int k" "real_of_int k < 4294967296" using assms by linarith+
  then show ?thesis by (simp add: real_to_u32_def)
qed

lemma real_to_u32_uint: "real_to_u32 (real_of_int (uint (x :: u32))) = Inr x"
  using real_to_u32_int [of "uint x"] unsigned_less [of x, where 'a = int] by (simp only: uint_ge_0) simp

end
