(* ===== verification/Buffer.thy ===== *)
theory Buffer
  imports Prelude
begin

text \<open>The part of the ns-3 byte buffer the protocol headers are written with
  (\<open>src/src/network/model/buffer.h\<close>, \<open>buffer.cc\<close>, \<open>packet.cc\<close>).

  An iterator is the list of the buffer's bytes (\<open>m_dataStart\<close> .. \<open>m_dataEnd\<close>; the
  virtual zero area of the payload is read as the zero bytes it stands for) and a position,
  counted from \<open>m_dataStart\<close>.  The assertion of \<open>WriteU8\<close> admits the position \<open>m_dataEnd\<close>
  itself; a write there is outside the buffer and is \<open>Undefined\<close> here.

  The locale \<open>field_codec\<close> is the contract a header relies on for one field: writing replaces
  exactly the bytes under the iterator by the encoding, reading gives the value back.  It is
  interpreted on the 8, 16, 32 and 24 bit fields.  The predicates \<open>writes\<close> and \<open>reads\<close>
  compose, and the collection \<open>codec_intros\<close> carries the proofs about whole headers.\<close>

record iter =
  it_data :: "u8 list"
  it_cur :: nat

abbreviation Iter :: "u8 list \<Rightarrow> nat \<Rightarrow> iter" where
  "Iter d c \<equiv> \<lparr>it_data = d, it_cur = c\<rparr>"

named_theorems codec_intros

section \<open>Operations of the iterator\<close>

definition Prev :: "nat \<Rightarrow> iter \<Rightarrow> iter result" where
  "Prev delta it =
    (if it_cur it \<ge> delta then Inr (it\<lparr>it_cur := it_cur it - delta\<rparr>)
     else Inl (Assertion ''m_current >= delta''))"

definition WriteU8 :: "u8 \<Rightarrow> iter \<Rightarrow> iter result" where
  "WriteU8 data it =
    (if it_cur it < length (it_data it)
     then Inr (it\<lparr>it_data := (it_data it)[it_cur it := data], it_cur := it_cur it + 1\<rparr>)
     else if it_cur it = length (it_data it) then Inl (Undefined ''write at m_dataEnd'')
     else Inl (Assertion ''Check(m_current)''))"

definition WriteU16 :: "u16 \<Rightarrow> iter \<Rightarrow> iter result" where
  "WriteU16 data it =
    rbind (WriteU8 (ucast (data AND 0xff)) it) (\<lambda>it.
    WriteU8 (ucast (drop_bit 8 data AND 0xff)) it)"

definition WriteU32 :: "u32 \<Rightarrow> iter \<Rightarrow> iter result" where
  "WriteU32 data it =
    rbind (WriteU8 (ucast (data AND 0xff)) it) (\<lambda>it.
    let data = drop_bit 8 data in
    rbind (WriteU8 (ucast (data AND 0xff)) it) (\<lambda>it.
    let data = drop_bit 8 data in
    rbind (WriteU8 (ucast (data AND 0xff)) it) (\<lambda>it.
    let data = drop_bit 8 data in
    WriteU8 (ucast (data AND 0xff)) it)))"

definition PeekU8 :: "iter \<Rightarrow> u8 result" where
  "PeekU8 it =
    (if it_cur it < length (it_data it) then Inr (it_data it ! it_cur it)
     else Inl (Assertion ''m_current < m_dataEnd''))"

definition ReadU8 :: "iter \<Rightarrow> (u8 \<times> iter) result" where
  "ReadU8 it = rbind (PeekU8 it) (\<lambda>ret. Inr (ret, it\<lparr>it_cur := it_cur it + 1\<rparr>))"

definition ReadU16 :: "iter \<Rightarrow> (u16 \<times> iter) result" where
  "ReadU16 it =
    rbind (ReadU8 it) (\<lambda>(byte0, it).
    rbind (ReadU8 it) (\<lambda>(byte1, it).
    let data = (ucast byte1 :: u16);
        data = push_bit 8 data;
        data = data OR ucast byte0
    in Inr (data, it)))"

definition ReadU32 :: "iter \<Rightarrow> (u32 \<times> iter) result" where
  "ReadU32 it =
    rbind (ReadU8 it) (\<lambda>(byte0, it).
    rbind (ReadU8 it) (\<lambda>(byte1, it).
    rbind (ReadU8 it) (\<lambda>(byte2, it).
    rbind (ReadU8 it) (\<lambda>(byte3, it).
    let data = (ucast byte3 :: u32);
        data = push_bit 8 data OR ucast byte2;
        data = push_bit 8 data OR ucast byte1;
        data = push_bit 8 data OR ucast byte0
    in Inr (data, it)))))"

text \<open>The three byte fields of the headers are written most significant byte first.  The
  expression \<open>ReadU8() << 16 | ReadU8() << 8 | ReadU8()\<close> leaves the order of its operands
  unspecified in C++; the model reads them from left to right, as the writer needs.\<close>

definition WriteU24 :: "u32 \<Rightarrow> iter \<Rightarrow> iter result" where
  "WriteU24 v it =
    rbind (WriteU8 (ucast (drop_bit 16 (v AND 0x00ff0000))) it) (\<lambda>it.
    rbind (WriteU8 (ucast (drop_bit 8 (v AND 0x0000ff00))) it) (\<lambda>it.
    WriteU8 (ucast (v AND 0x000000ff)) it))"

definition ReadU24 :: "iter \<Rightarrow> (u32 \<times> iter) result" where
  "ReadU24 it =
    rbind (ReadU8 it) (\<lambda>(b2, it).
    rbind (ReadU8 it) (\<lambda>(b1, it).
    rbind (ReadU8 it) (\<lambda>(b0, it).
    Inr (push_bit 16 (ucast b2) OR push_bit 8 (ucast b1) OR ucast b0, it))))"

text \<open>A loop that reads \<open>n\<close> bytes into a vector, and one that writes the first \<open>n\<close>
  elements of a vector through \<open>at\<close>.\<close>

fun ReadBytes :: "nat \<Rightarrow> iter \<Rightarrow> (u8 list \<times> iter) result" where
  "ReadBytes 0 it = Inr ([], it)"
| "ReadBytes (Suc n) it =
    rbind (ReadU8 it) (\<lambda>(b, it). rbind (ReadBytes n it) (\<lambda>(bs, it). Inr (b # bs, it)))"

definition WriteAt :: "u8 list \<Rightarrow> nat \<Rightarrow> iter \<Rightarrow> iter result" where
  "WriteAt xs n it = rfoldl (\<lambda>it ind. rbind (vec_at xs ind) (\<lambda>b. WriteU8 b it)) it [0..<n]"

section \<open>Composable specifications\<close>

definition writes :: "(iter \<Rightarrow> iter result) \<Rightarrow> u8 list \<Rightarrow> bool" where
  "writes w bs \<longleftrightarrow> (\<forall>p mid q. length mid = length bs \<longrightarrow>
     w (Iter (p @ mid @ q) (length p)) = Inr (Iter (p @ bs @ q) (length p + length bs)))"

definition reads :: "(iter \<Rightarrow> ('v \<times> iter) result) \<Rightarrow> u8 list \<Rightarrow> 'v \<Rightarrow> bool" where
  "reads r bs v \<longleftrightarrow> (\<forall>p q.
     r (Iter (p @ bs @ q) (length p)) = Inr (v, Iter (p @ bs @ q) (length p + length bs)))"

lemma writesD:
  "writes w bs \<Longrightarrow> length mid = length bs \<Longrightarrow>
    w (Iter (p @ mid @ q) (length p)) = Inr (Iter (p @ bs @ q) (length p + length bs))"
  by (simp add: writes_def)

lemma readsD:
  "reads r bs v \<Longrightarrow>
    r (Iter (p @ bs @ q) (length p)) = Inr (v, Iter (p @ bs @ q) (length p + length bs))"
  by (simp add: reads_def)

lemma writes_Inr [codec_intros]: "writes Inr []"
  by (simp add: writes_def)

lemma writes_bind:
  assumes "writes w1 b1" "writes w2 b2"
  shows "writes (\<lambda>it. rbind (w1 it) w2) (b1 @ b2)"
  unfolding writes_def
proof (intro allI impI)
  fix p mid q :: "u8 list"
  assume len: "length mid = length (b1 @ b2)"
  define m1 where "m1 = take (length b1) mid"
  define m2 where "m2 = drop (length b1) mid"
  have mid: "mid = m1 @ m2" "length m1 = length b1" "length m2 = length b2"
    using len by (simp_all add: m1_def m2_def)
  have "w1 (Iter (p @ m1 @ (m2 @ q)) (length p))
      = Inr (Iter ((p @ b1) @ m2 @ q) (length (p @ b1)))"
    using writesD [OF assms(1) mid(2), of p "m2 @ q"] by simp
  moreover have "w2 (Iter ((p @ b1) @ m2 @ q) (length (p @ b1)))
      = Inr (Iter ((p @ b1) @ b2 @ q) (length (p @ b1) + length b2))"
    using writesD [OF assms(2) mid(3), of "p @ b1" q] .
  ultimately show "rbind (w1 (Iter (p @ mid @ q) (length p))) w2
      = Inr (Iter (p @ (b1 @ b2) @ q) (length p + length (b1 @ b2)))"
    using mid(1) by (simp add: add.assoc)
qed

lemma reads_return: "reads (\<lambda>it. Inr (v, it)) [] v"
  by (simp add: reads_def)

lemma reads_bind:
  assumes "reads r1 b1 v1" "reads (f v1) b2 v2"
  shows "reads (\<lambda>it. rbind (r1 it) (\<lambda>(v, it). f v it)) (b1 @ b2) v2"
  unfolding reads_def
proof (intro allI)
  fix p q :: "u8 list"
  have "r1 (Iter (p @ b1 @ (b2 @ q)) (length p)) = Inr (v1, Iter ((p @ b1) @ b2 @ q) (length (p @ b1)))"
    using readsD [OF assms(1), of p "b2 @ q"] by simp
  moreover have "f v1 (Iter ((p @ b1) @ b2 @ q) (length (p @ b1)))
      = Inr (v2, Iter ((p @ b1) @ b2 @ q) (length (p @ b1) + length b2))"
    using readsD [OF assms(2), of "p @ b1" q] .
  ultimately show "rbind (r1 (Iter (p @ (b1 @ b2) @ q) (length p))) (\<lambda>(v, it). f v it)
      = Inr (v2, Iter (p @ (b1 @ b2) @ q) (length p + length (b1 @ b2)))"
    by (simp add: add.assoc)
qed

text \<open>\<open>yields\<close> is the last link of such a chain: a reader that returns no iterator.\<close>

definition yields :: "(iter \<Rightarrow> 'v result) \<Rightarrow> u8 list \<Rightarrow> 'v \<Rightarrow> bool" where
  "yields f bs v \<longleftrightarrow> (\<forall>p q. f (Iter (p @ bs @ q) (length p)) = Inr v)"

lemma yieldsD: "yields f bs v \<Longrightarrow> f (Iter (p @ bs @ q) (length p)) = Inr v"
  by (simp add: yields_def)

lemma yields_return: "yields (\<lambda>_. Inr v) [] v"
  by (simp add: yields_def)

lemma yields_bind:
  assumes "reads r1 b1 v1" "yields (f v1) b2 v2"
  shows "yields (\<lambda>it. rbind (r1 it) (\<lambda>(v, it). f v it)) (b1 @ b2) v2"
  unfolding yields_def
proof (intro allI)
  fix p q :: "u8 list"
  show "rbind (r1 (Iter (p @ (b1 @ b2) @ q) (length p))) (\<lambda>(v, it). f v it) = Inr v2"
    using readsD [OF assms(1), of p "b2 @ q"] yieldsD [OF assms(2), of "p @ b1" q] by simp
qed

text \<open>Optional fields, as in \<open>if (flag) start.WriteU8 (x)\<close> and
  \<open>if (flag) x = start.ReadU8 ()\<close>.\<close>

definition wr_if :: "bool \<Rightarrow> (iter \<Rightarrow> iter result) \<Rightarrow> iter \<Rightarrow> iter result" where
  "wr_if b w it = (if b then w it else Inr it)"

definition rd_if :: "bool \<Rightarrow> (iter \<Rightarrow> ('v \<times> iter) result) \<Rightarrow> ('v \<Rightarrow> 's \<Rightarrow> 's) \<Rightarrow> 's \<Rightarrow> iter
    \<Rightarrow> ('s \<times> iter) result" where
  "rd_if b r upd s it = (if b then rbind (r it) (\<lambda>(v, it). Inr (upd v s, it)) else Inr (s, it))"

lemma writes_if [codec_intros]:
  "(b \<Longrightarrow> writes w bs) \<Longrightarrow> writes (wr_if b w) (if b then bs else [])"
  by (auto simp: writes_def wr_if_def)

lemma reads_if:
  "(b \<Longrightarrow> reads r bs v) \<Longrightarrow>
    reads (rd_if b r upd s) (if b then bs else []) (if b then upd v s else s)"
  by (auto simp: reads_def rd_if_def)

lemma yields_if:
  assumes "reads r bs v" "yields (f (if b then upd v s else s)) b2 res"
  shows "yields (\<lambda>it. rbind (rd_if b r upd s it) (\<lambda>(s, it). f s it)) ((if b then bs else []) @ b2) res"
  by (rule yields_bind [where f = f, OF _ assms(2)]) (rule reads_if [OF assms(1)])

lemma yields_returnI: "v = w \<Longrightarrow> yields (\<lambda>_. Inr v) [] w"
  by (simp add: yields_def)

section \<open>The single fields\<close>

definition enc8 :: "u8 \<Rightarrow> u8 list" where "enc8 v = [v]"
definition enc16 :: "u16 \<Rightarrow> u8 list" where "enc16 v = [ucast v, ucast (drop_bit 8 v)]"
definition enc24 :: "u32 \<Rightarrow> u8 list" where
  "enc24 v = [ucast (drop_bit 16 v), ucast (drop_bit 8 v), ucast v]"
definition enc32 :: "u32 \<Rightarrow> u8 list" where
  "enc32 v = [ucast v, ucast (drop_bit 8 v), ucast (drop_bit 16 v), ucast (drop_bit 24 v)]"

lemma length_enc [simp]:
  "length (enc8 a) = 1" "length (enc16 b) = 2" "length (enc24 c) = 3" "length (enc32 d) = 4"
  by (simp_all add: enc8_def enc16_def enc24_def enc32_def)

lemma writes_U8 [codec_intros]: "writes (WriteU8 v) (enc8 v)"
proof -
  have "\<exists>x. mid = [x]" if "length mid = 1" for mid :: "u8 list"
    using that by (cases mid) auto
  then show ?thesis
    by (fastforce simp: writes_def WriteU8_def enc8_def list_update_append)
qed

lemma reads_U8 [codec_intros]: "reads ReadU8 (enc8 v) v"
  by (simp add: reads_def ReadU8_def PeekU8_def enc8_def nth_append)

lemma and_0xff: "v AND 0xff = take_bit 8 v" for v :: "'a :: len word"
  by (simp add: take_bit_eq_mask mask_eq_exp_minus_1)

lemma ucast_low_byte [simp]:
  "ucast (v AND 0xff) = (ucast v :: u8)"
  for v :: "'a :: len word"
  unfolding and_0xff by (rule bit_word_eqI) (auto simp: bit_simps)

lemma ucast_byte1: "(ucast (drop_bit 8 (v AND 0xff00)) :: u8) = ucast (drop_bit 8 v)" for v :: u32
proof -
  have "v AND 0xff00 = v AND push_bit 8 (mask 8)"
    by (simp add: mask_eq_exp_minus_1 push_bit_eq_mult)
  then show ?thesis
    by (simp only:) (rule bit_word_eqI, auto simp: bit_simps)
qed

lemma ucast_byte2: "(ucast (drop_bit 16 (v AND 0xff0000)) :: u8) = ucast (drop_bit 16 v)" for v :: u32
proof -
  have "v AND 0xff0000 = v AND push_bit 16 (mask 8)"
    by (simp add: mask_eq_exp_minus_1 push_bit_eq_mult)
  then show ?thesis
    by (simp only:) (rule bit_word_eqI, auto simp: bit_simps)
qed

lemma writes_U16 [codec_intros]: "writes (WriteU16 v) (enc16 v)"
proof -
  have "writes (\<lambda>it. rbind (WriteU8 (ucast (v AND 0xff)) it) (WriteU8 (ucast (drop_bit 8 v AND 0xff))))
      (enc8 (ucast v) @ enc8 (ucast (drop_bit 8 v)))"
    unfolding ucast_low_byte by (intro writes_bind writes_U8)
  then show ?thesis
    by (simp add: WriteU16_def [abs_def] enc8_def enc16_def)
qed

lemma writes_U32 [codec_intros]: "writes (WriteU32 v) (enc32 v)"
proof -
  have "writes (WriteU32 v) (enc8 (ucast v) @ enc8 (ucast (drop_bit 8 v)) @
      enc8 (ucast (drop_bit 8 (drop_bit 8 v))) @ enc8 (ucast (drop_bit 8 (drop_bit 8 (drop_bit 8 v)))))"
    unfolding WriteU32_def [abs_def] Let_def ucast_low_byte by (intro writes_bind writes_U8)
  then show ?thesis
    by (simp add: enc8_def enc32_def)
qed

lemma writes_U24 [codec_intros]: "writes (WriteU24 v) (enc24 v)"
proof -
  have "writes (WriteU24 v) (enc8 (ucast (drop_bit 16 v)) @ enc8 (ucast (drop_bit 8 v)) @ enc8 (ucast v))"
    unfolding WriteU24_def [abs_def] ucast_low_byte ucast_byte1 ucast_byte2
    by (intro writes_bind writes_U8)
  then show ?thesis
    by (simp add: enc8_def enc24_def)
qed

lemma join16: "push_bit 8 (ucast (ucast (drop_bit 8 v) :: u8)) OR ucast (ucast v :: u8) = v" for v :: u16
  by (rule bit_word_eqI) (auto simp: bit_simps)

lemma join24:
  "push_bit 16 (ucast (ucast (drop_bit 16 v) :: u8)) OR push_bit 8 (ucast (ucast (drop_bit 8 v) :: u8))
    OR ucast (ucast v :: u8) = take_bit 24 v" (is "?l = _") for v :: u32
proof (rule bit_word_eqI)
  fix n :: nat
  consider "n < 8" | "8 \<le> n" "n < 16" | "16 \<le> n" by linarith
  then show "bit ?l n = bit (take_bit 24 v) n"
    by cases (auto simp: bit_simps)
qed

lemma join32:
  "((push_bit 24 (ucast (ucast (drop_bit 24 v) :: u8)) OR push_bit 16 (ucast (ucast (drop_bit 16 v) :: u8)))
    OR push_bit 8 (ucast (ucast (drop_bit 8 v) :: u8))) OR ucast (ucast v :: u8) = v" (is "?l = _") for v :: u32
proof (rule bit_word_eqI)
  fix n :: nat
  assume n: "n < LENGTH(32)"
  consider "n < 8" | "8 \<le> n" "n < 16" | "16 \<le> n" "n < 24" | "24 \<le> n" by linarith
  then show "bit ?l n = bit v n"
    by cases (use n in \<open>auto simp: bit_simps\<close>)
qed

lemma ReadU8_app [simp]:
  "ReadU8 (Iter (p @ b # q) (length p)) = Inr (b, Iter (p @ b # q) (length p + 1))"
  by (simp add: ReadU8_def PeekU8_def nth_append)

lemma ReadU8_nth:
  "i < length d \<Longrightarrow> ReadU8 (Iter d i) = Inr (d ! i, Iter d (i + 1))"
  by (simp add: ReadU8_def PeekU8_def)

lemma reads_U16 [codec_intros]: "reads ReadU16 (enc16 v) v"
  by (simp add: reads_def ReadU16_def enc16_def ReadU8_nth nth_append join16)

lemma reads_U32 [codec_intros]: "reads ReadU32 (enc32 v) v"
  by (simp add: reads_def ReadU32_def enc32_def ReadU8_nth nth_append join32)

lemma reads_U24 [codec_intros]: "reads ReadU24 (enc24 v) (take_bit 24 v)"
  by (simp add: reads_def ReadU24_def enc24_def ReadU8_nth nth_append join24)

lemma reads_Bytes [codec_intros]: "length bs = n \<Longrightarrow> reads (ReadBytes n) bs bs"
proof (induction bs arbitrary: n)
  case (Cons b bs)
  then obtain m where n: "n = Suc m" "length bs = m" by auto
  have "reads (\<lambda>it. rbind (ReadU8 it) (\<lambda>(b, it). rbind (ReadBytes m it) (\<lambda>(bs, it). Inr (b # bs, it))))
      (enc8 b @ bs @ []) (b # bs)"
    by (rule reads_bind [OF reads_U8 reads_bind [OF Cons.IH [OF n(2)] reads_return]])
  then show ?case by (simp add: n(1) enc8_def fun_eq_iff reads_def)
qed (simp add: reads_def)

lemma writes_At [codec_intros]:
  assumes "n \<le> length xs"
  shows "writes (WriteAt xs n) (take n xs)"
  using assms
proof (induction n)
  case 0
  then show ?case by (simp add: WriteAt_def writes_def)
next
  case (Suc n)
  have "writes (\<lambda>it. rbind (WriteAt xs n it) (WriteU8 (xs ! n))) (take n xs @ enc8 (xs ! n))"
    using Suc by (intro writes_bind writes_U8) simp
  moreover have "WriteAt xs (Suc n) = (\<lambda>it. rbind (WriteAt xs n it) (WriteU8 (xs ! n)))"
    using Suc.prems by (simp add: WriteAt_def fun_eq_iff rfoldl_append)
  ultimately show ?case
    using Suc.prems by (simp add: take_Suc_conv_app_nth enc8_def)
qed

section \<open>The contract of a field\<close>

locale field_codec =
  fixes wr :: "'v \<Rightarrow> iter \<Rightarrow> iter result"
    and rd :: "iter \<Rightarrow> ('v \<times> iter) result"
    and enc :: "'v \<Rightarrow> u8 list"
    and ok :: "'v \<Rightarrow> bool"
    and width :: nat
  assumes wr_writes: "writes (wr v) (enc v)"
    and rd_reads: "ok v \<Longrightarrow> reads rd (enc v) v"
    and enc_width: "length (enc v) = width"
begin

lemma write_frame:
  assumes "length mid = width"
  obtains d where "wr v (Iter (p @ mid @ q) (length p)) = Inr (Iter (p @ d @ q) (length p + width))"
    and "length d = width"
  using writesD [OF wr_writes, of mid v p q] assms enc_width [of v] that by simp

lemma write_read:
  assumes "length mid = width" "ok v"
  shows "rbind (wr v (Iter (p @ mid @ q) (length p))) (\<lambda>it. rd (it\<lparr>it_cur := length p\<rparr>))
    = Inr (v, Iter (p @ enc v @ q) (length p + width))"
  using writesD [OF wr_writes, of mid v p q] readsD [OF rd_reads [OF assms(2)], of p q] assms(1)
  by (simp add: enc_width)

lemma enc_inj:
  assumes "ok v" "ok w" "enc v = enc w"
  shows "v = w"
  using readsD [OF rd_reads [OF assms(1)], of "[]" "[]"] readsD [OF rd_reads [OF assms(2)], of "[]" "[]"]
    assms(3) by simp

end

interpretation u8: field_codec WriteU8 ReadU8 enc8 "\<lambda>_. True" 1
  by unfold_locales (auto intro: codec_intros)

interpretation u16: field_codec WriteU16 ReadU16 enc16 "\<lambda>_. True" 2
  by unfold_locales (auto intro: codec_intros)

interpretation u32: field_codec WriteU32 ReadU32 enc32 "\<lambda>_. True" 4
  by unfold_locales (auto intro: codec_intros)

interpretation u24: field_codec WriteU24 ReadU24 enc24 "\<lambda>v. take_bit 24 v = v" 3
  by unfold_locales (auto intro: codec_intros, metis reads_U24)

section \<open>Headers in packets\<close>

text \<open>\<open>Packet::AddHeader\<close> reserves \<open>GetSerializedSize\<close> bytes before the payload (their
  contents, \<open>junk\<close>, is what the memory held) and lets the header write itself there;
  \<open>RemoveHeader\<close> lets it read itself and drops the bytes it says it consumed.  A trailer does the
  same at the end.  The tags and the metadata of a packet carry no protocol data.\<close>

definition Packet_AddHeader ::
    "('h \<Rightarrow> u32) \<Rightarrow> ('h \<Rightarrow> iter \<Rightarrow> iter result) \<Rightarrow> (nat \<Rightarrow> u8) \<Rightarrow> 'h \<Rightarrow> u8 list \<Rightarrow> u8 list result" where
  "Packet_AddHeader hsize ser junk h pkt =
    rbind (ser h (Iter (map junk [0..<unat (hsize h)] @ pkt) 0)) (\<lambda>it. Inr (it_data it))"

definition Packet_RemoveHeader ::
    "('h \<Rightarrow> iter \<Rightarrow> ('h \<times> u32) result) \<Rightarrow> 'h \<Rightarrow> u8 list \<Rightarrow> ('h \<times> u32 \<times> u8 list) result" where
  "Packet_RemoveHeader des h pkt =
    rbind (des h (Iter pkt 0)) (\<lambda>(h', n). Inr (h', n, drop (unat n) pkt))"

definition Packet_AddTrailer ::
    "('h \<Rightarrow> u32) \<Rightarrow> ('h \<Rightarrow> iter \<Rightarrow> iter result) \<Rightarrow> (nat \<Rightarrow> u8) \<Rightarrow> 'h \<Rightarrow> u8 list \<Rightarrow> u8 list result" where
  "Packet_AddTrailer hsize ser junk h pkt =
    (let d = pkt @ map junk [0..<unat (hsize h)] in
     rbind (ser h (Iter d (length d))) (\<lambda>it. Inr (it_data it)))"

definition Packet_RemoveTrailer ::
    "('h \<Rightarrow> iter \<Rightarrow> ('h \<times> u32) result) \<Rightarrow> 'h \<Rightarrow> u8 list \<Rightarrow> ('h \<times> u32 \<times> u8 list) result" where
  "Packet_RemoveTrailer des h pkt =
    rbind (des h (Iter pkt (length pkt))) (\<lambda>(h', n). Inr (h', n, take (length pkt - unat n) pkt))"

text \<open>The contract of a header: \<open>ok\<close> says which header objects can be sent, \<open>enc\<close> what is on the
  wire, and \<open>recv h h0\<close> is the receiver's object \<open>h0\<close> after it has read what \<open>h\<close> wrote.\<close>

locale pdu_header =
  fixes hsize :: "'h \<Rightarrow> u32"
    and ser :: "'h \<Rightarrow> iter \<Rightarrow> iter result"
    and des :: "'h \<Rightarrow> iter \<Rightarrow> ('h \<times> u32) result"
    and enc :: "'h \<Rightarrow> u8 list"
    and ok :: "'h \<Rightarrow> bool"
    and fresh :: "'h \<Rightarrow> bool"
    and recv :: "'h \<Rightarrow> 'h \<Rightarrow> 'h"
  assumes enc_size: "ok h \<Longrightarrow> length (enc h) = unat (hsize h)"
    and ser_writes: "ok h \<Longrightarrow> writes (ser h) (enc h)"
    and des_reads: "ok h \<Longrightarrow> fresh h0 \<Longrightarrow>
      des h0 (Iter (p @ enc h @ q) (length p)) = Inr (recv h h0, hsize h)"
begin

lemma add_header:
  assumes "ok h"
  shows "Packet_AddHeader hsize ser junk h pkt = Inr (enc h @ pkt)"
  using writesD [OF ser_writes [OF assms], of "map junk [0..<unat (hsize h)]" "[]" pkt] enc_size [OF assms]
  by (simp add: Packet_AddHeader_def)

lemma remove_header:
  assumes "ok h" "fresh h0"
  shows "Packet_RemoveHeader des h0 (enc h @ pkt) = Inr (recv h h0, hsize h, pkt)"
  using des_reads [OF assms, of "[]" pkt] enc_size [OF assms(1)]
  by (simp add: Packet_RemoveHeader_def)

lemma remove_add_header:
  assumes "ok h" "fresh h0"
  shows "rbind (Packet_AddHeader hsize ser junk h pkt) (Packet_RemoveHeader des h0)
    = Inr (recv h h0, hsize h, pkt)"
  by (simp add: add_header remove_header assms)

end

text \<open>A trailer starts from the end of the packet.\<close>

locale pdu_trailer =
  fixes hsize :: "'h \<Rightarrow> u32"
    and ser :: "'h \<Rightarrow> iter \<Rightarrow> iter result"
    and des :: "'h \<Rightarrow> iter \<Rightarrow> ('h \<times> u32) result"
    and enc :: "'h \<Rightarrow> u8 list"
    and ok :: "'h \<Rightarrow> bool"
    and fresh :: "'h \<Rightarrow> bool"
    and recv :: "'h \<Rightarrow> 'h \<Rightarrow> 'h"
  assumes enc_size: "ok h \<Longrightarrow> length (enc h) = unat (hsize h)"
    and ser_end: "ok h \<Longrightarrow> length mid = length (enc h) \<Longrightarrow>
      ser h (Iter (p @ mid) (length p + length mid)) = Inr (Iter (p @ enc h) (length p + length mid))"
    and des_end: "ok h \<Longrightarrow> fresh h0 \<Longrightarrow>
      des h0 (Iter (p @ enc h) (length p + length (enc h))) = Inr (recv h h0, hsize h)"
begin

lemma remove_add_trailer:
  assumes "ok h" "fresh h0"
  shows "rbind (Packet_AddTrailer hsize ser junk h pkt) (Packet_RemoveTrailer des h0)
    = Inr (recv h h0, hsize h, pkt)"
proof -
  have "Packet_AddTrailer hsize ser junk h pkt = Inr (pkt @ enc h)"
    using ser_end [OF assms(1), of "map junk [0..<unat (hsize h)]" pkt] enc_size [OF assms(1)]
    by (simp add: Packet_AddTrailer_def)
  moreover have "Packet_RemoveTrailer des h0 (pkt @ enc h) = Inr (recv h h0, hsize h, pkt)"
    using des_end [OF assms, of pkt] enc_size [OF assms(1)]
    by (simp add: Packet_RemoveTrailer_def)
  ultimately show ?thesis by simp
qed

end

end
