(* ===== verification/Gma_Header.thy ===== *)
theory Gma_Header
  imports Buffer
begin

text \<open>The header of GMA data packets: class \<open>GmaHeader\<close> of
  \<open>src/contrib/gma/model/gma-header.h\<close> and \<open>gma-header.cc\<close>.

  The record has the members of the class.  The constructor sets \<open>m_optionBytes\<close> and (by the
  member initialiser) the flags, every other member keeps what the memory held, so the
  constructor takes the raw object.  \<open>gh_wf\<close> is the invariant a sender has to keep: the
  option bytes are the sizes of the fields whose flag is set.  Under it the header is an
  interpretation of \<open>pdu_header\<close>.  A setter called twice breaks it, and then the payload
  behind the header is damaged.\<close>

section \<open>The class\<close>

record GmaHeader =
  gh_timeStamp :: u32
  gh_localSequenceNumber :: u8
  gh_sequenceNumber :: u32
  gh_flowId :: u32
  gh_connectionId :: u8
  gh_clientId :: u16
  gh_optionBytes :: u16
  gh_flagsBits :: "bool list"

definition GMA_HEADER_LENGTH :: u16 where "GMA_HEADER_LENGTH = 2"

definition OPTION_SIZE_LIST :: "u8 list" where
  "OPTION_SIZE_LIST = [1, 0, 1, 1, 1, 1, 3, 4, 2, 0, 0, 0, 0, 0, 0, 0]"

definition GmaHeader_ctor :: "GmaHeader \<Rightarrow> GmaHeader" where
  "GmaHeader_ctor raw = raw\<lparr>gh_optionBytes := 0, gh_flagsBits := replicate 16 False\<rparr>"

definition gh_set_flag :: "nat \<Rightarrow> GmaHeader \<Rightarrow> GmaHeader" where
  "gh_set_flag i h = h\<lparr>gh_flagsBits := (gh_flagsBits h)[i := True],
    gh_optionBytes := gh_optionBytes h + ucast (OPTION_SIZE_LIST ! i)\<rparr>"

definition gh_SetTimeStamp :: "u32 \<Rightarrow> GmaHeader \<Rightarrow> GmaHeader" where
  "gh_SetTimeStamp x h = gh_set_flag 7 (h\<lparr>gh_timeStamp := x\<rparr>)"

definition gh_SetSequenceNumber :: "u32 \<Rightarrow> GmaHeader \<Rightarrow> GmaHeader" where
  "gh_SetSequenceNumber x h = gh_set_flag 6 (h\<lparr>gh_sequenceNumber := x\<rparr>)"

definition gh_SetLocalSequenceNumber :: "u8 \<Rightarrow> GmaHeader \<Rightarrow> GmaHeader" where
  "gh_SetLocalSequenceNumber x h = gh_set_flag 5 (h\<lparr>gh_localSequenceNumber := x\<rparr>)"

definition gh_SetFlowId :: "u8 \<Rightarrow> GmaHeader \<Rightarrow> GmaHeader" where
  "gh_SetFlowId x h = gh_set_flag 3 (h\<lparr>gh_flowId := ucast x\<rparr>)"

definition gh_SetConnectionId :: "u8 \<Rightarrow> GmaHeader \<Rightarrow> GmaHeader" where
  "gh_SetConnectionId x h = gh_set_flag 2 (h\<lparr>gh_connectionId := x\<rparr>)"

definition gh_SetClientId :: "u16 \<Rightarrow> GmaHeader \<Rightarrow> GmaHeader" where
  "gh_SetClientId x h = gh_set_flag 8 (h\<lparr>gh_clientId := x\<rparr>)"

definition gh_GetFlowId :: "GmaHeader \<Rightarrow> u8" where
  "gh_GetFlowId h = ucast (gh_flowId h)"

definition gh_GetFlags :: "GmaHeader \<Rightarrow> u16" where
  "gh_GetFlags h =
    foldl (\<lambda>flags ind. flags + push_bit ind (of_bool (gh_flagsBits h ! ind))) 0 [0..<16]"

definition gh_GetSerializedSize :: "GmaHeader \<Rightarrow> u32" where
  "gh_GetSerializedSize h = ucast GMA_HEADER_LENGTH + ucast (gh_optionBytes h)"

definition gh_write_fields :: "GmaHeader \<Rightarrow> iter \<Rightarrow> iter result" where
  "gh_write_fields h start = (let b = gh_flagsBits h in
    rbind (WriteU16 (gh_GetFlags h) start) (\<lambda>start.
    rbind (wr_if (b ! 8) (WriteU16 (gh_clientId h)) start) (\<lambda>start.
    rbind (wr_if (b ! 7) (WriteU32 (gh_timeStamp h)) start) (\<lambda>start.
    rbind (wr_if (b ! 6) (WriteU24 (gh_sequenceNumber h)) start) (\<lambda>start.
    rbind (wr_if (b ! 5) (WriteU8 (gh_localSequenceNumber h)) start) (\<lambda>start.
    rbind (wr_if (b ! 3) (WriteU8 (ucast (gh_flowId h))) start) (\<lambda>start.
    rbind (wr_if (b ! 2) (WriteU8 (gh_connectionId h)) start) Inr)))))))"

definition gh_Serialize :: "GmaHeader \<Rightarrow> iter \<Rightarrow> iter result" where
  "gh_Serialize h start = (let b = gh_flagsBits h in
    rbind (gh_write_fields h start) (\<lambda>start.
    if b ! 0 \<or> b ! 1 \<or> b ! 4 \<or> b ! 9 \<or> b ! 10 \<or> b ! 11 \<or> b ! 12 \<or> b ! 13 \<or> b ! 14 \<or> b ! 15
    then Inl (Fatal ''this field in GMA header is not implemented yet'')
    else Inr start))"

text \<open>The loop of \<open>Deserialize\<close> that splits the flag word and adds up the option sizes.\<close>

definition gh_flag_step :: "bool list \<times> u16 \<times> u32 \<Rightarrow> nat \<Rightarrow> bool list \<times> u16 \<times> u32" where
  "gh_flag_step = (\<lambda>(bits, flags, optionBytes) ind.
    let bits = bits[ind := (flags mod 2 = 1)];
        flags = drop_bit 1 flags
    in (bits, flags, optionBytes + ucast (OPTION_SIZE_LIST ! ind) * of_bool (bits ! ind)))"

definition gh_read_fields :: "GmaHeader \<Rightarrow> bool list \<Rightarrow> u32 \<Rightarrow> iter \<Rightarrow> (GmaHeader \<times> u32) result" where
  "gh_read_fields h b optionBytes start =
    rbind (rd_if (b ! 8) ReadU16 (\<lambda>x. gh_clientId_update (\<lambda>_. x)) h start) (\<lambda>(h, start).
    rbind (rd_if (b ! 7) ReadU32 (\<lambda>x. gh_timeStamp_update (\<lambda>_. x)) h start) (\<lambda>(h, start).
    rbind (rd_if (b ! 6) ReadU24 (\<lambda>x. gh_sequenceNumber_update (\<lambda>_. x)) h start) (\<lambda>(h, start).
    rbind (rd_if (b ! 5) ReadU8 (\<lambda>x. gh_localSequenceNumber_update (\<lambda>_. x)) h start) (\<lambda>(h, start).
    rbind (rd_if (b ! 3) ReadU8 (\<lambda>x. gh_flowId_update (\<lambda>_. ucast x)) h start) (\<lambda>(h, start).
    rbind (rd_if (b ! 2) ReadU8 (\<lambda>x. gh_connectionId_update (\<lambda>_. x)) h start) (\<lambda>(h, start).
    Inr (h, ucast GMA_HEADER_LENGTH + optionBytes)))))))"

definition gh_Deserialize :: "GmaHeader \<Rightarrow> iter \<Rightarrow> (GmaHeader \<times> u32) result" where
  "gh_Deserialize h start =
    rbind (ReadU16 start) (\<lambda>(flags, start).
    case foldl gh_flag_step (gh_flagsBits h, flags, 0) [0..<16] of (b, _, optionBytes) \<Rightarrow>
      gh_read_fields (h\<lparr>gh_flagsBits := b\<rparr>) b optionBytes start)"

section \<open>Flags\<close>

definition gh_option_size :: "bool list \<Rightarrow> 'a :: len word" where
  "gh_option_size b = (\<Sum>i\<leftarrow>[0..<16]. ucast (OPTION_SIZE_LIST ! i) * of_bool (b ! i))"

definition gh_wf :: "GmaHeader \<Rightarrow> bool" where
  "gh_wf h \<longleftrightarrow> length (gh_flagsBits h) = 16 \<and> gh_optionBytes h = gh_option_size (gh_flagsBits h)"

definition gh_implemented :: "bool list \<Rightarrow> bool" where
  "gh_implemented b \<longleftrightarrow> (\<forall>i\<in>set [0, 1, 4, 9, 10, 11, 12, 13, 14, 15]. \<not> b ! i)"

definition gh_ok :: "GmaHeader \<Rightarrow> bool" where
  "gh_ok h \<longleftrightarrow> gh_wf h \<and> gh_implemented (gh_flagsBits h)"

definition gh_fresh :: "GmaHeader \<Rightarrow> bool" where
  "gh_fresh h \<longleftrightarrow> length (gh_flagsBits h) = 16"

lemma gh_option_size_eq:
  "gh_option_size b = of_bool (b ! 0) + of_bool (b ! 2) + of_bool (b ! 3) + of_bool (b ! 4)
    + of_bool (b ! 5) + 3 * of_bool (b ! 6) + 4 * of_bool (b ! 7) + 2 * of_bool (b ! 8)"
  unfolding gh_option_size_def upt_16 OPTION_SIZE_LIST_def by simp

lemma gh_option_size_ucast: "ucast (gh_option_size b :: u16) = (gh_option_size b :: u32)"
  unfolding gh_option_size_eq by (simp add: of_bool_def)

lemma gh_flag_loop:
  assumes "length bs = 16" "n \<le> 16"
  shows "foldl gh_flag_step (bs, flags, 0) [0..<n]
    = (map (bit flags) [0..<n] @ drop n bs, drop_bit n flags,
       \<Sum>i\<leftarrow>[0..<n]. ucast (OPTION_SIZE_LIST ! i) * of_bool (bit flags i))"
  using assms(2)
proof (induction n)
  case (Suc n)
  then have n: "n < length bs" using assms by simp
  have bit: "(drop_bit n flags mod 2 = 1) = bit flags n"
    by (simp add: mod_2_eq_1_iff_bit bit_drop_bit_eq)
  have nth: "(map (bit flags) [0..<Suc n] @ drop (Suc n) bs) ! n = bit flags n"
    by (simp add: nth_append)
  show ?case
    using Suc n unfolding upt_Suc
    by (simp add: gh_flag_step_def bit list_update_take_map [OF n, of "bit flags", unfolded upt_Suc, simplified]
        nth_append Let_def drop_drop ac_simps)
qed simp

lemma gh_GetFlags_bit:
  assumes "length (gh_flagsBits h) = 16"
  shows "bit (gh_GetFlags h) i \<longleftrightarrow> i < 16 \<and> gh_flagsBits h ! i"
  unfolding gh_GetFlags_def using bit_foldl_flags [OF assms, where 'a = 16] by simp

lemma gh_flag_loop_GetFlags:
  assumes "length (gh_flagsBits h) = 16" "length bs = 16"
  shows "foldl gh_flag_step (bs, gh_GetFlags h, 0) [0..<16]
    = (gh_flagsBits h, 0, gh_option_size (gh_flagsBits h))"
proof -
  have "map (bit (gh_GetFlags h)) [0..<16] = gh_flagsBits h"
    using assms(1) by (intro nth_equalityI) (simp_all add: gh_GetFlags_bit)
  moreover have "(\<Sum>i\<leftarrow>[0..<16]. ucast (OPTION_SIZE_LIST ! i) * of_bool (bit (gh_GetFlags h) i))
      = gh_option_size (gh_flagsBits h)"
    unfolding gh_option_size_def
    by (intro arg_cong [where f = sum_list] map_cong) (auto simp: gh_GetFlags_bit assms(1))
  moreover have "drop_bit 16 (gh_GetFlags h) = 0"
    by (rule bit_word_eqI) (simp add: bit_drop_bit_eq)
  ultimately show ?thesis
    using gh_flag_loop [OF assms(2), of 16 "gh_GetFlags h"] assms(2) by simp
qed

section \<open>The header on the wire\<close>

definition gh_enc_fields :: "GmaHeader \<Rightarrow> u8 list" where
  "gh_enc_fields h = (let b = gh_flagsBits h in
    (if b ! 8 then enc16 (gh_clientId h) else [])
    @ (if b ! 7 then enc32 (gh_timeStamp h) else [])
    @ (if b ! 6 then enc24 (gh_sequenceNumber h) else [])
    @ (if b ! 5 then enc8 (gh_localSequenceNumber h) else [])
    @ (if b ! 3 then enc8 (ucast (gh_flowId h)) else [])
    @ (if b ! 2 then enc8 (gh_connectionId h) else [])
    @ [])"

definition gh_enc :: "GmaHeader \<Rightarrow> u8 list" where
  "gh_enc h = enc16 (gh_GetFlags h) @ gh_enc_fields h"

definition gh_recv :: "GmaHeader \<Rightarrow> GmaHeader \<Rightarrow> GmaHeader" where
  "gh_recv h h0 = (let b = gh_flagsBits h in
    h0\<lparr>gh_flagsBits := b,
      gh_clientId := (if b ! 8 then gh_clientId h else gh_clientId h0),
      gh_timeStamp := (if b ! 7 then gh_timeStamp h else gh_timeStamp h0),
      gh_sequenceNumber := (if b ! 6 then take_bit 24 (gh_sequenceNumber h) else gh_sequenceNumber h0),
      gh_localSequenceNumber :=
        (if b ! 5 then gh_localSequenceNumber h else gh_localSequenceNumber h0),
      gh_flowId := (if b ! 3 then take_bit 8 (gh_flowId h) else gh_flowId h0),
      gh_connectionId := (if b ! 2 then gh_connectionId h else gh_connectionId h0)\<rparr>)"

lemma ucast_ucast_take_bit: "ucast (ucast (x :: u32) :: u8) = take_bit 8 x"
  by (rule bit_word_eqI) (auto simp: bit_simps)

lemma gh_write_fields_writes: "writes (gh_write_fields h) (gh_enc h)"
  unfolding gh_write_fields_def [abs_def] gh_enc_def gh_enc_fields_def Let_def
  by (intro writes_bind codec_intros)

lemma gh_writes:
  assumes "gh_implemented (gh_flagsBits h)"
  shows "writes (gh_Serialize h) (gh_enc h)"
  using gh_write_fields_writes [of h] assms
  by (simp add: gh_Serialize_def writes_def gh_implemented_def)

lemma gh_read_fields_yields:
  "yields (gh_read_fields (h0\<lparr>gh_flagsBits := gh_flagsBits h\<rparr>) (gh_flagsBits h) n)
    (gh_enc_fields h) (gh_recv h h0, ucast GMA_HEADER_LENGTH + n)"
  unfolding gh_read_fields_def [abs_def] gh_enc_fields_def Let_def
  apply (rule yields_if [OF reads_U16] yields_if [OF reads_U32] yields_if [OF reads_U24]
      yields_if [OF reads_U8])+
  apply (rule yields_returnI)
  apply (simp add: gh_recv_def Let_def ucast_ucast_take_bit)
  done

lemma gh_Deserialize_enc:
  assumes "gh_wf h" "gh_fresh h0"
  shows "gh_Deserialize h0 (Iter (p @ gh_enc h @ q) (length p)) = Inr (gh_recv h h0, gh_GetSerializedSize h)"
proof (rule yieldsD)
  have b: "length (gh_flagsBits h) = 16" "ucast (gh_optionBytes h) = (gh_option_size (gh_flagsBits h) :: u32)"
    using assms(1) by (simp_all add: gh_wf_def gh_option_size_ucast)
  show "yields (gh_Deserialize h0) (gh_enc h) (gh_recv h h0, gh_GetSerializedSize h)"
    unfolding gh_Deserialize_def [abs_def] gh_enc_def
  proof (rule yields_bind [OF reads_U16])
    show "yields (\<lambda>start. case foldl gh_flag_step (gh_flagsBits h0, gh_GetFlags h, 0) [0..<16] of
        (b, _, optionBytes) \<Rightarrow> gh_read_fields (h0\<lparr>gh_flagsBits := b\<rparr>) b optionBytes start)
      (gh_enc_fields h) (gh_recv h h0, gh_GetSerializedSize h)"
      using gh_read_fields_yields [of h h0 "gh_option_size (gh_flagsBits h)"] assms(2)
      by (simp add: gh_flag_loop_GetFlags b gh_fresh_def gh_GetSerializedSize_def)
  qed
qed

lemma gh_enc_length:
  assumes "gh_ok h"
  shows "length (gh_enc h) = unat (gh_GetSerializedSize h)"
proof -
  let ?b = "gh_flagsBits h"
  have len: "length (gh_enc h) = 2 + (2 * of_bool (?b ! 8) + (4 * of_bool (?b ! 7) + (3 * of_bool (?b ! 6)
      + (of_bool (?b ! 5) + (of_bool (?b ! 3) + of_bool (?b ! 2))))))"
    unfolding gh_enc_def gh_enc_fields_def Let_def length_append by simp
  have small: "length (gh_enc h) < 2 ^ 32"
    unfolding len by (simp add: of_bool_def)
  have "gh_GetSerializedSize h = 2 + gh_option_size ?b" "\<not> ?b ! 0" "\<not> ?b ! 4"
    using assms unfolding gh_ok_def gh_wf_def gh_implemented_def
    by (simp_all add: gh_GetSerializedSize_def GMA_HEADER_LENGTH_def gh_option_size_ucast)
  then have "gh_GetSerializedSize h = of_nat (length (gh_enc h))"
    unfolding len by (simp add: gh_option_size_eq ac_simps)
  then have "unat (gh_GetSerializedSize h) = length (gh_enc h) mod 2 ^ 32"
    by (simp only: unat_of_nat word_size) simp
  with small show ?thesis by simp
qed

interpretation gma_header: pdu_header gh_GetSerializedSize gh_Serialize gh_Deserialize gh_enc gh_ok gh_fresh gh_recv
proof unfold_locales
  show "length (gh_enc h) = unat (gh_GetSerializedSize h)" if "gh_ok h" for h
    using gh_enc_length [OF that] .
  show "writes (gh_Serialize h) (gh_enc h)" if "gh_ok h" for h
    using that by (simp add: gh_ok_def gh_writes)
  show "gh_Deserialize h0 (Iter (p @ gh_enc h @ q) (length p)) = Inr (gh_recv h h0, gh_GetSerializedSize h)"
    if "gh_ok h" "gh_fresh h0" for h h0 p q
    using that by (simp add: gh_ok_def gh_Deserialize_enc)
qed

section \<open>Senders keep the invariant\<close>

lemma gh_ctor_ok [simp]: "gh_ok (GmaHeader_ctor raw)"
  by (simp add: gh_ok_def gh_wf_def gh_implemented_def GmaHeader_ctor_def gh_option_size_eq)

lemma gh_option_size_sum:
  "gh_option_size b = (\<Sum>i\<in>{0..<16}. ucast (OPTION_SIZE_LIST ! i) * of_bool (b ! i))"
  by (simp add: gh_option_size_def sum_list_distinct_conv_sum_set)

lemma gh_option_size_update:
  assumes "\<not> b ! i" "i < 16" "length b = 16"
  shows "gh_option_size (b[i := True]) = (gh_option_size b :: u16) + ucast (OPTION_SIZE_LIST ! i)"
proof -
  let ?s = "\<lambda>b j. ucast (OPTION_SIZE_LIST ! j) * of_bool (b ! j) :: u16"
  have "(\<Sum>j\<in>{0..<16} - {i}. ?s (b[i := True]) j) = (\<Sum>j\<in>{0..<16} - {i}. ?s b j)"
    by (rule sum.cong) auto
  moreover have "(\<Sum>j\<in>{0..<16}. ?s c j) = ?s c i + (\<Sum>j\<in>{0..<16} - {i}. ?s c j)" for c
    using assms(2) by (intro sum.remove) auto
  moreover have "?s (b[i := True]) i = ucast (OPTION_SIZE_LIST ! i)" "?s b i = 0"
    using assms by simp_all
  ultimately show ?thesis
    unfolding gh_option_size_sum by (simp only: add_0 add.commute)
qed

lemma gh_set_flag_ok:
  assumes "gh_ok h" "\<not> gh_flagsBits h ! i" "i \<in> set [2, 3, 5, 6, 7, 8]"
  shows "gh_ok (gh_set_flag i h)"
proof -
  have "gh_wf (gh_set_flag i h)"
    using assms by (auto simp: gh_ok_def gh_wf_def gh_set_flag_def gh_option_size_update)
  moreover have "gh_implemented ((gh_flagsBits h)[i := True])"
    using assms by (auto simp: gh_ok_def gh_implemented_def)
  ultimately show ?thesis by (simp add: gh_ok_def gh_set_flag_def)
qed

lemma gh_set_flag_nth:
  "gh_wf h \<Longrightarrow> i < 16 \<Longrightarrow> gh_flagsBits (gh_set_flag i h) ! j \<longleftrightarrow> j = i \<or> gh_flagsBits h ! j"
  by (auto simp: gh_set_flag_def gh_wf_def nth_list_update)

lemmas gh_setter_defs = gh_SetTimeStamp_def gh_SetSequenceNumber_def gh_SetLocalSequenceNumber_def
  gh_SetFlowId_def gh_SetConnectionId_def gh_SetClientId_def

text \<open>The header of a data packet as the virtual interface fills it in: time stamp, sequence number, local
  sequence number, connection id and flow id, in this order.\<close>

definition gh_data_header :: "GmaHeader \<Rightarrow> u8 \<Rightarrow> u8 \<Rightarrow> u32 \<Rightarrow> u8 \<Rightarrow> u32 \<Rightarrow> GmaHeader" where
  "gh_data_header raw cid flowId sn lsn ts =
    gh_SetFlowId flowId (gh_SetConnectionId cid (gh_SetLocalSequenceNumber lsn (gh_SetSequenceNumber sn
      (gh_SetTimeStamp ts (GmaHeader_ctor raw)))))"

text \<open>C14: gh_data_header, the header of a data packet that a sender fills in (time stamp, sequence number,
  local sequence number, connection id and flow id, over whatever the memory of the object held) and
  adds to a packet, is read back by the receiver: the payload is untouched, the size consumed is the
  size written, 12 bytes, and every field arrives, the sequence number modulo $2^{24}$.\<close>

theorem gh_data_roundtrip:
  "\<exists>h'. rbind (Packet_AddHeader gh_GetSerializedSize gh_Serialize junk
        (gh_data_header raw cid flowId sn lsn ts) pkt)
      (Packet_RemoveHeader gh_Deserialize (GmaHeader_ctor raw')) = Inr (h', 12, pkt)
    \<and> gh_GetSerializedSize (gh_data_header raw cid flowId sn lsn ts) = 12
    \<and> gh_GetFlowId h' = flowId \<and> gh_connectionId h' = cid \<and> gh_sequenceNumber h' = take_bit 24 sn
    \<and> gh_localSequenceNumber h' = lsn \<and> gh_timeStamp h' = ts
    \<and> gh_flagsBits h' = gh_flagsBits (gh_data_header raw cid flowId sn lsn ts)"
proof -
  let ?h = "gh_data_header raw cid flowId sn lsn ts"
  have "gh_ok ?h"
    unfolding gh_ok_def gh_wf_def gh_implemented_def
    by (simp add: gh_data_header_def gh_setter_defs gh_set_flag_def GmaHeader_ctor_def
        OPTION_SIZE_LIST_def gh_option_size_eq)
  moreover have "gh_GetSerializedSize ?h = 12"
    by (simp add: gh_GetSerializedSize_def gh_data_header_def gh_setter_defs gh_set_flag_def GmaHeader_ctor_def
        OPTION_SIZE_LIST_def GMA_HEADER_LENGTH_def)
  moreover have "gh_fresh (GmaHeader_ctor raw')"
    by (simp add: gh_fresh_def GmaHeader_ctor_def)
  moreover have "gh_flagsBits ?h ! 2" "gh_flagsBits ?h ! 3" "gh_flagsBits ?h ! 5" "gh_flagsBits ?h ! 6" "gh_flagsBits ?h ! 7"
    by (simp_all add: gh_data_header_def gh_setter_defs gh_set_flag_def GmaHeader_ctor_def)
  moreover have "gh_flowId ?h = ucast flowId" "gh_connectionId ?h = cid" "gh_sequenceNumber ?h = sn"
      "gh_localSequenceNumber ?h = lsn" "gh_timeStamp ?h = ts"
    by (simp_all add: gh_data_header_def gh_setter_defs gh_set_flag_def GmaHeader_ctor_def)
  moreover have "ucast (take_bit 8 (ucast flowId :: u32)) = flowId"
    by (rule bit_word_eqI) (auto simp: bit_simps)
  ultimately show ?thesis
    using gma_header.remove_add_header [of ?h "GmaHeader_ctor raw'" junk pkt]
    by (simp add: gh_recv_def Let_def gh_GetFlowId_def)
qed

text \<open>The guard of the unimplemented fields.  On a header of any flags, with room for its
  implemented fields, \<open>Serialize\<close> succeeds and writes exactly the encoding when no unimplemented
  flag is set, and ends in the fatal error when one is.\<close>

theorem gh_serialize_guard:
  "gh_Serialize h (Iter (p @ map junk [0..<length (gh_enc h)] @ q) (length p))
    = (if gh_implemented (gh_flagsBits h)
       then Inr (Iter (p @ gh_enc h @ q) (length p + length (gh_enc h)))
       else Inl (Fatal ''this field in GMA header is not implemented yet''))"
  using writesD [OF gh_write_fields_writes [of h], of "map junk [0..<length (gh_enc h)]" p q]
  by (auto simp: gh_Serialize_def gh_implemented_def)

text \<open>A setter called twice on one header breaks the size bookkeeping: the flag is set once,
  the option bytes are counted twice, so the packet carries bytes of old memory between header and
  payload and the receiver takes them for payload.\<close>

theorem gh_setter_twice_damages_payload:
  fixes junk :: "nat \<Rightarrow> u8" and pkt :: "u8 list"
  shows "\<exists>h'. rbind (Packet_AddHeader gh_GetSerializedSize gh_Serialize junk
        (gh_SetLocalSequenceNumber b (gh_SetLocalSequenceNumber a (GmaHeader_ctor raw))) pkt)
      (Packet_RemoveHeader gh_Deserialize (GmaHeader_ctor raw')) = Inr (h', 3, junk 3 # pkt)"
proof -
  let ?h = "gh_SetLocalSequenceNumber b (GmaHeader_ctor raw)"
  let ?h2 = "gh_SetLocalSequenceNumber b (gh_SetLocalSequenceNumber a (GmaHeader_ctor raw))"
  have same: "gh_Serialize ?h2 = gh_Serialize ?h" 
    by (simp add: gh_Serialize_def [abs_def] gh_write_fields_def [abs_def] gh_GetFlags_def gh_SetLocalSequenceNumber_def
        gh_set_flag_def GmaHeader_ctor_def Let_def)
  have size: "unat (gh_GetSerializedSize ?h2) = 4" "gh_GetSerializedSize ?h = 3"
    by (simp_all add: gh_GetSerializedSize_def gh_SetLocalSequenceNumber_def gh_set_flag_def
        GmaHeader_ctor_def OPTION_SIZE_LIST_def GMA_HEADER_LENGTH_def)
  have ok: "gh_ok ?h" "gh_fresh (GmaHeader_ctor raw')"
    using gh_set_flag_ok [of _ 5]
    by (simp_all add: gh_ok_def gh_fresh_def gh_wf_def gh_implemented_def gh_SetLocalSequenceNumber_def
        GmaHeader_ctor_def gh_set_flag_def gh_option_size_eq OPTION_SIZE_LIST_def)
  have enc: "length (gh_enc ?h) = 3"
    using gh_enc_length [OF ok(1)] size(2) by simp
  have "gh_Serialize ?h2 (Iter (map junk [0..<3] @ (junk 3 # pkt)) 0)
      = Inr (Iter (gh_enc ?h @ junk 3 # pkt) 3)"
    using writesD [OF gma_header.ser_writes [OF ok(1)], of "map junk [0..<3]" "[]" "junk 3 # pkt"] enc
    by (simp add: same)
  moreover have "map junk [0..<4] @ pkt = map junk [0..<3] @ (junk 3 # pkt)"
    by (simp add: upt_rec numeral_3_eq_3)
  ultimately have "Packet_AddHeader gh_GetSerializedSize gh_Serialize junk ?h2 pkt
      = Inr (gh_enc ?h @ junk 3 # pkt)"
    by (simp add: Packet_AddHeader_def size)
  then show ?thesis
    using gma_header.remove_header [OF ok, of "junk 3 # pkt"] size(2) by simp
qed

end
