(* ===== verification/Gma_Trailer.thy ===== *)
theory Gma_Trailer
  imports Buffer
begin

text \<open>The trailer form of the GMA encapsulation: class \<open>GmaTrailer\<close> of
  \<open>src/contrib/gma/model/gma-trailer.h\<close> and \<open>gma-trailer.cc\<close>.

  A trailer is written backwards from the end of the packet: the iterator is moved back by the
  size, the optional fields follow, then the flag byte and the next header.  The flag \<open>i\<close> is put
  at bit \<open>7 - i\<close> of the flag byte.  \<open>CalOptionBytes\<close> adds to \<open>m_optionBytes\<close> without resetting
  it, so an object can be read into only while its option bytes are zero (\<open>gt_fresh\<close>).\<close>

section \<open>The class\<close>

record GmaTrailer =
  gt_nextHeader :: u8
  gt_sequenceNumber :: u32
  gt_timeStamp :: u32
  gt_connectionId :: u8
  gt_optionBytes :: u16
  gt_flagsBits :: "bool list"

definition GMA_TRAILER_LENGTH :: u16 where "GMA_TRAILER_LENGTH = 2"

definition gt_optionSize :: "u8 list" where
  "gt_optionSize = [1, 2, 1, 1, 1, 3, 4, 1]"

definition GmaTrailer_ctor :: "GmaTrailer \<Rightarrow> GmaTrailer" where
  "GmaTrailer_ctor raw = raw\<lparr>gt_optionBytes := 0, gt_flagsBits := replicate 8 False\<rparr>"

definition gt_SetNextHeader :: "u8 \<Rightarrow> GmaTrailer \<Rightarrow> GmaTrailer" where
  "gt_SetNextHeader x h = h\<lparr>gt_nextHeader := x\<rparr>"

definition gt_set_flag :: "nat \<Rightarrow> GmaTrailer \<Rightarrow> GmaTrailer" where
  "gt_set_flag i h = h\<lparr>gt_flagsBits := (gt_flagsBits h)[i := True],
    gt_optionBytes := gt_optionBytes h + ucast (gt_optionSize ! i)\<rparr>"

definition gt_SetSequenceNumber :: "u32 \<Rightarrow> GmaTrailer \<Rightarrow> GmaTrailer" where
  "gt_SetSequenceNumber x h = gt_set_flag 5 (h\<lparr>gt_sequenceNumber := x\<rparr>)"

definition gt_SetTimeStamp :: "u32 \<Rightarrow> GmaTrailer \<Rightarrow> GmaTrailer" where
  "gt_SetTimeStamp x h = gt_set_flag 6 (h\<lparr>gt_timeStamp := x\<rparr>)"

definition gt_SetConnectionId :: "u8 \<Rightarrow> GmaTrailer \<Rightarrow> GmaTrailer" where
  "gt_SetConnectionId x h = gt_set_flag 2 (h\<lparr>gt_connectionId := x\<rparr>)"

definition gt_GetSerializedSize :: "GmaTrailer \<Rightarrow> u32" where
  "gt_GetSerializedSize h = ucast GMA_TRAILER_LENGTH + ucast (gt_optionBytes h)"

definition gt_flags_byte :: "bool list \<Rightarrow> u8" where
  "gt_flags_byte bits =
    foldl (\<lambda>flags ind. flags + push_bit (8 - ind - 1) (of_bool (bits ! ind))) 0 [0..<8]"

definition gt_write_fields :: "GmaTrailer \<Rightarrow> iter \<Rightarrow> iter result" where
  "gt_write_fields h start = (let b = gt_flagsBits h in
    rbind (wr_if (b ! 2) (WriteU8 (gt_connectionId h)) start) (\<lambda>start.
    rbind (wr_if (b ! 5) (WriteU24 (gt_sequenceNumber h)) start) (\<lambda>start.
    rbind (wr_if (b ! 6) (WriteU32 (gt_timeStamp h)) start) (\<lambda>start.
    rbind (WriteU8 (gt_flags_byte b) start) (\<lambda>start.
    WriteU8 (gt_nextHeader h) start)))))"

definition gt_Serialize :: "GmaTrailer \<Rightarrow> iter \<Rightarrow> iter result" where
  "gt_Serialize h start =
    rbind (Prev (unat (gt_GetSerializedSize h)) start) (gt_write_fields h)"

text \<open>\<open>CalOptionBytes\<close>: its loop, and the member function.\<close>

definition gt_flag_step :: "bool list \<times> u8 \<times> u16 \<Rightarrow> nat \<Rightarrow> bool list \<times> u8 \<times> u16" where
  "gt_flag_step = (\<lambda>(bits, flags, optionBytes) ind.
    let bits = bits[7 - ind := (flags mod 2 = 1)];
        flags = drop_bit 1 flags
    in (bits, flags, optionBytes + ucast (gt_optionSize ! (7 - ind)) * of_bool (bits ! (7 - ind))))"

definition gt_CalOptionBytes :: "GmaTrailer \<Rightarrow> iter \<Rightarrow> GmaTrailer result" where
  "gt_CalOptionBytes h start =
    rbind (Prev (unat GMA_TRAILER_LENGTH) start) (\<lambda>start.
    rbind (PeekU8 start) (\<lambda>flags.
    case foldl gt_flag_step (gt_flagsBits h, flags, gt_optionBytes h) [0..<8] of
      (b, _, n) \<Rightarrow> Inr (h\<lparr>gt_flagsBits := b, gt_optionBytes := n\<rparr>)))"

definition gt_flag_reread :: "bool list \<Rightarrow> u8 \<Rightarrow> bool list" where
  "gt_flag_reread b flags =
    fst (foldl (\<lambda>(bits, flags) ind. (bits[7 - ind := (flags mod 2 = 1)], drop_bit 1 flags))
      (b, flags) [0..<8])"

definition gt_read_fields :: "bool list \<Rightarrow> GmaTrailer \<Rightarrow> iter \<Rightarrow> (GmaTrailer \<times> u32) result" where
  "gt_read_fields b h start =
    rbind (rd_if (b ! 2) ReadU8 (\<lambda>x. gt_connectionId_update (\<lambda>_. x)) h start) (\<lambda>(h, start).
    rbind (rd_if (b ! 5) ReadU24 (\<lambda>x. gt_sequenceNumber_update (\<lambda>_. x)) h start) (\<lambda>(h, start).
    rbind (rd_if (b ! 6) ReadU32 (\<lambda>x. gt_timeStamp_update (\<lambda>_. x)) h start) (\<lambda>(h, start).
    rbind (ReadU8 start) (\<lambda>(flags, start).
    rbind (ReadU8 start) (\<lambda>(nh, start).
    Inr (h\<lparr>gt_flagsBits := gt_flag_reread (gt_flagsBits h) flags, gt_nextHeader := nh\<rparr>,
         gt_GetSerializedSize h))))))"

definition gt_Deserialize :: "GmaTrailer \<Rightarrow> iter \<Rightarrow> (GmaTrailer \<times> u32) result" where
  "gt_Deserialize h start =
    rbind (gt_CalOptionBytes h start) (\<lambda>h.
    rbind (Prev (unat (gt_GetSerializedSize h)) start) (gt_read_fields (gt_flagsBits h) h))"

section \<open>Flags\<close>

definition gt_option_size :: "bool list \<Rightarrow> 'a :: len word" where
  "gt_option_size b = (\<Sum>i\<leftarrow>[0..<8]. ucast (gt_optionSize ! i) * of_bool (b ! i))"

definition gt_ok :: "GmaTrailer \<Rightarrow> bool" where
  "gt_ok h \<longleftrightarrow> length (gt_flagsBits h) = 8 \<and> gt_optionBytes h = gt_option_size (gt_flagsBits h)
    \<and> (\<forall>i\<in>set [0, 1, 3, 4, 7]. \<not> gt_flagsBits h ! i)"

definition gt_fresh :: "GmaTrailer \<Rightarrow> bool" where
  "gt_fresh h \<longleftrightarrow> length (gt_flagsBits h) = 8 \<and> gt_optionBytes h = 0"

lemma list8E:
  assumes "length xs = 8"
  obtains a b c d e f g h where "xs = [a, b, c, d, e, f, g, h]"
  using assms by (auto simp: length_Suc_conv eval_nat_numeral)

lemma gt_flags_byte_bit:
  assumes "length b = 8" "i < 8"
  shows "bit (gt_flags_byte b) i \<longleftrightarrow> b ! (7 - i)"
proof -
  have "gt_flags_byte b = foldl (\<lambda>fl i. fl + push_bit i (of_bool (rev b ! i))) 0 [0..<8]"
    unfolding gt_flags_byte_def upt_8 using assms(1) by (simp add: rev_nth ac_simps)
  then show ?thesis
    using bit_foldl_flags [of "rev b" 8 i, where 'a = 8] assms by (simp add: rev_nth)
qed

lemma gt_option_size_eq:
  "gt_option_size b = of_bool (b ! 0) + 2 * of_bool (b ! 1) + of_bool (b ! 2) + of_bool (b ! 3)
    + of_bool (b ! 4) + 3 * of_bool (b ! 5) + 4 * of_bool (b ! 6) + of_bool (b ! 7)"
  unfolding gt_option_size_def upt_8 gt_optionSize_def by simp

lemma gt_flag_loop_n:
  assumes "length bs = 8" "n \<le> 8"
  shows "foldl gt_flag_step (bs, flags, m) [0..<n]
    = (take (8 - n) bs @ map (\<lambda>i. bit flags (7 - i)) [8 - n..<8], drop_bit n flags,
       m + (\<Sum>i\<leftarrow>[0..<n]. ucast (gt_optionSize ! (7 - i)) * of_bool (bit flags i)))"
  using assms(2)
proof (induction n)
  case (Suc n)
  then have k: "8 - n = Suc (7 - n)" "7 - n < length bs" "n \<le> 7" using assms(1) by auto
  let ?m = "map (\<lambda>i. bit flags (7 - i))"
  have upd: "(take (8 - n) bs @ ?m [8 - n..<8])[7 - n := bit flags n] = take (7 - n) bs @ ?m [7 - n..<8]"
    using k upt_conv_Cons [of "7 - n" 8]
    by (simp add: take_Suc_conv_app_nth list_update_append)
  have "(drop_bit n flags mod 2 = 1) = bit flags n"
    by (simp add: mod_2_eq_1_iff_bit bit_drop_bit_eq)
  moreover have "(take (7 - n) bs @ ?m [7 - n..<8]) ! (7 - n) = bit flags n"
    using k by (simp add: nth_append)
  ultimately show ?case
    using Suc upd unfolding upt_Suc
    by (simp add: gt_flag_step_def Let_def ac_simps)
qed (use assms in simp)

lemma gt_flag_loop:
  assumes "length bs = 8"
  shows "foldl gt_flag_step (bs, flags, n) [0..<8]
    = (map (\<lambda>i. bit flags (7 - i)) [0..<8], 0, n + gt_option_size (map (\<lambda>i. bit flags (7 - i)) [0..<8]))"
proof -
  have rev: "(\<Sum>i\<leftarrow>[0..<8]. f (7 - i)) = (\<Sum>i\<leftarrow>[0..<8]. f i)" for f :: "nat \<Rightarrow> u16"
    by (simp add: upt_8 ac_simps)
  have "(\<Sum>i\<leftarrow>[0..<8]. ucast (gt_optionSize ! (7 - i)) * of_bool (bit flags i))
      = (\<Sum>i\<leftarrow>[0..<8]. ucast (gt_optionSize ! (7 - i)) * of_bool (bit flags (7 - (7 - i))) :: u16)"
    by (intro arg_cong [where f = sum_list] map_cong) auto
  also have "\<dots> = gt_option_size (map (\<lambda>i. bit flags (7 - i)) [0..<8])"
    unfolding rev [of "\<lambda>i. ucast (gt_optionSize ! i) * of_bool (bit flags (7 - i))"] gt_option_size_def
    by (intro arg_cong [where f = sum_list] map_cong) auto
  finally have sum: "(\<Sum>i\<leftarrow>[0..<8]. ucast (gt_optionSize ! (7 - i)) * of_bool (bit flags i))
      = (gt_option_size (map (\<lambda>i. bit flags (7 - i)) [0..<8]) :: u16)" .
  have "drop_bit 8 flags = 0"
    by (rule bit_word_eqI) (simp add: bit_drop_bit_eq)
  then show ?thesis
    using gt_flag_loop_n [OF assms, of 8 flags n] by (simp add: sum)
qed

lemma gt_flag_reread_eq:
  assumes "length bs = 8"
  shows "gt_flag_reread bs flags = map (\<lambda>i. bit flags (7 - i)) [0..<8]"
  using assms
  by (elim list8E) (simp add: upt_8 gt_flag_reread_def mod_2_eq_1_iff_bit bit_drop_bit_eq,
      simp add: eval_nat_numeral)

lemma gt_flags_byte_map:
  assumes "length b = 8"
  shows "map (\<lambda>i. bit (gt_flags_byte b) (7 - i)) [0..<8] = b"
  using assms by (intro nth_equalityI) (simp_all add: gt_flags_byte_bit)

section \<open>The trailer on the wire\<close>

definition gt_enc :: "GmaTrailer \<Rightarrow> u8 list" where
  "gt_enc h = (let b = gt_flagsBits h in
    (if b ! 2 then enc8 (gt_connectionId h) else [])
    @ (if b ! 5 then enc24 (gt_sequenceNumber h) else [])
    @ (if b ! 6 then enc32 (gt_timeStamp h) else [])
    @ enc8 (gt_flags_byte b) @ enc8 (gt_nextHeader h))"

definition gt_recv :: "GmaTrailer \<Rightarrow> GmaTrailer \<Rightarrow> GmaTrailer" where
  "gt_recv h h0 = (let b = gt_flagsBits h in
    h0\<lparr>gt_flagsBits := b, gt_optionBytes := gt_optionBytes h, gt_nextHeader := gt_nextHeader h,
      gt_connectionId := (if b ! 2 then gt_connectionId h else gt_connectionId h0),
      gt_sequenceNumber := (if b ! 5 then take_bit 24 (gt_sequenceNumber h) else gt_sequenceNumber h0),
      gt_timeStamp := (if b ! 6 then gt_timeStamp h else gt_timeStamp h0)\<rparr>)"

lemma gt_write_fields_writes: "writes (gt_write_fields h) (gt_enc h)"
  unfolding gt_write_fields_def [abs_def] gt_enc_def Let_def
  by (intro writes_bind codec_intros)

lemma gt_read_fields_yields:
  assumes "length (gt_flagsBits h) = 8"
  shows "yields (gt_read_fields (gt_flagsBits h) (h0\<lparr>gt_flagsBits := gt_flagsBits h, gt_optionBytes := gt_optionBytes h\<rparr>))
    (gt_enc h @ []) (gt_recv h h0, gt_GetSerializedSize h)"
  unfolding gt_read_fields_def [abs_def] gt_enc_def Let_def append_assoc
  apply (rule yields_if [OF reads_U8] yields_if [OF reads_U24] yields_if [OF reads_U32]
      yields_bind [OF reads_U8])+
  apply (rule yields_returnI)
  apply (simp add: gt_recv_def Let_def gt_flag_reread_eq gt_flags_byte_map assms gt_GetSerializedSize_def)
  done

lemma gt_enc_length:
  assumes "gt_ok h"
  shows "length (gt_enc h) = unat (gt_GetSerializedSize h)"
proof -
  let ?b = "gt_flagsBits h"
  have len: "length (gt_enc h) = 2 + (of_bool (?b ! 2) + (3 * of_bool (?b ! 5) + 4 * of_bool (?b ! 6)))"
    unfolding gt_enc_def Let_def length_append by simp
  have small: "length (gt_enc h) < 2 ^ 32"
    unfolding len by (simp add: of_bool_def)
  have "gt_optionBytes h = of_bool (?b ! 2) + (3 * of_bool (?b ! 5) + 4 * of_bool (?b ! 6))"
    using assms by (simp add: gt_ok_def gt_option_size_eq)
  then have "gt_GetSerializedSize h = of_nat (length (gt_enc h))"
    unfolding len gt_GetSerializedSize_def GMA_TRAILER_LENGTH_def by (simp add: of_bool_def)
  then have "unat (gt_GetSerializedSize h) = length (gt_enc h) mod 2 ^ 32"
    by (simp only: unat_of_nat word_size) simp
  with small show ?thesis by simp
qed

lemma gt_Serialize_end:
  assumes "gt_ok h" "length mid = length (gt_enc h)"
  shows "gt_Serialize h (Iter (p @ mid) (length p + length mid))
    = Inr (Iter (p @ gt_enc h) (length p + length mid))"
  using writesD [OF gt_write_fields_writes assms(2), of p "[]"] gt_enc_length [OF assms(1)] assms(2)
  by (simp add: gt_Serialize_def Prev_def)

lemma gt_enc_flags_byte:
  "\<exists>pre. gt_enc h = pre @ [gt_flags_byte (gt_flagsBits h), gt_nextHeader h]"
  by (simp add: gt_enc_def Let_def enc8_def)

lemma gt_Deserialize_end:
  assumes "gt_ok h" "gt_fresh h0"
  shows "gt_Deserialize h0 (Iter (p @ gt_enc h) (length p + length (gt_enc h)))
    = Inr (gt_recv h h0, gt_GetSerializedSize h)"
proof -
  obtain pre where pre: "gt_enc h = pre @ [gt_flags_byte (gt_flagsBits h), gt_nextHeader h]"
    using gt_enc_flags_byte by blast
  have ok: "length (gt_flagsBits h) = 8" "gt_option_size (gt_flagsBits h) = gt_optionBytes h"
    using assms(1) by (simp_all add: gt_ok_def)
  let ?h = "h0\<lparr>gt_flagsBits := gt_flagsBits h, gt_optionBytes := gt_optionBytes h\<rparr>"
  have "gt_CalOptionBytes h0 (Iter (p @ gt_enc h) (length p + length (gt_enc h))) = Inr ?h"
    using assms(2) unfolding pre
    by (simp add: gt_CalOptionBytes_def Prev_def PeekU8_def GMA_TRAILER_LENGTH_def nth_append
        gt_fresh_def gt_flag_loop gt_flags_byte_map ok)
  moreover have "gt_GetSerializedSize ?h = gt_GetSerializedSize h"
    by (simp add: gt_GetSerializedSize_def)
  ultimately show ?thesis
    using yieldsD [OF gt_read_fields_yields [OF ok(1)], of h0 p "[]"] gt_enc_length [OF assms(1)]
    by (simp add: gt_Deserialize_def Prev_def)
qed

interpretation gma_trailer: pdu_trailer gt_GetSerializedSize gt_Serialize gt_Deserialize gt_enc gt_ok gt_fresh gt_recv
  by unfold_locales (fact gt_enc_length gt_Serialize_end gt_Deserialize_end)+

text \<open>A trailer with sequence number, time stamp and connection id, filled in by its
  setters and added at the end of any packet, is taken off again by a fresh trailer object: the
  packet is restored and every field arrives.\<close>

theorem gt_roundtrip:
  "\<exists>h'. rbind (Packet_AddTrailer gt_GetSerializedSize gt_Serialize junk
        (gt_SetConnectionId cid (gt_SetTimeStamp ts (gt_SetSequenceNumber sn
          (gt_SetNextHeader nh (GmaTrailer_ctor raw))))) pkt)
      (Packet_RemoveTrailer gt_Deserialize (GmaTrailer_ctor raw')) = Inr (h', 10, pkt)
    \<and> gt_nextHeader h' = nh \<and> gt_sequenceNumber h' = take_bit 24 sn
    \<and> gt_timeStamp h' = ts \<and> gt_connectionId h' = cid"
proof -
  let ?h = "gt_SetConnectionId cid (gt_SetTimeStamp ts (gt_SetSequenceNumber sn
          (gt_SetNextHeader nh (GmaTrailer_ctor raw))))"
  note defs = gt_SetConnectionId_def gt_SetTimeStamp_def gt_SetSequenceNumber_def gt_SetNextHeader_def
    gt_set_flag_def GmaTrailer_ctor_def gt_optionSize_def
  have ok: "gt_ok ?h" "gt_fresh (GmaTrailer_ctor raw')"
    by (simp_all add: defs gt_ok_def gt_option_size_eq gt_fresh_def)
  have flags: "gt_flagsBits ?h ! 2" "gt_flagsBits ?h ! 5" "gt_flagsBits ?h ! 6"
    and fields: "gt_connectionId ?h = cid" "gt_sequenceNumber ?h = sn" "gt_timeStamp ?h = ts"
      "gt_nextHeader ?h = nh" "gt_GetSerializedSize ?h = 10"
    by (simp_all add: defs gt_GetSerializedSize_def GMA_TRAILER_LENGTH_def)
  show ?thesis
    using gma_trailer.remove_add_trailer [OF ok, of junk pkt]
    unfolding gt_recv_def Let_def fields by (simp add: flags)
qed

end
