(* ===== verification/Mx_Control_Header.thy ===== *)
theory Mx_Control_Header
  imports Buffer
begin

text \<open>The header of GMA control messages: class \<open>MxControlHeader\<close> of
  \<open>src/contrib/gma/model/mx-control-header.h\<close> and \<open>mx-control-header.cc\<close>.

  One class carries all messages (Probe 1, TSU 5, ACK 6, TSA 7, QoS testing request 8, QoS
  testing start 9, QoS violation 10); the type selects the fields that are written.  \<open>mx_ok\<close> is
  what a sender establishes: the size bookkeeping fits the type and the vectors have the \<open>m_N\<close>
  entries that \<open>at\<close> is called on.  \<open>mx_recv\<close> is the receiver's object; the one of a TSA keeps
  its old owd entries, which the code does not clear.\<close>

section \<open>The class\<close>

record MxControlHeader =
  mx_type :: u8
  mx_connectionId :: u8
  mx_msgBytes :: u32
  mx_sequenceNumber :: u16
  mx_timeStamp :: u32
  mx_linkStatus :: u8
  mx_probeFlag :: u8
  mx_rCid :: u8
  mx_flowId :: u8
  mx_N :: u8
  mx_owdVector :: "u8 list"
  mx_reverseFlag :: u8
  mx_kVector :: "u8 list"
  mx_L :: u8
  mx_queueingDelayVector :: "u8 list"
  mx_startSn :: u32
  mx_delay :: u8
  mx_trafficDirection :: u8
  mx_testDuration :: u8
  mx_channelId :: u8

definition MX_CONTROL_HEADER_LENGTH :: u16 where "MX_CONTROL_HEADER_LENGTH = 2"

definition MxControlHeader_ctor :: "MxControlHeader \<Rightarrow> MxControlHeader" where
  "MxControlHeader_ctor raw = raw\<lparr>mx_type := 0, mx_connectionId := 0, mx_owdVector := [],
    mx_reverseFlag := 0, mx_kVector := [], mx_queueingDelayVector := [], mx_channelId := UINT8_MAX\<rparr>"

definition mx_GetSerializedSize :: "MxControlHeader \<Rightarrow> u32" where
  "mx_GetSerializedSize h = ucast MX_CONTROL_HEADER_LENGTH + mx_msgBytes h"

definition mx_unknown_type :: error where
  "mx_unknown_type = Fatal ''ONLY implemented Probe(1), TSU(5), ACK(6), TSA(7), and QOS (8, 9, 10) msgs''"

definition mx_SetType :: "u8 \<Rightarrow> MxControlHeader \<Rightarrow> MxControlHeader result" where
  "mx_SetType type h = (let h = h\<lparr>mx_type := type\<rparr> in
    if type = 1 then Inr (h\<lparr>mx_msgBytes := 9\<rparr>)
    else if type = 5 then Inr h
    else if type = 6 then Inr (h\<lparr>mx_msgBytes := 6\<rparr>)
    else if type = 7 then Inr h
    else if type = 8 then Inr (h\<lparr>mx_msgBytes := 10\<rparr>)
    else if type = 9 then Inr (h\<lparr>mx_msgBytes := 9\<rparr>)
    else if type = 10 then Inr (h\<lparr>mx_msgBytes := 8\<rparr>)
    else Inl mx_unknown_type)"

definition mx_SetConnectionId :: "u8 \<Rightarrow> MxControlHeader \<Rightarrow> MxControlHeader" where
  "mx_SetConnectionId x h = h\<lparr>mx_connectionId := x\<rparr>"
definition mx_SetSequenceNumber :: "u16 \<Rightarrow> MxControlHeader \<Rightarrow> MxControlHeader" where
  "mx_SetSequenceNumber x h = h\<lparr>mx_sequenceNumber := x\<rparr>"
definition mx_SetTimeStamp :: "u32 \<Rightarrow> MxControlHeader \<Rightarrow> MxControlHeader" where
  "mx_SetTimeStamp x h = h\<lparr>mx_timeStamp := x\<rparr>"
definition mx_SetProbeFlag :: "u8 \<Rightarrow> MxControlHeader \<Rightarrow> MxControlHeader" where
  "mx_SetProbeFlag x h = h\<lparr>mx_probeFlag := x\<rparr>"
definition mx_SetRCid :: "u8 \<Rightarrow> MxControlHeader \<Rightarrow> MxControlHeader" where
  "mx_SetRCid x h = h\<lparr>mx_rCid := x\<rparr>"
definition mx_SetLinkStatus :: "u8 \<Rightarrow> MxControlHeader \<Rightarrow> MxControlHeader" where
  "mx_SetLinkStatus x h = h\<lparr>mx_linkStatus := x\<rparr>"
definition mx_SetReverseFlag :: "u8 \<Rightarrow> MxControlHeader \<Rightarrow> MxControlHeader" where
  "mx_SetReverseFlag x h = h\<lparr>mx_reverseFlag := x\<rparr>"
definition mx_SetFlowId :: "u8 \<Rightarrow> MxControlHeader \<Rightarrow> MxControlHeader" where
  "mx_SetFlowId x h = h\<lparr>mx_flowId := x\<rparr>"
definition mx_SetL :: "u8 \<Rightarrow> MxControlHeader \<Rightarrow> MxControlHeader" where
  "mx_SetL x h = h\<lparr>mx_L := x\<rparr>"
definition mx_SetStartSn :: "u32 \<Rightarrow> MxControlHeader \<Rightarrow> MxControlHeader" where
  "mx_SetStartSn x h = h\<lparr>mx_startSn := x\<rparr>"
definition mx_SetDelay :: "u8 \<Rightarrow> MxControlHeader \<Rightarrow> MxControlHeader" where
  "mx_SetDelay x h = h\<lparr>mx_delay := x\<rparr>"
definition mx_SetTrafficDirection :: "u8 \<Rightarrow> MxControlHeader \<Rightarrow> MxControlHeader" where
  "mx_SetTrafficDirection x h = h\<lparr>mx_trafficDirection := x\<rparr>"
definition mx_SetTestDuration :: "u8 \<Rightarrow> MxControlHeader \<Rightarrow> MxControlHeader" where
  "mx_SetTestDuration x h = h\<lparr>mx_testDuration := x\<rparr>"
definition mx_SetChannelId :: "u8 \<Rightarrow> MxControlHeader \<Rightarrow> MxControlHeader" where
  "mx_SetChannelId x h = h\<lparr>mx_channelId := x\<rparr>"

text \<open>\<open>SetTsuKandMeasureVectors\<close>: a measurement vector that is not given is filled with
  \<open>UINT8_MAX\<close> by \<open>push_back\<close>, behind what the member held.\<close>

definition mx_fill_vector :: "u8 list \<Rightarrow> u8 list \<Rightarrow> u8 \<Rightarrow> u8 list \<Rightarrow> u8 list result" where
  "mx_fill_vector kVector old n given =
    (if length given = 0 then Inr (old @ replicate (unat n) UINT8_MAX)
     else if length kVector \<noteq> length given
     then Inl (Fatal ''the size of the splitting ratio and min owd measurement is not the same'')
     else Inr given)"

definition mx_SetTsuKandMeasureVectors ::
    "u8 list \<Rightarrow> u8 list \<Rightarrow> u8 list \<Rightarrow> MxControlHeader \<Rightarrow> MxControlHeader result" where
  "mx_SetTsuKandMeasureVectors kVector owdVector queuingDelayVector h =
    (let n = (of_nat (length kVector) :: u8) in
     rbind (rassert (n \<noteq> 0) ''the size of kVector cannot be zero'') (\<lambda>_.
     rbind (mx_fill_vector kVector (mx_owdVector h) n owdVector) (\<lambda>owd.
     rbind (mx_fill_vector kVector (mx_queueingDelayVector h) n queuingDelayVector) (\<lambda>qd.
     Inr (h\<lparr>mx_kVector := kVector, mx_N := n, mx_owdVector := owd, mx_queueingDelayVector := qd,
       mx_msgBytes := 7 + 3 * ucast n\<rparr>)))))"

definition mx_SetTsaOwdVectors :: "u8 list \<Rightarrow> MxControlHeader \<Rightarrow> MxControlHeader result" where
  "mx_SetTsaOwdVectors owdVector h =
    (let n = (of_nat (length owdVector) :: u8) in
     rbind (rassert (n \<noteq> 0) ''the size of owdVector cannot be zero'') (\<lambda>_.
     Inr (h\<lparr>mx_owdVector := owdVector, mx_N := n, mx_msgBytes := 12 + ucast n\<rparr>)))"

section \<open>Serialize and Deserialize\<close>

definition mx_write_probe :: "MxControlHeader \<Rightarrow> iter \<Rightarrow> iter result" where
  "mx_write_probe h start =
    rbind (WriteU16 (mx_sequenceNumber h) start) (\<lambda>start.
    rbind (WriteU8 (mx_linkStatus h) start) (\<lambda>start.
    rbind (WriteU8 (mx_probeFlag h) start) (\<lambda>start.
    rbind (WriteU8 (mx_rCid h) start) (\<lambda>start.
    WriteU32 (mx_timeStamp h) start))))"

definition mx_write_tsu :: "MxControlHeader \<Rightarrow> iter \<Rightarrow> iter result" where
  "mx_write_tsu h start = (let n = unat (mx_N h) in
    rbind (WriteU16 (mx_sequenceNumber h) start) (\<lambda>start.
    rbind (WriteU8 (mx_linkStatus h) start) (\<lambda>start.
    rbind (WriteU8 (mx_reverseFlag h) start) (\<lambda>start.
    rbind (WriteU8 (mx_flowId h) start) (\<lambda>start.
    rbind (WriteU8 (mx_N h) start) (\<lambda>start.
    rbind (WriteAt (mx_kVector h) n start) (\<lambda>start.
    rbind (WriteU8 (mx_L h) start) (\<lambda>start.
    rbind (WriteAt (mx_owdVector h) n start) (\<lambda>start.
    WriteAt (mx_queueingDelayVector h) n start)))))))))"

definition mx_write_ack :: "MxControlHeader \<Rightarrow> iter \<Rightarrow> iter result" where
  "mx_write_ack h start =
    rbind (WriteU16 (mx_sequenceNumber h) start) (\<lambda>start.
    WriteU32 (mx_timeStamp h) start)"

definition mx_write_tsa :: "MxControlHeader \<Rightarrow> iter \<Rightarrow> iter result" where
  "mx_write_tsa h start =
    rbind (WriteU16 (mx_sequenceNumber h) start) (\<lambda>start.
    rbind (WriteU32 (mx_timeStamp h) start) (\<lambda>start.
    rbind (WriteU8 (mx_flowId h) start) (\<lambda>start.
    rbind (WriteU24 (mx_startSn h) start) (\<lambda>start.
    rbind (WriteU8 (mx_delay h) start) (\<lambda>start.
    rbind (WriteU8 (mx_N h) start) (\<lambda>start.
    WriteAt (mx_owdVector h) (unat (mx_N h)) start))))))"

definition mx_write_qos :: "MxControlHeader \<Rightarrow> iter \<Rightarrow> iter result" where
  "mx_write_qos h start =
    rbind (WriteU16 (mx_sequenceNumber h) start) (\<lambda>start.
    rbind (WriteU32 (mx_timeStamp h) start) (\<lambda>start.
    rbind (WriteU8 (mx_flowId h) start) (\<lambda>start.
    rbind (WriteU8 (mx_trafficDirection h) start) (\<lambda>start.
    rbind (WriteU8 (mx_testDuration h) start) (\<lambda>start.
    wr_if (mx_type h = 8) (WriteU8 (mx_channelId h)) start)))))"

definition mx_write_violation :: "MxControlHeader \<Rightarrow> iter \<Rightarrow> iter result" where
  "mx_write_violation h start =
    rbind (WriteU16 (mx_sequenceNumber h) start) (\<lambda>start.
    rbind (WriteU32 (mx_timeStamp h) start) (\<lambda>start.
    rbind (WriteU8 (mx_flowId h) start) (\<lambda>start.
    WriteU8 (mx_trafficDirection h) start)))"

definition mx_write_body :: "MxControlHeader \<Rightarrow> iter \<Rightarrow> iter result" where
  "mx_write_body h start =
    (if mx_type h = 1 then mx_write_probe h start
     else if mx_type h = 5 then mx_write_tsu h start
     else if mx_type h = 6 then mx_write_ack h start
     else if mx_type h = 7 then mx_write_tsa h start
     else if mx_type h = 8 \<or> mx_type h = 9 then mx_write_qos h start
     else if mx_type h = 10 then mx_write_violation h start
     else Inl mx_unknown_type)"

definition mx_Serialize :: "MxControlHeader \<Rightarrow> iter \<Rightarrow> iter result" where
  "mx_Serialize h start =
    rbind (WriteU8 (mx_type h) start) (\<lambda>start.
    rbind (WriteU8 (mx_connectionId h) start) (mx_write_body h))"

text \<open>The size part of \<open>Deserialize\<close>; the vectors are added once \<open>m_N\<close> is known.\<close>

definition mx_base_bytes :: "u8 \<Rightarrow> u32 result" where
  "mx_base_bytes type =
    (if type = 1 then Inr 9
     else if type = 5 then Inr 7
     else if type = 6 then Inr 6
     else if type = 7 then Inr 12
     else if type = 8 then Inr 10
     else if type = 9 then Inr 9
     else if type = 10 then Inr 8
     else Inl mx_unknown_type)"

definition mx_return :: "MxControlHeader \<Rightarrow> (MxControlHeader \<times> u32) result" where
  "mx_return h = Inr (h, ucast MX_CONTROL_HEADER_LENGTH + mx_msgBytes h)"

definition mx_read_probe :: "MxControlHeader \<Rightarrow> iter \<Rightarrow> (MxControlHeader \<times> u32) result" where
  "mx_read_probe h start =
    rbind (ReadU16 start) (\<lambda>(sn, start).
    rbind (ReadU8 start) (\<lambda>(ls, start).
    rbind (ReadU8 start) (\<lambda>(pf, start).
    rbind (ReadU8 start) (\<lambda>(rc, start).
    rbind (ReadU32 start) (\<lambda>(ts, start).
    mx_return (h\<lparr>mx_sequenceNumber := sn, mx_linkStatus := ls, mx_probeFlag := pf, mx_rCid := rc,
      mx_timeStamp := ts\<rparr>))))))"

definition mx_read_tsu :: "MxControlHeader \<Rightarrow> iter \<Rightarrow> (MxControlHeader \<times> u32) result" where
  "mx_read_tsu h start =
    rbind (ReadU16 start) (\<lambda>(sn, start).
    rbind (ReadU8 start) (\<lambda>(ls, start).
    rbind (ReadU8 start) (\<lambda>(rf, start).
    rbind (ReadU8 start) (\<lambda>(fid, start).
    rbind (ReadU8 start) (\<lambda>(n, start).
    rbind (ReadBytes (unat n) start) (\<lambda>(ks, start).
    rbind (ReadU8 start) (\<lambda>(l, start).
    rbind (ReadBytes (unat n) start) (\<lambda>(owd, start).
    rbind (ReadBytes (unat n) start) (\<lambda>(qd, start).
    mx_return (h\<lparr>mx_sequenceNumber := sn, mx_linkStatus := ls, mx_reverseFlag := rf,
      mx_flowId := fid, mx_N := n, mx_kVector := ks, mx_L := l, mx_owdVector := owd,
      mx_queueingDelayVector := qd, mx_msgBytes := mx_msgBytes h + 3 * ucast n\<rparr>))))))))))"

definition mx_read_ack :: "MxControlHeader \<Rightarrow> iter \<Rightarrow> (MxControlHeader \<times> u32) result" where
  "mx_read_ack h start =
    rbind (ReadU16 start) (\<lambda>(sn, start).
    rbind (ReadU32 start) (\<lambda>(ts, start).
    mx_return (h\<lparr>mx_sequenceNumber := sn, mx_timeStamp := ts\<rparr>)))"

definition mx_read_tsa :: "MxControlHeader \<Rightarrow> iter \<Rightarrow> (MxControlHeader \<times> u32) result" where
  "mx_read_tsa h start =
    rbind (ReadU16 start) (\<lambda>(sn, start).
    rbind (ReadU32 start) (\<lambda>(ts, start).
    rbind (ReadU8 start) (\<lambda>(fid, start).
    rbind (ReadU24 start) (\<lambda>(ssn, start).
    rbind (ReadU8 start) (\<lambda>(d, start).
    rbind (ReadU8 start) (\<lambda>(n, start).
    rbind (ReadBytes (unat n) start) (\<lambda>(owd, start).
    mx_return (h\<lparr>mx_sequenceNumber := sn, mx_timeStamp := ts, mx_flowId := fid, mx_startSn := ssn,
      mx_delay := d, mx_N := n, mx_owdVector := mx_owdVector h @ owd,
      mx_msgBytes := mx_msgBytes h + ucast n\<rparr>))))))))"

definition mx_read_qos :: "MxControlHeader \<Rightarrow> iter \<Rightarrow> (MxControlHeader \<times> u32) result" where
  "mx_read_qos h start =
    rbind (ReadU16 start) (\<lambda>(sn, start).
    rbind (ReadU32 start) (\<lambda>(ts, start).
    rbind (ReadU8 start) (\<lambda>(fid, start).
    rbind (ReadU8 start) (\<lambda>(dir, start).
    rbind (ReadU8 start) (\<lambda>(dur, start).
    let h = h\<lparr>mx_sequenceNumber := sn, mx_timeStamp := ts, mx_flowId := fid,
      mx_trafficDirection := dir, mx_testDuration := dur\<rparr> in
    rbind (rd_if (mx_type h = 8) ReadU8 (\<lambda>x. mx_channelId_update (\<lambda>_. x)) h start) (\<lambda>(h, start).
    mx_return h))))))"

definition mx_read_violation :: "MxControlHeader \<Rightarrow> iter \<Rightarrow> (MxControlHeader \<times> u32) result" where
  "mx_read_violation h start =
    rbind (ReadU16 start) (\<lambda>(sn, start).
    rbind (ReadU32 start) (\<lambda>(ts, start).
    rbind (ReadU8 start) (\<lambda>(fid, start).
    rbind (ReadU8 start) (\<lambda>(dir, start).
    mx_return (h\<lparr>mx_sequenceNumber := sn, mx_timeStamp := ts, mx_flowId := fid,
      mx_trafficDirection := dir\<rparr>)))))"

definition mx_read_body :: "MxControlHeader \<Rightarrow> iter \<Rightarrow> (MxControlHeader \<times> u32) result" where
  "mx_read_body h start =
    (if mx_type h = 1 then mx_read_probe h start
     else if mx_type h = 5 then mx_read_tsu h start
     else if mx_type h = 6 then mx_read_ack h start
     else if mx_type h = 7 then mx_read_tsa h start
     else if mx_type h = 8 \<or> mx_type h = 9 then mx_read_qos h start
     else if mx_type h = 10 then mx_read_violation h start
     else Inl mx_unknown_type)"

definition mx_Deserialize :: "MxControlHeader \<Rightarrow> iter \<Rightarrow> (MxControlHeader \<times> u32) result" where
  "mx_Deserialize h start =
    rbind (ReadU8 start) (\<lambda>(type, start).
    rbind (ReadU8 start) (\<lambda>(cid, start).
    rbind (mx_base_bytes type) (\<lambda>n.
    mx_read_body (h\<lparr>mx_type := type, mx_connectionId := cid, mx_msgBytes := n\<rparr>) start)))"

section \<open>The messages on the wire\<close>

definition mx_known_type :: "u8 \<Rightarrow> bool" where
  "mx_known_type t \<longleftrightarrow> t \<in> {1, 5, 6, 7, 8, 9, 10}"

text \<open>What a sender has to establish, per type.\<close>

definition mx_ok :: "MxControlHeader \<Rightarrow> bool" where
  "mx_ok h \<longleftrightarrow> mx_known_type (mx_type h)
    \<and> (mx_type h = 5 \<longrightarrow> unat (mx_N h) \<le> length (mx_kVector h)
        \<and> unat (mx_N h) \<le> length (mx_queueingDelayVector h))
    \<and> (mx_type h = 5 \<or> mx_type h = 7 \<longrightarrow> unat (mx_N h) \<le> length (mx_owdVector h))
    \<and> mx_msgBytes h = (if mx_type h = 5 then 7 + 3 * ucast (mx_N h)
        else if mx_type h = 7 then 12 + ucast (mx_N h)
        else case mx_base_bytes (mx_type h) of Inr n \<Rightarrow> n | Inl _ \<Rightarrow> 0)"

definition mx_enc_probe :: "MxControlHeader \<Rightarrow> u8 list" where
  "mx_enc_probe h = enc16 (mx_sequenceNumber h) @ enc8 (mx_linkStatus h) @ enc8 (mx_probeFlag h)
    @ enc8 (mx_rCid h) @ enc32 (mx_timeStamp h)"

definition mx_enc_tsu :: "MxControlHeader \<Rightarrow> u8 list" where
  "mx_enc_tsu h = (let n = unat (mx_N h) in
    enc16 (mx_sequenceNumber h) @ enc8 (mx_linkStatus h) @ enc8 (mx_reverseFlag h)
    @ enc8 (mx_flowId h) @ enc8 (mx_N h) @ take n (mx_kVector h) @ enc8 (mx_L h)
    @ take n (mx_owdVector h) @ take n (mx_queueingDelayVector h))"

definition mx_enc_ack :: "MxControlHeader \<Rightarrow> u8 list" where
  "mx_enc_ack h = enc16 (mx_sequenceNumber h) @ enc32 (mx_timeStamp h)"

definition mx_enc_tsa :: "MxControlHeader \<Rightarrow> u8 list" where
  "mx_enc_tsa h = enc16 (mx_sequenceNumber h) @ enc32 (mx_timeStamp h) @ enc8 (mx_flowId h)
    @ enc24 (mx_startSn h) @ enc8 (mx_delay h) @ enc8 (mx_N h) @ take (unat (mx_N h)) (mx_owdVector h)"

definition mx_enc_qos :: "MxControlHeader \<Rightarrow> u8 list" where
  "mx_enc_qos h = enc16 (mx_sequenceNumber h) @ enc32 (mx_timeStamp h) @ enc8 (mx_flowId h)
    @ enc8 (mx_trafficDirection h) @ enc8 (mx_testDuration h)
    @ (if mx_type h = 8 then enc8 (mx_channelId h) else [])"

definition mx_enc_violation :: "MxControlHeader \<Rightarrow> u8 list" where
  "mx_enc_violation h = enc16 (mx_sequenceNumber h) @ enc32 (mx_timeStamp h) @ enc8 (mx_flowId h)
    @ enc8 (mx_trafficDirection h)"

definition mx_enc_body :: "MxControlHeader \<Rightarrow> u8 list" where
  "mx_enc_body h =
    (if mx_type h = 1 then mx_enc_probe h
     else if mx_type h = 5 then mx_enc_tsu h
     else if mx_type h = 6 then mx_enc_ack h
     else if mx_type h = 7 then mx_enc_tsa h
     else if mx_type h = 8 \<or> mx_type h = 9 then mx_enc_qos h
     else mx_enc_violation h)"

definition mx_enc :: "MxControlHeader \<Rightarrow> u8 list" where
  "mx_enc h = enc8 (mx_type h) @ enc8 (mx_connectionId h) @ mx_enc_body h"

definition mx_recv :: "MxControlHeader \<Rightarrow> MxControlHeader \<Rightarrow> MxControlHeader" where
  "mx_recv h h0 = (let n = unat (mx_N h); t = mx_type h;
      h1 = h0\<lparr>mx_type := t, mx_connectionId := mx_connectionId h, mx_msgBytes := mx_msgBytes h,
        mx_sequenceNumber := mx_sequenceNumber h\<rparr> in
    if t = 1 then h1\<lparr>mx_linkStatus := mx_linkStatus h, mx_probeFlag := mx_probeFlag h,
      mx_rCid := mx_rCid h, mx_timeStamp := mx_timeStamp h\<rparr>
    else if t = 5 then h1\<lparr>mx_linkStatus := mx_linkStatus h, mx_reverseFlag := mx_reverseFlag h,
      mx_flowId := mx_flowId h, mx_N := mx_N h, mx_kVector := take n (mx_kVector h), mx_L := mx_L h,
      mx_owdVector := take n (mx_owdVector h),
      mx_queueingDelayVector := take n (mx_queueingDelayVector h)\<rparr>
    else if t = 6 then h1\<lparr>mx_timeStamp := mx_timeStamp h\<rparr>
    else if t = 7 then h1\<lparr>mx_timeStamp := mx_timeStamp h, mx_flowId := mx_flowId h,
      mx_startSn := take_bit 24 (mx_startSn h), mx_delay := mx_delay h, mx_N := mx_N h,
      mx_owdVector := mx_owdVector h0 @ take n (mx_owdVector h)\<rparr>
    else if t = 8 \<or> t = 9 then h1\<lparr>mx_timeStamp := mx_timeStamp h, mx_flowId := mx_flowId h,
      mx_trafficDirection := mx_trafficDirection h, mx_testDuration := mx_testDuration h,
      mx_channelId := (if t = 8 then mx_channelId h else mx_channelId h0)\<rparr>
    else h1\<lparr>mx_timeStamp := mx_timeStamp h, mx_flowId := mx_flowId h,
      mx_trafficDirection := mx_trafficDirection h\<rparr>)"

lemmas mx_enc_defs = mx_enc_probe_def mx_enc_tsu_def mx_enc_ack_def mx_enc_tsa_def
  mx_enc_qos_def mx_enc_violation_def

lemmas mx_yields_rules = yields_bind [OF reads_U8] yields_bind [OF reads_U16] yields_bind [OF reads_U32]
  yields_bind [OF reads_U24]

lemma mx_known_cases:
  assumes "mx_known_type t"
  obtains "t = 1" | "t = 5" | "t = 6" | "t = 7" | "t = 8" | "t = 9" | "t = 10"
  using assms by (auto simp: mx_known_type_def)

lemma mx_writes_probe: "writes (mx_write_probe h) (mx_enc_probe h)"
  unfolding mx_write_probe_def [abs_def] mx_enc_probe_def by (intro writes_bind codec_intros)

lemma mx_writes_tsu:
  assumes "unat (mx_N h) \<le> length (mx_kVector h)" "unat (mx_N h) \<le> length (mx_owdVector h)"
    "unat (mx_N h) \<le> length (mx_queueingDelayVector h)"
  shows "writes (mx_write_tsu h) (mx_enc_tsu h)"
  unfolding mx_write_tsu_def [abs_def] mx_enc_tsu_def Let_def
  by (intro writes_bind codec_intros assms)

lemma mx_writes_ack: "writes (mx_write_ack h) (mx_enc_ack h)"
  unfolding mx_write_ack_def [abs_def] mx_enc_ack_def by (intro writes_bind codec_intros)

lemma mx_writes_tsa:
  assumes "unat (mx_N h) \<le> length (mx_owdVector h)"
  shows "writes (mx_write_tsa h) (mx_enc_tsa h)"
  unfolding mx_write_tsa_def [abs_def] mx_enc_tsa_def by (intro writes_bind codec_intros assms)

lemma mx_writes_qos: "writes (mx_write_qos h) (mx_enc_qos h)"
  unfolding mx_write_qos_def [abs_def] mx_enc_qos_def by (intro writes_bind codec_intros)

lemma mx_writes_violation: "writes (mx_write_violation h) (mx_enc_violation h)"
  unfolding mx_write_violation_def [abs_def] mx_enc_violation_def by (intro writes_bind codec_intros)

lemma mx_write_body_writes:
  assumes "mx_ok h"
  shows "writes (mx_write_body h) (mx_enc_body h)"
proof -
  have "mx_known_type (mx_type h)" using assms by (simp add: mx_ok_def)
  then show ?thesis
    by (cases rule: mx_known_cases)
      (use assms in \<open>simp_all add: mx_write_body_def [abs_def] mx_enc_body_def mx_ok_def mx_writes_probe
        mx_writes_tsu mx_writes_ack mx_writes_tsa mx_writes_qos mx_writes_violation\<close>)
qed

lemma mx_writes: "mx_ok h \<Longrightarrow> writes (mx_Serialize h) (mx_enc h)"
  unfolding mx_Serialize_def [abs_def] mx_enc_def
  by (intro writes_bind codec_intros mx_write_body_writes)

text \<open>The object the body of \<open>Deserialize\<close> starts from.\<close>

definition mx_start :: "MxControlHeader \<Rightarrow> u32 \<Rightarrow> MxControlHeader \<Rightarrow> MxControlHeader" where
  "mx_start h n h0 = h0\<lparr>mx_type := mx_type h, mx_connectionId := mx_connectionId h, mx_msgBytes := n\<rparr>"

lemma mx_yields_probe:
  assumes "mx_type h = 1" "mx_msgBytes h = n"
  shows "yields (mx_read_probe (mx_start h n h0)) (mx_enc_probe h @ []) (mx_recv h h0, mx_GetSerializedSize h)"
  unfolding mx_read_probe_def [abs_def] mx_enc_probe_def append_assoc mx_return_def
  apply (rule mx_yields_rules)+
  apply (rule yields_returnI)
  apply (use assms in \<open>simp add: mx_start_def mx_recv_def mx_GetSerializedSize_def\<close>)
  done

lemma mx_yields_tsu:
  assumes "mx_type h = 5" "mx_msgBytes h = n + 3 * ucast (mx_N h)"
    and "unat (mx_N h) \<le> length (mx_kVector h)" "unat (mx_N h) \<le> length (mx_owdVector h)"
    "unat (mx_N h) \<le> length (mx_queueingDelayVector h)"
  shows "yields (mx_read_tsu (mx_start h n h0)) (mx_enc_tsu h @ []) (mx_recv h h0, mx_GetSerializedSize h)"
  unfolding mx_read_tsu_def [abs_def] mx_enc_tsu_def append_assoc mx_return_def Let_def
  apply (rule mx_yields_rules)+
  apply (rule yields_bind [OF reads_Bytes], simp add: assms)
  apply (rule mx_yields_rules)
  apply (rule yields_bind [OF reads_Bytes], simp add: assms)+
  apply (rule yields_returnI)
  apply (use assms in \<open>simp add: mx_start_def mx_recv_def mx_GetSerializedSize_def Let_def\<close>)
  done

lemma mx_yields_ack:
  assumes "mx_type h = 6" "mx_msgBytes h = n"
  shows "yields (mx_read_ack (mx_start h n h0)) (mx_enc_ack h @ []) (mx_recv h h0, mx_GetSerializedSize h)"
  unfolding mx_read_ack_def [abs_def] mx_enc_ack_def append_assoc mx_return_def
  apply (rule mx_yields_rules)+
  apply (rule yields_returnI)
  apply (use assms in \<open>simp add: mx_start_def mx_recv_def mx_GetSerializedSize_def\<close>)
  done

lemma mx_yields_tsa:
  assumes "mx_type h = 7" "mx_msgBytes h = n + ucast (mx_N h)" "unat (mx_N h) \<le> length (mx_owdVector h)"
  shows "yields (mx_read_tsa (mx_start h n h0)) (mx_enc_tsa h @ []) (mx_recv h h0, mx_GetSerializedSize h)"
  unfolding mx_read_tsa_def [abs_def] mx_enc_tsa_def append_assoc mx_return_def
  apply (rule mx_yields_rules)+
  apply (rule yields_bind [OF reads_Bytes], simp add: assms)
  apply (rule yields_returnI)
  apply (use assms in \<open>simp add: mx_start_def mx_recv_def mx_GetSerializedSize_def Let_def\<close>)
  done

lemma mx_yields_qos:
  assumes "mx_type h = 8 \<or> mx_type h = 9" "mx_msgBytes h = n"
  shows "yields (mx_read_qos (mx_start h n h0)) (mx_enc_qos h @ []) (mx_recv h h0, mx_GetSerializedSize h)"
proof -
  let ?h = "mx_start h n h0\<lparr>mx_sequenceNumber := mx_sequenceNumber h, mx_timeStamp := mx_timeStamp h,
    mx_flowId := mx_flowId h, mx_trafficDirection := mx_trafficDirection h,
    mx_testDuration := mx_testDuration h\<rparr>"
  have t: "mx_type ?h = mx_type h" by (simp add: mx_start_def)
  show ?thesis
    unfolding mx_read_qos_def [abs_def] mx_enc_qos_def append_assoc mx_return_def Let_def
    apply (rule mx_yields_rules)+
    apply (simp only: t)
    apply (rule yields_if [OF reads_U8])
    apply (rule yields_returnI)
    using assms(1)
    apply (rule disjE)
     apply (simp add: mx_start_def mx_recv_def mx_GetSerializedSize_def Let_def assms(2))
    apply (simp add: mx_start_def mx_recv_def mx_GetSerializedSize_def Let_def assms(2))
    done
qed

lemma mx_yields_violation:
  assumes "mx_type h = 10" "mx_msgBytes h = n"
  shows "yields (mx_read_violation (mx_start h n h0)) (mx_enc_violation h @ []) (mx_recv h h0, mx_GetSerializedSize h)"
  unfolding mx_read_violation_def [abs_def] mx_enc_violation_def append_assoc mx_return_def
  apply (rule mx_yields_rules)+
  apply (rule yields_returnI)
  apply (use assms in \<open>simp add: mx_start_def mx_recv_def mx_GetSerializedSize_def\<close>)
  done

lemma mx_Deserialize_enc:
  assumes "mx_ok h"
  shows "mx_Deserialize h0 (Iter (p @ mx_enc h @ q) (length p)) = Inr (mx_recv h h0, mx_GetSerializedSize h)"
proof -
  have "mx_known_type (mx_type h)" using assms by (simp add: mx_ok_def)
  then obtain n where n: "mx_base_bytes (mx_type h) = Inr n"
    by (cases rule: mx_known_cases) (simp_all add: mx_base_bytes_def)
  have body: "yields (mx_read_body (mx_start h n h0)) (mx_enc_body h @ []) (mx_recv h h0, mx_GetSerializedSize h)"
    using \<open>mx_known_type (mx_type h)\<close>
  proof (cases rule: mx_known_cases)
    case 1
    then show ?thesis using n assms mx_yields_probe [of h n h0]
      by (simp add: mx_read_body_def [abs_def] mx_enc_body_def mx_ok_def mx_start_def)
  next
    case 2
    then have "mx_msgBytes h = n + 3 * ucast (mx_N h)"
      using n assms by (simp add: mx_ok_def mx_base_bytes_def)
    then show ?thesis using 2 assms mx_yields_tsu [of h n h0]
      by (simp add: mx_read_body_def [abs_def] mx_enc_body_def mx_ok_def mx_start_def)
  next
    case 3
    then show ?thesis using n assms mx_yields_ack [of h n h0]
      by (simp add: mx_read_body_def [abs_def] mx_enc_body_def mx_ok_def mx_start_def)
  next
    case 4
    then have "mx_msgBytes h = n + ucast (mx_N h)"
      using n assms by (simp add: mx_ok_def mx_base_bytes_def)
    then show ?thesis using 4 assms mx_yields_tsa [of h n h0]
      by (simp add: mx_read_body_def [abs_def] mx_enc_body_def mx_ok_def mx_start_def)
  next
    case 5
    then show ?thesis using n assms mx_yields_qos [of h n h0]
      by (simp add: mx_read_body_def [abs_def] mx_enc_body_def mx_ok_def mx_start_def)
  next
    case 6
    then show ?thesis using n assms mx_yields_qos [of h n h0]
      by (simp add: mx_read_body_def [abs_def] mx_enc_body_def mx_ok_def mx_start_def)
  next
    case 7
    then show ?thesis using n assms mx_yields_violation [of h n h0]
      by (simp add: mx_read_body_def [abs_def] mx_enc_body_def mx_ok_def mx_start_def)
  qed
  have "yields (mx_Deserialize h0) (mx_enc h @ []) (mx_recv h h0, mx_GetSerializedSize h)"
    unfolding mx_Deserialize_def [abs_def] mx_enc_def append_assoc
    apply (rule mx_yields_rules)+
    using body n by (simp add: mx_start_def)
  then show ?thesis
    using yieldsD [of "mx_Deserialize h0" "mx_enc h" _ p q] by simp
qed

lemma mx_enc_length:
  assumes "mx_ok h"
  shows "length (mx_enc h) = unat (mx_GetSerializedSize h)"
proof -
  have "mx_known_type (mx_type h)" using assms by (simp add: mx_ok_def)
  then show ?thesis
  proof (cases rule: mx_known_cases)
    case 2
    have "unat (9 + 3 * ucast (mx_N h) :: u32) = 9 + 3 * unat (mx_N h)"
      using mod_less [of "3 * unat (mx_N h)" 4294967296] mod_less [of "9 + 3 * unat (mx_N h)" 4294967296]
        unat_u8_le [of "mx_N h"] by (simp add: unat_word_ariths del: unat_u8_le)
    then show ?thesis using 2 assms
      by (simp add: mx_ok_def mx_enc_def mx_enc_body_def mx_enc_tsu_def mx_GetSerializedSize_def
          MX_CONTROL_HEADER_LENGTH_def Let_def)
  next
    case 4
    have "unat (14 + ucast (mx_N h) :: u32) = 14 + unat (mx_N h)"
      using mod_less [of "14 + unat (mx_N h)" 4294967296] unat_u8_le [of "mx_N h"]
      by (simp add: unat_word_ariths del: unat_u8_le)
    then show ?thesis using 4 assms
      by (simp add: mx_ok_def mx_enc_def mx_enc_body_def mx_enc_tsa_def mx_GetSerializedSize_def
          MX_CONTROL_HEADER_LENGTH_def Let_def)
  qed (use assms in \<open>simp_all add: mx_ok_def mx_enc_def mx_enc_body_def mx_enc_defs
      mx_base_bytes_def mx_GetSerializedSize_def MX_CONTROL_HEADER_LENGTH_def\<close>)
qed

interpretation mx_header: pdu_header mx_GetSerializedSize mx_Serialize mx_Deserialize mx_enc mx_ok "\<lambda>_. True" mx_recv
  by unfold_locales (erule mx_enc_length mx_writes mx_Deserialize_enc)+

section \<open>Properties\<close>

text \<open>C20: The whole class: any control header whose type is known, whose size bookkeeping fits and
  whose vectors have \<open>m_N\<close> entries is added to a packet without an error and read back into any
  header object, leaving the packet as it was; \<open>mx_recv\<close> lists what the object then holds.\<close>

theorem mx_roundtrip:
  assumes "mx_ok h"
  shows "rbind (Packet_AddHeader mx_GetSerializedSize mx_Serialize junk h pkt)
      (Packet_RemoveHeader mx_Deserialize h0) = Inr (mx_recv h h0, mx_GetSerializedSize h, pkt)"
  using assms by (intro mx_header.remove_add_header) simp_all

definition mx_example :: MxControlHeader where
  "mx_example = \<lparr>mx_type = 7, mx_connectionId = 2, mx_msgBytes = 14, mx_sequenceNumber = 500,
    mx_timeStamp = 70000, mx_linkStatus = 0, mx_probeFlag = 0, mx_rCid = 0, mx_flowId = 3, mx_N = 2,
    mx_owdVector = [126, 130], mx_reverseFlag = 0, mx_kVector = [], mx_L = 0,
    mx_queueingDelayVector = [], mx_startSn = 70000, mx_delay = 0, mx_trafficDirection = 0,
    mx_testDuration = 0, mx_channelId = 255\<rparr>"

theorem mx_roundtrip_witness:
  "rbind (Packet_AddHeader mx_GetSerializedSize mx_Serialize (\<lambda>_. 17) mx_example [1, 2, 3])
      (Packet_RemoveHeader mx_Deserialize (MxControlHeader_ctor mx_example))
    = Inr (mx_recv mx_example (MxControlHeader_ctor mx_example), 16, [1, 2, 3])"
proof -
  have "mx_ok mx_example" by code_simp
  moreover have "mx_GetSerializedSize mx_example = 16" by code_simp
  ultimately show ?thesis
    using mx_roundtrip [of mx_example "\<lambda>_. 17" "[1, 2, 3]" "MxControlHeader_ctor mx_example"] by simp
qed

definition mx_tsu :: "MxControlHeader \<Rightarrow> u8 \<Rightarrow> u16 \<Rightarrow> u8 \<Rightarrow> u8 list \<Rightarrow> u8 list \<Rightarrow> u8 list \<Rightarrow> u8
    \<Rightarrow> MxControlHeader result" where
  "mx_tsu raw cid sn ls ks owd qd l =
    rbind (mx_SetType 5 (MxControlHeader_ctor raw)) (\<lambda>h.
    rbind (mx_SetTsuKandMeasureVectors ks owd qd h) (\<lambda>h.
    Inr (mx_SetL l (mx_SetLinkStatus ls (mx_SetSequenceNumber sn (mx_SetConnectionId cid h))))))"

lemma of_nat_u8_length:
  assumes "0 < n" "n \<le> 255"
  shows "(of_nat n :: u8) \<noteq> 0" "unat (of_nat n :: u8) = n"
proof -
  show "unat (of_nat n :: u8) = n"
    using assms by (simp add: unat_of_nat)
  then show "(of_nat n :: u8) \<noteq> 0"
    using assms by auto
qed

text \<open>C32: A traffic splitting update, built as the virtual interface builds it (type, vectors,
  fields, over a fresh object), carries its splitting vector and its two measurement vectors to the
  receiver; a measurement vector that was not given arrives as one \<open>UINT8_MAX\<close> per link.\<close>

theorem mx_tsu_roundtrip:
  assumes "0 < length ks" "length ks \<le> 255"
    and "owd = [] \<or> length owd = length ks" "qd = [] \<or> length qd = length ks"
  shows "\<exists>h h' n. mx_tsu raw cid sn ls ks owd qd l = Inr h
    \<and> rbind (Packet_AddHeader mx_GetSerializedSize mx_Serialize junk h pkt)
        (Packet_RemoveHeader mx_Deserialize h0) = Inr (h', n, pkt)
    \<and> unat n = 9 + 3 * length ks
    \<and> mx_type h' = 5 \<and> mx_connectionId h' = cid \<and> mx_sequenceNumber h' = sn
    \<and> mx_linkStatus h' = ls \<and> mx_L h' = l \<and> mx_kVector h' = ks
    \<and> mx_owdVector h' = (if owd = [] then replicate (length ks) UINT8_MAX else owd)
    \<and> mx_queueingDelayVector h' = (if qd = [] then replicate (length ks) UINT8_MAX else qd)"
proof -
  let ?n = "of_nat (length ks) :: u8"
  note n = of_nat_u8_length [OF assms(1,2)]
  define h where "h = mx_SetL l (mx_SetLinkStatus ls (mx_SetSequenceNumber sn (mx_SetConnectionId cid
    ((MxControlHeader_ctor raw)\<lparr>mx_type := 5, mx_kVector := ks, mx_N := ?n,
      mx_owdVector := (if owd = [] then replicate (length ks) UINT8_MAX else owd),
      mx_queueingDelayVector := (if qd = [] then replicate (length ks) UINT8_MAX else qd),
      mx_msgBytes := 7 + 3 * ucast ?n\<rparr>))))"
  note setters = mx_SetL_def mx_SetLinkStatus_def mx_SetSequenceNumber_def mx_SetConnectionId_def
    MxControlHeader_ctor_def
  have "mx_fill_vector ks [] ?n v = Inr (if v = [] then replicate (length ks) UINT8_MAX else v)"
    if "v = [] \<or> length v = length ks" for v
    using that n by (auto simp: mx_fill_vector_def)
  then have tsu: "mx_tsu raw cid sn ls ks owd qd l = Inr h"
    using assms n by (simp add: mx_tsu_def mx_SetType_def mx_SetTsuKandMeasureVectors_def Let_def
        setters h_def)
  have len: "length (mx_owdVector h) = length ks" "length (mx_queueingDelayVector h) = length ks"
    using assms by (auto simp: h_def setters)
  have fields: "mx_type h = 5" "mx_kVector h = ks" "mx_N h = ?n"
    by (simp_all add: h_def setters)
  have ok: "mx_ok h"
    using n assms by (auto simp: mx_ok_def h_def setters mx_known_type_def)
  have size: "unat (mx_GetSerializedSize h) = 9 + 3 * length ks"
    using mx_enc_length [OF ok] len n
    by (simp add: mx_enc_def mx_enc_body_def mx_enc_tsu_def fields Let_def)
  show ?thesis
    apply (rule exI [of _ h], rule exI [of _ "mx_recv h h0"], rule exI [of _ "mx_GetSerializedSize h"])
    using tsu size mx_header.remove_add_header [OF ok TrueI, of junk pkt h0] n assms
    by (auto simp: mx_recv_def h_def setters Let_def)
qed

theorem mx_tsu_roundtrip_witness:
  "\<exists>h h' n. mx_tsu mx_example 3 9 0 [24, 8] [] [5, 6] 32 = Inr h
    \<and> rbind (Packet_AddHeader mx_GetSerializedSize mx_Serialize (\<lambda>_. 1) h [7])
        (Packet_RemoveHeader mx_Deserialize mx_example) = Inr (h', n, [7])
    \<and> mx_kVector h' = [24, 8] \<and> mx_owdVector h' = [255, 255] \<and> mx_queueingDelayVector h' = [5, 6]"
  using mx_tsu_roundtrip [of "[24, 8]" "[]" "[5, 6]" mx_example 3 9 0 32 "\<lambda>_. 1" "[7]" mx_example]
  by (auto simp: numeral_2_eq_2)

text \<open>The type guard, on both sides: \<open>SetType\<close> accepts exactly the types a message format
  exists for, and \<open>Deserialize\<close> of bytes with another type ends in the same fatal error, whatever
  follows.\<close>

theorem mx_type_guard:
  "is_ok (mx_SetType t h) = mx_known_type t
   \<and> (if mx_known_type t then mx_base_bytes t \<noteq> Inl mx_unknown_type
      else mx_Deserialize h0 (Iter (t # cid # bs) 0) = Inl mx_unknown_type)"
proof -
  have "mx_Deserialize h0 (Iter (t # cid # bs) 0)
      = rbind (mx_base_bytes t) (\<lambda>n. mx_read_body
          (h0\<lparr>mx_type := t, mx_connectionId := cid, mx_msgBytes := n\<rparr>) (Iter (t # cid # bs) (Suc (Suc 0))))"
    by (simp add: mx_Deserialize_def ReadU8_def PeekU8_def)
  then show ?thesis
    by (simp add: mx_SetType_def Let_def mx_known_type_def mx_base_bytes_def)
qed

text \<open>A received traffic splitting acknowledgement is appended to the owd vector the header
  object already holds: read twice into one object, the vector has the entries of both messages
  while \<open>m_N\<close> counts those of the last one.\<close>

theorem mx_tsa_vector_accumulates:
  assumes "mx_ok h" "mx_type h = 7"
  shows "\<exists>h'. Packet_RemoveHeader mx_Deserialize h0 (mx_enc h @ pkt) = Inr (h', mx_GetSerializedSize h, pkt)
    \<and> mx_owdVector h' = mx_owdVector h0 @ take (unat (mx_N h)) (mx_owdVector h) \<and> mx_N h' = mx_N h"
  using mx_header.remove_header [OF assms(1) TrueI, of h0 pkt] assms(2)
  by (simp add: mx_recv_def Let_def)

theorem mx_tsa_vector_accumulates_witness:
  "\<exists>h'. Packet_RemoveHeader mx_Deserialize mx_example (mx_enc mx_example @ [4])
      = Inr (h', mx_GetSerializedSize mx_example, [4]) \<and> mx_owdVector h' = [126, 130, 126, 130] \<and> mx_N h' = 2"
proof -
  have "mx_ok mx_example" "mx_type mx_example = 7" by code_simp+
  moreover have "mx_owdVector mx_example = [126, 130]" "unat (mx_N mx_example) = 2" "mx_N mx_example = 2"
    by code_simp+
  ultimately show ?thesis
    using mx_tsa_vector_accumulates [of mx_example mx_example "[4]"] by simp
qed

end
