(* ===== verification/Std_Map.thy ===== *)
theory Std_Map
  imports Prelude
begin

text \<open>\<open>std::map\<close>: an association list in the order of its keys, which is also the order an
  iterator visits it.  \<open>sm_find\<close> is \<open>find\<close> (None is \<open>end()\<close>), \<open>sm_at\<close> is \<open>at\<close>, \<open>sm_set\<close> the
  assignment \<open>m[k] = v\<close>, \<open>sm_erase\<close> the erasure by key.  \<open>std_map\<close> is the contract the clients use:
  the laws of lookup after an update; it is interpreted on these lists.\<close>

type_synonym ('k, 'v) smap = "('k \<times> 'v) list"

definition sm_find :: "'k \<Rightarrow> ('k, 'v) smap \<Rightarrow> 'v option" where
  "sm_find k m = map_of m k"

fun sm_set :: "'k :: linorder \<Rightarrow> 'v \<Rightarrow> ('k, 'v) smap \<Rightarrow> ('k, 'v) smap" where
  "sm_set k v [] = [(k, v)]"
| "sm_set k v ((k', v') # m) =
    (if k = k' then (k, v) # m
     else if k < k' then (k, v) # (k', v') # m
     else (k', v') # sm_set k v m)"

definition sm_erase :: "'k \<Rightarrow> ('k, 'v) smap \<Rightarrow> ('k, 'v) smap" where
  "sm_erase k m = filter (\<lambda>p. fst p \<noteq> k) m"

definition sm_at :: "'k \<Rightarrow> ('k, 'v) smap \<Rightarrow> 'v result" where
  "sm_at k m = (case sm_find k m of None \<Rightarrow> Inl OutOfRange | Some v \<Rightarrow> Inr v)"

text \<open>\<open>m[k]\<close> read as a value: an absent key is inserted with the value 0 first.\<close>

definition sm_index :: "'k :: linorder \<Rightarrow> ('k, 'v :: zero) smap \<Rightarrow> 'v \<times> ('k, 'v) smap" where
  "sm_index k m = (case sm_find k m of Some v \<Rightarrow> (v, m) | None \<Rightarrow> (0, sm_set k 0 m))"

definition sm_has :: "'k \<Rightarrow> ('k, 'v) smap \<Rightarrow> bool" where
  "sm_has k m = (sm_find k m \<noteq> None)"

definition sm_keys :: "('k, 'v) smap \<Rightarrow> 'k list" where
  "sm_keys m = map fst m"

definition sm_wf :: "('k :: linorder, 'v) smap \<Rightarrow> bool" where
  "sm_wf m \<longleftrightarrow> sorted_wrt (<) (sm_keys m)"

locale std_map =
  fixes find :: "'k \<Rightarrow> 'm \<Rightarrow> 'v option"
    and set_key :: "'k \<Rightarrow> 'v \<Rightarrow> 'm \<Rightarrow> 'm"
    and erase :: "'k \<Rightarrow> 'm \<Rightarrow> 'm"
    and wf :: "'m \<Rightarrow> bool"
  assumes find_set: "find k (set_key k' v m) = (if k = k' then Some v else find k m)"
    and find_erase: "find k (erase k' m) = (if k = k' then None else find k m)"
    and wf_set: "wf m \<Longrightarrow> wf (set_key k v m)"
    and wf_erase: "wf m \<Longrightarrow> wf (erase k m)"
begin

lemma find_set_same: "find k (set_key k v m) = Some v"
  by (simp add: find_set)

lemma find_erase_same: "find k (erase k m) = None"
  by (simp add: find_erase)

lemma set_shadow: "find j (set_key k v (set_key k w m)) = find j (set_key k v m)"
  by (simp add: find_set)

lemma dom_set: "{k. find k (set_key k' v m) \<noteq> None} = insert k' {k. find k m \<noteq> None}"
  by (auto simp: find_set)

lemma dom_erase: "{k. find k (erase k' m) \<noteq> None} = {k. find k m \<noteq> None} - {k'}"
  by (auto simp: find_erase)

end

lemma sm_find_set: "sm_find k (sm_set k' v m) = (if k = k' then Some v else sm_find k m)"
  unfolding sm_find_def by (induction m) auto

lemma sm_find_erase: "sm_find k (sm_erase k' m) = (if k = k' then None else sm_find k m)"
  unfolding sm_find_def sm_erase_def by (induction m) auto

lemma sm_keys_set: "set (sm_keys (sm_set k v m)) = insert k (set (sm_keys m))"
proof (induction m)
  case (Cons p m)
  then show ?case by (cases p) (simp add: sm_keys_def insert_commute insert_absorb2 del: set_map)
qed (simp add: sm_keys_def)

lemma sm_keys_erase: "set (sm_keys (sm_erase k m)) = set (sm_keys m) - {k}"
  unfolding sm_keys_def sm_erase_def by (induction m) auto

lemma sm_wf_Nil [simp]: "sm_wf []"
  by (simp add: sm_wf_def sm_keys_def)

lemma sm_wf_set: "sm_wf m \<Longrightarrow> sm_wf (sm_set k v m)"
proof (induction m)
  case (Cons p m)
  have "set (map fst (sm_set k v m)) = insert k (set (map fst m))"
    using sm_keys_set [of k v m] by (simp add: sm_keys_def)
  with Cons show ?case
    by (cases p) (auto simp: sm_wf_def sm_keys_def not_less le_less)
qed (simp add: sm_wf_def sm_keys_def)

lemma sm_wf_erase: "sm_wf m \<Longrightarrow> sm_wf (sm_erase k m)"
  unfolding sm_wf_def sm_keys_def sm_erase_def by (induction m) auto

interpretation smap: std_map sm_find sm_set sm_erase sm_wf
  by unfold_locales (simp_all add: sm_find_set sm_find_erase sm_wf_set sm_wf_erase)

lemmas sm_simps [simp] = sm_find_set sm_find_erase

lemma sm_find_Nil [simp]: "sm_find k [] = None"
  by (simp add: sm_find_def)

lemma sm_has_iff: "sm_has k m \<longleftrightarrow> k \<in> set (sm_keys m)"
  by (auto simp: sm_has_def sm_find_def sm_keys_def map_of_eq_None_iff)

lemma sm_has_simps [simp]:
  "sm_has k []  = False"
  "sm_has k (sm_set k' v m) \<longleftrightarrow> k = k' \<or> sm_has k m"
  "sm_has k (sm_erase k' m) \<longleftrightarrow> k \<noteq> k' \<and> sm_has k m"
  by (auto simp: sm_has_def)

lemma sm_at_simps [simp]:
  "sm_at k (sm_set k' v m) = (if k = k' then Inr v else sm_at k m)"
  by (simp add: sm_at_def)

lemma sm_at_Inr_iff: "sm_at k m = Inr v \<longleftrightarrow> sm_find k m = Some v"
  by (simp add: sm_at_def split: option.splits)

lemma sm_wf_distinct: "sm_wf m \<Longrightarrow> distinct (sm_keys m)"
  by (simp add: sm_wf_def strict_sorted_iff)

lemma sm_length_keys: "sm_wf m \<Longrightarrow> length m = card (set (sm_keys m))"
  using distinct_card [OF sm_wf_distinct [of m]] by (simp add: sm_keys_def)

lemma sm_find_mem: "sm_wf m \<Longrightarrow> sm_find k m = Some v \<longleftrightarrow> (k, v) \<in> set m"
  using map_of_eq_Some_iff [of m] sm_wf_distinct [of m] by (simp add: sm_find_def sm_keys_def)

lemma set_sm_set: "x \<in> set (sm_set k v m) \<Longrightarrow> x = (k, v) \<or> x \<in> set m"
  by (induction m) (auto split: if_splits)

lemma sm_find_map: "sm_find k (map (\<lambda>(k, f). (k, g f)) m) = map_option g (sm_find k m)"
  by (simp add: sm_find_def map_of_map)

end
