(* ===== verification/Link_State.thy ===== *)
theory Link_State
  imports Std_Map
begin

text \<open>The state of the links: class \<open>LinkState\<close> of \<open>src/contrib/gma/model/link-state.h\<close> and
  \<open>link-state.cc\<close>.

  A link (named by its connection id, \<open>cid\<close>) is down for up to three reasons, each a map of the
  class: control messages failed, the signal is low, the peer's link bit map says so.  The six
  trigger functions record or clear one reason and keep the default link up to date.  The
  abstract view \<open>ls_reasons\<close> is the set of the (reason, cid) pairs that hold; every trigger
  refines an insertion into or a removal from it.

  \<open>Now()\<close> is an argument.  The loops run \<open>uint8_t ind\<close> over \<open>m_cidList\<close>, which ends for lists of
  at most 255 links.\<close>

definition NETWORK_CID :: int where "NETWORK_CID = -1"
definition WIFI_CID :: int where "WIFI_CID = 0"
definition CELLULAR_NR_CID :: int where "CELLULAR_NR_CID = 2"
definition CELLULAR_LTE_CID :: int where "CELLULAR_LTE_CID = 11"

record LinkState =
  ls_cidToLastTestFailTime :: "(u8, time) smap"
  ls_cidToValidTestExpireTime :: "(u8, time) smap"
  ls_qosTestDurationUnit100ms :: u8
  ls_cidToIndexMap :: "(u8, u8) smap"
  ls_defaultLinkCid :: u8
  ls_backupLinkCid :: u32
  ls_ctrFailedLinkMap :: "(u8, bool) smap"
  ls_lowQualityLinkMap :: "(u8, bool) smap"
  ls_bitmapFailedLinkMap :: "(u8, bool) smap"
  ls_skipCidMap :: "(u8, u32) smap"
  ls_nodeId :: u32
  ls_fixDefaultLink :: bool
  ls_cidList :: "u8 list"
  ls_preferLargeCidValue :: bool

definition MIN_QOS_TESTING_INTERVAL :: time where "MIN_QOS_TESTING_INTERVAL = 5000000000"
definition MAX_QOS_VALID_INTERVAL :: time where "MAX_QOS_VALID_INTERVAL = 5000000000"

text \<open>A new object: the attributes have their default values, the maps are empty.\<close>

definition LinkState_new :: LinkState where
  "LinkState_new = \<lparr>ls_cidToLastTestFailTime = [], ls_cidToValidTestExpireTime = [],
    ls_qosTestDurationUnit100ms = 1, ls_cidToIndexMap = [], ls_defaultLinkCid = of_int WIFI_CID,
    ls_backupLinkCid = of_int WIFI_CID, ls_ctrFailedLinkMap = [], ls_lowQualityLinkMap = [],
    ls_bitmapFailedLinkMap = [], ls_skipCidMap = [], ls_nodeId = 0, ls_fixDefaultLink = False,
    ls_cidList = [], ls_preferLargeCidValue = True\<rparr>"

definition ls_SetFixedDefaultCid :: "u8 \<Rightarrow> LinkState \<Rightarrow> LinkState" where
  "ls_SetFixedDefaultCid cid s = s\<lparr>ls_defaultLinkCid := cid, ls_fixDefaultLink := True\<rparr>"

definition ls_IsLinkUp :: "u8 \<Rightarrow> LinkState \<Rightarrow> bool" where
  "ls_IsLinkUp cid s =
    (if sm_find cid (ls_ctrFailedLinkMap s) = None
        \<and> sm_find cid (ls_lowQualityLinkMap s) = None
        \<and> sm_find cid (ls_bitmapFailedLinkMap s) = None
     then True else False)"

text \<open>The two loops of \<open>SetLinkDown\<close> that look for a new default link.\<close>

definition ls_maxOkCid :: "LinkState \<Rightarrow> u8" where
  "ls_maxOkCid s = foldl (\<lambda>maxOkCid cid. if ls_IsLinkUp cid s \<and> cid > maxOkCid then cid else maxOkCid)
    UINT8_MAX (ls_cidList s)"

definition ls_minOkCid :: "LinkState \<Rightarrow> u8" where
  "ls_minOkCid s = foldl (\<lambda>minOkCid cid. if ls_IsLinkUp cid s \<and> cid < minOkCid then cid else minOkCid)
    UINT8_MAX (ls_cidList s)"

definition ls_SetLinkDown :: "u8 \<Rightarrow> LinkState \<Rightarrow> bool \<times> LinkState" where
  "ls_SetLinkDown cid s =
    (if ls_fixDefaultLink s then (False, s)
     else if cid = ls_defaultLinkCid s then
       (if ls_preferLargeCidValue s then
          (let maxOkCid = ls_maxOkCid s in
           if maxOkCid \<noteq> UINT8_MAX then (True, s\<lparr>ls_defaultLinkCid := maxOkCid\<rparr>) else (True, s))
        else
          (let minOkCid = ls_minOkCid s in
           if minOkCid \<noteq> UINT8_MAX then (True, s\<lparr>ls_defaultLinkCid := minOkCid\<rparr>) else (True, s)))
     else (True, s))"

definition ls_SetLinkUp :: "u8 \<Rightarrow> LinkState \<Rightarrow> LinkState" where
  "ls_SetLinkUp cid s =
    (if ls_fixDefaultLink s then s
     else if ls_preferLargeCidValue s then
       (if ls_defaultLinkCid s < cid then s\<lparr>ls_defaultLinkCid := cid\<rparr> else s)
     else
       (if ls_defaultLinkCid s > cid then s\<lparr>ls_defaultLinkCid := cid\<rparr> else s))"

definition ls_CtrlMsgDown :: "u8 \<Rightarrow> LinkState \<Rightarrow> bool \<times> LinkState" where
  "ls_CtrlMsgDown cid s =
    (if ls_IsLinkUp cid s then
       ls_SetLinkDown cid (s\<lparr>ls_ctrFailedLinkMap := sm_set cid True (ls_ctrFailedLinkMap s)\<rparr>)
     else if sm_find cid (ls_ctrFailedLinkMap s) = None then
       (False, s\<lparr>ls_ctrFailedLinkMap := sm_set cid True (ls_ctrFailedLinkMap s)\<rparr>)
     else (False, s))"

definition ls_NoDataDown :: "u8 \<Rightarrow> LinkState \<Rightarrow> LinkState" where
  "ls_NoDataDown cid s = snd (ls_CtrlMsgDown cid s)"

definition ls_CtrlMsgUp :: "u8 \<Rightarrow> LinkState \<Rightarrow> bool \<times> LinkState" where
  "ls_CtrlMsgUp cid s =
    (if \<not> ls_IsLinkUp cid s then
       (if sm_find cid (ls_ctrFailedLinkMap s) \<noteq> None then
          (let s = s\<lparr>ls_ctrFailedLinkMap := sm_erase cid (ls_ctrFailedLinkMap s)\<rparr> in
           if ls_IsLinkUp cid s then (True, ls_SetLinkUp cid s) else (False, s))
        else (False, s))
     else (False, s))"

definition ls_LowRssiDown :: "u8 \<Rightarrow> LinkState \<Rightarrow> bool \<times> LinkState" where
  "ls_LowRssiDown cid s =
    (if ls_IsLinkUp cid s then
       ls_SetLinkDown cid (s\<lparr>ls_lowQualityLinkMap := sm_set cid True (ls_lowQualityLinkMap s)\<rparr>)
     else if sm_find cid (ls_lowQualityLinkMap s) = None then
       (False, s\<lparr>ls_lowQualityLinkMap := sm_set cid True (ls_lowQualityLinkMap s)\<rparr>)
     else (False, s))"

definition ls_HighRssiUp :: "u8 \<Rightarrow> LinkState \<Rightarrow> bool \<times> LinkState" where
  "ls_HighRssiUp cid s =
    (if \<not> ls_IsLinkUp cid s then
       (if sm_find cid (ls_lowQualityLinkMap s) \<noteq> None then
          (let s = s\<lparr>ls_lowQualityLinkMap := sm_erase cid (ls_lowQualityLinkMap s)\<rparr> in
           if ls_IsLinkUp cid s then (True, ls_SetLinkUp cid s) else (False, s))
        else (False, s))
     else (False, s))"

definition ls_LinkBitMapDown :: "u8 \<Rightarrow> LinkState \<Rightarrow> bool \<times> LinkState" where
  "ls_LinkBitMapDown cid s =
    (if ls_IsLinkUp cid s then
       ls_SetLinkDown cid (s\<lparr>ls_bitmapFailedLinkMap := sm_set cid True (ls_bitmapFailedLinkMap s)\<rparr>)
     else if sm_find cid (ls_bitmapFailedLinkMap s) = None then
       (False, s\<lparr>ls_bitmapFailedLinkMap := sm_set cid True (ls_bitmapFailedLinkMap s)\<rparr>)
     else (False, s))"

definition ls_LinkBitMapUp :: "u8 \<Rightarrow> LinkState \<Rightarrow> bool \<times> LinkState" where
  "ls_LinkBitMapUp cid s =
    (if \<not> ls_IsLinkUp cid s then
       (if sm_find cid (ls_bitmapFailedLinkMap s) \<noteq> None then
          (let s = s\<lparr>ls_bitmapFailedLinkMap := sm_erase cid (ls_bitmapFailedLinkMap s)\<rparr> in
           if ls_IsLinkUp cid s then (True, ls_SetLinkUp cid s) else (False, s))
        else (False, s))
     else (False, s))"

definition ls_AddLinkCid :: "u8 \<Rightarrow> LinkState \<Rightarrow> LinkState" where
  "ls_AddLinkCid cid s = (let l = ls_cidList s @ [cid] in
    s\<lparr>ls_cidList := l, ls_cidToIndexMap := sm_set cid (of_nat (length l - 1)) (ls_cidToIndexMap s)\<rparr>)"

definition ls_SetBackupLinkCid :: "u8 \<Rightarrow> LinkState \<Rightarrow> LinkState" where
  "ls_SetBackupLinkCid cid s = s\<lparr>ls_backupLinkCid := ucast cid\<rparr>"

definition ls_GetBackupLinkCid :: "LinkState \<Rightarrow> u8" where
  "ls_GetBackupLinkCid s = ucast (ls_backupLinkCid s)"

definition ls_ConvertCidToString :: "int \<Rightarrow> string result" where
  "ls_ConvertCidToString cid =
    (if cid = WIFI_CID then Inr ''wifi''
     else if cid = CELLULAR_LTE_CID then Inr ''lte''
     else if cid = CELLULAR_NR_CID then Inr ''nr''
     else if cid = NETWORK_CID then Inr ''network''
     else Inl (Fatal ''unkown cid int format.''))"

definition ls_ConvertCidFromString :: "string \<Rightarrow> int result" where
  "ls_ConvertCidFromString cidStr =
    (if cidStr = ''wifi'' then Inr WIFI_CID
     else if cidStr = ''lte'' then Inr CELLULAR_LTE_CID
     else if cidStr = ''nr'' then Inr CELLULAR_NR_CID
     else if cidStr = ''network'' then Inr NETWORK_CID
     else Inl (Fatal ''unkonw CID string format''))"

text \<open>\<open>UpdateLinkQueueingDelay\<close>: a link with a measured queueing delay is skipped for that time;
  without one an old entry is removed (expired or not).\<close>

definition ls_delay_step :: "time \<Rightarrow> (u8, u32) smap \<Rightarrow> u8 \<times> u8 \<Rightarrow> (u8, u32) smap" where
  "ls_delay_step now skip = (\<lambda>(cid, d).
    if d \<noteq> UINT8_MAX \<and> d > 0 then sm_set cid (word_of_int (ms_of now + uint d)) skip
    else if sm_find cid skip \<noteq> None then sm_erase cid skip
    else skip)"

definition ls_UpdateLinkQueueingDelay :: "time \<Rightarrow> u8 list \<Rightarrow> LinkState \<Rightarrow> LinkState result" where
  "ls_UpdateLinkQueueingDelay now queueingDelayVector s =
    rbind (rassert (length queueingDelayVector = length (ls_cidList s))
      ''The size of the delay measurement and cid list is not the same.'') (\<lambda>_.
    let skip = foldl (ls_delay_step now) (ls_skipCidMap s) (zip (ls_cidList s) queueingDelayVector) in
    if length skip = length (ls_cidList s) then Inl (Fatal ''cannot have all link be skipped'')
    else Inr (s\<lparr>ls_skipCidMap := skip\<rparr>))"

definition ls_IsLinkLowQueueingDelay :: "time \<Rightarrow> u8 \<Rightarrow> LinkState \<Rightarrow> bool \<times> LinkState" where
  "ls_IsLinkLowQueueingDelay now cid s =
    (case sm_find cid (ls_skipCidMap s) of
       None \<Rightarrow> (True, s)
     | Some t \<Rightarrow> if uint t \<le> ms_of now
         then (True, s\<lparr>ls_skipCidMap := sm_erase cid (ls_skipCidMap s)\<rparr>)
         else (False, s))"

definition ls_StopLinkSkipping :: "LinkState \<Rightarrow> LinkState" where
  "ls_StopLinkSkipping s = s\<lparr>ls_skipCidMap := []\<rparr>"

section \<open>The triggers and the reasons they record\<close>

datatype link_reason = CtrlFailed | LowQuality | BitmapFailed

fun ls_marked :: "link_reason \<Rightarrow> u8 \<Rightarrow> LinkState \<Rightarrow> bool" where
  "ls_marked CtrlFailed cid s = sm_has cid (ls_ctrFailedLinkMap s)"
| "ls_marked LowQuality cid s = sm_has cid (ls_lowQualityLinkMap s)"
| "ls_marked BitmapFailed cid s = sm_has cid (ls_bitmapFailedLinkMap s)"

lemma link_reason_all: "(\<forall>r. P r) \<longleftrightarrow> P CtrlFailed \<and> P LowQuality \<and> P BitmapFailed"
  by (metis link_reason.exhaust)

lemma ls_IsLinkUp_iff: "ls_IsLinkUp cid s \<longleftrightarrow> (\<forall>r. \<not> ls_marked r cid s)"
proof -
  show ?thesis by (simp add: ls_IsLinkUp_def sm_has_def link_reason_all)
qed

lemma ls_marked_SetLinkDown [simp]: "ls_marked r c (snd (ls_SetLinkDown cid s)) = ls_marked r c s"
  by (cases r) (simp_all add: ls_SetLinkDown_def Let_def)

lemma ls_marked_SetLinkUp [simp]: "ls_marked r c (ls_SetLinkUp cid s) = ls_marked r c s"
  by (cases r) (simp_all add: ls_SetLinkUp_def)

lemma ls_marked_update [simp]:
  "ls_marked r c (s\<lparr>ls_ctrFailedLinkMap := m\<rparr>) = (if r = CtrlFailed then sm_has c m else ls_marked r c s)"
  "ls_marked r c (s\<lparr>ls_lowQualityLinkMap := m\<rparr>) = (if r = LowQuality then sm_has c m else ls_marked r c s)"
  "ls_marked r c (s\<lparr>ls_bitmapFailedLinkMap := m\<rparr>) = (if r = BitmapFailed then sm_has c m else ls_marked r c s)"
  by (cases r; simp)+

text \<open>The contract of a pair of triggers that records and clears one reason.\<close>

locale link_trigger =
  fixes down :: "u8 \<Rightarrow> LinkState \<Rightarrow> bool \<times> LinkState"
    and up :: "u8 \<Rightarrow> LinkState \<Rightarrow> bool \<times> LinkState"
    and reason :: link_reason
  assumes marked_down: "ls_marked r c (snd (down cid s)) \<longleftrightarrow> (r = reason \<and> c = cid) \<or> ls_marked r c s"
    and marked_up: "ls_marked r c (snd (up cid s)) \<longleftrightarrow> \<not> (r = reason \<and> c = cid) \<and> ls_marked r c s"
    and up_flag: "fst (up cid s) \<longleftrightarrow> \<not> ls_IsLinkUp cid s \<and> ls_IsLinkUp cid (snd (up cid s))"
begin

lemma down_is_down: "\<not> ls_IsLinkUp cid (snd (down cid s))"
  by (auto simp: ls_IsLinkUp_iff marked_down)

lemma down_other: "c \<noteq> cid \<Longrightarrow> ls_IsLinkUp c (snd (down cid s)) = ls_IsLinkUp c s"
  by (auto simp: ls_IsLinkUp_iff marked_down)

lemma up_other: "c \<noteq> cid \<Longrightarrow> ls_IsLinkUp c (snd (up cid s)) = ls_IsLinkUp c s"
  by (auto simp: ls_IsLinkUp_iff marked_up)

lemma down_up:
  "ls_IsLinkUp cid (snd (up cid (snd (down cid s)))) \<longleftrightarrow> (\<forall>r. r \<noteq> reason \<longrightarrow> \<not> ls_marked r cid s)"
  by (auto simp: ls_IsLinkUp_iff marked_up marked_down)

lemma up_flag_iff:
  "fst (up cid s) \<longleftrightarrow> ls_marked reason cid s \<and> (\<forall>r. r \<noteq> reason \<longrightarrow> \<not> ls_marked r cid s)"
  by (auto simp: up_flag ls_IsLinkUp_iff marked_up)

end

lemma sm_find_None_iff: "sm_find c m = None \<longleftrightarrow> \<not> sm_has c m"
  by (simp add: sm_has_def)

lemma not_up_if_marked: "ls_marked r c s \<Longrightarrow> \<not> ls_IsLinkUp c s"
  by (auto simp: ls_IsLinkUp_iff)

lemma ls_IsLinkUp_SetLinkUp [simp]: "ls_IsLinkUp c (ls_SetLinkUp cid s) = ls_IsLinkUp c s"
  by (simp add: ls_IsLinkUp_iff)

interpretation ctrl: link_trigger ls_CtrlMsgDown ls_CtrlMsgUp CtrlFailed
proof unfold_locales
  show "ls_marked r c (snd (ls_CtrlMsgDown cid s)) \<longleftrightarrow> (r = CtrlFailed \<and> c = cid) \<or> ls_marked r c s" for r c cid s
    by (auto simp: ls_CtrlMsgDown_def sm_find_None_iff)
  show "ls_marked r c (snd (ls_CtrlMsgUp cid s)) \<longleftrightarrow> \<not> (r = CtrlFailed \<and> c = cid) \<and> ls_marked r c s" for r c cid s
    using not_up_if_marked [of CtrlFailed cid s]
    by (auto simp: ls_CtrlMsgUp_def sm_find_None_iff Let_def)
  show "fst (ls_CtrlMsgUp cid s) \<longleftrightarrow> \<not> ls_IsLinkUp cid s \<and> ls_IsLinkUp cid (snd (ls_CtrlMsgUp cid s))" for cid s
    by (simp add: ls_CtrlMsgUp_def Let_def)
qed

interpretation rssi: link_trigger ls_LowRssiDown ls_HighRssiUp LowQuality
proof unfold_locales
  show "ls_marked r c (snd (ls_LowRssiDown cid s)) \<longleftrightarrow> (r = LowQuality \<and> c = cid) \<or> ls_marked r c s" for r c cid s
    by (auto simp: ls_LowRssiDown_def sm_find_None_iff)
  show "ls_marked r c (snd (ls_HighRssiUp cid s)) \<longleftrightarrow> \<not> (r = LowQuality \<and> c = cid) \<and> ls_marked r c s" for r c cid s
    using not_up_if_marked [of LowQuality cid s]
    by (auto simp: ls_HighRssiUp_def sm_find_None_iff Let_def)
  show "fst (ls_HighRssiUp cid s) \<longleftrightarrow> \<not> ls_IsLinkUp cid s \<and> ls_IsLinkUp cid (snd (ls_HighRssiUp cid s))" for cid s
    by (simp add: ls_HighRssiUp_def Let_def)
qed

interpretation bitmap: link_trigger ls_LinkBitMapDown ls_LinkBitMapUp BitmapFailed
proof unfold_locales
  show "ls_marked r c (snd (ls_LinkBitMapDown cid s)) \<longleftrightarrow> (r = BitmapFailed \<and> c = cid) \<or> ls_marked r c s" for r c cid s
    by (auto simp: ls_LinkBitMapDown_def sm_find_None_iff)
  show "ls_marked r c (snd (ls_LinkBitMapUp cid s)) \<longleftrightarrow> \<not> (r = BitmapFailed \<and> c = cid) \<and> ls_marked r c s" for r c cid s
    using not_up_if_marked [of BitmapFailed cid s]
    by (auto simp: ls_LinkBitMapUp_def sm_find_None_iff Let_def)
  show "fst (ls_LinkBitMapUp cid s) \<longleftrightarrow> \<not> ls_IsLinkUp cid s \<and> ls_IsLinkUp cid (snd (ls_LinkBitMapUp cid s))" for cid s
    by (simp add: ls_LinkBitMapUp_def Let_def)
qed

text \<open>The events a running interface delivers, and a run of them.\<close>

datatype link_event =
    EvCtrlDown u8 | EvCtrlUp u8 | EvNoData u8 | EvRssiLow u8 | EvRssiHigh u8
  | EvBitMapDown u8 | EvBitMapUp u8

fun ls_step :: "link_event \<Rightarrow> LinkState \<Rightarrow> LinkState" where
  "ls_step (EvCtrlDown c) s = snd (ls_CtrlMsgDown c s)"
| "ls_step (EvCtrlUp c) s = snd (ls_CtrlMsgUp c s)"
| "ls_step (EvNoData c) s = ls_NoDataDown c s"
| "ls_step (EvRssiLow c) s = snd (ls_LowRssiDown c s)"
| "ls_step (EvRssiHigh c) s = snd (ls_HighRssiUp c s)"
| "ls_step (EvBitMapDown c) s = snd (ls_LinkBitMapDown c s)"
| "ls_step (EvBitMapUp c) s = snd (ls_LinkBitMapUp c s)"

text \<open>The specification: the set of the reasons that hold.\<close>

definition ls_reasons :: "LinkState \<Rightarrow> (link_reason \<times> u8) set" where
  "ls_reasons s = {(r, c). ls_marked r c s}"

fun spec_step :: "link_event \<Rightarrow> (link_reason \<times> u8) set \<Rightarrow> (link_reason \<times> u8) set" where
  "spec_step (EvCtrlDown c) A = insert (CtrlFailed, c) A"
| "spec_step (EvCtrlUp c) A = A - {(CtrlFailed, c)}"
| "spec_step (EvNoData c) A = insert (CtrlFailed, c) A"
| "spec_step (EvRssiLow c) A = insert (LowQuality, c) A"
| "spec_step (EvRssiHigh c) A = A - {(LowQuality, c)}"
| "spec_step (EvBitMapDown c) A = insert (BitmapFailed, c) A"
| "spec_step (EvBitMapUp c) A = A - {(BitmapFailed, c)}"

lemmas ls_marked_triggers = ctrl.marked_down ctrl.marked_up rssi.marked_down rssi.marked_up
  bitmap.marked_down bitmap.marked_up

lemma ls_step_refines: "ls_reasons (ls_step e s) = spec_step e (ls_reasons s)"
  by (cases e) (auto simp: ls_reasons_def ls_marked_triggers ls_NoDataDown_def)

section \<open>The default link\<close>

lemma foldl_min_props:
  fixes a :: "'a :: linorder"
  assumes "r = foldl (\<lambda>m c. if P c \<and> c < m then c else m) a xs"
  shows "r \<le> a \<and> (\<forall>c\<in>set xs. P c \<longrightarrow> r \<le> c) \<and> (r = a \<or> r \<in> set xs \<and> P r)"
  unfolding assms
proof (induction xs rule: rev_induct)
  case (snoc x xs)
  let ?r = "foldl (\<lambda>m c. if P c \<and> c < m then c else m) a xs"
  show ?case
  proof (cases "P x \<and> x < ?r")
    case True
    then show ?thesis using snoc by (auto intro: order_trans less_imp_le)
  next
    case False
    then show ?thesis using snoc by auto
  qed
qed simp

lemma foldl_max_top:
  assumes "\<And>c. \<not> a < c"
  shows "foldl (\<lambda>m c. if P c \<and> c > m then c else m) a xs = a"
  by (induction xs) (simp_all add: assms)

lemma u8_not_above_max [simp]: "\<not> (UINT8_MAX :: u8) < c"
proof -
  have "uint c \<le> 255" using uint_lt2p [of c] by simp
  then show ?thesis by (simp add: word_less_def)
qed

lemma ls_maxOkCid_stuck: "ls_maxOkCid s = UINT8_MAX"
  unfolding ls_maxOkCid_def by (rule foldl_max_top) simp

lemma ls_defaults_SetLinkDown_large:
  "ls_preferLargeCidValue s \<Longrightarrow> ls_SetLinkDown cid s = (\<not> ls_fixDefaultLink s, s)"
  by (simp add: ls_SetLinkDown_def ls_maxOkCid_stuck Let_def)

definition ls_run :: "link_event list \<Rightarrow> LinkState \<Rightarrow> LinkState" where
  "ls_run es s = fold ls_step es s"

text \<open>C17: The link state refines its specification: after any sequence of triggers, from any
  state, a link is up exactly when every reason recorded against it has been cleared again, where
  the reasons evolve by plain insertion and removal.\<close>

theorem ls_run_refines:
  "ls_reasons (ls_run es s) = fold spec_step es (ls_reasons s)
   \<and> ls_IsLinkUp c (ls_run es s) = (\<forall>r. (r, c) \<notin> fold spec_step es (ls_reasons s))"
proof -
  have "ls_reasons (ls_run es s) = fold spec_step es (ls_reasons s)"
    unfolding ls_run_def by (induction es arbitrary: s) (simp_all add: ls_step_refines)
  then show ?thesis
    by (auto simp: ls_IsLinkUp_iff ls_reasons_def)
qed

text \<open>The update flag of the recovery triggers: it is returned exactly when the call brings
  the link from down to up, that is, when the reason it clears was the last one left.\<close>

theorem ls_up_flags:
  "fst (ls_CtrlMsgUp c s) = (ls_marked CtrlFailed c s \<and> (\<forall>r. r \<noteq> CtrlFailed \<longrightarrow> \<not> ls_marked r c s))
   \<and> fst (ls_HighRssiUp c s) = (ls_marked LowQuality c s \<and> (\<forall>r. r \<noteq> LowQuality \<longrightarrow> \<not> ls_marked r c s))
   \<and> fst (ls_LinkBitMapUp c s) = (ls_marked BitmapFailed c s \<and> (\<forall>r. r \<noteq> BitmapFailed \<longrightarrow> \<not> ls_marked r c s))
   \<and> ls_IsLinkUp c (snd (ls_CtrlMsgUp c (snd (ls_CtrlMsgDown c s))))
      = (\<forall>r. r \<noteq> CtrlFailed \<longrightarrow> \<not> ls_marked r c s)"
  by (simp add: ctrl.up_flag_iff rssi.up_flag_iff bitmap.up_flag_iff ctrl.down_up)

theorem ls_up_flags_witness:
  "fst (ls_CtrlMsgUp 2 (snd (ls_CtrlMsgDown 2 LinkState_new)))
   \<and> \<not> fst (ls_CtrlMsgUp 2 (snd (ls_LowRssiDown 2 (snd (ls_CtrlMsgDown 2 LinkState_new)))))"
proof -
  have "ls_marked CtrlFailed 2 (snd (ls_CtrlMsgDown 2 LinkState_new))
      \<and> \<not> ls_marked LowQuality 2 (snd (ls_CtrlMsgDown 2 LinkState_new))
      \<and> \<not> ls_marked BitmapFailed 2 (snd (ls_CtrlMsgDown 2 LinkState_new))"
    and "ls_marked LowQuality 2 (snd (ls_LowRssiDown 2 (snd (ls_CtrlMsgDown 2 LinkState_new))))"
    by (simp_all add: ctrl.marked_down rssi.marked_down LinkState_new_def)
  then show ?thesis
    using ls_up_flags [of 2 "snd (ls_CtrlMsgDown 2 LinkState_new)"]
      ls_up_flags [of 2 "snd (ls_LowRssiDown 2 (snd (ls_CtrlMsgDown 2 LinkState_new)))"]
    by (simp add: link_reason_all)
qed

text \<open>The small cid preference: when the default link goes down while some link of the list
  (other than cid 255) is up, the default moves to the smallest cid that is up.\<close>

theorem ls_small_default_moves:
  assumes "\<not> ls_fixDefaultLink s" "\<not> ls_preferLargeCidValue s" "cid = ls_defaultLinkCid s"
    and "c \<in> set (ls_cidList s)" "ls_IsLinkUp c s" "c \<noteq> UINT8_MAX"
  defines "s' \<equiv> snd (ls_SetLinkDown cid s)"
  shows "ls_IsLinkUp (ls_defaultLinkCid s') s' \<and> ls_defaultLinkCid s' \<in> set (ls_cidList s)
    \<and> (\<forall>d\<in>set (ls_cidList s). ls_IsLinkUp d s \<longrightarrow> ls_defaultLinkCid s' \<le> d)"
proof -
  have min: "(\<forall>d\<in>set (ls_cidList s). ls_IsLinkUp d s \<longrightarrow> ls_minOkCid s \<le> d)"
    "ls_minOkCid s = UINT8_MAX \<or> ls_minOkCid s \<in> set (ls_cidList s) \<and> ls_IsLinkUp (ls_minOkCid s) s"
    using foldl_min_props [OF ls_minOkCid_def [of s]] by simp_all
  have "ls_minOkCid s \<noteq> UINT8_MAX"
    using min(1) assms(4-6) u8_not_above_max by (metis order_le_less)
  then have s': "s' = s\<lparr>ls_defaultLinkCid := ls_minOkCid s\<rparr>"
    using assms by (simp add: s'_def ls_SetLinkDown_def)
  moreover have "ls_IsLinkUp d s' = ls_IsLinkUp d s" for d
    by (simp add: s' ls_IsLinkUp_def)
  ultimately show ?thesis
    using min \<open>ls_minOkCid s \<noteq> UINT8_MAX\<close> by simp
qed

theorem ls_small_default_moves_witness:
  "ls_defaultLinkCid (snd (ls_SetLinkDown 0 (LinkState_new\<lparr>ls_preferLargeCidValue := False,
      ls_cidList := [0, 11, 2], ls_ctrFailedLinkMap := [(0, True)]\<rparr>))) = 2
   \<and> ls_IsLinkUp 2 (LinkState_new\<lparr>ls_preferLargeCidValue := False,
      ls_cidList := [0, 11, 2], ls_ctrFailedLinkMap := [(0, True)]\<rparr>)"
proof -
  let ?s = "LinkState_new\<lparr>ls_preferLargeCidValue := False, ls_cidList := [0, 11, 2],
    ls_ctrFailedLinkMap := [(0, True)]\<rparr>"
  let ?d = "ls_defaultLinkCid (snd (ls_SetLinkDown 0 ?s))"
  have facts: "\<not> ls_fixDefaultLink ?s" "\<not> ls_preferLargeCidValue ?s" "0 = ls_defaultLinkCid ?s"
    "2 \<in> set (ls_cidList ?s)" "2 \<noteq> UINT8_MAX"
    by (simp_all add: LinkState_new_def WIFI_CID_def)
  moreover have up: "ls_IsLinkUp 2 ?s" "\<not> ls_IsLinkUp 0 (snd (ls_SetLinkDown 0 ?s))" by code_simp+
  ultimately have "?d \<in> set (ls_cidList ?s)" "?d \<le> 2" "ls_IsLinkUp ?d (snd (ls_SetLinkDown 0 ?s))"
    using ls_small_default_moves [of ?s 0 2] by auto
  moreover have "ls_cidList ?s = [0, 11, 2]" "\<not> (11 :: u8) \<le> 2" by simp_all
  ultimately show ?thesis using up by auto
qed

fun ls_is_down_event :: "link_event \<Rightarrow> bool" where
  "ls_is_down_event (EvCtrlDown c) = True"
| "ls_is_down_event (EvNoData c) = True"
| "ls_is_down_event (EvRssiLow c) = True"
| "ls_is_down_event (EvBitMapDown c) = True"
| "ls_is_down_event _ = False"

lemma ls_down_step_large:
  assumes "ls_preferLargeCidValue s" "ls_is_down_event e"
  shows "ls_defaultLinkCid (ls_step e s) = ls_defaultLinkCid s \<and> ls_preferLargeCidValue (ls_step e s)"
  using assms
  by (cases e) (simp_all add: ls_NoDataDown_def ls_CtrlMsgDown_def ls_LowRssiDown_def
      ls_LinkBitMapDown_def ls_defaults_SetLinkDown_large)

text \<open>The large cid preference, which is the default configuration, never moves the default
  link when it fails: the search starts from \<open>UINT8_MAX\<close> and looks for something larger.  Whatever
  triggers report links down, the default link stays the same.\<close>

theorem ls_large_default_never_moves:
  assumes "ls_preferLargeCidValue s" "list_all ls_is_down_event es"
  shows "ls_defaultLinkCid (ls_run es s) = ls_defaultLinkCid s"
proof -
  have "ls_defaultLinkCid (ls_run es s) = ls_defaultLinkCid s \<and> ls_preferLargeCidValue (ls_run es s)"
    using assms unfolding ls_run_def
    by (induction es arbitrary: s) (simp_all add: ls_down_step_large)
  then show ?thesis by simp
qed

theorem ls_large_default_never_moves_witness:
  "ls_defaultLinkCid (ls_run [EvCtrlDown 11] (LinkState_new\<lparr>ls_cidList := [0, 11], ls_defaultLinkCid := 11\<rparr>)) = 11
   \<and> \<not> ls_IsLinkUp 11 (ls_run [EvCtrlDown 11] (LinkState_new\<lparr>ls_cidList := [0, 11], ls_defaultLinkCid := 11\<rparr>))
   \<and> ls_IsLinkUp 0 (ls_run [EvCtrlDown 11] (LinkState_new\<lparr>ls_cidList := [0, 11], ls_defaultLinkCid := 11\<rparr>))"
proof -
  let ?s = "LinkState_new\<lparr>ls_cidList := [0, 11], ls_defaultLinkCid := 11\<rparr>"
  have "ls_preferLargeCidValue ?s" "list_all ls_is_down_event [EvCtrlDown 11]"
    by (simp_all add: LinkState_new_def)
  moreover have "\<not> ls_IsLinkUp 11 (ls_run [EvCtrlDown 11] ?s)" "ls_IsLinkUp 0 (ls_run [EvCtrlDown 11] ?s)"
    by code_simp+
  ultimately show ?thesis
    using ls_large_default_never_moves [of ?s "[EvCtrlDown 11]"] by simp
qed

text \<open>With the small cid preference a default link that went down together with all others
  keeps being the default when a link with a larger cid recovers: there is a run after which the
  default link is down although another link is up.\<close>

theorem ls_small_default_not_restored:
  "\<exists>es. let s = ls_run es (LinkState_new\<lparr>ls_preferLargeCidValue := False, ls_cidList := [0, 2]\<rparr>) in
     ls_IsLinkUp 2 s \<and> 2 \<in> set (ls_cidList s) \<and> \<not> ls_IsLinkUp (ls_defaultLinkCid s) s"
  by (rule exI [of _ "[EvCtrlDown 2, EvCtrlDown 0, EvCtrlUp 2]"]) code_simp

lemma ls_fixed_step:
  assumes "ls_fixDefaultLink s"
  shows "ls_defaultLinkCid (ls_step e s) = ls_defaultLinkCid s \<and> ls_fixDefaultLink (ls_step e s)"
  using assms
  by (cases e) (simp_all add: ls_NoDataDown_def ls_CtrlMsgDown_def ls_LowRssiDown_def
      ls_LinkBitMapDown_def ls_CtrlMsgUp_def ls_HighRssiUp_def ls_LinkBitMapUp_def Let_def
      ls_SetLinkDown_def ls_SetLinkUp_def)

text \<open>A fixed default link is never changed by any trigger.\<close>

theorem ls_fixed_default:
  "ls_defaultLinkCid (ls_run es (ls_SetFixedDefaultCid cid s)) = cid"
proof -
  have "ls_defaultLinkCid (ls_run es t) = ls_defaultLinkCid t" if "ls_fixDefaultLink t" for t
    using that unfolding ls_run_def by (induction es arbitrary: t) (simp_all add: ls_fixed_step)
  then show ?thesis by (simp add: ls_SetFixedDefaultCid_def)
qed

section \<open>Skipping links with a queue\<close>

lemma ls_delay_foldl_other:
  "c \<notin> fst ` set ps \<Longrightarrow> sm_find c (foldl (ls_delay_step now) m ps) = sm_find c m"
  by (induction ps arbitrary: m) (auto simp: ls_delay_step_def)

lemma ls_delay_foldl_find:
  assumes "distinct (map fst ps)" "(c, d) \<in> set ps"
  shows "sm_find c (foldl (ls_delay_step now) m ps)
    = (if d \<noteq> UINT8_MAX \<and> d > 0 then Some (word_of_int (ms_of now + uint d)) else None)"
  using assms
proof (induction ps arbitrary: m)
  case (Cons p ps)
  show ?case
  proof (cases "p = (c, d)")
    case True
    then have "c \<notin> fst ` set ps" using Cons.prems by auto
    then show ?thesis using True
      by (simp add: ls_delay_foldl_other) (auto simp: ls_delay_step_def)
  next
    case False
    then show ?thesis using Cons by simp
  qed
qed simp

lemma ls_delay_foldl_wf:
  assumes "sm_wf m" "set (sm_keys m) \<subseteq> A" "fst ` set ps \<subseteq> A"
  shows "sm_wf (foldl (ls_delay_step now) m ps) \<and> set (sm_keys (foldl (ls_delay_step now) m ps)) \<subseteq> A"
  using assms
proof (induction ps arbitrary: m)
  case (Cons p ps)
  have "sm_wf (ls_delay_step now m p)" "set (sm_keys (ls_delay_step now m p)) \<subseteq> A"
    using Cons.prems by (auto simp: ls_delay_step_def sm_wf_set sm_wf_erase sm_keys_set sm_keys_erase
        split: prod.splits)
  then show ?case using Cons by simp
qed simp

definition ls_skip_wf :: "LinkState \<Rightarrow> bool" where
  "ls_skip_wf s \<longleftrightarrow> distinct (ls_cidList s) \<and> sm_wf (ls_skipCidMap s)
    \<and> set (sm_keys (ls_skipCidMap s)) \<subseteq> set (ls_cidList s)"

text \<open>After a successful update of the queueing delays the skip map is well formed again and
  at least one link of the list is not skipped; the code stops with the fatal error otherwise.\<close>

theorem ls_skip_leaves_a_link:
  assumes "ls_skip_wf s" "ls_UpdateLinkQueueingDelay now qd s = Inr s'"
  shows "ls_skip_wf s' \<and> ls_cidList s' = ls_cidList s
    \<and> (\<exists>c\<in>set (ls_cidList s'). \<forall>t. fst (ls_IsLinkLowQueueingDelay t c s'))"
proof -
  let ?skip = "foldl (ls_delay_step now) (ls_skipCidMap s) (zip (ls_cidList s) qd)"
  have s': "s' = s\<lparr>ls_skipCidMap := ?skip\<rparr>" and len: "length ?skip \<noteq> length (ls_cidList s)"
    using assms(2) by (auto simp: ls_UpdateLinkQueueingDelay_def Let_def rassert_def split: if_splits)
  have keys: "fst ` set (zip (ls_cidList s) qd) \<subseteq> set (ls_cidList s)"
    by (auto dest: set_zip_leftD)
  have wf: "sm_wf ?skip" "set (sm_keys ?skip) \<subseteq> set (ls_cidList s)"
    using ls_delay_foldl_wf [OF _ _ keys, of "ls_skipCidMap s" now] assms(1)
    by (simp_all add: ls_skip_wf_def)
  have "card (set (sm_keys ?skip)) \<noteq> card (set (ls_cidList s))"
    using len assms(1) sm_length_keys [OF wf(1)] by (simp add: ls_skip_wf_def distinct_card)
  then have "set (sm_keys ?skip) \<noteq> set (ls_cidList s)" by auto
  then obtain c where c: "c \<in> set (ls_cidList s)" "c \<notin> set (sm_keys ?skip)"
    using wf(2) by blast
  then have "sm_find c ?skip = None"
    using sm_has_iff [of c ?skip] by (simp add: sm_has_def)
  then have "\<forall>t. fst (ls_IsLinkLowQueueingDelay t c s')"
    by (simp add: s' ls_IsLinkLowQueueingDelay_def)
  then show ?thesis
    using wf c assms(1) by (auto simp: s' ls_skip_wf_def)
qed

theorem ls_skip_leaves_a_link_witness:
  "\<exists>c\<in>{0, 2}. fst (ls_IsLinkLowQueueingDelay 5 c (LinkState_new\<lparr>ls_cidList := [0, 2], ls_skipCidMap := [(0, 20)]\<rparr>))"
proof -
  have "ls_skip_wf (LinkState_new\<lparr>ls_cidList := [0, 2]\<rparr>)"
    by (simp add: ls_skip_wf_def LinkState_new_def sm_keys_def)
  moreover have "ls_UpdateLinkQueueingDelay 9000000 [11, 255] (LinkState_new\<lparr>ls_cidList := [0, 2]\<rparr>)
      = Inr (LinkState_new\<lparr>ls_cidList := [0, 2], ls_skipCidMap := [(0, 20)]\<rparr>)"
    by code_simp
  ultimately show ?thesis
    using ls_skip_leaves_a_link [of "LinkState_new\<lparr>ls_cidList := [0, 2]\<rparr>" 9000000 "[11, 255]"] by auto
qed

text \<open>The skip window: after an update that succeeds, the link at position \<open>i\<close> is
  not skipped at all when no delay was measured for it (0 or \<open>UINT8_MAX\<close>), and otherwise is skipped
  exactly until the measured delay has passed.\<close>

theorem ls_skip_window:
  assumes "distinct (ls_cidList s)" "ls_UpdateLinkQueueingDelay now qd s = Inr s'"
    and "i < length (ls_cidList s)" "0 \<le> now" "ms_of now + 255 < 2 ^ 32"
  shows "fst (ls_IsLinkLowQueueingDelay t (ls_cidList s ! i) s') \<longleftrightarrow>
    qd ! i = 0 \<or> qd ! i = UINT8_MAX \<or> ms_of now + uint (qd ! i) \<le> ms_of t"
proof -
  let ?ps = "zip (ls_cidList s) qd"
  have s': "s' = s\<lparr>ls_skipCidMap := foldl (ls_delay_step now) (ls_skipCidMap s) ?ps\<rparr>"
    and len: "length qd = length (ls_cidList s)"
    using assms(2) by (auto simp: ls_UpdateLinkQueueingDelay_def Let_def rassert_def split: if_splits)
  have "distinct (map fst ?ps)" using assms(1) len by simp
  moreover have "(ls_cidList s ! i, qd ! i) \<in> set ?ps"
    using assms(3) len by (auto simp: set_zip)
  ultimately have f: "sm_find (ls_cidList s ! i) (ls_skipCidMap s')
      = (if qd ! i \<noteq> UINT8_MAX \<and> qd ! i > 0 then Some (word_of_int (ms_of now + uint (qd ! i))) else None)"
    by (simp add: s' ls_delay_foldl_find)
  have "uint (qd ! i) \<le> 255" using uint_lt2p [of "qd ! i"] by simp
  then have "uint (word_of_int (ms_of now + uint (qd ! i)) :: u32) = ms_of now + uint (qd ! i)"
    using assms(4,5) by (intro uint_word_of_int_u32) (simp_all add: pos_imp_zdiv_nonneg_iff)
  then show ?thesis
    using f by (auto simp: ls_IsLinkLowQueueingDelay_def word_gt_0 split: if_splits)
qed

theorem ls_skip_window_witness:
  "\<not> fst (ls_IsLinkLowQueueingDelay 19999999 0 (LinkState_new\<lparr>ls_cidList := [0, 2], ls_skipCidMap := [(0, 20)]\<rparr>))
   \<and> fst (ls_IsLinkLowQueueingDelay 20000000 0 (LinkState_new\<lparr>ls_cidList := [0, 2], ls_skipCidMap := [(0, 20)]\<rparr>))"
proof -
  have "ls_UpdateLinkQueueingDelay 9000000 [11, 255] (LinkState_new\<lparr>ls_cidList := [0, 2]\<rparr>)
      = Inr (LinkState_new\<lparr>ls_cidList := [0, 2], ls_skipCidMap := [(0, 20)]\<rparr>)"
    by code_simp
  then show ?thesis
    using ls_skip_window [of "LinkState_new\<lparr>ls_cidList := [0, 2]\<rparr>" 9000000 "[11, 255]"
        "LinkState_new\<lparr>ls_cidList := [0, 2], ls_skipCidMap := [(0, 20)]\<rparr>" 0] by simp
qed

text \<open>The two conversions of the cid format are inverse to each other, and each is defined
  exactly on the four networks.\<close>

theorem ls_cid_format_roundtrip:
  "(ls_ConvertCidToString c = Inr n) = (ls_ConvertCidFromString n = Inr c)
   \<and> is_ok (ls_ConvertCidToString c) = (c \<in> {-1, 0, 2, 11})
   \<and> is_ok (ls_ConvertCidFromString n) = (n \<in> {''wifi'', ''lte'', ''nr'', ''network''})"
  by (auto simp: ls_ConvertCidToString_def ls_ConvertCidFromString_def WIFI_CID_def
      CELLULAR_LTE_CID_def CELLULAR_NR_CID_def NETWORK_CID_def)

end
