(* ===== verification/Tx_Control.thy ===== *)
theory Tx_Control
  imports Link_State Mx_Control_Header "HOL-Library.Multiset"
begin

text \<open>The transmit side traffic splitting: class \<open>GmaTxControl\<close> of
  \<open>src/contrib/gma/model/gma-tx-control.h\<close> and \<open>gma-tx-control.cc\<close>.

  A traffic splitting update (TSU) carries how many of the next \<open>L\<close> packets go over each link.
  \<open>RcvCtrlMsg\<close> turns it into \<open>m_cidVector\<close>, one link per packet, in bit reversed order;
  \<open>RxSideAlgorithm\<close> walks round it.  The locale \<open>ring_cursor\<close> is the contract of such a walk:
  the outputs of any run are determined, and every window of one round visits every entry once.
  It is interpreted on \<open>GetNextCidFromTsu\<close> and on \<open>RxSideAlgorithm\<close>.

  With \<open>L = 1\<close> (steer mode) the vector holds the primary link and \<open>m_cidDupVector\<close> the links that
  get duplicates.  The link state the object points to is an argument.\<close>

section \<open>The class\<close>

datatype GmaTxAlgorithm = TxSide | RxSide | DefaultLink

record GmaTxControl =
  tc_algorithm :: GmaTxAlgorithm
  tc_cidVector :: "u8 list"
  tc_cidDupVector :: "u8 list"
  tc_paramL :: u8
  tc_splittingIndex :: u8

definition GmaTxControl_new :: GmaTxControl where
  "GmaTxControl_new = \<lparr>tc_algorithm = RxSide, tc_cidVector = [], tc_cidDupVector = [],
    tc_paramL = 0, tc_splittingIndex = 0\<rparr>"

definition REVERSE_BITS_INDEX4 :: "nat list" where
  "REVERSE_BITS_INDEX4 =
    [0, 2, 1, 3]"

definition REVERSE_BITS_INDEX8 :: "nat list" where
  "REVERSE_BITS_INDEX8 =
    [0, 4, 2, 6, 1, 5, 3, 7]"

definition REVERSE_BITS_INDEX16 :: "nat list" where
  "REVERSE_BITS_INDEX16 =
    [0, 8, 4, 12, 2, 10, 6, 14, 1, 9, 5, 13, 3, 11, 7, 15]"

definition REVERSE_BITS_INDEX32 :: "nat list" where
  "REVERSE_BITS_INDEX32 =
    [0, 16, 8, 24, 4, 20, 12, 28, 2, 18, 10, 26, 6, 22, 14, 30, 1, 17, 9, 25, 5, 21, 13, 29, 3,
    19, 11, 27, 7, 23, 15, 31]"

definition REVERSE_BITS_INDEX64 :: "nat list" where
  "REVERSE_BITS_INDEX64 =
    [0, 32, 16, 48, 8, 40, 24, 56, 4, 36, 20, 52, 12, 44, 28, 60, 2, 34, 18, 50, 10, 42, 26, 58,
    6, 38, 22, 54, 14, 46, 30, 62, 1, 33, 17, 49, 9, 41, 25, 57, 5, 37, 21, 53, 13, 45, 29, 61,
    3, 35, 19, 51, 11, 43, 27, 59, 7, 39, 23, 55, 15, 47, 31, 63]"

definition REVERSE_BITS_INDEX128 :: "nat list" where
  "REVERSE_BITS_INDEX128 =
    [0, 64, 32, 96, 16, 80, 48, 112, 8, 72, 40, 104, 24, 88, 56, 120, 4, 68, 36, 100, 20, 84,
    52, 116, 12, 76, 44, 108, 28, 92, 60, 124, 2, 66, 34, 98, 18, 82, 50, 114, 10, 74, 42, 106,
    26, 90, 58, 122, 6, 70, 38, 102, 22, 86, 54, 118, 14, 78, 46, 110, 30, 94, 62, 126, 1, 65,
    33, 97, 17, 81, 49, 113, 9, 73, 41, 105, 25, 89, 57, 121, 5, 69, 37, 101, 21, 85, 53, 117,
    13, 77, 45, 109, 29, 93, 61, 125, 3, 67, 35, 99, 19, 83, 51, 115, 11, 75, 43, 107, 27, 91,
    59, 123, 7, 71, 39, 103, 23, 87, 55, 119, 15, 79, 47, 111, 31, 95, 63, 127]"

definition tc_SetAlgorithm :: "string \<Rightarrow> GmaTxControl \<Rightarrow> GmaTxControl result" where
  "tc_SetAlgorithm algorithm s =
    (if algorithm = ''RxSide'' then Inr (s\<lparr>tc_algorithm := RxSide\<rparr>)
     else if algorithm = ''DefaultLink'' then Inr (s\<lparr>tc_algorithm := DefaultLink\<rparr>)
     else Inl (Fatal ''algorithm not supported''))"

text \<open>The step of the index that both senders share.\<close>

definition tc_next_index :: "GmaTxControl \<Rightarrow> u8" where
  "tc_next_index s = (let i = tc_splittingIndex s + 1 in if i \<ge> tc_paramL s then 0 else i)"

definition tc_GetNextCidFromTsu :: "GmaTxControl \<Rightarrow> (u8 \<times> GmaTxControl) result" where
  "tc_GetNextCidFromTsu s =
    (if length (tc_cidVector s) = 0 then Inr (UINT8_MAX, s)
     else rbind (vec_at (tc_cidVector s) (unat (tc_splittingIndex s))) (\<lambda>connectionId.
       Inr (connectionId, s\<lparr>tc_splittingIndex := tc_next_index s\<rparr>)))"

definition tc_RxSideAlgorithm :: "LinkState \<Rightarrow> GmaTxControl \<Rightarrow> (u8 \<times> GmaTxControl) result" where
  "tc_RxSideAlgorithm ls s =
    (let cidValue = ls_defaultLinkCid ls in
     if length (tc_cidVector s) = 0 then Inr (cidValue, s)
     else rbind (vec_at (tc_cidVector s) (unat (tc_splittingIndex s))) (\<lambda>connectionId.
       let s = s\<lparr>tc_splittingIndex := tc_next_index s\<rparr>;
           cidValue = (if ls_IsLinkUp connectionId ls then connectionId else cidValue)
       in Inr (cidValue, s)))"

definition tc_GetDeliveryLinkCid :: "LinkState \<Rightarrow> GmaTxControl \<Rightarrow> (u8 \<times> GmaTxControl) result" where
  "tc_GetDeliveryLinkCid ls s =
    (if tc_algorithm s = RxSide then tc_RxSideAlgorithm ls s
     else if tc_algorithm s = DefaultLink then Inr (ls_defaultLinkCid ls, s)
     else Inl (Fatal ''unknown algorithm''))"

text \<open>\<open>RcvCtrlMsg\<close>: the loop that lists the links in order, the choice of the table, one turn of
  the reordering loop, the preparation of the two vectors, and the whole handler.\<close>

definition tc_inorder :: "u8 list \<Rightarrow> u8 list \<Rightarrow> u8 list result" where
  "tc_inorder splitIndexList cidList =
    rfoldl (\<lambda>acc link. rfoldl (\<lambda>acc _. rbind (vec_at cidList link) (\<lambda>c. Inr (acc @ [c])))
        acc [0..<unat (splitIndexList ! link)])
      [] [0..<length splitIndexList]"

definition tc_table :: "u8 \<Rightarrow> nat list option" where
  "tc_table paramL =
    (if paramL = 4 then Some REVERSE_BITS_INDEX4
     else if paramL = 8 then Some REVERSE_BITS_INDEX8
     else if paramL = 16 then Some REVERSE_BITS_INDEX16
     else if paramL = 32 then Some REVERSE_BITS_INDEX32
     else if paramL = 64 then Some REVERSE_BITS_INDEX64
     else if paramL = 128 then Some REVERSE_BITS_INDEX128
     else None)"

definition tc_push :: "u8 \<Rightarrow> u8 list \<Rightarrow> u8 list \<times> u8 list \<Rightarrow> nat \<Rightarrow> (u8 list \<times> u8 list) result" where
  "tc_push paramL inorder = (\<lambda>(cv, dup) index.
    case tc_table paramL of
      Some t \<Rightarrow>
        if index < length t then rbind (vec_at inorder (t ! index)) (\<lambda>c. Inr (cv @ [c], dup))
        else Inl (Undefined ''index of the reverse table'')
    | None \<Rightarrow>
        if paramL = 1 then
          rbind (vec_at inorder index) (\<lambda>c.
          if length cv = 0 then Inr (cv @ [c], dup)
          else if c \<noteq> cv ! 0 then Inr (cv, dup @ [c])
          else Inr (cv, dup))
        else Inl (Fatal ''other size not implemented''))"

definition tc_prepare :: "u8 \<Rightarrow> u8 list \<Rightarrow> GmaTxControl \<Rightarrow> (u8 list \<times> u8 list) result" where
  "tc_prepare paramL inorder s = (let cv = tc_cidVector s in
    if paramL \<noteq> 1 then Inr ([], tc_cidDupVector s)
    else if length cv = 0 then Inr (cv, [])
    else if length cv = 1 then
      (let linkChange = \<not> list_ex (\<lambda>c. cv ! 0 = c) inorder in
       Inr (if linkChange then [] else cv, []))
    else Inl (Fatal ''duplicate mode should not have more than 1 primary link''))"

definition tc_supported_L :: "u8 \<Rightarrow> bool" where
  "tc_supported_L l \<longleftrightarrow> l = 1 \<or> l = 4 \<or> l = 8 \<or> l = 16 \<or> l = 32 \<or> l = 128"

definition tc_RcvCtrlMsg :: "MxControlHeader \<Rightarrow> LinkState \<Rightarrow> GmaTxControl \<Rightarrow> GmaTxControl result" where
  "tc_RcvCtrlMsg mxHeader ls s =
    (if mx_type mxHeader = 5 then
       rbind (rassert (tc_supported_L (mx_L mxHeader)) ''Now only support size 1, 4, 8 16, 32 and 128.'') (\<lambda>_.
       let paramL = mx_L mxHeader in
       rbind (tc_inorder (mx_kVector mxHeader) (ls_cidList ls)) (\<lambda>inorder.
       if paramL \<noteq> 1 \<and> length inorder \<noteq> unat paramL
       then Inl (Fatal ''Did not implemented duplicating packet for split mode...'')
       else if 256 \<le> length inorder then Inl Diverges
       else
         rbind (tc_prepare paramL inorder s) (\<lambda>cvdup.
         rbind (rfoldl (tc_push paramL inorder) cvdup [0..<length inorder]) (\<lambda>(cv, dup).
         rbind (rassert (paramL = 1 \<or> length cv = unat paramL) ''the sum of cid vector should equal L'') (\<lambda>_.
         Inr (s\<lparr>tc_cidVector := cv, tc_cidDupVector := dup, tc_paramL := paramL, tc_splittingIndex := 0\<rparr>))))))
     else Inl (Fatal ''Only implmented type 5, ratio change message''))"

text \<open>\<open>StartQosTesting\<close> also returns the delay after which \<open>StopQosTesting\<close> is scheduled.\<close>

definition tc_StartQosTesting :: "u8 \<Rightarrow> u8 \<Rightarrow> GmaTxControl \<Rightarrow> (time \<times> GmaTxControl) result" where
  "tc_StartQosTesting cid testDuration s =
    (if tc_cidDupVector s = []
     then Inr (uint testDuration * 100 * 1000000, s\<lparr>tc_cidDupVector := tc_cidDupVector s @ [cid]\<rparr>)
     else Inl (Fatal ''testing running. This may due to CTRL msg retransmission timeout''))"

definition tc_StopQosTesting :: "u8 \<Rightarrow> GmaTxControl \<Rightarrow> GmaTxControl" where
  "tc_StopQosTesting cid s = s\<lparr>tc_cidDupVector := filter (\<lambda>c. c \<noteq> cid) (tc_cidDupVector s)\<rparr>"

definition tc_QoSTestingRequestCheck ::
    "time \<Rightarrow> u8 \<Rightarrow> LinkState \<Rightarrow> GmaTxControl \<Rightarrow> (bool \<times> LinkState) result" where
  "tc_QoSTestingRequestCheck now cid ls s =
    (let overBackup = (if length (tc_cidVector s) = 0 then 0
           else foldl (\<lambda>n c. if ls_defaultLinkCid ls = c then n else n + 1) (0 :: u16) (tc_cidVector s));
         m = ls_cidToLastTestFailTime ls in
     if overBackup = 0 then
       (if m = [] then Inr (True, ls\<lparr>ls_cidToLastTestFailTime := sm_set cid now m\<rparr>)
        else if length m = 1 then
          (case sm_find cid m of
             None \<Rightarrow> Inl (Undefined ''iterator m_cidToLastTestFailTime.end() is dereferenced'')
           | Some t \<Rightarrow>
               if now \<ge> t + MIN_QOS_TESTING_INTERVAL
               then Inr (True, ls\<lparr>ls_cidToLastTestFailTime := sm_set cid now m\<rparr>)
               else Inr (False, ls))
        else Inl (Fatal ''we only implemented one link case''))
     else Inr (False, ls))"

section \<open>Walking round a vector\<close>

fun ring_run :: "('s \<Rightarrow> ('b \<times> 's) result) \<Rightarrow> nat \<Rightarrow> 's \<Rightarrow> ('b list \<times> 's) result" where
  "ring_run step 0 s = Inr ([], s)"
| "ring_run step (Suc n) s =
    rbind (step s) (\<lambda>(x, s). rbind (ring_run step n s) (\<lambda>(xs, s). Inr (x # xs, s)))"

lemma mset_window:
  assumes "p < length xs"
  shows "mset (map (\<lambda>j. xs ! ((p + j) mod length xs)) [0..<length xs]) = mset xs"
proof -
  have "map (\<lambda>j. xs ! ((p + j) mod length xs)) [0..<length xs] = rotate p xs"
    using assms by (intro nth_equalityI) (simp_all add: nth_rotate)
  also have "\<dots> = drop p xs @ take p xs"
    using assms by (simp add: rotate_drop_take)
  finally show ?thesis
    by (metis append_take_drop_id mset_append union_commute)
qed

locale ring_cursor =
  fixes step :: "'s \<Rightarrow> ('b \<times> 's) result"
    and items :: "'s \<Rightarrow> 'a list"
    and pos :: "'s \<Rightarrow> nat"
    and out :: "'a \<Rightarrow> 'b"
    and inv :: "'s \<Rightarrow> bool"
  assumes pos_bound: "inv s \<Longrightarrow> pos s < length (items s)"
    and step_ok: "inv s \<Longrightarrow> \<exists>s'. step s = Inr (out (items s ! pos s), s') \<and> inv s' \<and> items s' = items s
      \<and> pos s' = (pos s + 1) mod length (items s)"
begin

lemma run_ok:
  assumes "inv s"
  shows "\<exists>s'. ring_run step n s = Inr (map (\<lambda>j. out (items s ! ((pos s + j) mod length (items s)))) [0..<n], s')
    \<and> inv s' \<and> items s' = items s \<and> pos s' = (pos s + n) mod length (items s)"
  using assms
proof (induction n arbitrary: s)
  case 0
  then show ?case using pos_bound by simp
next
  case (Suc n)
  let ?L = "length (items s)"
  obtain s1 where s1: "step s = Inr (out (items s ! pos s), s1)" "inv s1" "items s1 = items s"
      "pos s1 = (pos s + 1) mod ?L"
    using step_ok [OF Suc.prems] by blast
  obtain s2 where s2: "ring_run step n s1
      = Inr (map (\<lambda>j. out (items s ! ((pos s1 + j) mod ?L))) [0..<n], s2)"
      "inv s2" "items s2 = items s" "pos s2 = (pos s1 + n) mod ?L"
    using Suc.IH [OF s1(2)] s1(3) by auto
  have "map (\<lambda>j. out (items s ! ((pos s + j) mod ?L))) [0..<Suc n]
      = out (items s ! pos s) # map (\<lambda>j. out (items s ! ((pos s1 + j) mod ?L))) [0..<n]"
    using pos_bound [OF Suc.prems] unfolding map_upt_Suc by (simp add: s1(4) mod_add_left_eq)
  then show ?case
    using s1 s2 by (simp add: mod_add_left_eq)
qed

lemma run_window:
  assumes "inv s" "ring_run step (length (items s)) s = Inr (xs, s')"
  shows "mset xs = image_mset out (mset (items s)) \<and> pos s' = pos s"
proof -
  let ?L = "length (items s)"
  have xs: "xs = map (\<lambda>j. out (items s ! ((pos s + j) mod ?L))) [0..<?L]" "pos s' = (pos s + ?L) mod ?L"
    using run_ok [OF assms(1), of ?L] assms(2) by auto
  have "xs = map out (map (\<lambda>j. items s ! ((pos s + j) mod ?L)) [0..<?L])"
    by (simp add: xs)
  then have "mset xs = image_mset out (mset (map (\<lambda>j. items s ! ((pos s + j) mod ?L)) [0..<?L]))"
    by (simp only: mset_map)
  then show ?thesis
    using mset_window [OF pos_bound [OF assms(1)]] pos_bound [OF assms(1)] xs(2) by simp
qed

end

text \<open>The invariant of the class: before the first TSU there is no vector; afterwards the index is
  inside the vector, whose length is \<open>m_paramL\<close>.\<close>

definition tc_active :: "GmaTxControl \<Rightarrow> bool" where
  "tc_active s \<longleftrightarrow> length (tc_cidVector s) = unat (tc_paramL s) \<and> tc_splittingIndex s < tc_paramL s"

definition tc_inv :: "GmaTxControl \<Rightarrow> bool" where
  "tc_inv s \<longleftrightarrow> tc_cidVector s = [] \<or> tc_active s"

lemma tc_next_index:
  assumes "tc_splittingIndex s < tc_paramL s"
  shows "unat (tc_next_index s) = (unat (tc_splittingIndex s) + 1) mod unat (tc_paramL s)"
    and "tc_next_index s < tc_paramL s"
proof -
  have lt: "unat (tc_splittingIndex s) < unat (tc_paramL s)"
    using assms by (simp add: word_less_nat_alt)
  then have suc: "unat (tc_splittingIndex s + 1) = unat (tc_splittingIndex s) + 1"
    using unat_u8_le [of "tc_paramL s"] by (simp add: unat_word_ariths del: unat_u8_le)
  show "unat (tc_next_index s) = (unat (tc_splittingIndex s) + 1) mod unat (tc_paramL s)"
    using lt suc
    by (cases "Suc (unat (tc_splittingIndex s)) = unat (tc_paramL s)")
      (auto simp: tc_next_index_def Let_def word_le_nat_alt)
  then show "tc_next_index s < tc_paramL s"
    using lt by (simp add: word_less_nat_alt)
qed

interpretation next_cid: ring_cursor tc_GetNextCidFromTsu tc_cidVector "\<lambda>s. unat (tc_splittingIndex s)" "\<lambda>c. c" tc_active
proof unfold_locales
  show "unat (tc_splittingIndex s) < length (tc_cidVector s)" if "tc_active s" for s
    using that by (simp add: tc_active_def word_less_nat_alt)
  show "\<exists>s'. tc_GetNextCidFromTsu s = Inr (tc_cidVector s ! unat (tc_splittingIndex s), s') \<and> tc_active s'
      \<and> tc_cidVector s' = tc_cidVector s
      \<and> unat (tc_splittingIndex s') = (unat (tc_splittingIndex s) + 1) mod length (tc_cidVector s)"
    if "tc_active s" for s
  proof -
    have "unat (tc_splittingIndex s) < length (tc_cidVector s)"
      using that by (simp add: tc_active_def word_less_nat_alt)
    then show ?thesis
      using that tc_next_index [of s]
      by (auto simp: tc_GetNextCidFromTsu_def tc_active_def)
  qed
qed

definition tc_choose :: "LinkState \<Rightarrow> u8 \<Rightarrow> u8" where
  "tc_choose ls c = (if ls_IsLinkUp c ls then c else ls_defaultLinkCid ls)"

interpretation rx_side: ring_cursor "tc_RxSideAlgorithm ls" tc_cidVector "\<lambda>s. unat (tc_splittingIndex s)" "tc_choose ls" tc_active
  for ls
proof unfold_locales
  show "unat (tc_splittingIndex s) < length (tc_cidVector s)" if "tc_active s" for s
    using that by (simp add: tc_active_def word_less_nat_alt)
  show "\<exists>s'. tc_RxSideAlgorithm ls s = Inr (tc_choose ls (tc_cidVector s ! unat (tc_splittingIndex s)), s')
      \<and> tc_active s' \<and> tc_cidVector s' = tc_cidVector s
      \<and> unat (tc_splittingIndex s') = (unat (tc_splittingIndex s) + 1) mod length (tc_cidVector s)"
    if "tc_active s" for s
  proof -
    have "unat (tc_splittingIndex s) < length (tc_cidVector s)"
      using that by (simp add: tc_active_def word_less_nat_alt)
    then show ?thesis
      using that tc_next_index [of s]
      by (auto simp: tc_RxSideAlgorithm_def tc_active_def tc_choose_def Let_def)
  qed
qed

section \<open>The reordering\<close>

lemma tc_inorder_eq:
  assumes "\<forall>i<length ks. ks ! i \<noteq> 0 \<longrightarrow> i < length cids"
  shows "tc_inorder ks cids = Inr (concat (map (\<lambda>i. replicate (unat (ks ! i)) (cids ! i)) [0..<length ks]))"
proof -
  have inner: "rfoldl (\<lambda>acc _. rbind (vec_at cids i) (\<lambda>c. Inr (acc @ [c]))) acc [0..<k]
      = Inr (acc @ replicate k (cids ! i))" if "k \<noteq> 0 \<longrightarrow> i < length cids" for acc i k
    using that by (induction k) (simp_all add: rfoldl_append replicate_append_same [symmetric])
  have "rfoldl (\<lambda>acc link. rfoldl (\<lambda>acc _. rbind (vec_at cids link) (\<lambda>c. Inr (acc @ [c])))
        acc [0..<unat (ks ! link)]) [] [0..<n]
      = Inr (concat (map (\<lambda>i. replicate (unat (ks ! i)) (cids ! i)) [0..<n]))" if "n \<le> length ks" for n
    using that assms
    by (induction n) (simp_all add: rfoldl_append inner unat_eq_0)
  then show ?thesis by (simp add: tc_inorder_def)
qed

lemma tc_inorder_out_of_range:
  assumes "tc_inorder ks cids = Inr inorder"
  shows "\<forall>i<length ks. ks ! i \<noteq> 0 \<longrightarrow> i < length cids"
proof (rule ccontr)
  assume "\<not> ?thesis"
  then obtain i where i: "i < length ks" "ks ! i \<noteq> 0" "length cids \<le> i" by (auto simp: not_less)
  let ?body = "\<lambda>acc link. rfoldl (\<lambda>acc _. rbind (vec_at cids link) (\<lambda>c. Inr (acc @ [c]))) acc [0..<unat (ks ! link)]"
  have "[0..<unat (ks ! i)] = 0 # [1..<unat (ks ! i)]"
    using i(2) by (simp add: upt_conv_Cons unat_gt_0)
  then have bad: "?body acc i = Inl OutOfRange" for acc
    using i(3) by (simp add: vec_at_out)
  have "[0..<length ks] = [0..<i] @ i # [Suc i..<length ks]"
    using i(1) upt_add_eq_append [of 0 i "length ks - i"] upt_conv_Cons [of i "length ks"] by simp
  then have "tc_inorder ks cids = rbind (rfoldl ?body [] [0..<i]) (\<lambda>_. Inl OutOfRange)"
    unfolding tc_inorder_def by (simp only: rfoldl_append rfoldl.simps bad rbind_simps)
  then show False using assms by (cases "rfoldl ?body [] [0..<i]") simp_all
qed

text \<open>The reversal of the lowest \<open>k\<close> bits, which the tables list.\<close>

fun bit_reverse :: "nat \<Rightarrow> nat \<Rightarrow> nat" where
  "bit_reverse 0 i = 0"
| "bit_reverse (Suc k) i = (i mod 2) * 2 ^ k + bit_reverse k (i div 2)"

lemma bit_reverse_less: "bit_reverse k i < 2 ^ k"
proof (induction k arbitrary: i)
  case (Suc k)
  have "(i mod 2) * 2 ^ k \<le> (2 :: nat) ^ k" by simp
  then show ?case using Suc [of "i div 2"] unfolding bit_reverse.simps power_Suc by linarith
qed simp

lemma bit_reverse_inj:
  "bit_reverse k i = bit_reverse k j \<Longrightarrow> i < 2 ^ k \<Longrightarrow> j < 2 ^ k \<Longrightarrow> i = j"
proof (induction k arbitrary: i j)
  case (Suc k)
  have b: "bit_reverse k (i div 2) < 2 ^ k" "bit_reverse k (j div 2) < 2 ^ k"
    by (rule bit_reverse_less)+
  have "bit_reverse (Suc k) i div 2 ^ k = i mod 2" "bit_reverse (Suc k) j div 2 ^ k = j mod 2"
    using b by simp_all
  then have mod: "i mod 2 = j mod 2" using Suc.prems(1) by metis
  then have "bit_reverse k (i div 2) = bit_reverse k (j div 2)" using Suc.prems(1) by simp
  then have "i div 2 = j div 2" using Suc.IH Suc.prems(2,3) by simp
  with mod show ?case by (metis div_mult_mod_eq)
qed simp

lemma bit_reverse_perm: "mset (map (bit_reverse k) [0..<2 ^ k]) = mset [0..<2 ^ k]"
proof -
  have inj: "inj_on (bit_reverse k) {0..<2 ^ k}"
    by (auto intro!: inj_onI dest: bit_reverse_inj)
  have "bit_reverse k ` {0..<2 ^ k} \<subseteq> {0..<2 ^ k}"
    by (auto simp: bit_reverse_less)
  then have "bit_reverse k ` {0..<2 ^ k} = {0..<2 ^ k}"
    using inj by (intro card_subset_eq) (simp_all add: card_image)
  then show ?thesis
    using inj by (intro set_eq_iff_mset_eq_distinct [THEN iffD1]) (simp_all add: distinct_map)
qed

lemma tc_tables:
  "REVERSE_BITS_INDEX4 = map (bit_reverse 2) [0..<4] \<and> REVERSE_BITS_INDEX8 = map (bit_reverse 3) [0..<8]
   \<and> REVERSE_BITS_INDEX16 = map (bit_reverse 4) [0..<16] \<and> REVERSE_BITS_INDEX32 = map (bit_reverse 5) [0..<32]
   \<and> REVERSE_BITS_INDEX64 = map (bit_reverse 6) [0..<64]
   \<and> REVERSE_BITS_INDEX128 = map (bit_reverse 7) [0..<128]"
  by code_simp

lemma tc_table_perm:
  assumes "tc_table l = Some t"
  shows "mset t = mset [0..<unat l]" "length t = unat l"
proof -
  have "mset (map (bit_reverse k) [0..<2 ^ k]) = mset [0..<2 ^ k]" for k by (rule bit_reverse_perm)
  from this [of 2] this [of 3] this [of 4] this [of 5] this [of 6] this [of 7]
  show "mset t = mset [0..<unat l]"
    using assms tc_tables by (auto simp: tc_table_def split: if_splits)
  then show "length t = unat l"
    by (metis diff_zero length_upt size_mset)
qed

lemma tc_table_less:
  assumes "tc_table l = Some t" "i < length t"
  shows "t ! i < unat l"
proof -
  have "set t = set [0..<unat l]" using tc_table_perm(1) [OF assms(1)] by (metis set_mset_mset)
  then show ?thesis using nth_mem [OF assms(2)] by auto
qed

lemma tc_push_split:
  assumes "tc_table l = Some t" "length inorder = unat l" "n \<le> unat l"
  shows "rfoldl (tc_push l inorder) (cv, dup) [0..<n] = Inr (cv @ map (\<lambda>i. inorder ! (t ! i)) [0..<n], dup)"
  using assms(3)
proof (induction n)
  case (Suc n)
  then have "n < length t" using tc_table_perm(2) [OF assms(1)] by simp
  then show ?case
    using Suc tc_table_less [OF assms(1)] assms(1,2) by (simp add: rfoldl_append tc_push_def)
qed simp

definition tc_schedule :: "nat list \<Rightarrow> u8 list \<Rightarrow> u8 list" where
  "tc_schedule t inorder = map (\<lambda>i. inorder ! (t ! i)) [0..<length t]"

lemma mset_schedule:
  assumes "tc_table l = Some t" "length inorder = unat l"
  shows "mset (tc_schedule t inorder) = mset inorder"
proof -
  have "tc_schedule t inorder = map ((!) inorder) t"
    unfolding tc_schedule_def by (intro nth_equalityI) simp_all
  then have "mset (tc_schedule t inorder) = image_mset ((!) inorder) (mset [0..<unat l])"
    using tc_table_perm(1) [OF assms(1)] by simp
  also have "\<dots> = mset (map ((!) inorder) [0..<length inorder])"
    by (simp only: mset_map assms(2))
  finally show ?thesis by (simp add: map_nth)
qed

lemma tc_supported_split:
  assumes "tc_supported_L l" "l \<noteq> 1"
  obtains t where "tc_table l = Some t"
  using assms by (auto simp: tc_supported_L_def tc_table_def)

lemma tc_unat_L: "tc_supported_L l \<Longrightarrow> 0 < unat l \<and> unat l < 256"
  using unat_u8_less [of l] by (auto simp: tc_supported_L_def)

lemma tc_Rcv_split:
  assumes "tc_RcvCtrlMsg h ls s = Inr s'" "mx_L h \<noteq> 1"
  obtains t inorder where "tc_table (mx_L h) = Some t"
    and "tc_inorder (mx_kVector h) (ls_cidList ls) = Inr inorder" "length inorder = unat (mx_L h)"
    and "s' = s\<lparr>tc_cidVector := tc_schedule t inorder, tc_paramL := mx_L h, tc_splittingIndex := 0\<rparr>"
proof -
  have type: "mx_type h = 5" and L: "tc_supported_L (mx_L h)"
    using assms(1) by (auto simp: tc_RcvCtrlMsg_def split: if_splits)
  obtain t where t: "tc_table (mx_L h) = Some t"
    using tc_supported_split [OF L assms(2)] .
  obtain inorder where io: "tc_inorder (mx_kVector h) (ls_cidList ls) = Inr inorder"
    using assms(1) type by (auto simp: tc_RcvCtrlMsg_def Let_def)
  have len: "length inorder = unat (mx_L h)"
    using assms type L io by (auto simp: tc_RcvCtrlMsg_def Let_def split: if_splits)
  then have small: "length inorder < 256" using tc_unat_L [OF L] by simp
  have "rfoldl (tc_push (mx_L h) inorder) ([], tc_cidDupVector s) [0..<length inorder]
      = Inr (tc_schedule t inorder, tc_cidDupVector s)"
    using tc_push_split [OF t len, of "unat (mx_L h)"] tc_table_perm(2) [OF t] len
    by (simp add: tc_schedule_def)
  then have "s' = s\<lparr>tc_cidVector := tc_schedule t inorder, tc_paramL := mx_L h, tc_splittingIndex := 0\<rparr>"
    using assms type L io len small by (auto simp: tc_RcvCtrlMsg_def tc_prepare_def Let_def)
  with that t io len show ?thesis by blast
qed

lemma tc_split_active:
  assumes "tc_RcvCtrlMsg h ls s = Inr s'" "mx_L h \<noteq> 1"
  shows "tc_active s'"
proof -
  have L: "tc_supported_L (mx_L h)"
    using assms(1) by (auto simp: tc_RcvCtrlMsg_def split: if_splits)
  from assms show ?thesis
    by (rule tc_Rcv_split)
      (use tc_unat_L [OF L] tc_table_perm(2) in \<open>simp add: tc_active_def tc_schedule_def word_less_nat_alt\<close>)
qed

lemma count_replicates:
  assumes "distinct cs" "j < length cs" "j < n" "\<And>i. i < n \<Longrightarrow> length cs \<le> i \<Longrightarrow> k i = 0"
  shows "count (mset (concat (map (\<lambda>i. replicate (k i) (cs ! i)) [0..<n]))) (cs ! j) = k j"
proof -
  have "count (mset (concat (map (\<lambda>i. replicate (k i) (cs ! i)) [0..<n]))) x
      = (\<Sum>i\<in>{0..<n}. if cs ! i = x then k i else 0)" for x
    by (induction n) (auto simp: count_replicate_mset mset_replicate)
  moreover have "(\<Sum>i\<in>{0..<n}. if cs ! i = cs ! j then k i else 0) = (\<Sum>i\<in>{0..<n}. if i = j then k i else 0)"
  proof (intro sum.cong refl)
    fix i assume "i \<in> {0..<n}"
    then show "(if cs ! i = cs ! j then k i else 0) = (if i = j then k i else 0)"
      using assms by (cases "i < length cs") (simp_all add: nth_eq_iff_index_eq)
  qed
  ultimately show ?thesis using assms(3) by simp
qed

lemma tc_push_1:
  "tc_push 1 io (cv, dup) i = rbind (vec_at io i) (\<lambda>c.
      if length cv = 0 then Inr (cv @ [c], dup)
      else if c \<noteq> cv ! 0 then Inr (cv, dup @ [c])
      else Inr (cv, dup))"
proof -
  have "tc_table 1 = None" by code_simp
  then show ?thesis by (simp add: tc_push_def)
qed

lemma tc_push_steer:
  assumes "n \<le> length io" "length cv \<le> 1"
  shows "rfoldl (tc_push 1 io) (cv, dup) [0..<n] =
    (let p = hd (cv @ io) in
     Inr (if n = 0 then cv else [p], dup @ filter (\<lambda>c. c \<noteq> p) (take n io)))"
  using assms(1)
proof (induction n)
  case (Suc n)
  have "cv = [] \<or> (\<exists>x. cv = [x])" using assms(2) by (cases cv) auto
  moreover have "n = 0 \<Longrightarrow> io ! n = hd io" using Suc.prems by (cases io) auto
  ultimately show ?case
    using Suc by (auto simp: rfoldl_append tc_push_1 take_Suc_conv_app_nth Let_def)
qed simp

lemma tc_Rcv_steer:
  assumes "tc_RcvCtrlMsg h ls s = Inr s'" "mx_L h = 1"
  obtains inorder cv where "tc_inorder (mx_kVector h) (ls_cidList ls) = Inr inorder"
    and "length (tc_cidVector s) \<le> 1"
    and "cv = (if list_ex (\<lambda>c. tc_cidVector s = [c]) inorder then tc_cidVector s else [])"
    and "tc_cidVector s' = (if inorder = [] then cv else [hd (cv @ inorder)])"
    and "tc_cidDupVector s' = filter (\<lambda>c. c \<noteq> hd (cv @ inorder)) inorder"
    and "tc_paramL s' = 1" "tc_splittingIndex s' = 0" "tc_algorithm s' = tc_algorithm s"
proof -
  have type: "mx_type h = 5" using assms(1) by (auto simp: tc_RcvCtrlMsg_def split: if_splits)
  have sup: "tc_supported_L 1" by (simp add: tc_supported_L_def)
  obtain io where io: "tc_inorder (mx_kVector h) (ls_cidList ls) = Inr io"
    using assms type sup by (auto simp: tc_RcvCtrlMsg_def Let_def)
  obtain cvdup where prep: "tc_prepare 1 io s = Inr cvdup" and
    run: "rbind (rfoldl (tc_push 1 io) cvdup [0..<length io]) (\<lambda>(cv, dup).
         Inr (s\<lparr>tc_cidVector := cv, tc_cidDupVector := dup, tc_paramL := 1, tc_splittingIndex := 0\<rparr>)) = Inr s'"
    using assms type sup io by (auto simp: tc_RcvCtrlMsg_def Let_def split: if_splits prod.splits)
  define cv where "cv = (if list_ex (\<lambda>c. tc_cidVector s = [c]) io then tc_cidVector s else [])"
  have len: "length (tc_cidVector s) \<le> 1"
    using prep by (auto simp: tc_prepare_def Let_def split: if_splits)
  then have cases: "tc_cidVector s = [] \<or> (\<exists>x. tc_cidVector s = [x])" by (cases "tc_cidVector s") auto
  have lencv: "length cv \<le> 1" using len by (simp add: cv_def)
  have cvdup: "cvdup = (cv, [])"
    using prep cases by (auto simp: tc_prepare_def cv_def Let_def list_ex_iff)
  then have s': "s' = s\<lparr>tc_cidVector := (if io = [] then cv else [hd (cv @ io)]),
      tc_cidDupVector := filter (\<lambda>c. c \<noteq> hd (cv @ io)) io, tc_paramL := 1, tc_splittingIndex := 0\<rparr>"
    using run tc_push_steer [OF _ lencv, of "length io" io "[]"] by (simp add: cvdup Let_def)
  show ?thesis
    by (rule that [OF io len cv_def]) (simp_all add: s')
qed

lemma tc_Rcv_inv: 
  assumes "tc_RcvCtrlMsg h ls s = Inr s'"
  shows "tc_inv s'"
proof (cases "mx_L h = 1")
  case True
  obtain inorder cv where io: "tc_inorder (mx_kVector h) (ls_cidList ls) = Inr inorder"
    and len: "length (tc_cidVector s) \<le> 1"
    and cv: "cv = (if list_ex (\<lambda>c. tc_cidVector s = [c]) inorder then tc_cidVector s else [])"
    and out: "tc_cidVector s' = (if inorder = [] then cv else [hd (cv @ inorder)])"
      "tc_cidDupVector s' = filter (\<lambda>c. c \<noteq> hd (cv @ inorder)) inorder"
      "tc_paramL s' = 1" "tc_splittingIndex s' = 0" "tc_algorithm s' = tc_algorithm s"
    using tc_Rcv_steer [OF assms True] .
  from len cv out show ?thesis
    by (cases "inorder = []") (simp_all add: tc_inv_def tc_active_def)
next
  case False
  then show ?thesis using tc_split_active [OF assms] by (simp add: tc_inv_def)
qed

section \<open>Properties\<close>

text \<open>Every reverse table the sender uses is the bit reversal of its indices.\<close>

theorem tc_tables_reverse_bits:
  "tc_table 4 = Some (map (bit_reverse 2) [0..<4]) \<and> tc_table 8 = Some (map (bit_reverse 3) [0..<8])
   \<and> tc_table 16 = Some (map (bit_reverse 4) [0..<16]) \<and> tc_table 32 = Some (map (bit_reverse 5) [0..<32])
   \<and> tc_table 64 = Some (map (bit_reverse 6) [0..<64]) \<and> tc_table 128 = Some (map (bit_reverse 7) [0..<128])"
  using tc_tables by (simp add: tc_table_def)

text \<open>C16: The splitting is exact.  After a split mode TSU has been accepted, the sender never
  fails to name a link, and in every window of \<open>L\<close> consecutive packets, wherever it starts, the
  link at position \<open>i\<close> is named exactly \<open>K[i]\<close> times.\<close>

theorem tc_split_exact:
  assumes "tc_RcvCtrlMsg h ls s = Inr s'" "mx_L h \<noteq> 1" "distinct (ls_cidList ls)"
    and "i < length (ls_cidList ls)" "i < length (mx_kVector h)"
  shows "\<exists>xs0 s1 xs s2. ring_run tc_GetNextCidFromTsu n s' = Inr (xs0, s1)
    \<and> ring_run tc_GetNextCidFromTsu (unat (mx_L h)) s1 = Inr (xs, s2)
    \<and> count (mset xs) (ls_cidList ls ! i) = unat (mx_kVector h ! i)"
proof -
  obtain t io where t: "tc_table (mx_L h) = Some t"
    and io: "tc_inorder (mx_kVector h) (ls_cidList ls) = Inr io" and len: "length io = unat (mx_L h)"
    and s': "s' = s\<lparr>tc_cidVector := tc_schedule t io, tc_paramL := mx_L h, tc_splittingIndex := 0\<rparr>"
    using tc_Rcv_split [OF assms(1,2)] .
  obtain s1 where s1: "ring_run tc_GetNextCidFromTsu n s' = Inr (map (\<lambda>j. tc_cidVector s' !
        ((unat (tc_splittingIndex s') + j) mod length (tc_cidVector s'))) [0..<n], s1)"
      "tc_active s1" "tc_cidVector s1 = tc_cidVector s'"
    using next_cid.run_ok [OF tc_split_active [OF assms(1,2)], of n] by blast
  have L: "length (tc_cidVector s1) = unat (mx_L h)"
    using tc_table_perm(2) [OF t] by (simp add: s1(3) s' tc_schedule_def)
  obtain xs s2 where xs: "ring_run tc_GetNextCidFromTsu (unat (mx_L h)) s1 = Inr (xs, s2)"
    using next_cid.run_ok [OF s1(2), of "unat (mx_L h)"] by blast
  have "ring_run tc_GetNextCidFromTsu (length (tc_cidVector s1)) s1 = Inr (xs, s2)"
    using xs L by simp
  then have "mset xs = mset io"
    using next_cid.run_window [OF s1(2)] mset_schedule [OF t len] by (simp add: s1(3) s')
  moreover have zero: "unat (mx_kVector h ! j) = 0" if "j < length (mx_kVector h)" "length (ls_cidList ls) \<le> j" for j
    using tc_inorder_out_of_range [OF io] that by (auto simp: unat_eq_0 not_less [symmetric])
  have "io = concat (map (\<lambda>i. replicate (unat (mx_kVector h ! i)) (ls_cidList ls ! i)) [0..<length (mx_kVector h)])"
    using io tc_inorder_eq [OF tc_inorder_out_of_range [OF io]] by simp
  ultimately have "count (mset xs) (ls_cidList ls ! i) = unat (mx_kVector h ! i)"
    using count_replicates [OF assms(3,4,5) zero] by simp
  then show ?thesis using s1(1) xs by blast
qed

definition tc_example_tsu :: "u8 \<Rightarrow> u8 list \<Rightarrow> MxControlHeader" where
  "tc_example_tsu l ks = mx_example\<lparr>mx_type := 5, mx_L := l, mx_kVector := ks\<rparr>"

theorem tc_split_exact_witness:
  "\<exists>xs0 s1 xs s2.
    ring_run tc_GetNextCidFromTsu 3 (GmaTxControl_new\<lparr>tc_cidVector := [0, 2, 0, 2], tc_paramL := 4\<rparr>) = Inr (xs0, s1)
    \<and> ring_run tc_GetNextCidFromTsu 4 s1 = Inr (xs, s2) \<and> count (mset xs) 2 = 2"
proof -
  let ?ls = "LinkState_new\<lparr>ls_cidList := [0, 2]\<rparr>"
  have "tc_RcvCtrlMsg (tc_example_tsu 4 [2, 2]) ?ls GmaTxControl_new
      = Inr (GmaTxControl_new\<lparr>tc_cidVector := [0, 2, 0, 2], tc_paramL := 4\<rparr>)"
    by code_simp
  then show ?thesis
    using tc_split_exact [of "tc_example_tsu 4 [2, 2]" ?ls GmaTxControl_new _ 1 3]
    by (simp add: tc_example_tsu_def)
qed

text \<open>The choice of the delivery link.  In any state the class reaches, the call returns a
  link without an error, keeps the invariant, and the link is up unless it is the default link.\<close>

theorem tc_delivery_safe:
  assumes "tc_inv s" "tc_algorithm s \<noteq> TxSide"
  shows "\<exists>c s'. tc_GetDeliveryLinkCid ls s = Inr (c, s') \<and> tc_inv s' \<and> tc_algorithm s' = tc_algorithm s
    \<and> (ls_IsLinkUp c ls \<or> c = ls_defaultLinkCid ls)"
proof (cases "tc_algorithm s = RxSide \<and> tc_cidVector s \<noteq> []")
  case True
  then have act: "tc_active s" using assms(1) by (simp add: tc_inv_def)
  let ?c = "tc_choose ls (tc_cidVector s ! unat (tc_splittingIndex s))"
  obtain s' where "tc_RxSideAlgorithm ls s = Inr (?c, s')" "tc_active s'"
    using rx_side.step_ok [OF act, of ls] by blast
  moreover from this have "tc_algorithm s' = tc_algorithm s"
    by (auto simp: tc_RxSideAlgorithm_def Let_def split: if_splits)
  ultimately show ?thesis
    using True by (auto simp: tc_GetDeliveryLinkCid_def tc_inv_def tc_choose_def)
next
  case False
  with assms show ?thesis
    by (cases "tc_algorithm s") (auto simp: tc_GetDeliveryLinkCid_def tc_RxSideAlgorithm_def)
qed

theorem tc_delivery_safe_witness:
  "\<exists>c s'. tc_GetDeliveryLinkCid (LinkState_new\<lparr>ls_bitmapFailedLinkMap := [(2, True)]\<rparr>)
      (GmaTxControl_new\<lparr>tc_cidVector := [2], tc_paramL := 1\<rparr>) = Inr (c, s')
    \<and> tc_inv s' \<and> c = 0"
proof -
  let ?s = "GmaTxControl_new\<lparr>tc_cidVector := [2], tc_paramL := 1\<rparr>"
  have "tc_inv ?s" "tc_algorithm ?s \<noteq> TxSide" by code_simp+
  moreover have "tc_GetDeliveryLinkCid (LinkState_new\<lparr>ls_bitmapFailedLinkMap := [(2, True)]\<rparr>) ?s
      = Inr (0, ?s)"
    by code_simp
  ultimately show ?thesis
    using tc_delivery_safe [of ?s "LinkState_new\<lparr>ls_bitmapFailedLinkMap := [(2, True)]\<rparr>"] by simp
qed

text \<open>Every accepted control message leaves the invariant of the class behind, from any
  state: with the safety of the delivery choice, no packet ever meets an index outside the vector.\<close>

theorem tc_rcv_invariant:
  assumes "tc_RcvCtrlMsg h ls s = Inr s'"
  shows "tc_inv s' \<and> tc_splittingIndex s' = 0 \<and> tc_paramL s' = mx_L h"
  using tc_Rcv_inv [OF assms] assms
  by (auto simp: tc_RcvCtrlMsg_def Let_def split: if_splits)

theorem tc_rcv_invariant_witness:
  "tc_inv (GmaTxControl_new\<lparr>tc_cidVector := [2], tc_cidDupVector := [11], tc_paramL := 1\<rparr>)"
proof -
  have "tc_RcvCtrlMsg (tc_example_tsu 1 [0, 1, 1]) (LinkState_new\<lparr>ls_cidList := [0, 2, 11]\<rparr>) GmaTxControl_new
      = Inr (GmaTxControl_new\<lparr>tc_cidVector := [2], tc_cidDupVector := [11], tc_paramL := 1\<rparr>)"
    by code_simp
  then show ?thesis using tc_rcv_invariant by blast
qed

text \<open>Steer mode (\<open>L = 1\<close>) keeps the link it is on when the new message still names it and
  otherwise moves to the first link named; the duplicates go to the other links named, never to the
  primary.\<close>

theorem tc_steer_primary:
  assumes "tc_RcvCtrlMsg h ls s = Inr s'" "mx_L h = 1"
    and "tc_inorder (mx_kVector h) (ls_cidList ls) = Inr (c # io)"
  shows "\<exists>p. tc_cidVector s' = [p] \<and> p \<in> set (c # io)
    \<and> p = (case tc_cidVector s of [q] \<Rightarrow> if q \<in> set (c # io) then q else c | _ \<Rightarrow> c)
    \<and> tc_cidDupVector s' = filter (\<lambda>d. d \<noteq> p) (c # io)"
proof -
  obtain inorder cv where io: "tc_inorder (mx_kVector h) (ls_cidList ls) = Inr inorder"
    and len: "length (tc_cidVector s) \<le> 1"
    and cv: "cv = (if list_ex (\<lambda>c. tc_cidVector s = [c]) inorder then tc_cidVector s else [])"
    and out: "tc_cidVector s' = (if inorder = [] then cv else [hd (cv @ inorder)])"
      "tc_cidDupVector s' = filter (\<lambda>c. c \<noteq> hd (cv @ inorder)) inorder"
      "tc_paramL s' = 1" "tc_splittingIndex s' = 0" "tc_algorithm s' = tc_algorithm s"
    using tc_Rcv_steer [OF assms(1,2)] .
  have "tc_cidVector s = [] \<or> (\<exists>x. tc_cidVector s = [x])" using len by (cases "tc_cidVector s") auto
  then show ?thesis
    using out io assms(3) by (auto simp: cv list_ex_iff)
qed

theorem tc_steer_primary_witness:
  "\<exists>p. tc_cidVector (GmaTxControl_new\<lparr>tc_cidVector := [2], tc_cidDupVector := [0], tc_paramL := 1\<rparr>) = [p]
    \<and> p \<in> set [0, 2] \<and> p = 2"
proof -
  let ?ls = "LinkState_new\<lparr>ls_cidList := [0, 2]\<rparr>"
  let ?s = "GmaTxControl_new\<lparr>tc_cidVector := [2], tc_paramL := 1\<rparr>"
  have "tc_RcvCtrlMsg (tc_example_tsu 1 [1, 1]) ?ls ?s
      = Inr (GmaTxControl_new\<lparr>tc_cidVector := [2], tc_cidDupVector := [0], tc_paramL := 1\<rparr>)"
    and "tc_inorder (mx_kVector (tc_example_tsu 1 [1, 1])) (ls_cidList ?ls) = Inr [0, 2]"
    and "mx_L (tc_example_tsu 1 [1, 1]) = 1"
    by code_simp+
  from tc_steer_primary [OF this(1,3,2)] show ?thesis by auto
qed

text \<open>A sender in split mode cannot be steered: a TSU with \<open>L = 1\<close> that arrives while the
  vector of a longer burst is in place ends the program with the fatal error of the duplicate
  mode, although the message is well formed.\<close>

theorem tc_split_to_steer_stops:
  assumes "tc_RcvCtrlMsg h ls s = Inr s'" "mx_L h \<noteq> 1"
    and "mx_type h' = 5" "mx_L h' = 1" "tc_inorder (mx_kVector h') (ls_cidList ls) = Inr io" "length io < 256"
  shows "tc_RcvCtrlMsg h' ls s' = Inl (Fatal ''duplicate mode should not have more than 1 primary link'')"
proof -
  have "tc_supported_L (mx_L h)"
    using assms(1) by (auto simp: tc_RcvCtrlMsg_def split: if_splits)
  then have "unat (mx_L h) > 1" using assms(2) by (auto simp: tc_supported_L_def)
  moreover obtain t io2 where "tc_table (mx_L h) = Some t"
      "tc_inorder (mx_kVector h) (ls_cidList ls) = Inr io2" "length io2 = unat (mx_L h)"
      "s' = s\<lparr>tc_cidVector := tc_schedule t io2, tc_paramL := mx_L h, tc_splittingIndex := 0\<rparr>"
    using tc_Rcv_split [OF assms(1,2)] .
  ultimately have "length (tc_cidVector s') > 1"
    using tc_table_perm(2) [of "mx_L h" t] by (simp add: tc_schedule_def)
  then show ?thesis
    using assms by (auto simp: tc_RcvCtrlMsg_def tc_prepare_def tc_supported_L_def Let_def)
qed

theorem tc_split_to_steer_stops_witness:
  "tc_RcvCtrlMsg (tc_example_tsu 1 [1, 0]) (LinkState_new\<lparr>ls_cidList := [0, 2]\<rparr>)
      (GmaTxControl_new\<lparr>tc_cidVector := [0, 2, 0, 2], tc_paramL := 4\<rparr>)
    = Inl (Fatal ''duplicate mode should not have more than 1 primary link'')"
proof -
  let ?ls = "LinkState_new\<lparr>ls_cidList := [0, 2]\<rparr>"
  have "tc_RcvCtrlMsg (tc_example_tsu 4 [2, 2]) ?ls GmaTxControl_new
      = Inr (GmaTxControl_new\<lparr>tc_cidVector := [0, 2, 0, 2], tc_paramL := 4\<rparr>)"
    and "tc_inorder (mx_kVector (tc_example_tsu 1 [1, 0])) (ls_cidList ?ls) = Inr [0]"
    by code_simp+
  then show ?thesis
    using tc_split_to_steer_stops [of "tc_example_tsu 4 [2, 2]" ?ls GmaTxControl_new _ "tc_example_tsu 1 [1, 0]" "[0]"]
    by (simp add: tc_example_tsu_def)
qed

text \<open>Two guards that miss: a burst of 64 is refused although its table is there, and the QoS
  request check dereferences an end iterator when the one link tested before was another one.\<close>

lemma tc_L64_rejected:
  "mx_type h = 5 \<Longrightarrow> mx_L h = 64 \<Longrightarrow> \<not> is_ok (tc_RcvCtrlMsg h ls s) \<and> tc_table 64 = Some REVERSE_BITS_INDEX64"
  by (simp add: tc_RcvCtrlMsg_def tc_supported_L_def tc_table_def)

lemma tc_qos_check_end_iterator:
  "tc_cidVector s = [] \<Longrightarrow> ls_cidToLastTestFailTime ls = [(c, t)] \<Longrightarrow> cid \<noteq> c \<Longrightarrow>
    \<exists>e. tc_QoSTestingRequestCheck now cid ls s = Inl (Undefined e)"
  by (simp add: tc_QoSTestingRequestCheck_def Let_def sm_find_def)

lemma tc_Start_Stop_testing:
  "tc_StartQosTesting cid d s = Inr (t, s') \<Longrightarrow> tc_StopQosTesting cid s' = s"
  by (auto simp: tc_StartQosTesting_def tc_StopQosTesting_def split: if_splits)

end
