(* ===== verification/Rx_Control.thy ===== *)
theory Rx_Control
  imports Link_State
begin

text \<open>The receive side traffic splitting: class \<open>GmaRxControl\<close> of
  \<open>src/contrib/gma/model/gma-rx-control.h\<close> and \<open>gma-rx-control.cc\<close>, without the delay violation
  algorithm, which is in \<open>Rx_Violation\<close>.

  After every measurement interval the receiver decides how many of the next \<open>m_splittingBurst\<close>
  packets go over each link (\<open>m_lastSplittingIndexList\<close>).  The invariant \<open>rc_inv\<close> says that these
  numbers add up to the burst, as natural numbers; every algorithm here keeps it, which is what the
  assertions at the end of the C++ functions check modulo 256.

  The C++ \<open>double\<close> is \<open>real\<close>.  The lists of a measurement are indexed with \<open>!\<close> where the entry
  function has asserted their sizes, the vectors of the object with \<open>vec_at\<close>.  Functions that
  use \<open>m_cidToIndexMap[cid]\<close> without a check return the link state, since the operator may insert.\<close>

section \<open>Data\<close>

record RxMeasurement =
  rm_links :: u8
  rm_measureIntervalThreshS :: real
  rm_measureIntervalDurationS :: real
  rm_cidList :: "u8 list"
  rm_delayThisInterval :: "bool list"
  rm_delayList :: "real list"
  rm_minOwdLongTerm :: "real list"
  rm_lossRateList :: "real list"
  rm_highDelayRatioList :: "real list"
  rm_delayViolationPktNumList :: "u32 list"
  rm_totalPktNumList :: "u32 list"
  rm_splittingBurstRequirementEst :: u32

record RlAction =
  ra_links :: u8
  ra_cidList :: "u8 list"
  ra_ratio :: "u8 list"

record SplittingDecision =
  sd_update :: bool
  sd_reverse :: bool
  sd_splitIndexList :: "u8 list"
  sd_minOwdLongTerm :: "u8 list"
  sd_queueingDelay :: "u8 list"

definition SplittingDecision_new :: SplittingDecision where
  "SplittingDecision_new = \<lparr>sd_update = False, sd_reverse = False, sd_splitIndexList = [],
    sd_minOwdLongTerm = [], sd_queueingDelay = []\<rparr>"

datatype GmaRxAlgorithm = Delay | CongDelay | DefaultLinkAlg | RlSplit | QosSteer | Gma | Gma2

record GmaRxControl =
  rc_qosDelayViolationTarget :: real
  rc_qosLossTarget :: real
  rc_algorithm :: GmaRxAlgorithm
  rc_splittingBurst :: u8
  rc_lastSplittingIndexList :: "u8 list"
  rc_lastRatio :: "real list"
  rc_decreaseCounter :: "u8 list"
  rc_lastOwd :: "int list"
  rc_delayThresh :: real
  rc_splittingBurstScalar :: int
  rc_enableAdaptiveStep :: bool
  rc_enableStableAlgorithm :: bool
  rc_enableLossAlgorithm :: bool
  rc_enableQosFlowPrioritization :: bool
  rc_queueingDelayTargetMs :: u32
  rc_CONGESTION_SCALER_MAX :: real
  rc_CONGESTION_SCALER_MIN :: real
  rc_congestionScaler :: real
  rc_adaptiveCongestionScaler :: bool
  rc_relocateScaler :: real
  rc_minSplitAdjustmentStep :: int
  rc_enableBwEstimate :: bool
  rc_bwHistSize :: u32
  rc_cidToBwHistMap :: "(u8, real list) smap"
  rc_cidToKiHistMap :: "(u8, u32 list) smap"
  rc_flowActive :: bool
  rc_updateThreshold :: real
  rc_adaptiveSplittingBurst :: bool
  rc_roundingScaler :: real

definition PKT_NUM_WEIGHT :: real where "PKT_NUM_WEIGHT = 8 / 10"
definition CONGESTION_LOSS_THRESHOLD :: real where "CONGESTION_LOSS_THRESHOLD = 1 / 10000"
definition LOSS_ALGORITHM_BOUND :: real where "LOSS_ALGORITHM_BOUND = 2"
definition STEP_THRESH :: int where "STEP_THRESH = 4"

definition GmaRxControl_new :: GmaRxControl where
  "GmaRxControl_new = \<lparr>rc_qosDelayViolationTarget = 1 / 100, rc_qosLossTarget = 1,
    rc_algorithm = Delay, rc_splittingBurst = 1, rc_lastSplittingIndexList = [], rc_lastRatio = [],
    rc_decreaseCounter = [], rc_lastOwd = [], rc_delayThresh = 5, rc_splittingBurstScalar = 2,
    rc_enableAdaptiveStep = True, rc_enableStableAlgorithm = True, rc_enableLossAlgorithm = True,
    rc_enableQosFlowPrioritization = False, rc_queueingDelayTargetMs = 10,
    rc_CONGESTION_SCALER_MAX = 5 / 10, rc_CONGESTION_SCALER_MIN = 1 / 10, rc_congestionScaler = 5 / 10,
    rc_adaptiveCongestionScaler = True, rc_relocateScaler = 1 / 10, rc_minSplitAdjustmentStep = 1,
    rc_enableBwEstimate = True, rc_bwHistSize = 10, rc_cidToBwHistMap = [], rc_cidToKiHistMap = [],
    rc_flowActive = False, rc_updateThreshold = 3 / 100, rc_adaptiveSplittingBurst = False,
    rc_roundingScaler = - (3 / 10)\<rparr>"

section \<open>Configuration\<close>

definition rc_GetMinSplittingBurst :: int where "rc_GetMinSplittingBurst = 8"
definition rc_GetMaxSplittingBurst :: int where "rc_GetMaxSplittingBurst = 128"

definition rc_SetSplittingBurst :: "u8 \<Rightarrow> GmaRxControl \<Rightarrow> GmaRxControl result" where
  "rc_SetSplittingBurst b s =
    rbind (rassert (b = 1 \<or> b = 4 \<or> b = 8 \<or> b = 16 \<or> b = 32 \<or> b = 128)
      ''Now only support size 1, 4, 8 16, 32, 64 and 128.'') (\<lambda>_.
    if b = 0 then
      Inr (s\<lparr>rc_splittingBurst := of_int rc_GetMinSplittingBurst, rc_adaptiveSplittingBurst := True\<rparr>)
    else Inr (s\<lparr>rc_splittingBurst := b, rc_adaptiveSplittingBurst := False\<rparr>))"

definition rc_SetDelayThresh :: "real \<Rightarrow> GmaRxControl \<Rightarrow> GmaRxControl result" where
  "rc_SetDelayThresh delay s =
    rbind (rassert (delay \<ge> 0) ''delay thresh must be greater than 0'') (\<lambda>_.
    Inr (s\<lparr>rc_delayThresh := delay\<rparr>))"

definition rc_SetAlgorithm :: "string \<Rightarrow> GmaRxControl \<Rightarrow> GmaRxControl result" where
  "rc_SetAlgorithm algorithm s =
    (if algorithm = ''Delay'' then Inr (s\<lparr>rc_algorithm := Delay\<rparr>)
     else if algorithm = ''gma'' then Inr (s\<lparr>rc_algorithm := Gma\<rparr>)
     else if algorithm = ''gma2'' then Inr (s\<lparr>rc_algorithm := Gma2\<rparr>)
     else if algorithm = ''CongDelay'' then Inr (s\<lparr>rc_algorithm := CongDelay\<rparr>)
     else if algorithm = ''DefaultLink'' then Inr (s\<lparr>rc_algorithm := DefaultLinkAlg\<rparr>)
     else if algorithm = ''RlSplit'' then Inr (s\<lparr>rc_algorithm := RlSplit\<rparr>)
     else if algorithm = ''QosSteer'' then Inr (s\<lparr>rc_algorithm := QosSteer\<rparr>)
     else Inl (Fatal ''algorithm not supported''))"

definition rc_GetMeasurementBurstRequirement :: "GmaRxControl \<Rightarrow> int result" where
  "rc_GetMeasurementBurstRequirement s =
    (if rc_splittingBurstScalar s * uint (rc_splittingBurst s) = 0
     then Inl (Fatal ''the splitting burst requiremment cannot be zero!!!'')
     else Inr (rc_splittingBurstScalar s * uint (rc_splittingBurst s)))"

definition rc_SetQosTarget :: "real \<Rightarrow> real \<Rightarrow> GmaRxControl \<Rightarrow> GmaRxControl" where
  "rc_SetQosTarget delayTarget lossTarget s =
    s\<lparr>rc_qosDelayViolationTarget := delayTarget, rc_qosLossTarget := lossTarget\<rparr>"

definition rc_QosSteerEnabled :: "GmaRxControl \<Rightarrow> bool" where
  "rc_QosSteerEnabled s = (if rc_algorithm s = QosSteer then True else False)"

section \<open>The delay algorithm\<close>

text \<open>A \<open>double\<close> stored into an \<open>int\<close> is truncated towards zero.\<close>

definition trunc :: "real \<Rightarrow> int" where
  "trunc x = (if x \<ge> 0 then \<lfloor>x\<rfloor> else \<lceil>x\<rceil>)"

definition rc_initial_split :: "u8 \<Rightarrow> RxMeasurement \<Rightarrow> u8 \<Rightarrow> u8 list" where
  "rc_initial_split burst m defaultCid =
    map (\<lambda>ind. if rm_cidList m ! ind = defaultCid then burst else 0) [0..<unat (rm_links m)]"

definition rc_init :: "LinkState \<Rightarrow> RxMeasurement \<Rightarrow> GmaRxControl \<Rightarrow> GmaRxControl" where
  "rc_init ls m s =
    (if length (rc_lastSplittingIndexList s) = 0 then
       s\<lparr>rc_lastSplittingIndexList := rc_initial_split (rc_splittingBurst s) m (ls_defaultLinkCid ls),
         rc_decreaseCounter := rc_decreaseCounter s @ replicate (unat (rm_links m)) 1,
         rc_lastOwd := (if rc_enableStableAlgorithm s
           then rc_lastOwd s @ map (\<lambda>ind. trunc (rm_delayList m ! ind)) [0..<unat (rm_links m)]
           else rc_lastOwd s)\<rparr>
     else s)"

text \<open>The first link with traffic, and the loop for the minimum and the maximum over the links
  that are up: values of \<open>vals\<close>, the maximum only among links with traffic.\<close>

fun rc_first_active :: "u8 list \<Rightarrow> nat list \<Rightarrow> nat option result" where
  "rc_first_active split [] = Inr None"
| "rc_first_active split (ind # inds) =
    rbind (vec_at split ind) (\<lambda>k. if k \<noteq> 0 then Inr (Some ind) else rc_first_active split inds)"

definition rc_scan_step ::
    "real list \<Rightarrow> u8 list \<Rightarrow> (nat \<times> nat) \<Rightarrow> nat \<Rightarrow> (nat \<times> nat) result" where
  "rc_scan_step vals split = (\<lambda>(minIndex, maxIndex) ind.
    let minIndex' = (if vals ! minIndex > vals ! ind then ind else minIndex) in
    if vals ! maxIndex < vals ! ind then
      rbind (vec_at split ind) (\<lambda>k. Inr (minIndex', if k \<noteq> 0 then ind else maxIndex))
    else Inr (minIndex', maxIndex))"

definition rc_scan_delay ::
    "(nat \<Rightarrow> bool) \<Rightarrow> real list \<Rightarrow> u8 list \<Rightarrow> nat \<Rightarrow> nat \<Rightarrow> (nat \<times> nat) result" where
  "rc_scan_delay up vals split start n =
    rfoldl (\<lambda>p ind. if up ind then rc_scan_step vals split p ind else Inr p) (start, start) [0..<n]"

definition rc_scan_loss ::
    "(nat \<Rightarrow> bool) \<Rightarrow> real list \<Rightarrow> u8 list \<Rightarrow> nat \<Rightarrow> (nat \<times> nat) option result" where
  "rc_scan_loss up vals split n =
    rfoldl (\<lambda>p ind. if up ind then
        (case p of None \<Rightarrow> Inr (Some (ind, ind))
         | Some q \<Rightarrow> rbind (rc_scan_step vals split q ind) (\<lambda>q. Inr (Some q)))
      else Inr p) None [0..<n]"

text \<open>\<open>v.at(from) -= step; v.at(to) += step\<close>\<close>

definition rc_transfer :: "u8 \<Rightarrow> nat \<Rightarrow> nat \<Rightarrow> u8 list \<Rightarrow> u8 list result" where
  "rc_transfer step src dst split =
    rbind (vec_at split src) (\<lambda>a.
    rbind (vec_upd split src (a - step)) (\<lambda>split.
    rbind (vec_at split dst) (\<lambda>b.
    vec_upd split dst (b + step))))"

definition rc_bump_counters :: "nat \<Rightarrow> u8 list \<Rightarrow> u8 list" where
  "rc_bump_counters maxIndex counters =
    map (\<lambda>ind. if ind = maxIndex then counters ! maxIndex + 1 else 1) [0..<length counters]"

definition rc_step_size :: "u8 \<Rightarrow> u8 \<Rightarrow> int" where
  "rc_step_size counter k =
    (let step = max (uint counter - STEP_THRESH) 1 in if step \<ge> uint k then uint k else step)"

text \<open>The first stage: move traffic from the link with the largest delay to the one with the
  smallest.\<close>

definition rc_delay_move ::
    "RxMeasurement \<Rightarrow> nat \<Rightarrow> nat \<Rightarrow> GmaRxControl \<Rightarrow> (bool \<times> GmaRxControl) result" where
  "rc_delay_move m minIndex maxIndex s =
    (if rm_delayList m ! maxIndex - rm_delayList m ! minIndex > rc_delayThresh s then
       rbind (if rc_enableStableAlgorithm s
              then rbind (vec_at (rc_lastOwd s) maxIndex) (\<lambda>o1. Inr (real_of_int o1 \<le> rm_delayList m ! maxIndex))
              else Inr True) (\<lambda>go.
       if go then
         rbind (vec_at (rc_lastSplittingIndexList s) maxIndex) (\<lambda>k.
         if k > 0 then
           (if rc_enableAdaptiveStep s then
              (let counters = rc_bump_counters maxIndex (rc_decreaseCounter s) in
               rbind (vec_at counters maxIndex) (\<lambda>c.
               rbind (rc_transfer (of_int (rc_step_size c k)) maxIndex minIndex (rc_lastSplittingIndexList s)) (\<lambda>split.
               Inr (True, s\<lparr>rc_decreaseCounter := counters, rc_lastSplittingIndexList := split\<rparr>))))
            else
              rbind (rc_transfer 1 maxIndex minIndex (rc_lastSplittingIndexList s)) (\<lambda>split.
              Inr (True, s\<lparr>rc_lastSplittingIndexList := split\<rparr>)))
         else Inr (False, s))
       else Inr (False, s))
     else Inr (False, s\<lparr>rc_decreaseCounter := replicate (length (rc_decreaseCounter s)) 1\<rparr>))"

definition rc_store_owd :: "RxMeasurement \<Rightarrow> GmaRxControl \<Rightarrow> GmaRxControl result" where
  "rc_store_owd m s =
    (if rc_enableStableAlgorithm s then
       rbind (rfoldl (\<lambda>owd ind. vec_upd owd ind (trunc (rm_delayList m ! ind))) (rc_lastOwd s) [0..<unat (rm_links m)])
         (\<lambda>owd. Inr (s\<lparr>rc_lastOwd := owd\<rparr>))
     else Inr s)"

text \<open>All traffic to one link of the measurement, as the loops of the steer mode do it.\<close>

definition rc_steer_to :: "(nat \<Rightarrow> bool) \<Rightarrow> u8 \<Rightarrow> nat \<Rightarrow> u8 list \<Rightarrow> u8 list result" where
  "rc_steer_to sel burst n split =
    rfoldl (\<lambda>split ind. vec_upd split ind (if sel ind then burst else 0)) split [0..<n]"

text \<open>The second stage, for links of about the same delay: the loss rates, and in steer mode the
  default link.\<close>

definition rc_loss_stage ::
    "LinkState \<Rightarrow> RxMeasurement \<Rightarrow> nat \<Rightarrow> nat \<Rightarrow> GmaRxControl \<Rightarrow> (bool \<times> GmaRxControl) result" where
  "rc_loss_stage ls m minIndex maxIndex s =
    (let up = (\<lambda>ind. ls_IsLinkUp (rm_cidList m ! ind) ls); n = unat (rm_links m);
         split = rc_lastSplittingIndexList s; d = ls_defaultLinkCid ls in
     rbind (rc_scan_loss up (rm_lossRateList m) split n) (\<lambda>p.
     let (minLossInd, maxLossInd) = (case p of None \<Rightarrow> (0, 0) | Some q \<Rightarrow> q);
         minLoss = (if p = None then 0 else rm_lossRateList m ! minLossInd);
         maxLoss = (if p = None then 0 else rm_lossRateList m ! maxLossInd) in
     if maxLoss > minLoss * LOSS_ALGORITHM_BOUND then
       rbind (vec_at split maxLossInd) (\<lambda>k.
       if k > 0 then
         rbind (rc_transfer 1 maxLossInd minLossInd split) (\<lambda>split.
         Inr (True, s\<lparr>rc_lastSplittingIndexList := split\<rparr>))
       else Inr (False, s))
     else if rc_splittingBurst s = 1 \<and> minIndex \<noteq> maxIndex \<and> ls_IsLinkUp d ls then
       (case sm_find d (ls_cidToIndexMap ls) of
          None \<Rightarrow> Inl (Assertion ''cannot find this cid in the map'')
        | Some i \<Rightarrow>
            rbind (vec_at split (unat i)) (\<lambda>k.
            if k = rc_splittingBurst s then Inr (False, s)
            else
              rbind (rc_steer_to (\<lambda>ind. rm_cidList m ! ind = d) (rc_splittingBurst s) n split) (\<lambda>split.
              rbind (rassert (\<exists>ind\<in>set [0..<n]. rm_cidList m ! ind = d)
                ''Default CID should be in the cid list!!!'') (\<lambda>_.
              Inr (True, s\<lparr>rc_lastSplittingIndexList := split\<rparr>)))))
     else Inr (False, s)))"

definition rc_sum :: "nat \<Rightarrow> u8 list \<Rightarrow> u8 result" where
  "rc_sum n split = rfoldl (\<lambda>sum ind. rbind (vec_at split ind) (\<lambda>k. Inr (sum + k))) 0 [0..<n]"

definition rc_DelayAlgorithm ::
    "LinkState \<Rightarrow> RxMeasurement \<Rightarrow> bool \<Rightarrow> GmaRxControl \<Rightarrow> (SplittingDecision \<times> GmaRxControl) result" where
  "rc_DelayAlgorithm ls m useMinOwd s =
    (let m = (if useMinOwd then m\<lparr>rm_delayList := rm_minOwdLongTerm m\<rparr> else m);
         s = rc_init ls m s; n = unat (rm_links m);
         up = (\<lambda>ind. ls_IsLinkUp (rm_cidList m ! ind) ls) in
     rbind (rc_first_active (rc_lastSplittingIndexList s) [0..<n]) (\<lambda>start.
     case start of None \<Rightarrow> Inl (Assertion ''cannot initialize the min and max delay index'')
     | Some i0 \<Rightarrow>
       rbind (rc_scan_delay up (rm_delayList m) (rc_lastSplittingIndexList s) i0 n) (\<lambda>(minIndex, maxIndex).
       rbind (rc_delay_move m minIndex maxIndex s) (\<lambda>(update, s).
       rbind (rc_store_owd m s) (\<lambda>s.
       rbind (if update = False \<and> rm_delayList m ! maxIndex - rm_delayList m ! minIndex \<le> rc_delayThresh s
                 \<and> rc_enableLossAlgorithm s
              then rc_loss_stage ls m minIndex maxIndex s
              else Inr (update, s)) (\<lambda>(update, s).
       rbind (rc_sum n (rc_lastSplittingIndexList s)) (\<lambda>sumRatio.
       rbind (rassert (sumRatio = rc_splittingBurst s) ''the summation must equals the splitting burst size'') (\<lambda>_.
       Inr (SplittingDecision_new\<lparr>sd_splitIndexList := rc_lastSplittingIndexList s, sd_update := update\<rparr>, s)))))))))"

section \<open>The other decisions\<close>

definition rc_CongDelayAlgorithm ::
    "LinkState \<Rightarrow> RxMeasurement \<Rightarrow> GmaRxControl \<Rightarrow> (SplittingDecision \<times> GmaRxControl \<times> LinkState) result" where
  "rc_CongDelayAlgorithm ls m s =
    (let s = rc_init ls m s;
         (i, ix) = sm_index (ls_defaultLinkCid ls) (ls_cidToIndexMap ls);
         ls = ls\<lparr>ls_cidToIndexMap := ix\<rparr>;
         delay = rbind (rc_DelayAlgorithm ls m False s) (\<lambda>(d, s). Inr (d, s, ls)) in
     rbind (vec_at (rc_lastSplittingIndexList s) (unat i)) (\<lambda>k.
     if k = rc_splittingBurst s then
       (if rm_lossRateList m ! 0 > CONGESTION_LOSS_THRESHOLD then delay
        else Inr (SplittingDecision_new\<lparr>sd_update := False\<rparr>, s, ls))
     else delay))"

text \<open>The reinforcement learning action: one turn of its loop and the decision.\<close>

definition rc_rl_step ::
    "RlAction \<Rightarrow> LinkState \<Rightarrow> (bool \<times> u8 list \<times> u8 list \<times> (u8, u8) smap) \<Rightarrow> nat
      \<Rightarrow> (bool \<times> u8 list \<times> u8 list \<times> (u8, u8) smap) result" where
  "rc_rl_step a ls = (\<lambda>(update, splittingIndexList, last, ix) ind.
    let cid = ra_cidList a ! ind; ratio = ra_ratio a ! ind in
    if length last = 0 then
      Inr (True, splittingIndexList @ map (\<lambda>_. ratio) (filter (\<lambda>c. c = cid) (ls_cidList ls)), last, ix)
    else
      (let (i, ix) = sm_index cid ix in
       rbind (vec_at last (unat i)) (\<lambda>k.
       if k \<noteq> ratio then Inr (True, splittingIndexList, last[unat i := ratio], ix)
       else Inr (update, splittingIndexList, last, ix))))"

definition rc_GetTrafficSplittingDecision_Rl ::
    "LinkState \<Rightarrow> RlAction \<Rightarrow> GmaRxControl \<Rightarrow> (SplittingDecision \<times> GmaRxControl \<times> LinkState) result" where
  "rc_GetTrafficSplittingDecision_Rl ls a s =
    (if ra_links a = 0 then Inl (Fatal ''Link cannot be 0!'') else
     rbind (rassert (unat (ra_links a) = length (ra_cidList a)) ''size does not match!'') (\<lambda>_.
     rbind (rassert (unat (ra_links a) = length (ra_ratio a)) ''size does not match!'') (\<lambda>_.
     rbind (rfoldl (rc_rl_step a ls) (False, [], rc_lastSplittingIndexList s, ls_cidToIndexMap ls)
         [0..<unat (ra_links a)]) (\<lambda>(update, splittingIndexList, last, ix).
     let splittingIndexList = (if length last > 0 then last else splittingIndexList) in
     rbind (rc_sum (unat (ra_links a)) splittingIndexList) (\<lambda>sumRatio.
     rbind (rassert (sumRatio = rc_splittingBurst s \<or> sumRatio = 1 \<or> sumRatio = 4 \<or> sumRatio = 8
         \<or> sumRatio = 16 \<or> sumRatio = 32 \<or> sumRatio = 64 \<or> sumRatio = 128)
       ''Now only support size 1, 4, 8 16, 32, 64 and 128.'') (\<lambda>_.
     Inr (SplittingDecision_new\<lparr>sd_splitIndexList := splittingIndexList, sd_update := update\<rparr>,
       s\<lparr>rc_lastSplittingIndexList := last, rc_splittingBurst := sumRatio\<rparr>,
       ls\<lparr>ls_cidToIndexMap := ix\<rparr>)))))))"

text \<open>The loop of \<open>LinkDownTsu\<close> that gives the packets of the failed link to the links that are
  up, one by one and round the list; it runs forever when no link is up.\<close>

partial_function (option) rc_distribute ::
    "(nat \<Rightarrow> bool result) \<Rightarrow> nat \<Rightarrow> nat \<Rightarrow> u8 list \<Rightarrow> u8 list result option" where
  "rc_distribute up splittingIndex iterInd split =
    (if splittingIndex = 0 then Some (Inr split)
     else (case up iterInd of
         Inl e \<Rightarrow> Some (Inl e)
       | Inr b \<Rightarrow>
           if b then
             (if iterInd < length split
              then rc_distribute up (splittingIndex - 1) ((iterInd + 1) mod length split)
                (split[iterInd := split ! iterInd + 1])
              else Some (Inl OutOfRange))
           else rc_distribute up splittingIndex ((iterInd + 1) mod length split) split))"

fun rc_any_up :: "(nat \<Rightarrow> bool result) \<Rightarrow> nat list \<Rightarrow> bool result" where
  "rc_any_up up [] = Inr False"
| "rc_any_up up (ind # inds) = rbind (up ind) (\<lambda>b. if b then Inr True else rc_any_up up inds)"

definition rc_link_up_at :: "LinkState \<Rightarrow> nat \<Rightarrow> bool result" where
  "rc_link_up_at ls ind = rbind (vec_at (ls_cidList ls) ind) (\<lambda>c. Inr (ls_IsLinkUp c ls))"

definition rc_decide :: "bool \<Rightarrow> GmaRxControl \<Rightarrow> SplittingDecision" where
  "rc_decide update s = SplittingDecision_new\<lparr>sd_splitIndexList := rc_lastSplittingIndexList s, sd_update := update\<rparr>"

definition rc_LinkDownTsu ::
    "LinkState \<Rightarrow> u8 \<Rightarrow> GmaRxControl \<Rightarrow> (SplittingDecision \<times> GmaRxControl) result" where
  "rc_LinkDownTsu ls cid s =
    (let split = rc_lastSplittingIndexList s in
     if rc_algorithm s = DefaultLinkAlg then Inr (rc_decide False s, s)
     else if length split = 0 then
       (if cid \<noteq> ls_defaultLinkCid ls then
          Inr (SplittingDecision_new\<lparr>sd_splitIndexList :=
              map (\<lambda>c. if c = ls_defaultLinkCid ls then rc_splittingBurst s else 0) (ls_cidList ls),
            sd_update := True\<rparr>, s)
        else Inr (rc_decide False s, s))
     else
       (case sm_find cid (ls_cidToIndexMap ls) of
          None \<Rightarrow> Inl (Assertion ''cannot find this cid in the map'')
        | Some failedLink \<Rightarrow>
            rbind (vec_at split (unat failedLink)) (\<lambda>k.
            if k = 0 then Inr (rc_decide False s, s)
            else
              rbind (rc_any_up (rc_link_up_at ls) [0..<length split]) (\<lambda>someUp.
              if \<not> someUp then Inr (rc_decide False s, s)
              else
                (case rc_distribute (rc_link_up_at ls) (unat k) 0 (split[unat failedLink := 0]) of
                   None \<Rightarrow> Inl Diverges
                 | Some r \<Rightarrow>
                     rbind r (\<lambda>split'.
                     let s = s\<lparr>rc_lastSplittingIndexList := split'\<rparr> in
                     rbind (rc_sum (length split') split') (\<lambda>sumRatio.
                     rbind (rassert (sumRatio = rc_splittingBurst s)
                       ''the summation must equals the splitting burst size'') (\<lambda>_.
                     Inr (rc_decide True s, s)))))))))"

definition rc_GenerateTrafficSplittingDecision ::
    "LinkState \<Rightarrow> u8 \<Rightarrow> bool \<Rightarrow> GmaRxControl \<Rightarrow> SplittingDecision \<times> GmaRxControl" where
  "rc_GenerateTrafficSplittingDecision ls cid reverse s =
    (let l = map (\<lambda>c. if c = cid then rc_splittingBurst s else 0) (ls_cidList ls) in
     (SplittingDecision_new\<lparr>sd_splitIndexList := l, sd_update := True, sd_reverse := reverse\<rparr>,
      if \<not> reverse then s\<lparr>rc_lastSplittingIndexList := l\<rparr> else s))"

section \<open>QoS steering\<close>

definition rc_qos_pass :: "GmaRxControl \<Rightarrow> real \<Rightarrow> real \<Rightarrow> bool" where
  "rc_qos_pass s highDelay loss \<longleftrightarrow> highDelay \<ge> 0 \<and> highDelay < rc_qosDelayViolationTarget s
    \<and> loss \<ge> 0 \<and> loss < rc_qosLossTarget s"

definition rc_qosOkList :: "LinkState \<Rightarrow> RxMeasurement \<Rightarrow> u8 \<Rightarrow> GmaRxControl \<Rightarrow> nat list result" where
  "rc_qosOkList ls m primaryLinkIndex s =
    rfoldl (\<lambda>l ind.
        if ind \<noteq> unat primaryLinkIndex \<and> ls_IsLinkUp (rm_cidList m ! ind) ls then
          rbind (vec_at (rm_highDelayRatioList m) ind) (\<lambda>hd.
          Inr (if rc_qos_pass s hd (rm_lossRateList m ! ind) then l @ [ind] else l))
        else Inr l) [] [0..<unat (rm_links m)]"

text \<open>Traffic per class of link, and the other cids.\<close>

definition rc_qos_traffic ::
    "RxMeasurement \<Rightarrow> u8 \<Rightarrow> u8 \<Rightarrow> u8 list \<Rightarrow> (u16 \<times> u16 \<times> u16 \<times> u8 list) result" where
  "rc_qos_traffic m primaryLinkIndex backupLinkIndex split =
    rfoldl (\<lambda>(p, b, o1, cids) ind.
        rbind (vec_at split ind) (\<lambda>k.
        if ind = unat primaryLinkIndex then Inr (p + ucast k, b, o1, cids)
        else if ind = unat backupLinkIndex then Inr (p, b + ucast k, o1, cids)
        else Inr (p, b, o1 + ucast k, cids @ [rm_cidList m ! ind]))) (0, 0, 0, []) [0..<unat (rm_links m)]"

text \<open>A link without a good measurement: a failed test is stamped, an idle link may be tested again.\<close>

definition rc_qos_record :: "time \<Rightarrow> RxMeasurement \<Rightarrow> u8 \<Rightarrow> nat \<Rightarrow> LinkState \<Rightarrow> LinkState result" where
  "rc_qos_record now m cid ind ls =
    rbind (vec_at (rm_highDelayRatioList m) ind) (\<lambda>hd.
    rbind (if hd \<ge> 0 then rbind (vec_at (rm_lossRateList m) ind) (\<lambda>l. Inr (l \<ge> 0)) else Inr False) (\<lambda>avail.
    if avail then
      Inr (ls\<lparr>ls_cidToLastTestFailTime := sm_set cid now (ls_cidToLastTestFailTime ls),
        ls_cidToValidTestExpireTime := sm_erase cid (ls_cidToValidTestExpireTime ls)\<rparr>)
    else
      Inr (ls\<lparr>ls_cidToLastTestFailTime := sm_erase cid (ls_cidToLastTestFailTime ls)\<rparr>)))"

definition rc_index_of :: "u8 \<Rightarrow> LinkState \<Rightarrow> u8 \<times> LinkState" where
  "rc_index_of cid ls = (let (i, ix) = sm_index cid (ls_cidToIndexMap ls) in
    (i, ls\<lparr>ls_cidToIndexMap := ix\<rparr>))"

definition rc_qos_fail ::
    "time \<Rightarrow> RxMeasurement \<Rightarrow> u8 \<Rightarrow> u8 \<Rightarrow> u8 list \<Rightarrow> LinkState \<Rightarrow> LinkState result" where
  "rc_qos_fail now m backupCid backupLinkIndex otherCidList ls =
    rbind (rc_qos_record now m backupCid (unat backupLinkIndex) ls) (\<lambda>ls.
    rfoldl (\<lambda>ls cid. let (i, ls) = rc_index_of cid ls in rc_qos_record now m cid (unat i) ls) ls otherCidList)"

definition rc_qos_accept :: "time \<Rightarrow> u8 \<Rightarrow> LinkState \<Rightarrow> LinkState" where
  "rc_qos_accept now cid ls =
    ls\<lparr>ls_cidToLastTestFailTime := sm_erase cid (ls_cidToLastTestFailTime ls),
      ls_cidToValidTestExpireTime :=
        sm_set cid (now + MAX_QOS_VALID_INTERVAL) (ls_cidToValidTestExpireTime ls)\<rparr>"

definition rc_QosSteerAlgorithm ::
    "time \<Rightarrow> LinkState \<Rightarrow> RxMeasurement \<Rightarrow> GmaRxControl
      \<Rightarrow> (SplittingDecision \<times> GmaRxControl \<times> LinkState) result" where
  "rc_QosSteerAlgorithm now ls m s =
    rbind (rassert (rc_splittingBurst s = 1) ''this algorithm is for steering mode only'') (\<lambda>_.
    let n = unat (rm_links m); burst = rc_splittingBurst s;
        split = (if length (rc_lastSplittingIndexList s) = 0
          then rc_initial_split burst m (ls_defaultLinkCid ls) else rc_lastSplittingIndexList s);
        (primary, ls) = rc_index_of (ls_defaultLinkCid ls) ls;
        backupCid = ls_GetBackupLinkCid ls;
        (backup, ls) = rc_index_of backupCid ls;
        finish = (\<lambda>update split ls. Inr (SplittingDecision_new\<lparr>sd_splitIndexList := split, sd_update := update\<rparr>,
          s\<lparr>rc_lastSplittingIndexList := split\<rparr>, ls))
    in
    rbind (rc_qos_traffic m primary backup split) (\<lambda>(overPrimary, overBackup, overOther, otherCidList).
    rbind (rc_qosOkList ls m primary s) (\<lambda>qosOkList.
    if uint overBackup + uint overOther = 0 then
      (case qosOkList of
         [] \<Rightarrow> rbind (rc_qos_fail now m backupCid backup otherCidList ls) (\<lambda>ls. finish False split ls)
       | [q] \<Rightarrow>
           rbind (rc_steer_to (\<lambda>ind. ind = q) burst n split) (\<lambda>split.
           finish True split (rc_qos_accept now (rm_cidList m ! q) ls))
       | _ \<Rightarrow> Inl (Fatal ''did not implement testing over multiple backup links yet...''))
    else
      (case qosOkList of
         [] \<Rightarrow>
           rbind (rc_steer_to (\<lambda>ind. ind = unat primary) burst n split) (\<lambda>split.
           rbind (rc_qos_fail now m backupCid backup otherCidList ls) (\<lambda>ls. finish True split ls))
       | [q] \<Rightarrow>
           rbind (vec_at split q) (\<lambda>k.
           if k = burst then finish False split (rc_qos_accept now (rm_cidList m ! q) ls)
           else
             rbind (rc_steer_to (\<lambda>ind. ind = q) burst n split) (\<lambda>split.
             finish True split (rc_qos_accept now (rm_cidList m ! q) ls)))
       | _ \<Rightarrow> Inl (Fatal ''did not implement testing over multiple backup links yet...'')))))"

definition rc_QoSTestingRequestCheck ::
    "time \<Rightarrow> u8 \<Rightarrow> LinkState \<Rightarrow> GmaRxControl \<Rightarrow> (bool \<times> LinkState) result" where
  "rc_QoSTestingRequestCheck now cid ls s =
    rbind (rassert (rc_algorithm s = QosSteer) ''call this function only in QoS enabled mode'') (\<lambda>_.
    let split = rc_lastSplittingIndexList s;
        (onlyPrimary, ls) = (if length split = 0 then (True, ls)
          else (let (primary, ls) = rc_index_of (ls_defaultLinkCid ls) ls;
                    (_, ls) = rc_index_of (ls_GetBackupLinkCid ls) ls in
                (foldl (\<lambda>n ind. if ind = unat primary then n else n + uint (split ! ind)) 0
                   [0..<length split] = 0, ls)));
        m = ls_cidToLastTestFailTime ls;
        mark = ls\<lparr>ls_cidToLastTestFailTime := sm_set cid now m\<rparr> in
    if onlyPrimary then
      (if m = [] then Inr (True, mark)
       else if length m = 1 then
         (case sm_find cid m of
            None \<Rightarrow> Inr (True, mark)
          | Some t \<Rightarrow> if now \<ge> t + MIN_QOS_TESTING_INTERVAL then Inr (True, mark) else Inr (False, ls))
       else Inl (Fatal ''we only implemented one link case''))
    else Inr (False, ls))"

definition rc_QoSValidCheck :: "time \<Rightarrow> u8 \<Rightarrow> LinkState \<Rightarrow> GmaRxControl \<Rightarrow> bool result" where
  "rc_QoSValidCheck now cid ls s =
    rbind (rassert (rc_algorithm s = QosSteer) ''call this function only in QoS enabled mode'') (\<lambda>_.
    Inr (case sm_find cid (ls_cidToValidTestExpireTime ls) of
           None \<Rightarrow> False
         | Some t \<Rightarrow> if now > t then False else True))"

section \<open>The burst is conserved\<close>

definition rc_total :: "u8 list \<Rightarrow> nat" where
  "rc_total split = sum_list (map unat split)"

lemma rc_total_update:
  "i < length xs \<Longrightarrow> rc_total (xs[i := v]) + unat (xs ! i) = rc_total xs + unat v"
  using elem_le_sum_list [of i "map unat xs"]
  by (simp add: rc_total_def map_update sum_list_update)

lemma rc_total_nth: "i < length xs \<Longrightarrow> unat (xs ! i) \<le> rc_total xs"
  using elem_le_sum_list [of i "map unat xs"] by (simp add: rc_total_def)

lemma rc_total_of_nat: "of_nat (rc_total xs) = sum_list xs"
  by (induction xs) (simp_all add: rc_total_def)

lemma rc_sum_eq: "n \<le> length xs \<Longrightarrow> rc_sum n xs = Inr (sum_list (take n xs))"
proof -
  have "rfoldl (\<lambda>sum ind. rbind (vec_at xs ind) (\<lambda>k. Inr (sum + k))) a [0..<n] = Inr (a + sum_list (take n xs))"
    if "n \<le> length xs" for a
    using that by (induction n) (simp_all add: rfoldl_append take_Suc_conv_app_nth ac_simps)
  then show "n \<le> length xs \<Longrightarrow> ?thesis" by (simp add: rc_sum_def)
qed

lemma rc_sum_total: "rc_total xs = unat b \<Longrightarrow> rc_sum (length xs) xs = Inr b"
  using rc_total_of_nat [of xs] by (simp add: rc_sum_eq)

lemma u8_add_nowrap: "unat a + unat b \<le> 255 \<Longrightarrow> unat (a + b) = unat a + unat (b :: u8)"
  by (simp add: unat_word_ariths)

lemma rc_transfer_ok:
  assumes "i < length xs" "j < length xs" "unat step \<le> unat (xs ! i)" "rc_total xs \<le> 255"
  shows "\<exists>ys. rc_transfer step i j xs = Inr ys \<and> length ys = length xs \<and> rc_total ys = rc_total xs
    \<and> ys = (xs[i := xs ! i - step])[j := xs[i := xs ! i - step] ! j + step]"
proof -
  let ?x1 = "xs[i := xs ! i - step]"
  let ?ys = "?x1[j := ?x1 ! j + step]"
  have sub: "unat (xs ! i - step) = unat (xs ! i) - unat step"
    using assms(3) by (simp add: unat_sub word_le_nat_alt)
  have t1: "rc_total ?x1 + unat step = rc_total xs"
    using rc_total_update [OF assms(1), of "xs ! i - step"] assms(3) sub by simp
  have "unat (?x1 ! j) \<le> rc_total ?x1" using assms(2) by (intro rc_total_nth) simp
  then have "unat (?x1 ! j + step) = unat (?x1 ! j) + unat step"
    using t1 assms(4) by (intro u8_add_nowrap) linarith
  then have "rc_total ?ys = rc_total xs"
    using rc_total_update [of j ?x1 "?x1 ! j + step"] assms(2) t1 by simp
  then show ?thesis using assms by (simp add: rc_transfer_def)
qed

lemma rc_steer_to_eq:
  "n \<le> length xs \<Longrightarrow> rc_steer_to sel b n xs = Inr (map (\<lambda>i. if sel i then b else 0) [0..<n] @ drop n xs)"
proof (induction n)
  case (Suc n)
  then show ?case
    using list_update_take_map [of n xs "\<lambda>i. if sel i then b else 0"]
    by (simp add: rc_steer_to_def rfoldl_append)
qed (simp add: rc_steer_to_def)

lemma rc_total_onehot:
  assumes "j < n" "\<And>i. i < n \<Longrightarrow> sel i \<longleftrightarrow> i = j"
  shows "rc_total (map (\<lambda>i. if sel i then b else 0) [0..<n]) = unat b"
proof -
  have "rc_total (map (\<lambda>i. if sel i then b else 0) [0..<n]) = (\<Sum>i\<in>{0..<n}. if i = j then unat b else 0)"
    unfolding rc_total_def map_map sum_list_distinct_conv_sum_set [OF distinct_upt] set_upt
    by (rule sum.cong) (use assms in auto)
  then show ?thesis using assms(1) by simp
qed

text \<open>What the entry function has asserted of a measurement, and the links it belongs to.\<close>

definition rc_meas_ok :: "LinkState \<Rightarrow> RxMeasurement \<Rightarrow> bool" where
  "rc_meas_ok ls m \<longleftrightarrow> (let n = unat (rm_links m) in
    n > 0 \<and> length (rm_cidList m) = n \<and> length (rm_delayThisInterval m) = n \<and> length (rm_delayList m) = n
    \<and> length (rm_minOwdLongTerm m) = n \<and> length (rm_lossRateList m) = n
    \<and> distinct (rm_cidList m) \<and> ls_defaultLinkCid ls \<in> set (rm_cidList m)
    \<and> list_all (\<lambda>i. sm_find (rm_cidList m ! i) (ls_cidToIndexMap ls) = Some (of_nat i)) [0..<n])"

definition rc_inv :: "nat \<Rightarrow> GmaRxControl \<Rightarrow> bool" where
  "rc_inv n s \<longleftrightarrow>
    rc_lastSplittingIndexList s = [] \<and> rc_decreaseCounter s = [] \<and> rc_lastOwd s = []
    \<or> length (rc_lastSplittingIndexList s) = n
      \<and> rc_total (rc_lastSplittingIndexList s) = unat (rc_splittingBurst s)
      \<and> length (rc_decreaseCounter s) = n \<and> (rc_enableStableAlgorithm s \<longrightarrow> length (rc_lastOwd s) = n)"

lemma rc_default_index:
  assumes "rc_meas_ok ls m"
  obtains j where "j < unat (rm_links m)" "rm_cidList m ! j = ls_defaultLinkCid ls"
    "sm_find (ls_defaultLinkCid ls) (ls_cidToIndexMap ls) = Some (of_nat j)" "unat (of_nat j :: u8) = j"
    "\<And>i. i < unat (rm_links m) \<Longrightarrow> rm_cidList m ! i = ls_defaultLinkCid ls \<longleftrightarrow> i = j"
proof -
  obtain j where j: "j < unat (rm_links m)" "rm_cidList m ! j = ls_defaultLinkCid ls"
    using assms by (auto simp: rc_meas_ok_def in_set_conv_nth Let_def)
  moreover have "sm_find (rm_cidList m ! j) (ls_cidToIndexMap ls) = Some (of_nat j)"
    using assms j(1) by (simp add: rc_meas_ok_def list_all_iff Let_def)
  then have "sm_find (ls_defaultLinkCid ls) (ls_cidToIndexMap ls) = Some (of_nat j)"
    by (simp add: j(2))
  moreover have "unat (of_nat j :: u8) = j"
    using order_less_trans [OF j(1) unat_u8_less] by (simp add: unat_of_nat)
  moreover have "rm_cidList m ! i = ls_defaultLinkCid ls \<longleftrightarrow> i = j" if "i < unat (rm_links m)" for i
    using assms j that by (metis (no_types, lifting) nth_eq_iff_index_eq rc_meas_ok_def)
  ultimately show ?thesis using that by blast
qed

lemma rc_init_inv:
  assumes "rc_meas_ok ls m" "rc_inv (unat (rm_links m)) s"
  shows "rc_inv (unat (rm_links m)) (rc_init ls m s) \<and> rc_lastSplittingIndexList (rc_init ls m s) \<noteq> []
    \<and> rc_splittingBurst (rc_init ls m s) = rc_splittingBurst s"
proof (cases "rc_lastSplittingIndexList s = []")
  case True
  obtain j where j: "j < unat (rm_links m)"
      "\<And>i. i < unat (rm_links m) \<Longrightarrow> rm_cidList m ! i = ls_defaultLinkCid ls \<longleftrightarrow> i = j"
    using rc_default_index [OF assms(1)] by metis
  have "rc_total (rc_initial_split (rc_splittingBurst s) m (ls_defaultLinkCid ls)) = unat (rc_splittingBurst s)"
    unfolding rc_initial_split_def by (rule rc_total_onehot [OF j])
  moreover have "rc_decreaseCounter s = [] \<and> rc_lastOwd s = []"
    using assms(2) True j(1) by (auto simp: rc_inv_def)
  ultimately show ?thesis
    using True j(1) by (auto simp: rc_init_def rc_inv_def rc_initial_split_def)
next
  case False
  then show ?thesis using assms(2) by (simp add: rc_init_def)
qed

lemma rc_first_active_some:
  assumes "length split \<ge> n" "k < n" "split ! k \<noteq> 0"
  shows "\<exists>i. rc_first_active split [0..<n] = Inr (Some i) \<and> i < n \<and> split ! i \<noteq> 0"
proof -
  have "\<exists>i. rc_first_active split inds = Inr (Some i) \<and> i \<in> set inds \<and> split ! i \<noteq> 0"
    if "k \<in> set inds" "\<forall>i\<in>set inds. i < n" for inds
    using that assms by (induction inds) auto
  from this [of "[0..<n]"] assms(2) show ?thesis by auto
qed

lemma rc_total_active:
  assumes "rc_total xs \<noteq> 0"
  obtains k where "k < length xs" "xs ! k \<noteq> 0"
proof -
  have "\<exists>x\<in>set xs. x \<noteq> 0"
    using assms by (induction xs) (auto simp: rc_total_def)
  then show ?thesis using that by (auto simp: in_set_conv_nth)
qed

text \<open>The result of the delay scan: a link of minimal delay among those that are up (or the start),
  and a link with traffic.\<close>

lemma rc_scan_delay_ok:
  assumes "start < n" "length split \<ge> n" "split ! start \<noteq> 0"
  shows "\<exists>mi xi. rc_scan_delay up vals split start n = Inr (mi, xi) \<and> mi < n \<and> xi < n \<and> split ! xi \<noteq> 0
    \<and> vals ! mi \<le> vals ! xi \<and> (\<forall>i<n. up i \<longrightarrow> vals ! mi \<le> vals ! i)
    \<and> (\<forall>i<n. up i \<and> split ! i \<noteq> 0 \<longrightarrow> vals ! i \<le> vals ! xi)"
proof -
  let ?body = "\<lambda>p ind. if up ind then rc_scan_step vals split p ind else Inr p"
  have "\<exists>mi xi. rfoldl ?body (start, start) [0..<k] = Inr (mi, xi) \<and> mi < n \<and> xi < n \<and> split ! xi \<noteq> 0
      \<and> vals ! mi \<le> vals ! xi \<and> (\<forall>i<k. up i \<longrightarrow> vals ! mi \<le> vals ! i)
      \<and> (\<forall>i<k. up i \<and> split ! i \<noteq> 0 \<longrightarrow> vals ! i \<le> vals ! xi)" if "k \<le> n" for k
    using that
  proof (induction k)
    case 0
    then show ?case using assms by simp
  next
    case (Suc k)
    then obtain mi xi where IH: "rfoldl ?body (start, start) [0..<k] = Inr (mi, xi)" "mi < n" "xi < n"
      "split ! xi \<noteq> 0" "vals ! mi \<le> vals ! xi" "\<forall>i<k. up i \<longrightarrow> vals ! mi \<le> vals ! i"
      "\<forall>i<k. up i \<and> split ! i \<noteq> 0 \<longrightarrow> vals ! i \<le> vals ! xi" by auto
    have k: "k < n" "k < length split" using Suc.prems assms(2) by auto
    have run: "rfoldl ?body (start, start) [0..<Suc k] = ?body (mi, xi) k"
      by (simp add: rfoldl_append IH(1))
    let ?mi = "if vals ! mi > vals ! k then k else mi"
    let ?xi = "if vals ! xi < vals ! k \<and> split ! k \<noteq> 0 then k else xi"
    show ?case
    proof (cases "up k")
      case True
      have "?body (mi, xi) k = Inr (?mi, ?xi)"
        using True k(2) by (simp add: rc_scan_step_def Let_def)
      then show ?thesis
        unfolding run using IH k True by (auto simp: less_Suc_eq intro: order_trans less_imp_le)
    next
      case False
      then show ?thesis unfolding run using IH by (auto simp: less_Suc_eq)
    qed
  qed
  from this [of n] show ?thesis by (simp add: rc_scan_delay_def)
qed

text \<open>The loss scan: nothing when no link is up; otherwise a link of the smallest loss, and one that loses at
  least as much as every link with traffic.\<close>

definition rc_loss_ends :: "(nat \<Rightarrow> bool) \<Rightarrow> real list \<Rightarrow> u8 list \<Rightarrow> nat \<Rightarrow> nat \<Rightarrow> nat \<Rightarrow> bool" where
  "rc_loss_ends up vals split n mi xi \<longleftrightarrow> up mi \<and> up xi \<and> (\<forall>i<n. up i \<longrightarrow> vals ! mi \<le> vals ! i)
    \<and> (\<forall>i<n. up i \<and> split ! i \<noteq> 0 \<longrightarrow> vals ! i \<le> vals ! xi)"

lemma rc_scan_loss_ok:
  assumes "length split \<ge> n"
  shows "(\<exists>i<n. up i) \<and> (\<exists>mi xi. rc_scan_loss up vals split n = Inr (Some (mi, xi)) \<and> mi < n \<and> xi < n
      \<and> rc_loss_ends up vals split n mi xi)
    \<or> \<not> (\<exists>i<n. up i) \<and> rc_scan_loss up vals split n = Inr None"
proof -
  let ?body = "\<lambda>p ind. if up ind then (case p of None \<Rightarrow> Inr (Some (ind, ind))
      | Some q \<Rightarrow> rbind (rc_scan_step vals split q ind) (\<lambda>q. Inr (Some q))) else Inr p"
  have "(\<exists>i<k. up i) \<and> (\<exists>mi xi. rfoldl ?body None [0..<k] = Inr (Some (mi, xi)) \<and> mi < n \<and> xi < n
        \<and> vals ! mi \<le> vals ! xi \<and> rc_loss_ends up vals split k mi xi)
      \<or> \<not> (\<exists>i<k. up i) \<and> rfoldl ?body None [0..<k] = Inr None" (is "?some k \<or> ?none k") if "k \<le> n" for k
    using that
  proof (induction k)
    case (Suc k)
    then have k: "k < n" "k < length split" using assms by auto
    consider "?none k" | "?some k" using Suc by fastforce
    then show ?case
    proof cases
      case 1
      then have run: "rfoldl ?body None [0..<Suc k] = ?body None k" by (simp add: rfoldl_append)
      show ?thesis
      proof (cases "up k")
        case True
        then have "rc_loss_ends up vals split (Suc k) k k" using 1 by (auto simp: rc_loss_ends_def less_Suc_eq)
        then have "?some (Suc k)" using True k(1) unfolding run by auto
        then show ?thesis by (rule disjI1)
      next
        case False
        then have "?none (Suc k)" using 1 unfolding run by (auto simp: less_Suc_eq)
        then show ?thesis by (rule disjI2)
      qed
    next
      case 2
      then obtain mi xi where IH: "rfoldl ?body None [0..<k] = Inr (Some (mi, xi))" "mi < n" "xi < n"
        "vals ! mi \<le> vals ! xi" "rc_loss_ends up vals split k mi xi" by blast
      have run: "rfoldl ?body None [0..<Suc k] = ?body (Some (mi, xi)) k" by (simp add: rfoldl_append IH(1))
      let ?mi = "if vals ! mi > vals ! k then k else mi"
      let ?xi = "if vals ! xi < vals ! k \<and> split ! k \<noteq> 0 then k else xi"
      have ex: "\<exists>i<Suc k. up i" using 2 less_SucI by blast
      show ?thesis
      proof (cases "up k")
        case True
        have "?body (Some (mi, xi)) k = Inr (Some (?mi, ?xi))" using True k(2) by (simp add: rc_scan_step_def Let_def)
        moreover have "?mi < n" "?xi < n" "vals ! ?mi \<le> vals ! ?xi" using IH(2-4) k(1) by auto
        moreover have "rc_loss_ends up vals split (Suc k) ?mi ?xi"
          using IH(5) True unfolding rc_loss_ends_def
          by (auto simp: less_Suc_eq intro: order_trans less_imp_le)
        ultimately show ?thesis using ex unfolding run by blast
      next
        case False
        then have "rc_loss_ends up vals split (Suc k) mi xi" using IH(5) by (auto simp: rc_loss_ends_def less_Suc_eq)
        then show ?thesis using False ex IH(2-4) unfolding run by auto
      qed
    qed
  qed simp
  from this [of n] show ?thesis unfolding rc_scan_loss_def by auto
qed

lemma rc_step_size_bound:
  assumes "k \<noteq> (0 :: u8)"
  shows "0 < rc_step_size c k" "rc_step_size c k \<le> uint k" "unat (of_int (rc_step_size c k) :: u8) \<le> unat k"
proof -
  have "uint k \<noteq> 0" using assms by (simp add: uint_0_iff)
  then have k: "0 < uint k" "uint k < 256"
    using uint_ge_0 [of k] uint_lt2p [of k] by (simp_all add: order_less_le)
  then show b: "0 < rc_step_size c k" "rc_step_size c k \<le> uint k"
    by (auto simp: rc_step_size_def Let_def)
  have "uint (of_int (rc_step_size c k) :: u8) = rc_step_size c k mod 256"
    by (simp only: uint_word_of_int) simp
  also have "\<dots> = rc_step_size c k"
    using k b by (intro mod_pos_pos_trivial) linarith+
  finally have "uint (of_int (rc_step_size c k) :: u8) \<le> uint k"
    using b(2) by simp
  then show "unat (of_int (rc_step_size c k) :: u8) \<le> unat k"
    unfolding word_le_nat_alt [symmetric] word_le_def .
qed

definition rc_moved :: "u8 list \<Rightarrow> nat \<Rightarrow> nat \<Rightarrow> u8 list \<Rightarrow> bool" where
  "rc_moved split src dst split' \<longleftrightarrow> (\<exists>step. 0 < unat step \<and> unat step \<le> unat (split ! src)
    \<and> split' = (split[src := split ! src - step])[dst := split[src := split ! src - step] ! dst + step])"

lemma rc_total_255:
  "rc_inv n s \<Longrightarrow> rc_total (rc_lastSplittingIndexList s) \<le> 255"
  by (auto simp: rc_inv_def rc_total_def)

lemma rc_delay_move_ok:
  assumes "rc_inv n s" "rc_lastSplittingIndexList s \<noteq> []" "mi < n" "xi < n"
    and "rc_lastSplittingIndexList s ! xi \<noteq> 0"
  shows "\<exists>u c l. rc_delay_move m mi xi s = Inr (u, s\<lparr>rc_decreaseCounter := c, rc_lastSplittingIndexList := l\<rparr>)
    \<and> length c = n \<and> length l = n \<and> rc_total l = unat (rc_splittingBurst s)
    \<and> (u \<longleftrightarrow> rm_delayList m ! xi - rm_delayList m ! mi > rc_delayThresh s
          \<and> (rc_enableStableAlgorithm s \<longrightarrow> real_of_int (rc_lastOwd s ! xi) \<le> rm_delayList m ! xi))
    \<and> (if u then rc_moved (rc_lastSplittingIndexList s) xi mi l else l = rc_lastSplittingIndexList s)"
proof -
  let ?split = "rc_lastSplittingIndexList s"
  have inv: "length ?split = n" "rc_total ?split = unat (rc_splittingBurst s)"
    "length (rc_decreaseCounter s) = n" "rc_enableStableAlgorithm s \<longrightarrow> length (rc_lastOwd s) = n"
    using assms(1,2) by (auto simp: rc_inv_def)
  show ?thesis
  proof (cases "rm_delayList m ! xi - rm_delayList m ! mi > rc_delayThresh s")
    case False
    then show ?thesis using inv
      by (intro exI [of _ False] exI [of _ "replicate n 1"] exI [of _ ?split]) (simp add: rc_delay_move_def)
  next
    case big: True
    show ?thesis
    proof (cases "rc_enableStableAlgorithm s \<and> \<not> real_of_int (rc_lastOwd s ! xi) \<le> rm_delayList m ! xi")
      case True
      then have "rc_delay_move m mi xi s = Inr (False, s)"
        using big inv assms(4) by (simp add: rc_delay_move_def)
      then show ?thesis using inv True
        by (intro exI [of _ False] exI [of _ "rc_decreaseCounter s"] exI [of _ ?split]) simp
    next
      case go: False
      let ?k = "?split ! xi"
      have k: "?k > 0" "1 \<le> unat ?k"
        using assms(5) by (simp_all add: word_gt_0 Suc_le_eq unat_gt_0)
      have one: "0 < unat (1 :: u8)" by simp
      show ?thesis
      proof (cases "rc_enableAdaptiveStep s")
        case True
        let ?c = "rc_bump_counters xi (rc_decreaseCounter s)"
        let ?step = "of_int (rc_step_size (?c ! xi) ?k) :: u8"
        note b = rc_step_size_bound [OF assms(5), of "?c ! xi"]
        have pos: "0 < unat ?step"
        proof -
          have "uint ?step = rc_step_size (?c ! xi) ?k mod 256" by (simp only: uint_word_of_int) simp
          also have "\<dots> = rc_step_size (?c ! xi) ?k"
            using b(1,2) uint_lt2p [of ?k] by (intro mod_pos_pos_trivial) simp_all
          finally have "uint ?step \<noteq> 0" using b(1) by simp
          then show ?thesis by (simp add: unat_gt_0 uint_0_iff)
        qed
        obtain l where l: "rc_transfer ?step xi mi ?split = Inr l" "length l = n" "rc_total l = rc_total ?split"
          "l = (?split[xi := ?k - ?step])[mi := ?split[xi := ?k - ?step] ! mi + ?step]"
          using rc_transfer_ok [of xi ?split mi ?step] assms(3,4) inv(1) b(3) rc_total_255 [OF assms(1)] by auto
        have "rc_delay_move m mi xi s = Inr (True, s\<lparr>rc_decreaseCounter := ?c, rc_lastSplittingIndexList := l\<rparr>)"
          using big go k True inv assms(4) l(1)
          by (auto simp: rc_delay_move_def Let_def rc_bump_counters_def)
        then show ?thesis using l inv big go pos b(3)
          by (intro exI [of _ True] exI [of _ ?c] exI [of _ l]) (auto simp: rc_moved_def rc_bump_counters_def)
      next
        case False
        obtain l where l: "rc_transfer 1 xi mi ?split = Inr l" "length l = n" "rc_total l = rc_total ?split"
          "l = (?split[xi := ?k - 1])[mi := ?split[xi := ?k - 1] ! mi + 1]"
          using rc_transfer_ok [of xi ?split mi 1] assms(3,4) inv(1) k(2) rc_total_255 [OF assms(1)] by auto
        have "rc_delay_move m mi xi s = Inr (True, s\<lparr>rc_lastSplittingIndexList := l\<rparr>)"
          using big go k False inv assms(4) l(1) by (auto simp: rc_delay_move_def)
        then show ?thesis using l inv big go k one
          by (intro exI [of _ True] exI [of _ "rc_decreaseCounter s"] exI [of _ l])
            (auto simp: rc_moved_def intro!: exI [of _ 1])
      qed
    qed
  qed
qed

lemma rc_store_owd_ok:
  assumes "rc_enableStableAlgorithm s \<longrightarrow> length (rc_lastOwd s) = unat (rm_links m)"
  shows "\<exists>owd. rc_store_owd m s = Inr (s\<lparr>rc_lastOwd := owd\<rparr>) \<and> length owd = length (rc_lastOwd s)"
proof (cases "rc_enableStableAlgorithm s")
  case True
  have "\<exists>owd. rfoldl (\<lambda>owd ind. vec_upd owd ind (trunc (rm_delayList m ! ind))) (rc_lastOwd s)
      [0..<unat (rm_links m)] = Inr owd \<and> length owd = length (rc_lastOwd s)"
    by (rule rfoldl_total) (use assms True in auto)
  then show ?thesis using True by (auto simp: rc_store_owd_def)
next
  case False
  then show ?thesis by (intro exI [of _ "rc_lastOwd s"]) (simp add: rc_store_owd_def)
qed

lemma rc_moved_total:
  assumes "rc_moved xs i j ys" "i < length xs" "j < length xs" "rc_total xs \<le> 255"
  shows "length ys = length xs \<and> rc_total ys = rc_total xs"
  using assms rc_transfer_ok [of i xs j] by (fastforce simp: rc_moved_def)

text \<open>What the loss stage decides: one packet goes from the link with the largest loss to the one with the
  smallest when the first loses more than twice as much and has traffic; otherwise, in steer mode and
  with links of different delay, all traffic goes to the default link when it is up.\<close>

definition rc_loss_decides :: "LinkState \<Rightarrow> RxMeasurement \<Rightarrow> bool \<Rightarrow> u8 \<Rightarrow> u8 list \<Rightarrow> bool \<Rightarrow> u8 list \<Rightarrow> bool" where
  "rc_loss_decides ls m far burst split u l \<longleftrightarrow>
    (let n = unat (rm_links m); up = (\<lambda>i. ls_IsLinkUp (rm_cidList m ! i) ls); loss = rm_lossRateList m;
         default_only = map (\<lambda>i. if rm_cidList m ! i = ls_defaultLinkCid ls then burst else 0) [0..<n] in
     (\<exists>a<n. \<exists>b<n. rc_loss_ends up loss split n a b \<and> loss ! b > 2 * loss ! a
        \<and> (if split ! b \<noteq> 0 then u \<and> l = (split[b := split ! b - 1])[a := split[b := split ! b - 1] ! a + 1]
           else \<not> u \<and> l = split))
     \<or> ((\<forall>i<n. \<not> up i) \<or> (\<exists>a<n. \<exists>b<n. rc_loss_ends up loss split n a b \<and> loss ! b \<le> 2 * loss ! a))
        \<and> (if burst = 1 \<and> far \<and> ls_IsLinkUp (ls_defaultLinkCid ls) ls
           then l = default_only \<and> (u \<longleftrightarrow> l \<noteq> split) else \<not> u \<and> l = split))"

lemma rc_steer_default:
  assumes "rc_meas_ok ls m" "n = unat (rm_links m)" "length split = n" "rc_total split = unat burst" "burst = 1"
    and "rm_cidList m ! j = ls_defaultLinkCid ls" "j < n" "\<And>i. i < n \<Longrightarrow> rm_cidList m ! i = ls_defaultLinkCid ls \<longleftrightarrow> i = j"
  shows "split ! j = burst \<longleftrightarrow> map (\<lambda>i. if rm_cidList m ! i = ls_defaultLinkCid ls then burst else 0) [0..<n] = split"
proof
  let ?l = "map (\<lambda>i. if rm_cidList m ! i = ls_defaultLinkCid ls then burst else 0) [0..<n]"
  show "?l = split \<Longrightarrow> split ! j = burst" using assms(6,7) by auto
  assume one: "split ! j = burst"
  have "rc_total (split[j := 0]) = 0" using rc_total_update [of j split 0] assms(3,4,7) one by simp
  then have zero: "\<forall>x \<in> set (split[j := 0]). x = 0" by (auto simp: rc_total_def unat_eq_0)
  show "?l = split"
  proof (rule nth_equalityI)
    fix i assume i: "i < length ?l"
    show "?l ! i = split ! i"
    proof (cases "i = j")
      case False
      have "split[j := 0] ! i \<in> set (split[j := 0])" using i assms(3) by (intro nth_mem) simp
      then have "split[j := 0] ! i = 0" using zero by blast
      then show ?thesis using i False assms(8) [of i] by simp
    qed (use i one assms(6) in simp)
  qed (simp add: assms(3))
qed

lemma rc_loss_stage_ok:
  assumes "rc_meas_ok ls m" "rc_inv n s" "rc_lastSplittingIndexList s \<noteq> []" "n = unat (rm_links m)"
  shows "\<exists>u l. rc_loss_stage ls m mi xi s = Inr (u, s\<lparr>rc_lastSplittingIndexList := l\<rparr>)
    \<and> length l = n \<and> rc_total l = unat (rc_splittingBurst s)
    \<and> rc_loss_decides ls m (mi \<noteq> xi) (rc_splittingBurst s) (rc_lastSplittingIndexList s) u l"
proof -
  let ?split = "rc_lastSplittingIndexList s" and ?burst = "rc_splittingBurst s"
  let ?up = "\<lambda>ind. ls_IsLinkUp (rm_cidList m ! ind) ls" and ?loss = "rm_lossRateList m"
  let ?d = "ls_defaultLinkCid ls"
  have inv: "length ?split = n" "rc_total ?split = unat ?burst"
    using assms(2,3) by (auto simp: rc_inv_def)
  have same: "s = s\<lparr>rc_lastSplittingIndexList := ?split\<rparr>" by simp
  note run = rc_loss_stage_def Let_def assms(4) [symmetric]
  note spec = rc_loss_decides_def Let_def assms(4) [symmetric]
  have scan: "(\<exists>i<n. ?up i) \<and> (\<exists>a b. rc_scan_loss ?up ?loss ?split n = Inr (Some (a, b)) \<and> a < n \<and> b < n
      \<and> rc_loss_ends ?up ?loss ?split n a b) \<or> \<not> (\<exists>i<n. ?up i) \<and> rc_scan_loss ?up ?loss ?split n = Inr None"
    by (rule rc_scan_loss_ok) (simp add: inv(1))
  show ?thesis
  proof (cases "\<exists>a<n. \<exists>b<n. rc_scan_loss ?up ?loss ?split n = Inr (Some (a, b)) \<and> ?loss ! b > ?loss ! a * LOSS_ALGORITHM_BOUND")
    case True
    then obtain a b where ab: "a < n" "b < n" "rc_scan_loss ?up ?loss ?split n = Inr (Some (a, b))"
      "?loss ! b > 2 * ?loss ! a" by (auto simp: LOSS_ALGORITHM_BOUND_def)
    then have ends: "rc_loss_ends ?up ?loss ?split n a b" using scan by auto
    show ?thesis
    proof (cases "?split ! b > 0")
      case k: True
      have "unat (1 :: u8) \<le> unat (?split ! b)"
        using k by (simp add: word_gt_0 Suc_le_eq unat_gt_0)
      then obtain l where l: "rc_transfer 1 b a ?split = Inr l" "length l = n" "rc_total l = rc_total ?split"
        "l = (?split[b := ?split ! b - 1])[a := ?split[b := ?split ! b - 1] ! a + 1]"
        using rc_transfer_ok [of b ?split a 1] ab inv(1) rc_total_255 [OF assms(2)] by auto
      have "rc_loss_stage ls m mi xi s = Inr (True, s\<lparr>rc_lastSplittingIndexList := l\<rparr>)"
        using ab k l(1) inv(1) by (simp add: run LOSS_ALGORITHM_BOUND_def)
      moreover have "rc_loss_decides ls m (mi \<noteq> xi) ?burst ?split True l"
      proof -
        have "rc_loss_ends ?up ?loss ?split n a b \<and> ?loss ! b > 2 * ?loss ! a
            \<and> (if ?split ! b \<noteq> 0 then True \<and> l = (?split[b := ?split ! b - 1])[a := ?split[b := ?split ! b - 1] ! a + 1]
               else \<not> True \<and> l = ?split)" using ab ends k l(4) by (simp add: word_gt_0)
        then show ?thesis unfolding spec using ab(1,2) by blast
      qed
      ultimately show ?thesis using l(2,3) inv(2) by metis
    next
      case False
      have "rc_loss_stage ls m mi xi s = Inr (False, s)"
        using ab False inv(1) by (simp add: run LOSS_ALGORITHM_BOUND_def)
      moreover have "rc_loss_decides ls m (mi \<noteq> xi) ?burst ?split False ?split"
      proof -
        have "rc_loss_ends ?up ?loss ?split n a b \<and> ?loss ! b > 2 * ?loss ! a
            \<and> (if ?split ! b \<noteq> 0 then False \<and> ?split = (?split[b := ?split ! b - 1])[a := ?split[b := ?split ! b - 1] ! a + 1]
               else \<not> False \<and> ?split = ?split)" using ab ends False by (simp add: word_gt_0)
        then show ?thesis unfolding spec using ab(1,2) by blast
      qed
      ultimately show ?thesis using inv same by metis
    qed
  next
    case False
    then have close: "(\<forall>i<n. \<not> ?up i) \<or> (\<exists>a<n. \<exists>b<n. rc_loss_ends ?up ?loss ?split n a b \<and> ?loss ! b \<le> 2 * ?loss ! a)"
      using scan by (fastforce simp: LOSS_ALGORITHM_BOUND_def)
    have rest: "rc_loss_stage ls m mi xi s = (if ?burst = 1 \<and> mi \<noteq> xi \<and> ls_IsLinkUp ?d ls then
         (case sm_find ?d (ls_cidToIndexMap ls) of
            None \<Rightarrow> Inl (Assertion ''cannot find this cid in the map'')
          | Some i \<Rightarrow>
              rbind (vec_at ?split (unat i)) (\<lambda>k.
              if k = ?burst then Inr (False, s)
              else
                rbind (rc_steer_to (\<lambda>ind. rm_cidList m ! ind = ?d) ?burst n ?split) (\<lambda>split.
                rbind (rassert (\<exists>ind\<in>set [0..<n]. rm_cidList m ! ind = ?d) ''Default CID should be in the cid list!!!'') (\<lambda>_.
                Inr (True, s\<lparr>rc_lastSplittingIndexList := split\<rparr>)))))
       else Inr (False, s))" (is "_ = ?rest")
    proof -
      consider a b where "rc_scan_loss ?up ?loss ?split n = Inr (Some (a, b))" "\<not> ?loss ! b > ?loss ! a * LOSS_ALGORITHM_BOUND"
        | "rc_scan_loss ?up ?loss ?split n = Inr None" using False scan by blast
      then show ?thesis by cases (simp_all add: run)
    qed
    show ?thesis
    proof (cases "?burst = 1 \<and> mi \<noteq> xi \<and> ls_IsLinkUp ?d ls")
      case steer: True
      obtain j where j: "j < n" "rm_cidList m ! j = ?d" "sm_find ?d (ls_cidToIndexMap ls) = Some (of_nat j)"
        "unat (of_nat j :: u8) = j" "\<And>i. i < n \<Longrightarrow> rm_cidList m ! i = ?d \<longleftrightarrow> i = j"
        using rc_default_index [OF assms(1)] assms(4) by metis
      let ?l = "map (\<lambda>i. if rm_cidList m ! i = ?d then ?burst else 0) [0..<n]"
      have l: "rc_steer_to (\<lambda>ind. rm_cidList m ! ind = ?d) ?burst n ?split = Inr ?l"
        using inv(1) rc_steer_to_eq [of n ?split "\<lambda>ind. rm_cidList m ! ind = ?d" ?burst] by simp
      have tot: "length ?l = n \<and> rc_total ?l = unat ?burst" using rc_total_onehot [OF j(1) j(5)] by simp
      have "\<exists>ind\<in>set [0..<n]. rm_cidList m ! ind = ?d" using j(1,2) by auto
      then have "?rest = (if ?split ! j = ?burst then Inr (False, s) else Inr (True, s\<lparr>rc_lastSplittingIndexList := ?l\<rparr>))"
        using steer j(1,3,4) l inv(1) by simp
      moreover note st = rc_steer_default [OF assms(1,4) inv _ j(2,1,5)]
      ultimately have "rc_loss_stage ls m mi xi s = Inr (?l \<noteq> ?split, s\<lparr>rc_lastSplittingIndexList := ?l\<rparr>)"
        using rest steer same by auto
      moreover have "rc_loss_decides ls m (mi \<noteq> xi) ?burst ?split (?l \<noteq> ?split) ?l"
        unfolding spec using close steer by (intro disjI2) simp
      ultimately show ?thesis using tot by blast
    next
      case no: False
      have "rc_loss_stage ls m mi xi s = Inr (False, s)" unfolding rest by (rule if_not_P) (rule no)
      moreover have "rc_loss_decides ls m (mi \<noteq> xi) ?burst ?split False ?split"
        unfolding spec using close no by (intro disjI2) (simp, blast)
      ultimately show ?thesis using inv same by metis
    qed
  qed
qed

text \<open>The stages of one run: the scan finds the links of the smallest and the largest delay, the first
  stage moves traffic between them, the second one runs only when they are close.\<close>

lemma rc_delay_outcome:
  fixes ls s useMinOwd
  assumes "rc_meas_ok ls m" "rc_inv (unat (rm_links m)) s" "rc_splittingBurst s \<noteq> 0"
  defines "delays \<equiv> if useMinOwd then rm_minOwdLongTerm m else rm_delayList m"
    and "n \<equiv> unat (rm_links m)" and "s0 \<equiv> rc_init ls (if useMinOwd then m\<lparr>rm_delayList := rm_minOwdLongTerm m\<rparr> else m) s"
  shows "\<exists>mi xi u s'. rc_DelayAlgorithm ls m useMinOwd s = Inr (rc_decide u s', s') \<and> mi < n \<and> xi < n
    \<and> rc_lastSplittingIndexList s0 ! xi \<noteq> 0
    \<and> (\<forall>i<n. ls_IsLinkUp (rm_cidList m ! i) ls \<longrightarrow> delays ! mi \<le> delays ! i)
    \<and> (\<forall>i<n. ls_IsLinkUp (rm_cidList m ! i) ls \<and> rc_lastSplittingIndexList s0 ! i \<noteq> 0 \<longrightarrow> delays ! i \<le> delays ! xi)
    \<and> length (rc_lastSplittingIndexList s') = n \<and> rc_inv n s' \<and> rc_splittingBurst s' = rc_splittingBurst s
    \<and> (if delays ! xi - delays ! mi > rc_delayThresh s then
         (u \<longleftrightarrow> (rc_enableStableAlgorithm s \<longrightarrow> real_of_int (rc_lastOwd s0 ! xi) \<le> delays ! xi))
         \<and> (if u then rc_moved (rc_lastSplittingIndexList s0) xi mi (rc_lastSplittingIndexList s')
            else rc_lastSplittingIndexList s' = rc_lastSplittingIndexList s0)
       else if rc_enableLossAlgorithm s then
         rc_loss_decides ls m (mi \<noteq> xi) (rc_splittingBurst s) (rc_lastSplittingIndexList s0) u (rc_lastSplittingIndexList s')
       else \<not> u \<and> rc_lastSplittingIndexList s' = rc_lastSplittingIndexList s0)"
proof -
  define m' where "m' = (if useMinOwd then m\<lparr>rm_delayList := rm_minOwdLongTerm m\<rparr> else m)"
  have m': "rc_meas_ok ls m'" "rm_links m' = rm_links m" "rm_cidList m' = rm_cidList m" "rm_delayList m' = delays"
    "rm_lossRateList m' = rm_lossRateList m"
    using assms(1) by (auto simp: m'_def rc_meas_ok_def delays_def Let_def)
  have s0: "rc_inv n s0" "rc_lastSplittingIndexList s0 \<noteq> []" "rc_splittingBurst s0 = rc_splittingBurst s"
    "rc_delayThresh s0 = rc_delayThresh s" "rc_enableLossAlgorithm s0 = rc_enableLossAlgorithm s"
    "rc_enableStableAlgorithm s0 = rc_enableStableAlgorithm s"
    using rc_init_inv [OF m'(1), of s] assms(2) m'(2) by (auto simp: s0_def n_def m'_def rc_init_def)
  let ?x = "rc_lastSplittingIndexList s0" and ?up = "\<lambda>ind. ls_IsLinkUp (rm_cidList m ! ind) ls"
  have x: "length ?x = n" "rc_total ?x = unat (rc_splittingBurst s)" "length (rc_decreaseCounter s0) = n"
    "rc_enableStableAlgorithm s0 \<longrightarrow> length (rc_lastOwd s0) = n"
    using s0 by (auto simp: rc_inv_def)
  have "rc_total ?x \<noteq> 0" using x(2) assms(3) by (simp add: unat_eq_0)
  then obtain k where k: "k < n" "?x ! k \<noteq> 0" using x(1) by (metis rc_total_active)
  obtain i0 where i0: "rc_first_active ?x [0..<n] = Inr (Some i0)" "i0 < n" "?x ! i0 \<noteq> 0"
    using rc_first_active_some [OF _ k] x(1) by auto
  obtain mi xi where sc: "rc_scan_delay ?up delays ?x i0 n = Inr (mi, xi)" "mi < n" "xi < n" "?x ! xi \<noteq> 0"
    "\<forall>i<n. ?up i \<longrightarrow> delays ! mi \<le> delays ! i" "\<forall>i<n. ?up i \<and> ?x ! i \<noteq> 0 \<longrightarrow> delays ! i \<le> delays ! xi"
    using rc_scan_delay_ok [of i0 n ?x ?up delays] i0 x(1) by auto
  obtain u c l where mv: "rc_delay_move m' mi xi s0 = Inr (u, s0\<lparr>rc_decreaseCounter := c, rc_lastSplittingIndexList := l\<rparr>)"
    "length c = n" "length l = n" "rc_total l = unat (rc_splittingBurst s0)"
    "u \<longleftrightarrow> delays ! xi - delays ! mi > rc_delayThresh s0
      \<and> (rc_enableStableAlgorithm s0 \<longrightarrow> real_of_int (rc_lastOwd s0 ! xi) \<le> delays ! xi)"
    "if u then rc_moved ?x xi mi l else l = ?x"
    using rc_delay_move_ok [OF s0(1,2) sc(2-4), of m'] m'(4) by auto
  let ?s1 = "s0\<lparr>rc_decreaseCounter := c, rc_lastSplittingIndexList := l\<rparr>"
  obtain owd where owd: "rc_store_owd m' ?s1 = Inr (?s1\<lparr>rc_lastOwd := owd\<rparr>)" "length owd = length (rc_lastOwd s0)"
    using rc_store_owd_ok [of ?s1 m'] x(4) m'(2) by (auto simp: n_def)
  let ?s2 = "?s1\<lparr>rc_lastOwd := owd\<rparr>"
  have n: "0 < n" "n = unat (rm_links m')" using k(1) m'(2) by (auto simp: n_def)
  have s2: "rc_inv n ?s2" "rc_lastSplittingIndexList ?s2 \<noteq> []"
    using mv(2-4) owd(2) x(4) n by (auto simp: rc_inv_def)
  let ?c = "u = False \<and> delays ! xi - delays ! mi \<le> rc_delayThresh ?s2 \<and> rc_enableLossAlgorithm ?s2"
  have far: "rc_loss_decides ls m' far b x u l = rc_loss_decides ls m far b x u l" for far b x u l
    unfolding rc_loss_decides_def Let_def m'(2,3,5) ..
  obtain u' l' where fin: "(if ?c then rc_loss_stage ls m' mi xi ?s2 else Inr (u, ?s2)) = Inr (u', ?s2\<lparr>rc_lastSplittingIndexList := l'\<rparr>)"
    "length l' = n" "rc_total l' = unat (rc_splittingBurst s)"
    "if ?c then rc_loss_decides ls m (mi \<noteq> xi) (rc_splittingBurst s) ?x u' l' else u' = u \<and> l' = l"
  proof (cases ?c)
    case True
    have ux: "rc_lastSplittingIndexList ?s2 = ?x" using True mv(6) by simp
    obtain u' l' where "rc_loss_stage ls m' mi xi ?s2 = Inr (u', ?s2\<lparr>rc_lastSplittingIndexList := l'\<rparr>)"
      "length l' = n" "rc_total l' = unat (rc_splittingBurst ?s2)"
      "rc_loss_decides ls m (mi \<noteq> xi) (rc_splittingBurst ?s2) ?x u' l'"
      using rc_loss_stage_ok [OF m'(1) s2 n(2), of mi xi] unfolding far ux by blast
    then show ?thesis using True s0(3) by (intro that [of u' l']) simp_all
  next
    case False
    then show ?thesis using that [of u l] mv s0(3) by auto
  qed
  let ?s3 = "?s2\<lparr>rc_lastSplittingIndexList := l'\<rparr>"
  have "rc_sum n l' = Inr (rc_splittingBurst s)"
    using rc_sum_total [OF fin(3)] fin(2) by simp
  then have run: "rc_DelayAlgorithm ls m useMinOwd s = Inr (rc_decide u' ?s3, ?s3)"
    using i0(1) sc(1) mv(1) owd(1) fin(1) s0(3)
    by (simp add: rc_DelayAlgorithm_def Let_def m'_def [symmetric] m'(2-4) n_def [symmetric]
        s0_def [folded m'_def, symmetric] rc_decide_def)
  have "rc_inv n ?s3" using fin(2,3) s0(3) s2 by (auto simp: rc_inv_def)
  moreover have "if delays ! xi - delays ! mi > rc_delayThresh s then
         (u' \<longleftrightarrow> (rc_enableStableAlgorithm s \<longrightarrow> real_of_int (rc_lastOwd s0 ! xi) \<le> delays ! xi))
         \<and> (if u' then rc_moved ?x xi mi l' else l' = ?x)
       else if rc_enableLossAlgorithm s then rc_loss_decides ls m (mi \<noteq> xi) (rc_splittingBurst s) ?x u' l'
       else \<not> u' \<and> l' = ?x"
    using fin(4) mv(5,6) s0(4-6) by (cases "delays ! xi - delays ! mi > rc_delayThresh s") (auto split: if_splits)
  moreover have "length (rc_lastSplittingIndexList ?s3) = n" "rc_lastSplittingIndexList ?s3 = l'"
    "rc_splittingBurst ?s3 = rc_splittingBurst s" using fin(2) s0(3) by simp_all
  ultimately show ?thesis using run sc(2-6)
    by (intro exI [of _ mi] exI [of _ xi] exI [of _ u'] exI [of _ ?s3] conjI) simp_all
qed

section \<open>A failed link\<close>

text \<open>The number of turns from \<open>it\<close> to \<open>i\<close>, round a list of \<open>n\<close> links.\<close>

definition rc_off :: "nat \<Rightarrow> nat \<Rightarrow> nat \<Rightarrow> nat" where
  "rc_off n it i = (if it \<le> i then i - it else i + n - it)"

definition rc_gain :: "u8 list \<Rightarrow> u8 list \<Rightarrow> nat \<Rightarrow> nat" where
  "rc_gain xs ys i = unat (ys ! i) - unat (xs ! i)"

text \<open>What the distribution of \<open>k\<close> packets has to do: conserve them, touch only links that are up,
  and be fair, the links next in turn getting at most one packet more.\<close>

definition rc_fair :: "(nat \<Rightarrow> bool result) \<Rightarrow> nat \<Rightarrow> nat \<Rightarrow> u8 list \<Rightarrow> u8 list \<Rightarrow> bool" where
  "rc_fair up k it xs ys \<longleftrightarrow> (let n = length xs in
    length ys = n \<and> rc_total ys = rc_total xs + k
    \<and> (\<forall>i<n. unat (xs ! i) \<le> unat (ys ! i) \<and> (up i = Inr False \<longrightarrow> ys ! i = xs ! i))
    \<and> (\<forall>i<n. \<forall>j<n. up i = Inr True \<and> up j = Inr True \<and> rc_off n it i < rc_off n it j \<longrightarrow>
        rc_gain xs ys j \<le> rc_gain xs ys i \<and> rc_gain xs ys i \<le> rc_gain xs ys j + 1))"

lemma rc_off_next:
  assumes "it < n" "i < n"
  shows "rc_off n ((it + 1) mod n) i = (if i = it then n - 1 else rc_off n it i - 1)"
    "i \<noteq> it \<Longrightarrow> 0 < rc_off n it i" "rc_off n it i < n" "rc_off n it it = 0"
  using assms by (cases "it + 1 = n"; auto simp: rc_off_def)+

lemma rc_fair_skip:
  assumes "rc_fair up k ((it + 1) mod length xs) xs ys" "up it = Inr False" "it < length xs"
  shows "rc_fair up k it xs ys"
proof -
  have "rc_gain xs ys j \<le> rc_gain xs ys i \<and> rc_gain xs ys i \<le> rc_gain xs ys j + 1"
    if "i < length xs" "j < length xs" "up i = Inr True" "up j = Inr True"
      "rc_off (length xs) it i < rc_off (length xs) it j" for i j
  proof -
    have "i \<noteq> it" "j \<noteq> it" using that assms(2) by auto
    then have "rc_off (length xs) ((it + 1) mod length xs) i < rc_off (length xs) ((it + 1) mod length xs) j"
      using that rc_off_next(1,2) [OF assms(3)] by (simp add: diff_less_mono Suc_leI)
    then show ?thesis using assms(1) that by (simp add: rc_fair_def Let_def)
  qed
  then show ?thesis using assms(1) unfolding rc_fair_def Let_def by blast
qed

lemma rc_fair_give:
  assumes "rc_fair up k ((it + 1) mod length xs) (xs[it := xs ! it + 1]) ys" "it < length xs"
    and "up it = Inr True" "unat (xs ! it) < 255"
  shows "rc_fair up (Suc k) it xs ys"
proof -
  let ?n = "length xs" and ?xs = "xs[it := xs ! it + 1]" and ?it = "(it + 1) mod length xs"
  have inc: "unat (xs ! it + 1) = unat (xs ! it) + 1" using assms(4) by (subst u8_add_nowrap) auto
  have f: "length ys = ?n" "rc_total ys = rc_total ?xs + k"
    "\<And>i. i < ?n \<Longrightarrow> unat (?xs ! i) \<le> unat (ys ! i) \<and> (up i = Inr False \<longrightarrow> ys ! i = ?xs ! i)"
    "\<And>i j. i < ?n \<Longrightarrow> j < ?n \<Longrightarrow> up i = Inr True \<Longrightarrow> up j = Inr True \<Longrightarrow> rc_off ?n ?it i < rc_off ?n ?it j
      \<Longrightarrow> rc_gain ?xs ys j \<le> rc_gain ?xs ys i \<and> rc_gain ?xs ys i \<le> rc_gain ?xs ys j + 1"
    using assms(1) by (auto simp: rc_fair_def Let_def)
  have g: "rc_gain xs ys i = (if i = it then 1 else 0) + rc_gain ?xs ys i" if "i < ?n" for i
    using f(3) [OF that] inc assms(2) by (cases "i = it") (auto simp: rc_gain_def)
  have "rc_total ys = rc_total xs + Suc k"
    using rc_total_update [OF assms(2), of "xs ! it + 1"] f(2) inc by simp
  moreover have "unat (xs ! i) \<le> unat (ys ! i) \<and> (up i = Inr False \<longrightarrow> ys ! i = xs ! i)" if "i < ?n" for i
    using f(3) [OF that] inc assms(3) that by (cases "i = it") auto
  moreover have "rc_gain xs ys j \<le> rc_gain xs ys i \<and> rc_gain xs ys i \<le> rc_gain xs ys j + 1"
    if ij: "i < ?n" "j < ?n" "up i = Inr True" "up j = Inr True" "rc_off ?n it i < rc_off ?n it j" for i j
  proof -
    note o = rc_off_next [OF assms(2)]
    have j: "j \<noteq> it" using ij(5) by (auto simp: o(4) [OF assms(2)])
    show ?thesis
    proof (cases "i = it")
      case True
      have "rc_off ?n ?it j < rc_off ?n ?it i"
        using o(1) [OF ij(2)] o(1) [OF ij(1)] o(2) [OF ij(2) j] o(3) [OF ij(2)] j True by (simp add: diff_less_mono)
      then show ?thesis using f(4) [OF ij(2,1,4,3)] g [OF ij(1)] g [OF ij(2)] j True by simp
    next
      case False
      then have "rc_off ?n ?it i < rc_off ?n ?it j"
        using o(1) [OF ij(2)] o(1) [OF ij(1)] o(2) [OF ij(1)] j ij(5) by (simp add: diff_less_mono Suc_leI)
      then show ?thesis using f(4) [OF ij(1-4)] g [OF ij(1)] g [OF ij(2)] j False by simp
    qed
  qed
  ultimately show ?thesis unfolding rc_fair_def Let_def using f(1) by blast
qed

lemma rc_distribute_ok:
  assumes "it < n" "n = length xs" "\<And>i. i < n \<Longrightarrow> \<exists>b. up i = Inr b" "j < n" "up j = Inr True"
    and "rc_total xs + k \<le> 255"
  shows "\<exists>ys. rc_distribute up k it xs = Some (Inr ys) \<and> rc_fair up k it xs ys"
  using assms
proof (induction k arbitrary: it xs)
  case 0
  then show ?case by (simp add: rc_distribute.simps [of _ 0] rc_fair_def Let_def rc_gain_def)
next
  case (Suc k)
  show ?case
    using Suc.prems
  proof (induction "rc_off n it j" arbitrary: it rule: less_induct)
    case (less it)
    note p = less.prems
    have nx: "(it + 1) mod n < n" using p(1) by simp
    show ?case
    proof (cases "up it = Inr True")
      case True
      have u: "unat (xs ! it) < 255"
        using rc_total_nth [of it xs] p(1,2,6) by simp
      then have inc: "unat (xs ! it + 1) = unat (xs ! it) + 1" by (subst u8_add_nowrap) auto
      have "rc_total (xs[it := xs ! it + 1]) + k \<le> 255"
        using rc_total_update [of it xs "xs ! it + 1"] inc p(1,2,6) by simp
      then obtain ys where ys: "rc_distribute up k ((it + 1) mod n) (xs[it := xs ! it + 1]) = Some (Inr ys)"
        "rc_fair up k ((it + 1) mod n) (xs[it := xs ! it + 1]) ys"
        using Suc.IH [OF nx, of "xs[it := xs ! it + 1]"] p(2-5) by auto
      have "rc_distribute up (Suc k) it xs = Some (Inr ys)"
        using ys(1) True p(1,2) by (subst rc_distribute.simps) simp
      then show ?thesis using rc_fair_give [of up k it xs ys] ys(2) True u p(1,2) by auto
    next
      case False
      then have f: "up it = Inr False" using p(3) [OF p(1)] by auto
      then have "j \<noteq> it" using p(5) by auto
      then have "rc_off n ((it + 1) mod n) j < rc_off n it j"
        using rc_off_next(1,2) [OF p(1,4)] by simp
      from less.hyps [OF this nx p(2-6)] obtain ys where
        ys: "rc_distribute up (Suc k) ((it + 1) mod n) xs = Some (Inr ys)" "rc_fair up (Suc k) ((it + 1) mod n) xs ys"
        by blast
      have "rc_distribute up (Suc k) it xs = Some (Inr ys)"
        using ys(1) f p(1,2) by (subst rc_distribute.simps) simp
      then show ?thesis using rc_fair_skip [of up "Suc k" it xs ys] ys(2) f p(1,2) by auto
    qed
  qed
qed

lemma rc_any_up_iff:
  assumes "\<And>i. i \<in> set inds \<Longrightarrow> \<exists>b. up i = Inr b"
  shows "rc_any_up up inds = Inr (\<exists>i\<in>set inds. up i = Inr True)"
  using assms
proof (induction inds)
  case (Cons i inds)
  then obtain b where "up i = Inr b" by (meson list.set_intros(1))
  then show ?case using Cons by (cases b) auto
qed simp

text \<open>C24: after a link has failed, while another link of the list is up, the update of the receiver
  takes every packet of the burst off the failed link and shares them out fairly among the links that
  are up: the loop ends, the numbers still add up to the burst, no other link loses a packet, links
  that are down get none, and the links next in turn get at most one more than the others.\<close>

theorem rc_link_down_fair:
  assumes "rc_algorithm s \<noteq> DefaultLinkAlg" "split = rc_lastSplittingIndexList s" "split \<noteq> []"
    and "length (ls_cidList ls) = length split" "rc_total split = unat (rc_splittingBurst s)"
    and "sm_find cid (ls_cidToIndexMap ls) = Some f" "unat f < length split" "ls_cidList ls ! unat f = cid"
    and "\<not> ls_IsLinkUp cid ls" "split ! unat f \<noteq> 0" "other \<in> set (ls_cidList ls)" "ls_IsLinkUp other ls"
  shows "\<exists>split' s'. rc_LinkDownTsu ls cid s = Inr (rc_decide True s', s')
    \<and> s' = s\<lparr>rc_lastSplittingIndexList := split'\<rparr> \<and> split' ! unat f = 0
    \<and> rc_total split' = unat (rc_splittingBurst s)
    \<and> rc_fair (rc_link_up_at ls) (unat (split ! unat f)) 0 (split[unat f := 0]) split'"
proof -
  let ?n = "length split" and ?up = "rc_link_up_at ls" and ?k = "split ! unat f"
  have up: "?up i = Inr (ls_IsLinkUp (ls_cidList ls ! i) ls)" if "i < ?n" for i
    using that assms(4) by (simp add: rc_link_up_at_def)
  obtain j where j: "j < ?n" "?up j = Inr True"
    using assms(4,11,12) up by (auto simp: in_set_conv_nth)
  have "rc_any_up ?up [0..<?n] = Inr (\<exists>i\<in>set [0..<?n]. ?up i = Inr True)"
    by (rule rc_any_up_iff) (use up in auto)
  then have any: "rc_any_up ?up [0..<?n] = Inr True" using j by auto
  have t0: "rc_total (split[unat f := 0]) + unat ?k = unat (rc_splittingBurst s)"
    using rc_total_update [OF assms(7), of 0] assms(5) by simp
  have "rc_total (split[unat f := 0]) + unat ?k \<le> 255" unfolding t0 by simp
  then obtain ys where ys: "rc_distribute ?up (unat ?k) 0 (split[unat f := 0]) = Some (Inr ys)"
    "rc_fair ?up (unat ?k) 0 (split[unat f := 0]) ys"
    using rc_distribute_ok [of 0 ?n "split[unat f := 0]" ?up j "unat ?k"] j up by fastforce
  have l: "length ys = ?n" "rc_total ys = unat (rc_splittingBurst s)"
    using ys(2) t0 by (auto simp: rc_fair_def Let_def)
  have "?up (unat f) = Inr False" using up [OF assms(7)] assms(8,9) by simp
  then have "ys ! unat f = split[unat f := 0] ! unat f"
    using ys(2) assms(7) unfolding rc_fair_def Let_def by simp
  then have z: "ys ! unat f = 0" using assms(7) by simp
  have "rc_sum (length ys) ys = Inr (rc_splittingBurst s)" using rc_sum_total [OF l(2)] .
  then have "rc_LinkDownTsu ls cid s = Inr (rc_decide True (s\<lparr>rc_lastSplittingIndexList := ys\<rparr>), s\<lparr>rc_lastSplittingIndexList := ys\<rparr>)"
    using assms(1-3,6,7,10) any ys(1) by (simp add: rc_LinkDownTsu_def Let_def)
  then show ?thesis using z l(2) ys(2) by blast
qed

text \<open>Three links in the order 5, 1, 3, with 5 failed and 1 the default, for the concrete runs.\<close>

definition rc_ls3 :: LinkState where
  "rc_ls3 = LinkState_new\<lparr>ls_cidList := [5, 1, 3], ls_cidToIndexMap := [(1, 1), (3, 2), (5, 0)],
    ls_ctrFailedLinkMap := [(5, True)], ls_defaultLinkCid := 1\<rparr>"

lemma rc_ls3_facts:
  "ls_cidList rc_ls3 = [5, 1, 3]" "ls_defaultLinkCid rc_ls3 = 1" "\<not> ls_IsLinkUp 5 rc_ls3"
  "ls_IsLinkUp 1 rc_ls3" "ls_IsLinkUp 3 rc_ls3" "sm_find 5 (ls_cidToIndexMap rc_ls3) = Some 0"
  "sm_find 1 (ls_cidToIndexMap rc_ls3) = Some 1" "sm_find 3 (ls_cidToIndexMap rc_ls3) = Some 2"
  "ls_cidToIndexMap rc_ls3 = [(1, 1), (3, 2), (5, 0)]"
  by code_simp+

lemma rc_link_down_fair_witness:
  "\<exists>s'. rc_LinkDownTsu rc_ls3 5 (GmaRxControl_new\<lparr>rc_lastSplittingIndexList := [3, 0, 1], rc_splittingBurst := 4\<rparr>)
      = Inr (rc_decide True s', s')
    \<and> rc_lastSplittingIndexList s' ! 0 = 0 \<and> rc_total (rc_lastSplittingIndexList s') = 4"
proof -
  let ?s = "GmaRxControl_new\<lparr>rc_lastSplittingIndexList := [3, 0, 1], rc_splittingBurst := 4\<rparr>"
  have "rc_algorithm ?s = Delay" by (simp add: GmaRxControl_new_def)
  then have "\<exists>split' s'. rc_LinkDownTsu rc_ls3 5 ?s = Inr (rc_decide True s', s')
      \<and> s' = ?s\<lparr>rc_lastSplittingIndexList := split'\<rparr> \<and> split' ! unat (0 :: u8) = 0
      \<and> rc_total split' = unat (rc_splittingBurst ?s)
      \<and> rc_fair (rc_link_up_at rc_ls3) (unat ([3 :: u8, 0, 1] ! unat (0 :: u8))) 0 ([3, 0, 1][unat (0 :: u8) := 0]) split'"
    by (intro rc_link_down_fair [where other = 1]) (simp_all add: rc_ls3_facts rc_total_def sm_find_def)
  then show ?thesis by auto
qed

section \<open>Claims about the delay algorithm\<close>

text \<open>C18: On a measurement whose lists fit the links of the connection, the delay algorithm never
  fails, for any settings of the stable, adaptive and loss algorithms: no index leaves its vector and
  the assertion on the sum holds.  The numbers of the decision are those the receiver remembers and add
  up to the burst as natural numbers, and the invariant that the next run needs is kept.\<close>

theorem rc_delay_conserves:
  assumes "rc_meas_ok ls m" "rc_inv (unat (rm_links m)) s" "rc_splittingBurst s \<noteq> 0"
  shows "\<exists>d s'. rc_DelayAlgorithm ls m useMinOwd s = Inr (d, s')
    \<and> sd_splitIndexList d = rc_lastSplittingIndexList s'
    \<and> length (sd_splitIndexList d) = unat (rm_links m)
    \<and> rc_total (sd_splitIndexList d) = unat (rc_splittingBurst s)
    \<and> rc_inv (unat (rm_links m)) s' \<and> rc_splittingBurst s' = rc_splittingBurst s"
proof -
  obtain mi xi u s' where o: "rc_DelayAlgorithm ls m useMinOwd s = Inr (rc_decide u s', s')"
    "mi < unat (rm_links m)" "length (rc_lastSplittingIndexList s') = unat (rm_links m)"
    "rc_inv (unat (rm_links m)) s'" "rc_splittingBurst s' = rc_splittingBurst s"
    using rc_delay_outcome [OF assms, of useMinOwd] by blast
  then have "rc_total (rc_lastSplittingIndexList s') = unat (rc_splittingBurst s)"
    by (auto simp: rc_inv_def)
  with o show ?thesis by (intro exI [of _ "rc_decide u s'"] exI [of _ s']) (simp add: rc_decide_def)
qed

text \<open>A measurement of the three links: the delays are 30, 10 and 20.\<close>

definition rc_m3 :: RxMeasurement where
  "rc_m3 = \<lparr>rm_links = 3, rm_measureIntervalThreshS = 0, rm_measureIntervalDurationS = 0, rm_cidList = [5, 1, 3],
    rm_delayThisInterval = [True, True, True], rm_delayList = [30, 10, 20], rm_minOwdLongTerm = [5, 5, 5],
    rm_lossRateList = [0, 0, 0], rm_highDelayRatioList = [0, 0, 0], rm_delayViolationPktNumList = [0, 0, 0],
    rm_totalPktNumList = [0, 0, 0], rm_splittingBurstRequirementEst = 0\<rparr>"

lemma upt_3: "[0..<3] = [0, 1, 2 :: nat]"
  by code_simp

lemma rc_m3_ok: "rc_meas_ok rc_ls3 rc_m3"
  by (simp add: rc_meas_ok_def rc_m3_def Let_def rc_ls3_facts upt_3 sm_find_def)

definition rc_s3 :: GmaRxControl where
  "rc_s3 = GmaRxControl_new\<lparr>rc_splittingBurst := 8, rc_lastSplittingIndexList := [4, 0, 4],
    rc_decreaseCounter := [1, 1, 1], rc_lastOwd := [20, 20, 20], rc_enableLossAlgorithm := False\<rparr>"

lemma rc_s3_facts:
  "rc_inv 3 rc_s3" "rc_splittingBurst rc_s3 = 8" "rc_lastSplittingIndexList rc_s3 = [4, 0, 4]"
  "\<not> rc_enableLossAlgorithm rc_s3" "rc_delayThresh rc_s3 = 5"
  by (simp_all add: rc_s3_def rc_inv_def rc_total_def GmaRxControl_new_def)

lemma rc_delay_conserves_witness:
  "\<exists>d s'. rc_DelayAlgorithm rc_ls3 rc_m3 False rc_s3 = Inr (d, s') \<and> rc_total (sd_splitIndexList d) = 8"
  using rc_delay_conserves [OF rc_m3_ok, of rc_s3 False] rc_s3_facts
  by (auto simp: rc_m3_def)



section \<open>Steering by quality of service\<close>

definition rc_onehot :: "nat \<Rightarrow> nat \<Rightarrow> u8 list" where
  "rc_onehot n q = map (\<lambda>i. if i = q then 1 else 0) [0..<n]"

lemma rc_total_0_iff: "rc_total xs = 0 \<longleftrightarrow> (\<forall>x\<in>set xs. x = 0)"
  by (auto simp: rc_total_def unat_eq_0)

lemma rc_total_take: "rc_total (take k xs) \<le> rc_total xs"
proof -
  have "rc_total (take k xs) + rc_total (drop k xs) = rc_total xs"
    unfolding rc_total_def sum_list_append [symmetric] map_append [symmetric] append_take_drop_id ..
  then show ?thesis by simp
qed

lemma map_nth_take: "k \<le> length xs \<Longrightarrow> map ((!) xs) [0..<k] = take k xs"
  by (induction k) (simp_all add: take_Suc_conv_app_nth)

lemma rc_onehot_unique:
  assumes "length xs = n" "rc_total xs = 1" "q < n" "xs ! q \<noteq> 0"
  shows "xs = rc_onehot n q"
proof -
  have "unat (xs ! q) \<noteq> 0" using assms(4) by (simp add: unat_eq_0)
  then have q: "unat (xs ! q) = 1" "rc_total (xs[q := 0]) = 0"
    using rc_total_update [of q xs 0] assms(1-3) by auto
  have "xs ! i = rc_onehot n q ! i" if "i < n" for i
  proof (cases "i = q")
    case True
    have "xs ! q = 1" using q(1) by (simp add: word_unat_eq_iff)
    then show ?thesis using True assms(3) by (simp add: rc_onehot_def)
  next
    case False
    have "xs[q := 0] ! i \<in> set (xs[q := 0])" using that assms(1) by (intro nth_mem) simp
    then have "xs[q := 0] ! i = 0" using q(2) by (simp add: rc_total_0_iff)
    then show ?thesis using False that by (simp add: rc_onehot_def)
  qed
  then show ?thesis using assms(1) by (intro nth_equalityI) (simp_all add: rc_onehot_def)
qed

lemma rc_steer_onehot:
  assumes "length xs = n" "q < n"
  shows "rc_steer_to (\<lambda>ind. ind = q) 1 n xs = Inr (rc_onehot n q)"
  using assms rc_steer_to_eq [of n xs "\<lambda>ind. ind = q" 1] by (simp add: rc_onehot_def)

text \<open>The links that pass the test: up, not the primary link, and with both rates measured and below
  their targets.\<close>

definition rc_qos_good :: "LinkState \<Rightarrow> RxMeasurement \<Rightarrow> nat \<Rightarrow> GmaRxControl \<Rightarrow> nat list" where
  "rc_qos_good ls m primary s = filter (\<lambda>i. i \<noteq> primary \<and> ls_IsLinkUp (rm_cidList m ! i) ls
    \<and> rc_qos_pass s (rm_highDelayRatioList m ! i) (rm_lossRateList m ! i)) [0..<unat (rm_links m)]"

lemma rc_qosOkList_eq:
  assumes "length (rm_highDelayRatioList m) = unat (rm_links m)"
  shows "rc_qosOkList ls m p s = Inr (rc_qos_good ls m (unat p) s)"
proof -
  let ?body = "\<lambda>l ind. if ind \<noteq> unat p \<and> ls_IsLinkUp (rm_cidList m ! ind) ls then
      rbind (vec_at (rm_highDelayRatioList m) ind) (\<lambda>hd.
      Inr (if rc_qos_pass s hd (rm_lossRateList m ! ind) then l @ [ind] else l)) else Inr l"
  let ?good = "\<lambda>i. i \<noteq> unat p \<and> ls_IsLinkUp (rm_cidList m ! i) ls
    \<and> rc_qos_pass s (rm_highDelayRatioList m ! i) (rm_lossRateList m ! i)"
  have "rfoldl ?body [] [0..<k] = Inr (filter ?good [0..<k])" if "k \<le> unat (rm_links m)" for k
    using that assms by (induction k) (auto simp: rfoldl_append)
  then show ?thesis by (simp add: rc_qosOkList_def rc_qos_good_def)
qed

text \<open>The traffic counts: with one packet in all, the counts off the primary link are zero exactly when
  the packet is on the primary link; the remaining cids are those of the list.\<close>

lemma rc_qos_traffic_eq:
  assumes "length split = unat (rm_links m)" "rc_total split = 1" "unat p < unat (rm_links m)"
    and "length (rm_cidList m) = unat (rm_links m)"
  shows "\<exists>a b c cids. rc_qos_traffic m p q split = Inr (a, b, c, cids) \<and> set cids \<subseteq> set (rm_cidList m)
    \<and> (uint b + uint c = 0 \<longleftrightarrow> split ! unat p \<noteq> 0)"
proof -
  let ?n = "unat (rm_links m)"
  let ?body = "\<lambda>(a, b, c, cids) ind. rbind (vec_at split ind) (\<lambda>k.
      if ind = unat p then Inr (a + ucast k, b, c, cids)
      else if ind = unat q then Inr (a, b + ucast k, c, cids)
      else Inr (a, b, c + ucast k, cids @ [rm_cidList m ! ind])) :: (u16 \<times> u16 \<times> u16 \<times> u8 list) result"
  let ?others = "\<lambda>k. rc_total (map (\<lambda>i. if i = unat p then 0 else split ! i) [0..<k])"
  have le: "?others k \<le> 1" if "k \<le> ?n" for k
  proof -
    have "rc_total (map (\<lambda>i. if i = unat p then 0 else split ! i) [0..<k]) \<le> rc_total (map (\<lambda>i. split ! i) [0..<k])"
      unfolding rc_total_def map_map by (rule sum_list_mono) auto
    also have "\<dots> \<le> rc_total split"
      using that assms(1) rc_total_take [of k split] by (simp add: map_nth_take)
    finally show ?thesis using assms(2) by simp
  qed
  have "\<exists>a b c cids. rfoldl ?body (0, 0, 0, []) [0..<k] = Inr (a, b, c, cids) \<and> set cids \<subseteq> set (rm_cidList m)
      \<and> unat b + unat c = ?others k" if "k \<le> ?n" for k
    using that
  proof (induction k)
    case (Suc k)
    then obtain a b c cids where IH: "rfoldl ?body (0, 0, 0, []) [0..<k] = Inr (a, b, c, cids)"
      "set cids \<subseteq> set (rm_cidList m)" "unat b + unat c = ?others k" by auto
    have k: "k < length split" "k < length (rm_cidList m)" using Suc.prems assms by auto
    have s: "?others (Suc k) = ?others k + (if k = unat p then 0 else unat (split ! k))"
      by (simp add: rc_total_def)
    have b: "?others (Suc k) \<le> 1" using le [OF Suc.prems] .
    have u: "unat (x + ucast (split ! k) :: u16) = unat x + unat (split ! k)" if "unat x + unat (split ! k) \<le> 1" for x :: u16
      using that by (simp add: unat_word_ariths unsigned_ucast_eq take_bit_nat_eq_self_iff [THEN iffD2])
    show ?case
      using IH k s b u [of b] u [of c] by (auto simp: rfoldl_append)
  qed (simp add: rc_total_def)
  from this [of ?n] obtain a b c cids where r: "rc_qos_traffic m p q split = Inr (a, b, c, cids)"
    "set cids \<subseteq> set (rm_cidList m)" "unat b + unat c = ?others ?n"
    by (auto simp: rc_qos_traffic_def)
  have e: "map (\<lambda>i. if i = unat p then 0 else split ! i) [0..<?n] = split[unat p := 0]"
    using assms(1) by (intro nth_equalityI) (auto simp: nth_list_update)
  have tot: "?others ?n + unat (split ! unat p) = 1"
    using rc_total_update [of "unat p" split 0] assms(1-3) e by simp
  have "a = 0 \<longleftrightarrow> 0 < u" if "a = w" "w + u = 1" for a w u :: nat using that by auto
  from this [OF r(3) tot] have "unat b + unat c = 0 \<longleftrightarrow> split ! unat p \<noteq> 0" by (simp add: unat_gt_0)
  then have "uint b + uint c = 0 \<longleftrightarrow> split ! unat p \<noteq> 0"
    by (simp only: uint_nat of_nat_add [symmetric] of_nat_eq_0_iff)
  then show ?thesis using r(1,2) by blast
qed

lemma rc_index_of_found: "sm_find cid (ls_cidToIndexMap ls) = Some i \<Longrightarrow> rc_index_of cid ls = (i, ls)"
  by (simp add: rc_index_of_def sm_index_def)

lemma rc_index_of_keeps:
  assumes "rc_index_of cid ls = (i, ls')"
  shows "ls' = ls\<lparr>ls_cidToIndexMap := ls_cidToIndexMap ls'\<rparr>"
    and "sm_find c (ls_cidToIndexMap ls) = Some k \<Longrightarrow> sm_find c (ls_cidToIndexMap ls') = Some k"
    and "i = (case sm_find cid (ls_cidToIndexMap ls) of None \<Rightarrow> 0 | Some k \<Rightarrow> k)"
  using assms by (auto simp: rc_index_of_def sm_index_def sm_find_set split: option.splits)

lemma rc_qos_record_ok:
  assumes "ind < length (rm_highDelayRatioList m)" "ind < length (rm_lossRateList m)"
  shows "\<exists>ls'. rc_qos_record now m cid ind ls = Inr ls' \<and> ls_cidToIndexMap ls' = ls_cidToIndexMap ls"
  using assms by (auto simp: rc_qos_record_def)

lemma rc_qos_fail_ok:
  assumes "length (rm_highDelayRatioList m) = n" "length (rm_lossRateList m) = n" "unat backup < n"
    and "\<forall>c\<in>set others. \<exists>i. sm_find c (ls_cidToIndexMap ls) = Some i \<and> unat i < n"
  shows "\<exists>ls'. rc_qos_fail now m backupCid backup others ls = Inr ls'"
proof -
  let ?body = "\<lambda>ls cid. let (i, ls) = rc_index_of cid ls in rc_qos_record now m cid (unat i) ls"
  obtain ls1 where r: "rc_qos_record now m backupCid (unat backup) ls = Inr ls1"
      "ls_cidToIndexMap ls1 = ls_cidToIndexMap ls"
    using rc_qos_record_ok [of "unat backup" m now backupCid ls] assms(1-3) by auto
  have "\<exists>t :: LinkState. rfoldl ?body ls1 others = Inr t \<and> ls_cidToIndexMap t = ls_cidToIndexMap ls"
  proof (rule rfoldl_total)
    fix t :: LinkState and c assume c: "c \<in> set others" "ls_cidToIndexMap t = ls_cidToIndexMap ls"
    then obtain i where i: "sm_find c (ls_cidToIndexMap t) = Some i" "unat i < n" using assms(4) by auto
    then show "\<exists>t'. ?body t c = Inr t' \<and> ls_cidToIndexMap t' = ls_cidToIndexMap ls"
      using rc_qos_record_ok [of "unat i" m now c t] assms(1,2) c(2) by (auto simp: rc_index_of_found)
  qed (rule r(2))
  then show ?thesis using r(1) by (auto simp: rc_qos_fail_def)
qed



section \<open>Actions from outside and the configuration\<close>

lemma rc_rl_steps_empty:
  assumes "rfoldl (rc_rl_step a ls) (u, l, [], ix) inds = Inr (u', l', lst, ix')" "inds \<noteq> [] \<or> u"
  shows "u' \<and> lst = [] \<and> l' = l @ concat (map (\<lambda>ind. map (\<lambda>_. ra_ratio a ! ind)
      (filter (\<lambda>c. c = ra_cidList a ! ind) (ls_cidList ls))) inds)"
  using assms
proof (induction inds arbitrary: u l)
  case (Cons ind inds)
  then show ?case by (force simp: rc_rl_step_def Let_def)
qed simp

text \<open>While nothing has been remembered yet, an action from outside is never remembered either: the list
  stays empty, so every later action is reported as an update again, and the numbers are given in the
  order of the action, not in the order of the links.\<close>

theorem rc_rl_first_not_stored:
  assumes "rc_lastSplittingIndexList s = []"
    and "rc_GetTrafficSplittingDecision_Rl ls a s = Inr (d, s', ls')"
  shows "sd_update d \<and> rc_lastSplittingIndexList s' = []
    \<and> sd_splitIndexList d = concat (map (\<lambda>ind. map (\<lambda>_. ra_ratio a ! ind)
        (filter (\<lambda>c. c = ra_cidList a ! ind) (ls_cidList ls))) [0..<unat (ra_links a)])"
proof -
  have n: "[0..<unat (ra_links a)] \<noteq> []"
    using assms(2) by (auto simp: rc_GetTrafficSplittingDecision_Rl_def unat_eq_0 split: if_splits)
  obtain u l lst ix where r: "rfoldl (rc_rl_step a ls) (False, [], [], ls_cidToIndexMap ls) [0..<unat (ra_links a)]
      = Inr (u, l, lst, ix)" "d = SplittingDecision_new\<lparr>sd_splitIndexList := if length lst > 0 then lst else l, sd_update := u\<rparr>"
      "rc_lastSplittingIndexList s' = lst"
    using assms by (auto simp: rc_GetTrafficSplittingDecision_Rl_def Let_def split: if_splits)
  from rc_rl_steps_empty [OF r(1)] n r(2,3) show ?thesis by simp
qed

definition rc_a3 :: RlAction where
  "rc_a3 = \<lparr>ra_links = 2, ra_cidList = [3, 1], ra_ratio = [3, 1]\<rparr>"

lemma rc_rl_first_not_stored_witness:
  "\<exists>d s' ls'. rc_GetTrafficSplittingDecision_Rl rc_ls3 rc_a3 (GmaRxControl_new\<lparr>rc_splittingBurst := 4\<rparr>) = Inr (d, s', ls')
    \<and> sd_update d \<and> sd_splitIndexList d = [3, 1] \<and> rc_lastSplittingIndexList s' = []"
proof -
  let ?s = "GmaRxControl_new\<lparr>rc_splittingBurst := 4\<rparr>"
  have u: "[0..<2] = [0, 1 :: nat]" by code_simp
  have e: "rc_lastSplittingIndexList ?s = []" by (simp add: GmaRxControl_new_def)
  have "\<exists>d s' ls'. rc_GetTrafficSplittingDecision_Rl rc_ls3 rc_a3 ?s = Inr (d, s', ls')"
    by (simp add: rc_GetTrafficSplittingDecision_Rl_def rc_a3_def u rc_rl_step_def Let_def rc_ls3_facts e rc_sum_def)
  then obtain d s' ls' where r: "rc_GetTrafficSplittingDecision_Rl rc_ls3 rc_a3 ?s = Inr (d, s', ls')" by blast
  from rc_rl_first_not_stored [OF e r] have "sd_update d" "rc_lastSplittingIndexList s' = []" "sd_splitIndexList d = [3, 1]"
    by (simp_all add: rc_a3_def u rc_ls3_facts)
  with r show ?thesis by blast
qed

lemma rc_SetSplittingBurst_rejects:
  "rc_SetSplittingBurst 0 s = Inl (Assertion ''Now only support size 1, 4, 8 16, 32, 64 and 128.'')"
  "rc_SetSplittingBurst 64 s = Inl (Assertion ''Now only support size 1, 4, 8 16, 32, 64 and 128.'')"
  by (simp_all add: rc_SetSplittingBurst_def)

end
