(* ===== verification/Rx_Violation.thy ===== *)
theory Rx_Violation
  imports Rx_Control
begin

text \<open>The delay violation algorithm of \<open>GmaRxControl\<close> (GMA 2.0 traffic splitting) and the entry
  function for a measurement: \<open>src/contrib/gma/model/gma-rx-control.cc\<close>.

  \<open>n(i)\<close> of the comments is \<open>m_totalPktNumList\<close>, \<open>k(i)\<close> is \<open>m_delayViolationPktNumList\<close>.  The
  64 bit sums of at most 255 numbers of 32 bits cannot wrap and are \<open>nat\<close>; the cast of one to \<open>int\<close>
  is written out.  The vectors of the measurement are indexed with \<open>!\<close> where the code asserts their
  sizes, those of the object with \<open>vec_at\<close>.

  The stages: link failures (\<open>rv_failures\<close>), the history of bandwidths (\<open>rv_history\<close>,
  \<open>rv_trim\<close>), the new ratios (\<open>rv_ratio\<close>, by the four cases of congestion), their rounding to a
  burst per link (\<open>rv_decrease_step\<close>, \<open>rv_increase_step\<close>, \<open>rv_raise\<close>, \<open>rv_lower\<close>) and the report of
  queueing delays (\<open>rv_drain\<close>), which are below \<open>2 ^ 32\<close> milliseconds.\<close>

section \<open>Initial values and link failures\<close>

abbreviation rv_n :: "RxMeasurement \<Rightarrow> nat" where "rv_n m \<equiv> unat (rm_links m)"

abbreviation rv_up :: "LinkState \<Rightarrow> RxMeasurement \<Rightarrow> nat \<Rightarrow> bool" where
  "rv_up ls m ind \<equiv> ls_IsLinkUp (rm_cidList m ! ind) ls"

abbreviation rv_total :: "RxMeasurement \<Rightarrow> nat \<Rightarrow> nat" where
  "rv_total m ind \<equiv> unat (rm_totalPktNumList m ! ind)"

abbreviation rv_viol :: "RxMeasurement \<Rightarrow> nat \<Rightarrow> nat" where
  "rv_viol m ind \<equiv> unat (rm_delayViolationPktNumList m ! ind)"

definition rv_init :: "LinkState \<Rightarrow> RxMeasurement \<Rightarrow> GmaRxControl \<Rightarrow> GmaRxControl result" where
  "rv_init ls m s =
    (let s = (if length (rc_lastSplittingIndexList s) = 0
        then s\<lparr>rc_lastSplittingIndexList := rc_initial_split (rc_splittingBurst s) m (ls_defaultLinkCid ls)\<rparr>
        else s) in
     if length (rc_lastRatio s) = 0 then
       rbind (rfoldl (\<lambda>r ind. rbind (vec_at (rc_lastSplittingIndexList s) ind) (\<lambda>k.
           Inr (r @ [real (unat k) / real (unat (rc_splittingBurst s))]))) [] [0..<rv_n m])
         (\<lambda>r. Inr (s\<lparr>rc_lastRatio := r\<rparr>))
     else Inr s)"

text \<open>The number of links with traffic, and the packets received over the links that are up.\<close>

definition rv_activeLink :: "RxMeasurement \<Rightarrow> GmaRxControl \<Rightarrow> nat result" where
  "rv_activeLink m s = rfoldl (\<lambda>a ind. rbind (vec_at (rc_lastSplittingIndexList s) ind) (\<lambda>k.
    Inr (if k > 0 then a + 1 else a))) 0 [0..<rv_n m]"

definition rv_sumPkt :: "LinkState \<Rightarrow> RxMeasurement \<Rightarrow> nat" where
  "rv_sumPkt ls m = sum_list (map (\<lambda>ind. if rv_up ls m ind then rv_total m ind else 0) [0..<rv_n m])"

text \<open>\<open>(int)sumPkt\<close> keeps the low 32 bits.\<close>

definition rv_int :: "nat \<Rightarrow> int" where
  "rv_int x = sint (of_nat x :: u32)"

fun rv_single_failure ::
    "RxMeasurement \<Rightarrow> nat list \<Rightarrow> GmaRxControl \<Rightarrow> LinkState \<Rightarrow> (bool \<times> GmaRxControl \<times> LinkState) result" where
  "rv_single_failure m [] s ls = Inr (False, s, ls)"
| "rv_single_failure m (ind # inds) s ls =
    rbind (vec_at (rc_lastSplittingIndexList s) ind) (\<lambda>k.
    if k > 0 then
      (if rv_up ls m ind \<and> rm_totalPktNumList m ! ind = 0
          \<and> uint (rc_splittingBurst s) = rc_GetMaxSplittingBurst \<and> rc_flowActive s then
         Inr (True, s\<lparr>rc_flowActive := False\<rparr>, ls_NoDataDown (rm_cidList m ! ind) ls)
       else Inr (False, s, ls))
    else rv_single_failure m inds s ls)"

definition rv_multi_step ::
    "RxMeasurement \<Rightarrow> GmaRxControl \<Rightarrow> nat \<Rightarrow> (bool \<times> LinkState) \<Rightarrow> nat \<Rightarrow> (bool \<times> LinkState) result" where
  "rv_multi_step m s sumPkt = (\<lambda>(update, ls) ind.
    if rv_up ls m ind then
      rbind (vec_at (rc_lastSplittingIndexList s) ind) (\<lambda>k.
      rbind (if k > 0 \<and> rm_totalPktNumList m ! ind = 0 \<and> uint (rc_splittingBurst s) = rc_GetMaxSplittingBurst
             then rbind (rc_GetMeasurementBurstRequirement s) (\<lambda>r. Inr (rv_int sumPkt \<ge> r))
             else Inr False) (\<lambda>failed.
      Inr (if failed then (True, ls_NoDataDown (rm_cidList m ! ind) ls) else (update, ls))))
    else Inr (update, ls))"

definition rv_failures ::
    "RxMeasurement \<Rightarrow> GmaRxControl \<Rightarrow> LinkState \<Rightarrow> (bool \<times> GmaRxControl \<times> LinkState) result" where
  "rv_failures m s ls =
    rbind (rv_activeLink m s) (\<lambda>activeLink.
    if activeLink = 0 then Inl (Fatal ''active link must be > 0'')
    else if activeLink = 1 then rv_single_failure m [0..<rv_n m] s ls
    else rbind (rfoldl (rv_multi_step m s (rv_sumPkt ls m)) (False, ls) [0..<rv_n m]) (\<lambda>(update, ls).
      Inr (update, s, ls)))"

section \<open>The history of bandwidths\<close>

definition rv_bw :: "LinkState \<Rightarrow> RxMeasurement \<Rightarrow> nat \<Rightarrow> real" where
  "rv_bw ls m ind = (if rv_up ls m ind then real (rv_total m ind) / rm_measureIntervalDurationS m else 0)"

definition rv_history_step ::
    "LinkState \<Rightarrow> RxMeasurement \<Rightarrow> (u8, real list) smap \<times> (u8, u32 list) smap \<Rightarrow> nat
      \<Rightarrow> ((u8, real list) smap \<times> (u8, u32 list) smap) result" where
  "rv_history_step ls m = (\<lambda>(bws, kis) ind.
    let cid = rm_cidList m ! ind; ki = rm_delayViolationPktNumList m ! ind in
    case sm_find cid bws of
      None \<Rightarrow> Inr (sm_set cid [rv_bw ls m ind] bws, sm_set cid [ki] kis)
    | Some bw \<Rightarrow>
        (case sm_find cid kis of
           None \<Rightarrow> Inl (Undefined ''iterKi is end()'')
         | Some k \<Rightarrow> Inr (sm_set cid (bw @ [rv_bw ls m ind]) bws, sm_set cid (k @ [ki]) kis)))"

definition rv_flow_step :: "LinkState \<Rightarrow> RxMeasurement \<Rightarrow> u8 list \<Rightarrow> bool \<Rightarrow> nat \<Rightarrow> bool result" where
  "rv_flow_step ls m split = (\<lambda>active ind.
    if rv_up ls m ind then
      rbind (vec_at split ind) (\<lambda>k. Inr (if k > 0 \<and> rm_totalPktNumList m ! ind > 0 then True else active))
    else Inr active)"

definition rv_noneCongested :: "LinkState \<Rightarrow> RxMeasurement \<Rightarrow> nat" where
  "rv_noneCongested ls m = length (filter (\<lambda>ind. rv_up ls m ind \<and> rm_delayViolationPktNumList m ! ind = 0) [0..<rv_n m])"

definition rv_sumCongested :: "LinkState \<Rightarrow> RxMeasurement \<Rightarrow> nat" where
  "rv_sumCongested ls m = sum_list (map (\<lambda>ind. if rv_up ls m ind then rv_viol m ind else 0) [0..<rv_n m])"

definition rv_sumNoCongestion :: "LinkState \<Rightarrow> RxMeasurement \<Rightarrow> nat" where
  "rv_sumNoCongestion ls m = sum_list (map (\<lambda>ind. if rv_up ls m ind \<and> rm_delayViolationPktNumList m ! ind = 0
    then rv_total m ind else 0) [0..<rv_n m])"

text \<open>Only the last \<open>m_bwHistSize\<close> values of every link are kept; the two maps are walked in step.\<close>

fun rv_trim_vec :: "u32 \<Rightarrow> real list \<Rightarrow> u32 list \<Rightarrow> (real list \<times> u32 list) result" where
  "rv_trim_vec sz [] kis = Inr ([], kis)"
| "rv_trim_vec sz (bw # bws) kis =
    (if length (bw # bws) > unat sz then
       (case kis of [] \<Rightarrow> Inl (Undefined ''erase of an empty vector'') | k # kis \<Rightarrow> rv_trim_vec sz bws kis)
     else Inr (bw # bws, kis))"

fun rv_trim :: "u32 \<Rightarrow> (u8, real list) smap \<Rightarrow> (u8, u32 list) smap
    \<Rightarrow> ((u8, real list) smap \<times> (u8, u32 list) smap) result" where
  "rv_trim sz [] kis = Inr ([], kis)"
| "rv_trim sz ((c, bw) # bws) [] = Inl (Undefined ''iterKi is end()'')"
| "rv_trim sz ((c, bw) # bws) ((c', k) # kis) =
    rbind (rv_trim_vec sz bw k) (\<lambda>(bw, k).
    rbind (rv_trim sz bws kis) (\<lambda>(bws, kis). Inr ((c, bw) # bws, (c', k) # kis)))"

definition rv_history :: "LinkState \<Rightarrow> RxMeasurement \<Rightarrow> GmaRxControl \<Rightarrow> GmaRxControl result" where
  "rv_history ls m s =
    rbind (rfoldl (rv_flow_step ls m (rc_lastSplittingIndexList s)) (rc_flowActive s) [0..<rv_n m]) (\<lambda>active.
    rbind (rfoldl (rv_history_step ls m) (rc_cidToBwHistMap s, rc_cidToKiHistMap s) [0..<rv_n m]) (\<lambda>(bws, kis).
    rbind (rv_trim (rc_bwHistSize s) bws kis) (\<lambda>(bws, kis).
    Inr (s\<lparr>rc_flowActive := active, rc_cidToBwHistMap := bws, rc_cidToKiHistMap := kis\<rparr>))))"

section \<open>The new ratios\<close>

text \<open>Case 1: no link received a packet.\<close>

definition rv_ratio_no_traffic :: "LinkState \<Rightarrow> RxMeasurement \<Rightarrow> real list result" where
  "rv_ratio_no_traffic ls m =
    rfoldl (\<lambda>r ind. if rm_cidList m ! ind = ls_defaultLinkCid ls then
        (if rv_up ls m ind then Inr (r @ [1]) else Inl (Fatal ''default link should always be up!''))
      else Inr (r @ [0])) [] [0..<rv_n m]"

text \<open>Case 2: no congestion.  The scan gives the links with data, and the packets and the index of
  the last other link with data, and the index of the default link.\<close>

definition rv_scan_step ::
    "LinkState \<Rightarrow> RxMeasurement \<Rightarrow> nat \<times> nat \<times> nat \<times> nat \<Rightarrow> nat \<Rightarrow> nat \<times> nat \<times> nat \<times> nat" where
  "rv_scan_step ls m = (\<lambda>(linkWithData, nDefN, nDefIndex, defIndex) ind.
    if rv_up ls m ind then
      (let linkWithData = (if rv_total m ind > 0 then linkWithData + 1 else linkWithData) in
       if rm_cidList m ! ind \<noteq> ls_defaultLinkCid ls then
         (if rv_total m ind > 0 then (linkWithData, rv_total m ind, ind, defIndex)
          else (linkWithData, nDefN, nDefIndex, defIndex))
       else (linkWithData, nDefN, nDefIndex, ind))
    else (linkWithData, nDefN, nDefIndex, defIndex))"

definition rv_scan :: "LinkState \<Rightarrow> RxMeasurement \<Rightarrow> nat \<times> nat \<times> nat \<times> nat" where
  "rv_scan ls m = foldl (rv_scan_step ls m) (0, 0, 0, 0) [0..<rv_n m]"

definition rv_relocate :: "RxMeasurement \<Rightarrow> LinkState \<Rightarrow> GmaRxControl \<Rightarrow> nat \<Rightarrow> nat" where
  "rv_relocate m ls s nDefN = min nDefN (nat \<lfloor>rc_relocateScaler s * real (rv_sumPkt ls m)\<rfloor>)"

definition rv_ratio_no_congestion ::
    "LinkState \<Rightarrow> RxMeasurement \<Rightarrow> GmaRxControl \<Rightarrow> (real list \<times> GmaRxControl) result" where
  "rv_ratio_no_congestion ls m s =
    (let (linkWithData, nDefN, nDefIndex, defIndex) = rv_scan ls m in
     if linkWithData = 1 then
       Inr (map (\<lambda>ind. if rv_up ls m ind \<and> rm_cidList m ! ind = ls_defaultLinkCid ls then 1 else 0) [0..<rv_n m], s)
     else
       (let s = s\<lparr>rc_relocateScaler := real_of_int (rc_minSplitAdjustmentStep s) / real (unat (rc_splittingBurst s))\<rparr>;
            r = rv_relocate m ls s nDefN; sumPkt = real (rv_sumPkt ls m) in
        if r > 0 then
          rbind (rfoldl (\<lambda>newRatio ind. if rv_up ls m ind then
                (if rv_total m ind < rv_viol m ind \<or> rv_sumPkt ls m = 0
                 then Inl (Fatal ''traffic splitting algorithm condition not meet!'')
                 else Inr (newRatio @ [if ind = nDefIndex then real (nDefN - r) / sumPkt
                   else if ind = defIndex then real (rv_total m ind + r) / sumPkt
                   else real (rv_total m ind) / sumPkt]))
              else Inr (newRatio @ [0])) [] [0..<rv_n m]) (\<lambda>newRatio. Inr (newRatio, s))
        else Inr ([], s)))"

text \<open>Case 3: some links are congested.  First the maximal bandwidths of the links that are up:
  whether all are known, those maxima and their sum over the links without congestion.\<close>

definition rv_maxBw_step ::
    "LinkState \<Rightarrow> RxMeasurement \<Rightarrow> GmaRxControl \<Rightarrow> bool \<times> (u8, real) smap \<times> real \<Rightarrow> nat
      \<Rightarrow> (bool \<times> (u8, real) smap \<times> real) result" where
  "rv_maxBw_step ls m s = (\<lambda>(available, maxBws, sumMaxBw) ind.
    if rv_up ls m ind then
      (let cid = rm_cidList m ! ind in
       case sm_find cid (rc_cidToBwHistMap s) of
         None \<Rightarrow> Inr (False, maxBws, sumMaxBw)
       | Some bws \<Rightarrow>
           (case sm_find cid (rc_cidToKiHistMap s) of
              None \<Rightarrow> Inl (Undefined ''iterKi is end()'')
            | Some kis \<Rightarrow>
                if bws = [] \<or> kis = [] then Inl (Undefined ''max_element of an empty vector'')
                else
                  rbind (rassert (length bws = length kis) ''The size of k(i) and b(i) hist must be the same!'') (\<lambda>_.
                  let maxBw = Max (set bws); maxKi = Max (set kis) in
                  Inr (if maxKi = 0 \<or> maxBw < 1 then False else available, sm_set cid maxBw maxBws,
                    if rm_delayViolationPktNumList m ! ind = 0 then sumMaxBw + maxBw else sumMaxBw))))
    else Inr (available, maxBws, sumMaxBw))"

definition rv_scaler ::
    "LinkState \<Rightarrow> RxMeasurement \<Rightarrow> GmaRxControl \<Rightarrow> bool \<Rightarrow> real \<Rightarrow> real result" where
  "rv_scaler ls m s available sumMaxBw =
    (if rc_adaptiveCongestionScaler s \<and> available then
       (let a = (sumMaxBw * rm_measureIntervalDurationS m - real (rv_sumNoCongestion ls m))
                  / real (rv_sumCongested ls m) in
        if a < - (1 / 1000000000) then Inl (Fatal ''newScaler cannot be smaller than zero!!!'')
        else Inr (min (rc_CONGESTION_SCALER_MAX s) (max (rc_CONGESTION_SCALER_MIN s) a)))
     else Inr (rc_congestionScaler s))"

definition rv_medium_step ::
    "LinkState \<Rightarrow> RxMeasurement \<Rightarrow> GmaRxControl \<Rightarrow> bool \<times> (u8, real) smap \<times> real
      \<Rightarrow> real list \<Rightarrow> nat \<Rightarrow> real list result" where
  "rv_medium_step ls m s = (\<lambda>(available, maxBws, sumMaxBw) newRatio ind.
    let sumPkt = real (rv_sumPkt ls m); k = real (rv_viol m ind); n = real (rv_total m ind) in
    if rv_up ls m ind then
      (if rv_total m ind < rv_viol m ind \<or> rv_sumPkt ls m = 0
       then Inl (Fatal ''traffic splitting algorithm condition not meet!'')
       else
         rbind (rv_scaler ls m s available sumMaxBw) (\<lambda>newScaler.
         if rv_viol m ind > 0 then Inr (newRatio @ [(n - k * newScaler) / sumPkt])
         else if rc_enableBwEstimate s \<and> available then
           rbind (rassert (sumMaxBw > 0) ''the sumMaxBwKequalZero must be greater than zero'') (\<lambda>_.
           let bw = (case sm_find (rm_cidList m ! ind) maxBws of None \<Rightarrow> 0 | Some bw \<Rightarrow> bw) in
           Inr (newRatio @ [(real (rv_sumNoCongestion ls m) + real (rv_sumCongested ls m) * newScaler) * bw
             / (sumMaxBw * sumPkt)]))
         else Inr (newRatio @ [(n + real (rv_sumCongested ls m) * newScaler / real (rv_noneCongested ls m)) / sumPkt])))
    else Inr (newRatio @ [0]))"

definition rv_ratio_medium :: "LinkState \<Rightarrow> RxMeasurement \<Rightarrow> GmaRxControl \<Rightarrow> real list result" where
  "rv_ratio_medium ls m s =
    rbind (rfoldl (rv_maxBw_step ls m s) (True, [], 0) [0..<rv_n m]) (\<lambda>bw.
    rfoldl (rv_medium_step ls m s bw) [] [0..<rv_n m])"

text \<open>Case 4: all links are congested.\<close>

definition rv_ratio_heavy :: "LinkState \<Rightarrow> RxMeasurement \<Rightarrow> real list result" where
  "rv_ratio_heavy ls m =
    rfoldl (\<lambda>newRatio ind. if rv_up ls m ind then
        (let newScaler = 0; rest = real (rv_sumPkt ls m) - real (rv_sumCongested ls m) * newScaler in
         if rv_total m ind < rv_viol m ind \<or> rest = 0
         then Inl (Fatal ''traffic splitting algorithm condition not meet!'')
         else Inr (newRatio @ [(real (rv_total m ind) - real (rv_viol m ind) * newScaler) / rest]))
      else Inr (newRatio @ [0])) [] [0..<rv_n m]"

definition rv_ratio ::
    "LinkState \<Rightarrow> RxMeasurement \<Rightarrow> GmaRxControl \<Rightarrow> (real list \<times> GmaRxControl) result" where
  "rv_ratio ls m s =
    (if rv_sumPkt ls m = 0 then rbind (rv_ratio_no_traffic ls m) (\<lambda>r. Inr (r, s))
     else if rv_sumCongested ls m = 0 then rv_ratio_no_congestion ls m s
     else if rv_noneCongested ls m > 0 then rbind (rv_ratio_medium ls m s) (\<lambda>r. Inr (r, s))
     else rbind (rv_ratio_heavy ls m) (\<lambda>r. Inr (r, s)))"

section \<open>Rounding to a burst per link\<close>

text \<open>\<open>std::round\<close>, and the conversion of a whole \<open>double\<close> to \<open>uint8_t\<close>, which is undefined out of
  range.\<close>

definition cround :: "real \<Rightarrow> int" where
  "cround x = (if x \<ge> 0 then \<lfloor>x + 1 / 2\<rfloor> else - \<lfloor>- x + 1 / 2\<rfloor>)"

definition rv_to_u8 :: "int \<Rightarrow> u8 result" where
  "rv_to_u8 k = (if 0 \<le> k \<and> k \<le> 255 then Inr (of_int k) else Inl (Undefined ''conversion of a double to uint8_t''))"

text \<open>The adaptive burst: a power of two between 8 and 128.\<close>

definition rv_adaptive_burst :: "LinkState \<Rightarrow> RxMeasurement \<Rightarrow> GmaRxControl \<Rightarrow> GmaRxControl result" where
  "rv_adaptive_burst ls m s =
    (if rc_adaptiveSplittingBurst s then
       (let x = real (rv_sumPkt ls m) * rm_measureIntervalThreshS m
              / (real_of_int (rc_splittingBurstScalar s) * rm_measureIntervalDurationS m) in
        if x > 0 then
          Inr (s\<lparr>rc_splittingBurst := of_int (2 ^ nat (min (max 3 \<lfloor>log 2 x\<rfloor>) 7))\<rparr>)
        else Inl (Undefined ''conversion of log2 of zero to int''))
     else Inr s)"

text \<open>The links whose ratio decreases, with the sum of their bursts and the sum of the other ratios;
  then the links whose ratio does not decrease, with the sum of all bursts.\<close>

definition rv_decrease_step ::
    "GmaRxControl \<Rightarrow> real list \<Rightarrow> u8 list \<times> int \<times> real \<Rightarrow> nat \<Rightarrow> (u8 list \<times> int \<times> real) result" where
  "rv_decrease_step s newRatio = (\<lambda>(burstPerLink, decreaseBurstSum, incRatioSum) ind.
    rbind (vec_at newRatio ind) (\<lambda>r. rbind (vec_at (rc_lastRatio s) ind) (\<lambda>l.
    if r < l then
      (let mj = cround (r * real (unat (rc_splittingBurst s)) + rc_roundingScaler s) in
       rbind (rv_to_u8 mj) (\<lambda>b. Inr (burstPerLink @ [b], decreaseBurstSum + mj, incRatioSum)))
    else Inr (burstPerLink @ [0], decreaseBurstSum, incRatioSum + r))))"

definition rv_increase_step ::
    "GmaRxControl \<Rightarrow> real list \<Rightarrow> int \<Rightarrow> real \<Rightarrow> u8 list \<times> int \<Rightarrow> nat \<Rightarrow> (u8 list \<times> int) result" where
  "rv_increase_step s newRatio decreaseBurstSum incRatioSum = (\<lambda>(burstPerLink, burstSum) ind.
    rbind (vec_at newRatio ind) (\<lambda>r. rbind (vec_at (rc_lastRatio s) ind) (\<lambda>l.
    rbind (if r < l then Inr burstPerLink
       else rbind (rv_to_u8 (cround ((real (unat (rc_splittingBurst s)) - real_of_int decreaseBurstSum) * r / incRatioSum)))
         (\<lambda>b. vec_upd burstPerLink ind b)) (\<lambda>burstPerLink.
    rbind (vec_at burstPerLink ind) (\<lambda>b. Inr (burstPerLink, burstSum + uint b))))))"

text \<open>\<open>std::max_element\<close>: the first index of the largest value.\<close>

definition rv_max_index :: "u8 list \<Rightarrow> nat" where
  "rv_max_index xs = foldl (\<lambda>best i. if xs ! best < xs ! i then i else best) 0 [0..<length xs]"

function rv_raise :: "int \<Rightarrow> int \<Rightarrow> u8 list \<Rightarrow> u8 list result" where
  "rv_raise burst burstSum xs =
    (if burstSum < burst then
       rbind (vec_at xs (rv_max_index xs)) (\<lambda>b.
       rbind (vec_upd xs (rv_max_index xs) (b + 1)) (\<lambda>xs. rv_raise burst (burstSum + 1) xs))
     else Inr xs)"
  by pat_completeness auto
termination by (relation "measure (\<lambda>(burst, burstSum, xs). nat (burst - burstSum))") auto

function rv_lower :: "int \<Rightarrow> int \<Rightarrow> u8 list \<Rightarrow> u8 list result" where
  "rv_lower burst burstSum xs =
    (if burstSum > burst then
       rbind (vec_at xs (rv_max_index xs)) (\<lambda>b.
       rbind (vec_upd xs (rv_max_index xs) (b - 1)) (\<lambda>xs. rv_lower burst (burstSum - 1) xs))
     else Inr xs)"
  by pat_completeness auto
termination by (relation "measure (\<lambda>(burst, burstSum, xs). nat (burstSum - burst))") auto

declare rv_raise.simps [simp del] rv_lower.simps [simp del]

definition rv_round :: "RxMeasurement \<Rightarrow> GmaRxControl \<Rightarrow> real list \<Rightarrow> u8 list result" where
  "rv_round m s newRatio =
    (let burst = uint (rc_splittingBurst s) in
     rbind (rfoldl (rv_decrease_step s newRatio) ([], 0, 0) [0..<rv_n m]) (\<lambda>(burstPerLink, decreaseBurstSum, incRatioSum).
     rbind (rassert (incRatioSum \<noteq> 0) ''equalOrIncreaseRatioSum cannot be zero!'') (\<lambda>_.
     rbind (rfoldl (rv_increase_step s newRatio decreaseBurstSum incRatioSum) (burstPerLink, 0) [0..<rv_n m])
       (\<lambda>(burstPerLink, burstSum).
     let newRatioSum = sum_list (map (\<lambda>ind. newRatio ! ind) [0..<rv_n m]) in
     if newRatioSum > 1001 / 1000 \<or> newRatioSum < 999 / 1000 then Inl (Fatal ''The new ratio is not equal 1!!'')
     else
       rbind (rassert (burstSum \<noteq> 0) ''the sum of burst per link cannot be empty'') (\<lambda>_.
       rbind (rv_raise burst burstSum burstPerLink) (\<lambda>burstPerLink.
       rv_lower burst (max burst burstSum) burstPerLink))))))"

text \<open>The update: something is stored only when some number changed.\<close>

fun rv_differs :: "u8 list \<Rightarrow> u8 list \<Rightarrow> nat list \<Rightarrow> bool result" where
  "rv_differs xs ys [] = Inr False"
| "rv_differs xs ys (ind # inds) =
    rbind (vec_at xs ind) (\<lambda>x. rbind (vec_at ys ind) (\<lambda>y. if x \<noteq> y then Inr True else rv_differs xs ys inds))"

definition rv_split ::
    "LinkState \<Rightarrow> RxMeasurement \<Rightarrow> real list \<Rightarrow> bool \<Rightarrow> GmaRxControl \<Rightarrow> (bool \<times> GmaRxControl) result" where
  "rv_split ls m newRatio update s =
    (if length newRatio > 0 then
       rbind (rv_adaptive_burst ls m s) (\<lambda>s.
       rbind (rv_round m s newRatio) (\<lambda>burstPerLink.
       rbind (rv_differs (rc_lastSplittingIndexList s) burstPerLink [0..<rv_n m]) (\<lambda>changed.
       if changed then
         Inr (True, s\<lparr>rc_lastSplittingIndexList := burstPerLink, rc_lastRatio := newRatio\<rparr>)
       else Inr (update, s))))
     else Inr (update, s))"

section \<open>The report of queueing delays and the whole algorithm\<close>

definition rv_raw_delay :: "RxMeasurement \<Rightarrow> nat \<Rightarrow> int" where
  "rv_raw_delay m ind = (if rm_delayList m ! ind > rm_minOwdLongTerm m ! ind
    then \<lfloor>rm_delayList m ! ind - rm_minOwdLongTerm m ! ind\<rfloor> else 0)"

definition rv_drain_step ::
    "RxMeasurement \<Rightarrow> GmaRxControl \<Rightarrow> u8 list \<times> nat \<times> nat \<Rightarrow> nat \<Rightarrow> (u8 list \<times> nat \<times> nat) result" where
  "rv_drain_step m s = (\<lambda>(l, high, active) ind.
    rbind (vec_at (rc_lastSplittingIndexList s) ind) (\<lambda>k.
    if k > 0 then
      (if rm_delayThisInterval m ! ind then
         (let d = rv_raw_delay m ind; target = uint (rc_queueingDelayTargetMs s) in
          if d < target then Inr (l @ [0], high, active + 1)
          else Inr (l @ [of_int (min 254 d)], high + 1, active + 1))
       else Inr (l @ [UINT8_MAX], high, active + 1))
    else Inr (l @ [UINT8_MAX], high, active)))"

definition rv_drain :: "RxMeasurement \<Rightarrow> GmaRxControl \<Rightarrow> (u8 list \<times> nat \<times> nat) result" where
  "rv_drain m s = rfoldl (rv_drain_step m s) ([], 0, 0) [0..<rv_n m]"

definition rv_DelayViolationAlgorithm ::
    "LinkState \<Rightarrow> RxMeasurement \<Rightarrow> GmaRxControl \<Rightarrow> (SplittingDecision \<times> GmaRxControl \<times> LinkState) result" where
  "rv_DelayViolationAlgorithm ls m s =
    rbind (rassert (rv_n m = length (rm_delayViolationPktNumList m)) ''size does not match!'') (\<lambda>_.
    rbind (rassert (rv_n m = length (rm_totalPktNumList m)) ''size does not match!'') (\<lambda>_.
    rbind (rassert (rc_congestionScaler s < 1) ''The m_congestionScaler cannot be 1'') (\<lambda>_.
    rbind (rv_init ls m s) (\<lambda>s.
    rbind (rv_failures m s ls) (\<lambda>(update, s, ls).
    rbind (rv_history ls m s) (\<lambda>s.
    rbind (rv_ratio ls m s) (\<lambda>(newRatio, s).
    rbind (rv_split ls m newRatio update s) (\<lambda>(update, s).
    rbind (rv_drain m s) (\<lambda>(queueingDelayList, high, active).
    rbind (rc_sum (rv_n m) (rc_lastSplittingIndexList s)) (\<lambda>sumRatio.
    rbind (rassert (sumRatio = rc_splittingBurst s) ''the summation must equals the splitting burst size'') (\<lambda>_.
    Inr (SplittingDecision_new\<lparr>sd_splitIndexList := rc_lastSplittingIndexList s, sd_update := update,
        sd_queueingDelay := (if high > 0 \<and> high < active then queueingDelayList else [])\<rparr>, s, ls))))))))))))"

section \<open>The entry function\<close>

definition rc_GetTrafficSplittingDecision ::
    "time \<Rightarrow> LinkState \<Rightarrow> RxMeasurement \<Rightarrow> GmaRxControl \<Rightarrow> (SplittingDecision \<times> GmaRxControl \<times> LinkState) result" where
  "rc_GetTrafficSplittingDecision now ls m s =
    (if rm_links m = 0 then Inl (Fatal ''Link cannot be 0!'') else
     rbind (rassert (rv_n m = length (rm_cidList m)) ''size does not match!'') (\<lambda>_.
     rbind (rassert (rv_n m = length (rm_delayThisInterval m)) ''size does not match!'') (\<lambda>_.
     rbind (rassert (rv_n m = length (rm_delayList m)) ''size does not match!'') (\<lambda>_.
     rbind (rassert (rv_n m = length (rm_minOwdLongTerm m)) ''size does not match!'') (\<lambda>_.
     rbind (rassert (rv_n m = length (rm_lossRateList m)) ''size does not match!'') (\<lambda>_.
     let delay = (\<lambda>useMinOwd s. rbind (rc_DelayAlgorithm ls m useMinOwd s) (\<lambda>(d, s). Inr (d, s, ls))) in
     case rc_algorithm s of
       QosSteer \<Rightarrow>
         if rc_splittingBurst s = 1 then rc_QosSteerAlgorithm now ls m s
         else Inl (Fatal ''must use the qos steer mode!!'')
     | Delay \<Rightarrow> delay False s
     | Gma \<Rightarrow> delay False s
     | Gma2 \<Rightarrow>
         if rc_splittingBurst s = 1 then delay True (s\<lparr>rc_enableLossAlgorithm := False\<rparr>)
         else if uint (rc_splittingBurst s) < rc_GetMinSplittingBurst \<or> uint (rc_splittingBurst s) > rc_GetMaxSplittingBurst
         then Inl (Fatal ''for gma2.0 algorithm, must set the splitting burst size to be the range [min, max].'')
         else rv_DelayViolationAlgorithm ls m s
     | CongDelay \<Rightarrow> rc_CongDelayAlgorithm ls m s
     | DefaultLinkAlg \<Rightarrow> Inr (SplittingDecision_new\<lparr>sd_update := False\<rparr>, s, ls)
     | RlSplit \<Rightarrow> Inr (SplittingDecision_new\<lparr>sd_update := False\<rparr>, s, ls)))))))"

section \<open>The rounding loops\<close>

lemma rv_max_index_props:
  assumes "xs \<noteq> []"
  shows "rv_max_index xs < length xs" "\<forall>i < length xs. xs ! i \<le> xs ! rv_max_index xs"
proof -
  have "foldl (\<lambda>best i. if xs ! best < xs ! i then i else best) 0 [0..<k] < length xs
      \<and> (\<forall>i < k. xs ! i \<le> xs ! foldl (\<lambda>best i. if xs ! best < xs ! i then i else best) 0 [0..<k])"
    if "k \<le> length xs" for k
    using that assms by (induction k) (auto simp: less_Suc_eq)
  from this [of "length xs"] show "rv_max_index xs < length xs" "\<forall>i < length xs. xs ! i \<le> xs ! rv_max_index xs"
    by (auto simp: rv_max_index_def)
qed

lemma rv_max_index_pos:
  assumes "rc_total xs \<noteq> 0"
  shows "rv_max_index xs < length xs" "xs ! rv_max_index xs \<noteq> 0"
proof -
  obtain k where k: "k < length xs" "xs ! k \<noteq> 0" using rc_total_active [OF assms] .
  then have "xs \<noteq> []" by auto
  note mx = rv_max_index_props [OF this]
  show "rv_max_index xs < length xs" by (rule mx(1))
  have "xs ! k \<le> xs ! rv_max_index xs" using mx(2) k(1) by simp
  then show "xs ! rv_max_index xs \<noteq> 0" using k(2) by auto
qed

text \<open>Both loops end with the burst as the sum, and leave the links without a packet alone.\<close>

lemma rv_raise_ok:
  assumes "int (rc_total xs) = tot" "0 < tot" "burst \<le> 255"
  shows "\<exists>ys. rv_raise burst tot xs = Inr ys \<and> length ys = length xs
    \<and> int (rc_total ys) = max burst tot \<and> (\<forall>i < length xs. xs ! i = 0 \<longrightarrow> ys ! i = 0)"
  using assms
proof (induction burst tot xs rule: rv_raise.induct)
  case (1 burst tot xs)
  show ?case
  proof (cases "tot < burst")
    case True
    let ?j = "rv_max_index xs"
    have "rc_total xs \<noteq> 0" using 1(2,3) by auto
    note j = rv_max_index_pos [OF this]
    let ?xs = "xs[?j := xs ! ?j + 1]"
    have "unat (xs ! ?j) \<le> rc_total xs" using j(1) by (rule rc_total_nth)
    then have inc: "unat (xs ! ?j + 1) = unat (xs ! ?j) + 1"
      using True 1(2,4) by (subst u8_add_nowrap) auto
    have "int (rc_total ?xs) = tot + 1"
      using rc_total_update [OF j(1), of "xs ! ?j + 1"] inc 1(2) by linarith
    then obtain ys where ys: "rv_raise burst (tot + 1) ?xs = Inr ys" "length ys = length ?xs"
      "int (rc_total ys) = max burst (tot + 1)" "\<forall>i < length ?xs. ?xs ! i = 0 \<longrightarrow> ys ! i = 0"
      using 1(1) [OF True] 1(3,4) j(1) by fastforce
    have "rv_raise burst tot xs = Inr ys"
      using ys(1) True j(1) by (subst rv_raise.simps) simp
    moreover have "ys ! i = 0" if "i < length xs" "xs ! i = 0" for i
      using ys(4) that j(2) by (cases "i = ?j") auto
    ultimately show ?thesis using ys(2,3) True by auto
  next
    case False
    then show ?thesis using 1(2) by (subst rv_raise.simps) auto
  qed
qed

lemma rv_lower_ok:
  assumes "int (rc_total xs) = tot" "0 \<le> burst"
  shows "\<exists>ys. rv_lower burst tot xs = Inr ys \<and> length ys = length xs
    \<and> int (rc_total ys) = min burst tot \<and> (\<forall>i < length xs. xs ! i = 0 \<longrightarrow> ys ! i = 0)"
  using assms
proof (induction burst tot xs rule: rv_lower.induct)
  case (1 burst tot xs)
  show ?case
  proof (cases "burst < tot")
    case True
    let ?j = "rv_max_index xs"
    have "rc_total xs \<noteq> 0" using 1(2,3) True by auto
    note j = rv_max_index_pos [OF this]
    let ?xs = "xs[?j := xs ! ?j - 1]"
    have dec: "unat (xs ! ?j - 1) + 1 = unat (xs ! ?j)"
      using j(2) by (simp add: unat_minus_one unat_gt_0)
    have "int (rc_total ?xs) = tot - 1"
      using rc_total_update [OF j(1), of "xs ! ?j - 1"] dec 1(2) by linarith
    then obtain ys where ys: "rv_lower burst (tot - 1) ?xs = Inr ys" "length ys = length ?xs"
      "int (rc_total ys) = min burst (tot - 1)" "\<forall>i < length ?xs. ?xs ! i = 0 \<longrightarrow> ys ! i = 0"
      using 1(1) [OF True] 1(3) j(1) by fastforce
    have "rv_lower burst tot xs = Inr ys"
      using ys(1) True j(1) by (subst rv_lower.simps) simp
    moreover have "ys ! i = 0" if "i < length xs" "xs ! i = 0" for i
      using ys(4) that j(2) by (cases "i = ?j") auto
    ultimately show ?thesis using ys(2,3) True by auto
  next
    case False
    then show ?thesis using 1(2) by (subst rv_lower.simps) auto
  qed
qed

lemma cround_bounds:
  "real_of_int (cround x) \<le> x + 1 / 2" "x - 1 / 2 \<le> real_of_int (cround x)"
  unfolding cround_def by (simp_all split: if_splits) linarith+

lemma cround_nonneg: "- (1 / 2) < x \<Longrightarrow> 0 \<le> cround x"
  using cround_bounds(2) [of x] by linarith

lemma cround_0 [simp]: "cround 0 = 0"
  by (simp add: cround_def)

text \<open>The two rounding loops in closed form: the links whose ratio decreases, their bursts, and the
  bursts of the others.\<close>

definition rv_dec :: "GmaRxControl \<Rightarrow> real list \<Rightarrow> nat \<Rightarrow> bool" where
  "rv_dec s r i \<longleftrightarrow> r ! i < rc_lastRatio s ! i"

definition rv_mj :: "GmaRxControl \<Rightarrow> real list \<Rightarrow> nat \<Rightarrow> int" where
  "rv_mj s r i = cround (r ! i * real (unat (rc_splittingBurst s)) + rc_roundingScaler s)"

definition rv_mk :: "GmaRxControl \<Rightarrow> real list \<Rightarrow> int \<Rightarrow> real \<Rightarrow> nat \<Rightarrow> int" where
  "rv_mk s r dec inc i = cround ((real (unat (rc_splittingBurst s)) - real_of_int dec) * r ! i / inc)"

lemma rv_to_u8_ok: "0 \<le> k \<Longrightarrow> k \<le> 255 \<Longrightarrow> rv_to_u8 k = Inr (of_int k)"
  by (simp add: rv_to_u8_def)

lemma uint_of_int_u8: "0 \<le> k \<Longrightarrow> k \<le> 255 \<Longrightarrow> uint (of_int k :: u8) = k"
  by (simp add: uint_word_of_int)

lemma rv_decrease_step_eq:
  assumes "i < length r" "i < length (rc_lastRatio s)"
    and "rv_dec s r i \<Longrightarrow> 0 \<le> rv_mj s r i \<and> rv_mj s r i \<le> 255"
  shows "rv_decrease_step s r (l, d, inc) i = Inr (if rv_dec s r i
      then (l @ [of_int (rv_mj s r i)], d + rv_mj s r i, inc) else (l @ [0], d, inc + r ! i))"
  using assms rv_to_u8_ok [of "rv_mj s r i"] by (auto simp: rv_decrease_step_def rv_dec_def rv_mj_def Let_def)

lemma rv_decrease_eq:
  assumes "n \<le> length r" "n \<le> length (rc_lastRatio s)"
    and "\<And>i. i < n \<Longrightarrow> rv_dec s r i \<Longrightarrow> 0 \<le> rv_mj s r i \<and> rv_mj s r i \<le> 255"
  shows "rfoldl (rv_decrease_step s r) ([], 0, 0) [0..<n]
    = Inr (map (\<lambda>i. if rv_dec s r i then of_int (rv_mj s r i) else 0) [0..<n],
        (\<Sum>i<n. if rv_dec s r i then rv_mj s r i else 0), (\<Sum>i<n. if rv_dec s r i then 0 else r ! i))"
  using assms by (induction n) (simp_all add: rfoldl_append rv_decrease_step_eq)

lemma rv_increase_eq:
  assumes "n \<le> length r" "n \<le> length (rc_lastRatio s)"
    and "\<And>i. i < n \<Longrightarrow> rv_dec s r i \<Longrightarrow> 0 \<le> rv_mj s r i \<and> rv_mj s r i \<le> 255"
    and "\<And>i. i < n \<Longrightarrow> \<not> rv_dec s r i \<Longrightarrow> 0 \<le> rv_mk s r dec inc i \<and> rv_mk s r dec inc i \<le> 255"
  defines "v \<equiv> \<lambda>i. if rv_dec s r i then rv_mj s r i else rv_mk s r dec inc i"
  shows "rfoldl (rv_increase_step s r dec inc) (map (\<lambda>i. if rv_dec s r i then of_int (rv_mj s r i) else 0) [0..<n], 0) [0..<n]
    = Inr (map (\<lambda>i. of_int (v i)) [0..<n], \<Sum>i<n. v i)"
proof -
  let ?base = "\<lambda>i. if rv_dec s r i then of_int (rv_mj s r i) else 0 :: u8"
  have v: "0 \<le> v i \<and> v i \<le> 255" if "i < n" for i using assms(3,4) that by (simp add: v_def)
  have "rfoldl (rv_increase_step s r dec inc) (map ?base [0..<n], 0) [0..<k]
    = Inr (map (\<lambda>i. if i < k then of_int (v i) else ?base i) [0..<n], \<Sum>i<k. v i)" if "k \<le> n" for k
    using that
  proof (induction k)
    case (Suc k)
    let ?l = "\<lambda>k. map (\<lambda>i. if i < k then of_int (v i) else ?base i) [0..<n] :: u8 list"
    have k: "k < n" using Suc.prems by simp
    have upd: "(?l k)[k := of_int (v k)] = ?l (Suc k)"
      using k by (intro nth_equalityI) (auto simp: nth_list_update less_Suc_eq)
    have "rv_increase_step s r dec inc (?l k, \<Sum>i<k. v i) k = Inr (?l (Suc k), (\<Sum>i<k. v i) + uint (of_int (v k) :: u8))"
    proof (cases "rv_dec s r k")
      case True
      have "?l k = ?l (Suc k)" using True by (auto simp: v_def less_Suc_eq)
      moreover have "?l k ! k = of_int (v k)" using True k by (simp add: v_def)
      ultimately show ?thesis
        using True k assms(1,2) unfolding rv_increase_step_def rv_dec_def by simp
    next
      case False
      then have "rv_to_u8 (rv_mk s r dec inc k) = Inr (of_int (v k))"
        using v [OF k] by (simp add: rv_to_u8_ok v_def)
      then show ?thesis
        using False k assms(1,2) upd
        by (simp add: rv_increase_step_def rv_dec_def rv_mk_def)
    qed
    then show ?case
      using Suc v [OF k] by (simp add: rfoldl_append uint_of_int_u8)
  qed simp
  from this [of n] show ?thesis by (simp cong: map_cong)
qed

lemma rc_total_of_int:
  assumes "\<And>i. i < n \<Longrightarrow> 0 \<le> v i \<and> v i \<le> 255"
  shows "int (rc_total (map (\<lambda>i. of_int (v i)) [0..<n])) = (\<Sum>i<n. v i)"
  using assms
proof (induction n)
  case (Suc n)
  have "int (unat (of_int (v n) :: u8)) = v n"
    using Suc.prems uint_of_int_u8 [of "v n"] by simp
  then show ?case using Suc by (simp add: rc_total_def)
qed (simp add: rc_total_def)

text \<open>A vector of ratios: one per link, not negative, with sum 1.\<close>

definition rv_ratios :: "nat \<Rightarrow> real list \<Rightarrow> bool" where
  "rv_ratios n r \<longleftrightarrow> length r = n \<and> (\<forall>i<n. 0 \<le> r ! i) \<and> (\<Sum>i<n. r ! i) = 1"

text \<open>The settings under which the rounding cannot leave the range of \<open>uint8_t\<close>: the default scaler
  -0.3 and at most six links satisfy them, since \<open>5 * 0.2 = 1\<close>.\<close>

definition rv_scaler_ok :: "nat \<Rightarrow> GmaRxControl \<Rightarrow> bool" where
  "rv_scaler_ok n s \<longleftrightarrow> - (1 / 2) < rc_roundingScaler s \<and> rc_roundingScaler s \<le> 0
    \<and> (real n - 1) * (rc_roundingScaler s + 1 / 2) \<le> 1 \<and> 0 < n \<and> n \<le> unat (rc_splittingBurst s)"

lemma rv_default_scaler_ok:
  "0 < n \<Longrightarrow> n \<le> 6 \<Longrightarrow> n \<le> unat (rc_splittingBurst s) \<Longrightarrow> rc_roundingScaler s = - (3 / 10) \<Longrightarrow> rv_scaler_ok n s"
  by (simp add: rv_scaler_ok_def)

lemma rv_ratio_le_1:
  assumes "rv_ratios n r" "i < n"
  shows "0 \<le> r ! i" "r ! i \<le> 1"
proof -
  have "r ! i \<le> (\<Sum>i<n. r ! i)"
    using assms by (intro member_le_sum) (auto simp: rv_ratios_def)
  then show "0 \<le> r ! i" "r ! i \<le> 1" using assms by (auto simp: rv_ratios_def)
qed

lemma rv_mj_range:
  assumes "rv_ratios n r" "i < n" "rv_scaler_ok n s"
  shows "0 \<le> rv_mj s r i" "rv_mj s r i \<le> 255"
    "real_of_int (rv_mj s r i) \<le> r ! i * real (unat (rc_splittingBurst s)) + rc_roundingScaler s + 1 / 2"
proof -
  let ?B = "real (unat (rc_splittingBurst s))" and ?x = "r ! i * real (unat (rc_splittingBurst s)) + rc_roundingScaler s"
  note r = rv_ratio_le_1 [OF assms(1,2)]
  have B: "0 \<le> ?B" "?B \<le> 255" by (simp_all del: of_nat_unat)
  have s: "- (1 / 2) < rc_roundingScaler s" "rc_roundingScaler s \<le> 0" using assms(3) by (auto simp: rv_scaler_ok_def)
  have "0 \<le> r ! i * ?B" using r(1) B(1) by (rule mult_nonneg_nonneg)
  then show "0 \<le> rv_mj s r i" unfolding rv_mj_def using s by (intro cround_nonneg) linarith
  have "r ! i * ?B \<le> 1 * ?B" using r B(1) by (intro mult_right_mono)
  then have "?x \<le> 255" using B(2) s by linarith
  then show "rv_mj s r i \<le> 255" unfolding rv_mj_def using cround_bounds(1) [of ?x] by linarith
  show "real_of_int (rv_mj s r i) \<le> r ! i * ?B + rc_roundingScaler s + 1 / 2"
    unfolding rv_mj_def using cround_bounds(1) [of ?x] by linarith
qed

lemma sum_split_if:
  fixes f :: "nat \<Rightarrow> 'a :: ab_group_add"
  shows "(\<Sum>i<n. f i) = (\<Sum>i<n. if P i then f i else 0) + (\<Sum>i<n. if P i then 0 else f i)"
  unfolding sum.distrib [symmetric] by (rule sum.cong) auto

text \<open>The ratios that do not decrease have a positive sum, and the bursts of the decreasing ones do not
  exceed the whole burst.\<close>

lemma rv_inc_pos:
  assumes "rv_ratios n r" "rv_ratios n (rc_lastRatio s)"
  shows "0 < (\<Sum>i<n. if rv_dec s r i then 0 else r ! i)" "\<exists>i<n. \<not> rv_dec s r i"
proof -
  let ?l = "rc_lastRatio s"
  let ?sum = "\<lambda>f. \<Sum>i<n. f i"
  let ?d = "\<lambda>f i. if rv_dec s r i then f ! i else (0 :: real)" and ?u = "\<lambda>f i. if rv_dec s r i then 0 else f ! i :: real"
  have s: "?sum (?d r) + ?sum (?u r) = 1" "?sum (?d ?l) + ?sum (?u ?l) = 1"
    using assms sum_split_if [of "(!) r" n "rv_dec s r"] sum_split_if [of "(!) ?l" n "rv_dec s r"]
    by (auto simp: rv_ratios_def)
  have ul: "0 \<le> ?sum (?u ?l)" using assms(2) by (intro sum_nonneg) (auto simp: rv_ratios_def)
  show pos: "0 < ?sum (?u r)"
  proof (cases "\<exists>i<n. rv_dec s r i")
    case True
    then have "?sum (?d r) < ?sum (?d ?l)"
      by (intro sum_strict_mono_ex1) (auto simp: rv_dec_def)
    then show ?thesis using s ul by linarith
  next
    case False
    then have "?sum (?d r) = 0" by (intro sum.neutral) auto
    then show ?thesis using s by linarith
  qed
  show "\<exists>i<n. \<not> rv_dec s r i"
  proof (rule ccontr)
    assume "\<not> ?thesis"
    then have "?sum (?u r) = 0" by (intro sum.neutral) auto
    then show False using pos by simp
  qed
qed

lemma rv_dec_sum_le:
  assumes "rv_ratios n r" "rv_ratios n (rc_lastRatio s)" "rv_scaler_ok n s"
  shows "0 \<le> (\<Sum>i<n. if rv_dec s r i then rv_mj s r i else 0)"
    "(\<Sum>i<n. if rv_dec s r i then rv_mj s r i else 0) \<le> int (unat (rc_splittingBurst s))"
proof -
  let ?B = "real (unat (rc_splittingBurst s))" and ?e = "rc_roundingScaler s + 1 / 2"
  let ?D = "{i. i < n \<and> rv_dec s r i}"
  let ?sum = "\<Sum>i<n. if rv_dec s r i then rv_mj s r i else 0"
  show "0 \<le> ?sum" using rv_mj_range(1) [OF assms(1) _ assms(3)] by (intro sum_nonneg) auto
  have e: "0 \<le> ?e" "(real n - 1) * ?e \<le> 1" "0 < n" "1 \<le> ?B" using assms(3) by (auto simp: rv_scaler_ok_def simp del: of_nat_unat)
  have "card ?D < card {..<n}" using rv_inc_pos(2) [OF assms(1,2)] by (intro psubset_card_mono) auto
  then have "real (card ?D) \<le> real n - 1" by simp
  then have de: "real (card ?D) * ?e \<le> 1" using e(1,2) by (meson mult_right_mono order_trans)
  have "real_of_int ?sum = (\<Sum>i<n. if rv_dec s r i then real_of_int (rv_mj s r i) else 0)"
    unfolding of_int_sum by (rule sum.cong) auto
  also have "\<dots> \<le> (\<Sum>i<n. ?B * (if rv_dec s r i then r ! i else 0) + (if rv_dec s r i then ?e else 0))"
    using rv_mj_range(3) [OF assms(1) _ assms(3)] by (intro sum_mono) (auto simp: mult.commute add.assoc simp del: of_nat_unat)
  also have "\<dots> = ?B * (\<Sum>i<n. if rv_dec s r i then r ! i else 0) + real (card ?D) * ?e"
  proof -
    have "(\<Sum>i<n. if rv_dec s r i then ?e else 0) = (\<Sum>i\<in>?D. ?e)"
      by (rule sum.mono_neutral_cong_right) auto
    also have "\<dots> = real (card ?D) * ?e" by (rule sum_constant)
    finally show ?thesis unfolding sum.distrib sum_distrib_left by simp
  qed
  also have "\<dots> < ?B + 1"
  proof -
    have "(\<Sum>i<n. if rv_dec s r i then r ! i else 0) < 1"
      using rv_inc_pos(1) [OF assms(1,2)] sum_split_if [of "(!) r" n "rv_dec s r"] assms(1) by (simp add: rv_ratios_def)
    then have "?B * (\<Sum>i<n. if rv_dec s r i then r ! i else 0) < ?B * 1"
      using e(4) by (intro mult_strict_left_mono) auto
    then show ?thesis using de by linarith
  qed
  finally show "?sum \<le> int (unat (rc_splittingBurst s))" by linarith
qed

lemma rv_mk_range:
  assumes "rv_ratios n r" "i < n" "\<not> rv_dec s r i" "0 \<le> dec" "dec \<le> int (unat (rc_splittingBurst s))"
    and "inc = (\<Sum>i<n. if rv_dec s r i then 0 else r ! i)" "0 < inc"
  shows "0 \<le> rv_mk s r dec inc i" "rv_mk s r dec inc i \<le> 255"
proof -
  let ?R = "real (unat (rc_splittingBurst s)) - real_of_int dec"
  have R: "0 \<le> ?R" "?R \<le> 255" using assms(4,5) unat_u8_le [of "rc_splittingBurst s"] by linarith+
  have "(if rv_dec s r i then 0 else r ! i) \<le> inc"
    unfolding assms(6) using assms(1,2) by (intro member_le_sum) (auto simp: rv_ratios_def)
  then have ri: "0 \<le> r ! i" "r ! i \<le> inc" using rv_ratio_le_1(1) [OF assms(1,2)] assms(3) by auto
  have q: "0 \<le> ?R * r ! i / inc" using R(1) ri(1) assms(7) by simp
  then show "0 \<le> rv_mk s r dec inc i" unfolding rv_mk_def by (intro cround_nonneg) linarith
  have "?R * r ! i \<le> ?R * inc" using R(1) ri(2) by (rule mult_left_mono [rotated])
  then have "?R * r ! i / inc \<le> ?R" using assms(7) by (simp add: divide_le_eq)
  then show "rv_mk s r dec inc i \<le> 255"
    unfolding rv_mk_def using R(2) cround_bounds(1) [of "?R * r ! i / inc"] by linarith
qed

lemma rv_burst_nonzero:
  assumes "rv_ratios n r" "rv_ratios n (rc_lastRatio s)" "rv_scaler_ok n s"
    and "inc = (\<Sum>i<n. if rv_dec s r i then 0 else r ! i)"
    and "\<And>i. i < n \<Longrightarrow> rv_dec s r i \<Longrightarrow> rv_mj s r i = 0"
  shows "\<exists>i<n. \<not> rv_dec s r i \<and> rv_mk s r 0 inc i \<noteq> 0"
proof (rule ccontr)
  assume none: "\<not> ?thesis"
  let ?B = "real (unat (rc_splittingBurst s))"
  have pos: "0 < inc" using rv_inc_pos(1) [OF assms(1,2)] assms(4) by simp
  have "?B = (\<Sum>i<n. ?B * (if rv_dec s r i then 0 else r ! i) / inc)"
    unfolding sum_divide_distrib [symmetric] sum_distrib_left [symmetric] assms(4) [symmetric] using pos by simp
  also have "\<dots> \<le> (\<Sum>i<n. 1 / 2)"
  proof (rule sum_mono)
    fix i assume i: "i \<in> {..<n}"
    show "?B * (if rv_dec s r i then 0 else r ! i) / inc \<le> 1 / 2"
    proof (cases "rv_dec s r i")
      case False
      then have "rv_mk s r 0 inc i = 0" using none i by auto
      then show ?thesis using False cround_bounds(2) [of "?B * r ! i / inc"] by (simp add: rv_mk_def del: of_nat_unat)
    qed simp
  qed
  also have "\<dots> < real n" using assms(3) by (simp add: rv_scaler_ok_def)
  finally show False using assms(3) by (simp add: rv_scaler_ok_def del: of_nat_unat)
qed

lemma rv_round_ok:
  assumes "rv_ratios (unat (rm_links m)) r" "rv_ratios (unat (rm_links m)) (rc_lastRatio s)"
    and "rv_scaler_ok (unat (rm_links m)) s"
  shows "\<exists>ys. rv_round m s r = Inr ys \<and> length ys = unat (rm_links m)
    \<and> rc_total ys = unat (rc_splittingBurst s) \<and> (\<forall>i < unat (rm_links m). r ! i = 0 \<longrightarrow> ys ! i = 0)"
proof -
  let ?n = "unat (rm_links m)"
  define dec where "dec = (\<Sum>i<?n. if rv_dec s r i then rv_mj s r i else 0)"
  define inc where "inc = (\<Sum>i<?n. if rv_dec s r i then 0 else r ! i)"
  define v where "v = (\<lambda>i. if rv_dec s r i then rv_mj s r i else rv_mk s r dec inc i)"
  have len: "?n \<le> length r" "?n \<le> length (rc_lastRatio s)" using assms(1,2) by (auto simp: rv_ratios_def)
  have inc: "0 < inc" unfolding inc_def by (rule rv_inc_pos(1) [OF assms(1,2)])
  have dec: "0 \<le> dec" "dec \<le> int (unat (rc_splittingBurst s))"
    unfolding dec_def by (rule rv_dec_sum_le [OF assms])+
  have mj: "0 \<le> rv_mj s r i \<and> rv_mj s r i \<le> 255" if "i < ?n" for i
    using rv_mj_range [OF assms(1) that assms(3)] by simp
  have mk: "0 \<le> rv_mk s r dec inc i \<and> rv_mk s r dec inc i \<le> 255" if "i < ?n" "\<not> rv_dec s r i" for i
    using rv_mk_range [OF assms(1) that dec inc_def inc] by simp
  have v: "0 \<le> v i \<and> v i \<le> 255" if "i < ?n" for i using mj mk that by (simp add: v_def)
  let ?xs = "map (\<lambda>i. of_int (v i)) [0..<?n] :: u8 list"
  have d: "rfoldl (rv_decrease_step s r) ([], 0, 0) [0..<?n]
      = Inr (map (\<lambda>i. if rv_dec s r i then of_int (rv_mj s r i) else 0) [0..<?n], dec, inc)"
    unfolding dec_def inc_def using rv_decrease_eq [OF len] mj by simp
  have i: "rfoldl (rv_increase_step s r dec inc) (map (\<lambda>i. if rv_dec s r i then of_int (rv_mj s r i) else 0) [0..<?n], 0) [0..<?n]
      = Inr (?xs, \<Sum>i<?n. v i)"
    unfolding v_def using mj mk by (intro rv_increase_eq [OF len]) auto
  have tot: "int (rc_total ?xs) = (\<Sum>i<?n. v i)" using v by (rule rc_total_of_int)
  have "\<exists>i<?n. v i \<noteq> 0"
  proof (rule ccontr)
    assume z: "\<not> ?thesis"
    then have "rv_mj s r i = 0" if "i < ?n" "rv_dec s r i" for i using that unfolding v_def by metis
    moreover from this have "dec = 0" unfolding dec_def by (intro sum.neutral) auto
    ultimately show False using rv_burst_nonzero [OF assms inc_def] z unfolding v_def by metis
  qed
  then obtain j where j: "j < ?n" "v j \<noteq> 0" by blast
  then have "0 < v j" using v [of j] by simp
  then have "0 < (\<Sum>i<?n. v i)" using j(1) v by (intro sum_pos2 [of "{..<?n}" j]) auto
  then have sum0: "0 < (\<Sum>i<?n. v i)" "(\<Sum>i<?n. v i) \<noteq> 0" by simp_all
  let ?B = "uint (rc_splittingBurst s)"
  have B: "0 \<le> ?B" "?B \<le> 255" using uint_ge_0 uint_lt2p [of "rc_splittingBurst s"] by simp_all
  obtain ys where ys: "rv_raise ?B (\<Sum>i<?n. v i) ?xs = Inr ys" "length ys = ?n"
      "int (rc_total ys) = max ?B (\<Sum>i<?n. v i)" "\<forall>i<?n. ?xs ! i = 0 \<longrightarrow> ys ! i = 0"
    using rv_raise_ok [OF tot sum0(1) B(2)] by auto
  obtain zs where zs: "rv_lower ?B (max ?B (\<Sum>i<?n. v i)) ys = Inr zs" "length zs = ?n"
      "int (rc_total zs) = ?B" "\<forall>i<?n. ys ! i = 0 \<longrightarrow> zs ! i = 0"
    using rv_lower_ok [OF ys(3) B(1)] ys(2) by auto
  have one: "sum_list (map (\<lambda>i. r ! i) [0..<?n]) = 1"
    using assms(1) by (simp add: rv_ratios_def interv_sum_list_conv_sum_set_nat atLeast0LessThan)
  have "rv_round m s r = Inr zs"
    unfolding rv_round_def Let_def d rbind_simps prod.case
    using inc i sum0 one ys(1) zs(1) by simp
  moreover have "rc_total zs = unat (rc_splittingBurst s)"
    using zs(3) unfolding uint_nat of_nat_eq_iff .
  moreover have "zs ! i = 0" if "i < ?n" "r ! i = 0" for i
  proof -
    have "v i = 0"
    proof (cases "rv_dec s r i")
      case True
      have "cround (rc_roundingScaler s) = 0"
        using cround_bounds [of "rc_roundingScaler s"] cround_nonneg [of "rc_roundingScaler s"] assms(3)
        by (simp add: rv_scaler_ok_def)
      then show ?thesis using True that by (simp add: v_def rv_mj_def)
    next
      case False
      then show ?thesis using that by (simp add: v_def rv_mk_def)
    qed
    then show ?thesis using ys(4) zs(4) that(1) by simp
  qed
  ultimately show ?thesis using zs(2) by blast
qed

text \<open>C21: rv_round, the rounding: for any two vectors of ratios, each not negative and adding up to 1, and
  settings of \<open>rv_scaler_ok\<close> (a rounding scaler above -1/2 and at most 0, with \<open>(n - 1) * (scaler + 1/2)\<close> at
  most 1, which for the default scaler -0.3 means at most six links, and a burst of at least one packet
  per link), the bursts computed for the links add up to exactly the burst, without a conversion leaving
  \<open>uint8_t\<close>, an assertion failing or the error of a sum different from 1, and a link with ratio 0 gets no
  packet. With seven links the rounding can fail, see \<open>rv_seven_links\<close>.\<close>

theorem rv_round_exact:
  assumes "rv_ratios (unat (rm_links m)) r" "rv_ratios (unat (rm_links m)) (rc_lastRatio s)"
    and "rv_scaler_ok (unat (rm_links m)) s"
  shows "\<exists>ys. rv_round m s r = Inr ys \<and> length ys = unat (rm_links m)
    \<and> rc_total ys = unat (rc_splittingBurst s) \<and> (\<forall>i < unat (rm_links m). r ! i = 0 \<longrightarrow> ys ! i = 0)"
  using rv_round_ok [OF assms] .

text \<open>Seven links, six of which lose a little: their rounded numbers already exceed the burst, and the last
  link gets a negative one, which is no \<open>uint8_t\<close>.\<close>

lemma rv_seven_links:
  assumes "rm_links m = 7" "rc_splittingBurst s = 128" "rc_roundingScaler s = - (3 / 10)"
    and "rc_lastRatio s = [2083 / 12800, 2083 / 12800, 2083 / 12800, 2083 / 12800, 2083 / 12800, 2383 / 12800, 2 / 12800]"
  shows "rv_round m s [2082 / 12800, 2082 / 12800, 2082 / 12800, 2082 / 12800, 2082 / 12800, 2382 / 12800, 8 / 12800]
    = Inl (Undefined ''conversion of a double to uint8_t'')"
proof -
  have seven: "[0..<7] = [0, 1, 2, 3, 4, 5, 6 :: nat]" by (simp add: upt_rec)
  have mj: "cround (2082 / 12800 * 128 - 3 / 10) = 21" "cround (2382 / 12800 * 128 - 3 / 10) = 24"
    by (simp_all add: cround_def floor_eq_iff ceiling_eq_iff)
  show ?thesis
    by (simp add: rv_round_def assms seven rv_decrease_step_def rv_increase_step_def mj rv_to_u8_def cround_def)
qed

section \<open>The ratios sum to one\<close>

text \<open>What the algorithm needs of a measurement: its lists fit the links, and no link counts more
  violations than packets.\<close>

definition rv_meas_ok :: "LinkState \<Rightarrow> RxMeasurement \<Rightarrow> bool" where
  "rv_meas_ok ls m \<longleftrightarrow> rc_meas_ok ls m
    \<and> length (rm_delayViolationPktNumList m) = rv_n m \<and> length (rm_totalPktNumList m) = rv_n m
    \<and> 0 < rm_measureIntervalDurationS m \<and> (\<forall>i < rv_n m. rv_viol m i \<le> rv_total m i)"

definition rv_cfg_ok :: "GmaRxControl \<Rightarrow> bool" where
  "rv_cfg_ok s \<longleftrightarrow> 0 \<le> rc_congestionScaler s \<and> rc_congestionScaler s < 1
    \<and> 0 \<le> rc_CONGESTION_SCALER_MAX s \<and> rc_CONGESTION_SCALER_MAX s \<le> 1 \<and> 0 \<le> rc_CONGESTION_SCALER_MIN s
    \<and> 0 < unat (rc_bwHistSize s)"

text \<open>The history after \<open>rv_history\<close>: every link that is up has one, with the bandwidth of this
  interval in it.\<close>

definition rv_fresh :: "LinkState \<Rightarrow> RxMeasurement \<Rightarrow> GmaRxControl \<Rightarrow> bool" where
  "rv_fresh ls m s \<longleftrightarrow> (\<forall>i < rv_n m. rv_up ls m i \<longrightarrow>
    (\<exists>bws kis. sm_find (rm_cidList m ! i) (rc_cidToBwHistMap s) = Some bws
      \<and> sm_find (rm_cidList m ! i) (rc_cidToKiHistMap s) = Some kis
      \<and> length bws = length kis \<and> rv_bw ls m i \<in> set bws))"

lemma rv_sums:
  "real (rv_sumPkt ls m) = (\<Sum>i < rv_n m. if rv_up ls m i then real (rv_total m i) else 0)"
  "real (rv_sumCongested ls m) = (\<Sum>i < rv_n m. if rv_up ls m i then real (rv_viol m i) else 0)"
  "real (rv_sumNoCongestion ls m)
    = (\<Sum>i < rv_n m. if rv_up ls m i \<and> rv_viol m i = 0 then real (rv_total m i) else 0)"
  "real (rv_noneCongested ls m) = (\<Sum>i < rv_n m. if rv_up ls m i \<and> rv_viol m i = 0 then 1 else 0)"
proof -
  have c: "length (filter P [0..<n]) = (\<Sum>i<n. if P i then 1 else 0)" for P n by (induction n) simp_all
  have u: "rm_delayViolationPktNumList m ! i = 0 \<longleftrightarrow> rv_viol m i = 0" for i by (simp add: unat_eq_0)
  show "real (rv_sumPkt ls m) = (\<Sum>i < rv_n m. if rv_up ls m i then real (rv_total m i) else 0)"
    unfolding rv_sumPkt_def sum_list_upt of_nat_sum by (rule sum.cong) auto
  show "real (rv_sumCongested ls m) = (\<Sum>i < rv_n m. if rv_up ls m i then real (rv_viol m i) else 0)"
    unfolding rv_sumCongested_def sum_list_upt of_nat_sum by (rule sum.cong) auto
  show "real (rv_sumNoCongestion ls m)
      = (\<Sum>i < rv_n m. if rv_up ls m i \<and> rv_viol m i = 0 then real (rv_total m i) else 0)"
    unfolding rv_sumNoCongestion_def sum_list_upt of_nat_sum u by (rule sum.cong) auto
  show "real (rv_noneCongested ls m) = (\<Sum>i < rv_n m. if rv_up ls m i \<and> rv_viol m i = 0 then 1 else 0)"
    unfolding rv_noneCongested_def c of_nat_sum u by (rule sum.cong) auto
qed

text \<open>What a case has to deliver: nothing, or ratios that leave the links that are down alone.\<close>

definition rv_good :: "LinkState \<Rightarrow> RxMeasurement \<Rightarrow> real list \<Rightarrow> bool" where
  "rv_good ls m r \<longleftrightarrow> rv_ratios (rv_n m) r \<and> (\<forall>i < rv_n m. \<not> rv_up ls m i \<longrightarrow> r ! i = 0)"

lemma rv_good_map:
  assumes "\<And>i. i < rv_n m \<Longrightarrow> 0 \<le> f i" "\<And>i. i < rv_n m \<Longrightarrow> \<not> rv_up ls m i \<Longrightarrow> f i = 0"
    and "(\<Sum>i < rv_n m. f i) = 1"
  shows "rv_good ls m (map f [0..<rv_n m])"
  using assms by (simp add: rv_good_def rv_ratios_def)

lemma rv_no_traffic_ok:
  assumes "rc_meas_ok ls m" "ls_IsLinkUp (ls_defaultLinkCid ls) ls"
  shows "\<exists>r. rv_ratio_no_traffic ls m = Inr r \<and> rv_good ls m r"
proof -
  obtain j where j: "j < rv_n m" "\<And>i. i < rv_n m \<Longrightarrow> rm_cidList m ! i = ls_defaultLinkCid ls \<longleftrightarrow> i = j"
    using rc_default_index [OF assms(1)] by metis
  let ?f = "\<lambda>i. if rm_cidList m ! i = ls_defaultLinkCid ls then 1 else 0 :: real"
  have "rv_ratio_no_traffic ls m = Inr ([] @ map ?f [0..<rv_n m])"
    unfolding rv_ratio_no_traffic_def by (rule rfoldl_map) (use assms(2) in auto)
  moreover have "(\<Sum>i < rv_n m. ?f i) = (\<Sum>i < rv_n m. if i = j then 1 else 0)"
    by (rule sum.cong) (use j in auto)
  then have "rv_good ls m (map ?f [0..<rv_n m])"
    using j(1) assms(2) by (intro rv_good_map) auto
  ultimately show ?thesis by simp
qed

lemma rv_heavy_ok:
  assumes "rv_meas_ok ls m" "rv_sumPkt ls m \<noteq> 0"
  shows "\<exists>r. rv_ratio_heavy ls m = Inr r \<and> rv_good ls m r"
proof -
  let ?S = "real (rv_sumPkt ls m)"
  let ?f = "\<lambda>i. if rv_up ls m i then real (rv_total m i) / ?S else 0"
  have "rv_ratio_heavy ls m = Inr ([] @ map ?f [0..<rv_n m])"
    unfolding rv_ratio_heavy_def by (rule rfoldl_map) (use assms in \<open>auto simp: rv_meas_ok_def Let_def leD\<close>)
  moreover have "(\<Sum>i < rv_n m. ?f i) = (\<Sum>i < rv_n m. if rv_up ls m i then real (rv_total m i) else 0) / ?S"
    unfolding sum_divide_distrib by (rule sum.cong) auto
  then have "(\<Sum>i < rv_n m. ?f i) = 1" using assms(2) by (simp add: rv_sums(1) [symmetric])
  then have "rv_good ls m (map ?f [0..<rv_n m])" by (intro rv_good_map) (auto simp del: of_nat_unat)
  ultimately show ?thesis by simp
qed

lemma rv_scan_props:
  assumes "rc_meas_ok ls m" "ls_IsLinkUp (ls_defaultLinkCid ls) ls" "rv_scan ls m = (w, nd, x, j)"
  shows "j < rv_n m \<and> rm_cidList m ! j = ls_defaultLinkCid ls"
    "0 < nd \<Longrightarrow> x < rv_n m \<and> rv_up ls m x \<and> rm_cidList m ! x \<noteq> ls_defaultLinkCid ls \<and> nd = rv_total m x"
proof -
  obtain d where d: "d < rv_n m" "rm_cidList m ! d = ls_defaultLinkCid ls"
    "\<And>i. i < rv_n m \<Longrightarrow> rm_cidList m ! i = ls_defaultLinkCid ls \<longleftrightarrow> i = d"
    using rc_default_index [OF assms(1)] by metis
  have "\<exists>w nd x j. foldl (rv_scan_step ls m) (0, 0, 0, 0) [0..<k] = (w, nd, x, j) \<and> (d < k \<longrightarrow> j = d)
      \<and> (0 < nd \<longrightarrow> x < rv_n m \<and> rv_up ls m x \<and> rm_cidList m ! x \<noteq> ls_defaultLinkCid ls \<and> nd = rv_total m x)"
    if "k \<le> rv_n m" for k
    using that
  proof (induction k)
    case (Suc k)
    then obtain w nd x j where IH: "foldl (rv_scan_step ls m) (0, 0, 0, 0) [0..<k] = (w, nd, x, j)"
      "d < k \<longrightarrow> j = d" "0 < nd \<longrightarrow> x < rv_n m \<and> rv_up ls m x \<and> rm_cidList m ! x \<noteq> ls_defaultLinkCid ls \<and> nd = rv_total m x"
      by auto
    have k: "k < rv_n m" using Suc.prems by simp
    show ?case
    proof (cases "k = d")
      case True
      then show ?thesis using IH d(2) assms(2) by (simp add: rv_scan_step_def Let_def)
    next
      case False
      then have "rm_cidList m ! k \<noteq> ls_defaultLinkCid ls" using d(3) [OF k] by simp
      then show ?thesis using IH False k by (auto simp: rv_scan_step_def Let_def less_Suc_eq)
    qed
  qed simp
  from this [of "rv_n m"] assms(3) d(1,2) show "j < rv_n m \<and> rm_cidList m ! j = ls_defaultLinkCid ls"
    "0 < nd \<Longrightarrow> x < rv_n m \<and> rv_up ls m x \<and> rm_cidList m ! x \<noteq> ls_defaultLinkCid ls \<and> nd = rv_total m x"
    by (auto simp: rv_scan_def)
qed

lemma rv_no_congestion_ok:
  assumes "rv_meas_ok ls m" "ls_IsLinkUp (ls_defaultLinkCid ls) ls" "rv_sumPkt ls m \<noteq> 0"
  shows "\<exists>r x. rv_ratio_no_congestion ls m s = Inr (r, s\<lparr>rc_relocateScaler := x\<rparr>) \<and> (r = [] \<or> rv_good ls m r)"
proof -
  have ok: "rc_meas_ok ls m" using assms(1) by (simp add: rv_meas_ok_def)
  obtain w nd x j where sc: "rv_scan ls m = (w, nd, x, j)" by (metis prod_cases4)
  note p = rv_scan_props [OF ok assms(2) sc]
  have uj: "rv_up ls m j" "j < rv_n m" using p(1) assms(2) by simp_all
  obtain d where d: "\<And>i. i < rv_n m \<Longrightarrow> rm_cidList m ! i = ls_defaultLinkCid ls \<longleftrightarrow> i = d"
    using rc_default_index [OF ok] by metis
  have jd: "rm_cidList m ! i = ls_defaultLinkCid ls \<longleftrightarrow> i = j" if "i < rv_n m" for i
    using d [OF that] d [OF uj(2)] p(1) by simp
  show ?thesis
  proof (cases "w = 1")
    case True
    let ?f = "\<lambda>i. if rv_up ls m i \<and> rm_cidList m ! i = ls_defaultLinkCid ls then 1 else 0 :: real"
    have "(\<Sum>i < rv_n m. ?f i) = (\<Sum>i < rv_n m. if i = j then 1 else 0)"
      by (rule sum.cong) (use jd uj in auto)
    then have "rv_good ls m (map ?f [0..<rv_n m])" using uj(2) by (intro rv_good_map) auto
    moreover have "rv_ratio_no_congestion ls m s = Inr (map ?f [0..<rv_n m], s\<lparr>rc_relocateScaler := rc_relocateScaler s\<rparr>)"
      using True by (simp add: rv_ratio_no_congestion_def sc)
    ultimately show ?thesis by blast
  next
    case False
    let ?x = "real_of_int (rc_minSplitAdjustmentStep s) / real (unat (rc_splittingBurst s))"
    let ?s = "s\<lparr>rc_relocateScaler := ?x\<rparr>"
    let ?r = "rv_relocate m ls ?s nd" and ?S = "real (rv_sumPkt ls m)"
    show ?thesis
    proof (cases "?r > 0")
      case r: True
      then have nd: "0 < nd" "?r \<le> nd" by (auto simp: rv_relocate_def)
      note x = p(2) [OF nd(1)]
      let ?f = "\<lambda>i. if rv_up ls m i then (if i = x then real (nd - ?r) / ?S else if i = j then real (rv_total m i + ?r) / ?S
        else real (rv_total m i) / ?S) else 0"
      have "rfoldl (\<lambda>newRatio ind. if rv_up ls m ind then
                (if rv_total m ind < rv_viol m ind \<or> rv_sumPkt ls m = 0
                 then Inl (Fatal ''traffic splitting algorithm condition not meet!'')
                 else Inr (newRatio @ [if ind = x then real (nd - ?r) / ?S
                   else if ind = j then real (rv_total m ind + ?r) / ?S
                   else real (rv_total m ind) / ?S]))
              else Inr (newRatio @ [0])) [] [0..<rv_n m] = Inr ([] @ map ?f [0..<rv_n m])"
        by (rule rfoldl_map) (use assms(1,3) in \<open>auto simp: rv_meas_ok_def leD\<close>)
      then have run: "rv_ratio_no_congestion ls m s = Inr (map ?f [0..<rv_n m], ?s)"
        using False r
        by (simp only: rv_ratio_no_congestion_def sc Let_def prod.case if_False if_True rbind_simps append_Nil)
      have xj: "x \<noteq> j" using x jd [of x] p(1) by auto
      have e: "?f i = (if rv_up ls m i then real (rv_total m i) else 0) / ?S
          + (if i = j then real ?r / ?S else 0) - (if i = x then real ?r / ?S else 0)" if "i < rv_n m" for i
        using x uj xj nd(2) by (auto simp: add_divide_distrib diff_divide_distrib of_nat_diff)
      have "(\<Sum>i < rv_n m. ?f i) = (\<Sum>i < rv_n m. (if rv_up ls m i then real (rv_total m i) else 0) / ?S
          + (if i = j then real ?r / ?S else 0) - (if i = x then real ?r / ?S else 0))"
        by (rule sum.cong) (use e in auto)
      also have "\<dots> = 1"
        unfolding sum.distrib sum_subtractf sum_divide_distrib [symmetric] rv_sums(1) [symmetric]
        using uj(2) x assms(3) by simp
      finally have "rv_good ls m (map ?f [0..<rv_n m])" by (intro rv_good_map) (auto simp del: of_nat_unat)
      then show ?thesis using run by blast
    next
      case z: False
      then have "rv_ratio_no_congestion ls m s = Inr ([], ?s)"
        using False by (simp add: rv_ratio_no_congestion_def sc Let_def)
      then show ?thesis by blast
    qed
  qed
qed

text \<open>Medium congestion.  \<open>rv_M\<close> is the largest bandwidth in the history of a link.\<close>

definition rv_M :: "GmaRxControl \<Rightarrow> RxMeasurement \<Rightarrow> nat \<Rightarrow> real" where
  "rv_M s m i = (case sm_find (rm_cidList m ! i) (rc_cidToBwHistMap s) of None \<Rightarrow> 0 | Some bws \<Rightarrow> Max (set bws))"

lemma rv_fresh_M:
  assumes "rv_fresh ls m s" "i < rv_n m" "rv_up ls m i"
  shows "rv_bw ls m i \<le> rv_M s m i"
  using assms by (fastforce simp: rv_fresh_def rv_M_def)

lemma rv_maxBw_ok:
  assumes "rc_meas_ok ls m" "rv_fresh ls m s"
  shows "\<exists>av maxBws. rfoldl (rv_maxBw_step ls m s) (True, [], 0) [0..<rv_n m]
      = Inr (av, maxBws, \<Sum>i < rv_n m. if rv_up ls m i \<and> rv_viol m i = 0 then rv_M s m i else 0)
    \<and> (\<forall>i < rv_n m. rv_up ls m i \<longrightarrow> sm_find (rm_cidList m ! i) maxBws = Some (rv_M s m i) \<and> (av \<longrightarrow> 1 \<le> rv_M s m i))"
proof -
  have dis: "i < rv_n m \<Longrightarrow> k < rv_n m \<Longrightarrow> rm_cidList m ! i = rm_cidList m ! k \<longleftrightarrow> i = k" for i k
    using assms(1) by (simp add: rc_meas_ok_def Let_def nth_eq_iff_index_eq)
  have "\<exists>av maxBws. rfoldl (rv_maxBw_step ls m s) (True, [], 0) [0..<k]
      = Inr (av, maxBws, \<Sum>i<k. if rv_up ls m i \<and> rv_viol m i = 0 then rv_M s m i else 0)
    \<and> (\<forall>i<k. rv_up ls m i \<longrightarrow> sm_find (rm_cidList m ! i) maxBws = Some (rv_M s m i) \<and> (av \<longrightarrow> 1 \<le> rv_M s m i))"
    if "k \<le> rv_n m" for k
    using that
  proof (induction k)
    case (Suc k)
    then obtain av maxBws where IH: "rfoldl (rv_maxBw_step ls m s) (True, [], 0) [0..<k]
        = Inr (av, maxBws, \<Sum>i<k. if rv_up ls m i \<and> rv_viol m i = 0 then rv_M s m i else 0)"
      "\<forall>i<k. rv_up ls m i \<longrightarrow> sm_find (rm_cidList m ! i) maxBws = Some (rv_M s m i) \<and> (av \<longrightarrow> 1 \<le> rv_M s m i)"
      by auto
    have k: "k < rv_n m" using Suc.prems by simp
    show ?case
    proof (cases "rv_up ls m k")
      case False
      then show ?thesis using IH by (auto simp: rfoldl_append rv_maxBw_step_def less_Suc_eq)
    next
      case True
      then obtain bws kis where h: "sm_find (rm_cidList m ! k) (rc_cidToBwHistMap s) = Some bws"
        "sm_find (rm_cidList m ! k) (rc_cidToKiHistMap s) = Some kis" "length bws = length kis" "bws \<noteq> []" "kis \<noteq> []"
        using assms(2) k by (fastforce simp: rv_fresh_def)
      have M: "rv_M s m k = Max (set bws)" by (simp add: rv_M_def h(1))
      have z: "rm_delayViolationPktNumList m ! k = 0 \<longleftrightarrow> rv_viol m k = 0" by (simp add: unat_eq_0)
      have step: "rv_maxBw_step ls m s (av, maxBws, b) k = Inr (if Max (set kis) = 0 \<or> rv_M s m k < 1 then False else av,
          sm_set (rm_cidList m ! k) (rv_M s m k) maxBws, if rv_viol m k = 0 then b + rv_M s m k else b)" for b
        using True h unfolding rv_maxBw_step_def prod.case Let_def z M by simp
      have "rm_cidList m ! i \<noteq> rm_cidList m ! k" if "i < k" for i using dis [of i k] that k by auto
      then show ?thesis using IH(2) True
        by (intro exI [of _ "if Max (set kis) = 0 \<or> rv_M s m k < 1 then False else av"]
            exI [of _ "sm_set (rm_cidList m ! k) (rv_M s m k) maxBws"])
          (auto simp: rfoldl_append IH(1) step less_Suc_eq sm_find_set)
    qed
  qed auto
  from this [of "rv_n m"] show ?thesis by simp
qed

lemma rv_scaler_ok':
  assumes "rv_cfg_ok s" "rv_meas_ok ls m" "rv_fresh ls m s" "rv_sumCongested ls m \<noteq> 0"
  shows "\<exists>a. rv_scaler ls m s av (\<Sum>i < rv_n m. if rv_up ls m i \<and> rv_viol m i = 0 then rv_M s m i else 0) = Inr a
    \<and> 0 \<le> a \<and> a \<le> 1"
proof (cases "rc_adaptiveCongestionScaler s \<and> av")
  case True
  let ?sum = "\<Sum>i < rv_n m. if rv_up ls m i \<and> rv_viol m i = 0 then rv_M s m i else 0"
  let ?D = "rm_measureIntervalDurationS m"
  let ?a = "(?sum * ?D - real (rv_sumNoCongestion ls m)) / real (rv_sumCongested ls m)"
  have D: "0 < ?D" using assms(2) by (simp add: rv_meas_ok_def)
  have "real (rv_sumNoCongestion ls m) \<le> (\<Sum>i < rv_n m. (if rv_up ls m i \<and> rv_viol m i = 0 then rv_M s m i else 0) * ?D)"
    unfolding rv_sums(3)
  proof (rule sum_mono)
    fix i assume i: "i \<in> {..<rv_n m}"
    show "(if rv_up ls m i \<and> rv_viol m i = 0 then real (rv_total m i) else 0)
      \<le> (if rv_up ls m i \<and> rv_viol m i = 0 then rv_M s m i else 0) * ?D"
    proof (cases "rv_up ls m i \<and> rv_viol m i = 0")
      case True
      then have "real (rv_total m i) / ?D \<le> rv_M s m i"
        using rv_fresh_M [OF assms(3), of i] i by (simp add: rv_bw_def del: of_nat_unat)
      then show ?thesis using True D by (simp add: pos_divide_le_eq del: of_nat_unat)
    next
      case False
      then show ?thesis by (simp only: if_False mult_zero_left order_refl)
    qed
  qed
  then have "0 \<le> ?a" using assms(4) by (simp add: sum_distrib_right)
  then have "rv_scaler ls m s av ?sum = Inr (min (rc_CONGESTION_SCALER_MAX s) (max (rc_CONGESTION_SCALER_MIN s) ?a))"
    using True by (simp add: rv_scaler_def Let_def)
  then show ?thesis using assms(1) by (auto simp: rv_cfg_ok_def min_def max_def)
next
  case False
  have "rv_scaler ls m s av x = Inr (rc_congestionScaler s)" for x
    by (simp only: rv_scaler_def False if_False)
  then show ?thesis using assms(1) by (simp add: rv_cfg_ok_def)
qed

lemma rv_medium_ok:
  assumes "rv_cfg_ok s" "rv_meas_ok ls m" "rv_fresh ls m s" "rv_sumPkt ls m \<noteq> 0" "rv_sumCongested ls m \<noteq> 0"
    and "0 < rv_noneCongested ls m"
  shows "\<exists>r. rv_ratio_medium ls m s = Inr r \<and> rv_good ls m r"
proof -
  let ?n = "rv_n m" and ?S = "real (rv_sumPkt ls m)" and ?K = "real (rv_sumCongested ls m)"
    and ?N = "real (rv_sumNoCongestion ls m)" and ?L = "real (rv_noneCongested ls m)"
  let ?none = "\<lambda>i. rv_up ls m i \<and> rv_viol m i = 0"
  let ?B = "\<Sum>i<?n. if ?none i then rv_M s m i else 0"
  have ok: "rc_meas_ok ls m" using assms(2) by (simp add: rv_meas_ok_def)
  obtain av maxBws where bw: "rfoldl (rv_maxBw_step ls m s) (True, [], 0) [0..<?n] = Inr (av, maxBws, ?B)"
    "\<And>i. i < ?n \<Longrightarrow> rv_up ls m i \<Longrightarrow> sm_find (rm_cidList m ! i) maxBws = Some (rv_M s m i)"
    "\<And>i. i < ?n \<Longrightarrow> rv_up ls m i \<Longrightarrow> av \<Longrightarrow> 1 \<le> rv_M s m i"
    using rv_maxBw_ok [OF ok assms(3)] by blast
  obtain a where a: "rv_scaler ls m s av ?B = Inr a" "0 \<le> a" "a \<le> 1"
    using rv_scaler_ok' [OF assms(1-3,5)] by blast
  let ?opt = "rc_enableBwEstimate s \<and> av"
  have B1: "1 \<le> ?B" if av
  proof -
    have "1 \<le> ?L" using assms(6) by simp
    also have "?L = (\<Sum>i<?n. if ?none i then 1 else 0)" by (rule rv_sums(4))
    also have "\<dots> \<le> ?B" using bw(3) that by (intro sum_mono) auto
    finally show ?thesis .
  qed
  have pos: "0 < ?S" "0 < ?L" "0 \<le> ?N" "0 \<le> ?K" using assms(4,6) by simp_all
  let ?w = "\<lambda>i. if ?opt then (?N + ?K * a) * rv_M s m i / (?B * ?S) else (real (rv_total m i) + ?K * a / ?L) / ?S"
  let ?f = "\<lambda>i. if rv_up ls m i then (if rv_viol m i > 0 then (real (rv_total m i) - real (rv_viol m i) * a) / ?S else ?w i) else 0"
  have "rfoldl (rv_medium_step ls m s (av, maxBws, ?B)) [] [0..<?n] = Inr ([] @ map ?f [0..<?n])"
  proof (rule rfoldl_map)
    fix i l assume "i \<in> set [0..<?n]"
    then have i: "i < ?n" "\<not> rv_total m i < rv_viol m i" using assms(2) by (auto simp: rv_meas_ok_def leD)
    show "rv_medium_step ls m s (av, maxBws, ?B) l i = Inr (l @ [?f i])"
    proof (cases "rv_up ls m i")
      case True
      have "0 < ?B" if av using B1 that by linarith
      then show ?thesis
        using True i assms(4) a(1) bw(2) [OF i(1) True]
        unfolding rv_medium_step_def prod.case Let_def by (simp del: of_nat_unat)
    qed (simp add: rv_medium_step_def)
  qed
  then have run: "rv_ratio_medium ls m s = Inr (map ?f [0..<?n])"
    by (simp only: rv_ratio_medium_def bw(1) rbind_simps append_Nil)
  have f0: "0 \<le> ?f i" if "i < ?n" for i
  proof -
    have "real (rv_viol m i) * a \<le> real (rv_viol m i) * 1" using a(3) by (intro mult_left_mono) (auto simp del: of_nat_unat)
    also have "\<dots> \<le> real (rv_total m i)" using assms(2) that by (simp add: rv_meas_ok_def del: of_nat_unat)
    finally have "0 \<le> (real (rv_total m i) - real (rv_viol m i) * a) / ?S" using pos(1) by simp
    moreover have "0 \<le> ?w i" if "rv_up ls m i"
    proof (cases ?opt)
      case True
      then have "0 \<le> rv_M s m i" "0 < ?B" using bw(3) [OF \<open>i < ?n\<close> that] B1 by linarith+
      then show ?thesis using True pos a(2) by (simp del: of_nat_unat)
    next
      case False
      show ?thesis unfolding if_not_P [OF False] using pos a(2) by (simp del: of_nat_unat)
    qed
    ultimately show ?thesis by simp
  qed
  have "(\<Sum>i<?n. ?f i) = (\<Sum>i<?n. ((if rv_up ls m i then real (rv_total m i) else 0)
      - (if ?none i then real (rv_total m i) else 0) - (if rv_up ls m i then real (rv_viol m i) else 0) * a) / ?S
      + (if ?none i then ?w i else 0))"
    by (rule sum.cong) (auto simp del: of_nat_unat)
  also have "\<dots> = (?S - ?N - ?K * a) / ?S + (\<Sum>i<?n. if ?none i then ?w i else 0)"
    unfolding sum.distrib sum_subtractf sum_divide_distrib [symmetric] sum_distrib_right [symmetric] rv_sums(1-3) ..
  also have "(\<Sum>i<?n. if ?none i then ?w i else 0) = (?N + ?K * a) / ?S"
  proof (cases ?opt)
    case True
    then have "(\<Sum>i<?n. if ?none i then ?w i else 0) = (\<Sum>i<?n. (?N + ?K * a) / (?B * ?S) * (if ?none i then rv_M s m i else 0))"
      by (intro sum.cong) auto
    also have "\<dots> = (?N + ?K * a) / (?B * ?S) * ?B" by (rule sum_distrib_left [symmetric])
    finally show ?thesis using True B1 by simp
  next
    case False
    have "(\<Sum>i<?n. if ?none i then ?w i else 0) = (\<Sum>i<?n. ((if ?none i then real (rv_total m i) else 0)
        + (if ?none i then 1 else 0) * (?K * a / ?L)) / ?S)"
      unfolding if_not_P [OF False] by (intro sum.cong) (auto simp del: of_nat_unat)
    also have "\<dots> = (?N + ?L * (?K * a / ?L)) / ?S"
      unfolding sum_divide_distrib [symmetric] sum.distrib sum_distrib_right [symmetric] rv_sums(3,4) ..
    finally show ?thesis using pos(2) by simp
  qed
  also have "(?S - ?N - ?K * a) / ?S + (?N + ?K * a) / ?S = 1" using pos(1) by (simp add: add_divide_distrib [symmetric])
  finally have "rv_good ls m (map ?f [0..<?n])" using f0 by (intro rv_good_map) auto
  then show ?thesis using run by blast
qed

lemma rv_ratio_ok:
  assumes "rv_cfg_ok s" "rv_meas_ok ls m" "rv_fresh ls m s" "ls_IsLinkUp (ls_defaultLinkCid ls) ls"
  shows "\<exists>r x. rv_ratio ls m s = Inr (r, s\<lparr>rc_relocateScaler := x\<rparr>) 
    \<and> (rv_good ls m r \<or> r = [] \<and> 0 < rv_sumPkt ls m \<and> rv_sumCongested ls m = 0)"
proof -
  have ok: "rc_meas_ok ls m" using assms(2) by (simp add: rv_meas_ok_def)
  have keep: ?thesis if "rv_ratio ls m s = Inr (r, s)" "rv_good ls m r" for r
    using that by (intro exI [of _ r] exI [of _ "rc_relocateScaler s"]) simp
  show ?thesis
  proof (cases "rv_sumPkt ls m = 0")
    case True
    obtain r where "rv_ratio_no_traffic ls m = Inr r" "rv_good ls m r" using rv_no_traffic_ok [OF ok assms(4)] by blast
    then show ?thesis using True by (intro keep [of r]) (simp_all add: rv_ratio_def)
  next
    case p: False
    consider "rv_sumCongested ls m = 0" | "rv_sumCongested ls m \<noteq> 0" "0 < rv_noneCongested ls m"
      | "rv_sumCongested ls m \<noteq> 0" "rv_noneCongested ls m = 0" by blast
    then show ?thesis
    proof cases
      case 1
      then show ?thesis using rv_no_congestion_ok [OF assms(2,4) p, of s] p by (auto simp: rv_ratio_def)
    next
      case 2
      obtain r where "rv_ratio_medium ls m s = Inr r" "rv_good ls m r" using rv_medium_ok [OF assms(1-3) p 2] by blast
      then show ?thesis using 2 p by (intro keep [of r]) (simp_all add: rv_ratio_def)
    next
      case 3
      obtain r where "rv_ratio_heavy ls m = Inr r" "rv_good ls m r" using rv_heavy_ok [OF assms(2) p] by blast
      then show ?thesis using 3 p by (intro keep [of r]) (simp_all add: rv_ratio_def)
    qed
  qed
qed

section \<open>The history keeps its shape\<close>

definition rv_hist_ok :: "(u8, real list) smap \<Rightarrow> (u8, u32 list) smap \<Rightarrow> bool" where
  "rv_hist_ok bws kis \<longleftrightarrow> list_all2 (\<lambda>p q. fst p = fst q \<and> length (snd p) = length (snd q)) bws kis"

lemma rv_hist_find:
  assumes "rv_hist_ok bws kis"
  shows "case sm_find c bws of None \<Rightarrow> sm_find c kis = None
    | Some v \<Rightarrow> (\<exists>w. sm_find c kis = Some w \<and> length v = length w)"
  using assms unfolding rv_hist_ok_def
  by (induction rule: list_all2_induct) (auto simp: sm_find_def split: option.splits)

lemma rv_hist_set:
  assumes "rv_hist_ok bws kis" "length v = length w"
  shows "rv_hist_ok (sm_set c v bws) (sm_set c w kis)"
  using assms(1) unfolding rv_hist_ok_def
proof (induction rule: list_all2_induct)
  case (Cons p ps q qs)
  then show ?case using assms(2) by (cases p; cases q) auto
qed (use assms(2) in simp)

lemma rv_trim_vec_ok:
  assumes "length bw = length ki"
  shows "\<exists>ki'. rv_trim_vec n bw ki = Inr (drop (length bw - unat n) bw, ki') \<and> length ki' = length bw - (length bw - unat n)"
  using assms
proof (induction n bw ki rule: rv_trim_vec.induct)
  case (2 n b bws kis)
  show ?case
  proof (cases "length (b # bws) > unat n")
    case True
    obtain k ks where k: "kis = k # ks" "length bws = length ks" using "2.prems" by (cases kis) auto
    then have "length (b # bws) - unat n = Suc (length bws - unat n)" using True by auto
    then show ?thesis using "2.IH" [OF True k] True k by auto
  next
    case False
    then show ?thesis using "2.prems" by simp
  qed
qed simp

lemma rv_trim_ok:
  assumes "rv_hist_ok bws kis"
  shows "\<exists>bws' kis'. rv_trim n bws kis = Inr (bws', kis') \<and> rv_hist_ok bws' kis'
    \<and> (\<forall>c. sm_find c bws' = map_option (\<lambda>b. drop (length b - unat n) b) (sm_find c bws))"
  using assms unfolding rv_hist_ok_def
proof (induction rule: list_all2_induct)
  case Nil
  then show ?case by (simp add: sm_find_def)
next
  case (Cons p ps q qs)
  obtain c b k where p: "p = (c, b)" "q = (c, k)" "length b = length k" using Cons(1) by (cases p; cases q) auto
  obtain k' where "rv_trim_vec n b k = Inr (drop (length b - unat n) b, k')" "length k' = length b - (length b - unat n)"
    using rv_trim_vec_ok [OF p(3)] by blast
  then show ?case using Cons(3) p by (auto simp: sm_find_def)
qed

lemma rv_history_loop:
  assumes "rc_meas_ok ls m" "rv_hist_ok bws0 kis0"
  shows "\<exists>bws kis. rfoldl (rv_history_step ls m) (bws0, kis0) [0..<rv_n m] = Inr (bws, kis) \<and> rv_hist_ok bws kis
    \<and> (\<forall>i < rv_n m. \<exists>v. sm_find (rm_cidList m ! i) bws = Some v \<and> v \<noteq> [] \<and> last v = rv_bw ls m i)"
proof -
  have dis: "i < rv_n m \<Longrightarrow> k < rv_n m \<Longrightarrow> rm_cidList m ! i = rm_cidList m ! k \<longleftrightarrow> i = k" for i k
    using assms(1) by (simp add: rc_meas_ok_def Let_def nth_eq_iff_index_eq)
  have "\<exists>bws kis. rfoldl (rv_history_step ls m) (bws0, kis0) [0..<k] = Inr (bws, kis) \<and> rv_hist_ok bws kis
    \<and> (\<forall>i<k. \<exists>v. sm_find (rm_cidList m ! i) bws = Some v \<and> v \<noteq> [] \<and> last v = rv_bw ls m i)" if "k \<le> rv_n m" for k
    using that
  proof (induction k)
    case (Suc k)
    then obtain bws kis where IH: "rfoldl (rv_history_step ls m) (bws0, kis0) [0..<k] = Inr (bws, kis)" "rv_hist_ok bws kis"
      "\<forall>i<k. \<exists>v. sm_find (rm_cidList m ! i) bws = Some v \<and> v \<noteq> [] \<and> last v = rv_bw ls m i" by auto
    have k: "k < rv_n m" using Suc.prems by simp
    let ?c = "rm_cidList m ! k"
    have "\<exists>v w. rv_history_step ls m (bws, kis) k = Inr (sm_set ?c v bws, sm_set ?c w kis) \<and> length v = length w
      \<and> v \<noteq> [] \<and> last v = rv_bw ls m k"
    proof (cases "sm_find ?c bws")
      case None
      then show ?thesis
        by (intro exI [of _ "[rv_bw ls m k]"] exI [of _ "[rm_delayViolationPktNumList m ! k]"])
          (simp add: rv_history_step_def Let_def)
    next
      case (Some v)
      then obtain w where w: "sm_find ?c kis = Some w" "length v = length w" using rv_hist_find [OF IH(2), of ?c] by auto
      show ?thesis
        by (intro exI [of _ "v @ [rv_bw ls m k]"] exI [of _ "w @ [rm_delayViolationPktNumList m ! k]"])
          (simp add: rv_history_step_def Let_def Some w)
    qed
    then obtain v w where step: "rv_history_step ls m (bws, kis) k = Inr (sm_set ?c v bws, sm_set ?c w kis)"
      "length v = length w" "v \<noteq> []" "last v = rv_bw ls m k" by blast
    have "\<exists>v'. sm_find (rm_cidList m ! i) (sm_set ?c v bws) = Some v' \<and> v' \<noteq> [] \<and> last v' = rv_bw ls m i" if "i < Suc k" for i
      using IH(3) step(3,4) that dis [of i k] k by (auto simp: sm_find_set less_Suc_eq)
    then show ?case using IH(1) step(1) rv_hist_set [OF IH(2) step(2), of ?c]
      by (intro exI [of _ "sm_set ?c v bws"] exI [of _ "sm_set ?c w kis"]) (simp add: rfoldl_append)
  qed (use assms(2) in simp)
  from this [of "rv_n m"] show ?thesis by simp
qed

lemma rv_history_ok:
  assumes "rc_meas_ok ls m" "rv_hist_ok (rc_cidToBwHistMap s) (rc_cidToKiHistMap s)" "0 < unat (rc_bwHistSize s)"
    and "length (rc_lastSplittingIndexList s) = rv_n m"
  shows "\<exists>a bws kis. rv_history ls m s = Inr (s\<lparr>rc_flowActive := a, rc_cidToBwHistMap := bws, rc_cidToKiHistMap := kis\<rparr>)
    \<and> rv_hist_ok bws kis \<and> rv_fresh ls m (s\<lparr>rc_flowActive := a, rc_cidToBwHistMap := bws, rc_cidToKiHistMap := kis\<rparr>)"
proof -
  have "\<exists>a. rfoldl (rv_flow_step ls m (rc_lastSplittingIndexList s)) (rc_flowActive s) [0..<rv_n m] = Inr a \<and> True"
    by (rule rfoldl_total) (use assms(4) in \<open>auto simp: rv_flow_step_def\<close>)
  then obtain a where a: "rfoldl (rv_flow_step ls m (rc_lastSplittingIndexList s)) (rc_flowActive s) [0..<rv_n m] = Inr a"
    by blast
  obtain b1 k1 where l: "rfoldl (rv_history_step ls m) (rc_cidToBwHistMap s, rc_cidToKiHistMap s) [0..<rv_n m] = Inr (b1, k1)"
    "rv_hist_ok b1 k1" "\<forall>i < rv_n m. \<exists>v. sm_find (rm_cidList m ! i) b1 = Some v \<and> v \<noteq> [] \<and> last v = rv_bw ls m i"
    using rv_history_loop [OF assms(1,2)] by blast
  obtain b2 k2 where t: "rv_trim (rc_bwHistSize s) b1 k1 = Inr (b2, k2)" "rv_hist_ok b2 k2"
    "\<And>c. sm_find c b2 = map_option (\<lambda>b. drop (length b - unat (rc_bwHistSize s)) b) (sm_find c b1)"
    using rv_trim_ok [OF l(2)] by blast
  let ?s = "s\<lparr>rc_flowActive := a, rc_cidToBwHistMap := b2, rc_cidToKiHistMap := k2\<rparr>"
  have "rv_fresh ls m ?s" unfolding rv_fresh_def
  proof (intro allI impI)
    fix i assume i: "i < rv_n m" "rv_up ls m i"
    then obtain v where v: "sm_find (rm_cidList m ! i) b1 = Some v" "v \<noteq> []" "last v = rv_bw ls m i" using l(3) by blast
    let ?v = "drop (length v - unat (rc_bwHistSize s)) v"
    have lt: "length v - unat (rc_bwHistSize s) < length v" using v(2) assms(3) by (simp add: Suc_leI)
    have f: "sm_find (rm_cidList m ! i) b2 = Some ?v" by (simp add: t(3) v(1))
    obtain w where "sm_find (rm_cidList m ! i) k2 = Some w" "length ?v = length w"
      using rv_hist_find [OF t(2), of "rm_cidList m ! i"] f by auto
    moreover have "rv_bw ls m i \<in> set ?v" using lt v(3) last_drop [OF lt] by (metis drop_eq_Nil last_in_set leD)
    ultimately show "\<exists>bws kis. sm_find (rm_cidList m ! i) (rc_cidToBwHistMap ?s) = Some bws
      \<and> sm_find (rm_cidList m ! i) (rc_cidToKiHistMap ?s) = Some kis \<and> length bws = length kis \<and> rv_bw ls m i \<in> set bws"
      using f by simp
  qed
  moreover have "rv_history ls m s = Inr ?s" using a l(1) t(1) by (simp add: rv_history_def)
  ultimately show ?thesis using t(2) by blast
qed

section \<open>The whole algorithm\<close>

definition rv_inv :: "nat \<Rightarrow> GmaRxControl \<Rightarrow> bool" where
  "rv_inv n s \<longleftrightarrow>
    (rc_lastSplittingIndexList s = []
      \<or> length (rc_lastSplittingIndexList s) = n \<and> rc_total (rc_lastSplittingIndexList s) = unat (rc_splittingBurst s))
    \<and> (rc_lastRatio s = [] \<or> rv_ratios n (rc_lastRatio s))
    \<and> rv_hist_ok (rc_cidToBwHistMap s) (rc_cidToKiHistMap s)
    \<and> rv_cfg_ok s \<and> rv_scaler_ok n s \<and> \<not> rc_adaptiveSplittingBurst s \<and> 0 < rc_splittingBurstScalar s"

text \<open>After the first stage both vectors are there.\<close>

definition rv_set :: "nat \<Rightarrow> GmaRxControl \<Rightarrow> bool" where
  "rv_set n s \<longleftrightarrow> rv_inv n s \<and> rc_lastSplittingIndexList s \<noteq> [] \<and> rc_lastRatio s \<noteq> []"

lemma rc_total_sum: "real (rc_total xs) = (\<Sum>i < length xs. real (unat (xs ! i)))"
  unfolding rc_total_def by (subst sum_list_sum_nth) (simp add: atLeast0LessThan del: of_nat_unat)

lemma rv_init_ok:
  assumes "rc_meas_ok ls m" "rv_inv (rv_n m) s"
  shows "\<exists>x r. rv_init ls m s = Inr (s\<lparr>rc_lastSplittingIndexList := x, rc_lastRatio := r\<rparr>)
    \<and> rv_set (rv_n m) (s\<lparr>rc_lastSplittingIndexList := x, rc_lastRatio := r\<rparr>)
    \<and> x = (if rc_lastSplittingIndexList s = [] then rc_initial_split (rc_splittingBurst s) m (ls_defaultLinkCid ls)
           else rc_lastSplittingIndexList s)"
proof -
  let ?n = "rv_n m" and ?B = "unat (rc_splittingBurst s)"
  obtain j where j: "j < ?n" "\<And>i. i < ?n \<Longrightarrow> rm_cidList m ! i = ls_defaultLinkCid ls \<longleftrightarrow> i = j"
    using rc_default_index [OF assms(1)] by metis
  define x where "x = (if rc_lastSplittingIndexList s = [] then rc_initial_split (rc_splittingBurst s) m (ls_defaultLinkCid ls)
    else rc_lastSplittingIndexList s)"
  have B: "0 < ?B" using assms(2) j(1) by (auto simp: rv_inv_def rv_scaler_ok_def)
  have "rc_total (rc_initial_split (rc_splittingBurst s) m (ls_defaultLinkCid ls)) = ?B"
    unfolding rc_initial_split_def by (rule rc_total_onehot [OF j])
  then have x: "length x = ?n" "rc_total x = ?B" using assms(2) by (auto simp: x_def rv_inv_def rc_initial_split_def)
  let ?q = "map (\<lambda>i. real (unat (x ! i)) / real ?B) [0..<?n]"
  define r where "r = (if rc_lastRatio s = [] then ?q else rc_lastRatio s)"
  have "rfoldl (\<lambda>r ind. rbind (vec_at x ind) (\<lambda>k. Inr (r @ [real (unat k) / real ?B]))) [] [0..<?n] = Inr ([] @ ?q)"
    by (rule rfoldl_map) (use x(1) in auto)
  then have run: "rv_init ls m s = Inr (s\<lparr>rc_lastSplittingIndexList := x, rc_lastRatio := r\<rparr>)"
    by (cases "rc_lastRatio s = []"; cases "rc_lastSplittingIndexList s = []")
      (simp_all add: rv_init_def Let_def x_def [symmetric] r_def, simp_all add: x_def)
  have "(\<Sum>i<?n. real (unat (x ! i)) / real ?B) = 1"
    unfolding sum_divide_distrib [symmetric] using rc_total_sum [of x] x B by (simp del: of_nat_unat)
  then have "rv_ratios ?n ?q" by (simp add: rv_ratios_def del: of_nat_unat)
  then have r: "rv_ratios ?n r" using assms(2) by (auto simp: r_def rv_inv_def)
  then have "r \<noteq> []" "x \<noteq> []" using j(1) x(1) by (auto simp: rv_ratios_def)
  then show ?thesis using run assms(2) x r
    by (intro exI [of _ x] exI [of _ r]) (auto simp: rv_set_def rv_inv_def rv_cfg_ok_def rv_scaler_ok_def x_def)
qed

lemma rv_inv_updates:
  "rv_set n (s\<lparr>rc_flowActive := a\<rparr>) = rv_set n s" "rv_set n (s\<lparr>rc_relocateScaler := y\<rparr>) = rv_set n s"
  "rv_set n s \<Longrightarrow> rv_hist_ok bws kis \<Longrightarrow>
    rv_set n (s\<lparr>rc_flowActive := a, rc_cidToBwHistMap := bws, rc_cidToKiHistMap := kis\<rparr>)"
  by (auto simp: rv_set_def rv_inv_def rv_cfg_ok_def rv_scaler_ok_def)

text \<open>What the failure stage leaves alone, when the default link does not move on failures.\<close>

definition rv_keeps :: "LinkState \<Rightarrow> LinkState \<Rightarrow> bool" where
  "rv_keeps ls ls' \<longleftrightarrow> ls_defaultLinkCid ls' = ls_defaultLinkCid ls \<and> ls_cidToIndexMap ls' = ls_cidToIndexMap ls
    \<and> ls_fixDefaultLink ls' = ls_fixDefaultLink ls \<and> ls_preferLargeCidValue ls' = ls_preferLargeCidValue ls"

definition rv_stuck :: "LinkState \<Rightarrow> bool" where
  "rv_stuck ls \<longleftrightarrow> ls_fixDefaultLink ls \<or> ls_preferLargeCidValue ls"

lemma rv_NoDataDown_keeps:
  assumes "rv_stuck ls"
  shows "rv_keeps ls (ls_NoDataDown c ls)" "d \<noteq> c \<Longrightarrow> ls_IsLinkUp d (ls_NoDataDown c ls) = ls_IsLinkUp d ls"
    "\<not> ls_IsLinkUp c (ls_NoDataDown c ls)"
proof -
  have "ls_SetLinkDown c s = (\<not> ls_fixDefaultLink s, s)" if "rv_stuck s" for s
    using that ls_defaults_SetLinkDown_large [of s c] by (auto simp: rv_stuck_def ls_SetLinkDown_def)
  then have "snd (ls_CtrlMsgDown c ls) = ls \<or> (\<exists>k. snd (ls_CtrlMsgDown c ls) = ls\<lparr>ls_ctrFailedLinkMap := k\<rparr>)"
    using assms by (auto simp: ls_CtrlMsgDown_def rv_stuck_def)
  then show "rv_keeps ls (ls_NoDataDown c ls)" by (auto simp: rv_keeps_def ls_NoDataDown_def)
  show "d \<noteq> c \<Longrightarrow> ls_IsLinkUp d (ls_NoDataDown c ls) = ls_IsLinkUp d ls"
    unfolding ls_NoDataDown_def by (rule ctrl.down_other)
  show "\<not> ls_IsLinkUp c (ls_NoDataDown c ls)"
    unfolding ls_NoDataDown_def ls_IsLinkUp_iff by (auto simp: ctrl.marked_down)
qed

lemma rv_keeps_trans:
  "rv_keeps a b \<Longrightarrow> rv_keeps b c \<Longrightarrow> rv_keeps a c" "rv_keeps a a" "rv_keeps a b \<Longrightarrow> rv_stuck b = rv_stuck a"
  "rv_keeps a b \<Longrightarrow> rc_meas_ok b m = rc_meas_ok a m" "rv_keeps a b \<Longrightarrow> rv_meas_ok b m = rv_meas_ok a m"
  by (auto simp: rv_keeps_def rv_stuck_def rc_meas_ok_def rv_meas_ok_def Let_def)

text \<open>The condition under which the default link survives: it is up and not silent.\<close>

definition rv_default_heard :: "LinkState \<Rightarrow> RxMeasurement \<Rightarrow> u8 list \<Rightarrow> bool" where
  "rv_default_heard ls m split \<longleftrightarrow> ls_IsLinkUp (ls_defaultLinkCid ls) ls
    \<and> (\<forall>i < rv_n m. rm_cidList m ! i = ls_defaultLinkCid ls \<longrightarrow> rm_totalPktNumList m ! i \<noteq> 0 \<or> split ! i = 0)"

lemma rv_down_other:
  assumes "rv_default_heard ls m split" "rv_keeps ls ls1" "ls_IsLinkUp (ls_defaultLinkCid ls) ls1" "i < rv_n m"
    "split ! i > 0" "rm_totalPktNumList m ! i = 0" "rv_stuck ls"
  shows "rv_keeps ls (ls_NoDataDown (rm_cidList m ! i) ls1)"
    "ls_IsLinkUp (ls_defaultLinkCid ls) (ls_NoDataDown (rm_cidList m ! i) ls1)"
proof -
  have s1: "rv_stuck ls1" using rv_keeps_trans(3) [OF assms(2)] assms(7) by simp
  show "rv_keeps ls (ls_NoDataDown (rm_cidList m ! i) ls1)"
    using rv_keeps_trans(1) [OF assms(2) rv_NoDataDown_keeps(1) [OF s1]] .
  have "rm_cidList m ! i \<noteq> ls_defaultLinkCid ls" using assms(1,4-6) by (auto simp: rv_default_heard_def)
  then show "ls_IsLinkUp (ls_defaultLinkCid ls) (ls_NoDataDown (rm_cidList m ! i) ls1)"
    using rv_NoDataDown_keeps(2) [OF s1, of "ls_defaultLinkCid ls"] assms(3) by auto
qed

lemma rv_activeLink_ok:
  assumes "length (rc_lastSplittingIndexList s) = rv_n m" "rc_total (rc_lastSplittingIndexList s) \<noteq> 0"
  shows "\<exists>a. rv_activeLink m s = Inr a \<and> a \<noteq> 0"
proof -
  let ?x = "rc_lastSplittingIndexList s"
  obtain k where k: "k < rv_n m" "?x ! k \<noteq> 0" using rc_total_active [OF assms(2)] assms(1) by metis
  have "\<exists>a. rfoldl (\<lambda>a ind. rbind (vec_at ?x ind) (\<lambda>k. Inr (if k > 0 then a + 1 else a))) (0 :: nat) [0..<l] = Inr a \<and> (k < l \<longrightarrow> a \<noteq> 0)"
    if "l \<le> rv_n m" for l :: nat
    using that k(2) assms(1)
  proof (induction l)
    case (Suc l)
    then show ?case by (cases "k = l") (auto simp: rfoldl_append word_gt_0)
  qed simp
  from this [of "rv_n m"] k(1) show ?thesis by (auto simp: rv_activeLink_def)
qed

lemma rv_failures_ok:
  assumes "rv_set (rv_n m) s" "rc_meas_ok ls m" "rv_stuck ls" "rv_default_heard ls m (rc_lastSplittingIndexList s)"
  shows "\<exists>u a ls'. rv_failures m s ls = Inr (u, s\<lparr>rc_flowActive := a\<rparr>, ls') \<and> rv_keeps ls ls'
    \<and> ls_IsLinkUp (ls_defaultLinkCid ls) ls'"
proof -
  let ?x = "rc_lastSplittingIndexList s" and ?d = "ls_defaultLinkCid ls"
  have x: "length ?x = rv_n m" "rc_total ?x \<noteq> 0" "0 < rc_splittingBurstScalar s" "unat (rc_splittingBurst s) \<noteq> 0"
    using assms(1) by (auto simp: rv_set_def rv_inv_def rv_scaler_ok_def)
  have up: "ls_IsLinkUp ?d ls" using assms(4) by (simp add: rv_default_heard_def)
  obtain a where a: "rv_activeLink m s = Inr a" "a \<noteq> 0" using rv_activeLink_ok [OF x(1,2)] by blast
  note other = rv_down_other [OF assms(4) _ _ _ _ _ assms(3)]
  have same: "s\<lparr>rc_flowActive := rc_flowActive s\<rparr> = s" by simp
  have still: "\<exists>u b ls'. Inr (u0, s, ls) = (Inr (u, s\<lparr>rc_flowActive := b\<rparr>, ls') :: (bool \<times> GmaRxControl \<times> LinkState) result)
      \<and> rv_keeps ls ls' \<and> ls_IsLinkUp ?d ls'" for u0
    using same rv_keeps_trans(2) [of ls] up by metis
  show ?thesis
  proof (cases "a = 1")
    case True
    have "\<exists>u b ls'. rv_single_failure m inds s ls = Inr (u, s\<lparr>rc_flowActive := b\<rparr>, ls') \<and> rv_keeps ls ls' \<and> ls_IsLinkUp ?d ls'"
      if "\<forall>i\<in>set inds. i < rv_n m" for inds
      using that
    proof (induction inds)
      case Nil
      show ?case unfolding rv_single_failure.simps by (rule still)
    next
      case (Cons i inds)
      then have i: "i < rv_n m" by simp
      show ?case
      proof (cases "?x ! i > 0")
        case False
        then show ?thesis using Cons i x(1) by simp
      next
        case act: True
        show ?thesis
        proof (cases "rv_up ls m i \<and> rm_totalPktNumList m ! i = 0 \<and> uint (rc_splittingBurst s) = rc_GetMaxSplittingBurst \<and> rc_flowActive s")
          case True
          then have "rv_single_failure m (i # inds) s ls = Inr (True, s\<lparr>rc_flowActive := False\<rparr>, ls_NoDataDown (rm_cidList m ! i) ls)"
            using act i x(1) by simp
          then show ?thesis using other [OF rv_keeps_trans(2) up i act] True by blast
        next
          case False
          then have e: "rv_single_failure m (i # inds) s ls = Inr (False, s, ls)" using act i x(1) by auto
          show ?thesis unfolding e by (rule still)
        qed
      qed
    qed
    from this [of "[0..<rv_n m]"] show ?thesis using a True by (simp add: rv_failures_def)
  next
    case False
    have req: "\<exists>r. rc_GetMeasurementBurstRequirement s = Inr r"
      using x(3,4) by (simp add: rc_GetMeasurementBurstRequirement_def unat_eq_0 uint_0_iff)
    have "\<exists>p. rfoldl (rv_multi_step m s (rv_sumPkt ls m)) (False, ls) [0..<rv_n m] = Inr p
        \<and> (rv_keeps ls (snd p) \<and> ls_IsLinkUp ?d (snd p))"
    proof (rule rfoldl_total)
      fix p :: "bool \<times> LinkState" and i assume i: "i \<in> set [0..<rv_n m]" and p: "rv_keeps ls (snd p) \<and> ls_IsLinkUp ?d (snd p)"
      obtain u l where pl: "p = (u, l)" by (cases p)
      then show "\<exists>p'. rv_multi_step m s (rv_sumPkt ls m) p i = Inr p' \<and> rv_keeps ls (snd p') \<and> ls_IsLinkUp ?d (snd p')"
        using i p x(1) req other [of l i] by (auto simp: rv_multi_step_def)
    qed (use up rv_keeps_trans(2) in simp)
    then obtain u ls' where "rv_failures m s ls = Inr (u, s, ls')" "rv_keeps ls ls'" "ls_IsLinkUp ?d ls'"
      using a False by (auto simp: rv_failures_def)
    then show ?thesis using same by metis
  qed
qed

lemma rv_differs_ok:
  assumes "n \<le> length xs" "n \<le> length ys"
  shows "rv_differs xs ys [0..<n] = Inr (\<exists>i<n. xs ! i \<noteq> ys ! i)"
proof -
  have "rv_differs xs ys inds = Inr (\<exists>i\<in>set inds. xs ! i \<noteq> ys ! i)" if "\<forall>i\<in>set inds. i < n" for inds
    using that assms by (induction inds) auto
  from this [of "[0..<n]"] show ?thesis by auto
qed

lemma rv_split_ok:
  assumes "rv_set (rv_n m) s" "r = [] \<or> rv_good ls m r"
  shows "\<exists>u' x y. rv_split ls m r u s = Inr (u', s\<lparr>rc_lastSplittingIndexList := x, rc_lastRatio := y\<rparr>)
    \<and> rv_set (rv_n m) (s\<lparr>rc_lastSplittingIndexList := x, rc_lastRatio := y\<rparr>)
    \<and> (if r = [] then x = rc_lastSplittingIndexList s else \<forall>i < rv_n m. \<not> rv_up ls m i \<longrightarrow> x ! i = 0)"
proof (cases "r = []")
  case True
  have same: "s\<lparr>rc_lastSplittingIndexList := rc_lastSplittingIndexList s, rc_lastRatio := rc_lastRatio s\<rparr> = s" by simp
  have "rv_split ls m r u s = Inr (u, s)" using True by (simp add: rv_split_def)
  then show ?thesis using assms(1) same True by metis
next
  case nonempty: False
  let ?n = "rv_n m" and ?x = "rc_lastSplittingIndexList s"
  have g: "rv_ratios ?n r" "\<forall>i < ?n. \<not> rv_up ls m i \<longrightarrow> r ! i = 0" using nonempty assms(2) by (auto simp: rv_good_def)
  have s: "length ?x = ?n" "rv_ratios ?n (rc_lastRatio s)" "rv_scaler_ok ?n s" "\<not> rc_adaptiveSplittingBurst s" "?x \<noteq> []"
    using assms(1) by (auto simp: rv_set_def rv_inv_def)
  obtain ys where ys: "rv_round m s r = Inr ys" "length ys = ?n" "rc_total ys = unat (rc_splittingBurst s)"
    "\<forall>i < ?n. r ! i = 0 \<longrightarrow> ys ! i = 0"
    using rv_round_ok [OF g(1) s(2,3)] by blast
  from nonempty have "rv_split ls m r u s = (if \<exists>i<?n. ?x ! i \<noteq> ys ! i
      then Inr (True, s\<lparr>rc_lastSplittingIndexList := ys, rc_lastRatio := r\<rparr>) else Inr (u, s))"
    using s(1,4) ys(1,2) by (simp add: rv_split_def rv_adaptive_burst_def rv_differs_ok)
  note run = this
  have new: "rv_set ?n (s\<lparr>rc_lastSplittingIndexList := ys, rc_lastRatio := r\<rparr>)"
    using assms(1) ys(2,3) g(1) nonempty s(1,5)
    by (auto simp: rv_set_def rv_inv_def rv_cfg_ok_def rv_scaler_ok_def)
  have down: "\<forall>i < ?n. \<not> rv_up ls m i \<longrightarrow> ys ! i = 0" using g(2) ys(4) by blast
  have same: "s\<lparr>rc_lastSplittingIndexList := ?x, rc_lastRatio := rc_lastRatio s\<rparr> = s" by simp
  show ?thesis
  proof (cases "\<exists>i<?n. ?x ! i \<noteq> ys ! i")
    case True
    have "rv_split ls m r u s = Inr (True, s\<lparr>rc_lastSplittingIndexList := ys, rc_lastRatio := r\<rparr>)"
      unfolding run using True by (rule if_P)
    then show ?thesis using new down nonempty by metis
  next
    case False
    have "rv_split ls m r u s = Inr (u, s)" unfolding run using False by (rule if_not_P)
    moreover have "\<forall>i < ?n. \<not> rv_up ls m i \<longrightarrow> ?x ! i = 0" using down False by metis
    ultimately show ?thesis using same assms(1) nonempty by metis
  qed
qed

lemma rv_drain_ok:
  assumes "length (rc_lastSplittingIndexList s) = rv_n m"
  shows "\<exists>p. rv_drain m s = Inr p"
proof -
  have "\<exists>p. rfoldl (rv_drain_step m s) ([], 0, 0) [0..<rv_n m] = Inr p \<and> True"
    by (rule rfoldl_total) (use assms in \<open>auto simp: rv_drain_step_def Let_def\<close>)
  then show ?thesis by (auto simp: rv_drain_def)
qed

text \<open>C15: rv_DelayViolationAlgorithm on every measurement that fits the links, from every state of the
  invariant \<open>rv_inv\<close> (its settings are those of \<open>rv_scaler_ok\<close>: with the default rounding scaler at most six
  links, and a burst of at least one packet per link and of fixed size), with the default link up and not
  silent, and a default link that a failure does not move (\<open>rv_stuck\<close>: it is fixed, or large link numbers
  are preferred). None of its fatal errors, assertions, end iterators or conversions out of range is
  reached, in any of the four cases of congestion. The numbers of its decision add up to the burst and
  leave every link that is down without a packet, unless they are the numbers of before, which happens
  only when packets arrived and none of them was late on a link that is up; the invariant for the next
  measurement is kept.\<close>

theorem rv_algorithm_safe:
  assumes "rv_meas_ok ls m" "rv_inv (rv_n m) s" "rv_stuck ls"
    and "rv_default_heard ls m (if rc_lastSplittingIndexList s = []
      then rc_initial_split (rc_splittingBurst s) m (ls_defaultLinkCid ls) else rc_lastSplittingIndexList s)"
  shows "\<exists>d s' ls'. rv_DelayViolationAlgorithm ls m s = Inr (d, s', ls')
    \<and> sd_splitIndexList d = rc_lastSplittingIndexList s'
    \<and> length (sd_splitIndexList d) = rv_n m \<and> rc_total (sd_splitIndexList d) = unat (rc_splittingBurst s)
    \<and> rv_inv (rv_n m) s' \<and> rv_keeps ls ls'
    \<and> ((\<forall>i < rv_n m. \<not> ls_IsLinkUp (rm_cidList m ! i) ls' \<longrightarrow> sd_splitIndexList d ! i = 0)
       \<or> sd_splitIndexList d = (if rc_lastSplittingIndexList s = []
            then rc_initial_split (rc_splittingBurst s) m (ls_defaultLinkCid ls) else rc_lastSplittingIndexList s)
         \<and> 0 < rv_sumPkt ls' m \<and> rv_sumCongested ls' m = 0)"
proof -
  let ?n = "rv_n m"
  let ?x0 = "if rc_lastSplittingIndexList s = []
      then rc_initial_split (rc_splittingBurst s) m (ls_defaultLinkCid ls) else rc_lastSplittingIndexList s"
  have ok: "rc_meas_ok ls m" "rv_n m = length (rm_delayViolationPktNumList m)" "rv_n m = length (rm_totalPktNumList m)"
    using assms(1) by (simp_all add: rv_meas_ok_def)
  obtain x r0 where i: "rv_init ls m s = Inr (s\<lparr>rc_lastSplittingIndexList := x, rc_lastRatio := r0\<rparr>)"
    "rv_set ?n (s\<lparr>rc_lastSplittingIndexList := x, rc_lastRatio := r0\<rparr>)" "x = ?x0"
    using rv_init_ok [OF ok(1) assms(2)] by blast
  define s1 where "s1 = s\<lparr>rc_lastSplittingIndexList := x, rc_lastRatio := r0\<rparr>"
  have s1: "rv_set ?n s1" "rc_lastSplittingIndexList s1 = x" "rc_splittingBurst s1 = rc_splittingBurst s"
    using i(2) by (simp_all add: s1_def)
  obtain u a ls' where f: "rv_failures m s1 ls = Inr (u, s1\<lparr>rc_flowActive := a\<rparr>, ls')" "rv_keeps ls ls'"
    "ls_IsLinkUp (ls_defaultLinkCid ls) ls'"
    using rv_failures_ok [OF s1(1) ok(1) assms(3)] assms(4) i(3) s1(2) by auto
  define s2 where "s2 = s1\<lparr>rc_flowActive := a\<rparr>"
  have s2: "rv_set ?n s2" "rc_lastSplittingIndexList s2 = x" "rc_splittingBurst s2 = rc_splittingBurst s"
    using s1 by (simp_all add: s2_def rv_inv_updates)
  have ls': "rc_meas_ok ls' m" "rv_meas_ok ls' m" "ls_IsLinkUp (ls_defaultLinkCid ls') ls'"
    using ok(1) assms(1) f(2,3) rv_keeps_trans(4,5) [OF f(2), of m] by (auto simp: rv_keeps_def)
  have s2': "rv_hist_ok (rc_cidToBwHistMap s2) (rc_cidToKiHistMap s2)" "0 < unat (rc_bwHistSize s2)"
    "length (rc_lastSplittingIndexList s2) = ?n"
    using s2(1) by (auto simp: rv_set_def rv_inv_def rv_cfg_ok_def)
  obtain b bws kis where h: "rv_history ls' m s2 = Inr (s2\<lparr>rc_flowActive := b, rc_cidToBwHistMap := bws, rc_cidToKiHistMap := kis\<rparr>)"
    "rv_hist_ok bws kis" "rv_fresh ls' m (s2\<lparr>rc_flowActive := b, rc_cidToBwHistMap := bws, rc_cidToKiHistMap := kis\<rparr>)"
    using rv_history_ok [OF ls'(1) s2'] by blast
  define s3 where "s3 = s2\<lparr>rc_flowActive := b, rc_cidToBwHistMap := bws, rc_cidToKiHistMap := kis\<rparr>"
  have s3: "rv_set ?n s3" "rc_lastSplittingIndexList s3 = x" "rc_splittingBurst s3 = rc_splittingBurst s"
    using s2 rv_inv_updates(3) [OF s2(1) h(2)] by (simp_all add: s3_def)
  have "rv_cfg_ok s3" using s3(1) by (simp add: rv_set_def rv_inv_def)
  then obtain r y where q: "rv_ratio ls' m s3 = Inr (r, s3\<lparr>rc_relocateScaler := y\<rparr>)"
    "rv_good ls' m r \<or> r = [] \<and> 0 < rv_sumPkt ls' m \<and> rv_sumCongested ls' m = 0"
    using rv_ratio_ok [OF _ ls'(2) h(3) [folded s3_def] ls'(3)] by blast
  define s4 where "s4 = s3\<lparr>rc_relocateScaler := y\<rparr>"
  have s4: "rv_set ?n s4" "rc_lastSplittingIndexList s4 = x" "rc_splittingBurst s4 = rc_splittingBurst s"
    using s3 by (simp_all add: s4_def rv_inv_updates)
  have pos: "0 < ?n" using assms(2) by (simp add: rv_inv_def rv_scaler_ok_def)
  obtain u' x' r' where sp: "rv_split ls' m r u s4 = Inr (u', s4\<lparr>rc_lastSplittingIndexList := x', rc_lastRatio := r'\<rparr>)"
    "rv_set ?n (s4\<lparr>rc_lastSplittingIndexList := x', rc_lastRatio := r'\<rparr>)"
    "if r = [] then x' = x else \<forall>i < ?n. \<not> rv_up ls' m i \<longrightarrow> x' ! i = 0"
    using rv_split_ok [OF s4(1), of r ls' u] q(2) unfolding s4(2) by blast
  have out: "(\<forall>i < ?n. \<not> rv_up ls' m i \<longrightarrow> x' ! i = 0) \<or> x' = ?x0 \<and> 0 < rv_sumPkt ls' m \<and> rv_sumCongested ls' m = 0"
    using sp(3) q(2) i(3) pos by (cases "r = []") (auto simp: rv_good_def rv_ratios_def)
  define s5 where "s5 = s4\<lparr>rc_lastSplittingIndexList := x', rc_lastRatio := r'\<rparr>"
  have s5: "rv_inv ?n s5" "rc_lastSplittingIndexList s5 = x'" "rc_splittingBurst s5 = rc_splittingBurst s"
    "length x' = ?n" "rc_total x' = unat (rc_splittingBurst s)"
    using sp(2) s4(3) by (auto simp: s5_def rv_set_def rv_inv_def)
  obtain p where "rv_drain m s5 = Inr p" using rv_drain_ok [of s5 m] s5(2,4) by auto
  then obtain l hi ac where d: "rv_drain m s5 = Inr (l, hi, ac)" by (cases p) auto
  have su: "rc_sum ?n x' = Inr (rc_splittingBurst s)" using rc_sum_total [OF s5(5)] s5(4) by simp
  have c: "rc_congestionScaler s < 1" using assms(2) by (simp add: rv_inv_def rv_cfg_ok_def)
  let ?d = "SplittingDecision_new\<lparr>sd_splitIndexList := x', sd_update := u', sd_queueingDelay := (if hi > 0 \<and> hi < ac then l else [])\<rparr>"
  have "rv_DelayViolationAlgorithm ls m s = Inr (?d, s5, ls')"
    unfolding rv_DelayViolationAlgorithm_def
    by (simp only: ok(2,3) [symmetric] c i(1) [folded s1_def] f(1) [folded s2_def] h(1) [folded s3_def]
        q(1) [folded s4_def] sp(1) [folded s5_def] d su s5(2,3) rassert_simps rbind_simps prod.case refl)
  then show ?thesis using s5 out f(2) by (intro exI [of _ ?d] exI [of _ s5] exI [of _ ls']) auto
qed

text \<open>A measurement of the links of \<open>rc_ls3\<close>, where 5 is down: 100 packets over the default link 1, of
  which 20 were late, and 50 over link 3.\<close>

definition rv_m3 :: RxMeasurement where
  "rv_m3 = rc_m3\<lparr>rm_delayViolationPktNumList := [0, 20, 0], rm_totalPktNumList := [0, 100, 50],
    rm_measureIntervalDurationS := 1\<rparr>"

lemma rv_m3_facts:
  "rm_links rv_m3 = 3" "rm_cidList rv_m3 = [5, 1, 3]" "rm_delayViolationPktNumList rv_m3 = [0, 20, 0]"
  "rm_totalPktNumList rv_m3 = [0, 100, 50]" "rc_meas_ok rc_ls3 rv_m3"
  using rc_m3_ok by (simp_all add: rv_m3_def rc_meas_ok_def Let_def) (simp_all add: rc_m3_def)

lemma all_less_3: "(\<forall>i < 3. P i) \<longleftrightarrow> P 0 \<and> P (1 :: nat) \<and> P 2"
  by (auto simp: less_Suc_eq numeral_3_eq_3 numeral_2_eq_2)

lemma rv_m3_ok: "rv_meas_ok rc_ls3 rv_m3"
  using rv_m3_facts(5) by (simp add: rv_meas_ok_def rv_m3_facts(1-4) all_less_3) (simp add: rv_m3_def)

definition rv_s3 :: GmaRxControl where
  "rv_s3 = GmaRxControl_new\<lparr>rc_splittingBurst := 32, rc_algorithm := Gma2\<rparr>"

lemma rv_s3_inv: "rv_inv 3 rv_s3"
  by (simp add: rv_inv_def rv_s3_def GmaRxControl_new_def rv_hist_ok_def rv_cfg_ok_def rv_scaler_ok_def)

lemma rv_algorithm_safe_witness:
  "\<exists>d s' ls'. rv_DelayViolationAlgorithm rc_ls3 rv_m3 rv_s3 = Inr (d, s', ls') \<and> rc_total (sd_splitIndexList d) = 32"
proof -
  have stuck: "rv_stuck rc_ls3" by (simp add: rv_stuck_def rc_ls3_def LinkState_new_def)
  have heard: "rv_default_heard rc_ls3 rv_m3 x" for x
    by (simp add: rv_default_heard_def rv_m3_facts rc_ls3_facts all_less_3)
  have "rv_inv (rv_n rv_m3) rv_s3" using rv_s3_inv by (simp add: rv_m3_facts)
  from rv_algorithm_safe [OF rv_m3_ok this stuck heard] show ?thesis by (auto simp: rv_s3_def)
qed

lemma rv_round_exact_witness:
  "\<exists>ys. rv_round rv_m3 (rv_s3\<lparr>rc_lastRatio := [0, 1, 0]\<rparr>) [0, 7 / 10, 3 / 10] = Inr ys
    \<and> rc_total ys = 32 \<and> ys ! 0 = 0"
proof -
  let ?s = "rv_s3\<lparr>rc_lastRatio := [0, 1, 0]\<rparr>"
  have three: "{..<3} = {0, 1, 2 :: nat}" by auto
  have r: "rv_ratios 3 [0, 1, 0]" "rv_ratios 3 [0, 7 / 10, 3 / 10]"
    by (simp_all add: rv_ratios_def all_less_3 three)
  have "rv_scaler_ok 3 ?s" using rv_s3_inv by (simp add: rv_inv_def rv_scaler_ok_def)
  then have "\<exists>ys. rv_round rv_m3 ?s [0, 7 / 10, 3 / 10] = Inr ys \<and> length ys = unat (rm_links rv_m3)
    \<and> rc_total ys = unat (rc_splittingBurst ?s)
    \<and> (\<forall>i < unat (rm_links rv_m3). [0, 7 / 10, 3 / 10 :: real] ! i = 0 \<longrightarrow> ys ! i = 0)"
    by (intro rv_round_exact) (simp_all add: rv_m3_facts r)
  then show ?thesis by (auto simp: rv_m3_facts rv_s3_def)
qed

section \<open>A silent default link\<close>

lemma rv_activeLink_one:
  assumes "length (rc_lastSplittingIndexList s) = rv_n m" "j < rv_n m"
    and "\<And>i. i < rv_n m \<Longrightarrow> rc_lastSplittingIndexList s ! i > 0 \<longleftrightarrow> i = j"
  shows "rv_activeLink m s = Inr 1"
proof -
  have "rfoldl (\<lambda>a ind. rbind (vec_at (rc_lastSplittingIndexList s) ind) (\<lambda>k. Inr (if k > 0 then a + 1 else a))) (0 :: nat) [0..<l]
      = Inr (if j < l then 1 else 0)" if "l \<le> rv_n m" for l
    using that assms(1,3) by (induction l) (auto simp: rfoldl_append less_Suc_eq simp del: word_gt_0)
  from this [of "rv_n m"] assms(2) show ?thesis by (simp add: rv_activeLink_def)
qed

lemma rv_single_silent:
  assumes "j \<in> set inds" "\<forall>i\<in>set inds. i < length (rc_lastSplittingIndexList s) \<and> (rc_lastSplittingIndexList s ! i > 0 \<longleftrightarrow> i = j)"
    and "rv_up ls m j" "rm_totalPktNumList m ! j = 0" "uint (rc_splittingBurst s) = rc_GetMaxSplittingBurst" "rc_flowActive s"
  shows "rv_single_failure m inds s ls = Inr (True, s\<lparr>rc_flowActive := False\<rparr>, ls_NoDataDown (rm_cidList m ! j) ls)"
  using assms by (induction inds) auto

lemma rfoldl_stops:
  assumes "rfoldl f s xs = Inr t" "f t x = Inl e"
  shows "rfoldl f s (xs @ x # ys) = Inl e"
  using assms by (simp add: rfoldl_append)

text \<open>With the default link fixed or the large cid preference, which is the default, a split mode
  flow of which all traffic is on the default link and of which no packet arrives in an interval ends
  the simulation: the algorithm marks the default link as down and then stops in the fatal error that the
  default link should always be up.\<close>

theorem rv_silent_default_stops:
  assumes "rv_meas_ok ls m" "rv_inv (rv_n m) s" "rv_stuck ls" "ls_IsLinkUp (ls_defaultLinkCid ls) ls"
    and "rc_lastSplittingIndexList s \<in> {[], rc_initial_split (rc_splittingBurst s) m (ls_defaultLinkCid ls)}"
    and "rc_splittingBurst s = 128" "rc_flowActive s" "\<forall>i < rv_n m. rm_totalPktNumList m ! i = 0"
  shows "rv_DelayViolationAlgorithm ls m s = Inl (Fatal ''default link should always be up!'')"
proof -
  let ?n = "rv_n m" and ?d = "ls_defaultLinkCid ls"
  have ok: "rc_meas_ok ls m" "rv_n m = length (rm_delayViolationPktNumList m)" "rv_n m = length (rm_totalPktNumList m)"
    using assms(1) by (simp_all add: rv_meas_ok_def)
  obtain j where j: "j < ?n" "rm_cidList m ! j = ?d" "\<And>i. i < ?n \<Longrightarrow> rm_cidList m ! i = ?d \<longleftrightarrow> i = j"
    using rc_default_index [OF ok(1)] by metis
  obtain x r0 where i: "rv_init ls m s = Inr (s\<lparr>rc_lastSplittingIndexList := x, rc_lastRatio := r0\<rparr>)"
    "rv_set ?n (s\<lparr>rc_lastSplittingIndexList := x, rc_lastRatio := r0\<rparr>)"
    "x = (if rc_lastSplittingIndexList s = [] then rc_initial_split (rc_splittingBurst s) m ?d
      else rc_lastSplittingIndexList s)"
    using rv_init_ok [OF ok(1) assms(2)] by blast
  have x0: "x = rc_initial_split 128 m ?d" using i(3) assms(5,6) by (auto split: if_splits)
  define s1 where "s1 = s\<lparr>rc_lastSplittingIndexList := x, rc_lastRatio := r0\<rparr>"
  have x: "length x = ?n" "\<And>i. i < ?n \<Longrightarrow> x ! i > 0 \<longleftrightarrow> i = j"
    using j(3) by (auto simp: x0 rc_initial_split_def)
  have act: "rv_activeLink m s1 = Inr 1" using x j(1) by (intro rv_activeLink_one) (simp_all add: s1_def)
  let ?ls = "ls_NoDataDown ?d ls"
  have f: "rv_failures m s1 ls = Inr (True, s1\<lparr>rc_flowActive := False\<rparr>, ?ls)"
    using rv_single_silent [of j "[0..<?n]" s1 m ls] x j(1,2) assms(4,6-8) act
    by (simp add: rv_failures_def s1_def rc_GetMaxSplittingBurst_def)
  define s2 where "s2 = s1\<lparr>rc_flowActive := False\<rparr>"
  have k: "rv_keeps ls ?ls" "\<not> ls_IsLinkUp ?d ?ls" using rv_NoDataDown_keeps(1,3) [OF assms(3)] by blast+
  have s2: "rv_hist_ok (rc_cidToBwHistMap s2) (rc_cidToKiHistMap s2)" "0 < unat (rc_bwHistSize s2)"
    "length (rc_lastSplittingIndexList s2) = ?n"
    using i(2) x(1) by (auto simp: s2_def s1_def rv_set_def rv_inv_def rv_cfg_ok_def)
  have "rc_meas_ok ?ls m" using ok(1) rv_keeps_trans(4) [OF k(1)] by simp
  then obtain s3 where h: "rv_history ?ls m s2 = Inr s3" using rv_history_ok [OF _ s2] by blast
  have "rv_sumPkt ?ls m = 0" unfolding rv_sumPkt_def using assms(8) by (auto simp: sum_list_eq_0_iff)
  moreover have "rv_ratio_no_traffic ?ls m = Inl (Fatal ''default link should always be up!'')"
  proof -
    let ?f = "\<lambda>r ind. if rm_cidList m ! ind = ls_defaultLinkCid ?ls then
        (if rv_up ?ls m ind then Inr (r @ [1]) else Inl (Fatal ''default link should always be up!''))
      else Inr (r @ [0 :: real])"
    have d: "ls_defaultLinkCid ?ls = ?d" using k(1) by (simp add: rv_keeps_def)
    have "rfoldl ?f [] [0..<j] = Inr ([] @ map (\<lambda>_. 0) [0..<j])"
      by (rule rfoldl_map) (use j in \<open>auto simp: d\<close>)
    moreover have "[0..<?n] = [0..<j] @ j # [Suc j..<?n]"
      using upt_add_eq_append [of 0 j "?n - j"] j(1) by (simp add: upt_conv_Cons)
    ultimately show ?thesis
      unfolding rv_ratio_no_traffic_def using k(2) j(2) d rfoldl_stops [of ?f "[]" "[0..<j]" _ j] by simp
  qed
  ultimately have q: "rv_ratio ?ls m s3 = Inl (Fatal ''default link should always be up!'')"
    by (simp add: rv_ratio_def)
  have c: "rc_congestionScaler s < 1" using assms(2) by (simp add: rv_inv_def rv_cfg_ok_def)
  show ?thesis
    unfolding rv_DelayViolationAlgorithm_def
    by (simp only: ok(2,3) [symmetric] c i(1) [folded s1_def] f [folded s2_def] h q rassert_simps rbind_simps prod.case refl)
qed

definition rv_ls3 :: LinkState where
  "rv_ls3 = rc_ls3\<lparr>ls_ctrFailedLinkMap := []\<rparr>"

lemma rv_silent_default_stops_witness:
  "rv_DelayViolationAlgorithm rv_ls3 (rv_m3\<lparr>rm_totalPktNumList := [0, 0, 0], rm_delayViolationPktNumList := [0, 0, 0]\<rparr>)
    (rv_s3\<lparr>rc_splittingBurst := 128, rc_flowActive := True\<rparr>) = Inl (Fatal ''default link should always be up!'')"
proof -
  let ?m = "rv_m3\<lparr>rm_totalPktNumList := [0, 0, 0], rm_delayViolationPktNumList := [0, 0, 0]\<rparr>"
    and ?s = "rv_s3\<lparr>rc_splittingBurst := 128, rc_flowActive := True\<rparr>"
  have ls: "ls_cidToIndexMap rv_ls3 = ls_cidToIndexMap rc_ls3" "ls_defaultLinkCid rv_ls3 = 1" "ls_IsLinkUp 1 rv_ls3"
    "rv_stuck rv_ls3"
    by (simp_all add: rv_ls3_def rc_ls3_def LinkState_new_def ls_IsLinkUp_def sm_find_def rv_stuck_def)
  have "rc_meas_ok rv_ls3 ?m"
    using rv_m3_facts(5) by (simp add: rc_meas_ok_def Let_def ls(1,2) rc_ls3_facts)
  then have m: "rv_meas_ok rv_ls3 ?m"
    by (simp add: rv_meas_ok_def rv_m3_facts(1) all_less_3) (simp add: rv_m3_def)
  have "rv_inv 3 ?s" using rv_s3_inv by (simp add: rv_inv_def rv_cfg_ok_def rv_scaler_ok_def rv_s3_def GmaRxControl_new_def)
  then show ?thesis
    using m ls by (intro rv_silent_default_stops) (simp_all add: rv_m3_facts(1) all_less_3 rv_s3_def GmaRxControl_new_def)
qed

end
