(* ===== verification/Reordering.thy ===== *)
theory Reordering
  imports Gma_Header Link_State "HOL-Library.Multiset"
begin

text \<open>The reordering of received packets: \<open>InOrderDelivery\<close> and the functions it calls in
  \<open>src/contrib/gma/model/gma-virtual-interface.cc\<close>, with the part of the class
  \<open>GmaVirtualInterface\<close> they use as the record \<open>GmaReorder\<close>.

  Every link has a queue of packets that arrived too early.  The packets handed to the callback
  \<open>m_forwardPacketCallback\<close> are collected in \<open>rq_forwarded\<close>.  An event of the simulator is the time it is
  scheduled for, None when it is not running.  The state of the links is an argument.

  The loops end because every turn takes a packet out of a queue; they are functions with the
  number of queued packets as measure.\<close>

section \<open>Sequence numbers\<close>

definition MAX_GMA_SN :: u32 where "MAX_GMA_SN = 0x00FFFFFF"
definition MAX_GMA_LSN :: u8 where "MAX_GMA_LSN = 0xFF"

definition SnDiff :: "int \<Rightarrow> int \<Rightarrow> int" where
  "SnDiff x1 x2 = (let diff = x1 - x2 in
    if diff > 8388608 then diff - 16777216 else if diff < -8388608 then diff + 16777216 else diff)"

definition CsnDiff :: "int \<Rightarrow> int \<Rightarrow> int" where
  "CsnDiff x1 x2 = (let diff = x1 - x2 in
    if diff > 32768 then diff - 65536 else if diff < -32768 then diff + 65536 else diff)"

definition LsnDiff :: "int \<Rightarrow> int \<Rightarrow> int" where
  "LsnDiff x1 x2 = (let diff = x1 - x2 in
    if diff > 128 then diff - 256 else if diff < -128 then diff + 256 else diff)"

text \<open>\<open>uint32_t\<close> passed as \<open>int\<close>.\<close>

abbreviation to_int :: "u32 \<Rightarrow> int" where "to_int x \<equiv> sint x"

section \<open>Data\<close>

record RxQueueIterm =
  ri_packet :: "u8 list"
  ri_gmaHeader :: GmaHeader
  ri_inOrder :: bool
  ri_receivedTime :: time

record LinkParams =
  lp_gmaTxLocalSn :: u8
  lp_reorderingQueue :: "RxQueueIterm list"
  lp_gmaRxLastLocalSn :: u8
  lp_gmaRxLastSn :: u32
  lp_qosMarking :: real
  lp_emulateDelay :: u32

definition LinkParams_new :: LinkParams where
  "LinkParams_new = \<lparr>lp_gmaTxLocalSn = 0, lp_reorderingQueue = [], lp_gmaRxLastLocalSn = 255,
    lp_gmaRxLastSn = MAX_GMA_SN, lp_qosMarking = 0, lp_emulateDelay = 0\<rparr>"

record MeasureParam =
  mp_rcvBytes :: u64
  mp_minOwd :: u32
  mp_maxOwd :: u32
  mp_owdSum :: u64
  mp_count :: u64
  mp_numOfHighDelayPkt :: u64
  mp_numofT1DelayPkt :: u64
  mp_numofT2DelayPkt :: u64
  mp_numOfInOrderPacketsForReport :: u64
  mp_numOfMissingPacketsForReport :: u64
  mp_numOfAbnormalPacketsForReport :: u64

definition MeasureParam_new :: MeasureParam where
  "MeasureParam_new = \<lparr>mp_rcvBytes = 0, mp_minOwd = UINT32_MAX, mp_maxOwd = 0, mp_owdSum = 0, mp_count = 0,
    mp_numOfHighDelayPkt = 0, mp_numofT1DelayPkt = 0, mp_numofT2DelayPkt = 0,
    mp_numOfInOrderPacketsForReport = 0, mp_numOfMissingPacketsForReport = 0,
    mp_numOfAbnormalPacketsForReport = 0\<rparr>"

record GmaReorder =
  rq_lastGsn :: u32
  rq_gmaRxExpectedSn :: u32
  rq_linkParamsMap :: "(u8, LinkParams) smap"
  rq_forwarded :: "(u8 list \<times> GmaHeader) list"
  rq_totalQueueSize :: u32
  rq_reorderingTimeout :: time
  rq_reorderingTimeoutEvent :: "time option"
  rq_stopReorderEvent :: "time option"
  rq_enableReordering :: bool
  rq_useLsnReordering :: bool
  rq_enableMeasureReport :: bool
  rq_reorderingTimeoutCounter :: u64
  rq_measureParamPerCidMap :: "(u8, MeasureParam) smap"
  rq_flowParam :: MeasureParam
  rq_numOfInOrderPacketsPerFlow :: u64
  rq_numOfMissingPacketsPerFlow :: u64
  rq_numOfAbnormalPacketsPerFlow :: u64
  rq_acceptableDelay :: u64
  rq_delaythresh1 :: u64
  rq_delaythresh2 :: u64
  rq_newLinkCid :: u8
  rq_nextReorderingUpdateTime :: time

definition MAX_REORDERING_TIMEOUT :: time where "MAX_REORDERING_TIMEOUT = 1000 * 1000000"
definition MIN_REORDERING_TIMEOUT :: time where "MIN_REORDERING_TIMEOUT = 10 * 1000000"

definition GmaReorder_new :: GmaReorder where
  "GmaReorder_new = \<lparr>rq_lastGsn = MAX_GMA_SN, rq_gmaRxExpectedSn = 0, rq_linkParamsMap = [], rq_forwarded = [],
    rq_totalQueueSize = 0, rq_reorderingTimeout = MAX_REORDERING_TIMEOUT, rq_reorderingTimeoutEvent = None,
    rq_stopReorderEvent = None, rq_enableReordering = False, rq_useLsnReordering = False,
    rq_enableMeasureReport = False, rq_reorderingTimeoutCounter = 0, rq_measureParamPerCidMap = [],
    rq_flowParam = MeasureParam_new, rq_numOfInOrderPacketsPerFlow = 0, rq_numOfMissingPacketsPerFlow = 0,
    rq_numOfAbnormalPacketsPerFlow = 0, rq_acceptableDelay = 1000000, rq_delaythresh1 = 1000000,
    rq_delaythresh2 = 1000000, rq_newLinkCid = UINT8_MAX, rq_nextReorderingUpdateTime = 0\<rparr>"

abbreviation ri_sn :: "RxQueueIterm \<Rightarrow> u32" where
  "ri_sn item \<equiv> gh_sequenceNumber (ri_gmaHeader item)"

section \<open>Measuring and forwarding a packet\<close>

definition rq_count_flow :: "GmaHeader \<Rightarrow> GmaReorder \<Rightarrow> GmaReorder" where
  "rq_count_flow h s =
    (let d = SnDiff (to_int (gh_sequenceNumber h)) (to_int (rq_lastGsn s)) in
     if d = 1 then
       s\<lparr>rq_numOfInOrderPacketsPerFlow := rq_numOfInOrderPacketsPerFlow s + 1, rq_lastGsn := gh_sequenceNumber h\<rparr>
     else if d > 1 then
       s\<lparr>rq_numOfMissingPacketsPerFlow := rq_numOfMissingPacketsPerFlow s + of_int d - 1,
         rq_numOfInOrderPacketsPerFlow := rq_numOfInOrderPacketsPerFlow s + 1, rq_lastGsn := gh_sequenceNumber h\<rparr>
     else s\<lparr>rq_numOfAbnormalPacketsPerFlow := rq_numOfAbnormalPacketsPerFlow s + 1\<rparr>)"

definition rq_count_owd :: "time \<Rightarrow> nat \<Rightarrow> GmaHeader \<Rightarrow> GmaReorder \<Rightarrow> GmaReorder" where
  "rq_count_owd now bytes h s =
    (let owd = word_of_int (ms_of now) - gh_timeStamp h; p = rq_flowParam s;
         more = (\<lambda>thresh n. if uint owd > uint (thresh :: u64) then n + 1 else n :: u64) in
     s\<lparr>rq_flowParam := p\<lparr>mp_maxOwd := (if mp_maxOwd p < owd then owd else mp_maxOwd p),
       mp_minOwd := (if mp_minOwd p > owd then owd else mp_minOwd p),
       mp_numOfHighDelayPkt := more (rq_acceptableDelay s) (mp_numOfHighDelayPkt p),
       mp_numofT1DelayPkt := more (rq_delaythresh1 s) (mp_numofT1DelayPkt p),
       mp_numofT2DelayPkt := more (rq_delaythresh2 s) (mp_numofT2DelayPkt p),
       mp_owdSum := mp_owdSum p + ucast owd, mp_count := mp_count p + 1,
       mp_rcvBytes := mp_rcvBytes p + of_nat bytes\<rparr>\<rparr>)"

definition rq_MeasureAndForward :: "time \<Rightarrow> u8 list \<Rightarrow> GmaHeader \<Rightarrow> GmaReorder \<Rightarrow> GmaReorder" where
  "rq_MeasureAndForward now packet h s =
    (let s = (if rq_enableMeasureReport s then rq_count_flow h s else s);
         s = (if rq_enableMeasureReport s then rq_count_owd now (length packet) h s else s) in
     s\<lparr>rq_forwarded := rq_forwarded s @ [(packet, h)]\<rparr>)"

section \<open>The queues\<close>

text \<open>Push, and \<open>front\<close> with \<open>pop\<close>, on the queue of a link; \<open>None\<close> where the code would use the front of
  an empty queue or a null pointer.\<close>

definition rq_push :: "u8 \<Rightarrow> RxQueueIterm \<Rightarrow> (u8, LinkParams) smap \<Rightarrow> (u8, LinkParams) smap" where
  "rq_push cid item ps = map (\<lambda>(c, p). (c, if c = cid
    then p\<lparr>lp_reorderingQueue := lp_reorderingQueue p @ [item]\<rparr> else p)) ps"

definition rq_front :: "u8 \<Rightarrow> (u8, LinkParams) smap \<Rightarrow> RxQueueIterm option" where
  "rq_front cid ps = (case sm_find cid ps of None \<Rightarrow> None
    | Some p \<Rightarrow> (case lp_reorderingQueue p of [] \<Rightarrow> None | item # _ \<Rightarrow> Some item))"

definition rq_pop :: "u8 \<Rightarrow> (u8, LinkParams) smap \<Rightarrow> (u8, LinkParams) smap" where
  "rq_pop cid ps = map (\<lambda>(c, p). (c, if c = cid
    then p\<lparr>lp_reorderingQueue := tl (lp_reorderingQueue p)\<rparr> else p)) ps"

definition rq_all :: "(u8, LinkParams) smap \<Rightarrow> RxQueueIterm list" where
  "rq_all ps = concat (map (\<lambda>(c, p). lp_reorderingQueue p) ps)"

abbreviation rq_queued :: "GmaReorder \<Rightarrow> nat" where
  "rq_queued s \<equiv> length (rq_all (rq_linkParamsMap s))"

definition rq_dequeue :: "u8 \<Rightarrow> GmaReorder \<Rightarrow> (RxQueueIterm \<times> GmaReorder) result" where
  "rq_dequeue cid s = (case rq_front cid (rq_linkParamsMap s) of
      None \<Rightarrow> Inl (Undefined ''front of an empty queue'')
    | Some item \<Rightarrow> Inr (item, s\<lparr>rq_linkParamsMap := rq_pop cid (rq_linkParamsMap s),
        rq_totalQueueSize := rq_totalQueueSize s - 1\<rparr>))"

abbreviation rq_deliver :: "time \<Rightarrow> RxQueueIterm \<Rightarrow> GmaReorder \<Rightarrow> GmaReorder" where
  "rq_deliver now item s \<equiv> rq_MeasureAndForward now (ri_packet item) (ri_gmaHeader item) s"

abbreviation rq_expect_after :: "GmaHeader \<Rightarrow> GmaReorder \<Rightarrow> GmaReorder" where
  "rq_expect_after h s \<equiv> s\<lparr>rq_gmaRxExpectedSn := (gh_sequenceNumber h + 1) AND MAX_GMA_SN\<rparr>"

text \<open>The loop over the links that finds the smallest sequence number in front of a queue.
  \<open>MAX_GMA_SN\<close> stands for none yet; the first loop stops with -1 at an empty queue of a link that is
  up.\<close>

definition rq_smaller :: "u32 \<Rightarrow> u32 \<Rightarrow> bool" where
  "rq_smaller minSn sn \<longleftrightarrow> minSn = MAX_GMA_SN \<or> SnDiff (to_int minSn) (to_int sn) > 0"

fun rq_scan_full :: "(u8 \<Rightarrow> bool) \<Rightarrow> u32 \<Rightarrow> u8 \<Rightarrow> (u8, LinkParams) smap \<Rightarrow> (u32 \<times> u8) option" where
  "rq_scan_full up minSn minCid [] = (if minSn = MAX_GMA_SN then None else Some (minSn, minCid))"
| "rq_scan_full up minSn minCid ((c, p) # ps) =
    (case lp_reorderingQueue p of
       [] \<Rightarrow> if up c then None else rq_scan_full up minSn minCid ps
     | item # _ \<Rightarrow> if rq_smaller minSn (ri_sn item) then rq_scan_full up (ri_sn item) c ps
         else rq_scan_full up minSn minCid ps)"

fun rq_scan :: "u32 \<Rightarrow> u8 \<Rightarrow> (u8, LinkParams) smap \<Rightarrow> u32 \<times> u8" where
  "rq_scan minSn minCid [] = (minSn, minCid)"
| "rq_scan minSn minCid ((c, p) # ps) =
    (case lp_reorderingQueue p of
       [] \<Rightarrow> rq_scan minSn minCid ps
     | item # _ \<Rightarrow> if rq_smaller minSn (ri_sn item) then rq_scan (ri_sn item) c ps
         else rq_scan minSn minCid ps)"

lemma rq_MeasureAndForward_params [simp]:
  "rq_linkParamsMap (rq_MeasureAndForward now p h s) = rq_linkParamsMap s"
  by (simp add: rq_MeasureAndForward_def rq_count_flow_def rq_count_owd_def Let_def)

lemma rq_pop_length:
  assumes "rq_front cid ps = Some item"
  shows "length (rq_all (rq_pop cid ps)) < length (rq_all ps)"
proof -
  have le: "length (rq_all (rq_pop cid ps)) \<le> length (rq_all ps)" for ps
    by (induction ps) (auto simp: rq_all_def rq_pop_def)
  show ?thesis using assms
  proof (induction ps)
    case Nil
    then show ?case by (simp add: rq_front_def sm_find_def)
  next
    case (Cons q ps)
    obtain c p where q: "q = (c, p)" by (cases q)
    show ?case
    proof (cases "c = cid")
      case True
      then have "lp_reorderingQueue p \<noteq> []" using Cons.prems q by (auto simp: rq_front_def sm_find_def)
      then have "length (tl (lp_reorderingQueue p)) < length (lp_reorderingQueue p)" by simp
      then show ?thesis using le [of ps] True q unfolding rq_all_def rq_pop_def by auto
    next
      case False
      then have "rq_front cid ps = Some item" using Cons.prems q by (simp add: rq_front_def sm_find_def)
      then show ?thesis using Cons.IH False q by (simp add: rq_all_def rq_pop_def)
    qed
  qed
qed

lemma rq_dequeue_less: "rq_dequeue cid s = Inr (item, s') \<Longrightarrow> rq_queued s' < rq_queued s"
  using rq_pop_length by (auto simp: rq_dequeue_def split: option.splits)

lemma rbind_cong [fundef_cong]:
  "r = r' \<Longrightarrow> (\<And>x. r' = Inr x \<Longrightarrow> f x = f' x) \<Longrightarrow> rbind r f = rbind r' f'"
  by (cases r') auto

section \<open>Releasing packets\<close>

function rq_ReleaseMinSnPacket :: "(u8 \<Rightarrow> bool) \<Rightarrow> time \<Rightarrow> GmaReorder \<Rightarrow> GmaReorder result" where
  "rq_ReleaseMinSnPacket up now s =
    (case rq_scan_full up MAX_GMA_SN 255 (rq_linkParamsMap s) of
       None \<Rightarrow> Inr s
     | Some (minSn, minCid) \<Rightarrow>
         rbind (rassert (minCid \<noteq> 255) '' cannot be the initial value'') (\<lambda>_.
         rbind (rq_dequeue minCid s) (\<lambda>(item, s).
         if SnDiff (to_int (ri_sn item)) (to_int (rq_gmaRxExpectedSn s)) \<ge> 0
         then rq_ReleaseMinSnPacket up now (rq_expect_after (ri_gmaHeader item) (rq_deliver now item s))
         else rq_ReleaseMinSnPacket up now (rq_deliver now item s))))"
  by pat_completeness auto
termination
  by (relation "measure (\<lambda>(up, now, s). rq_queued s)") (auto dest: rq_dequeue_less)

function rq_release_all :: "time \<Rightarrow> u8 \<Rightarrow> GmaReorder \<Rightarrow> GmaReorder result" where
  "rq_release_all now minCid s =
    (if rq_totalQueueSize s > 0 then
       (let (minSn, minCid') = rq_scan MAX_GMA_SN minCid (rq_linkParamsMap s) in
        rbind (rassert (minCid' \<noteq> 255) '' cannot be the initial value'') (\<lambda>_.
        rbind (rq_dequeue minCid' s) (\<lambda>(item, s).
        rq_release_all now minCid' (rq_expect_after (ri_gmaHeader item) (rq_deliver now item s)))))
     else Inr s)"
  by pat_completeness auto
termination
  by (relation "measure (\<lambda>(now, minCid, s). rq_queued s)") (auto dest: rq_dequeue_less)

declare rq_ReleaseMinSnPacket.simps [simp del] rq_release_all.simps [simp del]

definition rq_ReleaseAllPackets :: "time \<Rightarrow> GmaReorder \<Rightarrow> GmaReorder result" where
  "rq_ReleaseAllPackets now s = rq_release_all now 255 s"

lemma rq_release_all_le: "rq_release_all now minCid s = Inr s' \<Longrightarrow> rq_queued s' \<le> rq_queued s"
proof (induction now minCid s arbitrary: s' rule: rq_release_all.induct)
  case (1 now cid s)
  show ?case
  proof (cases "rq_totalQueueSize s > 0")
    case True
    obtain minSn minCid where m: "rq_scan MAX_GMA_SN cid (rq_linkParamsMap s) = (minSn, minCid)" by fastforce
    obtain item t where d: "rq_dequeue minCid s = Inr (item, t)" "minCid \<noteq> 255"
      "rq_release_all now minCid (rq_expect_after (ri_gmaHeader item) (rq_deliver now item t)) = Inr s'"
      using 1(2) True m by (subst (asm) rq_release_all.simps) (auto simp: Let_def)
    have "rq_queued s' \<le> rq_queued (rq_expect_after (ri_gmaHeader item) (rq_deliver now item t))"
      by (rule 1(1) [OF True m [symmetric] refl _ d(1) refl d(3)]) (simp add: d(2))
    then show ?thesis using rq_dequeue_less [OF d(1)] by simp
  next
    case False
    then show ?thesis using 1(2) by (subst (asm) rq_release_all.simps) simp
  qed
qed

definition rq_StopReordering :: "time \<Rightarrow> GmaReorder \<Rightarrow> GmaReorder result" where
  "rq_StopReordering now s =
    (let s = (if rq_enableReordering s = True
        then s\<lparr>rq_enableReordering := False, rq_newLinkCid := UINT8_MAX, rq_stopReorderEvent := None\<rparr> else s) in
     rq_ReleaseAllPackets now s)"

lemma rq_StopReordering_le: "rq_StopReordering now s = Inr s' \<Longrightarrow> rq_queued s' \<le> rq_queued s"
  unfolding rq_StopReordering_def rq_ReleaseAllPackets_def Let_def
  by (drule rq_release_all_le) (simp split: if_splits)

definition rq_UpdateReorderTimeout :: "GmaReorder \<Rightarrow> GmaReorder" where
  "rq_UpdateReorderTimeout s =
    (let (maxOwd, minOwd) = foldl (\<lambda>(maxOwd, minOwd) (c, p).
           (if maxOwd < mp_maxOwd p then mp_maxOwd p else maxOwd,
            if minOwd > mp_minOwd p then mp_minOwd p else minOwd))
         (0, UINT32_MAX) (rq_measureParamPerCidMap s) in
     if maxOwd \<noteq> 0 \<and> minOwd \<noteq> UINT32_MAX \<and> length (rq_measureParamPerCidMap s) > 1 then
       (let t = max MIN_REORDERING_TIMEOUT (min MAX_REORDERING_TIMEOUT (uint (2 * (maxOwd - minOwd)) * 1000000)) in
        if t > rq_reorderingTimeout s then s\<lparr>rq_reorderingTimeout := t\<rparr> else s)
     else s)"

definition rq_expired :: "time \<Rightarrow> GmaReorder \<Rightarrow> bool" where
  "rq_expired now s \<longleftrightarrow> list_ex (\<lambda>(c, p). case lp_reorderingQueue p of [] \<Rightarrow> False
    | item # _ \<Rightarrow> now \<ge> ri_receivedTime item + rq_reorderingTimeout s) (rq_linkParamsMap s)"

text \<open>The loop of \<open>ReleaseInOrderPackets\<close>; it returns the last link found, which the code after the
  loop uses.\<close>

function rq_release_loop :: "time \<Rightarrow> u8 \<Rightarrow> GmaReorder \<Rightarrow> (u8 \<times> GmaReorder) result" where
  "rq_release_loop now minCid s =
    (if rq_totalQueueSize s > 0 then
       (let (minSn, minCid') = rq_scan MAX_GMA_SN minCid (rq_linkParamsMap s) in
        if minSn = rq_gmaRxExpectedSn s then
          rbind (rassert (minCid' \<noteq> 255) '' cannot be the initial value'') (\<lambda>_.
          rbind (rq_dequeue minCid' s) (\<lambda>(item, s).
          let s = rq_expect_after (ri_gmaHeader item) (rq_deliver now item s) in
          if rq_newLinkCid s = gh_connectionId (ri_gmaHeader item) then
            rbind (rq_StopReordering now s) (\<lambda>s. rq_release_loop now minCid' s)
          else rq_release_loop now minCid' s))
        else if SnDiff (to_int minSn) (to_int (rq_gmaRxExpectedSn s)) < 0 then
          rbind (rq_dequeue minCid' s) (\<lambda>(item, s). rq_release_loop now minCid' (rq_deliver now item s))
        else
          rbind (rassert (minCid' \<noteq> 255) '' cannot be the initial value'') (\<lambda>_.
          rbind (rq_dequeue minCid' s) (\<lambda>(item, t).
          if ri_inOrder item then
            rq_release_loop now minCid' (rq_expect_after (ri_gmaHeader item) (rq_deliver now item t))
          else if rq_expired now s then
            rq_release_loop now minCid' (rq_expect_after (ri_gmaHeader item)
              (rq_deliver now item (t\<lparr>rq_reorderingTimeoutCounter := rq_reorderingTimeoutCounter s + 1\<rparr>)))
          else Inr (minCid', s))))
     else Inr (minCid, s))"
  by pat_completeness auto
termination
  by (relation "measure (\<lambda>(now, minCid, s). rq_queued s)")
    (auto dest: rq_dequeue_less dest!: rq_StopReordering_le intro: le_less_trans)

declare rq_release_loop.simps [simp del]

definition rq_ReleaseInOrderPackets :: "time \<Rightarrow> GmaReorder \<Rightarrow> GmaReorder result" where
  "rq_ReleaseInOrderPackets now s =
    rbind (rq_release_loop now 255 (rq_UpdateReorderTimeout s)) (\<lambda>(minCid, s).
    if rq_totalQueueSize s > 0 then
      (case rq_front minCid (rq_linkParamsMap s) of
         None \<Rightarrow> Inl (Undefined ''front of an empty queue'')
       | Some item \<Rightarrow>
           Inr (s\<lparr>rq_reorderingTimeoutEvent :=
             Some (now + (rq_reorderingTimeout s + 1000000 - (now - ri_receivedTime item)))\<rparr>))
    else Inr (s\<lparr>rq_reorderingTimeoutEvent := None\<rparr>))"

text \<open>The event of the reordering timeout; it is no longer running when its function is called.\<close>

definition rq_ReorderingTimeout :: "time \<Rightarrow> GmaReorder \<Rightarrow> GmaReorder result" where
  "rq_ReorderingTimeout now s =
    rbind (rq_ReleaseInOrderPackets now (s\<lparr>rq_reorderingTimeoutEvent := None\<rparr>)) (\<lambda>s.
    Inr (s\<lparr>rq_reorderingTimeout := max MIN_REORDERING_TIMEOUT (min MAX_REORDERING_TIMEOUT (2 * rq_reorderingTimeout s)),
      rq_nextReorderingUpdateTime := now + 10 * 1000000000\<rparr>))"

section \<open>Delivery of a packet\<close>

definition rq_enqueue :: "u8 \<Rightarrow> RxQueueIterm \<Rightarrow> GmaReorder \<Rightarrow> GmaReorder" where
  "rq_enqueue cid item s = s\<lparr>rq_linkParamsMap := rq_push cid item (rq_linkParamsMap s),
    rq_totalQueueSize := rq_totalQueueSize s + 1\<rparr>"

definition rq_set_last :: "u8 \<Rightarrow> GmaHeader \<Rightarrow> GmaReorder \<Rightarrow> GmaReorder" where
  "rq_set_last cid h s = s\<lparr>rq_linkParamsMap := map (\<lambda>(c, p). (c, if c = cid
    then p\<lparr>lp_gmaRxLastLocalSn := gh_localSequenceNumber h, lp_gmaRxLastSn := gh_sequenceNumber h\<rparr> else p))
    (rq_linkParamsMap s)\<rparr>"

definition rq_in_order :: "time \<Rightarrow> u8 \<Rightarrow> u8 list \<Rightarrow> GmaHeader \<Rightarrow> u32 \<Rightarrow> GmaReorder \<Rightarrow> GmaReorder result" where
  "rq_in_order now cid packet h nextSn s =
    rbind (rq_ReleaseInOrderPackets now ((rq_MeasureAndForward now packet h s)\<lparr>rq_gmaRxExpectedSn := nextSn\<rparr>)) (\<lambda>s.
    if rq_newLinkCid s = cid then rq_StopReordering now s else Inr s)"

definition rq_too_early ::
    "(u8 \<Rightarrow> bool) \<Rightarrow> time \<Rightarrow> u8 \<Rightarrow> LinkParams \<Rightarrow> u8 list \<Rightarrow> GmaHeader \<Rightarrow> GmaReorder \<Rightarrow> GmaReorder result" where
  "rq_too_early up now cid p packet h s =
    (let numOfLostPacket = LsnDiff (uint (gh_localSequenceNumber h)) (uint (lp_gmaRxLastLocalSn p)) - 1;
         item = (\<lambda>inOrder. \<lparr>ri_packet = packet, ri_gmaHeader = h, ri_inOrder = inOrder, ri_receivedTime = now\<rparr>) in
     rbind (if rq_useLsnReordering s
             \<and> numOfLostPacket = SnDiff (to_int (gh_sequenceNumber h)) (to_int (lp_gmaRxLastSn p)) - 1 then
          (if length (lp_reorderingQueue p) = 0 then
             rq_in_order now cid packet h ((gh_sequenceNumber h + 1) AND MAX_GMA_SN) s
           else
             rbind (rassert (rq_totalQueueSize s \<noteq> 0) ''it cannnot be empty here'') (\<lambda>_.
             rbind (rassert (rq_reorderingTimeoutEvent s \<noteq> None) ''The reordering cannot be expired'') (\<lambda>_.
             Inr (rq_enqueue cid (item True) s))))
        else
          (let s = (if rq_newLinkCid s = cid \<and> rq_stopReorderEvent s = None
              then (let s = rq_UpdateReorderTimeout s in s\<lparr>rq_stopReorderEvent := Some (now + rq_reorderingTimeout s)\<rparr>)
              else s) in
           Inr (rq_enqueue cid (item False) s))) (\<lambda>s.
     rbind (rq_ReleaseMinSnPacket up now s) (\<lambda>s.
     rq_ReleaseInOrderPackets now s)))"

definition rq_InOrderDelivery ::
    "(u8 \<Rightarrow> bool) \<Rightarrow> time \<Rightarrow> u8 list \<Rightarrow> GmaHeader \<Rightarrow> u8 \<Rightarrow> GmaReorder \<Rightarrow> GmaReorder result" where
  "rq_InOrderDelivery up now packet h cid s =
    (case sm_find cid (rq_linkParamsMap s) of
       None \<Rightarrow> Inl (Assertion ''this cid doesnot exit'')
     | Some p \<Rightarrow>
         rbind (rassert (gh_connectionId h = cid)
           ''Now the cid from GMA header should be the same converted from port number'') (\<lambda>_.
         rbind (if gh_sequenceNumber h = rq_gmaRxExpectedSn s then
             rq_in_order now cid packet h ((rq_gmaRxExpectedSn s + 1) AND MAX_GMA_SN) s
           else if SnDiff (to_int (gh_sequenceNumber h)) (to_int (rq_gmaRxExpectedSn s)) < 0 then Inr s
           else rq_too_early up now cid p packet h s) (\<lambda>s.
         Inr (rq_set_last cid h s))))"

section \<open>No packet is lost in the queues\<close>

definition rq_item :: "RxQueueIterm \<Rightarrow> u8 list \<times> GmaHeader" where
  "rq_item i = (ri_packet i, ri_gmaHeader i)"

text \<open>The packets the receiver has accepted: forwarded or still queued.\<close>

definition rq_bag :: "GmaReorder \<Rightarrow> (u8 list \<times> GmaHeader) multiset" where
  "rq_bag s = mset (rq_forwarded s) + mset (map rq_item (rq_all (rq_linkParamsMap s)))"

definition rq_wf :: "GmaReorder \<Rightarrow> bool" where
  "rq_wf s \<longleftrightarrow> distinct (map fst (rq_linkParamsMap s)) \<and> 255 \<notin> fst ` set (rq_linkParamsMap s)
    \<and> unat (rq_totalQueueSize s) = rq_queued s"

definition rq_timeout_ok :: "GmaReorder \<Rightarrow> bool" where
  "rq_timeout_ok s \<longleftrightarrow> 0 \<le> rq_reorderingTimeout s \<and> rq_reorderingTimeout s \<le> MAX_REORDERING_TIMEOUT"

definition rq_keeps :: "GmaReorder \<Rightarrow> GmaReorder \<Rightarrow> bool" where
  "rq_keeps s s' \<longleftrightarrow> rq_wf s' \<and> rq_bag s' = rq_bag s \<and> map fst (rq_linkParamsMap s') = map fst (rq_linkParamsMap s)
    \<and> (rq_timeout_ok s \<longrightarrow> rq_timeout_ok s')"

lemma rq_keeps_trans [trans]: "rq_keeps a b \<Longrightarrow> rq_keeps b c \<Longrightarrow> rq_keeps a c"
  by (simp add: rq_keeps_def)

lemma rq_MeasureAndForward_fields [simp]:
  "rq_forwarded (rq_MeasureAndForward now p h s) = rq_forwarded s @ [(p, h)]"
  "rq_totalQueueSize (rq_MeasureAndForward now p h s) = rq_totalQueueSize s"
  "rq_gmaRxExpectedSn (rq_MeasureAndForward now p h s) = rq_gmaRxExpectedSn s"
  "rq_newLinkCid (rq_MeasureAndForward now p h s) = rq_newLinkCid s"
  "rq_useLsnReordering (rq_MeasureAndForward now p h s) = rq_useLsnReordering s"
  "rq_stopReorderEvent (rq_MeasureAndForward now p h s) = rq_stopReorderEvent s"
  "rq_reorderingTimeout (rq_MeasureAndForward now p h s) = rq_reorderingTimeout s"
  "rq_enableReordering (rq_MeasureAndForward now p h s) = rq_enableReordering s"
  by (simp_all add: rq_MeasureAndForward_def rq_count_flow_def rq_count_owd_def Let_def)

lemma rq_MeasureAndForward_counter [simp]:
  "rq_MeasureAndForward now p h (s\<lparr>rq_reorderingTimeoutCounter := x\<rparr>)
    = (rq_MeasureAndForward now p h s)\<lparr>rq_reorderingTimeoutCounter := x\<rparr>"
  by (simp add: rq_MeasureAndForward_def rq_count_flow_def rq_count_owd_def Let_def)

lemma rq_pop_keys [simp]: "map fst (rq_pop c ps) = map fst ps" "fst ` set (rq_pop c ps) = fst ` set ps"
  by (force simp: rq_pop_def image_iff)+

lemma rq_front_key: "rq_front c ps = Some item \<Longrightarrow> c \<in> fst ` set ps"
  by (force simp: rq_front_def sm_find_def split: option.splits dest: map_of_SomeD)

lemma rq_pop_absent: "c \<notin> fst ` set ps \<Longrightarrow> rq_all (rq_pop c ps) = rq_all ps"
  by (induction ps) (auto simp: rq_pop_def rq_all_def)

lemma rq_pop_mset:
  assumes "distinct (map fst ps)" "rq_front c ps = Some item"
  shows "mset (rq_all ps) = add_mset item (mset (rq_all (rq_pop c ps)))"
  using assms
proof (induction ps)
  case Nil
  then show ?case by (simp add: rq_front_def sm_find_def)
next
  case (Cons q ps)
  obtain d p where q: "q = (d, p)" by (cases q)
  have all: "rq_all ((d, p) # ps) = lp_reorderingQueue p @ rq_all ps" for ps by (simp add: rq_all_def)
  show ?case
  proof (cases "d = c")
    case True
    then obtain l where "lp_reorderingQueue p = item # l"
      using Cons.prems(2) q by (auto simp: rq_front_def sm_find_def split: list.splits)
    moreover have "c \<notin> fst ` set ps" using Cons.prems(1) q True by simp
    then have "rq_all (rq_pop c (q # ps)) = tl (lp_reorderingQueue p) @ rq_all ps"
      using rq_pop_absent [of c ps] q True by (simp add: rq_pop_def rq_all_def)
    ultimately show ?thesis by (simp add: all q)
  next
    case False
    then have "rq_front c ps = Some item" using Cons.prems(2) q by (simp add: rq_front_def sm_find_def)
    moreover have "rq_all (rq_pop c (q # ps)) = lp_reorderingQueue p @ rq_all (rq_pop c ps)"
      using False q by (simp add: rq_pop_def rq_all_def)
    ultimately show ?thesis using Cons.IH Cons.prems(1) unfolding q by (simp add: all)
  qed
qed

text \<open>Taking the front of a queue and forwarding it keeps everything, whatever becomes of the expected
  number.\<close>

lemma rq_dequeue_ok:
  assumes "rq_wf s" "rq_front c (rq_linkParamsMap s) = Some item"
  shows "\<exists>t. rq_dequeue c s = Inr (item, t)
    \<and> t = s\<lparr>rq_linkParamsMap := rq_pop c (rq_linkParamsMap s), rq_totalQueueSize := rq_totalQueueSize s - 1\<rparr>
    \<and> c \<noteq> 255 \<and> rq_keeps s (rq_deliver now item t) \<and> 0 < rq_queued s"
proof -
  let ?ps = "rq_linkParamsMap s"
  have m: "mset (rq_all ?ps) = add_mset item (mset (rq_all (rq_pop c ?ps)))"
    using assms by (intro rq_pop_mset) (auto simp: rq_wf_def)
  then have l: "rq_queued s = Suc (length (rq_all (rq_pop c ?ps)))"
    by (metis size_add_mset size_mset)
  then have "rq_totalQueueSize s \<noteq> 0" using assms(1) by (auto simp: rq_wf_def)
  then have "unat (rq_totalQueueSize s - 1) = length (rq_all (rq_pop c ?ps))"
    using assms(1) l by (simp add: rq_wf_def unat_minus_one)
  moreover have "mset (map rq_item (rq_all ?ps)) = add_mset (rq_item item) (mset (map rq_item (rq_all (rq_pop c ?ps))))"
    using m by (simp add: mset_map)
  ultimately show ?thesis using assms l rq_front_key [OF assms(2)]
    by (auto simp: rq_dequeue_def rq_keeps_def rq_wf_def rq_bag_def rq_item_def rq_timeout_ok_def)
qed

lemma rq_keeps_expect [simp]: "rq_keeps s (t\<lparr>rq_gmaRxExpectedSn := x\<rparr>) = rq_keeps s t"
  by (simp add: rq_keeps_def rq_wf_def rq_bag_def rq_timeout_ok_def)

lemma rq_keeps_wf: "rq_keeps s t \<Longrightarrow> rq_wf t"
  by (simp add: rq_keeps_def)

lemma rq_wf_expect [simp]: "rq_wf (t\<lparr>rq_gmaRxExpectedSn := x\<rparr>) = rq_wf t"
  by (simp add: rq_wf_def)

text \<open>The links found by the two loops have a packet in front.\<close>

lemma rq_front_Cons: "rq_front c ((d, p) # ps) = (if c = d then (case lp_reorderingQueue p of [] \<Rightarrow> None
    | item # _ \<Rightarrow> Some item) else rq_front c ps)"
  by (auto simp: rq_front_def sm_find_def)

lemma rq_scan_found:
  assumes "distinct (map fst ps)" "rq_scan m0 c0 ps = (m, c)"
  shows "m = m0 \<and> c = c0 \<and> (m0 = MAX_GMA_SN \<longrightarrow> rq_all ps = [])
    \<or> (\<exists>item. rq_front c ps = Some item \<and> ri_sn item = m)"
  using assms
proof (induction m0 c0 ps rule: rq_scan.induct)
  case (2 m0 c0 d p ps)
  have other: "rq_front c ((d, p) # ps) = rq_front c ps" if "rq_front c ps = Some item" for item
    using 2(4) rq_front_key [OF that] by (auto simp: rq_front_Cons)
  show ?case
  proof (cases "lp_reorderingQueue p")
    case Nil
    then show ?thesis using 2 other by (fastforce simp: rq_all_def)
  next
    case (Cons item l)
    have found: "rq_front d ((d, p) # ps) = Some item" by (simp add: rq_front_Cons Cons)
    show ?thesis
    proof (cases "rq_smaller m0 (ri_sn item)")
      case True
      then have "rq_scan (ri_sn item) d ps = (m, c)" using 2(5) Cons by simp
      then show ?thesis using 2(2) [OF Cons True] 2(4) other found by fastforce
    next
      case False
      then have "rq_scan m0 c0 ps = (m, c)" "m0 \<noteq> MAX_GMA_SN" using 2(5) Cons by (simp_all add: rq_smaller_def)
      then show ?thesis using 2(3) [OF Cons False] 2(4) other by fastforce
    qed
  qed
qed (simp add: rq_all_def)

lemma rq_scan_full_found:
  assumes "distinct (map fst ps)" "rq_scan_full up m0 c0 ps = Some (m, c)"
  shows "m = m0 \<and> c = c0 \<and> m0 \<noteq> MAX_GMA_SN \<or> (\<exists>item. rq_front c ps = Some item \<and> ri_sn item = m)"
  using assms
proof (induction up m0 c0 ps rule: rq_scan_full.induct)
  case (2 up m0 c0 d p ps)
  have other: "rq_front c ((d, p) # ps) = rq_front c ps" if "rq_front c ps = Some item" for item
    using 2(4) rq_front_key [OF that] by (auto simp: rq_front_Cons)
  show ?case
  proof (cases "lp_reorderingQueue p")
    case Nil
    then show ?thesis using 2 other by (fastforce split: if_splits)
  next
    case (Cons item l)
    have found: "rq_front d ((d, p) # ps) = Some item" by (simp add: rq_front_Cons Cons)
    show ?thesis
    proof (cases "rq_smaller m0 (ri_sn item)")
      case True
      then have "rq_scan_full up (ri_sn item) d ps = Some (m, c)" using 2(5) Cons by simp
      then show ?thesis using 2(2) [OF Cons True] 2(4) other found by fastforce
    next
      case False
      then have "rq_scan_full up m0 c0 ps = Some (m, c)" using 2(5) Cons by simp
      then show ?thesis using 2(3) [OF Cons False] 2(4) other by fastforce
    qed
  qed
qed (simp split: if_splits)

lemma rq_scan_front:
  assumes "rq_wf s" "0 < rq_totalQueueSize s" "rq_scan MAX_GMA_SN c0 (rq_linkParamsMap s) = (m, c)"
  shows "\<exists>item. rq_front c (rq_linkParamsMap s) = Some item \<and> ri_sn item = m"
proof -
  have "rq_all (rq_linkParamsMap s) \<noteq> []" using assms(1,2) by (auto simp: rq_wf_def word_gt_0 unat_eq_0)
  then show ?thesis using rq_scan_found [OF _ assms(3)] assms(1) by (auto simp: rq_wf_def)
qed

section \<open>The moves of the release functions\<close>

text \<open>Every function that releases packets is a sequence of these moves: the packet with the smallest
  number in front of the queues is forwarded and its successor is expected next, or it is forwarded as a
  packet of the past, or fields that the queues do not depend on change.\<close>

definition rq_core :: "GmaReorder \<Rightarrow> (u8, LinkParams) smap \<times> u32 \<times> (u8 list \<times> GmaHeader) list \<times> u32 \<times> bool" where
  "rq_core s = (rq_linkParamsMap s, rq_totalQueueSize s, rq_forwarded s, rq_gmaRxExpectedSn s, rq_useLsnReordering s)"

inductive rq_moves :: "time \<Rightarrow> GmaReorder \<Rightarrow> GmaReorder \<Rightarrow> bool" for now where
  stay: "rq_moves now s s"
| take: "rq_moves now s u \<Longrightarrow> rq_scan MAX_GMA_SN c0 (rq_linkParamsMap u) = (ri_sn item, c)
    \<Longrightarrow> rq_dequeue c u = Inr (item, t)
    \<Longrightarrow> rq_moves now s (rq_expect_after (ri_gmaHeader item) (rq_deliver now item t))"
| late: "rq_moves now s u \<Longrightarrow> rq_scan MAX_GMA_SN c0 (rq_linkParamsMap u) = (ri_sn item, c)
    \<Longrightarrow> rq_dequeue c u = Inr (item, t) \<Longrightarrow> SnDiff (to_int (ri_sn item)) (to_int (rq_gmaRxExpectedSn u)) < 0
    \<Longrightarrow> rq_moves now s (rq_deliver now item t)"
| frame: "rq_moves now s u \<Longrightarrow> rq_core v = rq_core u \<Longrightarrow> rq_timeout_ok u \<longrightarrow> rq_timeout_ok v \<Longrightarrow> rq_moves now s v"

lemmas rq_moves.stay [simp, intro]

lemma rq_moves_trans: "rq_moves now t u \<Longrightarrow> rq_moves now s t \<Longrightarrow> rq_moves now s u"
  by (induction rule: rq_moves.induct) (blast intro: rq_moves.intros)+

lemma rq_dequeue_front: "rq_dequeue c s = Inr (item, t) \<Longrightarrow> rq_front c (rq_linkParamsMap s) = Some item"
  by (simp add: rq_dequeue_def split: option.splits)

lemma rq_moves_keeps: "rq_moves now s s' \<Longrightarrow> rq_wf s \<Longrightarrow> rq_keeps s s'"
proof (induction rule: rq_moves.induct)
  case (stay s)
  then show ?case by (simp add: rq_keeps_def)
next
  case (take s u c0 item c t)
  then have k: "rq_keeps s u" by simp
  then have "rq_keeps u (rq_deliver now item t)"
    using rq_dequeue_ok [of u c item now] rq_dequeue_front take.hyps(3) rq_keeps_wf by fastforce
  then show ?case using rq_keeps_trans [OF k] by simp
next
  case (late s u c0 item c t)
  then have k: "rq_keeps s u" by simp
  then have "rq_keeps u (rq_deliver now item t)"
    using rq_dequeue_ok [of u c item now] rq_dequeue_front late.hyps(3) rq_keeps_wf by fastforce
  then show ?case using rq_keeps_trans [OF k] by simp
next
  case (frame s u v)
  then show ?case by (simp add: rq_keeps_def rq_wf_def rq_bag_def rq_core_def)
qed

text \<open>No packet is queued while the reordering is switched off.\<close>

definition rq_quiet :: "GmaReorder \<Rightarrow> bool" where
  "rq_quiet s \<longleftrightarrow> rq_enableReordering s \<or> rq_queued s = 0"

definition rq_calm :: "GmaReorder \<Rightarrow> GmaReorder \<Rightarrow> bool" where
  "rq_calm s s' \<longleftrightarrow> (rq_quiet s \<longrightarrow> rq_quiet s')"

lemma rq_calm_expect [simp]: "rq_calm s (t\<lparr>rq_gmaRxExpectedSn := x\<rparr>) = rq_calm s t"
  by (simp add: rq_calm_def rq_quiet_def)

lemma rq_calm_trans: "rq_calm a b \<Longrightarrow> rq_calm b c \<Longrightarrow> rq_calm a c"
  by (simp add: rq_calm_def)

definition rq_goes :: "time \<Rightarrow> GmaReorder \<Rightarrow> GmaReorder \<Rightarrow> bool" where
  "rq_goes now s s' \<longleftrightarrow> rq_moves now s s' \<and> rq_keeps s s' \<and> rq_calm s s'"

lemma rq_goes_trans: "rq_goes now a b \<Longrightarrow> rq_goes now b c \<Longrightarrow> rq_goes now a c"
  using rq_moves_trans rq_keeps_trans rq_calm_trans unfolding rq_goes_def by blast

lemma rq_goes_wf: "rq_goes now s t \<Longrightarrow> rq_wf t"
  unfolding rq_goes_def using rq_keeps_wf by blast

lemma rq_goes_refl: "rq_wf s \<Longrightarrow> rq_goes now s s"
  by (simp add: rq_goes_def rq_keeps_def rq_calm_def)

lemma rq_goes_frame: "rq_goes now s u \<Longrightarrow> rq_core v = rq_core u \<Longrightarrow> rq_timeout_ok u \<longrightarrow> rq_timeout_ok v
    \<Longrightarrow> rq_enableReordering v = rq_enableReordering u \<Longrightarrow> rq_goes now s v"
  unfolding rq_goes_def
  by (auto intro: rq_moves.frame simp: rq_keeps_def rq_wf_def rq_bag_def rq_core_def rq_calm_def rq_quiet_def)

lemma rq_turn:
  assumes "rq_wf s" "rq_scan MAX_GMA_SN c0 (rq_linkParamsMap s) = (ri_sn item, c)"
    "rq_front c (rq_linkParamsMap s) = Some item"
  shows "\<exists>t. rq_dequeue c s = Inr (item, t) \<and> c \<noteq> 255
    \<and> t = s\<lparr>rq_linkParamsMap := rq_pop c (rq_linkParamsMap s), rq_totalQueueSize := rq_totalQueueSize s - 1\<rparr>
    \<and> rq_goes now s (rq_expect_after (ri_gmaHeader item) (rq_deliver now item t))
    \<and> (SnDiff (to_int (ri_sn item)) (to_int (rq_gmaRxExpectedSn s)) < 0 \<longrightarrow> rq_goes now s (rq_deliver now item t))"
proof -
  obtain t where t: "rq_dequeue c s = Inr (item, t)" "c \<noteq> 255" "rq_keeps s (rq_deliver now item t)"
    "t = s\<lparr>rq_linkParamsMap := rq_pop c (rq_linkParamsMap s), rq_totalQueueSize := rq_totalQueueSize s - 1\<rparr>"
    using rq_dequeue_ok [OF assms(1,3), of now] by blast
  moreover have "rq_queued t \<le> rq_queued s" using rq_dequeue_less [OF t(1)] by simp
  then have "rq_calm s (rq_deliver now item t)" using t(4) by (auto simp: rq_calm_def rq_quiet_def)
  ultimately show ?thesis using rq_moves.take [OF rq_moves.stay assms(2) t(1)] rq_moves.late [OF rq_moves.stay assms(2) t(1)]
    unfolding rq_goes_def by auto
qed

lemma rq_scan_full_scan: "rq_scan_full up m0 c0 ps = Some r \<Longrightarrow> rq_scan m0 c0 ps = r"
  by (induction up m0 c0 ps rule: rq_scan_full.induct) (auto split: list.splits if_splits)

section \<open>The loops end and keep every packet\<close>

lemma rq_release_all_ok:
  "rq_wf s \<Longrightarrow> \<exists>s'. rq_release_all now c s = Inr s' \<and> rq_goes now s s' \<and> rq_queued s' = 0"
proof (induction now c s rule: rq_release_all.induct)
  case (1 now c s)
  show ?case
  proof (cases "rq_totalQueueSize s > 0")
    case True
    obtain m d where sc: "rq_scan MAX_GMA_SN c (rq_linkParamsMap s) = (m, d)" by fastforce
    obtain item where f: "rq_front d (rq_linkParamsMap s) = Some item" "ri_sn item = m"
      using rq_scan_front [OF 1(2) True sc] by blast
    obtain t where t: "rq_dequeue d s = Inr (item, t)" "d \<noteq> 255" "rq_goes now s (rq_expect_after (ri_gmaHeader item) (rq_deliver now item t))"
      using rq_turn [OF 1(2) sc [folded f(2)] f(1), of now] by blast
    let ?t = "rq_expect_after (ri_gmaHeader item) (rq_deliver now item t)"
    have r: "rassert (d \<noteq> 255) '' cannot be the initial value'' = Inr ()" using t(2) by simp
    have "rq_wf ?t" using t(3) by (rule rq_goes_wf)
    then obtain s' where s': "rq_release_all now d ?t = Inr s'" "rq_goes now ?t s'" "rq_queued s' = 0"
      using 1(1) [OF True sc [symmetric] refl r t(1) refl] by blast
    have "rq_release_all now c s = Inr s'"
      using True sc t(1,2) s'(1) by (subst rq_release_all.simps) simp
    then show ?thesis using s'(2,3) rq_goes_trans [OF t(3)] by blast
  next
    case False
    then have z: "rq_totalQueueSize s = 0" by (simp add: word_gt_0)
    then have "rq_release_all now c s = Inr s" by (subst rq_release_all.simps) simp
    moreover have "rq_queued s = 0" using 1(2) z unfolding rq_wf_def by (metis unat_0)
    ultimately show ?thesis using rq_goes_refl [OF 1(2)] by auto
  qed
qed

lemma rq_StopReordering_ok:
  assumes "rq_wf s"
  shows "\<exists>s'. rq_StopReordering now s = Inr s' \<and> rq_goes now s s' \<and> rq_queued s' = 0"
proof -
  let ?s = "if rq_enableReordering s = True
    then s\<lparr>rq_enableReordering := False, rq_newLinkCid := UINT8_MAX, rq_stopReorderEvent := None\<rparr> else s"
  have m: "rq_moves now s ?s"
    by (rule rq_moves.frame [OF rq_moves.stay]) (simp_all add: rq_core_def rq_timeout_ok_def)
  have k: "rq_keeps s ?s" by (rule rq_moves_keeps [OF m assms])
  obtain s' where s': "rq_release_all now 255 ?s = Inr s'" "rq_goes now ?s s'" "rq_queued s' = 0"
    using rq_release_all_ok [OF rq_keeps_wf [OF k]] by blast
  have "rq_calm s s'" using s'(3) by (simp add: rq_calm_def rq_quiet_def)
  then have "rq_goes now s s'"
    using s'(2) rq_moves_trans [OF _ m] rq_keeps_trans [OF k] unfolding rq_goes_def by blast
  then show ?thesis using s'(1,3) by (simp add: rq_StopReordering_def rq_ReleaseAllPackets_def Let_def)
qed

lemma rq_ReleaseMinSnPacket_ok:
  "rq_wf s \<Longrightarrow> \<exists>s'. rq_ReleaseMinSnPacket up now s = Inr s' \<and> rq_goes now s s'"
proof (induction up now s rule: rq_ReleaseMinSnPacket.induct)
  case (1 up now s)
  show ?case
  proof (cases "rq_scan_full up MAX_GMA_SN 255 (rq_linkParamsMap s)")
    case None
    then show ?thesis using rq_goes_refl [OF 1(3)] by (subst rq_ReleaseMinSnPacket.simps) simp
  next
    case (Some q)
    obtain m d where q: "q = (m, d)" by (cases q)
    obtain item where f: "rq_front d (rq_linkParamsMap s) = Some item" "ri_sn item = m"
      using rq_scan_full_found [OF _ Some [unfolded q]] 1(3) by (auto simp: rq_wf_def)
    obtain t where t: "rq_dequeue d s = Inr (item, t)" "d \<noteq> 255" "rq_gmaRxExpectedSn t = rq_gmaRxExpectedSn s"
      "rq_goes now s (rq_expect_after (ri_gmaHeader item) (rq_deliver now item t))"
      "SnDiff (to_int (ri_sn item)) (to_int (rq_gmaRxExpectedSn s)) < 0 \<longrightarrow> rq_goes now s (rq_deliver now item t)"
      using rq_turn [OF 1(3) rq_scan_full_scan [OF Some [unfolded q], folded f(2)] f(1), of now] by auto
    have r: "rassert (d \<noteq> 255) '' cannot be the initial value'' = Inr ()" using t(2) by simp
    let ?late = "\<not> SnDiff (to_int (ri_sn item)) (to_int (rq_gmaRxExpectedSn t)) \<ge> 0"
    let ?t = "if ?late then rq_deliver now item t else rq_expect_after (ri_gmaHeader item) (rq_deliver now item t)"
    have k: "rq_goes now s ?t" using t(3-5) by simp
    then have wf: "rq_wf ?t" by (rule rq_goes_wf)
    have "\<exists>s'. rq_ReleaseMinSnPacket up now ?t = Inr s' \<and> rq_goes now ?t s'"
      using 1(1) [OF Some q [symmetric] r t(1) refl] 1(2) [OF Some q [symmetric] r t(1) refl] wf by (simp split: if_splits)
    then obtain s' where s': "rq_ReleaseMinSnPacket up now ?t = Inr s'" "rq_goes now ?t s'" by blast
    have "rq_ReleaseMinSnPacket up now s = Inr s'"
      using Some q t(1,2) s'(1) by (subst rq_ReleaseMinSnPacket.simps) (auto split: if_splits)
    then show ?thesis using s'(2) k rq_goes_trans by blast
  qed
qed

lemma rq_UpdateReorderTimeout_fields [simp]:
  "rq_linkParamsMap (rq_UpdateReorderTimeout s) = rq_linkParamsMap s"
  "rq_totalQueueSize (rq_UpdateReorderTimeout s) = rq_totalQueueSize s"
  "rq_forwarded (rq_UpdateReorderTimeout s) = rq_forwarded s"
  "rq_gmaRxExpectedSn (rq_UpdateReorderTimeout s) = rq_gmaRxExpectedSn s"
  "rq_newLinkCid (rq_UpdateReorderTimeout s) = rq_newLinkCid s"
  "rq_useLsnReordering (rq_UpdateReorderTimeout s) = rq_useLsnReordering s"
  "rq_enableReordering (rq_UpdateReorderTimeout s) = rq_enableReordering s"
  "rq_reorderingTimeoutEvent (rq_UpdateReorderTimeout s) = rq_reorderingTimeoutEvent s"
  by (auto simp: rq_UpdateReorderTimeout_def Let_def split: prod.splits)

lemma rq_UpdateReorderTimeout_mono: "rq_reorderingTimeout s \<le> rq_reorderingTimeout (rq_UpdateReorderTimeout s)"
  by (auto simp: rq_UpdateReorderTimeout_def Let_def split: prod.splits)

lemma rq_UpdateReorderTimeout_ok: "rq_timeout_ok s \<Longrightarrow> rq_timeout_ok (rq_UpdateReorderTimeout s)"
  by (auto simp: rq_UpdateReorderTimeout_def rq_timeout_ok_def Let_def MIN_REORDERING_TIMEOUT_def
    MAX_REORDERING_TIMEOUT_def split: prod.splits)

text \<open>The loop of \<open>ReleaseInOrderPackets\<close>: the link it ends with has a packet in front, and no front has
  waited for the timeout.\<close>

definition rq_waits :: "GmaReorder \<Rightarrow> bool" where
  "rq_waits s \<longleftrightarrow> (\<exists>c m d. rq_scan MAX_GMA_SN c (rq_linkParamsMap s) = (m, d) \<and> m \<noteq> rq_gmaRxExpectedSn s
    \<and> \<not> SnDiff (to_int m) (to_int (rq_gmaRxExpectedSn s)) < 0)"

lemma rq_release_loop_ok:
  "rq_wf s \<Longrightarrow> \<exists>d s'. rq_release_loop now c s = Inr (d, s') \<and> rq_goes now s s'
    \<and> (rq_totalQueueSize s' > 0 \<longrightarrow> rq_front d (rq_linkParamsMap s') \<noteq> None \<and> \<not> rq_expired now s' \<and> rq_waits s')"
proof (induction now c s rule: rq_release_loop.induct)
  case (1 now c s)
  let ?goal = "\<lambda>s0 r. \<exists>d s'. r = Inr (d, s') \<and> rq_goes now s0 s'
    \<and> (rq_totalQueueSize s' > 0 \<longrightarrow> rq_front d (rq_linkParamsMap s') \<noteq> None \<and> \<not> rq_expired now s' \<and> rq_waits s')"
  have step: "?goal s r" if "rq_goes now s t" "?goal t r" for t r using that rq_goes_trans by blast
  show ?case
  proof (cases "rq_totalQueueSize s > 0")
    case False
    then show ?thesis using rq_goes_refl [OF 1(6)] by (subst rq_release_loop.simps) simp
  next
    case True
    obtain m d where sc: "rq_scan MAX_GMA_SN c (rq_linkParamsMap s) = (m, d)" by fastforce
    obtain item where f: "rq_front d (rq_linkParamsMap s) = Some item" "ri_sn item = m"
      using rq_scan_front [OF 1(6) True sc] by blast
    obtain t where t: "rq_dequeue d s = Inr (item, t)" "d \<noteq> 255"
      "rq_goes now s (rq_expect_after (ri_gmaHeader item) (rq_deliver now item t))"
      "t = s\<lparr>rq_linkParamsMap := rq_pop d (rq_linkParamsMap s), rq_totalQueueSize := rq_totalQueueSize s - 1\<rparr>"
      "SnDiff (to_int m) (to_int (rq_gmaRxExpectedSn s)) < 0 \<longrightarrow> rq_goes now s (rq_deliver now item t)"
      using rq_turn [OF 1(6) sc [folded f(2)] f(1), of now] f(2) by blast
    have r: "rassert (d \<noteq> 255) '' cannot be the initial value'' = Inr ()" using t(2) by simp
    let ?t = "rq_expect_after (ri_gmaHeader item) (rq_deliver now item t)"
    let ?tc = "rq_expect_after (ri_gmaHeader item)
      (rq_deliver now item (t\<lparr>rq_reorderingTimeoutCounter := rq_reorderingTimeoutCounter s + 1\<rparr>))"
    have k: "rq_goes now s ?t" "rq_goes now s ?tc"
      using t(3) rq_goes_frame [OF t(3), of ?tc] by (simp_all add: rq_core_def rq_timeout_ok_def)
    then have wf: "rq_wf ?t" "rq_wf ?tc" by (auto dest: rq_goes_wf)
    note unf = rq_release_loop.simps [of now c s]
    consider "m = rq_gmaRxExpectedSn s" "rq_newLinkCid ?t = gh_connectionId (ri_gmaHeader item)"
      | "m = rq_gmaRxExpectedSn s" "rq_newLinkCid ?t \<noteq> gh_connectionId (ri_gmaHeader item)"
      | "m \<noteq> rq_gmaRxExpectedSn s" "SnDiff (to_int m) (to_int (rq_gmaRxExpectedSn s)) < 0"
      | "m \<noteq> rq_gmaRxExpectedSn s" "\<not> SnDiff (to_int m) (to_int (rq_gmaRxExpectedSn s)) < 0" by blast
    then show ?thesis
    proof cases
      case 1
      obtain u where u: "rq_StopReordering now ?t = Inr u" "rq_goes now ?t u"
        using rq_StopReordering_ok [OF wf(1)] by blast
      have "?goal u (rq_release_loop now d u)"
        using "1.IH"(1) [OF True sc [symmetric] refl 1(1) r t(1) refl refl 1(2) u(1)] rq_goes_wf [OF u(2)] by simp
      moreover have "rq_release_loop now c s = rq_release_loop now d u"
        unfolding unf using True sc 1 t(1,2) u(1) by simp
      ultimately show ?thesis using step rq_goes_trans [OF k(1) u(2)] by simp
    next
      case 2
      have "?goal ?t (rq_release_loop now d ?t)"
        using "1.IH"(2) [OF True sc [symmetric] refl 2(1) r t(1) refl refl 2(2)] wf(1) by simp
      moreover have "rq_release_loop now c s = rq_release_loop now d ?t"
        unfolding unf using True sc 2 t(1,2) by simp
      ultimately show ?thesis using step [OF k(1)] by simp
    next
      case 3
      have late: "rq_goes now s (rq_deliver now item t)" using t(5) 3(2) by blast
      have "?goal (rq_deliver now item t) (rq_release_loop now d (rq_deliver now item t))"
        using "1.IH"(3) [OF True sc [symmetric] refl 3(1,2) t(1) refl] rq_goes_wf [OF late] by simp
      moreover have "rq_release_loop now c s = rq_release_loop now d (rq_deliver now item t)"
        unfolding unf using True sc 3 t(1) by simp
      ultimately show ?thesis using step [OF late] by simp
    next
      case 4
      consider "ri_inOrder item" | "\<not> ri_inOrder item" "rq_expired now s" | "\<not> ri_inOrder item" "\<not> rq_expired now s" by blast
      then show ?thesis
      proof cases
        case i: 1
        have "?goal ?t (rq_release_loop now d ?t)"
          using "1.IH"(4) [OF True sc [symmetric] refl 4(1,2) r t(1) refl i] wf(1) by simp
        moreover have "rq_release_loop now c s = rq_release_loop now d ?t"
          unfolding unf using True sc 4 t(1,2) i by simp
        ultimately show ?thesis using step [OF k(1)] by simp
      next
        case i: 2
        have "?goal ?tc (rq_release_loop now d ?tc)"
          using "1.IH"(5) [OF True sc [symmetric] refl 4(1,2) r t(1) refl i] wf(2) by simp
        moreover have "rq_release_loop now c s = rq_release_loop now d ?tc"
          unfolding unf using True sc 4 t(1,2) i by simp
        ultimately show ?thesis using step [OF k(2)] by simp
      next
        case i: 3
        have "rq_release_loop now c s = Inr (d, s)"
          unfolding unf using True sc 4 t(1,2) i by simp
        moreover have "rq_waits s" using sc 4 by (auto simp: rq_waits_def)
        ultimately show ?thesis using f(1) i(2) rq_goes_refl [OF "1.prems"] by simp
      qed
    qed
  qed
qed

text \<open>The state between two calls: the timer is running while a packet is queued.\<close>

definition rq_ok :: "GmaReorder \<Rightarrow> bool" where
  "rq_ok s \<longleftrightarrow> rq_wf s \<and> (rq_queued s > 0 \<longrightarrow> rq_reorderingTimeoutEvent s \<noteq> None)"

lemma rq_wf_total: "rq_wf s \<Longrightarrow> (rq_totalQueueSize s = 0) = (rq_queued s = 0)"
  unfolding rq_wf_def by (metis unat_eq_0)

lemma rq_front_fresh:
  assumes "\<not> rq_expired now s" "rq_front c (rq_linkParamsMap s) = Some item"
  shows "now < ri_receivedTime item + rq_reorderingTimeout s"
proof -
  obtain p l where "(c, p) \<in> set (rq_linkParamsMap s)" "lp_reorderingQueue p = item # l"
    using assms(2) by (auto simp: rq_front_def sm_find_def dest: map_of_SomeD split: option.splits list.splits)
  then show ?thesis using assms(1) by (fastforce simp: rq_expired_def list_ex_iff)
qed

lemma rq_empty_fresh: "rq_queued s = 0 \<Longrightarrow> \<not> rq_expired now s"
  by (fastforce simp: rq_expired_def list_ex_iff rq_all_def split: list.splits)

text \<open>What holds after a call: the timer is set for the future.\<close>

definition rq_fresh :: "time \<Rightarrow> GmaReorder \<Rightarrow> bool" where
  "rq_fresh now s \<longleftrightarrow> \<not> rq_expired now s \<and> (\<forall>t. rq_reorderingTimeoutEvent s = Some t \<longrightarrow> now < t)"

lemma rq_ReleaseInOrderPackets_ok:
  assumes "rq_wf s"
  shows "\<exists>s'. rq_ReleaseInOrderPackets now s = Inr s' \<and> rq_goes now s s' \<and> rq_ok s' \<and> rq_fresh now s'
    \<and> (rq_queued s' > 0 \<longrightarrow> rq_waits s')"
proof -
  let ?u = "rq_UpdateReorderTimeout s"
  have "rq_goes now s ?u" using rq_goes_refl [OF assms]
    by (rule rq_goes_frame) (simp_all add: rq_core_def rq_UpdateReorderTimeout_ok)
  then obtain d t where t: "rq_release_loop now 255 ?u = Inr (d, t)" "rq_goes now s t"
      "rq_totalQueueSize t > 0 \<longrightarrow> rq_front d (rq_linkParamsMap t) \<noteq> None \<and> \<not> rq_expired now t \<and> rq_waits t"
    using rq_release_loop_ok [of ?u now 255] rq_goes_trans rq_goes_wf by meson
  let ?ev = "\<lambda>x. t\<lparr>rq_reorderingTimeoutEvent := x\<rparr>"
  have k: "rq_goes now s (?ev x)" "rq_wf (?ev x)" for x
    using rq_goes_frame [OF t(2), of "?ev x"] rq_goes_wf [of now s "?ev x"]
    by (simp_all add: rq_core_def rq_timeout_ok_def)
  have ex: "rq_expired now (?ev x) = rq_expired now t" for x by (simp add: rq_expired_def cong: list.case_cong)
  show ?thesis
  proof (cases "rq_totalQueueSize t > 0")
    case True
    then obtain item where item: "rq_front d (rq_linkParamsMap t) = Some item" "\<not> rq_expired now t" using t(3) by blast
    let ?s' = "?ev (Some (now + (rq_reorderingTimeout t + 1000000 - (now - ri_receivedTime item))))"
    have "rq_ReleaseInOrderPackets now s = Inr ?s'"
      using True t(1) item(1) by (simp add: rq_ReleaseInOrderPackets_def)
    moreover have "rq_fresh now ?s'"
      using rq_front_fresh [OF item(2,1)] item(2) by (simp add: rq_fresh_def ex)
    moreover have "rq_ok ?s'" using k by (simp add: rq_ok_def)
    moreover have "rq_waits ?s'" using True t(3) by (simp add: rq_waits_def)
    ultimately show ?thesis using k by blast
  next
    case False
    then have z: "rq_queued (?ev None) = 0" using rq_wf_total [OF k(2), of None] by (simp add: word_gt_0)
    have "rq_ReleaseInOrderPackets now s = Inr (?ev None)"
      using False t(1) by (simp add: rq_ReleaseInOrderPackets_def)
    moreover have "rq_fresh now (?ev None)" using rq_empty_fresh [OF z] by (simp add: rq_fresh_def)
    moreover have "rq_ok (?ev None)" using k z by (simp add: rq_ok_def)
    ultimately show ?thesis using k z by auto
  qed
qed

lemma rq_keys_map: "map fst (map (\<lambda>(c, p). (c, f c p)) ps) = map fst ps"
  by (induction ps) auto

lemma rq_push_mset:
  assumes "distinct (map fst ps)" "cid \<in> fst ` set ps"
  shows "mset (rq_all (rq_push cid item ps)) = add_mset item (mset (rq_all ps))"
  using assms
proof (induction ps)
  case (Cons q ps)
  obtain d p where q: "q = (d, p)" by (cases q)
  have absent: "c \<notin> fst ` set l \<Longrightarrow> rq_all (rq_push c item l) = rq_all l" for c l
    by (induction l) (auto simp: rq_push_def rq_all_def)
  have all: "rq_all ((d, p) # ps) = lp_reorderingQueue p @ rq_all ps" for d p ps by (simp add: rq_all_def)
  have push: "rq_push cid item ((d, p) # ps) = (d, if d = cid
    then p\<lparr>lp_reorderingQueue := lp_reorderingQueue p @ [item]\<rparr> else p) # rq_push cid item ps" by (simp add: rq_push_def)
  show ?case
  proof (cases "d = cid")
    case True
    then show ?thesis using Cons.prems(1) absent [of cid ps] unfolding q push by (simp add: all)
  next
    case False
    then show ?thesis using Cons unfolding q push by (auto simp: all)
  qed
qed simp

lemma rq_set_last_ok [simp]: "rq_wf (rq_set_last cid h s) = rq_wf s" "rq_bag (rq_set_last cid h s) = rq_bag s"
  "rq_queued (rq_set_last cid h s) = rq_queued s" "rq_ok (rq_set_last cid h s) = rq_ok s"
  "map fst (rq_linkParamsMap (rq_set_last cid h s)) = map fst (rq_linkParamsMap s)"
  "rq_quiet (rq_set_last cid h s) = rq_quiet s"
proof -
  have all: "rq_all (map (\<lambda>(c, p). (c, if c = cid
      then p\<lparr>lp_gmaRxLastLocalSn := x, lp_gmaRxLastSn := y\<rparr> else p)) ps) = rq_all ps" for x y ps
    by (induction ps) (auto simp: rq_all_def)
  let ?ps = "rq_linkParamsMap (rq_set_last cid h s)"
  have e: "rq_all ?ps = rq_all (rq_linkParamsMap s)" "rq_forwarded (rq_set_last cid h s) = rq_forwarded s"
    "rq_totalQueueSize (rq_set_last cid h s) = rq_totalQueueSize s"
    by (simp_all add: rq_set_last_def all)
  have ev: "rq_reorderingTimeoutEvent (rq_set_last cid h s) = rq_reorderingTimeoutEvent s" by (simp add: rq_set_last_def)
  show k: "map fst ?ps = map fst (rq_linkParamsMap s)" by (auto simp: rq_set_last_def)
  then have k': "fst ` set ?ps = fst ` set (rq_linkParamsMap s)" by (metis set_map)
  show "rq_wf (rq_set_last cid h s) = rq_wf s" by (simp only: rq_wf_def e k k')
  show "rq_bag (rq_set_last cid h s) = rq_bag s" "rq_queued (rq_set_last cid h s) = rq_queued s"
    by (simp_all only: rq_bag_def e)
  then show "rq_ok (rq_set_last cid h s) = rq_ok s" unfolding rq_ok_def
    using \<open>rq_wf (rq_set_last cid h s) = rq_wf s\<close> by (simp add: ev)
  show "rq_quiet (rq_set_last cid h s) = rq_quiet s" unfolding rq_quiet_def e by (simp add: rq_set_last_def)
qed

lemma rq_enqueue_ok:
  assumes "rq_wf s" "cid \<in> fst ` set (rq_linkParamsMap s)" "rq_queued s < 2 ^ 32 - 1"
  shows "rq_wf (rq_enqueue cid item s)" "rq_bag (rq_enqueue cid item s) = add_mset (rq_item item) (rq_bag s)"
    "map fst (rq_linkParamsMap (rq_enqueue cid item s)) = map fst (rq_linkParamsMap s)"
proof -
  let ?ps = "rq_linkParamsMap s"
  have fields: "rq_linkParamsMap (rq_enqueue cid item s) = rq_push cid item ?ps"
    "rq_totalQueueSize (rq_enqueue cid item s) = rq_totalQueueSize s + 1" by (simp_all add: rq_enqueue_def)
  have m: "mset (rq_all (rq_push cid item ?ps)) = add_mset item (mset (rq_all ?ps))"
    using assms by (intro rq_push_mset) (auto simp: rq_wf_def)
  then have l: "length (rq_all (rq_push cid item ?ps)) = Suc (rq_queued s)" by (metis size_add_mset size_mset)
  have "unat (rq_totalQueueSize s + 1) = Suc (rq_queued s)"
    using assms(1,3) by (simp add: rq_wf_def unat_word_ariths)
  moreover have k: "map fst (rq_push cid item ?ps) = map fst ?ps" by (auto simp: rq_push_def)
  moreover from this have "fst ` set (rq_push cid item ?ps) = fst ` set ?ps" by (metis set_map)
  ultimately show "rq_wf (rq_enqueue cid item s)" using assms(1) l
    by (simp only: rq_wf_def fields simp_thms)
  show "rq_bag (rq_enqueue cid item s) = add_mset (rq_item item) (rq_bag s)"
    using m by (simp add: rq_bag_def rq_enqueue_def)
  show "map fst (rq_linkParamsMap (rq_enqueue cid item s)) = map fst ?ps" using k by (simp add: rq_enqueue_def)
qed

text \<open>What the branches of \<open>InOrderDelivery\<close> that accept a packet do to the state.\<close>

definition rq_adds :: "GmaReorder \<Rightarrow> u8 list \<times> GmaHeader \<Rightarrow> GmaReorder \<Rightarrow> bool" where
  "rq_adds s x s' \<longleftrightarrow> rq_wf s' \<and> rq_bag s' = add_mset x (rq_bag s)
    \<and> map fst (rq_linkParamsMap s') = map fst (rq_linkParamsMap s)
    \<and> (rq_enableReordering s \<longrightarrow> rq_quiet s')"

lemma rq_adds_keeps: "rq_adds s x t \<Longrightarrow> rq_goes now t u \<Longrightarrow> rq_adds s x u"
  by (simp add: rq_adds_def rq_goes_def rq_keeps_def rq_calm_def)

lemma rq_adds_wf: "rq_adds s x t \<Longrightarrow> rq_wf t"
  by (simp add: rq_adds_def)

lemma rq_in_order_ok:
  assumes "rq_wf s"
  shows "\<exists>s'. rq_in_order now cid packet h n s = Inr s' \<and> rq_adds s (packet, h) s' \<and> rq_ok s'"
proof -
  let ?t = "(rq_MeasureAndForward now packet h s)\<lparr>rq_gmaRxExpectedSn := n\<rparr>"
  have a: "rq_adds s (packet, h) ?t" using assms by (simp add: rq_adds_def rq_wf_def rq_bag_def rq_quiet_def)
  then obtain u where u: "rq_ReleaseInOrderPackets now ?t = Inr u" "rq_goes now ?t u" "rq_ok u"
    using rq_ReleaseInOrderPackets_ok [of ?t now] rq_adds_wf by blast
  have au: "rq_adds s (packet, h) u" using a u(2) by (rule rq_adds_keeps)
  show ?thesis
  proof (cases "rq_newLinkCid u = cid")
    case True
    obtain v where v: "rq_StopReordering now u = Inr v" "rq_goes now u v" "rq_queued v = 0"
      using rq_StopReordering_ok [of u now] u(3) by (auto simp: rq_ok_def)
    then show ?thesis using True u(1) rq_adds_keeps [OF au v(2)] rq_goes_wf [OF v(2)]
      by (simp add: rq_in_order_def rq_ok_def)
  next
    case False
    then show ?thesis using u au by (simp add: rq_in_order_def)
  qed
qed

lemma rq_too_early_ok:
  assumes "rq_ok s" "sm_find cid (rq_linkParamsMap s) = Some p" "rq_queued s < 2 ^ 32 - 1"
  shows "\<exists>s'. rq_too_early up now cid p packet h s = Inr s' \<and> rq_adds s (packet, h) s' \<and> rq_ok s'"
proof -
  have wf: "rq_wf s" using assms(1) by (simp add: rq_ok_def)
  have cid: "cid \<in> fst ` set (rq_linkParamsMap s)"
    using assms(2) by (force simp: sm_find_def dest: map_of_SomeD)
  have enq: "rq_adds s (packet, h) (rq_enqueue cid \<lparr>ri_packet = packet, ri_gmaHeader = h, ri_inOrder = b,
      ri_receivedTime = now\<rparr> t)" if "t = s \<or> t = rq_UpdateReorderTimeout s
        \<or> t = (rq_UpdateReorderTimeout s)\<lparr>rq_stopReorderEvent
          := Some (now + rq_reorderingTimeout (rq_UpdateReorderTimeout s))\<rparr>" for b t
  proof -
    have f: "rq_linkParamsMap t = rq_linkParamsMap s" "rq_totalQueueSize t = rq_totalQueueSize s"
      "rq_forwarded t = rq_forwarded s" "rq_enableReordering t = rq_enableReordering s" using that by auto
    then have "rq_wf t" "rq_bag t = rq_bag s" using wf by (simp_all add: rq_wf_def rq_bag_def)
    then show ?thesis using rq_enqueue_ok [of t cid] f cid assms(3)
      by (simp add: rq_adds_def rq_item_def rq_quiet_def) (simp add: rq_enqueue_def)
  qed
  have rest: "\<exists>s'. rbind (rq_ReleaseMinSnPacket up now t) (\<lambda>s. rq_ReleaseInOrderPackets now s) = Inr s'
      \<and> rq_adds s (packet, h) s' \<and> rq_ok s'" if a: "rq_adds s (packet, h) t" for t
  proof -
    obtain u where u: "rq_ReleaseMinSnPacket up now t = Inr u" "rq_goes now t u"
      using rq_ReleaseMinSnPacket_ok [OF rq_adds_wf [OF a]] by blast
    obtain v where v: "rq_ReleaseInOrderPackets now u = Inr v" "rq_goes now u v" "rq_ok v"
      using rq_ReleaseInOrderPackets_ok rq_goes_wf [OF u(2)] by blast
    then show ?thesis using u(1) rq_adds_keeps [OF rq_adds_keeps [OF a u(2)] v(2)] by simp
  qed
  have queued: "rq_totalQueueSize s \<noteq> 0" "rq_reorderingTimeoutEvent s \<noteq> None" if "lp_reorderingQueue p \<noteq> []"
  proof -
    have "(cid, p) \<in> set (rq_linkParamsMap s)" using assms(2) by (simp add: sm_find_def map_of_SomeD)
    then have "rq_queued s \<noteq> 0" using that by (force simp: rq_all_def)
    then show "rq_totalQueueSize s \<noteq> 0" "rq_reorderingTimeoutEvent s \<noteq> None"
      using assms(1) rq_wf_total [OF wf] by (auto simp: rq_ok_def)
  qed
  obtain v where v: "rq_in_order now cid packet h ((gh_sequenceNumber h + 1) AND MAX_GMA_SN) s = Inr v"
    "rq_adds s (packet, h) v" using rq_in_order_ok [OF wf] by blast
  show ?thesis unfolding rq_too_early_def Let_def
    using rest [OF v(2)] rest [OF enq [OF disjI1 [OF refl]]] rest [OF enq [OF disjI2 [OF disjI1 [OF refl]]]]
      rest [OF enq [OF disjI2 [OF disjI2 [OF refl]]]] v(1) queued
    by simp
qed

abbreviation rq_past :: "GmaHeader \<Rightarrow> GmaReorder \<Rightarrow> bool" where
  "rq_past h s \<equiv> gh_sequenceNumber h \<noteq> rq_gmaRxExpectedSn s
    \<and> SnDiff (to_int (gh_sequenceNumber h)) (to_int (rq_gmaRxExpectedSn s)) < 0"

lemma rq_InOrderDelivery_adds:
  assumes "rq_ok s" "cid \<in> fst ` set (rq_linkParamsMap s)" "gh_connectionId h = cid" "rq_queued s < 2 ^ 32 - 1"
  shows "\<exists>s'. rq_InOrderDelivery up now packet h cid s = Inr s' \<and> rq_ok s'
    \<and> (if rq_past h s then s' = rq_set_last cid h s else rq_adds s (packet, h) s')"
proof -
  obtain p where p: "sm_find cid (rq_linkParamsMap s) = Some p"
    using assms(2) by (cases "sm_find cid (rq_linkParamsMap s)") (auto simp: sm_find_def map_of_eq_None_iff)
  have wf: "rq_wf s" using assms(1) by (simp add: rq_ok_def)
  obtain v where v: "rq_in_order now cid packet h ((rq_gmaRxExpectedSn s + 1) AND MAX_GMA_SN) s = Inr v"
    "rq_adds s (packet, h) v" "rq_ok v" using rq_in_order_ok [OF wf] by blast
  obtain u where u: "rq_too_early up now cid p packet h s = Inr u" "rq_adds s (packet, h) u" "rq_ok u"
    using rq_too_early_ok [OF assms(1) p assms(4)] by blast
  show ?thesis using p v u assms(1,3) by (simp add: rq_InOrderDelivery_def rq_adds_def)
qed

text \<open>C19: rq_InOrderDelivery never fails: no assertion of the reordering is violated, no front of an empty
  queue is used and every loop ends; a packet of the past is dropped, every other packet is forwarded
  exactly once or stays queued, nothing queued before is lost, the counter of queued packets stays
  exact and the timer runs while a packet is queued.\<close>

theorem rq_InOrderDelivery_ok:
  assumes "rq_ok s" "cid \<in> fst ` set (rq_linkParamsMap s)" "gh_connectionId h = cid" "rq_queued s < 2 ^ 32 - 1"
  shows "\<exists>s'. rq_InOrderDelivery up now packet h cid s = Inr s' \<and> rq_ok s'
    \<and> rq_bag s' = rq_bag s + (if gh_sequenceNumber h \<noteq> rq_gmaRxExpectedSn s
         \<and> SnDiff (to_int (gh_sequenceNumber h)) (to_int (rq_gmaRxExpectedSn s)) < 0 then {#} else {#(packet, h)#})
    \<and> map fst (rq_linkParamsMap s') = map fst (rq_linkParamsMap s)"
  using rq_InOrderDelivery_adds [OF assms, of up now packet] by (auto simp: rq_adds_def split: if_splits)

lemma rq_ReorderingTimeout_goes:
  assumes "rq_wf s"
  shows "\<exists>t. rq_goes now s t \<and> rq_ok t \<and> rq_fresh now t \<and> (rq_queued t > 0 \<longrightarrow> rq_waits t)
    \<and> rq_ReorderingTimeout now s = Inr (t\<lparr>rq_reorderingTimeout
          := max MIN_REORDERING_TIMEOUT (min MAX_REORDERING_TIMEOUT (2 * rq_reorderingTimeout t)),
        rq_nextReorderingUpdateTime := now + 10 * 1000000000\<rparr>)"
proof -
  let ?s = "s\<lparr>rq_reorderingTimeoutEvent := None\<rparr>"
  have ks: "rq_goes now s ?s" using rq_goes_refl [OF assms(1)]
    by (rule rq_goes_frame) (simp_all add: rq_core_def rq_timeout_ok_def)
  obtain t where t: "rq_ReleaseInOrderPackets now ?s = Inr t" "rq_goes now ?s t" "rq_ok t" "rq_fresh now t"
    "rq_queued t > 0 \<longrightarrow> rq_waits t" using rq_ReleaseInOrderPackets_ok [OF rq_goes_wf [OF ks]] by blast
  then show ?thesis using rq_goes_trans [OF ks t(2)] by (auto simp: rq_ReorderingTimeout_def)
qed

text \<open>C30: rq_ReorderingTimeout, the event of the timer, never fails, keeps every packet, leaves no
  packet at the front of a queue that has waited for the reordering timeout, sets the timer again, for
  the future, when packets remain, and keeps the timeout between 10 ms and 1 s.\<close>

theorem rq_ReorderingTimeout_ok:
  assumes "rq_wf s" "rq_timeout_ok s"
  shows "\<exists>s'. rq_ReorderingTimeout now s = Inr s' \<and> rq_ok s' \<and> rq_bag s' = rq_bag s \<and> rq_fresh now s'
    \<and> MIN_REORDERING_TIMEOUT \<le> rq_reorderingTimeout s' \<and> rq_reorderingTimeout s' \<le> MAX_REORDERING_TIMEOUT"
proof -
  obtain t where t: "rq_goes now s t" "rq_ok t" "rq_fresh now t"
    "rq_ReorderingTimeout now s = Inr (t\<lparr>rq_reorderingTimeout
          := max MIN_REORDERING_TIMEOUT (min MAX_REORDERING_TIMEOUT (2 * rq_reorderingTimeout t)),
        rq_nextReorderingUpdateTime := now + 10 * 1000000000\<rparr>)"
    using rq_ReorderingTimeout_goes [OF assms(1)] by blast
  note k = t(1)
  have to: "rq_timeout_ok t" using k assms(2) by (simp add: rq_goes_def rq_keeps_def)
  define T where "T = max MIN_REORDERING_TIMEOUT (min MAX_REORDERING_TIMEOUT (2 * rq_reorderingTimeout t))"
  let ?s' = "t\<lparr>rq_reorderingTimeout := T, rq_nextReorderingUpdateTime := now + 10 * 1000000000\<rparr>"
  have T: "rq_reorderingTimeout t \<le> T" "MIN_REORDERING_TIMEOUT \<le> T" "T \<le> MAX_REORDERING_TIMEOUT"
    using to by (auto simp: T_def rq_timeout_ok_def MIN_REORDERING_TIMEOUT_def MAX_REORDERING_TIMEOUT_def)
  have "rq_expired now ?s' \<Longrightarrow> rq_expired now t"
    using T(1) by (fastforce simp: rq_expired_def list_ex_iff split: list.splits)
  then have "rq_fresh now ?s'" using t(3) by (auto simp: rq_fresh_def)
  moreover have "rq_ok ?s'" "rq_bag ?s' = rq_bag s"
    using t(2) k by (simp_all add: rq_ok_def rq_wf_def rq_goes_def rq_keeps_def rq_bag_def)
  moreover have "rq_ReorderingTimeout now s = Inr ?s'" using t(4) by (simp add: T_def)
  ultimately show ?thesis using T(2,3) by (intro exI [of _ ?s']) simp
qed

section \<open>The order of the forwarded packets\<close>

text \<open>Sequence numbers below \<open>2 ^ 23\<close>, where the circular order is the order of the numbers.\<close>

lemma rq_SnDiff: "a \<le> 0x800000 \<Longrightarrow> b \<le> 0x800000 \<Longrightarrow> SnDiff (to_int a) (to_int b) = uint a - uint b"
proof -
  assume a: "a \<le> 0x800000" "b \<le> 0x800000"
  have "to_int x = uint x \<and> uint x \<le> 8388608" if "x \<le> 0x800000" for x :: u32
  proof -
    have u: "uint x \<le> 8388608" using that by (simp add: word_le_def)
    have "- (2 ^ 31) \<le> uint x" "uint x < 2 ^ 31" using u uint_ge_0 [of x] by (auto intro: order_trans [OF _ uint_ge_0])
    then show ?thesis using u by (simp add: sint_uint signed_take_bit_int_eq_self)
  qed
  note u = this [OF a(1)] this [OF a(2)]
  have "uint a - uint b \<le> 8388608" "-8388608 \<le> uint a - uint b"
    using u uint_ge_0 [of a] uint_ge_0 [of b] by linarith+
  then show ?thesis using u by (simp add: SnDiff_def Let_def)
qed

lemma rq_next_sn: "(a :: u32) < 0x800000 \<Longrightarrow> (a + 1) AND MAX_GMA_SN = a + 1 \<and> a < a + 1 \<and> a + 1 \<le> 0x800000"
proof -
  assume a: "a < 0x800000"
  then have u: "uint (a + 1) = uint a + 1" by (simp add: word_less_def uint_word_ariths)
  moreover have "uint ((a + 1) AND MAX_GMA_SN) = uint (a + 1)"
  proof -
    have "MAX_GMA_SN = mask 24" by (simp add: MAX_GMA_SN_def mask_eq_exp_minus_1)
    then have "(a + 1) AND MAX_GMA_SN = take_bit 24 (a + 1)" by (simp only: take_bit_eq_mask)
    then have "uint ((a + 1) AND MAX_GMA_SN) = take_bit 24 (uint (a + 1))" by (simp only: unsigned_take_bit_eq)
    also have "\<dots> = uint (a + 1)" using a u by (simp add: take_bit_eq_mod word_less_def)
    finally show ?thesis .
  qed
  ultimately show ?thesis using a by (simp add: word_less_def word_le_def uint_word_ariths word_uint_eq_iff)
qed

abbreviation fw_sn :: "u8 list \<times> GmaHeader \<Rightarrow> u32" where "fw_sn x \<equiv> gh_sequenceNumber (snd x)"

definition rq_ord :: "GmaReorder \<Rightarrow> bool" where
  "rq_ord s \<longleftrightarrow> \<not> rq_useLsnReordering s \<and> sorted (map fw_sn (rq_forwarded s))
    \<and> (\<forall>(c, p) \<in> set (rq_linkParamsMap s). sorted (map ri_sn (lp_reorderingQueue p))
         \<and> (\<forall>i \<in> set (lp_reorderingQueue p). gh_connectionId (ri_gmaHeader i) = c))
    \<and> (\<forall>x \<in> set (rq_forwarded s). fw_sn x < rq_gmaRxExpectedSn s \<and> (\<forall>i \<in> set (rq_all (rq_linkParamsMap s)). fw_sn x \<le> ri_sn i))
    \<and> (\<forall>i \<in> set (rq_all (rq_linkParamsMap s)). ri_sn i < 0x800000) \<and> rq_gmaRxExpectedSn s \<le> 0x800000"

lemma rq_scan_min:
  assumes "rq_scan m0 c0 ps = (m, c)" "\<forall>(c, p) \<in> set ps. sorted (map ri_sn (lp_reorderingQueue p))"
    "\<forall>i \<in> set (rq_all ps). ri_sn i < 0x800000" "m0 = MAX_GMA_SN \<or> m0 < 0x800000"
  shows "(m0 = MAX_GMA_SN \<or> m \<le> m0) \<and> (\<forall>i \<in> set (rq_all ps). m \<le> ri_sn i)"
  using assms
proof (induction m0 c0 ps rule: rq_scan.induct)
  case (2 m0 c0 d p ps)
  have all: "set (rq_all ((d, p) # ps)) = set (lp_reorderingQueue p) \<union> set (rq_all ps)" by (simp add: rq_all_def)
  show ?case
  proof (cases "lp_reorderingQueue p")
    case Nil
    then show ?thesis using 2 by (simp add: all)
  next
    case (Cons item l)
    have item: "ri_sn item < 0x800000" "\<forall>i \<in> set (lp_reorderingQueue p). ri_sn item \<le> ri_sn i"
      using 2(5,6) Cons by (auto simp: all)
    have ne: "ri_sn item \<noteq> MAX_GMA_SN" using item(1) by (auto simp: MAX_GMA_SN_def)
    show ?thesis
    proof (cases "rq_smaller m0 (ri_sn item)")
      case True
      then have sc: "rq_scan (ri_sn item) d ps = (m, c)" using 2(4) Cons by simp
      then have r: "m \<le> ri_sn item" "\<forall>i \<in> set (rq_all ps). m \<le> ri_sn i"
        using 2(2) [OF Cons True sc] 2(5,6) item(1) ne by (auto simp: all)
      have "m0 \<noteq> MAX_GMA_SN \<Longrightarrow> ri_sn item \<le> m0"
        using True 2(7) item(1) rq_SnDiff [of m0 "ri_sn item"] by (auto simp: rq_smaller_def word_le_def word_less_def)
      then show ?thesis using r item(2) unfolding all by (metis Un_iff order_trans)
    next
      case False
      then have sc: "rq_scan m0 c0 ps = (m, c)" using 2(4) Cons by simp
      then have r: "m0 = MAX_GMA_SN \<or> m \<le> m0" "\<forall>i \<in> set (rq_all ps). m \<le> ri_sn i"
        using 2(3) [OF Cons False sc] 2(5-7) by (auto simp: all)
      have "m0 \<noteq> MAX_GMA_SN \<and> m0 \<le> ri_sn item"
        using False 2(7) item(1) rq_SnDiff [of m0 "ri_sn item"] by (auto simp: rq_smaller_def word_le_def word_less_def)
      then show ?thesis using r item(2) unfolding all by (metis Un_iff order_trans)
    qed
  qed
qed (simp add: rq_all_def)

lemma in_set_tl: "x \<in> set (tl xs) \<Longrightarrow> x \<in> set xs"
  by (cases xs) auto

lemma rq_all_pop: "set (rq_all (rq_pop c ps)) \<subseteq> set (rq_all ps)"
  by (fastforce simp: rq_all_def rq_pop_def dest: in_set_tl split: if_splits)

lemma rq_ord_frame: "rq_core t = rq_core s \<Longrightarrow> rq_ord t = rq_ord s"
  by (simp add: rq_core_def rq_ord_def)

lemma rq_moves_ord: "rq_moves now s s' \<Longrightarrow> rq_wf s \<Longrightarrow> rq_ord s \<Longrightarrow> rq_ord s'"
proof -
  have taken: "rq_ord (rq_deliver now item t\<lparr>rq_gmaRxExpectedSn := e\<rparr>)"
    if ord: "rq_ord u" and sc: "rq_scan MAX_GMA_SN c0 (rq_linkParamsMap u) = (ri_sn item, c)"
      and d: "rq_dequeue c u = Inr (item, t)" and e: "ri_sn item < e" "e \<le> 0x800000"
        "e = rq_gmaRxExpectedSn u \<or> e = ri_sn item + 1" for u c0 item c t e
  proof -
    let ?ps = "rq_linkParamsMap u"
    have t: "t = u\<lparr>rq_linkParamsMap := rq_pop c ?ps, rq_totalQueueSize := rq_totalQueueSize u - 1\<rparr>"
      "rq_front c ?ps = Some item" using d by (auto simp: rq_dequeue_def split: option.splits)
    obtain p l where p: "(c, p) \<in> set ?ps" "lp_reorderingQueue p = item # l"
      using t(2) by (auto simp: rq_front_def sm_find_def dest: map_of_SomeD split: option.splits list.splits)
    then have inn: "item \<in> set (rq_all ?ps)" by (force simp: rq_all_def)
    have min: "\<forall>i \<in> set (rq_all ?ps). ri_sn item \<le> ri_sn i"
      using rq_scan_min [OF sc] ord by (auto simp: rq_ord_def)
    have fwd: "sorted (map fw_sn (rq_forwarded u))" "\<forall>x \<in> set (rq_forwarded u). fw_sn x \<le> ri_sn item"
      using ord inn by (auto simp: rq_ord_def)
    have sub: "set (rq_all (rq_pop c ?ps)) \<subseteq> set (rq_all ?ps)" by (rule rq_all_pop)
    have qs: "\<forall>(c, p) \<in> set (rq_pop c ?ps). sorted (map ri_sn (lp_reorderingQueue p))
         \<and> (\<forall>i \<in> set (lp_reorderingQueue p). gh_connectionId (ri_gmaHeader i) = c)"
      using ord by (fastforce simp: rq_ord_def rq_pop_def map_tl dest: in_set_tl intro: sorted_tl split: if_splits)
    have "sorted (map fw_sn (rq_forwarded u @ [(ri_packet item, ri_gmaHeader item)]))"
      using fwd by (simp add: sorted_append)
    moreover have "\<forall>x \<in> set (rq_forwarded u @ [(ri_packet item, ri_gmaHeader item)]). fw_sn x < e
        \<and> (\<forall>i \<in> set (rq_all (rq_pop c ?ps)). fw_sn x \<le> ri_sn i)"
      using fwd(2) e(1) min sub ord by (fastforce simp: rq_ord_def)
    moreover have "\<not> rq_useLsnReordering u" "\<forall>i \<in> set (rq_all (rq_pop c ?ps)). ri_sn i < 0x800000"
      using ord sub by (auto simp: rq_ord_def)
    ultimately show ?thesis using qs e(2) by (simp add: rq_ord_def t(1))
  qed
  show "rq_moves now s s' \<Longrightarrow> rq_wf s \<Longrightarrow> rq_ord s \<Longrightarrow> rq_ord s'"
  proof (induction rule: rq_moves.induct)
    case (take s u c0 item c t)
    then have ord: "rq_ord u" by simp
    have "item \<in> set (rq_all (rq_linkParamsMap u))" using rq_dequeue_front [OF take.hyps(3)]
      by (force simp: rq_all_def rq_front_def sm_find_def dest: map_of_SomeD split: option.splits list.splits)
    then have "ri_sn item < 0x800000" using ord by (simp add: rq_ord_def)
    then show ?case using taken [OF ord take.hyps(2,3), of "ri_sn item + 1"] rq_next_sn by auto
  next
    case (late s u c0 item c t)
    then have ord: "rq_ord u" by simp
    have f: "rq_gmaRxExpectedSn t = rq_gmaRxExpectedSn u"
      using late.hyps(3) by (auto simp: rq_dequeue_def split: option.splits)
    have "item \<in> set (rq_all (rq_linkParamsMap u))" using rq_dequeue_front [OF late.hyps(3)]
      by (force simp: rq_all_def rq_front_def sm_find_def dest: map_of_SomeD split: option.splits list.splits)
    then have "ri_sn item < 0x800000" "rq_gmaRxExpectedSn u \<le> 0x800000" using ord by (simp_all add: rq_ord_def)
    then have "ri_sn item < rq_gmaRxExpectedSn u"
      using late.hyps(4) rq_SnDiff [OF less_imp_le, of "ri_sn item" "rq_gmaRxExpectedSn u"] by (simp add: word_less_def)
    then have "rq_ord (rq_deliver now item t\<lparr>rq_gmaRxExpectedSn := rq_gmaRxExpectedSn u\<rparr>)"
      using taken [OF ord late.hyps(2,3)] ord by (simp add: rq_ord_def)
    then show ?case using f by (simp add: rq_ord_def)
  next
    case (frame s u v)
    then show ?case using rq_ord_frame by blast
  qed
qed

lemma rq_goes_ord: "rq_goes now s s' \<Longrightarrow> rq_wf s \<Longrightarrow> rq_ord s \<Longrightarrow> rq_ord s'"
  unfolding rq_goes_def using rq_moves_ord by blast

text \<open>Between the calls every queued packet is after the expected one.\<close>

definition rq_gap :: "GmaReorder \<Rightarrow> bool" where
  "rq_gap s \<longleftrightarrow> (\<forall>i \<in> set (rq_all (rq_linkParamsMap s)). rq_gmaRxExpectedSn s < ri_sn i)"

lemma rq_waits_gap:
  assumes "rq_ord s" "rq_waits s" "rq_queued s > 0"
  shows "rq_gap s"
proof -
  let ?e = "rq_gmaRxExpectedSn s"
  obtain c m d where m: "rq_scan MAX_GMA_SN c (rq_linkParamsMap s) = (m, d)" "m \<noteq> ?e" "\<not> SnDiff (to_int m) (to_int ?e) < 0"
    using assms(2) by (auto simp: rq_waits_def)
  have min: "\<forall>i \<in> set (rq_all (rq_linkParamsMap s)). m \<le> ri_sn i \<and> ri_sn i < 0x800000"
    using rq_scan_min [OF m(1)] assms(1) by (auto simp: rq_ord_def)
  moreover obtain i where "i \<in> set (rq_all (rq_linkParamsMap s))" using assms(3) by fastforce
  ultimately have "m < 0x800000" by fastforce
  then have "?e < m" using m(2,3) rq_SnDiff [OF less_imp_le, of m ?e] assms(1)
    by (simp add: rq_ord_def word_less_def word_uint_eq_iff)
  then show ?thesis using min by (auto simp: rq_gap_def)
qed

lemma rq_empty_gap: "rq_queued s = 0 \<Longrightarrow> rq_gap s"
  by (simp add: rq_gap_def)

lemma rq_ReleaseInOrderPackets_gap:
  assumes "rq_wf s" "rq_ord s" "rq_ReleaseInOrderPackets now s = Inr s'"
  shows "rq_ord s' \<and> rq_gap s'"
proof -
  have "rq_goes now s s'" "rq_queued s' > 0 \<longrightarrow> rq_waits s'"
    using rq_ReleaseInOrderPackets_ok [OF assms(1), of now] assms(3) by auto
  then show ?thesis using rq_goes_ord assms(1,2) rq_waits_gap rq_empty_gap by blast
qed

lemma rq_StopReordering_gap:
  assumes "rq_wf s" "rq_ord s" "rq_StopReordering now s = Inr s'"
  shows "rq_ord s' \<and> rq_gap s'"
  using rq_StopReordering_ok [OF assms(1), of now] rq_goes_ord [OF _ assms(1,2)] rq_empty_gap assms(3) by auto

lemma rq_in_order_gap:
  assumes "rq_wf s" "rq_ord s" "rq_gap s" "gh_sequenceNumber h = rq_gmaRxExpectedSn s" "gh_sequenceNumber h < 0x800000"
    "rq_in_order now cid packet h ((rq_gmaRxExpectedSn s + 1) AND MAX_GMA_SN) s = Inr s'"
  shows "rq_ord s' \<and> rq_gap s'"
proof -
  let ?e = "rq_gmaRxExpectedSn s"
  let ?t = "(rq_MeasureAndForward now packet h s)\<lparr>rq_gmaRxExpectedSn := (?e + 1) AND MAX_GMA_SN\<rparr>"
  have n: "(?e + 1) AND MAX_GMA_SN = ?e + 1" "?e < ?e + 1" "?e + 1 \<le> 0x800000"
    using rq_next_sn [of ?e] assms(4,5) by auto
  have wf: "rq_wf ?t" using assms(1) by (simp add: rq_wf_def)
  have "sorted (map fw_sn (rq_forwarded s @ [(packet, h)]))"
    using assms(2,4) by (auto simp: rq_ord_def sorted_append)
  moreover have "\<forall>x \<in> set (rq_forwarded s @ [(packet, h)]). fw_sn x < ?e + 1
      \<and> (\<forall>i \<in> set (rq_all (rq_linkParamsMap s)). fw_sn x \<le> ri_sn i)"
    using assms(2-4) n(2) by (auto simp: rq_ord_def rq_gap_def intro: less_trans)
  ultimately have ord: "rq_ord ?t" using assms(2) n by (simp add: rq_ord_def)
  obtain u where u: "rq_ReleaseInOrderPackets now ?t = Inr u" "rq_wf u" "rq_ord u \<and> rq_gap u"
    using rq_ReleaseInOrderPackets_ok [OF wf, of now] rq_ReleaseInOrderPackets_gap [OF wf ord] by (auto simp: rq_ok_def)
  then show ?thesis using assms(6) rq_StopReordering_gap [OF u(2)] by (simp add: rq_in_order_def split: if_splits)
qed

lemma rq_enqueue_ord:
  assumes "rq_ord s" "rq_gmaRxExpectedSn s < ri_sn item" "ri_sn item < 0x800000" "gh_connectionId (ri_gmaHeader item) = cid"
    "\<forall>i \<in> set (rq_all (rq_linkParamsMap s)). gh_connectionId (ri_gmaHeader i) = cid \<longrightarrow> ri_sn i \<le> ri_sn item"
  shows "rq_ord (rq_enqueue cid item s)"
proof -
  let ?ps = "rq_linkParamsMap s"
  have all: "set (rq_all (rq_push cid item ?ps)) \<subseteq> insert item (set (rq_all ?ps))"
    by (force simp: rq_all_def rq_push_def split: if_splits)
  have fifo: "\<forall>i \<in> set (lp_reorderingQueue p). ri_sn i \<le> ri_sn item" if "(cid, p) \<in> set ?ps" for p
    using that assms(1,5) by (fastforce simp: rq_ord_def rq_all_def)
  have "\<forall>(c, p) \<in> set (rq_push cid item ?ps). sorted (map ri_sn (lp_reorderingQueue p))
       \<and> (\<forall>i \<in> set (lp_reorderingQueue p). gh_connectionId (ri_gmaHeader i) = c)"
  proof clarify
    fix c q assume "(c, q) \<in> set (rq_push cid item ?ps)"
    then obtain p where p: "(c, p) \<in> set ?ps"
      "q = (if c = cid then p\<lparr>lp_reorderingQueue := lp_reorderingQueue p @ [item]\<rparr> else p)"
      by (auto simp: rq_push_def)
    then have "sorted (map ri_sn (lp_reorderingQueue p))"
      "\<forall>i \<in> set (lp_reorderingQueue p). gh_connectionId (ri_gmaHeader i) = c"
      using assms(1) by (auto simp: rq_ord_def)
    then show "sorted (map ri_sn (lp_reorderingQueue q))
        \<and> (\<forall>i \<in> set (lp_reorderingQueue q). gh_connectionId (ri_gmaHeader i) = c)"
      using p assms(4) fifo by (auto simp: sorted_append)
  qed
  moreover have "\<forall>x \<in> set (rq_forwarded s). \<forall>i \<in> set (rq_all (rq_push cid item ?ps)). fw_sn x \<le> ri_sn i"
    using assms(1,2) all by (fastforce simp: rq_ord_def)
  moreover have "\<forall>i \<in> set (rq_all (rq_push cid item ?ps)). ri_sn i < 0x800000"
    using assms(1,3) all by (auto simp: rq_ord_def)
  ultimately show ?thesis using assms(1) by (simp add: rq_ord_def rq_enqueue_def)
qed

lemma rq_too_early_gap:
  assumes "rq_wf s" "rq_ord s" "cid \<in> fst ` set (rq_linkParamsMap s)" "rq_queued s < 2 ^ 32 - 1"
    "gh_connectionId h = cid" "rq_gmaRxExpectedSn s < gh_sequenceNumber h" "gh_sequenceNumber h < 0x800000"
    "\<forall>i \<in> set (rq_all (rq_linkParamsMap s)). gh_connectionId (ri_gmaHeader i) = cid \<longrightarrow> ri_sn i \<le> gh_sequenceNumber h"
    "rq_too_early up now cid p packet h s = Inr s'"
  shows "rq_ord s' \<and> rq_gap s'"
proof -
  let ?item = "\<lparr>ri_packet = packet, ri_gmaHeader = h, ri_inOrder = False, ri_receivedTime = now\<rparr>"
  have lsn: "\<not> rq_useLsnReordering s" using assms(2) by (simp add: rq_ord_def)
  define t where "t = (if rq_newLinkCid s = cid \<and> rq_stopReorderEvent s = None
              then (let s = rq_UpdateReorderTimeout s in s\<lparr>rq_stopReorderEvent := Some (now + rq_reorderingTimeout s)\<rparr>)
              else s)"
  have f: "rq_core t = rq_core s" by (simp add: t_def rq_core_def Let_def)
  then have fs: "rq_linkParamsMap t = rq_linkParamsMap s" "rq_gmaRxExpectedSn t = rq_gmaRxExpectedSn s"
    "rq_totalQueueSize t = rq_totalQueueSize s" by (simp_all add: rq_core_def)
  have wf: "rq_wf (rq_enqueue cid ?item t)"
    using assms(1,3,4) fs by (intro rq_enqueue_ok) (simp_all add: rq_wf_def)
  have ord: "rq_ord (rq_enqueue cid ?item t)"
    using assms(2,5-8) fs rq_ord_frame [OF f] by (intro rq_enqueue_ord) simp_all
  obtain u where u: "rq_ReleaseMinSnPacket up now (rq_enqueue cid ?item t) = Inr u" "rq_wf u" "rq_ord u"
    using rq_ReleaseMinSnPacket_ok [OF wf] rq_goes_ord [OF _ wf ord] rq_goes_wf by blast
  have "rq_too_early up now cid p packet h s = rq_ReleaseInOrderPackets now u"
    using lsn u(1) unfolding rq_too_early_def Let_def t_def by simp
  then show ?thesis using rq_ReleaseInOrderPackets_gap [OF u(2,3)] assms(9) by simp
qed

lemma rq_set_last_ord [simp]: "rq_ord (rq_set_last cid h s) = rq_ord s" "rq_gap (rq_set_last cid h s) = rq_gap s"
proof -
  let ?f = "\<lambda>(c, p). (c, if c = cid then p\<lparr>lp_gmaRxLastLocalSn := gh_localSequenceNumber h,
    lp_gmaRxLastSn := gh_sequenceNumber h\<rparr> else p)"
  have all: "rq_all (map ?f ps) = rq_all ps" for ps by (induction ps) (auto simp: rq_all_def)
  let ?P = "\<lambda>c l. sorted (map ri_sn l) \<and> (\<forall>i \<in> set l. gh_connectionId (ri_gmaHeader i) = c)"
  have q: "(\<forall>(c, p) \<in> set (map ?f ps). ?P c (lp_reorderingQueue p)) = (\<forall>(c, p) \<in> set ps. ?P c (lp_reorderingQueue p))"
    for ps :: "(u8 \<times> LinkParams) list" by (induction ps) (auto split: if_splits)
  have fs: "rq_linkParamsMap (rq_set_last cid h s) = map ?f (rq_linkParamsMap s)" "rq_forwarded (rq_set_last cid h s) = rq_forwarded s"
    "rq_useLsnReordering (rq_set_last cid h s) = rq_useLsnReordering s"
    "rq_gmaRxExpectedSn (rq_set_last cid h s) = rq_gmaRxExpectedSn s" by (simp_all add: rq_set_last_def)
  show "rq_ord (rq_set_last cid h s) = rq_ord s" "rq_gap (rq_set_last cid h s) = rq_gap s"
    by (simp_all only: rq_ord_def rq_gap_def fs all q)
qed

lemma rq_InOrderDelivery_gap:
  assumes "rq_wf s" "rq_ord s" "rq_gap s" "cid \<in> fst ` set (rq_linkParamsMap s)" "rq_queued s < 2 ^ 32 - 1"
    "gh_connectionId h = cid" "gh_sequenceNumber h < 0x800000"
    "\<forall>i \<in> set (rq_all (rq_linkParamsMap s)). gh_connectionId (ri_gmaHeader i) = cid \<longrightarrow> ri_sn i \<le> gh_sequenceNumber h"
    "rq_InOrderDelivery up now packet h cid s = Inr s'"
  shows "rq_ord s' \<and> rq_gap s'"
proof -
  let ?e = "rq_gmaRxExpectedSn s"
  obtain p where p: "sm_find cid (rq_linkParamsMap s) = Some p"
    using assms(9) by (auto simp: rq_InOrderDelivery_def split: option.splits)
  have "?e < gh_sequenceNumber h" if "gh_sequenceNumber h \<noteq> ?e" "\<not> SnDiff (to_int (gh_sequenceNumber h)) (to_int ?e) < 0"
    using that rq_SnDiff [OF less_imp_le, of "gh_sequenceNumber h" ?e] assms(2,7)
    by (simp add: rq_ord_def word_less_def word_uint_eq_iff)
  then show ?thesis using assms(9) p assms(6) rq_in_order_gap [OF assms(1-3) _ assms(7)]
      rq_too_early_gap [OF assms(1,2,4,5,6) _ assms(7,8)] assms(2,3)
    by (cases "gh_sequenceNumber h = ?e"; cases "SnDiff (to_int (gh_sequenceNumber h)) (to_int ?e) < 0")
      (auto simp: rq_InOrderDelivery_def split: sum.splits)
qed

section \<open>Runs of the receiver\<close>

text \<open>A packet with its header arrives on the link its header names; the reordering timer fires; the
  timer that ends the reordering fires. While the reordering is switched off, as it is after it was
  stopped, \<open>Receive\<close> forwards a packet at once and expects its successor.\<close>

datatype rq_event = Arrive "u8 \<Rightarrow> bool" time "u8 list" GmaHeader | TimeoutEvent time | StopEvent time

definition rq_receive :: "(u8 \<Rightarrow> bool) \<Rightarrow> time \<Rightarrow> u8 list \<Rightarrow> GmaHeader \<Rightarrow> u8 \<Rightarrow> GmaReorder \<Rightarrow> GmaReorder result" where
  "rq_receive up now packet h cid s =
    (if rq_enableReordering s then rq_InOrderDelivery up now packet h cid s
     else Inr (rq_MeasureAndForward now packet h
       (s\<lparr>rq_gmaRxExpectedSn := (gh_sequenceNumber h + 1) AND MAX_GMA_SN\<rparr>)))"

fun rq_step :: "GmaReorder \<Rightarrow> rq_event \<Rightarrow> GmaReorder result" where
  "rq_step s (Arrive up now packet h) = rq_receive up now packet h (gh_connectionId h) s"
| "rq_step s (TimeoutEvent now) = rq_ReorderingTimeout now s"
| "rq_step s (StopEvent now) = rq_StopReordering now (s\<lparr>rq_stopReorderEvent := None\<rparr>)"

definition rq_run :: "rq_event list \<Rightarrow> GmaReorder \<Rightarrow> GmaReorder result" where
  "rq_run evs s = rfoldl rq_step s evs"

fun rq_arrival :: "rq_event \<Rightarrow> (u8 list \<times> GmaHeader) list" where
  "rq_arrival (Arrive up now packet h) = [(packet, h)]"
| "rq_arrival _ = []"

definition rq_arrivals :: "rq_event list \<Rightarrow> (u8 list \<times> GmaHeader) list" where
  "rq_arrivals evs = concat (map rq_arrival evs)"

text \<open>No packet is late for the direct delivery: a packet that arrives while the reordering is switched
  off is not before the expected one.\<close>

fun rq_no_late :: "rq_event list \<Rightarrow> GmaReorder \<Rightarrow> bool" where
  "rq_no_late [] s = True"
| "rq_no_late (e # evs) s = ((case e of
       Arrive up now packet h \<Rightarrow> rq_enableReordering s \<or> rq_gmaRxExpectedSn s \<le> gh_sequenceNumber h
     | _ \<Rightarrow> True) \<and> (case rq_step s e of Inl _ \<Rightarrow> True | Inr t \<Rightarrow> rq_no_late evs t))"

text \<open>No link reorders the packets it carries.\<close>

definition rq_fifo :: "(u8 list \<times> GmaHeader) list \<Rightarrow> bool" where
  "rq_fifo xs = sorted_wrt (\<lambda>a b. gh_connectionId (snd a) = gh_connectionId (snd b) \<longrightarrow> fw_sn a \<le> fw_sn b) xs"

definition rq_valid :: "u8 list \<Rightarrow> u8 list \<times> GmaHeader \<Rightarrow> bool" where
  "rq_valid keys x \<longleftrightarrow> gh_connectionId (snd x) \<in> set keys \<and> fw_sn x < 0x800000"

lemma rq_queued_bag: "rq_queued s \<le> size (rq_bag s)"
  by (simp add: rq_bag_def)

lemma rq_item_bag: "i \<in> set (rq_all (rq_linkParamsMap s)) \<Longrightarrow> rq_item i \<in># rq_bag s"
  by (simp add: rq_bag_def)

lemma rq_fst_keys: "fst ` set ps = set (map fst ps)"
  by simp

definition rq_inv :: "u8 list \<Rightarrow> GmaReorder \<Rightarrow> bool" where
  "rq_inv keys s \<longleftrightarrow> rq_ok s \<and> rq_ord s \<and> rq_gap s \<and> rq_quiet s \<and> map fst (rq_linkParamsMap s) = keys"

lemma rq_receive_off:
  assumes "rq_inv keys s" "\<not> rq_enableReordering s" "rq_gmaRxExpectedSn s \<le> gh_sequenceNumber h"
    "gh_sequenceNumber h < 0x800000"
  shows "\<exists>s'. rq_receive up now packet h cid s = Inr s' \<and> rq_inv keys s' \<and> rq_bag s' = add_mset (packet, h) (rq_bag s)
    \<and> \<not> rq_enableReordering s'"
proof -
  let ?e = "(gh_sequenceNumber h + 1) AND MAX_GMA_SN"
  let ?t = "rq_MeasureAndForward now packet h (s\<lparr>rq_gmaRxExpectedSn := ?e\<rparr>)"
  have i: "rq_ok s" "rq_ord s" "map fst (rq_linkParamsMap s) = keys" "rq_queued s = 0"
    using assms(1,2) by (simp_all add: rq_inv_def rq_quiet_def)
  have n: "?e = gh_sequenceNumber h + 1" "gh_sequenceNumber h < gh_sequenceNumber h + 1" "gh_sequenceNumber h + 1 \<le> 0x800000"
    using rq_next_sn [OF assms(4)] by auto
  have bef: "fw_sn x < gh_sequenceNumber h" if "x \<in> set (rq_forwarded s)" for x
    using that i(2) assms(3) by (auto simp: rq_ord_def intro: less_le_trans)
  have "sorted (map fw_sn (rq_forwarded s @ [(packet, h)]))"
    using i(2) bef by (auto simp: rq_ord_def sorted_append intro: less_imp_le)
  moreover have "\<forall>x \<in> set (rq_forwarded s @ [(packet, h)]). fw_sn x < gh_sequenceNumber h + 1"
    using bef n(2) by (auto intro: less_trans)
  ultimately have "rq_ord ?t" using i(2,4) n by (simp add: rq_ord_def)
  moreover have "rq_ok ?t" using i(1,4) by (simp add: rq_ok_def rq_wf_def)
  moreover have "rq_gap ?t" using i(4) by (simp add: rq_gap_def)
  ultimately show ?thesis using assms(2) i(3,4)
    by (simp add: rq_receive_def rq_inv_def rq_bag_def rq_quiet_def)
qed

lemma rq_receive_on:
  assumes "rq_inv keys s" "size (rq_bag s) < 2 ^ 32 - 1" "rq_enableReordering s" "rq_valid keys (packet, h)"
    "\<forall>x \<in># rq_bag s. gh_connectionId (snd x) = gh_connectionId h \<longrightarrow> fw_sn x \<le> gh_sequenceNumber h"
  shows "\<exists>s'. rq_receive up now packet h (gh_connectionId h) s = Inr s' \<and> rq_inv keys s'
    \<and> rq_bag s' \<subseteq># add_mset (packet, h) (rq_bag s)"
proof -
  let ?c = "gh_connectionId h"
  have i: "rq_ok s" "rq_wf s" "rq_ord s" "rq_gap s" "map fst (rq_linkParamsMap s) = keys"
    using assms(1) by (simp_all add: rq_inv_def rq_ok_def)
  have i6: "rq_quiet s" using assms(1) by (simp add: rq_inv_def)
  have q: "rq_queued s < 2 ^ 32 - 1" using assms(2) rq_queued_bag by (rule le_less_trans [rotated])
  have v: "?c \<in> fst ` set (rq_linkParamsMap s)" "gh_sequenceNumber h < 0x800000"
    using assms(4) i(5) unfolding rq_fst_keys by (simp_all add: rq_valid_def)
  have fifo: "\<forall>i \<in> set (rq_all (rq_linkParamsMap s)). gh_connectionId (ri_gmaHeader i) = ?c \<longrightarrow> ri_sn i \<le> gh_sequenceNumber h"
    using assms(5) rq_item_bag by (fastforce simp: rq_item_def)
  obtain s' where s': "rq_InOrderDelivery up now packet h ?c s = Inr s'" "rq_ok s'"
    "if rq_past h s then s' = rq_set_last ?c h s else rq_adds s (packet, h) s'"
    using rq_InOrderDelivery_adds [OF i(1) v(1) refl q] by blast
  have "rq_ord s' \<and> rq_gap s'" by (rule rq_InOrderDelivery_gap [OF i(2-4) v(1) q refl v(2) fifo s'(1)])
  moreover have "rq_quiet s'" "map fst (rq_linkParamsMap s') = keys" "rq_bag s' \<subseteq># add_mset (packet, h) (rq_bag s)"
    using s'(3) i(5) i6 assms(3) by (auto simp: rq_adds_def split: if_splits)
  ultimately show ?thesis using s'(1,2) assms(3) by (simp add: rq_receive_def rq_inv_def)
qed

lemma rq_step_inv:
  assumes "rq_inv keys s" "size (rq_bag s) < 2 ^ 32 - 1" "\<forall>y \<in> set (rq_arrival e). rq_valid keys y
    \<and> (\<forall>x \<in># rq_bag s. gh_connectionId (snd x) = gh_connectionId (snd y) \<longrightarrow> fw_sn x \<le> fw_sn y)" "rq_no_late [e] s"
  shows "\<exists>s'. rq_step s e = Inr s' \<and> rq_inv keys s' \<and> rq_bag s' \<subseteq># rq_bag s + mset (rq_arrival e)"
proof -
  have i: "rq_ok s" "rq_wf s" "rq_ord s" "rq_gap s" "rq_quiet s" "map fst (rq_linkParamsMap s) = keys"
    using assms(1) by (simp_all add: rq_inv_def rq_ok_def)
  show ?thesis
  proof (cases e)
    case (Arrive up now packet h)
    then have v: "rq_valid keys (packet, h)"
      "\<forall>x \<in># rq_bag s. gh_connectionId (snd x) = gh_connectionId h \<longrightarrow> fw_sn x \<le> gh_sequenceNumber h"
      "gh_sequenceNumber h < 0x800000" using assms(3) by (simp_all add: rq_valid_def)
    show ?thesis
    proof (cases "rq_enableReordering s")
      case True
      then show ?thesis using rq_receive_on [OF assms(1,2) True v(1,2)] by (simp add: Arrive)
    next
      case False
      then have "rq_gmaRxExpectedSn s \<le> gh_sequenceNumber h" using assms(4) by (simp add: Arrive)
      then obtain s' where "rq_receive up now packet h (gh_connectionId h) s = Inr s'" "rq_inv keys s'"
        "rq_bag s' = add_mset (packet, h) (rq_bag s)" using rq_receive_off [OF assms(1) False _ v(3)] by blast
      then show ?thesis by (simp add: Arrive)
    qed
  next
    case (TimeoutEvent now)
    obtain t where t: "rq_goes now s t" "rq_ok t" "rq_queued t > 0 \<longrightarrow> rq_waits t"
      "rq_ReorderingTimeout now s = Inr (t\<lparr>rq_reorderingTimeout
            := max MIN_REORDERING_TIMEOUT (min MAX_REORDERING_TIMEOUT (2 * rq_reorderingTimeout t)),
          rq_nextReorderingUpdateTime := now + 10 * 1000000000\<rparr>)"
      using rq_ReorderingTimeout_goes [OF i(2)] by blast
    have "rq_ord t" by (rule rq_goes_ord [OF t(1) i(2,3)])
    moreover from this have "rq_gap t" using t(3) rq_waits_gap rq_empty_gap by blast
    moreover have "rq_quiet t" using t(1) i(5) by (simp add: rq_goes_def rq_calm_def)
    ultimately show ?thesis using t(1,2,4) i(6)
      by (simp add: TimeoutEvent rq_inv_def rq_ok_def rq_wf_def rq_ord_def rq_gap_def rq_bag_def rq_goes_def rq_keeps_def
          rq_quiet_def)
  next
    case (StopEvent now)
    let ?t = "s\<lparr>rq_stopReorderEvent := None\<rparr>"
    have wf: "rq_wf ?t" "rq_ord ?t" using i(2,3) by (simp_all add: rq_wf_def rq_ord_def)
    obtain s' where s': "rq_StopReordering now ?t = Inr s'" "rq_goes now ?t s'" "rq_queued s' = 0"
      using rq_StopReordering_ok [OF wf(1)] by blast
    moreover have "rq_ord s' \<and> rq_gap s'" by (rule rq_StopReordering_gap [OF wf s'(1)])
    ultimately show ?thesis using i(6)
      by (simp add: StopEvent rq_inv_def rq_ok_def rq_bag_def rq_goes_def rq_keeps_def rq_quiet_def)
  qed
qed

lemma rq_run_inv:
  assumes "rq_inv keys s" "size (rq_bag s) + length evs < 2 ^ 32" "\<forall>y \<in> set (rq_arrivals evs). rq_valid keys y
    \<and> (\<forall>x \<in># rq_bag s. gh_connectionId (snd x) = gh_connectionId (snd y) \<longrightarrow> fw_sn x \<le> fw_sn y)"
    "rq_fifo (rq_arrivals evs)" "rq_no_late evs s"
  shows "\<exists>s'. rq_run evs s = Inr s' \<and> rq_inv keys s' \<and> rq_bag s' \<subseteq># rq_bag s + mset (rq_arrivals evs)"
  using assms
proof (induction evs arbitrary: s)
  case (Cons e evs)
  have arr: "rq_arrivals (e # evs) = rq_arrival e @ rq_arrivals evs" by (simp add: rq_arrivals_def)
  have now: "rq_no_late [e] s" using Cons.prems(5) by (simp split: sum.splits)
  obtain t where t: "rq_step s e = Inr t" "rq_inv keys t" "rq_bag t \<subseteq># rq_bag s + mset (rq_arrival e)"
    using rq_step_inv [OF Cons.prems(1) _ _ now] Cons.prems(2,3) unfolding arr by auto
  have late: "rq_no_late evs t" using Cons.prems(5) t(1) by simp
  have "size (rq_bag t) \<le> size (rq_bag s + mset (rq_arrival e))" using t(3) by (rule size_mset_mono)
  also have "\<dots> \<le> size (rq_bag s) + 1" by (cases e) simp_all
  finally have size: "size (rq_bag t) + length evs < 2 ^ 32" using Cons.prems(2) by simp
  have sub: "x \<in># rq_bag s \<or> x \<in> set (rq_arrival e)" if "x \<in># rq_bag t" for x
    using mset_subset_eqD [OF t(3) that] by simp
  have two: "rq_fifo (rq_arrivals evs)" "\<forall>x \<in> set (rq_arrival e). \<forall>y \<in> set (rq_arrivals evs).
      gh_connectionId (snd x) = gh_connectionId (snd y) \<longrightarrow> fw_sn x \<le> fw_sn y"
    using Cons.prems(4) unfolding arr rq_fifo_def by (simp_all add: sorted_wrt_append)
  have "\<forall>y \<in> set (rq_arrivals evs). rq_valid keys y
      \<and> (\<forall>x \<in># rq_bag t. gh_connectionId (snd x) = gh_connectionId (snd y) \<longrightarrow> fw_sn x \<le> fw_sn y)"
    using Cons.prems(3) two(2) sub unfolding arr by (metis Un_iff set_append)
  then obtain s' where s': "rq_run evs t = Inr s'" "rq_inv keys s'" "rq_bag s' \<subseteq># rq_bag t + mset (rq_arrivals evs)"
    using Cons.IH [OF t(2) size _ two(1) late] by blast
  have "rq_bag s' \<subseteq># rq_bag s + mset (rq_arrivals (e # evs))"
    using subset_mset.order_trans [OF s'(3) subset_mset.add_right_mono [OF t(3)]] by (simp add: arr ac_simps)
  then show ?case using t(1) s'(1,2) by (simp add: rq_run_def)
qed (simp add: rq_run_def)

lemma rq_run_forwards:
  assumes "rq_wf s" "rq_queued s = 0" "rq_forwarded s = []" "rq_gmaRxExpectedSn s = 0" "\<not> rq_useLsnReordering s"
    and "rq_fifo (rq_arrivals evs)" "length evs < 2 ^ 32"
    and "\<forall>x \<in> set (rq_arrivals evs). rq_valid (map fst (rq_linkParamsMap s)) x" "rq_no_late evs s"
  shows "\<exists>s'. rq_run evs s = Inr s' \<and> sorted (map (\<lambda>(packet, h). gh_sequenceNumber h) (rq_forwarded s'))
    \<and> mset (rq_forwarded s') \<subseteq># mset (rq_arrivals evs)"
proof -
  have e: "rq_all (rq_linkParamsMap s) = []" "rq_bag s = {#}" using assms(2,3) by (simp_all add: rq_bag_def)
  have "\<forall>(c, p) \<in> set (rq_linkParamsMap s). lp_reorderingQueue p = []" using e(1) by (auto simp: rq_all_def)
  then have "rq_inv (map fst (rq_linkParamsMap s)) s"
    using assms(1-5) by (fastforce simp: rq_inv_def rq_ok_def rq_ord_def rq_gap_def rq_quiet_def)
  then obtain s' where s': "rq_run evs s = Inr s'" "rq_ord s'" "rq_bag s' \<subseteq># mset (rq_arrivals evs)"
    using rq_run_inv [of _ s evs] assms(6-9) e(2) by (auto simp: rq_inv_def)
  have "mset (rq_forwarded s') \<subseteq># rq_bag s'" by (simp add: rq_bag_def)
  moreover have "fw_sn = (\<lambda>(packet, h). gh_sequenceNumber h)" by auto
  ultimately show ?thesis using s' by (auto simp: rq_ord_def)
qed

text \<open>C10: the receiver delivers in order. From a receiver with empty queues that expects number 0 and does
  not use the LSN reordering, for every run of fewer than \<open>2 ^ 32\<close> arrivals, reordering timeouts and stops of
  the reordering in which every packet arrives on a link of the receiver, each link keeps the order of its packets, the
  numbers stay below \<open>2 ^ 23\<close> and no packet that arrives after the reordering was stopped is before the
  expected one: no step fails, the sequence numbers of the forwarded packets never decrease, whatever is
  lost and whenever the timers fire, only arrived packets are forwarded, and each at most once. At the
  end of the circle of numbers the order is not kept, see \<open>rq_run_last_number\<close>.\<close>

theorem rq_run_in_order:
  assumes "rq_wf s" "rq_queued s = 0" "rq_forwarded s = []" "rq_gmaRxExpectedSn s = 0" "\<not> rq_useLsnReordering s"
    and "rq_fifo (rq_arrivals evs)" "length evs < 2 ^ 32"
    and "\<forall>x \<in> set (rq_arrivals evs). rq_valid (map fst (rq_linkParamsMap s)) x" "rq_no_late evs s"
  shows "\<exists>s'. rq_run evs s = Inr s' \<and> sorted (map (\<lambda>(packet, h). gh_sequenceNumber h) (rq_forwarded s'))
    \<and> mset (rq_forwarded s') \<subseteq># mset (rq_arrivals evs)"
  using rq_run_forwards [OF assms] .

section \<open>Differences of sequence numbers\<close>

text \<open>The signed distance on a circle of \<open>M\<close> numbers, between \<open>- M div 2\<close> and \<open>M div 2\<close>; at exactly half of the
  circle the sign is that of the difference of the numbers.\<close>

definition circular_distance :: "int \<Rightarrow> int \<Rightarrow> int \<Rightarrow> int" where
  "circular_distance M x y = (let r = (x - y + M div 2) mod M - M div 2 in
    if r = - (M div 2) \<and> y < x then M div 2 else r)"

locale circular =
  fixes diff :: "int \<Rightarrow> int \<Rightarrow> int" and M :: int
  assumes half: "0 < M" "even M"
    and diff: "diff x y = (if x - y > M div 2 then x - y - M else if x - y < - (M div 2) then x - y + M else x - y)"
begin

lemma mod_near:
  assumes "- M \<le> d" "d < 2 * M"
  shows "d mod M = (if d < 0 then d + M else if d < M then d else d - M)"
proof -
  have plus: "d mod M = (d + M) mod M" and minus: "d mod M = (d - M) mod M" by simp_all
  consider "d < 0" | "0 \<le> d" "d < M" | "M \<le> d" by linarith
  then show ?thesis
  proof cases
    case 1
    then show ?thesis unfolding plus using assms by (simp add: mod_pos_pos_trivial del: mod_add_self2)
  next
    case 2
    then show ?thesis by (simp add: mod_pos_pos_trivial)
  next
    case 3
    then show ?thesis unfolding minus using assms half by (simp add: mod_pos_pos_trivial del: minus_mod_self2)
  qed
qed

lemma distance:
  assumes "0 \<le> x" "x < M" "0 \<le> y" "y < M"
  shows "diff x y = circular_distance M x y"
proof -
  define h where "h = M div 2"
  have M: "M = 2 * h" "0 < h" using half by (auto simp: h_def elim!: evenE)
  consider "x - y > h" | "x - y < - h" | "x - y = h" | "- h \<le> x - y" "x - y < h" by linarith
  then show ?thesis
  proof cases
    case 1
    then show ?thesis using mod_near [of "x - y + h"] assms M by (simp add: diff circular_distance_def flip: h_def)
  next
    case 2
    then show ?thesis using mod_near [of "x - y + h"] assms M by (simp add: diff circular_distance_def flip: h_def)
  next
    case 3
    then show ?thesis using M by (simp add: diff circular_distance_def flip: h_def)
  next
    case 4
    then have "(x - y + h) mod M = x - y + h" using M by (intro mod_pos_pos_trivial) auto
    then have "(x - y + h) mod M - h = x - y" by simp
    moreover have "diff x y = x - y" using 4 M(2) by (simp add: diff flip: h_def)
    moreover have "\<not> (x - y = - h \<and> y < x)" using M(2) by simp
    ultimately show ?thesis by (simp add: circular_distance_def Let_def flip: h_def)
  qed
qed

lemma step:
  assumes "\<bar>k\<bar> < M div 2"
  shows "diff ((x + k) mod M) (x mod M) = k"
proof -
  have "(x + k) mod M = (x mod M + k) mod M" by (simp add: mod_simps)
  also have "\<dots> = (if x mod M + k < 0 then x mod M + k + M else if x mod M + k < M then x mod M + k else x mod M + k - M)"
    using assms half pos_mod_bound [of M x] pos_mod_sign [of M x] by (intro mod_near) linarith+
  finally show ?thesis using assms half by (auto simp: diff)
qed

end

interpretation sn: circular SnDiff 16777216
  by unfold_locales (simp_all add: SnDiff_def Let_def)

interpretation csn: circular CsnDiff 65536
  by unfold_locales (simp_all add: CsnDiff_def Let_def)

interpretation lsn: circular LsnDiff 256
  by unfold_locales (simp_all add: LsnDiff_def Let_def)

text \<open>C31: SnDiff, CsnDiff and LsnDiff compute the signed distance on the circles of 24, 16 and 8 bit
  numbers, across the wrap-around too.\<close>

theorem sequence_differences:
  "SnDiff (uint (x AND 0xFFFFFF)) (uint (y AND 0xFFFFFF))
     = circular_distance (2 ^ 24) (uint (x AND 0xFFFFFF :: u32)) (uint (y AND 0xFFFFFF :: u32))
   \<and> CsnDiff (uint (c :: u16)) (uint (d :: u16)) = circular_distance (2 ^ 16) (uint c) (uint d)
   \<and> LsnDiff (uint (a :: u8)) (uint (b :: u8)) = circular_distance (2 ^ 8) (uint a) (uint b)"
proof -
  have "uint (z AND 0xFFFFFF :: u32) < 16777216" for z :: u32
    using word_and_le1 [of z "0xFFFFFF"] by (simp add: word_le_def)
  then have "SnDiff (uint (x AND 0xFFFFFF)) (uint (y AND 0xFFFFFF))
      = circular_distance 16777216 (uint (x AND 0xFFFFFF)) (uint (y AND 0xFFFFFF))" by (intro sn.distance) simp_all
  moreover have "CsnDiff (uint c) (uint d) = circular_distance 65536 (uint c) (uint d)"
    using uint_range_size [of c] uint_range_size [of d] by (intro csn.distance) (simp_all add: word_size)
  moreover have "LsnDiff (uint a) (uint b) = circular_distance 256 (uint a) (uint b)"
    using uint_range_size [of a] uint_range_size [of b] by (intro lsn.distance) (simp_all add: word_size)
  ultimately show ?thesis by simp
qed

section \<open>A concrete receiver\<close>

definition ex_header :: "u8 \<Rightarrow> u32 \<Rightarrow> GmaHeader" where
  "ex_header cid sn = GmaHeader_ctor \<lparr>gh_timeStamp = 0, gh_localSequenceNumber = 0, gh_sequenceNumber = sn, gh_flowId = 0,
    gh_connectionId = cid, gh_clientId = 0, gh_optionBytes = 0, gh_flagsBits = []\<rparr>"

definition ex_receiver :: "u32 \<Rightarrow> GmaReorder" where
  "ex_receiver sn = GmaReorder_new\<lparr>rq_linkParamsMap := [(0, LinkParams_new), (1, LinkParams_new)],
    rq_enableReordering := True, rq_gmaRxExpectedSn := sn\<rparr>"

lemma ex_receiver_ok: "rq_wf (ex_receiver sn)" "rq_queued (ex_receiver sn) = 0" "rq_forwarded (ex_receiver sn) = []"
  "rq_gmaRxExpectedSn (ex_receiver sn) = sn" "\<not> rq_useLsnReordering (ex_receiver sn)" "rq_timeout_ok (ex_receiver sn)"
  "rq_ok (ex_receiver sn)" "map fst (rq_linkParamsMap (ex_receiver sn)) = [0, 1]"
  by (simp_all add: ex_receiver_def GmaReorder_new_def LinkParams_new_def rq_wf_def rq_ok_def rq_all_def
    rq_timeout_ok_def MAX_REORDERING_TIMEOUT_def)

lemma rq_InOrderDelivery_witness:
  "\<exists>s'. rq_InOrderDelivery (\<lambda>_. True) 0 [1, 2] (ex_header 1 7) 1 (ex_receiver 5) = Inr s' \<and> rq_ok s'
    \<and> rq_bag s' = {#([1, 2], ex_header 1 7)#}"
proof -
  have "\<not> SnDiff (to_int 7) (to_int 5) < 0" by (simp add: SnDiff_def)
  then show ?thesis
    using rq_InOrderDelivery_ok [OF ex_receiver_ok(7), where cid = 1 and h = "ex_header 1 7" and sn1 = 5 and up = "\<lambda>_. True" and now = 0
        and packet = "[1, 2]"] ex_receiver_ok
    unfolding rq_fst_keys by (auto simp: ex_header_def GmaHeader_ctor_def rq_bag_def)
qed

lemma rq_ReorderingTimeout_witness:
  "\<exists>s'. rq_ReorderingTimeout 5 (ex_receiver 0) = Inr s' \<and> rq_ok s' \<and> MIN_REORDERING_TIMEOUT \<le> rq_reorderingTimeout s'"
  using rq_ReorderingTimeout_ok [OF ex_receiver_ok(1,6), of 5 0] by blast

abbreviation ex_arrive :: "u8 \<Rightarrow> u32 \<Rightarrow> rq_event" where
  "ex_arrive cid sn \<equiv> Arrive (\<lambda>_. True) 0 [] (ex_header cid sn)"

text \<open>A run in which the timer releases two packets, a packet comes too late, the reordering is stopped with
  a packet in the queues and two more packets are delivered directly.\<close>

abbreviation ex_events :: "rq_event list" where
  "ex_events \<equiv> [ex_arrive 1 2, ex_arrive 0 0, ex_arrive 1 4, TimeoutEvent 2000000000, ex_arrive 0 1, ex_arrive 1 7,
    StopEvent 3000000000, ex_arrive 1 8, ex_arrive 0 9]"

lemma rq_run_in_order_witness:
  "\<exists>s'. rq_run ex_events (ex_receiver 0) = Inr s' \<and> \<not> rq_enableReordering s'
    \<and> map (\<lambda>(packet, h). gh_sequenceNumber h) (rq_forwarded s') = [0, 2, 4, 7, 8, 9]
    \<and> sorted (map (\<lambda>(packet, h). gh_sequenceNumber h) (rq_forwarded s'))"
proof -
  have late: "rq_no_late ex_events (ex_receiver 0)" by code_simp
  have "map_sum id (\<lambda>s. (rq_enableReordering s, map (\<lambda>(packet, h). gh_sequenceNumber h) (rq_forwarded s)))
      (rq_run ex_events (ex_receiver 0)) = Inr (False, [0, 2, 4, 7, 8, 9])" by code_simp
  then show ?thesis
    using rq_run_in_order [OF ex_receiver_ok(1-3) ex_receiver_ok(4,5) _ _ _ late]
    by (auto simp: rq_arrivals_def rq_fifo_def rq_valid_def ex_receiver_ok(8) ex_header_def GmaHeader_ctor_def)
qed

text \<open>Rq_run delivers the last number of the circle out of order: 0xFFFFFF is also the mark for no
  number found, so with it in front of one queue and its successor's successor 5 in front of another,
  5 is taken for the smaller one and is forwarded first; the run with 0xFFFFFE in its place is in order.\<close>

theorem rq_run_last_number:
  "map_sum id (\<lambda>s. map (\<lambda>(packet, h). gh_sequenceNumber h) (rq_forwarded s))
     (rq_run [ex_arrive 0 0xFFFFFF, ex_arrive 1 5] (ex_receiver 0xFFFFFD)) = Inr [5, 0xFFFFFF]
   \<and> map_sum id (\<lambda>s. map (\<lambda>(packet, h). gh_sequenceNumber h) (rq_forwarded s))
     (rq_run [ex_arrive 0 0xFFFFFE, ex_arrive 1 5] (ex_receiver 0xFFFFFC)) = Inr [0xFFFFFE]"
  by code_simp

end
