(* ===== verification/Phy_Access.thy ===== *)
theory Phy_Access
  imports Gma_Header Mx_Control_Header Std_Map
begin

text \<open>The physical access of a link, \<open>PhyAccessControl\<close> of \<open>src/contrib/gma/model/phy-access-control\<close>:
  the access points of the link with their last RSSI, the choice of a better one when a probe is sent,
  the test probe over the new access point, and the simulated time a single radio is down.

  A packet is its GMA header with what the header encloses; their bytes are the subject of
  \<open>Gma_Header\<close> and \<open>Mx_Control_Header\<close>.  Addresses are numbers, the socket is a flag (null or not),
  and a call of the socket or of the scheduler is an output.\<close>

section \<open>The class\<close>

datatype gma_body = CtrlMsg MxControlHeader | Payload "u8 list"

type_synonym gma_packet = "GmaHeader \<times> gma_body"

record PhyAccessControl =
  pa_idToIpMap :: "(u8, u32) smap"
  pa_macAddrToIdMap :: "(u64, u8) smap"
  pa_idToRssiMap :: "(u8, real) smap"
  pa_currentApId :: u8
  pa_bestApId :: u8
  pa_ipAddr :: u32
  pa_socket :: bool
  pa_portNumber :: u16
  pa_testProbeAcked :: bool
  pa_testProbeSn :: u16
  pa_simulateLinkDownTime :: time
  pa_ipChangeTime :: time
  pa_roamingLowRssi :: real

definition WIFI_ROAMING_RSSI_THRESH :: real where "WIFI_ROAMING_RSSI_THRESH = 3"

text \<open>A new object; \<open>m_bestApId\<close>, the address and the port are not initialised.\<close>

definition PhyAccessControl_new :: "u8 \<Rightarrow> u32 \<Rightarrow> u16 \<Rightarrow> PhyAccessControl" where
  "PhyAccessControl_new best ip port = \<lparr>pa_idToIpMap = [], pa_macAddrToIdMap = [], pa_idToRssiMap = [],
    pa_currentApId = UINT8_MAX, pa_bestApId = best, pa_ipAddr = ip, pa_socket = False, pa_portNumber = port,
    pa_testProbeAcked = True, pa_testProbeSn = 0, pa_simulateLinkDownTime = 0, pa_ipChangeTime = 0,
    pa_roamingLowRssi = -79\<rparr>"

definition pa_AddCandidate :: "u32 \<Rightarrow> u64 \<Rightarrow> u8 \<Rightarrow> PhyAccessControl \<Rightarrow> PhyAccessControl" where
  "pa_AddCandidate phyAddr macAddr apId s =
    s\<lparr>pa_idToIpMap := sm_set apId phyAddr (pa_idToIpMap s), pa_macAddrToIdMap := sm_set macAddr apId (pa_macAddrToIdMap s)\<rparr>"

definition pa_GetApIdFromMacAddr :: "u64 \<Rightarrow> PhyAccessControl \<Rightarrow> int" where
  "pa_GetApIdFromMacAddr macAddr s =
    (case sm_find macAddr (pa_macAddrToIdMap s) of None \<Rightarrow> -1 | Some apId \<Rightarrow> uint apId)"

definition pa_ReportRssi :: "real \<Rightarrow> u8 \<Rightarrow> PhyAccessControl \<Rightarrow> PhyAccessControl" where
  "pa_ReportRssi rssi apId s = s\<lparr>pa_idToRssiMap := sm_set apId rssi (pa_idToRssiMap s)\<rparr>"

definition pa_GetCurrentApRssi :: "PhyAccessControl \<Rightarrow> real" where
  "pa_GetCurrentApRssi s =
    (case sm_find (pa_currentApId s) (pa_idToRssiMap s) of None \<Rightarrow> -1000 | Some rssi \<Rightarrow> rssi)"

definition pa_SetIp :: "time \<Rightarrow> u32 \<Rightarrow> bool \<Rightarrow> PhyAccessControl \<Rightarrow> PhyAccessControl" where
  "pa_SetIp now phyAddr linkDown s =
    (let s = s\<lparr>pa_ipAddr := phyAddr\<rparr> in if linkDown then s\<lparr>pa_ipChangeTime := now\<rparr> else s)"

definition pa_SetApId :: "u8 \<Rightarrow> PhyAccessControl \<Rightarrow> PhyAccessControl" where
  "pa_SetApId i s = s\<lparr>pa_currentApId := i, pa_bestApId := i\<rparr>"

text \<open>The scan: the access point with the largest RSSI, when it beats the current one by the margin.\<close>

definition pa_max_rssi :: "PhyAccessControl \<Rightarrow> real \<times> u8" where
  "pa_max_rssi s = foldl (\<lambda>(maxRssi, maxApId) (apId, rssi).
    if rssi > maxRssi then (rssi, apId) else (maxRssi, maxApId)) (-1000, pa_currentApId s) (pa_idToRssiMap s)"

definition pa_ScanRssi :: "PhyAccessControl \<Rightarrow> PhyAccessControl result" where
  "pa_ScanRssi s =
    (if length (pa_idToRssiMap s) > 0 then
       (case sm_find (pa_currentApId s) (pa_idToRssiMap s) of
          None \<Rightarrow> Inl (Assertion ''cannot find m_currentApId in the map!'')
        | Some current \<Rightarrow>
            if pa_simulateLinkDownTime s > 0 \<and> current > pa_roamingLowRssi s then Inr s
            else
              (let (maxRssi, maxApId) = pa_max_rssi s in
               if maxApId \<noteq> pa_currentApId s \<and> maxRssi > current + WIFI_ROAMING_RSSI_THRESH
               then Inr (s\<lparr>pa_bestApId := maxApId\<rparr>) else Inr s))
     else Inr s)"

text \<open>The switch to the best access point.\<close>

definition pa_switch :: "time \<Rightarrow> PhyAccessControl \<Rightarrow> PhyAccessControl result" where
  "pa_switch now s =
    (let s = s\<lparr>pa_currentApId := pa_bestApId s\<rparr> in
     case sm_find (pa_currentApId s) (pa_idToIpMap s) of
       None \<Rightarrow> Inl (Assertion ''cannot find currentip in the map!'')
     | Some ip \<Rightarrow> Inr (s\<lparr>pa_ipAddr := ip, pa_ipChangeTime := now\<rparr>))"

definition pa_ProbeAcked :: "time \<Rightarrow> u16 \<Rightarrow> PhyAccessControl \<Rightarrow> (bool \<times> PhyAccessControl) result" where
  "pa_ProbeAcked now sn s =
    (if pa_testProbeAcked s = False \<and> pa_testProbeSn s = sn then
       rbind (pa_switch now s) (\<lambda>s. Inr (True, s\<lparr>pa_testProbeAcked := True\<rparr>))
     else Inr (False, s))"

definition pa_TestProbeTimeout :: "PhyAccessControl \<Rightarrow> PhyAccessControl" where
  "pa_TestProbeTimeout s =
    (if pa_testProbeAcked s = False then s\<lparr>pa_bestApId := pa_currentApId s, pa_testProbeAcked := True\<rparr> else s)"

section \<open>Sending and receiving\<close>

datatype pa_out = SendTo u32 u16 u8 gma_packet | ScheduleTestProbeTimeout time

definition pa_down :: "time \<Rightarrow> PhyAccessControl \<Rightarrow> bool" where
  "pa_down now s \<longleftrightarrow> pa_simulateLinkDownTime s > 0 \<and> now < pa_ipChangeTime s + pa_simulateLinkDownTime s"

definition pa_test_probe ::
    "time \<Rightarrow> GmaHeader \<Rightarrow> MxControlHeader \<Rightarrow> GmaHeader \<Rightarrow> PhyAccessControl \<Rightarrow> (pa_out list \<times> PhyAccessControl) result" where
  "pa_test_probe now raw mxHeader gmaHeader s =
    (let newP = (gh_SetClientId (gh_clientId gmaHeader) (GmaHeader_ctor raw), CtrlMsg (mx_SetProbeFlag 0 mxHeader)) in
     if \<not> pa_socket s then Inr ([], s)
     else
       (case sm_find (pa_bestApId s) (pa_idToIpMap s) of
          None \<Rightarrow> Inl (Assertion ''cannot find bestApId in the map!'')
        | Some ip \<Rightarrow> Inr ([SendTo ip (pa_portNumber s) 0 newP, ScheduleTestProbeTimeout (now + 1000000000)],
            s\<lparr>pa_testProbeAcked := False, pa_testProbeSn := mx_sequenceNumber mxHeader\<rparr>)))"

text \<open>The roaming on a probe: the link down flag, and the test probe that replaces the packet, if any.\<close>

definition pa_roam ::
    "time \<Rightarrow> GmaHeader \<Rightarrow> GmaHeader \<Rightarrow> MxControlHeader \<Rightarrow> PhyAccessControl
      \<Rightarrow> (bool \<times> pa_out list option \<times> PhyAccessControl) result" where
  "pa_roam now raw gmaHeader mxHeader s =
    (if mx_type mxHeader = 1 then
       rbind (pa_ScanRssi s) (\<lambda>s.
       if pa_currentApId s \<noteq> pa_bestApId s then
         (case sm_find (pa_currentApId s) (pa_idToRssiMap s) of
            None \<Rightarrow> Inl (Assertion ''cannot find m_currentApId in the map!'')
          | Some current \<Rightarrow>
              if pa_simulateLinkDownTime s > 0 then rbind (pa_switch now s) (\<lambda>s. Inr (True, None, s))
              else if current < pa_roamingLowRssi s then rbind (pa_switch now s) (\<lambda>s. Inr (True, None, s))
              else if pa_testProbeAcked s = True then
                rbind (pa_test_probe now raw mxHeader gmaHeader s) (\<lambda>(out, s). Inr (False, Some out, s))
              else Inr (False, None, s))
       else Inr (False, None, s))
     else Inr (False, None, s))"

definition pa_SendPacket ::
    "time \<Rightarrow> GmaHeader \<Rightarrow> gma_packet \<Rightarrow> u8 \<Rightarrow> PhyAccessControl \<Rightarrow> (bool \<times> pa_out list \<times> PhyAccessControl) result" where
  "pa_SendPacket now raw pkt tos s =
    (if pa_down now s then Inr (False, [], s)
     else
       rbind (if gh_GetFlags (fst pkt) = 256 then
           (case snd pkt of CtrlMsg mxHeader \<Rightarrow> pa_roam now raw (fst pkt) mxHeader s
            | Payload _ \<Rightarrow> Inl (Undefined ''a control header is read from data''))
         else Inr (False, None, s)) (\<lambda>(linkDownFlag, replaced, s).
       case replaced of
         Some out \<Rightarrow> Inr (linkDownFlag, out, s)
       | None \<Rightarrow> Inr (linkDownFlag, if pa_socket s then [SendTo (pa_ipAddr s) (pa_portNumber s) tos pkt] else [], s)))"

definition pa_ReceiveOk :: "time \<Rightarrow> u32 \<Rightarrow> PhyAccessControl \<Rightarrow> bool" where
  "pa_ReceiveOk now phyAddr s =
    (if pa_simulateLinkDownTime s > 0 then
       (if phyAddr \<noteq> pa_ipAddr s then False
        else if now < pa_ipChangeTime s + pa_simulateLinkDownTime s then False else True)
     else True)"

section \<open>Roaming\<close>

text \<open>Every access point with a known RSSI has an address, and the current one has an RSSI once any has.\<close>

definition pa_ok :: "PhyAccessControl \<Rightarrow> bool" where
  "pa_ok s \<longleftrightarrow> distinct (map fst (pa_idToRssiMap s)) \<and> fst ` set (pa_idToRssiMap s) \<subseteq> {i. sm_find i (pa_idToIpMap s) \<noteq> None}
    \<and> (pa_idToRssiMap s \<noteq> [] \<longrightarrow> sm_find (pa_currentApId s) (pa_idToRssiMap s) \<noteq> None)
    \<and> (pa_bestApId s = pa_currentApId s \<or> sm_find (pa_bestApId s) (pa_idToRssiMap s) \<noteq> None)"

lemma pa_max_fold:
  assumes "foldl (\<lambda>(m, a) (i, r). if r > m then (r, i) else (m, a)) (m0, a0) xs = (m :: real, a)"
  shows "(m = m0 \<and> a = a0 \<or> (a, m) \<in> set xs) \<and> m0 \<le> m \<and> (\<forall>(i, r) \<in> set xs. r \<le> m)"
  using assms
proof (induction xs arbitrary: m0 a0)
  case (Cons x xs)
  obtain i r where x: "x = (i, r)" by (cases x)
  show ?case
  proof (cases "r > m0")
    case True
    then show ?thesis using Cons.IH [of r i] Cons.prems x by auto
  next
    case False
    then show ?thesis using Cons.IH [of m0 a0] Cons.prems x by auto
  qed
qed simp

lemma pa_find_mem: "distinct (map fst m) \<Longrightarrow> sm_find k m = Some v \<longleftrightarrow> (k, v) \<in> set m"
  by (simp add: sm_find_def map_of_eq_Some_iff)

text \<open>The scan keeps the invariant; a new best access point has the largest RSSI, by the margin.\<close>

definition pa_better :: "PhyAccessControl \<Rightarrow> u8 \<Rightarrow> bool" where
  "pa_better s i \<longleftrightarrow> (\<exists>old new. sm_find (pa_currentApId s) (pa_idToRssiMap s) = Some old
    \<and> sm_find i (pa_idToRssiMap s) = Some new \<and> old + WIFI_ROAMING_RSSI_THRESH < new
    \<and> (\<forall>j r. sm_find j (pa_idToRssiMap s) = Some r \<longrightarrow> r \<le> new))"

lemma pa_ScanRssi_ok:
  assumes "pa_ok s"
  shows "\<exists>i. pa_ScanRssi s = Inr (s\<lparr>pa_bestApId := i\<rparr>) \<and> pa_ok (s\<lparr>pa_bestApId := i\<rparr>)
    \<and> (i = pa_bestApId s \<or> pa_better s i)"
proof -
  have same: "s\<lparr>pa_bestApId := pa_bestApId s\<rparr> = s" by simp
  have stay: ?thesis if "pa_ScanRssi s = Inr s"
    using that assms same by (intro exI [of _ "pa_bestApId s"]) simp
  show ?thesis
  proof (cases "pa_idToRssiMap s = []")
    case True
    then show ?thesis by (intro stay) (simp add: pa_ScanRssi_def)
  next
    case False
    then obtain old where old: "sm_find (pa_currentApId s) (pa_idToRssiMap s) = Some old"
      using assms by (auto simp: pa_ok_def)
    obtain m a where m: "pa_max_rssi s = (m, a)" by fastforce
    show ?thesis
    proof (cases "\<not> (pa_simulateLinkDownTime s > 0 \<and> old > pa_roamingLowRssi s) \<and> a \<noteq> pa_currentApId s
        \<and> m > old + WIFI_ROAMING_RSSI_THRESH")
      case True
      have d: "distinct (map fst (pa_idToRssiMap s))" using assms by (simp add: pa_ok_def)
      have "(a, m) \<in> set (pa_idToRssiMap s)" "\<forall>(i, r) \<in> set (pa_idToRssiMap s). r \<le> m"
        using pa_max_fold [OF m [unfolded pa_max_rssi_def]] True by auto
      then have b: "sm_find a (pa_idToRssiMap s) = Some m" "\<forall>j r. sm_find j (pa_idToRssiMap s) = Some r \<longrightarrow> r \<le> m"
        using pa_find_mem [OF d] by fastforce+
      have "pa_ScanRssi s = Inr (s\<lparr>pa_bestApId := a\<rparr>)" using False old m True by (auto simp: pa_ScanRssi_def)
      then show ?thesis using assms True old b by (intro exI [of _ a]) (auto simp: pa_ok_def pa_better_def)
    next
      case F: False
      then show ?thesis using False old m by (intro stay) (auto simp: pa_ScanRssi_def)
    qed
  qed
qed

lemma pa_switch_ok:
  assumes "pa_ok s" "pa_bestApId s \<noteq> pa_currentApId s"
  shows "\<exists>ip. sm_find (pa_bestApId s) (pa_idToIpMap s) = Some ip
    \<and> pa_switch now s = Inr (s\<lparr>pa_currentApId := pa_bestApId s, pa_ipAddr := ip, pa_ipChangeTime := now\<rparr>)
    \<and> pa_ok (s\<lparr>pa_currentApId := pa_bestApId s, pa_ipAddr := ip, pa_ipChangeTime := now\<rparr>)"
proof -
  obtain r where r: "sm_find (pa_bestApId s) (pa_idToRssiMap s) = Some r" using assms by (auto simp: pa_ok_def)
  then have "pa_bestApId s \<in> fst ` set (pa_idToRssiMap s)" by (force simp: sm_find_def dest: map_of_SomeD)
  then obtain ip where "sm_find (pa_bestApId s) (pa_idToIpMap s) = Some ip" using assms(1) by (auto simp: pa_ok_def)
  then show ?thesis using assms(1) r by (auto simp: pa_switch_def pa_ok_def Let_def)
qed

text \<open>The possible results of the roaming on a probe.\<close>

definition pa_moved :: "time \<Rightarrow> PhyAccessControl \<Rightarrow> bool \<Rightarrow> PhyAccessControl \<Rightarrow> bool" where
  "pa_moved now s flag s' \<longleftrightarrow> pa_ok s' \<and> pa_idToIpMap s' = pa_idToIpMap s \<and> pa_idToRssiMap s' = pa_idToRssiMap s
    \<and> (if flag then (pa_currentApId s' = pa_bestApId s \<or> pa_better s (pa_currentApId s'))
           \<and> pa_currentApId s' \<noteq> pa_currentApId s
           \<and> sm_find (pa_currentApId s') (pa_idToIpMap s) = Some (pa_ipAddr s') \<and> pa_ipChangeTime s' = now
         else pa_currentApId s' = pa_currentApId s \<and> pa_ipAddr s' = pa_ipAddr s)"

lemma pa_roam_ok:
  assumes "pa_ok s"
  shows "\<exists>flag replaced s'. pa_roam now raw g h s = Inr (flag, replaced, s') \<and> pa_moved now s flag s'
    \<and> (flag \<longrightarrow> replaced = None)"
proof -
  obtain i where i: "pa_ScanRssi s = Inr (s\<lparr>pa_bestApId := i\<rparr>)" "pa_ok (s\<lparr>pa_bestApId := i\<rparr>)"
    "i = pa_bestApId s \<or> pa_better s i" using pa_ScanRssi_ok [OF assms] by blast
  let ?t = "s\<lparr>pa_bestApId := i\<rparr>"
  have stay: "pa_moved now s False s" "pa_moved now s False ?t" using assms i(2) by (simp_all add: pa_moved_def)
  show ?thesis
  proof (cases "mx_type h = 1 \<and> pa_currentApId s \<noteq> i")
    case False
    then show ?thesis using stay i(1) by (cases "mx_type h = 1") (auto simp: pa_roam_def)
  next
    case True
    then have ne: "pa_bestApId ?t \<noteq> pa_currentApId ?t" by auto
    then have "pa_idToRssiMap s \<noteq> []" using i(2) by (auto simp: pa_ok_def)
    then obtain cur where cur: "sm_find (pa_currentApId s) (pa_idToRssiMap s) = Some cur"
      using assms by (auto simp: pa_ok_def)
    obtain ip where ip: "sm_find i (pa_idToIpMap s) = Some ip"
      "pa_switch now ?t = Inr (?t\<lparr>pa_currentApId := i, pa_ipAddr := ip, pa_ipChangeTime := now\<rparr>)"
      "pa_ok (?t\<lparr>pa_currentApId := i, pa_ipAddr := ip, pa_ipChangeTime := now\<rparr>)"
      using pa_switch_ok [OF i(2) ne, of now] by auto
    have moved: "pa_moved now s True (?t\<lparr>pa_currentApId := i, pa_ipAddr := ip, pa_ipChangeTime := now\<rparr>)"
      using ip(1,3) i(3) True by (auto simp: pa_moved_def)
    have probe: "pa_moved now s False (?t\<lparr>pa_testProbeAcked := False, pa_testProbeSn := n\<rparr>)" for n
      using i(2) by (simp add: pa_moved_def pa_ok_def)
    show ?thesis using True i(1) cur ip(1,2) moved probe stay(2)
      by (auto simp: pa_roam_def pa_test_probe_def Let_def)
  qed
qed

text \<open>The state \<open>pa_ok\<close> is needed: when only the RSSI of another access point has been reported, the scan of the next probe
  fails.\<close>

lemma pa_scan_needs_current:
  assumes "pa_idToRssiMap s \<noteq> []" "sm_find (pa_currentApId s) (pa_idToRssiMap s) = None" "mx_type mxHeader = 1"
  shows "pa_roam now raw gmaHeader mxHeader s = Inl (Assertion ''cannot find m_currentApId in the map!'')"
  using assms by (simp add: pa_roam_def pa_ScanRssi_def)

text \<open>C22: SendPacket in a state where every access point with an RSSI has an address, the current one has an RSSI as soon as
  any has (otherwise ScanRssi stops on its assertion), and the chosen one is the current one or has an RSSI; and for a
  packet that is control data whenever its flags say so (flags 256 alone).  Then it does not fail and keeps such a state;
  it reports a link down exactly when it changed the access point, and then the new one was chosen before or has the
  largest RSSI, more than 3 dB above the old one, the packets go to its address, and with a simulated down time nothing is
  sent or accepted until that time has passed.\<close>

theorem pa_SendPacket_roams:
  assumes "pa_ok s" "\<not> (gh_GetFlags (fst pkt) = 256 \<and> (\<exists>l. snd pkt = Payload l))"
  shows "\<exists>flag out s'. pa_SendPacket now raw pkt tos s = Inr (flag, out, s') \<and> pa_ok s'
    \<and> flag = (pa_currentApId s' \<noteq> pa_currentApId s)
    \<and> (if flag then (pa_currentApId s' = pa_bestApId s \<or> pa_better s (pa_currentApId s'))
         \<and> sm_find (pa_currentApId s') (pa_idToIpMap s) = Some (pa_ipAddr s') \<and> pa_ipChangeTime s' = now
         \<and> out = (if pa_socket s' then [SendTo (pa_ipAddr s') (pa_portNumber s') tos pkt] else [])
       else pa_ipAddr s' = pa_ipAddr s)
    \<and> (if pa_down now s then out = [] \<and> s' = s \<and> \<not> pa_ReceiveOk now phyAddr s else True)"
proof (cases "pa_down now s")
  case True
  then show ?thesis using assms
    by (intro exI [of _ False] exI [of _ "[]"] exI [of _ s]) (auto simp: pa_SendPacket_def pa_ReceiveOk_def pa_down_def)
next
  case False
  have stay: "pa_moved now s False s" using assms(1) by (simp add: pa_moved_def)
  obtain flag replaced s' where r: "(if gh_GetFlags (fst pkt) = 256 then
           (case snd pkt of CtrlMsg mxHeader \<Rightarrow> pa_roam now raw (fst pkt) mxHeader s
            | Payload _ \<Rightarrow> Inl (Undefined ''a control header is read from data''))
         else Inr (False, None, s)) = Inr (flag, replaced, s')" "pa_moved now s flag s'" "flag \<longrightarrow> replaced = None"
  proof (cases "gh_GetFlags (fst pkt) = 256")
    case True
    then obtain h where "snd pkt = CtrlMsg h" using assms(2) by (cases "snd pkt") auto
    then show ?thesis using that True pa_roam_ok [OF assms(1), of now raw "fst pkt" h] by auto
  next
    case F: False
    show ?thesis by (rule that [of False None s]) (use F stay in auto)
  qed
  then have "pa_SendPacket now raw pkt tos s = (case replaced of
         Some out \<Rightarrow> Inr (flag, out, s')
       | None \<Rightarrow> Inr (flag, if pa_socket s' then [SendTo (pa_ipAddr s') (pa_portNumber s') tos pkt] else [], s'))"
    using False by (simp add: pa_SendPacket_def)
  then show ?thesis using r(2,3) False by (cases replaced; cases flag) (auto simp: pa_moved_def)
qed

text \<open>A link with two access points: the second one is heard 10 dB better.\<close>

definition pa_example :: PhyAccessControl where
  "pa_example = pa_ReportRssi (- 60) 2 (pa_ReportRssi (- 70) 1 (pa_SetIp 0 11 False (pa_SetApId 1
    (pa_AddCandidate 12 102 2 (pa_AddCandidate 11 101 1 ((PhyAccessControl_new 0 0 7)\<lparr>pa_socket := True\<rparr>))))))"

lemma pa_example_ok: "pa_ok pa_example" "pa_bestApId pa_example = 1" "pa_currentApId pa_example = 1"
  by (auto simp: pa_example_def pa_ok_def pa_ReportRssi_def pa_SetIp_def pa_SetApId_def pa_AddCandidate_def
    PhyAccessControl_new_def sm_find_def Let_def)

definition pa_probe :: gma_packet where
  "pa_probe = (gh_SetClientId 7 (GmaHeader_ctor \<lparr>gh_timeStamp = 0, gh_localSequenceNumber = 0, gh_sequenceNumber = 0,
    gh_flowId = 0, gh_connectionId = 0, gh_clientId = 0, gh_optionBytes = 0, gh_flagsBits = []\<rparr>),
    CtrlMsg (mx_example\<lparr>mx_type := 1\<rparr>))"

lemma pa_SendPacket_roams_witness:
  "\<exists>flag out s'. pa_SendPacket 5 (fst pa_probe) pa_probe 0 pa_example = Inr (flag, out, s') \<and> pa_ok s'"
  using pa_SendPacket_roams [OF pa_example_ok(1), of pa_probe 5 "fst pa_probe" 0 0] by (auto simp: pa_probe_def)

end
