(* ===== verification/Virtual_Interface.thy ===== *)
theory Virtual_Interface
  imports Reordering Phy_Access Tx_Control Rx_Control
begin

text \<open>The virtual interface of a tunnel, \<open>GmaVirtualInterface\<close> of
  \<open>src/contrib/gma/model/gma-virtual-interface\<close>: its state, the sending over a link, and the control
  messages it sends and repeats until they are acknowledged.

  The record has the fields of the class in its order; \<open>vi_reorder\<close> is the part that \<open>Reordering\<close>
  models, \<open>vi_phy\<close> the objects the pointers \<open>m_phyAccessContrl\<close> of the links lead to, \<open>vi_rawGma\<close> and
  \<open>vi_rawMx\<close> the uninitialised memory of a new header, \<open>vi_maxRttMs\<close> what the measurement manager
  answers to \<open>GetMaxRttMs\<close>.  Calls of the scheduler, of the socket and of the measurement manager are
  collected in \<open>vi_out\<close>.\<close>

section \<open>The class\<close>

definition PROBE_INTERVAL :: time where "PROBE_INTERVAL = 1000000000"
definition INITIAL_CONTROL_RTO :: time where "INITIAL_CONTROL_RTO = PROBE_INTERVAL div 2"
definition RTO_SCALER :: u32 where "RTO_SCALER = 3"
definition START_PORT_NUM :: u16 where "START_PORT_NUM = 1000"
definition MAX_RETX_ATTEMPT :: u8 where "MAX_RETX_ATTEMPT = 5"
definition TOS_AC_BE :: u8 where "TOS_AC_BE = 0x70"
definition TOS_AC_BK :: u8 where "TOS_AC_BK = 0x28"
definition TOS_AC_VI :: u8 where "TOS_AC_VI = 0xb8"
definition BEST_EFFORT_FLOW_ID :: u8 where "BEST_EFFORT_FLOW_ID = 0"
definition DUPLICATE_FLOW_ID :: u8 where "DUPLICATE_FLOW_ID = 3"
definition QOS_FLOW_ID :: u8 where "QOS_FLOW_ID = 4"

record TexedCtrQueueItem =
  tq_mxControlHeader :: MxControlHeader
  tq_csnToTxtimeMap :: "(u16, time) smap"

record MeasureSn =
  ms_lastLsn :: u8
  ms_lastGsn :: u64

definition MeasureSn_new :: MeasureSn where
  "MeasureSn_new = \<lparr>ms_lastLsn = MAX_GMA_LSN, ms_lastGsn = ucast MAX_GMA_SN\<rparr>"

datatype measure_call =
    MeasureIntervalStartCheck time u32 u32
  | DataMeasurementSample u32 u8 u8
  | MeasureIntervalEndCheck time
  | UpdateOwdFromProbe u32 u8
  | UpdateRtt u32 u32 u8
  | UpdateOwdFromAck u32 u8
  | MeasureCycleStartByTsa u32 u8 "u8 list"
  | QosMeasurementStart u8 u8
  | AddDevice u8 u64
  | DisableMeasurement
  | QuitQosMeasurement u8

datatype vi_out =
    Phy u8 pa_out
  | ScheduleSendByCidNow time u8 gma_packet u8
  | ScheduleRetxCtrlMsgExpires time u16
  | SchedulePeriodicProbeMsg time
  | ScheduleQosTestingSessionEnd time
  | ScheduleStopQosTesting time u8
  | ScheduleMeasurementGuardIntervalEnd time
  | ScheduleCollectMeasureResults time
  | Measure measure_call

record GmaVi =
  vi_gmaTxSn :: u32
  vi_mxCtrSeqNumber :: u16
  vi_maxTsuSeqNum :: u16
  vi_reorder :: GmaReorder
  vi_phy :: "(u8, PhyAccessControl) smap"
  vi_txedCtrQueue :: "(u16, TexedCtrQueueItem) smap"
  vi_ctrRto :: time
  vi_maxRttMs :: u32
  vi_measurementOn :: bool
  vi_qosMeasurementStarts :: bool
  vi_lastTsuNoneZeroLink :: u8
  vi_receiveDuplicateFlow :: bool
  vi_rxControl :: GmaRxControl
  vi_txControl :: GmaTxControl
  vi_txMode :: bool
  vi_rxMode :: bool
  vi_maxTsaSn :: u16
  vi_receivedBytes :: u64
  vi_tsuCounter :: u64
  vi_measureSnPerCidMap :: "(u8, MeasureSn) smap"
  vi_nodeId :: u32
  vi_numOfTxPacketsPerFlow :: u64
  vi_TxBytesPerFlow :: u64
  vi_duplicateMode :: bool
  vi_wifiPowerAvailable :: bool
  vi_maxLinkMapUpdateSn :: u16
  vi_linkState :: LinkState
  vi_enableMarkCtrlLinkMap :: bool
  vi_wifiPowerRange :: u8
  vi_wifiLowPowerThreshDbm :: real
  vi_wifiHighPowerThreshDbm :: real
  vi_lastDecision :: "SplittingDecision option"
  vi_clientRoleEnabled :: bool
  vi_serverRoleEnabled :: bool
  vi_discardBackupLinkPackets :: bool
  vi_qosClientTestingActive :: bool
  vi_qosTestingAllowed :: bool
  vi_qosSteerActionReceived :: bool
  vi_clientId :: u32
  vi_missedAction :: u32
  vi_measurementInterval :: time
  vi_measurementGuardInterval :: time
  vi_rawGma :: GmaHeader
  vi_rawMx :: MxControlHeader
  vi_out :: "vi_out list"

abbreviation vi_links :: "GmaVi \<Rightarrow> (u8, LinkParams) smap" where
  "vi_links s \<equiv> rq_linkParamsMap (vi_reorder s)"

abbreviation vi_set_links :: "(u8, LinkParams) smap \<Rightarrow> GmaVi \<Rightarrow> GmaVi" where
  "vi_set_links ps s \<equiv> s\<lparr>vi_reorder := (vi_reorder s)\<lparr>rq_linkParamsMap := ps\<rparr>\<rparr>"

abbreviation vi_emit :: "vi_out \<Rightarrow> GmaVi \<Rightarrow> GmaVi" where
  "vi_emit x s \<equiv> s\<lparr>vi_out := vi_out s @ [x]\<rparr>"

text \<open>\<open>now & 0xFFFFFFFF\<close> of the milliseconds.\<close>

abbreviation vi_ms32 :: "time \<Rightarrow> u32" where
  "vi_ms32 now \<equiv> word_of_int (ms_of now)"

definition vi_new_gma :: "GmaVi \<Rightarrow> GmaHeader" where
  "vi_new_gma s = GmaHeader_ctor (vi_rawGma s)"

definition vi_new_mx :: "u8 \<Rightarrow> GmaVi \<Rightarrow> MxControlHeader result" where
  "vi_new_mx type s = mx_SetType type (MxControlHeader_ctor (vi_rawMx s))"

definition vi_next_csn :: "GmaVi \<Rightarrow> u16 \<times> GmaVi" where
  "vi_next_csn s = (vi_mxCtrSeqNumber s, s\<lparr>vi_mxCtrSeqNumber := vi_mxCtrSeqNumber s + 1\<rparr>)"

definition vi_flow_id :: "GmaVi \<Rightarrow> u8" where
  "vi_flow_id s = (if rc_QosSteerEnabled (vi_rxControl s) then QOS_FLOW_ID else BEST_EFFORT_FLOW_ID)"

text \<open>\<open>GetDeliveryLinkCid\<close> of the sender, which changes it.\<close>

definition vi_delivery :: "GmaVi \<Rightarrow> (u8 \<times> GmaVi) result" where
  "vi_delivery s = rbind (tc_GetDeliveryLinkCid (vi_linkState s) (vi_txControl s)) (\<lambda>(cid, tx).
    Inr (cid, s\<lparr>vi_txControl := tx\<rparr>))"

section \<open>Control messages\<close>

text \<open>The functions below send through \<open>send now cid packet tos\<close>, which is \<open>SendByCid\<close>: a send can in turn
  report a link down and send a TSU.\<close>

type_synonym vi_send = "time \<Rightarrow> u8 \<Rightarrow> gma_packet \<Rightarrow> u8 \<Rightarrow> GmaVi \<Rightarrow> GmaVi result"

definition vi_ctrl_packet :: "MxControlHeader \<Rightarrow> GmaVi \<Rightarrow> gma_packet" where
  "vi_ctrl_packet h s = (vi_new_gma s, CtrlMsg h)"

definition vi_mark_link_status :: "GmaVi \<Rightarrow> MxControlHeader \<Rightarrow> MxControlHeader" where
  "vi_mark_link_status s h = mx_SetLinkStatus
    (if vi_enableMarkCtrlLinkMap s then of_bool (ls_IsLinkUp (of_int WIFI_CID) (vi_linkState s)) else 1) h"

definition vi_send_tsu_link :: "vi_send \<Rightarrow> time \<Rightarrow> MxControlHeader \<Rightarrow> GmaVi \<Rightarrow> u8 \<times> u8 \<Rightarrow> GmaVi result" where
  "vi_send_tsu_link send now h s = (\<lambda>(cid, k).
    if k \<noteq> 0 then
      rbind (send now cid (vi_ctrl_packet (mx_SetConnectionId cid (vi_mark_link_status s h)) s) TOS_AC_BE s) (\<lambda>s.
      if rc_QosSteerEnabled (vi_rxControl s) \<and> cid \<noteq> ls_defaultLinkCid (vi_linkState s)
      then Inr (s\<lparr>vi_discardBackupLinkPackets := False\<rparr>) else Inr s)
    else Inr s)"

definition vi_send_ctrl :: "vi_send \<Rightarrow> time \<Rightarrow> MxControlHeader \<Rightarrow> GmaVi \<Rightarrow> GmaVi result" where
  "vi_send_ctrl send now h s =
    (if mx_type h = 5 then
       rbind (rassert (length (mx_kVector h) = length (vi_links s)) ''size not the same!!'') (\<lambda>_.
       rbind (rassert (foldl (\<lambda>sum k. sum + ucast k) (0 :: u16) (mx_kVector h) > 0)
         ''all links are empty split ratio!!'') (\<lambda>_.
       rfoldl (vi_send_tsu_link send now h) s (zip (map fst (vi_links s)) (mx_kVector h))))
     else if mx_type h = 1 then
       send now (mx_connectionId h) (gh_SetClientId (ucast (vi_nodeId s)) (vi_new_gma s), CtrlMsg (vi_mark_link_status s h))
         TOS_AC_BE s
     else
       rbind (rassert (sm_find (mx_connectionId h) (vi_links s) \<noteq> None) '' no such cid in the map'') (\<lambda>_.
       send now (mx_connectionId h) (vi_ctrl_packet h s) TOS_AC_BE s))"

definition vi_rto :: "GmaVi \<Rightarrow> time" where
  "vi_rto s = (if vi_maxRttMs s \<noteq> 0 then uint (RTO_SCALER * vi_maxRttMs s) * 1000000 else INITIAL_CONTROL_RTO)"

definition vi_SendCtrlMsg :: "vi_send \<Rightarrow> time \<Rightarrow> MxControlHeader \<Rightarrow> bool \<Rightarrow> GmaVi \<Rightarrow> GmaVi result" where
  "vi_SendCtrlMsg send now h retx s =
    rbind (vi_send_ctrl send now h s) (\<lambda>s.
    if retx = False then
      (let csn = mx_sequenceNumber h in
       rbind (rassert (sm_find csn (vi_txedCtrQueue s) = None) ''all mesasges, new or retx should have a unique sn'') (\<lambda>_.
       let item = \<lparr>tq_mxControlHeader = h, tq_csnToTxtimeMap = sm_set csn now []\<rparr>;
           s = s\<lparr>vi_txedCtrQueue := sm_set csn item (vi_txedCtrQueue s)\<rparr>;
           s = s\<lparr>vi_ctrRto := vi_rto s\<rparr>
       in Inr (vi_emit (ScheduleRetxCtrlMsgExpires (now + vi_ctrRto s) csn) s)))
    else Inr s)"

definition vi_PeriodicProbeMsg :: "vi_send \<Rightarrow> time \<Rightarrow> GmaVi \<Rightarrow> GmaVi result" where
  "vi_PeriodicProbeMsg send now s =
    rbind (rfoldl (\<lambda>s cid.
        rbind (vi_new_mx 1 s) (\<lambda>h.
        let (csn, s) = vi_next_csn s;
            h = mx_SetSequenceNumber csn (mx_SetConnectionId cid h);
            h = mx_SetProbeFlag (if vi_wifiPowerAvailable s then 1 else 0) h;
            h = mx_SetTimeStamp (vi_ms32 now) (mx_SetRCid cid h)
        in vi_SendCtrlMsg send now h False s)) s (map fst (vi_links s))) (\<lambda>s.
    Inr (vi_emit (SchedulePeriodicProbeMsg (now + PROBE_INTERVAL)) s))"

definition vi_qos_msg ::
    "vi_send \<Rightarrow> time \<Rightarrow> u8 \<Rightarrow> u8 \<Rightarrow> (MxControlHeader \<Rightarrow> MxControlHeader) \<Rightarrow> GmaVi \<Rightarrow> GmaVi result" where
  "vi_qos_msg send now type cid fill s =
    rbind (vi_new_mx type s) (\<lambda>h.
    let (csn, s) = vi_next_csn s;
        h = mx_SetFlowId QOS_FLOW_ID (mx_SetTimeStamp (vi_ms32 now) (mx_SetSequenceNumber csn (mx_SetConnectionId cid h)))
    in vi_SendCtrlMsg send now (fill h) False s)"

definition vi_QosTestingRequestMsg :: "vi_send \<Rightarrow> time \<Rightarrow> u8 \<Rightarrow> u8 \<Rightarrow> u8 \<Rightarrow> GmaVi \<Rightarrow> GmaVi result" where
  "vi_QosTestingRequestMsg send now cid duration direction s =
    rbind (rassert (rc_QosSteerEnabled (vi_rxControl s)) ''only call this in Qos Enabled mode!!!'') (\<lambda>_.
    case sm_find cid (vi_phy s) of
      None \<Rightarrow> Inl (Undefined ''null pointer'')
    | Some phy \<Rightarrow>
        (let apId = pa_currentApId phy;
             apId = (if apId = UINT8_MAX then 1 else apId);
             apId = (if vi_qosSteerActionReceived s then UINT8_MAX else apId)
         in vi_qos_msg send now 8 cid
              (\<lambda>h. mx_SetChannelId apId (mx_SetTestDuration duration (mx_SetTrafficDirection direction h))) s))"

definition vi_QosTestingStartNotifyMsg :: "vi_send \<Rightarrow> time \<Rightarrow> MxControlHeader \<Rightarrow> GmaVi \<Rightarrow> GmaVi result" where
  "vi_QosTestingStartNotifyMsg send now header s =
    rbind (rassert (rc_QosSteerEnabled (vi_rxControl s)) ''only call this in Qos Enabled mode!!!'') (\<lambda>_.
    vi_qos_msg send now 9 (mx_connectionId header)
      (\<lambda>h. mx_SetTestDuration (mx_testDuration header) (mx_SetTrafficDirection (mx_trafficDirection header) h)) s)"

definition vi_QosViolationMsg :: "vi_send \<Rightarrow> time \<Rightarrow> u8 \<Rightarrow> GmaVi \<Rightarrow> GmaVi result" where
  "vi_QosViolationMsg send now direction s =
    rbind (rassert (rc_QosSteerEnabled (vi_rxControl s)) ''only call this in Qos Enabled mode!!!'') (\<lambda>_.
    vi_qos_msg send now 10 (ls_defaultLinkCid (vi_linkState s)) (mx_SetTrafficDirection direction) s)"

section \<open>Traffic splitting updates\<close>

definition vi_tsu_header :: "SplittingDecision \<Rightarrow> GmaVi \<Rightarrow> (MxControlHeader \<times> GmaVi) result" where
  "vi_tsu_header decision s =
    rbind (vi_new_mx 5 s) (\<lambda>h.
    let h = mx_SetConnectionId 0 h;
        (csn, s) = vi_next_csn s;
        h = mx_SetSequenceNumber csn h;
        h = (if rc_QosSteerEnabled (vi_rxControl s) then
               (let h = mx_SetFlowId QOS_FLOW_ID h in if sd_reverse decision then mx_SetReverseFlag 1 h else h)
             else mx_SetFlowId BEST_EFFORT_FLOW_ID h) in
    rbind (mx_SetTsuKandMeasureVectors (sd_splitIndexList decision) (sd_minOwdLongTerm decision)
        (sd_queueingDelay decision) h) (\<lambda>h.
    Inr (mx_SetL (rc_splittingBurst (vi_rxControl s)) h, s)))"

text \<open>After a TSU: reordering starts when a split mode TSU uses more than one link.\<close>

definition vi_count_links :: "u8 list \<Rightarrow> u8" where
  "vi_count_links split = foldl (\<lambda>n k. if k \<noteq> 0 then n + 1 else n) 0 split"

definition vi_after_tsu :: "u8 \<Rightarrow> SplittingDecision \<Rightarrow> GmaVi \<Rightarrow> GmaVi result" where
  "vi_after_tsu fieldL decision s =
    (let s = s\<lparr>vi_tsuCounter := vi_tsuCounter s + 1, vi_lastDecision := Some decision\<rparr> in
     if vi_receiveDuplicateFlow s = False \<and> fieldL \<noteq> 1 then
       (let s = s\<lparr>vi_lastTsuNoneZeroLink := vi_count_links (sd_splitIndexList decision)\<rparr> in
        rbind (rassert (vi_lastTsuNoneZeroLink s > 0) ''TSU cannot be all zeros!!!'') (\<lambda>_.
        Inr (if vi_lastTsuNoneZeroLink s > 1 then
            (if rq_enableReordering (vi_reorder s) = False
             then s\<lparr>vi_reorder := (vi_reorder s)\<lparr>rq_enableReordering := True\<rparr>\<rparr> else s)
          else s)))
     else Inr s)"

definition vi_SendTsu :: "vi_send \<Rightarrow> time \<Rightarrow> SplittingDecision \<Rightarrow> GmaVi \<Rightarrow> GmaVi result" where
  "vi_SendTsu send now decision s =
    rbind (rassert (sd_update decision) ''must be true'') (\<lambda>_.
    rbind (if vi_serverRoleEnabled s
        then rfoldl (\<lambda>s _. vi_QosViolationMsg send now 1 s) s (ls_cidToLastTestFailTime (vi_linkState s))
        else Inr s) (\<lambda>s.
    rbind (vi_tsu_header decision s) (\<lambda>(h, s).
    rbind (vi_SendCtrlMsg send now h False s) (\<lambda>s.
    vi_after_tsu (mx_L h) decision s))))"

definition vi_RcvReverseTsu :: "vi_send \<Rightarrow> time \<Rightarrow> MxControlHeader \<Rightarrow> GmaVi \<Rightarrow> GmaVi result" where
  "vi_RcvReverseTsu send now header s =
    rbind (rassert (mx_reverseFlag header = 1) ''must be a reverse tsu'') (\<lambda>_.
    rbind (rassert (length (mx_kVector header) = length (vi_links s)) ''size not the same!!'') (\<lambda>_.
    rbind (rassert (foldl (\<lambda>sum k. sum + ucast k) (0 :: u16) (mx_kVector header) > 0)
      ''all links are empty split ratio!!'') (\<lambda>_.
    let s = foldl (\<lambda>s (cid, k). if k \<noteq> 0 then
          s\<lparr>vi_rxControl := snd (rc_GenerateTrafficSplittingDecision (vi_linkState s) cid False (vi_rxControl s))\<rparr>
        else s) s (zip (map fst (vi_links s)) (mx_kVector header)) in
    rbind (vi_SendCtrlMsg send now (mx_SetReverseFlag 0 header) False s) (\<lambda>s.
    Inr (s\<lparr>vi_tsuCounter := vi_tsuCounter s + 1\<rparr>)))))"

text \<open>The end marker, sent over the old link when the delivery link changes in steer mode.\<close>

definition vi_SendEndMarker :: "vi_send \<Rightarrow> time \<Rightarrow> u8 \<Rightarrow> GmaVi \<Rightarrow> GmaVi result" where
  "vi_SendEndMarker send now cid s =
    (let g = gh_SetFlowId (vi_flow_id s) (gh_SetConnectionId cid (vi_new_gma s)) in
     rbind (rassert (sm_find cid (vi_links s) \<noteq> None) ''this cid doesnot exit'') (\<lambda>_.
     send now cid (g, Payload []) TOS_AC_BE s))"

definition vi_end_marker_if_moved :: "vi_send \<Rightarrow> time \<Rightarrow> u8 \<Rightarrow> GmaVi \<Rightarrow> GmaVi result" where
  "vi_end_marker_if_moved send now oldCid s =
    (if rc_splittingBurst (vi_rxControl s) = 1 then
       rbind (vi_delivery s) (\<lambda>(cid, s). if oldCid \<noteq> cid then vi_SendEndMarker send now oldCid s else Inr s)
     else Inr s)"

text \<open>The reaction to a link reported down: a TSU that moves its traffic, and the end marker.\<close>

definition vi_link_down_tsu :: "vi_send \<Rightarrow> time \<Rightarrow> u8 \<Rightarrow> u8 \<Rightarrow> GmaVi \<Rightarrow> GmaVi result" where
  "vi_link_down_tsu send now cid oldCid s =
    rbind (rc_LinkDownTsu (vi_linkState s) cid (vi_rxControl s)) (\<lambda>(decision, rx).
    let s = s\<lparr>vi_rxControl := rx\<rparr> in
    if sd_update decision then
      rbind (vi_SendTsu send now decision s) (\<lambda>s. vi_end_marker_if_moved send now oldCid s)
    else Inr s)"

definition vi_ctrl_msg_down :: "vi_send \<Rightarrow> time \<Rightarrow> u8 \<Rightarrow> u8 \<Rightarrow> GmaVi \<Rightarrow> GmaVi result" where
  "vi_ctrl_msg_down send now cid oldCid s =
    (let (changed, ls) = ls_CtrlMsgDown cid (vi_linkState s);
         s = s\<lparr>vi_linkState := ls\<rparr> in
     if changed then vi_link_down_tsu send now cid oldCid s else Inr s)"

section \<open>Sending over a link\<close>

text \<open>\<open>SendByCidNow\<close>: when the access point changed and a single radio is simulated the link is reported
  down by \<open>down now cid oldCid\<close>, which sends a TSU through \<open>SendByCid\<close> again.  Only a probe can change the
  access point and a TSU is no probe, so the depth of the recursion is two.  \<open>vi_SendByCid_inner\<close> is
  the inner \<open>SendByCid\<close>.\<close>

definition vi_SendByCidNow_with ::
    "(time \<Rightarrow> u8 \<Rightarrow> u8 \<Rightarrow> GmaVi \<Rightarrow> GmaVi result) \<Rightarrow> time \<Rightarrow> u8 \<Rightarrow> gma_packet \<Rightarrow> u8 \<Rightarrow> GmaVi \<Rightarrow> GmaVi result" where
  "vi_SendByCidNow_with down now cid pkt tos s =
    rbind (rassert (sm_find cid (vi_links s) \<noteq> None) '' no such cid in the map'') (\<lambda>_.
    case sm_find cid (vi_phy s) of
      None \<Rightarrow> Inl (Undefined ''null pointer'')
    | Some phy \<Rightarrow>
        rbind (pa_SendPacket now (vi_rawGma s) pkt tos phy) (\<lambda>(linkDownFlag, out, phy).
        let s = s\<lparr>vi_phy := sm_set cid phy (vi_phy s), vi_out := vi_out s @ map (Phy cid) out\<rparr> in
        if linkDownFlag then
          (let s = s\<lparr>vi_ctrRto := INITIAL_CONTROL_RTO\<rparr> in
           rbind (vi_delivery s) (\<lambda>(oldCid, s).
           if pa_simulateLinkDownTime phy > 0 then down now cid oldCid s else Inr s))
        else Inr s))"

definition vi_SendByCid_with ::
    "(time \<Rightarrow> u8 \<Rightarrow> u8 \<Rightarrow> GmaVi \<Rightarrow> GmaVi result) \<Rightarrow> time \<Rightarrow> u8 \<Rightarrow> gma_packet \<Rightarrow> u8 \<Rightarrow> GmaVi \<Rightarrow> GmaVi result" where
  "vi_SendByCid_with down now cid pkt tos s =
    (case sm_find cid (vi_links s) of
       None \<Rightarrow> Inl (Assertion ''this cid doesnot exit'')
     | Some p \<Rightarrow>
         if lp_emulateDelay p > 0
         then Inr (vi_emit (ScheduleSendByCidNow (now + uint (lp_emulateDelay p) * 1000000) cid pkt tos) s)
         else vi_SendByCidNow_with down now cid pkt tos s)"

definition vi_SendByCid_inner :: vi_send where
  "vi_SendByCid_inner = vi_SendByCid_with (\<lambda>_ _ _ _. Inl Diverges)"

definition vi_SendByCidNow :: vi_send where
  "vi_SendByCidNow = vi_SendByCidNow_with (vi_ctrl_msg_down vi_SendByCid_inner)"

definition vi_SendByCid :: vi_send where
  "vi_SendByCid = vi_SendByCid_with (vi_ctrl_msg_down vi_SendByCid_inner)"

section \<open>Retransmission of control messages\<close>

definition vi_RetxCtrlMsgExpires :: "time \<Rightarrow> u16 \<Rightarrow> GmaVi \<Rightarrow> GmaVi result" where
  "vi_RetxCtrlMsgExpires now csn s =
    (case sm_find csn (vi_txedCtrQueue s) of
       None \<Rightarrow> Inr s
     | Some item \<Rightarrow>
         let header = tq_mxControlHeader item; cid = mx_connectionId header in
         if length (tq_csnToTxtimeMap item) > unat MAX_RETX_ATTEMPT then
           rbind (vi_delivery s) (\<lambda>(oldCid, s).
           rbind (vi_ctrl_msg_down vi_SendByCid now cid oldCid s) (\<lambda>s.
           Inr (s\<lparr>vi_txedCtrQueue := sm_erase csn (vi_txedCtrQueue s)\<rparr>)))
         else if mx_type header = 8 \<or> mx_type header = 9 then
           (let ls = vi_linkState s;
                s = s\<lparr>vi_linkState := ls\<lparr>ls_cidToLastTestFailTime := sm_set cid now (ls_cidToLastTestFailTime ls)\<rparr>,
                  vi_txedCtrQueue := sm_erase csn (vi_txedCtrQueue s)\<rparr>
            in Inr (if mx_type header = 8 then s\<lparr>vi_qosClientTestingActive := False\<rparr> else s))
         else
           (let (newCsn, s) = vi_next_csn s;
                header = mx_SetSequenceNumber newCsn header;
                header = (if mx_type header = 1 then mx_SetTimeStamp (vi_ms32 now) header else header);
                item = \<lparr>tq_mxControlHeader = header, tq_csnToTxtimeMap = sm_set newCsn now (tq_csnToTxtimeMap item)\<rparr>;
                s = s\<lparr>vi_txedCtrQueue := sm_set csn item (vi_txedCtrQueue s)\<rparr> in
            rbind (vi_SendCtrlMsg vi_SendByCid now header True s) (\<lambda>s.
            case sm_find csn (vi_txedCtrQueue s) of
              None \<Rightarrow> Inl (Undefined ''null pointer'')
            | Some item \<Rightarrow>
                (let s = s\<lparr>vi_ctrRto := vi_rto s\<rparr> in
                 Inr (vi_emit (ScheduleRetxCtrlMsgExpires
                   (now + vi_ctrRto s * 2 ^ (length (tq_csnToTxtimeMap item) - 1)) csn) s)))))"

end
