(* ===== verification/Recv_Ctrl.thy ===== *)
theory Recv_Ctrl
  imports Virtual_Interface
begin

text \<open>The receiver of control messages, \<open>RecvCtrlMsg\<close> of
  \<open>src/contrib/gma/model/gma-virtual-interface.cc\<close>, with one definition per type of message, and the
  reports of the Wi-Fi signal.  The packet is its control header, already removed.\<close>

section \<open>Shared steps\<close>

text \<open>An access to the physical access of a link.\<close>

definition vi_phy_of :: "u8 \<Rightarrow> GmaVi \<Rightarrow> PhyAccessControl result" where
  "vi_phy_of cid s = (case sm_find cid (vi_phy s) of None \<Rightarrow> Inl (Undefined ''null pointer'') | Some phy \<Rightarrow> Inr phy)"

definition vi_set_phy :: "u8 \<Rightarrow> PhyAccessControl \<Rightarrow> GmaVi \<Rightarrow> GmaVi" where
  "vi_set_phy cid phy s = s\<lparr>vi_phy := sm_set cid phy (vi_phy s)\<rparr>"

text \<open>An update of the measurements of a link, which are created when they are missing.\<close>

definition vi_upd_param :: "u8 \<Rightarrow> (MeasureParam \<Rightarrow> MeasureParam) \<Rightarrow> GmaVi \<Rightarrow> GmaVi" where
  "vi_upd_param cid f s = (let r = vi_reorder s; m = rq_measureParamPerCidMap r;
      p = (case sm_find cid m of None \<Rightarrow> MeasureParam_new | Some p \<Rightarrow> p)
    in s\<lparr>vi_reorder := r\<lparr>rq_measureParamPerCidMap := sm_set cid (f p) m\<rparr>\<rparr>)"

definition vi_owd_minmax :: "u32 \<Rightarrow> MeasureParam \<Rightarrow> MeasureParam" where
  "vi_owd_minmax owd p = p\<lparr>mp_maxOwd := (if mp_maxOwd p < owd then owd else mp_maxOwd p),
    mp_minOwd := (if mp_minOwd p > owd then owd else mp_minOwd p)\<rparr>"

definition vi_owd_sum :: "u32 \<Rightarrow> MeasureParam \<Rightarrow> MeasureParam" where
  "vi_owd_sum owd p = p\<lparr>mp_owdSum := mp_owdSum p + ucast owd, mp_count := mp_count p + 1\<rparr>"

definition vi_recv_owd :: "time \<Rightarrow> MxControlHeader \<Rightarrow> GmaVi \<Rightarrow> GmaVi" where
  "vi_recv_owd now h s =
    (if rq_enableMeasureReport (vi_reorder s) \<and> (mx_type h = 1 \<or> mx_type h = 6 \<or> mx_type h = 7) then
       (let owd = vi_ms32 now - mx_timeStamp h in
        vi_upd_param (mx_connectionId h) (\<lambda>p. vi_owd_sum owd (vi_owd_minmax owd p)) s)
     else s)"

definition vi_RespondAck :: "time \<Rightarrow> MxControlHeader \<Rightarrow> GmaVi \<Rightarrow> GmaVi result" where
  "vi_RespondAck now header s =
    (let cid = mx_connectionId header in
     rbind (vi_new_mx 6 s) (\<lambda>h.
     let h = mx_SetTimeStamp (vi_ms32 now) (mx_SetSequenceNumber (mx_sequenceNumber header) (mx_SetConnectionId cid h)) in
     rbind (rassert (sm_find cid (vi_links s) \<noteq> None) '' no such cid in the map'') (\<lambda>_.
     vi_SendByCid now cid (vi_ctrl_packet h s) TOS_AC_BE s)))"

text \<open>The link status of a probe or TSU.\<close>

definition vi_recv_link_map :: "time \<Rightarrow> MxControlHeader \<Rightarrow> GmaVi \<Rightarrow> GmaVi result" where
  "vi_recv_link_map now h s =
    (if mx_type h = 1 \<or> mx_type h = 5 then
       rbind (if CsnDiff (uint (mx_sequenceNumber h)) (uint (vi_maxLinkMapUpdateSn s)) > 0 then
           rbind (vi_delivery s) (\<lambda>(oldCid, s).
           if mx_linkStatus h = 0 then
             (let (changed, ls) = ls_LinkBitMapDown (of_int WIFI_CID) (vi_linkState s);
                  s = s\<lparr>vi_linkState := ls\<rparr>
              in if changed then vi_link_down_tsu vi_SendByCid now (of_int WIFI_CID) oldCid s else Inr s)
           else
             (let (changed, ls) = ls_LinkBitMapUp (of_int WIFI_CID) (vi_linkState s);
                  s = s\<lparr>vi_linkState := ls\<rparr>
              in if changed then vi_end_marker_if_moved vi_SendByCid now oldCid s else Inr s))
         else Inr s) (\<lambda>s.
       Inr (s\<lparr>vi_maxLinkMapUpdateSn := mx_sequenceNumber h\<rparr>))
     else Inr s)"

section \<open>Probe\<close>

definition vi_recv_probe :: "time \<Rightarrow> u32 \<Rightarrow> MxControlHeader \<Rightarrow> GmaVi \<Rightarrow> GmaVi result" where
  "vi_recv_probe now phyAddr h s =
    (let cid = mx_rCid h; connCid = mx_connectionId h;
         s = vi_emit (Measure (UpdateOwdFromProbe (vi_ms32 now - mx_timeStamp h) connCid)) s in
     rbind (vi_new_mx 6 s) (\<lambda>ack.
     let ack = mx_SetTimeStamp (vi_ms32 now) (mx_SetSequenceNumber (mx_sequenceNumber h) (mx_SetConnectionId cid ack)) in
     rbind (rassert (sm_find cid (vi_links s) \<noteq> None) '' no such cid in the map'') (\<lambda>_.
     if mx_probeFlag h = 1 then vi_SendByCid now cid (vi_ctrl_packet ack s) TOS_AC_BE s
     else
       rbind (vi_phy_of connCid s) (\<lambda>phy.
       let addrTemp = pa_ipAddr phy; s = vi_set_phy connCid (pa_SetIp now phyAddr False phy) s in
       rbind (vi_SendByCid now cid (vi_ctrl_packet ack s) TOS_AC_BE s) (\<lambda>s.
       rbind (vi_phy_of connCid s) (\<lambda>phy.
       Inr (vi_set_phy connCid (pa_SetIp now addrTemp False phy) s)))))))"

section \<open>Traffic splitting update\<close>

text \<open>Before a TSU moves the traffic back to the default link the client notes whether the test of the
  link it used is still valid.\<close>

definition vi_tsu_qos_valid :: "time \<Rightarrow> GmaVi \<Rightarrow> GmaVi result" where
  "vi_tsu_qos_valid now s =
    rbind (vi_delivery s) (\<lambda>(currentCid, s).
    let ls = vi_linkState s in
    if currentCid \<noteq> ls_defaultLinkCid ls then
      (let ls = ls\<lparr>ls_cidToValidTestExpireTime := sm_erase currentCid (ls_cidToValidTestExpireTime ls)\<rparr>;
           valid = ls\<lparr>ls_cidToValidTestExpireTime :=
             sm_set currentCid (now + MAX_QOS_VALID_INTERVAL) (ls_cidToValidTestExpireTime ls)\<rparr>
       in Inr (s\<lparr>vi_linkState := (case sm_find currentCid (ls_cidToLastTestFailTime ls) of
            Some t \<Rightarrow> if now > t + MIN_QOS_TESTING_INTERVAL then valid else ls
          | None \<Rightarrow> valid)\<rparr>))
    else Inr s)"

definition vi_tsu_end_marker :: "time \<Rightarrow> u8 \<Rightarrow> GmaVi \<Rightarrow> GmaVi result" where
  "vi_tsu_end_marker now oldCid s =
    (if rc_splittingBurst (vi_rxControl s) = 1 then
       rbind (vi_delivery s) (\<lambda>(cid, s).
       if oldCid \<noteq> cid then
         rbind (if vi_clientRoleEnabled s \<and> rc_QosSteerEnabled (vi_rxControl s) then
             rbind (vi_delivery s) (\<lambda>(cid, s).
             if cid \<noteq> ls_defaultLinkCid (vi_linkState s) then
               rbind (vi_delivery s) (\<lambda>(cid, s).
               let ls = vi_linkState s in
               Inr (s\<lparr>vi_linkState := ls\<lparr>ls_cidToLastTestFailTime := sm_erase cid (ls_cidToLastTestFailTime ls)\<rparr>\<rparr>))
             else Inr s)
           else Inr s) (\<lambda>s.
         vi_SendEndMarker vi_SendByCid now oldCid s)
       else Inr s)
     else Inr s)"

text \<open>The emulated delays: the first loop adds what the TSU measured, at most 127 ms per link, and finds the
  smallest emulated delay; the second subtracts it from every link.\<close>

definition maxDelayChangePerTSU :: u8 where "maxDelayChangePerTSU = 127"

definition vi_emulate_step ::
    "u8 list \<Rightarrow> (u8, LinkParams) smap \<times> int list \<times> u32 \<Rightarrow> nat \<times> u8 \<Rightarrow> ((u8, LinkParams) smap \<times> int list \<times> u32) result" where
  "vi_emulate_step minOwdMeasure = (\<lambda>(ps, offset, minEmulatedDelay) (link, cid).
    case sm_find cid ps of
      None \<Rightarrow> Inl (Fatal ''cannot find cid'')
    | Some p \<Rightarrow>
        rbind (vec_at minOwdMeasure link) (\<lambda>owd.
        let add = (if owd = UINT8_MAX then 0 else if owd \<le> maxDelayChangePerTSU then owd else maxDelayChangePerTSU);
            delay = lp_emulateDelay p + ucast add in
        rbind (vec_at offset link) (\<lambda>o0.
        Inr (sm_set cid (p\<lparr>lp_emulateDelay := delay\<rparr>) ps, offset[link := o0 + uint add],
          if minEmulatedDelay > delay then delay else minEmulatedDelay))))"

definition vi_reduce_step ::
    "u32 \<Rightarrow> (u8, LinkParams) smap \<times> int list \<Rightarrow> nat \<times> u8 \<Rightarrow> ((u8, LinkParams) smap \<times> int list) result" where
  "vi_reduce_step minEmulatedDelay = (\<lambda>(ps, offset) (link, cid).
    case sm_find cid ps of
      None \<Rightarrow> Inl (Fatal ''cannot find cid'')
    | Some p \<Rightarrow>
        rbind (vec_at offset link) (\<lambda>o0.
        Inr (sm_set cid (p\<lparr>lp_emulateDelay := lp_emulateDelay p - minEmulatedDelay\<rparr>) ps,
          offset[link := sint ((word_of_int o0 :: u32) - minEmulatedDelay)])))"

definition vi_emulate ::
    "u8 list \<Rightarrow> u8 list \<Rightarrow> (u8, LinkParams) smap \<Rightarrow> int list \<Rightarrow> ((u8, LinkParams) smap \<times> int list) result" where
  "vi_emulate minOwdMeasure cidList ps offset =
    rbind (rfoldl (vi_emulate_step minOwdMeasure) (ps, offset, UINT32_MAX) (zip [0..<length cidList] cidList))
      (\<lambda>(ps, offset, minEmulatedDelay).
    if minEmulatedDelay = UINT32_MAX then Inl (Fatal ''the min of emulated delay should not be UINT32_MAX!'')
    else if minEmulatedDelay > 0 then
      rfoldl (vi_reduce_step minEmulatedDelay) (ps, offset) (zip [0..<length cidList] cidList)
    else Inr (ps, offset))"

text \<open>A link whose emulated delay fell is not used for that time, when another link has data.\<close>

definition vi_find_link :: "int list \<Rightarrow> u8 list \<Rightarrow> bool result" where
  "vi_find_link offset kVector =
    rfoldl (\<lambda>found i. if offset ! i \<ge> 0 then rbind (vec_at kVector i) (\<lambda>k. Inr (if k > 0 then True else found))
      else Inr found) False [0..<length offset]"

definition vi_drain_step :: "int list \<Rightarrow> u8 list \<Rightarrow> u8 list \<times> u8 \<Rightarrow> nat \<Rightarrow> (u8 list \<times> u8) result" where
  "vi_drain_step offset kVector = (\<lambda>(queueingDelay, maxDelay) i.
    if offset ! i < 0 then
      rbind (vec_at kVector i) (\<lambda>k.
      if k > 0 then
        (if offset ! i < -127 then Inl (Fatal ''the delay offset should be in the range of -127 ~ 128'')
         else
           (let d = word_of_int (- (offset ! i)) in
            Inr (queueingDelay[i := d], if maxDelay < d then d else maxDelay)))
      else Inr (queueingDelay, maxDelay))
    else Inr (queueingDelay, maxDelay))"

definition vi_drain :: "time \<Rightarrow> int list \<Rightarrow> u8 list \<Rightarrow> GmaVi \<Rightarrow> (u8 \<times> GmaVi) result" where
  "vi_drain now offset kVector s =
    rbind (vi_find_link offset kVector) (\<lambda>findLink.
    if findLink then
      rbind (rfoldl (vi_drain_step offset kVector) (replicate (length offset) 0, 0) [0..<length offset])
        (\<lambda>(queueingDelay, maxDelay).
      rbind (ls_UpdateLinkQueueingDelay now queueingDelay (vi_linkState s)) (\<lambda>ls.
      Inr (maxDelay, s\<lparr>vi_linkState := ls\<rparr>)))
    else Inr (0, s))"

definition vi_accept_tsu :: "time \<Rightarrow> MxControlHeader \<Rightarrow> u8 list \<Rightarrow> int list \<Rightarrow> GmaVi \<Rightarrow> (u8 \<times> int list \<times> GmaVi) result" where
  "vi_accept_tsu now h cidList offset s =
    (let s = s\<lparr>vi_maxTsuSeqNum := mx_sequenceNumber h\<rparr> in
     rbind (vi_delivery s) (\<lambda>(oldCid, s).
     rbind (tc_RcvCtrlMsg h (vi_linkState s) (vi_txControl s)) (\<lambda>tx.
     rbind (vi_tsu_end_marker now oldCid (s\<lparr>vi_txControl := tx\<rparr>)) (\<lambda>s.
     rbind (vi_emulate (mx_owdVector h) cidList (vi_links s) offset) (\<lambda>(ps, offset).
     rbind (vi_drain now offset (mx_kVector h) (vi_set_links ps s)) (\<lambda>(maxDelay, s).
     Inr (maxDelay, offset, s)))))))"

definition vi_send_tsa :: "time \<Rightarrow> MxControlHeader \<Rightarrow> u8 \<Rightarrow> int list \<Rightarrow> GmaVi \<Rightarrow> GmaVi result" where
  "vi_send_tsa now h maxDelay offset s =
    (let cid = mx_connectionId h in
     rbind (vi_new_mx 7 s) (\<lambda>tsa.
     let tsa = mx_SetSequenceNumber (mx_sequenceNumber h) (mx_SetConnectionId cid tsa);
         tsa = mx_SetFlowId (mx_flowId h) (mx_SetTimeStamp (vi_ms32 now) tsa);
         tsa = mx_SetDelay maxDelay (mx_SetStartSn (vi_gmaTxSn s) tsa) in
     if list_ex (\<lambda>x. x < -127 \<or> x > 128) offset
     then Inl (Fatal ''the delay offset should be in the range of -127 ~ 128'')
     else
       rbind (mx_SetTsaOwdVectors (map (\<lambda>x. word_of_int (x + uint maxDelayChangePerTSU)) offset) tsa) (\<lambda>tsa.
       rbind (rassert (sm_find cid (vi_links s) \<noteq> None) '' no such cid in the map'') (\<lambda>_.
       vi_SendByCid now cid (vi_ctrl_packet tsa s) TOS_AC_BE s))))"

definition vi_recv_tsu :: "time \<Rightarrow> MxControlHeader \<Rightarrow> GmaVi \<Rightarrow> GmaVi result" where
  "vi_recv_tsu now h s =
    (let cidList = ls_cidList (vi_linkState s); offset = replicate (length cidList) 0;
         qos = rc_QosSteerEnabled (vi_rxControl s) in
     if vi_txMode s \<and> CsnDiff (uint (mx_sequenceNumber h)) (uint (vi_maxTsuSeqNum s)) > 0 then
       (if qos \<and> vi_serverRoleEnabled s \<and> mx_reverseFlag h = 1 then
          rbind (vi_RespondAck now h s) (\<lambda>s. vi_RcvReverseTsu vi_SendByCid now h s)
        else
          rbind (if qos \<and> vi_clientRoleEnabled s then vi_tsu_qos_valid now s else Inr s) (\<lambda>s.
          rbind (vi_accept_tsu now h cidList offset s) (\<lambda>(maxDelay, offset, s).
          vi_send_tsa now h maxDelay offset s)))
     else vi_send_tsa now h 0 offset s)"

section \<open>Acknowledgements\<close>

text \<open>The message an acknowledgement belongs to: the one first sent with the number, else the first in the
  queue that was repeated with it.  The result is the time of that transmission, the message and the
  queue without it.\<close>

definition vi_ack_find :: "u16 \<Rightarrow> (u16, TexedCtrQueueItem) smap
    \<Rightarrow> (time \<times> MxControlHeader \<times> (u16, TexedCtrQueueItem) smap) option result" where
  "vi_ack_find csn queue =
    (case sm_find csn queue of
       Some item \<Rightarrow>
         (case tq_csnToTxtimeMap item of
            [] \<Rightarrow> Inl (Undefined ''begin of an empty map is dereferenced'')
          | (_, sendTime) # _ \<Rightarrow> Inr (Some (sendTime, tq_mxControlHeader item, sm_erase csn queue)))
     | None \<Rightarrow>
         Inr (case List.find (\<lambda>(_, item). sm_find csn (tq_csnToTxtimeMap item) \<noteq> None) queue of
            None \<Rightarrow> None
          | Some (key, item) \<Rightarrow>
              Some (the (sm_find csn (tq_csnToTxtimeMap item)), tq_mxControlHeader item, sm_erase key queue)))"

definition vi_ack_qos :: "MxControlHeader \<Rightarrow> GmaVi \<Rightarrow> GmaVi result" where
  "vi_ack_qos sendMsg s =
    (if mx_type sendMsg = 9 then
       (if mx_connectionId sendMsg \<noteq> ls_defaultLinkCid (vi_linkState s) then
          (if mx_trafficDirection sendMsg = 0 \<and> vi_serverRoleEnabled s then Inr s
           else if mx_trafficDirection sendMsg = 1 \<and> vi_serverRoleEnabled s then
             (let s = vi_emit (Measure (QosMeasurementStart (mx_connectionId sendMsg) (mx_testDuration sendMsg))) s;
                  s = s\<lparr>vi_discardBackupLinkPackets := True\<rparr>
              in rbind (rassert (vi_qosMeasurementStarts s) ''error when running measurement'') (\<lambda>_. Inr s))
           else Inl (Fatal ''Did not implement this cases''))
        else Inl (Fatal ''cid testing cannot be the default link!!''))
     else Inr s)"

definition vi_ack_tsa :: "MxControlHeader \<Rightarrow> GmaVi \<Rightarrow> GmaVi result" where
  "vi_ack_tsa h s =
    (if mx_type h = 7 \<and> vi_rxMode s \<and> CsnDiff (uint (mx_sequenceNumber h)) (uint (vi_maxTsaSn s)) > 0 then
       (let s = s\<lparr>vi_maxTsaSn := mx_sequenceNumber h\<rparr>;
            s = vi_emit (Measure (MeasureCycleStartByTsa (mx_startSn h) (mx_delay h) (mx_owdVector h))) s in
        if rc_QosSteerEnabled (vi_rxControl s) \<and> mx_connectionId h \<noteq> ls_defaultLinkCid (vi_linkState s) then
          (let s = vi_emit (Measure (QosMeasurementStart (mx_connectionId h) 0)) s in
           rbind (rassert (vi_qosMeasurementStarts s) ''error when running measurement'') (\<lambda>_. Inr s))
        else Inr s)
     else Inr s)"

definition vi_ack_up :: "time \<Rightarrow> u8 \<Rightarrow> GmaVi \<Rightarrow> GmaVi result" where
  "vi_ack_up now cid s =
    rbind (vi_delivery s) (\<lambda>(oldCid, s).
    let (changed, ls) = ls_CtrlMsgUp cid (vi_linkState s); s = s\<lparr>vi_linkState := ls\<rparr> in
    if changed then vi_end_marker_if_moved vi_SendByCid now oldCid s else Inr s)"

definition vi_recv_ack :: "time \<Rightarrow> MxControlHeader \<Rightarrow> GmaVi \<Rightarrow> GmaVi result" where
  "vi_recv_ack now h s =
    (let cid = mx_connectionId h; csn = mx_sequenceNumber h in
     rbind (if mx_type h = 6 then
         rbind (vi_phy_of cid s) (\<lambda>phy.
         rbind (pa_ProbeAcked now csn phy) (\<lambda>(update, phy).
         let s = vi_set_phy cid phy s in
         Inr (if update then s\<lparr>vi_ctrRto := INITIAL_CONTROL_RTO\<rparr> else s)))
       else Inr s) (\<lambda>s.
     rbind (vi_ack_find csn (vi_txedCtrQueue s)) (\<lambda>found.
     case found of
       None \<Rightarrow> Inr s
     | Some (sendTime, sendMsg, queue) \<Rightarrow>
         rbind (vi_ack_qos sendMsg (s\<lparr>vi_txedCtrQueue := queue\<rparr>)) (\<lambda>s.
         let owd = vi_ms32 now - mx_timeStamp h;
             s = vi_emit (Measure (UpdateRtt (word_of_int (ms_of now - ms_of sendTime)) owd cid)) s;
             s = vi_emit (Measure (UpdateOwdFromAck owd cid)) s in
         rbind (vi_ack_tsa h s) (\<lambda>s.
         vi_ack_up now cid s)))))"

section \<open>QoS tests\<close>

definition vi_start_qos_testing :: "time \<Rightarrow> u8 \<Rightarrow> u8 \<Rightarrow> GmaVi \<Rightarrow> GmaVi result" where
  "vi_start_qos_testing now cid duration s =
    rbind (tc_StartQosTesting cid duration (vi_txControl s)) (\<lambda>(delay, tx).
    Inr (vi_emit (ScheduleStopQosTesting (now + delay) cid) (s\<lparr>vi_txControl := tx\<rparr>)))"

definition vi_recv_qos_request :: "time \<Rightarrow> MxControlHeader \<Rightarrow> GmaVi \<Rightarrow> GmaVi result" where
  "vi_recv_qos_request now h s =
    rbind (vi_RespondAck now h s) (\<lambda>s.
    rbind (vi_QosTestingStartNotifyMsg vi_SendByCid now h s) (\<lambda>s.
    if mx_trafficDirection h = 0 \<and> vi_serverRoleEnabled s then
      (if mx_connectionId h \<noteq> ls_defaultLinkCid (vi_linkState s)
       then vi_start_qos_testing now (mx_connectionId h) (mx_testDuration h) s
       else Inl (Fatal ''cid testing cannot be the default link!!''))
    else if mx_trafficDirection h = 1 \<and> vi_serverRoleEnabled s then Inr s
    else Inl (Fatal ''Did not implement this case'')))"

definition vi_recv_qos_notify :: "time \<Rightarrow> MxControlHeader \<Rightarrow> GmaVi \<Rightarrow> GmaVi result" where
  "vi_recv_qos_notify now h s =
    (let s = s\<lparr>vi_qosClientTestingActive := True\<rparr>;
         s = vi_emit (ScheduleQosTestingSessionEnd
           (now + uint (ls_qosTestDurationUnit100ms (vi_linkState s)) * 100 * 1000000)) s in
     if mx_connectionId h \<noteq> ls_defaultLinkCid (vi_linkState s) then
       (if mx_trafficDirection h = 0 \<and> vi_clientRoleEnabled s then
          (let s = vi_emit (Measure (QosMeasurementStart (mx_connectionId h) (mx_testDuration h))) s in
           if vi_qosMeasurementStarts s then
             rbind (vi_RespondAck now h s) (\<lambda>s. Inr (s\<lparr>vi_discardBackupLinkPackets := True\<rparr>))
           else Inr s)
        else if mx_trafficDirection h = 1 \<and> vi_clientRoleEnabled s then
          rbind (vi_start_qos_testing now (mx_connectionId h) (mx_testDuration h) s) (\<lambda>s. vi_RespondAck now h s)
        else Inl (Fatal ''Did not implement this cases''))
     else Inl (Fatal ''cid testing cannot be the default link!!''))"

definition vi_recv_qos_violation :: "time \<Rightarrow> MxControlHeader \<Rightarrow> GmaVi \<Rightarrow> GmaVi result" where
  "vi_recv_qos_violation now h s =
    rbind (vi_RespondAck now h s) (\<lambda>s.
    rbind (vi_delivery s) (\<lambda>(failCid, s).
    let ls = vi_linkState s in
    Inr (if failCid \<noteq> ls_defaultLinkCid ls then
        s\<lparr>vi_linkState := ls\<lparr>ls_cidToLastTestFailTime := sm_set failCid now (ls_cidToLastTestFailTime ls),
          ls_cidToValidTestExpireTime := sm_erase failCid (ls_cidToValidTestExpireTime ls)\<rparr>\<rparr>
      else s)))"

section \<open>The handler\<close>

definition vi_RecvCtrlMsg :: "time \<Rightarrow> MxControlHeader \<Rightarrow> u32 \<Rightarrow> GmaVi \<Rightarrow> GmaVi result" where
  "vi_RecvCtrlMsg now h phyAddr s =
    rbind (vi_recv_link_map now h (vi_recv_owd now h s)) (\<lambda>s.
    if mx_type h = 1 then vi_recv_probe now phyAddr h s
    else if mx_type h = 5 then vi_recv_tsu now h s
    else if mx_type h = 6 \<or> mx_type h = 7 then vi_recv_ack now h s
    else if mx_type h = 8 then vi_recv_qos_request now h s
    else if mx_type h = 9 then vi_recv_qos_notify now h s
    else if mx_type h = 10 then vi_recv_qos_violation now h s
    else Inl (Fatal ''unknown control message!''))"

section \<open>Reports of the Wi-Fi signal\<close>

definition vi_WifiPowerTrace :: "time \<Rightarrow> u8 \<Rightarrow> u8 \<Rightarrow> GmaVi \<Rightarrow> GmaVi result" where
  "vi_WifiPowerTrace now powerRange cid s =
    (let s = (if vi_enableMarkCtrlLinkMap s = False then s\<lparr>vi_enableMarkCtrlLinkMap := True\<rparr> else s) in
     if powerRange = 0 then
       rbind (vi_delivery s) (\<lambda>(oldCid, s).
       let (changed, ls) = ls_LowRssiDown cid (vi_linkState s); s = s\<lparr>vi_linkState := ls\<rparr> in
       if changed then vi_link_down_tsu vi_SendByCid now cid oldCid s else Inr s)
     else if powerRange = 1 then
       rbind (vi_delivery s) (\<lambda>(oldCid, s).
       let (changed, ls) = ls_HighRssiUp cid (vi_linkState s); s = s\<lparr>vi_linkState := ls\<rparr> in
       if changed then vi_end_marker_if_moved vi_SendByCid now oldCid s else Inr s)
     else Inl (Fatal ''unkonw power level, it should be only 0(low) or 1(high)''))"

definition vi_WifiPeriodicPowerTrace :: "time \<Rightarrow> u8 \<Rightarrow> u8 \<Rightarrow> real \<Rightarrow> GmaVi \<Rightarrow> GmaVi result" where
  "vi_WifiPeriodicPowerTrace now cid apId rssi s =
    rbind (rassert (sm_find cid (vi_links s) \<noteq> None) '' no such cid in the map'') (\<lambda>_.
    rbind (vi_phy_of cid s) (\<lambda>phy.
    let phy = pa_ReportRssi rssi apId phy; s = vi_set_phy cid phy s;
        s = (if vi_wifiPowerAvailable s = False then s\<lparr>vi_wifiPowerAvailable := True\<rparr> else s) in
    if apId = pa_currentApId phy then
      (if rssi < vi_wifiLowPowerThreshDbm s \<and> vi_wifiPowerRange s \<noteq> 0 then
         vi_WifiPowerTrace now 0 cid (s\<lparr>vi_wifiPowerRange := 0\<rparr>)
       else if rssi > vi_wifiHighPowerThreshDbm s \<and> vi_wifiPowerRange s \<noteq> 1 then
         vi_WifiPowerTrace now 1 cid (s\<lparr>vi_wifiPowerRange := 1\<rparr>)
       else Inr s)
    else Inr s))"

end
