(* ===== verification/Data_Path.thy ===== *)
theory Data_Path
  imports Recv_Ctrl
begin

text \<open>The data path of the virtual interface: \<open>Transmit\<close> and \<open>Receive\<close> of
  \<open>src/contrib/gma/model/gma-virtual-interface.cc\<close>.  A packet to transmit is its bytes and whether its IPv4
  protocol is UDP; a received packet is its GMA header, already removed, with the rest.\<close>


section \<open>Tests of the backup links\<close>

text \<open>Before data flows the client may test a link that is not the default one: with a valid earlier test
  the traffic moves at once, else a request is sent.\<close>

definition vi_qos_test_request :: "time \<Rightarrow> u8 \<Rightarrow> u8 \<Rightarrow> GmaVi \<Rightarrow> GmaVi result" where
  "vi_qos_test_request now cid direction s =
    (let s = s\<lparr>vi_qosClientTestingActive := True\<rparr>;
         s = (if vi_qosSteerActionReceived s then s\<lparr>vi_qosTestingAllowed := False\<rparr> else s)
     in vi_QosTestingRequestMsg vi_SendByCid now cid (ls_qosTestDurationUnit100ms (vi_linkState s)) direction s)"

definition vi_tx_qos_link :: "time \<Rightarrow> GmaVi \<Rightarrow> u8 \<Rightarrow> GmaVi result" where
  "vi_tx_qos_link now s cid =
    (if cid \<noteq> ls_defaultLinkCid (vi_linkState s) \<and> vi_qosClientTestingActive s = False \<and> vi_qosTestingAllowed s then
       rbind (tc_QoSTestingRequestCheck now cid (vi_linkState s) (vi_txControl s)) (\<lambda>(start, ls).
       let s = s\<lparr>vi_linkState := ls\<rparr> in
       if start then
         rbind (rc_QoSValidCheck now cid (vi_linkState s) (vi_rxControl s)) (\<lambda>valid.
         if valid then
           (let (decision, rx) = rc_GenerateTrafficSplittingDecision (vi_linkState s) cid True (vi_rxControl s);
                s = s\<lparr>vi_rxControl := rx\<rparr>
            in if sd_update decision then vi_SendTsu vi_SendByCid now decision s else Inr s)
         else vi_qos_test_request now cid 1 s)
       else Inr s)
     else Inr s)"

definition vi_rx_qos_link :: "time \<Rightarrow> GmaVi \<Rightarrow> u8 \<Rightarrow> GmaVi result" where
  "vi_rx_qos_link now s cid =
    (if cid \<noteq> ls_defaultLinkCid (vi_linkState s) \<and> vi_qosClientTestingActive s = False \<and> vi_qosTestingAllowed s then
       rbind (rc_QoSTestingRequestCheck now cid (vi_linkState s) (vi_rxControl s)) (\<lambda>(start, ls).
       let s = s\<lparr>vi_linkState := ls\<rparr> in
       if start then
         rbind (rc_QoSValidCheck now cid (vi_linkState s) (vi_rxControl s)) (\<lambda>valid.
         if valid then
           rbind (vi_delivery s) (\<lambda>(oldCid, s).
           let (decision, rx) = rc_GenerateTrafficSplittingDecision (vi_linkState s) cid False (vi_rxControl s);
               s = s\<lparr>vi_rxControl := rx\<rparr> in
           if sd_update decision then
             rbind (vi_SendTsu vi_SendByCid now decision s) (\<lambda>s. vi_end_marker_if_moved vi_SendByCid now oldCid s)
           else Inr s)
         else vi_qos_test_request now cid 0 s)
       else Inr s)
     else Inr s)"

definition vi_qos_links :: "(GmaVi \<Rightarrow> u8 \<Rightarrow> GmaVi result) \<Rightarrow> GmaVi \<Rightarrow> GmaVi result" where
  "vi_qos_links step s =
    (if vi_clientRoleEnabled s \<and> rc_QosSteerEnabled (vi_rxControl s)
     then rfoldl step s (map fst (vi_links s)) else Inr s)"

section \<open>The link of a packet\<close>

text \<open>How many links are up, and how many of them have a low queueing delay.\<close>

definition vi_count_up :: "time \<Rightarrow> GmaVi \<Rightarrow> u8 \<times> u8 \<times> GmaVi" where
  "vi_count_up now s = foldl (\<lambda>(upLinkCount, lowDelayCount, s) cid.
      if ls_IsLinkUp cid (vi_linkState s) then
        (let (low, ls) = ls_IsLinkLowQueueingDelay now cid (vi_linkState s) in
         (upLinkCount + 1, if low then lowDelayCount + 1 else lowDelayCount, s\<lparr>vi_linkState := ls\<rparr>))
      else (upLinkCount, lowDelayCount, s)) (0, 0, s) (map fst (vi_links s))"

text \<open>The search for a link that is up and has a low queueing delay, at most one turn of the schedule.\<close>

fun vi_find_cid :: "time \<Rightarrow> nat \<Rightarrow> GmaVi \<Rightarrow> (u8 option \<times> GmaVi) result" where
  "vi_find_cid now 0 s = Inr (None, s)"
| "vi_find_cid now (Suc steps) s =
    rbind (tc_GetNextCidFromTsu (vi_txControl s)) (\<lambda>(cid, tx).
    let s = s\<lparr>vi_txControl := tx\<rparr> in
    if cid = UINT8_MAX then Inl (Fatal ''no TSU received yet!!!!'')
    else if ls_IsLinkUp cid (vi_linkState s) then
      (let (low, ls) = ls_IsLinkLowQueueingDelay now cid (vi_linkState s); s = s\<lparr>vi_linkState := ls\<rparr> in
       if low then Inr (Some cid, s) else vi_find_cid now steps s)
    else vi_find_cid now steps s)"

definition vi_choose_link :: "time \<Rightarrow> GmaVi \<Rightarrow> (u8 \<times> GmaVi) result" where
  "vi_choose_link now s =
    (let cid = ls_defaultLinkCid (vi_linkState s); burst = tc_paramL (vi_txControl s) in
     if burst = 1 then vi_delivery s
     else if burst > 1 then
       (let (upLinkCount, upAndLowDelayLinkCount, s) = vi_count_up now s in
        if upLinkCount = 0 then Inr (cid, s)
        else
          (let s = (if upAndLowDelayLinkCount = 0 then s\<lparr>vi_linkState := ls_StopLinkSkipping (vi_linkState s)\<rparr> else s) in
           rbind (vi_find_cid now (unat burst) s) (\<lambda>(found, s).
           case found of Some cid \<Rightarrow> Inr (cid, s) | None \<Rightarrow> vi_delivery s)))
     else Inr (cid, s))"

section \<open>Transmit\<close>

definition vi_data_header :: "time \<Rightarrow> u8 \<Rightarrow> u8 \<Rightarrow> u8 \<Rightarrow> GmaVi \<Rightarrow> GmaHeader" where
  "vi_data_header now cid lsn flowId s =
    gh_data_header (vi_rawGma s) cid flowId (vi_gmaTxSn s) lsn (vi_ms32 now)"

definition vi_next_sn :: "GmaVi \<Rightarrow> GmaVi" where
  "vi_next_sn s = s\<lparr>vi_gmaTxSn := (vi_gmaTxSn s + 1) AND MAX_GMA_SN\<rparr>"

definition vi_next_lsn :: "u8 \<Rightarrow> GmaVi \<Rightarrow> GmaVi" where
  "vi_next_lsn cid s = vi_set_links (map (\<lambda>(c, p). (c, if c = cid
    then p\<lparr>lp_gmaTxLocalSn := (lp_gmaTxLocalSn p + 1) AND MAX_GMA_LSN\<rparr> else p)) (vi_links s)) s"

definition vi_tx_link :: "time \<Rightarrow> u8 \<Rightarrow> u8 \<Rightarrow> u8 \<Rightarrow> u8 list \<Rightarrow> GmaVi \<Rightarrow> GmaVi result" where
  "vi_tx_link now cid flowId tos packet s =
    (case sm_find cid (vi_links s) of
       None \<Rightarrow> Inl (Undefined ''null pointer'')
     | Some p \<Rightarrow> vi_SendByCid now cid (vi_data_header now cid (lp_gmaTxLocalSn p) flowId s, Payload packet) tos s)"

definition vi_tos :: "bool \<Rightarrow> u8" where
  "vi_tos udp = (if udp then TOS_AC_VI else TOS_AC_BE)"

definition vi_transmit_duplicates :: "time \<Rightarrow> bool \<Rightarrow> u8 list \<Rightarrow> GmaVi \<Rightarrow> GmaVi result" where
  "vi_transmit_duplicates now udp packet s =
    rbind (rfoldl (\<lambda>s cid. if ls_IsLinkUp cid (vi_linkState s) then
          rbind (vi_tx_link now cid DUPLICATE_FLOW_ID (vi_tos udp) packet s) (\<lambda>s. Inr (vi_next_lsn cid s))
        else Inr s) s (map fst (vi_links s))) (\<lambda>s.
    Inr (vi_next_sn s))"

text \<open>The copies over the links under test, after the packet itself.\<close>

definition vi_transmit_test :: "time \<Rightarrow> u8 list \<Rightarrow> GmaVi \<Rightarrow> u8 \<Rightarrow> GmaVi result" where
  "vi_transmit_test now packet s cid =
    (if sm_find cid (vi_links s) = None then Inr s
     else if ls_IsLinkUp cid (vi_linkState s) then
       rbind (vi_tx_link now cid (vi_flow_id s) TOS_AC_BK packet s) (\<lambda>s. Inr (vi_next_lsn cid s))
     else Inr s)"

definition vi_transmit_over :: "time \<Rightarrow> bool \<Rightarrow> u8 list \<Rightarrow> u8 \<Rightarrow> GmaVi \<Rightarrow> GmaVi result" where
  "vi_transmit_over now udp packet cid s =
    (case sm_find cid (vi_links s) of
       None \<Rightarrow> Inr s
     | Some p \<Rightarrow>
         let tos = (if rc_enableQosFlowPrioritization (vi_rxControl s)
               then (if lp_qosMarking p > 0 then TOS_AC_VI else TOS_AC_BE) else vi_tos udp) in
         rbind (vi_tx_link now cid (vi_flow_id s) tos packet s) (\<lambda>s.
         let s = vi_next_lsn cid (vi_next_sn s) in
         rfoldl (vi_transmit_test now packet) s (tc_cidDupVector (vi_txControl s))))"

definition vi_Transmit :: "time \<Rightarrow> bool \<Rightarrow> u8 list \<Rightarrow> GmaVi \<Rightarrow> GmaVi result" where
  "vi_Transmit now udp packet s =
    rbind (vi_qos_links (vi_tx_qos_link now) s) (\<lambda>s.
    let s = s\<lparr>vi_numOfTxPacketsPerFlow := vi_numOfTxPacketsPerFlow s + 1,
      vi_TxBytesPerFlow := vi_TxBytesPerFlow s + of_nat (length packet)\<rparr> in
    if vi_duplicateMode s then vi_transmit_duplicates now udp packet s
    else rbind (vi_choose_link now s) (\<lambda>(cid, s). vi_transmit_over now udp packet cid s))"

section \<open>Receive\<close>

text \<open>The reordering is a part of the state.\<close>

definition vi_reorder_with :: "(GmaReorder \<Rightarrow> GmaReorder result) \<Rightarrow> GmaVi \<Rightarrow> GmaVi result" where
  "vi_reorder_with f s = rbind (f (vi_reorder s)) (\<lambda>r. Inr (s\<lparr>vi_reorder := r\<rparr>))"

definition vi_recv_end_marker :: "time \<Rightarrow> u8 \<Rightarrow> GmaReorder \<Rightarrow> GmaReorder result" where
  "vi_recv_end_marker now cid r =
    (if rq_newLinkCid r = UINT8_MAX then Inr r
     else if rq_newLinkCid r = cid then Inr (r\<lparr>rq_newLinkCid := UINT8_MAX\<rparr>)
     else rq_StopReordering now r)"

text \<open>Steer mode starts the reordering when the link changes; duplicates need it, a QoS flow does without.\<close>

definition vi_recv_steer :: "u8 \<Rightarrow> GmaVi \<Rightarrow> GmaVi" where
  "vi_recv_steer cid s = (let r = vi_reorder s in
    if rc_splittingBurst (vi_rxControl s) = 1 then
      (if rq_newLinkCid r = UINT8_MAX then s\<lparr>vi_reorder := r\<lparr>rq_newLinkCid := cid\<rparr>\<rparr>
       else if rq_newLinkCid r = cid then s
       else if rq_enableReordering r = False
         then s\<lparr>vi_reorder := r\<lparr>rq_newLinkCid := cid, rq_enableReordering := True\<rparr>\<rparr>
       else s)
    else s)"

definition vi_recv_flow :: "u8 \<Rightarrow> GmaVi \<Rightarrow> GmaVi" where
  "vi_recv_flow flowId s =
    (let s = (if flowId = DUPLICATE_FLOW_ID \<and> vi_receiveDuplicateFlow s = False
           then s\<lparr>vi_receiveDuplicateFlow := True,
             vi_reorder := (vi_reorder s)\<lparr>rq_useLsnReordering := False, rq_enableReordering := True\<rparr>\<rparr> else s)
     in if flowId = QOS_FLOW_ID
        then s\<lparr>vi_receiveDuplicateFlow := True,
          vi_reorder := (vi_reorder s)\<lparr>rq_useLsnReordering := False, rq_enableReordering := False\<rparr>\<rparr>
        else s)"

definition vi_recv_measure :: "time \<Rightarrow> GmaHeader \<Rightarrow> GmaVi \<Rightarrow> GmaVi result" where
  "vi_recv_measure now g s =
    (if vi_rxMode s then
       (let s = (if vi_measurementOn s then
              s\<lparr>vi_out := vi_out s @
                [Measure (MeasureIntervalStartCheck now (gh_sequenceNumber g) (rq_gmaRxExpectedSn (vi_reorder s))),
                 Measure (DataMeasurementSample (vi_ms32 now - gh_timeStamp g) (gh_localSequenceNumber g) (gh_connectionId g)),
                 Measure (MeasureIntervalEndCheck now)]\<rparr> else s)
        in vi_qos_links (vi_rx_qos_link now) s)
     else Inr s)"

text \<open>The report of the received packets of a link.\<close>

definition vi_report_lsn :: "GmaHeader \<Rightarrow> MeasureSn \<Rightarrow> MeasureParam \<Rightarrow> MeasureSn \<times> MeasureParam" where
  "vi_report_lsn g n p =
    (let d = LsnDiff (uint (gh_localSequenceNumber g)) (uint (ms_lastLsn n));
         n' = \<lparr>ms_lastLsn = gh_localSequenceNumber g, ms_lastGsn = ucast (gh_sequenceNumber g)\<rparr>;
         inOrder = (\<lambda>missing. p\<lparr>mp_numOfMissingPacketsForReport := mp_numOfMissingPacketsForReport p + missing,
           mp_numOfInOrderPacketsForReport := mp_numOfInOrderPacketsForReport p + 1\<rparr>)
     in if d = 1 then (n', inOrder 0)
        else if d > 1 then (n', inOrder (of_int d - 1))
        else if SnDiff (to_int (gh_sequenceNumber g)) (to_int (ucast (ms_lastGsn n))) > 0
          then (n', inOrder (256 + of_int d - 1))
        else (n, p\<lparr>mp_numOfAbnormalPacketsForReport := mp_numOfAbnormalPacketsForReport p + 1\<rparr>))"

definition vi_report_packet :: "time \<Rightarrow> GmaHeader \<Rightarrow> nat \<Rightarrow> GmaVi \<Rightarrow> GmaVi" where
  "vi_report_packet now g bytes s =
    (if rq_enableMeasureReport (vi_reorder s) then
       (let owd = vi_ms32 now - gh_timeStamp g; cid = gh_connectionId g;
            s = s\<lparr>vi_receivedBytes := vi_receivedBytes s + of_nat bytes\<rparr>;
            n = (case sm_find cid (vi_measureSnPerCidMap s) of None \<Rightarrow> MeasureSn_new | Some n \<Rightarrow> n);
            count = (\<lambda>p. let p = vi_owd_minmax owd (p\<lparr>mp_rcvBytes := mp_rcvBytes p + of_nat bytes\<rparr>);
                p = (if uint owd > uint (rq_acceptableDelay (vi_reorder s))
                  then p\<lparr>mp_numOfHighDelayPkt := mp_numOfHighDelayPkt p + 1\<rparr> else p)
              in vi_owd_sum owd p);
            s = vi_upd_param cid (\<lambda>p. snd (vi_report_lsn g n (count p))) s
        in s\<lparr>vi_measureSnPerCidMap := sm_set cid (fst (vi_report_lsn g n MeasureParam_new)) (vi_measureSnPerCidMap s)\<rparr>)
     else s)"

definition vi_deliver :: "time \<Rightarrow> u8 list \<Rightarrow> GmaHeader \<Rightarrow> GmaVi \<Rightarrow> GmaVi result" where
  "vi_deliver now packet g s = (let cid = gh_connectionId g in
    if ucast (gh_flowId g) = QOS_FLOW_ID \<and> vi_discardBackupLinkPackets s \<and> cid \<noteq> ls_defaultLinkCid (vi_linkState s)
    then Inr s
    else vi_reorder_with (rq_receive (\<lambda>c. ls_IsLinkUp c (vi_linkState s)) now packet g cid) s)"

definition vi_recv_data :: "time \<Rightarrow> GmaHeader \<Rightarrow> u8 list \<Rightarrow> u16 \<Rightarrow> GmaVi \<Rightarrow> GmaVi result" where
  "vi_recv_data now g packet fromPort s =
    (let cid = gh_connectionId g; s = vi_recv_flow (ucast (gh_flowId g)) (vi_recv_steer cid s) in
     rbind (rassert (uint cid = uint fromPort - uint START_PORT_NUM)
       ''the port number should equals START_PORT_NUM + cid'') (\<lambda>_.
     rbind (vi_recv_measure now g s) (\<lambda>s.
     vi_deliver now packet g (vi_report_packet now g (length packet) s))))"

definition vi_Receive :: "time \<Rightarrow> gma_packet \<Rightarrow> u32 \<Rightarrow> u16 \<Rightarrow> GmaVi \<Rightarrow> GmaVi result" where
  "vi_Receive now pkt phyAddr fromPort s =
    (let g = fst pkt in
     if gh_GetFlags g = 0 \<or> gh_GetFlags g = 256 then
       (case snd pkt of
          Payload _ \<Rightarrow> Inl (Undefined ''a control header is read from data'')
        | CtrlMsg h \<Rightarrow>
            rbind (vi_phy_of (mx_connectionId h) s) (\<lambda>phy.
            if pa_ReceiveOk now phyAddr phy = False then Inr s else vi_RecvCtrlMsg now h phyAddr s))
     else
       (case snd pkt of
          CtrlMsg _ \<Rightarrow> Inl (Undefined ''data is read from a control header'')
        | Payload packet \<Rightarrow>
            rbind (vi_phy_of (gh_connectionId g) s) (\<lambda>phy.
            if pa_ReceiveOk now phyAddr phy = False then Inr s
            else if length packet = 0 then vi_reorder_with (vi_recv_end_marker now (gh_connectionId g)) s
            else vi_recv_data now g packet fromPort s)))"

end
