(* ===== verification/Configuration.thy ===== *)
theory Configuration
  imports Recv_Ctrl Rx_Violation
begin

text \<open>The configuration of a virtual interface in \<open>src/contrib/gma/model/gma-virtual-interface.cc\<close>: the
  constructor, the links (\<open>AddPhyLink\<close>, \<open>AddPhyCandidate\<close>), the setters, and the actions an external
  agent sends (the priorities of a link and the split of the traffic).

  An action is \<open>None\<close> for the JSON value null and otherwise its numbers; \<open>get<int>\<close> of a number drops its
  fraction.  The virtual interface owns a QoS measurement manager when it is in QoS steer mode.\<close>

section \<open>The constructor and the setters\<close>

text \<open>A new interface at time \<open>now\<close>.  The node id, the Wi-Fi thresholds and the intervals are set by
  \<open>SetId\<close> and by the attributes; \<open>gma\<close> and \<open>mx\<close> stand for the memory a header object starts with.\<close>

definition GmaVirtualInterface_new :: "GmaHeader \<Rightarrow> MxControlHeader \<Rightarrow> u32 \<Rightarrow> time \<Rightarrow> GmaVi" where
  "GmaVirtualInterface_new gma mx nodeId start = \<lparr>vi_gmaTxSn = 0, vi_mxCtrSeqNumber = 0, vi_maxTsuSeqNum = 0,
    vi_reorder = GmaReorder_new\<lparr>rq_useLsnReordering := True, rq_enableMeasureReport := True\<rparr>,
    vi_phy = [], vi_txedCtrQueue = [], vi_ctrRto = INITIAL_CONTROL_RTO, vi_maxRttMs = 0, vi_measurementOn = False,
    vi_qosMeasurementStarts = False, vi_lastTsuNoneZeroLink = 0, vi_receiveDuplicateFlow = False,
    vi_rxControl = GmaRxControl_new, vi_txControl = GmaTxControl_new, vi_txMode = True, vi_rxMode = True,
    vi_maxTsaSn = 0, vi_receivedBytes = 0, vi_tsuCounter = 0, vi_measureSnPerCidMap = [], vi_nodeId = nodeId,
    vi_numOfTxPacketsPerFlow = 0, vi_TxBytesPerFlow = 0, vi_duplicateMode = False, vi_wifiPowerAvailable = False,
    vi_maxLinkMapUpdateSn = 0, vi_linkState = LinkState_new, vi_enableMarkCtrlLinkMap = False, vi_wifiPowerRange = 1,
    vi_wifiLowPowerThreshDbm = -80, vi_wifiHighPowerThreshDbm = -77, vi_lastDecision = None,
    vi_clientRoleEnabled = False, vi_serverRoleEnabled = False, vi_discardBackupLinkPackets = False,
    vi_qosClientTestingActive = False, vi_qosTestingAllowed = False, vi_qosSteerActionReceived = False,
    vi_clientId = UINT32_MAX, vi_missedAction = 0, vi_measurementInterval = 1000000000, vi_measurementGuardInterval = 0,
    vi_rawGma = gma, vi_rawMx = mx, vi_out = [SchedulePeriodicProbeMsg start]\<rparr>"

definition vi_SetId :: "time \<Rightarrow> u32 \<Rightarrow> GmaVi \<Rightarrow> GmaVi" where
  "vi_SetId now nodeId s =
    (let s = s\<lparr>vi_nodeId := nodeId, vi_linkState := (vi_linkState s)\<lparr>ls_nodeId := nodeId\<rparr>\<rparr> in
     vi_emit (ScheduleMeasurementGuardIntervalEnd (now + vi_measurementGuardInterval s)) s)"

definition vi_SetFixedTxCid :: "u8 \<Rightarrow> GmaVi \<Rightarrow> GmaVi result" where
  "vi_SetFixedTxCid cid s =
    (let s = s\<lparr>vi_linkState := ls_SetFixedDefaultCid cid (vi_linkState s)\<rparr> in
     rbind (tc_SetAlgorithm ''DefaultLink'' (vi_txControl s)) (\<lambda>tx. Inr (s\<lparr>vi_txControl := tx\<rparr>)))"

definition vi_SetTxMode :: "bool \<Rightarrow> GmaVi \<Rightarrow> GmaVi" where
  "vi_SetTxMode flag s = s\<lparr>vi_txMode := flag\<rparr>"

definition vi_SetRxMode :: "bool \<Rightarrow> GmaVi \<Rightarrow> GmaVi" where
  "vi_SetRxMode flag s =
    (let s = s\<lparr>vi_rxMode := flag\<rparr> in if flag = False then vi_emit (Measure DisableMeasurement) s else s)"

definition vi_SetDuplicateMode :: "bool \<Rightarrow> GmaVi \<Rightarrow> GmaVi" where
  "vi_SetDuplicateMode flag s = s\<lparr>vi_duplicateMode := flag\<rparr>"

definition vi_ConfigureRxAlgorithm :: "u8 \<Rightarrow> GmaVi \<Rightarrow> GmaVi result" where
  "vi_ConfigureRxAlgorithm splittingBurst s =
    rbind (rc_SetSplittingBurst splittingBurst (vi_rxControl s)) (\<lambda>rx. Inr (s\<lparr>vi_rxControl := rx\<rparr>))"

definition vi_SetWifiHighPowerThresh :: "real \<Rightarrow> GmaVi \<Rightarrow> GmaVi" where
  "vi_SetWifiHighPowerThresh highPower s = s\<lparr>vi_wifiHighPowerThreshDbm := highPower\<rparr>"

definition vi_SetWifiLowPowerThresh :: "real \<Rightarrow> GmaVi \<Rightarrow> GmaVi" where
  "vi_SetWifiLowPowerThresh lowPower s = s\<lparr>vi_wifiLowPowerThreshDbm := lowPower\<rparr>"

definition vi_SetQosRequirement :: "u64 \<Rightarrow> u64 \<Rightarrow> u64 \<Rightarrow> real \<Rightarrow> real \<Rightarrow> GmaVi \<Rightarrow> GmaVi" where
  "vi_SetQosRequirement qos_delay thresh1 thresh2 delayTarget lossTarget s =
    s\<lparr>vi_reorder := (vi_reorder s)\<lparr>rq_acceptableDelay := qos_delay, rq_delaythresh1 := thresh1, rq_delaythresh2 := thresh2\<rparr>,
      vi_rxControl := rc_SetQosTarget delayTarget lossTarget (vi_rxControl s)\<rparr>"

definition vi_EnableServerRole :: "u32 \<Rightarrow> GmaVi \<Rightarrow> GmaVi" where
  "vi_EnableServerRole clientId s = s\<lparr>vi_serverRoleEnabled := True, vi_clientId := clientId\<rparr>"

definition vi_EnableClientRole :: "u32 \<Rightarrow> GmaVi \<Rightarrow> GmaVi" where
  "vi_EnableClientRole clientId s = s\<lparr>vi_clientRoleEnabled := True, vi_clientId := clientId\<rparr>"

definition vi_DiscardBackupLinkPackets :: "bool \<Rightarrow> GmaVi \<Rightarrow> GmaVi" where
  "vi_DiscardBackupLinkPackets flag s = s\<lparr>vi_discardBackupLinkPackets := flag\<rparr>"

definition vi_QosTestingSessionEnd :: "GmaVi \<Rightarrow> GmaVi" where
  "vi_QosTestingSessionEnd s = s\<lparr>vi_qosClientTestingActive := False\<rparr>"

text \<open>The end of the guard interval: all measurements start again.\<close>

definition vi_MeasurementGuardIntervalEnd :: "time \<Rightarrow> GmaVi \<Rightarrow> GmaVi" where
  "vi_MeasurementGuardIntervalEnd now s =
    (let r = (vi_reorder s)\<lparr>rq_numOfInOrderPacketsPerFlow := 0, rq_numOfMissingPacketsPerFlow := 0,
           rq_numOfAbnormalPacketsPerFlow := 0, rq_flowParam := MeasureParam_new, rq_measureParamPerCidMap := [],
           rq_reorderingTimeoutCounter := 0\<rparr>;
         s = s\<lparr>vi_reorder := r, vi_numOfTxPacketsPerFlow := 0, vi_TxBytesPerFlow := 0, vi_receivedBytes := 0, vi_tsuCounter := 0\<rparr>
     in vi_emit (ScheduleCollectMeasureResults (now + vi_measurementInterval s)) s)"

section \<open>Links\<close>

definition vi_upd_link :: "u8 \<Rightarrow> (LinkParams \<Rightarrow> LinkParams) \<Rightarrow> GmaVi \<Rightarrow> GmaVi" where
  "vi_upd_link cid f s =
    (case sm_find cid (vi_links s) of None \<Rightarrow> s | Some p \<Rightarrow> vi_set_links (sm_set cid (f p) (vi_links s)) s)"

definition vi_new_phy :: "time \<Rightarrow> bool \<Rightarrow> u32 \<Rightarrow> u8 \<Rightarrow> int \<Rightarrow> PhyAccessControl" where
  "vi_new_phy now socket phyAddr cid apId = pa_SetApId (of_int apId) (pa_SetIp now phyAddr False
    ((PhyAccessControl_new 0 0 0)\<lparr>pa_socket := socket, pa_portNumber := START_PORT_NUM + ucast cid\<rparr>))"

text \<open>A link with a new cid; it is down until a control message over it is acknowledged, unless it is the
  default link.\<close>

definition vi_new_link :: "time \<Rightarrow> bool \<Rightarrow> u32 \<Rightarrow> u8 \<Rightarrow> int \<Rightarrow> GmaVi \<Rightarrow> GmaVi" where
  "vi_new_link now socket phyAddr cid apId s =
    (let s = vi_set_phy cid (vi_new_phy now socket phyAddr cid apId) (vi_set_links (sm_set cid LinkParams_new (vi_links s)) s);
         ls = ls_AddLinkCid cid (vi_linkState s);
         ls = (if ls_defaultLinkCid ls \<noteq> cid then snd (ls_CtrlMsgDown cid ls) else ls);
         s = s\<lparr>vi_linkState := ls\<rparr>
     in vi_emit (Measure (AddDevice cid (rq_acceptableDelay (vi_reorder s)))) s)"

text \<open>A link that exists gets a new address: a handover between access points.\<close>

definition vi_change_link :: "time \<Rightarrow> bool \<Rightarrow> u32 \<Rightarrow> u8 \<Rightarrow> int \<Rightarrow> GmaVi \<Rightarrow> GmaVi result" where
  "vi_change_link now socket phyAddr cid apId s =
    rbind (vi_phy_of cid s) (\<lambda>phy.
    if pa_ipAddr phy \<noteq> phyAddr then
      (let phy = pa_SetApId (of_int apId) (pa_SetIp now phyAddr True (phy\<lparr>pa_socket := socket\<rparr>));
           s = (vi_set_phy cid phy s)\<lparr>vi_ctrRto := INITIAL_CONTROL_RTO\<rparr> in
       rbind (vi_delivery s) (\<lambda>(oldCid, s).
       if pa_simulateLinkDownTime phy > 0 then vi_ctrl_msg_down vi_SendByCid now cid oldCid s else Inr s))
    else Inr s)"

definition vi_AddPhyLink :: "time \<Rightarrow> bool \<Rightarrow> u32 \<Rightarrow> u8 \<Rightarrow> int \<Rightarrow> GmaVi \<Rightarrow> GmaVi result" where
  "vi_AddPhyLink now socket phyAddr cid apId s =
    rbind (if sm_find cid (vi_links s) = None then Inr (vi_new_link now socket phyAddr cid apId s)
       else vi_change_link now socket phyAddr cid apId s) (\<lambda>s.
    Inr (if rc_enableQosFlowPrioritization (vi_rxControl s) then vi_upd_link cid (\<lambda>p. p\<lparr>lp_qosMarking := 1\<rparr>) s else s))"

definition vi_AddPhyCandidate :: "time \<Rightarrow> bool \<Rightarrow> u32 \<Rightarrow> u64 \<Rightarrow> u8 \<Rightarrow> int \<Rightarrow> GmaVi \<Rightarrow> GmaVi result" where
  "vi_AddPhyCandidate now socket phyAddr macAddr cid apId s =
    (let s = (if sm_find cid (vi_links s) = None then vi_new_link now socket phyAddr cid apId s else s) in
     rbind (vi_phy_of cid s) (\<lambda>phy. Inr (vi_set_phy cid (pa_AddCandidate phyAddr macAddr (of_int apId) phy) s)))"

section \<open>Actions\<close>

text \<open>The priority of the flow on one link: \<open>ReceiveWifiDlDfpAction\<close>, \<open>ReceiveLteDlDfpAction\<close> and
  \<open>ReceiveNrDlDfpAction\<close>.\<close>

definition vi_dfp_action :: "u8 \<Rightarrow> real option \<Rightarrow> GmaVi \<Rightarrow> GmaVi" where
  "vi_dfp_action cid action s =
    (case action of
       None \<Rightarrow> s
     | Some x \<Rightarrow>
         if rc_enableQosFlowPrioritization (vi_rxControl s)
         then vi_upd_link cid (\<lambda>p. p\<lparr>lp_qosMarking := real_of_int (trunc x)\<rparr>) s else s)"

definition vi_ReceiveWifiDlDfpAction :: "real option \<Rightarrow> GmaVi \<Rightarrow> GmaVi" where
  "vi_ReceiveWifiDlDfpAction = vi_dfp_action (of_int WIFI_CID)"

definition vi_ReceiveLteDlDfpAction :: "real option \<Rightarrow> GmaVi \<Rightarrow> GmaVi" where
  "vi_ReceiveLteDlDfpAction = vi_dfp_action (of_int CELLULAR_LTE_CID)"

definition vi_ReceiveNrDlDfpAction :: "real option \<Rightarrow> GmaVi \<Rightarrow> GmaVi" where
  "vi_ReceiveNrDlDfpAction = vi_dfp_action (of_int CELLULAR_NR_CID)"

text \<open>The QoS steer action selects one link: a test of it starts, or the traffic moves to the default link.\<close>

definition vi_steer_action :: "time \<Rightarrow> real list \<Rightarrow> GmaVi \<Rightarrow> GmaVi result" where
  "vi_steer_action now action s =
    (let s = s\<lparr>vi_qosSteerActionReceived := True\<rparr> in
     if sum_list (map trunc action) \<noteq> 1
     then Inl (Fatal ''the sum of action (split_weight) must be one for QoS steer case!!'')
     else
       (case List.find (\<lambda>(cid, x). trunc x = 1) (zip (map fst (vi_links s)) action) of
          None \<Rightarrow> Inl (Fatal ''No CID is found to have step == 1!'')
        | Some (steerLinkCid, _) \<Rightarrow>
            if steerLinkCid = UINT8_MAX then Inl (Fatal ''No CID is found to have step == 1!'')
            else
              (let s = vi_emit (Measure (QuitQosMeasurement (ls_GetBackupLinkCid (vi_linkState s)))) s in
               if steerLinkCid \<noteq> ls_defaultLinkCid (vi_linkState s) then
                 (let ls = ls_SetBackupLinkCid steerLinkCid (vi_linkState s); s = s\<lparr>vi_linkState := ls\<rparr> in
                  case sm_find (ls_GetBackupLinkCid ls) (ls_cidToLastTestFailTime ls) of
                    None \<Rightarrow> Inr (s\<lparr>vi_qosTestingAllowed := True\<rparr>)
                  | Some t \<Rightarrow>
                      Inr (if now \<ge> t + MIN_QOS_TESTING_INTERVAL then s\<lparr>vi_qosTestingAllowed := True\<rparr> else s))
               else
                 (let s = s\<lparr>vi_qosTestingAllowed := False\<rparr>;
                      (decision, rx) = rc_GenerateTrafficSplittingDecision (vi_linkState s)
                        (ls_defaultLinkCid (vi_linkState s)) False (vi_rxControl s);
                      s = s\<lparr>vi_rxControl := rx\<rparr>
                  in if sd_update decision then vi_SendTsu vi_SendByCid now decision s else Inr s))))"

text \<open>The weights of the split as numbers of packets out of a burst of 128.\<close>

definition vi_round_weights :: "real list \<Rightarrow> real \<Rightarrow> (u8 list \<times> int) result" where
  "vi_round_weights action sumWeight =
    rfoldl (\<lambda>(burstPerLink, burstSum) w.
      rbind (rv_to_u8 (cround (w * real_of_int rc_GetMaxSplittingBurst / sumWeight))) (\<lambda>b.
      Inr (burstPerLink @ [b], burstSum + uint b))) ([], 0) action"

definition vi_split_bursts :: "real list \<Rightarrow> u8 list result" where
  "vi_split_bursts action =
    (if sum_list action = 0 then Inl (Fatal ''the sum of action (split_weight) cannot be zero!!'') else
     rbind (vi_round_weights action (sum_list action)) (\<lambda>(burstPerLink, burstSum).
     rbind (rv_raise rc_GetMaxSplittingBurst burstSum burstPerLink) (\<lambda>burstPerLink.
     rv_lower rc_GetMaxSplittingBurst (max rc_GetMaxSplittingBurst burstSum) burstPerLink)))"

definition vi_split_action :: "time \<Rightarrow> real list \<Rightarrow> GmaVi \<Rightarrow> GmaVi result" where
  "vi_split_action now action s =
    rbind (vi_split_bursts action) (\<lambda>burstPerLink.
    rbind (rc_SetAlgorithm ''RlSplit'' (vi_rxControl s)) (\<lambda>rx.
    let s = s\<lparr>vi_rxControl := rx\<rparr>;
        rlAction = \<lparr>ra_links = of_nat (length (vi_links s)), ra_cidList = map fst (vi_links s), ra_ratio = burstPerLink\<rparr> in
    rbind (vi_delivery s) (\<lambda>(oldCid, s).
    rbind (rc_GetTrafficSplittingDecision_Rl (vi_linkState s) rlAction (vi_rxControl s)) (\<lambda>(decision, rx, ls).
    let s = s\<lparr>vi_rxControl := rx, vi_linkState := ls\<rparr> in
    if sd_update decision then
      rbind (vi_SendTsu vi_SendByCid now decision s) (\<lambda>s. vi_end_marker_if_moved vi_SendByCid now oldCid s)
    else Inr s))))"

definition vi_ReceiveDlSplitWeightAction :: "time \<Rightarrow> real list option \<Rightarrow> GmaVi \<Rightarrow> GmaVi result" where
  "vi_ReceiveDlSplitWeightAction now action s =
    (case action of
       None \<Rightarrow>
         (let s = (if rc_QosSteerEnabled (vi_rxControl s) then s\<lparr>vi_qosTestingAllowed := True\<rparr> else s) in
          Inr (s\<lparr>vi_missedAction := vi_missedAction s + 1\<rparr>))
     | Some w \<Rightarrow>
         if length (vi_links s) \<noteq> length w then Inl (Fatal ''the action size is not equal the number of links'')
         else if rc_QosSteerEnabled (vi_rxControl s) then vi_steer_action now w s
         else vi_split_action now w s)"

section \<open>The weights of a split\<close>

lemma real_unat: "real (unat (v :: u8)) = real_of_int (uint v)"
  by (metis of_int_of_nat_eq uint_nat)

lemma list_update_between:
  fixes xs ys :: "u8 list"
  shows "xs ! i \<le> x \<Longrightarrow> list_all2 (\<le>) xs (xs[i := x])" "x \<le> xs ! i \<Longrightarrow> list_all2 (\<le>) (xs[i := x]) xs"
    "list_all2 (\<le>) xs ys \<Longrightarrow> list_all2 (\<le>) xs (ys[i := xs ! i])"
  by (cases "i < length xs"; simp add: list_all2_conv_all_nth nth_list_update)+

lemma list_all2_le_trans:
  fixes xs :: "u8 list"
  shows "list_all2 (\<le>) xs ys \<Longrightarrow> list_all2 (\<le>) ys zs \<Longrightarrow> list_all2 (\<le>) xs zs"
  by (rule list_all2_trans) (rule order_trans)

lemma rv_raise_mono:
  assumes "int (rc_total xs) = tot" "0 < tot" "burst \<le> 255" "rv_raise burst tot xs = Inr ys"
  shows "list_all2 (\<le>) xs ys"
  using assms
proof (induction burst tot xs rule: rv_raise.induct)
  case (1 burst tot xs)
  show ?case
  proof (cases "tot < burst")
    case True
    let ?j = "rv_max_index xs"
    have "rc_total xs \<noteq> 0" using 1(2,3) by auto
    note j = rv_max_index_pos [OF this]
    let ?xs = "xs[?j := xs ! ?j + 1]"
    have "unat (xs ! ?j) \<le> rc_total xs" using j(1) by (rule rc_total_nth)
    then have inc: "unat (xs ! ?j + 1) = unat (xs ! ?j) + 1"
      using True 1(2,4) by (subst u8_add_nowrap) auto
    have tot: "int (rc_total ?xs) = tot + 1"
      using rc_total_update [OF j(1), of "xs ! ?j + 1"] inc 1(2) by linarith
    have run: "rv_raise burst (tot + 1) ?xs = Inr ys" using 1(5) True j(1) by (subst (asm) rv_raise.simps) simp
    have "list_all2 (\<le>) ?xs ys" using 1(1) [OF True tot _ 1(4) run] 1(3) by simp
    moreover have "list_all2 (\<le>) xs ?xs"
      by (rule list_update_between(1)) (simp add: inc word_le_nat_alt)
    ultimately show ?thesis using list_all2_le_trans by blast
  next
    case False
    then have "xs = ys" using 1(5) by (subst (asm) rv_raise.simps) simp
    then show ?thesis by (simp add: list_all2_same)
  qed
qed

lemma rv_lower_mono:
  assumes "int (rc_total xs) = tot" "0 \<le> burst" "rv_lower burst tot xs = Inr ys"
  shows "list_all2 (\<le>) ys xs"
  using assms
proof (induction burst tot xs rule: rv_lower.induct)
  case (1 burst tot xs)
  show ?case
  proof (cases "burst < tot")
    case True
    let ?j = "rv_max_index xs"
    have "rc_total xs \<noteq> 0" using 1(2,3) True by auto
    note j = rv_max_index_pos [OF this]
    let ?xs = "xs[?j := xs ! ?j - 1]"
    have dec: "unat (xs ! ?j - 1) + 1 = unat (xs ! ?j)"
      using j(2) by (simp add: unat_minus_one unat_gt_0)
    have tot: "int (rc_total ?xs) = tot - 1"
      using rc_total_update [OF j(1), of "xs ! ?j - 1"] dec 1(2) by linarith
    have run: "rv_lower burst (tot - 1) ?xs = Inr ys" using 1(4) True j(1) by (subst (asm) rv_lower.simps) simp
    have "list_all2 (\<le>) ys ?xs" by (rule 1(1) [OF True tot 1(3) run])
    moreover have "list_all2 (\<le>) ?xs xs"
      by (rule list_update_between(2)) (use dec in \<open>simp add: word_le_nat_alt\<close>)
    ultimately show ?thesis using list_all2_le_trans by blast
  next
    case False
    then have "xs = ys" using 1(4) by (subst (asm) rv_lower.simps) simp
    then show ?thesis by (simp add: list_all2_same)
  qed
qed

lemma rc_total_pointwise:
  assumes "list_all2 (\<le>) xs ys" "i < length xs"
  shows "unat (xs ! i) \<le> unat (ys ! i)" "int (unat (ys ! i)) - int (unat (xs ! i)) \<le> int (rc_total ys) - int (rc_total xs)"
proof -
  show "unat (xs ! i) \<le> unat (ys ! i)" using assms by (simp add: list_all2_conv_all_nth word_le_nat_alt)
  have "rc_total xs \<le> rc_total ys" if "list_all2 (\<le>) xs ys" for xs ys :: "u8 list"
    using that by (induction rule: list_all2_induct) (simp_all add: rc_total_def word_le_nat_alt)
  moreover have "list_all2 (\<le>) xs (ys[i := xs ! i])"
    by (rule list_update_between(3) [OF assms(1)])
  ultimately have "rc_total xs \<le> rc_total (ys[i := xs ! i])" by blast
  moreover have "i < length ys" using assms by (simp add: list_all2_lengthD)
  ultimately show "int (unat (ys ! i)) - int (unat (xs ! i)) \<le> int (rc_total ys) - int (rc_total xs)"
    using rc_total_update [of i ys "xs ! i"] by linarith
qed

lemma vi_round_weights_eq:
  assumes "\<forall>w \<in> set action. 0 \<le> w \<and> w \<le> S" "0 < S"
  shows "vi_round_weights action S = Inr (map (\<lambda>w. of_int (cround (w * 128 / S))) action,
    int (rc_total (map (\<lambda>w. of_int (cround (w * 128 / S))) action)))
    \<and> (\<forall>w \<in> set action. uint (of_int (cround (w * 128 / S)) :: u8) = cround (w * 128 / S))"
proof -
  have range: "0 \<le> cround (w * 128 / S) \<and> cround (w * 128 / S) \<le> 255" if "w \<in> set action" for w
  proof
    have w: "0 \<le> w" "w \<le> S" using assms(1) that by auto
    then have "0 \<le> w * 128 / S" "w * 128 / S \<le> 128" using assms(2) by (simp_all add: divide_le_eq)
    then show "0 \<le> cround (w * 128 / S)" "cround (w * 128 / S) \<le> 255"
      using cround_nonneg [of "w * 128 / S"] cround_bounds(1) [of "w * 128 / S"] by linarith+
  qed
  have "rfoldl (\<lambda>(burstPerLink, burstSum) w.
      rbind (rv_to_u8 (cround (w * real_of_int rc_GetMaxSplittingBurst / S))) (\<lambda>b.
      Inr (burstPerLink @ [b], burstSum + uint b))) (l, int (rc_total l)) ws
    = Inr (l @ map (\<lambda>w. of_int (cround (w * 128 / S))) ws, int (rc_total (l @ map (\<lambda>w. of_int (cround (w * 128 / S))) ws)))"
    if "set ws \<subseteq> set action" for l ws
    using that
  proof (induction ws arbitrary: l)
    case (Cons w ws)
    let ?b = "of_int (cround (w * 128 / S)) :: u8"
    have "rv_to_u8 (cround (w * 128 / S)) = Inr ?b" using range [of w] Cons.prems rv_to_u8_ok by simp
    moreover have "int (rc_total l) + uint ?b = int (rc_total (l @ [?b]))" by (simp add: rc_total_def)
    ultimately show ?case using Cons.IH [of "l @ [?b]"] Cons.prems by (simp add: rc_GetMaxSplittingBurst_def)
  qed simp
  from this [of action "[]"] have "vi_round_weights action S = Inr (map (\<lambda>w. of_int (cround (w * 128 / S))) action,
    int (rc_total (map (\<lambda>w. of_int (cround (w * 128 / S))) action)))"
    by (simp add: vi_round_weights_def rc_total_def)
  then show ?thesis using range uint_of_int_u8 by simp
qed

text \<open>The rounded numbers differ from 128 by at most half a packet per link.\<close>

lemma vi_rounded_total:
  assumes "\<forall>w \<in> set action. uint (f w :: u8) = cround (w * 128 / S)" "0 < S"
  shows "\<bar>real (rc_total (map f action)) - sum_list action * 128 / S\<bar> \<le> real (length action) / 2"
  using assms(1)
proof (induction action)
  case (Cons w action)
  let ?x = "w * 128 / S"
  have "real (unat (f w)) = real_of_int (cround ?x)" using Cons.prems by (metis list.set_intros(1) of_int_of_nat_eq uint_nat)
  then have "\<bar>real (unat (f w)) - ?x\<bar> \<le> 1 / 2" using cround_bounds [of ?x] by linarith
  moreover have "\<bar>real (rc_total (map f action)) - sum_list action * 128 / S\<bar> \<le> real (length action) / 2" using Cons by simp
  moreover have "(w + sum_list action) * 128 / S = ?x + sum_list action * 128 / S" by (simp add: add_divide_distrib)
  moreover have "rc_total (map f (w # action)) = unat (f w) + rc_total (map f action)" by (simp add: rc_total_def)
  moreover have "real (length (w # action)) / 2 = real (length action) / 2 + 1 / 2" by simp
  ultimately show ?case unfolding sum_list.Cons of_nat_add by linarith
qed (simp add: rc_total_def)

lemma rc_total_cround_pos:
  assumes "\<forall>w \<in> set action. uint (f w :: u8) = cround (w * 128 / S)" "w \<in> set action" "S \<le> 256 * w" "0 < S"
  shows "0 < rc_total (map f action)"
proof -
  have "1 / 2 \<le> w * 128 / S" using assms(3,4) by (simp add: le_divide_eq)
  then have "1 \<le> cround (w * 128 / S)" unfolding cround_def by (simp add: le_floor_iff)
  then have "f w \<noteq> 0" using assms(1,2) by auto
  then have "0 < unat (f w)" by (simp add: unat_gt_0)
  moreover have "unat (f w) \<le> sum_list (map unat (map f action))"
    by (rule member_le_sum_list) (use assms(2) in simp_all)
  ultimately show ?thesis unfolding rc_total_def by linarith
qed

text \<open>Some weight is at least the average.\<close>

lemma some_above_average:
  fixes xs :: "real list"
  assumes "0 < sum_list xs"
  shows "\<exists>w \<in> set xs. sum_list xs \<le> real (length xs) * w"
proof (rule ccontr)
  assume "\<not> ?thesis"
  then have less: "\<forall>w \<in> set xs. real (length xs) * w < sum_list xs" by auto
  have ne: "xs \<noteq> []" using assms by auto
  have "sum_list (map (\<lambda>w. real (length xs) * w) xs) < sum_list (map (\<lambda>w. sum_list xs) xs)"
    using less ne by (intro sum_list_strict_mono) auto
  then show False by (simp add: sum_list_const_mult sum_list_triv)
qed

text \<open>C23: vi_split_bursts: for weights that are not negative and not all zero, one per link, the rounding never
  fails and ends; the numbers of packets sum to the burst of 128, a link of weight zero gets none, and
  every link is within \<open>n + 1\<close> halves of a packet of its exact share for \<open>n\<close> links.\<close>

theorem vi_split_bursts_exact:
  assumes "\<forall>w \<in> set action. 0 \<le> w" "0 < sum_list action" "length action \<le> 255"
  shows "\<exists>b. vi_split_bursts action = Inr b \<and> length b = length action \<and> rc_total b = 128
    \<and> (\<forall>i < length action. (action ! i = 0 \<longrightarrow> b ! i = 0)
        \<and> \<bar>real (unat (b ! i)) - 128 * action ! i / sum_list action\<bar> \<le> (real (length action) + 1) / 2)"
proof -
  let ?S = "sum_list action"
  define f where "f = (\<lambda>w. of_int (cround (w * 128 / ?S)) :: u8)"
  define xs where "xs = map f action"
  have "\<forall>w \<in> set action. 0 \<le> w \<and> w \<le> ?S" using assms(1) member_le_sum_list [of _ action] by blast
  from vi_round_weights_eq [OF this assms(2)]
  have run: "vi_round_weights action ?S = Inr (xs, int (rc_total xs))" and f: "\<forall>w \<in> set action. uint (f w) = cround (w * 128 / ?S)"
    unfolding xs_def f_def by blast+
  obtain w where "w \<in> set action" "?S \<le> real (length action) * w" using some_above_average [OF assms(2)] by blast
  moreover have "real (length action) * w \<le> 256 * w" using assms(1,3) calculation(1) by (intro mult_right_mono) auto
  ultimately have pos: "0 < rc_total xs" unfolding xs_def using rc_total_cround_pos [OF f _ _ assms(2)] by force
  obtain ys where ys: "rv_raise 128 (int (rc_total xs)) xs = Inr ys" "length ys = length xs"
    "int (rc_total ys) = max 128 (int (rc_total xs))" "\<forall>i < length xs. xs ! i = 0 \<longrightarrow> ys ! i = 0"
    using rv_raise_ok [of xs "int (rc_total xs)" 128] pos by auto
  obtain zs where zs: "rv_lower 128 (int (rc_total ys)) ys = Inr zs" "length zs = length ys"
    "int (rc_total zs) = min 128 (int (rc_total ys))" "\<forall>i < length ys. ys ! i = 0 \<longrightarrow> zs ! i = 0"
    using rv_lower_ok [of ys "int (rc_total ys)" 128] by auto
  have total: "rc_total zs = 128" using ys(3) zs(3) by simp
  have res: "vi_split_bursts action = Inr zs"
    using assms(2) run ys(1) zs(1) unfolding ys(3) by (simp add: vi_split_bursts_def rc_GetMaxSplittingBurst_def)
  have off: "\<bar>real (rc_total xs) - 128\<bar> \<le> real (length action) / 2"
    using vi_rounded_total [OF f assms(2)] assms(2) by (simp add: xs_def)
  have "\<bar>real (unat (zs ! i)) - 128 * action ! i / ?S\<bar> \<le> (real (length action) + 1) / 2"
    and "action ! i = 0 \<longrightarrow> zs ! i = 0" if i: "i < length action" for i
  proof -
    have len: "i < length xs" "i < length ys" "i < length zs" using i ys(2) zs(2) by (simp_all add: xs_def)
    have up: "list_all2 (\<le>) xs ys" using rv_raise_mono [OF _ _ _ ys(1)] pos by simp
    have down: "list_all2 (\<le>) zs ys" using rv_lower_mono [OF _ _ zs(1)] by simp
    have "\<bar>int (unat (zs ! i)) - int (unat (xs ! i))\<bar> \<le> \<bar>int (rc_total xs) - 128\<bar>"
      using rc_total_pointwise [OF up len(1)] rc_total_pointwise [OF down len(3)] total ys(3) by linarith
    then have "\<bar>real (unat (zs ! i)) - real (unat (xs ! i))\<bar> \<le> \<bar>real (rc_total xs) - 128\<bar>" by linarith
    moreover have "real (unat (xs ! i)) = real_of_int (cround (action ! i * 128 / ?S))"
    proof -
      have "uint (f (action ! i)) = cround (action ! i * 128 / ?S)" using f i by simp
      moreover have "xs ! i = f (action ! i)" using i by (simp add: xs_def)
      ultimately show ?thesis by (simp only: real_unat)
    qed
    moreover have "\<bar>real_of_int (cround (action ! i * 128 / ?S)) - action ! i * 128 / ?S\<bar> \<le> 1 / 2"
      using cround_bounds [of "action ! i * 128 / ?S"] by (simp only: abs_le_iff) linarith
    ultimately have "\<bar>real (unat (zs ! i)) - action ! i * 128 / ?S\<bar> \<le> real (length action) / 2 + 1 / 2"
      using off by linarith
    then show "\<bar>real (unat (zs ! i)) - 128 * action ! i / ?S\<bar> \<le> (real (length action) + 1) / 2"
      by (simp only: mult.commute [of 128] add_divide_distrib)
    show "action ! i = 0 \<longrightarrow> zs ! i = 0" using ys(4) zs(4) len i by (simp add: xs_def f_def)
  qed
  then show ?thesis using res total ys(2) zs(2) by (auto simp: xs_def)
qed

lemma vi_split_bursts_exact_witness:
  "\<exists>b. vi_split_bursts [1, 1, 1, 0] = Inr b \<and> rc_total b = 128 \<and> b ! 3 = 0 \<and> \<bar>real (unat (b ! 0)) - 128 / 3\<bar> \<le> 5 / 2"
proof -
  let ?w = "[1, 1, 1, 0] :: real list"
  have "\<forall>w \<in> set ?w. 0 \<le> w" "0 < sum_list ?w" "length ?w \<le> 255" by simp_all
  from vi_split_bursts_exact [OF this] obtain b where b: "vi_split_bursts ?w = Inr b" "rc_total b = 128"
    "\<forall>i < length ?w. (?w ! i = 0 \<longrightarrow> b ! i = 0)
      \<and> \<bar>real (unat (b ! i)) - 128 * ?w ! i / sum_list ?w\<bar> \<le> (real (length ?w) + 1) / 2" by blast
  show ?thesis using b(1,2) b(3) [rule_format, of 0] b(3) [rule_format, of 3] by auto
qed

end
