(* ===== verification/End_To_End.thy ===== *)
theory End_To_End
  imports Data_Path Configuration "HOL-Library.Sublist"
begin

text \<open>From \<open>Transmit\<close> to the callback of the receiver: the packets of a sender, carried by links that
  lose packets but keep their order, are forwarded by the receiver in the order they were sent.

  The sender is in its plain mode: no duplicates, no QoS tests, no emulated delay, and access points
  with a socket and no simulated down time.\<close>

section \<open>A sender in its plain mode\<close>

abbreviation vi_keys :: "GmaVi \<Rightarrow> u8 set" where
  "vi_keys s \<equiv> fst ` set (vi_links s)"

definition vi_tx_control_ok :: "GmaVi \<Rightarrow> bool" where
  "vi_tx_control_ok s \<longleftrightarrow> tc_algorithm (vi_txControl s) \<noteq> TxSide
    \<and> (tc_active (vi_txControl s) \<or> tc_cidVector (vi_txControl s) = [] \<and> tc_paramL (vi_txControl s) \<le> 1)
    \<and> set (tc_cidVector (vi_txControl s)) \<subseteq> vi_keys s \<and> ls_defaultLinkCid (vi_linkState s) \<in> vi_keys s
    \<and> 255 \<notin> vi_keys s \<and> tc_cidDupVector (vi_txControl s) = []"

definition vi_links_ok :: "GmaVi \<Rightarrow> bool" where
  "vi_links_ok s \<longleftrightarrow> (\<forall>(c, p) \<in> set (vi_links s). lp_emulateDelay p = 0)
    \<and> (\<forall>c \<in> vi_keys s. \<exists>phy. sm_find c (vi_phy s) = Some phy \<and> pa_simulateLinkDownTime phy \<le> 0 \<and> pa_socket phy)"

definition vi_plain :: "GmaVi \<Rightarrow> bool" where
  "vi_plain s \<longleftrightarrow> \<not> vi_duplicateMode s \<and> \<not> (vi_clientRoleEnabled s \<and> rc_QosSteerEnabled (vi_rxControl s))
    \<and> vi_tx_control_ok s \<and> vi_links_ok s"

text \<open>The choice of a link changes only the schedule and the links that are skipped.\<close>

definition vi_data_view where
  "vi_data_view s = (vi_gmaTxSn s, vi_reorder s, vi_phy s, vi_out s, vi_rawGma s, vi_duplicateMode s, vi_clientRoleEnabled s,
    vi_rxControl s, ls_defaultLinkCid (vi_linkState s), tc_algorithm (vi_txControl s), tc_cidVector (vi_txControl s),
    tc_paramL (vi_txControl s), tc_cidDupVector (vi_txControl s))"

definition vi_chose :: "GmaVi \<Rightarrow> GmaVi \<Rightarrow> bool" where
  "vi_chose s s' \<longleftrightarrow> vi_data_view s' = vi_data_view s \<and> (tc_active (vi_txControl s) \<longrightarrow> tc_active (vi_txControl s'))"

lemma vi_chose_refl [simp]: "vi_chose s s"
  by (simp add: vi_chose_def)

lemma vi_chose_trans: "vi_chose a b \<Longrightarrow> vi_chose b c \<Longrightarrow> vi_chose a c"
  by (simp add: vi_chose_def)

lemma vi_chose_fields:
  assumes "vi_chose s s'"
  shows "vi_gmaTxSn s' = vi_gmaTxSn s" "vi_reorder s' = vi_reorder s" "vi_phy s' = vi_phy s" "vi_out s' = vi_out s"
    "vi_rawGma s' = vi_rawGma s" "vi_duplicateMode s' = vi_duplicateMode s" "vi_clientRoleEnabled s' = vi_clientRoleEnabled s"
    "vi_rxControl s' = vi_rxControl s" "ls_defaultLinkCid (vi_linkState s') = ls_defaultLinkCid (vi_linkState s)"
    "tc_algorithm (vi_txControl s') = tc_algorithm (vi_txControl s)" "tc_cidVector (vi_txControl s') = tc_cidVector (vi_txControl s)"
    "tc_paramL (vi_txControl s') = tc_paramL (vi_txControl s)" "tc_cidDupVector (vi_txControl s') = tc_cidDupVector (vi_txControl s)"
  using assms by (simp_all add: vi_chose_def vi_data_view_def)

lemma vi_chose_plain: "vi_chose s s' \<Longrightarrow> vi_plain s \<Longrightarrow> vi_plain s'"
  unfolding vi_plain_def vi_tx_control_ok_def vi_links_ok_def
  by (simp only: vi_chose_fields) (auto simp: vi_chose_def)

lemma vi_chose_tx:
  assumes "tc_algorithm tx = tc_algorithm (vi_txControl s)" "tc_cidVector tx = tc_cidVector (vi_txControl s)"
    "tc_paramL tx = tc_paramL (vi_txControl s)" "tc_cidDupVector tx = tc_cidDupVector (vi_txControl s)"
    "tc_active (vi_txControl s) \<longrightarrow> tc_active tx"
  shows "vi_chose s (s\<lparr>vi_txControl := tx\<rparr>)"
  using assms by (simp add: vi_chose_def vi_data_view_def)

lemma vi_chose_ls:
  assumes "ls_defaultLinkCid ls = ls_defaultLinkCid (vi_linkState s)"
  shows "vi_chose s (s\<lparr>vi_linkState := ls\<rparr>)"
  using assms by (simp add: vi_chose_def vi_data_view_def)

lemma ls_low_default [simp]: "ls_defaultLinkCid (snd (ls_IsLinkLowQueueingDelay now c ls)) = ls_defaultLinkCid ls"
  by (simp add: ls_IsLinkLowQueueingDelay_def split: option.splits)

lemma vi_count_up_chose: "vi_count_up now s = (n, m, s') \<Longrightarrow> vi_chose s s'"
proof -
  let ?f = "\<lambda>(upLinkCount, lowDelayCount, s) cid.
      if ls_IsLinkUp cid (vi_linkState s) then
        (let (low, ls) = ls_IsLinkLowQueueingDelay now cid (vi_linkState s) in
         (upLinkCount + 1, if low then lowDelayCount + 1 else lowDelayCount, s\<lparr>vi_linkState := ls\<rparr>))
      else (upLinkCount, lowDelayCount, s)"
  have "vi_chose s t \<Longrightarrow> foldl ?f (n0 :: u8, m0 :: u8, t) cs = (n, m, s') \<Longrightarrow> vi_chose s s'" for cs n0 m0 t
  proof (induction cs arbitrary: n0 m0 t)
    case (Cons c cs)
    obtain low ls where l: "ls_IsLinkLowQueueingDelay now c (vi_linkState t) = (low, ls)" by fastforce
    then have "ls_defaultLinkCid ls = ls_defaultLinkCid (vi_linkState t)" using ls_low_default by (metis snd_conv)
    then have "vi_chose s (t\<lparr>vi_linkState := ls\<rparr>)" using vi_chose_trans [OF Cons.prems(1) vi_chose_ls] by blast
    then show ?case using Cons.IH Cons.prems l by (auto simp: Let_def split: if_splits)
  qed simp
  from this [OF vi_chose_refl] show "vi_count_up now s = (n, m, s') \<Longrightarrow> vi_chose s s'" unfolding vi_count_up_def by blast
qed

lemma vi_delivery_chose:
  assumes "vi_plain s"
  shows "\<exists>c s'. vi_delivery s = Inr (c, s') \<and> vi_chose s s' \<and> c \<in> vi_keys s"
proof (cases "tc_algorithm (vi_txControl s) = RxSide \<and> tc_active (vi_txControl s)")
  case True
  let ?tx = "vi_txControl s" and ?ls = "vi_linkState s"
  obtain tx where tx: "tc_RxSideAlgorithm ?ls ?tx = Inr (tc_choose ?ls (tc_cidVector ?tx ! unat (tc_splittingIndex ?tx)), tx)"
    "tc_active tx" using rx_side.step_ok [of ?tx ?ls] True by blast
  then have same: "tc_algorithm tx = tc_algorithm ?tx" "tc_cidVector tx = tc_cidVector ?tx" "tc_paramL tx = tc_paramL ?tx"
    "tc_cidDupVector tx = tc_cidDupVector ?tx" by (auto simp: tc_RxSideAlgorithm_def Let_def split: if_splits)
  have "tc_cidVector ?tx ! unat (tc_splittingIndex ?tx) \<in> set (tc_cidVector ?tx)"
    using rx_side.pos_bound [of ?tx] True by simp
  then have "tc_choose ?ls (tc_cidVector ?tx ! unat (tc_splittingIndex ?tx)) \<in> vi_keys s"
    using assms by (auto simp: tc_choose_def vi_plain_def vi_tx_control_ok_def)
  then show ?thesis using True tx vi_chose_tx [OF same] by (auto simp: vi_delivery_def tc_GetDeliveryLinkCid_def)
next
  case False
  have "vi_chose s (s\<lparr>vi_txControl := vi_txControl s\<rparr>)" by simp
  moreover have "tc_GetDeliveryLinkCid (vi_linkState s) (vi_txControl s)
      = Inr (ls_defaultLinkCid (vi_linkState s), vi_txControl s)"
    using False assms by (cases "tc_algorithm (vi_txControl s)")
      (auto simp: tc_GetDeliveryLinkCid_def tc_RxSideAlgorithm_def vi_plain_def vi_tx_control_ok_def Let_def)
  ultimately show ?thesis using assms by (auto simp: vi_delivery_def vi_plain_def vi_tx_control_ok_def)
qed

lemma vi_find_cid_chose:
  assumes "vi_plain s" "tc_active (vi_txControl s)"
  shows "\<exists>found s'. vi_find_cid now n s = Inr (found, s') \<and> vi_chose s s' \<and> (\<forall>c. found = Some c \<longrightarrow> c \<in> vi_keys s)"
  using assms
proof (induction n arbitrary: s)
  case (Suc n)
  let ?tx = "vi_txControl s"
  let ?c = "tc_cidVector ?tx ! unat (tc_splittingIndex ?tx)"
  obtain tx where tx: "tc_GetNextCidFromTsu ?tx = Inr (?c, tx)" "tc_active tx"
    using next_cid.step_ok [OF Suc.prems(2)] by blast
  then have same: "tc_algorithm tx = tc_algorithm ?tx" "tc_cidVector tx = tc_cidVector ?tx" "tc_paramL tx = tc_paramL ?tx"
    "tc_cidDupVector tx = tc_cidDupVector ?tx" by (auto simp: tc_GetNextCidFromTsu_def split: if_splits)
  have "?c \<in> set (tc_cidVector ?tx)" using next_cid.pos_bound [OF Suc.prems(2)] by simp
  then have c: "?c \<in> vi_keys s" "?c \<noteq> 255" using Suc.prems(1) by (auto simp: vi_plain_def vi_tx_control_ok_def)
  let ?t = "s\<lparr>vi_txControl := tx\<rparr>"
  have t: "vi_chose s ?t" using vi_chose_tx [OF same] tx(2) by blast
  obtain low ls where l: "ls_IsLinkLowQueueingDelay now ?c (vi_linkState s) = (low, ls)" by fastforce
  let ?u = "?t\<lparr>vi_linkState := ls\<rparr>"
  have "ls_defaultLinkCid ls = ls_defaultLinkCid (vi_linkState s)" using ls_low_default l by (metis snd_conv)
  then have u: "vi_chose s ?u" using vi_chose_trans [OF t vi_chose_ls] by simp
  have step: "\<exists>found s'. vi_find_cid now n v = Inr (found, s') \<and> vi_chose s s' \<and> (\<forall>c. found = Some c \<longrightarrow> c \<in> vi_keys s)"
    if v: "vi_chose s v" "tc_active (vi_txControl v)" for v
    using Suc.IH [OF vi_chose_plain [OF v(1) Suc.prems(1)] v(2)] vi_chose_trans [OF v(1)] vi_chose_fields(2) [OF v(1)] by auto
  show ?case using tx(1) c l u step [OF t] step [OF u] tx(2) by (auto simp: Let_def)
qed simp

lemma vi_choose_link_chose:
  assumes "vi_plain s"
  shows "\<exists>c s'. vi_choose_link now s = Inr (c, s') \<and> vi_chose s s' \<and> c \<in> vi_keys s"
proof -
  let ?burst = "tc_paramL (vi_txControl s)"
  have def_key: "ls_defaultLinkCid (vi_linkState s) \<in> vi_keys s" using assms by (simp add: vi_plain_def vi_tx_control_ok_def)
  obtain n m t where t: "vi_count_up now s = (n, m, t)" by (cases "vi_count_up now s") auto
  have ct: "vi_chose s t" by (rule vi_count_up_chose [OF t])
  define u where "u = (if m = 0 then t\<lparr>vi_linkState := ls_StopLinkSkipping (vi_linkState t)\<rparr> else t)"
  have cu: "vi_chose s u" using ct vi_chose_trans [OF ct vi_chose_ls] by (simp add: u_def ls_StopLinkSkipping_def)
  show ?thesis
  proof (cases "?burst > 1 \<and> n \<noteq> 0")
    case True
    then have "\<not> ?burst \<le> 1" by auto
    then have act: "tc_active (vi_txControl s)" using assms by (auto simp: vi_plain_def vi_tx_control_ok_def)
    then have "tc_active (vi_txControl u)" using cu by (simp add: vi_chose_def)
    then obtain found v where v: "vi_find_cid now (unat ?burst) u = Inr (found, v)" "vi_chose u v"
      "\<forall>c. found = Some c \<longrightarrow> c \<in> vi_keys u" using vi_find_cid_chose vi_chose_plain [OF cu assms] by blast
    have cv: "vi_chose s v" by (rule vi_chose_trans [OF cu v(2)])
    have eq: "vi_choose_link now s = (case found of Some c \<Rightarrow> Inr (c, v) | None \<Rightarrow> vi_delivery v)"
      using True t v(1) by (auto simp: vi_choose_link_def Let_def u_def)
    show ?thesis
    proof (cases found)
      case None
      then show ?thesis using eq vi_delivery_chose [OF vi_chose_plain [OF cv assms]] vi_chose_trans [OF cv]
          vi_chose_fields(2) [OF cv] by auto
    next
      case (Some c)
      then show ?thesis using eq cv v(3) vi_chose_fields(2) [OF cu] by auto
    qed
  next
    case False
    then show ?thesis using vi_delivery_chose [OF assms] t ct def_key
      by (auto simp: vi_choose_link_def Let_def)
  qed
qed

section \<open>One packet\<close>

lemma gh_set_flag_keeps: "length (gh_flagsBits h) = 16 \<Longrightarrow> length (gh_flagsBits (gh_set_flag i h)) = 16"
  by (simp add: gh_set_flag_def)

lemma vi_data_header_fields:
  "gh_sequenceNumber (vi_data_header now c lsn f s) = vi_gmaTxSn s"
  "gh_connectionId (vi_data_header now c lsn f s) = c"
  "gh_GetFlags (vi_data_header now c lsn f s) \<noteq> 0" "gh_GetFlags (vi_data_header now c lsn f s) \<noteq> 256"
proof -
  let ?h = "vi_data_header now c lsn f s"
  note defs = vi_data_header_def gh_data_header_def GmaHeader_ctor_def gh_SetFlowId_def gh_SetConnectionId_def
    gh_SetLocalSequenceNumber_def gh_SetSequenceNumber_def gh_SetTimeStamp_def gh_set_flag_def
  show "gh_sequenceNumber ?h = vi_gmaTxSn s" "gh_connectionId ?h = c" by (simp_all add: defs)
  have "length (gh_flagsBits ?h) = 16" by (simp add: defs)
  then have "bit (gh_GetFlags ?h) 6" by (simp add: gh_GetFlags_bit) (simp add: defs)
  then show "gh_GetFlags ?h \<noteq> 0" "gh_GetFlags ?h \<noteq> 256" by (auto simp: bit_simps)
qed

lemma pa_send_data:
  assumes "gh_GetFlags (fst pkt) \<noteq> 256" "pa_simulateLinkDownTime phy \<le> 0" "pa_socket phy"
  shows "pa_SendPacket now raw pkt tos phy = Inr (False, [SendTo (pa_ipAddr phy) (pa_portNumber phy) tos pkt], phy)"
  using assms by (simp add: pa_SendPacket_def pa_down_def)

text \<open>What \<open>Transmit\<close> adds to the outputs for one packet.\<close>

definition vi_sent_one :: "u8 list \<Rightarrow> GmaVi \<Rightarrow> GmaVi \<Rightarrow> bool" where
  "vi_sent_one packet s s' \<longleftrightarrow> (\<exists>c h ip port tos. vi_out s' = vi_out s @ [Phy c (SendTo ip port tos (h, Payload packet))]
    \<and> gh_sequenceNumber h = vi_gmaTxSn s \<and> gh_connectionId h = c \<and> c \<in> vi_keys s
    \<and> gh_GetFlags h \<noteq> 0 \<and> gh_GetFlags h \<noteq> 256)"

lemma vi_Transmit_plain:
  assumes "vi_plain s"
  shows "\<exists>s'. vi_Transmit now udp packet s = Inr s' \<and> vi_plain s' \<and> vi_sent_one packet s s'
    \<and> vi_gmaTxSn s' = (vi_gmaTxSn s + 1) AND MAX_GMA_SN \<and> vi_keys s' = vi_keys s"
proof -
  let ?s0 = "s\<lparr>vi_numOfTxPacketsPerFlow := vi_numOfTxPacketsPerFlow s + 1,
      vi_TxBytesPerFlow := vi_TxBytesPerFlow s + of_nat (length packet)\<rparr>"
  have c0: "vi_chose s ?s0" by (simp add: vi_chose_def vi_data_view_def)
  obtain c t where t: "vi_choose_link now ?s0 = Inr (c, t)" "vi_chose ?s0 t" "c \<in> vi_keys s"
    using vi_choose_link_chose [OF vi_chose_plain [OF c0 assms], of now] by auto
  have ct: "vi_chose s t" by (rule vi_chose_trans [OF c0 t(2)])
  have pt: "vi_plain t" by (rule vi_chose_plain [OF ct assms])
  have links: "vi_links t = vi_links s" using vi_chose_fields(2) [OF ct] by simp
  obtain p where p: "sm_find c (vi_links t) = Some p"
    using t(3) unfolding links by (cases "sm_find c (vi_links s)") (auto simp: sm_find_def map_of_eq_None_iff)
  then have "(c, p) \<in> set (vi_links t)" by (simp add: sm_find_def map_of_SomeD)
  then have delay: "lp_emulateDelay p = 0" using pt by (auto simp: vi_plain_def vi_links_ok_def)
  obtain phy where phy: "sm_find c (vi_phy t) = Some phy" "pa_simulateLinkDownTime phy \<le> 0" "pa_socket phy"
    using pt t(3) unfolding links [symmetric] by (auto simp: vi_plain_def vi_links_ok_def)
  define tos where "tos = (if rc_enableQosFlowPrioritization (vi_rxControl t)
               then (if lp_qosMarking p > 0 then TOS_AC_VI else TOS_AC_BE) else vi_tos udp)"
  let ?h = "vi_data_header now c (lp_gmaTxLocalSn p) (vi_flow_id t) t"
  let ?pkt = "(?h, Payload packet)"
  let ?u = "t\<lparr>vi_phy := sm_set c phy (vi_phy t), vi_out := vi_out t @ [Phy c (SendTo (pa_ipAddr phy) (pa_portNumber phy) tos ?pkt)]\<rparr>"
  have send: "vi_tx_link now c (vi_flow_id t) tos packet t = Inr ?u"
    using p delay phy pa_send_data [of ?pkt phy] vi_data_header_fields(4)
    by (simp add: vi_tx_link_def vi_SendByCid_def vi_SendByCid_with_def vi_SendByCidNow_with_def)
  let ?s' = "vi_next_lsn c (vi_next_sn ?u)"
  have dup: "tc_cidDupVector (vi_txControl t) = []" using pt by (simp add: vi_plain_def vi_tx_control_ok_def)
  have "vi_Transmit now udp packet s = vi_transmit_over now udp packet c t"
  proof -
    have "vi_qos_links (vi_tx_qos_link now) s = Inr s" "\<not> vi_duplicateMode s"
      using assms unfolding vi_qos_links_def vi_plain_def by auto
    then show ?thesis using t(1) by (simp add: vi_Transmit_def Let_def)
  qed
  also have "\<dots> = Inr ?s'" using p send dup
    by (simp add: vi_transmit_over_def vi_next_lsn_def vi_next_sn_def tos_def [symmetric] Let_def)
  finally have run: "vi_Transmit now udp packet s = Inr ?s'" .
  have "map fst (vi_links ?s') = map fst (vi_links s)" by (auto simp: vi_next_lsn_def vi_next_sn_def links)
  then have keys: "vi_keys ?s' = vi_keys s" by (simp only: rq_fst_keys)
  have "vi_links_ok ?s'"
    using pt phy keys links unfolding vi_links_ok_def vi_plain_def
    by (auto simp: vi_next_lsn_def vi_next_sn_def)
  moreover have "vi_tx_control_ok ?s'" using pt keys links unfolding vi_tx_control_ok_def vi_plain_def
    by (simp add: vi_next_lsn_def vi_next_sn_def)
  ultimately have plain: "vi_plain ?s'" using pt by (simp add: vi_plain_def vi_next_lsn_def vi_next_sn_def)
  have "vi_sent_one packet s ?s'"
    using t(3) vi_data_header_fields [of now c "lp_gmaTxLocalSn p" "vi_flow_id t" t] vi_chose_fields(1,4) [OF ct]
    unfolding vi_sent_one_def
    by (intro exI [of _ c] exI [of _ ?h] exI [of _ "pa_ipAddr phy"] exI [of _ "pa_portNumber phy"] exI [of _ tos])
      (simp add: vi_next_lsn_def vi_next_sn_def)
  moreover have "vi_gmaTxSn ?s' = (vi_gmaTxSn s + 1) AND MAX_GMA_SN"
    using vi_chose_fields(1) [OF ct] by (simp add: vi_next_lsn_def vi_next_sn_def)
  ultimately show ?thesis using run plain keys by blast
qed

section \<open>A flow\<close>

definition vi_transmit_flow :: "(time \<times> bool \<times> u8 list) list \<Rightarrow> GmaVi \<Rightarrow> GmaVi result" where
  "vi_transmit_flow packets s = rfoldl (\<lambda>s (now, udp, packet). vi_Transmit now udp packet s) s packets"

fun vi_data_out :: "vi_out \<Rightarrow> (u8 list \<times> GmaHeader) list" where
  "vi_data_out (Phy c (SendTo ip port tos (h, Payload packet))) = [(packet, h)]"
| "vi_data_out _ = []"

text \<open>The data packets handed to the sockets, with their headers.\<close>

definition vi_data_sent :: "GmaVi \<Rightarrow> (u8 list \<times> GmaHeader) list" where
  "vi_data_sent s = concat (map vi_data_out (vi_out s))"

abbreviation vi_over :: "u8 \<Rightarrow> (u8 list \<times> GmaHeader) list \<Rightarrow> (u8 list \<times> GmaHeader) list" where
  "vi_over c xs \<equiv> filter (\<lambda>x. gh_connectionId (snd x) = c) xs"

lemma vi_transmit_flow_sent:
  assumes "vi_plain s" "unat (vi_gmaTxSn s) + length packets \<le> 2 ^ 23"
  shows "\<exists>s' D. vi_transmit_flow packets s = Inr s' \<and> vi_plain s' \<and> vi_data_sent s' = vi_data_sent s @ D
    \<and> map fst D = map (snd \<circ> snd) packets
    \<and> map (unat \<circ> fw_sn) D = [unat (vi_gmaTxSn s)..<unat (vi_gmaTxSn s) + length packets]
    \<and> (\<forall>x \<in> set D. gh_connectionId (snd x) \<in> vi_keys s) \<and> vi_keys s' = vi_keys s"
  using assms
proof (induction packets arbitrary: s)
  case (Cons x packets)
  obtain now udp packet where x: "x = (now, udp, packet)" by (cases x)
  obtain t where t: "vi_Transmit now udp packet s = Inr t" "vi_plain t" "vi_sent_one packet s t"
    "vi_gmaTxSn t = (vi_gmaTxSn s + 1) AND MAX_GMA_SN" "vi_keys t = vi_keys s"
    using vi_Transmit_plain [OF Cons.prems(1)] by blast
  have lt: "vi_gmaTxSn s < 0x800000" using Cons.prems(2) by (simp add: word_less_nat_alt)
  then have sn: "vi_gmaTxSn t = vi_gmaTxSn s + 1" using rq_next_sn t(4) by simp
  then have usn: "unat (vi_gmaTxSn t) = unat (vi_gmaTxSn s) + 1" using lt by (simp add: unat_word_ariths word_less_nat_alt)
  obtain h where h: "vi_data_sent t = vi_data_sent s @ [(packet, h)]" "gh_sequenceNumber h = vi_gmaTxSn s"
    "gh_connectionId h \<in> vi_keys s"
  proof -
    obtain c h ip port tos where "vi_out t = vi_out s @ [Phy c (SendTo ip port tos (h, Payload packet))]"
      "gh_sequenceNumber h = vi_gmaTxSn s" "gh_connectionId h = c" "c \<in> vi_keys s"
      using t(3) unfolding vi_sent_one_def by blast
    then show ?thesis by (intro that [of h]) (simp_all add: vi_data_sent_def)
  qed
  have "unat (vi_gmaTxSn t) + length packets \<le> 2 ^ 23" using Cons.prems(2) usn by simp
  then obtain s' D where s': "vi_transmit_flow packets t = Inr s'" "vi_plain s'" "vi_data_sent s' = vi_data_sent t @ D"
    "map fst D = map (snd \<circ> snd) packets"
    "map (unat \<circ> fw_sn) D = [unat (vi_gmaTxSn t)..<unat (vi_gmaTxSn t) + length packets]"
    "\<forall>x \<in> set D. gh_connectionId (snd x) \<in> vi_keys t" "vi_keys s' = vi_keys t"
    using Cons.IH [OF t(2)] by blast
  have "vi_transmit_flow (x # packets) s = Inr s'" using t(1) s'(1) x by (simp add: vi_transmit_flow_def)
  moreover have "map (unat \<circ> fw_sn) ((packet, h) # D) = [unat (vi_gmaTxSn s)..<unat (vi_gmaTxSn s) + length (x # packets)]"
    using s'(5) h(2) usn by (simp add: upt_conv_Cons del: upt_Suc)
  moreover have "vi_data_sent s' = vi_data_sent s @ (packet, h) # D" using s'(3) h(1) by simp
  moreover have "map fst ((packet, h) # D) = map (snd \<circ> snd) (x # packets)" using s'(4) x by simp
  moreover have "\<forall>y \<in> set ((packet, h) # D). gh_connectionId (snd y) \<in> vi_keys s" using s'(6) h(3) t(5) by simp
  moreover have "vi_keys s' = vi_keys s" using s'(7) t(5) by (rule trans)
  ultimately show ?case using s'(2) by blast
qed (simp add: vi_transmit_flow_def)

lemma sorted_wrt_keyed:
  "sorted_wrt (\<lambda>a b. f a = f b \<longrightarrow> R a b) xs \<longleftrightarrow> (\<forall>c. sorted_wrt R (filter (\<lambda>x. f x = c) xs))"
  by (induction xs) auto

lemma sorted_wrt_subseq: "subseq xs ys \<Longrightarrow> sorted_wrt R ys \<Longrightarrow> sorted_wrt R xs"
  by (induction rule: list_emb.induct) (auto dest: list_emb_set)

lemma subseq_mset: "subseq xs ys \<Longrightarrow> mset xs \<subseteq># mset ys"
  by (induction rule: list_emb.induct) (auto intro: subset_mset.order_trans)

lemma mset_keyed:
  assumes "\<forall>c. mset (filter (\<lambda>x. f x = c) xs) \<subseteq># mset (filter (\<lambda>x. f x = c) ys)"
  shows "mset xs \<subseteq># mset ys"
proof (rule mset_subset_eqI)
  fix a
  have "count (mset zs) a = count (mset (filter (\<lambda>x. f x = f a) zs)) a" for zs by (induction zs) auto
  then show "count (mset xs) a \<le> count (mset ys) a" using assms by (metis mset_subset_eq_count)
qed

text \<open>A part of a list with strictly increasing keys, in the order of the keys, is a subsequence.\<close>

lemma sorted_part_subseq:
  fixes key :: "'a \<Rightarrow> nat"
  assumes "mset xs \<subseteq># mset ys" "sorted_wrt (<) (map key ys)" "sorted (map key xs)"
  shows "subseq xs ys"
proof -
  have inj: "inj_on key (set ys)" and dist: "distinct ys"
    using assms(2) by (simp_all add: strict_sorted_iff distinct_map)
  have sub: "set xs \<subseteq> set ys" using set_mset_mono [OF assms(1)] by simp
  have "count (mset xs) a \<le> 1" for a
  proof -
    have "count (mset ys) a \<le> 1" using dist distinct_count_atmost_1 [of ys] by simp
    then show ?thesis using mset_subset_eq_count [OF assms(1), of a] by linarith
  qed
  moreover have "count (mset xs) a > 0 \<longleftrightarrow> a \<in> set xs" for a by (simp add: count_greater_zero_iff)
  ultimately have "distinct xs" unfolding distinct_count_atmost_1
    by (metis One_nat_def Suc_leI le_antisym neq0_conv)
  then have "sorted_wrt (<) (map key xs)" using assms(3) sub inj
    by (simp add: strict_sorted_iff distinct_map inj_on_subset)
  moreover have "sorted_wrt (<) (map key (filter (\<lambda>x. x \<in> set xs) ys))"
    using assms(2) sorted_wrt_filter by (auto simp: sorted_wrt_map)
  moreover have "set (map key xs) = set (map key (filter (\<lambda>x. x \<in> set xs) ys))" using sub by auto
  ultimately have "map key xs = map key (filter (\<lambda>x. x \<in> set xs) ys)" by (metis strict_sorted_equal)
  then have "xs = filter (\<lambda>x. x \<in> set xs) ys" by (rule map_inj_on) (use inj sub in \<open>auto intro: inj_on_subset\<close>)
  then show ?thesis by (metis subseq_filter_left)
qed

text \<open>C2: vi_transmit_flow and rq_run together. The sender is in its plain mode (\<open>vi_plain\<close>: no duplicates,
  no QoS tests, no emulated delay, links with a socket that are not taken down by the simulation) and
  starts with number 0; the receiver has all links of the sender, empty queues and no LSN reordering, and
  expects number 0. Then the packets of a flow of at most \<open>2 ^ 23\<close> packets are all sent, each once and with
  consecutive sequence numbers; whatever the links lose and however their packets interleave at the
  receiver, in a run of fewer than \<open>2 ^ 32\<close> events, as long as each link keeps its order and no packet that arrives while the reordering is
  switched off is before the expected one, the receiver never fails and hands on a subsequence of the
  packets of the flow, in the order they were sent and none twice.\<close>

theorem flow_delivered_in_order:
  assumes "vi_plain s" "vi_gmaTxSn s = 0" "vi_data_sent s = []" "length packets \<le> 2 ^ 23"
    and "rq_wf r" "rq_queued r = 0" "rq_forwarded r = []" "rq_gmaRxExpectedSn r = 0" "\<not> rq_useLsnReordering r"
    and "vi_keys s \<subseteq> set (map fst (rq_linkParamsMap r))" "length evs < 2 ^ 32"
    and "\<And>s' c. vi_transmit_flow packets s = Inr s' \<Longrightarrow> subseq (vi_over c (rq_arrivals evs)) (vi_over c (vi_data_sent s'))"
    and "rq_no_late evs r"
  shows "\<exists>s' r'. vi_transmit_flow packets s = Inr s' \<and> map fst (vi_data_sent s') = map (\<lambda>(now, udp, packet). packet) packets
    \<and> rq_run evs r = Inr r' \<and> subseq (rq_forwarded r') (vi_data_sent s')"
proof -
  have len: "unat (vi_gmaTxSn s) + length packets \<le> 2 ^ 23" using assms(2,4) by simp
  obtain s' D where s': "vi_transmit_flow packets s = Inr s'" "vi_data_sent s' = vi_data_sent s @ D"
    "map fst D = map (snd \<circ> snd) packets" "map (unat \<circ> fw_sn) D = [unat (vi_gmaTxSn s)..<unat (vi_gmaTxSn s) + length packets]"
    "\<forall>x \<in> set D. gh_connectionId (snd x) \<in> vi_keys s" using vi_transmit_flow_sent [OF assms(1) len] by (elim exE conjE)
  have sent: "vi_data_sent s' = D" using s'(2) assms(3) by simp
  have sn: "map (unat \<circ> fw_sn) D = [0..<length packets]" using s'(4) assms(2) by simp
  let ?A = "rq_arrivals evs"
  have sub: "subseq (vi_over c ?A) (vi_over c D)" for c using assms(12) [OF s'(1)] sent by simp
  have part: "mset ?A \<subseteq># mset D" by (rule mset_keyed [where f = "\<lambda>x. gh_connectionId (snd x)"]) (use sub subseq_mset in blast)
  have "sorted_wrt (\<lambda>a b. fw_sn a \<le> fw_sn b) D"
  proof -
    have "sorted (map (unat \<circ> fw_sn) D)" using sn by simp
    then show ?thesis by (simp only: sorted_wrt_map word_le_nat_alt comp_apply)
  qed
  then have "sorted_wrt (\<lambda>a b. fw_sn a \<le> fw_sn b) (vi_over c D)" for c by (rule sorted_wrt_filter)
  then have fifo: "rq_fifo ?A" unfolding rq_fifo_def sorted_wrt_keyed using sorted_wrt_subseq [OF sub] by blast
  have valid: "rq_valid (map fst (rq_linkParamsMap r)) x" if "x \<in> set ?A" for x
  proof -
    have x: "x \<in> set D" using that set_mset_mono [OF part] by auto
    then have "unat (fw_sn x) \<in> set (map (unat \<circ> fw_sn) D)" by simp
    then have "unat (fw_sn x) < length packets" unfolding sn by simp
    then show ?thesis using x s'(5) assms(4,10) by (auto simp: rq_valid_def word_less_nat_alt)
  qed
  obtain r' where r': "rq_run evs r = Inr r'" "sorted (map (\<lambda>(packet, h). gh_sequenceNumber h) (rq_forwarded r'))"
    "mset (rq_forwarded r') \<subseteq># mset ?A"
    using rq_run_forwards [OF assms(5-9) fifo assms(11) _ assms(13)] valid by blast
  have "sorted (map (unat \<circ> fw_sn) (rq_forwarded r'))"
    using r'(2) by (simp only: sorted_wrt_map word_le_nat_alt split_beta comp_apply)
  moreover have "sorted_wrt (<) (map (unat \<circ> fw_sn) D)" unfolding sn by simp
  ultimately have "subseq (rq_forwarded r') D"
    using sorted_part_subseq [OF subset_mset.order_trans [OF r'(3) part]] by blast
  moreover have "map fst D = map (\<lambda>(now, udp, packet). packet) packets" using s'(3) by (simp add: comp_def split_beta)
  ultimately show ?thesis using s'(1) r'(1) sent by blast
qed

text \<open>A sender with two links, made by the constructor and \<open>AddPhyLink\<close>.\<close>

definition ex_sender :: "GmaVi result" where
  "ex_sender = rbind (vi_AddPhyLink 0 True 1 0 1 (GmaVirtualInterface_new (ex_header 0 0) mx_example 7 1000))
    (vi_AddPhyLink 0 True 2 1 255)"

lemma ex_sender_ok:
  "\<exists>s. ex_sender = Inr s \<and> vi_plain s \<and> vi_gmaTxSn s = 0 \<and> vi_data_sent s = [] \<and> vi_keys s = {0, 1}
    \<and> vi_mxCtrSeqNumber s = 0 \<and> vi_txedCtrQueue s = []"
proof -
  let ?s = "GmaVirtualInterface_new (ex_header 0 0) mx_example 7 1000"
  let ?t = "vi_new_link 0 True 2 1 255 (vi_new_link 0 True 1 0 1 ?s)"
  note defs = vi_new_link_def GmaVirtualInterface_new_def vi_set_phy_def GmaReorder_new_def GmaRxControl_new_def
    GmaTxControl_new_def LinkState_new_def WIFI_CID_def ls_AddLinkCid_def ls_CtrlMsgDown_def ls_SetLinkDown_def
    ls_IsLinkUp_def LinkParams_new_def sm_simps
  have run: "ex_sender = Inr ?t"
    by (simp add: ex_sender_def vi_AddPhyLink_def defs Let_def sm_find_def)
  have links: "vi_links ?t = [(0, LinkParams_new), (1, LinkParams_new)]" by (simp add: defs Let_def)
  have phy: "vi_phy ?t = [(0, vi_new_phy 0 True 1 0 1), (1, vi_new_phy 0 True 2 1 255)]" by (simp add: defs Let_def)
  have "pa_simulateLinkDownTime (vi_new_phy 0 True a c i) = 0 \<and> pa_socket (vi_new_phy 0 True a c i)" for a c i
    by (simp add: vi_new_phy_def PhyAccessControl_new_def pa_SetApId_def pa_SetIp_def)
  then have "vi_links_ok ?t" unfolding vi_links_ok_def links phy by (simp add: LinkParams_new_def sm_find_def)
  moreover have "vi_tx_control_ok ?t" unfolding vi_tx_control_ok_def links by (simp add: defs Let_def)
  moreover have "\<not> vi_duplicateMode ?t" "\<not> vi_clientRoleEnabled ?t" "vi_gmaTxSn ?t = 0" "vi_data_sent ?t = []"
    by (simp_all add: defs vi_data_sent_def Let_def)
  moreover have "vi_keys ?t = {0, 1}" unfolding links by simp
  moreover have "vi_mxCtrSeqNumber ?t = 0" "vi_txedCtrQueue ?t = []" by (simp_all add: defs Let_def)
  ultimately show ?thesis using run unfolding vi_plain_def by blast
qed

text \<open>Three packets, of which the first is lost.\<close>

abbreviation ex_flow :: "(time \<times> bool \<times> u8 list) list" where
  "ex_flow \<equiv> [(1, True, [69, 1]), (2, False, [69, 2]), (3, True, [69, 3])]"

abbreviation ex_carried :: "(u8 list \<times> GmaHeader) list \<Rightarrow> rq_event list" where
  "ex_carried D \<equiv> map (\<lambda>(packet, h). Arrive (\<lambda>_. True) 5 packet h) (tl D)"

lemma ex_flow_no_late:
  assumes "ex_sender = Inr s" "vi_transmit_flow ex_flow s = Inr s'"
  shows "rq_no_late (ex_carried (vi_data_sent s')) (ex_receiver 0)"
proof -
  have "(case ex_sender of Inl e \<Rightarrow> False | Inr s \<Rightarrow> (case vi_transmit_flow ex_flow s of Inl e \<Rightarrow> False
    | Inr s' \<Rightarrow> rq_no_late (ex_carried (vi_data_sent s')) (ex_receiver 0)))" by code_simp
  then show ?thesis by (simp only: assms sum.case)
qed

lemma flow_delivered_in_order_witness:
  "\<exists>s s' r'. ex_sender = Inr s \<and> vi_transmit_flow ex_flow s = Inr s'
    \<and> rq_run (ex_carried (vi_data_sent s')) (ex_receiver 0) = Inr r'
    \<and> map fst (vi_data_sent s') = [[69, 1], [69, 2], [69, 3]] \<and> subseq (rq_forwarded r') (vi_data_sent s')"
proof -
  let ?flow = ex_flow
  let ?evs = ex_carried
  obtain s where s: "ex_sender = Inr s" "vi_plain s" "vi_gmaTxSn s = 0" "vi_data_sent s = []" "vi_keys s = {0, 1}"
    using ex_sender_ok by blast
  obtain s' D where D: "vi_transmit_flow ?flow s = Inr s'" "vi_data_sent s' = D" "map fst D = map (snd \<circ> snd) ?flow"
    using vi_transmit_flow_sent [OF s(2), of ?flow] s(3,4) by auto
  have "rq_arrival (case x of (packet, h) \<Rightarrow> Arrive up now packet h) = [x]" for x up now by (cases x) simp
  then have arr: "rq_arrivals (?evs D) = tl D"
    by (simp add: rq_arrivals_def comp_def)
  have "subseq (tl D) D" by (cases D) (auto intro: subseq_Cons')
  then have fifo: "subseq (vi_over c (tl D)) (vi_over c D)" for c by (rule subseq_filter)
  have keys: "vi_keys s \<subseteq> set (map fst (rq_linkParamsMap (ex_receiver 0)))" unfolding s(5) ex_receiver_ok(8) by simp
  have "length D = 3" using D(3) by (metis length_map list.size(3,4) One_nat_def Suc_1 add_2_eq_Suc' numeral_3_eq_3 add.commute plus_1_eq_Suc)
  then have evs: "length (?evs D) < 2 ^ 32" by simp
  have flow: "length ?flow \<le> 2 ^ 23" by simp
  have carried: "subseq (vi_over c (rq_arrivals (?evs D))) (vi_over c (vi_data_sent t))"
    if "vi_transmit_flow ?flow s = Inr t" for t c using that D(1,2) fifo arr by simp
  have late: "rq_no_late (?evs D) (ex_receiver 0)" using ex_flow_no_late [OF s(1) D(1)] D(2) by simp
  obtain r' where "map fst (vi_data_sent s') = map (\<lambda>(now, udp, packet). packet) ?flow"
    "rq_run (?evs D) (ex_receiver 0) = Inr r'" "subseq (rq_forwarded r') (vi_data_sent s')"
    using flow_delivered_in_order [OF s(2-4) flow ex_receiver_ok(1-5) keys evs carried late] D(1) by auto
  then show ?thesis using s(1) D(1,2) by auto
qed

end
