(* ===== verification/Retransmission.thy ===== *)
theory Retransmission
  imports End_To_End
begin

text \<open>The retransmission of a control message that is never acknowledged: five more transmissions with a new
  sequence number each, after waiting times that double, and then the end.

  The link state of the message matters only at the end, when its link is reported down.\<close>

section \<open>What a send changes\<close>

text \<open>Everything the retransmission looks at, apart from the outputs.\<close>

definition vi_ctrl_view where
  "vi_ctrl_view s = (vi_txedCtrQueue s, vi_mxCtrSeqNumber s, vi_maxRttMs s, vi_reorder s, vi_linkState s, vi_txControl s,
    vi_rxControl s, vi_duplicateMode s, vi_clientRoleEnabled s, vi_nodeId s, vi_enableMarkCtrlLinkMap s, vi_rawGma s,
    (\<lambda>c. sm_find c (vi_phy s)))"

definition vi_same :: "GmaVi \<Rightarrow> GmaVi \<Rightarrow> bool" where
  "vi_same s s' \<longleftrightarrow> vi_ctrl_view s' = vi_ctrl_view s"

lemma vi_same_refl [simp]: "vi_same s s"
  by (simp add: vi_same_def)

lemma vi_same_trans: "vi_same a b \<Longrightarrow> vi_same b c \<Longrightarrow> vi_same a c"
  by (simp add: vi_same_def)

lemma vi_same_fields:
  assumes "vi_same s s'"
  shows "vi_txedCtrQueue s' = vi_txedCtrQueue s" "vi_mxCtrSeqNumber s' = vi_mxCtrSeqNumber s" "vi_maxRttMs s' = vi_maxRttMs s"
    "vi_reorder s' = vi_reorder s" "vi_linkState s' = vi_linkState s" "vi_txControl s' = vi_txControl s"
    "vi_rxControl s' = vi_rxControl s" "vi_duplicateMode s' = vi_duplicateMode s"
    "vi_clientRoleEnabled s' = vi_clientRoleEnabled s" "sm_find c (vi_phy s') = sm_find c (vi_phy s)"
  using assms by (simp_all add: vi_same_def vi_ctrl_view_def fun_eq_iff)

lemma vi_same_rto: "vi_same s s' \<Longrightarrow> vi_rto s' = vi_rto s"
  by (simp add: vi_rto_def vi_same_fields(3))

lemma vi_same_plain: "vi_same s s' \<Longrightarrow> vi_plain s \<Longrightarrow> vi_plain s'"
  unfolding vi_plain_def vi_tx_control_ok_def vi_links_ok_def by (simp only: vi_same_fields) blast

lemma vi_new_gma_flags: "gh_GetFlags (vi_new_gma s) = 0"
proof -
  have "length (gh_flagsBits (vi_new_gma s)) = 16" "\<forall>i < 16. \<not> gh_flagsBits (vi_new_gma s) ! i"
    by (simp_all add: vi_new_gma_def GmaHeader_ctor_def)
  then show ?thesis by (intro bit_eqI) (auto simp: gh_GetFlags_bit)
qed

text \<open>What a control message and its packets depend on.\<close>

definition vi_wire where
  "vi_wire s = (vi_linkState s, vi_rawGma s, vi_enableMarkCtrlLinkMap s, map fst (vi_links s), (\<lambda>c. sm_find c (vi_phy s)))"

lemma vi_same_wire: "vi_same s s' \<Longrightarrow> vi_wire s' = vi_wire s"
  by (simp add: vi_same_def vi_ctrl_view_def vi_wire_def)

text \<open>The packet of a control message over a link, and the packets of a message: a TSU goes over each link
  its split uses, the other messages over the link they name.\<close>

definition vi_ctrl_out :: "GmaVi \<Rightarrow> MxControlHeader \<Rightarrow> u8 \<Rightarrow> vi_out list" where
  "vi_ctrl_out s h c = (case sm_find c (vi_phy s) of
      None \<Rightarrow> []
    | Some phy \<Rightarrow> [Phy c (SendTo (pa_ipAddr phy) (pa_portNumber phy) TOS_AC_BE (vi_ctrl_packet h s))])"

definition vi_tsu_out :: "GmaVi \<Rightarrow> MxControlHeader \<Rightarrow> u8 \<times> u8 \<Rightarrow> vi_out list" where
  "vi_tsu_out s h = (\<lambda>(c, k). if k \<noteq> 0 then vi_ctrl_out s (mx_SetConnectionId c (vi_mark_link_status s h)) c else [])"

definition vi_msg_out :: "GmaVi \<Rightarrow> MxControlHeader \<Rightarrow> vi_out list" where
  "vi_msg_out s h =
    (if mx_type h = 5 then concat (map (vi_tsu_out s h) (zip (map fst (vi_links s)) (mx_kVector h)))
     else vi_ctrl_out s h (mx_connectionId h))"

lemma vi_wire_out:
  assumes "vi_wire s' = vi_wire s"
  shows "vi_ctrl_out s' h c = vi_ctrl_out s h c" "vi_tsu_out s' h = vi_tsu_out s h" "vi_msg_out s' h = vi_msg_out s h"
proof -
  have f: "vi_linkState s' = vi_linkState s" "vi_rawGma s' = vi_rawGma s" "vi_enableMarkCtrlLinkMap s' = vi_enableMarkCtrlLinkMap s"
    "map fst (vi_links s') = map fst (vi_links s)" "\<And>c. sm_find c (vi_phy s') = sm_find c (vi_phy s)"
    using assms by (simp_all add: vi_wire_def fun_eq_iff)
  have out: "vi_ctrl_out s' h c = vi_ctrl_out s h c" for h c by (simp only: vi_ctrl_out_def vi_ctrl_packet_def vi_new_gma_def f)
  have tsu: "vi_tsu_out s' h = vi_tsu_out s h" by (simp only: vi_tsu_out_def out vi_mark_link_status_def f)
  show "vi_ctrl_out s' h c = vi_ctrl_out s h c" by (rule out)
  show "vi_tsu_out s' h = vi_tsu_out s h" by (rule tsu)
  show "vi_msg_out s' h = vi_msg_out s h" by (simp only: vi_msg_out_def out tsu f)
qed

lemma vi_send_ctrl_packet:
  assumes "vi_plain s" "c \<in> vi_keys s"
  shows "\<exists>s'. vi_SendByCid now c (vi_ctrl_packet h s) TOS_AC_BE s = Inr s' \<and> vi_same s s' \<and> vi_out s' = vi_out s @ vi_ctrl_out s h c
    \<and> vi_ctrl_out s h c \<noteq> []"
proof -
  obtain p where p: "sm_find c (vi_links s) = Some p"
    using assms(2) by (cases "sm_find c (vi_links s)") (auto simp: sm_find_def map_of_eq_None_iff)
  then have "(c, p) \<in> set (vi_links s)" by (simp add: sm_find_def map_of_SomeD)
  then have delay: "lp_emulateDelay p = 0" using assms(1) by (auto simp: vi_plain_def vi_links_ok_def)
  obtain phy where phy: "sm_find c (vi_phy s) = Some phy" "pa_simulateLinkDownTime phy \<le> 0" "pa_socket phy"
    using assms by (auto simp: vi_plain_def vi_links_ok_def)
  let ?x = "Phy c (SendTo (pa_ipAddr phy) (pa_portNumber phy) TOS_AC_BE (vi_ctrl_packet h s))"
  let ?s' = "s\<lparr>vi_phy := sm_set c phy (vi_phy s), vi_out := vi_out s @ [?x]\<rparr>"
  have "gh_GetFlags (fst (vi_ctrl_packet h s)) \<noteq> 256" by (simp add: vi_ctrl_packet_def vi_new_gma_flags)
  then have "vi_SendByCid now c (vi_ctrl_packet h s) TOS_AC_BE s = Inr ?s'"
    using p delay phy pa_send_data [of "vi_ctrl_packet h s" phy]
    by (simp add: vi_SendByCid_def vi_SendByCid_with_def vi_SendByCidNow_with_def)
  moreover have "vi_same s ?s'" using phy(1) by (simp add: vi_same_def vi_ctrl_view_def fun_eq_iff)
  moreover have "vi_ctrl_out s h c = [?x]" using phy(1) by (simp add: vi_ctrl_out_def)
  ultimately show ?thesis by (intro exI [of _ ?s']) simp
qed

section \<open>Sending a message\<close>

text \<open>A message the sender can form: a TSU has one number per link, and one of them is not zero; the other
  messages go over a link that exists.\<close>

definition vi_sendable :: "MxControlHeader \<Rightarrow> GmaVi \<Rightarrow> bool" where
  "vi_sendable h s \<longleftrightarrow> mx_type h \<noteq> 1 \<and> (if mx_type h = 5 then length (mx_kVector h) = length (vi_links s)
      \<and> 0 < foldl (\<lambda>sum k. sum + ucast k) (0 :: u16) (mx_kVector h)
    else mx_connectionId h \<in> vi_keys s)"

lemma mx_set_keeps_sn [simp]: "mx_sequenceNumber (mx_SetConnectionId c h) = mx_sequenceNumber h"
  "mx_sequenceNumber (mx_SetLinkStatus x h) = mx_sequenceNumber h" "mx_sequenceNumber (mx_SetSequenceNumber n h) = n"
  "mx_type (mx_SetSequenceNumber n h) = mx_type h" "mx_kVector (mx_SetSequenceNumber n h) = mx_kVector h"
  "mx_connectionId (mx_SetSequenceNumber n h) = mx_connectionId h"
  by (simp_all add: mx_SetConnectionId_def mx_SetLinkStatus_def mx_SetSequenceNumber_def)

lemma vi_send_tsu_link_ok:
  assumes "vi_plain s" "c \<in> vi_keys s"
  shows "\<exists>s'. vi_send_tsu_link vi_SendByCid now h s (c, k) = Inr s' \<and> vi_same s s' \<and> vi_out s' = vi_out s @ vi_tsu_out s h (c, k)
    \<and> (k \<noteq> 0 \<longrightarrow> vi_tsu_out s h (c, k) \<noteq> [])"
proof (cases "k = 0")
  case False
  let ?h = "mx_SetConnectionId c (vi_mark_link_status s h)"
  obtain s' where s': "vi_SendByCid now c (vi_ctrl_packet ?h s) TOS_AC_BE s = Inr s'" "vi_same s s'"
    "vi_out s' = vi_out s @ vi_ctrl_out s ?h c" "vi_ctrl_out s ?h c \<noteq> []" using vi_send_ctrl_packet [OF assms] by blast
  have "vi_same s (s'\<lparr>vi_discardBackupLinkPackets := b\<rparr>)" for b using s'(2) by (simp add: vi_same_def vi_ctrl_view_def)
  then show ?thesis using False s' by (auto simp: vi_send_tsu_link_def vi_tsu_out_def)
qed (simp add: vi_send_tsu_link_def vi_tsu_out_def)

lemma vi_send_tsu_ok:
  assumes "vi_plain s" "set (map fst cs) \<subseteq> vi_keys s"
  shows "\<exists>s'. rfoldl (vi_send_tsu_link vi_SendByCid now h) s cs = Inr s' \<and> vi_same s s'
    \<and> vi_out s' = vi_out s @ concat (map (vi_tsu_out s h) cs)
    \<and> ((\<exists>k \<in> set (map snd cs). k \<noteq> 0) \<longrightarrow> concat (map (vi_tsu_out s h) cs) \<noteq> [])"
  using assms
proof (induction cs arbitrary: s)
  case (Cons ck cs)
  obtain c k where ck: "ck = (c, k)" by (cases ck)
  have key: "c \<in> vi_keys s" using Cons.prems(2) ck by auto
  obtain t where t: "vi_send_tsu_link vi_SendByCid now h s (c, k) = Inr t" "vi_same s t" "vi_out t = vi_out s @ vi_tsu_out s h (c, k)"
    "k \<noteq> 0 \<longrightarrow> vi_tsu_out s h (c, k) \<noteq> []"
    using vi_send_tsu_link_ok [OF Cons.prems(1) key, of now h k] by blast
  have "set (map fst cs) \<subseteq> vi_keys t" using Cons.prems(2) by (simp add: vi_same_fields(4) [OF t(2)])
  then obtain s' where s': "rfoldl (vi_send_tsu_link vi_SendByCid now h) t cs = Inr s'" "vi_same t s'"
    "vi_out s' = vi_out t @ concat (map (vi_tsu_out s h) cs)"
    "(\<exists>k \<in> set (map snd cs). k \<noteq> 0) \<longrightarrow> concat (map (vi_tsu_out s h) cs) \<noteq> []"
    using Cons.IH [OF vi_same_plain [OF t(2) Cons.prems(1)]] unfolding vi_wire_out(2) [OF vi_same_wire [OF t(2)]] by blast
  have "vi_same s s'" by (rule vi_same_trans [OF t(2) s'(2)])
  then show ?case using t(1,3,4) s'(1,3,4) ck by (intro exI [of _ s']) auto
qed simp

lemma u16_sum_nonzero:
  "foldl (\<lambda>sum k. sum + ucast k) (0 :: u16) (ks :: u8 list) \<noteq> 0 \<Longrightarrow> \<exists>k \<in> set ks. k \<noteq> 0"
proof (rule ccontr)
  assume "foldl (\<lambda>sum k. sum + ucast k) (0 :: u16) ks \<noteq> 0" and "\<not> (\<exists>k \<in> set ks. k \<noteq> 0)"
  moreover have "\<forall>k \<in> set ks. k = 0 \<Longrightarrow> foldl (\<lambda>sum k. sum + ucast k) (0 :: u16) ks = 0" by (induction ks) auto
  ultimately show False by blast
qed

lemma vi_send_ctrl_ok:
  assumes "vi_plain s" "vi_sendable h s"
  shows "\<exists>s'. vi_send_ctrl vi_SendByCid now h s = Inr s' \<and> vi_same s s' \<and> vi_out s' = vi_out s @ vi_msg_out s h"
    and "vi_msg_out s h \<noteq> []"
proof -
  have "\<exists>s'. vi_send_ctrl vi_SendByCid now h s = Inr s' \<and> vi_same s s' \<and> vi_out s' = vi_out s @ vi_msg_out s h
    \<and> vi_msg_out s h \<noteq> []"
  proof (cases "mx_type h = 5")
    case True
    let ?cs = "zip (map fst (vi_links s)) (mx_kVector h)"
    have len: "length (mx_kVector h) = length (vi_links s)" and sum: "0 < foldl (\<lambda>sum k. sum + ucast k) (0 :: u16) (mx_kVector h)"
      using assms(2) True by (simp_all add: vi_sendable_def)
    have cs: "map fst ?cs = map fst (vi_links s)" "map snd ?cs = mx_kVector h" using len by simp_all
    then have keys: "set (map fst ?cs) \<subseteq> vi_keys s" by (metis set_map order_refl)
    have "\<exists>k \<in> set (map snd ?cs). k \<noteq> 0" unfolding cs using u16_sum_nonzero sum by (metis less_irrefl)
    then obtain s' where s': "rfoldl (vi_send_tsu_link vi_SendByCid now h) s ?cs = Inr s'" "vi_same s s'"
      "vi_out s' = vi_out s @ concat (map (vi_tsu_out s h) ?cs)" "concat (map (vi_tsu_out s h) ?cs) \<noteq> []"
      using vi_send_tsu_ok [OF assms(1) keys, of now h] by blast
    moreover have "vi_send_ctrl vi_SendByCid now h s = rfoldl (vi_send_tsu_link vi_SendByCid now h) s ?cs"
      using len sum True by (simp add: vi_send_ctrl_def)
    moreover have "vi_msg_out s h = concat (map (vi_tsu_out s h) ?cs)" using True by (simp add: vi_msg_out_def)
    ultimately show ?thesis by metis
  next
    case False
    then have c: "mx_type h \<noteq> 1" "mx_connectionId h \<in> vi_keys s" using assms(2) by (simp_all add: vi_sendable_def)
    then have "sm_find (mx_connectionId h) (vi_links s) \<noteq> None" by (auto simp: sm_find_def map_of_eq_None_iff)
    then show ?thesis using False c(1) vi_send_ctrl_packet [OF assms(1) c(2), of now h] by (simp add: vi_send_ctrl_def vi_msg_out_def)
  qed
  then show "\<exists>s'. vi_send_ctrl vi_SendByCid now h s = Inr s' \<and> vi_same s s' \<and> vi_out s' = vi_out s @ vi_msg_out s h"
    and "vi_msg_out s h \<noteq> []" by blast+
qed

section \<open>One expiry\<close>

lemma sm_length_set: "sm_find k m = None \<Longrightarrow> length (sm_set k v m) = length m + 1"
  by (induction m) (auto simp: sm_find_def split: if_splits)

lemma sm_set_fresh: "sm_find k m = None \<Longrightarrow> set (sm_set k v m) = insert (k, v) (set m)"
  by (induction m) (auto simp: sm_find_def split: if_splits)

lemma vi_sendable_same: "vi_same s s' \<Longrightarrow> vi_sendable h s' = vi_sendable h s"
  unfolding vi_sendable_def by (simp only: vi_same_fields)

text \<open>An item of the queue after one more transmission.\<close>

definition vi_again :: "u16 \<Rightarrow> time \<Rightarrow> TexedCtrQueueItem \<Rightarrow> TexedCtrQueueItem" where
  "vi_again csn now item = \<lparr>tq_mxControlHeader = mx_SetSequenceNumber csn (tq_mxControlHeader item),
    tq_csnToTxtimeMap = sm_set csn now (tq_csnToTxtimeMap item)\<rparr>"

definition vi_next_expiry :: "GmaVi \<Rightarrow> time" where
  "vi_next_expiry s = (case last (vi_out s) of ScheduleRetxCtrlMsgExpires t csn \<Rightarrow> t | _ \<Rightarrow> 0)"

lemma vi_retx_step:
  assumes "vi_plain s" "sm_find csn (vi_txedCtrQueue s) = Some item" "vi_sendable (tq_mxControlHeader item) s"
    and "mx_type (tq_mxControlHeader item) \<notin> {8, 9}" "length (tq_csnToTxtimeMap item) \<le> 5"
    and "sm_find (vi_mxCtrSeqNumber s) (tq_csnToTxtimeMap item) = None"
  shows "\<exists>s'. vi_RetxCtrlMsgExpires now csn s = Inr s' \<and> vi_plain s' \<and> vi_links s' = vi_links s
    \<and> sm_find csn (vi_txedCtrQueue s') = Some (vi_again (vi_mxCtrSeqNumber s) now item)
    \<and> vi_mxCtrSeqNumber s' = vi_mxCtrSeqNumber s + 1 \<and> vi_rto s' = vi_rto s \<and> vi_wire s' = vi_wire s
    \<and> vi_out s' = vi_out s @ vi_msg_out s (mx_SetSequenceNumber (vi_mxCtrSeqNumber s) (tq_mxControlHeader item))
        @ [ScheduleRetxCtrlMsgExpires (now + vi_rto s * 2 ^ length (tq_csnToTxtimeMap item)) csn]"
proof -
  let ?c = "vi_mxCtrSeqNumber s" and ?h = "mx_SetSequenceNumber (vi_mxCtrSeqNumber s) (tq_mxControlHeader item)"
  let ?again = "vi_again ?c now item"
  let ?t = "s\<lparr>vi_mxCtrSeqNumber := ?c + 1, vi_txedCtrQueue := sm_set csn ?again (vi_txedCtrQueue s)\<rparr>"
  have pt: "vi_plain ?t" using assms(1) by (simp add: vi_plain_def vi_tx_control_ok_def vi_links_ok_def)
  have st: "vi_sendable ?h ?t" using assms(3) by (simp add: vi_sendable_def)
  obtain u where u: "vi_send_ctrl vi_SendByCid now ?h ?t = Inr u" "vi_same ?t u" "vi_out u = vi_out s @ vi_msg_out ?t ?h"
    using vi_send_ctrl_ok(1) [OF pt st] by auto
  have wt: "vi_wire ?t = vi_wire s" by (simp add: vi_wire_def)
  let ?x = "ScheduleRetxCtrlMsgExpires (now + vi_rto s * 2 ^ length (tq_csnToTxtimeMap item)) csn"
  let ?s' = "u\<lparr>vi_ctrRto := vi_rto s, vi_out := vi_out u @ [?x]\<rparr>"
  have q: "sm_find csn (vi_txedCtrQueue u) = Some ?again" by (simp add: vi_same_fields(1) [OF u(2)])
  have rto: "vi_rto u = vi_rto s" by (simp add: vi_same_rto [OF u(2)]) (simp add: vi_rto_def)
  have len: "length (tq_csnToTxtimeMap ?again) = length (tq_csnToTxtimeMap item) + 1"
    using assms(6) by (simp add: vi_again_def sm_length_set)
  have type: "mx_type (tq_mxControlHeader item) \<noteq> 1" using assms(3) by (simp add: vi_sendable_def)
  have few: "\<not> length (tq_csnToTxtimeMap item) > unat MAX_RETX_ATTEMPT" using assms(5) by (simp add: MAX_RETX_ATTEMPT_def)
  have msg: "vi_SendCtrlMsg vi_SendByCid now ?h True ?t = Inr u" using u(1) by (simp add: vi_SendCtrlMsg_def)
  have "vi_RetxCtrlMsgExpires now csn s = Inr ?s'"
    using assms(2,4) type few msg q rto len
    by (simp add: vi_RetxCtrlMsgExpires_def vi_next_csn_def vi_again_def [symmetric] Let_def)
  moreover have "vi_plain ?s'" using vi_same_plain [OF u(2) pt] by (simp add: vi_plain_def vi_tx_control_ok_def vi_links_ok_def)
  moreover have "vi_rto ?s' = vi_rto s" using vi_same_fields(3) [OF u(2)] by (simp add: vi_rto_def)
  moreover have "vi_wire ?s' = vi_wire s" using vi_same_wire [OF u(2)] wt by (simp add: vi_wire_def)
  ultimately show ?thesis using q vi_same_fields(2,4) [OF u(2)] u(3) vi_wire_out(3) [OF wt] by (intro exI [of _ ?s']) simp
qed

section \<open>All expiries\<close>

text \<open>Some rounds of expiries, each at the time the one before it asked for, with nothing in between.\<close>

fun vi_retx_rounds :: "nat \<Rightarrow> u16 \<Rightarrow> GmaVi \<Rightarrow> GmaVi result" where
  "vi_retx_rounds 0 csn s = Inr s"
| "vi_retx_rounds (Suc n) csn s =
    rbind (vi_RetxCtrlMsgExpires (vi_next_expiry s) csn s) (\<lambda>s. vi_retx_rounds n csn s)"

text \<open>The outputs of one transmission: the packets of the message with its new sequence number, and the timer.\<close>

definition vi_round :: "time \<Rightarrow> MxControlHeader \<Rightarrow> GmaVi \<Rightarrow> nat \<Rightarrow> vi_out list" where
  "vi_round t0 h s j = vi_msg_out s (mx_SetSequenceNumber (mx_sequenceNumber h + of_nat j) h)
    @ [ScheduleRetxCtrlMsgExpires (t0 + vi_rto s * (2 ^ (j + 1) - 1)) (mx_sequenceNumber h)]"

text \<open>After \<open>k\<close> retransmissions: the transmissions were at \<open>t0 + rto * (2 ^ j - 1)\<close>, with consecutive numbers.\<close>

definition vi_retx_inv :: "time \<Rightarrow> MxControlHeader \<Rightarrow> GmaVi \<Rightarrow> nat \<Rightarrow> GmaVi \<Rightarrow> TexedCtrQueueItem \<Rightarrow> bool" where
  "vi_retx_inv t0 h s0 k s item \<longleftrightarrow> vi_plain s \<and> sm_find (mx_sequenceNumber h) (vi_txedCtrQueue s) = Some item
    \<and> vi_links s = vi_links s0 \<and> vi_rto s = vi_rto s0 \<and> vi_wire s = vi_wire s0
    \<and> (\<exists>n. tq_mxControlHeader item = mx_SetSequenceNumber n h)
    \<and> length (tq_csnToTxtimeMap item) = k + 1
    \<and> snd ` set (tq_csnToTxtimeMap item) = (\<lambda>j. t0 + vi_rto s0 * (2 ^ j - 1)) ` {..k}
    \<and> fst ` set (tq_csnToTxtimeMap item) = (\<lambda>j. mx_sequenceNumber h + of_nat j) ` {..k}
    \<and> vi_mxCtrSeqNumber s = mx_sequenceNumber h + of_nat (k + 1)
    \<and> vi_out s = vi_out s0 @ concat (map (vi_round t0 h s0) [0..<k + 1])
    \<and> vi_next_expiry s = t0 + vi_rto s0 * (2 ^ (k + 1) - 1)"

lemma vi_retx_inv_step:
  assumes "vi_retx_inv t0 h s0 k s item" "vi_sendable h s0" "mx_type h \<notin> {8, 9}" "k \<le> 4"
  shows "\<exists>s'. vi_RetxCtrlMsgExpires (vi_next_expiry s) (mx_sequenceNumber h) s = Inr s'
    \<and> vi_retx_inv t0 h s0 (k + 1) s' (vi_again (vi_mxCtrSeqNumber s) (vi_next_expiry s) item)"
proof -
  note inv = assms(1) [unfolded vi_retx_inv_def]
  let ?now = "vi_next_expiry s" and ?c = "vi_mxCtrSeqNumber s" and ?m = "tq_csnToTxtimeMap item" and ?csn = "mx_sequenceNumber h"
  have c: "?c = ?csn + of_nat (k + 1)" using inv by blast
  have fresh: "sm_find ?c ?m = None"
  proof (rule ccontr)
    assume "sm_find ?c ?m \<noteq> None"
    then have "?c \<in> fst ` set ?m" unfolding sm_find_def map_of_eq_None_iff by blast
    then obtain j where j: "j \<le> k" "?csn + of_nat (k + 1) = ?csn + of_nat j" using inv by auto
    then have "unat (of_nat (k + 1) :: u16) = unat (of_nat j :: u16)" by simp
    then show False using j(1) assms(4) by (simp add: unat_of_nat del: of_nat_Suc of_nat_add)
  qed
  obtain n where n: "tq_mxControlHeader item = mx_SetSequenceNumber n h" using inv by blast
  have send: "vi_sendable (tq_mxControlHeader item) s" using assms(2) inv n by (simp add: vi_sendable_def)
  have plain: "vi_plain s" "sm_find ?csn (vi_txedCtrQueue s) = Some item" using inv by blast+
  have type: "mx_type (tq_mxControlHeader item) \<notin> {8, 9}" using n assms(3) by simp
  have few: "length ?m \<le> 5" using inv assms(4) by simp
  have again: "mx_SetSequenceNumber ?c (tq_mxControlHeader item) = mx_SetSequenceNumber ?c h"
    unfolding n by (simp add: mx_SetSequenceNumber_def)
  obtain s' where s': "vi_RetxCtrlMsgExpires ?now ?csn s = Inr s'" "vi_plain s'" "vi_links s' = vi_links s"
    "sm_find ?csn (vi_txedCtrQueue s') = Some (vi_again ?c ?now item)" "vi_mxCtrSeqNumber s' = ?c + 1" "vi_rto s' = vi_rto s"
    "vi_wire s' = vi_wire s" "vi_out s' = vi_out s @ vi_msg_out s (mx_SetSequenceNumber ?c h)
      @ [ScheduleRetxCtrlMsgExpires (?now + vi_rto s * 2 ^ length ?m) ?csn]"
    using vi_retx_step [OF plain send type few fresh, of ?now] unfolding again by blast
  let ?m' = "tq_csnToTxtimeMap (vi_again ?c ?now item)"
  have set: "set ?m' = insert (?c, ?now) (set ?m)" using sm_set_fresh [OF fresh] by (simp add: vi_again_def)
  have len: "length ?m' = k + 2" using inv fresh by (simp add: vi_again_def sm_length_set)
  have more: "{..k + 1} = insert (k + 1) {..k}" by auto
  have times: "snd ` set ?m' = (\<lambda>j. t0 + vi_rto s0 * (2 ^ j - 1)) ` {..k + 1}" using inv set more by simp
  have keys: "fst ` set ?m' = (\<lambda>j. ?csn + of_nat j) ` {..k + 1}" using inv set more c by simp
  have t: "?now + vi_rto s * 2 ^ length ?m = t0 + vi_rto s0 * (2 ^ (k + 2) - 1)" using inv by (simp add: algebra_simps)
  have "vi_msg_out s (mx_SetSequenceNumber ?c h) = vi_msg_out s0 (mx_SetSequenceNumber ?c h)"
    using inv by (intro vi_wire_out) blast
  then have "vi_out s' = vi_out s @ vi_round t0 h s0 (k + 1)" unfolding s'(8) t vi_round_def c by simp
  then have out: "vi_out s' = vi_out s0 @ concat (map (vi_round t0 h s0) [0..<k + 1 + 1])" using inv by simp
  have next_t: "vi_next_expiry s' = t0 + vi_rto s0 * (2 ^ (k + 1 + 1) - 1)" using t by (simp add: vi_next_expiry_def s'(8))
  have "\<exists>n. tq_mxControlHeader (vi_again ?c ?now item) = mx_SetSequenceNumber n h"
    using again by (intro exI [of _ ?c]) (simp add: vi_again_def)
  moreover have "vi_mxCtrSeqNumber s' = ?csn + of_nat (k + 1 + 1)" unfolding s'(5) c by simp
  ultimately have "vi_retx_inv t0 h s0 (k + 1) s' (vi_again ?c ?now item)"
    unfolding vi_retx_inv_def using s'(2-4,6,7) inv len times keys out next_t by simp
  then show ?thesis using s'(1) by blast
qed

lemma vi_retx_inv_rounds:
  assumes "vi_retx_inv t0 h s0 k s item" "vi_sendable h s0" "mx_type h \<notin> {8, 9}" "k + n \<le> 5"
  shows "\<exists>s' item'. vi_retx_rounds n (mx_sequenceNumber h) s = Inr s' \<and> vi_retx_inv t0 h s0 (k + n) s' item'"
  using assms(1,4)
proof (induction n arbitrary: k s item)
  case (Suc n)
  obtain s' where s': "vi_RetxCtrlMsgExpires (vi_next_expiry s) (mx_sequenceNumber h) s = Inr s'"
    "vi_retx_inv t0 h s0 (k + 1) s' (vi_again (vi_mxCtrSeqNumber s) (vi_next_expiry s) item)"
    using vi_retx_inv_step [OF Suc.prems(1) assms(2,3)] Suc.prems(2) by auto
  then show ?case using Suc.IH [OF s'(2)] Suc.prems(2) by simp
qed auto

section \<open>A message that is never acknowledged\<close>

lemma vi_SendCtrlMsg_inv:
  assumes "vi_plain s" "vi_sendable h s" "mx_sequenceNumber h + 1 = vi_mxCtrSeqNumber s"
    and "sm_find (mx_sequenceNumber h) (vi_txedCtrQueue s) = None"
  shows "\<exists>s' item. vi_SendCtrlMsg vi_SendByCid t0 h False s = Inr s' \<and> vi_retx_inv t0 h s 0 s' item"
proof -
  let ?csn = "mx_sequenceNumber h"
  obtain u where u: "vi_send_ctrl vi_SendByCid t0 h s = Inr u" "vi_same s u" "vi_out u = vi_out s @ vi_msg_out s h"
    using vi_send_ctrl_ok(1) [OF assms(1,2)] by blast
  let ?item = "\<lparr>tq_mxControlHeader = h, tq_csnToTxtimeMap = sm_set ?csn t0 []\<rparr>"
  let ?s' = "u\<lparr>vi_txedCtrQueue := sm_set ?csn ?item (vi_txedCtrQueue u), vi_ctrRto := vi_rto s,
    vi_out := vi_out u @ [ScheduleRetxCtrlMsgExpires (t0 + vi_rto s) ?csn]\<rparr>"
  note same = vi_same_fields [OF u(2)]
  have rto: "vi_rto (u\<lparr>vi_txedCtrQueue := q\<rparr>) = vi_rto s" for q using same(3) by (simp add: vi_rto_def)
  have run: "vi_SendCtrlMsg vi_SendByCid t0 h False s = Inr ?s'"
    using u(1) assms(4) same(1) rto by (simp add: vi_SendCtrlMsg_def Let_def)
  have "vi_plain ?s'"
    using vi_same_plain [OF u(2) assms(1)] by (simp add: vi_plain_def vi_tx_control_ok_def vi_links_ok_def)
  moreover have "vi_rto ?s' = vi_rto s" using same(3) by (simp add: vi_rto_def)
  moreover have first: "mx_SetSequenceNumber ?csn h = h" by (simp add: mx_SetSequenceNumber_def)
  moreover have "vi_wire ?s' = vi_wire s" using vi_same_wire [OF u(2)] by (simp add: vi_wire_def)
  moreover have "vi_out ?s' = vi_out s @ concat (map (vi_round t0 h s) [0..<0 + 1])" using u(3) first by (simp add: vi_round_def)
  moreover have "vi_mxCtrSeqNumber ?s' = ?csn + of_nat (0 + 1)" using assms(3) same(2) by simp
  moreover have "vi_links ?s' = vi_links s" using same(4) by simp
  moreover have "\<exists>n. h = mx_SetSequenceNumber n h" using first by metis
  moreover have "vi_next_expiry ?s' = t0 + vi_rto s * (2 ^ (0 + 1) - 1)" by (simp add: vi_next_expiry_def)
  ultimately have "vi_retx_inv t0 h s 0 ?s' ?item" unfolding vi_retx_inv_def by simp
  then show ?thesis using run by blast
qed

lemma vi_last_expiry:
  assumes "sm_find csn (vi_txedCtrQueue s) = Some item" "5 < length (tq_csnToTxtimeMap item)"
  shows "vi_RetxCtrlMsgExpires now csn s = Inr s' \<Longrightarrow> sm_find csn (vi_txedCtrQueue s') = None"
    and "vi_plain s \<Longrightarrow> \<not> fst (ls_CtrlMsgDown (mx_connectionId (tq_mxControlHeader item)) (vi_linkState s))
      \<Longrightarrow> \<exists>s'. vi_RetxCtrlMsgExpires now csn s = Inr s'"
proof -
  have many: "length (tq_csnToTxtimeMap item) > unat MAX_RETX_ATTEMPT" using assms(2) by (simp add: MAX_RETX_ATTEMPT_def)
  show "vi_RetxCtrlMsgExpires now csn s = Inr s' \<Longrightarrow> sm_find csn (vi_txedCtrQueue s') = None"
    using many assms(1) by (auto simp: vi_RetxCtrlMsgExpires_def Let_def)
  assume s: "vi_plain s" and down: "\<not> fst (ls_CtrlMsgDown (mx_connectionId (tq_mxControlHeader item)) (vi_linkState s))"
  obtain c t where t: "vi_delivery s = Inr (c, t)" "vi_linkState t = vi_linkState s"
    using vi_delivery_chose [OF s] by (auto simp: vi_delivery_def)
  then show "\<exists>s'. vi_RetxCtrlMsgExpires now csn s = Inr s'"
    using many assms(1) down by (simp add: vi_RetxCtrlMsgExpires_def vi_ctrl_msg_down_def Let_def split_beta)
qed

text \<open>C13: vi_RetxCtrlMsgExpires after vi_SendCtrlMsg: a message other than a probe (type 1) or a QoS test
  message (types 8 and 9, which end at their first expiry) that a sender in its plain mode can form and
  that is never acknowledged is sent exactly six times, at \<open>t0 + rto * (2 ^ j - 1)\<close> for \<open>j\<close> up to 5. The
  outputs are, for each of the six, the packets of the message with the next sequence number and the
  timer of the next expiry, and nothing else. Nothing fails on the way, and the message waits until
  \<open>t0 + 63 * rto\<close>; that expiry removes it from the queue, and it returns when the report of the link's
  failure changes nothing.\<close>

theorem vi_unacked_message_ends:
  assumes "vi_plain s" "vi_sendable h s" "mx_type h \<notin> {8, 9}"
    and "mx_sequenceNumber h + 1 = vi_mxCtrSeqNumber s" "sm_find (mx_sequenceNumber h) (vi_txedCtrQueue s) = None"
  shows "\<exists>s1 s2 item. vi_SendCtrlMsg vi_SendByCid t0 h False s = Inr s1
    \<and> vi_retx_rounds 5 (mx_sequenceNumber h) s1 = Inr s2
    \<and> vi_out s2 = vi_out s @ concat (map (\<lambda>j. vi_msg_out s (mx_SetSequenceNumber (mx_sequenceNumber h + of_nat j) h)
        @ [ScheduleRetxCtrlMsgExpires (t0 + vi_rto s * (2 ^ (j + 1) - 1)) (mx_sequenceNumber h)]) [0..<6])
    \<and> (\<forall>j. vi_msg_out s (mx_SetSequenceNumber (mx_sequenceNumber h + of_nat j) h) \<noteq> [])
    \<and> sm_find (mx_sequenceNumber h) (vi_txedCtrQueue s2) = Some item \<and> length (tq_csnToTxtimeMap item) = 6
    \<and> snd ` set (tq_csnToTxtimeMap item) = (\<lambda>j. t0 + vi_rto s * (2 ^ j - 1)) ` {..5}
    \<and> vi_next_expiry s2 = t0 + 63 * vi_rto s
    \<and> (\<forall>s3. vi_RetxCtrlMsgExpires (vi_next_expiry s2) (mx_sequenceNumber h) s2 = Inr s3
          \<longrightarrow> sm_find (mx_sequenceNumber h) (vi_txedCtrQueue s3) = None)
    \<and> (\<not> fst (ls_CtrlMsgDown (mx_connectionId h) (vi_linkState s))
          \<longrightarrow> (\<exists>s3. vi_RetxCtrlMsgExpires (vi_next_expiry s2) (mx_sequenceNumber h) s2 = Inr s3))"
proof -
  obtain s1 item1 where s1: "vi_SendCtrlMsg vi_SendByCid t0 h False s = Inr s1" "vi_retx_inv t0 h s 0 s1 item1"
    using vi_SendCtrlMsg_inv [OF assms(1,2,4,5)] by blast
  obtain s2 item where s2: "vi_retx_rounds 5 (mx_sequenceNumber h) s1 = Inr s2" "vi_retx_inv t0 h s 5 s2 item"
    using vi_retx_inv_rounds [OF s1(2) assms(2,3), of 5] by auto
  note inv = s2(2) [unfolded vi_retx_inv_def]
  have last: "sm_find (mx_sequenceNumber h) (vi_txedCtrQueue s2) = Some item" "5 < length (tq_csnToTxtimeMap item)"
    using inv by simp_all
  have same: "mx_connectionId (tq_mxControlHeader item) = mx_connectionId h" "vi_linkState s2 = vi_linkState s"
    using inv by (auto simp: vi_wire_def)
  have out: "vi_out s2 = vi_out s @ concat (map (\<lambda>j. vi_msg_out s (mx_SetSequenceNumber (mx_sequenceNumber h + of_nat j) h)
        @ [ScheduleRetxCtrlMsgExpires (t0 + vi_rto s * (2 ^ (j + 1) - 1)) (mx_sequenceNumber h)]) [0..<6])"
    using inv by (simp add: vi_round_def [abs_def])
  have some: "vi_msg_out s (mx_SetSequenceNumber (mx_sequenceNumber h + of_nat j) h) \<noteq> []" for j
    using assms(2) by (intro vi_send_ctrl_ok(2) [OF assms(1)]) (simp add: vi_sendable_def)
  show ?thesis using s1(1) s2(1) inv out some same vi_last_expiry [OF last]
    by (intro exI [of _ s1] exI [of _ s2] exI [of _ item]) simp
qed

definition ex_message :: MxControlHeader where
  "ex_message = mx_example\<lparr>mx_sequenceNumber := 65535, mx_connectionId := 1\<rparr>"

lemma vi_unacked_message_ends_witness:
  "\<exists>s s1 s2 item. ex_sender = Inr s \<and> vi_SendCtrlMsg vi_SendByCid 7 ex_message False s = Inr s1
    \<and> vi_retx_rounds 5 65535 s1 = Inr s2 \<and> sm_find 65535 (vi_txedCtrQueue s2) = Some item
    \<and> length (tq_csnToTxtimeMap item) = 6"
proof -
  obtain s where s: "ex_sender = Inr s" "vi_plain s" "vi_keys s = {0, 1}" "vi_mxCtrSeqNumber s = 0" "vi_txedCtrQueue s = []"
    using ex_sender_ok by blast
  have h: "mx_type ex_message = 7" "mx_connectionId ex_message = 1" "mx_sequenceNumber ex_message = 65535"
    by (simp_all add: ex_message_def mx_example_def)
  have "vi_sendable ex_message s" unfolding vi_sendable_def h s(3) by simp
  moreover have "mx_type ex_message \<notin> {8, 9}" unfolding h by simp
  moreover have "mx_sequenceNumber ex_message + 1 = vi_mxCtrSeqNumber s" unfolding h s(4) by simp
  moreover have "sm_find (mx_sequenceNumber ex_message) (vi_txedCtrQueue s) = None" unfolding s(5) by simp
  ultimately show ?thesis using vi_unacked_message_ends [OF s(2), of ex_message 7] s(1) unfolding h by blast
qed

end
