(* ===== verification/Measurement.thy ===== *)
theory Measurement
  imports Reordering Rx_Violation
begin

text \<open>The measurement of the links: \<open>MeasureDevice\<close> and \<open>MeasurementManager\<close> of
  \<open>src/contrib/gma/model/measurement-manager.h\<close> and \<open>measurement-manager.cc\<close>.

  A measurement cycle is a sequence of intervals of about one round trip time; it ends when the average
  one way delays (OWD) of all links have settled, or after \<open>m_maxMeasureInterval\<close> intervals.  Then the
  receive side control (an argument with its link state, returned changed) decides on the splitting.
  \<open>Now()\<close> is an argument; the decision to send in a TSU is a result.\<close>

section \<open>A device\<close>

record MeasureDevice =
  md_lastLsn :: u8
  md_rtt :: u32
  md_owd_same_time_as_rtt :: u32
  md_numOfInOrderPacketsPerCycle :: u32
  md_numOfMissingPacketsPerCycle :: u32
  md_numOfAbnormalPacketsPerCycle :: u32
  md_numOfDataPacketsPerInterval :: u32
  md_lastPacketOwd :: u32
  md_sumOwdPerInterval :: u64
  md_numOfOwdPacketsPerInterval :: u32
  md_numOfHighOwdPacketsPerInterval :: u32
  md_lastIntervalOwd :: u32
  md_lastIntervalOwdDiff :: real
  md_cid :: u8
  md_lastMinOwd :: u32
  md_currentMinOwd :: u32
  md_lastMaxOwd :: u32
  md_currentMaxOwd :: u32
  md_ackOwd :: u32
  md_numOfDelayViolationDataPacketsPerInterval :: u32
  md_senderOwdAdjustment :: int
  md_owdTargetMs :: u32
  md_queueingDelayTargetMs :: u32

text \<open>A new device; the number of delay violations is not initialised.\<close>

definition MeasureDevice_new :: "u32 \<Rightarrow> u8 \<Rightarrow> u32 \<Rightarrow> u32 \<Rightarrow> MeasureDevice" where
  "MeasureDevice_new raw cid owdTarget queueingDelayTargetMs = \<lparr>md_lastLsn = 255, md_rtt = 0, md_owd_same_time_as_rtt = 0,
    md_numOfInOrderPacketsPerCycle = 0, md_numOfMissingPacketsPerCycle = 0, md_numOfAbnormalPacketsPerCycle = 0,
    md_numOfDataPacketsPerInterval = 0, md_lastPacketOwd = UINT32_MAX, md_sumOwdPerInterval = 0,
    md_numOfOwdPacketsPerInterval = 0, md_numOfHighOwdPacketsPerInterval = 0, md_lastIntervalOwd = UINT32_MAX,
    md_lastIntervalOwdDiff = 1, md_cid = cid, md_lastMinOwd = UINT32_MAX, md_currentMinOwd = UINT32_MAX,
    md_lastMaxOwd = 0, md_currentMaxOwd = 0, md_ackOwd = 0, md_numOfDelayViolationDataPacketsPerInterval = raw,
    md_senderOwdAdjustment = 0, md_owdTargetMs = owdTarget, md_queueingDelayTargetMs = queueingDelayTargetMs\<rparr>"

definition md_InitialMeasurementCycle :: "MeasureDevice \<Rightarrow> MeasureDevice" where
  "md_InitialMeasurementCycle d = d\<lparr>md_lastIntervalOwd := UINT32_MAX, md_lastIntervalOwdDiff := 1,
    md_numOfInOrderPacketsPerCycle := 0, md_numOfMissingPacketsPerCycle := 0, md_numOfAbnormalPacketsPerCycle := 0\<rparr>"

definition md_count_data :: "u32 \<Rightarrow> MeasureDevice \<Rightarrow> MeasureDevice" where
  "md_count_data owdMs d =
    (let d = d\<lparr>md_numOfDataPacketsPerInterval := md_numOfDataPacketsPerInterval d + 1\<rparr>;
         minOwd = min (md_lastMinOwd d) (md_currentMinOwd d)
     in if minOwd \<noteq> UINT32_MAX \<and> owdMs > minOwd + md_queueingDelayTargetMs d
        then d\<lparr>md_numOfDelayViolationDataPacketsPerInterval := md_numOfDelayViolationDataPacketsPerInterval d + 1\<rparr>
        else d)"

definition md_UpdateLastPacketOwd :: "u32 \<Rightarrow> bool \<Rightarrow> MeasureDevice \<Rightarrow> MeasureDevice" where
  "md_UpdateLastPacketOwd owdMs dataFlag d =
    (let d = d\<lparr>md_lastPacketOwd := owdMs, md_numOfOwdPacketsPerInterval := md_numOfOwdPacketsPerInterval d + 1,
           md_sumOwdPerInterval := md_sumOwdPerInterval d + ucast owdMs,
           md_currentMinOwd := (if md_currentMinOwd d > owdMs then owdMs else md_currentMinOwd d),
           md_currentMaxOwd := (if md_currentMaxOwd d < owdMs then owdMs else md_currentMaxOwd d)\<rparr>;
         d = (if md_rtt d + owdMs - md_ackOwd d > md_owdTargetMs d
           then d\<lparr>md_numOfHighOwdPacketsPerInterval := md_numOfHighOwdPacketsPerInterval d + 1\<rparr> else d)
     in if dataFlag then md_count_data owdMs d else d)"

definition md_UpdateLastAckOwd :: "u32 \<Rightarrow> MeasureDevice \<Rightarrow> MeasureDevice" where
  "md_UpdateLastAckOwd owdMs d = d\<lparr>md_ackOwd := owdMs\<rparr>"

definition md_UpdateRtt :: "u32 \<Rightarrow> u32 \<Rightarrow> MeasureDevice \<Rightarrow> MeasureDevice" where
  "md_UpdateRtt rtt owd d = d\<lparr>md_rtt := rtt, md_owd_same_time_as_rtt := owd\<rparr>"

definition md_GetRtt :: "MeasureDevice \<Rightarrow> u32 result" where
  "md_GetRtt d =
    (if md_lastIntervalOwd d \<noteq> UINT32_MAX then
       (if md_rtt d + md_lastIntervalOwd d < md_owd_same_time_as_rtt d
        then Inl (Fatal ''the new rtt value should never the smaller than 0!'')
        else Inr (md_rtt d + md_lastIntervalOwd d - md_owd_same_time_as_rtt d))
     else Inr (md_rtt d))"

definition md_UpdateLsn :: "u8 \<Rightarrow> MeasureDevice \<Rightarrow> MeasureDevice" where
  "md_UpdateLsn lastLsn d =
    (let inOrder = (\<lambda>missing. d\<lparr>md_numOfMissingPacketsPerCycle := md_numOfMissingPacketsPerCycle d + missing,
           md_numOfInOrderPacketsPerCycle := md_numOfInOrderPacketsPerCycle d + 1, md_lastLsn := lastLsn\<rparr>);
         diff = LsnDiff (uint lastLsn) (uint (md_lastLsn d)) in
     if md_numOfInOrderPacketsPerCycle d + md_numOfAbnormalPacketsPerCycle d = 0 then inOrder 0
     else if diff = 1 then inOrder 0
     else if diff > 1 then inOrder (of_int diff - 1)
     else d\<lparr>md_numOfAbnormalPacketsPerCycle := md_numOfAbnormalPacketsPerCycle d + 1\<rparr>)"

section \<open>The manager\<close>

record MeasurementManager =
  mm_deviceList :: "MeasureDevice list"
  mm_measureIntervalIndex :: u8
  mm_measureIntervalStarted :: bool
  mm_measureIntervalStartTime :: time
  mm_measureIntervalThresh :: time
  mm_measurementOn :: bool
  mm_lastIntervalStartSn :: u32
  mm_senderSideOwdAdjustment :: bool
  mm_measureStartSn :: u32
  mm_maxMeasureInterval :: u8
  mm_previousOwdValue :: "u32 list"
  mm_delayMeasurement :: u8
  mm_delayMeasurementEvent :: "time option"
  mm_lastMinRttUpdateTime :: time
  mm_splittingBurstRequirementEst :: u32

definition OWD_CONVERGE_THRESHOLD :: real where "OWD_CONVERGE_THRESHOLD = 1 / 10"
definition OWD_OFFSET_UPDATE_INTERVAL :: time where "OWD_OFFSET_UPDATE_INTERVAL = 12 * 1000000000"
definition MAX_INTERVAL_DURATION :: time where "MAX_INTERVAL_DURATION = 1000000000"
definition MIN_INTERVAL_DURATION :: time where "MIN_INTERVAL_DURATION = 10 * 1000000"

definition MeasurementManager_new :: MeasurementManager where
  "MeasurementManager_new = \<lparr>mm_deviceList = [], mm_measureIntervalIndex = 0, mm_measureIntervalStarted = False,
    mm_measureIntervalStartTime = 0, mm_measureIntervalThresh = 0, mm_measurementOn = True, mm_lastIntervalStartSn = 0,
    mm_senderSideOwdAdjustment = True, mm_measureStartSn = 0, mm_maxMeasureInterval = 10, mm_previousOwdValue = [],
    mm_delayMeasurement = 0, mm_delayMeasurementEvent = None, mm_lastMinRttUpdateTime = 0,
    mm_splittingBurstRequirementEst = 0\<rparr>"

abbreviation mm_map_devices :: "(MeasureDevice \<Rightarrow> MeasureDevice) \<Rightarrow> MeasurementManager \<Rightarrow> MeasurementManager" where
  "mm_map_devices f s \<equiv> s\<lparr>mm_deviceList := map f (mm_deviceList s)\<rparr>"

text \<open>\<open>raw\<close> is the memory of the new device; the target is a \<open>uint64_t\<close> passed as \<open>uint32_t\<close>.\<close>

definition mm_AddDevice :: "u32 \<Rightarrow> u8 \<Rightarrow> u64 \<Rightarrow> GmaRxControl \<Rightarrow> MeasurementManager \<Rightarrow> MeasurementManager" where
  "mm_AddDevice raw cid owdTarget rx s =
    s\<lparr>mm_deviceList := mm_deviceList s @ [MeasureDevice_new raw cid (ucast owdTarget) (rc_queueingDelayTargetMs rx)]\<rparr>"

definition mm_GetDevice :: "u8 \<Rightarrow> MeasurementManager \<Rightarrow> MeasureDevice result" where
  "mm_GetDevice cid s = (case List.find (\<lambda>d. md_cid d = cid) (mm_deviceList s) of
    Some d \<Rightarrow> Inr d | None \<Rightarrow> Inl (Fatal ''cannot find the device!!!!!''))"

text \<open>The loops that change the first device with a cid.\<close>

fun md_first :: "u8 \<Rightarrow> (MeasureDevice \<Rightarrow> MeasureDevice) \<Rightarrow> MeasureDevice list \<Rightarrow> MeasureDevice list" where
  "md_first cid f [] = []"
| "md_first cid f (d # ds) = (if md_cid d = cid then f d # ds else d # md_first cid f ds)"

definition mm_DisableMeasurement :: "MeasurementManager \<Rightarrow> MeasurementManager" where
  "mm_DisableMeasurement s = s\<lparr>mm_measurementOn := False\<rparr>"

definition mm_DataMeasurementSample :: "u32 \<Rightarrow> u8 \<Rightarrow> u8 \<Rightarrow> MeasurementManager \<Rightarrow> MeasurementManager" where
  "mm_DataMeasurementSample owdMs lsn cid s =
    s\<lparr>mm_deviceList := md_first cid (\<lambda>d. md_UpdateLsn lsn (md_UpdateLastPacketOwd owdMs True d)) (mm_deviceList s)\<rparr>"

definition mm_UpdateRtt :: "u32 \<Rightarrow> u32 \<Rightarrow> u8 \<Rightarrow> MeasurementManager \<Rightarrow> MeasurementManager" where
  "mm_UpdateRtt rtt owd cid s = s\<lparr>mm_deviceList := md_first cid (md_UpdateRtt rtt owd) (mm_deviceList s)\<rparr>"

definition mm_UpdateOwdFromProbe :: "u32 \<Rightarrow> u8 \<Rightarrow> MeasurementManager \<Rightarrow> MeasurementManager" where
  "mm_UpdateOwdFromProbe owdMs cid s =
    s\<lparr>mm_deviceList := md_first cid (md_UpdateLastPacketOwd owdMs False) (mm_deviceList s)\<rparr>"

definition mm_UpdateOwdFromAck :: "u32 \<Rightarrow> u8 \<Rightarrow> MeasurementManager \<Rightarrow> MeasurementManager" where
  "mm_UpdateOwdFromAck owdMs cid s =
    s\<lparr>mm_deviceList := md_first cid (md_UpdateLastPacketOwd owdMs False) (mm_deviceList s)\<rparr>"

text \<open>The largest round trip time; zero as soon as one link has none.\<close>

fun mm_max_rtt :: "u32 \<Rightarrow> MeasureDevice list \<Rightarrow> u32 result" where
  "mm_max_rtt maxRtt [] = Inr maxRtt"
| "mm_max_rtt maxRtt (d # ds) = rbind (md_GetRtt d) (\<lambda>rtt.
    if rtt = 0 then Inr 0 else mm_max_rtt (if maxRtt < rtt then rtt else maxRtt) ds)"

definition mm_GetMaxRttMs :: "MeasurementManager \<Rightarrow> u32 result" where
  "mm_GetMaxRttMs s = mm_max_rtt 0 (mm_deviceList s)"

definition mm_GetMaxOwdMs :: "MeasurementManager \<Rightarrow> u32" where
  "mm_GetMaxOwdMs s = foldl (\<lambda>maxOwd d. if maxOwd < md_lastMaxOwd d then md_lastMaxOwd d else maxOwd) 0 (mm_deviceList s)"

definition mm_GetMinOwdMs :: "MeasurementManager \<Rightarrow> u32" where
  "mm_GetMinOwdMs s = foldl (\<lambda>minOwd d. if minOwd > md_lastMinOwd d then md_lastMinOwd d else minOwd)
    UINT32_MAX (mm_deviceList s)"

section \<open>The long term minimum\<close>

definition mm_UpdateAllMinOwd :: "time \<Rightarrow> MeasurementManager \<Rightarrow> MeasurementManager" where
  "mm_UpdateAllMinOwd now s =
    (let s = mm_map_devices (\<lambda>d. d\<lparr>md_lastMinOwd := md_currentMinOwd d, md_currentMinOwd := UINT32_MAX\<rparr>) s;
         s = mm_map_devices (\<lambda>d. d\<lparr>md_lastMaxOwd := md_currentMaxOwd d, md_currentMaxOwd := 0\<rparr>) s
     in s\<lparr>mm_lastMinRttUpdateTime := now\<rparr>)"

definition md_reduced :: "MeasureDevice \<Rightarrow> bool" where
  "md_reduced d \<longleftrightarrow> md_lastMinOwd d \<noteq> UINT32_MAX \<and> md_currentMinOwd d \<noteq> UINT32_MAX
    \<and> md_lastMinOwd d > 10 \<and> md_currentMinOwd d < md_lastMinOwd d - 10"

definition mm_UpdateReducedMinOwd :: "time \<Rightarrow> MeasurementManager \<Rightarrow> MeasurementManager" where
  "mm_UpdateReducedMinOwd now s =
    (let changed = list_ex md_reduced (mm_deviceList s);
         s = mm_map_devices (\<lambda>d. if md_reduced d then d\<lparr>md_lastMinOwd := md_currentMinOwd d\<rparr> else d) s
     in if changed then s\<lparr>mm_lastMinRttUpdateTime := now\<rparr> else s)"

definition mm_UpdateMinOwdCheck :: "time \<Rightarrow> MeasurementManager \<Rightarrow> MeasurementManager" where
  "mm_UpdateMinOwdCheck now s =
    (if mm_lastMinRttUpdateTime s = 0 then mm_UpdateAllMinOwd now s
     else if now > mm_lastMinRttUpdateTime s + OWD_OFFSET_UPDATE_INTERVAL then mm_UpdateAllMinOwd now s
     else s)"

section \<open>Cycles and intervals\<close>

definition mm_cycle :: "u32 \<Rightarrow> u8 \<Rightarrow> MeasurementManager \<Rightarrow> MeasurementManager" where
  "mm_cycle measureStartSn delay s = mm_map_devices md_InitialMeasurementCycle
    (s\<lparr>mm_measureIntervalIndex := 0, mm_measureStartSn := measureStartSn, mm_measurementOn := True,
      mm_measureIntervalStarted := False, mm_delayMeasurement := delay\<rparr>)"

definition mm_MeasureCycleStart :: "u32 \<Rightarrow> MeasurementManager \<Rightarrow> MeasurementManager" where
  "mm_MeasureCycleStart measureStartSn s = mm_cycle measureStartSn 0 s"

definition mm_MeasureCycleStartByTsa :: "u32 \<Rightarrow> u8 \<Rightarrow> u8 list \<Rightarrow> MeasurementManager \<Rightarrow> MeasurementManager result" where
  "mm_MeasureCycleStartByTsa measureStartSn delay owdVector s =
    (let s = mm_cycle measureStartSn delay s in
     if length owdVector > 0 then
       rbind (rassert (length owdVector \<noteq> length (mm_deviceList s)) ''the size of the owd vector and link is not the same!'') (\<lambda>_.
       rbind (rfoldl (\<lambda>ds index. rbind (vec_at owdVector index) (\<lambda>k. Inr (ds[index := (ds ! index)\<lparr>md_senderOwdAdjustment := uint k - 127\<rparr>])))
           (mm_deviceList s) [0..<length (mm_deviceList s)]) (\<lambda>ds.
       Inr (s\<lparr>mm_deviceList := ds\<rparr>)))
     else Inr s)"

text \<open>One link at the start of an interval: the sender delays its packets by the announced adjustment, so the
  long term minimum grows with it.  A branch that reaches the assertion fails it.\<close>

definition mm_adjust :: "nat \<Rightarrow> nat \<Rightarrow> MeasureDevice \<times> u32 list \<Rightarrow> (MeasureDevice \<times> u32 list) result" where
  "mm_adjust n index = (\<lambda>(d, previous).
    if md_senderOwdAdjustment d > 0 then
      (let newDelay = to_int (md_lastMinOwd d) + md_senderOwdAdjustment d in
       rbind (if md_lastMinOwd d = UINT32_MAX then
           rbind (rassert (md_senderOwdAdjustment d = 0) ''shoule not adjust a link owd without measurement!'') (\<lambda>_. Inr (d, previous))
         else if newDelay < 0 then Inl (Fatal ''new delay after offset cannot be zero'')
         else
           rbind (if length previous > 0 then
               rbind (rassert (length previous = n) ''the size of previous owd and measurement device list is different!'') (\<lambda>_.
               vec_upd previous index (word_of_int newDelay))
             else Inr previous) (\<lambda>previous.
           Inr (d\<lparr>md_lastMinOwd := word_of_int newDelay, md_currentMinOwd := UINT32_MAX, md_currentMaxOwd := 0,
             md_senderOwdAdjustment := 0\<rparr>, previous))) (\<lambda>(d, previous).
       Inr (if md_lastMaxOwd d \<noteq> 0
         then (d\<lparr>md_lastMaxOwd := word_of_int (max 0 (md_senderOwdAdjustment d + to_int (md_lastMaxOwd d)))\<rparr>, previous)
         else (d, previous))))
    else Inr (d, previous))"

definition mm_adjust_all :: "MeasureDevice list \<Rightarrow> u32 list \<Rightarrow> (MeasureDevice list \<times> u32 list) result" where
  "mm_adjust_all ds previous = rfoldl (\<lambda>(out, previous) (index, d).
    rbind (mm_adjust (length ds) index (d, previous)) (\<lambda>(d, previous). Inr (out @ [d], previous)))
    ([], previous) (zip [0..<length ds] ds)"

definition md_reset_interval :: "MeasureDevice \<Rightarrow> MeasureDevice" where
  "md_reset_interval d = d\<lparr>md_sumOwdPerInterval := 0, md_numOfOwdPacketsPerInterval := 0,
    md_numOfHighOwdPacketsPerInterval := 0, md_numOfDelayViolationDataPacketsPerInterval := 0,
    md_numOfDataPacketsPerInterval := 0\<rparr>"

definition mm_MeasureIntervalStart :: "time \<Rightarrow> MeasurementManager \<Rightarrow> MeasurementManager result" where
  "mm_MeasureIntervalStart t s =
    rbind (mm_adjust_all (mm_deviceList s) (mm_previousOwdValue s)) (\<lambda>(ds, previous).
    let s = s\<lparr>mm_deviceList := map md_reset_interval ds, mm_previousOwdValue := previous,
      mm_measureIntervalIndex := mm_measureIntervalIndex s + 1, mm_measureIntervalStarted := True,
      mm_measureIntervalStartTime := t, mm_splittingBurstRequirementEst := 0\<rparr> in
    rbind (mm_GetMaxRttMs s) (\<lambda>rtt.
    Inr (s\<lparr>mm_measureIntervalThresh :=
      max MIN_INTERVAL_DURATION (min MAX_INTERVAL_DURATION (uint rtt * 1000000))\<rparr>)))"

text \<open>A packet arrives: the first interval may start, at once or after the delay the TSA asked for.\<close>

definition mm_MeasureIntervalStartCheck :: "time \<Rightarrow> u32 \<Rightarrow> u32 \<Rightarrow> MeasurementManager \<Rightarrow> MeasurementManager result" where
  "mm_MeasureIntervalStartCheck t sn expectedSn s =
    (if sn < expectedSn then Inr s
     else
       (let s = s\<lparr>mm_lastIntervalStartSn := sn\<rparr> in
        if SnDiff (to_int sn) (to_int (mm_measureStartSn s)) > 0 \<and> mm_measureIntervalStarted s = False then
          (if mm_delayMeasurementEvent s \<noteq> None then Inr s
           else if mm_delayMeasurement s = 0 then mm_MeasureIntervalStart t s
           else Inr (s\<lparr>mm_delayMeasurementEvent := Some (t + uint (mm_delayMeasurement s) * 1000000), mm_delayMeasurement := 0\<rparr>))
        else Inr s))"

text \<open>The delayed start.\<close>

definition mm_delayed_start :: "MeasurementManager \<Rightarrow> MeasurementManager result" where
  "mm_delayed_start s =
    (case mm_delayMeasurementEvent s of
       None \<Rightarrow> Inr s
     | Some t \<Rightarrow> mm_MeasureIntervalStart t (s\<lparr>mm_delayMeasurementEvent := None\<rparr>))"

section \<open>The end of an interval\<close>

text \<open>The average of the interval and how much it differs from the one before, as a part of the round trip
  time; the difference of two \<open>uint32_t\<close> is unsigned.\<close>

definition md_interval_owd :: "MeasureDevice \<Rightarrow> MeasureDevice result" where
  "md_interval_owd d =
    (if md_numOfOwdPacketsPerInterval d > 0 then
       (let aveOwd = ucast (md_sumOwdPerInterval d div ucast (md_numOfOwdPacketsPerInterval d)) in
        rbind (if md_lastIntervalOwd d \<noteq> UINT32_MAX then
            rbind (md_GetRtt d) (\<lambda>rtt.
            let rtt = (if rtt = 0 then 200 else rtt) in
            Inr (d\<lparr>md_lastIntervalOwdDiff := \<bar>real_of_int (uint (aveOwd - md_lastIntervalOwd d)) / real_of_int (uint rtt)\<bar>\<rparr>))
          else Inr d) (\<lambda>d.
        Inr (d\<lparr>md_lastIntervalOwd := aveOwd\<rparr>)))
     else Inr d)"

definition mm_interval_owds :: "MeasureDevice list \<Rightarrow> (MeasureDevice list \<times> real) result" where
  "mm_interval_owds ds = rfoldl (\<lambda>(out, maxDiff) d.
    rbind (md_interval_owd d) (\<lambda>d.
    Inr (out @ [d], if maxDiff < md_lastIntervalOwdDiff d then md_lastIntervalOwdDiff d else maxDiff))) ([], 0) ds"

definition mm_end_measurement :: "real \<Rightarrow> MeasurementManager \<Rightarrow> bool" where
  "mm_end_measurement maxDiff s \<longleftrightarrow>
    mm_measureIntervalIndex s \<ge> 2 \<and> maxDiff < OWD_CONVERGE_THRESHOLD \<or> mm_measureIntervalIndex s \<ge> mm_maxMeasureInterval s"

definition md_delay :: "bool \<Rightarrow> MeasureDevice \<Rightarrow> u32" where
  "md_delay senderSide d =
    (if \<not> senderSide then
       (if md_lastMinOwd d = UINT32_MAX then md_lastIntervalOwd d
        else if md_lastIntervalOwd d > md_lastMinOwd d then md_lastIntervalOwd d - md_lastMinOwd d
        else 0)
     else md_lastIntervalOwd d)"

definition md_lossRate :: "MeasureDevice \<Rightarrow> real" where
  "md_lossRate d =
    (if md_numOfMissingPacketsPerCycle d > md_numOfAbnormalPacketsPerCycle d
     then real_of_int (uint (md_numOfMissingPacketsPerCycle d - md_numOfAbnormalPacketsPerCycle d))
       / real_of_int (uint (md_numOfMissingPacketsPerCycle d + md_numOfInOrderPacketsPerCycle d))
     else 0)"

text \<open>The report; \<open>rx\<close> says for every link whether it had packets.\<close>

definition mm_report :: "time \<Rightarrow> bool list \<Rightarrow> MeasurementManager \<Rightarrow> RxMeasurement" where
  "mm_report t rx s = (let ds = mm_deviceList s in
    \<lparr>rm_links = of_nat (length ds),
     rm_measureIntervalThreshS = real_of_int (mm_measureIntervalThresh s) / 1000000000,
     rm_measureIntervalDurationS = real_of_int (t - mm_measureIntervalStartTime s) / 1000000000,
     rm_cidList = map md_cid ds, rm_delayThisInterval = rx,
     rm_delayList = map (\<lambda>d. real_of_int (uint (md_delay (mm_senderSideOwdAdjustment s) d))) ds,
     rm_minOwdLongTerm = map (\<lambda>d. real_of_int (uint (md_lastMinOwd d))) ds,
     rm_lossRateList = map md_lossRate ds, rm_highDelayRatioList = [],
     rm_delayViolationPktNumList = map md_numOfDelayViolationDataPacketsPerInterval ds,
     rm_totalPktNumList = map md_numOfDataPacketsPerInterval ds,
     rm_splittingBurstRequirementEst = mm_splittingBurstRequirementEst s\<rparr>)"

section \<open>Equal delays\<close>

text \<open>With splitting the sender is told by how much the minimum of a link is below the largest minimum, when
  the minima changed since it was told last.\<close>

definition mm_owdMax :: "MeasureDevice list \<Rightarrow> u32" where
  "mm_owdMax ds = foldl (\<lambda>owdMax d. if md_lastMinOwd d \<noteq> UINT32_MAX \<and> owdMax < md_lastMinOwd d
    then md_lastMinOwd d else owdMax) 0 ds"

definition mm_offset :: "u32 \<Rightarrow> MeasureDevice \<Rightarrow> u8" where
  "mm_offset owdMax d = (if md_lastMinOwd d = UINT32_MAX then UINT8_MAX
    else ucast (min (254 :: u32) (owdMax - md_lastMinOwd d)))"

definition mm_feedback :: "SplittingDecision \<Rightarrow> MeasurementManager \<Rightarrow> SplittingDecision \<times> MeasurementManager" where
  "mm_feedback decision s =
    (let ds = mm_deviceList s; owdMax = mm_owdMax ds in
     if owdMax > 0 then
       (decision\<lparr>sd_update := True, sd_minOwdLongTerm := sd_minOwdLongTerm decision @ map (mm_offset owdMax) ds\<rparr>,
        mm_map_devices (\<lambda>d. d\<lparr>md_currentMinOwd := UINT32_MAX, md_currentMaxOwd := 0\<rparr>)
          (s\<lparr>mm_previousOwdValue := map md_lastMinOwd ds\<rparr>))
     else (decision, s))"

definition mm_equalise :: "GmaRxControl \<Rightarrow> SplittingDecision \<Rightarrow> MeasurementManager
    \<Rightarrow> (SplittingDecision \<times> MeasurementManager) result" where
  "mm_equalise rx decision s =
    (if rc_splittingBurst rx > 1 \<and> mm_senderSideOwdAdjustment s then
       (if mm_previousOwdValue s = [] then Inr (mm_feedback decision s)
        else if length (mm_deviceList s) \<noteq> length (mm_previousOwdValue s)
          then Inl (Fatal ''the size of the min owd measurement and last feedback is not the same!'')
        else if map md_lastMinOwd (mm_deviceList s) \<noteq> mm_previousOwdValue s then Inr (mm_feedback decision s)
        else Inr (decision, s))
     else Inr (decision, s))"

section \<open>The end of a cycle\<close>

definition mm_MeasureIntervalEnd :: "time \<Rightarrow> time \<Rightarrow> LinkState \<Rightarrow> GmaRxControl \<Rightarrow> MeasurementManager
    \<Rightarrow> (SplittingDecision option \<times> LinkState \<times> GmaRxControl \<times> MeasurementManager) result" where
  "mm_MeasureIntervalEnd now t ls rx s =
    (let s = s\<lparr>mm_measureIntervalStarted := False\<rparr> in
     rbind (mm_interval_owds (mm_deviceList s)) (\<lambda>(ds, maxDiff).
     let s = s\<lparr>mm_deviceList := ds\<rparr> in
     if mm_end_measurement maxDiff s then
       (let s = s\<lparr>mm_measurementOn := False\<rparr>;
            rxPkt = map (\<lambda>d. md_lastIntervalOwd d \<noteq> UINT32_MAX) ds;
            s = mm_map_devices (\<lambda>d. if md_lastIntervalOwd d = UINT32_MAX
              then d\<lparr>md_lastIntervalOwd := md_lastPacketOwd d\<rparr> else d) s;
            s = mm_UpdateMinOwdCheck now s in
        rbind (rc_GetTrafficSplittingDecision now ls (mm_report t rxPkt s) rx) (\<lambda>(decision, rx, ls).
        rbind (mm_equalise rx decision s) (\<lambda>(decision, s).
        if sd_update decision then Inr (Some decision, ls, rx, s)
        else Inr (None, ls, rx, mm_MeasureCycleStart (mm_lastIntervalStartSn s) s))))
     else rbind (mm_MeasureIntervalStart t s) (\<lambda>s. Inr (None, ls, rx, s))))"

text \<open>A packet arrives: the interval ends after a round trip time with enough packets, or after a second.\<close>

definition mm_MeasureIntervalEndCheck :: "time \<Rightarrow> time \<Rightarrow> LinkState \<Rightarrow> GmaRxControl \<Rightarrow> MeasurementManager
    \<Rightarrow> (SplittingDecision option \<times> LinkState \<times> GmaRxControl \<times> MeasurementManager) result" where
  "mm_MeasureIntervalEndCheck now t ls rx s =
    (if mm_measureIntervalStarted s then
       (let totalPackets = foldl (\<lambda>n d. n + md_numOfDataPacketsPerInterval d) 0 (mm_deviceList s);
            rttPassed = t \<ge> mm_measureIntervalStartTime s + mm_measureIntervalThresh s;
            s = (if mm_splittingBurstRequirementEst s = 0 \<and> rttPassed
              then s\<lparr>mm_splittingBurstRequirementEst := totalPackets\<rparr> else s) in
        rbind (rc_GetMeasurementBurstRequirement rx) (\<lambda>requirement.
        if t > mm_measureIntervalStartTime s + MAX_INTERVAL_DURATION then mm_MeasureIntervalEnd now t ls rx s
        else if to_int totalPackets > requirement \<and> rttPassed then mm_MeasureIntervalEnd now t ls rx s
        else Inr (None, ls, rx, s)))
     else Inr (None, ls, rx, s))"

section \<open>What the operations keep\<close>

lemma rfoldl_length:
  assumes "rfoldl f (a, x) ys = Inr (b, y)"
    and "\<And>a x y b z. f (a, x) y = Inr (b, z) \<Longrightarrow> length b = Suc (length a)"
  shows "length b = length a + length ys"
  using assms(1)
proof (induction ys arbitrary: a x)
  case (Cons z zs)
  then obtain a' x' where "f (a, x) z = Inr (a', x')" "rfoldl f (a', x') zs = Inr (b, y)" by auto
  with Cons.IH assms(2) show ?case by fastforce
qed simp

lemma mm_adjust_all_length:
  assumes "mm_adjust_all ds previous = Inr (ds', previous')"
  shows "length ds' = length ds"
proof -
  have "length b = Suc (length a)"
    if "(\<lambda>(out, previous) (index, d). rbind (mm_adjust (length ds) index (d, previous))
      (\<lambda>(d, previous). Inr (out @ [d], previous))) (a, x) y = Inr (b, z)" for a x y b z
    using that by (cases y) (auto simp add: rbind_Inr_iff)
  from rfoldl_length [OF assms [unfolded mm_adjust_all_def] this] show ?thesis by simp
qed

lemma mm_interval_owds_length:
  assumes "mm_interval_owds ds = Inr (ds', maxDiff)"
  shows "length ds' = length ds"
proof -
  have "length b = Suc (length a)"
    if "(\<lambda>(out, maxDiff) d. rbind (md_interval_owd d) (\<lambda>d. Inr (out @ [d],
      if maxDiff < md_lastIntervalOwdDiff d then md_lastIntervalOwdDiff d else maxDiff))) (a, x) y = Inr (b, z)" for a x y b z
    using that by (auto simp only: prod.case rbind_Inr_iff sum.inject prod.inject length_append_singleton)
  from rfoldl_length [OF assms [unfolded mm_interval_owds_def] this] show ?thesis by simp
qed

lemma mm_GetMaxRttMs_ok:
  assumes "\<And>d. d \<in> set ds \<Longrightarrow> is_ok (md_GetRtt d)"
  shows "is_ok (mm_max_rtt r ds)"
  using assms
proof (induction ds arbitrary: r)
  case (Cons d ds)
  then obtain rtt where "md_GetRtt d = Inr rtt" by (meson is_ok_iff list.set_intros(1))
  with Cons show ?case by simp
qed simp

text \<open>The part of the manager a cycle consists of.\<close>

definition mm_phase :: "MeasurementManager \<Rightarrow> u8 \<times> bool \<times> bool \<times> u8 \<times> u8 \<times> time option" where
  "mm_phase s = (mm_measureIntervalIndex s, mm_measureIntervalStarted s, mm_measurementOn s,
    mm_maxMeasureInterval s, mm_delayMeasurement s, mm_delayMeasurementEvent s)"

lemma mm_MeasureIntervalStart_view:
  assumes "mm_MeasureIntervalStart t s = Inr s'"
  shows "mm_phase s' = (mm_measureIntervalIndex s + 1, True, mm_measurementOn s, mm_maxMeasureInterval s,
      mm_delayMeasurement s, mm_delayMeasurementEvent s)"
    and "mm_measureIntervalStartTime s' = t"
    and "MIN_INTERVAL_DURATION \<le> mm_measureIntervalThresh s'" "mm_measureIntervalThresh s' \<le> MAX_INTERVAL_DURATION"
    and "length (mm_deviceList s') = length (mm_deviceList s)"
proof -
  obtain ds previous where all: "mm_adjust_all (mm_deviceList s) (mm_previousOwdValue s) = Inr (ds, previous)"
    using assms unfolding mm_MeasureIntervalStart_def by (elim rbind_InrE) auto
  define s1 where "s1 = s\<lparr>mm_deviceList := map md_reset_interval ds, mm_previousOwdValue := previous,
      mm_measureIntervalIndex := mm_measureIntervalIndex s + 1, mm_measureIntervalStarted := True,
      mm_measureIntervalStartTime := t, mm_splittingBurstRequirementEst := 0\<rparr>"
  have "rbind (mm_GetMaxRttMs s1) (\<lambda>rtt. Inr (s1\<lparr>mm_measureIntervalThresh :=
      max MIN_INTERVAL_DURATION (min MAX_INTERVAL_DURATION (uint rtt * 1000000))\<rparr>)) = Inr s'"
    using assms by (simp only: mm_MeasureIntervalStart_def Let_def all rbind_simps prod.case s1_def)
  then obtain rtt :: u32 where s': "s' = s1\<lparr>mm_measureIntervalThresh :=
      max MIN_INTERVAL_DURATION (min MAX_INTERVAL_DURATION (uint rtt * 1000000))\<rparr>" by auto
  show "length (mm_deviceList s') = length (mm_deviceList s)"
    using mm_adjust_all_length [OF all] unfolding s' s1_def by simp
  show "mm_phase s' = (mm_measureIntervalIndex s + 1, True, mm_measurementOn s, mm_maxMeasureInterval s,
      mm_delayMeasurement s, mm_delayMeasurementEvent s)"
    "mm_measureIntervalStartTime s' = t"
    "MIN_INTERVAL_DURATION \<le> mm_measureIntervalThresh s'" "mm_measureIntervalThresh s' \<le> MAX_INTERVAL_DURATION"
    unfolding s' s1_def mm_phase_def by (simp_all add: MIN_INTERVAL_DURATION_def MAX_INTERVAL_DURATION_def)
qed

section \<open>The vector of a TSA\<close>

text \<open>MeasureCycleStartByTsa: its assertion is inverted.  A vector with one entry for every link, as the
  peer sends it, always fails the assertion; a shorter one that is not empty reads behind its end.\<close>

theorem mm_tsa_vector_rejected:
  assumes "owdVector \<noteq> []" "length owdVector \<le> length (mm_deviceList s)"
  shows "mm_MeasureCycleStartByTsa sn delay owdVector s =
    Inl (if length owdVector = length (mm_deviceList s)
      then Assertion ''the size of the owd vector and link is not the same!'' else OutOfRange)"
proof (cases "length owdVector = length (mm_deviceList s)")
  case False
  define ds where "ds = mm_deviceList (mm_cycle sn delay s)"
  define f where "f = (\<lambda>(ds :: MeasureDevice list) index. rbind (vec_at owdVector index)
    (\<lambda>k. Inr (ds[index := (ds ! index)\<lparr>md_senderOwdAdjustment := uint k - 127\<rparr>])))"
  have len: "length ds = length (mm_deviceList s)" by (simp add: ds_def mm_cycle_def)
  with assms(2) False have less: "length owdVector < length ds" by simp
  then have split: "[0..<length ds] = [0..<length owdVector] @ length owdVector # [Suc (length owdVector)..<length ds]"
    using upt_add_eq_append [of 0 "length owdVector" "length ds - length owdVector"] upt_conv_Cons by simp
  have "\<exists>r. rfoldl f ds [0..<length owdVector] = Inr r \<and> True"
    by (rule rfoldl_total) (auto simp: f_def)
  then have "rfoldl f ds [0..<length ds] = Inl OutOfRange"
    by (auto simp: split rfoldl_append f_def vec_at_out simp del: upt_Suc)
  then show ?thesis
    using assms False len by (simp add: mm_MeasureCycleStartByTsa_def Let_def f_def ds_def [symmetric])
qed (use assms in \<open>auto simp: mm_MeasureCycleStartByTsa_def mm_cycle_def Let_def\<close>)

theorem mm_tsa_vector_rejected_witness:
  "mm_MeasureCycleStartByTsa 7 0 [127, 131]
      (MeasurementManager_new\<lparr>mm_deviceList := [MeasureDevice_new 0 1 100 10, MeasureDevice_new 0 3 100 10]\<rparr>)
    = Inl (Assertion ''the size of the owd vector and link is not the same!'')"
  using mm_tsa_vector_rejected [of "[127, 131]"
      "MeasurementManager_new\<lparr>mm_deviceList := [MeasureDevice_new 0 1 100 10, MeasureDevice_new 0 3 100 10]\<rparr>" 7 0]
  by simp

section \<open>A falling delay\<close>

text \<open>The difference of the averages is unsigned: a delay that fell by a millisecond counts as a change of more than a
  whole round trip time, so the interval never converges.\<close>

lemma md_interval_owd_falling:
  assumes "md_interval_owd d = Inr d'" "md_lastIntervalOwd d \<noteq> UINT32_MAX" "md_numOfOwdPacketsPerInterval d > 0"
    and "md_lastIntervalOwd d' < md_lastIntervalOwd d" "md_lastIntervalOwd d \<le> 0x7FFFFFFF"
    and "md_GetRtt d = Inr rtt" "rtt \<le> 0x7FFFFFFF"
  shows "md_lastIntervalOwdDiff d' \<ge> 1"
proof -
  define ave :: u32 where "ave = ucast (md_sumOwdPerInterval d div ucast (md_numOfOwdPacketsPerInterval d))"
  define r where "r = (if rtt = 0 then 200 else rtt)"
  have d': "d' = d\<lparr>md_lastIntervalOwdDiff := \<bar>real_of_int (uint (ave - md_lastIntervalOwd d)) / real_of_int (uint r)\<bar>,
      md_lastIntervalOwd := ave\<rparr>"
    using assms(1,2,3,6) by (simp add: md_interval_owd_def Let_def ave_def r_def)
  then have "ave < md_lastIntervalOwd d" using assms(4) by simp
  then have "uint (ave - md_lastIntervalOwd d) = uint ave - uint (md_lastIntervalOwd d) + 4294967296"
    by (simp add: uint_sub_if_size word_le_def word_less_def word_size)
  moreover have "uint (md_lastIntervalOwd d) \<le> 2147483648" "uint r \<le> 2147483648"
    using assms(5,7) by (simp_all add: r_def word_le_def)
  moreover have "0 < uint r"
  proof (cases "rtt = 0")
    case False
    then have "uint rtt \<noteq> 0" by (simp add: uint_0_iff)
    with uint_ge_0 [of rtt] have "0 < uint rtt" by linarith
    with False show ?thesis by (simp add: r_def)
  qed (simp add: r_def)
  moreover have "0 \<le> uint ave" by simp
  ultimately have "uint r \<le> uint (ave - md_lastIntervalOwd d)" "0 < uint r" by linarith+
  then have "real_of_int (uint r) \<le> real_of_int (uint (ave - md_lastIntervalOwd d))" "0 < real_of_int (uint r)"
    by (simp_all only: of_int_le_iff of_int_0_less_iff)
  then have "1 \<le> real_of_int (uint (ave - md_lastIntervalOwd d)) / real_of_int (uint r)" by (simp only: le_divide_eq_1_pos)
  from order_trans [OF this abs_ge_self]
  have "1 \<le> \<bar>real_of_int (uint (ave - md_lastIntervalOwd d)) / real_of_int (uint r)\<bar>" .
  moreover have "md_lastIntervalOwdDiff d' = \<bar>real_of_int (uint (ave - md_lastIntervalOwd d)) / real_of_int (uint r)\<bar>"
    by (simp add: d')
  ultimately show ?thesis by (simp only:)
qed

section \<open>Equal delays\<close>

lemma mm_owdMax_props:
  "d \<in> set ds \<Longrightarrow> md_lastMinOwd d \<noteq> UINT32_MAX \<Longrightarrow> md_lastMinOwd d \<le> mm_owdMax ds"
  by (induction ds rule: rev_induct) (auto simp: mm_owdMax_def not_less intro: order_trans less_imp_le)

lemma mm_owdMax_cases:
  "mm_owdMax ds = 0 \<or> (\<exists>d \<in> set ds. md_lastMinOwd d = mm_owdMax ds \<and> md_lastMinOwd d \<noteq> UINT32_MAX)"
  by (induction ds rule: rev_induct) (auto simp: mm_owdMax_def)

lemma mm_offset_exact:
  assumes "md_lastMinOwd d \<noteq> UINT32_MAX" "md_lastMinOwd d \<le> m" "uint m - uint (md_lastMinOwd d) \<le> 254"
  shows "uint (mm_offset m d) + uint (md_lastMinOwd d) = uint m"
proof -
  have u: "uint (m - md_lastMinOwd d) = uint m - uint (md_lastMinOwd d)"
    using assms(2) by (simp add: uint_sub_if_size word_le_def)
  then have "m - md_lastMinOwd d \<le> 254" using assms(3) by (simp add: word_le_def)
  then have "mm_offset m d = ucast (m - md_lastMinOwd d)" using assms(1) by (simp add: mm_offset_def min_absorb2)
  moreover have "uint (ucast (m - md_lastMinOwd d) :: u8) = uint (m - md_lastMinOwd d)"
    using assms(2,3) u by (simp add: unsigned_ucast_eq take_bit_int_eq_self_iff word_le_def)
  ultimately show ?thesis using u by simp
qed

lemma mm_equalise_facts:
  assumes "mm_equalise rx decision s = Inr (decision', s')" "decision' \<noteq> decision" "sd_minOwdLongTerm decision = []"
  defines "ds \<equiv> mm_deviceList s" and "offset \<equiv> sd_minOwdLongTerm decision'"
  shows "sd_update decision'" and "length offset = length ds"
    and "\<forall>i < length ds. md_lastMinOwd (ds ! i) = UINT32_MAX \<longrightarrow> offset ! i = 255"
    and "\<forall>i < length ds. md_lastMinOwd (ds ! i) \<noteq> UINT32_MAX \<longrightarrow>
      uint (mm_owdMax ds) - uint (md_lastMinOwd (ds ! i)) \<le> 254 \<longrightarrow>
      uint (offset ! i) + uint (md_lastMinOwd (ds ! i)) = uint (mm_owdMax ds)"
    and "\<exists>i < length ds. md_lastMinOwd (ds ! i) = mm_owdMax ds \<and> offset ! i = 0"
    and "mm_equalise rx decision s' = Inr (decision, s')"
proof -
  have fb: "(decision', s') = mm_feedback decision s" and on: "rc_splittingBurst rx > 1" "mm_senderSideOwdAdjustment s"
    using assms(1,2) by (auto simp: mm_equalise_def split: if_splits)
  with assms(2) have pos: "mm_owdMax ds > 0" by (auto simp: mm_feedback_def Let_def ds_def split: if_splits)
  have d': "decision' = decision\<lparr>sd_update := True, sd_minOwdLongTerm := map (mm_offset (mm_owdMax ds)) ds\<rparr>"
    and s': "s' = s\<lparr>mm_previousOwdValue := map md_lastMinOwd ds,
      mm_deviceList := map (\<lambda>d. d\<lparr>md_currentMinOwd := UINT32_MAX, md_currentMaxOwd := 0\<rparr>) ds\<rparr>"
    using fb pos assms(3) by (simp_all add: mm_feedback_def Let_def ds_def)
  show "sd_update decision'" "length offset = length ds" by (simp_all add: d' offset_def)
  show "\<forall>i < length ds. md_lastMinOwd (ds ! i) = UINT32_MAX \<longrightarrow> offset ! i = 255"
    by (simp add: d' offset_def mm_offset_def)
  show "\<forall>i < length ds. md_lastMinOwd (ds ! i) \<noteq> UINT32_MAX \<longrightarrow>
      uint (mm_owdMax ds) - uint (md_lastMinOwd (ds ! i)) \<le> 254 \<longrightarrow>
      uint (offset ! i) + uint (md_lastMinOwd (ds ! i)) = uint (mm_owdMax ds)"
    using mm_owdMax_props mm_offset_exact by (auto simp: d' offset_def)
  obtain d where "d \<in> set ds" "md_lastMinOwd d = mm_owdMax ds" "md_lastMinOwd d \<noteq> UINT32_MAX"
    using mm_owdMax_cases [of ds] pos by auto
  then show "\<exists>i < length ds. md_lastMinOwd (ds ! i) = mm_owdMax ds \<and> offset ! i = 0"
    by (auto simp: d' offset_def mm_offset_def in_set_conv_nth)
  have "map md_lastMinOwd (mm_deviceList s') = map md_lastMinOwd ds" "length (mm_deviceList s') = length ds"
    by (simp_all add: s')
  then show "mm_equalise rx decision s' = Inr (decision, s')"
    using on pos by (auto simp: mm_equalise_def s' mm_owdMax_def)
qed

text \<open>C28: The feedback of the equaliser (MeasureIntervalEnd with splitting): when the minima changed, the TSU
  carries for every link the delay that the sender has to add so that the link's smallest delay is the largest
  of all: exactly, for a link at most 254 ms below it, never more, and 255 for a link without measurement; one
  link needs nothing.  What was sent is remembered, so nothing is sent again while the minima stay.\<close>

theorem mm_equalise_offsets:
  assumes "mm_equalise rx decision s = Inr (decision', s')" "decision' \<noteq> decision" "sd_minOwdLongTerm decision = []"
  shows "sd_update decision' \<and> length (sd_minOwdLongTerm decision') = length (mm_deviceList s)
    \<and> (\<forall>i < length (mm_deviceList s).
        if md_lastMinOwd (mm_deviceList s ! i) = UINT32_MAX then sd_minOwdLongTerm decision' ! i = 255
        else uint (mm_owdMax (mm_deviceList s)) - uint (md_lastMinOwd (mm_deviceList s ! i)) \<le> 254 \<longrightarrow>
          uint (sd_minOwdLongTerm decision' ! i) + uint (md_lastMinOwd (mm_deviceList s ! i)) = uint (mm_owdMax (mm_deviceList s)))
    \<and> (\<exists>i < length (mm_deviceList s). md_lastMinOwd (mm_deviceList s ! i) = mm_owdMax (mm_deviceList s)
        \<and> sd_minOwdLongTerm decision' ! i = 0)
    \<and> mm_equalise rx decision s' = Inr (decision, s')"
  using mm_equalise_facts [OF assms] by simp

definition mm_two :: MeasurementManager where
  "mm_two = MeasurementManager_new\<lparr>mm_deviceList :=
    [(MeasureDevice_new 0 1 100 10)\<lparr>md_lastMinOwd := 30\<rparr>, (MeasureDevice_new 0 3 100 10)\<lparr>md_lastMinOwd := 50\<rparr>]\<rparr>"

theorem mm_equalise_offsets_witness:
  "\<exists>d s'. mm_equalise (GmaRxControl_new\<lparr>rc_splittingBurst := 4\<rparr>) SplittingDecision_new mm_two = Inr (d, s')
    \<and> sd_update d \<and> uint (sd_minOwdLongTerm d ! 0) + 30 = 50
    \<and> mm_equalise (GmaRxControl_new\<lparr>rc_splittingBurst := 4\<rparr>) SplittingDecision_new s' = Inr (SplittingDecision_new, s')"
proof -
  let ?rx = "GmaRxControl_new\<lparr>rc_splittingBurst := 4\<rparr>"
  obtain d s' where fb: "mm_feedback SplittingDecision_new mm_two = (d, s')" by (cases "mm_feedback SplittingDecision_new mm_two")
  have f: "mm_previousOwdValue mm_two = []" "mm_senderSideOwdAdjustment mm_two"
    by (simp_all add: mm_two_def MeasurementManager_new_def)
  have e: "mm_equalise ?rx SplittingDecision_new mm_two = Inr (d, s')"
    using fb by (simp add: mm_equalise_def f)
  have "sd_update d" using fb by (auto simp: mm_feedback_def Let_def mm_two_def MeasurementManager_new_def mm_owdMax_def MeasureDevice_new_def)
  then have "d \<noteq> SplittingDecision_new" by (auto simp: SplittingDecision_new_def)
  have nil: "sd_minOwdLongTerm SplittingDecision_new = []" by (simp add: SplittingDecision_new_def)
  note off = mm_equalise_offsets [OF e \<open>d \<noteq> SplittingDecision_new\<close> nil]
  have two: "mm_deviceList mm_two ! 0 = (MeasureDevice_new 0 1 100 10)\<lparr>md_lastMinOwd := 30\<rparr>" "length (mm_deviceList mm_two) = 2"
    "mm_owdMax (mm_deviceList mm_two) = 50"
    by (simp_all add: mm_two_def MeasurementManager_new_def mm_owdMax_def MeasureDevice_new_def)
  then have "uint (sd_minOwdLongTerm d ! 0) + 30 = 50" using off by (auto dest: spec [of _ 0])
  with off e show ?thesis by blast
qed

end
