(* ===== verification/Measurement_Cycle.thy ===== *)
theory Measurement_Cycle
  imports Measurement Recv_Ctrl
begin

text \<open>The measurement cycle as a state machine: the calls that the virtual interface makes of its measurement
  manager (\<open>measure_call\<close>, the outputs of \<open>GmaVi\<close>), in any order, and the delayed start of the first interval.
  Then what the manager decides meets the virtual interface again: the TSU that carries it, and the TSA the peer
  answers with.\<close>

section \<open>The calls of the virtual interface\<close>

text \<open>\<open>raw\<close> is the memory of a new device.  The quality of service calls go to
  \<open>GetObject<QosMeasurementManager> ()\<close>, which is null for this class.\<close>

definition mm_call :: "u32 \<Rightarrow> time \<Rightarrow> LinkState \<Rightarrow> GmaRxControl \<Rightarrow> measure_call \<Rightarrow> MeasurementManager
    \<Rightarrow> (SplittingDecision option \<times> LinkState \<times> GmaRxControl \<times> MeasurementManager) result" where
  "mm_call raw now ls rx c s =
    (let keep = (\<lambda>s. Inr (None, ls, rx, s)) in
     case c of
       MeasureIntervalStartCheck t sn expectedSn \<Rightarrow> rbind (mm_MeasureIntervalStartCheck t sn expectedSn s) keep
     | DataMeasurementSample owdMs lsn cid \<Rightarrow> keep (mm_DataMeasurementSample owdMs lsn cid s)
     | MeasureIntervalEndCheck t \<Rightarrow> mm_MeasureIntervalEndCheck now t ls rx s
     | UpdateOwdFromProbe owdMs cid \<Rightarrow> keep (mm_UpdateOwdFromProbe owdMs cid s)
     | UpdateRtt rtt owd cid \<Rightarrow> keep (mm_UpdateRtt rtt owd cid s)
     | UpdateOwdFromAck owdMs cid \<Rightarrow> keep (mm_UpdateOwdFromAck owdMs cid s)
     | MeasureCycleStartByTsa sn delay owdVector \<Rightarrow> rbind (mm_MeasureCycleStartByTsa sn delay owdVector s) keep
     | AddDevice cid owdTarget \<Rightarrow> keep (mm_AddDevice raw cid owdTarget rx s)
     | DisableMeasurement \<Rightarrow> keep (mm_DisableMeasurement s)
     | QosMeasurementStart cid duration \<Rightarrow> Inl (Undefined ''null pointer'')
     | QuitQosMeasurement cid \<Rightarrow> Inl (Undefined ''null pointer''))"

text \<open>The virtual interface makes the calls for a data packet only while the measurement is on.\<close>

definition mm_guarded :: "measure_call \<Rightarrow> bool" where
  "mm_guarded c = (case c of MeasureIntervalStartCheck t sn e \<Rightarrow> True | MeasureIntervalEndCheck t \<Rightarrow> True
    | DataMeasurementSample owd lsn cid \<Rightarrow> True | _ \<Rightarrow> False)"

inductive mm_step :: "MeasurementManager \<Rightarrow> MeasurementManager \<Rightarrow> bool" where
  call: "mm_call raw now ls rx c s = Inr (dec, ls', rx', s') \<Longrightarrow> (mm_guarded c \<longrightarrow> mm_measurementOn s) \<Longrightarrow> mm_step s s'"
| delayed: "mm_delayed_start s = Inr s' \<Longrightarrow> mm_step s s'"

inductive_cases mm_stepE: "mm_step s s'"

inductive mm_reachable :: "u8 \<Rightarrow> MeasurementManager \<Rightarrow> bool" for maxInterval where
  init: "mm_reachable maxInterval (MeasurementManager_new\<lparr>mm_maxMeasureInterval := maxInterval\<rparr>)"
| step: "mm_reachable maxInterval s \<Longrightarrow> mm_step s s' \<Longrightarrow> mm_reachable maxInterval s'"

section \<open>The outcomes of the end of an interval\<close>

lemma mm_phase_devices [simp]:
  "mm_phase (s\<lparr>mm_deviceList := ds\<rparr>) = mm_phase s"
  "mm_phase (s\<lparr>mm_previousOwdValue := p\<rparr>) = mm_phase s"
  "mm_phase (s\<lparr>mm_lastMinRttUpdateTime := l\<rparr>) = mm_phase s"
  "mm_phase (s\<lparr>mm_lastIntervalStartSn := n\<rparr>) = mm_phase s"
  "mm_phase (s\<lparr>mm_splittingBurstRequirementEst := e\<rparr>) = mm_phase s"
  by (simp_all add: mm_phase_def)

lemma mm_UpdateMinOwdCheck_phase [simp]:
  "mm_phase (mm_UpdateMinOwdCheck now s) = mm_phase s"
  "mm_lastIntervalStartSn (mm_UpdateMinOwdCheck now s) = mm_lastIntervalStartSn s"
  by (simp_all add: mm_UpdateMinOwdCheck_def mm_UpdateAllMinOwd_def Let_def)

lemma mm_equalise_phase:
  assumes "mm_equalise rx d s = Inr (d', s')"
  shows "mm_phase s' = mm_phase s" "mm_lastIntervalStartSn s' = mm_lastIntervalStartSn s"
  using assms by (auto simp: mm_equalise_def mm_feedback_def Let_def split: if_splits)

lemma mm_cycle_phase:
  "mm_phase (mm_cycle sn delay s) = (0, False, True, mm_maxMeasureInterval s, delay, mm_delayMeasurementEvent s)"
  "mm_measureStartSn (mm_cycle sn delay s) = sn"
  by (simp_all add: mm_cycle_def mm_phase_def)

text \<open>The decision is sent and the measurement waits for the TSA, the cycle starts again, or the next interval
  starts.\<close>

definition mm_sent :: "MeasurementManager \<Rightarrow> SplittingDecision option \<Rightarrow> MeasurementManager \<Rightarrow> bool" where
  "mm_sent s dec s' \<longleftrightarrow> (\<exists>d. dec = Some d \<and> sd_update d) \<and> mm_phase s' = (mm_measureIntervalIndex s, False, False,
    mm_maxMeasureInterval s, mm_delayMeasurement s, mm_delayMeasurementEvent s)"

definition mm_restarted :: "MeasurementManager \<Rightarrow> SplittingDecision option \<Rightarrow> MeasurementManager \<Rightarrow> bool" where
  "mm_restarted s dec s' \<longleftrightarrow> dec = None \<and> mm_measureStartSn s' = mm_lastIntervalStartSn s
    \<and> mm_phase s' = (0, False, True, mm_maxMeasureInterval s, 0, mm_delayMeasurementEvent s)"

definition mm_continued :: "time \<Rightarrow> MeasurementManager \<Rightarrow> SplittingDecision option \<Rightarrow> MeasurementManager \<Rightarrow> bool" where
  "mm_continued t s dec s' \<longleftrightarrow> dec = None \<and> mm_measureIntervalIndex s < mm_maxMeasureInterval s
    \<and> mm_measureIntervalStartTime s' = t
    \<and> mm_measureIntervalThresh s' \<in> {MIN_INTERVAL_DURATION..MAX_INTERVAL_DURATION}
    \<and> mm_phase s' = (mm_measureIntervalIndex s + 1, True, mm_measurementOn s, mm_maxMeasureInterval s,
        mm_delayMeasurement s, mm_delayMeasurementEvent s)"

lemma mm_MeasureIntervalEnd_cases:
  assumes "mm_MeasureIntervalEnd now t ls rx s = Inr (dec, ls', rx', s')"
  shows "mm_sent s dec s' \<or> mm_restarted s dec s' \<or> mm_continued t s dec s'"
proof -
  define s1 where "s1 = s\<lparr>mm_measureIntervalStarted := False\<rparr>"
  obtain ds maxDiff where owds: "mm_interval_owds (mm_deviceList s1) = Inr (ds, maxDiff)"
    using assms unfolding mm_MeasureIntervalEnd_def Let_def s1_def by (elim rbind_InrE) auto
  define s2 where "s2 = s1\<lparr>mm_deviceList := ds\<rparr>"
  have s2: "mm_phase s2 = (mm_measureIntervalIndex s, False, mm_measurementOn s, mm_maxMeasureInterval s,
      mm_delayMeasurement s, mm_delayMeasurementEvent s)" "mm_lastIntervalStartSn s2 = mm_lastIntervalStartSn s"
    by (simp_all add: s2_def s1_def mm_phase_def)
  show ?thesis
  proof (cases "mm_end_measurement maxDiff s2")
    case False
    then have "mm_MeasureIntervalStart t s2 = Inr s' \<and> dec = None"
      using assms owds by (auto simp: mm_MeasureIntervalEnd_def Let_def s1_def [symmetric] s2_def [symmetric])
    with mm_MeasureIntervalStart_view [of t s2 s'] False s2 show ?thesis
      by (auto simp: mm_continued_def mm_end_measurement_def mm_phase_def)
  next
    case True
    define s3 where "s3 = mm_UpdateMinOwdCheck now (s2\<lparr>mm_measurementOn := False,
      mm_deviceList := map (\<lambda>d. if md_lastIntervalOwd d = UINT32_MAX
        then d\<lparr>md_lastIntervalOwd := md_lastPacketOwd d\<rparr> else d) (mm_deviceList s2)\<rparr>)"
    have s3: "mm_phase s3 = (mm_measureIntervalIndex s, False, False, mm_maxMeasureInterval s,
        mm_delayMeasurement s, mm_delayMeasurementEvent s)" "mm_lastIntervalStartSn s3 = mm_lastIntervalStartSn s"
      using s2 by (simp_all add: s3_def) (simp add: mm_phase_def)
    have "rbind (rc_GetTrafficSplittingDecision now ls (mm_report t (map (\<lambda>d. md_lastIntervalOwd d \<noteq> UINT32_MAX) ds) s3) rx)
        (\<lambda>(decision, rx, ls). rbind (mm_equalise rx decision s3) (\<lambda>(decision, s).
          if sd_update decision then Inr (Some decision, ls, rx, s)
          else Inr (None, ls, rx, mm_MeasureCycleStart (mm_lastIntervalStartSn s) s))) = Inr (dec, ls', rx', s')"
      using assms owds True
      by (simp add: mm_MeasureIntervalEnd_def Let_def s1_def [symmetric] s2_def [symmetric] s3_def [symmetric])
    then obtain decision decision' rxa lsa s4 where eq: "mm_equalise rxa decision s3 = Inr (decision', s4)"
      and out: "(if sd_update decision' then Inr (Some decision', lsa, rxa, s4)
        else Inr (None, lsa, rxa, mm_MeasureCycleStart (mm_lastIntervalStartSn s4) s4)) = (Inr (dec, ls', rx', s') :: _ result)"
      by (elim rbind_InrE) (auto split: prod.splits)
    from mm_equalise_phase [OF eq] s3 out mm_cycle_phase show ?thesis
      by (cases "sd_update decision'") (auto simp: mm_sent_def mm_restarted_def mm_MeasureCycleStart_def mm_phase_def)
  qed
qed

section \<open>The invariant of the cycle\<close>

definition mm_inv :: "MeasurementManager \<Rightarrow> bool" where
  "mm_inv s \<longleftrightarrow>
    (mm_measureIntervalStarted s \<longrightarrow> 1 \<le> mm_measureIntervalIndex s \<and> mm_measureIntervalIndex s \<le> mm_maxMeasureInterval s
      \<and> mm_measureIntervalThresh s \<in> {MIN_INTERVAL_DURATION..MAX_INTERVAL_DURATION})
    \<and> (mm_measurementOn s \<and> \<not> mm_measureIntervalStarted s \<longrightarrow> mm_measureIntervalIndex s = 0)
    \<and> (mm_delayMeasurementEvent s \<noteq> None \<longrightarrow> \<not> mm_measureIntervalStarted s \<and> mm_measureIntervalIndex s = 0)"

lemma mm_inv_cong:
  assumes "mm_phase s' = mm_phase s" "mm_measureIntervalThresh s' = mm_measureIntervalThresh s"
  shows "mm_inv s' = mm_inv s"
  using assms by (auto simp: mm_inv_def mm_phase_def)

lemma mm_inv_start:
  assumes "mm_MeasureIntervalStart t s = Inr s'" "mm_measureIntervalIndex s = 0" "mm_delayMeasurementEvent s = None"
    and "1 \<le> mm_maxMeasureInterval s"
  shows "mm_inv s'" "mm_maxMeasureInterval s' = mm_maxMeasureInterval s"
  using mm_MeasureIntervalStart_view [OF assms(1)] assms(2-) by (auto simp: mm_inv_def mm_phase_def)

lemma mm_inv_cycle:
  assumes "mm_phase s' = (0, False, True, m, delay, event)"
  shows "mm_inv s'" "mm_maxMeasureInterval s' = m"
  using assms by (auto simp: mm_inv_def mm_phase_def)

lemma word_inc_between: "i < m \<Longrightarrow> 1 \<le> i + 1 \<and> i + 1 \<le> m" for i m :: u8
  by (intro conjI) unat_arith+

lemma word_unat_inc: "i < m \<Longrightarrow> unat (i + 1) = unat i + 1" for i m :: u8
  by unat_arith

lemma mm_inv_end:
  assumes "mm_inv s" "mm_measureIntervalStarted s" "mm_MeasureIntervalEnd now t ls rx s = Inr (dec, ls', rx', s')"
  shows "mm_inv s' \<and> mm_maxMeasureInterval s' = mm_maxMeasureInterval s"
proof -
  have ev: "mm_delayMeasurementEvent s = None" using assms(1,2) by (cases "mm_delayMeasurementEvent s") (auto simp: mm_inv_def)
  from mm_MeasureIntervalEnd_cases [OF assms(3)] show ?thesis
  proof (elim disjE)
    assume "mm_sent s dec s'"
    with ev show ?thesis by (simp add: mm_sent_def mm_inv_def mm_phase_def)
  next
    assume "mm_restarted s dec s'"
    then show ?thesis using mm_inv_cycle [of s'] by (auto simp: mm_restarted_def)
  next
    assume "mm_continued t s dec s'"
    with ev show ?thesis using word_inc_between [of "mm_measureIntervalIndex s" "mm_maxMeasureInterval s"]
      by (simp add: mm_continued_def mm_inv_def mm_phase_def)
  qed
qed

lemma mm_inv_tsa:
  assumes "mm_MeasureCycleStartByTsa sn delay owd s = Inr s'"
  shows "mm_inv s'" "mm_maxMeasureInterval s' = mm_maxMeasureInterval s"
proof -
  have "mm_phase s' = mm_phase (mm_cycle sn delay s)"
    using assms by (auto simp: mm_MeasureCycleStartByTsa_def Let_def split: if_splits)
  with mm_inv_cycle mm_cycle_phase show "mm_inv s'" "mm_maxMeasureInterval s' = mm_maxMeasureInterval s" by metis+
qed

lemma mm_inv_start_check:
  assumes "mm_inv s" "mm_measurementOn s" "1 \<le> mm_maxMeasureInterval s" "mm_MeasureIntervalStartCheck t sn e s = Inr s'"
  shows "mm_inv s' \<and> mm_maxMeasureInterval s' = mm_maxMeasureInterval s"
proof -
  define s1 where "s1 = s\<lparr>mm_lastIntervalStartSn := sn\<rparr>"
  have s1: "mm_inv s1" "mm_maxMeasureInterval s1 = mm_maxMeasureInterval s" "mm_measurementOn s1"
    using assms(1,2) mm_inv_cong [of s1 s] by (simp_all add: s1_def)
  have r: "(if sn < e then Inr s
    else if SnDiff (to_int sn) (to_int (mm_measureStartSn s1)) > 0 \<and> mm_measureIntervalStarted s1 = False then
      (if mm_delayMeasurementEvent s1 \<noteq> None then Inr s1
       else if mm_delayMeasurement s1 = 0 then mm_MeasureIntervalStart t s1
       else Inr (s1\<lparr>mm_delayMeasurementEvent := Some (t + uint (mm_delayMeasurement s1) * 1000000), mm_delayMeasurement := 0\<rparr>))
    else Inr s1) = Inr s'"
    using assms(4) by (simp only: mm_MeasureIntervalStartCheck_def Let_def s1_def)
  have wait: "mm_inv (s1\<lparr>mm_delayMeasurementEvent := Some x, mm_delayMeasurement := 0\<rparr>)"
    if "\<not> mm_measureIntervalStarted s1" for x
    using that s1 by (simp add: mm_inv_def)
  have start: "mm_inv s' \<and> mm_maxMeasureInterval s' = mm_maxMeasureInterval s"
    if "\<not> mm_measureIntervalStarted s1" "mm_delayMeasurementEvent s1 = None" "mm_MeasureIntervalStart t s1 = Inr s'"
    using mm_inv_start [OF that(3) _ that(2)] that(1) s1 assms(3) by (simp add: mm_inv_def)
  show ?thesis
    using r s1 wait start assms(1) by (auto split: if_splits)
qed

text \<open>What the check does: nothing but an estimate, or the end of the interval after it.\<close>

lemma mm_MeasureIntervalEndCheck_cases:
  assumes "mm_MeasureIntervalEndCheck now t ls rx s = Inr (dec, ls', rx', s')"
  obtains e where "s' = s\<lparr>mm_splittingBurstRequirementEst := e\<rparr>" "dec = None"
    "mm_measureIntervalStarted s \<Longrightarrow> t \<le> mm_measureIntervalStartTime s + MAX_INTERVAL_DURATION"
  | e where "mm_measureIntervalStarted s"
    "mm_MeasureIntervalEnd now t ls rx (s\<lparr>mm_splittingBurstRequirementEst := e\<rparr>) = Inr (dec, ls', rx', s')"
proof (cases "mm_measureIntervalStarted s")
  case False
  with assms have "s' = s\<lparr>mm_splittingBurstRequirementEst := mm_splittingBurstRequirementEst s\<rparr>" "dec = None"
    by (simp_all add: mm_MeasureIntervalEndCheck_def)
  with False that(1) show thesis by blast
next
  case True
  define total where "total = foldl (\<lambda>n d. n + md_numOfDataPacketsPerInterval d) 0 (mm_deviceList s)"
  define passed where "passed \<longleftrightarrow> t \<ge> mm_measureIntervalStartTime s + mm_measureIntervalThresh s"
  define e where "e = (if mm_splittingBurstRequirementEst s = 0 \<and> passed then total else mm_splittingBurstRequirementEst s)"
  define s1 where "s1 = s\<lparr>mm_splittingBurstRequirementEst := e\<rparr>"
  have "(if mm_splittingBurstRequirementEst s = 0 \<and> passed then s\<lparr>mm_splittingBurstRequirementEst := total\<rparr> else s) = s1"
    by (simp add: s1_def e_def)
  then have "rbind (rc_GetMeasurementBurstRequirement rx) (\<lambda>requirement.
      if t > mm_measureIntervalStartTime s1 + MAX_INTERVAL_DURATION then mm_MeasureIntervalEnd now t ls rx s1
      else if to_int total > requirement \<and> passed then mm_MeasureIntervalEnd now t ls rx s1
      else Inr (None, ls, rx, s1)) = Inr (dec, ls', rx', s')"
    using assms True by (simp only: mm_MeasureIntervalEndCheck_def Let_def total_def passed_def if_True)
  moreover have "mm_measureIntervalStartTime s1 = mm_measureIntervalStartTime s" by (simp add: s1_def)
  ultimately show thesis
    using that(1) [of e] that(2) [of e] True unfolding s1_def [symmetric]
    by (elim rbind_InrE) (auto split: if_splits)
qed

lemma mm_inv_end_check:
  assumes "mm_inv s" "mm_MeasureIntervalEndCheck now t ls rx s = Inr (dec, ls', rx', s')"
  shows "mm_inv s' \<and> mm_maxMeasureInterval s' = mm_maxMeasureInterval s"
  using assms(2)
proof (cases rule: mm_MeasureIntervalEndCheck_cases)
  case (1 e)
  with mm_inv_cong [of s' s] assms(1) show ?thesis by simp
next
  case (2 e)
  with mm_inv_cong [of "s\<lparr>mm_splittingBurstRequirementEst := e\<rparr>" s] assms(1)
    mm_inv_end [of "s\<lparr>mm_splittingBurstRequirementEst := e\<rparr>"] show ?thesis by simp
qed

lemma mm_inv_step:
  assumes "mm_step s s'" "mm_inv s" "1 \<le> mm_maxMeasureInterval s"
  shows "mm_inv s' \<and> mm_maxMeasureInterval s' = mm_maxMeasureInterval s"
  using assms(1)
proof (cases rule: mm_step.cases)
  case (call raw now ls rx c dec ls' rx')
  have keep: "mm_inv (s\<lparr>mm_deviceList := ds\<rparr>)" "mm_inv (s\<lparr>mm_measurementOn := False\<rparr>)" for ds
    using assms(2) by (auto simp: mm_inv_def)
  from call keep mm_inv_start_check [OF assms(2) _ assms(3)] mm_inv_end_check [OF assms(2)] mm_inv_tsa
  show ?thesis
    by (cases c) (auto simp: mm_call_def mm_guarded_def mm_DataMeasurementSample_def mm_UpdateOwdFromProbe_def
      mm_UpdateRtt_def mm_UpdateOwdFromAck_def mm_AddDevice_def mm_DisableMeasurement_def)
next
  case delayed
  show ?thesis
  proof (cases "mm_delayMeasurementEvent s")
    case None
    with delayed assms(2) show ?thesis by (simp add: mm_delayed_start_def)
  next
    case (Some t)
    with delayed have "mm_MeasureIntervalStart t (s\<lparr>mm_delayMeasurementEvent := None\<rparr>) = Inr s'"
      by (simp add: mm_delayed_start_def)
    with mm_inv_start [of t "s\<lparr>mm_delayMeasurementEvent := None\<rparr>" s'] Some assms(2,3) show ?thesis
      by (simp add: mm_inv_def)
  qed
qed

lemma mm_reachable_inv:
  assumes "mm_reachable m s" "1 \<le> m"
  shows "mm_inv s \<and> mm_maxMeasureInterval s = m"
  using assms
proof (induction rule: mm_reachable.induct)
  case init
  then show ?case by (simp add: mm_inv_def MeasurementManager_new_def)
next
  case (step s s')
  with mm_inv_step show ?case by metis
qed

text \<open>C27: MeasurementManager: in every state that the calls of the virtual interface reach, in any order and with any
  arguments, with at least one interval allowed: an open interval is numbered 1 to \<open>m_maxMeasureInterval\<close> and lasts
  at least 10 ms and at most 1 s; a running measurement without an open interval is at the start of its cycle; while
  a delayed start is pending no interval is open.\<close>

theorem mm_cycle_invariant:
  assumes "mm_reachable maxInterval s" "1 \<le> maxInterval"
  shows "(mm_measureIntervalStarted s \<longrightarrow> 1 \<le> mm_measureIntervalIndex s \<and> mm_measureIntervalIndex s \<le> maxInterval
      \<and> 10000000 \<le> mm_measureIntervalThresh s \<and> mm_measureIntervalThresh s \<le> 1000000000)
    \<and> (mm_measurementOn s \<and> \<not> mm_measureIntervalStarted s \<longrightarrow> mm_measureIntervalIndex s = 0)
    \<and> (mm_delayMeasurementEvent s \<noteq> None \<longrightarrow> \<not> mm_measureIntervalStarted s \<and> mm_measureIntervalIndex s = 0)"
  using mm_reachable_inv [OF assms] by (auto simp: mm_inv_def MIN_INTERVAL_DURATION_def MAX_INTERVAL_DURATION_def)

text \<open>A manager with one link, after a probe and the data packet that opens the first interval.\<close>

definition mm_ex_run :: "measure_call list" where
  "mm_ex_run = [AddDevice 1 100, UpdateOwdFromProbe 20 1, MeasureIntervalStartCheck 5 1 0]"

fun mm_calls :: "time \<Rightarrow> LinkState \<Rightarrow> GmaRxControl \<Rightarrow> measure_call list \<Rightarrow> MeasurementManager \<Rightarrow> MeasurementManager result" where
  "mm_calls now ls rx [] s = Inr s"
| "mm_calls now ls rx (c # cs) s = rbind (mm_call 0 now ls rx c s) (\<lambda>(_, _, _, s). mm_calls now ls rx cs s)"

definition mm_ex_device :: MeasureDevice where
  "mm_ex_device = md_reset_interval (md_UpdateLastPacketOwd 20 False (MeasureDevice_new 0 1 100
    (rc_queueingDelayTargetMs GmaRxControl_new)))"

definition mm_ex :: "u8 \<Rightarrow> MeasurementManager" where
  "mm_ex m = MeasurementManager_new\<lparr>mm_deviceList := [mm_ex_device], mm_measureIntervalIndex := 1,
    mm_measureIntervalStarted := True, mm_measureIntervalStartTime := 5, mm_measureIntervalThresh := 10000000,
    mm_lastIntervalStartSn := 1, mm_maxMeasureInterval := m\<rparr>"

lemma mm_ex_device_fields:
  "md_senderOwdAdjustment mm_ex_device = 0" "md_rtt mm_ex_device = 0" "md_lastIntervalOwd mm_ex_device = UINT32_MAX"
  "md_currentMinOwd mm_ex_device = 20" "md_lastIntervalOwdDiff mm_ex_device = 1" "md_cid mm_ex_device = 1"
  "md_lastPacketOwd mm_ex_device = 20" "md_numOfOwdPacketsPerInterval mm_ex_device = 0"
  "md_numOfDataPacketsPerInterval mm_ex_device = 0"
  by (simp_all add: mm_ex_device_def md_reset_interval_def md_UpdateLastPacketOwd_def MeasureDevice_new_def Let_def)

lemma mm_ex_calls:
  "mm_calls 5 LinkState_new GmaRxControl_new mm_ex_run (MeasurementManager_new\<lparr>mm_maxMeasureInterval := m\<rparr>) = Inr (mm_ex m)"
proof -
  let ?d = "md_UpdateLastPacketOwd 20 False (MeasureDevice_new 0 1 100 (rc_queueingDelayTargetMs GmaRxControl_new))"
  have d: "md_senderOwdAdjustment ?d = 0" "md_GetRtt (md_reset_interval ?d) = Inr 0"
    "md_cid (MeasureDevice_new 0 1 100 (rc_queueingDelayTargetMs GmaRxControl_new)) = 1"
    by (simp_all add: md_UpdateLastPacketOwd_def MeasureDevice_new_def Let_def md_GetRtt_def md_reset_interval_def)
  show ?thesis
    by (simp add: mm_ex_run_def mm_call_def Let_def mm_AddDevice_def mm_UpdateOwdFromProbe_def MeasurementManager_new_def
      mm_MeasureIntervalStartCheck_def SnDiff_def mm_MeasureIntervalStart_def mm_adjust_all_def mm_adjust_def d
      mm_GetMaxRttMs_def mm_ex_def mm_ex_device_def MIN_INTERVAL_DURATION_def MAX_INTERVAL_DURATION_def)
qed

text \<open>The calls of a list are steps, when the measurement is on in every state they are made in.\<close>

lemma mm_calls_reachable:
  assumes "mm_reachable m s" "mm_calls now ls rx cs s = Inr s'" "mm_measurementOn s"
    and "\<forall>c \<in> set cs. c \<noteq> DisableMeasurement \<and> (\<forall>t. c \<noteq> MeasureIntervalEndCheck t)"
  shows "mm_reachable m s'"
  using assms
proof (induction cs arbitrary: s)
  case (Cons c cs)
  then obtain dec ls' rx' s1 where c: "mm_call 0 now ls rx c s = Inr (dec, ls', rx', s1)" "mm_calls now ls rx cs s1 = Inr s'"
    by auto
  have "mm_reachable m s1" using mm_reachable.step [OF Cons.prems(1) mm_step.call [OF c(1)]] Cons.prems(3) by blast
  moreover have "mm_measurementOn s1"
  proof -
    have "mm_measurementOn s'" if "mm_MeasureCycleStartByTsa sn delay owd s = Inr s'" for sn delay owd s'
      using that mm_cycle_phase(1) by (auto simp: mm_MeasureCycleStartByTsa_def Let_def mm_phase_def split: if_splits)
    moreover have "mm_measurementOn s' = mm_measurementOn s" if "mm_MeasureIntervalStartCheck t sn e s = Inr s'" for t sn e s'
      using that mm_MeasureIntervalStart_view(1) [of t "s\<lparr>mm_lastIntervalStartSn := sn\<rparr>" s']
      by (auto simp: mm_MeasureIntervalStartCheck_def Let_def mm_phase_def split: if_splits)
    ultimately show ?thesis using c(1) Cons.prems(3,4)
      by (cases c) (auto simp: mm_call_def mm_DataMeasurementSample_def mm_UpdateOwdFromProbe_def mm_UpdateRtt_def
        mm_UpdateOwdFromAck_def mm_AddDevice_def mm_cycle_phase mm_phase_def)
  qed
  ultimately show ?case using Cons.IH c(2) Cons.prems(4) by simp
qed simp

lemma mm_ex_reachable: "mm_reachable m (mm_ex m)"
proof (rule mm_calls_reachable [OF mm_reachable.init mm_ex_calls])
  show "mm_measurementOn (MeasurementManager_new\<lparr>mm_maxMeasureInterval := m\<rparr>)" by (simp add: MeasurementManager_new_def)
  show "\<forall>c \<in> set mm_ex_run. c \<noteq> DisableMeasurement \<and> (\<forall>t. c \<noteq> MeasureIntervalEndCheck t)" by (simp add: mm_ex_run_def)
qed

theorem mm_cycle_invariant_witness:
  "mm_measureIntervalStarted (mm_ex 10) \<and> mm_measureIntervalIndex (mm_ex 10) \<le> 10
    \<and> 10000000 \<le> mm_measureIntervalThresh (mm_ex 10) \<and> mm_delayMeasurementEvent (mm_ex 10) = None"
proof -
  have "mm_measureIntervalStarted (mm_ex 10)" by (simp add: mm_ex_def)
  with mm_cycle_invariant [OF mm_ex_reachable, of 10] show ?thesis by auto
qed

section \<open>A cycle ends\<close>

text \<open>A round: the packets that arrive during an interval, then the arrival that checks for its end, at a time more
  than a second after the round before.  The result is the end of the cycle, or \<open>None\<close> when it is still running.\<close>

fun mm_quiet :: "measure_call \<Rightarrow> bool" where
  "mm_quiet (MeasureIntervalStartCheck t sn e) = True"
| "mm_quiet (DataMeasurementSample owd lsn cid) = True"
| "mm_quiet (UpdateOwdFromProbe owd cid) = True"
| "mm_quiet (UpdateRtt rtt owd cid) = True"
| "mm_quiet (UpdateOwdFromAck owd cid) = True"
| "mm_quiet c = False"

type_synonym mm_round = "measure_call list \<times> time \<times> LinkState \<times> GmaRxControl"

fun mm_rounds :: "mm_round list \<Rightarrow> MeasurementManager \<Rightarrow> (SplittingDecision option \<times> MeasurementManager) option result" where
  "mm_rounds [] s = Inr None"
| "mm_rounds ((cs, t, ls, rx) # es) s =
    rbind (mm_calls t ls rx cs s) (\<lambda>s.
    rbind (mm_MeasureIntervalEndCheck t t ls rx s) (\<lambda>(dec, _, _, s).
    if mm_measureIntervalStarted s then mm_rounds es s else Inr (Some (dec, s))))"

fun mm_late :: "time \<Rightarrow> mm_round list \<Rightarrow> bool" where
  "mm_late t0 [] \<longleftrightarrow> True"
| "mm_late t0 ((cs, t, ls, rx) # es) \<longleftrightarrow> t0 + MAX_INTERVAL_DURATION < t \<and> list_all mm_quiet cs \<and> mm_late t es"

lemma mm_quiet_call:
  assumes "mm_quiet c" "mm_measureIntervalStarted s"
  obtains s' where "mm_call raw now ls rx c s = Inr (None, ls, rx, s')" "mm_phase s' = mm_phase s"
    "mm_measureIntervalStartTime s' = mm_measureIntervalStartTime s" "mm_measureIntervalThresh s' = mm_measureIntervalThresh s"
proof -
  have "\<exists>s'. mm_call raw now ls rx c s = Inr (None, ls, rx, s') \<and> mm_phase s' = mm_phase s
      \<and> mm_measureIntervalStartTime s' = mm_measureIntervalStartTime s \<and> mm_measureIntervalThresh s' = mm_measureIntervalThresh s"
    using assms by (cases c) (simp_all add: mm_call_def Let_def mm_MeasureIntervalStartCheck_def mm_DataMeasurementSample_def
      mm_UpdateOwdFromProbe_def mm_UpdateRtt_def mm_UpdateOwdFromAck_def)
  with that show thesis by blast
qed

lemma mm_quiet_calls:
  assumes "list_all mm_quiet cs" "mm_measureIntervalStarted s"
  shows "\<exists>s'. mm_calls now ls rx cs s = Inr s' \<and> mm_phase s' = mm_phase s
    \<and> mm_measureIntervalStartTime s' = mm_measureIntervalStartTime s \<and> mm_measureIntervalThresh s' = mm_measureIntervalThresh s"
  using assms
proof (induction cs arbitrary: s)
  case (Cons c cs)
  then have "mm_quiet c" by simp
  then obtain s1 where s1: "mm_call 0 now ls rx c s = Inr (None, ls, rx, s1)" "mm_phase s1 = mm_phase s"
    "mm_measureIntervalStartTime s1 = mm_measureIntervalStartTime s" "mm_measureIntervalThresh s1 = mm_measureIntervalThresh s"
    using mm_quiet_call [of c s] Cons.prems(2) by metis
  moreover from this(2) Cons.prems(2) have "mm_measureIntervalStarted s1" by (simp add: mm_phase_def)
  ultimately show ?case using Cons.IH [of s1] Cons.prems(1) by simp
qed simp

text \<open>An arrival more than a second after the start ends the interval, with an error or one of the outcomes.\<close>

lemma mm_late_check:
  assumes "mm_measureIntervalStarted s" "mm_measureIntervalStartTime s + MAX_INTERVAL_DURATION < t"
    and "mm_MeasureIntervalEndCheck now t ls rx s = Inr (dec, ls', rx', s')"
  shows "mm_sent s dec s' \<or> mm_restarted s dec s' \<or> mm_continued t s dec s'"
  using assms(3)
proof (cases rule: mm_MeasureIntervalEndCheck_cases)
  case (1 e)
  with assms(1,2) show ?thesis by simp
next
  case (2 e)
  then show ?thesis using mm_MeasureIntervalEnd_cases [OF 2(2)]
    by (simp add: mm_sent_def mm_restarted_def mm_continued_def)
qed

lemma mm_rounds_end:
  assumes "mm_inv s" "mm_measureIntervalStarted s" "mm_late (mm_measureIntervalStartTime s) es"
    and "unat (mm_maxMeasureInterval s) < unat (mm_measureIntervalIndex s) + length es"
  shows "case mm_rounds es s of Inl e \<Rightarrow> True | Inr None \<Rightarrow> False
    | Inr (Some (dec, s')) \<Rightarrow> mm_inv s' \<and> \<not> mm_measureIntervalStarted s'
        \<and> ((\<exists>d. dec = Some d \<and> sd_update d) \<and> \<not> mm_measurementOn s' \<or> dec = None \<and> mm_measurementOn s')"
  using assms
proof (induction es arbitrary: s)
  case Nil
  then show ?case by (simp add: mm_inv_def word_le_nat_alt)
next
  case (Cons e es)
  obtain cs t ls rx where e: "e = (cs, t, ls, rx)" by (cases e)
  with Cons.prems have late: "mm_measureIntervalStartTime s + MAX_INTERVAL_DURATION < t" "list_all mm_quiet cs" "mm_late t es"
    by simp_all
  obtain s1 where s1: "mm_calls t ls rx cs s = Inr s1" "mm_phase s1 = mm_phase s"
    "mm_measureIntervalStartTime s1 = mm_measureIntervalStartTime s" "mm_measureIntervalThresh s1 = mm_measureIntervalThresh s"
    using mm_quiet_calls [OF late(2) Cons.prems(2)] by blast
  have s1': "mm_measureIntervalStarted s1" "mm_measureIntervalIndex s1 = mm_measureIntervalIndex s"
    "mm_maxMeasureInterval s1 = mm_maxMeasureInterval s" "mm_inv s1"
    using s1 Cons.prems(1,2) mm_inv_cong [of s1 s] by (simp_all add: mm_phase_def)
  show ?case
  proof (cases "mm_MeasureIntervalEndCheck t t ls rx s1")
    case (Inl err)
    with e s1 show ?thesis by simp
  next
    case (Inr r)
    obtain dec ls' rx' s' where r: "r = (dec, ls', rx', s')" by (cases r)
    have inv: "mm_inv s'" using mm_inv_end_check [OF s1'(4) Inr [unfolded r]] by simp
    from mm_late_check [OF s1'(1) _ Inr [unfolded r]] late(1) s1(3)
    consider "mm_sent s1 dec s'" | "mm_restarted s1 dec s'" | "mm_continued t s1 dec s'" by auto
    then show ?thesis
    proof cases
      case 3
      then have "mm_measureIntervalStarted s'" "mm_measureIntervalStartTime s' = t"
        "mm_maxMeasureInterval s' = mm_maxMeasureInterval s"
        "unat (mm_measureIntervalIndex s') = unat (mm_measureIntervalIndex s) + 1"
        using s1' word_unat_inc [of "mm_measureIntervalIndex s" "mm_maxMeasureInterval s"] word_inc_between [of "mm_measureIntervalIndex s" "mm_maxMeasureInterval s"]
        by (auto simp: mm_continued_def mm_phase_def)
      with Cons.IH [OF inv] late(3) Cons.prems(4) e s1 Inr r show ?thesis by simp
    qed (use e s1 Inr r inv in \<open>auto simp: mm_sent_def mm_restarted_def mm_phase_def\<close>)
  qed
qed

text \<open>C11: MeasurementManager: a cycle ends.  From any reachable open interval, whatever packets arrive in between, after
  at most \<open>m_maxMeasureInterval\<close> arrivals that are more than a second apart the cycle has ended (or a step stopped
  with an error): a decision was sent and the measurement is off until the TSA, or a new cycle has begun.\<close>

theorem mm_cycle_ends:
  assumes "mm_reachable maxInterval s" "1 \<le> maxInterval" "mm_measureIntervalStarted s"
    and "mm_late (mm_measureIntervalStartTime s) es" "length es = unat maxInterval"
  shows "case mm_rounds es s of Inl e \<Rightarrow> True | Inr None \<Rightarrow> False
    | Inr (Some (dec, s')) \<Rightarrow> \<not> mm_measureIntervalStarted s'
        \<and> ((\<exists>d. dec = Some d \<and> sd_update d) \<and> \<not> mm_measurementOn s'
          \<or> dec = None \<and> mm_measurementOn s' \<and> mm_measureIntervalIndex s' = 0)"
proof -
  note inv = mm_reachable_inv [OF assms(1,2)]
  with assms(3) have "1 \<le> unat (mm_measureIntervalIndex s)" by (simp add: mm_inv_def word_le_nat_alt)
  with inv assms(5) have "unat (mm_maxMeasureInterval s) < unat (mm_measureIntervalIndex s) + length es" by simp
  from mm_rounds_end [OF conjunct1 [OF inv] assms(3,4) this] show ?thesis
    by (auto simp: mm_inv_def split: sum.splits option.splits)
qed

section \<open>The decision meets the virtual interface\<close>

text \<open>A TSU needs a splitting list.\<close>

lemma vi_SendTsu_no_split:
  assumes "sd_splitIndexList d = []"
  shows "\<not> is_ok (vi_SendTsu send now d v)"
proof -
  have "\<not> is_ok (vi_tsu_header d v)" for v
    using assms by (auto simp: vi_tsu_header_def mx_SetTsuKandMeasureVectors_def is_ok_iff rbind_Inr_iff Let_def
      split: if_splits)
  then show ?thesis by (auto simp: vi_SendTsu_def is_ok_iff rbind_Inr_iff)
qed

lemma rc_GetTrafficSplittingDecision_none:
  assumes "rc_GetTrafficSplittingDecision now ls m rx = Inr (d, rx', ls')" "rc_algorithm rx \<in> {DefaultLinkAlg, RlSplit}"
  shows "d = SplittingDecision_new\<lparr>sd_update := False\<rparr>"
  using assms by (auto simp: rc_GetTrafficSplittingDecision_def split: if_splits)

lemma mm_equalise_split:
  assumes "mm_equalise rx d s = Inr (d', s')"
  shows "sd_splitIndexList d' = sd_splitIndexList d"
  using assms by (auto simp: mm_equalise_def mm_feedback_def Let_def split: if_splits)

lemma mm_sent_decision:
  assumes "mm_MeasureIntervalEnd now t ls rx s = Inr (Some d, ls', rx', s')"
  obtains m d0 rx0 ls0 s0 s1 where "rc_GetTrafficSplittingDecision now ls m rx = Inr (d0, rx0, ls0)"
    "mm_equalise rx0 d0 s0 = Inr (d, s1)" "sd_update d"
  using assms unfolding mm_MeasureIntervalEnd_def Let_def
  by (elim rbind_InrE) (auto split: if_splits prod.splits simp del: split_paired_All)

text \<open>MeasureIntervalEnd and SendTsu: when the splitting is decided elsewhere (reinforcement learning) or everything
  stays on the default link, the algorithm never decides anything; a TSU is then only sent to equalise the delays, with an
  empty splitting list, and sending it always fails.\<close>

theorem mm_feedback_without_split:
  assumes "mm_MeasureIntervalEnd now t ls rx s = Inr (Some d, ls', rx', s')" "rc_algorithm rx \<in> {DefaultLinkAlg, RlSplit}"
  shows "sd_update d \<and> sd_splitIndexList d = [] \<and> \<not> is_ok (vi_SendTsu send now d v)"
proof -
  from mm_sent_decision [OF assms(1)] obtain m d0 rx0 ls0 s0 s1 where
    d0: "rc_GetTrafficSplittingDecision now ls m rx = Inr (d0, rx0, ls0)" "mm_equalise rx0 d0 s0 = Inr (d, s1)" "sd_update d"
    by blast
  then have "sd_splitIndexList d = []"
    using rc_GetTrafficSplittingDecision_none [OF d0(1) assms(2)] mm_equalise_split [OF d0(2)]
    by (simp add: SplittingDecision_new_def)
  with d0(3) vi_SendTsu_no_split show ?thesis by blast
qed

text \<open>It happens at the first end of a cycle with a measured delay.\<close>

abbreviation mm_ex_rx :: GmaRxControl where
  "mm_ex_rx \<equiv> GmaRxControl_new\<lparr>rc_algorithm := RlSplit, rc_splittingBurst := 4\<rparr>"

lemma mm_ex_end:
  "\<exists>d ls' rx' s'. mm_MeasureIntervalEnd now t ls mm_ex_rx (mm_ex 1) = Inr (Some d, ls', rx', s') \<and> sd_update d
    \<and> \<not> mm_measureIntervalStarted s' \<and> \<not> mm_measurementOn s'"
  by (simp add: mm_MeasureIntervalEnd_def Let_def mm_ex_def mm_interval_owds_def md_interval_owd_def mm_ex_device_fields
    mm_end_measurement_def mm_UpdateMinOwdCheck_def mm_UpdateAllMinOwd_def rc_GetTrafficSplittingDecision_def mm_report_def
    mm_equalise_def mm_feedback_def mm_owdMax_def SplittingDecision_new_def GmaRxControl_new_def MeasurementManager_new_def)

theorem mm_feedback_without_split_witness:
  "\<exists>d ls' rx' s'. mm_MeasureIntervalEnd 7 7 LinkState_new mm_ex_rx (mm_ex 1) = Inr (Some d, ls', rx', s')
    \<and> sd_splitIndexList d = [] \<and> (\<forall>v. \<not> is_ok (vi_SendTsu vi_SendByCid 7 d v))"
proof -
  obtain d ls' rx' s' where e: "mm_MeasureIntervalEnd 7 7 LinkState_new mm_ex_rx (mm_ex 1) = Inr (Some d, ls', rx', s')"
    using mm_ex_end by blast
  have "sd_splitIndexList d = [] \<and> \<not> is_ok (vi_SendTsu vi_SendByCid 7 d v)" for v
    using mm_feedback_without_split [OF e, of vi_SendByCid v] by simp
  with e show ?thesis by blast
qed

lemma mm_ex_round:
  "\<exists>d s'. mm_rounds [([], 2000000000, LinkState_new, mm_ex_rx)] (mm_ex 1) = Inr (Some (Some d, s'))"
proof -
  have "mm_MeasureIntervalEndCheck 2000000000 2000000000 LinkState_new mm_ex_rx (mm_ex 1)
      = mm_MeasureIntervalEnd 2000000000 2000000000 LinkState_new mm_ex_rx (mm_ex 1)"
    by (simp add: mm_MeasureIntervalEndCheck_def Let_def mm_ex_def mm_ex_device_fields MAX_INTERVAL_DURATION_def
      rc_GetMeasurementBurstRequirement_def GmaRxControl_new_def MeasurementManager_new_def)
  with mm_ex_end [of 2000000000 2000000000 LinkState_new] show ?thesis by auto
qed

theorem mm_cycle_ends_witness:
  "\<exists>d s'. mm_rounds [([], 2000000000, LinkState_new, mm_ex_rx)] (mm_ex 1) = Inr (Some (Some d, s'))
    \<and> sd_update d \<and> \<not> mm_measurementOn s'"
proof -
  have "mm_measureIntervalStarted (mm_ex 1)"
    "mm_late (mm_measureIntervalStartTime (mm_ex 1)) [([], 2000000000, LinkState_new, mm_ex_rx)]"
    by (simp_all add: mm_ex_def MAX_INTERVAL_DURATION_def)
  from mm_cycle_ends [OF mm_ex_reachable _ this] mm_ex_round show ?thesis by fastforce
qed

end
