(* ===== verification/Qos_Measurement.thy ===== *)
theory Qos_Measurement
  imports Measurement_Cycle
begin

text \<open>The quality of service sessions of \<open>QosMeasurementManager\<close>
  (\<open>src/contrib/gma/model/qos-measurement-manager.cc\<close>), which inherits the links and the other calls from
  \<open>MeasurementManager\<close>.  A session counts the packets of one link for a time and reports them to the receive
  side control; while it runs, every packet checks for an early violation.

  A scheduled \<open>QosMeasurementStop\<close> is a record with its time and whether it is still running.  The decisions to
  send in a TSU are results; the callback does not change the manager.\<close>

section \<open>State\<close>

record QosEvent =
  qe_time :: time
  qe_duration :: u8
  qe_running :: bool

record QosMeasurementManager =
  qm_base :: MeasurementManager
  qm_qosDuration :: u8
  qm_cidToQosMeasurementMap :: "(u8, QosEvent) smap"
  qm_cidToLastPacketNMap :: "(u8, u64) smap"

definition QosMeasurementManager_new :: QosMeasurementManager where
  "QosMeasurementManager_new = \<lparr>qm_base = MeasurementManager_new, qm_qosDuration = 0,
    qm_cidToQosMeasurementMap = [], qm_cidToLastPacketNMap = []\<rparr>"

abbreviation qm_devices :: "QosMeasurementManager \<Rightarrow> MeasureDevice list" where
  "qm_devices s \<equiv> mm_deviceList (qm_base s)"

definition qm_set_devices :: "MeasureDevice list \<Rightarrow> QosMeasurementManager \<Rightarrow> QosMeasurementManager" where
  "qm_set_devices ds s = s\<lparr>qm_base := (qm_base s)\<lparr>mm_deviceList := ds\<rparr>\<rparr>"

definition qm_running :: "u8 \<Rightarrow> QosMeasurementManager \<Rightarrow> bool" where
  "qm_running cid s = (case sm_find cid (qm_cidToQosMeasurementMap s) of None \<Rightarrow> False | Some e \<Rightarrow> qe_running e)"

section \<open>The calls that differ\<close>

definition qm_MeasureIntervalStartCheck :: "time \<Rightarrow> u32 \<Rightarrow> u32 \<Rightarrow> QosMeasurementManager \<Rightarrow> QosMeasurementManager" where
  "qm_MeasureIntervalStartCheck t sn expectedSn s = s"

definition qm_UpdateOwdFromProbe :: "u32 \<Rightarrow> u8 \<Rightarrow> QosMeasurementManager \<Rightarrow> QosMeasurementManager" where
  "qm_UpdateOwdFromProbe owdMs cid s = s"

definition qm_UpdateOwdFromAck :: "u32 \<Rightarrow> u8 \<Rightarrow> QosMeasurementManager \<Rightarrow> QosMeasurementManager" where
  "qm_UpdateOwdFromAck owdMs cid s = qm_set_devices (md_first cid (md_UpdateLastAckOwd owdMs) (qm_devices s)) s"

definition qm_DataMeasurementSample :: "u32 \<Rightarrow> u8 \<Rightarrow> u8 \<Rightarrow> QosMeasurementManager \<Rightarrow> QosMeasurementManager" where
  "qm_DataMeasurementSample owdMs lsn cid s =
    qm_set_devices (md_first cid (\<lambda>d. md_UpdateLsn lsn (md_UpdateLastPacketOwd owdMs True d)) (qm_devices s)) s"

section \<open>Reports\<close>

text \<open>What both reports leave out: \<open>m_delayThisInterval\<close>, \<open>m_minOwdLongTerm\<close> and the packet numbers.  A link's
  entry is its delay, ratio of late packets and loss rate, all -1 for a link that was not measured.  The burst
  estimate, which is not initialised and not read for these reports, is 0.\<close>

definition qm_report :: "u8 \<Rightarrow> MeasureDevice list \<Rightarrow> (real \<times> real \<times> real) list \<Rightarrow> RxMeasurement" where
  "qm_report qosDuration ds entries = \<lparr>rm_links = of_nat (length ds),
    rm_measureIntervalThreshS = real_of_int (uint qosDuration) / 10,
    rm_measureIntervalDurationS = real_of_int (uint qosDuration) / 10,
    rm_cidList = map md_cid ds, rm_delayThisInterval = [], rm_delayList = map fst entries, rm_minOwdLongTerm = [],
    rm_lossRateList = map (snd \<circ> snd) entries, rm_highDelayRatioList = map (fst \<circ> snd) entries,
    rm_delayViolationPktNumList = [], rm_totalPktNumList = [], rm_splittingBurstRequirementEst = 0\<rparr>"

definition qm_aveOwd :: "MeasureDevice \<Rightarrow> real" where
  "qm_aveOwd d = real_of_int (uint (md_sumOwdPerInterval d div ucast (md_numOfOwdPacketsPerInterval d)))"

definition qm_stop_entry :: "u8 \<Rightarrow> MeasureDevice \<Rightarrow> real \<times> real \<times> real" where
  "qm_stop_entry cid d =
    (if md_cid d = cid \<and> md_numOfOwdPacketsPerInterval d > 0
     then (qm_aveOwd d, real_of_int (uint (md_numOfHighOwdPacketsPerInterval d))
         / real_of_int (uint (md_numOfOwdPacketsPerInterval d)), md_lossRate d)
     else (-1, -1, -1))"

text \<open>The number of packets of this session is the estimate for the next one; an idle session clears it.\<close>

definition qm_stop_count :: "u8 \<Rightarrow> (u8, u64) smap \<Rightarrow> MeasureDevice \<Rightarrow> (u8, u64) smap" where
  "qm_stop_count cid m d =
    (if md_cid d = cid then
       (if md_numOfOwdPacketsPerInterval d > 0 then sm_set cid (ucast (md_numOfOwdPacketsPerInterval d)) m
        else sm_erase cid m)
     else m)"

section \<open>Sessions\<close>

definition md_reset_session :: "MeasureDevice \<Rightarrow> MeasureDevice" where
  "md_reset_session d = md_InitialMeasurementCycle
    (d\<lparr>md_sumOwdPerInterval := 0, md_numOfOwdPacketsPerInterval := 0, md_numOfHighOwdPacketsPerInterval := 0\<rparr>)"

definition qm_QosMeasurementStart ::
    "time \<Rightarrow> u8 \<Rightarrow> u8 \<Rightarrow> QosMeasurementManager \<Rightarrow> (bool \<times> QosMeasurementManager) result" where
  "qm_QosMeasurementStart now cid duration s =
    (if qm_running cid s then Inr (False, s)
     else
       (let s = (if duration \<noteq> 0 then s\<lparr>qm_qosDuration := duration,
              qm_cidToLastPacketNMap := sm_erase cid (qm_cidToLastPacketNMap s)\<rparr> else s);
            s = qm_set_devices (md_first cid md_reset_session (qm_devices s)) s in
        rbind (rassert (qm_qosDuration s \<noteq> 0) ''did not receive the qos request yet!!!'') (\<lambda>_.
        Inr (True, s\<lparr>qm_cidToQosMeasurementMap := sm_set cid
          \<lparr>qe_time = now + uint (qm_qosDuration s) * 100 * 1000000, qe_duration = duration, qe_running = True\<rparr>
          (qm_cidToQosMeasurementMap s)\<rparr>))))"

definition qm_QuitQosMeasurement :: "u8 \<Rightarrow> QosMeasurementManager \<Rightarrow> QosMeasurementManager" where
  "qm_QuitQosMeasurement cid s =
    (case sm_find cid (qm_cidToQosMeasurementMap s) of
       None \<Rightarrow> s
     | Some e \<Rightarrow> if qe_running e
         then s\<lparr>qm_cidToQosMeasurementMap := sm_set cid (e\<lparr>qe_running := False\<rparr>) (qm_cidToQosMeasurementMap s)\<rparr> else s)"

definition qm_QosMeasurementStop :: "time \<Rightarrow> LinkState \<Rightarrow> GmaRxControl \<Rightarrow> u8 \<Rightarrow> u8 \<Rightarrow> QosMeasurementManager
    \<Rightarrow> (SplittingDecision option \<times> LinkState \<times> GmaRxControl \<times> QosMeasurementManager) result" where
  "qm_QosMeasurementStop now ls rx cid duration s =
    (let m = qm_report (qm_qosDuration s) (qm_devices s) (map (qm_stop_entry cid) (qm_devices s));
         s = s\<lparr>qm_cidToLastPacketNMap := foldl (qm_stop_count cid) (qm_cidToLastPacketNMap s) (qm_devices s)\<rparr> in
     rbind (rc_GetTrafficSplittingDecision now ls m rx) (\<lambda>(decision, rx, ls).
     let out = (if sd_update decision then Some decision else None) in
     if duration = 0 \<and> sd_update decision = False then
       rbind (qm_QosMeasurementStart now cid 0 s) (\<lambda>(success, s).
       rbind (rassert success ''Fail: Measurement is already running!!'') (\<lambda>_. Inr (out, ls, rx, s)))
     else Inr (out, ls, rx, s)))"

text \<open>The event: it is not running while it is executed.\<close>

definition qm_expire :: "LinkState \<Rightarrow> GmaRxControl \<Rightarrow> u8 \<Rightarrow> QosMeasurementManager
    \<Rightarrow> (SplittingDecision option \<times> LinkState \<times> GmaRxControl \<times> QosMeasurementManager) result" where
  "qm_expire ls rx cid s =
    (case sm_find cid (qm_cidToQosMeasurementMap s) of
       None \<Rightarrow> Inr (None, ls, rx, s)
     | Some e \<Rightarrow>
         if qe_running e then qm_QosMeasurementStop (qe_time e) ls rx cid (qe_duration e) (qm_QuitQosMeasurement cid s)
         else Inr (None, ls, rx, s))"

section \<open>Early detection\<close>

text \<open>The expected number of packets is 0.8 of the session before, or what already arrived.\<close>

definition qm_estPktN :: "u64 \<Rightarrow> MeasureDevice \<Rightarrow> real" where
  "qm_estPktN lastN d = max (PKT_NUM_WEIGHT * real_of_int (uint lastN)) (real_of_int (uint (md_numOfOwdPacketsPerInterval d)))"

definition qm_highOwdRate :: "u64 \<Rightarrow> MeasureDevice \<Rightarrow> real" where
  "qm_highOwdRate lastN d = real_of_int (uint (md_numOfHighOwdPacketsPerInterval d)) / qm_estPktN lastN d"

definition qm_violates :: "GmaRxControl \<Rightarrow> u64 \<Rightarrow> MeasureDevice \<Rightarrow> bool" where
  "qm_violates rx lastN d \<longleftrightarrow>
    qm_highOwdRate lastN d > rc_qosDelayViolationTarget rx \<or> md_lossRate d > rc_qosLossTarget rx"

text \<open>The inner loop fills the entries of all links with the same cid.\<close>

definition qm_early_entries :: "u8 \<Rightarrow> real \<Rightarrow> real \<Rightarrow> MeasureDevice list \<Rightarrow> (real \<times> real \<times> real) list result" where
  "qm_early_entries cid highOwdRate lossRate ds =
    rfoldl (\<lambda>out d.
      if md_cid d = cid then
        rbind (rassert (md_numOfOwdPacketsPerInterval d > 0) ''did not receive any pkt, cannot terminate this measurement!'') (\<lambda>_.
        Inr (out @ [(qm_aveOwd d, highOwdRate, lossRate)]))
      else Inr (out @ [(-1, -1, -1)])) [] ds"

text \<open>One link of the outer loop; the loop itself changes no link.\<close>

definition qm_early :: "time \<Rightarrow> SplittingDecision list \<times> LinkState \<times> GmaRxControl \<times> QosMeasurementManager \<Rightarrow> MeasureDevice
    \<Rightarrow> (SplittingDecision list \<times> LinkState \<times> GmaRxControl \<times> QosMeasurementManager) result" where
  "qm_early now = (\<lambda>(out, ls, rx, s) d.
    let cid = md_cid d in
    case sm_find cid (qm_cidToLastPacketNMap s) of
      None \<Rightarrow> Inr (out, ls, rx, s)
    | Some lastN \<Rightarrow>
        if qm_running cid s then
          rbind (rassert (qm_estPktN lastN d \<noteq> 0) ''the estimated pkt number cannot be 0!'') (\<lambda>_.
          if qm_violates rx lastN d then
            rbind (qm_early_entries cid (qm_highOwdRate lastN d) (md_lossRate d) (qm_devices s)) (\<lambda>entries.
            let m = qm_report (qm_qosDuration s) (qm_devices s) entries;
                s = s\<lparr>qm_cidToLastPacketNMap := sm_erase cid (qm_cidToLastPacketNMap s)\<rparr> in
            rbind (rc_GetTrafficSplittingDecision now ls m rx) (\<lambda>(decision, rx, ls).
            if sd_update decision then Inr (out @ [decision], ls, rx, qm_QuitQosMeasurement cid s)
            else Inl (Fatal ''must return an update == true!'')))
          else Inr (out, ls, rx, s))
        else Inr (out, ls, rx, s))"

definition qm_MeasureIntervalEndCheck :: "time \<Rightarrow> LinkState \<Rightarrow> GmaRxControl \<Rightarrow> QosMeasurementManager
    \<Rightarrow> (SplittingDecision list \<times> LinkState \<times> GmaRxControl \<times> QosMeasurementManager) result" where
  "qm_MeasureIntervalEndCheck now ls rx s = rfoldl (qm_early now) ([], ls, rx, s) (qm_devices s)"

section \<open>The reports are rejected\<close>

text \<open>The receive side control wants a value of every link in lists that the reports do not have.\<close>

lemma qm_report_rejected:
  "\<not> is_ok (rc_GetTrafficSplittingDecision now ls (qm_report q ds entries) rx)"
  by (auto simp: rc_GetTrafficSplittingDecision_def qm_report_def is_ok_iff rbind_Inr_iff unat_eq_0)

text \<open>No early violation is seen at a link.\<close>

definition qm_calm :: "GmaRxControl \<Rightarrow> QosMeasurementManager \<Rightarrow> MeasureDevice \<Rightarrow> bool" where
  "qm_calm rx s d =
    (case sm_find (md_cid d) (qm_cidToLastPacketNMap s) of
       None \<Rightarrow> True
     | Some lastN \<Rightarrow> if qm_running (md_cid d) s then qm_estPktN lastN d \<noteq> 0 \<and> \<not> qm_violates rx lastN d else True)"

lemma qm_early_iff:
  "qm_early now (out, ls, rx, s) d = Inr r \<longleftrightarrow> qm_calm rx s d \<and> r = (out, ls, rx, s)"
proof -
  have no: "rc_GetTrafficSplittingDecision now ls (qm_report q ds entries) rx \<noteq> Inr x" for q ds entries x
    using qm_report_rejected unfolding is_ok_iff by blast
  show ?thesis
    by (auto simp: qm_early_def qm_calm_def Let_def rbind_Inr_iff no split: option.splits)
qed

lemma qm_early_all:
  "rfoldl (qm_early now) (out, ls, rx, s) ds = Inr r \<longleftrightarrow> list_all (qm_calm rx s) ds \<and> r = (out, ls, rx, s)"
  by (induction ds) (auto simp: rbind_Inr_iff qm_early_iff)

lemma qm_stop_fails: "\<not> is_ok (qm_QosMeasurementStop now ls rx cid duration s)"
  using qm_report_rejected by (auto simp: qm_QosMeasurementStop_def Let_def is_ok_iff rbind_Inr_iff)

lemma qm_expire_iff:
  "qm_expire ls rx cid s = Inr r \<longleftrightarrow> \<not> qm_running cid s \<and> r = (None, ls, rx, s)"
proof -
  have "qm_QosMeasurementStop now ls rx cid duration s \<noteq> Inr r" for now duration s using qm_stop_fails unfolding is_ok_iff by blast
  then show ?thesis by (auto simp: qm_expire_def qm_running_def split: option.splits)
qed

lemma qm_check_iff:
  "qm_MeasureIntervalEndCheck now ls rx s = Inr r \<longleftrightarrow> list_all (qm_calm rx s) (qm_devices s) \<and> r = ([], ls, rx, s)"
  unfolding qm_MeasureIntervalEndCheck_def by (rule qm_early_all)

section \<open>The protocol of sessions\<close>

lemma md_first_cids: "(\<And>d. md_cid (f d) = md_cid d) \<Longrightarrow> map md_cid (md_first cid f ds) = map md_cid ds"
  by (induction ds) auto

text \<open>A second request while a session runs is refused and changes nothing.\<close>

lemma qm_start_running:
  assumes "qm_running cid s"
  shows "qm_QosMeasurementStart now cid duration s = Inr (False, s)"
  using assms by (simp add: qm_QosMeasurementStart_def)

text \<open>Monitoring needs a test before it, whose duration it takes over.\<close>

lemma qm_start_idle:
  assumes "\<not> qm_running cid s"
  shows "is_ok (qm_QosMeasurementStart now cid duration s) \<longleftrightarrow> duration \<noteq> 0 \<or> qm_qosDuration s \<noteq> 0"
    and "qm_QosMeasurementStart now cid duration s = Inr (b, s') \<Longrightarrow> b \<and> qm_running cid s'
      \<and> qm_qosDuration s' = (if duration = 0 then qm_qosDuration s else duration)
      \<and> (\<forall>c. c \<noteq> cid \<longrightarrow> qm_running c s' = qm_running c s)"
  using assms by (auto simp: qm_QosMeasurementStart_def Let_def qm_set_devices_def is_ok_iff rbind_Inr_iff qm_running_def
    split: if_splits)

lemma qm_quit:
  "\<not> qm_running cid (qm_QuitQosMeasurement cid s)"
  "c \<noteq> cid \<Longrightarrow> qm_running c (qm_QuitQosMeasurement cid s) = qm_running c s"
  by (auto simp: qm_QuitQosMeasurement_def qm_running_def split: option.splits)

section \<open>Runs of the manager\<close>

text \<open>The calls of the virtual interface, the check at every packet and the timers of the sessions. A run
  collects the decisions that are sent.\<close>

datatype qm_event = QosStart time u8 u8 | QosQuit u8 | QosSample u32 u8 u8 | QosAck u32 u8
  | QosPacket time LinkState GmaRxControl | QosTimer LinkState GmaRxControl u8

fun qm_step :: "SplittingDecision list \<times> QosMeasurementManager \<Rightarrow> qm_event
    \<Rightarrow> (SplittingDecision list \<times> QosMeasurementManager) result" where
  "qm_step (out, s) (QosStart now cid duration) =
     rbind (qm_QosMeasurementStart now cid duration s) (\<lambda>(started, s). Inr (out, s))"
| "qm_step (out, s) (QosQuit cid) = Inr (out, qm_QuitQosMeasurement cid s)"
| "qm_step (out, s) (QosSample owdMs lsn cid) = Inr (out, qm_DataMeasurementSample owdMs lsn cid s)"
| "qm_step (out, s) (QosAck owdMs cid) = Inr (out, qm_UpdateOwdFromAck owdMs cid s)"
| "qm_step (out, s) (QosPacket now ls rx) =
     rbind (qm_MeasureIntervalEndCheck now ls rx s) (\<lambda>(sent, ls, rx, s). Inr (out @ sent, s))"
| "qm_step (out, s) (QosTimer ls rx cid) =
     rbind (qm_expire ls rx cid s) (\<lambda>(sent, ls, rx, s). Inr (out @ (case sent of None \<Rightarrow> [] | Some d \<Rightarrow> [d]), s))"

definition qm_run :: "qm_event list \<Rightarrow> QosMeasurementManager \<Rightarrow> (SplittingDecision list \<times> QosMeasurementManager) result" where
  "qm_run evs s = rfoldl qm_step ([], s) evs"

text \<open>The events that do not stop the program: not the timer of a running session, and not the start of a
  monitoring session before any test set the duration.\<close>

fun qm_may :: "QosMeasurementManager \<Rightarrow> qm_event \<Rightarrow> bool" where
  "qm_may s (QosStart now cid duration) \<longleftrightarrow> qm_running cid s \<or> duration \<noteq> 0 \<or> qm_qosDuration s \<noteq> 0"
| "qm_may s (QosTimer ls rx cid) \<longleftrightarrow> \<not> qm_running cid s"
| "qm_may s _ \<longleftrightarrow> True"

lemma qm_no_estimate_calm: "qm_cidToLastPacketNMap s = [] \<Longrightarrow> qm_calm rx s d"
  by (simp add: qm_calm_def sm_find_def)

lemma qm_step_no_estimate:
  assumes "qm_cidToLastPacketNMap s = []"
  shows "is_ok (qm_step (out, s) e) \<longleftrightarrow> qm_may s e"
    and "qm_step (out, s) e = Inr (out', s') \<Longrightarrow> out' = out \<and> qm_cidToLastPacketNMap s' = []"
proof -
  have calm: "list_all (qm_calm rx s) (qm_devices s)" for rx using qm_no_estimate_calm [OF assms] by (simp add: list_all_iff)
  then have check: "qm_MeasureIntervalEndCheck now ls rx s = Inr ([], ls, rx, s)" for now ls rx by (simp add: qm_check_iff)
  have timer: "is_ok (qm_expire ls rx cid s) \<longleftrightarrow> \<not> qm_running cid s" for ls rx cid unfolding is_ok_iff qm_expire_iff by blast
  have start: "qm_QosMeasurementStart now cid duration s = Inr (b, t) \<Longrightarrow> qm_cidToLastPacketNMap t = []" for now cid duration b t
    using assms by (auto simp: qm_QosMeasurementStart_def qm_set_devices_def sm_erase_def rbind_Inr_iff Let_def split: if_splits)
  show "is_ok (qm_step (out, s) e) \<longleftrightarrow> qm_may s e"
  proof (cases e)
    case (QosStart now cid duration)
    then show ?thesis using qm_start_running qm_start_idle(1) [of cid s now duration]
      by (cases "qm_running cid s") (auto simp: is_ok_iff rbind_Inr_iff)
  next
    case (QosTimer ls rx cid)
    then show ?thesis using timer [of ls rx cid] by (auto simp: is_ok_iff rbind_Inr_iff)
  qed (simp_all add: check)
  show "qm_step (out, s) e = Inr (out', s') \<Longrightarrow> out' = out \<and> qm_cidToLastPacketNMap s' = []"
    using assms start check
    by (cases e) (auto simp: rbind_Inr_iff qm_expire_iff qm_DataMeasurementSample_def qm_UpdateOwdFromAck_def qm_set_devices_def
      qm_QuitQosMeasurement_def split: option.splits if_splits)
qed

text \<open>C29: qm_run, every run of the QoS measurement manager from a state without estimates, as it is
  constructed, that the program survives: the reports of QosMeasurementStop have no \<open>m_delayThisInterval\<close>
  and no \<open>m_minOwdLongTerm\<close>, so GetTrafficSplittingDecision accepts none. No decision was ever sent; no
  estimate of the packets of a session exists, as only QosMeasurementStop stores one, so the check at a
  packet sends and changes nothing whatever the links have measured, a violation of a running test or
  monitoring session included; and the next event is survived exactly when it is not the timer of a running
  session and not the start of a monitoring session before any test set a duration.\<close>

theorem qm_sessions_never_finish:
  assumes "qm_cidToLastPacketNMap s = []" "qm_run evs s = Inr (out, s')"
  shows "out = [] \<and> qm_cidToLastPacketNMap s' = []
    \<and> qm_MeasureIntervalEndCheck now ls rx s' = Inr ([], ls, rx, s')
    \<and> \<not> is_ok (qm_QosMeasurementStop now ls rx cid duration s')
    \<and> (is_ok (qm_step (out, s') e) \<longleftrightarrow> qm_may s' e)"
proof -
  have "\<forall>out0 s. qm_cidToLastPacketNMap s = [] \<longrightarrow> rfoldl qm_step (out0, s) evs = Inr (out, s')
    \<longrightarrow> out = out0 \<and> qm_cidToLastPacketNMap s' = []"
  proof (induction evs)
    case (Cons e evs)
    then show ?case using qm_step_no_estimate(2) by (simp add: rbind_Inr_iff) metis
  qed simp
  then have end_state: "out = []" "qm_cidToLastPacketNMap s' = []" using assms by (auto simp: qm_run_def)
  then have "list_all (qm_calm rx s') (qm_devices s')" using qm_no_estimate_calm by (simp add: list_all_iff)
  then show ?thesis using end_state qm_stop_fails qm_step_no_estimate(1) [OF end_state(2)] by (simp add: qm_check_iff)
qed

text \<open>A test session of 0.2 s on a link, with two late packets; its timer ends the program.\<close>

definition qm_example :: QosMeasurementManager where
  "qm_example = qm_set_devices [MeasureDevice_new 0 1 100 10] QosMeasurementManager_new"

lemma qm_sessions_never_finish_witness:
  "\<exists>s'. qm_run [QosStart 0 1 2, QosSample 900 1 1, QosSample 900 2 1, QosPacket 5 LinkState_new GmaRxControl_new] qm_example
      = Inr ([], s') \<and> qm_running 1 s' \<and> \<not> is_ok (qm_step ([], s') (QosTimer LinkState_new GmaRxControl_new 1))
    \<and> qm_MeasureIntervalEndCheck 6 LinkState_new GmaRxControl_new s' = Inr ([], LinkState_new, GmaRxControl_new, s')"
proof -
  let ?evs = "[QosStart 0 1 2, QosSample 900 1 1, QosSample 900 2 1, QosPacket 5 LinkState_new GmaRxControl_new]"
  have none: "qm_cidToLastPacketNMap qm_example = []" by (simp add: qm_example_def qm_set_devices_def QosMeasurementManager_new_def)
  have "case qm_run (butlast ?evs) qm_example of Inl _ \<Rightarrow> False | Inr (out, t) \<Rightarrow> qm_running 1 t \<and> qm_cidToLastPacketNMap t = []"
    by (simp add: qm_run_def qm_example_def qm_set_devices_def QosMeasurementManager_new_def qm_QosMeasurementStart_def
      qm_running_def qm_DataMeasurementSample_def sm_find_def sm_erase_def)
  then obtain out t where t: "qm_run (butlast ?evs) qm_example = Inr (out, t)" "qm_running 1 t" "qm_cidToLastPacketNMap t = []"
    by (auto split: sum.splits)
  have "qm_MeasureIntervalEndCheck 5 LinkState_new GmaRxControl_new t = Inr ([], LinkState_new, GmaRxControl_new, t)"
    using qm_no_estimate_calm [OF t(3)] by (simp add: qm_check_iff list_all_iff)
  then have s': "qm_run ?evs qm_example = Inr (out, t)" using t(1) by (auto simp: qm_run_def rbind_Inr_iff)
  from qm_sessions_never_finish [OF none s', where e = "QosTimer LinkState_new GmaRxControl_new 1" and now = 6
      and ls = LinkState_new and rx = GmaRxControl_new and cid = 1 and duration = 2]
  show ?thesis using s' t(2) by auto
qed

end
