(* ===== verification/Report.thy ===== *)
theory Report
  imports Configuration Data_Path
begin

text \<open>The periodic report of a virtual interface, \<open>CollectMeasureResults\<close> of
  \<open>src/contrib/gma/model/gma-virtual-interface.cc\<close>: it adapts the reordering timeout, computes what an external
  agent observes of the flow and of every link, and starts the next interval.

  The answers of the measurement manager (\<open>GetMaxOwdMs\<close>, \<open>GetMinOwdMs\<close>), the position of the node and whether
  there is a data processor are arguments; the calls of the data processor are the first part of the result, a
  \<open>NetworkStats\<close> object being the list of its names and values.  The same numbers also go to a text file,
  which is not modelled but for the lookup that may fail (\<open>m_saveToFile\<close> is always true).\<close>

type_synonym stats = "(string \<times> real) list"

datatype report_out =
    AppendMeasurement string stats
  | AppendSliceMeasurement stats bool
  | SaveDlQosMeasurement u32 real real u8
  | SaveUlQosMeasurement u32 real real u8
  | UpdateCellId u32 real string

section \<open>The reordering timeout\<close>

definition vi_timeout_of :: "u32 \<Rightarrow> u32 \<Rightarrow> time" where
  "vi_timeout_of maxOwd minOwd =
    max MIN_REORDERING_TIMEOUT (min MAX_REORDERING_TIMEOUT (uint (2 * (maxOwd - minOwd)) * 1000000))"

definition vi_short_owds :: "(u8, MeasureParam) smap \<Rightarrow> u32 \<times> u32" where
  "vi_short_owds m = foldl (\<lambda>(maxOwd, minOwd) (cid, p).
    (if maxOwd < mp_maxOwd p then mp_maxOwd p else maxOwd, if minOwd > mp_minOwd p then mp_minOwd p else minOwd))
    (0, UINT32_MAX) m"

definition vi_update_timeout :: "time \<Rightarrow> u32 \<Rightarrow> u32 \<Rightarrow> GmaReorder \<Rightarrow> GmaReorder" where
  "vi_update_timeout now longMax longMin r =
    (let r = (if now > rq_nextReorderingUpdateTime r \<and> longMax \<noteq> 0 \<and> longMin \<noteq> UINT32_MAX
           then r\<lparr>rq_reorderingTimeout := vi_timeout_of longMax longMin\<rparr> else r);
         (maxOwd, minOwd) = vi_short_owds (rq_measureParamPerCidMap r)
     in if maxOwd \<noteq> 0 \<and> minOwd \<noteq> UINT32_MAX \<and> length (rq_measureParamPerCidMap r) > 1 then
          (let newReorderingTimeout = vi_timeout_of maxOwd minOwd in
           if newReorderingTimeout > rq_reorderingTimeout r
           then r\<lparr>rq_reorderingTimeout := newReorderingTimeout\<rparr> else r)
        else r)"

section \<open>The numbers of the flow\<close>

text \<open>Integer division, which stops the program for a zero divisor.\<close>

definition vi_div :: "u64 \<Rightarrow> u64 \<Rightarrow> u64 result" where
  "vi_div a b = (if b = 0 then Inl (Undefined ''division by zero'') else Inr (a div b))"

definition vi_interval_ms :: "GmaVi \<Rightarrow> u64" where
  "vi_interval_ms s = word_of_int (ms_of (vi_measurementInterval s))"

text \<open>kbps; the bytes per millisecond are rounded down first.\<close>

definition vi_rate :: "u64 \<Rightarrow> GmaVi \<Rightarrow> u64 result" where
  "vi_rate rcvBytes s =
    (if rcvBytes \<noteq> 0 then rbind (vi_div rcvBytes (vi_interval_ms s)) (\<lambda>q. Inr (q * 8)) else Inr 0)"

abbreviation dbl :: "'a :: len word \<Rightarrow> real" where "dbl x \<equiv> real_of_int (uint x)"

text \<open>Three digits of a percentage.\<close>

definition vi_percent3 :: "real \<Rightarrow> real" where
  "vi_percent3 x = real_of_int (cround (x * 100 * 1000)) / 1000"

definition vi_flow_packets :: "GmaVi \<Rightarrow> u64" where
  "vi_flow_packets s = rq_numOfAbnormalPacketsPerFlow (vi_reorder s) + rq_numOfInOrderPacketsPerFlow (vi_reorder s)"

definition vi_share :: "u64 \<Rightarrow> GmaVi \<Rightarrow> real" where
  "vi_share n s = (if vi_flow_packets s > 0 then dbl n / dbl (vi_flow_packets s) else 0)"

definition vi_loss :: "u64 \<Rightarrow> u64 \<Rightarrow> u64 \<Rightarrow> real" where
  "vi_loss missing abnormal inOrder =
    (if missing > abnormal \<and> missing + inOrder > 0 then dbl (missing - abnormal) / dbl (missing + inOrder) else 0)"

definition vi_lossFlow :: "GmaVi \<Rightarrow> real" where
  "vi_lossFlow s = (let r = vi_reorder s in
    vi_loss (rq_numOfMissingPacketsPerFlow r) (rq_numOfAbnormalPacketsPerFlow r) (rq_numOfInOrderPacketsPerFlow r))"

definition vi_flowQosMet :: "GmaVi \<Rightarrow> real" where
  "vi_flowQosMet s =
    (if vi_share (mp_numOfHighDelayPkt (rq_flowParam (vi_reorder s))) s \<le> rc_qosDelayViolationTarget (vi_rxControl s)
        \<and> vi_lossFlow s \<le> rc_qosLossTarget (vi_rxControl s) then 1 else 0)"

definition vi_direction :: "GmaVi \<Rightarrow> string" where
  "vi_direction s = (if vi_clientRoleEnabled s then ''dl'' else if vi_serverRoleEnabled s then ''ul'' else '''')"

definition vi_revDirection :: "GmaVi \<Rightarrow> string" where
  "vi_revDirection s = (if vi_clientRoleEnabled s then ''ul'' else if vi_serverRoleEnabled s then ''dl'' else '''')"

definition vi_split_ratios :: "GmaVi \<Rightarrow> stats result" where
  "vi_split_ratios s =
    (case vi_lastDecision s of
       None \<Rightarrow> Inr []
     | Some d \<Rightarrow> rfoldl (\<lambda>out link.
         rbind (vec_at (ls_cidList (vi_linkState s)) link) (\<lambda>cid.
         rbind (ls_ConvertCidToString (uint cid)) (\<lambda>cidStr.
         Inr (out @ [(cidStr @ ''::'' @ vi_direction s @ ''::split_ratio'',
           100 * dbl (sd_splitIndexList d ! link) / dbl (rc_splittingBurst (vi_rxControl s)))]))))
         [] [0..<length (sd_splitIndexList d)])"

text \<open>The report of the flow: the element and the sums and means over the network.\<close>

definition vi_flow_report :: "(real \<times> real) option \<Rightarrow> GmaVi \<Rightarrow> (stats \<times> stats \<times> stats) result" where
  "vi_flow_report pos s =
    (let p = rq_flowParam (vi_reorder s); dir = vi_direction s; rev = vi_revDirection s;
         highDelay = vi_percent3 (vi_share (mp_numOfHighDelayPkt p) s) in
     rbind (if mp_count p \<noteq> 0 then vi_div (mp_owdSum p) (mp_count p) else Inr 0) (\<lambda>aveOwd.
     rbind (vi_rate (mp_rcvBytes p) s) (\<lambda>rate.
     rbind (vi_split_ratios s) (\<lambda>ratios.
     rbind (vi_div (vi_TxBytesPerFlow s * 8) (vi_interval_ms s)) (\<lambda>tx.
     let qosRate = dbl rate * vi_flowQosMet s / 1000 in
     Inr (ratios
        @ [(dir @ ''::missed_action'', dbl (vi_missedAction s)),
           (dir @ ''::measurement_ok'', if vi_qosClientTestingActive s then 0 else 1),
           (dir @ ''::rate'', dbl rate / 1000),
           (dir @ ''::qos_rate'', qosRate),
           (dir @ ''::delay_violation'', highDelay),
           (dir @ ''::delay_test_1_violation'', vi_percent3 (vi_share (mp_numofT1DelayPkt p) s)),
           (dir @ ''::delay_test_2_violation'', vi_percent3 (vi_share (mp_numofT2DelayPkt p) s))]
        @ (if mp_minOwd p \<noteq> UINT32_MAX
           then [(dir @ ''::owd'', dbl aveOwd), (dir @ ''::max_owd'', dbl (mp_maxOwd p))]
           else [(dir @ ''::owd'', -1), (dir @ ''::max_owd'', -1)])
        @ [(rev @ ''::tx_rate'', dbl tx / 1000)]
        @ (case pos of None \<Rightarrow> [] | Some (x, y) \<Rightarrow>
             if vi_clientRoleEnabled s
             then [(''x_loc'', real_of_int (cround (x * 1000)) / 1000), (''y_loc'', real_of_int (cround (y * 1000)) / 1000)]
             else []),
        [(dir @ ''::network::rate'', dbl rate / 1000), (dir @ ''::network::qos_rate'', qosRate),
         (rev @ ''::network::tx_rate'', dbl tx / 1000)],
        [(dir @ ''::network::delay_violation'', highDelay)]))))))"

section \<open>The numbers of a link\<close>

definition vi_traffic_ratio :: "u64 \<Rightarrow> GmaVi \<Rightarrow> real" where
  "vi_traffic_ratio rcvBytes s =
    (if vi_receivedBytes s \<noteq> 0 then real_of_int (cround (100 * dbl rcvBytes / dbl (vi_receivedBytes s))) else 0)"

definition vi_save_qos :: "bool \<Rightarrow> u8 \<Rightarrow> real \<Rightarrow> real \<Rightarrow> GmaVi \<Rightarrow> report_out list" where
  "vi_save_qos processor cid mbps marking s =
    (if processor \<and> rc_enableQosFlowPrioritization (vi_rxControl s) then
       (if vi_clientRoleEnabled s then [SaveDlQosMeasurement (vi_clientId s) mbps marking cid]
        else if vi_serverRoleEnabled s then [SaveUlQosMeasurement (vi_clientId s) mbps marking cid] else [])
     else [])"

definition vi_link_report :: "bool \<Rightarrow> real \<Rightarrow> GmaVi \<Rightarrow> u8 \<times> LinkParams \<Rightarrow> (report_out list \<times> stats) result" where
  "vi_link_report processor qosMet s = (\<lambda>(cid, link).
    let dir = vi_direction s in
    rbind (if cid = of_int WIFI_CID then rbind (vi_phy_of cid s) (\<lambda>_. Inr ()) else Inr ()) (\<lambda>_.
    rbind (ls_ConvertCidToString (uint cid)) (\<lambda>c.
    let priority = (c @ ''::'' @ vi_revDirection s @ ''::priority'', lp_qosMarking link) in
    case sm_find cid (rq_measureParamPerCidMap (vi_reorder s)) of
      Some p \<Rightarrow>
        rbind (vi_rate (mp_rcvBytes p) s) (\<lambda>linkrate.
        rbind (vi_div (mp_owdSum p) (mp_count p)) (\<lambda>aveOwd.
        Inr (vi_save_qos processor cid (dbl linkrate / 1000) (lp_qosMarking link) s,
          [priority, (c @ ''::'' @ dir @ ''::rate'', dbl linkrate / 1000),
           (c @ ''::'' @ dir @ ''::qos_rate'', dbl linkrate * qosMet / 1000),
           (c @ ''::'' @ dir @ ''::traffic_ratio'', vi_traffic_ratio (mp_rcvBytes p) s),
           (c @ ''::'' @ dir @ ''::owd'', dbl aveOwd), (c @ ''::'' @ dir @ ''::max_owd'', dbl (mp_maxOwd p))])))
    | None \<Rightarrow>
        Inr (vi_save_qos processor cid 0 (lp_qosMarking link) s,
          [priority, (c @ ''::'' @ dir @ ''::rate'', 0), (c @ ''::'' @ dir @ ''::qos_rate'', 0),
           (c @ ''::'' @ dir @ ''::traffic_ratio'', 0), (c @ ''::'' @ dir @ ''::owd'', -1),
           (c @ ''::'' @ dir @ ''::max_owd'', -1)]))))"

definition vi_links_report :: "bool \<Rightarrow> real \<Rightarrow> GmaVi \<Rightarrow> (report_out list \<times> stats) result" where
  "vi_links_report processor qosMet s =
    rfoldl (\<lambda>(out, element) link. rbind (vi_link_report processor qosMet s link) (\<lambda>(out', e). Inr (out @ out', element @ e)))
      ([], []) (vi_links s)"

section \<open>The report\<close>

text \<open>What the data processor gets at the end; the access point of a client's Wi-Fi link is a report of its own.\<close>

definition vi_send_report :: "bool \<Rightarrow> stats \<Rightarrow> stats \<Rightarrow> stats \<Rightarrow> GmaVi \<Rightarrow> report_out list result" where
  "vi_send_report processor element sliceSum sliceMean s =
    (if processor then
       rbind (if vi_clientRoleEnabled s \<and> sm_find (of_int WIFI_CID) (vi_links s) \<noteq> None then
           rbind (vi_phy_of (of_int WIFI_CID) s) (\<lambda>phy.
           rbind (ls_ConvertCidToString WIFI_CID) (\<lambda>wifi.
           Inr [AppendMeasurement wifi [(''cell_id'', dbl (pa_currentApId phy))],
                UpdateCellId (vi_clientId s) (dbl (pa_currentApId phy)) wifi]))
         else Inr []) (\<lambda>cell.
       Inr ([AppendMeasurement ''gma'' element, AppendSliceMeasurement sliceSum False,
             AppendSliceMeasurement sliceMean True] @ cell))
     else Inr [])"

definition vi_reset_report :: "GmaVi \<Rightarrow> GmaVi" where
  "vi_reset_report s =
    (let r = (vi_reorder s)\<lparr>rq_numOfInOrderPacketsPerFlow := 0, rq_numOfMissingPacketsPerFlow := 0,
       rq_numOfAbnormalPacketsPerFlow := 0, rq_flowParam := MeasureParam_new, rq_measureParamPerCidMap := [],
       rq_reorderingTimeoutCounter := 0\<rparr>
     in s\<lparr>vi_reorder := r, vi_numOfTxPacketsPerFlow := 0, vi_TxBytesPerFlow := 0, vi_receivedBytes := 0,
       vi_tsuCounter := 0, vi_missedAction := 0\<rparr>)"

definition vi_CollectMeasureResults ::
    "time \<Rightarrow> u32 \<Rightarrow> u32 \<Rightarrow> (real \<times> real) option \<Rightarrow> bool \<Rightarrow> GmaVi \<Rightarrow> (report_out list \<times> GmaVi) result" where
  "vi_CollectMeasureResults now longMax longMin pos processor s =
    (let s = s\<lparr>vi_reorder := vi_update_timeout now longMax longMin (vi_reorder s)\<rparr> in
     rbind (if rq_enableMeasureReport (vi_reorder s) then
         rbind (vi_flow_report pos s) (\<lambda>(element, sliceSum, sliceMean).
         rbind (vi_links_report processor (vi_flowQosMet s) s) (\<lambda>(saved, links).
         rbind (vi_send_report processor (element @ links) sliceSum sliceMean s) (\<lambda>sent.
         Inr (saved @ sent, vi_reset_report s))))
       else Inr ([], s)) (\<lambda>(out, s).
     Inr (out, vi_emit (ScheduleMeasurementGuardIntervalEnd (now + vi_measurementGuardInterval s)) s)))"

section \<open>What the receiver counts\<close>

text \<open>Between two reports: data packets, and the control messages whose delay is measured.\<close>

datatype report_event =
    DataPacket time GmaHeader nat
  | CtrlMessage time MxControlHeader

fun vi_event :: "report_event \<Rightarrow> GmaVi \<Rightarrow> GmaVi" where
  "vi_event (DataPacket now g bytes) s = vi_report_packet now g bytes s"
| "vi_event (CtrlMessage now h) s = vi_recv_owd now h s"

definition vi_events :: "report_event list \<Rightarrow> GmaVi \<Rightarrow> GmaVi" where
  "vi_events es s = foldl (\<lambda>s e. vi_event e s) s es"

fun re_counted :: "report_event \<Rightarrow> bool" where
  "re_counted (DataPacket now g bytes) = True"
| "re_counted (CtrlMessage now h) = (mx_type h = 1 \<or> mx_type h = 6 \<or> mx_type h = 7)"

fun re_cid :: "report_event \<Rightarrow> u8" where
  "re_cid (DataPacket now g bytes) = gh_connectionId g"
| "re_cid (CtrlMessage now h) = mx_connectionId h"

fun re_owd :: "report_event \<Rightarrow> u32" where
  "re_owd (DataPacket now g bytes) = vi_ms32 now - gh_timeStamp g"
| "re_owd (CtrlMessage now h) = vi_ms32 now - mx_timeStamp h"

fun re_bytes :: "report_event \<Rightarrow> nat" where
  "re_bytes (DataPacket now g bytes) = bytes"
| "re_bytes (CtrlMessage now h) = 0"

definition re_of :: "u8 \<Rightarrow> report_event list \<Rightarrow> report_event list" where
  "re_of cid es = filter (\<lambda>e. re_counted e \<and> re_cid e = cid) es"

abbreviation vi_params :: "GmaVi \<Rightarrow> (u8, MeasureParam) smap" where
  "vi_params s \<equiv> rq_measureParamPerCidMap (vi_reorder s)"

text \<open>The sums of a link and how an event adds to them.\<close>

definition mp_sums :: "MeasureParam \<Rightarrow> u64 \<times> u64 \<times> u64" where
  "mp_sums p = (mp_rcvBytes p, mp_count p, mp_owdSum p)"

definition mp_add :: "report_event \<Rightarrow> u64 \<times> u64 \<times> u64 \<Rightarrow> u64 \<times> u64 \<times> u64" where
  "mp_add e = (\<lambda>(r, n, sum). (r + of_nat (re_bytes e), n + 1, sum + ucast (re_owd e)))"

lemma vi_upd_param_find:
  "sm_find c (vi_params (vi_upd_param cid f s)) = (if c = cid
    then Some (f (case sm_find cid (vi_params s) of None \<Rightarrow> MeasureParam_new | Some p \<Rightarrow> p)) else sm_find c (vi_params s))"
  by (auto simp: vi_upd_param_def Let_def split: option.splits)

lemma mp_sums_lsn [simp]: "mp_sums (snd (vi_report_lsn g n p)) = mp_sums p"
  by (simp add: mp_sums_def vi_report_lsn_def Let_def)

lemma mp_sums_simps [simp]:
  "mp_sums MeasureParam_new = (0, 0, 0)"
  "mp_sums (vi_owd_minmax owd p) = mp_sums p"
  "mp_sums (p\<lparr>mp_numOfHighDelayPkt := k\<rparr>) = mp_sums p"
  "mp_sums (p\<lparr>mp_rcvBytes := mp_rcvBytes p + b\<rparr>) = (fst (mp_sums p) + b, snd (mp_sums p))"
  "mp_sums (vi_owd_sum owd p) = (fst (mp_sums p), fst (snd (mp_sums p)) + 1, snd (snd (mp_sums p)) + ucast owd)"
  by (simp_all add: mp_sums_def MeasureParam_new_def vi_owd_minmax_def vi_owd_sum_def)

definition mp_old :: "MeasureParam option \<Rightarrow> u64 \<times> u64 \<times> u64" where
  "mp_old p = (case p of None \<Rightarrow> (0, 0, 0) | Some p \<Rightarrow> mp_sums p)"

lemma vi_event_find:
  assumes "rq_enableMeasureReport (vi_reorder s)"
  shows "map_option mp_sums (sm_find c (vi_params (vi_event e s))) =
    (if re_counted e \<and> re_cid e = c then Some (mp_add e (mp_old (sm_find c (vi_params s))))
     else map_option mp_sums (sm_find c (vi_params s)))"
  using assms
  by (cases e) (auto simp: vi_report_packet_def vi_recv_owd_def Let_def vi_upd_param_find mp_add_def mp_old_def
    split_beta split: option.splits)

lemma vi_event_bytes:
  assumes "rq_enableMeasureReport (vi_reorder s)"
  shows "vi_receivedBytes (vi_event e s) = vi_receivedBytes s + of_nat (re_bytes e)"
  using assms by (cases e) (auto simp: vi_report_packet_def vi_recv_owd_def Let_def vi_upd_param_def)

text \<open>What an event leaves alone.\<close>

definition vi_static :: "GmaVi \<Rightarrow> GmaVi \<Rightarrow> bool" where
  "vi_static s s' \<longleftrightarrow> rq_enableMeasureReport (vi_reorder s') = rq_enableMeasureReport (vi_reorder s)
    \<and> vi_links s' = vi_links s \<and> vi_phy s' = vi_phy s \<and> vi_linkState s' = vi_linkState s
    \<and> vi_lastDecision s' = vi_lastDecision s \<and> vi_measurementInterval s' = vi_measurementInterval s
    \<and> vi_clientRoleEnabled s' = vi_clientRoleEnabled s \<and> vi_serverRoleEnabled s' = vi_serverRoleEnabled s"

lemma vi_event_static: "vi_static s (vi_event e s)"
  by (cases e) (simp_all add: vi_static_def vi_report_packet_def vi_recv_owd_def Let_def vi_upd_param_def)

lemma vi_events_static: "vi_static s (vi_events es s)"
proof (induction es rule: rev_induct)
  case (snoc e es)
  with vi_event_static [of "vi_events es s" e] show ?case by (simp add: vi_events_def vi_static_def)
qed (simp add: vi_events_def vi_static_def)

lemma vi_events_find:
  assumes "rq_enableMeasureReport (vi_reorder s)" "vi_params s = []"
  shows "map_option mp_sums (sm_find c (vi_params (vi_events es s))) =
    (if re_of c es = [] then None
     else Some (of_nat (sum_list (map re_bytes (re_of c es))), of_nat (length (re_of c es)),
       of_nat (sum_list (map (\<lambda>e. unat (re_owd e)) (re_of c es)))))"
proof (induction es rule: rev_induct)
  case Nil
  with assms(2) show ?case by (simp add: vi_events_def re_of_def)
next
  case (snoc e es)
  have "rq_enableMeasureReport (vi_reorder (vi_events es s))" using vi_events_static assms(1) by (simp add: vi_static_def)
  note step = vi_event_find [OF this, of c e]
  have u: "of_nat (unat w) = (ucast w :: u64)" for w :: u32 by simp
  show ?case
  proof (cases "re_counted e \<and> re_cid e = c")
    case True
    with step snoc show ?thesis
      by (cases "sm_find c (vi_params (vi_events es s))")
        (auto simp: vi_events_def re_of_def mp_old_def mp_add_def ac_simps u split: if_splits)
  next
    case False
    with step snoc show ?thesis by (auto simp: vi_events_def re_of_def)
  qed
qed

lemma vi_events_bytes:
  assumes "rq_enableMeasureReport (vi_reorder s)"
  shows "vi_receivedBytes (vi_events es s) = vi_receivedBytes s + of_nat (sum_list (map re_bytes es))"
proof (induction es rule: rev_induct)
  case (snoc e es)
  have "rq_enableMeasureReport (vi_reorder (vi_events es s))" using vi_events_static assms(1) by (simp add: vi_static_def)
  from vi_event_bytes [OF this, of e] snoc show ?case by (simp add: vi_events_def)
qed (simp add: vi_events_def)

section \<open>The report of an interval\<close>

text \<open>The interface can report: it does report, the interval is at least a millisecond long, all links and the links
  of the last decision have names, and a Wi-Fi link has its access object.\<close>

definition vi_reportable :: "GmaVi \<Rightarrow> bool" where
  "vi_reportable s \<longleftrightarrow> rq_enableMeasureReport (vi_reorder s) \<and> vi_interval_ms s \<noteq> 0
    \<and> (\<forall>(cid, link) \<in> set (vi_links s). is_ok (ls_ConvertCidToString (uint cid)))
    \<and> (case vi_lastDecision s of None \<Rightarrow> True
       | Some d \<Rightarrow> length (sd_splitIndexList d) \<le> length (ls_cidList (vi_linkState s)))
    \<and> (\<forall>cid \<in> set (ls_cidList (vi_linkState s)). is_ok (ls_ConvertCidToString (uint cid)))
    \<and> is_ok (vi_phy_of (of_int WIFI_CID) s)"

lemma vi_static_reportable: "vi_static s s' \<Longrightarrow> vi_reportable s' = vi_reportable s"
  by (simp add: vi_static_def vi_reportable_def vi_interval_ms_def vi_phy_of_def cong: option.case_cong)

lemma vi_div_ok [simp]: "b \<noteq> 0 \<Longrightarrow> vi_div a b = Inr (a div b)"
  by (simp add: vi_div_def)

lemma vi_rate_ok: "vi_interval_ms s \<noteq> 0 \<Longrightarrow> is_ok (vi_rate n s)"
  by (simp add: vi_rate_def is_ok_iff)

lemma vi_split_ratios_ok:
  assumes "vi_reportable s"
  shows "is_ok (vi_split_ratios s)"
proof (cases "vi_lastDecision s")
  case (Some d)
  have body: "is_ok (rbind (vec_at (ls_cidList (vi_linkState s)) link) (\<lambda>cid. rbind (ls_ConvertCidToString (uint cid)) (g cid)))"
    if "link \<in> set [0..<length (sd_splitIndexList d)]" "\<And>cid x. is_ok (g cid x)" for link g
  proof -
    from that assms Some have l: "link < length (ls_cidList (vi_linkState s))" by (auto simp: vi_reportable_def)
    with assms have "is_ok (ls_ConvertCidToString (uint (ls_cidList (vi_linkState s) ! link)))"
      by (auto simp: vi_reportable_def)
    with l that(2) show ?thesis by (auto simp: is_ok_iff)
  qed
  show ?thesis
    unfolding vi_split_ratios_def Some option.case by (rule rfoldl_ok, rule body) simp_all
qed (simp add: vi_split_ratios_def)

lemma vi_flow_report_ok:
  assumes "vi_reportable s"
  shows "is_ok (vi_flow_report pos s)"
proof -
  from assms have ms: "vi_interval_ms s \<noteq> 0" by (simp add: vi_reportable_def)
  obtain rate where "vi_rate (mp_rcvBytes (rq_flowParam (vi_reorder s))) s = Inr rate"
    using vi_rate_ok [OF ms] by (auto simp: is_ok_iff)
  moreover obtain ratios where "vi_split_ratios s = Inr ratios" using vi_split_ratios_ok [OF assms] by (auto simp: is_ok_iff)
  ultimately show ?thesis using ms by (simp add: vi_flow_report_def Let_def is_ok_iff)
qed

text \<open>No division by zero: the parameters of a link exist only when something was counted.\<close>

definition vi_counted :: "GmaVi \<Rightarrow> bool" where
  "vi_counted s \<longleftrightarrow> (\<forall>cid p. sm_find cid (vi_params s) = Some p \<longrightarrow> mp_count p \<noteq> 0)"

lemma vi_link_report_ok:
  assumes "vi_reportable s" "vi_counted s" "(cid, link) \<in> set (vi_links s)" "ls_ConvertCidToString (uint cid) = Inr c"
  obtains out e where "vi_link_report processor q s (cid, link) = Inr (out, e)"
    "sm_find cid (vi_params s) = None \<Longrightarrow> (c @ ''::'' @ vi_direction s @ ''::traffic_ratio'', 0) \<in> set e
      \<and> (c @ ''::'' @ vi_direction s @ ''::owd'', -1) \<in> set e"
    "\<And>p. sm_find cid (vi_params s) = Some p \<Longrightarrow>
      (c @ ''::'' @ vi_direction s @ ''::traffic_ratio'', vi_traffic_ratio (mp_rcvBytes p) s) \<in> set e
      \<and> (c @ ''::'' @ vi_direction s @ ''::owd'', dbl (mp_owdSum p div mp_count p)) \<in> set e"
proof -
  have phy: "\<exists>x. (if cid = of_int WIFI_CID then rbind (vi_phy_of cid s) (\<lambda>_. Inr ()) else Inr ()) = (Inr x :: unit result)"
    using assms(1) by (auto simp: vi_reportable_def is_ok_iff)
  show thesis
  proof (cases "sm_find cid (vi_params s)")
    case None
    with phy assms(4) that show thesis by (auto simp: vi_link_report_def Let_def)
  next
    case (Some p)
    then have n: "mp_count p \<noteq> 0" using assms(2) by (auto simp: vi_counted_def)
    obtain rate where "vi_rate (mp_rcvBytes p) s = Inr rate"
      using vi_rate_ok [of s "mp_rcvBytes p"] assms(1) by (auto simp: vi_reportable_def is_ok_iff)
    with phy assms(4) that Some n show thesis by (auto simp: vi_link_report_def Let_def)
  qed
qed

text \<open>The entries of a link are in the report of all links.\<close>

lemma vi_links_report_ok:
  assumes "vi_reportable s" "vi_counted s"
  shows "\<exists>out e. vi_links_report processor q s = Inr (out, e)
    \<and> (\<forall>l \<in> set (vi_links s). \<exists>o' e'. vi_link_report processor q s l = Inr (o', e') \<and> set e' \<subseteq> set e)"
proof -
  let ?f = "\<lambda>(out, element) link. rbind (vi_link_report processor q s link) (\<lambda>(out', e). Inr (out @ out', element @ e))"
  have "\<exists>out e. rfoldl ?f (out0, e0) ls = Inr (out, e) \<and> set e0 \<subseteq> set e
      \<and> (\<forall>l \<in> set ls. \<exists>o' e'. vi_link_report processor q s l = Inr (o', e') \<and> set e' \<subseteq> set e)"
    if "set ls \<subseteq> set (vi_links s)" for ls out0 e0
    using that
  proof (induction ls arbitrary: out0 e0)
    case (Cons l ls)
    obtain cid link where l: "l = (cid, link)" by (cases l)
    with Cons.prems have mem: "(cid, link) \<in> set (vi_links s)" by simp
    then obtain c where "ls_ConvertCidToString (uint cid) = Inr c" using assms(1) by (auto simp: vi_reportable_def is_ok_iff)
    from vi_link_report_ok [OF assms mem this, of processor q] obtain o1 e1 where
      r: "vi_link_report processor q s l = Inr (o1, e1)" unfolding l by blast
    have "set ls \<subseteq> set (vi_links s)" using Cons.prems by simp
    from Cons.IH [OF this, of "out0 @ o1" "e0 @ e1"] obtain out e where
      IH: "rfoldl ?f (out0 @ o1, e0 @ e1) ls = Inr (out, e)" "set (e0 @ e1) \<subseteq> set e"
        "\<forall>l \<in> set ls. \<exists>o' e'. vi_link_report processor q s l = Inr (o', e') \<and> set e' \<subseteq> set e" by blast
    from IH(2,3) r show ?case by (auto simp: r IH(1))
  qed simp
  from this [of "vi_links s" "[]" "[]"] show ?thesis by (simp add: vi_links_report_def)
qed

lemma vi_send_report_ok:
  assumes "vi_reportable s"
  shows "\<exists>out. vi_send_report True element sliceSum sliceMean s = Inr out \<and> AppendMeasurement ''gma'' element \<in> set out"
proof -
  obtain phy where "vi_phy_of (of_int WIFI_CID) s = Inr phy" using assms by (auto simp: vi_reportable_def is_ok_iff)
  then show ?thesis by (simp add: vi_send_report_def ls_ConvertCidToString_def)
qed

text \<open>The state the report is made from: only the timeout differs.\<close>

lemma vi_update_timeout_static:
  "rq_enableMeasureReport (vi_update_timeout now a b r) = rq_enableMeasureReport r"
  "rq_linkParamsMap (vi_update_timeout now a b r) = rq_linkParamsMap r"
  "rq_measureParamPerCidMap (vi_update_timeout now a b r) = rq_measureParamPerCidMap r"
  by (simp_all add: vi_update_timeout_def Let_def split_beta)

lemma vi_timeout_of_range: "vi_timeout_of a b \<in> {MIN_REORDERING_TIMEOUT..MAX_REORDERING_TIMEOUT}"
  by (simp add: vi_timeout_of_def MIN_REORDERING_TIMEOUT_def MAX_REORDERING_TIMEOUT_def)

lemma vi_update_timeout_range:
  assumes "rq_reorderingTimeout r \<in> {MIN_REORDERING_TIMEOUT..MAX_REORDERING_TIMEOUT}"
  shows "rq_reorderingTimeout (vi_update_timeout now a b r) \<in> {MIN_REORDERING_TIMEOUT..MAX_REORDERING_TIMEOUT}"
  using assms vi_timeout_of_range by (simp add: vi_update_timeout_def Let_def split_beta)

lemma vi_CollectMeasureResults_ok:
  assumes "vi_reportable s" "vi_counted s"
  shows "\<exists>out s' element. vi_CollectMeasureResults now longMax longMin pos True s = Inr (out, s')
    \<and> AppendMeasurement ''gma'' element \<in> set out
    \<and> (\<forall>(cid, link) \<in> set (vi_links s). \<forall>c. ls_ConvertCidToString (uint cid) = Inr c \<longrightarrow>
        (case sm_find cid (vi_params s) of
           None \<Rightarrow> (c @ ''::'' @ vi_direction s @ ''::traffic_ratio'', 0) \<in> set element
             \<and> (c @ ''::'' @ vi_direction s @ ''::owd'', -1) \<in> set element
         | Some p \<Rightarrow> (c @ ''::'' @ vi_direction s @ ''::traffic_ratio'', vi_traffic_ratio (mp_rcvBytes p) s) \<in> set element
             \<and> (c @ ''::'' @ vi_direction s @ ''::owd'', dbl (mp_owdSum p div mp_count p)) \<in> set element))"
proof -
  define t where "t = s\<lparr>vi_reorder := vi_update_timeout now longMax longMin (vi_reorder s)\<rparr>"
  have st: "vi_static s t" by (simp add: vi_static_def t_def vi_update_timeout_static)
  have ok: "vi_reportable t" using assms(1) vi_static_reportable [OF st] by simp
  have par: "vi_params t = vi_params s" "vi_links t = vi_links s" "vi_direction t = vi_direction s"
    "vi_traffic_ratio n t = vi_traffic_ratio n s" for n
    by (simp_all add: t_def vi_update_timeout_static vi_direction_def vi_traffic_ratio_def)
  have cnt: "vi_counted t" using assms(2) par by (simp add: vi_counted_def)
  obtain e0 sliceSum sliceMean where e0: "vi_flow_report pos t = Inr (e0, sliceSum, sliceMean)"
    using vi_flow_report_ok [OF ok, of pos] by (auto simp: is_ok_iff)
  obtain o1 e1 where e1: "vi_links_report True (vi_flowQosMet t) t = Inr (o1, e1)"
    "\<forall>l \<in> set (vi_links t). \<exists>o' e'. vi_link_report True (vi_flowQosMet t) t l = Inr (o', e') \<and> set e' \<subseteq> set e1"
    using vi_links_report_ok [OF ok cnt] by metis
  obtain out where out: "vi_send_report True (e0 @ e1) sliceSum sliceMean t = Inr out"
    "AppendMeasurement ''gma'' (e0 @ e1) \<in> set out" using vi_send_report_ok [OF ok] by blast
  have on: "rq_enableMeasureReport (vi_reorder t)" using ok by (simp add: vi_reportable_def)
  have run: "\<exists>s'. vi_CollectMeasureResults now longMax longMin pos True s = Inr (o1 @ out, s')"
    by (simp add: vi_CollectMeasureResults_def Let_def t_def [symmetric] on e0 e1(1) out(1))
  have entries: "case sm_find cid (vi_params s) of
           None \<Rightarrow> (c @ ''::'' @ vi_direction s @ ''::traffic_ratio'', 0) \<in> set (e0 @ e1)
             \<and> (c @ ''::'' @ vi_direction s @ ''::owd'', -1) \<in> set (e0 @ e1)
         | Some p \<Rightarrow> (c @ ''::'' @ vi_direction s @ ''::traffic_ratio'', vi_traffic_ratio (mp_rcvBytes p) s) \<in> set (e0 @ e1)
             \<and> (c @ ''::'' @ vi_direction s @ ''::owd'', dbl (mp_owdSum p div mp_count p)) \<in> set (e0 @ e1)"
    if l: "(cid, link) \<in> set (vi_links s)" "ls_ConvertCidToString (uint cid) = Inr c" for cid link c
  proof -
    have mem: "(cid, link) \<in> set (vi_links t)" using l(1) par by simp
    with e1(2) obtain o' e' where e': "vi_link_report True (vi_flowQosMet t) t (cid, link) = Inr (o', e')" "set e' \<subseteq> set e1"
      by blast
    have sub: "set e' \<subseteq> set (e0 @ e1)" using e'(2) by auto
    show ?thesis
      by (rule vi_link_report_ok [OF ok cnt mem l(2), of True "vi_flowQosMet t"])
        (use e'(1) sub par in \<open>auto split: option.split\<close>)
  qed
  with run out(2) show ?thesis by fastforce
qed

lemma uint_of_nat_u64: "n < 2 ^ 64 \<Longrightarrow> uint (of_nat n :: u64) = int n"
  by (simp add: uint_nat unat_of_nat take_bit_nat_eq_self_iff flip: of_nat_take_bit)

lemma dbl_of_nat: "n < 2 ^ 64 \<Longrightarrow> dbl (of_nat n :: u64) = real n"
  by (simp only: uint_of_nat_u64 of_int_of_nat_eq)

lemma dbl_div_of_nat:
  assumes "a < 2 ^ 64" "b < 2 ^ 64"
  shows "dbl ((of_nat a :: u64) div of_nat b) = real (a div b)"
  by (simp only: uint_div uint_of_nat_u64 assms of_int_of_nat_eq flip: zdiv_int)

lemma re_of_sum: "sum_list (map f (re_of c es)) \<le> sum_list (map f es)" for f :: "report_event \<Rightarrow> nat"
  by (induction es) (simp_all add: re_of_def)

lemma vi_guard_end:
  "vi_params (vi_MeasurementGuardIntervalEnd now s) = []" "vi_receivedBytes (vi_MeasurementGuardIntervalEnd now s) = 0"
  "vi_static s (vi_MeasurementGuardIntervalEnd now s)"
  by (simp_all add: vi_MeasurementGuardIntervalEnd_def Let_def vi_static_def)

text \<open>An interval: everything is as at its start but the counters, which say what arrived.\<close>

lemma vi_interval:
  assumes "vi_reportable s" "s0 = vi_MeasurementGuardIntervalEnd start s" "length es < 2 ^ 64"
  shows "vi_static s (vi_events es s0)" "vi_reportable (vi_events es s0)" "vi_counted (vi_events es s0)"
    and "vi_receivedBytes (vi_events es s0) = of_nat (sum_list (map re_bytes es))"
    and "map_option mp_sums (sm_find cid (vi_params (vi_events es s0))) = (if re_of cid es = [] then None
      else Some (of_nat (sum_list (map re_bytes (re_of cid es))), of_nat (length (re_of cid es)),
        of_nat (sum_list (map (\<lambda>e. unat (re_owd e)) (re_of cid es)))))"
proof -
  show st: "vi_static s (vi_events es s0)"
    using vi_events_static [of s0 es] vi_guard_end(3) [of s start] assms(2) by (simp add: vi_static_def)
  then show "vi_reportable (vi_events es s0)" using assms(1) vi_static_reportable by blast
  have on: "rq_enableMeasureReport (vi_reorder s0)"
    using vi_guard_end(3) [of s start] assms(1,2) by (simp add: vi_static_def vi_reportable_def)
  have nil: "vi_params s0 = []" using vi_guard_end(1) assms(2) by simp
  note find = vi_events_find [OF on nil, of _ es]
  from find show "map_option mp_sums (sm_find cid (vi_params (vi_events es s0))) = (if re_of cid es = [] then None
      else Some (of_nat (sum_list (map re_bytes (re_of cid es))), of_nat (length (re_of cid es)),
        of_nat (sum_list (map (\<lambda>e. unat (re_owd e)) (re_of cid es)))))" .
  show "vi_receivedBytes (vi_events es s0) = of_nat (sum_list (map re_bytes es))"
    using vi_events_bytes [OF on] vi_guard_end(2) assms(2) by simp
  show "vi_counted (vi_events es s0)"
    unfolding vi_counted_def
  proof (intro allI impI)
    fix k p assume "sm_find k (vi_params (vi_events es s0)) = Some p"
    with find [of k] have ne: "re_of k es \<noteq> []" "mp_count p = of_nat (length (re_of k es))"
      by (auto simp: mp_sums_def split: if_splits)
    have "length (re_of k es) < 2 ^ 64" using assms(3) by (simp add: re_of_def le_less_trans [OF length_filter_le])
    with ne uint_of_nat_u64 have "uint (mp_count p) = int (length (re_of k es))" by metis
    with ne(1) show "mp_count p \<noteq> 0" by auto
  qed
qed

lemma vi_ratio_of_nat:
  assumes "vi_receivedBytes t = of_nat tot" "tot < 2 ^ 64" "n < 2 ^ 64"
  shows "vi_traffic_ratio (of_nat n) t = (if tot = 0 then 0 else real_of_int (cround (100 * real n / real tot)))"
proof (cases "tot = 0")
  case False
  have "(of_nat tot :: u64) \<noteq> 0"
  proof
    assume "(of_nat tot :: u64) = 0"
    with uint_of_nat_u64 [OF assms(2)] have "int tot = 0" by (simp only: unsigned_0)
    with False show False by simp
  qed
  with False show ?thesis unfolding vi_traffic_ratio_def assms(1) dbl_of_nat [OF assms(2)] dbl_of_nat [OF assms(3)] by simp
qed (simp add: vi_traffic_ratio_def assms(1))

text \<open>C12: The receiver's counters and CollectMeasureResults: after the start of an interval and any packets and
  control messages received in it (fewer than 2^64, and as many bytes and milliseconds of delay), the report never
  fails, in particular divides by no zero, and says of every link exactly what arrived on it: the share of the bytes in
  percent, rounded, and the average delay in whole milliseconds, or -1 when nothing arrived.\<close>

theorem vi_report_of_interval:
  assumes "vi_reportable s" "s0 = vi_MeasurementGuardIntervalEnd start s"
    and "length es < 2 ^ 64" "sum_list (map re_bytes es) < 2 ^ 64" "sum_list (map (\<lambda>e. unat (re_owd e)) es) < 2 ^ 64"
    and "(cid, link) \<in> set (vi_links s)" "ls_ConvertCidToString (uint cid) = Inr c"
  shows "\<exists>out s' element. vi_CollectMeasureResults now longMax longMin pos True (vi_events es s0) = Inr (out, s')
    \<and> AppendMeasurement ''gma'' element \<in> set out
    \<and> (c @ ''::'' @ vi_direction s @ ''::traffic_ratio'',
        if sum_list (map re_bytes es) = 0 then 0
        else real_of_int (cround (100 * real (sum_list (map re_bytes (re_of cid es))) / real (sum_list (map re_bytes es)))))
      \<in> set element
    \<and> (c @ ''::'' @ vi_direction s @ ''::owd'',
        if re_of cid es = [] then -1
        else real (sum_list (map (\<lambda>e. unat (re_owd e)) (re_of cid es)) div length (re_of cid es)))
      \<in> set element"
proof -
  let ?t = "vi_events es s0"
  let ?L = "re_of cid es"
  note int = vi_interval [OF assms(1-3)]
  have dir: "vi_direction ?t = vi_direction s" "vi_links ?t = vi_links s"
    using int(1) by (simp_all add: vi_static_def vi_direction_def)
  have b: "sum_list (map re_bytes ?L) < 2 ^ 64" "sum_list (map (\<lambda>e. unat (re_owd e)) ?L) < 2 ^ 64" "length ?L < 2 ^ 64"
    using re_of_sum assms(4,5) le_less_trans assms(3) length_filter_le unfolding re_of_def by blast+
  note ratio = vi_ratio_of_nat [OF int(4) assms(4) b(1)]
  obtain out s' element where r: "vi_CollectMeasureResults now longMax longMin pos True ?t = Inr (out, s')"
    "AppendMeasurement ''gma'' element \<in> set out"
    and all: "\<forall>(cid, link) \<in> set (vi_links ?t). \<forall>c. ls_ConvertCidToString (uint cid) = Inr c \<longrightarrow>
        (case sm_find cid (vi_params ?t) of
           None \<Rightarrow> (c @ ''::'' @ vi_direction ?t @ ''::traffic_ratio'', 0) \<in> set element
             \<and> (c @ ''::'' @ vi_direction ?t @ ''::owd'', -1) \<in> set element
         | Some p \<Rightarrow> (c @ ''::'' @ vi_direction ?t @ ''::traffic_ratio'', vi_traffic_ratio (mp_rcvBytes p) ?t) \<in> set element
             \<and> (c @ ''::'' @ vi_direction ?t @ ''::owd'', dbl (mp_owdSum p div mp_count p)) \<in> set element)"
    using vi_CollectMeasureResults_ok [OF int(2,3), of now longMax longMin pos] by blast
  have mem: "(cid, link) \<in> set (vi_links ?t)" using assms(6) dir(2) by simp
  from bspec [OF all mem] have entry: "case sm_find cid (vi_params ?t) of
           None \<Rightarrow> (c @ ''::'' @ vi_direction s @ ''::traffic_ratio'', 0) \<in> set element
             \<and> (c @ ''::'' @ vi_direction s @ ''::owd'', -1) \<in> set element
         | Some p \<Rightarrow> (c @ ''::'' @ vi_direction s @ ''::traffic_ratio'', vi_traffic_ratio (mp_rcvBytes p) ?t) \<in> set element
             \<and> (c @ ''::'' @ vi_direction s @ ''::owd'', dbl (mp_owdSum p div mp_count p)) \<in> set element"
    using assms(7) unfolding dir(1) prod.case by blast
  show ?thesis
  proof (cases "sm_find cid (vi_params ?t)")
    case None
    with int(5) [of cid] have e: "?L = []" by (simp split: if_splits)
    have "cround 0 = 0" by (simp add: cround_def)
    with None entry r e show ?thesis by (intro exI [of _ out] exI [of _ s'] exI [of _ element]) simp
  next
    case (Some p)
    with int(5) [of cid] have p: "?L \<noteq> []" "mp_rcvBytes p = of_nat (sum_list (map re_bytes ?L))"
      "mp_count p = of_nat (length ?L)" "mp_owdSum p = of_nat (sum_list (map (\<lambda>e. unat (re_owd e)) ?L))"
      by (simp_all add: mp_sums_def split: if_splits)
    from entry have
      "(c @ ''::'' @ vi_direction s @ ''::traffic_ratio'', vi_traffic_ratio (of_nat (sum_list (map re_bytes ?L))) ?t) \<in> set element"
      "(c @ ''::'' @ vi_direction s @ ''::owd'', dbl ((of_nat (sum_list (map (\<lambda>e. unat (re_owd e)) ?L)) :: u64) div of_nat (length ?L)))
        \<in> set element"
      unfolding Some option.case p(2-4) by blast+
    from this [unfolded ratio dbl_div_of_nat [OF b(2,3)]] r p(1) show ?thesis
      by (intro exI [of _ out] exI [of _ s'] exI [of _ element]) (simp only: if_False simp_thms)
  qed
qed

text \<open>A client with a Wi-Fi and an LTE link that received 300 bytes over one and 100 over the other.\<close>

definition vi_report_example :: "GmaHeader \<Rightarrow> MxControlHeader \<Rightarrow> GmaVi" where
  "vi_report_example gma mx = (let s = GmaVirtualInterface_new gma mx 1 0 in
    s\<lparr>vi_reorder := (vi_reorder s)\<lparr>rq_linkParamsMap := [(0, LinkParams_new), (2, LinkParams_new)]\<rparr>,
      vi_phy := [(0, PhyAccessControl_new 0 0 0)], vi_clientRoleEnabled := True\<rparr>)"

abbreviation vi_report_packets :: "GmaHeader \<Rightarrow> report_event list" where
  "vi_report_packets gma \<equiv> [DataPacket 5000000 (gma\<lparr>gh_connectionId := 0, gh_timeStamp := 1\<rparr>) 300,
    DataPacket 5000000 (gma\<lparr>gh_connectionId := 2, gh_timeStamp := 2\<rparr>) 100]"

lemma vi_report_example_ok:
  "vi_reportable (vi_report_example gma mx)" "(0, LinkParams_new) \<in> set (vi_links (vi_report_example gma mx))"
  "vi_direction (vi_report_example gma mx) = ''dl''"
  by (simp_all add: vi_reportable_def vi_report_example_def GmaVirtualInterface_new_def Let_def vi_interval_ms_def
    ls_ConvertCidToString_def WIFI_CID_def CELLULAR_LTE_CID_def CELLULAR_NR_CID_def NETWORK_CID_def LinkState_new_def
    vi_phy_of_def sm_find_def vi_direction_def)

theorem vi_report_of_interval_witness:
  "\<forall>gma mx. \<exists>out s' element. vi_CollectMeasureResults 9000000 0 0 None True
      (vi_events (vi_report_packets gma) (vi_MeasurementGuardIntervalEnd 0 (vi_report_example gma mx))) = Inr (out, s')
    \<and> AppendMeasurement ''gma'' element \<in> set out
    \<and> (''wifi::dl::traffic_ratio'', 75) \<in> set element \<and> (''wifi::dl::owd'', 4) \<in> set element"
proof (intro allI)
  fix gma mx
  let ?es = "vi_report_packets gma"
  have c: "ls_ConvertCidToString (uint (0 :: u8)) = Inr ''wifi''" by (simp add: ls_ConvertCidToString_def WIFI_CID_def)
  have of: "re_of 0 ?es = [DataPacket 5000000 (gma\<lparr>gh_connectionId := 0, gh_timeStamp := 1\<rparr>) 300]" by (simp add: re_of_def)
  have round: "cround 75 = 75" by (simp add: cround_def)
  have sums: "length ?es < 2 ^ 64" "sum_list (map re_bytes ?es) < 2 ^ 64"
    "sum_list (map (\<lambda>e. unat (re_owd e)) ?es) < 2 ^ 64" by simp_all
  from vi_report_of_interval [OF vi_report_example_ok(1) refl sums vi_report_example_ok(2) c,
      where start = 0 and now = 9000000 and longMax = 0 and longMin = 0 and pos = None]
  show "\<exists>out s' element. vi_CollectMeasureResults 9000000 0 0 None True
      (vi_events (vi_report_packets gma) (vi_MeasurementGuardIntervalEnd 0 (vi_report_example gma mx))) = Inr (out, s')
    \<and> AppendMeasurement ''gma'' element \<in> set out
    \<and> (''wifi::dl::traffic_ratio'', 75) \<in> set element \<and> (''wifi::dl::owd'', 4) \<in> set element"
    by (simp add: of vi_report_example_ok(3) round)
qed

end
