(* ===== verification/Queue_Disc.thy ===== *)
theory Queue_Disc
  imports Prelude "HOL-Library.Sublist"
begin

text \<open>Queue disciplines with a priority per packet: what they share, and the two simple ones, \<open>PppQueueDisc\<close> and
  \<open>PppDelayQueueDisc\<close> (\<open>src/contrib/gma/model/ppp-queue-disc.cc\<close>, \<open>ppp-delay-queue-disc.cc\<close>).

  All of them have one internal drop tail queue (\<open>src/src/network/utils\<close>), here the list of its items; its counters
  of packets and bytes and those of \<open>QueueDisc\<close> (\<open>src/src/traffic-control/model/queue-disc.cc\<close>) follow the list.
  A packet that is taken off the internal queue and dropped is simply gone: it is counted as dequeued.  \<open>Now()\<close> is an
  argument.\<close>

section \<open>Items and the internal queue\<close>

text \<open>\<open>qi_size\<close> is \<open>GetSize ()\<close> of the item, \<open>qi_bytes\<close> of its packet; \<open>qi_tag\<close> is the \<open>PppTag\<close> of the
  packet, and \<open>qi_id\<close> stands for its contents.\<close>

record QueueDiscItem =
  qi_id :: nat
  qi_size :: u32
  qi_bytes :: u32
  qi_tag :: "u8 option"
  qi_time :: time

record QueueDisc =
  dq_items :: "QueueDiscItem list"
  dq_bytesMode :: bool
  dq_maxValue :: u32
  dq_droppedPackets :: u32
  dq_droppedBytes :: u64

definition dq_currentSize :: "QueueDisc \<Rightarrow> u32" where
  "dq_currentSize s = (if dq_bytesMode s then sum_list (map qi_size (dq_items s)) else of_nat (length (dq_items s)))"

text \<open>\<open>GetCurrentSize () + item\<close>, as a value of the unit of the maximum.\<close>

definition dq_size_with :: "QueueDiscItem \<Rightarrow> QueueDisc \<Rightarrow> u32" where
  "dq_size_with item s = dq_currentSize s + (if dq_bytesMode s then qi_size item else 1)"

text \<open>The counters \<open>nTotalDroppedPacketsBeforeEnqueue\<close> and \<open>nTotalDroppedBytesBeforeEnqueue\<close>.  Nothing is dropped after
  a dequeue by the class, so those of all drops are the same; and there is one reason.\<close>

definition dq_DropBeforeEnqueue :: "QueueDiscItem \<Rightarrow> QueueDisc \<Rightarrow> QueueDisc" where
  "dq_DropBeforeEnqueue item s =
    s\<lparr>dq_droppedPackets := dq_droppedPackets s + 1, dq_droppedBytes := dq_droppedBytes s + ucast (qi_size item)\<rparr>"

text \<open>\<open>CheckConfig\<close> of every discipline: the numbers of classes, filters and internal queues; one queue is added to none.\<close>

definition dq_CheckConfig :: "nat \<Rightarrow> nat \<Rightarrow> nat \<Rightarrow> bool \<times> nat" where
  "dq_CheckConfig classes filters queues =
    (if classes > 0 then (False, queues)
     else if filters > 0 then (False, queues)
     else let queues = (if queues = 0 then 1 else queues) in (queues = 1, queues))"

text \<open>Enqueue of the internal queue, which drops what does not fit.\<close>

definition dq_internal_enqueue :: "QueueDiscItem \<Rightarrow> QueueDisc \<Rightarrow> bool \<times> QueueDisc" where
  "dq_internal_enqueue item s =
    (if dq_size_with item s > dq_maxValue s then (False, dq_DropBeforeEnqueue item s)
     else (True, s\<lparr>dq_items := dq_items s @ [item]\<rparr>))"

definition dq_internal_dequeue :: "QueueDisc \<Rightarrow> QueueDiscItem option \<times> QueueDisc" where
  "dq_internal_dequeue s = (case dq_items s of [] \<Rightarrow> (None, s) | i # is \<Rightarrow> (Some i, s\<lparr>dq_items := is\<rparr>))"

definition dq_DoPeek :: "QueueDisc \<Rightarrow> QueueDiscItem option" where
  "dq_DoPeek s = (case dq_items s of [] \<Rightarrow> None | i # is \<Rightarrow> Some i)"

text \<open>\<open>QueueDisc::Enqueue\<close> sets the time stamp of an accepted item.\<close>

abbreviation qi_stamp :: "time \<Rightarrow> QueueDiscItem \<Rightarrow> QueueDiscItem" where
  "qi_stamp now item \<equiv> item\<lparr>qi_time := now\<rparr>"

section \<open>The contract of a queue discipline\<close>

text \<open>Whatever it drops, a discipline with one queue keeps the order: an item is accepted at the end or not at all,
  and the next item is delivered after some at the front were dropped, or all of them are dropped.\<close>

datatype queue_op =
    Enqueue time QueueDiscItem
  | Dequeue time

fun dq_run :: "(time \<Rightarrow> QueueDiscItem \<Rightarrow> 's \<Rightarrow> (bool \<times> 's) result) \<Rightarrow> (time \<Rightarrow> 's \<Rightarrow> (QueueDiscItem option \<times> 's) result)
    \<Rightarrow> queue_op list \<Rightarrow> 's \<Rightarrow> (QueueDiscItem list \<times> QueueDiscItem list \<times> 's) result" where
  "dq_run enq deq [] s = Inr ([], [], s)"
| "dq_run enq deq (Enqueue now item # ops) s =
    rbind (enq now item s) (\<lambda>(accepted, s).
    rbind (dq_run enq deq ops s) (\<lambda>(a, d, s).
    Inr (if accepted then qi_stamp now item # a else a, d, s)))"
| "dq_run enq deq (Dequeue now # ops) s =
    rbind (deq now s) (\<lambda>(r, s).
    rbind (dq_run enq deq ops s) (\<lambda>(a, d, s).
    Inr (a, (case r of None \<Rightarrow> d | Some item \<Rightarrow> item # d), s)))"

text \<open>The items of a run have to be of a kind the discipline handles; then nothing fails.\<close>

fun dq_enqueued :: "queue_op list \<Rightarrow> QueueDiscItem list" where
  "dq_enqueued [] = []"
| "dq_enqueued (Enqueue now item # ops) = item # dq_enqueued ops"
| "dq_enqueued (Dequeue now # ops) = dq_enqueued ops"

definition dq_took :: "QueueDiscItem list \<Rightarrow> QueueDiscItem option \<Rightarrow> QueueDiscItem list \<Rightarrow> bool" where
  "dq_took is r is' \<longleftrightarrow> (case r of None \<Rightarrow> is' = [] | Some item \<Rightarrow> \<exists>dropped. is = dropped @ item # is')"

lemma dq_took_Cons: "dq_took is r is' \<Longrightarrow> dq_took (i # is) r is'"
  by (auto simp: dq_took_def split: option.splits intro: exI [of _ "i # _"])

lemma dq_took_first [simp]: "dq_took (i # is) (Some i) is"
  by (auto simp: dq_took_def)

lemma dq_took_None [simp]: "dq_took is None []"
  by (simp add: dq_took_def)

lemma dq_took_subset: "dq_took is r is' \<Longrightarrow> set is' \<subseteq> set is"
  by (auto simp: dq_took_def split: option.splits)

locale queue_disc =
  fixes enq :: "time \<Rightarrow> QueueDiscItem \<Rightarrow> 's \<Rightarrow> (bool \<times> 's) result"
    and deq :: "time \<Rightarrow> 's \<Rightarrow> (QueueDiscItem option \<times> 's) result"
    and items :: "'s \<Rightarrow> QueueDiscItem list"
    and invar :: "'s \<Rightarrow> bool"
    and allowed :: "QueueDiscItem \<Rightarrow> bool"
  assumes enq_law: "invar s \<Longrightarrow> allowed item \<Longrightarrow> \<exists>accepted s'. enq now item s = Inr (accepted, s') \<and> invar s' \<and>
      items s' = (if accepted then items s @ [qi_stamp now item] else items s)"
    and deq_law: "invar s \<Longrightarrow> \<exists>r s'. deq now s = Inr (r, s') \<and> invar s' \<and> dq_took (items s) r (items s')"
begin

text \<open>No run fails, and the delivered items, and after them those still queued, are a subsequence of the
  accepted ones.\<close>

lemma run_fifo:
  assumes "invar s" "\<forall>item \<in> set (dq_enqueued ops). allowed item"
  shows "\<exists>a d s'. dq_run enq deq ops s = Inr (a, d, s') \<and> invar s' \<and> subseq (d @ items s') (items s @ a)"
  using assms
proof (induction ops arbitrary: s)
  case (Cons op ops)
  show ?case
  proof (cases op)
    case (Enqueue now item)
    with Cons.prems have "allowed item" "\<forall>item \<in> set (dq_enqueued ops). allowed item" by auto
    from enq_law [OF Cons.prems(1) this(1)] obtain accepted s1 where s1: "enq now item s = Inr (accepted, s1)"
      "invar s1" "items s1 = (if accepted then items s @ [qi_stamp now item] else items s)" by blast
    from Cons.IH [OF s1(2)] \<open>\<forall>item \<in> set (dq_enqueued ops). allowed item\<close> obtain a d s' where
      "dq_run enq deq ops s1 = Inr (a, d, s')" "invar s'" "subseq (d @ items s') (items s1 @ a)" by blast
    with s1 Enqueue show ?thesis by (cases accepted) simp_all
  next
    case (Dequeue now)
    with Cons.prems have allowed: "\<forall>item \<in> set (dq_enqueued ops). allowed item" by simp
    from deq_law [OF Cons.prems(1)] obtain r s1 where s1: "deq now s = Inr (r, s1)" "invar s1"
      "dq_took (items s) r (items s1)" by blast
    from Cons.IH [OF s1(2) allowed] obtain a d s' where run: "dq_run enq deq ops s1 = Inr (a, d, s')" "invar s'"
      "subseq (d @ items s') (items s1 @ a)" by blast
    show ?thesis
    proof (cases r)
      case None
      with run(3) s1(3) have "subseq (d @ items s') (items s @ a)"
        by (auto simp: dq_took_def intro: list_emb_append2)
      with run s1 Dequeue None show ?thesis by simp
    next
      case (Some item)
      with s1(3) obtain dropped where "items s = dropped @ item # items s1" by (auto simp: dq_took_def)
      with run(3) have "subseq ((item # d) @ items s') (items s @ a)" by (simp add: list_emb_append2)
      with run s1 Dequeue Some show ?thesis by simp
    qed
  qed
qed simp

end

section \<open>PppQueueDisc\<close>

text \<open>A packet of priority \<open>p\<close> may fill only a part of the queue, less for a larger \<open>p\<close>.  The tag of a
  packet without one is whatever the variable holds: \<open>raw\<close> when it was never set.\<close>

definition pq_level :: u8 where "pq_level = 5"

definition pq_tag :: "u8 \<Rightarrow> QueueDiscItem \<Rightarrow> u8" where
  "pq_tag tag item = (case qi_tag item of None \<Rightarrow> tag | Some p \<Rightarrow> p)"

definition pq_GetWeightedQueueSize :: "u8 \<Rightarrow> u8 \<Rightarrow> QueueDisc \<Rightarrow> u32 result" where
  "pq_GetWeightedQueueSize ppp L s =
    rbind (rassert (ppp \<le> L) ''per packet priority cannot be greater than L!!!'') (\<lambda>_.
    Inr (dq_maxValue s * of_int (uint L - uint ppp) div ucast L))"

definition pq_DoEnqueue :: "u8 \<Rightarrow> time \<Rightarrow> QueueDiscItem \<Rightarrow> QueueDisc \<Rightarrow> (bool \<times> QueueDisc) result" where
  "pq_DoEnqueue raw now item s =
    rbind (pq_GetWeightedQueueSize (pq_tag raw item) pq_level s) (\<lambda>weighted.
    if dq_size_with item s > weighted then Inr (False, dq_DropBeforeEnqueue item s)
    else Inr (dq_internal_enqueue (qi_stamp now item) s))"

lemma dq_internal_dequeue_length:
  "(Some i, s') = dq_internal_dequeue s \<Longrightarrow> length (dq_items s') < length (dq_items s)"
  by (auto simp: dq_internal_dequeue_def split: list.splits)

text \<open>The loop that drops the dequeued packet and takes the next one.\<close>

function pq_dequeue_loop :: "u8 \<Rightarrow> QueueDiscItem \<Rightarrow> QueueDisc \<Rightarrow> (QueueDiscItem option \<times> QueueDisc) result" where
  "pq_dequeue_loop tag item s =
    rbind (pq_GetWeightedQueueSize tag pq_level s) (\<lambda>weighted.
    if dq_size_with item s > weighted then
      (case dq_internal_dequeue s of
         (None, s') \<Rightarrow> Inr (None, s')
       | (Some item', s') \<Rightarrow> pq_dequeue_loop (pq_tag tag item') item' s')
    else Inr (Some item, s))"
  by auto

termination
  by (relation "measure (\<lambda>(tag, item, s). length (dq_items s))") (simp_all add: dq_internal_dequeue_length)

definition pq_DoDequeue :: "u8 \<Rightarrow> time \<Rightarrow> QueueDisc \<Rightarrow> (QueueDiscItem option \<times> QueueDisc) result" where
  "pq_DoDequeue raw now s =
    (case dq_internal_dequeue s of
       (None, s') \<Rightarrow> Inr (None, s')
     | (Some item, s') \<Rightarrow> pq_dequeue_loop (pq_tag raw item) item s')"

section \<open>PppDelayQueueDisc\<close>

text \<open>A packet of priority \<open>p\<close> may wait only for a part of the delay limit; one without a tag for any time.\<close>

definition pd_level :: u8 where "pd_level = 5"
definition pd_delayLimit :: u32 where "pd_delayLimit = 35"

definition pd_GetWeightedDelayLimit :: "u8 \<Rightarrow> u8 \<Rightarrow> u32 result" where
  "pd_GetWeightedDelayLimit ppp L =
    rbind (rassert (ppp \<le> L) ''per packet priority cannot be greater than L!!!'') (\<lambda>_.
    Inr (pd_delayLimit * of_int (uint L - uint ppp) div ucast L))"

definition pd_DoEnqueue :: "time \<Rightarrow> QueueDiscItem \<Rightarrow> QueueDisc \<Rightarrow> (bool \<times> QueueDisc) result" where
  "pd_DoEnqueue now item s =
    (if dq_size_with item s > dq_maxValue s then Inr (False, dq_DropBeforeEnqueue item s)
     else Inr (dq_internal_enqueue (qi_stamp now item) s))"

text \<open>The difference of the milliseconds is signed, the limit is not.\<close>

function pd_dequeue_loop :: "time \<Rightarrow> QueueDisc \<Rightarrow> (QueueDiscItem option \<times> QueueDisc) result" where
  "pd_dequeue_loop now s =
    (case dq_internal_dequeue s of
       (None, s') \<Rightarrow> Inr (None, s')
     | (Some item, s') \<Rightarrow>
         (case qi_tag item of
            None \<Rightarrow> Inr (Some item, s')
          | Some tag \<Rightarrow>
              rbind (pd_GetWeightedDelayLimit tag pd_level) (\<lambda>limit.
              if ms_of now - ms_of (qi_time item) > uint limit then pd_dequeue_loop now s'
              else Inr (Some item, s'))))"
  by auto

termination
  by (relation "measure (\<lambda>(now, s). length (dq_items s))") (simp_all add: dq_internal_dequeue_length)

definition pd_DoDequeue :: "time \<Rightarrow> QueueDisc \<Rightarrow> (QueueDiscItem option \<times> QueueDisc) result" where
  "pd_DoDequeue now s = pd_dequeue_loop now s"

lemma dq_size_with_stamp [simp]: "dq_size_with (qi_stamp now item) s = dq_size_with item s"
  by (simp add: dq_size_with_def)

section \<open>PppDelayQueueDisc drops exactly the late packets in front\<close>

lemma dq_internal_enqueue_items:
  "dq_internal_enqueue item s = (b, s') \<Longrightarrow> dq_items s' = (if b then dq_items s @ [item] else dq_items s)"
  by (auto simp: dq_internal_enqueue_def dq_DropBeforeEnqueue_def split: if_splits)

lemma dq_internal_dequeue_simps [simp]:
  "dq_items s = [] \<Longrightarrow> dq_internal_dequeue s = (None, s)"
  "dq_items s = i # is \<Longrightarrow> dq_internal_dequeue s = (Some i, s\<lparr>dq_items := is\<rparr>)"
  by (simp_all add: dq_internal_dequeue_def)

declare pq_dequeue_loop.simps [simp del] pd_dequeue_loop.simps [simp del]

lemma u8_le_5_cases: "p \<le> 5 \<Longrightarrow> p = 0 \<or> p = 1 \<or> p = 2 \<or> p = 3 \<or> p = 4 \<or> p = (5 :: u8)"
  by (auto simp: word_le_nat_alt word_unat_eq_iff)

text \<open>No packet of priority \<open>p\<close> is delivered after more than \<open>7 (5 - p)\<close> ms in the delay queue.\<close>

lemma pd_limit:
  assumes "p \<le> 5"
  obtains limit where "pd_GetWeightedDelayLimit p pd_level = Inr limit" "uint limit = 7 * (5 - uint p)"
  using u8_le_5_cases [OF assms]
  by (elim disjE) (auto simp: pd_GetWeightedDelayLimit_def pd_level_def pd_delayLimit_def)

definition pd_late :: "time \<Rightarrow> QueueDiscItem \<Rightarrow> bool" where
  "pd_late now item =
    (case qi_tag item of None \<Rightarrow> False | Some p \<Rightarrow> ms_of now - ms_of (qi_time item) > 7 * (5 - uint p))"

definition pd_allowed :: "QueueDiscItem \<Rightarrow> bool" where
  "pd_allowed item = (case qi_tag item of None \<Rightarrow> True | Some p \<Rightarrow> p \<le> 5)"

definition pd_spec :: "time \<Rightarrow> QueueDisc \<Rightarrow> QueueDiscItem option \<times> QueueDisc" where
  "pd_spec now s =
    (case dropWhile (pd_late now) (dq_items s) of
       [] \<Rightarrow> (None, s\<lparr>dq_items := []\<rparr>)
     | i # is \<Rightarrow> (Some i, s\<lparr>dq_items := is\<rparr>))"

lemma pd_dequeue_loop_spec:
  "\<forall>item \<in> set (dq_items s). pd_allowed item \<Longrightarrow> pd_dequeue_loop now s = Inr (pd_spec now s)"
proof (induction "dq_items s" arbitrary: s)
  case Nil
  then show ?case by (subst pd_dequeue_loop.simps) (simp add: pd_spec_def flip: Nil)
next
  case (Cons i "is")
  define s1 where "s1 = s\<lparr>dq_items := is\<rparr>"
  have IH: "pd_dequeue_loop now s1 = Inr (pd_spec now s1)" using Cons by (simp add: s1_def flip: Cons.hyps(2))
  have loop: "pd_dequeue_loop now s = (case qi_tag i of None \<Rightarrow> Inr (Some i, s1)
     | Some tag \<Rightarrow> rbind (pd_GetWeightedDelayLimit tag pd_level) (\<lambda>limit.
         if ms_of now - ms_of (qi_time i) > uint limit then pd_dequeue_loop now s1 else Inr (Some i, s1)))"
    by (subst pd_dequeue_loop.simps) (simp flip: Cons.hyps(2) s1_def)
  have spec: "pd_spec now s = (if pd_late now i then pd_spec now s1 else (Some i, s1))"
    by (simp add: pd_spec_def s1_def flip: Cons.hyps(2) cong: list.case_cong)
  show ?case
  proof (cases "qi_tag i")
    case None
    with loop spec show ?thesis by (simp add: pd_late_def)
  next
    case (Some p)
    with Cons have "p \<le> 5" by (auto simp: pd_allowed_def simp flip: Cons.hyps(2))
    then obtain limit where "pd_GetWeightedDelayLimit p pd_level = Inr limit" "uint limit = 7 * (5 - uint p)"
      by (rule pd_limit)
    with loop spec Some IH show ?thesis by (simp add: pd_late_def)
  qed
qed

lemma dropWhile_took: "dropWhile P is = i # is' \<Longrightarrow> \<exists>dropped. is = dropped @ i # is'"
  by (metis takeWhile_dropWhile_id)

lemma pd_spec_took: "pd_spec now s = (r, s') \<Longrightarrow> dq_took (dq_items s) r (dq_items s')"
  by (auto simp: pd_spec_def dq_took_def split: list.splits dest: dropWhile_took)

interpretation pd: queue_disc pd_DoEnqueue pd_DoDequeue dq_items "\<lambda>s. \<forall>item \<in> set (dq_items s). pd_allowed item" pd_allowed
proof
  fix s :: QueueDisc and item now
  assume "\<forall>item \<in> set (dq_items s). pd_allowed item" "pd_allowed item"
  moreover have "pd_allowed (qi_stamp now item) = pd_allowed item" by (simp add: pd_allowed_def)
  ultimately show "\<exists>accepted s'. pd_DoEnqueue now item s = Inr (accepted, s') \<and>
      (\<forall>item \<in> set (dq_items s'). pd_allowed item) \<and>
      dq_items s' = (if accepted then dq_items s @ [qi_stamp now item] else dq_items s)"
    by (auto simp: pd_DoEnqueue_def dq_DropBeforeEnqueue_def dq_internal_enqueue_def)
next
  fix s :: QueueDisc and now
  assume s: "\<forall>item \<in> set (dq_items s). pd_allowed item"
  obtain r s' where spec: "pd_spec now s = (r, s')" by (cases "pd_spec now s")
  show "\<exists>r s'. pd_DoDequeue now s = Inr (r, s') \<and> (\<forall>item \<in> set (dq_items s'). pd_allowed item) \<and>
      dq_took (dq_items s) r (dq_items s')"
    using s pd_dequeue_loop_spec [OF s] pd_spec_took [OF spec] dq_took_subset [OF pd_spec_took [OF spec]] spec
    by (auto simp: pd_DoDequeue_def)
qed

text \<open>C25: In every run of \<open>PppDelayQueueDisc\<close> on packets of priorities up to 5 the queue never fails; the delivered
  packets, and behind them those still queued, are a subsequence of the accepted ones, in their order; and a
  dequeue drops exactly the packets in front that waited longer than \<open>7 (5 - p)\<close> ms.\<close>

theorem pd_run_in_order:
  assumes "dq_items s = []" "\<forall>item \<in> set (dq_enqueued ops). pd_allowed item"
  shows "\<exists>accepted delivered s'. dq_run pd_DoEnqueue pd_DoDequeue ops s = Inr (accepted, delivered, s') \<and>
      subseq (delivered @ dq_items s') accepted \<and> pd_DoDequeue now s' = Inr (pd_spec now s')"
proof -
  from pd.run_fifo [of s ops] assms obtain a d s' where run: "dq_run pd_DoEnqueue pd_DoDequeue ops s = Inr (a, d, s')"
    "\<forall>item \<in> set (dq_items s'). pd_allowed item" "subseq (d @ dq_items s') a" by auto
  with pd_dequeue_loop_spec [OF run(2)] show ?thesis by (simp add: pd_DoDequeue_def)
qed

text \<open>A packet of a larger priority is accepted, and the assertion stops the program when it is taken out.\<close>

lemma pd_high_priority_accepted:
  assumes "dq_items s = []" "dq_bytesMode s = False" "0 < dq_maxValue s" "qi_tag item = Some p" "\<not> p \<le> 5"
  shows "\<exists>s'. pd_DoEnqueue now item s = Inr (True, s') \<and>
      pd_DoDequeue now' s' = Inl (Assertion ''per packet priority cannot be greater than L!!!'')"
proof -
  have "\<not> 1 > dq_maxValue s" using assms(3) by (simp add: word_less_nat_alt word_gt_0 unat_gt_0 not_less flip: One_nat_def)
  then have "pd_DoEnqueue now item s = Inr (True, s\<lparr>dq_items := [qi_stamp now item]\<rparr>)"
    using assms by (simp add: pd_DoEnqueue_def dq_internal_enqueue_def dq_size_with_def dq_currentSize_def)
  moreover have "pd_DoDequeue now' (s\<lparr>dq_items := [qi_stamp now item]\<rparr>) =
      Inl (Assertion ''per packet priority cannot be greater than L!!!'')"
    using assms unfolding pd_DoDequeue_def
    by (subst pd_dequeue_loop.simps) (simp add: pd_GetWeightedDelayLimit_def pd_level_def)
  ultimately show ?thesis by blast
qed

section \<open>PppQueueDisc delivers what fits\<close>

definition pq_allowed :: "u8 \<Rightarrow> QueueDiscItem \<Rightarrow> bool" where
  "pq_allowed raw item \<longleftrightarrow> pq_tag raw item \<le> 5"

text \<open>The share of a priority, while five times the maximum does not overflow.\<close>

lemma pq_share:
  assumes "p \<le> 5" "uint (dq_maxValue s) * 5 < 4294967296"
  obtains w where "pq_GetWeightedQueueSize p pq_level s = Inr w" "uint w = uint (dq_maxValue s) * (5 - uint p) div 5"
proof -
  have mult: "uint (dq_maxValue s * word_of_int k) = uint (dq_maxValue s) * k" if "0 \<le> k" "k \<le> 5" for k
  proof -
    have "uint (dq_maxValue s) * k \<le> uint (dq_maxValue s) * 5" using that by (intro mult_left_mono) simp_all
    with assms(2) have "uint (dq_maxValue s) * k < 4294967296" by linarith
    then show ?thesis using that by (simp add: uint_mult_lem uint_word_of_int uint_word_ariths)
  qed
  have "uint (dq_maxValue s * word_of_int (5 - uint p) div 5) = uint (dq_maxValue s) * (5 - uint p) div 5"
    using mult [of "5 - uint p"] assms(1) by (simp add: uint_div word_le_def)
  then show ?thesis
    using that assms(1) by (simp add: pq_GetWeightedQueueSize_def pq_level_def)
qed

lemma pq_weighted_ok: "p \<le> 5 \<Longrightarrow> \<exists>w. pq_GetWeightedQueueSize p pq_level s = Inr w"
  by (simp add: pq_GetWeightedQueueSize_def pq_level_def)

text \<open>What the queue gives out, when it gives out something: a packet whose tag's share holds it and the rest.\<close>

definition pq_fits :: "QueueDiscItem option \<Rightarrow> QueueDisc \<Rightarrow> bool" where
  "pq_fits r s = (case r of None \<Rightarrow> True | Some item \<Rightarrow>
     (case qi_tag item of None \<Rightarrow> True | Some p \<Rightarrow>
       (case pq_GetWeightedQueueSize p pq_level s of Inl e \<Rightarrow> False | Inr w \<Rightarrow> dq_size_with item s \<le> w)))"

lemma pq_tag_le_5: "tag \<le> 5 \<Longrightarrow> pq_allowed raw item \<Longrightarrow> pq_tag tag item \<le> 5"
  by (simp add: pq_allowed_def pq_tag_def split: option.splits)

lemma pq_dequeue_loop_ok:
  assumes "tag \<le> 5" "\<forall>i \<in> set (dq_items s). pq_allowed raw i" "\<forall>p. qi_tag item = Some p \<longrightarrow> tag = p"
  shows "\<exists>r s'. pq_dequeue_loop tag item s = Inr (r, s') \<and> dq_took (item # dq_items s) r (dq_items s') \<and> pq_fits r s'"
  using assms
proof (induction "dq_items s" arbitrary: tag item s)
  case Nil
  from pq_weighted_ok [OF Nil.prems(1)] obtain w where w: "pq_GetWeightedQueueSize tag pq_level s = Inr w" by blast
  with Nil show ?case
    by (subst pq_dequeue_loop.simps) (auto simp: pq_fits_def not_less dq_took_def split: option.split)
next
  case (Cons i "is")
  from pq_weighted_ok [OF Cons.prems(1)] obtain w where w: "pq_GetWeightedQueueSize tag pq_level s = Inr w" by blast
  define s1 where "s1 = s\<lparr>dq_items := is\<rparr>"
  have items: "dq_items s = i # is" "is = dq_items s1" by (simp_all add: s1_def flip: Cons.hyps(2))
  have loop: "pq_dequeue_loop tag item s =
      (if dq_size_with item s > w then pq_dequeue_loop (pq_tag tag i) i s1 else Inr (Some item, s))"
    by (subst pq_dequeue_loop.simps) (simp add: w items(1) flip: s1_def)
  have "pq_tag tag i \<le> 5" using Cons.prems items by (auto intro: pq_tag_le_5)
  moreover have "\<forall>p. qi_tag i = Some p \<longrightarrow> pq_tag tag i = p" by (simp add: pq_tag_def)
  ultimately obtain r s' where "pq_dequeue_loop (pq_tag tag i) i s1 = Inr (r, s')"
    "dq_took (i # dq_items s1) r (dq_items s')" "pq_fits r s'"
    using Cons.hyps(1) [OF items(2), of "pq_tag tag i" i] Cons.prems(2) items by auto
  then show ?case
    using loop Cons.prems(3) w items
    by (cases "dq_size_with item s > w")
      (auto simp: pq_fits_def not_less dq_took_Cons split: option.split)
qed

lemma pq_DoDequeue_ok:
  assumes "\<forall>i \<in> set (dq_items s). pq_allowed raw i"
  shows "\<exists>r s'. pq_DoDequeue raw now s = Inr (r, s') \<and> dq_took (dq_items s) r (dq_items s') \<and> pq_fits r s'"
proof (cases "dq_items s")
  case Nil
  then show ?thesis by (simp add: pq_DoDequeue_def pq_fits_def)
next
  case (Cons i "is")
  with assms have "pq_tag raw i \<le> 5" "\<forall>p. qi_tag i = Some p \<longrightarrow> pq_tag raw i = p"
    by (simp_all add: pq_allowed_def pq_tag_def)
  from pq_dequeue_loop_ok [OF this(1) _ this(2), of "s\<lparr>dq_items := is\<rparr>" raw] assms Cons
  show ?thesis by (simp add: pq_DoDequeue_def)
qed

interpretation pq: queue_disc "pq_DoEnqueue raw" "pq_DoDequeue raw" dq_items
    "\<lambda>s. \<forall>item \<in> set (dq_items s). pq_allowed raw item" "pq_allowed raw" for raw
proof
  fix s :: QueueDisc and item now
  assume "\<forall>item \<in> set (dq_items s). pq_allowed raw item" and item: "pq_allowed raw item"
  moreover have "pq_allowed raw (qi_stamp now item) = pq_allowed raw item" by (simp add: pq_allowed_def pq_tag_def)
  moreover obtain w where "pq_GetWeightedQueueSize (pq_tag raw item) pq_level s = Inr w"
    using item pq_weighted_ok by (auto simp: pq_allowed_def)
  ultimately show "\<exists>accepted s'. pq_DoEnqueue raw now item s = Inr (accepted, s') \<and>
      (\<forall>item \<in> set (dq_items s'). pq_allowed raw item) \<and>
      dq_items s' = (if accepted then dq_items s @ [qi_stamp now item] else dq_items s)"
    by (auto simp: pq_DoEnqueue_def dq_DropBeforeEnqueue_def dq_internal_enqueue_def)
next
  fix s :: QueueDisc and now
  assume s: "\<forall>item \<in> set (dq_items s). pq_allowed raw item"
  from pq_DoDequeue_ok [OF s] obtain r s' where "pq_DoDequeue raw now s = Inr (r, s')"
    "dq_took (dq_items s) r (dq_items s')" by blast
  with s dq_took_subset [OF this(2)] show "\<exists>r s'. pq_DoDequeue raw now s = Inr (r, s') \<and>
      (\<forall>item \<in> set (dq_items s'). pq_allowed raw item) \<and> dq_took (dq_items s) r (dq_items s')"
    by auto
qed

text \<open>C26: In every run of \<open>PppQueueDisc\<close> on tagged packets of priorities up to 5 the queue never fails and keeps the
  order; and the next dequeue gives out a packet of priority \<open>p\<close> only when it and the packets behind it fill at
  most \<open>(5 - p) / 5\<close> of the maximum.\<close>

theorem pq_run_shares:
  assumes "dq_items s = []" "\<forall>item \<in> set (dq_enqueued ops). \<exists>p. qi_tag item = Some p \<and> p \<le> 5"
  shows "\<exists>accepted delivered s'. dq_run (pq_DoEnqueue raw) (pq_DoDequeue raw) ops s = Inr (accepted, delivered, s') \<and>
      subseq (delivered @ dq_items s') accepted \<and>
      (\<forall>now item s'' p. pq_DoDequeue raw now s' = Inr (Some item, s'') \<and> qi_tag item = Some p \<and>
        uint (dq_maxValue s'') * 5 < 4294967296 \<longrightarrow>
        uint (dq_size_with item s'') \<le> uint (dq_maxValue s'') * (5 - uint p) div 5)"
proof -
  have "\<forall>item \<in> set (dq_enqueued ops). pq_allowed raw item"
    using assms(2) by (auto simp: pq_allowed_def pq_tag_def)
  with pq.run_fifo [of s raw ops] assms obtain a d s' where run:
    "dq_run (pq_DoEnqueue raw) (pq_DoDequeue raw) ops s = Inr (a, d, s')"
    "\<forall>item \<in> set (dq_items s'). pq_allowed raw item" "subseq (d @ dq_items s') a" by auto
  have "uint (dq_size_with item s'') \<le> uint (dq_maxValue s'') * (5 - uint p) div 5"
    if "pq_DoDequeue raw now s' = Inr (Some item, s'')" "qi_tag item = Some p"
      "uint (dq_maxValue s'') * 5 < 4294967296" for now item s'' p
  proof -
    from pq_DoDequeue_ok [OF run(2), of now] that(1) have fits: "pq_fits (Some item) s''" by auto
    with that(2) have "p \<le> 5"
      by (auto simp: pq_fits_def pq_GetWeightedQueueSize_def pq_level_def split: sum.splits)
    from pq_share [OF this that(3)] obtain w where w: "pq_GetWeightedQueueSize p pq_level s'' = Inr w"
      "uint w = uint (dq_maxValue s'') * (5 - uint p) div 5" by blast
    with fits that(2) show ?thesis by (simp add: pq_fits_def word_le_def)
  qed
  with run show ?thesis by blast
qed

section \<open>Witnesses\<close>

definition dq_empty :: QueueDisc where
  "dq_empty = \<lparr>dq_items = [], dq_bytesMode = False, dq_maxValue = 1000, dq_droppedPackets = 0, dq_droppedBytes = 0\<rparr>"

definition dq_packet :: "nat \<Rightarrow> u8 \<Rightarrow> QueueDiscItem" where
  "dq_packet i p = \<lparr>qi_id = i, qi_size = 1500, qi_bytes = 1480, qi_tag = Some p, qi_time = 0\<rparr>"

lemma pd_run_in_order_witness:
  "\<exists>accepted delivered s'. dq_run pd_DoEnqueue pd_DoDequeue
      [Enqueue 0 (dq_packet 1 4), Enqueue 3000000 (dq_packet 2 0), Dequeue 9000000] dq_empty = Inr (accepted, delivered, s') \<and>
      subseq (delivered @ dq_items s') accepted \<and> pd_DoDequeue 20000000 s' = Inr (pd_spec 20000000 s')"
  by (rule pd_run_in_order) (simp_all add: dq_empty_def pd_allowed_def dq_packet_def)

lemma pq_run_shares_witness:
  "\<exists>accepted delivered s'. dq_run (pq_DoEnqueue 0) (pq_DoDequeue 0)
      [Enqueue 0 (dq_packet 1 4), Enqueue 3000000 (dq_packet 2 0), Dequeue 9000000] dq_empty = Inr (accepted, delivered, s') \<and>
      subseq (delivered @ dq_items s') accepted \<and>
      (\<forall>now item s'' p. pq_DoDequeue 0 now s' = Inr (Some item, s'') \<and> qi_tag item = Some p \<and>
        uint (dq_maxValue s'') * 5 < 4294967296 \<longrightarrow>
        uint (dq_size_with item s'') \<le> uint (dq_maxValue s'') * (5 - uint p) div 5)"
  by (rule pq_run_shares) (simp_all add: dq_empty_def dq_packet_def)

text \<open>A run with numbers: of the two packets the first waited too long for its priority.\<close>

lemma pd_run_example:
  "pd_DoDequeue 9000000 (dq_empty\<lparr>dq_items := [dq_packet 1 4, dq_packet 2 0]\<rparr>) =
    Inr (Some (dq_packet 2 0), dq_empty)"
  using pd_dequeue_loop_spec [of "dq_empty\<lparr>dq_items := [dq_packet 1 4, dq_packet 2 0]\<rparr>" 9000000]
  by (simp add: pd_DoDequeue_def pd_allowed_def pd_spec_def pd_late_def dq_packet_def dq_empty_def)

end
