(* ===== verification/Ppp_Aqm.thy ===== *)
theory Ppp_Aqm
  imports Queue_Disc
begin

text \<open>The active queue management of \<open>PppAqmQueueDisc\<close> (\<open>src/contrib/gma/model/ppp-aqm-queue-disc.cc\<close>).

  The class is the record \<open>PppAqm\<close>: its queue, two thresholds in percent of the delay limit, the number of queued
  packets per priority and the drop deficit.  A measurement event every 100 ms raises the thresholds again.  The
  invariant \<open>aq_ok\<close> says that the numbers count what is queued; with it taking a packet never fails, no tagged packet
  leaves later than the limit, and one of the highest priority is dropped only when it is later.\<close>

section \<open>State\<close>

record PppAqm =
  aq_queue :: QueueDisc
  aq_highThreshPer :: u32
  aq_lowThreshPer :: u32
  aq_pktPerPpp :: "u32 list"
  aq_pktDrop :: u32
  aq_maxDelayPpp :: u32
  aq_highReduceTs :: time
  aq_lowReduceTs :: time

definition MEASURE_INTERVAL :: time where "MEASURE_INTERVAL = 100000000"
definition INITIAL_PER :: u32 where "INITIAL_PER = 80"
definition aq_level :: nat where "aq_level = 10"
definition aq_delayLimit :: u32 where "aq_delayLimit = 35"

definition PppAqm_new :: "QueueDisc \<Rightarrow> PppAqm" where
  "PppAqm_new q = \<lparr>aq_queue = q, aq_highThreshPer = INITIAL_PER, aq_lowThreshPer = INITIAL_PER,
    aq_pktPerPpp = replicate aq_level 0, aq_pktDrop = 0, aq_maxDelayPpp = 0, aq_highReduceTs = 0, aq_lowReduceTs = 0\<rparr>"

section \<open>Operations\<close>

definition aq_add :: "u8 \<Rightarrow> u32 \<Rightarrow> PppAqm \<Rightarrow> PppAqm result" where
  "aq_add p d s =
    rbind (vec_at (aq_pktPerPpp s) (unat p)) (\<lambda>n. Inr (s\<lparr>aq_pktPerPpp := (aq_pktPerPpp s)[unat p := n + d]\<rparr>))"

definition aq_DoEnqueue :: "time \<Rightarrow> QueueDiscItem \<Rightarrow> PppAqm \<Rightarrow> (bool \<times> PppAqm) result" where
  "aq_DoEnqueue now item s =
    (if dq_size_with item (aq_queue s) > dq_maxValue (aq_queue s) then
       Inr (False, s\<lparr>aq_queue := dq_DropBeforeEnqueue item (aq_queue s)\<rparr>)
     else
       rbind (case qi_tag item of None \<Rightarrow> Inr s | Some p \<Rightarrow> aq_add p 1 s) (\<lambda>s.
       let (accepted, q) = dq_internal_enqueue (qi_stamp now item) (aq_queue s)
       in Inr (accepted, s\<lparr>aq_queue := q\<rparr>)))"

text \<open>The milliseconds a packet waited, as an unsigned number.\<close>

definition aq_owdMs :: "time \<Rightarrow> QueueDiscItem \<Rightarrow> u32" where
  "aq_owdMs now item = of_int (ms_of now - ms_of (qi_time item))"

definition aq_reduce_low :: "time \<Rightarrow> u32 \<Rightarrow> PppAqm \<Rightarrow> PppAqm" where
  "aq_reduce_low now owdMs s =
    (if owdMs > aq_delayLimit * aq_highThreshPer s div 100 \<and> now > aq_lowReduceTs s + MEASURE_INTERVAL then
       s\<lparr>aq_lowThreshPer := max (aq_lowThreshPer s div 2) 10, aq_lowReduceTs := now\<rparr>
     else s)"

definition aq_reduce_high :: "time \<Rightarrow> u32 \<Rightarrow> PppAqm \<Rightarrow> PppAqm" where
  "aq_reduce_high now owdMs s =
    (if owdMs > aq_delayLimit \<and> now > aq_highReduceTs s + MEASURE_INTERVAL then
       let high = max (aq_highThreshPer s div 2) 10
       in s\<lparr>aq_highThreshPer := high, aq_lowThreshPer := (if aq_lowThreshPer s > high then high else aq_lowThreshPer s),
            aq_highReduceTs := now\<rparr>
     else s)"

definition aq_measure :: "u32 \<Rightarrow> PppAqm \<Rightarrow> PppAqm" where
  "aq_measure owdMs s = (if owdMs > aq_maxDelayPpp s then s\<lparr>aq_maxDelayPpp := owdMs\<rparr> else s)"

text \<open>The number of queued packets of a lower priority, that is with a larger number.\<close>

definition aq_sumPkt :: "u8 \<Rightarrow> PppAqm \<Rightarrow> u32 result" where
  "aq_sumPkt p s =
    rfoldl (\<lambda>sumPkt i. rbind (vec_at (aq_pktPerPpp s) i) (\<lambda>n. Inr (sumPkt + n))) 0 [unat p + 1..<aq_level]"

text \<open>Whether the packet is transmitted.\<close>

definition aq_decide :: "u8 \<Rightarrow> u32 \<Rightarrow> PppAqm \<Rightarrow> (bool \<times> PppAqm) result" where
  "aq_decide p owdMs s =
    (if owdMs > aq_delayLimit then Inr (False, s)
     else if owdMs > aq_delayLimit * aq_highThreshPer s div 100 then Inr (\<not> p > 0, s)
     else if owdMs > aq_delayLimit * aq_lowThreshPer s div 100 then
       rbind (aq_sumPkt p s) (\<lambda>sumPkt.
       if p > 0 \<and> aq_pktDrop s > sumPkt then Inr (False, s)
       else Inr (True, s\<lparr>aq_pktDrop := aq_pktDrop s + 1\<rparr>))
     else Inr (True, if aq_pktDrop s > 0 then s\<lparr>aq_pktDrop := aq_pktDrop s - 1\<rparr> else s))"

text \<open>What one turn of the loop does with a packet that carries a tag.\<close>

definition aq_take :: "time \<Rightarrow> u8 \<Rightarrow> QueueDiscItem \<Rightarrow> PppAqm \<Rightarrow> (bool \<times> PppAqm) result" where
  "aq_take now p item s =
    rbind (aq_add p (- 1) s) (\<lambda>s.
    let owdMs = aq_owdMs now item
    in aq_decide p owdMs (aq_reduce_high now owdMs (aq_reduce_low now owdMs (aq_measure owdMs s))))"

lemma aq_update_keeps [simp]:
  "aq_queue (aq_measure owdMs s) = aq_queue s" "aq_pktPerPpp (aq_measure owdMs s) = aq_pktPerPpp s"
  "aq_queue (aq_reduce_low now owdMs s) = aq_queue s" "aq_pktPerPpp (aq_reduce_low now owdMs s) = aq_pktPerPpp s"
  "aq_queue (aq_reduce_high now owdMs s) = aq_queue s" "aq_pktPerPpp (aq_reduce_high now owdMs s) = aq_pktPerPpp s"
  by (simp_all add: aq_measure_def aq_reduce_low_def aq_reduce_high_def Let_def)

lemma aq_decide_keeps:
  assumes "aq_decide p owdMs s = Inr (sent, s')"
  shows "aq_queue s' = aq_queue s" "aq_pktPerPpp s' = aq_pktPerPpp s"
    "aq_highThreshPer s' = aq_highThreshPer s" "aq_lowThreshPer s' = aq_lowThreshPer s"
  using assms by (auto simp: aq_decide_def split: if_splits)

lemma aq_take_queue: "aq_take now p item s = Inr (sent, s') \<Longrightarrow> aq_queue s' = aq_queue s"
  by (auto simp: aq_take_def aq_add_def Let_def dest!: aq_decide_keeps(1))

lemma rbind_fundef_cong [fundef_cong]:
  "r = r' \<Longrightarrow> (\<And>x. r' = Inr x \<Longrightarrow> f x = g x) \<Longrightarrow> rbind r f = rbind r' g"
  by (cases r') simp_all

function aq_DoDequeue :: "time \<Rightarrow> PppAqm \<Rightarrow> (QueueDiscItem option \<times> PppAqm) result" where
  "aq_DoDequeue now s =
    (case dq_internal_dequeue (aq_queue s) of
       (None, q) \<Rightarrow> Inr (None, s\<lparr>aq_queue := q\<rparr>)
     | (Some item, q) \<Rightarrow>
         (case qi_tag item of
            None \<Rightarrow> Inr (Some item, s\<lparr>aq_queue := q\<rparr>)
          | Some p \<Rightarrow>
              rbind (aq_take now p item (s\<lparr>aq_queue := q\<rparr>)) (\<lambda>(sent, s).
              if sent then Inr (Some item, s) else aq_DoDequeue now s)))"
  by auto

termination
  by (relation "measure (\<lambda>(now, s). length (dq_items (aq_queue s)))")
    (auto dest!: aq_take_queue simp: dq_internal_dequeue_length)

definition aq_MeasurementEvent :: "PppAqm \<Rightarrow> PppAqm" where
  "aq_MeasurementEvent s =
    (let high = (if aq_maxDelayPpp s < aq_delayLimit * INITIAL_PER div 100 then min (aq_highThreshPer s + 10) INITIAL_PER
                 else aq_highThreshPer s);
         low = (if aq_maxDelayPpp s < aq_delayLimit * high * INITIAL_PER div 10000 then min (aq_lowThreshPer s + 10) high
                else aq_lowThreshPer s)
     in s\<lparr>aq_highThreshPer := high, aq_lowThreshPer := low, aq_maxDelayPpp := 0\<rparr>)"

section \<open>The thresholds\<close>

definition aq_thresh :: "PppAqm \<Rightarrow> bool" where
  "aq_thresh s \<longleftrightarrow> 10 \<le> aq_lowThreshPer s \<and> aq_lowThreshPer s \<le> aq_highThreshPer s \<and> aq_highThreshPer s \<le> INITIAL_PER"

lemma u32_div_2_le: "x div 2 \<le> (x :: u32)"
  by (simp add: word_le_nat_alt unat_div)

lemma aq_measure_thresh [simp]: "aq_thresh (aq_measure owdMs s) = aq_thresh s"
  by (simp add: aq_measure_def aq_thresh_def)

lemma aq_reduce_low_thresh: "aq_thresh s \<Longrightarrow> aq_thresh (aq_reduce_low now owdMs s)"
  using u32_div_2_le [of "aq_lowThreshPer s"] by (auto simp: aq_reduce_low_def aq_thresh_def max_def INITIAL_PER_def)

lemma aq_reduce_high_thresh: "aq_thresh s \<Longrightarrow> aq_thresh (aq_reduce_high now owdMs s)"
  using u32_div_2_le [of "aq_highThreshPer s"]
  by (auto simp: aq_reduce_high_def aq_thresh_def max_def INITIAL_PER_def Let_def)

lemma u32_add_10: "x \<le> 80 \<Longrightarrow> x \<le> x + (10 :: u32)"
  by (simp add: word_le_nat_alt unat_word_ariths)

lemma aq_MeasurementEvent_thresh:
  assumes "aq_thresh s"
  shows "aq_thresh (aq_MeasurementEvent s)"
proof -
  define high where "high = (if aq_maxDelayPpp s < aq_delayLimit * INITIAL_PER div 100
      then min (aq_highThreshPer s + 10) INITIAL_PER else aq_highThreshPer s)"
  define low where "low = (if aq_maxDelayPpp s < aq_delayLimit * high * INITIAL_PER div 10000
      then min (aq_lowThreshPer s + 10) high else aq_lowThreshPer s)"
  have s: "10 \<le> aq_lowThreshPer s" "aq_lowThreshPer s \<le> aq_highThreshPer s" "aq_highThreshPer s \<le> 80"
    using assms by (simp_all add: aq_thresh_def INITIAL_PER_def)
  have "aq_highThreshPer s \<le> high" "high \<le> 80"
    using u32_add_10 [OF s(3)] s(3) by (auto simp: high_def INITIAL_PER_def min_def)
  moreover have "aq_lowThreshPer s \<le> low" "low \<le> high"
    using u32_add_10 [of "aq_lowThreshPer s"] s calculation by (auto simp: low_def min_def)
  ultimately have "aq_thresh (s\<lparr>aq_highThreshPer := high, aq_lowThreshPer := low, aq_maxDelayPpp := 0\<rparr>)"
    using s(1) by (simp add: aq_thresh_def INITIAL_PER_def)
  then show ?thesis by (simp only: aq_MeasurementEvent_def Let_def high_def low_def)
qed

section \<open>The counters\<close>

definition aq_count :: "u8 \<Rightarrow> QueueDiscItem list \<Rightarrow> nat" where
  "aq_count p is = length (filter (\<lambda>item. qi_tag item = Some p) is)"

lemma aq_count_simps [simp]:
  "aq_count p [] = 0"
  "aq_count p (i # is) = (if qi_tag i = Some p then 1 else 0) + aq_count p is"
  "aq_count p (is @ is') = aq_count p is + aq_count p is'"
  by (simp_all add: aq_count_def)

definition aq_allowed :: "QueueDiscItem \<Rightarrow> bool" where
  "aq_allowed item = (case qi_tag item of None \<Rightarrow> True | Some p \<Rightarrow> unat p < aq_level)"

definition aq_counts :: "QueueDiscItem list \<Rightarrow> u32 list \<Rightarrow> bool" where
  "aq_counts is cs \<longleftrightarrow> length cs = aq_level \<and> (\<forall>p. unat p < aq_level \<longrightarrow> cs ! unat p = of_nat (aq_count p is))"

lemma aq_counts_update:
  assumes "aq_counts is cs" "unat p < aq_level" "\<And>p'. of_nat (aq_count p' is') = of_nat (aq_count p' is) + (if p' = p then d else 0)"
  shows "aq_counts is' (cs[unat p := cs ! unat p + d])"
  using assms by (auto simp: aq_counts_def nth_list_update simp flip: word_unat_eq_iff)

definition aq_ok :: "PppAqm \<Rightarrow> bool" where
  "aq_ok s \<longleftrightarrow> aq_thresh s \<and> aq_counts (dq_items (aq_queue s)) (aq_pktPerPpp s) \<and>
    (\<forall>item \<in> set (dq_items (aq_queue s)). aq_allowed item)"

lemma aq_sumPkt_ok:
  assumes "length (aq_pktPerPpp s) = aq_level"
  obtains n where "aq_sumPkt p s = Inr n"
proof -
  have "is_ok (aq_sumPkt p s)" unfolding aq_sumPkt_def
    by (rule rfoldl_ok) (simp add: assms)
  with that show thesis by (auto simp: is_ok_iff)
qed

lemma aq_decide_total:
  assumes "length (aq_pktPerPpp s) = aq_level"
  obtains sent s' where "aq_decide p owdMs s = Inr (sent, s')"
proof -
  obtain n where "aq_sumPkt p s = Inr n" by (rule aq_sumPkt_ok [OF assms])
  then have "is_ok (aq_decide p owdMs s)" by (simp add: aq_decide_def)
  with that show thesis by (auto simp: is_ok_iff)
qed

text \<open>A late packet is not sent, and one of the highest priority is not dropped otherwise.\<close>

lemma aq_decide_sent:
  assumes "aq_decide p owdMs s = Inr (sent, s')"
  shows "sent \<Longrightarrow> owdMs \<le> aq_delayLimit" "\<not> sent \<Longrightarrow> p > 0 \<or> owdMs > aq_delayLimit"
  using assms by (auto simp: aq_decide_def split: if_splits)

lemma aq_take_ok:
  assumes s: "aq_thresh s" "aq_counts (item # dq_items (aq_queue s)) (aq_pktPerPpp s)"
    and item: "qi_tag item = Some p" "unat p < aq_level"
  shows "\<exists>sent s'. aq_take now p item s = Inr (sent, s') \<and> aq_queue s' = aq_queue s \<and> aq_thresh s' \<and>
    aq_counts (dq_items (aq_queue s)) (aq_pktPerPpp s') \<and>
    (sent \<longrightarrow> aq_owdMs now item \<le> aq_delayLimit) \<and> (\<not> sent \<longrightarrow> p > 0 \<or> aq_owdMs now item > aq_delayLimit)"
proof -
  define owdMs where "owdMs = aq_owdMs now item"
  define cs where "cs = (aq_pktPerPpp s)[unat p := aq_pktPerPpp s ! unat p - 1]"
  define s1 where "s1 = aq_reduce_high now owdMs (aq_reduce_low now owdMs (aq_measure owdMs (s\<lparr>aq_pktPerPpp := cs\<rparr>)))"
  have counts: "aq_counts (dq_items (aq_queue s)) cs"
    using aq_counts_update [OF s(2) item(2), of "dq_items (aq_queue s)" "- 1"] item(1) by (simp add: cs_def)
  have len: "length (aq_pktPerPpp s) = aq_level" using s(2) by (simp add: aq_counts_def)
  have s1: "aq_queue s1 = aq_queue s" "aq_pktPerPpp s1 = cs" by (simp_all add: s1_def)
  have thresh: "aq_thresh s1"
  proof -
    have "aq_thresh (s\<lparr>aq_pktPerPpp := cs\<rparr>)" using s(1) by (simp add: aq_thresh_def)
    then show ?thesis by (simp add: s1_def aq_reduce_high_thresh aq_reduce_low_thresh)
  qed
  have "length (aq_pktPerPpp s1) = aq_level" using counts s1 by (simp add: aq_counts_def)
  then obtain sent s' where d: "aq_decide p owdMs s1 = Inr (sent, s')" by (rule aq_decide_total)
  have "aq_take now p item s = Inr (sent, s')"
    using d item(2) len by (simp add: aq_take_def aq_add_def Let_def s1_def cs_def owdMs_def)
  moreover have "aq_thresh s'" using thresh aq_decide_keeps [OF d] by (simp add: aq_thresh_def)
  ultimately show ?thesis using aq_decide_keeps [OF d] aq_decide_sent [OF d] s1 counts
    by (auto simp: owdMs_def)
qed

section \<open>Taking a packet\<close>

text \<open>What a turn of the queue may drop: a tagged packet that is not of the highest priority, or later than the limit.\<close>

definition aq_may_drop :: "time \<Rightarrow> QueueDiscItem \<Rightarrow> bool" where
  "aq_may_drop now item \<longleftrightarrow> (\<exists>p. qi_tag item = Some p \<and> (p > 0 \<or> aq_owdMs now item > aq_delayLimit))"

definition aq_in_time :: "time \<Rightarrow> QueueDiscItem option \<Rightarrow> bool" where
  "aq_in_time now r \<longleftrightarrow>
    (\<forall>item p. r = Some item \<and> qi_tag item = Some p \<longrightarrow> aq_owdMs now item \<le> aq_delayLimit)"

definition aq_dropped :: "time \<Rightarrow> QueueDiscItem list \<Rightarrow> QueueDiscItem option \<Rightarrow> QueueDiscItem list \<Rightarrow> bool" where
  "aq_dropped now is r is' \<longleftrightarrow>
    (\<exists>dropped. is = dropped @ (case r of None \<Rightarrow> [] | Some item \<Rightarrow> [item]) @ is' \<and>
      (\<forall>item \<in> set dropped. aq_may_drop now item) \<and> (r = None \<longrightarrow> is' = []))"

lemma aq_dropped_Cons: "aq_dropped now is r is' \<Longrightarrow> aq_may_drop now i \<Longrightarrow> aq_dropped now (i # is) r is'"
  unfolding aq_dropped_def by (metis append_Cons set_ConsD)

lemma aq_dropped_first [simp]: "aq_dropped now (i # is) (Some i) is"
  by (auto simp: aq_dropped_def)

lemma aq_dropped_took: "aq_dropped now is r is' \<Longrightarrow> dq_took is r is'"
  by (auto simp: aq_dropped_def dq_took_def split: option.splits)

declare aq_DoDequeue.simps [simp del]

lemma aq_DoDequeue_ok:
  assumes "aq_ok s"
  shows "\<exists>r s'. aq_DoDequeue now s = Inr (r, s') \<and> aq_ok s' \<and> aq_in_time now r \<and>
    aq_dropped now (dq_items (aq_queue s)) r (dq_items (aq_queue s'))"
  using assms
proof (induction "dq_items (aq_queue s)" arbitrary: s)
  case Nil
  then show ?case
    by (subst aq_DoDequeue.simps) (simp add: aq_in_time_def aq_dropped_def flip: Nil(1))
next
  case (Cons i "is")
  define q where "q = (aq_queue s)\<lparr>dq_items := is\<rparr>"
  define s1 where "s1 = s\<lparr>aq_queue := q\<rparr>"
  have items: "dq_items (aq_queue s) = i # is" "dq_items q = is" by (simp_all add: q_def flip: Cons.hyps(2))
  have loop: "aq_DoDequeue now s = (case qi_tag i of None \<Rightarrow> Inr (Some i, s1)
      | Some p \<Rightarrow> rbind (aq_take now p i s1) (\<lambda>(sent, s). if sent then Inr (Some i, s) else aq_DoDequeue now s))"
    unfolding s1_def by (subst aq_DoDequeue.simps) (simp add: items(1) flip: q_def)
  have thresh: "aq_thresh s1" using Cons.prems by (simp add: aq_ok_def aq_thresh_def s1_def)
  have counts: "aq_counts (i # is) (aq_pktPerPpp s1)" and allowed: "\<forall>item \<in> set (i # is). aq_allowed item"
    using Cons.prems items by (simp_all add: aq_ok_def s1_def)
  show ?case
  proof (cases "qi_tag i")
    case None
    have "aq_counts is (aq_pktPerPpp s1)" using counts None by (simp add: aq_counts_def)
    then have "aq_ok s1" using thresh allowed items by (simp add: aq_ok_def s1_def)
    with loop None items show ?thesis by (simp add: aq_in_time_def s1_def)
  next
    case (Some p)
    with allowed have "unat p < aq_level" by (simp add: aq_allowed_def)
    from aq_take_ok [OF thresh _ Some this, of now] counts items(2) obtain sent s2 where
      t: "aq_take now p i s1 = Inr (sent, s2)" "aq_queue s2 = q" "aq_thresh s2" "aq_counts is (aq_pktPerPpp s2)"
        "sent \<longrightarrow> aq_owdMs now i \<le> aq_delayLimit" "\<not> sent \<longrightarrow> p > 0 \<or> aq_owdMs now i > aq_delayLimit"
      by (auto simp: s1_def)
    have s2: "aq_ok s2" using t items(2) allowed by (simp add: aq_ok_def)
    show ?thesis
    proof (cases sent)
      case True
      with loop Some t s2 items show ?thesis by (simp add: aq_in_time_def)
    next
      case False
      from Cons.hyps(1) [OF _ s2] t(2) items(2) obtain r s' where "aq_DoDequeue now s2 = Inr (r, s')" "aq_ok s'"
        "aq_in_time now r" "aq_dropped now is r (dq_items (aq_queue s'))" by auto
      moreover have "aq_may_drop now i" using False t(6) Some by (auto simp: aq_may_drop_def)
      ultimately show ?thesis using loop Some t(1) False items by (auto intro: aq_dropped_Cons)
    qed
  qed
qed

section \<open>Runs\<close>

lemma aq_add_ok:
  assumes "aq_ok s" "unat p < aq_level"
  shows "aq_add p d s = Inr (s\<lparr>aq_pktPerPpp := (aq_pktPerPpp s)[unat p := aq_pktPerPpp s ! unat p + d]\<rparr>)"
  using assms by (simp add: aq_ok_def aq_counts_def aq_add_def)

lemma aq_DoEnqueue_ok:
  assumes "aq_ok s" "aq_allowed item"
  shows "\<exists>accepted s'. aq_DoEnqueue now item s = Inr (accepted, s') \<and> aq_ok s' \<and>
    dq_items (aq_queue s') = (if accepted then dq_items (aq_queue s) @ [qi_stamp now item] else dq_items (aq_queue s))"
proof (cases "dq_size_with item (aq_queue s) > dq_maxValue (aq_queue s)")
  case True
  have "aq_ok (s\<lparr>aq_queue := dq_DropBeforeEnqueue item (aq_queue s)\<rparr>)"
    using assms(1) by (simp add: aq_ok_def aq_thresh_def dq_DropBeforeEnqueue_def)
  with True show ?thesis by (auto simp: aq_DoEnqueue_def dq_DropBeforeEnqueue_def)
next
  case False
  define i where "i = qi_stamp now item"
  define q where "q = (aq_queue s)\<lparr>dq_items := dq_items (aq_queue s) @ [i]\<rparr>"
  have allowed: "aq_allowed i" "qi_tag i = qi_tag item" using assms(2) by (simp_all add: i_def aq_allowed_def)
  obtain cs where cs: "(case qi_tag item of None \<Rightarrow> Inr s | Some p \<Rightarrow> aq_add p 1 s) = Inr (s\<lparr>aq_pktPerPpp := cs\<rparr>)"
    "aq_counts (dq_items (aq_queue s) @ [i]) cs"
  proof (cases "qi_tag item")
    case None
    show thesis
      by (rule that [of "aq_pktPerPpp s"]) (use None assms(1) allowed in \<open>simp_all add: aq_ok_def aq_counts_def\<close>)
  next
    case (Some p)
    with assms(2) have p: "unat p < aq_level" by (simp add: aq_allowed_def)
    show thesis
    proof (rule that)
      show "(case qi_tag item of None \<Rightarrow> Inr s | Some p \<Rightarrow> aq_add p 1 s) =
          Inr (s\<lparr>aq_pktPerPpp := (aq_pktPerPpp s)[unat p := aq_pktPerPpp s ! unat p + 1]\<rparr>)"
        using Some aq_add_ok [OF assms(1) p] by simp
      show "aq_counts (dq_items (aq_queue s) @ [i]) ((aq_pktPerPpp s)[unat p := aq_pktPerPpp s ! unat p + 1])"
        by (rule aq_counts_update [of "dq_items (aq_queue s)"]) (use assms(1) p allowed(2) Some in \<open>simp_all add: aq_ok_def\<close>)
    qed
  qed
  have "dq_internal_enqueue i (aq_queue s) = (True, q)"
    using False by (simp add: dq_internal_enqueue_def i_def q_def)
  then have "aq_DoEnqueue now item s = Inr (True, s\<lparr>aq_pktPerPpp := cs, aq_queue := q\<rparr>)"
    using False cs(1) by (simp add: aq_DoEnqueue_def i_def)
  moreover have "aq_ok (s\<lparr>aq_pktPerPpp := cs, aq_queue := q\<rparr>)"
    using assms(1) cs(2) allowed(1) by (simp add: aq_ok_def aq_thresh_def q_def)
  ultimately show ?thesis by (auto simp: q_def i_def)
qed

interpretation aq: queue_disc aq_DoEnqueue aq_DoDequeue "\<lambda>s. dq_items (aq_queue s)" aq_ok aq_allowed
proof
  fix s now
  assume "aq_ok s"
  from aq_DoDequeue_ok [OF this, of now] aq_dropped_took
  show "\<exists>r s'. aq_DoDequeue now s = Inr (r, s') \<and> aq_ok s' \<and> dq_took (dq_items (aq_queue s)) r (dq_items (aq_queue s'))"
    by blast
qed (rule aq_DoEnqueue_ok)

lemma PppAqm_new_ok: "dq_items q = [] \<Longrightarrow> aq_ok (PppAqm_new q)"
  by (simp add: aq_ok_def PppAqm_new_def aq_thresh_def INITIAL_PER_def aq_counts_def aq_level_def)

lemma aq_MeasurementEvent_ok:
  assumes "aq_ok s"
  shows "aq_ok (aq_MeasurementEvent s)"
proof -
  have "aq_queue (aq_MeasurementEvent s) = aq_queue s" "aq_pktPerPpp (aq_MeasurementEvent s) = aq_pktPerPpp s"
    by (simp_all add: aq_MeasurementEvent_def Let_def)
  with assms aq_MeasurementEvent_thresh show ?thesis by (simp add: aq_ok_def)
qed

text \<open>The whole object: its queue operations and its event, as steps of a run.\<close>

datatype aq_event = QueueOp queue_op | Measure

definition aq_step :: "PppAqm \<Rightarrow> aq_event \<Rightarrow> PppAqm result" where
  "aq_step s e =
    (case e of
       QueueOp (Enqueue now item) \<Rightarrow> rbind (aq_DoEnqueue now item s) (\<lambda>(accepted, s). Inr s)
     | QueueOp (Dequeue now) \<Rightarrow> rbind (aq_DoDequeue now s) (\<lambda>(r, s). Inr s)
     | Measure \<Rightarrow> Inr (aq_MeasurementEvent s))"

definition aq_event_allowed :: "aq_event \<Rightarrow> bool" where
  "aq_event_allowed e = (case e of QueueOp (Enqueue now item) \<Rightarrow> aq_allowed item | _ \<Rightarrow> True)"

lemma aq_step_ok:
  assumes "aq_ok s" "aq_event_allowed e"
  shows "\<exists>s'. aq_step s e = Inr s' \<and> aq_ok s'"
proof (cases e)
  case (QueueOp op)
  show ?thesis
  proof (cases op)
    case (Enqueue now item)
    with aq_DoEnqueue_ok [OF assms(1), of item now] assms(2) QueueOp show ?thesis
      by (auto simp: aq_step_def aq_event_allowed_def)
  next
    case (Dequeue now)
    with aq_DoDequeue_ok [OF assms(1), of now] QueueOp show ?thesis by (auto simp: aq_step_def)
  qed
next
  case Measure
  with aq_MeasurementEvent_ok [OF assms(1)] show ?thesis by (simp add: aq_step_def)
qed

text \<open>The order of the packets, from the contract.\<close>

lemma aq_fifo:
  assumes "dq_items q = []" "\<forall>item \<in> set (dq_enqueued ops). aq_allowed item"
  shows "\<exists>accepted delivered s'. dq_run aq_DoEnqueue aq_DoDequeue ops (PppAqm_new q) = Inr (accepted, delivered, s') \<and>
    subseq (delivered @ dq_items (aq_queue s')) accepted"
  using aq.run_fifo [OF PppAqm_new_ok [OF assms(1)] assms(2)] assms(1) by (auto simp: PppAqm_new_def)

text \<open>C9: In every run of \<open>PppAqmQueueDisc\<close> on packets of priorities below 10, measurement events included, nothing
  fails, every counter is the number of queued packets of its priority, and the thresholds stay in
  \<open>10 \<le> low \<le> high \<le> 80\<close> percent; in any such state a dequeue gives out no tagged packet later than 35 ms and drops,
  from the front, only packets that are later or not of the highest priority.\<close>

theorem aq_run_ok:
  assumes "dq_items q = []" "\<forall>e \<in> set es. aq_event_allowed e"
  shows "\<exists>s. rfoldl aq_step (PppAqm_new q) es = Inr s \<and>
    (\<forall>p < 10. aq_pktPerPpp s ! unat p = of_nat (aq_count p (dq_items (aq_queue s)))) \<and>
    10 \<le> aq_lowThreshPer s \<and> aq_lowThreshPer s \<le> aq_highThreshPer s \<and> aq_highThreshPer s \<le> 80 \<and>
    (\<exists>r s'. aq_DoDequeue now s = Inr (r, s') \<and> aq_in_time now r \<and>
      aq_dropped now (dq_items (aq_queue s)) r (dq_items (aq_queue s')))"
proof -
  obtain s where s: "rfoldl aq_step (PppAqm_new q) es = Inr s" "aq_ok s"
    using rfoldl_total [of aq_ok "PppAqm_new q" es aq_step] PppAqm_new_ok [OF assms(1)] aq_step_ok assms(2) by auto
  have "\<forall>p < 10. aq_pktPerPpp s ! unat p = of_nat (aq_count p (dq_items (aq_queue s)))"
    using s(2) by (auto simp: aq_ok_def aq_counts_def aq_level_def word_less_nat_alt)
  moreover have "10 \<le> aq_lowThreshPer s \<and> aq_lowThreshPer s \<le> aq_highThreshPer s \<and> aq_highThreshPer s \<le> 80"
    using s(2) by (simp add: aq_ok_def aq_thresh_def INITIAL_PER_def)
  ultimately show ?thesis using s aq_DoDequeue_ok [OF s(2), of now] by blast
qed

lemma aq_run_ok_witness:
  "\<exists>s. rfoldl aq_step (PppAqm_new dq_empty)
      [QueueOp (Enqueue 0 (dq_packet 1 9)), QueueOp (Enqueue 5000000 (dq_packet 2 0)), Measure] = Inr s \<and>
    (\<forall>p < 10. aq_pktPerPpp s ! unat p = of_nat (aq_count p (dq_items (aq_queue s)))) \<and>
    10 \<le> aq_lowThreshPer s \<and> aq_lowThreshPer s \<le> aq_highThreshPer s \<and> aq_highThreshPer s \<le> 80 \<and>
    (\<exists>r s'. aq_DoDequeue 38000000 s = Inr (r, s') \<and> aq_in_time 38000000 r \<and>
      aq_dropped 38000000 (dq_items (aq_queue s)) r (dq_items (aq_queue s')))"
  by (rule aq_run_ok) (simp_all add: dq_empty_def dq_packet_def aq_event_allowed_def aq_allowed_def aq_level_def)

end
