(* ===== verification/Ppp_Aqm_V2.thy ===== *)
theory Ppp_Aqm_V2
  imports Ppp_Aqm Rx_Violation
begin

text \<open>The second version, \<open>PppAqmQueueDiscV2\<close> (\<open>src/contrib/gma/model/ppp-aqm-queue-disc-v2.cc\<close>).

  It counts bytes instead of packets, for 16 priorities, and drops a packet early when the drop deficit, a share of
  the queue that grows with the square of the delay, is more than the packet and all bytes behind it of lower
  priorities.  \<open>v2_ok\<close> is its invariant for the settings the constructor makes; every packet that was measured is
  counted as sent, lost or lost early.  The two trace files are left out.\<close>

section \<open>State\<close>

record PppAqmV2 =
  v2_queue :: QueueDisc
  v2_delayLimit :: u32
  v2_bytesPerPpp :: "u32 list"
  v2_numMeasure :: u64
  v2_txSum :: u64
  v2_queueSum :: u64
  v2_owdSum :: u64
  v2_lossSum :: u64
  v2_earlyLossSum :: u64
  v2_highDelaySum :: u64
  v2_enableAdaptiveLine :: bool
  v2_lineAlpha :: real
  v2_dropHighestPriority :: bool
  v2_ewmaLambda :: real
  v2_meanDelay :: u32

definition v2_level :: nat where "v2_level = 16"
definition v2_maxLineAlpha :: real where "v2_maxLineAlpha = 9 / 10"

definition PppAqmV2_new :: "QueueDisc \<Rightarrow> PppAqmV2" where
  "PppAqmV2_new q = \<lparr>v2_queue = q, v2_delayLimit = 100, v2_bytesPerPpp = replicate v2_level 0, v2_numMeasure = 0,
    v2_txSum = 0, v2_queueSum = 0, v2_owdSum = 0, v2_lossSum = 0, v2_earlyLossSum = 0, v2_highDelaySum = 0,
    v2_enableAdaptiveLine = False, v2_lineAlpha = 1 / 2, v2_dropHighestPriority = True, v2_ewmaLambda = 1,
    v2_meanDelay = UINT32_MAX\<rparr>"

section \<open>Operations\<close>

definition v2_nBytes :: "PppAqmV2 \<Rightarrow> u32" where
  "v2_nBytes s = sum_list (map qi_size (dq_items (v2_queue s)))"

definition v2_GetDropDeficit :: "u32 \<Rightarrow> PppAqmV2 \<Rightarrow> u32 result" where
  "v2_GetDropDeficit owdMs s =
    real_to_u32 (real_of_int (cround ((real_of_int (uint owdMs) / real_of_int (uint (v2_delayLimit s))) ^ 2
      * real_of_int (uint (v2_nBytes s)))))"

definition v2_lowPriorityBytes :: "u8 \<Rightarrow> PppAqmV2 \<Rightarrow> u32 result" where
  "v2_lowPriorityBytes p s =
    rfoldl (\<lambda>bytes i. rbind (vec_at (v2_bytesPerPpp s) i) (\<lambda>n. Inr (bytes + n))) 0 [unat p + 1..<v2_level]"

definition v2_add :: "u8 \<Rightarrow> u32 \<Rightarrow> PppAqmV2 \<Rightarrow> PppAqmV2 result" where
  "v2_add p d s =
    rbind (vec_at (v2_bytesPerPpp s) (unat p)) (\<lambda>n. Inr (s\<lparr>v2_bytesPerPpp := (v2_bytesPerPpp s)[unat p := n + d]\<rparr>))"

text \<open>The check at enqueue compares a deficit that is always 0.\<close>

definition v2_early_drop :: "time \<Rightarrow> u8 \<Rightarrow> QueueDiscItem \<Rightarrow> PppAqmV2 \<Rightarrow> bool result" where
  "v2_early_drop now p item s =
    (let owdMs = (case dq_DoPeek (v2_queue s) of None \<Rightarrow> UINT32_MAX | Some first \<Rightarrow> aq_owdMs now first)
     in if owdMs \<noteq> UINT32_MAX then
          rbind (v2_lowPriorityBytes p s) (\<lambda>low. Inr (p > 0 \<and> (0 :: u32) > low + qi_bytes item))
        else Inr False)"

definition v2_enqueue_tag :: "time \<Rightarrow> QueueDiscItem \<Rightarrow> PppAqmV2 \<Rightarrow> (bool \<times> PppAqmV2) result" where
  "v2_enqueue_tag now item s =
    (case qi_tag item of
       None \<Rightarrow> Inr (True, s)
     | Some p \<Rightarrow>
         rbind (v2_early_drop now p item s) (\<lambda>drop.
         if drop then
           Inr (False, s\<lparr>v2_earlyLossSum := v2_earlyLossSum s + 1, v2_queue := dq_DropBeforeEnqueue item (v2_queue s)\<rparr>)
         else rbind (v2_add p (qi_bytes item) s) (\<lambda>s. Inr (True, s))))"

definition v2_DoEnqueue :: "time \<Rightarrow> QueueDiscItem \<Rightarrow> PppAqmV2 \<Rightarrow> (bool \<times> PppAqmV2) result" where
  "v2_DoEnqueue now item s =
    (if dq_size_with item (v2_queue s) > dq_maxValue (v2_queue s) then
       Inr (False, s\<lparr>v2_queue := dq_DropBeforeEnqueue item (v2_queue s)\<rparr>)
     else
       rbind (v2_enqueue_tag now item s) (\<lambda>(go, s).
       if \<not> go then Inr (False, s)
       else
         let (accepted, q) = dq_internal_enqueue (qi_stamp now item) (v2_queue s)
         in Inr (accepted, s\<lparr>v2_queue := q\<rparr>)))"

definition v2_ewma :: "u32 \<Rightarrow> PppAqmV2 \<Rightarrow> u32 result" where
  "v2_ewma owdMs s =
    (if v2_meanDelay s = UINT32_MAX then Inr owdMs
     else real_to_u32 (v2_ewmaLambda s * real_of_int (uint owdMs)
       + (1 - v2_ewmaLambda s) * real_of_int (uint (v2_meanDelay s))))"

definition v2_measure :: "u32 \<Rightarrow> PppAqmV2 \<Rightarrow> PppAqmV2" where
  "v2_measure owdMs s = s\<lparr>v2_numMeasure := v2_numMeasure s + 1, v2_queueSum := v2_queueSum s + ucast (v2_nBytes s),
    v2_owdSum := v2_owdSum s + ucast owdMs\<rparr>"

definition v2_decide :: "u8 \<Rightarrow> u32 \<Rightarrow> QueueDiscItem \<Rightarrow> PppAqmV2 \<Rightarrow> (bool \<times> PppAqmV2) result" where
  "v2_decide p owdMs item s =
    (if owdMs > v2_delayLimit s \<and> v2_dropHighestPriority s then Inr (False, s\<lparr>v2_lossSum := v2_lossSum s + 1\<rparr>)
     else
       rbind (v2_ewma owdMs s) (\<lambda>mean.
       rbind (v2_GetDropDeficit mean s) (\<lambda>dropDeficit.
       rbind (v2_lowPriorityBytes p s) (\<lambda>low.
       if p > 0 \<and> dropDeficit > low + qi_bytes item then
         Inr (False, s\<lparr>v2_meanDelay := mean, v2_earlyLossSum := v2_earlyLossSum s + 1\<rparr>)
       else
         Inr (True, s\<lparr>v2_meanDelay := mean,
           v2_highDelaySum := (if real_of_int (uint owdMs) > 1 / 2 * real_of_int (uint (v2_delayLimit s))
             then v2_highDelaySum s + 1 else v2_highDelaySum s),
           v2_txSum := v2_txSum s + 1\<rparr>)))))"

definition v2_take :: "time \<Rightarrow> u8 \<Rightarrow> QueueDiscItem \<Rightarrow> PppAqmV2 \<Rightarrow> (bool \<times> PppAqmV2) result" where
  "v2_take now p item s =
    rbind (v2_add p (- qi_bytes item) s) (\<lambda>s.
    let owdMs = aq_owdMs now item
    in v2_decide p owdMs item (v2_measure owdMs s))"

lemma v2_measure_keeps [simp]:
  "v2_queue (v2_measure owdMs s) = v2_queue s" "v2_bytesPerPpp (v2_measure owdMs s) = v2_bytesPerPpp s"
  by (simp_all add: v2_measure_def)

lemma v2_decide_keeps:
  assumes "v2_decide p owdMs item s = Inr (sent, s')"
  shows "v2_queue s' = v2_queue s" "v2_bytesPerPpp s' = v2_bytesPerPpp s"
  using assms by (auto simp: v2_decide_def split: if_splits)

lemma v2_take_queue: "v2_take now p item s = Inr (sent, s') \<Longrightarrow> v2_queue s' = v2_queue s"
  by (auto simp: v2_take_def v2_add_def Let_def dest!: v2_decide_keeps(1))

function v2_DoDequeue :: "time \<Rightarrow> PppAqmV2 \<Rightarrow> (QueueDiscItem option \<times> PppAqmV2) result" where
  "v2_DoDequeue now s =
    (case dq_internal_dequeue (v2_queue s) of
       (None, q) \<Rightarrow> Inr (None, s\<lparr>v2_queue := q\<rparr>)
     | (Some item, q) \<Rightarrow>
         (case qi_tag item of
            None \<Rightarrow> Inr (Some item, s\<lparr>v2_queue := q\<rparr>)
          | Some p \<Rightarrow>
              rbind (v2_take now p item (s\<lparr>v2_queue := q\<rparr>)) (\<lambda>(sent, s).
              if sent then Inr (Some item, s) else v2_DoDequeue now s)))"
  by auto

termination
  by (relation "measure (\<lambda>(now, s). length (dq_items (v2_queue s)))")
    (auto dest!: v2_take_queue simp: dq_internal_dequeue_length)

declare v2_DoDequeue.simps [simp del]

definition v2_adapt :: "PppAqmV2 \<Rightarrow> PppAqmV2" where
  "v2_adapt s =
    (if v2_lossSum s + v2_highDelaySum s \<noteq> 0 then s\<lparr>v2_lineAlpha := max 0 (v2_lineAlpha s * (8 / 10))\<rparr>
     else if v2_earlyLossSum s \<noteq> 0 then s\<lparr>v2_lineAlpha := min v2_maxLineAlpha (v2_lineAlpha s + 1 / 10)\<rparr>
     else s)"

definition v2_MeasurementEvent :: "PppAqmV2 \<Rightarrow> PppAqmV2" where
  "v2_MeasurementEvent s =
    (if v2_enableAdaptiveLine s then v2_adapt s else s)\<lparr>v2_numMeasure := 0, v2_queueSum := 0, v2_owdSum := 0,
      v2_lossSum := 0, v2_txSum := 0, v2_earlyLossSum := 0, v2_highDelaySum := 0\<rparr>"

section \<open>Nothing is dropped early at enqueue\<close>

lemma v2_lowPriorityBytes_ok:
  assumes "length (v2_bytesPerPpp s) = v2_level"
  obtains n where "v2_lowPriorityBytes p s = Inr n"
proof -
  have "is_ok (v2_lowPriorityBytes p s)" unfolding v2_lowPriorityBytes_def
    by (rule rfoldl_ok) (simp add: assms)
  with that show thesis by (auto simp: is_ok_iff)
qed

lemma v2_early_drop_never:
  assumes "length (v2_bytesPerPpp s) = v2_level"
  shows "v2_early_drop now p item s = Inr False"
proof -
  obtain n where "v2_lowPriorityBytes p s = Inr n" by (rule v2_lowPriorityBytes_ok [OF assms])
  then show ?thesis by (simp add: v2_early_drop_def Let_def)
qed

section \<open>The counters\<close>

definition v2_bytes :: "u8 \<Rightarrow> QueueDiscItem list \<Rightarrow> u32" where
  "v2_bytes p is = sum_list (map qi_bytes (filter (\<lambda>item. qi_tag item = Some p) is))"

lemma v2_bytes_simps [simp]:
  "v2_bytes p [] = 0"
  "v2_bytes p (i # is) = (if qi_tag i = Some p then qi_bytes i else 0) + v2_bytes p is"
  "v2_bytes p (is @ is') = v2_bytes p is + v2_bytes p is'"
  by (simp_all add: v2_bytes_def)

definition v2_allowed :: "QueueDiscItem \<Rightarrow> bool" where
  "v2_allowed item = (case qi_tag item of None \<Rightarrow> True | Some p \<Rightarrow> unat p < v2_level)"

definition v2_counts :: "QueueDiscItem list \<Rightarrow> u32 list \<Rightarrow> bool" where
  "v2_counts is cs \<longleftrightarrow> length cs = v2_level \<and> (\<forall>p. unat p < v2_level \<longrightarrow> cs ! unat p = v2_bytes p is)"

lemma v2_counts_update:
  assumes "v2_counts is cs" "unat p < v2_level" "\<And>p'. v2_bytes p' is' = v2_bytes p' is + (if p' = p then d else 0)"
  shows "v2_counts is' (cs[unat p := cs ! unat p + d])"
  using assms by (auto simp: v2_counts_def nth_list_update simp flip: word_unat_eq_iff)

text \<open>The settings of the constructor, which nothing changes, and the sums of an interval.\<close>

definition v2_config :: "PppAqmV2 \<Rightarrow> bool" where
  "v2_config s \<longleftrightarrow> v2_delayLimit s = 100 \<and> v2_dropHighestPriority s \<and> v2_ewmaLambda s = 1 \<and>
    v2_numMeasure s = v2_txSum s + v2_lossSum s + v2_earlyLossSum s"

definition v2_ok :: "PppAqmV2 \<Rightarrow> bool" where
  "v2_ok s \<longleftrightarrow> v2_config s \<and> v2_counts (dq_items (v2_queue s)) (v2_bytesPerPpp s) \<and>
    (\<forall>item \<in> set (dq_items (v2_queue s)). v2_allowed item)"

text \<open>The drop deficit for a delay within the limit is a share of the queue.\<close>

definition v2_deficit :: "u32 \<Rightarrow> u32 \<Rightarrow> int" where
  "v2_deficit owdMs bytes = cround ((real_of_int (uint owdMs) / 100) ^ 2 * real_of_int (uint bytes))"

lemma v2_deficit_le:
  assumes "owdMs \<le> 100"
  shows "0 \<le> v2_deficit owdMs bytes" "v2_deficit owdMs bytes \<le> uint bytes"
proof -
  define x where "x = real_of_int (uint owdMs)"
  define r where "r = x / 100"
  define b where "b = real_of_int (uint bytes)"
  have "uint owdMs \<le> 100" using assms by (simp add: word_le_def)
  then have "x \<le> 100" unfolding x_def by linarith
  moreover have "0 \<le> x" by (simp only: x_def of_int_0_le_iff uint_ge_0)
  ultimately have "0 \<le> r" "r \<le> 1" by (simp_all add: r_def)
  then have "r ^ 2 \<le> 1" "0 \<le> r ^ 2" by (simp_all add: power_le_one)
  moreover have "0 \<le> b" by (simp only: b_def of_int_0_le_iff uint_ge_0)
  ultimately have rb: "0 \<le> r ^ 2 * b" "r ^ 2 * b \<le> b" by (simp_all add: mult_left_le_one_le)
  have d: "v2_deficit owdMs bytes = cround (r ^ 2 * b)" by (simp only: v2_deficit_def r_def b_def x_def)
  show "0 \<le> v2_deficit owdMs bytes" unfolding d by (rule cround_nonneg) (use rb(1) in linarith)
  have "real_of_int (cround (r ^ 2 * b)) \<le> b + 1 / 2" using cround_bounds(1) [of "r ^ 2 * b"] rb(2) by linarith
  then show "v2_deficit owdMs bytes \<le> uint bytes" unfolding d b_def by linarith
qed

lemma v2_GetDropDeficit_ok:
  assumes "owdMs \<le> 100" "v2_delayLimit s = 100"
  obtains d where "v2_GetDropDeficit owdMs s = Inr d" "uint d = v2_deficit owdMs (v2_nBytes s)"
proof -
  define k where "k = v2_deficit owdMs (v2_nBytes s)"
  have k: "0 \<le> k" "k < 4294967296"
    using v2_deficit_le [OF assms(1), of "v2_nBytes s"] unsigned_less [of "v2_nBytes s", where 'a = int]
    by (simp_all add: k_def)
  have "uint (100 :: u32) = 100" by simp
  then have "v2_GetDropDeficit owdMs s = real_to_u32 (real_of_int k)"
    by (simp only: v2_GetDropDeficit_def assms(2) k_def v2_deficit_def of_int_numeral)
  with real_to_u32_int [OF k] k show thesis
    by (intro that [of "of_int k"]) (simp_all add: uint_word_of_int_u32 flip: k_def)
qed

text \<open>With the weight 1 of the constructor the mean is the last value.\<close>

lemma v2_ewma_last: "v2_ewmaLambda s = 1 \<Longrightarrow> v2_ewma owdMs s = Inr owdMs"
  by (simp only: v2_ewma_def) (simp add: real_to_u32_uint [simplified])

section \<open>Taking a packet\<close>

text \<open>A packet that is not the highest priority may be dropped in time, when the deficit for its delay is more than its
  own bytes and those of lower priorities behind it.\<close>

definition v2_lower :: "u8 \<Rightarrow> QueueDiscItem list \<Rightarrow> u32" where
  "v2_lower p is = (\<Sum>i \<leftarrow> [unat p + 1..<v2_level]. v2_bytes (of_nat i) is)"

definition v2_drops :: "time \<Rightarrow> u8 \<Rightarrow> QueueDiscItem \<Rightarrow> QueueDiscItem list \<Rightarrow> bool" where
  "v2_drops now p item is \<longleftrightarrow> aq_owdMs now item > 100 \<or>
    p > 0 \<and> v2_deficit (aq_owdMs now item) (sum_list (map qi_size is)) > uint (v2_lower p is + qi_bytes item)"

lemma rfoldl_sum:
  "(\<And>i. i \<in> set xs \<Longrightarrow> i < length cs) \<Longrightarrow>
    rfoldl (\<lambda>b i. rbind (vec_at cs i) (\<lambda>n. Inr (b + n))) z xs = Inr (z + sum_list (map ((!) cs) xs))"
  for z :: u32
  by (induction xs arbitrary: z) (simp_all add: add.assoc)

lemma v2_lowPriorityBytes_eq:
  assumes "v2_counts is (v2_bytesPerPpp s)"
  shows "v2_lowPriorityBytes p s = Inr (v2_lower p is)"
proof -
  have "v2_bytesPerPpp s ! i = v2_bytes (of_nat i) is" if "i < v2_level" for i
    using assms that unfolding v2_counts_def v2_level_def
    by (auto simp: unat_of_nat dest!: spec [of _ "of_nat i"])
  moreover have "length (v2_bytesPerPpp s) = v2_level" using assms by (simp add: v2_counts_def)
  ultimately show ?thesis
    unfolding v2_lowPriorityBytes_def v2_lower_def by (subst rfoldl_sum) (auto intro!: arg_cong [of _ _ sum_list])
qed

lemma v2_take_ok:
  assumes s: "v2_config s" "v2_counts (item # dq_items (v2_queue s)) (v2_bytesPerPpp s)"
    and item: "qi_tag item = Some p" "unat p < v2_level"
  shows "\<exists>sent s'. v2_take now p item s = Inr (sent, s') \<and> v2_queue s' = v2_queue s \<and> v2_config s' \<and>
    v2_counts (dq_items (v2_queue s)) (v2_bytesPerPpp s') \<and>
    (sent \<longleftrightarrow> \<not> v2_drops now p item (dq_items (v2_queue s)))"
proof -
  define owdMs where "owdMs = aq_owdMs now item"
  define rest where "rest = dq_items (v2_queue s)"
  define cs where "cs = (v2_bytesPerPpp s)[unat p := v2_bytesPerPpp s ! unat p - qi_bytes item]"
  define s1 where "s1 = v2_measure owdMs (s\<lparr>v2_bytesPerPpp := cs\<rparr>)"
  have counts: "v2_counts rest cs"
    using v2_counts_update [OF s(2) item(2), of "rest" "- qi_bytes item"] item(1) by (simp add: cs_def rest_def)
  have len: "length (v2_bytesPerPpp s) = v2_level" using s(2) by (simp add: v2_counts_def)
  have s1: "v2_queue s1 = v2_queue s" "v2_bytesPerPpp s1 = cs" "v2_delayLimit s1 = 100" "v2_dropHighestPriority s1"
    "v2_ewmaLambda s1 = 1" "v2_numMeasure s1 = v2_txSum s1 + v2_lossSum s1 + v2_earlyLossSum s1 + 1"
    using s(1) by (simp_all add: s1_def v2_config_def v2_measure_def)
  have take: "v2_take now p item s = v2_decide p owdMs item s1"
    using item(2) len by (simp add: v2_take_def v2_add_def Let_def s1_def cs_def owdMs_def)
  show ?thesis
  proof (cases "owdMs > 100")
    case True
    then have "v2_decide p owdMs item s1 = Inr (False, s1\<lparr>v2_lossSum := v2_lossSum s1 + 1\<rparr>)"
      using s1 by (simp add: v2_decide_def)
    then show ?thesis
      using True s1 counts unfolding take by (auto simp: v2_config_def v2_drops_def owdMs_def rest_def)
  next
    case False
    then have "owdMs \<le> 100" by simp
    then obtain d where d: "v2_GetDropDeficit owdMs s1 = Inr d" "uint d = v2_deficit owdMs (v2_nBytes s1)"
      using v2_GetDropDeficit_ok s1(3) by blast
    have "v2_lowPriorityBytes p s1 = Inr (v2_lower p rest)"
      by (rule v2_lowPriorityBytes_eq) (simp add: s1 counts)
    then have decide: "v2_decide p owdMs item s1 =
        (if p > 0 \<and> d > v2_lower p rest + qi_bytes item then
           Inr (False, s1\<lparr>v2_meanDelay := owdMs, v2_earlyLossSum := v2_earlyLossSum s1 + 1\<rparr>)
         else Inr (True, s1\<lparr>v2_meanDelay := owdMs,
           v2_highDelaySum := (if real_of_int (uint owdMs) > 1 / 2 * real_of_int (uint (v2_delayLimit s1))
             then v2_highDelaySum s1 + 1 else v2_highDelaySum s1),
           v2_txSum := v2_txSum s1 + 1\<rparr>))"
      using False s1(3) d(1) v2_ewma_last [OF s1(5)] by (simp only: v2_decide_def rbind_simps simp_thms if_False)
    have drops: "v2_drops now p item rest \<longleftrightarrow> p > 0 \<and> d > v2_lower p rest + qi_bytes item"
      using False d(2) by (simp add: v2_drops_def word_less_def v2_nBytes_def s1(1) rest_def flip: owdMs_def)
    show ?thesis
      unfolding take decide rest_def [symmetric] drops using s1 counts
      by (cases "p > 0 \<and> d > v2_lower p rest + qi_bytes item") (auto simp: v2_config_def)
  qed
qed

text \<open>The queue on the list of its items alone.\<close>

fun v2_spec :: "time \<Rightarrow> QueueDiscItem list \<Rightarrow> QueueDiscItem option \<times> QueueDiscItem list" where
  "v2_spec now [] = (None, [])"
| "v2_spec now (i # is) =
    (if \<exists>p. qi_tag i = Some p \<and> v2_drops now p i is then v2_spec now is else (Some i, is))"

lemma v2_spec_took: "v2_spec now is = (r, is') \<Longrightarrow> dq_took is r is'"
  by (induction "is") (auto split: if_splits intro: dq_took_Cons)

lemma v2_DoDequeue_ok:
  assumes "v2_ok s"
  shows "\<exists>s'. v2_DoDequeue now s = Inr (fst (v2_spec now (dq_items (v2_queue s))), s') \<and> v2_ok s' \<and>
    dq_items (v2_queue s') = snd (v2_spec now (dq_items (v2_queue s)))"
  using assms
proof (induction "dq_items (v2_queue s)" arbitrary: s)
  case Nil
  then show ?case by (subst v2_DoDequeue.simps) (simp flip: Nil(1))
next
  case (Cons i "is")
  define q where "q = (v2_queue s)\<lparr>dq_items := is\<rparr>"
  define s1 where "s1 = s\<lparr>v2_queue := q\<rparr>"
  have items: "dq_items (v2_queue s) = i # is" "dq_items q = is" "v2_queue s1 = q"
    by (simp_all add: q_def s1_def flip: Cons.hyps(2))
  have loop: "v2_DoDequeue now s = (case qi_tag i of None \<Rightarrow> Inr (Some i, s1)
      | Some p \<Rightarrow> rbind (v2_take now p i s1) (\<lambda>(sent, s). if sent then Inr (Some i, s) else v2_DoDequeue now s))"
    unfolding s1_def by (subst v2_DoDequeue.simps) (simp add: items(1) flip: q_def)
  have config: "v2_config s1" using Cons.prems by (simp add: v2_ok_def v2_config_def s1_def)
  have counts: "v2_counts (i # is) (v2_bytesPerPpp s1)" and allowed: "\<forall>item \<in> set (i # is). v2_allowed item"
    using Cons.prems items by (simp_all add: v2_ok_def s1_def)
  show ?case
  proof (cases "qi_tag i")
    case None
    have "v2_counts is (v2_bytesPerPpp s1)" using counts None by (simp add: v2_counts_def)
    then have "v2_ok s1" using config allowed items by (simp add: v2_ok_def)
    with loop None items show ?thesis by simp
  next
    case (Some p)
    with allowed have "unat p < v2_level" by (simp add: v2_allowed_def)
    from v2_take_ok [OF config _ Some this, of now] counts items(2,3) obtain sent s2 where
      t: "v2_take now p i s1 = Inr (sent, s2)" "v2_queue s2 = q" "v2_config s2" "v2_counts is (v2_bytesPerPpp s2)"
        "sent \<longleftrightarrow> \<not> v2_drops now p i is"
      by auto
    have s2: "v2_ok s2" using t items(2) allowed by (simp add: v2_ok_def)
    show ?thesis
    proof (cases sent)
      case True
      with loop Some t s2 items show ?thesis by simp
    next
      case False
      from Cons.hyps(1) [OF _ s2] t(2) items(2) loop Some t(1,5) False items(1) show ?thesis by simp
    qed
  qed
qed

section \<open>Runs\<close>

lemma v2_DoEnqueue_ok:
  assumes "v2_ok s" "v2_allowed item"
  shows "\<exists>s'. v2_DoEnqueue now item s = Inr (\<not> dq_size_with item (v2_queue s) > dq_maxValue (v2_queue s), s') \<and> v2_ok s' \<and>
    v2_earlyLossSum s' = v2_earlyLossSum s \<and>
    dq_items (v2_queue s') = (if dq_size_with item (v2_queue s) > dq_maxValue (v2_queue s) then dq_items (v2_queue s)
      else dq_items (v2_queue s) @ [qi_stamp now item])"
proof (cases "dq_size_with item (v2_queue s) > dq_maxValue (v2_queue s)")
  case True
  have "v2_ok (s\<lparr>v2_queue := dq_DropBeforeEnqueue item (v2_queue s)\<rparr>)"
    using assms(1) by (simp add: v2_ok_def v2_config_def dq_DropBeforeEnqueue_def)
  with True show ?thesis by (simp add: v2_DoEnqueue_def dq_DropBeforeEnqueue_def)
next
  case False
  define i where "i = qi_stamp now item"
  define q where "q = (v2_queue s)\<lparr>dq_items := dq_items (v2_queue s) @ [i]\<rparr>"
  have allowed: "v2_allowed i" "qi_tag i = qi_tag item" "qi_bytes i = qi_bytes item"
    using assms(2) by (simp_all add: i_def v2_allowed_def)
  have len: "length (v2_bytesPerPpp s) = v2_level" using assms(1) by (simp add: v2_ok_def v2_counts_def)
  obtain cs where cs: "v2_enqueue_tag now item s = Inr (True, s\<lparr>v2_bytesPerPpp := cs\<rparr>)"
    "v2_counts (dq_items (v2_queue s) @ [i]) cs"
  proof (cases "qi_tag item")
    case None
    show thesis
      by (rule that [of "v2_bytesPerPpp s"])
        (use None assms(1) allowed in \<open>simp_all add: v2_enqueue_tag_def v2_ok_def v2_counts_def\<close>)
  next
    case (Some p)
    with assms(2) have p: "unat p < v2_level" by (simp add: v2_allowed_def)
    show thesis
    proof (rule that)
      show "v2_enqueue_tag now item s =
          Inr (True, s\<lparr>v2_bytesPerPpp := (v2_bytesPerPpp s)[unat p := v2_bytesPerPpp s ! unat p + qi_bytes item]\<rparr>)"
        using Some p len v2_early_drop_never [OF len] by (simp add: v2_enqueue_tag_def v2_add_def)
      show "v2_counts (dq_items (v2_queue s) @ [i]) ((v2_bytesPerPpp s)[unat p := v2_bytesPerPpp s ! unat p + qi_bytes item])"
        by (rule v2_counts_update [of "dq_items (v2_queue s)"]) (use assms(1) p allowed Some in \<open>simp_all add: v2_ok_def\<close>)
    qed
  qed
  have "dq_internal_enqueue i (v2_queue s) = (True, q)"
    using False by (simp add: dq_internal_enqueue_def i_def q_def)
  then have "v2_DoEnqueue now item s = Inr (True, s\<lparr>v2_bytesPerPpp := cs, v2_queue := q\<rparr>)"
    using False cs(1) by (simp add: v2_DoEnqueue_def i_def)
  moreover have "v2_ok (s\<lparr>v2_bytesPerPpp := cs, v2_queue := q\<rparr>)"
    using assms(1) cs(2) allowed(1) by (simp add: v2_ok_def v2_config_def q_def)
  ultimately show ?thesis using False by (simp add: q_def i_def)
qed

interpretation v2: queue_disc v2_DoEnqueue v2_DoDequeue "\<lambda>s. dq_items (v2_queue s)" v2_ok v2_allowed
proof
  fix s item now
  assume "v2_ok s" "v2_allowed item"
  from v2_DoEnqueue_ok [OF this, of now] show "\<exists>accepted s'. v2_DoEnqueue now item s = Inr (accepted, s') \<and> v2_ok s' \<and>
      dq_items (v2_queue s') =
        (if accepted then dq_items (v2_queue s) @ [qi_stamp now item] else dq_items (v2_queue s))"
    by (metis (full_types))
next
  fix s now
  assume "v2_ok s"
  from v2_DoDequeue_ok [OF this, of now]
  show "\<exists>r s'. v2_DoDequeue now s = Inr (r, s') \<and> v2_ok s' \<and> dq_took (dq_items (v2_queue s)) r (dq_items (v2_queue s'))"
    by (metis prod.collapse v2_spec_took)
qed

lemma v2_fifo:
  assumes "dq_items q = []" "\<forall>item \<in> set (dq_enqueued ops). v2_allowed item"
  shows "\<exists>accepted delivered s'. dq_run v2_DoEnqueue v2_DoDequeue ops (PppAqmV2_new q) = Inr (accepted, delivered, s') \<and>
    subseq (delivered @ dq_items (v2_queue s')) accepted"
proof -
  have "v2_ok (PppAqmV2_new q)"
    using assms(1) by (simp add: v2_ok_def v2_config_def v2_counts_def PppAqmV2_new_def)
  from v2.run_fifo [OF this assms(2)] assms(1) show ?thesis by (auto simp: PppAqmV2_new_def)
qed

definition v2_step :: "PppAqmV2 \<Rightarrow> aq_event \<Rightarrow> PppAqmV2 result" where
  "v2_step s e =
    (case e of
       QueueOp (Enqueue now item) \<Rightarrow> rbind (v2_DoEnqueue now item s) (\<lambda>(accepted, s). Inr s)
     | QueueOp (Dequeue now) \<Rightarrow> rbind (v2_DoDequeue now s) (\<lambda>(r, s). Inr s)
     | Measure \<Rightarrow> Inr (v2_MeasurementEvent s))"

definition v2_event_allowed :: "aq_event \<Rightarrow> bool" where
  "v2_event_allowed e = (case e of QueueOp (Enqueue now item) \<Rightarrow> v2_allowed item | _ \<Rightarrow> True)"

lemma v2_MeasurementEvent_ok: "v2_ok s \<Longrightarrow> v2_ok (v2_MeasurementEvent s)"
  by (simp add: v2_ok_def v2_config_def v2_MeasurementEvent_def v2_adapt_def)

lemma v2_step_ok:
  assumes "v2_ok s" "v2_event_allowed e"
  shows "\<exists>s'. v2_step s e = Inr s' \<and> v2_ok s'"
proof (cases e)
  case (QueueOp op)
  show ?thesis
  proof (cases op)
    case (Enqueue now item)
    with v2_DoEnqueue_ok [OF assms(1), of item now] assms(2) QueueOp show ?thesis
      by (auto simp: v2_step_def v2_event_allowed_def)
  next
    case (Dequeue now)
    with v2_DoDequeue_ok [OF assms(1), of now] QueueOp show ?thesis by (auto simp: v2_step_def)
  qed
next
  case Measure
  with v2_MeasurementEvent_ok [OF assms(1)] show ?thesis by (simp add: v2_step_def)
qed

text \<open>C6: In every run of \<open>PppAqmQueueDiscV2\<close> on packets of priorities below 16, measurement events included,
  nothing fails, the counters are the queued bytes of every priority, and every measured packet of an interval is
  counted as sent, lost or lost early.  In any such state a packet is accepted exactly when it fits, so the early drop
  at enqueue never happens, and a dequeue is the one on the list of items: it drops from the front the packets later
  than 100 ms, and those not of the highest priority whose deficit is more than what lower priorities leave.\<close>

theorem v2_run_refines:
  assumes "dq_items q = []" "\<forall>e \<in> set es. v2_event_allowed e" "v2_allowed item"
  shows "\<exists>s. rfoldl v2_step (PppAqmV2_new q) es = Inr s \<and>
    (\<forall>p < 16. v2_bytesPerPpp s ! unat p = v2_bytes p (dq_items (v2_queue s))) \<and>
    v2_numMeasure s = v2_txSum s + v2_lossSum s + v2_earlyLossSum s \<and>
    (\<exists>s'. v2_DoEnqueue now item s = Inr (dq_size_with item (v2_queue s) \<le> dq_maxValue (v2_queue s), s') \<and>
      v2_earlyLossSum s' = v2_earlyLossSum s) \<and>
    (\<exists>s'. v2_DoDequeue now s = Inr (fst (v2_spec now (dq_items (v2_queue s))), s') \<and>
      dq_items (v2_queue s') = snd (v2_spec now (dq_items (v2_queue s))))"
proof -
  have "v2_ok (PppAqmV2_new q)"
    using assms(1) by (simp add: v2_ok_def v2_config_def v2_counts_def PppAqmV2_new_def)
  then obtain s where s: "rfoldl v2_step (PppAqmV2_new q) es = Inr s" "v2_ok s"
    using rfoldl_total [of v2_ok "PppAqmV2_new q" es v2_step] v2_step_ok assms(2) by auto
  have "\<forall>p < 16. v2_bytesPerPpp s ! unat p = v2_bytes p (dq_items (v2_queue s))"
    using s(2) by (auto simp: v2_ok_def v2_counts_def v2_level_def word_less_nat_alt)
  moreover have "v2_numMeasure s = v2_txSum s + v2_lossSum s + v2_earlyLossSum s"
    using s(2) by (simp add: v2_ok_def v2_config_def)
  ultimately show ?thesis
    using s(1) v2_DoEnqueue_ok [OF s(2) assms(3), of now] v2_DoDequeue_ok [OF s(2), of now] by (auto simp: not_less)
qed

lemma v2_run_refines_witness:
  "\<exists>s. rfoldl v2_step (PppAqmV2_new dq_empty)
      [QueueOp (Enqueue 0 (dq_packet 1 9)), QueueOp (Enqueue 5000000 (dq_packet 2 0)), Measure,
       QueueOp (Dequeue 60000000)] = Inr s \<and>
    (\<forall>p < 16. v2_bytesPerPpp s ! unat p = v2_bytes p (dq_items (v2_queue s))) \<and>
    v2_numMeasure s = v2_txSum s + v2_lossSum s + v2_earlyLossSum s \<and>
    (\<exists>s'. v2_DoEnqueue 70000000 (dq_packet 3 5) s =
        Inr (dq_size_with (dq_packet 3 5) (v2_queue s) \<le> dq_maxValue (v2_queue s), s') \<and>
      v2_earlyLossSum s' = v2_earlyLossSum s) \<and>
    (\<exists>s'. v2_DoDequeue 70000000 s = Inr (fst (v2_spec 70000000 (dq_items (v2_queue s))), s') \<and>
      dq_items (v2_queue s') = snd (v2_spec 70000000 (dq_items (v2_queue s))))"
  by (rule v2_run_refines)
    (simp_all add: dq_empty_def dq_packet_def v2_event_allowed_def v2_allowed_def v2_level_def)

end
