(* ===== verification/Slicing.thy ===== *)
theory Slicing
  imports Std_Map "HOL-Library.Product_Lexorder"
begin

text \<open>Network slicing of the LTE downlink: the slices of \<open>NsPfFfMacScheduler\<close>
  (\<open>src/contrib/gma/model/ns-pf-ff-mac-scheduler.cc\<close>).

  The resource block groups (RBG) of a subframe are numbered from 0.  First come the dedicated ones of every slice in
  the order of the slice ids, then the prioritized ones in the same order, and the rest is shared.  The state of the
  scheduler is the record \<open>NsScheduler\<close>.  This theory has how slices are configured and changed by an agent, to which
  slice an RBG belongs, with the table of RBGs as reference, and which bearers of a user may be served.\<close>

section \<open>State\<close>

type_synonym LteFlowId = "u16 \<times> u8"

datatype QosBearerType = QBT_NON_GBR | QBT_GBR | QBT_DGBR | NotValid_QosBearerType

text \<open>The order of the enumeration, for its use in the key of a map.\<close>

definition qbt_index :: "QosBearerType \<Rightarrow> nat" where
  "qbt_index b = (case b of QBT_NON_GBR \<Rightarrow> 0 | QBT_GBR \<Rightarrow> 1 | QBT_DGBR \<Rightarrow> 2 | NotValid_QosBearerType \<Rightarrow> 3)"

lemma qbt_index_inject [simp]: "qbt_index a = qbt_index b \<longleftrightarrow> a = b"
  by (cases a; cases b) (simp_all add: qbt_index_def)

instantiation QosBearerType :: linorder
begin

definition less_eq_QosBearerType :: "QosBearerType \<Rightarrow> QosBearerType \<Rightarrow> bool" where
  "a \<le> b \<longleftrightarrow> qbt_index a \<le> qbt_index b"

definition less_QosBearerType :: "QosBearerType \<Rightarrow> QosBearerType \<Rightarrow> bool" where
  "a < b \<longleftrightarrow> qbt_index a < qbt_index b"

instance
  by standard (auto simp: less_eq_QosBearerType_def less_QosBearerType_def)

end

text \<open>The fields the scheduler reads: of a buffer report, of the configuration of a logical channel, of a slice.\<close>

record RlcBufferReq =
  rb_txQueue :: u32
  rb_retxQueue :: u32
  rb_statusPdu :: u16

record LcConfig =
  lc_id :: u8
  lc_bearerType :: QosBearerType
  lc_mbrDl :: u64
  lc_gbrDl :: u64

record SliceInfo =
  si_dedicatedRbg :: u64
  si_prioritizedRbg :: u64
  si_sharedRbg :: u64
  si_minRbg :: u64
  si_maxRbg :: u64

record nsPfsFlowPerf =
  fp_flowStart :: time
  fp_totalBytes :: u64
  fp_lastTtiBytes :: u32
  fp_lastTtiSlicedBytes :: u32
  fp_lastAvg :: real
  fp_lastAvgSliced :: real
  fp_sliceId :: u32
  fp_imsi :: u32

record RlcPdu =
  pdu_lcid :: u8
  pdu_size :: u16

record DlDci =
  dci_rnti :: u16
  dci_rbBitmap :: u32
  dci_resAlloc :: u8
  dci_tbsSize :: "u16 list"
  dci_mcs :: "u8 list"
  dci_ndi :: "u8 list"
  dci_rv :: "u8 list"
  dci_tpc :: u8
  dci_harqProcess :: u8

record UlDci =
  ul_rnti :: u16
  ul_rbStart :: u8
  ul_rbLen :: u8
  ul_tbSize :: u16
  ul_mcs :: u8
  ul_ndi :: u8
  ul_cceIndex :: u8
  ul_aggrLevel :: u8
  ul_ueTxAntennaSelection :: u8
  ul_hopping :: bool
  ul_n2Dmrs :: u8
  ul_tpc :: u8
  ul_cqiRequest :: bool
  ul_ulIndex :: u8
  ul_dai :: u8
  ul_freqHopping :: u8
  ul_pdcchPowerOffset :: u8

text \<open>The answer of a user to a transmission, one for each layer.\<close>

datatype HarqStatus = ACK | NACK | DTX

record DlInfo =
  di_rnti :: u16
  di_harqProcessId :: u8
  di_harqStatus :: "HarqStatus list"

record RachRequest =
  rr_rnti :: u16
  rr_estimatedSize :: u16

text \<open>\<open>ns_a30CqiRxed\<close> holds for every user the CQI of every RBG, one for each layer.  Of the HARQ buffer of RLC PDUs
  the outer list has the two layers, each with a list per process.\<close>

record NsScheduler =
  ns_dlBandwidth :: u8
  ns_ulBandwidth :: u8
  ns_rlcBufferReq :: "(LteFlowId, RlcBufferReq) smap"
  ns_flowStatsDl :: "(u16, nsPfsFlowPerf) smap"
  ns_flowStatsUl :: "(u16, nsPfsFlowPerf) smap"
  ns_p10CqiRxed :: "(u16, u8) smap"
  ns_p10CqiTimers :: "(u16, u32) smap"
  ns_a30CqiRxed :: "(u16, u8 list list) smap"
  ns_a30CqiTimers :: "(u16, u32) smap"
  ns_ceBsrRxed :: "(u16, u32) smap"
  ns_timeWindow :: real
  ns_nextRntiUl :: u16
  ns_cqiTimersThreshold :: u32
  ns_uesTxMode :: "(u16, u8) smap"
  ns_harqOn :: bool
  ns_dlHarqCurrentProcessId :: "(u16, u8) smap"
  ns_dlHarqProcessesStatus :: "(u16, u8 list) smap"
  ns_dlHarqProcessesTimer :: "(u16, u8 list) smap"
  ns_dlHarqProcessesDciBuffer :: "(u16, DlDci list) smap"
  ns_dlHarqRlcPduBuffer :: "(u16, RlcPdu list list list) smap"
  ns_dlInfoListBuffered :: "DlInfo list"
  ns_ulHarqCurrentProcessId :: "(u16, u8) smap"
  ns_ulHarqProcessesStatus :: "(u16, u8 list) smap"
  ns_ulHarqProcessesDciBuffer :: "(u16, UlDci list) smap"
  ns_rachList :: "RachRequest list"
  ns_rachAllocationMap :: "u16 list"
  ns_ulGrantMcs :: u8
  ns_totalRbs :: int
  ns_usedHarqRbs :: "(u64, int) smap"
  ns_usedDataRbs :: "(u64, int) smap"
  ns_sliceInfo :: "(u32, SliceInfo) smap"
  ns_sliceBearerType :: "(u32 \<times> QosBearerType, bool) smap"
  ns_lcConfig :: "(LteFlowId, LcConfig) smap"
  ns_scheduledBytes :: "(LteFlowId, real) smap"

section \<open>Resource block groups\<close>

definition PfType0AllocationRbg :: "int list" where "PfType0AllocationRbg = [10, 26, 63, 110]"

definition ns_GetRbgSize :: "int \<Rightarrow> int" where
  "ns_GetRbgSize dlbandwidth =
    (case filter (\<lambda>i. dlbandwidth < PfType0AllocationRbg ! i) [0..<4] of [] \<Rightarrow> - 1 | i # _ \<Rightarrow> int i + 1)"

definition ns_rbgSize :: "NsScheduler \<Rightarrow> int" where
  "ns_rbgSize s = ns_GetRbgSize (uint (ns_dlBandwidth s))"

definition ns_rbgNum :: "NsScheduler \<Rightarrow> int" where
  "ns_rbgNum s = uint (ns_dlBandwidth s) div ns_rbgSize s"

datatype RBG_TYPE = DEDICATED_RBG | PRIORITIZED_RBG | SHARED_RBG

text \<open>\<open>totalRbg += n\<close> of an \<open>int\<close> and an \<open>uint64_t\<close>: the sum is unsigned and is then converted back.\<close>

definition i32_add :: "int \<Rightarrow> u64 \<Rightarrow> int" where
  "i32_add totalRbg n = sint (ucast (of_int totalRbg + n) :: u32)"

text \<open>One pass over the slices: the RBGs of the type before this slice, and the slice found so far.\<close>

fun ns_find_slice :: "int \<Rightarrow> int \<Rightarrow> (SliceInfo \<Rightarrow> u64) \<Rightarrow> (u32, SliceInfo) smap \<Rightarrow> int \<Rightarrow> u32 \<Rightarrow> int \<times> u32" where
  "ns_find_slice base rbgId rbgs [] totalRbg sliceId = (totalRbg, sliceId)"
| "ns_find_slice base rbgId rbgs ((k, info) # slices) totalRbg sliceId =
    (let totalRbg' = i32_add totalRbg (rbgs info)
     in ns_find_slice base rbgId rbgs slices totalRbg'
          (if base + totalRbg \<le> rbgId \<and> rbgId < base + totalRbg' then k else sliceId))"

definition ns_GetRbgSliceInfo :: "NsScheduler \<Rightarrow> int \<Rightarrow> RBG_TYPE \<times> u32" where
  "ns_GetRbgSliceInfo s rbgId =
    (let (total_dedicatedRbg, sliceId) = ns_find_slice 0 rbgId si_dedicatedRbg (ns_sliceInfo s) 0 UINT32_MAX
     in if rbgId < total_dedicatedRbg then (DEDICATED_RBG, sliceId)
        else
          let (total_prioritizedRbg, sliceId) =
            ns_find_slice total_dedicatedRbg rbgId si_prioritizedRbg (ns_sliceInfo s) 0 sliceId
          in if rbgId < total_dedicatedRbg + total_prioritizedRbg then (PRIORITIZED_RBG, sliceId)
             else (SHARED_RBG, sliceId))"

section \<open>Configuration of slices\<close>

text \<open>How a simulation encodes the slice of a user in the guaranteed bit rate of a bearer.\<close>

definition ns_encode :: "u64 \<Rightarrow> u64 \<Rightarrow> u64 \<Rightarrow> u64 \<Rightarrow> u64 \<Rightarrow> u64" where
  "ns_encode sliceId dedicated prioritized shared imsi =
    sliceId + push_bit 8 dedicated + push_bit 16 prioritized + push_bit 24 shared + push_bit 32 imsi"

definition ns_decode_slice :: "u64 \<Rightarrow> u32 \<times> SliceInfo \<times> u32" where
  "ns_decode_slice encodedBits =
    (let sliceId = ucast (encodedBits AND 255);
         dedicated = drop_bit 8 encodedBits AND 255;
         prioritized = drop_bit 16 encodedBits AND 255;
         shared = drop_bit 24 encodedBits AND 255;
         imsi = ucast (drop_bit 32 encodedBits AND 255)
     in (sliceId, \<lparr>si_dedicatedRbg = dedicated, si_prioritizedRbg = prioritized, si_sharedRbg = shared,
           si_minRbg = dedicated + prioritized, si_maxRbg = dedicated + prioritized + shared\<rparr>, imsi))"

definition nsPfsFlowPerf_new :: "time \<Rightarrow> nsPfsFlowPerf" where
  "nsPfsFlowPerf_new now = \<lparr>fp_flowStart = now, fp_totalBytes = 0, fp_lastTtiBytes = 0, fp_lastTtiSlicedBytes = 0,
    fp_lastAvg = 1, fp_lastAvgSliced = 1, fp_sliceId = UINT32_MAX, fp_imsi = UINT32_MAX\<rparr>"

text \<open>\<open>m[k].f = x\<close>: the entry is there, a new one otherwise.\<close>

definition fp_set_user :: "u32 \<Rightarrow> u32 \<Rightarrow> time \<Rightarrow> u16 \<Rightarrow> (u16, nsPfsFlowPerf) smap \<Rightarrow> (u16, nsPfsFlowPerf) smap" where
  "fp_set_user sliceId imsi now rnti m =
    sm_set rnti ((case sm_find rnti m of Some f \<Rightarrow> f | None \<Rightarrow> nsPfsFlowPerf_new now)
      \<lparr>fp_sliceId := sliceId, fp_imsi := imsi\<rparr>) m"

definition ns_lc_config :: "bool \<Rightarrow> u16 \<Rightarrow> LcConfig \<Rightarrow> NsScheduler \<Rightarrow> NsScheduler" where
  "ns_lc_config reconfigure rnti lc s =
    (if reconfigure then
       (if sm_has (rnti, lc_id lc) (ns_lcConfig s) then s\<lparr>ns_lcConfig := sm_set (rnti, lc_id lc) lc (ns_lcConfig s)\<rparr> else s)
     else
       (if sm_has (rnti, lc_id lc) (ns_lcConfig s) then s
        else s\<lparr>ns_lcConfig := sm_set (rnti, lc_id lc) lc (ns_lcConfig s)\<rparr>))"

definition ns_add_flow :: "time \<Rightarrow> u16 \<Rightarrow> NsScheduler \<Rightarrow> NsScheduler" where
  "ns_add_flow now rnti s =
    (if sm_has rnti (ns_flowStatsDl s) then s
     else s\<lparr>ns_flowStatsDl := sm_set rnti (nsPfsFlowPerf_new now) (ns_flowStatsDl s),
       ns_flowStatsUl := (if sm_has rnti (ns_flowStatsUl s) then ns_flowStatsUl s
         else sm_set rnti (nsPfsFlowPerf_new now) (ns_flowStatsUl s))\<rparr>)"

definition ns_set_slice :: "time \<Rightarrow> u16 \<Rightarrow> LcConfig \<Rightarrow> NsScheduler \<Rightarrow> NsScheduler" where
  "ns_set_slice now rnti lc s =
    (if lc_mbrDl lc = 4294967295 then
       let (sliceId, info, imsi) = ns_decode_slice (lc_gbrDl lc)
       in s\<lparr>ns_flowStatsDl := fp_set_user sliceId imsi now rnti (ns_flowStatsDl s),
            ns_flowStatsUl := fp_set_user sliceId imsi now rnti (ns_flowStatsUl s),
            ns_sliceInfo := sm_set sliceId info (ns_sliceInfo s)\<rparr>
     else s)"

definition ns_total_min :: "(u32, SliceInfo) smap \<Rightarrow> int" where
  "ns_total_min slices = foldl (\<lambda>totalRbg (k, info). i32_add totalRbg (si_minRbg info)) 0 slices"

definition ns_DoCschedLcConfigReq :: "time \<Rightarrow> bool \<Rightarrow> u16 \<Rightarrow> LcConfig list \<Rightarrow> NsScheduler \<Rightarrow> NsScheduler result" where
  "ns_DoCschedLcConfigReq now reconfigure rnti lcs s =
    (let s = foldl (\<lambda>s lc. ns_lc_config reconfigure rnti lc s) s lcs;
         s = foldl (\<lambda>s lc. ns_set_slice now rnti lc (ns_add_flow now rnti s)) s lcs
     in if ns_total_min (ns_sliceInfo s) > ns_rbgNum s then
          Inl (Fatal ''the total schedule RBGs from config.json file is greater than available RBGs'')
        else Inr s)"

section \<open>Actions of an agent\<close>

text \<open>An action is null, or the lists of slice ids and of values.\<close>

type_synonym ns_action = "(int list \<times> int list) option"

definition ns_set_rbg :: "char \<Rightarrow> u64 \<Rightarrow> SliceInfo \<Rightarrow> SliceInfo result" where
  "ns_set_rbg type v info =
    (if type = CHR ''d'' then Inr (info\<lparr>si_dedicatedRbg := v\<rparr>)
     else if type = CHR ''p'' then Inr (info\<lparr>si_prioritizedRbg := v\<rparr>)
     else if type = CHR ''s'' then Inr (info\<lparr>si_sharedRbg := v\<rparr>)
     else Inl (Fatal ''Only surpports d, p or s type.''))"

definition ns_update_slice :: "char \<Rightarrow> (int \<times> int) list \<Rightarrow> u32 \<Rightarrow> SliceInfo \<Rightarrow> SliceInfo result" where
  "ns_update_slice type acts k info =
    rbind (case map_of acts (uint k) of None \<Rightarrow> Inr info | Some v \<Rightarrow> ns_set_rbg type (of_int v) info) (\<lambda>info.
    Inr (info\<lparr>si_maxRbg := si_dedicatedRbg info + si_prioritizedRbg info + si_sharedRbg info,
      si_minRbg := si_dedicatedRbg info + si_prioritizedRbg info\<rparr>))"

fun ns_update_slices :: "char \<Rightarrow> int list \<Rightarrow> int list \<Rightarrow> (u32, SliceInfo) smap \<Rightarrow> int
    \<Rightarrow> ((u32, SliceInfo) smap \<times> int) result" where
  "ns_update_slices type ids vals [] totalRbg = Inr ([], totalRbg)"
| "ns_update_slices type ids vals ((k, info) # slices) totalRbg =
    (if length vals > 0 then
       rbind (if length ids \<noteq> length vals then Inl (Fatal ''the size of slice id and value must be the same!'') else Inr ()) (\<lambda>_.
       rbind (ns_update_slice type (zip ids vals) k info) (\<lambda>info.
       rbind (ns_update_slices type ids vals slices (i32_add totalRbg (si_minRbg info))) (\<lambda>(slices, totalRbg).
       Inr ((k, info) # slices, totalRbg))))
     else
       rbind (ns_update_slices type ids vals slices totalRbg) (\<lambda>(slices, totalRbg).
       Inr ((k, info) # slices, totalRbg)))"

definition ns_UpdateSliceInfo :: "char \<Rightarrow> ns_action \<Rightarrow> NsScheduler \<Rightarrow> NsScheduler result" where
  "ns_UpdateSliceInfo type action s =
    (case action of
       None \<Rightarrow> Inr s
     | Some (ids, vals) \<Rightarrow>
         rbind (ns_update_slices type ids vals (ns_sliceInfo s) 0) (\<lambda>(slices, totalRbg).
         if totalRbg > ns_rbgNum s then Inl (Fatal ''the total schedule RBGs is greater than available RBGs'')
         else Inr (s\<lparr>ns_sliceInfo := slices\<rparr>)))"

definition ns_ReceiveDrbAllocation :: "ns_action \<Rightarrow> NsScheduler \<Rightarrow> NsScheduler result" where
  "ns_ReceiveDrbAllocation action s = ns_UpdateSliceInfo CHR ''d'' action s"

definition ns_ReceivePrbAllocation :: "ns_action \<Rightarrow> NsScheduler \<Rightarrow> NsScheduler result" where
  "ns_ReceivePrbAllocation action s = ns_UpdateSliceInfo CHR ''p'' action s"

definition ns_ReceiveSrbAllocation :: "ns_action \<Rightarrow> NsScheduler \<Rightarrow> NsScheduler result" where
  "ns_ReceiveSrbAllocation action s = ns_UpdateSliceInfo CHR ''s'' action s"

section \<open>The table of RBGs\<close>

lemma i32_add_small:
  assumes "0 \<le> t" "t + uint n < 2147483648"
  shows "i32_add t n = t + uint n"
proof -
  have n: "0 \<le> uint n" by simp
  with assms have "uint (of_int t + n) = t + uint n"
    by (simp add: uint_word_ariths uint_word_of_int mod_add_left_eq)
  then have "uint (ucast (of_int t + n) :: u32) = t + uint n"
    using assms n by (simp add: unsigned_ucast_eq take_bit_int_eq_self)
  moreover have "- 2147483648 \<le> t + uint n" using assms(1) n by linarith
  ultimately show ?thesis
    using assms by (simp add: i32_add_def sint_uint signed_take_bit_int_eq_self_iff)
qed

definition ns_block :: "RBG_TYPE \<Rightarrow> (SliceInfo \<Rightarrow> u64) \<Rightarrow> (u32, SliceInfo) smap \<Rightarrow> (RBG_TYPE \<times> u32) list" where
  "ns_block type rbgs slices = concat (map (\<lambda>(k, info). replicate (unat (rbgs info)) (type, k)) slices)"

definition ns_layout :: "(u32, SliceInfo) smap \<Rightarrow> (RBG_TYPE \<times> u32) list" where
  "ns_layout slices =
    ns_block DEDICATED_RBG si_dedicatedRbg slices @ ns_block PRIORITIZED_RBG si_prioritizedRbg slices"

lemma ns_block_Nil [simp]: "ns_block type rbgs [] = []"
  by (simp add: ns_block_def)

lemma ns_block_Cons [simp]:
  "ns_block type rbgs ((k, info) # slices) = replicate (unat (rbgs info)) (type, k) @ ns_block type rbgs slices"
  by (simp add: ns_block_def)

lemma ns_find_slice_block:
  assumes "0 \<le> t" "t + int (length (ns_block type rbgs slices)) < 2147483648"
  shows "ns_find_slice base r rbgs slices t sid = (t + int (length (ns_block type rbgs slices)),
    if base + t \<le> r \<and> r < base + t + int (length (ns_block type rbgs slices))
    then snd (ns_block type rbgs slices ! nat (r - base - t)) else sid)"
  using assms
proof (induction slices arbitrary: t sid)
  case (Cons p slices)
  obtain k info where p: "p = (k, info)" by (cases p)
  define n where "n = unat (rbgs info)"
  define m where "m = length (ns_block type rbgs slices)"
  have n: "uint (rbgs info) = int n" by (simp add: n_def)
  have bounds: "0 \<le> t" "t + int n + int m < 2147483648" using Cons.prems p by (simp_all add: n_def m_def)
  have "i32_add t (rbgs info) = t + int n" using bounds i32_add_small [of t "rbgs info"] by (simp add: n)
  moreover note Cons.IH [of "t + int n" "if base + t \<le> r \<and> r < base + (t + int n) then k else sid"]
  ultimately show ?case
    using bounds by (auto simp: p Let_def nth_append nat_less_iff algebra_simps simp flip: n_def m_def
      intro!: arg_cong [of _ _ "\<lambda>j. snd (ns_block type rbgs slices ! j)"])
qed auto

lemma ns_block_type: "x \<in> set (ns_block type rbgs slices) \<Longrightarrow> fst x = type"
  by (auto simp: ns_block_def)

lemma ns_GetRbgSliceInfo_layout:
  assumes "length (ns_layout (ns_sliceInfo s)) < 2147483648"
  shows "ns_GetRbgSliceInfo s (int r) =
    (if r < length (ns_layout (ns_sliceInfo s)) then ns_layout (ns_sliceInfo s) ! r else (SHARED_RBG, UINT32_MAX))"
proof -
  define D where "D = ns_block DEDICATED_RBG si_dedicatedRbg (ns_sliceInfo s)"
  define P where "P = ns_block PRIORITIZED_RBG si_prioritizedRbg (ns_sliceInfo s)"
  have layout: "ns_layout (ns_sliceInfo s) = D @ P" by (simp add: ns_layout_def D_def P_def)
  have len: "int (length D) + int (length P) < 2147483648" using assms by (simp add: layout)
  have d: "ns_find_slice 0 (int r) si_dedicatedRbg (ns_sliceInfo s) 0 UINT32_MAX =
      (int (length D), if r < length D then snd (D ! r) else UINT32_MAX)"
    using ns_find_slice_block [of 0 DEDICATED_RBG si_dedicatedRbg "ns_sliceInfo s" 0 "int r" UINT32_MAX] len
    by (simp flip: D_def)
  have p: "ns_find_slice (int (length D)) (int r) si_prioritizedRbg (ns_sliceInfo s) 0 UINT32_MAX =
      (int (length P), if length D \<le> r \<and> r < length D + length P then snd (P ! (r - length D)) else UINT32_MAX)"
    using ns_find_slice_block [of 0 PRIORITIZED_RBG si_prioritizedRbg "ns_sliceInfo s" "int (length D)" "int r" UINT32_MAX] len
    by (auto simp: nat_diff_distrib' simp flip: P_def)
  have "fst (D ! r) = DEDICATED_RBG" if "r < length D"
    using nth_mem [OF that] ns_block_type unfolding D_def by blast
  moreover have "fst (P ! (r - length D)) = PRIORITIZED_RBG" if "length D \<le> r" "r < length D + length P"
    using nth_mem [of "r - length D" P] ns_block_type that unfolding P_def by (metis less_diff_conv2 add.commute)
  ultimately show ?thesis
    by (auto simp: ns_GetRbgSliceInfo_def d p layout nth_append prod_eq_iff)
qed

lemma ns_rbg_map:
  assumes "length (ns_layout (ns_sliceInfo s)) \<le> n" "n < 2147483648"
  shows "map (\<lambda>r. ns_GetRbgSliceInfo s (int r)) [0..<n] =
    ns_layout (ns_sliceInfo s) @ replicate (n - length (ns_layout (ns_sliceInfo s))) (SHARED_RBG, UINT32_MAX)"
  using assms by (intro nth_equalityI) (simp_all add: ns_GetRbgSliceInfo_layout nth_append)

section \<open>The reserved RBGs fit\<close>

text \<open>What a configuration and the actions of an agent keep, with values up to \<open>2 ^ 20\<close>: the sums of a slice are right and
  the reserved RBGs of all slices fit into the number of RBGs.\<close>

definition ns_rbg_limit :: u64 where "ns_rbg_limit = 1048576"

definition ns_slice_ok :: "u32 \<Rightarrow> SliceInfo \<Rightarrow> bool" where
  "ns_slice_ok k info \<longleftrightarrow> k < 256 \<and>
    si_dedicatedRbg info \<le> ns_rbg_limit \<and> si_prioritizedRbg info \<le> ns_rbg_limit \<and> si_sharedRbg info \<le> ns_rbg_limit \<and>
    si_minRbg info = si_dedicatedRbg info + si_prioritizedRbg info \<and>
    si_maxRbg info = si_dedicatedRbg info + si_prioritizedRbg info + si_sharedRbg info"

definition ns_reserved :: "(u32, SliceInfo) smap \<Rightarrow> int" where
  "ns_reserved slices = (\<Sum>(k, info) \<leftarrow> slices. uint (si_dedicatedRbg info) + uint (si_prioritizedRbg info))"

definition ns_slices_wf :: "(u32, SliceInfo) smap \<Rightarrow> bool" where
  "ns_slices_wf slices \<longleftrightarrow> sm_wf slices \<and> (\<forall>(k, info) \<in> set slices. ns_slice_ok k info)"

definition ns_slices_ok :: "NsScheduler \<Rightarrow> bool" where
  "ns_slices_ok s \<longleftrightarrow> ns_slices_wf (ns_sliceInfo s) \<and> ns_reserved (ns_sliceInfo s) \<le> ns_rbgNum s"

lemma ns_slice_ok_min:
  assumes "ns_slice_ok k info"
  shows "uint (si_minRbg info) = uint (si_dedicatedRbg info) + uint (si_prioritizedRbg info)"
    "uint (si_maxRbg info) = uint (si_dedicatedRbg info) + uint (si_prioritizedRbg info) + uint (si_sharedRbg info)"
    "uint (si_dedicatedRbg info) + uint (si_prioritizedRbg info) \<le> 2097152"
proof -
  have b: "uint (si_dedicatedRbg info) \<le> 1048576" "uint (si_prioritizedRbg info) \<le> 1048576"
    "uint (si_sharedRbg info) \<le> 1048576"
    using assms by (simp_all add: ns_slice_ok_def ns_rbg_limit_def word_le_def)
  have add: "uint (a + b) = uint a + uint b" if "uint a + uint b < 18446744073709551616" for a b :: u64
    using that by (simp add: uint_add_lem [THEN iffD1])
  have dp: "uint (si_dedicatedRbg info + si_prioritizedRbg info) = uint (si_dedicatedRbg info) + uint (si_prioritizedRbg info)"
    by (rule add) (use b in linarith)
  have "uint (si_dedicatedRbg info + si_prioritizedRbg info + si_sharedRbg info) =
      uint (si_dedicatedRbg info + si_prioritizedRbg info) + uint (si_sharedRbg info)"
    by (rule add) (use b dp in linarith)
  with dp b assms show "uint (si_minRbg info) = uint (si_dedicatedRbg info) + uint (si_prioritizedRbg info)"
    "uint (si_maxRbg info) = uint (si_dedicatedRbg info) + uint (si_prioritizedRbg info) + uint (si_sharedRbg info)"
    "uint (si_dedicatedRbg info) + uint (si_prioritizedRbg info) \<le> 2097152"
    unfolding ns_slice_ok_def by (simp_all only: dp)
qed

lemma ns_reserved_simps [simp]:
  "ns_reserved [] = 0"
  "ns_reserved ((k, info) # slices) = uint (si_dedicatedRbg info) + uint (si_prioritizedRbg info) + ns_reserved slices"
  by (simp_all add: ns_reserved_def)

lemma ns_reserved_nonneg [simp]: "0 \<le> ns_reserved slices"
proof (induction slices)
  case (Cons p slices)
  have "0 \<le> uint (si_dedicatedRbg (snd p))" "0 \<le> uint (si_prioritizedRbg (snd p))" by (rule uint_ge_0)+
  with Cons show ?case by (cases p) simp
qed simp

lemma ns_layout_length: "int (length (ns_layout slices)) = ns_reserved slices"
proof (induction slices)
  case (Cons p slices)
  then show ?case by (cases p) (simp add: ns_layout_def)
qed (simp add: ns_layout_def)

lemma ns_reserved_bound:
  "\<forall>(k, info) \<in> set slices. ns_slice_ok k info \<Longrightarrow> ns_reserved slices \<le> 2097152 * int (length slices)"
proof (induction slices)
  case (Cons p slices)
  then show ?case using ns_slice_ok_min(3) [of "fst p" "snd p"] by (cases p) simp
qed simp

lemma ns_slices_length:
  assumes "ns_slices_wf slices"
  shows "length slices \<le> 256"
proof -
  have "set (sm_keys slices) \<subseteq> {k :: u32. k < 256}"
    using assms by (auto simp: ns_slices_wf_def sm_keys_def ns_slice_ok_def)
  moreover have "{k :: u32. k < 256} = of_nat ` {..<256}"
  proof
    show "{k :: u32. k < 256} \<subseteq> of_nat ` {..<256}"
    proof
      fix k :: u32 assume "k \<in> {k. k < 256}"
      then have "unat k < 256" by (simp add: word_less_nat_alt)
      then show "k \<in> of_nat ` {..<256}" by (intro image_eqI [of _ _ "unat k"]) simp_all
    qed
  qed (auto simp: word_less_nat_alt unat_of_nat)
  ultimately have "card (set (sm_keys slices)) \<le> card (of_nat ` {..<256} :: u32 set)"
    by (intro card_mono) simp_all
  also have "\<dots> \<le> 256" using card_image_le [of "{..<256 :: nat}" "of_nat :: nat \<Rightarrow> u32"] by simp
  finally show ?thesis using assms sm_length_keys [of slices] by (simp add: ns_slices_wf_def)
qed

lemma ns_reserved_small: "ns_slices_wf slices \<Longrightarrow> ns_reserved slices \<le> 536870912"
  using ns_slices_length [of slices] ns_reserved_bound [of slices] by (simp add: ns_slices_wf_def)

lemma ns_total_min_reserved:
  assumes "\<forall>(k, info) \<in> set slices. ns_slice_ok k info" "0 \<le> t" "t + ns_reserved slices < 2147483648"
  shows "foldl (\<lambda>totalRbg (k, info). i32_add totalRbg (si_minRbg info)) t slices = t + ns_reserved slices"
  using assms
proof (induction slices arbitrary: t)
  case (Cons p slices)
  obtain k info where p: "p = (k, info)" by (cases p)
  have "uint (si_minRbg info) = uint (si_dedicatedRbg info) + uint (si_prioritizedRbg info)"
    using Cons.prems(1) ns_slice_ok_min(1) [of k info] by (simp add: p)
  moreover have "0 \<le> uint (si_dedicatedRbg info)" "0 \<le> uint (si_prioritizedRbg info)" "0 \<le> ns_reserved slices"
    by (rule uint_ge_0 ns_reserved_nonneg)+
  moreover have "t + uint (si_minRbg info) < 2147483648"
    using calculation Cons.prems(3) unfolding p ns_reserved_simps by linarith
  ultimately show ?case using Cons.IH [of "t + uint (si_minRbg info)"] Cons.prems by (simp add: p i32_add_small)
qed simp

lemma ns_total_min_eq: "ns_slices_wf slices \<Longrightarrow> ns_total_min slices = ns_reserved slices"
  using ns_total_min_reserved [of slices 0] ns_reserved_small [of slices] by (simp add: ns_total_min_def ns_slices_wf_def)

section \<open>What an action does\<close>

definition ns_type_ok :: "char \<Rightarrow> bool" where
  "ns_type_ok type \<longleftrightarrow> type = CHR ''d'' \<or> type = CHR ''p'' \<or> type = CHR ''s''"

definition ns_with :: "char \<Rightarrow> int \<Rightarrow> SliceInfo \<Rightarrow> SliceInfo" where
  "ns_with type v info =
    (let info = (if type = CHR ''d'' then info\<lparr>si_dedicatedRbg := of_int v\<rparr>
                 else if type = CHR ''p'' then info\<lparr>si_prioritizedRbg := of_int v\<rparr>
                 else info\<lparr>si_sharedRbg := of_int v\<rparr>)
     in info\<lparr>si_maxRbg := si_dedicatedRbg info + si_prioritizedRbg info + si_sharedRbg info,
          si_minRbg := si_dedicatedRbg info + si_prioritizedRbg info\<rparr>)"

text \<open>The slices after an action: a slice gets the first value for its id, the others keep theirs.\<close>

definition ns_acted :: "char \<Rightarrow> int list \<Rightarrow> int list \<Rightarrow> (u32, SliceInfo) smap \<Rightarrow> (u32, SliceInfo) smap" where
  "ns_acted type ids vals slices =
    map (\<lambda>(k, info). (k, case map_of (zip ids vals) (uint k) of None \<Rightarrow> info | Some v \<Rightarrow> ns_with type v info)) slices"

lemma ns_acted_simps [simp]:
  "ns_acted type ids vals [] = []"
  "ns_acted type ids vals ((k, info) # slices) =
    (k, case map_of (zip ids vals) (uint k) of None \<Rightarrow> info | Some v \<Rightarrow> ns_with type v info) # ns_acted type ids vals slices"
  by (simp_all add: ns_acted_def)

lemma u64_of_small: "0 \<le> v \<Longrightarrow> v \<le> 1048576 \<Longrightarrow> (of_int v :: u64) \<le> ns_rbg_limit"
  by (simp add: word_le_def ns_rbg_limit_def uint_word_of_int)

lemma ns_with_ok:
  assumes "ns_slice_ok k info" "0 \<le> v" "v \<le> 1048576"
  shows "ns_slice_ok k (ns_with type v info)"
  using assms u64_of_small [OF assms(2,3)] by (simp add: ns_slice_ok_def ns_with_def Let_def)

lemma ns_update_slice_eq:
  assumes "ns_type_ok type" "ns_slice_ok k info"
  shows "ns_update_slice type acts k info =
    Inr (case map_of acts (uint k) of None \<Rightarrow> info | Some v \<Rightarrow> ns_with type v info)"
proof (cases "map_of acts (uint k)")
  case None
  have "info\<lparr>si_maxRbg := si_dedicatedRbg info + si_prioritizedRbg info + si_sharedRbg info,
      si_minRbg := si_dedicatedRbg info + si_prioritizedRbg info\<rparr> = info"
    using assms(2) by (cases info) (simp add: ns_slice_ok_def)
  with None show ?thesis by (simp add: ns_update_slice_def)
next
  case (Some v)
  with assms(1) show ?thesis
    by (auto simp: ns_update_slice_def ns_set_rbg_def ns_with_def ns_type_ok_def Let_def)
qed

lemma ns_acted_ok:
  assumes "\<forall>(k, info) \<in> set slices. ns_slice_ok k info" "\<forall>v \<in> set vals. 0 \<le> v \<and> v \<le> 1048576"
  shows "\<forall>(k, info) \<in> set (ns_acted type ids vals slices). ns_slice_ok k info"
proof -
  have "ns_slice_ok k (case map_of (zip ids vals) (uint k) of None \<Rightarrow> info | Some v \<Rightarrow> ns_with type v info)"
    if "(k, info) \<in> set slices" for k info
  proof (cases "map_of (zip ids vals) (uint k)")
    case None
    with that assms(1) show ?thesis by auto
  next
    case (Some v)
    then have "v \<in> set vals" by (meson map_of_SomeD set_zip_rightD)
    with that assms Some show ?thesis by (auto intro: ns_with_ok)
  qed
  then show ?thesis by (auto simp: ns_acted_def)
qed

lemma ns_acted_keys: "sm_keys (ns_acted type ids vals slices) = sm_keys slices"
  by (induction slices) (auto simp: sm_keys_def)

lemma ns_acted_wf:
  assumes "ns_slices_wf slices" "\<forall>v \<in> set vals. 0 \<le> v \<and> v \<le> 1048576"
  shows "ns_slices_wf (ns_acted type ids vals slices)"
  using assms ns_acted_ok [of slices vals type ids] ns_acted_keys [of type ids vals slices]
  by (simp add: ns_slices_wf_def sm_wf_def)

lemma ns_update_slices_eq:
  assumes "ns_type_ok type" "length ids = length vals" "vals \<noteq> []"
    and "\<forall>(k, info) \<in> set slices. ns_slice_ok k info" "\<forall>v \<in> set vals. 0 \<le> v \<and> v \<le> 1048576"
    and "0 \<le> t" "t + ns_reserved (ns_acted type ids vals slices) < 2147483648"
  shows "ns_update_slices type ids vals slices t =
    Inr (ns_acted type ids vals slices, t + ns_reserved (ns_acted type ids vals slices))"
  using assms(4,6,7)
proof (induction slices arbitrary: t)
  case (Cons p slices)
  obtain k info where p: "p = (k, info)" by (cases p)
  define info' where "info' = (case map_of (zip ids vals) (uint k) of None \<Rightarrow> info | Some v \<Rightarrow> ns_with type v info)"
  have acted: "ns_acted type ids vals (p # slices) = (k, info') # ns_acted type ids vals slices"
    by (simp add: p info'_def)
  have "ns_slice_ok k info'"
    using ns_acted_ok [OF Cons.prems(1) assms(5), of type ids] acted by simp
  note min = ns_slice_ok_min(1) [OF this]
  have nonneg: "0 \<le> uint (si_dedicatedRbg info')" "0 \<le> uint (si_prioritizedRbg info')"
    "0 \<le> ns_reserved (ns_acted type ids vals slices)"
    by (rule uint_ge_0 ns_reserved_nonneg)+
  have sum: "t + uint (si_minRbg info') + ns_reserved (ns_acted type ids vals slices) < 2147483648"
    using Cons.prems(3) min unfolding acted ns_reserved_simps by linarith
  have add: "i32_add t (si_minRbg info') = t + uint (si_minRbg info')"
    by (rule i32_add_small) (use Cons.prems(2) sum nonneg in linarith)+
  have "0 \<le> t + uint (si_minRbg info')" using Cons.prems(2) nonneg min by linarith
  note IH = Cons.IH [OF _ this sum]
  have "ns_update_slice type (zip ids vals) k info = Inr info'"
    unfolding info'_def by (rule ns_update_slice_eq) (use assms(1) Cons.prems(1) p in auto)
  then show ?case
    using IH Cons.prems(1) assms(2,3) add min by (simp add: p add.assoc flip: info'_def)
qed simp

lemma ns_UpdateSliceInfo_eq:
  assumes "ns_type_ok type" "length ids = length vals" "vals \<noteq> []" "ns_slices_ok s"
    "\<forall>v \<in> set vals. 0 \<le> v \<and> v \<le> 1048576"
  shows "ns_UpdateSliceInfo type (Some (ids, vals)) s =
    (if ns_reserved (ns_acted type ids vals (ns_sliceInfo s)) > ns_rbgNum s
     then Inl (Fatal ''the total schedule RBGs is greater than available RBGs'')
     else Inr (s\<lparr>ns_sliceInfo := ns_acted type ids vals (ns_sliceInfo s)\<rparr>))"
proof -
  have wf: "ns_slices_wf (ns_sliceInfo s)" using assms(4) by (simp add: ns_slices_ok_def)
  have "ns_reserved (ns_acted type ids vals (ns_sliceInfo s)) < 2147483648"
    using ns_reserved_small [OF ns_acted_wf [OF wf assms(5)], of type ids] by linarith
  moreover have "\<forall>(k, info) \<in> set (ns_sliceInfo s). ns_slice_ok k info" using wf by (simp add: ns_slices_wf_def)
  ultimately show ?thesis
    using ns_update_slices_eq [OF assms(1-3) _ assms(5), of "ns_sliceInfo s" 0]
    by (simp add: ns_UpdateSliceInfo_def)
qed

lemma ns_action_ok:
  assumes "ns_UpdateSliceInfo type action s = Inr s'" "ns_slices_ok s" "ns_type_ok type"
    "\<forall>ids vals. action = Some (ids, vals) \<longrightarrow> (\<forall>v \<in> set vals. 0 \<le> v \<and> v \<le> 1048576)"
  shows "ns_slices_ok s'"
proof (cases action)
  case None
  with assms show ?thesis by (simp add: ns_UpdateSliceInfo_def)
next
  case (Some a)
  obtain ids vals where a: "a = (ids, vals)" by (cases a)
  with assms(4) Some have vals: "\<forall>v \<in> set vals. 0 \<le> v \<and> v \<le> 1048576" by blast
  have nil: "ns_update_slices type ids [] slices t = Inr (slices, t)" for slices t
    by (induction slices arbitrary: t) auto
  consider "vals = []" | "vals \<noteq> []" "length ids \<noteq> length vals" | "vals \<noteq> []" "length ids = length vals" by blast
  then show ?thesis
  proof cases
    case 1
    with assms(1) Some a have "s' = s" by (auto simp: ns_UpdateSliceInfo_def nil split: if_splits)
    with assms(2) show ?thesis by simp
  next
    case 2
    show ?thesis
    proof (cases "ns_sliceInfo s")
      case Nil
      with assms(1) Some a have "s' = s" by (auto simp: ns_UpdateSliceInfo_def split: if_splits)
      with assms(2) show ?thesis by simp
    next
      case (Cons p slices)
      with 2 assms(1) Some a show ?thesis by (cases p) (auto simp: ns_UpdateSliceInfo_def split: if_splits)
    qed
  next
    case 3
    with ns_UpdateSliceInfo_eq [OF assms(3) 3(2,1) assms(2) vals] assms(1) Some a
    have s': "s' = s\<lparr>ns_sliceInfo := ns_acted type ids vals (ns_sliceInfo s)\<rparr>"
      and le: "ns_reserved (ns_acted type ids vals (ns_sliceInfo s)) \<le> ns_rbgNum s"
      by (simp_all split: if_splits)
    have "ns_slices_wf (ns_acted type ids vals (ns_sliceInfo s))"
      by (rule ns_acted_wf) (use assms(2) vals in \<open>simp_all add: ns_slices_ok_def\<close>)
    with le show ?thesis by (simp add: s' ns_slices_ok_def ns_rbgNum_def ns_rbgSize_def)
  qed
qed

text \<open>The number of RBGs of a type that belong to a slice.\<close>

definition ns_rbgs_of :: "NsScheduler \<Rightarrow> RBG_TYPE \<Rightarrow> u32 \<Rightarrow> nat" where
  "ns_rbgs_of s type k = length (filter (\<lambda>r. ns_GetRbgSliceInfo s (int r) = (type, k)) [0..<nat (ns_rbgNum s)])"

lemma ns_rbgNum_le: "ns_rbgNum s \<le> 255"
proof -
  have u: "0 \<le> uint (ns_dlBandwidth s)" "uint (ns_dlBandwidth s) \<le> 255"
    using unsigned_less [of "ns_dlBandwidth s", where 'a = int] by (simp_all only: uint_ge_0) simp
  have size: "ns_rbgSize s = - 1 \<or> 1 \<le> ns_rbgSize s"
    by (auto simp: ns_rbgSize_def ns_GetRbgSize_def split: list.splits)
  then show ?thesis
  proof
    assume "ns_rbgSize s = - 1"
    then have "ns_rbgNum s = - uint (ns_dlBandwidth s)" by (simp add: ns_rbgNum_def)
    with u show ?thesis by linarith
  next
    assume "1 \<le> ns_rbgSize s"
    then have "uint (ns_dlBandwidth s) div ns_rbgSize s \<le> uint (ns_dlBandwidth s)"
      using zdiv_mono2 [of "uint (ns_dlBandwidth s)" 1 "ns_rbgSize s"] u(1) by simp
    with u show ?thesis by (simp add: ns_rbgNum_def)
  qed
qed

lemma ns_layout_fits:
  assumes "ns_slices_ok s"
  shows "length (ns_layout (ns_sliceInfo s)) \<le> nat (ns_rbgNum s)" "nat (ns_rbgNum s) < 2147483648"
  using assms ns_layout_length [of "ns_sliceInfo s"] ns_rbgNum_le [of s] unfolding ns_slices_ok_def by linarith+

lemma filter_map_length: "length (filter (\<lambda>r. f r = x) xs) = length (filter (\<lambda>y. y = x) (map f xs))"
  by (induction xs) simp_all

lemma ns_block_count:
  assumes "sm_wf slices" "(k, info) \<in> set slices"
  shows "length (filter (\<lambda>y. y = (type, k)) (ns_block type' rbgs slices)) = (if type = type' then unat (rbgs info) else 0)"
  using assms
proof (induction slices)
  case (Cons p slices)
  obtain k' info' where p: "p = (k', info')" by (cases p)
  have other: "filter (\<lambda>y. y = (type, k)) (ns_block type' rbgs slices) = []" if "k \<notin> set (sm_keys slices)"
    using that by (auto simp: ns_block_def sm_keys_def filter_empty_conv image_iff)
  from Cons.prems(1) have "sm_wf slices" "k' \<notin> set (sm_keys slices)" by (auto simp: sm_wf_def sm_keys_def p)
  with Cons p other show ?case by (auto simp: sm_keys_def filter_empty_conv image_iff)
qed simp

lemma ns_rbgs_of_eq:
  assumes "ns_slices_ok s" "(k, info) \<in> set (ns_sliceInfo s)"
  shows "ns_rbgs_of s DEDICATED_RBG k = unat (si_dedicatedRbg info)"
    "ns_rbgs_of s PRIORITIZED_RBG k = unat (si_prioritizedRbg info)"
    "ns_rbgs_of s SHARED_RBG k = 0"
proof -
  have wf: "sm_wf (ns_sliceInfo s)" and k: "k \<noteq> UINT32_MAX"
    using assms by (auto simp: ns_slices_ok_def ns_slices_wf_def ns_slice_ok_def)
  have "ns_rbgs_of s type k = length (filter (\<lambda>y. y = (type, k)) (ns_layout (ns_sliceInfo s) @
      replicate (nat (ns_rbgNum s) - length (ns_layout (ns_sliceInfo s))) (SHARED_RBG, UINT32_MAX)))" for type
    unfolding ns_rbgs_of_def ns_rbg_map [OF ns_layout_fits [OF assms(1)], symmetric] by (rule filter_map_length)
  then show "ns_rbgs_of s DEDICATED_RBG k = unat (si_dedicatedRbg info)"
    "ns_rbgs_of s PRIORITIZED_RBG k = unat (si_prioritizedRbg info)"
    "ns_rbgs_of s SHARED_RBG k = 0"
    using k by (simp_all add: ns_layout_def ns_block_count [OF wf assms(2)])
qed

text \<open>C38: The RBGs of a subframe form the table of the documentation: the dedicated RBGs of all slices in the order of
  their ids, the prioritized ones in the same order, and the rest shared by all; so every slice has exactly as many
  dedicated and prioritized RBGs as its configuration says.\<close>

theorem ns_rbg_table:
  assumes "ns_slices_ok s"
  shows "map (\<lambda>r. ns_GetRbgSliceInfo s (int r)) [0..<nat (ns_rbgNum s)] =
      concat (map (\<lambda>(k, info). replicate (unat (si_dedicatedRbg info)) (DEDICATED_RBG, k)) (ns_sliceInfo s)) @
      concat (map (\<lambda>(k, info). replicate (unat (si_prioritizedRbg info)) (PRIORITIZED_RBG, k)) (ns_sliceInfo s)) @
      replicate (nat (ns_rbgNum s - ns_reserved (ns_sliceInfo s))) (SHARED_RBG, UINT32_MAX) \<and>
    (\<forall>(k, info) \<in> set (ns_sliceInfo s). ns_rbgs_of s DEDICATED_RBG k = unat (si_dedicatedRbg info) \<and>
      ns_rbgs_of s PRIORITIZED_RBG k = unat (si_prioritizedRbg info))"
proof -
  have "nat (ns_rbgNum s) - length (ns_layout (ns_sliceInfo s)) = nat (ns_rbgNum s - ns_reserved (ns_sliceInfo s))"
    using ns_layout_length [of "ns_sliceInfo s"] by linarith
  with ns_rbg_map [OF ns_layout_fits [OF assms]] ns_rbgs_of_eq [OF assms] show ?thesis
    by (auto simp: ns_layout_def ns_block_def)
qed

text \<open>C7: An action of an agent with a value in \<open>0\<close> to \<open>2 ^ 20\<close> for every id it lists is accepted exactly when the reserved
  RBGs of all slices then fit, and stops the program otherwise; an accepted one gives every slice it names that many
  RBGs of its type, changes no other slice, and the slices remain consistent.\<close>

theorem ns_action_sets_slices:
  assumes "ns_type_ok type" "length ids = length vals" "vals \<noteq> []" "ns_slices_ok s"
    "\<forall>v \<in> set vals. 0 \<le> v \<and> v \<le> 1048576"
  shows "ns_UpdateSliceInfo type (Some (ids, vals)) s =
      (if ns_reserved (ns_acted type ids vals (ns_sliceInfo s)) > ns_rbgNum s
       then Inl (Fatal ''the total schedule RBGs is greater than available RBGs'')
       else Inr (s\<lparr>ns_sliceInfo := ns_acted type ids vals (ns_sliceInfo s)\<rparr>)) \<and>
    (\<forall>s' k info v. ns_UpdateSliceInfo type (Some (ids, vals)) s = Inr s' \<longrightarrow> ns_slices_ok s' \<and>
      ((k, info) \<in> set (ns_sliceInfo s) \<and> map_of (zip ids vals) (uint k) = Some v \<longrightarrow>
        (type = CHR ''d'' \<longrightarrow> int (ns_rbgs_of s' DEDICATED_RBG k) = v) \<and>
        (type = CHR ''p'' \<longrightarrow> int (ns_rbgs_of s' PRIORITIZED_RBG k) = v)) \<and>
      ((k, info) \<in> set (ns_sliceInfo s) \<and> map_of (zip ids vals) (uint k) = None \<longrightarrow> (k, info) \<in> set (ns_sliceInfo s')))"
proof (intro conjI allI impI; (elim conjE)?)
  show "ns_UpdateSliceInfo type (Some (ids, vals)) s =
      (if ns_reserved (ns_acted type ids vals (ns_sliceInfo s)) > ns_rbgNum s
       then Inl (Fatal ''the total schedule RBGs is greater than available RBGs'')
       else Inr (s\<lparr>ns_sliceInfo := ns_acted type ids vals (ns_sliceInfo s)\<rparr>))"
    by (rule ns_UpdateSliceInfo_eq [OF assms])
next
  fix s' k info v
  assume upd: "ns_UpdateSliceInfo type (Some (ids, vals)) s = Inr s'"
  have s': "ns_sliceInfo s' = ns_acted type ids vals (ns_sliceInfo s)"
    using upd ns_UpdateSliceInfo_eq [OF assms] by (auto split: if_splits)
  show ok: "ns_slices_ok s'" by (rule ns_action_ok [OF upd assms(4,1)]) (use assms(5) in blast)
  show "(k, info) \<in> set (ns_sliceInfo s')"
    if "(k, info) \<in> set (ns_sliceInfo s)" "map_of (zip ids vals) (uint k) = None"
    using that by (force simp: s' ns_acted_def)
  have new: "(k, ns_with type v info) \<in> set (ns_sliceInfo s')" and v: "0 \<le> v" "v \<le> 1048576"
    if "(k, info) \<in> set (ns_sliceInfo s)" "map_of (zip ids vals) (uint k) = Some v"
  proof -
    show "(k, ns_with type v info) \<in> set (ns_sliceInfo s')" using that by (force simp: s' ns_acted_def)
    have "v \<in> set vals" using that(2) by (meson map_of_SomeD set_zip_rightD)
    with assms(5) show "0 \<le> v" "v \<le> 1048576" by auto
  qed
  have unat: "int (unat (of_int v :: u64)) = v" if "0 \<le> v" "v \<le> 1048576"
    using that by (simp add: uint_word_of_int)
  show "int (ns_rbgs_of s' DEDICATED_RBG k) = v"
    if "(k, info) \<in> set (ns_sliceInfo s)" "map_of (zip ids vals) (uint k) = Some v" "type = CHR ''d''"
    using ns_rbgs_of_eq(1) [OF ok new [OF that(1,2)]] unat [OF v [OF that(1,2)]] that(3) by (simp add: ns_with_def)
  show "int (ns_rbgs_of s' PRIORITIZED_RBG k) = v"
    if "(k, info) \<in> set (ns_sliceInfo s)" "map_of (zip ids vals) (uint k) = Some v" "type = CHR ''p''"
    using ns_rbgs_of_eq(2) [OF ok new [OF that(1,2)]] unat [OF v [OF that(1,2)]] that(3) by (simp add: ns_with_def)
qed

text \<open>Negative values are not refused: the sum of \<open>-1\<close> dedicated and one prioritized RBG is 0.\<close>

lemma ns_negative_accepted:
  assumes "ns_sliceInfo s = [(0, \<lparr>si_dedicatedRbg = 0, si_prioritizedRbg = 1, si_sharedRbg = 0, si_minRbg = 1, si_maxRbg = 1\<rparr>)]"
    "0 \<le> ns_rbgNum s"
  shows "ns_UpdateSliceInfo CHR ''d'' (Some ([0], [- 1])) s = Inr (s\<lparr>ns_sliceInfo :=
    [(0, \<lparr>si_dedicatedRbg = - 1, si_prioritizedRbg = 1, si_sharedRbg = 0, si_minRbg = 0, si_maxRbg = 0\<rparr>)]\<rparr>)"
  using assms by (simp add: ns_UpdateSliceInfo_def ns_update_slice_def ns_set_rbg_def i32_add_def)

section \<open>The encoding of a slice in a bit rate\<close>

lemma u64_byte: "unat (x AND 255) = unat x mod 256" for x :: u64
proof -
  have "x AND 255 = take_bit 8 x" using take_bit_eq_mask [of 8 x] by (simp add: mask_eq_exp_minus_1)
  then have "unat (x AND 255) = take_bit 8 (unat x)" by (simp only: unsigned_take_bit_eq)
  then show ?thesis by (simp add: take_bit_eq_mod)
qed

lemma u64_byte_at: "unat (drop_bit n x AND 255) = unat x div 2 ^ n mod 256" for x :: u64
  by (simp only: u64_byte unat_drop_bit_eq) (simp only: drop_bit_eq_div)

lemma bytes_of_sum:
  fixes a b c d e :: nat
  assumes "a < 256" "b < 256" "c < 256" "d < 256"
  defines "x \<equiv> a + 256 * b + 65536 * c + 16777216 * d + 4294967296 * e"
  shows "x mod 256 = a" "x div 2 ^ 8 mod 256 = b" "x div 2 ^ 16 mod 256 = c" "x div 2 ^ 24 mod 256 = d"
    "x div 2 ^ 32 = e"
proof -
  have split: "(y + 256 * z) mod 256 = y" "(y + 256 * z) div 256 = z" if "y < 256" for y z :: nat
    using that by simp_all
  have x: "x = a + 256 * (b + 256 * (c + 256 * (d + 256 * e)))" by (simp add: x_def algebra_simps)
  have d1: "x div 256 = b + 256 * (c + 256 * (d + 256 * e))" unfolding x by (rule split(2) [OF assms(1)])
  have d2: "x div 65536 = c + 256 * (d + 256 * e)"
    using div_mult2_eq [of x 256 256] split(2) [OF assms(2), of "c + 256 * (d + 256 * e)"] d1 by simp
  have d3: "x div 16777216 = d + 256 * e"
    using div_mult2_eq [of x 65536 256] split(2) [OF assms(3), of "d + 256 * e"] d2 by simp
  have d4: "x div 4294967296 = e" using div_mult2_eq [of x 16777216 256] split(2) [OF assms(4), of e] d3 by simp
  have "x mod 256 = a" unfolding x by (rule split(1) [OF assms(1)])
  moreover have "x div 256 mod 256 = b" unfolding d1 by (rule split(1) [OF assms(2)])
  moreover have "x div 65536 mod 256 = c" unfolding d2 by (rule split(1) [OF assms(3)])
  moreover have "x div 16777216 mod 256 = d" unfolding d3 by (rule split(1) [OF assms(4)])
  ultimately show "x mod 256 = a" "x div 2 ^ 8 mod 256 = b" "x div 2 ^ 16 mod 256 = c" "x div 2 ^ 24 mod 256 = d"
    "x div 2 ^ 32 = e"
    using d4 by simp_all
qed

lemma unat_ns_encode:
  assumes "unat a < 256" "unat b < 256" "unat c < 256" "unat d < 256" "unat e < 65536"
  shows "unat (ns_encode a b c d e) =
    unat a + 256 * unat b + 65536 * unat c + 16777216 * unat d + 4294967296 * unat e"
proof -
  have push: "unat (push_bit n x) = 2 ^ n * unat x" if "2 ^ n * unat x < 18446744073709551616" for n and x :: u64
  proof -
    have "unat (push_bit n x) = take_bit 64 (push_bit n (unat x))" by (simp only: unsigned_push_bit_eq) simp
    with that show ?thesis by (simp only: push_bit_eq_mult) (simp add: mult.commute take_bit_nat_eq_self_iff)
  qed
  have p: "unat (push_bit 8 b) = 256 * unat b" "unat (push_bit 16 c) = 65536 * unat c"
    "unat (push_bit 24 d) = 16777216 * unat d" "unat (push_bit 32 e) = 4294967296 * unat e"
    using assms by (simp_all add: push)
  have add: "unat (x + y) = unat x + unat y" if "unat x + unat y < 18446744073709551616" for x y :: u64
    using that by (simp add: unat_word_ariths)
  show ?thesis unfolding ns_encode_def using assms by (simp add: add p)
qed

text \<open>The slice, the three numbers of RBGs and the user that a simulation encodes in the bit rate of a bearer are
  decoded by the scheduler, while each is below 256.\<close>

theorem ns_slice_roundtrip:
  assumes "unat sliceId < 256" "unat d < 256" "unat p < 256" "unat sh < 256" "unat imsi < 256"
  shows "ns_decode_slice (ns_encode sliceId d p sh imsi) =
    (ucast sliceId, \<lparr>si_dedicatedRbg = d, si_prioritizedRbg = p, si_sharedRbg = sh, si_minRbg = d + p,
      si_maxRbg = d + p + sh\<rparr>, ucast imsi)"
proof -
  define x where "x = ns_encode sliceId d p sh imsi"
  have "unat imsi < 65536" using assms(5) by simp
  then have x: "unat x = unat sliceId + 256 * unat d + 65536 * unat p + 16777216 * unat sh + 4294967296 * unat imsi"
    using assms unfolding x_def by (intro unat_ns_encode)
  have "x AND 255 = sliceId" "drop_bit 8 x AND 255 = d" "drop_bit 16 x AND 255 = p" "drop_bit 24 x AND 255 = sh"
    "drop_bit 32 x AND 255 = imsi"
    unfolding word_unat_eq_iff u64_byte_at unfolding u64_byte x bytes_of_sum [OF assms(1-4)] using assms(5) by simp_all
  then show ?thesis by (simp add: ns_decode_slice_def Let_def flip: x_def)
qed

text \<open>The user with number 256 and the next ones are decoded as 0, 1 and so on.\<close>

lemma ns_imsi_truncated:
  assumes "unat sliceId < 256" "unat d < 256" "unat p < 256" "unat sh < 256"
  shows "snd (snd (ns_decode_slice (ns_encode sliceId d p sh 256))) = 0"
proof -
  have "unat (256 :: u64) < 65536" by simp
  note x = unat_ns_encode [OF assms this]
  have "drop_bit 32 (ns_encode sliceId d p sh 256) AND 255 = 0"
    unfolding word_unat_eq_iff u64_byte_at x bytes_of_sum [OF assms(1-4)] by simp
  then show ?thesis by (simp add: ns_decode_slice_def Let_def)
qed

section \<open>Witnesses\<close>

definition ns_example_slices :: "(u32, SliceInfo) smap" where
  "ns_example_slices =
    [(0, \<lparr>si_dedicatedRbg = 2, si_prioritizedRbg = 3, si_sharedRbg = 4, si_minRbg = 5, si_maxRbg = 9\<rparr>),
     (1, \<lparr>si_dedicatedRbg = 1, si_prioritizedRbg = 4, si_sharedRbg = 5, si_minRbg = 5, si_maxRbg = 10\<rparr>)]"

text \<open>The constructor with its attributes and the bandwidth; the cell is configured, with the same bandwidth in both directions.\<close>

definition NsScheduler_new :: "u8 \<Rightarrow> bool \<Rightarrow> u32 \<Rightarrow> NsScheduler" where
  "NsScheduler_new dlBandwidth harqOn cqiTimersThreshold = \<lparr>ns_dlBandwidth = dlBandwidth, ns_ulBandwidth = dlBandwidth,
    ns_rlcBufferReq = [],
    ns_flowStatsDl = [], ns_flowStatsUl = [], ns_p10CqiRxed = [], ns_p10CqiTimers = [], ns_a30CqiRxed = [],
    ns_a30CqiTimers = [], ns_ceBsrRxed = [], ns_timeWindow = 99, ns_nextRntiUl = 0,
    ns_cqiTimersThreshold = cqiTimersThreshold, ns_uesTxMode = [], ns_harqOn = harqOn, ns_dlHarqCurrentProcessId = [],
    ns_dlHarqProcessesStatus = [], ns_dlHarqProcessesTimer = [], ns_dlHarqProcessesDciBuffer = [],
    ns_dlHarqRlcPduBuffer = [], ns_dlInfoListBuffered = [], ns_ulHarqCurrentProcessId = [],
    ns_ulHarqProcessesStatus = [], ns_ulHarqProcessesDciBuffer = [], ns_rachList = [],
    ns_rachAllocationMap = replicate (unat dlBandwidth) 0, ns_ulGrantMcs = 0, ns_totalRbs = 0, ns_usedHarqRbs = [],
    ns_usedDataRbs = [], ns_sliceInfo = [], ns_sliceBearerType = [], ns_lcConfig = [], ns_scheduledBytes = []\<rparr>"

definition ns_example :: NsScheduler where
  "ns_example = (NsScheduler_new 25 True 1000)\<lparr>ns_sliceInfo := ns_example_slices\<rparr>"

lemma ns_example_ok: "ns_slices_ok ns_example"
  by (simp add: ns_slices_ok_def ns_slices_wf_def ns_slice_ok_def ns_example_def ns_example_slices_def sm_wf_def
      sm_keys_def ns_rbg_limit_def NsScheduler_new_def ns_rbgNum_def ns_rbgSize_def ns_GetRbgSize_def
      PfType0AllocationRbg_def upt_rec)

lemma ns_slice_roundtrip_witness:
  "ns_decode_slice (ns_encode 1 2 3 4 9) =
    (1, \<lparr>si_dedicatedRbg = 2, si_prioritizedRbg = 3, si_sharedRbg = 4, si_minRbg = 5, si_maxRbg = 9\<rparr>, 9)"
  using ns_slice_roundtrip [of 1 2 3 4 9] by simp

lemma ns_rbg_table_witness:
  "map (\<lambda>r. ns_GetRbgSliceInfo ns_example (int r)) [0..<nat (ns_rbgNum ns_example)] =
      concat (map (\<lambda>(k, info). replicate (unat (si_dedicatedRbg info)) (DEDICATED_RBG, k)) (ns_sliceInfo ns_example)) @
      concat (map (\<lambda>(k, info). replicate (unat (si_prioritizedRbg info)) (PRIORITIZED_RBG, k)) (ns_sliceInfo ns_example)) @
      replicate (nat (ns_rbgNum ns_example - ns_reserved (ns_sliceInfo ns_example))) (SHARED_RBG, UINT32_MAX)"
  using ns_rbg_table [OF ns_example_ok] by blast

lemma ns_action_sets_slices_witness:
  "ns_UpdateSliceInfo CHR ''d'' (Some ([1], [4])) ns_example =
    (if ns_reserved (ns_acted CHR ''d'' [1] [4] (ns_sliceInfo ns_example)) > ns_rbgNum ns_example
     then Inl (Fatal ''the total schedule RBGs is greater than available RBGs'')
     else Inr (ns_example\<lparr>ns_sliceInfo := ns_acted CHR ''d'' [1] [4] (ns_sliceInfo ns_example)\<rparr>))"
  by (rule ns_action_sets_slices [THEN conjunct1]) (simp_all add: ns_example_ok ns_type_ok_def)

end
