(* ===== verification/Ns_Users.thy ===== *)
theory Ns_Users
  imports Slicing
begin

text \<open>The users of the slicing scheduler (\<open>src/contrib/gma/model/ns-pf-ff-mac-scheduler.cc\<close>): their configuration and
  release, the reports of their buffers and channels, their HARQ processes, and which of their bearers may be served.

  Of the uplink only what these operations share with the downlink is here.  A HARQ process is free when its status
  is 0; the search for the next one is a loop over the eight processes.\<close>

section \<open>Configuration and release\<close>

definition HARQ_PROC_NUM :: nat where "HARQ_PROC_NUM = 8"
definition HARQ_DL_TIMEOUT :: u8 where "HARQ_DL_TIMEOUT = 11"
definition MAX_LC_LIST :: nat where "MAX_LC_LIST = 10"

text \<open>\<open>resize\<close> cuts a vector or fills it up.\<close>

definition vec_resize :: "nat \<Rightarrow> 'a \<Rightarrow> 'a list \<Rightarrow> 'a list" where
  "vec_resize n x xs = take n xs @ replicate (n - length xs) x"

definition ns_DoCschedCellConfigReq :: "u8 \<Rightarrow> u8 \<Rightarrow> NsScheduler \<Rightarrow> NsScheduler" where
  "ns_DoCschedCellConfigReq dlBandwidth ulBandwidth s =
    s\<lparr>ns_dlBandwidth := dlBandwidth, ns_ulBandwidth := ulBandwidth,
      ns_rachAllocationMap := vec_resize (unat ulBandwidth) 0 (ns_rachAllocationMap s)\<rparr>"

text \<open>\<open>insert\<close> keeps an entry that is there.\<close>

definition sm_insert :: "'k :: linorder \<Rightarrow> 'v \<Rightarrow> ('k, 'v) smap \<Rightarrow> ('k, 'v) smap" where
  "sm_insert k v m = (if sm_has k m then m else sm_set k v m)"

definition DlDci_new :: DlDci where
  "DlDci_new = \<lparr>dci_rnti = 65535, dci_rbBitmap = 255, dci_resAlloc = 255, dci_tbsSize = [], dci_mcs = [], dci_ndi = [],
    dci_rv = [], dci_tpc = 255, dci_harqProcess = 255\<rparr>"

definition UlDci_new :: UlDci where
  "UlDci_new = \<lparr>ul_rnti = 65535, ul_rbStart = 255, ul_rbLen = 255, ul_tbSize = 65535, ul_mcs = 255, ul_ndi = 255,
    ul_cceIndex = 255, ul_aggrLevel = 255, ul_ueTxAntennaSelection = 255, ul_hopping = False, ul_n2Dmrs = 255,
    ul_tpc = 128, ul_cqiRequest = False, ul_ulIndex = 255, ul_dai = 255, ul_freqHopping = 255,
    ul_pdcchPowerOffset = 128\<rparr>"

definition ns_DoCschedUeConfigReq :: "u16 \<Rightarrow> u8 \<Rightarrow> NsScheduler \<Rightarrow> NsScheduler" where
  "ns_DoCschedUeConfigReq rnti txMode s =
    (if sm_has rnti (ns_uesTxMode s) then s\<lparr>ns_uesTxMode := sm_set rnti txMode (ns_uesTxMode s)\<rparr>
     else s\<lparr>ns_uesTxMode := sm_insert rnti txMode (ns_uesTxMode s),
       ns_dlHarqCurrentProcessId := sm_insert rnti 0 (ns_dlHarqCurrentProcessId s),
       ns_dlHarqProcessesStatus := sm_insert rnti (replicate 8 0) (ns_dlHarqProcessesStatus s),
       ns_dlHarqProcessesTimer := sm_insert rnti (replicate 8 0) (ns_dlHarqProcessesTimer s),
       ns_dlHarqProcessesDciBuffer := sm_insert rnti (replicate 8 DlDci_new) (ns_dlHarqProcessesDciBuffer s),
       ns_dlHarqRlcPduBuffer := sm_insert rnti (replicate 2 (replicate 8 [])) (ns_dlHarqRlcPduBuffer s),
       ns_ulHarqCurrentProcessId := sm_insert rnti 0 (ns_ulHarqCurrentProcessId s),
       ns_ulHarqProcessesStatus := sm_insert rnti (replicate 8 0) (ns_ulHarqProcessesStatus s),
       ns_ulHarqProcessesDciBuffer := sm_insert rnti (replicate 8 UlDci_new) (ns_ulHarqProcessesDciBuffer s)\<rparr>)"

definition sm_filter :: "('k \<Rightarrow> bool) \<Rightarrow> ('k, 'v) smap \<Rightarrow> ('k, 'v) smap" where
  "sm_filter P m = filter (\<lambda>(k, v). P k) m"

definition ns_DoCschedLcReleaseReq :: "u16 \<Rightarrow> u8 list \<Rightarrow> NsScheduler \<Rightarrow> NsScheduler result" where
  "ns_DoCschedLcReleaseReq rnti lcids s =
    rbind (rfoldl (\<lambda>m lcid. if sm_has (rnti, lcid) m then Inr (sm_erase (rnti, lcid) m)
        else Inl (Fatal ''Logical channels cannot be released because it can not be found in the list of active LCs''))
      (ns_lcConfig s) lcids) (\<lambda>lcs.
    Inr (s\<lparr>ns_lcConfig := lcs,
      ns_rlcBufferReq := foldl (\<lambda>m lcid. sm_filter (\<lambda>flow. flow \<noteq> (rnti, lcid)) m) (ns_rlcBufferReq s) lcids\<rparr>))"

definition ns_DoCschedUeReleaseReq :: "u16 \<Rightarrow> NsScheduler \<Rightarrow> NsScheduler" where
  "ns_DoCschedUeReleaseReq rnti s =
    s\<lparr>ns_lcConfig := foldl (\<lambda>m i. sm_erase (rnti, of_nat i) m) (ns_lcConfig s) [0..<MAX_LC_LIST],
      ns_uesTxMode := sm_erase rnti (ns_uesTxMode s),
      ns_dlHarqCurrentProcessId := sm_erase rnti (ns_dlHarqCurrentProcessId s),
      ns_dlHarqProcessesStatus := sm_erase rnti (ns_dlHarqProcessesStatus s),
      ns_dlHarqProcessesTimer := sm_erase rnti (ns_dlHarqProcessesTimer s),
      ns_dlHarqProcessesDciBuffer := sm_erase rnti (ns_dlHarqProcessesDciBuffer s),
      ns_dlHarqRlcPduBuffer := sm_erase rnti (ns_dlHarqRlcPduBuffer s),
      ns_ulHarqCurrentProcessId := sm_erase rnti (ns_ulHarqCurrentProcessId s),
      ns_ulHarqProcessesStatus := sm_erase rnti (ns_ulHarqProcessesStatus s),
      ns_ulHarqProcessesDciBuffer := sm_erase rnti (ns_ulHarqProcessesDciBuffer s),
      ns_flowStatsDl := sm_erase rnti (ns_flowStatsDl s),
      ns_flowStatsUl := sm_erase rnti (ns_flowStatsUl s),
      ns_ceBsrRxed := sm_erase rnti (ns_ceBsrRxed s),
      ns_rlcBufferReq := sm_filter (\<lambda>(r, lcid). r \<noteq> rnti) (ns_rlcBufferReq s),
      ns_nextRntiUl := (if ns_nextRntiUl s = rnti then 0 else ns_nextRntiUl s)\<rparr>"

section \<open>Reports\<close>

definition ns_DoSchedDlRlcBufferReq :: "u16 \<Rightarrow> u8 \<Rightarrow> RlcBufferReq \<Rightarrow> NsScheduler \<Rightarrow> NsScheduler" where
  "ns_DoSchedDlRlcBufferReq rnti lcid req s = s\<lparr>ns_rlcBufferReq := sm_set (rnti, lcid) req (ns_rlcBufferReq s)\<rparr>"

datatype CqiReport =
    P10 u16 "u8 list"
  | A30 u16 "u8 list list"
  | OtherCqi

text \<open>A report of a user whose timer is missing dereferences an end iterator.\<close>

definition ns_refresh_timer :: "u16 \<Rightarrow> u32 \<Rightarrow> (u16, u32) smap \<Rightarrow> (u16, u32) smap result" where
  "ns_refresh_timer rnti threshold timers =
    (if sm_has rnti timers then Inr (sm_set rnti threshold timers) else Inl (Undefined ''end iterator of the timers''))"

definition ns_cqi_report :: "NsScheduler \<Rightarrow> CqiReport \<Rightarrow> NsScheduler result" where
  "ns_cqi_report s report =
    (case report of
       P10 rnti wb \<Rightarrow>
         rbind (vec_at wb 0) (\<lambda>cqi.
         if sm_has rnti (ns_p10CqiRxed s) then
           rbind (ns_refresh_timer rnti (ns_cqiTimersThreshold s) (ns_p10CqiTimers s)) (\<lambda>timers.
           Inr (s\<lparr>ns_p10CqiRxed := sm_set rnti cqi (ns_p10CqiRxed s), ns_p10CqiTimers := timers\<rparr>))
         else
           Inr (s\<lparr>ns_p10CqiRxed := sm_set rnti cqi (ns_p10CqiRxed s),
             ns_p10CqiTimers := sm_insert rnti (ns_cqiTimersThreshold s) (ns_p10CqiTimers s)\<rparr>))
     | A30 rnti sb \<Rightarrow>
         if sm_has rnti (ns_a30CqiRxed s) then
           rbind (ns_refresh_timer rnti (ns_cqiTimersThreshold s) (ns_a30CqiTimers s)) (\<lambda>timers.
           Inr (s\<lparr>ns_a30CqiRxed := sm_set rnti sb (ns_a30CqiRxed s), ns_a30CqiTimers := timers\<rparr>))
         else
           Inr (s\<lparr>ns_a30CqiRxed := sm_set rnti sb (ns_a30CqiRxed s),
             ns_a30CqiTimers := sm_insert rnti (ns_cqiTimersThreshold s) (ns_a30CqiTimers s)\<rparr>)
     | OtherCqi \<Rightarrow> Inr s)"

definition ns_DoSchedDlCqiInfoReq :: "CqiReport list \<Rightarrow> NsScheduler \<Rightarrow> NsScheduler result" where
  "ns_DoSchedDlCqiInfoReq reports s = rfoldl ns_cqi_report s reports"

fun ns_expire :: "(u16, u32) smap \<Rightarrow> (u16, 'v) smap \<Rightarrow> ((u16, u32) smap \<times> (u16, 'v) smap) result" where
  "ns_expire [] rxed = Inr ([], rxed)"
| "ns_expire ((rnti, t) # timers) rxed =
    (if t = 0 then
       rbind (rassert (sm_has rnti rxed) '' Does not find CQI report for user '') (\<lambda>_.
       ns_expire timers (sm_erase rnti rxed))
     else
       rbind (ns_expire timers rxed) (\<lambda>(timers, rxed). Inr ((rnti, t - 1) # timers, rxed)))"

definition ns_RefreshDlCqiMaps :: "NsScheduler \<Rightarrow> NsScheduler result" where
  "ns_RefreshDlCqiMaps s =
    rbind (ns_expire (ns_p10CqiTimers s) (ns_p10CqiRxed s)) (\<lambda>(p10Timers, p10).
    rbind (ns_expire (ns_a30CqiTimers s) (ns_a30CqiRxed s)) (\<lambda>(a30Timers, a30).
    Inr (s\<lparr>ns_p10CqiTimers := p10Timers, ns_p10CqiRxed := p10, ns_a30CqiTimers := a30Timers, ns_a30CqiRxed := a30\<rparr>)))"

text \<open>What is left in the queues of a bearer after \<open>bytes\<close> bytes: status first, then retransmissions, then data, with the
  RLC header taken off.\<close>

definition ns_served :: "u8 \<Rightarrow> u16 \<Rightarrow> RlcBufferReq \<Rightarrow> RlcBufferReq" where
  "ns_served lcid bytes req =
    (if rb_statusPdu req > 0 \<and> bytes \<ge> rb_statusPdu req then req\<lparr>rb_statusPdu := 0\<rparr>
     else if rb_retxQueue req > 0 \<and> ucast bytes \<ge> rb_retxQueue req then req\<lparr>rb_retxQueue := 0\<rparr>
     else if rb_txQueue req > 0 then
       let rlcOverhead = (if lcid = 1 then 4 else 2 :: u32)
       in if rb_txQueue req \<le> ucast bytes - rlcOverhead then req\<lparr>rb_txQueue := 0\<rparr>
          else req\<lparr>rb_txQueue := rb_txQueue req - (ucast bytes - rlcOverhead)\<rparr>
     else req)"

definition ns_UpdateDlRlcBufferInfo :: "u16 \<Rightarrow> u8 \<Rightarrow> u16 \<Rightarrow> NsScheduler \<Rightarrow> NsScheduler" where
  "ns_UpdateDlRlcBufferInfo rnti lcid bytes s =
    (case sm_find (rnti, lcid) (ns_rlcBufferReq s) of
       None \<Rightarrow> s
     | Some req \<Rightarrow> s\<lparr>ns_rlcBufferReq := sm_set (rnti, lcid) (ns_served lcid bytes req) (ns_rlcBufferReq s)\<rparr>)"

definition ns_UpdateUlRlcBufferInfo :: "u16 \<Rightarrow> u16 \<Rightarrow> NsScheduler \<Rightarrow> NsScheduler" where
  "ns_UpdateUlRlcBufferInfo rnti bytes s =
    (let bytes = bytes - 2
     in case sm_find rnti (ns_ceBsrRxed s) of
          None \<Rightarrow> s
        | Some bsr \<Rightarrow> s\<lparr>ns_ceBsrRxed := sm_set rnti (if bsr \<ge> ucast bytes then bsr - ucast bytes else 0) (ns_ceBsrRxed s)\<rparr>)"

section \<open>HARQ processes\<close>

text \<open>The loop stops at a free process or at the current one; with a current one outside of the eight processes it
  never stops when all are busy.\<close>

fun ns_harq_loop :: "nat \<Rightarrow> nat \<Rightarrow> u8 list \<Rightarrow> nat \<Rightarrow> nat result" where
  "ns_harq_loop 0 cur status i = Inl Diverges"
| "ns_harq_loop (Suc n) cur status i =
    (let i = (i + 1) mod HARQ_PROC_NUM
     in rbind (vec_at status i) (\<lambda>b. if b \<noteq> 0 \<and> i \<noteq> cur then ns_harq_loop n cur status i else Inr i))"

definition ns_harq_find :: "u16 \<Rightarrow> NsScheduler \<Rightarrow> (nat \<times> u8 list) result" where
  "ns_harq_find rnti s =
    (case sm_find rnti (ns_dlHarqCurrentProcessId s) of
       None \<Rightarrow> Inl (Fatal ''No Process Id found for this RNTI '')
     | Some cur \<Rightarrow>
         (case sm_find rnti (ns_dlHarqProcessesStatus s) of
            None \<Rightarrow> Inl (Fatal ''No Process Id Statusfound for this RNTI '')
          | Some status \<Rightarrow>
              rbind (ns_harq_loop HARQ_PROC_NUM (unat cur) status (unat cur)) (\<lambda>i. Inr (i, status))))"

definition ns_HarqProcessAvailability :: "u16 \<Rightarrow> NsScheduler \<Rightarrow> bool result" where
  "ns_HarqProcessAvailability rnti s =
    rbind (ns_harq_find rnti s) (\<lambda>(i, status). rbind (vec_at status i) (\<lambda>b. Inr (b = 0)))"

definition ns_UpdateHarqProcessId :: "u16 \<Rightarrow> NsScheduler \<Rightarrow> (u8 \<times> NsScheduler) result" where
  "ns_UpdateHarqProcessId rnti s =
    (if \<not> ns_harqOn s then Inr (0, s)
     else
       rbind (ns_harq_find rnti s) (\<lambda>(i, status).
       rbind (vec_at status i) (\<lambda>b.
       if b = 0 then
         Inr (of_nat i, s\<lparr>ns_dlHarqCurrentProcessId := sm_set rnti (of_nat i) (ns_dlHarqCurrentProcessId s),
           ns_dlHarqProcessesStatus := sm_set rnti (status[i := 1]) (ns_dlHarqProcessesStatus s)\<rparr>)
       else Inl (Fatal ''No HARQ process available for RNTI ''))))"

text \<open>One process of one user: its timer runs, or it is reset.\<close>

definition ns_harq_tick :: "u16 \<Rightarrow> u8 list \<times> (u16, u8 list) smap \<Rightarrow> nat \<Rightarrow> (u8 list \<times> (u16, u8 list) smap) result" where
  "ns_harq_tick rnti = (\<lambda>(timer, status) i.
    rbind (vec_at timer i) (\<lambda>t.
    if t = HARQ_DL_TIMEOUT then
      (case sm_find rnti status of
         None \<Rightarrow> Inl (Fatal ''No Process Id Status found for this RNTI '')
       | Some st \<Rightarrow> rbind (vec_upd st i 0) (\<lambda>st. Inr (timer[i := 0], sm_set rnti st status)))
    else Inr (timer[i := t + 1], status)))"

fun ns_harq_ticks :: "(u16, u8 list) smap \<Rightarrow> (u16, u8 list) smap \<Rightarrow> ((u16, u8 list) smap \<times> (u16, u8 list) smap) result" where
  "ns_harq_ticks [] status = Inr ([], status)"
| "ns_harq_ticks ((rnti, timer) # timers) status =
    rbind (rfoldl (ns_harq_tick rnti) (timer, status) [0..<HARQ_PROC_NUM]) (\<lambda>(timer, status).
    rbind (ns_harq_ticks timers status) (\<lambda>(timers, status). Inr ((rnti, timer) # timers, status)))"

definition ns_RefreshHarqProcesses :: "NsScheduler \<Rightarrow> NsScheduler result" where
  "ns_RefreshHarqProcesses s =
    rbind (ns_harq_ticks (ns_dlHarqProcessesTimer s) (ns_dlHarqProcessesStatus s)) (\<lambda>(timers, status).
    Inr (s\<lparr>ns_dlHarqProcessesTimer := timers, ns_dlHarqProcessesStatus := status\<rparr>))"

section \<open>Bearers with data\<close>

definition rb_active :: "RlcBufferReq \<Rightarrow> bool" where
  "rb_active req \<longleftrightarrow> rb_txQueue req > 0 \<or> rb_retxQueue req > 0 \<or> rb_statusPdu req > 0"

definition rb_bytes :: "RlcBufferReq \<Rightarrow> u64" where
  "rb_bytes req = ucast (rb_txQueue req + rb_retxQueue req + ucast (rb_statusPdu req))"

text \<open>The number of active bearers of a user, up to the first entry of a later user.\<close>

fun ns_lc_active :: "u16 \<Rightarrow> (LteFlowId, RlcBufferReq) smap \<Rightarrow> nat" where
  "ns_lc_active rnti [] = 0"
| "ns_lc_active rnti (((r, lcid), req) # reqs) =
    (if r = rnti \<and> rb_active req then 1 else 0) + (if r > rnti then 0 else ns_lc_active rnti reqs)"

definition ns_LcActivePerFlow :: "u16 \<Rightarrow> NsScheduler \<Rightarrow> nat" where
  "ns_LcActivePerFlow rnti s = ns_lc_active rnti (ns_rlcBufferReq s)"

text \<open>The default entry that \<open>operator[]\<close> makes of a logical channel that is not configured.\<close>

definition LcConfig_new :: LcConfig where
  "LcConfig_new = \<lparr>lc_id = 255, lc_bearerType = NotValid_QosBearerType, lc_mbrDl = - 1, lc_gbrDl = - 1\<rparr>"

definition ns_lc_index :: "LteFlowId \<Rightarrow> (LteFlowId, LcConfig) smap \<Rightarrow> LcConfig \<times> (LteFlowId, LcConfig) smap" where
  "ns_lc_index flow m = (case sm_find flow m of Some lc \<Rightarrow> (lc, m) | None \<Rightarrow> (LcConfig_new, sm_set flow LcConfig_new m))"

definition ns_refresh_bearer :: "NsScheduler \<Rightarrow> LteFlowId \<times> RlcBufferReq \<Rightarrow> NsScheduler result" where
  "ns_refresh_bearer s = (\<lambda>(flow, req).
    if rb_bytes req > 0 then
      let (scheduled, m) = sm_index flow (ns_scheduledBytes s);
          s = s\<lparr>ns_scheduledBytes := m\<rparr>
      in if scheduled < real_of_int (uint (rb_bytes req)) then
           (case sm_find (fst flow) (ns_flowStatsDl s) of
              None \<Rightarrow> Inl (Fatal ''cannot find this rinti in the m_flowStatsDl'')
            | Some f \<Rightarrow>
                let (lc, lcs) = ns_lc_index flow (ns_lcConfig s)
                in Inr (s\<lparr>ns_lcConfig := lcs,
                     ns_sliceBearerType := sm_set (fp_sliceId f, lc_bearerType lc) True (ns_sliceBearerType s)\<rparr>))
         else Inr s
    else Inr s)"

definition ns_RefreshSlicePriority :: "NsScheduler \<Rightarrow> NsScheduler result" where
  "ns_RefreshSlicePriority s =
    rfoldl ns_refresh_bearer (s\<lparr>ns_sliceBearerType := []\<rparr>) (ns_rlcBufferReq s)"

fun ns_has_gbr :: "u16 \<Rightarrow> (LteFlowId, LcConfig) smap \<Rightarrow> (LteFlowId, RlcBufferReq) smap \<Rightarrow> bool" where
  "ns_has_gbr rnti lcs [] = False"
| "ns_has_gbr rnti lcs (((r, lcid), req) # reqs) =
    (r = rnti \<and> rb_active req \<and>
       (case sm_find (rnti, lcid) lcs of None \<Rightarrow> False | Some lc \<Rightarrow> lc_bearerType lc = QBT_GBR) \<or>
     \<not> r > rnti \<and> ns_has_gbr rnti lcs reqs)"

text \<open>A user without guaranteed bit rate is not served while one of its slice with a guaranteed bit rate has data.\<close>

definition ns_PriorityAwareLcActivePerFlow :: "u16 \<Rightarrow> NsScheduler \<Rightarrow> nat result" where
  "ns_PriorityAwareLcActivePerFlow rnti s =
    (case sm_find rnti (ns_flowStatsDl s) of
       None \<Rightarrow> Inl (Fatal ''cannot find this rinti in the m_flowStatsDl'')
     | Some f \<Rightarrow>
         if ns_has_gbr rnti (ns_lcConfig s) (ns_rlcBufferReq s) then Inr (ns_LcActivePerFlow rnti s)
         else if sm_has (fp_sliceId f, QBT_GBR) (ns_sliceBearerType s) then Inr 0
         else Inr (ns_LcActivePerFlow rnti s))"

section \<open>A free process is found\<close>

definition ns_harq_ok :: "u16 \<Rightarrow> NsScheduler \<Rightarrow> bool" where
  "ns_harq_ok rnti s \<longleftrightarrow>
    (case (sm_find rnti (ns_dlHarqCurrentProcessId s), sm_find rnti (ns_dlHarqProcessesStatus s)) of
       (Some cur, Some status) \<Rightarrow> unat cur < HARQ_PROC_NUM \<and> length status = HARQ_PROC_NUM
     | _ \<Rightarrow> False)"

text \<open>The loop over the processes after the current one, seen as a search in a list.\<close>

definition ns_harq_candidates :: "nat \<Rightarrow> nat \<Rightarrow> nat list" where
  "ns_harq_candidates n i = map (\<lambda>j. (i + 1 + j) mod HARQ_PROC_NUM) [0..<n]"

lemma ns_harq_candidates_Suc:
  "ns_harq_candidates (Suc n) i = (i + 1) mod HARQ_PROC_NUM # ns_harq_candidates n ((i + 1) mod HARQ_PROC_NUM)"
proof -
  have "[0..<Suc n] = 0 # map Suc [0..<n]" by (simp only: map_Suc_upt upt_conv_Cons [OF zero_less_Suc])
  moreover have "(i + 1 + Suc j) mod HARQ_PROC_NUM = ((i + 1) mod HARQ_PROC_NUM + 1 + j) mod HARQ_PROC_NUM" for j
    using mod_add_left_eq [of "i + 1" HARQ_PROC_NUM "1 + j"] by (simp only: add.assoc) (simp add: add.assoc)
  ultimately show ?thesis unfolding ns_harq_candidates_def by simp
qed

lemma ns_harq_loop_find:
  assumes "length status = HARQ_PROC_NUM"
  shows "ns_harq_loop n cur status i =
    (case filter (\<lambda>j. status ! j = 0 \<or> j = cur) (ns_harq_candidates n i) of [] \<Rightarrow> Inl Diverges | j # _ \<Rightarrow> Inr j)"
proof (induction n arbitrary: i)
  case 0
  show ?case by (simp add: ns_harq_candidates_def)
next
  case (Suc n)
  have "(i + 1) mod HARQ_PROC_NUM < length status" using assms by (simp add: HARQ_PROC_NUM_def)
  with Suc.IH [of "(i + 1) mod HARQ_PROC_NUM"] show ?case
    by (simp add: ns_harq_candidates_Suc Let_def del: mod_Suc_eq Suc_eq_plus1)
qed

lemma ns_harq_candidates_all: "cur < HARQ_PROC_NUM \<Longrightarrow> set (ns_harq_candidates HARQ_PROC_NUM cur) = {..<HARQ_PROC_NUM}"
proof -
  assume "cur < HARQ_PROC_NUM"
  then have "cur \<in> {0, 1, 2, 3, 4, 5, 6, 7}" by (auto simp: HARQ_PROC_NUM_def)
  then show ?thesis
    unfolding ns_harq_candidates_def HARQ_PROC_NUM_def upt_8
    by (auto simp: lessThan_nat_numeral lessThan_Suc)
qed

lemma ns_harq_find_ok:
  assumes "ns_harq_ok rnti s"
  obtains i status where "ns_harq_find rnti s = Inr (i, status)" "i < HARQ_PROC_NUM" "length status = HARQ_PROC_NUM"
    "sm_find rnti (ns_dlHarqProcessesStatus s) = Some status" "status ! i = 0 \<longleftrightarrow> (\<exists>j < HARQ_PROC_NUM. status ! j = 0)"
proof -
  from assms obtain cur status where find: "sm_find rnti (ns_dlHarqCurrentProcessId s) = Some cur"
    "sm_find rnti (ns_dlHarqProcessesStatus s) = Some status" and cur: "unat cur < HARQ_PROC_NUM"
    and len: "length status = HARQ_PROC_NUM"
    by (auto simp: ns_harq_ok_def split: option.splits)
  define cs where "cs = filter (\<lambda>j. status ! j = 0 \<or> j = unat cur) (ns_harq_candidates HARQ_PROC_NUM (unat cur))"
  have set_cs: "set cs = {j. j < HARQ_PROC_NUM \<and> (status ! j = 0 \<or> j = unat cur)}"
    using ns_harq_candidates_all [OF cur] by (auto simp: cs_def)
  with cur have "cs \<noteq> []" by (auto simp: set_empty [symmetric] simp del: set_empty)
  then obtain i js where cs: "cs = i # js" by (cases cs) auto
  have loop: "ns_harq_loop HARQ_PROC_NUM (unat cur) status (unat cur) = Inr i"
    using ns_harq_loop_find [OF len, of HARQ_PROC_NUM "unat cur" "unat cur"] cs by (simp add: cs_def)
  have i: "i < HARQ_PROC_NUM" "status ! i = 0 \<or> i = unat cur" using set_cs cs by auto
  have "status ! i = 0" if "j < HARQ_PROC_NUM" "status ! j = 0" for j
  proof (rule ccontr)
    assume busy: "status ! i \<noteq> 0"
    with i have "i = unat cur" by simp
    have "last (ns_harq_candidates HARQ_PROC_NUM (unat cur)) = unat cur"
      using cur by (simp add: ns_harq_candidates_def HARQ_PROC_NUM_def upt_8)
    then obtain ks where ks: "ns_harq_candidates HARQ_PROC_NUM (unat cur) = ks @ [unat cur]"
      by (metis append_butlast_last_id ns_harq_candidates_def HARQ_PROC_NUM_def map_is_Nil_conv upt_eq_Nil_conv
          zero_neq_numeral not_numeral_le_zero)
    have "distinct (ns_harq_candidates HARQ_PROC_NUM (unat cur))"
      by (rule card_distinct) (simp add: ns_harq_candidates_all [OF cur], simp add: ns_harq_candidates_def)
    then have cur_ks: "unat cur \<notin> set ks" by (simp add: ks)
    have "j \<noteq> unat cur"
    proof
      assume "j = unat cur"
      with \<open>i = unat cur\<close> have "j = i" by (simp only:)
      with that(2) busy show False by (simp only:)
    qed
    moreover have "j \<in> set (ns_harq_candidates HARQ_PROC_NUM (unat cur))"
      unfolding ns_harq_candidates_all [OF cur] using that(1) by simp
    ultimately have "j \<in> set ks" by (simp add: ks)
    with that(2) have "filter (\<lambda>j. status ! j = 0 \<or> j = unat cur) ks \<noteq> []" by (auto simp: filter_empty_conv)
    then obtain a as where as: "filter (\<lambda>j. status ! j = 0 \<or> j = unat cur) ks = a # as" by (auto simp: neq_Nil_conv)
    then have "a \<in> set ks" by (metis filter_is_subset list.set_intros(1) subsetD)
    moreover have "a = i" using cs as by (simp add: cs_def ks)
    ultimately show False using cur_ks \<open>i = unat cur\<close> by simp
  qed
  note free = this
  show thesis
  proof (rule that)
    show "ns_harq_find rnti s = Inr (i, status)" using loop find by (simp add: ns_harq_find_def)
    show "status ! i = 0 \<longleftrightarrow> (\<exists>j < HARQ_PROC_NUM. status ! j = 0)" using i(1) free by blast
  qed (fact i(1) len find(2))+
qed

lemma ns_HarqProcessAvailability_ok:
  assumes "ns_harq_ok rnti s"
  obtains b where "ns_HarqProcessAvailability rnti s = Inr b"
    "b \<longleftrightarrow> (\<exists>status. sm_find rnti (ns_dlHarqProcessesStatus s) = Some status \<and> (\<exists>j < HARQ_PROC_NUM. status ! j = 0))"
  by (rule ns_harq_find_ok [OF assms], rule that) (auto simp: ns_HarqProcessAvailability_def)

section \<open>Refreshing the priorities\<close>

text \<open>What refreshing leaves alone: everything but the scheduled bytes (which get entries of value 0), the default
  entries of the logical channels, and the table of bearer types.\<close>

definition ns_core :: "NsScheduler \<Rightarrow> NsScheduler" where
  "ns_core s = s\<lparr>ns_scheduledBytes := [], ns_lcConfig := [], ns_sliceBearerType := [], ns_usedDataRbs := []\<rparr>"

lemma ns_core_simps [simp]:
  "ns_core (s\<lparr>ns_scheduledBytes := b\<rparr>) = ns_core s"
  "ns_core (s\<lparr>ns_lcConfig := l\<rparr>) = ns_core s"
  "ns_core (s\<lparr>ns_sliceBearerType := t\<rparr>) = ns_core s"
  "ns_core (s\<lparr>ns_usedDataRbs := u\<rparr>) = ns_core s"
  by (simp_all add: ns_core_def)

lemma ns_core_fields:
  assumes "ns_core s = ns_core s'"
  shows "ns_flowStatsDl s = ns_flowStatsDl s'" "ns_sliceInfo s = ns_sliceInfo s'"
    "ns_rlcBufferReq s = ns_rlcBufferReq s'" "ns_dlBandwidth s = ns_dlBandwidth s'"
    "ns_a30CqiRxed s = ns_a30CqiRxed s'" "ns_uesTxMode s = ns_uesTxMode s'"
    "ns_dlHarqCurrentProcessId s = ns_dlHarqCurrentProcessId s'"
    "ns_dlHarqProcessesStatus s = ns_dlHarqProcessesStatus s'" "ns_harqOn s = ns_harqOn s'"
    "ns_dlHarqProcessesTimer s = ns_dlHarqProcessesTimer s'"
    "ns_dlHarqProcessesDciBuffer s = ns_dlHarqProcessesDciBuffer s'"
    "ns_dlHarqRlcPduBuffer s = ns_dlHarqRlcPduBuffer s'" "ns_timeWindow s = ns_timeWindow s'"
  using assms by (cases s; cases s'; simp add: ns_core_def)+

lemma ns_core_rbgs:
  assumes "ns_core s = ns_core s'"
  shows "ns_rbgSize s = ns_rbgSize s'" "ns_rbgNum s = ns_rbgNum s'"
    "ns_GetRbgSliceInfo s r = ns_GetRbgSliceInfo s' r" "ns_harq_ok rnti s = ns_harq_ok rnti s'"
    "ns_slices_ok s = ns_slices_ok s'"
  by (simp_all only: ns_rbgSize_def ns_rbgNum_def ns_GetRbgSliceInfo_def ns_harq_ok_def ns_slices_ok_def
      ns_core_fields [OF assms])

text \<open>The entries of the scheduled bytes stay in range; a missing one counts as 0.\<close>

definition ns_bytes_in :: "real \<Rightarrow> NsScheduler \<Rightarrow> bool" where
  "ns_bytes_in M s \<longleftrightarrow> 0 \<le> M \<and> (\<forall>flow b. sm_find flow (ns_scheduledBytes s) = Some b \<longrightarrow> 0 \<le> b \<and> b \<le> M)"

definition ns_users_known :: "NsScheduler \<Rightarrow> bool" where
  "ns_users_known s \<longleftrightarrow> (\<forall>(flow, req) \<in> set (ns_rlcBufferReq s). sm_has (fst flow) (ns_flowStatsDl s))"

lemma ns_refresh_bearer_ok:
  assumes "sm_has (fst flow) (ns_flowStatsDl s)" "ns_bytes_in M s"
  shows "\<exists>s'. ns_refresh_bearer s (flow, req) = Inr s' \<and> ns_core s' = ns_core s \<and> ns_bytes_in M s'"
proof (cases "rb_bytes req > 0")
  case True
  obtain b m where b: "sm_index flow (ns_scheduledBytes s) = (b, m)" by (cases "sm_index flow (ns_scheduledBytes s)")
  have m: "0 \<le> M" "\<forall>k v. sm_find k m = Some v \<longrightarrow> 0 \<le> v \<and> v \<le> M"
    using assms(2) b by (auto simp: sm_index_def ns_bytes_in_def split: option.splits if_splits)
  obtain f where f: "sm_find (fst flow) (ns_flowStatsDl s) = Some f" using assms(1) by (auto simp: sm_has_def)
  obtain lc lcs where lc: "ns_lc_index flow (ns_lcConfig s) = (lc, lcs)" by (cases "ns_lc_index flow (ns_lcConfig s)")
  show ?thesis
    using True b f lc m by (auto simp: ns_refresh_bearer_def Let_def ns_bytes_in_def)
qed (use assms in \<open>simp add: ns_refresh_bearer_def\<close>)

lemma ns_RefreshSlicePriority_ok:
  assumes "ns_users_known s" "ns_bytes_in M s"
  shows "\<exists>s'. ns_RefreshSlicePriority s = Inr s' \<and> ns_core s' = ns_core s \<and> ns_bytes_in M s'"
proof -
  have "\<exists>s'. rfoldl ns_refresh_bearer (s\<lparr>ns_sliceBearerType := []\<rparr>) (ns_rlcBufferReq s) = Inr s' \<and>
      (ns_core s' = ns_core s \<and> ns_bytes_in M s')"
  proof (rule rfoldl_total)
    show "ns_core (s\<lparr>ns_sliceBearerType := []\<rparr>) = ns_core s \<and> ns_bytes_in M (s\<lparr>ns_sliceBearerType := []\<rparr>)"
      using assms(2) by (simp add: ns_bytes_in_def)
    fix s1 x
    assume x: "x \<in> set (ns_rlcBufferReq s)" and s1: "ns_core s1 = ns_core s \<and> ns_bytes_in M s1"
    obtain flow req where fr: "x = (flow, req)" by (cases x)
    have "sm_has (fst flow) (ns_flowStatsDl s1)"
      using assms(1) x fr ns_core_fields(1) [OF conjunct1 [OF s1]] by (auto simp: ns_users_known_def)
    from ns_refresh_bearer_ok [OF this conjunct2 [OF s1], of req] s1
    show "\<exists>s'. ns_refresh_bearer s1 x = Inr s' \<and> (ns_core s' = ns_core s \<and> ns_bytes_in M s')" by (auto simp: fr)
  qed
  then show ?thesis by (simp add: ns_RefreshSlicePriority_def)
qed

lemma ns_PriorityAware_ok:
  "sm_has rnti (ns_flowStatsDl s) \<Longrightarrow> \<exists>n. ns_PriorityAwareLcActivePerFlow rnti s = Inr n"
  by (auto simp: ns_PriorityAwareLcActivePerFlow_def sm_has_def)

end
