(* ===== verification/Ns_Harq.thy ===== *)
theory Ns_Harq
  imports Ns_Users
begin

text \<open>The HARQ processes of the slicing scheduler (\<open>Ns_Users\<close>): a process that is handed out was free, and a process that
  is not used again is free after at most twelve subframes.\<close>

section \<open>A process is handed out\<close>

text \<open>C40: With the tables of a user in place, the search for a HARQ process ends; a process is available exactly when one of
  the eight is free, the one handed out is free, is marked as used and becomes the current one, and when all are busy the
  scheduler stops instead of overwriting one.\<close>

theorem ns_harq_process_free:
  assumes "ns_harq_ok rnti s" "ns_harqOn s" "sm_find rnti (ns_dlHarqProcessesStatus s) = Some status"
  shows "ns_HarqProcessAvailability rnti s = Inr (\<exists>j < 8. status ! j = 0) \<and>
    (if \<exists>j < 8. status ! j = 0
     then \<exists>id s'. ns_UpdateHarqProcessId rnti s = Inr (id, s') \<and> unat id < 8 \<and> status ! unat id = 0 \<and>
       sm_find rnti (ns_dlHarqProcessesStatus s') = Some (status[unat id := 1]) \<and>
       sm_find rnti (ns_dlHarqCurrentProcessId s') = Some id \<and> ns_harq_ok rnti s'
     else \<exists>msg. ns_UpdateHarqProcessId rnti s = Inl (Fatal msg))"
proof -
  obtain i st where f: "ns_harq_find rnti s = Inr (i, st)" "i < HARQ_PROC_NUM" "length st = HARQ_PROC_NUM"
    "sm_find rnti (ns_dlHarqProcessesStatus s) = Some st" "st ! i = 0 \<longleftrightarrow> (\<exists>j < HARQ_PROC_NUM. st ! j = 0)"
    using ns_harq_find_ok [OF assms(1)] by blast
  have st: "st = status" using f(4) assms(3) by simp
  have i: "i < 8" "length status = 8" using f(2,3) by (simp_all add: HARQ_PROC_NUM_def st)
  have free: "status ! i = 0 \<longleftrightarrow> (\<exists>j < 8. status ! j = 0)" using f(5) by (simp add: HARQ_PROC_NUM_def st)
  have id: "unat (of_nat i :: u8) = i" using i by (simp add: unat_of_nat)
  have "ns_HarqProcessAvailability rnti s = Inr (status ! i = 0)"
    using f(1) i by (simp add: ns_HarqProcessAvailability_def st)
  moreover have "\<exists>s'. ns_UpdateHarqProcessId rnti s = Inr (of_nat i, s') \<and>
      sm_find rnti (ns_dlHarqProcessesStatus s') = Some (status[i := 1]) \<and>
      sm_find rnti (ns_dlHarqCurrentProcessId s') = Some (of_nat i) \<and> ns_harq_ok rnti s'" if "status ! i = 0"
    using f(1) i that assms(2)
    by (simp add: ns_UpdateHarqProcessId_def st ns_harq_ok_def id HARQ_PROC_NUM_def)
  moreover have "ns_UpdateHarqProcessId rnti s = Inl (Fatal ''No HARQ process available for RNTI '')" if "status ! i \<noteq> 0"
    using f(1) i that assms(2) by (simp add: ns_UpdateHarqProcessId_def st)
  ultimately show ?thesis using i(1) id free by (cases "status ! i = 0") (auto intro!: exI [of _ "of_nat i :: u8"])
qed

section \<open>A process times out\<close>

definition ns_tick :: "u8 \<Rightarrow> u8" where
  "ns_tick t = (if t = HARQ_DL_TIMEOUT then 0 else t + 1)"

definition ns_free :: "u8 list \<Rightarrow> u8 list \<Rightarrow> u8 list" where
  "ns_free timer status = map2 (\<lambda>t b. if t = HARQ_DL_TIMEOUT then 0 else b) timer status"

lemma ns_harq_tick_prefix:
  assumes "length timer = HARQ_PROC_NUM" "length st = HARQ_PROC_NUM" "sm_find rnti status = Some st" "n \<le> HARQ_PROC_NUM"
  shows "\<exists>status'. rfoldl (ns_harq_tick rnti) (timer, status) [0..<n] =
      Inr (map ns_tick (take n timer) @ drop n timer, status') \<and>
    sm_find rnti status' = Some (ns_free (take n timer) (take n st) @ drop n st) \<and>
    (\<forall>r. r \<noteq> rnti \<longrightarrow> sm_find r status' = sm_find r status)"
  using assms(4)
proof (induction n)
  case 0
  then show ?case using assms(3) by (simp add: ns_free_def)
next
  case (Suc n)
  then obtain status1 where IH: "rfoldl (ns_harq_tick rnti) (timer, status) [0..<n] =
      Inr (map ns_tick (take n timer) @ drop n timer, status1)"
    "sm_find rnti status1 = Some (ns_free (take n timer) (take n st) @ drop n st)"
    "\<forall>r. r \<noteq> rnti \<longrightarrow> sm_find r status1 = sm_find r status" by auto
  have n: "n < length timer" "n < length st" using Suc.prems assms(1,2) by simp_all
  define timer1 where "timer1 = map ns_tick (take n timer) @ drop n timer"
  define st1 where "st1 = ns_free (take n timer) (take n st) @ drop n st"
  have len: "length (ns_free (take n timer) (take n st)) = n" using n by (simp add: ns_free_def)
  have at: "length timer1 = length timer" "timer1 ! n = timer ! n" "length st1 = length st" "st1 ! n = st ! n"
    using n len by (simp_all add: timer1_def st1_def nth_append)
  have t2: "map ns_tick (take (Suc n) timer) @ drop (Suc n) timer = timer1[n := ns_tick (timer ! n)]"
    using n by (simp add: timer1_def take_Suc_conv_app_nth list_update_append Cons_nth_drop_Suc [symmetric])
  have s2: "ns_free (take (Suc n) timer) (take (Suc n) st) @ drop (Suc n) st =
      st1[n := if timer ! n = HARQ_DL_TIMEOUT then 0 else st ! n]"
    using n len
    by (simp add: st1_def take_Suc_conv_app_nth list_update_append Cons_nth_drop_Suc [symmetric] ns_free_def)
  have step: "rfoldl (ns_harq_tick rnti) (timer, status) [0..<Suc n] = ns_harq_tick rnti (timer1, status1) n"
    by (simp add: rfoldl_append IH(1) timer1_def)
  show ?case
  proof (cases "timer ! n = HARQ_DL_TIMEOUT")
    case True
    then show ?thesis
      using n at IH(2,3) unfolding step t2 s2 st1_def [symmetric]
      by (simp add: ns_harq_tick_def ns_tick_def)
  next
    case False
    moreover have "st1[n := st ! n] = st1" using n at by (metis list_update_id)
    ultimately show ?thesis
      using n at IH(2,3) unfolding step t2 s2 st1_def [symmetric]
      by (simp add: ns_harq_tick_def ns_tick_def)
  qed
qed

definition ns_harq_timed :: "NsScheduler \<Rightarrow> bool" where
  "ns_harq_timed s \<longleftrightarrow> distinct (sm_keys (ns_dlHarqProcessesTimer s)) \<and>
    (\<forall>(r, timer) \<in> set (ns_dlHarqProcessesTimer s). length timer = HARQ_PROC_NUM \<and>
      (\<exists>st. sm_find r (ns_dlHarqProcessesStatus s) = Some st \<and> length st = HARQ_PROC_NUM))"

lemma ns_harq_ticks_ok:
  assumes "distinct (sm_keys timers)"
    "\<forall>(r, timer) \<in> set timers. length timer = HARQ_PROC_NUM \<and> (\<exists>st. sm_find r status = Some st \<and> length st = HARQ_PROC_NUM)"
  shows "\<exists>status'. ns_harq_ticks timers status = Inr (map (\<lambda>(r, timer). (r, map ns_tick timer)) timers, status') \<and>
    (\<forall>r. sm_find r status' = (case sm_find r timers of None \<Rightarrow> sm_find r status
      | Some timer \<Rightarrow> map_option (ns_free timer) (sm_find r status)))"
  using assms
proof (induction timers arbitrary: status)
  case (Cons p timers)
  obtain rnti timer where p: "p = (rnti, timer)" by (cases p)
  obtain st where st: "length timer = HARQ_PROC_NUM" "sm_find rnti status = Some st" "length st = HARQ_PROC_NUM"
    using Cons.prems(2) by (auto simp: p)
  obtain status1 where one: "rfoldl (ns_harq_tick rnti) (timer, status) [0..<HARQ_PROC_NUM] = Inr (map ns_tick timer, status1)"
    "sm_find rnti status1 = Some (ns_free timer st)" "\<forall>r. r \<noteq> rnti \<longrightarrow> sm_find r status1 = sm_find r status"
    using ns_harq_tick_prefix [OF st(1,3,2), of HARQ_PROC_NUM] st(1,3) by auto
  have new: "rnti \<notin> set (sm_keys timers)" and dist: "distinct (sm_keys timers)"
    using Cons.prems(1) by (simp_all add: sm_keys_def p)
  have "\<exists>st. sm_find r status1 = Some st \<and> length st = HARQ_PROC_NUM" "length t = HARQ_PROC_NUM" if "(r, t) \<in> set timers" for r t
  proof -
    have "r \<noteq> rnti" using new that by (force simp: sm_keys_def)
    with one(3) Cons.prems(2) that
    show "\<exists>st. sm_find r status1 = Some st \<and> length st = HARQ_PROC_NUM" "length t = HARQ_PROC_NUM" by auto
  qed
  then obtain status2 where two: "ns_harq_ticks timers status1 = Inr (map (\<lambda>(r, timer). (r, map ns_tick timer)) timers, status2)"
    "\<forall>r. sm_find r status2 = (case sm_find r timers of None \<Rightarrow> sm_find r status1
      | Some timer \<Rightarrow> map_option (ns_free timer) (sm_find r status1))"
    using Cons.IH [OF dist, of status1] by blast
  have "sm_find rnti timers = None" using new by (simp add: sm_find_def sm_keys_def map_of_eq_None_iff)
  then have "sm_find r status2 = (case sm_find r (p # timers) of None \<Rightarrow> sm_find r status
      | Some timer \<Rightarrow> map_option (ns_free timer) (sm_find r status))" for r
    using two(2) one(2,3) st(2) by (cases "r = rnti") (auto simp: p sm_find_def split: option.splits)
  with one(1) two(1) show ?case by (simp add: p)
qed simp

lemma ns_RefreshHarqProcesses_ok:
  assumes "ns_harq_timed s" "sm_find r (ns_dlHarqProcessesTimer s) = Some timer"
    "sm_find r (ns_dlHarqProcessesStatus s) = Some status"
  shows "\<exists>s'. ns_RefreshHarqProcesses s = Inr s' \<and> ns_harq_timed s' \<and>
    sm_find r (ns_dlHarqProcessesTimer s') = Some (map ns_tick timer) \<and>
    sm_find r (ns_dlHarqProcessesStatus s') = Some (ns_free timer status)"
proof -
  define timers where "timers = ns_dlHarqProcessesTimer s"
  have wf: "distinct (sm_keys timers)" "\<forall>(r, timer) \<in> set timers. length timer = HARQ_PROC_NUM \<and>
      (\<exists>st. sm_find r (ns_dlHarqProcessesStatus s) = Some st \<and> length st = HARQ_PROC_NUM)"
    using assms(1) by (simp_all add: ns_harq_timed_def timers_def)
  obtain status' where t: "ns_harq_ticks timers (ns_dlHarqProcessesStatus s) =
      Inr (map (\<lambda>(r, timer). (r, map ns_tick timer)) timers, status')"
    "\<And>r. sm_find r status' = (case sm_find r timers of None \<Rightarrow> sm_find r (ns_dlHarqProcessesStatus s)
      | Some timer \<Rightarrow> map_option (ns_free timer) (sm_find r (ns_dlHarqProcessesStatus s)))"
    using ns_harq_ticks_ok [OF wf] by blast
  define s' where "s' = s\<lparr>ns_dlHarqProcessesTimer := map (\<lambda>(r, timer). (r, map ns_tick timer)) timers,
    ns_dlHarqProcessesStatus := status'\<rparr>"
  have refresh: "ns_RefreshHarqProcesses s = Inr s'" using t(1) by (simp add: ns_RefreshHarqProcesses_def s'_def timers_def)
  have keys: "sm_keys (ns_dlHarqProcessesTimer s') = sm_keys timers"
    by (simp add: s'_def sm_keys_def case_prod_beta comp_def)
  have "ns_harq_timed s'"
    unfolding ns_harq_timed_def keys
  proof (intro conjI ballI)
    fix x
    assume "x \<in> set (ns_dlHarqProcessesTimer s')"
    then obtain r timer where x: "x = (r, map ns_tick timer)" "(r, timer) \<in> set timers" by (auto simp: s'_def)
    have find: "sm_find r timers = Some timer" using x(2) wf(1) by (simp add: sm_find_def sm_keys_def)
    obtain st where "sm_find r (ns_dlHarqProcessesStatus s) = Some st" "length st = HARQ_PROC_NUM" "length timer = HARQ_PROC_NUM"
      using wf(2) x(2) by auto
    then show "case x of (r, timer) \<Rightarrow> length timer = HARQ_PROC_NUM \<and>
        (\<exists>st. sm_find r (ns_dlHarqProcessesStatus s') = Some st \<and> length st = HARQ_PROC_NUM)"
      by (simp add: x(1) s'_def t(2) find ns_free_def)
  qed (rule wf(1))
  moreover have "sm_find r (ns_dlHarqProcessesTimer s') = Some (map ns_tick timer)"
    using assms(2) by (simp add: s'_def sm_find_def map_of_map timers_def)
  moreover have "sm_find r (ns_dlHarqProcessesStatus s') = Some (ns_free timer status)"
    using assms(2,3) by (simp add: s'_def t(2) timers_def)
  ultimately show ?thesis using refresh by blast
qed

text \<open>The subframes in which nothing but the timers moves.\<close>

fun ns_refreshes :: "nat \<Rightarrow> NsScheduler \<Rightarrow> NsScheduler result" where
  "ns_refreshes 0 s = Inr s"
| "ns_refreshes (Suc n) s = rbind (ns_RefreshHarqProcesses s) (ns_refreshes n)"

text \<open>C39: A HARQ process whose timer stands at \<open>t\<close> is free after \<open>12 - t\<close> refreshes, when it is not used in between, so
  after at most twelve subframes without an answer of the user.\<close>

theorem ns_harq_times_out:
  assumes "ns_harq_timed s" "sm_find rnti (ns_dlHarqProcessesTimer s) = Some timer"
    "sm_find rnti (ns_dlHarqProcessesStatus s) = Some status" "i < 8" "unat (timer ! i) \<le> 11"
  shows "\<exists>s' status'. ns_refreshes (12 - unat (timer ! i)) s = Inr s' \<and>
    sm_find rnti (ns_dlHarqProcessesStatus s') = Some status' \<and> status' ! i = 0"
  using assms
proof (induction "11 - unat (timer ! i)" arbitrary: s timer status)
  case 0
  then have eleven: "unat (timer ! i) = 11" by simp
  then have t: "timer ! i = HARQ_DL_TIMEOUT" by (simp add: HARQ_DL_TIMEOUT_def word_unat_eq_iff)
  have len: "length timer = 8" "length status = 8"
    using 0(2-4) map_of_SomeD [of "ns_dlHarqProcessesTimer s" rnti timer]
    by (auto simp: ns_harq_timed_def sm_find_def HARQ_PROC_NUM_def)
  obtain s' where s': "ns_RefreshHarqProcesses s = Inr s'"
    "sm_find rnti (ns_dlHarqProcessesStatus s') = Some (ns_free timer status)"
    using ns_RefreshHarqProcesses_ok [OF 0(2-4)] by blast
  have "ns_free timer status ! i = 0" using t len 0(5) by (simp add: ns_free_def)
  with s' eleven show ?case by simp
next
  case (Suc d)
  have less: "unat (timer ! i) < 11" using Suc(2) by simp
  have len: "length timer = 8"
    using Suc(3,4) map_of_SomeD [of "ns_dlHarqProcessesTimer s" rnti timer]
    by (auto simp: ns_harq_timed_def sm_find_def HARQ_PROC_NUM_def)
  obtain s' where s': "ns_RefreshHarqProcesses s = Inr s'" "ns_harq_timed s'"
    "sm_find rnti (ns_dlHarqProcessesTimer s') = Some (map ns_tick timer)"
    "sm_find rnti (ns_dlHarqProcessesStatus s') = Some (ns_free timer status)"
    using ns_RefreshHarqProcesses_ok [OF Suc(3-5)] by blast
  have "timer ! i \<noteq> HARQ_DL_TIMEOUT" using less by (auto simp: HARQ_DL_TIMEOUT_def)
  then have next_timer: "unat (map ns_tick timer ! i) = unat (timer ! i) + 1"
    using less len Suc(6) by (simp add: ns_tick_def unat_word_ariths)
  have "\<exists>s'' status'. ns_refreshes (12 - unat (map ns_tick timer ! i)) s' = Inr s'' \<and>
      sm_find rnti (ns_dlHarqProcessesStatus s'') = Some status' \<and> status' ! i = 0"
    by (rule Suc(1) [OF _ s'(2-4) Suc(6)]) (use Suc(2) next_timer less in simp_all)
  moreover have "12 - unat (timer ! i) = Suc (12 - unat (map ns_tick timer ! i))" using next_timer less by simp
  ultimately show ?case using s'(1) by simp
qed

section \<open>The queues of a bearer\<close>

text \<open>A PDU that is smaller than the RLC header clears the whole queue of a bearer: the difference wraps around.\<close>

lemma ns_small_pdu_clears_queue:
  "rb_txQueue (ns_served 3 1 \<lparr>rb_txQueue = 1000000, rb_retxQueue = 0, rb_statusPdu = 0\<rparr>) = 0"
  by (simp add: ns_served_def)

section \<open>Witnesses\<close>

definition ns_harq_example :: NsScheduler where
  "ns_harq_example = (NsScheduler_new 25 True 1000)\<lparr>ns_dlHarqCurrentProcessId := [(1, 2)],
    ns_dlHarqProcessesStatus := [(1, [1, 0, 1, 1, 0, 1, 1, 1])],
    ns_dlHarqProcessesTimer := [(1, [5, 0, 3, 11, 0, 1, 2, 4])]\<rparr>"

lemma ns_harq_process_free_witness:
  "ns_HarqProcessAvailability 1 ns_harq_example = Inr (\<exists>j < 8. [1, 0, 1, 1, 0, 1, 1, 1 :: u8] ! j = 0)"
  by (rule ns_harq_process_free [THEN conjunct1])
    (simp_all add: ns_harq_ok_def ns_harq_example_def NsScheduler_new_def sm_find_def HARQ_PROC_NUM_def)

lemma ns_harq_times_out_witness:
  "\<exists>s' status'. ns_refreshes (12 - unat ([5, 0, 3, 11, 0, 1, 2, 4 :: u8] ! 2)) ns_harq_example = Inr s' \<and>
    sm_find 1 (ns_dlHarqProcessesStatus s') = Some status' \<and> status' ! 2 = 0"
  by (rule ns_harq_times_out)
    (simp_all add: ns_harq_timed_def ns_harq_example_def NsScheduler_new_def sm_find_def HARQ_PROC_NUM_def sm_keys_def)

end
