(* ===== verification/Lte_Amc.thy ===== *)
theory Lte_Amc
  imports Prelude
begin

text \<open>Adaptive modulation and coding (\<open>src/src/lte/model/lte-amc.cc\<close>, class \<open>LteAmc\<close>): the tables of 3GPP TS 36.213 as the
  code has them, the choice of a modulation and coding scheme (MCS) for a reported channel quality (CQI), the size of a
  transport block, and the CQI that a receiver reports.

  A table is a list, the assertions in front of an access are branches, and a negative index is undefined.  The error
  model that a receiver asks (\<open>LteMiErrorModel\<close>) is an argument: the block error rate for RBs, size and MCS.  Doubles are
  reals, which keep the order of the literals of the tables.\<close>

section \<open>Tables\<close>

definition SpectralEfficiencyForCqi :: "real list" where
  "SpectralEfficiencyForCqi = [
    0, 0.15, 0.23, 0.38, 0.6, 0.88, 1.18, 1.48, 1.91, 2.41, 2.73, 3.32, 3.9, 4.52, 5.12, 5.55]"

definition SpectralEfficiencyForMcs :: "real list" where
  "SpectralEfficiencyForMcs = [
    0.15, 0.19, 0.23, 0.31, 0.38, 0.49, 0.6, 0.74, 0.88, 1.03, 1.18, 1.33, 1.48, 1.7, 1.91, 2.16, 2.41,
    2.57, 2.73, 3.03, 3.32, 3.61, 3.9, 4.21, 4.52, 4.82, 5.12, 5.33, 5.55, 0, 0, 0]"

definition McsToItbsDl :: "nat list" where
  "McsToItbsDl = [
    0, 1, 2, 3, 4, 5, 6, 7, 8, 9, 9, 10, 11, 12, 13, 14, 15, 15, 16, 17, 18, 19, 20, 21, 22, 23, 24, 25, 26]"

definition McsToItbsUl :: "nat list" where
  "McsToItbsUl = [
    0, 1, 2, 3, 4, 5, 6, 7, 8, 9, 10, 10, 11, 12, 13, 14, 15, 16, 17, 18, 19, 19, 20, 21, 22, 23, 24, 25, 26]"

definition TransportBlockSizeTable :: "int list list" where
  "TransportBlockSizeTable = [
    [16, 24, 32, 40, 56, 72, 88, 104, 120, 136, 144, 176, 208, 224, 256, 280, 328, 336, 376, 408, 440, 488,
     520, 552, 584, 616, 712],
    [32, 56, 72, 104, 120, 144, 176, 224, 256, 296, 328, 376, 440, 488, 552, 600, 632, 696, 776, 840, 904,
     1000, 1064, 1128, 1192, 1256, 1480],
    [56, 88, 144, 176, 208, 224, 256, 328, 392, 456, 504, 584, 680, 744, 840, 904, 968, 1064, 1160, 1288, 1384,
     1480, 1608, 1736, 1800, 1864, 2216],
    [88, 144, 176, 208, 256, 328, 392, 472, 536, 616, 680, 776, 904, 1000, 1128, 1224, 1288, 1416, 1544, 1736,
     1864, 1992, 2152, 2280, 2408, 2536, 2984],
    [120, 176, 208, 256, 328, 424, 504, 584, 680, 776, 872, 1000, 1128, 1256, 1416, 1544, 1608, 1800, 1992,
     2152, 2344, 2472, 2664, 2856, 2984, 3112, 3752],
    [152, 208, 256, 328, 408, 504, 600, 712, 808, 936, 1032, 1192, 1352, 1544, 1736, 1800, 1928, 2152, 2344,
     2600, 2792, 2984, 3240, 3496, 3624, 3752, 4392],
    [176, 224, 296, 392, 488, 600, 712, 840, 968, 1096, 1224, 1384, 1608, 1800, 1992, 2152, 2280, 2536, 2792,
     2984, 3240, 3496, 3752, 4008, 4264, 4392, 5160],
    [208, 256, 328, 440, 552, 680, 808, 968, 1096, 1256, 1384, 1608, 1800, 2024, 2280, 2472, 2600, 2856, 3112,
     3496, 3752, 4008, 4264, 4584, 4968, 5160, 5992],
    [224, 328, 376, 504, 632, 776, 936, 1096, 1256, 1416, 1544, 1800, 2024, 2280, 2600, 2728, 2984, 3240, 3624,
     3880, 4136, 4584, 4776, 5160, 5544, 5736, 6712],
    [256, 344, 424, 568, 696, 872, 1032, 1224, 1384, 1544, 1736, 2024, 2280, 2536, 2856, 3112, 3240, 3624,
     4008, 4264, 4584, 4968, 5352, 5736, 5992, 6200, 7480],
    [288, 376, 472, 616, 776, 968, 1128, 1320, 1544, 1736, 1928, 2216, 2472, 2856, 3112, 3368, 3624, 4008,
     4392, 4776, 5160, 5544, 5992, 6200, 6712, 6968, 8248],
    [328, 424, 520, 680, 840, 1032, 1224, 1480, 1672, 1864, 2088, 2408, 2728, 3112, 3496, 3624, 3880, 4392,
     4776, 5160, 5544, 5992, 6456, 6968, 7224, 7480, 8760],
    [344, 456, 568, 744, 904, 1128, 1352, 1608, 1800, 2024, 2280, 2600, 2984, 3368, 3752, 4008, 4264, 4776,
     5160, 5544, 5992, 6456, 6968, 7480, 7992, 8248, 9528],
    [376, 488, 616, 808, 1000, 1224, 1480, 1672, 1928, 2216, 2472, 2792, 3240, 3624, 4008, 4264, 4584, 5160,
     5544, 5992, 6456, 6968, 7480, 7992, 8504, 8760, 10296],
    [392, 520, 648, 872, 1064, 1320, 1544, 1800, 2088, 2344, 2664, 2984, 3368, 3880, 4264, 4584, 4968, 5352,
     5992, 6456, 6968, 7480, 7992, 8504, 9144, 9528, 11064],
    [424, 568, 696, 904, 1128, 1384, 1672, 1928, 2216, 2536, 2792, 3240, 3624, 4136, 4584, 4968, 5160, 5736,
     6200, 6968, 7480, 7992, 8504, 9144, 9912, 10296, 11832],
    [456, 600, 744, 968, 1192, 1480, 1736, 2088, 2344, 2664, 2984, 3496, 3880, 4392, 4968, 5160, 5544, 6200,
     6712, 7224, 7992, 8504, 9144, 9912, 10296, 10680, 12576],
    [488, 632, 776, 1032, 1288, 1544, 1864, 2216, 2536, 2856, 3112, 3624, 4136, 4584, 5160, 5544, 5992, 6456,
     7224, 7736, 8248, 9144, 9528, 10296, 11064, 11448, 13536],
    [504, 680, 840, 1096, 1352, 1672, 1992, 2344, 2664, 2984, 3368, 3880, 4392, 4968, 5544, 5736, 6200, 6712,
     7480, 8248, 8760, 9528, 10296, 11064, 11448, 12216, 14112],
    [536, 712, 872, 1160, 1416, 1736, 2088, 2472, 2792, 3112, 3496, 4008, 4584, 5160, 5736, 6200, 6456, 7224,
     7992, 8504, 9144, 9912, 10680, 11448, 12216, 12576, 14688],
    [568, 744, 936, 1224, 1480, 1864, 2216, 2536, 2984, 3368, 3752, 4264, 4776, 5352, 5992, 6456, 6712, 7480,
     8248, 9144, 9912, 10680, 11448, 12216, 12960, 13536, 15264],
    [600, 776, 968, 1256, 1544, 1928, 2280, 2664, 3112, 3496, 3880, 4392, 4968, 5736, 6200, 6712, 7224, 7992,
     8760, 9528, 10296, 11064, 11832, 12576, 13536, 14112, 16416],
    [616, 808, 1000, 1320, 1608, 2024, 2408, 2792, 3240, 3624, 4008, 4584, 5352, 5992, 6456, 6968, 7480, 8248,
     9144, 9912, 10680, 11448, 12576, 12960, 14112, 14688, 16992],
    [648, 872, 1064, 1384, 1736, 2088, 2472, 2984, 3368, 3752, 4264, 4776, 5544, 6200, 6968, 7224, 7736, 8760,
     9528, 10296, 11064, 12216, 12960, 13536, 14688, 15264, 17568],
    [680, 904, 1096, 1416, 1800, 2216, 2600, 3112, 3496, 4008, 4392, 4968, 5736, 6456, 7224, 7736, 7992, 9144,
     9912, 10680, 11448, 12576, 13536, 14112, 15264, 15840, 18336],
    [712, 936, 1160, 1480, 1864, 2280, 2728, 3240, 3624, 4136, 4584, 5352, 5992, 6712, 7480, 7992, 8504, 9528,
     10296, 11064, 12216, 12960, 14112, 14688, 15840, 16416, 19080],
    [744, 968, 1192, 1544, 1928, 2344, 2792, 3368, 3752, 4264, 4776, 5544, 6200, 6968, 7736, 8248, 8760, 9912,
     10680, 11448, 12576, 13536, 14688, 15264, 16416, 16992, 19848],
    [776, 1000, 1256, 1608, 1992, 2472, 2984, 3368, 3880, 4392, 4968, 5736, 6456, 7224, 7992, 8504, 9144,
     10296, 11064, 12216, 12960, 14112, 15264, 15840, 16992, 17568, 20616],
    [776, 1032, 1288, 1672, 2088, 2536, 2984, 3496, 4008, 4584, 5160, 5992, 6712, 7480, 8248, 8760, 9528,
     10296, 11448, 12576, 13536, 14688, 15840, 16416, 17568, 18336, 21384],
    [808, 1064, 1320, 1736, 2152, 2664, 3112, 3624, 4264, 4776, 5352, 5992, 6712, 7736, 8504, 9144, 9912,
     10680, 11832, 12960, 14112, 15264, 16416, 16992, 18336, 19080, 22152],
    [840, 1128, 1384, 1800, 2216, 2728, 3240, 3752, 4392, 4968, 5544, 6200, 6968, 7992, 8760, 9528, 9912,
     11064, 12216, 13536, 14688, 15840, 16992, 17568, 19080, 19848, 22920],
    [872, 1160, 1416, 1864, 2280, 2792, 3368, 3880, 4584, 5160, 5736, 6456, 7224, 8248, 9144, 9912, 10296,
     11448, 12576, 13536, 14688, 15840, 16992, 18336, 19848, 20616, 23688],
    [904, 1192, 1480, 1928, 2344, 2856, 3496, 4008, 4584, 5160, 5736, 6712, 7480, 8504, 9528, 10296, 10680,
     11832, 12960, 14112, 15264, 16416, 17568, 19080, 19848, 20616, 24496],
    [936, 1224, 1544, 1992, 2408, 2984, 3496, 4136, 4776, 5352, 5992, 6968, 7736, 8760, 9912, 10296, 11064,
     12216, 13536, 14688, 15840, 16992, 18336, 19848, 20616, 21384, 25456],
    [968, 1256, 1544, 2024, 2472, 3112, 3624, 4264, 4968, 5544, 6200, 6968, 7992, 9144, 9912, 10680, 11448,
     12576, 14112, 15264, 16416, 17568, 19080, 19848, 21384, 22152, 25456],
    [1000, 1288, 1608, 2088, 2600, 3112, 3752, 4392, 4968, 5736, 6200, 7224, 8248, 9144, 10296, 11064, 11832,
     12960, 14112, 15264, 16992, 18336, 19080, 20616, 22152, 22920, 26416],
    [1032, 1352, 1672, 2152, 2664, 3240, 3880, 4584, 5160, 5736, 6456, 7480, 8504, 9528, 10680, 11448, 12216,
     13536, 14688, 15840, 16992, 18336, 19848, 21384, 22920, 23688, 27376],
    [1032, 1384, 1672, 2216, 2728, 3368, 4008, 4584, 5352, 5992, 6712, 7736, 8760, 9912, 11064, 11832, 12216,
     13536, 15264, 16416, 17568, 19080, 20616, 22152, 22920, 24496, 28336],
    [1064, 1416, 1736, 2280, 2792, 3496, 4136, 4776, 5544, 6200, 6712, 7736, 8760, 9912, 11064, 11832, 12576,
     14112, 15264, 16992, 18336, 19848, 21384, 22152, 23688, 24496, 29296],
    [1096, 1416, 1800, 2344, 2856, 3496, 4136, 4968, 5544, 6200, 6968, 7992, 9144, 10296, 11448, 12216, 12960,
     14688, 15840, 16992, 18336, 19848, 21384, 22920, 24496, 25456, 29296],
    [1128, 1480, 1800, 2408, 2984, 3624, 4264, 4968, 5736, 6456, 7224, 8248, 9528, 10680, 11832, 12576, 13536,
     14688, 16416, 17568, 19080, 20616, 22152, 23688, 25456, 26416, 30576],
    [1160, 1544, 1864, 2472, 2984, 3752, 4392, 5160, 5992, 6712, 7480, 8504, 9528, 10680, 12216, 12960, 13536,
     15264, 16416, 18336, 19848, 21384, 22920, 24496, 25456, 26416, 30576],
    [1192, 1544, 1928, 2536, 3112, 3752, 4584, 5352, 5992, 6712, 7480, 8760, 9912, 11064, 12216, 12960, 14112,
     15264, 16992, 18336, 19848, 21384, 22920, 24496, 26416, 27376, 31704],
    [1224, 1608, 1992, 2536, 3112, 3880, 4584, 5352, 6200, 6968, 7736, 8760, 9912, 11448, 12576, 13536, 14112,
     15840, 17568, 19080, 20616, 22152, 23688, 25456, 26416, 28336, 32856],
    [1256, 1608, 2024, 2600, 3240, 4008, 4776, 5544, 6200, 6968, 7992, 9144, 10296, 11448, 12960, 13536, 14688,
     16416, 17568, 19080, 20616, 22920, 24496, 25456, 27376, 28336, 32856],
    [1256, 1672, 2088, 2664, 3240, 4008, 4776, 5736, 6456, 7224, 7992, 9144, 10680, 11832, 12960, 14112, 14688,
     16416, 18336, 19848, 21384, 22920, 24496, 26416, 28336, 29296, 34008],
    [1288, 1736, 2088, 2728, 3368, 4136, 4968, 5736, 6456, 7480, 8248, 9528, 10680, 12216, 13536, 14688, 15264,
     16992, 18336, 20616, 22152, 23688, 25456, 27376, 28336, 29296, 35160],
    [1320, 1736, 2152, 2792, 3496, 4264, 4968, 5992, 6712, 7480, 8504, 9528, 11064, 12216, 13536, 14688, 15840,
     17568, 19080, 20616, 22152, 24496, 25456, 27376, 29296, 30576, 35160],
    [1352, 1800, 2216, 2856, 3496, 4392, 5160, 5992, 6968, 7736, 8504, 9912, 11064, 12576, 14112, 15264, 15840,
     17568, 19080, 21384, 22920, 24496, 26416, 28336, 29296, 31704, 36696],
    [1384, 1800, 2216, 2856, 3624, 4392, 5160, 6200, 6968, 7992, 8760, 9912, 11448, 12960, 14112, 15264, 16416,
     18336, 19848, 21384, 22920, 25456, 27376, 28336, 30576, 31704, 36696],
    [1416, 1864, 2280, 2984, 3624, 4584, 5352, 6200, 7224, 7992, 9144, 10296, 11832, 12960, 14688, 15840,
     16416, 18336, 19848, 22152, 23688, 25456, 27376, 29296, 31704, 32856, 37888],
    [1416, 1864, 2344, 2984, 3752, 4584, 5352, 6456, 7224, 8248, 9144, 10680, 11832, 13536, 14688, 15840,
     16992, 19080, 20616, 22152, 24496, 26416, 28336, 29296, 31704, 32856, 37888],
    [1480, 1928, 2344, 3112, 3752, 4776, 5544, 6456, 7480, 8248, 9144, 10680, 12216, 13536, 15264, 16416,
     16992, 19080, 21384, 22920, 24496, 26416, 28336, 30576, 32856, 34008, 39232],
    [1480, 1992, 2408, 3112, 3880, 4776, 5736, 6712, 7480, 8504, 9528, 11064, 12216, 14112, 15264, 16416,
     17568, 19848, 21384, 22920, 25456, 27376, 29296, 30576, 32856, 34008, 40576],
    [1544, 1992, 2472, 3240, 4008, 4776, 5736, 6712, 7736, 8760, 9528, 11064, 12576, 14112, 15840, 16992,
     17568, 19848, 22152, 23688, 25456, 27376, 29296, 31704, 34008, 35160, 40576],
    [1544, 2024, 2536, 3240, 4008, 4968, 5992, 6712, 7736, 8760, 9912, 11448, 12576, 14688, 15840, 16992,
     18336, 20616, 22152, 24496, 26416, 28336, 30576, 31704, 34008, 35160, 40576],
    [1608, 2088, 2536, 3368, 4136, 4968, 5992, 6968, 7992, 9144, 9912, 11448, 12960, 14688, 16416, 17568,
     18336, 20616, 22920, 24496, 26416, 28336, 30576, 32856, 35160, 36696, 42368],
    [1608, 2088, 2600, 3368, 4136, 5160, 5992, 6968, 7992, 9144, 10296, 11832, 12960, 14688, 16416, 17568,
     19080, 20616, 22920, 25456, 27376, 29296, 31704, 32856, 35160, 36696, 42368],
    [1608, 2152, 2664, 3496, 4264, 5160, 6200, 7224, 8248, 9144, 10296, 11832, 13536, 15264, 16992, 18336,
     19080, 21384, 23688, 25456, 27376, 29296, 31704, 34008, 36696, 37888, 43816],
    [1672, 2152, 2664, 3496, 4264, 5352, 6200, 7224, 8504, 9528, 10680, 12216, 13536, 15264, 16992, 18336,
     19848, 21384, 23688, 25456, 28336, 30576, 32856, 34008, 36696, 37888, 43816],
    [1672, 2216, 2728, 3624, 4392, 5352, 6456, 7480, 8504, 9528, 10680, 12216, 14112, 15840, 17568, 18336,
     19848, 22152, 24496, 26416, 28336, 30576, 32856, 35160, 36696, 39232, 45352],
    [1736, 2280, 2792, 3624, 4392, 5544, 6456, 7480, 8760, 9912, 11064, 12576, 14112, 15840, 17568, 19080,
     19848, 22152, 24496, 26416, 29296, 31704, 34008, 35160, 37888, 39232, 45352],
    [1736, 2280, 2856, 3624, 4584, 5544, 6456, 7736, 8760, 9912, 11064, 12576, 14112, 16416, 18336, 19080,
     20616, 22920, 24496, 27376, 29296, 31704, 34008, 36696, 37888, 40576, 46888],
    [1800, 2344, 2856, 3752, 4584, 5736, 6712, 7736, 9144, 10296, 11448, 12960, 14688, 16416, 18336, 19848,
     20616, 22920, 25456, 27376, 29296, 31704, 34008, 36696, 39232, 40576, 46888],
    [1800, 2344, 2856, 3752, 4584, 5736, 6712, 7992, 9144, 10296, 11448, 12960, 14688, 16992, 18336, 19848,
     21384, 23688, 25456, 28336, 30576, 32856, 35160, 37888, 39232, 40576, 48936],
    [1800, 2408, 2984, 3880, 4776, 5736, 6968, 7992, 9144, 10296, 11448, 13536, 15264, 16992, 19080, 20616,
     21384, 23688, 26416, 28336, 30576, 32856, 35160, 37888, 40576, 42368, 48936],
    [1864, 2472, 2984, 3880, 4776, 5992, 6968, 8248, 9528, 10680, 11832, 13536, 15264, 16992, 19080, 20616,
     22152, 24496, 26416, 29296, 31704, 34008, 36696, 37888, 40576, 42368, 48936],
    [1864, 2472, 3112, 4008, 4968, 5992, 6968, 8248, 9528, 10680, 11832, 13536, 15264, 17568, 19848, 20616,
     22152, 24496, 27376, 29296, 31704, 34008, 36696, 39232, 42368, 43816, 51024],
    [1928, 2536, 3112, 4008, 4968, 5992, 7224, 8504, 9528, 11064, 12216, 14112, 15840, 17568, 19848, 21384,
     22152, 24496, 27376, 29296, 31704, 35160, 36696, 39232, 42368, 43816, 51024],
    [1928, 2536, 3112, 4136, 4968, 6200, 7224, 8504, 9912, 11064, 12216, 14112, 15840, 18336, 19848, 21384,
     22920, 25456, 27376, 30576, 32856, 35160, 37888, 40576, 42368, 43816, 52752],
    [1992, 2600, 3240, 4136, 5160, 6200, 7480, 8760, 9912, 11064, 12576, 14112, 16416, 18336, 20616, 22152,
     22920, 25456, 28336, 30576, 32856, 35160, 37888, 40576, 43816, 45352, 52752],
    [1992, 2600, 3240, 4264, 5160, 6200, 7480, 8760, 9912, 11448, 12576, 14688, 16416, 18336, 20616, 22152,
     23688, 26416, 28336, 30576, 34008, 36696, 39232, 40576, 43816, 45352, 52752],
    [2024, 2664, 3240, 4264, 5160, 6456, 7736, 8760, 10296, 11448, 12960, 14688, 16416, 19080, 20616, 22152,
     23688, 26416, 29296, 31704, 34008, 36696, 39232, 42368, 45352, 46888, 55056],
    [2088, 2728, 3368, 4392, 5352, 6456, 7736, 9144, 10296, 11832, 12960, 14688, 16992, 19080, 21384, 22920,
     24496, 26416, 29296, 31704, 34008, 36696, 40576, 42368, 45352, 46888, 55056],
    [2088, 2728, 3368, 4392, 5352, 6712, 7736, 9144, 10680, 11832, 12960, 15264, 16992, 19080, 21384, 22920,
     24496, 27376, 29296, 32856, 35160, 37888, 40576, 43816, 45352, 46888, 55056],
    [2088, 2792, 3368, 4392, 5544, 6712, 7992, 9144, 10680, 11832, 13536, 15264, 17568, 19848, 22152, 23688,
     24496, 27376, 30576, 32856, 35160, 37888, 40576, 43816, 46888, 48936, 55056],
    [2152, 2792, 3496, 4584, 5544, 6712, 7992, 9528, 10680, 12216, 13536, 15840, 17568, 19848, 22152, 23688,
     25456, 27376, 30576, 32856, 35160, 39232, 42368, 43816, 46888, 48936, 57336],
    [2152, 2856, 3496, 4584, 5544, 6968, 8248, 9528, 11064, 12216, 13536, 15840, 17568, 19848, 22152, 23688,
     25456, 28336, 30576, 34008, 36696, 39232, 42368, 45352, 46888, 48936, 57336],
    [2216, 2856, 3496, 4584, 5736, 6968, 8248, 9528, 11064, 12576, 14112, 15840, 18336, 20616, 22920, 24496,
     25456, 28336, 31704, 34008, 36696, 39232, 42368, 45352, 48936, 51024, 57336],
    [2216, 2856, 3624, 4776, 5736, 6968, 8248, 9912, 11064, 12576, 14112, 16416, 18336, 20616, 22920, 24496,
     26416, 29296, 31704, 34008, 36696, 40576, 43816, 45352, 48936, 51024, 59256],
    [2280, 2984, 3624, 4776, 5736, 7224, 8504, 9912, 11448, 12960, 14112, 16416, 18336, 20616, 22920, 24496,
     26416, 29296, 31704, 35160, 37888, 40576, 43816, 46888, 48936, 51024, 59256],
    [2280, 2984, 3624, 4776, 5992, 7224, 8504, 9912, 11448, 12960, 14688, 16416, 19080, 21384, 23688, 25456,
     26416, 29296, 32856, 35160, 37888, 40576, 43816, 46888, 51024, 52752, 59256],
    [2280, 2984, 3752, 4776, 5992, 7224, 8760, 10296, 11448, 12960, 14688, 16992, 19080, 21384, 23688, 25456,
     27376, 30576, 32856, 35160, 39232, 42368, 45352, 46888, 51024, 52752, 61664],
    [2344, 3112, 3752, 4968, 5992, 7480, 8760, 10296, 11832, 13536, 14688, 16992, 19080, 21384, 24496, 25456,
     27376, 30576, 32856, 36696, 39232, 42368, 45352, 48936, 51024, 52752, 61664],
    [2344, 3112, 3880, 4968, 5992, 7480, 8760, 10296, 11832, 13536, 14688, 16992, 19080, 22152, 24496, 26416,
     27376, 30576, 34008, 36696, 39232, 42368, 45352, 48936, 52752, 55056, 61664],
    [2408, 3112, 3880, 4968, 6200, 7480, 9144, 10680, 12216, 13536, 15264, 17568, 19848, 22152, 24496, 26416,
     28336, 30576, 34008, 36696, 40576, 43816, 46888, 48936, 52752, 55056, 63776],
    [2408, 3240, 3880, 5160, 6200, 7736, 9144, 10680, 12216, 13536, 15264, 17568, 19848, 22152, 25456, 26416,
     28336, 31704, 34008, 37888, 40576, 43816, 46888, 51024, 52752, 55056, 63776],
    [2472, 3240, 4008, 5160, 6200, 7736, 9144, 10680, 12216, 14112, 15264, 17568, 19848, 22920, 25456, 27376,
     28336, 31704, 35160, 37888, 40576, 43816, 46888, 51024, 52752, 55056, 63776],
    [2472, 3240, 4008, 5160, 6456, 7736, 9144, 11064, 12576, 14112, 15840, 18336, 20616, 22920, 25456, 27376,
     29296, 31704, 35160, 37888, 42368, 45352, 48936, 51024, 55056, 57336, 66592],
    [2536, 3240, 4008, 5352, 6456, 7992, 9528, 11064, 12576, 14112, 15840, 18336, 20616, 22920, 25456, 27376,
     29296, 32856, 35160, 39232, 42368, 45352, 48936, 51024, 55056, 57336, 66592],
    [2536, 3368, 4136, 5352, 6456, 7992, 9528, 11064, 12576, 14112, 15840, 18336, 20616, 23688, 26416, 28336,
     29296, 32856, 36696, 39232, 42368, 45352, 48936, 52752, 55056, 57336, 66592],
    [2536, 3368, 4136, 5352, 6456, 7992, 9528, 11448, 12960, 14688, 16416, 18336, 21384, 23688, 26416, 28336,
     30576, 32856, 36696, 39232, 42368, 46888, 48936, 52752, 57336, 59256, 68808],
    [2600, 3368, 4136, 5352, 6712, 8248, 9528, 11448, 12960, 14688, 16416, 19080, 21384, 23688, 26416, 28336,
     30576, 34008, 36696, 40576, 43816, 46888, 51024, 52752, 57336, 59256, 68808],
    [2600, 3496, 4264, 5544, 6712, 8248, 9912, 11448, 12960, 14688, 16416, 19080, 21384, 24496, 27376, 29296,
     30576, 34008, 37888, 40576, 43816, 46888, 51024, 55056, 57336, 59256, 68808],
    [2664, 3496, 4264, 5544, 6712, 8248, 9912, 11448, 13536, 15264, 16992, 19080, 21384, 24496, 27376, 29296,
     30576, 34008, 37888, 40576, 43816, 46888, 51024, 55056, 57336, 61664, 71112],
    [2664, 3496, 4264, 5544, 6968, 8504, 9912, 11832, 13536, 15264, 16992, 19080, 22152, 24496, 27376, 29296,
     31704, 35160, 37888, 40576, 45352, 48936, 51024, 55056, 59256, 61664, 71112],
    [2728, 3496, 4392, 5736, 6968, 8504, 10296, 11832, 13536, 15264, 16992, 19848, 22152, 25456, 28336, 29296,
     31704, 35160, 37888, 42368, 45352, 48936, 52752, 55056, 59256, 61664, 71112],
    [2728, 3624, 4392, 5736, 6968, 8760, 10296, 11832, 13536, 15264, 16992, 19848, 22152, 25456, 28336, 30576,
     31704, 35160, 39232, 42368, 45352, 48936, 52752, 57336, 59256, 61664, 73712],
    [2728, 3624, 4392, 5736, 6968, 8760, 10296, 12216, 14112, 15840, 17568, 19848, 22920, 25456, 28336, 30576,
     31704, 35160, 39232, 42368, 46888, 48936, 52752, 57336, 61664, 63776, 73712],
    [2792, 3624, 4584, 5736, 7224, 8760, 10296, 12216, 14112, 15840, 17568, 19848, 22920, 25456, 28336, 30576,
     32856, 36696, 39232, 43816, 46888, 51024, 55056, 57336, 61664, 63776, 75376],
    [2792, 3752, 4584, 5992, 7224, 8760, 10680, 12216, 14112, 15840, 17568, 20616, 22920, 26416, 29296, 30576,
     32856, 36696, 40576, 43816, 46888, 51024, 55056, 57336, 61664, 63776, 75376],
    [2856, 3752, 4584, 5992, 7224, 9144, 10680, 12576, 14112, 16416, 18336, 20616, 23688, 26416, 29296, 31704,
     32856, 36696, 40576, 43816, 46888, 51024, 55056, 59256, 61664, 63776, 75376],
    [2856, 3752, 4584, 5992, 7480, 9144, 10680, 12576, 14688, 16416, 18336, 20616, 23688, 26416, 29296, 31704,
     34008, 36696, 40576, 43816, 48936, 51024, 55056, 59256, 63776, 66592, 75376],
    [2856, 3752, 4584, 5992, 7480, 9144, 10680, 12576, 14688, 16416, 18336, 21384, 23688, 26416, 29296, 31704,
     34008, 37888, 40576, 45352, 48936, 52752, 57336, 59256, 63776, 66592, 75376],
    [2984, 3880, 4776, 6200, 7480, 9144, 11064, 12960, 14688, 16416, 18336, 21384, 23688, 27376, 30576, 31704,
     34008, 37888, 42368, 45352, 48936, 52752, 57336, 59256, 63776, 66592, 75376],
    [2984, 3880, 4776, 6200, 7480, 9528, 11064, 12960, 14688, 16992, 18336, 21384, 24496, 27376, 30576, 32856,
     34008, 37888, 42368, 45352, 48936, 52752, 57336, 61664, 63776, 66592, 75376],
    [2984, 3880, 4776, 6200, 7736, 9528, 11064, 12960, 15264, 16992, 19080, 21384, 24496, 27376, 30576, 32856,
     35160, 39232, 42368, 46888, 48936, 52752, 57336, 61664, 66592, 68808, 75376],
    [2984, 4008, 4776, 6200, 7736, 9528, 11448, 12960, 15264, 16992, 19080, 22152, 24496, 27376, 30576, 32856,
     35160, 39232, 42368, 46888, 51024, 55056, 59256, 61664, 66592, 68808, 75376],
    [2984, 4008, 4968, 6456, 7736, 9528, 11448, 13536, 15264, 16992, 19080, 22152, 24496, 28336, 31704, 34008,
     35160, 39232, 43816, 46888, 51024, 55056, 59256, 61664, 66592, 68808, 75376],
    [3112, 4008, 4968, 6456, 7992, 9528, 11448, 13536, 15264, 17568, 19080, 22152, 25456, 28336, 31704, 34008,
     35160, 39232, 43816, 46888, 51024, 55056, 59256, 63776, 66592, 71112, 75376]]"

section \<open>Operations\<close>

fun amc_cqi_loop :: "real \<Rightarrow> nat \<Rightarrow> nat \<Rightarrow> nat" where
  "amc_cqi_loop s cqi 0 = cqi"
| "amc_cqi_loop s cqi (Suc left) =
    (if SpectralEfficiencyForCqi ! (cqi + 1) < s then amc_cqi_loop s (cqi + 1) left else cqi)"

definition GetCqiFromSpectralEfficiency :: "real \<Rightarrow> nat result" where
  "GetCqiFromSpectralEfficiency s =
    rbind (rassert (s \<ge> 0) ''negative spectral efficiency = '') (\<lambda>_. Inr (amc_cqi_loop s 0 15))"

fun amc_mcs_loop :: "real \<Rightarrow> nat \<Rightarrow> nat \<Rightarrow> nat" where
  "amc_mcs_loop s mcs 0 = mcs"
| "amc_mcs_loop s mcs (Suc left) =
    (if SpectralEfficiencyForMcs ! (mcs + 1) \<le> s then amc_mcs_loop s (mcs + 1) left else mcs)"

definition GetSpectralEfficiencyFromCqi :: "int \<Rightarrow> real result" where
  "GetSpectralEfficiencyFromCqi cqi =
    rbind (rassert (cqi \<ge> 0 \<and> cqi \<le> 15) ''CQI must be in [0..15] = '') (\<lambda>_.
    Inr (SpectralEfficiencyForCqi ! nat cqi))"

definition GetMcsFromCqi :: "int \<Rightarrow> nat result" where
  "GetMcsFromCqi cqi =
    rbind (rassert (cqi \<ge> 0 \<and> cqi \<le> 15) ''CQI must be in [0..15] = '') (\<lambda>_.
    Inr (amc_mcs_loop (SpectralEfficiencyForCqi ! nat cqi) 0 28))"

definition amc_tb_size :: "nat list \<Rightarrow> int \<Rightarrow> int \<Rightarrow> int result" where
  "amc_tb_size itbs mcs nprb =
    rbind (rassert (mcs < 29) ''MCS='') (\<lambda>_.
    rbind (rassert (nprb > 0 \<and> nprb < 111) ''NPRB='') (\<lambda>_.
    if mcs < 0 then Inl (Undefined ''negative index'') else Inr (TransportBlockSizeTable ! nat (nprb - 1) ! (itbs ! nat mcs))))"

definition GetDlTbSizeFromMcs :: "int \<Rightarrow> int \<Rightarrow> int result" where
  "GetDlTbSizeFromMcs mcs nprb = amc_tb_size McsToItbsDl mcs nprb"

definition GetUlTbSizeFromMcs :: "int \<Rightarrow> int \<Rightarrow> int result" where
  "GetUlTbSizeFromMcs mcs nprb = amc_tb_size McsToItbsUl mcs nprb"

section \<open>The report of a receiver\<close>

datatype AmcModel = PiroEW2010 | MiErrorModel

text \<open>\<open>PiroEW2010\<close>: from the SINR of one RB; \<open>-1\<close> is no signal.\<close>

definition amc_piro :: "real \<Rightarrow> int list \<Rightarrow> real \<Rightarrow> int list result" where
  "amc_piro ber cqi sinr =
    (if sinr = 0 then Inr (cqi @ [- 1])
     else
       rbind (GetCqiFromSpectralEfficiency (log 2 (1 + sinr / (- ln (5 * ber) / (3 / 2))))) (\<lambda>c. Inr (cqi @ [int c])))"

text \<open>\<open>MiErrorModel\<close>: the first MCS whose error rate is above 10 percent, with the last rate.\<close>

type_synonym amc_tbler = "nat list \<Rightarrow> u16 \<Rightarrow> nat \<Rightarrow> real"

fun amc_mi_loop :: "amc_tbler \<Rightarrow> int \<Rightarrow> nat list \<Rightarrow> real \<Rightarrow> nat \<Rightarrow> nat \<Rightarrow> (nat \<times> real) result" where
  "amc_mi_loop tbler rbgSize rbgMap last_tbler mcs 0 = Inr (mcs, last_tbler)"
| "amc_mi_loop tbler rbgSize rbgMap last_tbler mcs (Suc left) =
    rbind (GetDlTbSizeFromMcs (int mcs) rbgSize) (\<lambda>tb.
    let t = tbler rbgMap (of_int tb div 8) mcs
    in if t > 0.1 then Inr (mcs, t) else amc_mi_loop tbler rbgSize rbgMap t (mcs + 1) left)"

definition amc_rbg_cqi :: "nat \<Rightarrow> real \<Rightarrow> nat" where
  "amc_rbg_cqi mcs tbler =
    (let mcs = (if mcs > 0 then mcs - 1 else mcs)
     in if tbler > 0.1 \<and> mcs = 0 then 0
        else if mcs = 28 then 15
        else amc_cqi_loop (SpectralEfficiencyForMcs ! mcs) 0 15)"

text \<open>One RB: the last one of a group reports for the group.\<close>

definition amc_mi_rb :: "amc_tbler \<Rightarrow> nat \<Rightarrow> nat \<Rightarrow> int list \<times> nat list \<Rightarrow> nat \<Rightarrow> (int list \<times> nat list) result" where
  "amc_mi_rb tbler rbgSize rbs = (\<lambda>(cqi, rbgMap) rbId.
    let rbgMap = rbgMap @ [rbId]
    in if (rbId + 1) mod rbgSize = 0 \<or> rbId + 1 = rbs then
         rbind (amc_mi_loop tbler (int rbgSize) rbgMap 0 0 29) (\<lambda>(mcs, t).
         Inr (cqi @ replicate rbgSize (int (amc_rbg_cqi mcs t)), []))
       else Inr (cqi, rbgMap))"

definition CreateCqiFeedbacks :: "AmcModel \<Rightarrow> real \<Rightarrow> amc_tbler \<Rightarrow> real list \<Rightarrow> nat \<Rightarrow> int list result" where
  "CreateCqiFeedbacks model ber tbler sinr rbgSize =
    (case model of
       PiroEW2010 \<Rightarrow> rfoldl (amc_piro ber) [] sinr
     | MiErrorModel \<Rightarrow>
         rbind (rassert (rbgSize > 0) '' LteAmc-Vienna: RBG size must be greater than 0'') (\<lambda>_.
         rbind (rfoldl (amc_mi_rb tbler rbgSize (length sinr)) ([], []) [0..<length sinr]) (\<lambda>(cqi, rbgMap). Inr cqi)))"

section \<open>Transport blocks\<close>

lemma TransportBlockSizeTable_rows:
  "length TransportBlockSizeTable = 110"
  "list_all (\<lambda>row. length row = 27 \<and> sorted_wrt (\<le>) row \<and> 16 \<le> row ! 0 \<and> row ! 26 \<le> 75376) TransportBlockSizeTable"
  by code_simp+

lemma TransportBlockSizeTable_columns:
  "list_all (\<lambda>(row, row'). list_all2 (\<le>) row row') (zip TransportBlockSizeTable (tl TransportBlockSizeTable))"
  by code_simp

definition amc_itbs_ok :: "nat list \<Rightarrow> bool" where
  "amc_itbs_ok itbs \<longleftrightarrow> length itbs = 29 \<and> sorted_wrt (\<le>) itbs \<and> list_all (\<lambda>i. i < 27) itbs"

lemma Itbs_ok: "amc_itbs_ok McsToItbsDl" "amc_itbs_ok McsToItbsUl"
  by code_simp+

lemma tb_row:
  assumes "n < 110"
  shows "length (TransportBlockSizeTable ! n) = 27" "sorted_wrt (\<le>) (TransportBlockSizeTable ! n)"
    "16 \<le> TransportBlockSizeTable ! n ! 0" "TransportBlockSizeTable ! n ! 26 \<le> 75376"
  using TransportBlockSizeTable_rows assms by (auto simp: list_all_length)

lemma tb_column_step:
  assumes "Suc n < 110" "i < 27"
  shows "TransportBlockSizeTable ! n ! i \<le> TransportBlockSizeTable ! Suc n ! i"
proof -
  define T where "T = TransportBlockSizeTable"
  have len: "length T = 110" by (simp add: T_def TransportBlockSizeTable_rows)
  have "list_all (\<lambda>(row, row'). list_all2 (\<le>) row row') (zip T (tl T))"
    unfolding T_def by (rule TransportBlockSizeTable_columns)
  then have "list_all2 (\<le>) (T ! n) (T ! Suc n)"
    using assms(1) len by (auto simp: list_all_length nth_tl)
  then show ?thesis
    using assms tb_row(1) [of n] by (simp add: list_all2_conv_all_nth T_def)
qed

lemma tb_column:
  assumes "n \<le> n'" "n' < 110" "i < 27"
  shows "TransportBlockSizeTable ! n ! i \<le> TransportBlockSizeTable ! n' ! i"
  using assms
proof (induction n' rule: dec_induct)
  case (step m)
  with tb_column_step [of m i] show ?case by simp
qed simp

lemma sorted_le_nth: "sorted_wrt (\<le>) xs \<Longrightarrow> i \<le> j \<Longrightarrow> j < length xs \<Longrightarrow> xs ! i \<le> xs ! j"
  for xs :: "'a :: linorder list"
  by (simp add: sorted_nth_mono)

lemma amc_tb_size_ok:
  assumes "amc_itbs_ok itbs" "0 \<le> mcs" "mcs < 29" "0 < nprb" "nprb < 111"
  shows "amc_tb_size itbs mcs nprb = Inr (TransportBlockSizeTable ! nat (nprb - 1) ! (itbs ! nat mcs))"
    "itbs ! nat mcs < 27" "nat (nprb - 1) < 110"
  using assms by (simp_all add: amc_tb_size_def amc_itbs_ok_def list_all_length)

lemma amc_tb_size_bounds:
  assumes "amc_itbs_ok itbs" "0 \<le> mcs" "mcs < 29" "0 < nprb" "nprb < 111"
  shows "\<exists>tb. amc_tb_size itbs mcs nprb = Inr tb \<and> 16 \<le> tb \<and> tb \<le> 75376"
proof -
  define i where "i = itbs ! nat mcs"
  define n where "n = nat (nprb - 1)"
  have i: "i < 27" and n: "n < 110" using amc_tb_size_ok [OF assms] by (simp_all add: i_def n_def)
  note row = tb_row [OF n]
  have "TransportBlockSizeTable ! n ! 0 \<le> TransportBlockSizeTable ! n ! i"
    by (rule sorted_le_nth [OF row(2)]) (use i row(1) in simp_all)
  moreover have "TransportBlockSizeTable ! n ! i \<le> TransportBlockSizeTable ! n ! 26"
    by (rule sorted_le_nth [OF row(2)]) (use i row(1) in simp_all)
  ultimately show ?thesis using row amc_tb_size_ok(1) [OF assms] by (simp add: i_def n_def)
qed

lemma amc_tb_size_mono:
  assumes "amc_itbs_ok itbs" "0 \<le> mcs" "mcs \<le> mcs'" "mcs' < 29" "0 < nprb" "nprb \<le> nprb'" "nprb' < 111"
    "amc_tb_size itbs mcs nprb = Inr tb" "amc_tb_size itbs mcs' nprb' = Inr tb'"
  shows "tb \<le> tb'"
proof -
  define i where "i = itbs ! nat mcs"
  define i' where "i' = itbs ! nat mcs'"
  define n where "n = nat (nprb - 1)"
  define n' where "n' = nat (nprb' - 1)"
  have bounds: "i' < 27" "n \<le> n'" "n' < 110" using amc_tb_size_ok [OF assms(1), of mcs' nprb'] assms
    by (simp_all add: i'_def n_def n'_def)
  have "i \<le> i'"
    using assms(1-4) unfolding i_def i'_def amc_itbs_ok_def by (intro sorted_le_nth) auto
  have "TransportBlockSizeTable ! n ! i \<le> TransportBlockSizeTable ! n ! i'"
    by (rule sorted_le_nth) (use bounds \<open>i \<le> i'\<close> tb_row [of n] in simp_all)
  also have "\<dots> \<le> TransportBlockSizeTable ! n' ! i'" by (rule tb_column [OF bounds(2,3,1)])
  finally show ?thesis
    using assms amc_tb_size_ok(1) [OF assms(1), of mcs nprb] amc_tb_size_ok(1) [OF assms(1), of mcs' nprb']
    by (simp add: i_def i'_def n_def n'_def)
qed

text \<open>For every MCS from 0 to 28 and 1 to 110 RBs a transport block has from 16 to 75376 bits, in both directions, and
  neither a higher MCS nor more RBs make it smaller; outside of these ranges the assertions stop the program.\<close>

theorem amc_transport_blocks:
  assumes "itbs = McsToItbsDl \<and> f = GetDlTbSizeFromMcs \<or> itbs = McsToItbsUl \<and> f = GetUlTbSizeFromMcs"
  shows "(\<forall>mcs nprb. 0 \<le> mcs \<and> mcs < 29 \<and> 0 < nprb \<and> nprb < 111 \<longrightarrow>
      (\<exists>tb. f mcs nprb = Inr tb \<and> 16 \<le> tb \<and> tb \<le> 75376)) \<and>
    (\<forall>mcs mcs' nprb nprb' tb tb'. 0 \<le> mcs \<and> mcs \<le> mcs' \<and> mcs' < 29 \<and> 0 < nprb \<and> nprb \<le> nprb' \<and> nprb' < 111 \<and>
      f mcs nprb = Inr tb \<and> f mcs' nprb' = Inr tb' \<longrightarrow> tb \<le> tb') \<and>
    (\<forall>mcs nprb. mcs \<ge> 29 \<or> nprb \<le> 0 \<or> nprb \<ge> 111 \<longrightarrow> (\<exists>msg. f mcs nprb = Inl (Assertion msg)))"
proof -
  have ok: "amc_itbs_ok itbs" and f: "f mcs nprb = amc_tb_size itbs mcs nprb" for mcs nprb
    using assms Itbs_ok by (auto simp: GetDlTbSizeFromMcs_def GetUlTbSizeFromMcs_def)
  show ?thesis
  proof (intro conjI allI impI; (elim conjE)?)
    show "\<exists>tb. f mcs nprb = Inr tb \<and> 16 \<le> tb \<and> tb \<le> 75376"
      if "0 \<le> mcs" "mcs < 29" "0 < nprb" "nprb < 111" for mcs nprb
      unfolding f by (rule amc_tb_size_bounds [OF ok that])
    show "tb \<le> tb'"
      if "0 \<le> mcs" "mcs \<le> mcs'" "mcs' < 29" "0 < nprb" "nprb \<le> nprb'" "nprb' < 111"
        "f mcs nprb = Inr tb" "f mcs' nprb' = Inr tb'" for mcs mcs' nprb nprb' tb tb'
      using that unfolding f by (rule amc_tb_size_mono [OF ok])
  next
    fix mcs nprb :: int
    assume "mcs \<ge> 29 \<or> nprb \<le> 0 \<or> nprb \<ge> (111 :: int)"
    then show "\<exists>msg. f mcs nprb = Inl (Assertion msg)"
      by (cases "mcs < 29") (auto simp: f amc_tb_size_def rassert_def)
  qed
qed

section \<open>CQI and MCS\<close>

text \<open>The efficiencies in percent, on which the two loops compute.\<close>

definition cqi_percent :: "nat list" where
  "cqi_percent = [0, 15, 23, 38, 60, 88, 118, 148, 191, 241, 273, 332, 390, 452, 512, 555]"

definition mcs_percent :: "nat list" where
  "mcs_percent = [15, 19, 23, 31, 38, 49, 60, 74, 88, 103, 118, 133, 148, 170, 191, 216, 241, 257, 273, 303, 332, 361, 390,
    421, 452, 482, 512, 533, 555, 0, 0, 0]"

lemma efficiency_percent:
  "SpectralEfficiencyForCqi = map (\<lambda>n. real n / 100) cqi_percent"
  "SpectralEfficiencyForMcs = map (\<lambda>n. real n / 100) mcs_percent"
  by (simp_all add: SpectralEfficiencyForCqi_def SpectralEfficiencyForMcs_def cqi_percent_def mcs_percent_def)

lemma percent_length: "length cqi_percent = 16" "length mcs_percent = 32"
  by (simp_all add: cqi_percent_def mcs_percent_def)

lemma cqi_nth: "cqi < 16 \<Longrightarrow> SpectralEfficiencyForCqi ! cqi = real (cqi_percent ! cqi) / 100"
  and mcs_nth: "mcs < 32 \<Longrightarrow> SpectralEfficiencyForMcs ! mcs = real (mcs_percent ! mcs) / 100"
  by (simp_all add: efficiency_percent percent_length)

fun up_loop :: "(nat \<Rightarrow> bool) \<Rightarrow> nat \<Rightarrow> nat \<Rightarrow> nat" where
  "up_loop P i 0 = i"
| "up_loop P i (Suc left) = (if P (i + 1) then up_loop P (i + 1) left else i)"

lemma amc_mcs_loop_up:
  "mcs + left \<le> 28 \<Longrightarrow> amc_mcs_loop (real n / 100) mcs left = up_loop (\<lambda>m. mcs_percent ! m \<le> n) mcs left"
  by (induction left arbitrary: mcs) (simp_all add: mcs_nth divide_le_cancel)

lemma amc_cqi_loop_up:
  "cqi + left \<le> 15 \<Longrightarrow> amc_cqi_loop (real n / 100) cqi left = up_loop (\<lambda>c. cqi_percent ! c < n) cqi left"
  by (induction left arbitrary: cqi) (simp_all add: cqi_nth divide_less_cancel)

definition mcs_of_cqi :: "nat list" where
  "mcs_of_cqi = [0, 0, 2, 4, 6, 8, 10, 12, 14, 16, 18, 20, 22, 24, 26, 28]"

definition cqi_of_mcs :: "nat list" where
  "cqi_of_mcs = [0, 1, 1, 2, 2, 3, 3, 4, 4, 5, 5, 6, 6, 7, 7, 8, 8, 9, 9, 10, 10, 11, 11, 12, 12, 13, 13, 14, 14]"

lemma tables_computed:
  "map (\<lambda>c. up_loop (\<lambda>m. mcs_percent ! m \<le> cqi_percent ! c) 0 28) [0..<16] = mcs_of_cqi"
  "map (\<lambda>m. up_loop (\<lambda>c. cqi_percent ! c < mcs_percent ! m) 0 15) [0..<29] = cqi_of_mcs"
  by code_simp+

lemma amc_mcs_of_cqi:
  assumes "cqi < 16"
  shows "amc_mcs_loop (SpectralEfficiencyForCqi ! cqi) 0 28 = mcs_of_cqi ! cqi"
  using assms by (simp add: cqi_nth amc_mcs_loop_up flip: tables_computed(1))

lemma amc_cqi_of_mcs:
  assumes "mcs < 29"
  shows "amc_cqi_loop (SpectralEfficiencyForMcs ! mcs) 0 15 = cqi_of_mcs ! mcs"
  using assms by (simp add: mcs_nth amc_cqi_loop_up flip: tables_computed(2))

lemma GetMcsFromCqi_eq: "0 \<le> cqi \<Longrightarrow> cqi \<le> 15 \<Longrightarrow> GetMcsFromCqi cqi = Inr (mcs_of_cqi ! nat cqi)"
  by (simp add: GetMcsFromCqi_def amc_mcs_of_cqi)

lemma mcs_of_cqi_facts:
  "list_all (\<lambda>c. mcs_of_cqi ! c \<le> 28 \<and> (0 < c \<longrightarrow> mcs_percent ! (mcs_of_cqi ! c) \<le> cqi_percent ! c) \<and>
     list_all (\<lambda>m. mcs_of_cqi ! c < m \<longrightarrow> cqi_percent ! c < mcs_percent ! m) [0..<29]) [0..<16]"
  "list_all (\<lambda>m. cqi_of_mcs ! m < 16 \<and> mcs_of_cqi ! (cqi_of_mcs ! m) \<le> m) [0..<29]"
  by code_simp+

lemma mcs_of_cqi_le: "c < 16 \<Longrightarrow> mcs_of_cqi ! c \<le> 28"
  and cqi_of_mcs_le: "m < 29 \<Longrightarrow> cqi_of_mcs ! m < 16 \<and> mcs_of_cqi ! (cqi_of_mcs ! m) \<le> m"
  using mcs_of_cqi_facts by (auto simp: list_all_iff)

text \<open>The MCS chosen for a CQI is the highest of all 29 whose spectral efficiency is not above that of the CQI, and 0
  when the CQI is 0; a CQI outside of 0 to 15 stops the program.\<close>

theorem amc_best_mcs:
  "(0 \<le> cqi \<and> cqi \<le> 15 \<longrightarrow> (\<exists>mcs. GetMcsFromCqi cqi = Inr mcs \<and> mcs \<le> 28 \<and>
      (0 < cqi \<longrightarrow> SpectralEfficiencyForMcs ! mcs \<le> SpectralEfficiencyForCqi ! nat cqi) \<and>
      (\<forall>m. mcs < m \<and> m \<le> 28 \<longrightarrow> SpectralEfficiencyForCqi ! nat cqi < SpectralEfficiencyForMcs ! m) \<and>
      (cqi = 0 \<longrightarrow> mcs = 0))) \<and>
    (cqi < 0 \<or> 15 < cqi \<longrightarrow> (\<exists>msg. GetMcsFromCqi cqi = Inl (Assertion msg)))"
proof (intro conjI impI)
  assume "0 \<le> cqi \<and> cqi \<le> 15"
  then have cqi: "0 \<le> cqi" "cqi \<le> 15" by simp_all
  define c where "c = nat cqi"
  have c: "c < 16" "0 < cqi \<longleftrightarrow> 0 < c" "cqi = 0 \<longleftrightarrow> c = 0" using cqi by (auto simp: c_def)
  have facts: "mcs_of_cqi ! c \<le> 28" "0 < c \<Longrightarrow> mcs_percent ! (mcs_of_cqi ! c) \<le> cqi_percent ! c"
    "\<And>m. mcs_of_cqi ! c < m \<Longrightarrow> m < 29 \<Longrightarrow> cqi_percent ! c < mcs_percent ! m"
    using mcs_of_cqi_facts(1) c(1) by (auto simp: list_all_iff)
  have "0 < cqi \<longrightarrow> SpectralEfficiencyForMcs ! (mcs_of_cqi ! c) \<le> SpectralEfficiencyForCqi ! c"
    using facts c by (simp add: cqi_nth mcs_nth divide_le_cancel)
  moreover have "SpectralEfficiencyForCqi ! c < SpectralEfficiencyForMcs ! m" if "mcs_of_cqi ! c < m" "m \<le> 28" for m
    using facts(3) [of m] that c by (simp add: cqi_nth mcs_nth divide_less_cancel)
  moreover have "cqi = 0 \<longrightarrow> mcs_of_cqi ! c = 0" by (simp add: c_def mcs_of_cqi_def)
  ultimately show "\<exists>mcs. GetMcsFromCqi cqi = Inr mcs \<and> mcs \<le> 28 \<and>
      (0 < cqi \<longrightarrow> SpectralEfficiencyForMcs ! mcs \<le> SpectralEfficiencyForCqi ! nat cqi) \<and>
      (\<forall>m. mcs < m \<and> m \<le> 28 \<longrightarrow> SpectralEfficiencyForCqi ! nat cqi < SpectralEfficiencyForMcs ! m) \<and>
      (cqi = 0 \<longrightarrow> mcs = 0)"
    using GetMcsFromCqi_eq [OF cqi] facts(1) by (auto simp flip: c_def)
qed (auto simp: GetMcsFromCqi_def rassert_def)

section \<open>Reports\<close>

text \<open>The search stops at the first MCS that fails.\<close>

lemma amc_mi_loop_first:
  assumes "0 < R" "R < 111" "mcs + left = 29"
    "\<And>m tb. m < mcs \<Longrightarrow> GetDlTbSizeFromMcs (int m) R = Inr tb \<Longrightarrow> tbler rbs (of_int tb div 8) m \<le> 0.1"
  shows "\<exists>mcs' t. amc_mi_loop tbler R rbs u mcs left = Inr (mcs', t) \<and> mcs' \<le> 29 \<and> (mcs' < 29 \<longrightarrow> t > 0.1) \<and>
    (\<forall>m tb. m < mcs' \<and> GetDlTbSizeFromMcs (int m) R = Inr tb \<longrightarrow> tbler rbs (of_int tb div 8) m \<le> 0.1)"
  using assms(3,4)
proof (induction left arbitrary: mcs u)
  case (Suc left)
  from Suc.prems(1) obtain tb where tb: "GetDlTbSizeFromMcs (int mcs) R = Inr tb"
    using amc_tb_size_bounds [OF Itbs_ok(1), of "int mcs" R] assms(1,2) by (auto simp: GetDlTbSizeFromMcs_def)
  define t where "t = tbler rbs (of_int tb div 8) mcs"
  show ?case
  proof (cases "t > 0.1")
    case True
    then have "amc_mi_loop tbler R rbs u mcs (Suc left) = Inr (mcs, t)" by (simp add: tb Let_def t_def)
    with True Suc.prems show ?thesis by auto
  next
    case False
    have "tbler rbs (of_int tb' div 8) m \<le> 0.1" if "m < mcs + 1" "GetDlTbSizeFromMcs (int m) R = Inr tb'" for m tb'
    proof (cases "m = mcs")
      case True
      with that(2) tb False show ?thesis by (simp add: t_def)
    qed (use that Suc.prems(2) in auto)
    with Suc.IH [of "mcs + 1" t] Suc.prems(1) False show ?thesis
      by (simp add: tb Let_def flip: t_def)
  qed
qed auto

text \<open>What is reported for one group of RBs: above 0 only for an MCS that decodes.\<close>

definition amc_decodes :: "amc_tbler \<Rightarrow> nat \<Rightarrow> nat list \<Rightarrow> int \<Rightarrow> bool" where
  "amc_decodes tbler R rbs cqi \<longleftrightarrow>
    (case GetMcsFromCqi cqi of Inl e \<Rightarrow> False
     | Inr mcs \<Rightarrow> (case GetDlTbSizeFromMcs (int mcs) (int R) of Inl e \<Rightarrow> False
       | Inr tb \<Rightarrow> tbler rbs (of_int tb div 8) mcs \<le> 0.1))"

lemma amc_group_ok:
  assumes "0 < R" "R < 111"
  shows "\<exists>mcs t. amc_mi_loop tbler (int R) rbs 0 0 29 = Inr (mcs, t) \<and> amc_rbg_cqi mcs t \<le> 15 \<and>
    (0 < amc_rbg_cqi mcs t \<longrightarrow> amc_decodes tbler R rbs (int (amc_rbg_cqi mcs t)))"
proof -
  obtain mcs t where loop: "amc_mi_loop tbler (int R) rbs 0 0 29 = Inr (mcs, t)" "mcs \<le> 29" "mcs < 29 \<longrightarrow> t > 0.1"
    and below: "\<And>m tb. m < mcs \<Longrightarrow> GetDlTbSizeFromMcs (int m) (int R) = Inr tb \<Longrightarrow> tbler rbs (of_int tb div 8) m \<le> 0.1"
    using amc_mi_loop_first [of "int R" 0 29 tbler rbs 0] assms by auto
  define c where "c = amc_rbg_cqi mcs t"
  have c: "c \<le> 15 \<and> (0 < c \<longrightarrow> 0 < mcs \<and> mcs_of_cqi ! c \<le> mcs - 1)"
  proof (cases "mcs \<le> 1")
    case True
    with loop(3) show ?thesis by (simp add: c_def amc_rbg_cqi_def)
  next
    case False
    show ?thesis
    proof (cases "mcs = 29")
      case True
      then show ?thesis by (simp add: c_def amc_rbg_cqi_def mcs_of_cqi_le)
    next
      case other: False
      have m: "mcs - 1 < 29" "0 < mcs" "mcs - 1 \<noteq> 0" "mcs - 1 \<noteq> 28" using False other loop(2) by linarith+
      have "c = cqi_of_mcs ! (mcs - 1)" using m by (simp add: c_def amc_rbg_cqi_def amc_cqi_of_mcs)
      with cqi_of_mcs_le [OF m(1)] m(2) show ?thesis by simp
    qed
  qed
  have "amc_decodes tbler R rbs (int c)" if "0 < c"
  proof -
    have "mcs_of_cqi ! c < 29" "mcs_of_cqi ! c < mcs" using c that mcs_of_cqi_le [of c] by linarith+
    moreover obtain tb where "GetDlTbSizeFromMcs (int (mcs_of_cqi ! c)) (int R) = Inr tb"
      using amc_tb_size_bounds [OF Itbs_ok(1), of "int (mcs_of_cqi ! c)" "int R"] assms \<open>mcs_of_cqi ! c < 29\<close>
      by (auto simp: GetDlTbSizeFromMcs_def)
    ultimately show ?thesis using below c GetMcsFromCqi_eq [of "int c"] by (simp add: amc_decodes_def)
  qed
  with loop(1) c show ?thesis by (auto simp flip: c_def)
qed

text \<open>The loop over the RBs: after \<open>n\<close> of them the complete groups have reported, and the last RBs wait.\<close>

definition amc_group :: "nat \<Rightarrow> nat \<Rightarrow> nat \<Rightarrow> nat list" where
  "amc_group R n g = [g * R..<min n (Suc g * R)]"

definition amc_groups_ok :: "amc_tbler \<Rightarrow> nat \<Rightarrow> nat \<Rightarrow> nat \<Rightarrow> int list \<Rightarrow> bool" where
  "amc_groups_ok tbler R n k cqi \<longleftrightarrow> length cqi = k * R \<and>
    (\<forall>j < k * R. 0 \<le> cqi ! j \<and> cqi ! j \<le> 15 \<and> (0 < cqi ! j \<longrightarrow> amc_decodes tbler R (amc_group R n (j div R)) (cqi ! j)))"

lemma amc_groups_ok_Suc:
  assumes "amc_groups_ok tbler R n k cqi" "0 < R" "0 \<le> c" "c \<le> 15"
    "0 < c \<Longrightarrow> amc_decodes tbler R (amc_group R n k) c"
  shows "amc_groups_ok tbler R n (Suc k) (cqi @ replicate R c)"
proof -
  have len: "length cqi = k * R" using assms(1) by (simp add: amc_groups_ok_def)
  have "0 \<le> (cqi @ replicate R c) ! j \<and> (cqi @ replicate R c) ! j \<le> 15 \<and>
      (0 < (cqi @ replicate R c) ! j \<longrightarrow> amc_decodes tbler R (amc_group R n (j div R)) ((cqi @ replicate R c) ! j))"
    if "j < Suc k * R" for j
  proof (cases "j < k * R")
    case True
    then have "(cqi @ replicate R c) ! j = cqi ! j" by (simp add: nth_append len)
    with True assms(1) show ?thesis by (simp add: amc_groups_ok_def)
  next
    case False
    have "(cqi @ replicate R c) ! j = replicate R c ! (j - k * R)" using False by (simp add: nth_append len)
    also have "\<dots> = c" using that False by simp
    finally have c: "(cqi @ replicate R c) ! j = c" .
    have "j div R = k" using False that by (intro div_nat_eqI) (simp_all add: mult.commute)
    then show ?thesis unfolding c using assms(3-5) by simp
  qed
  then show ?thesis by (simp add: amc_groups_ok_def len)
qed

lemma amc_mi_rbs:
  assumes "0 < R" "R < 111" "n \<le> rbs"
  shows "\<exists>cqi. rfoldl (amc_mi_rb tbler R rbs) ([], []) [0..<n] =
      Inr (cqi, if n = rbs then [] else [n div R * R..<n]) \<and>
    amc_groups_ok tbler R rbs (if n = rbs then (n + R - 1) div R else n div R) cqi"
  using assms(3)
proof (induction n)
  case 0
  then show ?case using assms(1) by (simp add: amc_groups_ok_def)
next
  case (Suc n)
  then obtain cqi where cqi: "rfoldl (amc_mi_rb tbler R rbs) ([], []) [0..<n] = Inr (cqi, [n div R * R..<n])"
    "amc_groups_ok tbler R rbs (n div R) cqi" by auto
  define g where "g = n div R"
  have gR: "g * R \<le> n" "n < Suc g * R"
    using assms(1) by (simp_all add: g_def) (metis add.commute div_mult_mod_eq mod_less_divisor nat_add_left_cancel_less)
  have wait: "[n div R * R..<n] @ [n] = [g * R..<Suc n]" using gR by (simp add: g_def)
  have step: "rfoldl (amc_mi_rb tbler R rbs) ([], []) [0..<Suc n] = amc_mi_rb tbler R rbs (cqi, [n div R * R..<n]) n"
    by (simp add: rfoldl_append cqi(1))
  have full: "(n + 1) mod R = 0 \<longleftrightarrow> Suc n = Suc g * R"
  proof
    assume "(n + 1) mod R = 0"
    then obtain q where q: "Suc n = q * R" by (auto simp: mod_eq_0_iff_dvd dvd_def mult.commute)
    have "g * R < q * R" "q * R < Suc (Suc g) * R"
      unfolding q [symmetric] using gR assms(1) by (linarith, simp)
    then have "g < q" "q < Suc (Suc g)" by (simp_all only: mult_less_cancel2)
    then have "q = Suc g" by linarith
    with q show "Suc n = Suc g * R" by (simp only:)
  next
    assume "Suc n = Suc g * R"
    then show "(n + 1) mod R = 0" by (metis Suc_eq_plus1 mod_mult_self2_is_0)
  qed
  show ?case
  proof (cases "(n + 1) mod R = 0 \<or> n + 1 = rbs")
    case True
    obtain mcs t where loop: "amc_mi_loop tbler (int R) [g * R..<Suc n] 0 0 29 = Inr (mcs, t)"
      "amc_rbg_cqi mcs t \<le> 15"
      "0 < amc_rbg_cqi mcs t \<longrightarrow> amc_decodes tbler R [g * R..<Suc n] (int (amc_rbg_cqi mcs t))"
      by (rule exE [OF amc_group_ok [OF assms(1,2), of tbler "[g * R..<Suc n]"]], elim exE conjE) (rule that)
    have group: "amc_group R rbs g = [g * R..<Suc n]"
    proof -
      have "min rbs (Suc g * R) = Suc n" using True full gR Suc.prems by auto
      then show ?thesis by (simp only: amc_group_def)
    qed
    have "amc_groups_ok tbler R rbs (Suc g) (cqi @ replicate R (int (amc_rbg_cqi mcs t)))"
      by (rule amc_groups_ok_Suc [OF cqi(2) [folded g_def] assms(1)]) (use loop(2,3) in \<open>simp_all add: group\<close>)
    then obtain cqi' where ok: "amc_groups_ok tbler R rbs (Suc g) cqi'"
      and cqi': "amc_mi_rb tbler R rbs (cqi, [n div R * R..<n]) n = Inr (cqi', [])"
      using True loop(1) by (auto simp: amc_mi_rb_def wait simp del: upt_Suc)
    show ?thesis
    proof (cases "Suc n = rbs")
      case True
      have "(Suc n + R - 1) div R = Suc g"
        using gR assms(1) by (intro div_nat_eqI) (simp_all add: mult.commute)
      with True ok cqi' show ?thesis unfolding step by simp
    next
      case other: False
      with True full have "Suc n = Suc g * R" by simp
      then have "Suc n div R = Suc g" "[Suc n div R * R..<Suc n] = []" using assms(1) by (simp_all del: upt_Suc)
      with other ok cqi' show ?thesis unfolding step by simp
    qed
  next
    case False
    have "Suc n < Suc g * R" using False full gR(2) by simp
    then have "Suc n div R = g" using gR(1) by (intro div_nat_eqI) (simp_all add: mult.commute)
    with False cqi(2) gR(1) show ?thesis
      unfolding step by (simp add: amc_mi_rb_def wait flip: g_def)
  qed
qed

text \<open>C8: With 1 to 110 RBs in a group, the report of the error model has one CQI for each RB of every group, the last one
  included when it is not full; it is in 0 to 15, and when it is above 0, the MCS that a scheduler derives from it is one
  at which the error model found the block error rate of this group to be at most 10 percent.\<close>

theorem amc_reports_decodable:
  assumes "0 < R" "R < 111"
  shows "\<exists>cqi. CreateCqiFeedbacks MiErrorModel ber tbler sinr R = Inr cqi \<and>
    length cqi = (length sinr + R - 1) div R * R \<and>
    (\<forall>j < length cqi. 0 \<le> cqi ! j \<and> cqi ! j \<le> 15 \<and>
      (0 < cqi ! j \<longrightarrow> amc_decodes tbler R [j div R * R..<min (length sinr) (Suc (j div R) * R)] (cqi ! j)))"
proof -
  obtain cqi where "rfoldl (amc_mi_rb tbler R (length sinr)) ([], []) [0..<length sinr] = Inr (cqi, [])"
    "amc_groups_ok tbler R (length sinr) ((length sinr + R - 1) div R) cqi"
    using amc_mi_rbs [OF assms, of "length sinr" "length sinr" tbler] by auto
  then show ?thesis
    using assms(1) by (auto simp: CreateCqiFeedbacks_def amc_groups_ok_def amc_group_def)
qed

text \<open>When only MCS 0 decodes, the report is 0, which a scheduler takes for a user out of range.\<close>

lemma amc_mcs_0_reported_as_0: "t > 0.1 \<Longrightarrow> amc_rbg_cqi 1 t = 0"
  by (simp add: amc_rbg_cqi_def)

section \<open>Witnesses\<close>

lemma amc_transport_blocks_witness:
  "\<exists>tb. GetDlTbSizeFromMcs 28 100 = Inr tb \<and> 16 \<le> tb \<and> tb \<le> 75376"
proof -
  have "McsToItbsDl = McsToItbsDl \<and> GetDlTbSizeFromMcs = GetDlTbSizeFromMcs \<or>
    McsToItbsDl = McsToItbsUl \<and> GetDlTbSizeFromMcs = GetUlTbSizeFromMcs" by simp
  from amc_transport_blocks [OF this, THEN conjunct1, rule_format, of 28 100] show ?thesis by simp
qed

lemma amc_best_mcs_witness: "\<exists>mcs. GetMcsFromCqi 7 = Inr mcs \<and> mcs \<le> 28"
proof -
  have "0 \<le> (7 :: int) \<and> (7 :: int) \<le> 15" by simp
  from amc_best_mcs [of 7, THEN conjunct1, rule_format, OF this] show ?thesis by blast
qed

lemma amc_reports_decodable_witness:
  "\<exists>cqi. CreateCqiFeedbacks MiErrorModel 0 (\<lambda>rbs bytes mcs. if mcs < 10 then 0 else 1) [1, 1, 1, 1, 1] 2 = Inr cqi \<and>
    length cqi = 6"
  using amc_reports_decodable [of 2 0 "\<lambda>rbs bytes mcs. if mcs < 10 then 0 else 1" "[1, 1, 1, 1, 1]"] by auto

end
