(* ===== verification/Ns_Scheduler.thy ===== *)
theory Ns_Scheduler
  imports Ns_Users Lte_Amc
begin

text \<open>The downlink of a subframe in the slicing scheduler (\<open>src/contrib/gma/model/ns-pf-ff-mac-scheduler.cc\<close>,
  \<open>DoSchedDlTriggerReq\<close> after the retransmissions).

  Two runs go over the free RBGs.  The first gives the dedicated and prioritized RBGs to the users of their slice, the
  second all that are not dedicated to the users of slices below their maximum; of the users that may have an RBG the one
  with the best ratio of achievable rate and past throughput gets it.  Then every user with RBGs gets one message
  (\<open>DlDci\<close>), and the throughputs are updated.  RBG numbers and the keys of the tables are as in the code; the answers of
  the frequency reuse algorithm, which the eNB chooses, are arguments.\<close>

section \<open>Tables\<close>

record Ffr =
  ffr_IsDlRbgAvailableForUe :: "nat \<Rightarrow> u16 \<Rightarrow> bool"
  ffr_GetTpc :: "u16 \<Rightarrow> u8"

definition ns_TxMode2LayerNum :: "u8 \<Rightarrow> nat" where
  "ns_TxMode2LayerNum txMode =
    (if txMode = 0 then 1 else if txMode = 1 then 1 else if txMode = 2 then 2 else if txMode = 3 then 2
     else if txMode = 4 then 2 else if txMode = 5 then 1 else if txMode = 6 then 1 else 0)"

definition ns_nLayer :: "u16 \<Rightarrow> NsScheduler \<Rightarrow> nat result" where
  "ns_nLayer rnti s =
    (case sm_find rnti (ns_uesTxMode s) of
       None \<Rightarrow> Inl (Fatal ''No Transmission Mode info on user '')
     | Some txMode \<Rightarrow> Inr (ns_TxMode2LayerNum txMode))"

section \<open>The users of a subframe\<close>

record NsTti =
  tt_rbgMap :: "bool list"
  tt_allocation :: "(u16, nat list) smap"
  tt_sliceAllocation :: "(u16, nat list) smap"
  tt_sliceRbgUsage :: "(u32, u32) smap"

definition sm_push :: "'k :: linorder \<Rightarrow> 'a \<Rightarrow> ('k, 'a list) smap \<Rightarrow> ('k, 'a list) smap" where
  "sm_push k x m = sm_set k (case sm_find k m of None \<Rightarrow> [x] | Some xs \<Rightarrow> xs @ [x]) m"

text \<open>Whether the RBG may go to a user of this slice.\<close>

definition ns_may_use :: "nat \<Rightarrow> RBG_TYPE \<times> u32 \<Rightarrow> u32 \<Rightarrow> (u32, SliceInfo) smap \<Rightarrow> (u32, u32) smap \<Rightarrow> bool" where
  "ns_may_use run info sliceId slices usage =
    (if run = 0 then snd info = sliceId
     else
       let maxRbgs = (case sm_find sliceId slices of None \<Rightarrow> 18446744073709551615 | Some i \<Rightarrow> si_maxRbg i);
           usedRbgs = (case sm_find sliceId usage of None \<Rightarrow> 0 | Some n \<Rightarrow> (ucast n :: u64))
       in fst info \<noteq> DEDICATED_RBG \<and> \<not> usedRbgs \<ge> maxRbgs)"

definition ns_sbCqi :: "u16 \<Rightarrow> nat \<Rightarrow> nat \<Rightarrow> NsScheduler \<Rightarrow> u8 list result" where
  "ns_sbCqi rnti i nLayer s =
    (case sm_find rnti (ns_a30CqiRxed s) of None \<Rightarrow> Inr (replicate nLayer 1) | Some sb \<Rightarrow> vec_at sb i)"

definition ns_mcs :: "u8 list \<Rightarrow> nat \<Rightarrow> u8 result" where
  "ns_mcs sbCqi k =
    (if length sbCqi > k then rbind (GetMcsFromCqi (uint (sbCqi ! k))) (\<lambda>mcs. Inr (of_nat mcs)) else Inr 0)"

definition ns_achievableRate :: "int \<Rightarrow> nat \<Rightarrow> u8 list \<Rightarrow> real result" where
  "ns_achievableRate rbgSize nLayer sbCqi =
    rfoldl (\<lambda>rate k. rbind (ns_mcs sbCqi k) (\<lambda>mcs. rbind (GetDlTbSizeFromMcs (uint mcs) rbgSize) (\<lambda>tb.
      Inr (rate + real_of_int (tb div 8) / (1 / 1000))))) 0 [0..<nLayer]"

text \<open>The best user so far: \<open>rcqiMax\<close>, \<open>itMax\<close>, \<open>achievableRateMax\<close>, \<open>flowIdMax\<close>.\<close>

record NsBest =
  bs_rcqi :: real
  bs_rnti :: "u16 option"
  bs_rate :: real
  bs_flow :: LteFlowId

definition ns_rcqi :: "bool \<Rightarrow> real \<Rightarrow> nsPfsFlowPerf \<Rightarrow> real" where
  "ns_rcqi sliced rate f =
    (if sliced then rate / fp_lastAvgSliced f else rate / max 1 (fp_lastAvg f - fp_lastAvgSliced f))"

definition ns_consider_bearer :: "NsScheduler \<Rightarrow> u16 \<Rightarrow> nsPfsFlowPerf \<Rightarrow> bool \<Rightarrow> real result \<Rightarrow> NsBest
    \<Rightarrow> LteFlowId \<times> RlcBufferReq \<Rightarrow> NsBest result" where
  "ns_consider_bearer s rnti f sliced achievableRate best = (\<lambda>(flow, req).
    if fst flow \<noteq> rnti then Inr best
    else
      rbind (case sm_find flow (ns_scheduledBytes s) of None \<Rightarrow> Inr 0 | Some b \<Rightarrow> real_to_u32 b) (\<lambda>scheduledBytes.
      if rb_bytes req > ucast scheduledBytes then
        rbind achievableRate (\<lambda>rate.
        let rcqi = ns_rcqi sliced rate f
        in if rcqi > bs_rcqi best then Inr \<lparr>bs_rcqi = rcqi, bs_rnti = Some rnti, bs_rate = rate, bs_flow = flow\<rparr>
           else Inr best)
      else Inr best))"

definition ns_consider_user :: "Ffr \<Rightarrow> u16 set \<Rightarrow> nat \<Rightarrow> nat \<Rightarrow> NsTti \<Rightarrow> NsScheduler \<times> NsBest
    \<Rightarrow> u16 \<times> nsPfsFlowPerf \<Rightarrow> (NsScheduler \<times> NsBest) result" where
  "ns_consider_user ffr rntiAllocated run i t = (\<lambda>(s, best) (rnti, f).
    let info = ns_GetRbgSliceInfo s (ns_rbgNum s - 1 - int i)
    in if \<not> ns_may_use run info (fp_sliceId f) (ns_sliceInfo s) (tt_sliceRbgUsage t) then Inr (s, best)
       else if \<not> ffr_IsDlRbgAvailableForUe ffr i rnti then Inr (s, best)
       else
         rbind (ns_HarqProcessAvailability rnti s) (\<lambda>available.
         if rnti \<in> rntiAllocated \<or> \<not> available then Inr (s, best)
         else
           rbind (ns_nLayer rnti s) (\<lambda>nLayer.
           rbind (ns_sbCqi rnti i nLayer s) (\<lambda>sbCqi.
           rbind (vec_at sbCqi 0) (\<lambda>cqi1.
           let cqi2 = (if length sbCqi > 1 then sbCqi ! 1 else 0)
           in if cqi1 > 0 \<or> cqi2 > 0 then
                rbind (ns_RefreshSlicePriority s) (\<lambda>s.
                rbind (ns_PriorityAwareLcActivePerFlow rnti s) (\<lambda>lcActive.
                if lcActive > 0 then
                  rbind (rfoldl (ns_consider_bearer s rnti f (snd info = fp_sliceId f)
                    (ns_achievableRate (ns_rbgSize s) nLayer sbCqi)) best (ns_rlcBufferReq s)) (\<lambda>best.
                  Inr (s, best))
                else Inr (s, best)))
              else Inr (s, best))))))"

section \<open>One RBG\<close>

definition ns_best_none :: NsBest where
  "ns_best_none = \<lparr>bs_rcqi = 0, bs_rnti = None, bs_rate = 0, bs_flow = (0, 0)\<rparr>"

definition ns_count_rbs :: "u64 \<Rightarrow> int \<Rightarrow> (u64, int) smap \<Rightarrow> (u64, int) smap" where
  "ns_count_rbs imsi n m = sm_set imsi (case sm_find imsi m of None \<Rightarrow> n | Some k \<Rightarrow> k + n) m"

definition ns_schedule_bytes :: "LteFlowId \<Rightarrow> real \<Rightarrow> NsScheduler \<Rightarrow> NsScheduler" where
  "ns_schedule_bytes flow rate s = s\<lparr>ns_scheduledBytes := sm_set flow
    ((case sm_find flow (ns_scheduledBytes s) of None \<Rightarrow> 0 | Some b \<Rightarrow> b) + rate / 1000) (ns_scheduledBytes s)\<rparr>"

definition ns_assign_rbg :: "nat \<Rightarrow> nat \<Rightarrow> u16 \<Rightarrow> NsBest \<Rightarrow> NsScheduler \<times> NsTti \<Rightarrow> (NsScheduler \<times> NsTti) result" where
  "ns_assign_rbg run i rnti best = (\<lambda>(s, t).
    rbind (ns_RefreshSlicePriority (ns_schedule_bytes (bs_flow best) (bs_rate best) s)) (\<lambda>s.
    (case sm_find rnti (ns_flowStatsDl s) of
       None \<Rightarrow> Inl (Fatal ''cannot find this rinti in the m_flowStatsDl'')
     | Some f \<Rightarrow>
         Inr (s\<lparr>ns_usedDataRbs := ns_count_rbs (ucast (fp_imsi f)) (ns_rbgSize s) (ns_usedDataRbs s)\<rparr>,
           \<lparr>tt_rbgMap = (tt_rbgMap t)[i := True], tt_allocation = sm_push rnti i (tt_allocation t),
            tt_sliceAllocation = (if run = 0 then sm_push rnti i (tt_sliceAllocation t) else tt_sliceAllocation t),
            tt_sliceRbgUsage = sm_set (fp_sliceId f)
              ((case sm_find (fp_sliceId f) (tt_sliceRbgUsage t) of None \<Rightarrow> 0 | Some n \<Rightarrow> n) + 1) (tt_sliceRbgUsage t)\<rparr>))))"

definition ns_allocate_rbg :: "Ffr \<Rightarrow> u16 set \<Rightarrow> nat \<Rightarrow> NsScheduler \<times> NsTti \<Rightarrow> nat \<Rightarrow> (NsScheduler \<times> NsTti) result" where
  "ns_allocate_rbg ffr rntiAllocated run = (\<lambda>(s, t) i.
    rbind (vec_at (tt_rbgMap t) i) (\<lambda>used.
    if used then Inr (s, t)
    else
      rbind (rfoldl (ns_consider_user ffr rntiAllocated run i t) (s, ns_best_none) (ns_flowStatsDl s)) (\<lambda>(s, best).
      (case bs_rnti best of None \<Rightarrow> Inr (s, t) | Some rnti \<Rightarrow> ns_assign_rbg run i rnti best (s, t)))))"

definition ns_allocate_run :: "Ffr \<Rightarrow> u16 set \<Rightarrow> NsScheduler \<times> NsTti \<Rightarrow> nat \<Rightarrow> (NsScheduler \<times> NsTti) result" where
  "ns_allocate_run ffr rntiAllocated = (\<lambda>(s, t) run.
    rfoldl (ns_allocate_rbg ffr rntiAllocated run) (s, t) [0..<nat (ns_rbgNum s)])"

definition ns_allocate :: "Ffr \<Rightarrow> u16 set \<Rightarrow> bool list \<Rightarrow> NsScheduler \<Rightarrow> (NsScheduler \<times> NsTti) result" where
  "ns_allocate ffr rntiAllocated rbgMap s =
    rbind (rfoldl (ns_allocate_run ffr rntiAllocated) (s\<lparr>ns_scheduledBytes := []\<rparr>,
      \<lparr>tt_rbgMap = rbgMap, tt_allocation = [], tt_sliceAllocation = [], tt_sliceRbgUsage = []\<rparr>) [0, 1]) (\<lambda>(s, t).
    Inr (s\<lparr>ns_totalRbs := ns_totalRbs s + ns_rbgSize s * ns_rbgNum s\<rparr>, t))"

section \<open>The message of a user\<close>

definition ns_worstCqi :: "u8 list list option \<Rightarrow> nat list \<Rightarrow> nat \<Rightarrow> u8" where
  "ns_worstCqi sb rbgs j =
    (case sb of
       None \<Rightarrow> 1
     | Some sb \<Rightarrow>
         foldl (\<lambda>w k. if length sb > k then (if length (sb ! k) > j then (if sb ! k ! j < w then sb ! k ! j else w) else 1)
           else 1) 15 rbgs)"

definition ns_rbgMask :: "nat list \<Rightarrow> u32" where
  "ns_rbgMask rbgs = foldl (\<lambda>mask k. mask + push_bit k 1) 0 rbgs"

text \<open>The RBGs that count as sliced: a user with RBGs of the first run counts the smaller of all its RBGs and the
  minimum of its slice.\<close>

definition ns_slicedRbgs :: "u16 \<Rightarrow> u16 \<Rightarrow> NsTti \<Rightarrow> NsScheduler \<Rightarrow> u16 option result" where
  "ns_slicedRbgs rnti n t s =
    (case sm_find rnti (tt_sliceAllocation t) of
       None \<Rightarrow> Inr None
     | Some own \<Rightarrow>
         (case sm_find rnti (ns_flowStatsDl s) of
            None \<Rightarrow> Inl (Undefined ''slice of a default user'')
          | Some f \<Rightarrow>
              (case sm_find (fp_sliceId f) (ns_sliceInfo s) of
                 None \<Rightarrow> Inr (Some (of_nat (length own)))
               | Some info \<Rightarrow> Inr (Some (min n (ucast (si_minRbg info)))))))"

text \<open>One layer: its MCS, the size of its transport block, and the bytes that count as sent and as sliced.\<close>

record NsLayers =
  ly_mcs :: "u8 list"
  ly_tbsSize :: "u16 list"
  ly_bytesTxed :: u32
  ly_slicedBytesTxed :: u32

definition ns_layer :: "u16 \<Rightarrow> nat list \<Rightarrow> NsTti \<Rightarrow> NsScheduler \<Rightarrow> NsLayers \<Rightarrow> nat \<Rightarrow> NsLayers result" where
  "ns_layer rnti rbgs t s l j =
    (let n = (of_nat (length rbgs) :: u16);
         worstCqi = ns_worstCqi (sm_find rnti (ns_a30CqiRxed s)) rbgs j
     in rbind (GetMcsFromCqi (uint worstCqi)) (\<lambda>mcs.
        rbind (GetDlTbSizeFromMcs (uint (of_nat mcs :: u8)) (uint n * ns_rbgSize s)) (\<lambda>tb.
        rbind (ns_slicedRbgs rnti n t s) (\<lambda>sliced.
        rbind (case sliced of None \<Rightarrow> Inr 0
          | Some k \<Rightarrow> GetDlTbSizeFromMcs (uint (of_nat mcs :: u8)) (uint k * ns_rbgSize s)) (\<lambda>slicedTb.
        Inr \<lparr>ly_mcs = ly_mcs l @ [of_nat mcs], ly_tbsSize = ly_tbsSize l @ [of_int (tb div 8)],
          ly_bytesTxed = ly_bytesTxed l + of_int (tb div 8),
          ly_slicedBytesTxed = ly_slicedBytesTxed l + of_int (slicedTb div 8)\<rparr>)))))"

definition ns_pdu_list :: "u8 \<Rightarrow> u16 list \<Rightarrow> u16 \<Rightarrow> RlcPdu list" where
  "ns_pdu_list lcid tbs lcActives = map (\<lambda>tb. \<lparr>pdu_lcid = lcid, pdu_size = tb div lcActives\<rparr>) tbs"

text \<open>One bearer: its PDU for every layer, taken from its queues and kept for retransmission.\<close>

definition ns_store_pdu :: "u16 \<Rightarrow> nat \<Rightarrow> nat \<Rightarrow> RlcPdu \<Rightarrow> NsScheduler \<Rightarrow> NsScheduler result" where
  "ns_store_pdu rnti j harqId pdu s =
    (if \<not> ns_harqOn s then Inr s
     else
       (case sm_find rnti (ns_dlHarqRlcPduBuffer s) of
          None \<Rightarrow> Inl (Fatal ''Unable to find RlcPdcList in HARQ buffer for RNTI '')
        | Some buf \<Rightarrow>
            rbind (vec_at buf j) (\<lambda>layer.
            rbind (vec_at layer harqId) (\<lambda>pdus.
            Inr (s\<lparr>ns_dlHarqRlcPduBuffer :=
              sm_set rnti (buf[j := layer[harqId := pdus @ [pdu]]]) (ns_dlHarqRlcPduBuffer s)\<rparr>)))))"

definition ns_serve_bearer :: "u16 \<Rightarrow> nat \<Rightarrow> u16 list \<Rightarrow> u16 \<Rightarrow> NsScheduler \<times> RlcPdu list list
    \<Rightarrow> LteFlowId \<times> RlcBufferReq \<Rightarrow> (NsScheduler \<times> RlcPdu list list) result" where
  "ns_serve_bearer rnti harqId tbs lcActives = (\<lambda>(s, pdus) ((r, lcid), req).
    if r = rnti \<and> rb_active req then
      let pduList = ns_pdu_list lcid tbs lcActives
      in rbind (rfoldl (\<lambda>s j. ns_store_pdu rnti j harqId (pduList ! j)
             (ns_UpdateDlRlcBufferInfo rnti lcid (pdu_size (pduList ! j)) s)) s [0..<length tbs]) (\<lambda>s.
         Inr (s, pdus @ [pduList]))
    else Inr (s, pdus))"

definition ns_store_dci :: "u16 \<Rightarrow> DlDci \<Rightarrow> NsScheduler \<Rightarrow> NsScheduler result" where
  "ns_store_dci rnti dci s =
    (if \<not> ns_harqOn s then Inr s
     else
       (case sm_find rnti (ns_dlHarqProcessesDciBuffer s) of
          None \<Rightarrow> Inl (Fatal ''Unable to find RNTI entry in DCI HARQ buffer for RNTI '')
        | Some dcis \<Rightarrow>
            rbind (vec_upd dcis (unat (dci_harqProcess dci)) dci) (\<lambda>dcis.
            (case sm_find rnti (ns_dlHarqProcessesTimer s) of
               None \<Rightarrow> Inl (Fatal ''Unable to find HARQ timer for RNTI '')
             | Some timer \<Rightarrow>
                 rbind (vec_upd timer (unat (dci_harqProcess dci)) 0) (\<lambda>timer.
                 Inr (s\<lparr>ns_dlHarqProcessesDciBuffer := sm_set rnti dcis (ns_dlHarqProcessesDciBuffer s),
                   ns_dlHarqProcessesTimer := sm_set rnti timer (ns_dlHarqProcessesTimer s)\<rparr>))))))"

definition ns_note_bytes :: "u16 \<Rightarrow> u32 \<Rightarrow> u32 \<Rightarrow> NsScheduler \<Rightarrow> NsScheduler result" where
  "ns_note_bytes rnti bytesTxed slicedBytesTxed s =
    (case sm_find rnti (ns_flowStatsDl s) of
       None \<Rightarrow> Inl (Fatal '' No Stats for this allocated UE'')
     | Some f \<Rightarrow> Inr (s\<lparr>ns_flowStatsDl := sm_set rnti (f\<lparr>fp_lastTtiBytes := bytesTxed,
         fp_lastTtiSlicedBytes := slicedBytesTxed\<rparr>) (ns_flowStatsDl s)\<rparr>))"

record BuildData =
  bd_rnti :: u16
  bd_dci :: DlDci
  bd_rlcPduList :: "RlcPdu list list"

definition ns_build :: "Ffr \<Rightarrow> NsTti \<Rightarrow> NsScheduler \<times> BuildData list \<Rightarrow> u16 \<times> nat list
    \<Rightarrow> (NsScheduler \<times> BuildData list) result" where
  "ns_build ffr t = (\<lambda>(s, out) (rnti, rbgs).
    rbind (ns_UpdateHarqProcessId rnti s) (\<lambda>(harqId, s).
    rbind (ns_PriorityAwareLcActivePerFlow rnti s) (\<lambda>active.
    let lcActives = (if of_nat active = (0 :: u16) then 65535 else of_nat active)
    in rbind (ns_nLayer rnti s) (\<lambda>nLayer.
       rbind (rfoldl (ns_layer rnti rbgs t s)
         \<lparr>ly_mcs = [], ly_tbsSize = [], ly_bytesTxed = 0, ly_slicedBytesTxed = 0\<rparr> [0..<nLayer]) (\<lambda>l.
       let dci = \<lparr>dci_rnti = rnti, dci_rbBitmap = ns_rbgMask rbgs, dci_resAlloc = 0, dci_tbsSize = ly_tbsSize l,
             dci_mcs = ly_mcs l, dci_ndi = replicate nLayer 1, dci_rv = replicate nLayer 0,
             dci_tpc = ffr_GetTpc ffr rnti, dci_harqProcess = harqId\<rparr>
       in rbind (rfoldl (ns_serve_bearer rnti (unat harqId) (ly_tbsSize l) lcActives) (s, []) (ns_rlcBufferReq s)) (\<lambda>(s, pdus).
          rbind (ns_store_dci rnti dci s) (\<lambda>s.
          rbind (ns_note_bytes rnti (ly_bytesTxed l) (ly_slicedBytesTxed l) s) (\<lambda>s.
          Inr (s, out @ [\<lparr>bd_rnti = rnti, bd_dci = dci, bd_rlcPduList = pdus\<rparr>])))))))))"

section \<open>The rest of the subframe\<close>

definition ns_reset_tti :: "nsPfsFlowPerf \<Rightarrow> nsPfsFlowPerf" where
  "ns_reset_tti f = f\<lparr>fp_lastTtiBytes := 0, fp_lastTtiSlicedBytes := 0\<rparr>"

definition ns_average :: "real \<Rightarrow> real \<Rightarrow> u32 \<Rightarrow> real" where
  "ns_average timeWindow avg bytes =
    (1 - 1 / timeWindow) * avg + 1 / timeWindow * (real_of_int (uint bytes) / (1 / 1000))"

definition ns_update_stats :: "real \<Rightarrow> nsPfsFlowPerf \<Rightarrow> nsPfsFlowPerf" where
  "ns_update_stats timeWindow f = ns_reset_tti (f\<lparr>fp_totalBytes := fp_totalBytes f + ucast (fp_lastTtiBytes f),
    fp_lastAvg := ns_average timeWindow (fp_lastAvg f) (fp_lastTtiBytes f),
    fp_lastAvgSliced := ns_average timeWindow (fp_lastAvgSliced f) (fp_lastTtiSlicedBytes f)\<rparr>)"

definition ns_map_flows :: "(nsPfsFlowPerf \<Rightarrow> nsPfsFlowPerf) \<Rightarrow> NsScheduler \<Rightarrow> NsScheduler" where
  "ns_map_flows g s = s\<lparr>ns_flowStatsDl := map (\<lambda>(k, f). (k, g f)) (ns_flowStatsDl s)\<rparr>"

text \<open>When the retransmissions and the reuse algorithm took all RBGs the function returns at once.\<close>

definition ns_schedule_data :: "Ffr \<Rightarrow> u16 set \<Rightarrow> bool list \<Rightarrow> u16 \<Rightarrow> NsScheduler
    \<Rightarrow> (NsScheduler \<times> BuildData list) result" where
  "ns_schedule_data ffr rntiAllocated rbgMap rbgAllocatedNum s =
    (if uint rbgAllocatedNum = ns_rbgNum s then Inr (s, [])
     else
       rbind (ns_allocate ffr rntiAllocated rbgMap s) (\<lambda>(s, t).
       rbind (rfoldl (ns_build ffr t) (ns_map_flows ns_reset_tti s, []) (tt_allocation t)) (\<lambda>(s, out).
       Inr (ns_map_flows (ns_update_stats (ns_timeWindow s)) s, out))))"

end
