(* ===== verification/Ns_Allocation.thy ===== *)
theory Ns_Allocation
  imports Ns_Scheduler
begin

text \<open>What the allocation of a subframe guarantees (\<open>Ns_Scheduler\<close>): it does not fail for users that are set up, and
  the RBGs it gives away were free, each goes to one user, the dedicated ones only to users of their slice, and no slice
  gets more than its maximum.

  \<open>ns_ready\<close> collects what the configuration and the reports of the users establish.\<close>

section \<open>Users that can be served\<close>

definition ns_user_ok :: "NsScheduler \<Rightarrow> u16 \<Rightarrow> nsPfsFlowPerf \<Rightarrow> bool" where
  "ns_user_ok s rnti f \<longleftrightarrow> ns_harq_ok rnti s \<and>
    (case sm_find rnti (ns_uesTxMode s) of None \<Rightarrow> False | Some txMode \<Rightarrow> txMode \<le> 6) \<and>
    (case sm_find rnti (ns_a30CqiRxed s) of None \<Rightarrow> True
     | Some sb \<Rightarrow> nat (ns_rbgNum s) \<le> length sb \<and> (\<forall>cqis \<in> set sb. cqis \<noteq> [] \<and> (\<forall>c \<in> set cqis. c \<le> 15)))"

definition ns_ready :: "NsScheduler \<Rightarrow> bool" where
  "ns_ready s \<longleftrightarrow> uint (ns_dlBandwidth s) < 110 \<and> ns_slices_ok s \<and> sm_wf (ns_flowStatsDl s) \<and> ns_users_known s \<and>
    (\<forall>(rnti, f) \<in> set (ns_flowStatsDl s). ns_user_ok s rnti f)"

lemma ns_ready_core:
  assumes "ns_core s = ns_core s'" "ns_users_known s = ns_users_known s'"
  shows "ns_ready s = ns_ready s'"
  unfolding ns_ready_def ns_user_ok_def
  by (simp only: ns_core_fields [OF assms(1)] ns_core_rbgs [OF assms(1)] assms(2))

lemma ns_users_known_core:
  assumes "ns_core s = ns_core s'"
  shows "ns_users_known s = ns_users_known s'"
  unfolding ns_users_known_def by (simp only: ns_core_fields [OF assms])

lemma ns_rbgSize_range:
  assumes "uint (ns_dlBandwidth s) < 110"
  shows "1 \<le> ns_rbgSize s" "ns_rbgSize s \<le> 4"
proof -
  have "filter (\<lambda>i. uint (ns_dlBandwidth s) < PfType0AllocationRbg ! i) [0..<4] \<noteq> []"
    using assms by (auto simp: filter_empty_conv PfType0AllocationRbg_def intro!: bexI [of _ 3])
  then obtain i is' where i: "filter (\<lambda>i. uint (ns_dlBandwidth s) < PfType0AllocationRbg ! i) [0..<4] = i # is'"
    by (auto simp: neq_Nil_conv)
  then have "i \<in> set (filter (\<lambda>i. uint (ns_dlBandwidth s) < PfType0AllocationRbg ! i) [0..<4])" by simp
  then have "i < 4" by (simp only: set_filter mem_Collect_eq set_upt atLeastLessThan_iff)
  with i show "1 \<le> ns_rbgSize s" "ns_rbgSize s \<le> 4" by (simp_all add: ns_rbgSize_def ns_GetRbgSize_def)
qed

section \<open>The rate of a user\<close>

definition ns_max_rate :: real where "ns_max_rate = 18844000"

lemma ns_layer_rate:
  assumes "\<forall>c \<in> set cqis. c \<le> (15 :: u8)" "1 \<le> R" "R \<le> 4"
  shows "\<exists>mcs tb. ns_mcs cqis k = Inr mcs \<and> GetDlTbSizeFromMcs (uint mcs) R = Inr tb \<and> 16 \<le> tb \<and> tb \<le> 75376"
proof -
  have "\<exists>n. ns_mcs cqis k = Inr (of_nat n) \<and> n \<le> 28"
  proof (cases "length cqis > k")
    case True
    then have "cqis ! k \<le> 15" using assms(1) by simp
    then have "unat (cqis ! k) \<le> 15" using word_le_nat_alt [of "cqis ! k" 15] by simp
    moreover define c where "c = unat (cqis ! k)"
    ultimately have "uint (cqis ! k) = int c" "c < 16" by simp_all
    then show ?thesis
      using True GetMcsFromCqi_eq [of "int c"] mcs_of_cqi_le [of c] by (auto simp: ns_mcs_def simp del: uint_nat)
  next
    case False
    then show ?thesis by (intro exI [of _ 0]) (simp add: ns_mcs_def)
  qed
  then obtain n where n: "ns_mcs cqis k = Inr (of_nat n)" "n \<le> 28" by blast
  have "uint (of_nat n :: u8) = int n" using n(2) by (simp add: uint_nat unat_of_nat)
  with n amc_tb_size_bounds [OF Itbs_ok(1), of "int n" R] assms(2,3) show ?thesis
    by (auto simp: GetDlTbSizeFromMcs_def simp del: uint_nat)
qed

lemma ns_achievableRate_ok:
  assumes "\<forall>c \<in> set cqis. c \<le> (15 :: u8)" "1 \<le> R" "R \<le> 4" "nLayer \<le> 2"
  shows "\<exists>rate. ns_achievableRate R nLayer cqis = Inr rate \<and> 0 \<le> rate \<and> rate \<le> ns_max_rate"
proof -
  define g where "g = (\<lambda>(rate :: real) k. rbind (ns_mcs cqis k) (\<lambda>mcs. rbind (GetDlTbSizeFromMcs (uint mcs) R)
    (\<lambda>tb. Inr (rate + real_of_int (tb div 8) / (1 / 1000)))))"
  have step: "\<exists>r'. g r k = Inr r' \<and> r \<le> r' \<and> r' \<le> r + 9422000" for r k
  proof -
    obtain mcs tb where tb: "ns_mcs cqis k = Inr mcs" "GetDlTbSizeFromMcs (uint mcs) R = Inr tb" "16 \<le> tb" "tb \<le> 75376"
      using ns_layer_rate [OF assms(1-3)] by blast
    define n where "n = tb div 8"
    have "0 \<le> n" "n \<le> 9422" using tb(3,4) by (simp_all add: n_def)
    then have "0 \<le> real_of_int n" "real_of_int n \<le> 9422" by simp_all
    with tb(1,2) show ?thesis by (simp add: g_def flip: n_def)
  qed
  have "\<exists>r'. rfoldl g r ks = Inr r' \<and> r \<le> r' \<and> r' \<le> r + 9422000 * real (length ks)" for r ks
  proof (induction ks arbitrary: r)
    case (Cons k ks)
    obtain r1 where r1: "g r k = Inr r1" "r \<le> r1" "r1 \<le> r + 9422000" using step by blast
    obtain r2 where r2: "rfoldl g r1 ks = Inr r2" "r1 \<le> r2" "r2 \<le> r1 + 9422000 * real (length ks)" using Cons by blast
    then have "rfoldl g r (k # ks) = Inr r2" by (simp add: r1)
    moreover have "r \<le> r2" "r2 \<le> r + 9422000 * real (length (k # ks))" using r1 r2 by (simp_all add: algebra_simps)
    ultimately show ?case by blast
  qed simp
  from this [of 0 "[0..<nLayer]"] obtain r where r: "rfoldl g 0 [0..<nLayer] = Inr r" "0 \<le> r" "r \<le> 9422000 * real nLayer"
    by auto
  have "9422000 * real nLayer \<le> ns_max_rate" using assms(4) by (simp add: ns_max_rate_def)
  with r(1,3) have "rfoldl g 0 [0..<nLayer] = Inr r" "r \<le> ns_max_rate" by linarith+
  with r(2) show ?thesis unfolding ns_achievableRate_def g_def by blast
qed

section \<open>The best user\<close>

lemma ns_consider_bearer_ok:
  assumes "ns_bytes_in M s" "M < 4294967296" "achievable = Inr rate"
  shows "\<exists>best'. ns_consider_bearer s rnti f sliced achievable best x = Inr best' \<and>
    (best' = best \<or> bs_rnti best' = Some rnti \<and> bs_rate best' = rate)"
proof -
  obtain flow req where x: "x = (flow, req)" by (cases x)
  have "\<exists>n. (case sm_find flow (ns_scheduledBytes s) of None \<Rightarrow> Inr 0 | Some b \<Rightarrow> real_to_u32 b) = Inr n"
  proof (cases "sm_find flow (ns_scheduledBytes s)")
    case (Some b)
    with assms(1) have "0 \<le> b" "b \<le> M" unfolding ns_bytes_in_def by blast+
    with assms(2) Some show ?thesis by (simp add: real_to_u32_def)
  qed simp
  with assms(3) show ?thesis by (auto simp: x ns_consider_bearer_def Let_def)
qed

text \<open>What is known of the best user: the conditions of the loop.\<close>

definition ns_best_ok :: "NsScheduler \<Rightarrow> Ffr \<Rightarrow> u16 set \<Rightarrow> nat \<Rightarrow> nat \<Rightarrow> NsTti \<Rightarrow> NsBest \<Rightarrow> bool" where
  "ns_best_ok s ffr ra run i t best \<longleftrightarrow> 0 \<le> bs_rate best \<and> bs_rate best \<le> ns_max_rate \<and>
    (\<forall>rnti. bs_rnti best = Some rnti \<longrightarrow> rnti \<notin> ra \<and> ffr_IsDlRbgAvailableForUe ffr i rnti \<and>
      ns_HarqProcessAvailability rnti s = Inr True \<and>
      (\<exists>f. (rnti, f) \<in> set (ns_flowStatsDl s) \<and>
        ns_may_use run (ns_GetRbgSliceInfo s (ns_rbgNum s - 1 - int i)) (fp_sliceId f) (ns_sliceInfo s)
          (tt_sliceRbgUsage t)))"

lemma ns_best_none_ok: "ns_best_ok s ffr ra run i t ns_best_none"
  by (simp add: ns_best_ok_def ns_best_none_def ns_max_rate_def)

lemma ns_consider_user_ok:
  assumes ready: "ns_ready s0" and i: "i < nat (ns_rbgNum s0)" and user: "(rnti, f) \<in> set (ns_flowStatsDl s0)"
    and M: "M < 4294967296" and core: "ns_core s = ns_core s0" and bytes: "ns_bytes_in M s"
    and best: "ns_best_ok s0 ffr ra run i t best"
  shows "\<exists>s' best'. ns_consider_user ffr ra run i t (s, best) (rnti, f) = Inr (s', best') \<and>
    ns_core s' = ns_core s0 \<and> ns_bytes_in M s' \<and> ns_best_ok s0 ffr ra run i t best'"
proof -
  note fields = ns_core_fields [OF core] ns_core_rbgs [OF core]
  have ok: "ns_user_ok s0 rnti f" and known: "ns_users_known s" and size: "1 \<le> ns_rbgSize s" "ns_rbgSize s \<le> 4"
    using ready user ns_users_known_core [OF core] ns_rbgSize_range [of s0] fields(14) by (auto simp: ns_ready_def)
  obtain available where av: "ns_HarqProcessAvailability rnti s = Inr available"
    using ns_HarqProcessAvailability_ok [of rnti s] ok fields(17) by (auto simp: ns_user_ok_def)
  have "ns_HarqProcessAvailability rnti s0 = Inr available"
    using av unfolding ns_HarqProcessAvailability_def ns_harq_find_def by (simp only: fields)
  then have av0: "available \<Longrightarrow> ns_HarqProcessAvailability rnti s0 = Inr True" by simp
  obtain nLayer where layer: "ns_nLayer rnti s = Inr nLayer" "1 \<le> nLayer" "nLayer \<le> 2"
  proof -
    obtain m where m: "sm_find rnti (ns_uesTxMode s) = Some m" "m \<le> 6"
      using ok fields(6) by (auto simp: ns_user_ok_def split: option.splits)
    have "m = 0 \<or> m = 1 \<or> m = 2 \<or> m = 3 \<or> m = 4 \<or> m = 5 \<or> m = 6" using m(2) by unat_arith
    then have "1 \<le> ns_TxMode2LayerNum m \<and> ns_TxMode2LayerNum m \<le> 2" by (auto simp: ns_TxMode2LayerNum_def)
    with m(1) show thesis by (intro that [of "ns_TxMode2LayerNum m"]) (simp_all add: ns_nLayer_def)
  qed
  obtain cqis where cqis: "ns_sbCqi rnti i nLayer s = Inr cqis" "cqis \<noteq> []" "\<forall>c \<in> set cqis. c \<le> 15"
  proof (cases "sm_find rnti (ns_a30CqiRxed s)")
    case None
    with layer(2) show thesis by (intro that [of "replicate nLayer 1"]) (auto simp: ns_sbCqi_def)
  next
    case (Some sb)
    with ok fields(5) i have "i < length sb" "\<forall>cqis \<in> set sb. cqis \<noteq> [] \<and> (\<forall>c \<in> set cqis. c \<le> 15)"
      by (auto simp: ns_user_ok_def)
    with Some show thesis by (intro that [of "sb ! i"]) (auto simp: ns_sbCqi_def)
  qed
  obtain rate where rate: "ns_achievableRate (ns_rbgSize s) nLayer cqis = Inr rate" "0 \<le> rate" "rate \<le> ns_max_rate"
    using ns_achievableRate_ok [OF cqis(3) size layer(3)] by blast
  obtain s1 where s1: "ns_RefreshSlicePriority s = Inr s1" "ns_core s1 = ns_core s" "ns_bytes_in M s1"
    using ns_RefreshSlicePriority_ok [OF known bytes] by blast
  have flow1: "ns_flowStatsDl s1 = ns_flowStatsDl s0" using ns_core_fields(1) [OF s1(2)] fields(1) by simp
  have size1: "ns_rbgSize s1 = ns_rbgSize s" by (rule ns_core_rbgs(1) [OF s1(2)])
  obtain n where n: "ns_PriorityAwareLcActivePerFlow rnti s1 = Inr n"
    using ns_PriorityAware_ok [of rnti s1] user by (force simp: flow1 sm_has_iff sm_keys_def)
  define info where "info = ns_GetRbgSliceInfo s0 (ns_rbgNum s0 - 1 - int i)"
  have info: "ns_GetRbgSliceInfo s (ns_rbgNum s - 1 - int i) = info" by (simp only: info_def fields)
  define sliced where "sliced = (snd info = fp_sliceId f)"
  define good where "good \<longleftrightarrow> ns_may_use run info (fp_sliceId f) (ns_sliceInfo s0) (tt_sliceRbgUsage t) \<and>
    ffr_IsDlRbgAvailableForUe ffr i rnti \<and> rnti \<notin> ra \<and> available"
  have "\<exists>best'. rfoldl (ns_consider_bearer s1 rnti f sliced (Inr rate)) best (ns_rlcBufferReq s1) = Inr best' \<and>
      (good \<longrightarrow> ns_best_ok s0 ffr ra run i t best')"
  proof (rule rfoldl_total)
    show "good \<longrightarrow> ns_best_ok s0 ffr ra run i t best" using best by simp
  next
    fix b x
    assume b: "good \<longrightarrow> ns_best_ok s0 ffr ra run i t b"
    obtain b' where b': "ns_consider_bearer s1 rnti f sliced (Inr rate) b x = Inr b'"
      "b' = b \<or> bs_rnti b' = Some rnti \<and> bs_rate b' = rate"
      using ns_consider_bearer_ok [OF s1(3) M refl] by blast
    have "good \<longrightarrow> ns_best_ok s0 ffr ra run i t b'"
      using b'(2)
    proof
      assume new: "bs_rnti b' = Some rnti \<and> bs_rate b' = rate"
      show ?thesis
        unfolding ns_best_ok_def good_def info_def using new rate(2,3) user av0 by (simp only: option.inject) blast
    qed (use b in simp)
    with b'(1) show "\<exists>b'. ns_consider_bearer s1 rnti f sliced (Inr rate) b x = Inr b' \<and>
        (good \<longrightarrow> ns_best_ok s0 ffr ra run i t b')" by blast
  qed
  then obtain best1 where best1:
    "rfoldl (ns_consider_bearer s1 rnti f sliced (Inr rate)) best (ns_rlcBufferReq s1) = Inr best1"
    "good \<longrightarrow> ns_best_ok s0 ffr ra run i t best1" by blast
  have core1: "ns_core s1 = ns_core s0" using s1(2) core by simp
  show ?thesis
  proof (cases "good \<and> (cqis ! 0 > 0 \<or> (if length cqis > 1 then cqis ! 1 else 0) > 0) \<and> n > 0")
    case True
    then have "ns_consider_user ffr ra run i t (s, best) (rnti, f) = Inr (s1, best1)"
      unfolding ns_consider_user_def prod.case info fields(2) Let_def
      using av layer(1) cqis(1,2) s1(1) n best1(1) rate(1)
      by (simp add: size1 good_def flip: sliced_def)
    with True s1 core1 best1(2) show ?thesis by blast
  next
    case False
    have "ns_consider_user ffr ra run i t (s, best) (rnti, f) = Inr (s, best) \<or>
      ns_consider_user ffr ra run i t (s, best) (rnti, f) = Inr (s1, best)"
      unfolding ns_consider_user_def prod.case info fields(2) Let_def
      using False av layer(1) cqis(1,2) s1(1) n by (auto simp: good_def split: if_splits)
    with core bytes best s1 core1 show ?thesis by blast
  qed
qed

section \<open>Owners\<close>

definition tt_rbgs :: "u16 \<Rightarrow> NsTti \<Rightarrow> nat list" where
  "tt_rbgs rnti t = (case sm_find rnti (tt_allocation t) of None \<Rightarrow> [] | Some rbgs \<Rightarrow> rbgs)"

definition tt_used :: "u32 \<Rightarrow> NsTti \<Rightarrow> u32" where
  "tt_used k t = (case sm_find k (tt_sliceRbgUsage t) of None \<Rightarrow> 0 | Some n \<Rightarrow> n)"

definition ns_slice_of :: "NsScheduler \<Rightarrow> u16 \<Rightarrow> u32 option" where
  "ns_slice_of s rnti = map_option fp_sliceId (sm_find rnti (ns_flowStatsDl s))"

text \<open>The RBGs of the users of a slice.\<close>

definition ns_slice_rbgs :: "NsScheduler \<Rightarrow> u32 \<Rightarrow> NsTti \<Rightarrow> nat set" where
  "ns_slice_rbgs s k t = {i. \<exists>rnti. i \<in> set (tt_rbgs rnti t) \<and> ns_slice_of s rnti = Some k}"

definition ns_info :: "NsScheduler \<Rightarrow> nat \<Rightarrow> RBG_TYPE \<times> u32" where
  "ns_info s i = ns_GetRbgSliceInfo s (ns_rbgNum s - 1 - int i)"

definition ns_tti_ok :: "NsScheduler \<Rightarrow> Ffr \<Rightarrow> u16 set \<Rightarrow> bool list \<Rightarrow> NsTti \<Rightarrow> bool" where
  "ns_tti_ok s ffr ra rbgMap t \<longleftrightarrow> length (tt_rbgMap t) = nat (ns_rbgNum s) \<and>
    (\<forall>i < nat (ns_rbgNum s). tt_rbgMap t ! i \<longleftrightarrow> rbgMap ! i \<or> (\<exists>rnti. i \<in> set (tt_rbgs rnti t))) \<and>
    (\<forall>rnti. distinct (tt_rbgs rnti t)) \<and>
    (\<forall>rnti rnti' i. i \<in> set (tt_rbgs rnti t) \<and> i \<in> set (tt_rbgs rnti' t) \<longrightarrow> rnti = rnti') \<and>
    (\<forall>rnti i. i \<in> set (tt_rbgs rnti t) \<longrightarrow> i < nat (ns_rbgNum s) \<and> \<not> rbgMap ! i \<and> rnti \<notin> ra \<and>
      ffr_IsDlRbgAvailableForUe ffr i rnti \<and> ns_HarqProcessAvailability rnti s = Inr True \<and> ns_slice_of s rnti \<noteq> None \<and>
      (fst (ns_info s i) = DEDICATED_RBG \<longrightarrow> ns_slice_of s rnti = Some (snd (ns_info s i)))) \<and>
    (\<forall>k. unat (tt_used k t) = card (ns_slice_rbgs s k t)) \<and>
    (\<forall>rnti own. sm_find rnti (tt_sliceAllocation t) = Some own \<longrightarrow> own \<noteq> [] \<and> length own \<le> length (tt_rbgs rnti t) \<and>
      (\<exists>i < nat (ns_rbgNum s). ns_slice_of s rnti = Some (snd (ns_info s i)))) \<and>
    sm_wf (tt_allocation t) \<and> (\<forall>rnti. sm_find rnti (tt_allocation t) \<noteq> Some [])"

text \<open>The limits of the slices: in the first run their own RBGs, in the second their maximum.\<close>

definition ns_own_only :: "NsScheduler \<Rightarrow> NsTti \<Rightarrow> bool" where
  "ns_own_only s t \<longleftrightarrow> (\<forall>k. \<forall>i \<in> ns_slice_rbgs s k t. snd (ns_info s i) = k)"

definition ns_below_max :: "NsScheduler \<Rightarrow> NsTti \<Rightarrow> bool" where
  "ns_below_max s t \<longleftrightarrow> (\<forall>(k, info) \<in> set (ns_sliceInfo s). card (ns_slice_rbgs s k t) \<le> unat (si_maxRbg info))"

definition ns_limit :: "nat \<Rightarrow> NsScheduler \<Rightarrow> NsTti \<Rightarrow> bool" where
  "ns_limit run s t \<longleftrightarrow> (if run = 0 then ns_own_only s t else ns_below_max s t)"

lemma ns_own_count:
  assumes "ns_slices_ok s" "(k, info) \<in> set (ns_sliceInfo s)"
  shows "card {i. i < nat (ns_rbgNum s) \<and> snd (ns_info s i) = k} = unat (si_dedicatedRbg info) + unat (si_prioritizedRbg info)"
proof -
  define n where "n = nat (ns_rbgNum s)"
  define get where "get = (\<lambda>r. ns_GetRbgSliceInfo s (int r))"
  define A where "A = (\<lambda>type. {r. r < n \<and> get r = (type, k)})"
  have card: "card (A type) = ns_rbgs_of s type k" for type
    using distinct_length_filter [of "[0..<n]" "\<lambda>r. get r = (type, k)"]
    by (simp add: ns_rbgs_of_def A_def n_def get_def Int_def conj_commute)
  have get: "ns_info s i = get (n - 1 - i)" if "i < n" for i
  proof -
    have "ns_rbgNum s - 1 - int i = int (n - 1 - i)" using that unfolding n_def by linarith
    then show ?thesis by (simp only: ns_info_def get_def)
  qed
  have "{i. i < n \<and> snd (ns_info s i) = k} = (\<lambda>r. n - 1 - r) ` {r. r < n \<and> snd (get r) = k}"
  proof (intro equalityI subsetI)
    fix i
    assume "i \<in> {i. i < n \<and> snd (ns_info s i) = k}"
    then have "n - 1 - i \<in> {r. r < n \<and> snd (get r) = k}" "i = n - 1 - (n - 1 - i)" by (auto simp: get)
    then show "i \<in> (\<lambda>r. n - 1 - r) ` {r. r < n \<and> snd (get r) = k}" by blast
  next
    fix i
    assume "i \<in> (\<lambda>r. n - 1 - r) ` {r. r < n \<and> snd (get r) = k}"
    then obtain r where "r < n" "snd (get r) = k" "i = n - 1 - r" by blast
    then have "i < n" "n - 1 - i = r" by linarith+
    with \<open>snd (get r) = k\<close> show "i \<in> {i. i < n \<and> snd (ns_info s i) = k}" by (simp add: get)
  qed
  moreover have "inj_on (\<lambda>r. n - 1 - r) {r. r < n \<and> snd (get r) = k}" by (auto simp: inj_on_def)
  moreover have "{r. r < n \<and> snd (get r) = k} = A DEDICATED_RBG \<union> A PRIORITIZED_RBG \<union> A SHARED_RBG"
  proof -
    have "get r = (type, k) \<longleftrightarrow> fst (get r) = type \<and> snd (get r) = k" for r type by (cases "get r") auto
    moreover have "fst (get r) = DEDICATED_RBG \<or> fst (get r) = PRIORITIZED_RBG \<or> fst (get r) = SHARED_RBG" for r
      by (cases "fst (get r)") auto
    ultimately show ?thesis unfolding A_def by blast
  qed
  moreover have "card (A DEDICATED_RBG \<union> A PRIORITIZED_RBG \<union> A SHARED_RBG) =
      card (A DEDICATED_RBG) + card (A PRIORITIZED_RBG) + card (A SHARED_RBG)"
  proof -
    have fin: "finite (A type)" for type by (simp add: A_def)
    have "A DEDICATED_RBG \<inter> A PRIORITIZED_RBG = {}" "(A DEDICATED_RBG \<union> A PRIORITIZED_RBG) \<inter> A SHARED_RBG = {}"
      by (auto simp: A_def)
    then show ?thesis by (simp add: card_Un_disjoint fin)
  qed
  ultimately show ?thesis
    using ns_rbgs_of_eq [OF assms] by (simp add: card_image card flip: n_def)
qed

lemma ns_slice_rbgs_bound:
  assumes "ns_tti_ok s ffr ra rbgMap t"
  shows "ns_slice_rbgs s k t \<subseteq> {..<nat (ns_rbgNum s)}" "finite (ns_slice_rbgs s k t)"
    "card (ns_slice_rbgs s k t) \<le> 255"
proof -
  show sub: "ns_slice_rbgs s k t \<subseteq> {..<nat (ns_rbgNum s)}"
    using assms unfolding ns_tti_ok_def ns_slice_rbgs_def by blast
  then show "finite (ns_slice_rbgs s k t)" by (rule finite_subset) simp
  have "card (ns_slice_rbgs s k t) \<le> nat (ns_rbgNum s)" using card_mono [OF _ sub] by simp
  with ns_rbgNum_le [of s] show "card (ns_slice_rbgs s k t) \<le> 255" by linarith
qed

lemma ns_own_below_max:
  assumes "ns_slices_ok s" "ns_tti_ok s ffr ra rbgMap t" "ns_own_only s t"
  shows "ns_below_max s t"
  unfolding ns_below_max_def
proof (clarify)
  fix k info
  assume slice: "(k, info) \<in> set (ns_sliceInfo s)"
  have "ns_slice_rbgs s k t \<subseteq> {i. i < nat (ns_rbgNum s) \<and> snd (ns_info s i) = k}"
    using ns_slice_rbgs_bound(1) [OF assms(2)] assms(3) unfolding ns_own_only_def by blast
  then have "card (ns_slice_rbgs s k t) \<le> unat (si_dedicatedRbg info) + unat (si_prioritizedRbg info)"
    unfolding ns_own_count [OF assms(1) slice, symmetric] by (rule card_mono [rotated]) simp
  moreover have "ns_slice_ok k info" using assms(1) slice by (auto simp: ns_slices_ok_def ns_slices_wf_def)
  from ns_slice_ok_min(2) [OF this]
  have "unat (si_maxRbg info) = unat (si_dedicatedRbg info) + unat (si_prioritizedRbg info) + unat (si_sharedRbg info)"
    by (simp only: uint_nat of_nat_add [symmetric] of_nat_eq_iff)
  ultimately show "card (ns_slice_rbgs s k t) \<le> unat (si_maxRbg info)" by linarith
qed

lemma unat_u32_u64: "unat (ucast (x :: u32) :: u64) = unat x"
proof -
  have "unat x < 4294967296" using unsigned_less [of x, where 'a = nat] by simp
  then have "unat x < 18446744073709551616" by linarith
  then have "take_bit 64 (unat x) = unat x" by (simp only: take_bit_eq_mod) simp
  then show ?thesis unfolding unsigned_ucast_eq by simp
qed

section \<open>One RBG is given away\<close>

definition ns_give :: "nat \<Rightarrow> nat \<Rightarrow> u16 \<Rightarrow> u32 \<Rightarrow> NsTti \<Rightarrow> NsTti" where
  "ns_give run i rnti k t = \<lparr>tt_rbgMap = (tt_rbgMap t)[i := True], tt_allocation = sm_push rnti i (tt_allocation t),
    tt_sliceAllocation = (if run = 0 then sm_push rnti i (tt_sliceAllocation t) else tt_sliceAllocation t),
    tt_sliceRbgUsage = sm_set k (tt_used k t + 1) (tt_sliceRbgUsage t)\<rparr>"

lemma ns_give_rbgs: "tt_rbgs r (ns_give run i rnti k t) = (if r = rnti then tt_rbgs r t @ [i] else tt_rbgs r t)"
  by (simp add: tt_rbgs_def ns_give_def sm_push_def split: option.splits)

lemma ns_give_used: "tt_used k' (ns_give run i rnti k t) = (if k' = k then tt_used k t + 1 else tt_used k' t)"
  by (simp add: tt_used_def ns_give_def)

lemma ns_give_slice:
  assumes "ns_slice_of s rnti = Some k"
  shows "ns_slice_rbgs s k' (ns_give run i rnti k t) =
    (if k' = k then insert i (ns_slice_rbgs s k t) else ns_slice_rbgs s k' t)"
proof -
  have "j \<in> set (tt_rbgs r (ns_give run i rnti k t)) \<longleftrightarrow> j \<in> set (tt_rbgs r t) \<or> j = i \<and> r = rnti" for j r
    by (auto simp: ns_give_rbgs)
  with assms show ?thesis unfolding ns_slice_rbgs_def by auto
qed

lemma ns_give_ok:
  assumes ok: "ns_tti_ok s ffr ra rbgMap t" and slices: "ns_slices_ok s"
    and i: "i < nat (ns_rbgNum s)" "\<not> tt_rbgMap t ! i"
    and user: "ns_slice_of s rnti = Some k" "rnti \<notin> ra" "ffr_IsDlRbgAvailableForUe ffr i rnti"
      "ns_HarqProcessAvailability rnti s = Inr True"
    and use: "ns_may_use run (ns_info s i) k (ns_sliceInfo s) (tt_sliceRbgUsage t)"
    and limit: "ns_limit run s t"
  shows "ns_tti_ok s ffr ra rbgMap (ns_give run i rnti k t)" "ns_limit run s (ns_give run i rnti k t)"
proof -
  define t' where "t' = ns_give run i rnti k t"
  note t'_simps = ns_give_rbgs [of _ run i rnti k t, folded t'_def] ns_give_used [of _ run i rnti k t, folded t'_def]
    ns_give_slice [OF user(1), of _ run i t, folded t'_def]
  have len: "length (tt_rbgMap t) = nat (ns_rbgNum s)"
    and map: "\<And>j. j < nat (ns_rbgNum s) \<Longrightarrow> tt_rbgMap t ! j \<longleftrightarrow> rbgMap ! j \<or> (\<exists>rnti. j \<in> set (tt_rbgs rnti t))"
    and dist: "\<And>rnti. distinct (tt_rbgs rnti t)"
    and one: "\<And>r r' j. j \<in> set (tt_rbgs r t) \<Longrightarrow> j \<in> set (tt_rbgs r' t) \<Longrightarrow> r = r'"
    and each: "\<And>r j. j \<in> set (tt_rbgs r t) \<Longrightarrow> j < nat (ns_rbgNum s) \<and> \<not> rbgMap ! j \<and> r \<notin> ra \<and>
      ffr_IsDlRbgAvailableForUe ffr j r \<and> ns_HarqProcessAvailability r s = Inr True \<and> ns_slice_of s r \<noteq> None \<and>
      (fst (ns_info s j) = DEDICATED_RBG \<longrightarrow> ns_slice_of s r = Some (snd (ns_info s j)))"
    and used: "\<And>k. unat (tt_used k t) = card (ns_slice_rbgs s k t)"
    and sliced: "\<And>r own. sm_find r (tt_sliceAllocation t) = Some own \<Longrightarrow> own \<noteq> [] \<and> length own \<le> length (tt_rbgs r t) \<and>
      (\<exists>i < nat (ns_rbgNum s). ns_slice_of s r = Some (snd (ns_info s i)))"
    and wf: "sm_wf (tt_allocation t)" and full: "\<And>r. sm_find r (tt_allocation t) \<noteq> Some []"
    using ok unfolding ns_tti_ok_def by (simp, simp, simp, blast, simp, simp, simp, simp, simp)
  have fresh: "i \<notin> set (tt_rbgs r t)" for r using i map by blast
  have free: "\<not> rbgMap ! i" using i map by blast
  have new: "i \<notin> ns_slice_rbgs s k t" using fresh by (simp add: ns_slice_rbgs_def)
  note bound = ns_slice_rbgs_bound [OF ok]
  have own: "run = 0 \<Longrightarrow> snd (ns_info s i) = k" using use by (simp add: ns_may_use_def)
  have dedicated: "fst (ns_info s i) = DEDICATED_RBG \<Longrightarrow> snd (ns_info s i) = k"
    using use by (auto simp: ns_may_use_def Let_def split: if_splits)
  have "unat (tt_used k t + 1) = unat (tt_used k t) + 1"
  proof -
    have "unat (tt_used k t) + 1 < 2 ^ LENGTH(32)" using used [of k] bound(3) [of k] by simp
    then show ?thesis by (simp add: unat_word_ariths)
  qed
  then have used': "unat (tt_used k' t') = card (ns_slice_rbgs s k' t')" for k'
    using used new bound(2) [of k] by (simp add: t'_simps)
  have map': "tt_rbgMap t' = (tt_rbgMap t)[i := True]" by (simp add: t'_def ns_give_def)
  have "ns_tti_ok s ffr ra rbgMap t'"
    unfolding ns_tti_ok_def
  proof (intro conjI allI impI; (elim conjE)?)
    show "length (tt_rbgMap t') = nat (ns_rbgNum s)" by (simp add: map' len)
    show "tt_rbgMap t' ! j \<longleftrightarrow> rbgMap ! j \<or> (\<exists>rnti. j \<in> set (tt_rbgs rnti t'))" if "j < nat (ns_rbgNum s)" for j
      using that map [of j] i len by (cases "j = i") (auto simp: map' t'_simps split: if_splits)
    show "distinct (tt_rbgs r t')" for r using dist fresh by (simp add: t'_simps)
    show "r = r'" if "j \<in> set (tt_rbgs r t')" "j \<in> set (tt_rbgs r' t')" for r r' j
      using that one fresh by (auto simp: t'_simps split: if_splits)
    fix r j
    assume "j \<in> set (tt_rbgs r t')"
    then consider "j \<in> set (tt_rbgs r t)" | "j = i" "r = rnti" by (auto simp: t'_simps split: if_splits)
    note c = this
    show "j < nat (ns_rbgNum s)" "\<not> rbgMap ! j" "r \<notin> ra" "ffr_IsDlRbgAvailableForUe ffr j r"
      "ns_HarqProcessAvailability r s = Inr True" "ns_slice_of s r \<noteq> None"
      using c each i free user by (cases; simp)+
    show "ns_slice_of s r = Some (snd (ns_info s j))" if "fst (ns_info s j) = DEDICATED_RBG"
      using c that each dedicated user(1) by cases simp_all
  next
    fix r own
    assume own': "sm_find r (tt_sliceAllocation t') = Some own"
    show "own \<noteq> []" "length own \<le> length (tt_rbgs r t')"
      "\<exists>i < nat (ns_rbgNum s). ns_slice_of s r = Some (snd (ns_info s i))"
    proof -
      consider "sm_find r (tt_sliceAllocation t) = Some own"
        | old where "r = rnti" "run = 0" "own = old @ [i]" "old \<noteq> [] \<longrightarrow> sm_find r (tt_sliceAllocation t) = Some old"
        using own' by (auto simp: t'_def ns_give_def sm_push_def split: if_splits option.splits)
      then have "own \<noteq> [] \<and> length own \<le> length (tt_rbgs r t') \<and>
          (\<exists>i < nat (ns_rbgNum s). ns_slice_of s r = Some (snd (ns_info s i)))"
      proof cases
        case 1
        from sliced [OF this] show ?thesis by (auto simp: t'_simps)
      next
        case 2
        have "length old \<le> length (tt_rbgs r t)" using sliced [of r old] 2(4) by (cases "old = []") auto
        with 2 own user(1) i(1) show ?thesis by (auto simp: t'_simps)
      qed
      then show "own \<noteq> []" "length own \<le> length (tt_rbgs r t')"
        "\<exists>i < nat (ns_rbgNum s). ns_slice_of s r = Some (snd (ns_info s i))" by simp_all
    qed
  next
    show "sm_wf (tt_allocation t')" using wf by (simp add: t'_def ns_give_def sm_push_def smap.wf_set)
    show "sm_find r (tt_allocation t') \<noteq> Some []" for r
      using full [of r] by (simp add: t'_def ns_give_def sm_push_def split: option.splits)
  qed (rule used')
  moreover have "ns_limit run s t'"
  proof (cases "run = 0")
    case True
    with limit have "ns_own_only s t" by (simp add: ns_limit_def)
    then have "ns_own_only s t'" using own [OF True] by (auto simp: ns_own_only_def t'_simps)
    with True show ?thesis by (simp add: ns_limit_def)
  next
    case False
    have "card (ns_slice_rbgs s k' t') \<le> unat (si_maxRbg info)" if info: "(k', info) \<in> set (ns_sliceInfo s)" for k' info
    proof (cases "k' = k")
      case True
      have "sm_find k (ns_sliceInfo s) = Some info"
        using info slices True by (simp add: sm_find_mem ns_slices_ok_def ns_slices_wf_def)
      then have "\<not> (case sm_find k (tt_sliceRbgUsage t) of None \<Rightarrow> 0 | Some n \<Rightarrow> (ucast n :: u64)) \<ge> si_maxRbg info"
        using use False by (simp add: ns_may_use_def Let_def)
      then have "(ucast (tt_used k t) :: u64) < si_maxRbg info"
        unfolding not_le tt_used_def by (cases "sm_find k (tt_sliceRbgUsage t)") simp_all
      then have "unat (tt_used k t) < unat (si_maxRbg info)" by (simp add: word_less_nat_alt unat_u32_u64)
      with True used [of k] new bound(2) [of k] show ?thesis by (simp add: t'_simps)
    next
      case other: False
      with limit False info show ?thesis by (auto simp: ns_limit_def ns_below_max_def t'_simps)
    qed
    with False show ?thesis by (auto simp: ns_limit_def ns_below_max_def)
  qed
  ultimately show "ns_tti_ok s ffr ra rbgMap (ns_give run i rnti k t)" "ns_limit run s (ns_give run i rnti k t)"
    by (simp_all add: t'_def)
qed

section \<open>The whole allocation\<close>

text \<open>The scheduled bytes are bounded by the RBGs in use.\<close>

definition ns_bytes_bound :: "NsTti \<Rightarrow> real" where
  "ns_bytes_bound t = 18844 * real (length (filter (\<lambda>b. b) (tt_rbgMap t)))"

lemma length_filter_set_True:
  "i < length xs \<Longrightarrow> \<not> xs ! i \<Longrightarrow> length (filter (\<lambda>b. b) (xs[i := True])) = Suc (length (filter (\<lambda>b. b) xs))"
proof (induction xs arbitrary: i)
  case (Cons x xs)
  then show ?case by (cases i) auto
qed simp

definition ns_state_ok :: "NsScheduler \<Rightarrow> Ffr \<Rightarrow> u16 set \<Rightarrow> bool list \<Rightarrow> nat \<Rightarrow> NsScheduler \<times> NsTti \<Rightarrow> bool" where
  "ns_state_ok s0 ffr ra rbgMap run = (\<lambda>(s, t). ns_core s = ns_core s0 \<and> ns_bytes_in (ns_bytes_bound t) s \<and>
    ns_tti_ok s0 ffr ra rbgMap t \<and> ns_limit run s0 t)"

lemma ns_bytes_bound_small:
  assumes "ns_tti_ok s ffr ra rbgMap t"
  shows "ns_bytes_bound t < 4294967296"
proof -
  have "length (filter (\<lambda>b. b) (tt_rbgMap t)) \<le> nat (ns_rbgNum s)"
    using assms length_filter_le [of "\<lambda>b. b" "tt_rbgMap t"] by (simp add: ns_tti_ok_def)
  then have "length (filter (\<lambda>b. b) (tt_rbgMap t)) \<le> 255" using ns_rbgNum_le [of s] by linarith
  then show ?thesis by (simp add: ns_bytes_bound_def)
qed

lemma ns_assign_rbg_ok:
  assumes ready: "ns_ready s0" and core: "ns_core s = ns_core s0" and bytes: "ns_bytes_in (ns_bytes_bound t) s"
    and t: "ns_tti_ok s0 ffr ra rbgMap t" and limit: "ns_limit run s0 t"
    and i: "i < nat (ns_rbgNum s0)" "\<not> tt_rbgMap t ! i"
    and best: "ns_best_ok s0 ffr ra run i t best" "bs_rnti best = Some rnti"
  shows "\<exists>st. ns_assign_rbg run i rnti best (s, t) = Inr st \<and> ns_state_ok s0 ffr ra rbgMap run st"
proof -
  obtain f where f: "(rnti, f) \<in> set (ns_flowStatsDl s0)" "rnti \<notin> ra" "ffr_IsDlRbgAvailableForUe ffr i rnti"
    "ns_HarqProcessAvailability rnti s0 = Inr True"
    "ns_may_use run (ns_info s0 i) (fp_sliceId f) (ns_sliceInfo s0) (tt_sliceRbgUsage t)"
    using best by (auto simp: ns_best_ok_def ns_info_def)
  have find: "sm_find rnti (ns_flowStatsDl s0) = Some f" using f(1) ready by (simp add: ns_ready_def sm_find_mem)
  define t' where "t' = ns_give run i rnti (fp_sliceId f) t"
  have t': "ns_tti_ok s0 ffr ra rbgMap t'" "ns_limit run s0 t'"
    unfolding t'_def using ready find f limit t i
    by (intro ns_give_ok; simp add: ns_ready_def ns_slice_of_def)+
  define M where "M = ns_bytes_bound t"
  have M: "0 \<le> M" by (simp add: M_def ns_bytes_bound_def)
  have bound: "ns_bytes_bound t' = M + 18844"
    using i t length_filter_set_True [of i "tt_rbgMap t"] by (simp add: M_def ns_bytes_bound_def t'_def ns_give_def ns_tti_ok_def)
  define s1 where "s1 = ns_schedule_bytes (bs_flow best) (bs_rate best) s"
  have rate: "0 \<le> bs_rate best / 1000" "bs_rate best / 1000 \<le> 18844"
    using best(1) by (simp_all add: ns_best_ok_def ns_max_rate_def)
  have core1: "ns_core s1 = ns_core s0" by (simp add: s1_def ns_schedule_bytes_def core)
  have bytes1: "ns_bytes_in (ns_bytes_bound t') s1"
    unfolding ns_bytes_in_def bound
  proof (intro conjI allI impI)
    fix flow b
    assume "sm_find flow (ns_scheduledBytes s1) = Some b"
    moreover define c where "c = (case sm_find (bs_flow best) (ns_scheduledBytes s) of None \<Rightarrow> 0 | Some b \<Rightarrow> b)"
    ultimately have b: "(if flow = bs_flow best then Some (c + bs_rate best / 1000) else sm_find flow (ns_scheduledBytes s)) = Some b"
      by (cases "flow = bs_flow best") (simp_all add: s1_def ns_schedule_bytes_def)
    have "\<And>flow b. sm_find flow (ns_scheduledBytes s) = Some b \<Longrightarrow> 0 \<le> b \<and> b \<le> M"
      using bytes unfolding ns_bytes_in_def M_def by blast
    note old = this
    have c: "0 \<le> c \<and> c \<le> M"
      unfolding c_def using old M by (cases "sm_find (bs_flow best) (ns_scheduledBytes s)") simp_all
    have "0 \<le> b \<and> b \<le> M + 18844"
    proof (cases "flow = bs_flow best")
      case True
      with b have "b = c + bs_rate best / 1000" by simp
      with c rate show ?thesis by linarith
    next
      case False
      with b old [of flow b] show ?thesis by simp
    qed
    then show "0 \<le> b" "b \<le> M + 18844" by simp_all
  qed (use M in simp)
  have known: "ns_users_known s1"
    using ready ns_users_known_core [OF core1] by (simp add: ns_ready_def)
  obtain s2 where s2: "ns_RefreshSlicePriority s1 = Inr s2" "ns_core s2 = ns_core s1" "ns_bytes_in (ns_bytes_bound t') s2"
    using ns_RefreshSlicePriority_ok [OF known bytes1] by blast
  have find2: "sm_find rnti (ns_flowStatsDl s2) = Some f"
    using find ns_core_fields(1) [OF s2(2)] ns_core_fields(1) [OF core1] by simp
  define s3 where "s3 = s2\<lparr>ns_usedDataRbs := ns_count_rbs (ucast (fp_imsi f)) (ns_rbgSize s2) (ns_usedDataRbs s2)\<rparr>"
  have "ns_assign_rbg run i rnti best (s, t) = Inr (s3, t')"
    by (simp add: ns_assign_rbg_def s2(1) find2 s3_def t'_def ns_give_def tt_used_def flip: s1_def)
  moreover have "ns_core s3 = ns_core s0" by (simp add: s3_def s2(2) core1)
  moreover have "ns_bytes_in (ns_bytes_bound t') s3" using s2(3) by (simp add: s3_def ns_bytes_in_def)
  ultimately show ?thesis using t' by (auto simp: ns_state_ok_def)
qed

lemma ns_allocate_rbg_ok:
  assumes ready: "ns_ready s0" and i: "i < nat (ns_rbgNum s0)" and st: "ns_state_ok s0 ffr ra rbgMap run st"
  shows "\<exists>st'. ns_allocate_rbg ffr ra run st i = Inr st' \<and> ns_state_ok s0 ffr ra rbgMap run st'"
proof -
  obtain s t where s: "st = (s, t)" by (cases st)
  have core: "ns_core s = ns_core s0" and bytes: "ns_bytes_in (ns_bytes_bound t) s"
    and t: "ns_tti_ok s0 ffr ra rbgMap t" and limit: "ns_limit run s0 t"
    using st by (simp_all add: s ns_state_ok_def)
  have at: "vec_at (tt_rbgMap t) i = Inr (tt_rbgMap t ! i)" using i t by (simp add: ns_tti_ok_def)
  show ?thesis
  proof (cases "tt_rbgMap t ! i")
    case True
    then show ?thesis using st at by (simp add: s ns_allocate_rbg_def)
  next
    case False
    have flows: "ns_flowStatsDl s = ns_flowStatsDl s0" by (rule ns_core_fields(1) [OF core])
    have "\<exists>r. rfoldl (ns_consider_user ffr ra run i t) (s, ns_best_none) (ns_flowStatsDl s0) = Inr r \<and>
      (case r of (s', best) \<Rightarrow> ns_core s' = ns_core s0 \<and> ns_bytes_in (ns_bytes_bound t) s' \<and>
        ns_best_ok s0 ffr ra run i t best)"
    proof (rule rfoldl_total)
      show "case (s, ns_best_none) of (s', best) \<Rightarrow> ns_core s' = ns_core s0 \<and> ns_bytes_in (ns_bytes_bound t) s' \<and>
          ns_best_ok s0 ffr ra run i t best"
        using core bytes ns_best_none_ok by simp
    next
      fix sb x
      assume x: "x \<in> set (ns_flowStatsDl s0)" and sb: "case sb of (s', best) \<Rightarrow> ns_core s' = ns_core s0 \<and>
        ns_bytes_in (ns_bytes_bound t) s' \<and> ns_best_ok s0 ffr ra run i t best"
      obtain rnti f s' best where xs: "x = (rnti, f)" "sb = (s', best)" by (cases x; cases sb)
      with x sb ns_consider_user_ok [OF ready i, of rnti f "ns_bytes_bound t" s' ffr ra run t best]
        ns_bytes_bound_small [OF t]
      show "\<exists>r. ns_consider_user ffr ra run i t sb x = Inr r \<and> (case r of (s', best) \<Rightarrow> ns_core s' = ns_core s0 \<and>
          ns_bytes_in (ns_bytes_bound t) s' \<and> ns_best_ok s0 ffr ra run i t best)"
        by auto
    qed
    then obtain s' best where b: "rfoldl (ns_consider_user ffr ra run i t) (s, ns_best_none) (ns_flowStatsDl s0) = Inr (s', best)"
      "ns_core s' = ns_core s0" "ns_bytes_in (ns_bytes_bound t) s'" "ns_best_ok s0 ffr ra run i t best"
      by auto
    show ?thesis
    proof (cases "bs_rnti best")
      case None
      then show ?thesis using False at b t limit by (simp add: s ns_allocate_rbg_def flows ns_state_ok_def)
    next
      case (Some rnti)
      from ns_assign_rbg_ok [OF ready b(2,3) t limit i False b(4) Some] show ?thesis
        using False at b(1) Some by (simp add: s ns_allocate_rbg_def flows)
    qed
  qed
qed

lemma ns_allocate_run_ok:
  assumes "ns_ready s0" "ns_state_ok s0 ffr ra rbgMap run st"
  shows "\<exists>st'. ns_allocate_run ffr ra st run = Inr st' \<and> ns_state_ok s0 ffr ra rbgMap run st'"
proof -
  obtain s t where s: "st = (s, t)" by (cases st)
  have core: "ns_core s = ns_core s0" using assms(2) by (simp add: s ns_state_ok_def)
  have "ns_rbgNum s = ns_rbgNum s0" by (rule ns_core_rbgs(2) [OF core])
  moreover have "\<exists>st'. rfoldl (ns_allocate_rbg ffr ra run) st [0..<nat (ns_rbgNum s0)] = Inr st' \<and>
      ns_state_ok s0 ffr ra rbgMap run st'"
    by (rule rfoldl_total [where P = "ns_state_ok s0 ffr ra rbgMap run"])
      (use assms ns_allocate_rbg_ok [OF assms(1)] in auto)
  ultimately show ?thesis by (simp add: s ns_allocate_run_def)
qed

lemma ns_allocate_ok:
  assumes "ns_ready s" "length rbgMap = nat (ns_rbgNum s)"
  obtains s' t where "ns_allocate ffr ra rbgMap s = Inr (s', t)" "ns_core s' = ns_core (s\<lparr>ns_totalRbs := ns_totalRbs s'\<rparr>)"
    "ns_tti_ok s ffr ra rbgMap t" "ns_below_max s t"
proof -
  define s0 where "s0 = s\<lparr>ns_scheduledBytes := []\<rparr>"
  define t0 where "t0 = \<lparr>tt_rbgMap = rbgMap, tt_allocation = [], tt_sliceAllocation = [], tt_sliceRbgUsage = []\<rparr>"
  have core0: "ns_core s0 = ns_core s" by (simp add: s0_def)
  have slices: "ns_slices_ok s" using assms(1) by (simp add: ns_ready_def)
  have "ns_state_ok s ffr ra rbgMap 0 (s0, t0)"
    using assms(2) core0
    by (simp add: ns_state_ok_def ns_tti_ok_def ns_limit_def ns_own_only_def t0_def tt_rbgs_def tt_used_def
        ns_slice_rbgs_def ns_bytes_in_def ns_bytes_bound_def s0_def)
  then obtain s1 t1 where run0: "ns_allocate_run ffr ra (s0, t0) 0 = Inr (s1, t1)" "ns_state_ok s ffr ra rbgMap 0 (s1, t1)"
    using ns_allocate_run_ok [OF assms(1)] by (metis surj_pair)
  have "ns_state_ok s ffr ra rbgMap 1 (s1, t1)"
    using run0(2) ns_own_below_max [OF slices, of ffr ra rbgMap t1] by (simp add: ns_state_ok_def ns_limit_def)
  then obtain s2 t2 where run1: "ns_allocate_run ffr ra (s1, t1) 1 = Inr (s2, t2)" "ns_state_ok s ffr ra rbgMap 1 (s2, t2)"
    using ns_allocate_run_ok [OF assms(1)] by (metis surj_pair)
  have alloc: "ns_allocate ffr ra rbgMap s =
      Inr (s2\<lparr>ns_totalRbs := ns_totalRbs s2 + ns_rbgSize s2 * ns_rbgNum s2\<rparr>, t2)"
    using run0(1) run1(1) by (simp add: ns_allocate_def s0_def t0_def)
  have ok: "ns_tti_ok s ffr ra rbgMap t2" "ns_below_max s t2" and core: "ns_core s2 = ns_core s"
    using run1(2) by (simp_all add: ns_state_ok_def ns_limit_def)
  define n where "n = ns_totalRbs s2 + ns_rbgSize s2 * ns_rbgNum s2"
  have "ns_core (s2\<lparr>ns_totalRbs := n\<rparr>) = ns_core (s\<lparr>ns_totalRbs := n\<rparr>)"
    using core unfolding ns_core_def by (cases s; cases s2) simp
  then have "ns_core (s2\<lparr>ns_totalRbs := n\<rparr>) = ns_core (s\<lparr>ns_totalRbs := ns_totalRbs (s2\<lparr>ns_totalRbs := n\<rparr>)\<rparr>)"
    by simp
  from that [OF alloc [folded n_def] this ok] show thesis .
qed

text \<open>C3: For users that are set up, with every table of the right size, the allocation of a subframe does not fail.  The
  RBGs it gives to users were free, none goes to two users or twice to one, and none to a user that has a retransmission
  or for which the frequency reuse forbids it; a dedicated RBG only goes to a user of its slice, and all users of a slice
  together get at most the maximum of the slice.\<close>

theorem ns_allocation_safe:
  assumes "ns_ready s" "length rbgMap = nat (ns_rbgNum s)"
  shows "\<exists>s' t. ns_allocate ffr ra rbgMap s = Inr (s', t) \<and>
    (\<forall>rnti rnti' i. i \<in> set (tt_rbgs rnti t) \<and> i \<in> set (tt_rbgs rnti' t) \<longrightarrow> rnti = rnti') \<and>
    (\<forall>rnti. distinct (tt_rbgs rnti t)) \<and>
    (\<forall>rnti i. i \<in> set (tt_rbgs rnti t) \<longrightarrow> i < length rbgMap \<and> \<not> rbgMap ! i \<and> rnti \<notin> ra \<and>
      ffr_IsDlRbgAvailableForUe ffr i rnti \<and>
      (\<exists>f. sm_find rnti (ns_flowStatsDl s) = Some f \<and>
        (fst (ns_info s i) = DEDICATED_RBG \<longrightarrow> snd (ns_info s i) = fp_sliceId f))) \<and>
    (\<forall>(k, info) \<in> set (ns_sliceInfo s). card (ns_slice_rbgs s k t) \<le> unat (si_maxRbg info))"
proof -
  obtain s2 t2 where alloc: "ns_allocate ffr ra rbgMap s = Inr (s2, t2)"
    and ok: "ns_tti_ok s ffr ra rbgMap t2" "ns_below_max s t2"
    using ns_allocate_ok [OF assms] by blast
  have each: "i < length rbgMap \<and> \<not> rbgMap ! i \<and> rnti \<notin> ra \<and> ffr_IsDlRbgAvailableForUe ffr i rnti \<and>
      (\<exists>f. sm_find rnti (ns_flowStatsDl s) = Some f \<and>
        (fst (ns_info s i) = DEDICATED_RBG \<longrightarrow> snd (ns_info s i) = fp_sliceId f))"
    if "i \<in> set (tt_rbgs rnti t2)" for rnti i
  proof -
    from ok(1) that have "i < length rbgMap" "\<not> rbgMap ! i" "rnti \<notin> ra" "ffr_IsDlRbgAvailableForUe ffr i rnti"
      "ns_slice_of s rnti \<noteq> None" "fst (ns_info s i) = DEDICATED_RBG \<longrightarrow> ns_slice_of s rnti = Some (snd (ns_info s i))"
      unfolding ns_tti_ok_def assms(2) by blast+
    then show ?thesis by (cases "sm_find rnti (ns_flowStatsDl s)") (auto simp: ns_slice_of_def)
  qed
  have once: "\<forall>rnti rnti' i. i \<in> set (tt_rbgs rnti t2) \<and> i \<in> set (tt_rbgs rnti' t2) \<longrightarrow> rnti = rnti'"
    "\<forall>rnti. distinct (tt_rbgs rnti t2)"
    using ok(1) unfolding ns_tti_ok_def by blast+
  from alloc each once ok(2) [unfolded ns_below_max_def] show ?thesis by blast
qed

section \<open>Witnesses\<close>

text \<open>Two users, one in each of two slices.\<close>

definition ns_two_users :: NsScheduler where
  "ns_two_users = ns_example\<lparr>
    ns_flowStatsDl := [(1, (nsPfsFlowPerf_new 0)\<lparr>fp_sliceId := 0\<rparr>), (2, (nsPfsFlowPerf_new 0)\<lparr>fp_sliceId := 1\<rparr>)],
    ns_rlcBufferReq := [((1, 3), \<lparr>rb_txQueue = 1000, rb_retxQueue = 0, rb_statusPdu = 0\<rparr>),
      ((2, 3), \<lparr>rb_txQueue = 500, rb_retxQueue = 0, rb_statusPdu = 0\<rparr>)],
    ns_uesTxMode := [(1, 0), (2, 2)], ns_a30CqiRxed := [(2, replicate 12 [7, 9])],
    ns_dlHarqCurrentProcessId := [(1, 0), (2, 3)], ns_dlHarqProcessesStatus := [(1, replicate 8 0), (2, replicate 8 0)]\<rparr>"

lemma ns_two_users_rbgNum: "ns_rbgNum ns_two_users = 12"
  by (simp add: ns_two_users_def ns_example_def NsScheduler_new_def ns_rbgNum_def ns_rbgSize_def ns_GetRbgSize_def
      PfType0AllocationRbg_def upt_rec)

lemma ns_two_users_ready: "ns_ready ns_two_users"
proof -
  have "ns_slices_ok ns_two_users"
    using ns_example_ok by (simp add: ns_slices_ok_def ns_two_users_def ns_rbgNum_def ns_rbgSize_def)
  moreover have "ns_user_ok ns_two_users r f" if "r = 1 \<or> r = 2" for r f
    using that unfolding ns_user_ok_def ns_two_users_rbgNum
    by (auto simp: ns_harq_ok_def ns_two_users_def sm_find_def HARQ_PROC_NUM_def)
  moreover have "sm_wf (ns_flowStatsDl ns_two_users)" by (simp add: ns_two_users_def sm_wf_def sm_keys_def)
  moreover have "ns_users_known ns_two_users"
    by (simp add: ns_users_known_def ns_two_users_def sm_has_def sm_find_def)
  ultimately show ?thesis
    unfolding ns_ready_def by (simp add: ns_two_users_def ns_example_def NsScheduler_new_def)
qed

lemma ns_allocation_safe_witness:
  "\<exists>s' t. ns_allocate \<lparr>ffr_IsDlRbgAvailableForUe = \<lambda>i rnti. True, ffr_GetTpc = \<lambda>rnti. 1\<rparr> {} (replicate 12 False) ns_two_users =
      Inr (s', t) \<and>
    (\<forall>(k, info) \<in> set (ns_sliceInfo ns_two_users). card (ns_slice_rbgs ns_two_users k t) \<le> unat (si_maxRbg info))"
proof -
  have "length (replicate 12 False) = nat (ns_rbgNum ns_two_users)" by (simp add: ns_two_users_rbgNum)
  from ns_allocation_safe [OF ns_two_users_ready this] show ?thesis by blast
qed

end
