(* ===== verification/Ns_Messages.thy ===== *)
theory Ns_Messages
  imports Ns_Allocation
begin

text \<open>The messages of a subframe (\<open>Ns_Scheduler\<close>): with the tables of every user in place none of the steps after the
  allocation fails, every user that got RBGs gets one message, and the bit maps of the messages name exactly the RBGs
  of their users.\<close>

section \<open>The bit map\<close>

lemma bit_rbgMask:
  assumes "distinct rbgs" "\<forall>k \<in> set rbgs. k < 32"
  shows "bit (ns_rbgMask rbgs) i \<longleftrightarrow> i \<in> set rbgs"
proof -
  have step: "bit (mask + push_bit k 1 :: u32) i \<longleftrightarrow> bit mask i \<or> i = k" if "k < 32" "\<not> bit mask k"
    for mask :: u32 and k i
  proof -
    have "mask AND push_bit k 1 = 0"
      using that by (intro bit_eqI) (auto simp: bit_and_iff bit_push_bit_iff bit_1_iff bit_exp_iff)
    then have "mask + push_bit k 1 = mask OR push_bit k 1" by (rule disjunctive_add_eq_or)
    then show ?thesis using that by (auto simp: bit_or_iff bit_push_bit_iff bit_1_iff bit_exp_iff)
  qed
  have "bit (foldl (\<lambda>mask k. mask + push_bit k 1) mask rbgs) i \<longleftrightarrow> bit mask i \<or> i \<in> set rbgs"
    if "\<forall>k \<in> set rbgs. \<not> bit mask k" for mask :: u32
    using assms that
  proof (induction rbgs arbitrary: mask)
    case (Cons k rbgs)
    have "\<forall>j \<in> set rbgs. \<not> bit (mask + push_bit k 1) j" using Cons.prems step [of k mask] by auto
    with Cons step [of k mask] show ?case by auto
  qed simp
  from this [of 0] show ?thesis by (simp add: ns_rbgMask_def)
qed

lemma ns_rbgNum_less:
  assumes "uint (ns_dlBandwidth s) < 110"
  shows "ns_rbgNum s \<le> 27"
proof -
  define b where "b = uint (ns_dlBandwidth s)"
  have b: "0 \<le> b" "b < 110" using assms by (simp_all add: b_def)
  have size: "ns_rbgSize s = (if b < 10 then 1 else if b < 26 then 2 else if b < 63 then 3 else 4)"
    using b by (simp add: ns_rbgSize_def ns_GetRbgSize_def PfType0AllocationRbg_def upt_rec flip: b_def)
  have "b div ns_rbgSize s \<le> 27" unfolding size using b by auto
  then show ?thesis by (simp add: ns_rbgNum_def flip: b_def)
qed

section \<open>The tables of a user\<close>

definition ns_tables_ok :: "u16 \<Rightarrow> NsScheduler \<Rightarrow> bool" where
  "ns_tables_ok rnti s \<longleftrightarrow>
    (case sm_find rnti (ns_dlHarqRlcPduBuffer s) of None \<Rightarrow> False
     | Some buf \<Rightarrow> length buf = 2 \<and> (\<forall>layer \<in> set buf. length layer = HARQ_PROC_NUM)) \<and>
    (case sm_find rnti (ns_dlHarqProcessesDciBuffer s) of None \<Rightarrow> False | Some dcis \<Rightarrow> length dcis = HARQ_PROC_NUM) \<and>
    (case sm_find rnti (ns_dlHarqProcessesTimer s) of None \<Rightarrow> False | Some timer \<Rightarrow> length timer = HARQ_PROC_NUM)"

text \<open>A user without any table.\<close>

definition ns_absent :: "u16 \<Rightarrow> NsScheduler \<Rightarrow> bool" where
  "ns_absent rnti s \<longleftrightarrow> \<not> sm_has rnti (ns_dlHarqCurrentProcessId s) \<and> \<not> sm_has rnti (ns_dlHarqProcessesStatus s) \<and>
    \<not> sm_has rnti (ns_dlHarqRlcPduBuffer s) \<and> \<not> sm_has rnti (ns_dlHarqProcessesDciBuffer s) \<and>
    \<not> sm_has rnti (ns_dlHarqProcessesTimer s)"

lemma ns_users_known_iff:
  "ns_users_known s \<longleftrightarrow> (\<forall>flow. sm_has flow (ns_rlcBufferReq s) \<longrightarrow> sm_has (fst flow) (ns_flowStatsDl s))"
  by (force simp: ns_users_known_def sm_has_iff sm_keys_def)

text \<open>The averages that the metric of a user divides by.\<close>

definition ns_positive :: "NsScheduler \<Rightarrow> bool" where
  "ns_positive s \<longleftrightarrow> 1 < ns_timeWindow s \<and> (\<forall>(r, f) \<in> set (ns_flowStatsDl s). 0 < fp_lastAvgSliced f)"

lemma ns_positive_find: "ns_positive s \<Longrightarrow> sm_find r (ns_flowStatsDl s) = Some f \<Longrightarrow> 0 < fp_lastAvgSliced f"
  unfolding ns_positive_def sm_find_def by (drule map_of_SomeD) auto

lemma ns_positive_set:
  assumes "ns_positive s" "0 < fp_lastAvgSliced f" "ns_timeWindow s' = ns_timeWindow s"
    "ns_flowStatsDl s' = sm_set r f (ns_flowStatsDl s)"
  shows "ns_positive s'"
  using assms set_sm_set [of _ r f "ns_flowStatsDl s"] by (fastforce simp: ns_positive_def)

text \<open>What the steps of one user leave alone, for the others: the configuration, the slices and their users, and the
  HARQ processes; the tables stay in place.\<close>

definition ns_frame :: "u16 set \<Rightarrow> NsScheduler \<Rightarrow> NsScheduler \<Rightarrow> bool" where
  "ns_frame done s s' \<longleftrightarrow> ns_dlBandwidth s' = ns_dlBandwidth s \<and> ns_sliceInfo s' = ns_sliceInfo s \<and>
    ns_a30CqiRxed s' = ns_a30CqiRxed s \<and> ns_uesTxMode s' = ns_uesTxMode s \<and> ns_harqOn s' = ns_harqOn s \<and>
    (\<forall>r. ns_slice_of s' r = ns_slice_of s r) \<and>
    (\<forall>r. ns_tables_ok r s \<longrightarrow> ns_tables_ok r s') \<and>
    (\<forall>r. r \<notin> done \<longrightarrow> ns_HarqProcessAvailability r s' = ns_HarqProcessAvailability r s) \<and>
    (\<forall>r. ns_harq_ok r s \<longrightarrow> ns_harq_ok r s') \<and> (\<forall>r. ns_absent r s \<longrightarrow> ns_absent r s') \<and>
    (sm_wf (ns_flowStatsDl s) \<longrightarrow> sm_wf (ns_flowStatsDl s')) \<and> (ns_users_known s \<longrightarrow> ns_users_known s') \<and>
    (ns_positive s \<longrightarrow> ns_positive s')"

lemma ns_frame_refl: "ns_frame done s s"
  by (simp add: ns_frame_def)

lemma ns_frame_trans: "ns_frame A s s' \<Longrightarrow> ns_frame B s' s'' \<Longrightarrow> ns_frame (A \<union> B) s s''"
  unfolding ns_frame_def by simp

lemma ns_frame_mono: "ns_frame A s s' \<Longrightarrow> A \<subseteq> B \<Longrightarrow> ns_frame B s s'"
  unfolding ns_frame_def by blast

lemma ns_availability_cong:
  assumes "ns_dlHarqCurrentProcessId s' = ns_dlHarqCurrentProcessId s"
    "ns_dlHarqProcessesStatus s' = ns_dlHarqProcessesStatus s"
  shows "ns_HarqProcessAvailability r s' = ns_HarqProcessAvailability r s"
  unfolding ns_HarqProcessAvailability_def ns_harq_find_def by (simp only: assms)

lemma ns_frameI:
  assumes "ns_dlHarqCurrentProcessId s' = ns_dlHarqCurrentProcessId s"
    "ns_dlHarqProcessesStatus s' = ns_dlHarqProcessesStatus s" "ns_dlBandwidth s' = ns_dlBandwidth s"
    "ns_sliceInfo s' = ns_sliceInfo s" "ns_a30CqiRxed s' = ns_a30CqiRxed s" "ns_uesTxMode s' = ns_uesTxMode s"
    "ns_harqOn s' = ns_harqOn s" "\<And>r. ns_slice_of s' r = ns_slice_of s r"
    "\<And>r. ns_tables_ok r s \<Longrightarrow> ns_tables_ok r s'" "\<And>r. ns_absent r s \<Longrightarrow> ns_absent r s'"
    "sm_wf (ns_flowStatsDl s) \<Longrightarrow> sm_wf (ns_flowStatsDl s')" "ns_users_known s \<Longrightarrow> ns_users_known s'"
    "ns_positive s \<Longrightarrow> ns_positive s'"
  shows "ns_frame A s s'"
  using assms(3-) ns_availability_cong [OF assms(1,2)] by (simp add: ns_frame_def ns_harq_ok_def assms(1,2))

lemma ns_UpdateHarqProcessId_ok:
  assumes "ns_HarqProcessAvailability rnti s = Inr True"
  shows "\<exists>id s'. ns_UpdateHarqProcessId rnti s = Inr (id, s') \<and> unat id < HARQ_PROC_NUM \<and> ns_frame {rnti} s s'"
proof (cases "ns_harqOn s")
  case True
  from assms obtain i status where f: "ns_harq_find rnti s = Inr (i, status)" "vec_at status i = Inr 0"
    by (auto simp: ns_HarqProcessAvailability_def)
  have i: "i < HARQ_PROC_NUM"
  proof -
    have "ns_harq_loop n cur st j = Inr k \<Longrightarrow> k < HARQ_PROC_NUM" for n cur st j k
      by (induction n arbitrary: j) (auto simp: Let_def HARQ_PROC_NUM_def split: if_splits)
    with f(1) show ?thesis by (auto simp: ns_harq_find_def split: option.splits)
  qed
  define s' where "s' = s\<lparr>ns_dlHarqCurrentProcessId := sm_set rnti (of_nat i) (ns_dlHarqCurrentProcessId s),
    ns_dlHarqProcessesStatus := sm_set rnti (status[i := 1]) (ns_dlHarqProcessesStatus s)\<rparr>"
  have "ns_UpdateHarqProcessId rnti s = Inr (of_nat i, s')"
    using True f by (simp add: ns_UpdateHarqProcessId_def s'_def)
  note upd = this
  have id: "unat (of_nat i :: u8) < HARQ_PROC_NUM" using i by (simp add: HARQ_PROC_NUM_def unat_of_nat)
  have "ns_HarqProcessAvailability r s' = ns_HarqProcessAvailability r s" if "r \<noteq> rnti" for r
  proof -
    have "sm_find r (ns_dlHarqCurrentProcessId s') = sm_find r (ns_dlHarqCurrentProcessId s)"
      "sm_find r (ns_dlHarqProcessesStatus s') = sm_find r (ns_dlHarqProcessesStatus s)"
      using that by (simp_all add: s'_def)
    then show ?thesis unfolding ns_HarqProcessAvailability_def ns_harq_find_def by (simp only:)
  qed
  moreover have "ns_harq_ok r s'" if "ns_harq_ok r s" for r
  proof (cases "r = rnti")
    case True
    have "length status = HARQ_PROC_NUM"
      using that f(1) True by (auto simp: ns_harq_ok_def ns_harq_find_def split: option.splits)
    then show ?thesis using True i by (simp add: ns_harq_ok_def s'_def HARQ_PROC_NUM_def unat_of_nat)
  next
    case False
    with that show ?thesis by (simp add: ns_harq_ok_def s'_def)
  qed
  moreover have "sm_has rnti (ns_dlHarqCurrentProcessId s)" "sm_has rnti (ns_dlHarqProcessesStatus s)"
    using f(1) by (auto simp: ns_harq_find_def sm_has_def split: option.splits)
  then have "ns_absent r s'" if "ns_absent r s" for r
    using that by (auto simp: ns_absent_def s'_def)
  ultimately have "ns_frame {rnti} s s'"
    unfolding ns_frame_def
    by (simp add: s'_def ns_slice_of_def ns_tables_ok_def) (simp add: ns_users_known_def ns_positive_def)
  with upd id show ?thesis by blast
next
  case False
  then show ?thesis using ns_frame_refl by (simp add: ns_UpdateHarqProcessId_def HARQ_PROC_NUM_def)
qed

section \<open>The layers\<close>

lemma ns_worstCqi_le: "ns_worstCqi cqis rbgs j \<le> 15"
proof -
  define g where "g = (\<lambda>sb w k. if length sb > k then
    (if length (sb ! k) > j then (if sb ! k ! j < w then sb ! k ! j else w) else 1) else (1 :: u8))"
  have "foldl (g sb) w rbgs \<le> 15" if "w \<le> 15" for sb :: "u8 list list" and w
    using that
  proof (induction rbgs arbitrary: w)
    case (Cons k rbgs)
    have "g sb w k \<le> 15" using Cons.prems by (auto simp: g_def)
    with Cons.IH show ?case by simp
  qed simp
  then show "ns_worstCqi cqis rbgs j \<le> 15" by (auto simp: ns_worstCqi_def g_def split: option.splits)
qed

lemma GetMcs_u8:
  assumes "c \<le> (15 :: u8)"
  shows "\<exists>n. GetMcsFromCqi (uint c) = Inr n \<and> uint (of_nat n :: u8) = int n \<and> n \<le> 28"
proof -
  define m where "m = unat c"
  have m: "uint c = int m" "m \<le> 15" using assms by (simp_all add: m_def word_le_nat_alt)
  have n: "mcs_of_cqi ! m \<le> 28" using mcs_of_cqi_le [of m] m(2) by simp
  then have "uint (of_nat (mcs_of_cqi ! m) :: u8) = int (mcs_of_cqi ! m)" by (simp add: uint_nat unat_of_nat)
  with n m GetMcsFromCqi_eq [of "int m"] show ?thesis by (simp del: uint_nat)
qed

lemma ns_layer_ok:
  assumes bw: "uint (ns_dlBandwidth s) < 110" and n: "rbgs \<noteq> []" "length rbgs \<le> 27"
    and sliced: "\<exists>k. ns_slicedRbgs rnti (of_nat (length rbgs)) t s = Inr k \<and> (\<forall>n. k = Some n \<longrightarrow> 1 \<le> n \<and> n \<le> 27)"
  shows "\<exists>l'. ns_layer rnti rbgs t s l j = Inr l' \<and> length (ly_tbsSize l') = Suc (length (ly_tbsSize l))"
proof -
  note size = ns_rbgSize_range [OF bw]
  obtain mcs where mcs: "GetMcsFromCqi (uint (ns_worstCqi (sm_find rnti (ns_a30CqiRxed s)) rbgs j)) = Inr mcs"
    "uint (of_nat mcs :: u8) = int mcs" "mcs \<le> 28"
    using GetMcs_u8 [OF ns_worstCqi_le] by blast
  have tb: "\<exists>tb. GetDlTbSizeFromMcs (int mcs) (m * ns_rbgSize s) = Inr tb" if "1 \<le> m" "m \<le> 27" for m
  proof -
    have "0 < m * ns_rbgSize s" using that size by (simp add: zero_less_mult_iff)
    moreover have "m * ns_rbgSize s \<le> 27 * 4" using that size by (intro mult_mono) auto
    ultimately show ?thesis
      using amc_tb_size_bounds [OF Itbs_ok(1), of "int mcs" "m * ns_rbgSize s"] mcs(3) by (auto simp: GetDlTbSizeFromMcs_def)
  qed
  define len where "len = (of_nat (length rbgs) :: u16)"
  have "uint len = int (length rbgs)" using n(2) by (simp add: len_def uint_nat unat_of_nat)
  then obtain tb where tb1: "GetDlTbSizeFromMcs (int mcs) (uint len * ns_rbgSize s) = Inr tb"
    using tb [of "int (length rbgs)"] n by (cases rbgs) auto
  obtain k where k: "ns_slicedRbgs rnti len t s = Inr k" "\<And>n. k = Some n \<Longrightarrow> 1 \<le> n \<and> n \<le> 27"
    using sliced unfolding len_def by blast
  obtain stb where "(case k of None \<Rightarrow> Inr 0
      | Some k \<Rightarrow> GetDlTbSizeFromMcs (uint (of_nat mcs :: u8)) (uint k * ns_rbgSize s)) = Inr stb"
  proof (cases k)
    case (Some m)
    then have "1 \<le> uint m" "uint m \<le> 27" using k(2) [OF Some] by (simp_all add: word_le_def)
    with tb [of "uint m"] Some that show thesis by (auto simp: mcs(2))
  qed (use that in simp)
  with mcs(1) tb1 k(1) show ?thesis
    by (simp add: ns_layer_def Let_def mcs(2) flip: len_def)
qed

section \<open>The steps of one user\<close>

lemma ns_frame_rlc: "ns_frame {} s (ns_UpdateDlRlcBufferInfo rnti lcid bytes s)"
proof (cases "sm_find (rnti, lcid) (ns_rlcBufferReq s)")
  case None
  then show ?thesis by (simp add: ns_UpdateDlRlcBufferInfo_def ns_frame_refl)
next
  case (Some req)
  define s' where "s' = s\<lparr>ns_rlcBufferReq := sm_set (rnti, lcid) (ns_served lcid bytes req) (ns_rlcBufferReq s)\<rparr>"
  have "ns_UpdateDlRlcBufferInfo rnti lcid bytes s = s'" using Some by (simp add: ns_UpdateDlRlcBufferInfo_def s'_def)
  moreover have "ns_frame {} s s'" 
    by (rule ns_frameI) (use Some in \<open>auto simp: s'_def ns_slice_of_def ns_tables_ok_def ns_absent_def ns_users_known_iff
      sm_has_def ns_positive_def\<close>)
  ultimately show ?thesis by simp
qed

lemma ns_store_pdu_ok:
  assumes "ns_tables_ok rnti s" "harqId < HARQ_PROC_NUM" "j < 2"
  shows "\<exists>s'. ns_store_pdu rnti j harqId pdu s = Inr s' \<and> ns_frame {} s s'"
proof (cases "ns_harqOn s")
  case True
  obtain buf where buf: "sm_find rnti (ns_dlHarqRlcPduBuffer s) = Some buf" "length buf = 2"
    "\<forall>layer \<in> set buf. length layer = HARQ_PROC_NUM"
    using assms(1) by (auto simp: ns_tables_ok_def split: option.splits)
  have layer: "length (buf ! j) = HARQ_PROC_NUM" using buf(2,3) assms(3) by simp
  define buf' where "buf' = buf[j := (buf ! j)[harqId := buf ! j ! harqId @ [pdu]]]"
  have buf': "length buf' = 2" "\<forall>layer \<in> set buf'. length layer = HARQ_PROC_NUM"
    using buf layer set_update_subset_insert [of buf j "(buf ! j)[harqId := buf ! j ! harqId @ [pdu]]"]
    unfolding buf'_def by (simp, auto)
  define s' where "s' = s\<lparr>ns_dlHarqRlcPduBuffer := sm_set rnti buf' (ns_dlHarqRlcPduBuffer s)\<rparr>"
  have "ns_store_pdu rnti j harqId pdu s = Inr s'"
    using True buf assms(2,3) layer by (simp add: ns_store_pdu_def s'_def buf'_def)
  moreover have "ns_frame {} s s'"
    by (rule ns_frameI) (use buf(1) buf' in \<open>auto simp: s'_def ns_slice_of_def ns_tables_ok_def ns_absent_def
      ns_users_known_def sm_has_def ns_positive_def\<close>)
  ultimately show ?thesis by blast
qed (simp add: ns_store_pdu_def ns_frame_refl)

lemma ns_frame_tables: "ns_frame A s s' \<Longrightarrow> ns_tables_ok r s \<Longrightarrow> ns_tables_ok r s'"
  by (simp add: ns_frame_def)

lemma ns_frame_empty_trans: "ns_frame {} s s' \<Longrightarrow> ns_frame {} s' s'' \<Longrightarrow> ns_frame {} s s''"
  using ns_frame_trans [of "{}" s s' "{}"] by simp

lemma ns_serve_bearer_ok:
  assumes "ns_tables_ok rnti s" "harqId < HARQ_PROC_NUM" "length tbs \<le> 2"
  shows "\<exists>s' pdus'. ns_serve_bearer rnti harqId tbs lcActives (s, pdus) x = Inr (s', pdus') \<and> ns_frame {} s s'"
proof -
  obtain r lcid req where x: "x = ((r, lcid), req)" by (cases x) auto
  define pduList where "pduList = ns_pdu_list lcid tbs lcActives"
  define step where "step = (\<lambda>s j. ns_store_pdu rnti j harqId (pduList ! j)
    (ns_UpdateDlRlcBufferInfo rnti lcid (pdu_size (pduList ! j)) s))"
  have "\<exists>s'. rfoldl step s [0..<length tbs] = Inr s' \<and> (ns_frame {} s s' \<and> ns_tables_ok rnti s')"
  proof (rule rfoldl_total)
    show "ns_frame {} s s \<and> ns_tables_ok rnti s" using assms(1) ns_frame_refl by simp
  next
    fix s1 j
    assume j: "j \<in> set [0..<length tbs]" and s1: "ns_frame {} s s1 \<and> ns_tables_ok rnti s1"
    define s2 where "s2 = ns_UpdateDlRlcBufferInfo rnti lcid (pdu_size (pduList ! j)) s1"
    have s2: "ns_frame {} s1 s2" unfolding s2_def by (rule ns_frame_rlc)
    have t2: "ns_tables_ok rnti s2" using ns_frame_tables [OF s2] s1 by simp
    have "j < 2" using j assms(3) by simp
    from ns_store_pdu_ok [OF t2 assms(2) this, of "pduList ! j"] obtain s3 where
      s3: "ns_store_pdu rnti j harqId (pduList ! j) s2 = Inr s3" "ns_frame {} s2 s3" by blast
    have "ns_frame {} s s3" using ns_frame_empty_trans [OF _ ns_frame_empty_trans [OF s2 s3(2)]] s1 by simp
    moreover have "ns_tables_ok rnti s3" by (rule ns_frame_tables [OF s3(2) t2])
    ultimately show "\<exists>s'. step s1 j = Inr s' \<and> (ns_frame {} s s' \<and> ns_tables_ok rnti s')"
      using s3(1) by (simp add: step_def s2_def)
  qed
  then obtain s' where s': "rfoldl step s [0..<length tbs] = Inr s'" "ns_frame {} s s'" by blast
  then have "ns_serve_bearer rnti harqId tbs lcActives (s, pdus) x =
      (if r = rnti \<and> rb_active req then Inr (s', pdus @ [pduList]) else Inr (s, pdus))"
    by (simp add: x ns_serve_bearer_def step_def pduList_def)
  with s'(2) ns_frame_refl show ?thesis by (cases "r = rnti \<and> rb_active req") auto
qed

lemma ns_store_dci_ok:
  assumes "ns_tables_ok rnti s" "unat (dci_harqProcess dci) < HARQ_PROC_NUM"
  shows "\<exists>s'. ns_store_dci rnti dci s = Inr s' \<and> ns_frame {} s s'"
proof (cases "ns_harqOn s")
  case True
  obtain dcis timer where d: "sm_find rnti (ns_dlHarqProcessesDciBuffer s) = Some dcis" "length dcis = HARQ_PROC_NUM"
    "sm_find rnti (ns_dlHarqProcessesTimer s) = Some timer" "length timer = HARQ_PROC_NUM"
    using assms(1) by (auto simp: ns_tables_ok_def split: option.splits)
  define i where "i = unat (dci_harqProcess dci)"
  define s' where "s' = s\<lparr>ns_dlHarqProcessesDciBuffer := sm_set rnti (dcis[i := dci]) (ns_dlHarqProcessesDciBuffer s),
    ns_dlHarqProcessesTimer := sm_set rnti (timer[i := 0]) (ns_dlHarqProcessesTimer s)\<rparr>"
  have "ns_store_dci rnti dci s = Inr s'" using True d assms(2) by (simp add: ns_store_dci_def s'_def i_def)
  moreover have "ns_frame {} s s'"
    by (rule ns_frameI) (use d in \<open>auto simp: s'_def ns_slice_of_def ns_tables_ok_def ns_absent_def ns_users_known_def
      sm_has_def ns_positive_def\<close>)
  ultimately show ?thesis by blast
qed (simp add: ns_store_dci_def ns_frame_refl)

lemma ns_note_bytes_ok:
  assumes "ns_slice_of s rnti \<noteq> None"
  shows "\<exists>s'. ns_note_bytes rnti b sb s = Inr s' \<and> ns_frame {} s s'"
proof -
  obtain f where f: "sm_find rnti (ns_flowStatsDl s) = Some f" using assms by (auto simp: ns_slice_of_def)
  define s' where "s' = s\<lparr>ns_flowStatsDl := sm_set rnti (f\<lparr>fp_lastTtiBytes := b, fp_lastTtiSlicedBytes := sb\<rparr>)
    (ns_flowStatsDl s)\<rparr>"
  have "ns_note_bytes rnti b sb s = Inr s'" by (simp add: ns_note_bytes_def f s'_def)
  moreover have "ns_frame {} s s'"
  proof (rule ns_frameI)
    show "ns_positive s'" if "ns_positive s"
      by (rule ns_positive_set [OF that, of "f\<lparr>fp_lastTtiBytes := b, fp_lastTtiSlicedBytes := sb\<rparr>" _ rnti])
        (use ns_positive_find [OF that f] in \<open>simp_all add: s'_def\<close>)
  qed (use f in \<open>simp_all add: s'_def ns_slice_of_def ns_tables_ok_def ns_absent_def ns_users_known_iff smap.wf_set\<close>)
  ultimately show ?thesis by blast
qed

lemma ns_slicedRbgs_frame:
  assumes "ns_frame A s s'"
  shows "ns_slicedRbgs rnti n t s' = ns_slicedRbgs rnti n t s"
proof -
  have "ns_sliceInfo s' = ns_sliceInfo s" "ns_slice_of s' rnti = ns_slice_of s rnti"
    using assms by (simp_all add: ns_frame_def)
  moreover have "ns_slicedRbgs rnti n t s =
      (case sm_find rnti (tt_sliceAllocation t) of
         None \<Rightarrow> Inr None
       | Some own \<Rightarrow>
           (case ns_slice_of s rnti of
              None \<Rightarrow> Inl (Undefined ''slice of a default user'')
            | Some k \<Rightarrow>
                (case sm_find k (ns_sliceInfo s) of
                   None \<Rightarrow> Inr (Some (of_nat (length own)))
                 | Some info \<Rightarrow> Inr (Some (min n (ucast (si_minRbg info)))))))" for s
    by (simp add: ns_slicedRbgs_def ns_slice_of_def split: option.splits)
  ultimately show ?thesis by (simp only:)
qed

section \<open>The message of one user\<close>

definition ns_buildable :: "NsTti \<Rightarrow> NsScheduler \<Rightarrow> u16 \<times> nat list \<Rightarrow> bool" where
  "ns_buildable t s = (\<lambda>(rnti, rbgs). ns_slice_of s rnti \<noteq> None \<and> ns_HarqProcessAvailability rnti s = Inr True \<and>
    ns_tables_ok rnti s \<and> (\<exists>txMode. sm_find rnti (ns_uesTxMode s) = Some txMode \<and> txMode \<le> 6) \<and>
    rbgs \<noteq> [] \<and> length rbgs \<le> 27 \<and>
    (\<exists>k. ns_slicedRbgs rnti (of_nat (length rbgs)) t s = Inr k \<and> (\<forall>n. k = Some n \<longrightarrow> 1 \<le> n \<and> n \<le> 27)))"

lemma ns_buildable_frame:
  assumes "ns_frame A s s'" "rnti \<notin> A" "ns_buildable t s (rnti, rbgs)"
  shows "ns_buildable t s' (rnti, rbgs)"
  using assms(2,3) ns_frame_tables [OF assms(1)] assms(1) unfolding ns_buildable_def prod.case ns_slicedRbgs_frame [OF assms(1)]
  by (simp add: ns_frame_def)

lemma ns_nLayer_ok:
  assumes "sm_find rnti (ns_uesTxMode s) = Some m" "m \<le> 6"
  shows "\<exists>n. ns_nLayer rnti s = Inr n \<and> 1 \<le> n \<and> n \<le> 2"
proof -
  have "m = 0 \<or> m = 1 \<or> m = 2 \<or> m = 3 \<or> m = 4 \<or> m = 5 \<or> m = 6" using assms(2) by unat_arith
  then have "1 \<le> ns_TxMode2LayerNum m \<and> ns_TxMode2LayerNum m \<le> 2" by (auto simp: ns_TxMode2LayerNum_def)
  with assms(1) show ?thesis by (simp add: ns_nLayer_def)
qed

definition ns_message_of :: "u16 \<times> nat list \<Rightarrow> BuildData \<Rightarrow> bool" where
  "ns_message_of = (\<lambda>(rnti, rbgs) b. bd_rnti b = rnti \<and> dci_rnti (bd_dci b) = rnti \<and>
    dci_rbBitmap (bd_dci b) = ns_rbgMask rbgs)"

lemma ns_build_ok:
  assumes bw: "uint (ns_dlBandwidth s) < 110" and x: "ns_buildable t s (rnti, rbgs)"
  shows "\<exists>s' b. ns_build ffr t (s, out) (rnti, rbgs) = Inr (s', out @ [b]) \<and> ns_frame {rnti} s s' \<and>
    ns_message_of (rnti, rbgs) b"
proof -
  have av: "ns_HarqProcessAvailability rnti s = Inr True" using x by (simp add: ns_buildable_def)
  obtain harqId s1 where s1: "ns_UpdateHarqProcessId rnti s = Inr (harqId, s1)" "unat harqId < HARQ_PROC_NUM"
    "ns_frame {rnti} s s1"
    using ns_UpdateHarqProcessId_ok [OF av] by blast
  have bw1: "uint (ns_dlBandwidth s1) < 110" using bw s1(3) by (simp add: ns_frame_def)
  have slice: "ns_slice_of s1 rnti \<noteq> None" and tables: "ns_tables_ok rnti s1"
    and rbgs: "rbgs \<noteq> []" "length rbgs \<le> 27"
    using x s1(3) by (simp_all add: ns_buildable_def ns_frame_def)
  have sliced: "\<exists>k. ns_slicedRbgs rnti (of_nat (length rbgs)) t s1 = Inr k \<and> (\<forall>n. k = Some n \<longrightarrow> 1 \<le> n \<and> n \<le> 27)"
    unfolding ns_slicedRbgs_frame [OF s1(3)] using x by (simp add: ns_buildable_def)
  have "sm_has rnti (ns_flowStatsDl s1)" using slice by (auto simp: ns_slice_of_def sm_has_def)
  then obtain active where active: "ns_PriorityAwareLcActivePerFlow rnti s1 = Inr active"
    using ns_PriorityAware_ok by blast
  define lcActives :: u16 where "lcActives = (if of_nat active = (0 :: u16) then 65535 else of_nat active)"
  obtain m where "sm_find rnti (ns_uesTxMode s1) = Some m" "m \<le> 6"
    using x s1(3) by (auto simp: ns_buildable_def ns_frame_def)
  from ns_nLayer_ok [OF this] obtain n where n: "ns_nLayer rnti s1 = Inr n" "n \<le> 2" by blast
  define l0 where "l0 = \<lparr>ly_mcs = [], ly_tbsSize = [], ly_bytesTxed = 0, ly_slicedBytesTxed = 0\<rparr>"
  have "\<exists>l. rfoldl (ns_layer rnti rbgs t s1) l1 js = Inr l \<and> length (ly_tbsSize l) = length (ly_tbsSize l1) + length js" for l1 js
  proof (induction js arbitrary: l1)
    case (Cons j js)
    obtain l2 where l2: "ns_layer rnti rbgs t s1 l1 j = Inr l2" "length (ly_tbsSize l2) = Suc (length (ly_tbsSize l1))"
      using ns_layer_ok [OF bw1 rbgs sliced] by blast
    from Cons [of l2] l2 show ?case by simp
  qed simp
  from this [of l0 "[0..<n]"] obtain l where l: "rfoldl (ns_layer rnti rbgs t s1) l0 [0..<n] = Inr l"
    "length (ly_tbsSize l) \<le> 2"
    using n(2) by (auto simp: l0_def)
  define serve where "serve = ns_serve_bearer rnti (unat harqId) (ly_tbsSize l) lcActives"
  have "\<exists>r. rfoldl serve (s1, []) (ns_rlcBufferReq s1) = Inr r \<and> (ns_frame {} s1 (fst r) \<and> ns_tables_ok rnti (fst r))"
  proof (rule rfoldl_total)
    fix sp :: "NsScheduler \<times> RlcPdu list list" and y
    assume sp: "ns_frame {} s1 (fst sp) \<and> ns_tables_ok rnti (fst sp)"
    obtain s2 pdus where sp': "sp = (s2, pdus)" by (cases sp)
    from sp have t2: "ns_tables_ok rnti s2" by (simp add: sp')
    from ns_serve_bearer_ok [OF t2 s1(2) l(2)] obtain s3 pdus' where
      s3: "serve (s2, pdus) y = Inr (s3, pdus')" "ns_frame {} s2 s3" unfolding serve_def by blast
    have "ns_frame {} s1 s3" using sp ns_frame_empty_trans [OF _ s3(2)] by (simp add: sp')
    with s3 ns_frame_tables [OF s3(2) t2]
    show "\<exists>r. serve sp y = Inr r \<and> (ns_frame {} s1 (fst r) \<and> ns_tables_ok rnti (fst r))" by (simp add: sp')
  qed (simp add: ns_frame_refl tables)
  then obtain s2 pdus where s2: "rfoldl serve (s1, []) (ns_rlcBufferReq s1) = Inr (s2, pdus)" "ns_frame {} s1 s2"
    "ns_tables_ok rnti s2" by auto
  define dci where "dci = \<lparr>dci_rnti = rnti, dci_rbBitmap = ns_rbgMask rbgs, dci_resAlloc = 0, dci_tbsSize = ly_tbsSize l,
    dci_mcs = ly_mcs l, dci_ndi = replicate n 1, dci_rv = replicate n 0, dci_tpc = ffr_GetTpc ffr rnti,
    dci_harqProcess = harqId\<rparr>"
  obtain s3 where s3: "ns_store_dci rnti dci s2 = Inr s3" "ns_frame {} s2 s3"
    using ns_store_dci_ok [OF s2(3), of dci] s1(2) by (auto simp: dci_def)
  have "ns_slice_of s3 rnti \<noteq> None" using slice s2(2) s3(2) by (simp add: ns_frame_def)
  then obtain s4 where s4: "ns_note_bytes rnti (ly_bytesTxed l) (ly_slicedBytesTxed l) s3 = Inr s4" "ns_frame {} s3 s4"
    using ns_note_bytes_ok by blast
  have "ns_frame {rnti} s s4"
    using ns_frame_trans [OF s1(3) ns_frame_empty_trans [OF s2(2) ns_frame_empty_trans [OF s3(2) s4(2)]]] by simp
  moreover define b where "b = \<lparr>bd_rnti = rnti, bd_dci = dci, bd_rlcPduList = pdus\<rparr>"
  have "ns_build ffr t (s, out) (rnti, rbgs) = Inr (s4, out @ [b])"
    unfolding ns_build_def prod.case s1(1) rbind_simps active Let_def n(1) l(1) [unfolded l0_def]
      s2(1) [unfolded serve_def lcActives_def] s3(1) [unfolded dci_def] s4(1) b_def dci_def by (rule refl)
  moreover have "ns_message_of (rnti, rbgs) b" by (simp add: ns_message_of_def b_def dci_def)
  ultimately show ?thesis by blast
qed

lemma ns_builds_ok:
  assumes "uint (ns_dlBandwidth s) < 110" "\<forall>x \<in> set xs. ns_buildable t s x" "distinct (map fst xs)"
  shows "\<exists>s' bs. rfoldl (ns_build ffr t) (s, out) xs = Inr (s', out @ bs) \<and> ns_frame (fst ` set xs) s s' \<and>
    list_all2 ns_message_of xs bs"
  using assms
proof (induction xs arbitrary: s out)
  case (Cons x xs)
  obtain rnti rbgs where x: "x = (rnti, rbgs)" by (cases x)
  obtain s1 b where s1: "ns_build ffr t (s, out) x = Inr (s1, out @ [b])" "ns_frame {rnti} s s1" "ns_message_of x b"
    using ns_build_ok [OF Cons.prems(1), of t rnti rbgs ffr out] Cons.prems(2) by (auto simp: x)
  have "ns_buildable t s1 y" if "y \<in> set xs" for y
  proof -
    obtain r rbgs' where y: "y = (r, rbgs')" by (cases y)
    have "r \<notin> {rnti}" using Cons.prems(3) that by (force simp: x y)
    from ns_buildable_frame [OF s1(2) this] Cons.prems(2) that show ?thesis by (simp add: y)
  qed
  moreover have "uint (ns_dlBandwidth s1) < 110" using Cons.prems(1) s1(2) by (simp add: ns_frame_def)
  ultimately obtain s2 bs where s2: "rfoldl (ns_build ffr t) (s1, out @ [b]) xs = Inr (s2, (out @ [b]) @ bs)"
    "ns_frame (fst ` set xs) s1 s2" "list_all2 ns_message_of xs bs"
    using Cons.IH [of s1 "out @ [b]"] Cons.prems(3) by auto
  have "ns_frame (fst ` set (x # xs)) s s2" using ns_frame_trans [OF s1(2) s2(2)] by (simp add: x)
  with s1(1,3) s2(1,3) show ?case by (intro exI [of _ s2] exI [of _ "b # bs"]) simp
qed (simp add: ns_frame_refl)

section \<open>The whole subframe\<close>

lemma ns_frame_core:
  assumes "ns_core s' = ns_core (s\<lparr>ns_totalRbs := k\<rparr>)"
  shows "ns_frame A s s'"
  by (rule ns_frameI)
    (simp_all add: ns_core_fields [OF assms] ns_slice_of_def ns_tables_ok_def ns_absent_def ns_users_known_def
      ns_positive_def)

lemma ns_frame_map_flows:
  assumes "\<And>f. fp_sliceId (g f) = fp_sliceId f"
    "\<And>f. 1 < ns_timeWindow s \<Longrightarrow> 0 < fp_lastAvgSliced f \<Longrightarrow> 0 < fp_lastAvgSliced (g f)"
  shows "ns_frame A s (ns_map_flows g s)"
  by (rule ns_frameI)
    (simp_all add: ns_map_flows_def ns_slice_of_def ns_tables_ok_def sm_find_map option.map_comp comp_def assms
      ns_absent_def ns_users_known_iff sm_has_def sm_wf_def sm_keys_def case_prod_beta ns_positive_def)

lemma ns_average_positive:
  assumes "1 < w" "0 < avg"
  shows "0 < ns_average w avg bytes"
proof -
  have "0 < (1 - 1 / w) * avg" using assms by (intro mult_pos_pos) simp_all
  moreover define n where "n = real_of_int (uint bytes)"
  have "0 \<le> n" unfolding n_def by (simp only: of_int_0_le_iff uint_ge_0)
  then have "0 \<le> 1 / w * (n / (1 / 1000))" using assms(1) by simp
  ultimately show ?thesis unfolding ns_average_def n_def by linarith
qed

lemma ns_slice_minimum:
  assumes slices: "ns_slices_ok s" and bw: "uint (ns_dlBandwidth s) < 110"
    and k: "sm_find k (ns_sliceInfo s) = Some info" and i: "i < nat (ns_rbgNum s)" "snd (ns_info s i) = k"
  shows "1 \<le> unat (si_minRbg info)" "unat (si_minRbg info) \<le> 27"
proof -
  have slice: "(k, info) \<in> set (ns_sliceInfo s)" and "ns_slice_ok k info"
    using k slices by (auto simp: sm_find_mem ns_slices_ok_def ns_slices_wf_def)
  from ns_slice_ok_min(1) [OF this(2)]
  have "unat (si_minRbg info) = unat (si_dedicatedRbg info) + unat (si_prioritizedRbg info)"
    by (simp only: uint_nat of_nat_add [symmetric] of_nat_eq_iff)
  with ns_own_count [OF slices slice]
  have card: "card {i. i < nat (ns_rbgNum s) \<and> snd (ns_info s i) = k} = unat (si_minRbg info)" by simp
  have "i \<in> {i. i < nat (ns_rbgNum s) \<and> snd (ns_info s i) = k}" using i by simp
  then have "0 < card {i. i < nat (ns_rbgNum s) \<and> snd (ns_info s i) = k}" by (intro card_gt_0_iff [THEN iffD2]) auto
  with card show "1 \<le> unat (si_minRbg info)" by simp
  have "card {i. i < nat (ns_rbgNum s) \<and> snd (ns_info s i) = k} \<le> card {..<nat (ns_rbgNum s)}" by (rule card_mono) auto
  with card ns_rbgNum_less [OF bw] show "unat (si_minRbg info) \<le> 27" by simp
qed

lemma ns_alloc_rbgs:
  assumes "ns_tti_ok s ffr ra rbgMap t" "uint (ns_dlBandwidth s) < 110" "(rnti, rbgs) \<in> set (tt_allocation t)"
  shows "rbgs = tt_rbgs rnti t" "rbgs \<noteq> []" "distinct rbgs" "\<forall>i \<in> set rbgs. i < nat (ns_rbgNum s)" "length rbgs \<le> 27"
proof -
  have find: "sm_find rnti (tt_allocation t) = Some rbgs"
    using assms(1,3) by (simp add: ns_tti_ok_def sm_find_mem)
  then show eq: "rbgs = tt_rbgs rnti t" by (simp add: tt_rbgs_def)
  have "\<forall>rnti. sm_find rnti (tt_allocation t) \<noteq> Some []" using assms(1) unfolding ns_tti_ok_def by blast
  with find show "rbgs \<noteq> []" by metis
  show dist: "distinct rbgs" using assms(1) unfolding ns_tti_ok_def eq by blast
  show less: "\<forall>i \<in> set rbgs. i < nat (ns_rbgNum s)" using assms(1) unfolding ns_tti_ok_def eq by blast
  have "card (set rbgs) \<le> card {..<nat (ns_rbgNum s)}" using less by (intro card_mono) auto
  with distinct_card [OF dist] ns_rbgNum_less [OF assms(2)] show "length rbgs \<le> 27" by simp
qed

lemma ns_buildable_alloc:
  assumes ready: "ns_ready s" and tables: "\<forall>(rnti, f) \<in> set (ns_flowStatsDl s). ns_tables_ok rnti s"
    and t: "ns_tti_ok s ffr ra rbgMap t" and x: "(rnti, rbgs) \<in> set (tt_allocation t)"
  shows "ns_buildable t s (rnti, rbgs)"
proof -
  have bw: "uint (ns_dlBandwidth s) < 110" and slices: "ns_slices_ok s" using ready by (simp_all add: ns_ready_def)
  note rbgs = ns_alloc_rbgs [OF t bw x]
  define i where "i = hd rbgs"
  have "i \<in> set rbgs" using rbgs(2) by (simp add: i_def)
  then have "i \<in> set (tt_rbgs rnti t)" unfolding rbgs(1) .
  with t have some: "ns_slice_of s rnti \<noteq> None" and av: "ns_HarqProcessAvailability rnti s = Inr True"
    unfolding ns_tti_ok_def by blast+
  then obtain f where f: "sm_find rnti (ns_flowStatsDl s) = Some f" by (auto simp: ns_slice_of_def)
  then have mem: "(rnti, f) \<in> set (ns_flowStatsDl s)" using ready by (simp add: ns_ready_def sm_find_mem)
  then have user: "ns_user_ok s rnti f" and tab: "ns_tables_ok rnti s" using ready tables by (auto simp: ns_ready_def)
  have tx: "\<exists>txMode. sm_find rnti (ns_uesTxMode s) = Some txMode \<and> txMode \<le> 6"
    using user by (auto simp: ns_user_ok_def split: option.splits)
  define n where "n = (of_nat (length rbgs) :: u16)"
  have n: "unat n = length rbgs" using rbgs(5) by (simp add: n_def unat_of_nat)
  have nz: "1 \<le> length rbgs" using rbgs(2) by (cases rbgs) auto
  have "\<exists>k. ns_slicedRbgs rnti n t s = Inr k \<and> (\<forall>n. k = Some n \<longrightarrow> 1 \<le> n \<and> n \<le> 27)"
  proof (cases "sm_find rnti (tt_sliceAllocation t)")
    case None
    then show ?thesis by (simp add: ns_slicedRbgs_def)
  next
    case (Some own)
    have all: "\<forall>rnti own. sm_find rnti (tt_sliceAllocation t) = Some own \<longrightarrow> own \<noteq> [] \<and>
      length own \<le> length (tt_rbgs rnti t) \<and> (\<exists>i < nat (ns_rbgNum s). ns_slice_of s rnti = Some (snd (ns_info s i)))"
      using t unfolding ns_tti_ok_def by simp
    then have "own \<noteq> [] \<and> length own \<le> length rbgs \<and>
        (\<exists>i < nat (ns_rbgNum s). ns_slice_of s rnti = Some (snd (ns_info s i)))"
      using Some rbgs(1) by blast
    moreover have "ns_slice_of s rnti = Some (fp_sliceId f)" using f by (simp add: ns_slice_of_def)
    ultimately obtain i where own: "own \<noteq> []" "length own \<le> length rbgs" "i < nat (ns_rbgNum s)"
      "snd (ns_info s i) = fp_sliceId f" by auto
    show ?thesis
    proof (cases "sm_find (fp_sliceId f) (ns_sliceInfo s)")
      case None
      define m where "m = (of_nat (length own) :: u16)"
      have "length own \<le> 27" "1 \<le> length own" using own rbgs(5) by (cases own; simp)+
      then have "1 \<le> m" "m \<le> 27" by (simp_all add: m_def word_le_nat_alt unat_of_nat)
      with Some f None show ?thesis by (simp add: ns_slicedRbgs_def flip: m_def)
    next
      case info: (Some info)
      note bounds = ns_slice_minimum [OF slices bw info own(3,4)]
      have "unat (ucast (si_minRbg info) :: u16) = unat (si_minRbg info)"
        using bounds by (simp add: unsigned_ucast_eq take_bit_nat_eq_self_iff)
      then have "1 \<le> min n (ucast (si_minRbg info))" "min n (ucast (si_minRbg info)) \<le> 27"
        using bounds n nz rbgs(5) by (auto simp: word_le_nat_alt min_def)
      with Some f info show ?thesis by (simp add: ns_slicedRbgs_def)
    qed
  qed
  with some av tab tx rbgs(2,5) show ?thesis by (simp add: ns_buildable_def flip: n_def)
qed

text \<open>A subframe is scheduled without a failure: every message is for another user, one that the scheduler knows and that
  has no retransmission, it names at least one RBG, only free RBGs, and no two messages name the same one; and the tables
  stay in place.\<close>

definition ns_messages_ok :: "u16 set \<Rightarrow> bool list \<Rightarrow> NsScheduler \<Rightarrow> BuildData list \<Rightarrow> bool" where
  "ns_messages_ok ra rbgMap s out \<longleftrightarrow> distinct (map bd_rnti out) \<and>
    (\<forall>b \<in> set out. sm_has (bd_rnti b) (ns_flowStatsDl s) \<and> bd_rnti b \<notin> ra \<and> dci_rnti (bd_dci b) = bd_rnti b \<and>
      dci_rbBitmap (bd_dci b) \<noteq> 0 \<and>
      (\<forall>i. bit (dci_rbBitmap (bd_dci b)) i \<longrightarrow> i < length rbgMap \<and> \<not> rbgMap ! i)) \<and>
    (\<forall>b \<in> set out. \<forall>b' \<in> set out. bd_rnti b \<noteq> bd_rnti b' \<longrightarrow>
      dci_rbBitmap (bd_dci b) AND dci_rbBitmap (bd_dci b') = 0)"

lemma ns_subframe_ok:
  assumes "ns_ready s" "\<forall>(rnti, f) \<in> set (ns_flowStatsDl s). ns_tables_ok rnti s" "length rbgMap = nat (ns_rbgNum s)"
  shows "\<exists>s' out A. ns_schedule_data ffr ra rbgMap allocated s = Inr (s', out) \<and> ns_messages_ok ra rbgMap s out \<and>
    ns_frame A s s'"
proof (cases "uint allocated = ns_rbgNum s")
  case True
  then show ?thesis using ns_frame_refl by (auto simp: ns_schedule_data_def ns_messages_ok_def)
next
  case False
  have bw: "uint (ns_dlBandwidth s) < 110" using assms(1) by (simp add: ns_ready_def)
  obtain s1 t where t: "ns_allocate ffr ra rbgMap s = Inr (s1, t)" "ns_tti_ok s ffr ra rbgMap t"
    and core: "ns_core s1 = ns_core (s\<lparr>ns_totalRbs := ns_totalRbs s1\<rparr>)"
    using ns_allocate_ok [OF assms(1,3)] by blast
  define s2 where "s2 = ns_map_flows ns_reset_tti s1"
  have "ns_frame {} s1 s2" unfolding s2_def by (rule ns_frame_map_flows) (simp_all add: ns_reset_tti_def)
  from ns_frame_empty_trans [OF ns_frame_core [OF core] this] have frame: "ns_frame {} s s2" .
  have build: "\<forall>x \<in> set (tt_allocation t). ns_buildable t s2 x"
    using ns_buildable_frame [OF frame] ns_buildable_alloc [OF assms(1,2) t(2)] by auto
  have dist: "distinct (map fst (tt_allocation t))"
    using t(2) sm_wf_distinct [of "tt_allocation t"] by (simp add: ns_tti_ok_def sm_keys_def)
  have "uint (ns_dlBandwidth s2) < 110" using bw frame by (simp add: ns_frame_def)
  from ns_builds_ok [OF this build dist, of ffr "[]"] obtain s3 out where
    s3: "rfoldl (ns_build ffr t) (s2, []) (tt_allocation t) = Inr (s3, out)" "list_all2 ns_message_of (tt_allocation t) out"
    "ns_frame (fst ` set (tt_allocation t)) s2 s3"
    by auto
  have sched: "ns_schedule_data ffr ra rbgMap allocated s =
      Inr (ns_map_flows (ns_update_stats (ns_timeWindow s3)) s3, out)"
    using False t(1) s3(1) by (simp add: ns_schedule_data_def s2_def)
  have "map bd_rnti out = map fst (tt_allocation t)"
    using s3(2) by (induction rule: list_all2_induct) (auto simp: ns_message_of_def)
  then have distinct: "distinct (map bd_rnti out)" using dist by simp
  have mask: "\<exists>rbgs. (bd_rnti b, rbgs) \<in> set (tt_allocation t) \<and> dci_rnti (bd_dci b) = bd_rnti b \<and> rbgs \<noteq> [] \<and>
      (\<forall>i. bit (dci_rbBitmap (bd_dci b)) i \<longleftrightarrow> i \<in> set (tt_rbgs (bd_rnti b) t)) \<and> set rbgs = set (tt_rbgs (bd_rnti b) t)"
    if b: "b \<in> set out" for b
  proof -
    obtain x where x: "x \<in> set (tt_allocation t)" "ns_message_of x b"
    proof -
      obtain j where j: "j < length out" "out ! j = b" using b by (auto simp: in_set_conv_nth)
      then have "ns_message_of (tt_allocation t ! j) b" "j < length (tt_allocation t)"
        using list_all2_nthD2 [OF s3(2) j(1)] list_all2_lengthD [OF s3(2)] by simp_all
      then show thesis by (intro that [of "tt_allocation t ! j"]) simp_all
    qed
    obtain rnti rbgs where xs: "x = (rnti, rbgs)" by (cases x)
    with x have r: "(rnti, rbgs) \<in> set (tt_allocation t)" "bd_rnti b = rnti" "dci_rnti (bd_dci b) = rnti"
      "dci_rbBitmap (bd_dci b) = ns_rbgMask rbgs" by (simp_all add: ns_message_of_def)
    note rbgs = ns_alloc_rbgs [OF t(2) bw r(1)]
    have "\<forall>i \<in> set rbgs. i < 32" using rbgs(4) ns_rbgNum_less [OF bw] by force
    from bit_rbgMask [OF rbgs(3) this] r rbgs(1,2) show ?thesis by auto
  qed
  have user: "i < length rbgMap \<and> \<not> rbgMap ! i \<and> rnti \<notin> ra \<and> ns_slice_of s rnti \<noteq> None"
    if "i \<in> set (tt_rbgs rnti t)" for rnti i
    using t(2) that unfolding ns_tti_ok_def assms(3) by blast
  have one: "rnti = rnti'" if "i \<in> set (tt_rbgs rnti t)" "i \<in> set (tt_rbgs rnti' t)" for rnti rnti' i
    using t(2) that unfolding ns_tti_ok_def by blast
  have each: "sm_has (bd_rnti b) (ns_flowStatsDl s) \<and> bd_rnti b \<notin> ra \<and> dci_rnti (bd_dci b) = bd_rnti b \<and>
      dci_rbBitmap (bd_dci b) \<noteq> 0 \<and> (\<forall>i. bit (dci_rbBitmap (bd_dci b)) i \<longrightarrow> i < length rbgMap \<and> \<not> rbgMap ! i)"
    if b: "b \<in> set out" for b
  proof -
    obtain rbgs where m: "dci_rnti (bd_dci b) = bd_rnti b" "rbgs \<noteq> []" "set rbgs = set (tt_rbgs (bd_rnti b) t)"
      "\<And>i. bit (dci_rbBitmap (bd_dci b)) i \<longleftrightarrow> i \<in> set (tt_rbgs (bd_rnti b) t)"
      using mask [OF b] by blast
    then obtain i where i: "i \<in> set (tt_rbgs (bd_rnti b) t)" by (cases rbgs) auto
    with m(4) have "dci_rbBitmap (bd_dci b) \<noteq> 0" by (metis bit_0_eq bot_apply bot_bool_def)
    with m user i show ?thesis by (auto simp: ns_slice_of_def sm_has_def)
  qed
  have disjoint: "dci_rbBitmap (bd_dci b) AND dci_rbBitmap (bd_dci b') = 0"
    if b: "b \<in> set out" "b' \<in> set out" "bd_rnti b \<noteq> bd_rnti b'" for b b'
  proof (rule bit_eqI)
    fix i
    show "bit (dci_rbBitmap (bd_dci b) AND dci_rbBitmap (bd_dci b')) i \<longleftrightarrow> bit (0 :: u32) i"
      using mask [OF b(1)] mask [OF b(2)] one b(3) by (auto simp: bit_and_iff)
  qed
  have "ns_frame {} s3 (ns_map_flows (ns_update_stats (ns_timeWindow s3)) s3)"
    by (rule ns_frame_map_flows) (simp_all add: ns_update_stats_def ns_reset_tti_def ns_average_positive)
  from ns_frame_trans [OF frame ns_frame_trans [OF s3(3) this]] sched distinct each disjoint
  show ?thesis unfolding ns_messages_ok_def by blast
qed

end
