(* ===== verification/Ns_Feedback.thy ===== *)
theory Ns_Feedback
  imports Ns_Messages
begin

text \<open>The answers of the users to downlink transmissions: the part of \<open>DoSchedDlTriggerReq\<close> of
  \<open>ns-pf-ff-mac-scheduler.cc\<close> that retransmits what was not received, before new data is scheduled.

  A retransmission takes the resource block groups (RBGs) of the first transmission when they are free, and as many
  others otherwise; after three of them the process is given up.\<close>

section \<open>Looking for RBGs\<close>

text \<open>The variables of the function: the RBGs in use, their number, the users that have a retransmission, the answers that
  wait for the next subframe, and the messages.\<close>

record NsRetx =
  rx_rbgMap :: "bool list"
  rx_rbgAllocatedNum :: u16
  rx_rntiAllocated :: "u16 set"
  rx_untxed :: "DlInfo list"
  rx_out :: "BuildData list"

definition ns_mask_rbgs :: "u32 \<Rightarrow> nat list" where
  "ns_mask_rbgs rbBitmap = filter (\<lambda>j. bit rbBitmap j) [0..<32]"

fun ns_all_free :: "bool list \<Rightarrow> nat list \<Rightarrow> bool result" where
  "ns_all_free rbgMap [] = Inr True"
| "ns_all_free rbgMap (j # rbgs) = rbind (vec_at rbgMap j) (\<lambda>used. if used then Inr False else ns_all_free rbgMap rbgs)"

text \<open>The loop takes free RBGs behind \<open>start\<close> until there are enough or it is back at \<open>start\<close>.  A start outside of
  the cell is never met again, and after one round nothing is free any more.\<close>

fun ns_find_rbgs :: "nat \<Rightarrow> nat \<Rightarrow> nat \<Rightarrow> nat \<Rightarrow> nat \<Rightarrow> bool list \<times> nat list \<Rightarrow> (bool list \<times> nat list) result" where
  "ns_find_rbgs left want rbgNum start rbgId (rbgMapCopy, found) =
    (if length found < want \<and> start \<noteq> rbgId then
       (case left of
          0 \<Rightarrow> Inl Diverges
        | Suc left \<Rightarrow>
            rbind (vec_at rbgMapCopy rbgId) (\<lambda>used.
            ns_find_rbgs left want rbgNum start ((rbgId + 1) mod rbgNum)
              (if used then (rbgMapCopy, found) else (rbgMapCopy[rbgId := True], found @ [rbgId]))))
     else Inr (rbgMapCopy, found))"

declare ns_find_rbgs.simps [simp del]

definition ns_count_harq :: "u16 \<Rightarrow> NsScheduler \<Rightarrow> NsScheduler result" where
  "ns_count_harq rnti s =
    (case sm_find rnti (ns_flowStatsDl s) of
       None \<Rightarrow> Inl (Fatal ''cannot find this rinti in the m_flowStatsDl'')
     | Some f \<Rightarrow> Inr (s\<lparr>ns_usedHarqRbs := ns_count_rbs (ucast (fp_imsi f)) (ns_rbgSize s) (ns_usedHarqRbs s)\<rparr>))"

definition ns_reserve :: "u16 \<Rightarrow> NsScheduler \<times> NsRetx \<Rightarrow> nat \<Rightarrow> (NsScheduler \<times> NsRetx) result" where
  "ns_reserve rnti = (\<lambda>(s, x) j.
    rbind (vec_upd (rx_rbgMap x) j True) (\<lambda>rbgMap.
    rbind (ns_count_harq rnti s) (\<lambda>s.
    Inr (s, x\<lparr>rx_rbgMap := rbgMap, rx_rbgAllocatedNum := rx_rbgAllocatedNum x + 1\<rparr>))))"

definition ns_move :: "u16 \<Rightarrow> NsScheduler \<times> NsRetx \<Rightarrow> nat \<Rightarrow> (NsScheduler \<times> NsRetx) result" where
  "ns_move rnti = (\<lambda>(s, x) j.
    rbind (ns_count_harq rnti s) (\<lambda>s. Inr (s, x\<lparr>rx_rbgAllocatedNum := rx_rbgAllocatedNum x + 1\<rparr>)))"

definition ns_place :: "DlInfo \<Rightarrow> DlDci \<Rightarrow> NsScheduler \<times> NsRetx \<Rightarrow> (NsScheduler \<times> NsRetx \<times> DlDci) result" where
  "ns_place info dci = (\<lambda>(s, x).
    let dciRbg = ns_mask_rbgs (dci_rbBitmap dci)
    in rbind (ns_all_free (rx_rbgMap x) dciRbg) (\<lambda>free.
       if free then
         rbind (rfoldl (ns_reserve (di_rnti info)) (s, x) dciRbg) (\<lambda>(s, x). Inr (s, x, dci))
       else if ns_rbgNum s = 0 then Inl (Undefined ''modulo of 0'')
       else
         let rbgNum = nat (ns_rbgNum s); start = last dciRbg
         in rbind (ns_find_rbgs rbgNum (length dciRbg) rbgNum start ((start + 1) mod rbgNum) (rx_rbgMap x, [])) (\<lambda>(rbgMapCopy, found).
            if length found = length dciRbg then
              rbind (rfoldl (ns_move (di_rnti info)) (s, x) found) (\<lambda>(s, x).
              Inr (s, x\<lparr>rx_rbgMap := rbgMapCopy\<rparr>, dci\<lparr>dci_rbBitmap := ns_rbgMask found\<rparr>))
            else Inr (s, x\<lparr>rx_untxed := rx_untxed x @ [info]\<rparr>, dci))))"

section \<open>The message\<close>

definition ns_retx_flags :: "HarqStatus list \<Rightarrow> bool list result" where
  "ns_retx_flags harqStatus =
    (if length harqStatus = 1 then Inr [harqStatus ! 0 = NACK, False]
     else
       rbind (vec_at harqStatus 0) (\<lambda>a. rbind (vec_at harqStatus 1) (\<lambda>b. Inr [a = NACK, b = NACK])))"

definition ns_rv :: "DlDci \<Rightarrow> u8 result" where
  "ns_rv dci =
    (if length (dci_rv dci) = 1 then Inr (dci_rv dci ! 0)
     else rbind (vec_at (dci_rv dci) 0) (\<lambda>a. rbind (vec_at (dci_rv dci) 1) (\<lambda>b. Inr (if a > b then a else b))))"

text \<open>One layer of the message.  The code also counts the version up in the stored DCI, but stores the list of the
  message over it at the end.\<close>

definition ns_retx_layer :: "bool list \<Rightarrow> DlDci \<Rightarrow> nat \<Rightarrow> DlDci result" where
  "ns_retx_layer retx dci j =
    rbind (vec_at retx j) (\<lambda>again.
    if again then
      if j \<ge> length (dci_ndi dci) then
        Inr (dci\<lparr>dci_ndi := dci_ndi dci @ [0], dci_rv := dci_rv dci @ [0], dci_mcs := dci_mcs dci @ [0],
          dci_tbsSize := dci_tbsSize dci @ [0]\<rparr>)
      else
        rbind (vec_upd (dci_ndi dci) j 0) (\<lambda>ndi.
        rbind (vec_at (dci_rv dci) j) (\<lambda>rv.
        Inr (dci\<lparr>dci_ndi := ndi, dci_rv := (dci_rv dci)[j := rv + 1]\<rparr>)))
    else
      rbind (vec_upd (dci_ndi dci) j 0) (\<lambda>ndi.
      rbind (vec_upd (dci_rv dci) j 0) (\<lambda>rv.
      rbind (vec_upd (dci_mcs dci) j 0) (\<lambda>mcs.
      rbind (vec_upd (dci_tbsSize dci) j 0) (\<lambda>tbs.
      Inr (dci\<lparr>dci_ndi := ndi, dci_rv := rv, dci_mcs := mcs, dci_tbsSize := tbs\<rparr>))))))"

definition ns_retx_pdu :: "RlcPdu list list list \<Rightarrow> nat \<Rightarrow> bool list \<Rightarrow> nat \<Rightarrow> nat \<Rightarrow> RlcPdu list \<Rightarrow> nat \<Rightarrow> RlcPdu list result" where
  "ns_retx_pdu buf harqProcess retx ndis k pdus j =
    rbind (vec_at retx j) (\<lambda>again.
    if again \<and> \<not> j < ndis then Inr pdus
    else
      rbind (vec_at buf j) (\<lambda>layer.
      rbind (vec_at layer harqProcess) (\<lambda>stored.
      rbind (vec_at stored k) (\<lambda>pdu.
      Inr (pdus @ [if again then pdu else pdu\<lparr>pdu_size := 0\<rparr>])))))"

definition ns_retx_pdus :: "RlcPdu list list list \<Rightarrow> nat \<Rightarrow> bool list \<Rightarrow> nat \<Rightarrow> nat \<Rightarrow> RlcPdu list list result" where
  "ns_retx_pdus buf harqProcess retx ndis nLayers =
    rbind (vec_at buf 0) (\<lambda>layer.
    rbind (vec_at layer harqProcess) (\<lambda>stored.
    rfoldl (\<lambda>out k. rbind (rfoldl (ns_retx_pdu buf harqProcess retx ndis k) [] [0..<nLayers]) (\<lambda>pdus.
      Inr (if pdus = [] then out else out @ [pdus]))) [] [0..<length stored]))"

definition ns_clear_pdus :: "u16 \<Rightarrow> nat \<Rightarrow> NsScheduler \<Rightarrow> NsScheduler result" where
  "ns_clear_pdus rnti harqId s =
    (case sm_find rnti (ns_dlHarqRlcPduBuffer s) of
       None \<Rightarrow> Inl (Fatal ''Unable to find RlcPdcList in HARQ buffer for RNTI '')
     | Some buf \<Rightarrow>
         if list_all (\<lambda>layer. harqId < length layer) buf then
           Inr (s\<lparr>ns_dlHarqRlcPduBuffer := sm_set rnti (map (\<lambda>layer. layer[harqId := []]) buf) (ns_dlHarqRlcPduBuffer s)\<rparr>)
         else Inl OutOfRange)"

text \<open>The process is free again: it was received, or it was sent often enough.\<close>

definition ns_free_process :: "error \<Rightarrow> u16 \<Rightarrow> nat \<Rightarrow> NsScheduler \<Rightarrow> NsScheduler result" where
  "ns_free_process missing rnti harqId s =
    (case sm_find rnti (ns_dlHarqProcessesStatus s) of
       None \<Rightarrow> Inl missing
     | Some status \<Rightarrow>
         rbind (vec_upd status harqId 0) (\<lambda>status.
         ns_clear_pdus rnti harqId (s\<lparr>ns_dlHarqProcessesStatus := sm_set rnti status (ns_dlHarqProcessesStatus s)\<rparr>)))"

definition ns_retransmit :: "DlInfo \<Rightarrow> bool list \<Rightarrow> DlDci list \<Rightarrow> DlDci \<Rightarrow> NsScheduler \<times> NsRetx \<Rightarrow> (NsScheduler \<times> NsRetx) result" where
  "ns_retransmit info retx dcis dci = (\<lambda>(s, x).
    let rnti = di_rnti info; harqId = unat (di_harqProcessId info); nLayers = length (di_harqStatus info)
    in rbind (ns_place info dci (s, x)) (\<lambda>(s, x, dci).
       case sm_find rnti (ns_dlHarqRlcPduBuffer s) of
         None \<Rightarrow> Inl (Fatal ''Unable to find RlcPdcList in HARQ buffer for RNTI '')
       | Some buf \<Rightarrow>
           rbind (rfoldl (ns_retx_layer retx) dci [0..<nLayers]) (\<lambda>dci.
           rbind (ns_retx_pdus buf (unat (dci_harqProcess dci)) retx (length (dci_ndi dci)) nLayers) (\<lambda>pdus.
           (case sm_find rnti (ns_dlHarqProcessesTimer s) of
              None \<Rightarrow> Inl (Fatal ''Unable to find HARQ timer for RNTI '')
            | Some timer \<Rightarrow>
                rbind (vec_upd timer harqId 0) (\<lambda>timer.
                Inr (s\<lparr>ns_dlHarqProcessesDciBuffer := sm_set rnti
                    (dcis[harqId := (dcis ! harqId)\<lparr>dci_rv := dci_rv dci\<rparr>]) (ns_dlHarqProcessesDciBuffer s),
                    ns_dlHarqProcessesTimer := sm_set rnti timer (ns_dlHarqProcessesTimer s)\<rparr>,
                  x\<lparr>rx_out := rx_out x @ [\<lparr>bd_rnti = rnti, bd_dci = dci, bd_rlcPduList = pdus\<rparr>],
                    rx_rntiAllocated := insert rnti (rx_rntiAllocated x)\<rparr>)))))))"

definition ns_feedback :: "NsScheduler \<times> NsRetx \<Rightarrow> DlInfo \<Rightarrow> (NsScheduler \<times> NsRetx) result" where
  "ns_feedback = (\<lambda>(s, x) info.
    let rnti = di_rnti info; harqId = unat (di_harqProcessId info)
    in if rnti \<in> rx_rntiAllocated x then Inr (s, x)
       else
         rbind (ns_retx_flags (di_harqStatus info)) (\<lambda>retx.
         if retx ! 0 \<or> retx ! 1 then
           (case sm_find rnti (ns_dlHarqProcessesDciBuffer s) of
              None \<Rightarrow> Inl (Fatal ''No info find in HARQ buffer for UE '')
            | Some dcis \<Rightarrow>
                rbind (vec_at dcis harqId) (\<lambda>dci.
                rbind (ns_rv dci) (\<lambda>rv.
                if rv = 3 then
                  rbind (ns_free_process (Undefined ''end iterator of the processes'') rnti harqId s) (\<lambda>s. Inr (s, x))
                else ns_retransmit info retx dcis dci (s, x))))
         else
           rbind (ns_free_process (Fatal ''No info find in HARQ buffer for UE '') rnti harqId s) (\<lambda>s. Inr (s, x))))"

text \<open>All answers, those that wait first; without HARQ they are dropped.\<close>

definition ns_feedbacks :: "DlInfo list \<Rightarrow> bool list \<Rightarrow> NsScheduler \<Rightarrow> (NsScheduler \<times> NsRetx) result" where
  "ns_feedbacks dlInfoList rbgMap s =
    rbind (rfoldl ns_feedback (s, \<lparr>rx_rbgMap = rbgMap, rx_rbgAllocatedNum = of_nat (length (filter (\<lambda>b. b) rbgMap)),
        rx_rntiAllocated = {}, rx_untxed = [], rx_out = []\<rparr>)
      (if ns_harqOn s then ns_dlInfoListBuffered s @ dlInfoList else [])) (\<lambda>(s, x).
    Inr (s\<lparr>ns_dlInfoListBuffered := rx_untxed x\<rparr>, x))"

section \<open>A place for the retransmission\<close>

lemma ns_all_free_ok: "\<forall>j \<in> set rbgs. j < length rbgMap \<Longrightarrow> ns_all_free rbgMap rbgs = Inr (\<forall>j \<in> set rbgs. \<not> rbgMap ! j)"
  by (induction rbgs) auto

text \<open>What the search has marked: only RBGs that were free, each once.\<close>

definition ns_taken :: "bool list \<Rightarrow> bool list \<Rightarrow> nat list \<Rightarrow> bool" where
  "ns_taken rbgMap rbgMap' rbgs \<longleftrightarrow> distinct rbgs \<and> (\<forall>i \<in> set rbgs. i < length rbgMap \<and> \<not> rbgMap ! i) \<and>
    length rbgMap' = length rbgMap \<and> (\<forall>i < length rbgMap. rbgMap' ! i \<longleftrightarrow> rbgMap ! i \<or> i \<in> set rbgs)"

lemma ns_taken_Nil [simp]: "ns_taken m m []"
  by (simp add: ns_taken_def)

lemma ns_taken_snoc:
  assumes "ns_taken m m' rbgs" "i < length m" "\<not> m' ! i"
  shows "ns_taken m (m'[i := True]) (rbgs @ [i])"
  using assms by (auto simp: ns_taken_def nth_list_update)

lemma ns_find_rbgs_ok:
  assumes "ns_taken m (fst cf) (snd cf)" "length m = n" "start < n" "rbgId < n"
    "(start + n - rbgId) mod n \<le> left" "length (snd cf) \<le> want"
  shows "\<exists>m' found. ns_find_rbgs left want n start rbgId cf = Inr (m', found) \<and> ns_taken m m' found \<and>
    length found \<le> want"
  using assms
proof (induction left arbitrary: rbgId cf)
  case 0
  then have "start = rbgId"
    by (cases "rbgId \<le> start") (auto simp: mod_if split: if_splits)
  with 0 show ?case by (cases cf) (simp add: ns_find_rbgs.simps)
next
  case (Suc left)
  obtain c f where cf: "cf = (c, f)" by (cases cf)
  show ?case
  proof (cases "length f < want \<and> start \<noteq> rbgId")
    case False
    with Suc.prems show ?thesis by (auto simp: cf ns_find_rbgs.simps)
  next
    case True
    define r where "r = (rbgId + 1) mod n"
    define cf' where "cf' = (if c ! rbgId then (c, f) else (c[rbgId := True], f @ [rbgId]))"
    have "rbgId < length c" using Suc.prems by (simp add: cf ns_taken_def)
    then have step: "ns_find_rbgs (Suc left) want n start rbgId cf = ns_find_rbgs left want n start r cf'"
      using True by (simp add: cf ns_find_rbgs.simps [of "Suc left"] r_def cf'_def)
    have "ns_taken m (fst cf') (snd cf')" "length (snd cf') \<le> want"
      using Suc.prems True ns_taken_snoc [of m c f rbgId] by (auto simp: cf cf'_def)
    moreover have "(start + n - r) mod n \<le> left"
      using Suc.prems(3-5) True unfolding r_def by (cases "rbgId + 1 < n") (auto simp: mod_if split: if_splits)
    moreover have "r < n" using Suc.prems(4) by (simp add: r_def)
    ultimately show ?thesis unfolding step using Suc.IH [of cf' r] Suc.prems(2,3) by simp
  qed
qed

lemma ns_count_harq_ok: "sm_has rnti (ns_flowStatsDl s) \<Longrightarrow> \<exists>u. ns_count_harq rnti s = Inr (s\<lparr>ns_usedHarqRbs := u\<rparr>)"
  by (auto simp: ns_count_harq_def sm_has_def)

lemma ns_reserve_ok:
  assumes "sm_has rnti (ns_flowStatsDl s)" "distinct rbgs" "\<forall>j \<in> set rbgs. j < length (rx_rbgMap x) \<and> \<not> rx_rbgMap x ! j"
  shows "\<exists>u m'. rfoldl (ns_reserve rnti) (s, x) rbgs = Inr (s\<lparr>ns_usedHarqRbs := u\<rparr>,
      x\<lparr>rx_rbgMap := m', rx_rbgAllocatedNum := rx_rbgAllocatedNum x + of_nat (length rbgs)\<rparr>) \<and>
    ns_taken (rx_rbgMap x) m' rbgs"
  using assms
proof (induction rbgs rule: rev_induct)
  case Nil
  have "rfoldl (ns_reserve rnti) (s, x) [] = Inr (s\<lparr>ns_usedHarqRbs := ns_usedHarqRbs s\<rparr>,
      x\<lparr>rx_rbgMap := rx_rbgMap x, rx_rbgAllocatedNum := rx_rbgAllocatedNum x + of_nat (length [])\<rparr>)" by simp
  then show ?case using ns_taken_Nil by blast
next
  case (snoc j rbgs)
  from snoc.prems obtain u m' where IH: "rfoldl (ns_reserve rnti) (s, x) rbgs = Inr (s\<lparr>ns_usedHarqRbs := u\<rparr>,
      x\<lparr>rx_rbgMap := m', rx_rbgAllocatedNum := rx_rbgAllocatedNum x + of_nat (length rbgs)\<rparr>)"
    "ns_taken (rx_rbgMap x) m' rbgs"
    using snoc.IH by (metis (no_types, lifting) Un_iff distinct_append set_append)
  have j: "j < length (rx_rbgMap x)" "\<not> m' ! j" "length m' = length (rx_rbgMap x)"
    using snoc.prems IH(2) by (auto simp: ns_taken_def)
  have "sm_has rnti (ns_flowStatsDl (s\<lparr>ns_usedHarqRbs := u\<rparr>))" using snoc.prems(1) by simp
  from ns_count_harq_ok [OF this] obtain u' where u': "ns_count_harq rnti (s\<lparr>ns_usedHarqRbs := u\<rparr>) = Inr (s\<lparr>ns_usedHarqRbs := u'\<rparr>)"
    by auto
  have "rfoldl (ns_reserve rnti) (s, x) (rbgs @ [j]) = Inr (s\<lparr>ns_usedHarqRbs := u'\<rparr>,
      x\<lparr>rx_rbgMap := m'[j := True], rx_rbgAllocatedNum := rx_rbgAllocatedNum x + of_nat (length (rbgs @ [j]))\<rparr>)"
    unfolding rfoldl_append IH(1) using j u' by (simp add: ns_reserve_def algebra_simps)
  with ns_taken_snoc [OF IH(2) j(1,2)] show ?case by blast
qed

lemma ns_move_ok:
  assumes "sm_has rnti (ns_flowStatsDl s)"
  shows "\<exists>u. rfoldl (ns_move rnti) (s, x) rbgs = Inr (s\<lparr>ns_usedHarqRbs := u\<rparr>,
      x\<lparr>rx_rbgAllocatedNum := rx_rbgAllocatedNum x + of_nat (length rbgs)\<rparr>)"
proof (induction rbgs rule: rev_induct)
  case Nil
  then show ?case by (auto intro!: exI [of _ "ns_usedHarqRbs s"])
next
  case (snoc j rbgs)
  then obtain u where IH: "rfoldl (ns_move rnti) (s, x) rbgs = Inr (s\<lparr>ns_usedHarqRbs := u\<rparr>,
      x\<lparr>rx_rbgAllocatedNum := rx_rbgAllocatedNum x + of_nat (length rbgs)\<rparr>)" by blast
  have "sm_has rnti (ns_flowStatsDl (s\<lparr>ns_usedHarqRbs := u\<rparr>))" using assms by simp
  from ns_count_harq_ok [OF this] obtain u' where u': "ns_count_harq rnti (s\<lparr>ns_usedHarqRbs := u\<rparr>) = Inr (s\<lparr>ns_usedHarqRbs := u'\<rparr>)"
    by auto
  have "rfoldl (ns_move rnti) (s, x) (rbgs @ [j]) = Inr (s\<lparr>ns_usedHarqRbs := u'\<rparr>,
      x\<lparr>rx_rbgAllocatedNum := rx_rbgAllocatedNum x + of_nat (length (rbgs @ [j]))\<rparr>)"
    unfolding rfoldl_append IH(1) using u' by (simp add: ns_move_def algebra_simps)
  then show ?case by blast
qed

lemma set_mask_rbgs: "set (ns_mask_rbgs b) = {i. bit b i}"
proof -
  have "i < 32" if "bit b i" for i using bit_imp_le_length [OF that] by simp
  then show ?thesis by (auto simp: ns_mask_rbgs_def)
qed

lemma distinct_mask_rbgs: "distinct (ns_mask_rbgs b)"
  by (simp add: ns_mask_rbgs_def)

text \<open>The outcomes: as many free RBGs as before are taken, the old ones when they are free, or the answer has to wait.\<close>

definition ns_placed :: "DlInfo \<Rightarrow> DlDci \<Rightarrow> NsRetx \<Rightarrow> NsRetx \<Rightarrow> DlDci \<Rightarrow> bool" where
  "ns_placed info dci x x' dci' \<longleftrightarrow>
    (\<exists>rbgs m'. ns_taken (rx_rbgMap x) m' rbgs \<and> length rbgs = length (ns_mask_rbgs (dci_rbBitmap dci)) \<and>
      dci' = dci\<lparr>dci_rbBitmap := dci_rbBitmap dci'\<rparr> \<and> {i. bit (dci_rbBitmap dci') i} = set rbgs \<and>
      x' = x\<lparr>rx_rbgMap := m', rx_rbgAllocatedNum := rx_rbgAllocatedNum x + of_nat (length rbgs)\<rparr>)"

definition ns_waits :: "DlInfo \<Rightarrow> DlDci \<Rightarrow> NsRetx \<Rightarrow> NsRetx \<Rightarrow> DlDci \<Rightarrow> bool" where
  "ns_waits info dci x x' dci' \<longleftrightarrow> (\<exists>i. bit (dci_rbBitmap dci) i \<and> rx_rbgMap x ! i) \<and>
    x' = x\<lparr>rx_untxed := rx_untxed x @ [info]\<rparr> \<and> dci' = dci"

lemma ns_place_same:
  assumes user: "sm_has (di_rnti info) (ns_flowStatsDl s)" and rbgs: "\<And>i. bit (dci_rbBitmap dci) i \<Longrightarrow> i < length (rx_rbgMap x)"
    and free: "\<And>i. bit (dci_rbBitmap dci) i \<Longrightarrow> \<not> rx_rbgMap x ! i"
  shows "\<exists>u x'. ns_place info dci (s, x) = Inr (s\<lparr>ns_usedHarqRbs := u\<rparr>, x', dci) \<and> ns_placed info dci x x' dci"
proof -
  define old where "old = ns_mask_rbgs (dci_rbBitmap dci)"
  have old: "set old = {i. bit (dci_rbBitmap dci) i}" "distinct old"
    by (simp_all add: old_def set_mask_rbgs distinct_mask_rbgs)
  then have ok: "\<forall>j \<in> set old. j < length (rx_rbgMap x) \<and> \<not> rx_rbgMap x ! j" using rbgs free by simp
  then have "ns_all_free (rx_rbgMap x) old = Inr True" by (simp add: ns_all_free_ok)
  moreover obtain u m' where "rfoldl (ns_reserve (di_rnti info)) (s, x) old = Inr (s\<lparr>ns_usedHarqRbs := u\<rparr>,
      x\<lparr>rx_rbgMap := m', rx_rbgAllocatedNum := rx_rbgAllocatedNum x + of_nat (length old)\<rparr>)"
    and m': "ns_taken (rx_rbgMap x) m' old"
    using ns_reserve_ok [OF user old(2) ok] by blast
  ultimately have "ns_place info dci (s, x) = Inr (s\<lparr>ns_usedHarqRbs := u\<rparr>,
      x\<lparr>rx_rbgMap := m', rx_rbgAllocatedNum := rx_rbgAllocatedNum x + of_nat (length old)\<rparr>, dci)"
    by (simp add: ns_place_def Let_def flip: old_def)
  moreover have "ns_placed info dci x
      (x\<lparr>rx_rbgMap := m', rx_rbgAllocatedNum := rx_rbgAllocatedNum x + of_nat (length old)\<rparr>) dci"
    unfolding ns_placed_def using m' old(1) by (intro exI [of _ old] exI [of _ m']) (simp flip: old_def)
  ultimately show ?thesis by blast
qed

lemma ns_place_other:
  assumes bw: "uint (ns_dlBandwidth s) < 110" and map: "length (rx_rbgMap x) = nat (ns_rbgNum s)"
    and user: "sm_has (di_rnti info) (ns_flowStatsDl s)"
    and rbgs: "\<And>i. bit (dci_rbBitmap dci) i \<Longrightarrow> i < nat (ns_rbgNum s)" and busy: "bit (dci_rbBitmap dci) i" "rx_rbgMap x ! i"
  shows "\<exists>u x' dci'. ns_place info dci (s, x) = Inr (s\<lparr>ns_usedHarqRbs := u\<rparr>, x', dci') \<and>
    (ns_placed info dci x x' dci' \<or> ns_waits info dci x x' dci')"
proof -
  define old where "old = ns_mask_rbgs (dci_rbBitmap dci)"
  define n where "n = nat (ns_rbgNum s)"
  have old: "set old = {i. bit (dci_rbBitmap dci) i}" by (simp add: old_def set_mask_rbgs)
  then have ne: "old \<noteq> []" using busy(1) by auto
  have "\<forall>j \<in> set old. j < length (rx_rbgMap x)" using rbgs map by (simp add: old)
  then have all: "ns_all_free (rx_rbgMap x) old = Inr False" using old busy by (auto simp: ns_all_free_ok)
  have start: "last old < n" using rbgs last_in_set [OF ne] by (simp add: old n_def)
  then have n: "0 < n" "ns_rbgNum s \<noteq> 0" by (auto simp: n_def)
  have "(last old + n - (last old + 1) mod n) mod n \<le> n" using n(1) by (simp add: less_imp_le)
  from ns_find_rbgs_ok [of "rx_rbgMap x" "(rx_rbgMap x, [])" n "last old" "(last old + 1) mod n" n "length old"] this start n map
  obtain m' found where f: "ns_find_rbgs n (length old) n (last old) (Suc (last old) mod n) (rx_rbgMap x, []) = Inr (m', found)"
    "ns_taken (rx_rbgMap x) m' found"
    by (auto simp: n_def)
  obtain u where mv: "rfoldl (ns_move (di_rnti info)) (s, x) found = Inr (s\<lparr>ns_usedHarqRbs := u\<rparr>,
      x\<lparr>rx_rbgAllocatedNum := rx_rbgAllocatedNum x + of_nat (length found)\<rparr>)"
    using ns_move_ok [OF user] by blast
  define x' dci' where "x' = x\<lparr>rx_rbgAllocatedNum := rx_rbgAllocatedNum x + of_nat (length found), rx_rbgMap := m'\<rparr>"
    and "dci' = dci\<lparr>dci_rbBitmap := ns_rbgMask found\<rparr>"
  have "\<forall>i \<in> set found. i < 32" using f(2) ns_rbgNum_less [OF bw] map by (force simp: ns_taken_def)
  then have bits: "{i. bit (dci_rbBitmap dci') i} = set found"
    using bit_rbgMask [of found] f(2) by (auto simp: dci'_def ns_taken_def)
  have place: "ns_place info dci (s, x) =
      (if length found = length old then Inr (s\<lparr>ns_usedHarqRbs := u\<rparr>, x', dci')
       else Inr (s\<lparr>ns_usedHarqRbs := ns_usedHarqRbs s\<rparr>, x\<lparr>rx_untxed := rx_untxed x @ [info]\<rparr>, dci))"
    using n(2) by (simp add: ns_place_def Let_def all f(1) mv x'_def dci'_def flip: old_def n_def)
  show ?thesis
  proof (cases "length found = length old")
    case True
    then have "ns_placed info dci x x' dci'"
      unfolding ns_placed_def using f(2) bits by (intro exI [of _ found] exI [of _ m']) (simp add: x'_def dci'_def flip: old_def)
    with True place show ?thesis by auto
  next
    case False
    have "ns_waits info dci x (x\<lparr>rx_untxed := rx_untxed x @ [info]\<rparr>) dci" using busy by (auto simp: ns_waits_def)
    with False place show ?thesis by (intro exI [of _ "ns_usedHarqRbs s"]) auto
  qed
qed

lemma ns_place_ok:
  assumes "uint (ns_dlBandwidth s) < 110" "length (rx_rbgMap x) = nat (ns_rbgNum s)" "sm_has (di_rnti info) (ns_flowStatsDl s)"
    "\<And>i. bit (dci_rbBitmap dci) i \<Longrightarrow> i < nat (ns_rbgNum s)"
  shows "\<exists>u x' dci'. ns_place info dci (s, x) = Inr (s\<lparr>ns_usedHarqRbs := u\<rparr>, x', dci') \<and>
    (ns_placed info dci x x' dci' \<or> ns_waits info dci x x' dci')"
proof (cases "\<exists>i. bit (dci_rbBitmap dci) i \<and> rx_rbgMap x ! i")
  case True
  with ns_place_other [OF assms] show ?thesis by blast
next
  case False
  with ns_place_same [OF assms(3), of dci x] assms(2,4) show ?thesis by metis
qed

end
