(* ===== verification/Ns_Retransmission.thy ===== *)
theory Ns_Retransmission
  imports Ns_Feedback
begin

text \<open>What the answers of a subframe lead to (\<open>Ns_Feedback\<close>): none of them fails when they belong to stored transmissions;
  the retransmissions are for different users and those that found a place do not share RBGs; a process is sent up to four
  times; and what happens without room.\<close>

section \<open>The message of a retransmission\<close>

definition ns_layers_ok :: "nat \<Rightarrow> DlDci \<Rightarrow> bool" where
  "ns_layers_ok n dci \<longleftrightarrow> n \<le> length (dci_ndi dci) \<and> n \<le> length (dci_rv dci) \<and> n \<le> length (dci_mcs dci) \<and>
    n \<le> length (dci_tbsSize dci)"

definition ns_same_shape :: "DlDci \<Rightarrow> DlDci \<Rightarrow> bool" where
  "ns_same_shape dci dci' \<longleftrightarrow> dci_rbBitmap dci' = dci_rbBitmap dci \<and> dci_harqProcess dci' = dci_harqProcess dci \<and>
    length (dci_ndi dci') = length (dci_ndi dci) \<and> length (dci_rv dci') = length (dci_rv dci) \<and>
    length (dci_mcs dci') = length (dci_mcs dci) \<and> length (dci_tbsSize dci') = length (dci_tbsSize dci)"

lemma ns_retx_layers_ok:
  assumes "ns_layers_ok n dci" "n \<le> length retx"
  shows "\<exists>dci'. rfoldl (ns_retx_layer retx) dci [0..<n] = Inr dci' \<and> ns_same_shape dci dci'"
proof (rule rfoldl_total)
  show "ns_same_shape dci dci" by (simp add: ns_same_shape_def)
  show "\<exists>dci2. ns_retx_layer retx dci1 j = Inr dci2 \<and> ns_same_shape dci dci2"
    if "j \<in> set [0..<n]" "ns_same_shape dci dci1" for dci1 j
    using that assms by (auto simp: ns_retx_layer_def ns_layers_ok_def ns_same_shape_def)
qed

text \<open>The stored PDUs: every layer has at least those of the first one.\<close>

definition ns_pdus_ok :: "nat \<Rightarrow> nat \<Rightarrow> RlcPdu list list list \<Rightarrow> bool" where
  "ns_pdus_ok n harqId buf \<longleftrightarrow> n \<le> length buf \<and> 0 < length buf \<and> (\<forall>layer \<in> set buf. harqId < length layer) \<and>
    (\<forall>j < n. length (buf ! 0 ! harqId) \<le> length (buf ! j ! harqId))"

lemma ns_retx_pdus_ok:
  assumes "ns_pdus_ok n harqId buf" "n \<le> length retx"
  shows "\<exists>pdus. ns_retx_pdus buf harqId retx ndis n = Inr pdus"
proof -
  have in_layer: "harqId < length (buf ! j)" if "j < length buf" for j using assms(1) that by (simp add: ns_pdus_ok_def)
  have one: "\<exists>pdus. rfoldl (ns_retx_pdu buf harqId retx ndis k) [] [0..<n] = Inr pdus \<and> True"
    if "k < length (buf ! 0 ! harqId)" for k
  proof (rule rfoldl_total)
    fix pdus :: "RlcPdu list" and j
    assume "j \<in> set [0..<n]"
    then have "j < n" "j < length buf" "j < length retx" "k < length (buf ! j ! harqId)"
      using assms that by (auto simp: ns_pdus_ok_def intro: less_le_trans)
    then show "\<exists>pdus'. ns_retx_pdu buf harqId retx ndis k pdus j = Inr pdus' \<and> True"
      by (auto simp: ns_retx_pdu_def in_layer)
  qed simp
  have "\<exists>out. rfoldl (\<lambda>out k. rbind (rfoldl (ns_retx_pdu buf harqId retx ndis k) [] [0..<n]) (\<lambda>pdus.
      Inr (if pdus = [] then out else out @ [pdus]))) [] [0..<length (buf ! 0 ! harqId)] = Inr out \<and> True"
  proof (rule rfoldl_total)
    fix out :: "RlcPdu list list" and k
    assume "k \<in> set [0..<length (buf ! 0 ! harqId)]"
    with one [of k] show "\<exists>out'. rbind (rfoldl (ns_retx_pdu buf harqId retx ndis k) [] [0..<n]) (\<lambda>pdus.
        Inr (if pdus = [] then out else out @ [pdus])) = Inr out' \<and> True" by auto
  qed simp
  moreover have "0 < length buf" using assms(1) by (simp add: ns_pdus_ok_def)
  ultimately show ?thesis by (simp add: ns_retx_pdus_def in_layer)
qed

lemma ns_retx_pdus_single:
  assumes "ns_pdus_ok 1 harqId buf" "0 < ndis"
  shows "ns_retx_pdus buf harqId [True, False] ndis 1 = Inr (map (\<lambda>pdu. [pdu]) (buf ! 0 ! harqId))"
proof -
  have b: "0 < length buf" "harqId < length (buf ! 0)" using assms(1) by (simp_all add: ns_pdus_ok_def)
  have "ns_retx_pdus buf harqId [True, False] ndis 1 =
      Inr ([] @ map (\<lambda>k. [buf ! 0 ! harqId ! k]) [0..<length (buf ! 0 ! harqId)])"
    unfolding ns_retx_pdus_def using b assms(2)
    by (simp add: ns_retx_pdu_def) (rule rfoldl_map [of _ _ "\<lambda>k. [buf ! 0 ! harqId ! k]" "[]", simplified], simp)
  also have "\<dots> = Inr (map (\<lambda>pdu. [pdu]) (buf ! 0 ! harqId))" by (auto intro: nth_equalityI)
  finally show ?thesis .
qed

section \<open>An answer\<close>

text \<open>An answer that belongs to a stored transmission: of a known user, one flag for each of one or two layers, a process
  whose message was sent in RBGs of the cell with these layers, and PDUs for each of them.\<close>

definition ns_feedback_ok :: "NsScheduler \<Rightarrow> DlInfo \<Rightarrow> bool" where
  "ns_feedback_ok s info \<longleftrightarrow>
    (let rnti = di_rnti info; harqId = unat (di_harqProcessId info); n = length (di_harqStatus info)
     in sm_has rnti (ns_flowStatsDl s) \<and> harqId < HARQ_PROC_NUM \<and> (n = 1 \<or> n = 2) \<and>
       (\<exists>dcis. sm_find rnti (ns_dlHarqProcessesDciBuffer s) = Some dcis \<and> harqId < length dcis \<and>
          ns_layers_ok n (dcis ! harqId) \<and> unat (dci_harqProcess (dcis ! harqId)) = harqId \<and>
          (\<forall>i. bit (dci_rbBitmap (dcis ! harqId)) i \<longrightarrow> i < nat (ns_rbgNum s))) \<and>
       (\<exists>buf. sm_find rnti (ns_dlHarqRlcPduBuffer s) = Some buf \<and> ns_pdus_ok n harqId buf))"

lemma ns_retx_flags_ok:
  "length st = 1 \<or> length st = 2 \<Longrightarrow> \<exists>a b. ns_retx_flags st = Inr [a, b]"
  by (auto simp: ns_retx_flags_def)

lemma ns_rv_ok: "0 < length (dci_rv dci) \<Longrightarrow> \<exists>rv. ns_rv dci = Inr rv"
  by (cases "dci_rv dci"; cases "tl (dci_rv dci)") (auto simp: ns_rv_def)

text \<open>What an answer may change: the tables keep their sizes, and other answers stay valid.\<close>

definition ns_bitmaps :: "NsScheduler \<Rightarrow> u16 \<Rightarrow> u32 list option" where
  "ns_bitmaps s rnti = map_option (map dci_rbBitmap) (sm_find rnti (ns_dlHarqProcessesDciBuffer s))"

definition ns_answered :: "NsScheduler \<Rightarrow> NsScheduler \<Rightarrow> bool" where
  "ns_answered s s' \<longleftrightarrow> ns_frame UNIV s s' \<and> ns_flowStatsDl s' = ns_flowStatsDl s \<and> ns_rlcBufferReq s' = ns_rlcBufferReq s \<and>
    ns_dlInfoListBuffered s' = ns_dlInfoListBuffered s \<and> ns_bitmaps s' = ns_bitmaps s \<and>
    (\<forall>info. ns_feedback_ok s info \<longrightarrow> ns_feedback_ok s' info)"

lemma ns_answered_refl: "ns_answered s s"
  by (simp add: ns_answered_def ns_frame_refl)

lemma ns_answered_trans: "ns_answered s s' \<Longrightarrow> ns_answered s' s'' \<Longrightarrow> ns_answered s s''"
  unfolding ns_answered_def using ns_frame_trans [of UNIV s s' UNIV s''] by auto

definition ns_users_ok :: "NsScheduler \<Rightarrow> bool" where
  "ns_users_ok s \<longleftrightarrow> uint (ns_dlBandwidth s) < 110 \<and> (\<forall>r. sm_has r (ns_flowStatsDl s) \<longrightarrow> ns_harq_ok r s \<and> ns_tables_ok r s)"

lemma ns_users_ok_answered: "ns_users_ok s \<Longrightarrow> ns_answered s s' \<Longrightarrow> ns_users_ok s'"
  by (simp add: ns_users_ok_def ns_answered_def ns_frame_def)

lemma ns_answered_used: "ns_answered s (s\<lparr>ns_usedHarqRbs := u\<rparr>)"
proof -
  have "ns_frame UNIV s (s\<lparr>ns_usedHarqRbs := u\<rparr>)"
    by (rule ns_frameI) (simp_all add: ns_slice_of_def ns_tables_ok_def ns_absent_def ns_users_known_def ns_positive_def)
  moreover have "ns_feedback_ok (s\<lparr>ns_usedHarqRbs := u\<rparr>) info = ns_feedback_ok s info" for info
    by (simp add: ns_feedback_ok_def ns_rbgNum_def ns_rbgSize_def)
  ultimately show ?thesis by (simp add: ns_answered_def ns_bitmaps_def fun_eq_iff)
qed

lemma ns_pdus_ok_clear:
  assumes "ns_pdus_ok n h buf"
  shows "ns_pdus_ok n h (map (\<lambda>layer. layer[harqId := []]) buf)"
proof -
  have "(buf ! j)[harqId := []] ! h = (if harqId = h then [] else buf ! j ! h)" if "j < length buf" for j
    using assms that by (simp add: ns_pdus_ok_def nth_list_update)
  with assms show ?thesis by (auto simp: ns_pdus_ok_def)
qed

lemma ns_answered_tables:
  assumes "sm_find rnti (ns_dlHarqProcessesStatus s) = Some status" "sm_find rnti (ns_dlHarqRlcPduBuffer s) = Some buf"
  shows "ns_answered s (s\<lparr>ns_dlHarqProcessesStatus := sm_set rnti (status[harqId := 0]) (ns_dlHarqProcessesStatus s),
    ns_dlHarqRlcPduBuffer := sm_set rnti (map (\<lambda>layer. layer[harqId := []]) buf) (ns_dlHarqRlcPduBuffer s)\<rparr>)"
    (is "ns_answered s ?s'")
proof -
  have "ns_slice_of ?s' r = ns_slice_of s r" "ns_tables_ok r s \<Longrightarrow> ns_tables_ok r ?s'" "ns_absent r s \<Longrightarrow> ns_absent r ?s'"
    "ns_harq_ok r s \<Longrightarrow> ns_harq_ok r ?s'" for r
    using assms by (auto simp: ns_slice_of_def ns_tables_ok_def ns_absent_def sm_has_def ns_harq_ok_def split: option.splits)
  then have "ns_frame UNIV s ?s'" by (simp add: ns_frame_def ns_users_known_def ns_positive_def)
  moreover have "ns_feedback_ok ?s' info" if "ns_feedback_ok s info" for info
    using that assms(2) ns_pdus_ok_clear [of _ _ buf harqId]
    by (auto simp: ns_feedback_ok_def Let_def ns_rbgNum_def ns_rbgSize_def)
  ultimately show ?thesis by (simp add: ns_answered_def ns_bitmaps_def fun_eq_iff)
qed

lemma ns_free_process_ok:
  assumes "ns_users_ok s" "ns_feedback_ok s info"
  shows "\<exists>s' status. ns_free_process e (di_rnti info) (unat (di_harqProcessId info)) s = Inr s' \<and> ns_answered s s' \<and>
    sm_find (di_rnti info) (ns_dlHarqProcessesStatus s') = Some status \<and> status ! unat (di_harqProcessId info) = 0"
proof -
  define rnti harqId where "rnti = di_rnti info" and "harqId = unat (di_harqProcessId info)"
  have "sm_has rnti (ns_flowStatsDl s)" using assms(2) by (simp add: ns_feedback_ok_def Let_def rnti_def)
  then have "ns_harq_ok rnti s" using assms(1) by (simp add: ns_users_ok_def)
  then obtain status where st: "sm_find rnti (ns_dlHarqProcessesStatus s) = Some status" "length status = HARQ_PROC_NUM"
    by (auto simp: ns_harq_ok_def split: option.splits)
  obtain buf where buf: "sm_find rnti (ns_dlHarqRlcPduBuffer s) = Some buf" "\<forall>layer \<in> set buf. harqId < length layer"
    and h: "harqId < HARQ_PROC_NUM"
    using assms(2) by (auto simp: ns_feedback_ok_def Let_def rnti_def harqId_def ns_pdus_ok_def)
  define s' where "s' = s\<lparr>ns_dlHarqProcessesStatus := sm_set rnti (status[harqId := 0]) (ns_dlHarqProcessesStatus s),
    ns_dlHarqRlcPduBuffer := sm_set rnti (map (\<lambda>layer. layer[harqId := []]) buf) (ns_dlHarqRlcPduBuffer s)\<rparr>"
  have "ns_free_process e rnti harqId s = Inr s'"
    using st buf h by (simp add: ns_free_process_def ns_clear_pdus_def list_all_iff s'_def)
  moreover have "ns_answered s s'" unfolding s'_def by (rule ns_answered_tables [OF st(1) buf(1)])
  moreover have "sm_find rnti (ns_dlHarqProcessesStatus s') = Some (status[harqId := 0])" by (simp add: s'_def)
  ultimately show ?thesis using st(2) h unfolding rnti_def harqId_def by auto
qed

lemma ns_answered_store:
  assumes "sm_find rnti (ns_dlHarqProcessesDciBuffer s) = Some dcis" "length rv = length (dci_rv (dcis ! harqId))"
    "sm_find rnti (ns_dlHarqProcessesTimer s) = Some timer"
  shows "ns_answered s (s\<lparr>ns_dlHarqProcessesDciBuffer := sm_set rnti
      (dcis[harqId := (dcis ! harqId)\<lparr>dci_rv := rv\<rparr>]) (ns_dlHarqProcessesDciBuffer s),
    ns_dlHarqProcessesTimer := sm_set rnti (timer[harqId := 0]) (ns_dlHarqProcessesTimer s)\<rparr>)"
    (is "ns_answered s ?s'")
proof -
  have "ns_slice_of ?s' r = ns_slice_of s r" "ns_tables_ok r s \<Longrightarrow> ns_tables_ok r ?s'" "ns_absent r s \<Longrightarrow> ns_absent r ?s'"
    "ns_harq_ok r s \<Longrightarrow> ns_harq_ok r ?s'" for r
    using assms(1,3) by (auto simp: ns_slice_of_def ns_tables_ok_def ns_absent_def sm_has_def ns_harq_ok_def split: option.splits)
  then have "ns_frame UNIV s ?s'" by (simp add: ns_frame_def ns_users_known_def ns_positive_def)
  moreover have "ns_feedback_ok ?s' info" if "ns_feedback_ok s info" for info
  proof -
    define dci where "dci h = dcis[harqId := (dcis ! harqId)\<lparr>dci_rv := rv\<rparr>] ! h" for h
    have "ns_layers_ok n (dci h) = ns_layers_ok n (dcis ! h)" "dci_harqProcess (dci h) = dci_harqProcess (dcis ! h)"
      "dci_rbBitmap (dci h) = dci_rbBitmap (dcis ! h)" if "h < length dcis" for h n
      using that assms(2) by (cases "h = harqId"; simp add: dci_def ns_layers_ok_def)+
    then show ?thesis
      using that assms(1) by (auto simp: ns_feedback_ok_def Let_def ns_rbgNum_def ns_rbgSize_def simp flip: dci_def)
  qed
  moreover have "map dci_rbBitmap (dcis[harqId := (dcis ! harqId)\<lparr>dci_rv := rv\<rparr>]) = map dci_rbBitmap dcis"
    by (cases "harqId < length dcis") (auto intro: nth_equalityI simp: nth_list_update)
  then have "ns_bitmaps ?s' = ns_bitmaps s" using assms(1) by (auto simp: ns_bitmaps_def fun_eq_iff)
  ultimately show ?thesis by (simp add: ns_answered_def)
qed

section \<open>All answers\<close>

text \<open>A message is in its place unless its answer waits.\<close>

definition ns_in_place :: "NsRetx \<Rightarrow> BuildData \<Rightarrow> bool" where
  "ns_in_place x b \<longleftrightarrow> b \<in> set (rx_out x) \<and> bd_rnti b \<notin> di_rnti ` set (rx_untxed x)"

definition bd_rbgs :: "BuildData \<Rightarrow> nat set" where
  "bd_rbgs b = {i. bit (dci_rbBitmap (bd_dci b)) i}"

definition ns_retx_ok :: "NsScheduler \<Rightarrow> bool list \<Rightarrow> NsRetx \<Rightarrow> bool" where
  "ns_retx_ok s rbgMap x \<longleftrightarrow> length (rx_rbgMap x) = length rbgMap \<and>
    distinct (map bd_rnti (rx_out x)) \<and> bd_rnti ` set (rx_out x) = rx_rntiAllocated x \<and>
    di_rnti ` set (rx_untxed x) \<subseteq> rx_rntiAllocated x \<and>
    (\<forall>b. ns_in_place x b \<longrightarrow> (\<forall>i \<in> bd_rbgs b. i < length rbgMap \<and> \<not> rbgMap ! i)) \<and>
    (\<forall>b b'. ns_in_place x b \<and> ns_in_place x b' \<and> bd_rnti b \<noteq> bd_rnti b' \<longrightarrow> bd_rbgs b \<inter> bd_rbgs b' = {}) \<and>
    (\<forall>i < length rbgMap. rx_rbgMap x ! i \<longleftrightarrow> rbgMap ! i \<or> (\<exists>b. ns_in_place x b \<and> i \<in> bd_rbgs b)) \<and>
    (\<forall>b \<in> set (rx_out x). sm_has (bd_rnti b) (ns_flowStatsDl s) \<and>
      (\<exists>masks. ns_bitmaps s (bd_rnti b) = Some masks \<and> unat (dci_harqProcess (bd_dci b)) < length masks \<and>
        card (bd_rbgs b) = card {i. bit (masks ! unat (dci_harqProcess (bd_dci b))) i}))"

lemma ns_retx_ok_start:
  "ns_retx_ok s rbgMap \<lparr>rx_rbgMap = rbgMap, rx_rbgAllocatedNum = n, rx_rntiAllocated = {}, rx_untxed = [], rx_out = []\<rparr>"
  by (simp add: ns_retx_ok_def ns_in_place_def)

text \<open>A new message, in its place.\<close>

lemma ns_retx_ok_placed:
  assumes ok: "ns_retx_ok s rbgMap x" and new: "bd_rnti b \<notin> rx_rntiAllocated x"
    and taken: "ns_taken (rx_rbgMap x) m' rbgs" "bd_rbgs b = set rbgs" "sm_has (bd_rnti b) (ns_flowStatsDl s)"
    "ns_bitmaps s (bd_rnti b) = Some masks" "unat (dci_harqProcess (bd_dci b)) < length masks"
    "card (bd_rbgs b) = card {i. bit (masks ! unat (dci_harqProcess (bd_dci b))) i}"
  shows "ns_retx_ok s rbgMap (x\<lparr>rx_rbgMap := m', rx_rbgAllocatedNum := k, rx_out := rx_out x @ [b],
    rx_rntiAllocated := insert (bd_rnti b) (rx_rntiAllocated x)\<rparr>)" (is "ns_retx_ok s rbgMap ?x'")
proof -
  have out: "c \<in> set (rx_out x) \<Longrightarrow> bd_rnti c \<noteq> bd_rnti b" "bd_rnti b \<notin> di_rnti ` set (rx_untxed x)" for c
    using ok new imageI [of c "set (rx_out x)" bd_rnti] by (auto simp: ns_retx_ok_def)
  have place: "ns_in_place ?x' c \<longleftrightarrow> ns_in_place x c \<or> c = b" for c
    using out by (auto simp: ns_in_place_def)
  have len: "length (rx_rbgMap x) = length rbgMap" using ok by (simp add: ns_retx_ok_def)
  have used: "rx_rbgMap x ! i" if "ns_in_place x c" "i \<in> bd_rbgs c" for c i
    using ok that unfolding ns_retx_ok_def by metis
  have fresh: "i < length rbgMap \<and> \<not> rx_rbgMap x ! i \<and> \<not> rbgMap ! i" if "i \<in> bd_rbgs b" for i
    using taken(1,2) that ok len unfolding ns_taken_def ns_retx_ok_def by metis
  have disjoint: "bd_rbgs c \<inter> bd_rbgs b = {}" if "ns_in_place x c" for c using used [OF that] fresh by auto
  show ?thesis
    unfolding ns_retx_ok_def place
  proof (intro conjI)
    show "length (rx_rbgMap ?x') = length rbgMap" using taken(1) len by (simp add: ns_taken_def)
    show "distinct (map bd_rnti (rx_out ?x'))" "bd_rnti ` set (rx_out ?x') = rx_rntiAllocated ?x'"
      "di_rnti ` set (rx_untxed ?x') \<subseteq> rx_rntiAllocated ?x'"
      using ok new by (auto simp: ns_retx_ok_def)
    show "\<forall>c. ns_in_place x c \<or> c = b \<longrightarrow> (\<forall>i \<in> bd_rbgs c. i < length rbgMap \<and> \<not> rbgMap ! i)"
      using ok fresh unfolding ns_retx_ok_def by metis
    show "\<forall>c c'. (ns_in_place x c \<or> c = b) \<and> (ns_in_place x c' \<or> c' = b) \<and> bd_rnti c \<noteq> bd_rnti c' \<longrightarrow>
        bd_rbgs c \<inter> bd_rbgs c' = {}"
      using ok disjoint unfolding ns_retx_ok_def by (metis inf_commute)
    show "\<forall>i < length rbgMap. rx_rbgMap ?x' ! i \<longleftrightarrow> rbgMap ! i \<or> (\<exists>c. (ns_in_place x c \<or> c = b) \<and> i \<in> bd_rbgs c)"
    proof (intro allI impI)
      fix i
      assume i: "i < length rbgMap"
      have "m' ! i \<longleftrightarrow> rx_rbgMap x ! i \<or> i \<in> bd_rbgs b" using taken(1,2) i len by (simp add: ns_taken_def)
      moreover have "rx_rbgMap x ! i \<longleftrightarrow> rbgMap ! i \<or> (\<exists>c. ns_in_place x c \<and> i \<in> bd_rbgs c)"
        using ok i unfolding ns_retx_ok_def by blast
      ultimately show "rx_rbgMap ?x' ! i \<longleftrightarrow> rbgMap ! i \<or> (\<exists>c. (ns_in_place x c \<or> c = b) \<and> i \<in> bd_rbgs c)" by auto
    qed
    show "\<forall>c \<in> set (rx_out ?x'). sm_has (bd_rnti c) (ns_flowStatsDl s) \<and>
      (\<exists>masks. ns_bitmaps s (bd_rnti c) = Some masks \<and> unat (dci_harqProcess (bd_dci c)) < length masks \<and>
        card (bd_rbgs c) = card {i. bit (masks ! unat (dci_harqProcess (bd_dci c))) i})"
      using ok taken(3-) by (simp add: ns_retx_ok_def)
  qed
qed

text \<open>A new message whose answer waits.\<close>

lemma ns_retx_ok_waits:
  assumes ok: "ns_retx_ok s rbgMap x" and new: "bd_rnti b \<notin> rx_rntiAllocated x" "di_rnti info = bd_rnti b"
    "sm_has (bd_rnti b) (ns_flowStatsDl s)"
    "ns_bitmaps s (bd_rnti b) = Some masks" "unat (dci_harqProcess (bd_dci b)) < length masks"
    "card (bd_rbgs b) = card {i. bit (masks ! unat (dci_harqProcess (bd_dci b))) i}"
  shows "ns_retx_ok s rbgMap (x\<lparr>rx_untxed := rx_untxed x @ [info], rx_out := rx_out x @ [b],
    rx_rntiAllocated := insert (bd_rnti b) (rx_rntiAllocated x)\<rparr>)" (is "ns_retx_ok s rbgMap ?x'")
proof -
  have out: "c \<in> set (rx_out x) \<Longrightarrow> bd_rnti c \<noteq> bd_rnti b" for c
    using ok new(1) imageI [of c "set (rx_out x)" bd_rnti] by (auto simp: ns_retx_ok_def)
  have place: "ns_in_place ?x' c \<longleftrightarrow> ns_in_place x c" for c using out new(2) by (auto simp: ns_in_place_def)
  show ?thesis
    using ok new by (auto simp: ns_retx_ok_def place)
qed

lemma ns_retx_ok_answered: "ns_answered s s' \<Longrightarrow> ns_retx_ok s' rbgMap x = ns_retx_ok s rbgMap x"
  by (simp add: ns_retx_ok_def ns_answered_def)

text \<open>The retransmission itself: it runs to its end, with a place or without.\<close>

lemma ns_place_fields:
  assumes "ns_placed info dci x x1 dci1 \<or> ns_waits info dci x x1 dci1"
  obtains m where "dci1 = dci\<lparr>dci_rbBitmap := m\<rparr>" "rx_out x1 = rx_out x" "rx_rntiAllocated x1 = rx_rntiAllocated x"
  using assms that [of "dci_rbBitmap dci"] by (auto simp: ns_placed_def ns_waits_def)

lemma ns_retransmit_run:
  assumes users: "ns_users_ok s" and fb: "ns_feedback_ok s info" and map: "length (rx_rbgMap x) = nat (ns_rbgNum s)"
    and dcis: "sm_find (di_rnti info) (ns_dlHarqProcessesDciBuffer s) = Some dcis" "dcis ! unat (di_harqProcessId info) = dci"
    and retx: "length (di_harqStatus info) \<le> length retx"
  obtains u x1 dci1 dci2 pdus timer where "ns_placed info dci x x1 dci1 \<or> ns_waits info dci x x1 dci1"
    "rfoldl (ns_retx_layer retx) dci1 [0..<length (di_harqStatus info)] = Inr dci2" "ns_same_shape dci1 dci2"
    "sm_find (di_rnti info) (ns_dlHarqProcessesTimer s) = Some timer"
    "ns_retransmit info retx dcis dci (s, x) = Inr
      (s\<lparr>ns_usedHarqRbs := u, ns_dlHarqProcessesDciBuffer := sm_set (di_rnti info)
          (dcis[unat (di_harqProcessId info) := dci\<lparr>dci_rv := dci_rv dci2\<rparr>]) (ns_dlHarqProcessesDciBuffer s),
         ns_dlHarqProcessesTimer := sm_set (di_rnti info) (timer[unat (di_harqProcessId info) := 0]) (ns_dlHarqProcessesTimer s)\<rparr>,
       x1\<lparr>rx_out := rx_out x1 @ [\<lparr>bd_rnti = di_rnti info, bd_dci = dci2, bd_rlcPduList = pdus\<rparr>],
         rx_rntiAllocated := insert (di_rnti info) (rx_rntiAllocated x1)\<rparr>)"
    "\<forall>buf. sm_find (di_rnti info) (ns_dlHarqRlcPduBuffer s) = Some buf \<longrightarrow>
      ns_retx_pdus buf (unat (di_harqProcessId info)) retx (length (dci_ndi dci2)) (length (di_harqStatus info)) = Inr pdus"
proof -
  define rnti h n where "rnti = di_rnti info" and "h = unat (di_harqProcessId info)" and "n = length (di_harqStatus info)"
  note names = rnti_def [symmetric] h_def [symmetric] n_def [symmetric]
  have user: "sm_has rnti (ns_flowStatsDl s)" and h: "h < HARQ_PROC_NUM" "h < length dcis" and dci: "ns_layers_ok n dci"
    "unat (dci_harqProcess dci) = h" "\<And>i. bit (dci_rbBitmap dci) i \<Longrightarrow> i < nat (ns_rbgNum s)"
    using fb dcis by (auto simp: ns_feedback_ok_def Let_def names)
  obtain buf where buf: "sm_find rnti (ns_dlHarqRlcPduBuffer s) = Some buf" "ns_pdus_ok n h buf"
    using fb by (auto simp: ns_feedback_ok_def Let_def names)
  have "ns_tables_ok rnti s" and bw: "uint (ns_dlBandwidth s) < 110" using users user by (simp_all add: ns_users_ok_def)
  then obtain timer where timer: "sm_find rnti (ns_dlHarqProcessesTimer s) = Some timer" "length timer = HARQ_PROC_NUM"
    by (auto simp: ns_tables_ok_def split: option.splits)
  from ns_place_ok [OF bw map user [unfolded rnti_def] dci(3)] obtain u x1 dci1 where
    place: "ns_place info dci (s, x) = Inr (s\<lparr>ns_usedHarqRbs := u\<rparr>, x1, dci1)"
    and outcome: "ns_placed info dci x x1 dci1 \<or> ns_waits info dci x x1 dci1" by blast
  obtain m where dci1: "dci1 = dci\<lparr>dci_rbBitmap := m\<rparr>" by (rule ns_place_fields [OF outcome])
  then have "ns_layers_ok n dci1" using dci(1) by (simp add: ns_layers_ok_def)
  with retx n_def obtain dci2 where dci2: "rfoldl (ns_retx_layer retx) dci1 [0..<n] = Inr dci2" "ns_same_shape dci1 dci2"
    using ns_retx_layers_ok by blast
  have harq: "unat (dci_harqProcess dci2) = h" using dci2(2) dci(2) by (simp add: dci1 ns_same_shape_def)
  obtain pdus where pdus: "ns_retx_pdus buf h retx (length (dci_ndi dci2)) n = Inr pdus"
    using ns_retx_pdus_ok [OF buf(2)] retx n_def by blast
  show thesis
    by (rule that [of x1 dci1 dci2 timer u pdus])
      (use outcome dci2 timer buf(1) pdus h dcis(2) in \<open>simp_all add: ns_retransmit_def Let_def place harq names\<close>)
qed

lemma ns_retx_ok_sent:
  assumes x: "ns_retx_ok s rbgMap x" and new: "di_rnti info \<notin> rx_rntiAllocated x"
    and out: "ns_placed info dci x x1 dci1 \<or> ns_waits info dci x x1 dci1"
    and user: "sm_has (di_rnti info) (ns_flowStatsDl s)" "ns_bitmaps s (di_rnti info) = Some masks"
    and harq: "unat (dci_harqProcess dci2) < length masks" "masks ! unat (dci_harqProcess dci2) = dci_rbBitmap dci"
    and shape: "dci_rbBitmap dci2 = dci_rbBitmap dci1"
  shows "ns_retx_ok s rbgMap (x1\<lparr>rx_out := rx_out x1 @ [\<lparr>bd_rnti = di_rnti info, bd_dci = dci2, bd_rlcPduList = pdus\<rparr>],
    rx_rntiAllocated := insert (di_rnti info) (rx_rntiAllocated x1)\<rparr>)"
proof -
  define b where "b = \<lparr>bd_rnti = di_rnti info, bd_dci = dci2, bd_rlcPduList = pdus\<rparr>"
  have b: "bd_rnti b \<notin> rx_rntiAllocated x" "di_rnti info = bd_rnti b" "sm_has (bd_rnti b) (ns_flowStatsDl s)"
    "ns_bitmaps s (bd_rnti b) = Some masks" "unat (dci_harqProcess (bd_dci b)) < length masks"
    "bd_rbgs b = {i. bit (dci_rbBitmap dci1) i}" "masks ! unat (dci_harqProcess (bd_dci b)) = dci_rbBitmap dci"
    using new user harq shape by (simp_all add: b_def bd_rbgs_def)
  have count: "length (ns_mask_rbgs m) = card {i. bit m i}" for m
    using distinct_card [OF distinct_mask_rbgs, of m] by (simp add: set_mask_rbgs)
  from out show ?thesis
  proof
    assume "ns_placed info dci x x1 dci1"
    then obtain rbgs m' where p: "ns_taken (rx_rbgMap x) m' rbgs" "length rbgs = card {i. bit (dci_rbBitmap dci) i}"
      "bd_rbgs b = set rbgs" "x1 = x\<lparr>rx_rbgMap := m', rx_rbgAllocatedNum := rx_rbgAllocatedNum x + of_nat (length rbgs)\<rparr>"
      unfolding ns_placed_def count b(6) by blast
    have "card (bd_rbgs b) = card {i. bit (masks ! unat (dci_harqProcess (bd_dci b))) i}"
      using p(1-3) b(7) by (simp add: ns_taken_def distinct_card)
    from ns_retx_ok_placed [OF x b(1) p(1,3) b(3-5) this, of "rx_rbgAllocatedNum x + of_nat (length rbgs)"]
    show ?thesis by (simp add: p(4) b_def)
  next
    assume w: "ns_waits info dci x x1 dci1"
    then have "card (bd_rbgs b) = card {i. bit (masks ! unat (dci_harqProcess (bd_dci b))) i}"
      using b(6,7) by (simp add: ns_waits_def)
    from ns_retx_ok_waits [OF x b(1-5) this] w show ?thesis by (simp add: ns_waits_def b_def)
  qed
qed

lemma ns_retransmit_ok:
  assumes users: "ns_users_ok s" and fb: "ns_feedback_ok s info" and x: "ns_retx_ok s rbgMap x"
    and len: "length rbgMap = nat (ns_rbgNum s)" and new: "di_rnti info \<notin> rx_rntiAllocated x"
    and dcis: "sm_find (di_rnti info) (ns_dlHarqProcessesDciBuffer s) = Some dcis"
    and retx: "length (di_harqStatus info) \<le> length retx"
  shows "\<exists>s' x'. ns_retransmit info retx dcis (dcis ! unat (di_harqProcessId info)) (s, x) = Inr (s', x') \<and>
    ns_answered s s' \<and> ns_retx_ok s rbgMap x'"
proof -
  define h dci where "h = unat (di_harqProcessId info)" and "dci = dcis ! unat (di_harqProcessId info)"
  have known: "sm_has (di_rnti info) (ns_flowStatsDl s)" "h < length dcis" "unat (dci_harqProcess dci) = h"
    using fb dcis by (auto simp: ns_feedback_ok_def Let_def h_def dci_def)
  have map: "length (rx_rbgMap x) = nat (ns_rbgNum s)" using x len by (simp add: ns_retx_ok_def)
  obtain u x1 dci1 dci2 pdus timer where r: "ns_placed info dci x x1 dci1 \<or> ns_waits info dci x x1 dci1"
    "ns_same_shape dci1 dci2" "sm_find (di_rnti info) (ns_dlHarqProcessesTimer s) = Some timer"
    "ns_retransmit info retx dcis dci (s, x) = Inr
      (s\<lparr>ns_usedHarqRbs := u, ns_dlHarqProcessesDciBuffer := sm_set (di_rnti info)
          (dcis[h := dci\<lparr>dci_rv := dci_rv dci2\<rparr>]) (ns_dlHarqProcessesDciBuffer s),
         ns_dlHarqProcessesTimer := sm_set (di_rnti info) (timer[h := 0]) (ns_dlHarqProcessesTimer s)\<rparr>,
       x1\<lparr>rx_out := rx_out x1 @ [\<lparr>bd_rnti = di_rnti info, bd_dci = dci2, bd_rlcPduList = pdus\<rparr>],
         rx_rntiAllocated := insert (di_rnti info) (rx_rntiAllocated x1)\<rparr>)" (is "_ = Inr (?s', ?x')")
    unfolding h_def by (rule ns_retransmit_run [OF users fb map dcis dci_def [symmetric] retx])
  obtain m where "dci1 = dci\<lparr>dci_rbBitmap := m\<rparr>" by (rule ns_place_fields [OF r(1)])
  then have dci2: "dci_rbBitmap dci2 = dci_rbBitmap dci1" "unat (dci_harqProcess dci2) = h"
    "length (dci_rv dci2) = length (dci_rv dci)"
    using r(2) known(3) by (simp_all add: ns_same_shape_def)
  have "ns_answered (s\<lparr>ns_usedHarqRbs := u\<rparr>) ?s'"
    using ns_answered_store [of "di_rnti info" "s\<lparr>ns_usedHarqRbs := u\<rparr>" dcis "dci_rv dci2" h timer] dcis r(3) dci2(3)
    by (simp add: h_def dci_def)
  then have "ns_answered s ?s'" by (rule ns_answered_trans [OF ns_answered_used])
  moreover have "ns_retx_ok s rbgMap ?x'"
    by (rule ns_retx_ok_sent [OF x new r(1) known(1), of "map dci_rbBitmap dcis"])
      (use dcis known(2) dci2 in \<open>simp_all add: ns_bitmaps_def h_def dci_def\<close>)
  ultimately show ?thesis using r(4) unfolding dci_def [symmetric] by blast
qed

lemma ns_feedback_step:
  assumes users: "ns_users_ok s" and fb: "ns_feedback_ok s info" and x: "ns_retx_ok s rbgMap x"
    and len: "length rbgMap = nat (ns_rbgNum s)"
  shows "\<exists>s' x'. ns_feedback (s, x) info = Inr (s', x') \<and> ns_answered s s' \<and> ns_retx_ok s rbgMap x'"
proof (cases "di_rnti info \<in> rx_rntiAllocated x")
  case True
  with x show ?thesis by (auto simp: ns_feedback_def Let_def intro: ns_answered_refl)
next
  case False
  define n where "n = length (di_harqStatus info)"
  have n: "n = 1 \<or> n = 2" using fb by (simp add: ns_feedback_ok_def Let_def n_def)
  then obtain a b where flags: "ns_retx_flags (di_harqStatus info) = Inr [a, b]"
    using ns_retx_flags_ok [of "di_harqStatus info"] unfolding n_def by blast
  have free: "\<And>e. \<exists>s1. ns_free_process e (di_rnti info) (unat (di_harqProcessId info)) s = Inr s1 \<and> ns_answered s s1"
    using ns_free_process_ok [OF users fb] by blast
  show ?thesis
  proof (cases "a \<or> b")
    case False
    with free [of "Fatal ''No info find in HARQ buffer for UE ''"] \<open>di_rnti info \<notin> _\<close> x
    show ?thesis by (auto simp: ns_feedback_def Let_def flags)
  next
    case True
    obtain dcis where dcis: "sm_find (di_rnti info) (ns_dlHarqProcessesDciBuffer s) = Some dcis"
      "unat (di_harqProcessId info) < length dcis" "ns_layers_ok n (dcis ! unat (di_harqProcessId info))"
      using fb by (auto simp: ns_feedback_ok_def Let_def n_def)
    obtain rv where rv: "ns_rv (dcis ! unat (di_harqProcessId info)) = Inr rv"
    proof -
      have "0 < length (dci_rv (dcis ! unat (di_harqProcessId info)))" using dcis(3) n by (auto simp: ns_layers_ok_def)
      from ns_rv_ok [OF this] that show thesis by blast
    qed
    have "n \<le> length [a, b]" using n by auto
    note send = ns_retransmit_ok [OF users fb x len False dcis(1) this [unfolded n_def]]
    show ?thesis
    proof (cases "rv = 3")
      case True
      with \<open>a \<or> b\<close> free [of "Undefined ''end iterator of the processes''"] False x dcis rv
      show ?thesis by (auto simp: ns_feedback_def Let_def flags)
    next
      case again: False
      with \<open>a \<or> b\<close> send False dcis rv show ?thesis by (simp add: ns_feedback_def Let_def flags)
    qed
  qed
qed

text \<open>All answers of a subframe.\<close>

lemma ns_feedbacks_ok:
  assumes users: "ns_users_ok s" and len: "length rbgMap = nat (ns_rbgNum s)"
    and fb: "\<forall>info \<in> set (ns_dlInfoListBuffered s @ dlInfoList). ns_feedback_ok s info"
  shows "\<exists>s' x. ns_feedbacks dlInfoList rbgMap s = Inr (s'\<lparr>ns_dlInfoListBuffered := rx_untxed x\<rparr>, x) \<and>
    ns_answered s s' \<and> ns_retx_ok s rbgMap x"
proof -
  define infos where "infos = (if ns_harqOn s then ns_dlInfoListBuffered s @ dlInfoList else [])"
  define x0 where "x0 = \<lparr>rx_rbgMap = rbgMap, rx_rbgAllocatedNum = of_nat (length (filter (\<lambda>b. b) rbgMap)),
    rx_rntiAllocated = {}, rx_untxed = [], rx_out = []\<rparr>"
  have "\<exists>sx. rfoldl ns_feedback (s, x0) infos = Inr sx \<and>
      (case sx of (s', x) \<Rightarrow> ns_answered s s' \<and> ns_retx_ok s rbgMap x)"
  proof (rule rfoldl_total)
    show "case (s, x0) of (s', x) \<Rightarrow> ns_answered s s' \<and> ns_retx_ok s rbgMap x"
      unfolding x0_def by (simp add: ns_answered_refl ns_retx_ok_start)
    fix sx info
    assume info: "info \<in> set infos" and sx: "case sx of (s', x) \<Rightarrow> ns_answered s s' \<and> ns_retx_ok s rbgMap x"
    obtain s1 x1 where s1: "sx = (s1, x1)" by (cases sx)
    with sx have a: "ns_answered s s1" and x1: "ns_retx_ok s1 rbgMap x1"
      using ns_retx_ok_answered [of s s1] by simp_all
    have "ns_feedback_ok s1 info" using a info fb by (auto simp: ns_answered_def infos_def split: if_splits)
    moreover have "length rbgMap = nat (ns_rbgNum s1)"
      using a len by (simp add: ns_answered_def ns_frame_def ns_rbgNum_def ns_rbgSize_def)
    ultimately obtain s2 x2 where "ns_feedback (s1, x1) info = Inr (s2, x2)" "ns_answered s1 s2" "ns_retx_ok s1 rbgMap x2"
      using ns_feedback_step [OF ns_users_ok_answered [OF users a] _ x1] by blast
    then show "\<exists>sx'. ns_feedback sx info = Inr sx' \<and> (case sx' of (s', x) \<Rightarrow> ns_answered s s' \<and> ns_retx_ok s rbgMap x)"
      using ns_answered_trans [OF a] by (auto simp: s1 ns_retx_ok_answered [OF a])
  qed
  then show ?thesis by (auto simp: ns_feedbacks_def infos_def x0_def)
qed

section \<open>The rounds of a process\<close>

lemma ns_nack_dropped:
  assumes "ns_users_ok s" "ns_feedback_ok s info" "di_harqStatus info = [NACK]" "di_rnti info \<notin> rx_rntiAllocated x"
    "sm_find (di_rnti info) (ns_dlHarqProcessesDciBuffer s) = Some dcis"
    "dci_rv (dcis ! unat (di_harqProcessId info)) = [3]"
  shows "\<exists>s' status buf. ns_feedback (s, x) info = Inr (s', x) \<and>
    sm_find (di_rnti info) (ns_dlHarqProcessesStatus s') = Some status \<and> status ! unat (di_harqProcessId info) = 0 \<and>
    sm_find (di_rnti info) (ns_dlHarqRlcPduBuffer s') = Some buf \<and> (\<forall>layer \<in> set buf. layer ! unat (di_harqProcessId info) = [])"
proof -
  define rnti h where "rnti = di_rnti info" and "h = unat (di_harqProcessId info)"
  note names = rnti_def [symmetric] h_def [symmetric]
  have h: "h < HARQ_PROC_NUM" "h < length dcis" and "sm_has rnti (ns_flowStatsDl s)"
    using assms(2,5) by (auto simp: ns_feedback_ok_def Let_def names)
  then have "ns_harq_ok rnti s" using assms(1) by (simp add: ns_users_ok_def)
  then obtain status where status: "sm_find rnti (ns_dlHarqProcessesStatus s) = Some status" "length status = HARQ_PROC_NUM"
    by (auto simp: ns_harq_ok_def split: option.splits)
  obtain buf where buf: "sm_find rnti (ns_dlHarqRlcPduBuffer s) = Some buf" "\<forall>layer \<in> set buf. h < length layer"
    using assms(2) by (auto simp: ns_feedback_ok_def ns_pdus_ok_def Let_def names)
  define s' where "s' = s\<lparr>ns_dlHarqProcessesStatus := sm_set rnti (status[h := 0]) (ns_dlHarqProcessesStatus s),
    ns_dlHarqRlcPduBuffer := sm_set rnti (map (\<lambda>layer. layer[h := []]) buf) (ns_dlHarqRlcPduBuffer s)\<rparr>"
  have "ns_feedback (s, x) info = Inr (s', x)"
    using assms(3-6) h status buf
    by (simp add: ns_feedback_def Let_def ns_retx_flags_def names ns_rv_def ns_free_process_def ns_clear_pdus_def list_all_iff s'_def)
  moreover have "sm_find rnti (ns_dlHarqProcessesStatus s') = Some (status[h := 0])" "status[h := 0] ! h = 0"
    "sm_find rnti (ns_dlHarqRlcPduBuffer s') = Some (map (\<lambda>layer. layer[h := []]) buf)"
    using h(1) status(2) by (simp_all add: s'_def)
  ultimately show ?thesis using buf(2) unfolding names by fastforce
qed

text \<open>An answer that asks for the only layer again.\<close>

lemma ns_nack_resent:
  assumes users: "ns_users_ok s" and fb: "ns_feedback_ok s info" and map: "length (rx_rbgMap x) = nat (ns_rbgNum s)"
    and nack: "di_harqStatus info = [NACK]" "di_rnti info \<notin> rx_rntiAllocated x"
    and dcis: "sm_find (di_rnti info) (ns_dlHarqProcessesDciBuffer s) = Some dcis" "dcis ! unat (di_harqProcessId info) = dci"
    and rv: "dci_rv dci = [rv]" "rv \<noteq> 3"
  obtains s' x1 dci1 dci2 pdus where "ns_placed info dci x x1 dci1 \<or> ns_waits info dci x x1 dci1"
    "ns_retx_layer [True, False] dci1 0 = Inr dci2" "ns_same_shape dci1 dci2"
    "ns_feedback (s, x) info = Inr (s', x1\<lparr>rx_out := rx_out x1 @ [\<lparr>bd_rnti = di_rnti info, bd_dci = dci2, bd_rlcPduList = pdus\<rparr>],
      rx_rntiAllocated := insert (di_rnti info) (rx_rntiAllocated x1)\<rparr>)"
    "sm_find (di_rnti info) (ns_dlHarqProcessesDciBuffer s') =
      Some (dcis[unat (di_harqProcessId info) := dci\<lparr>dci_rv := dci_rv dci2\<rparr>])"
    "\<forall>buf. sm_find (di_rnti info) (ns_dlHarqRlcPduBuffer s) = Some buf \<and> 0 < length (dci_ndi dci2) \<longrightarrow>
      pdus = map (\<lambda>pdu. [pdu]) (buf ! 0 ! unat (di_harqProcessId info))"
proof -
  have len: "length (di_harqStatus info) \<le> length [True, False]" using nack(1) by simp
  have h: "unat (di_harqProcessId info) < length dcis" using fb dcis by (auto simp: ns_feedback_ok_def Let_def)
  obtain u x1 dci1 dci2 pdus timer where r: "ns_placed info dci x x1 dci1 \<or> ns_waits info dci x x1 dci1"
    "rfoldl (ns_retx_layer [True, False]) dci1 [0..<length (di_harqStatus info)] = Inr dci2" "ns_same_shape dci1 dci2"
    "ns_retransmit info [True, False] dcis dci (s, x) = Inr
      (s\<lparr>ns_usedHarqRbs := u, ns_dlHarqProcessesDciBuffer := sm_set (di_rnti info)
          (dcis[unat (di_harqProcessId info) := dci\<lparr>dci_rv := dci_rv dci2\<rparr>]) (ns_dlHarqProcessesDciBuffer s),
         ns_dlHarqProcessesTimer := sm_set (di_rnti info) (timer[unat (di_harqProcessId info) := 0]) (ns_dlHarqProcessesTimer s)\<rparr>,
       x1\<lparr>rx_out := rx_out x1 @ [\<lparr>bd_rnti = di_rnti info, bd_dci = dci2, bd_rlcPduList = pdus\<rparr>],
         rx_rntiAllocated := insert (di_rnti info) (rx_rntiAllocated x1)\<rparr>)" (is "_ = Inr (?s', ?x')")
    "\<forall>buf. sm_find (di_rnti info) (ns_dlHarqRlcPduBuffer s) = Some buf \<longrightarrow> ns_retx_pdus buf
      (unat (di_harqProcessId info)) [True, False] (length (dci_ndi dci2)) (length (di_harqStatus info)) = Inr pdus"
    by (rule ns_retransmit_run [OF users fb map dcis len])
  have "ns_feedback (s, x) info = Inr (?s', ?x')"
    using nack dcis h rv r(4) by (simp add: ns_feedback_def Let_def ns_retx_flags_def ns_rv_def)
  moreover have "pdus = map (\<lambda>pdu. [pdu]) (buf ! 0 ! unat (di_harqProcessId info))"
    if "sm_find (di_rnti info) (ns_dlHarqRlcPduBuffer s) = Some buf" "0 < length (dci_ndi dci2)" for buf
  proof -
    have "ns_pdus_ok 1 (unat (di_harqProcessId info)) buf" using fb nack(1) that(1) by (auto simp: ns_feedback_ok_def Let_def)
    from ns_retx_pdus_single [OF this that(2)] r(5) [rule_format, OF that(1)] nack(1) show ?thesis by simp
  qed
  ultimately show thesis using r(1-3) nack(1) by (intro that [of x1 dci1 dci2 ?s' pdus]) simp_all
qed

lemma ns_place_size:
  assumes "ns_placed info dci x x1 dci1 \<or> ns_waits info dci x x1 dci1"
  shows "card {i. bit (dci_rbBitmap dci1) i} = card {i. bit (dci_rbBitmap dci) i}"
  using assms
proof
  assume "ns_placed info dci x x1 dci1"
  then obtain rbgs m' where "ns_taken (rx_rbgMap x) m' rbgs" "length rbgs = length (ns_mask_rbgs (dci_rbBitmap dci))"
    "{i. bit (dci_rbBitmap dci1) i} = set rbgs" by (auto simp: ns_placed_def)
  then show ?thesis
    using distinct_card [of rbgs] distinct_card [OF distinct_mask_rbgs, of "dci_rbBitmap dci"]
    by (simp add: ns_taken_def set_mask_rbgs)
qed (simp add: ns_waits_def)


section \<open>A retransmission without a place\<close>

text \<open>C35: When fewer RBGs are free than a retransmission needs and one of its own is taken, its answer waits for the next
  subframe; the code goes on nevertheless: it also sends the message now, in its old RBGs.\<close>

theorem ns_retx_without_room:
  assumes "ns_users_ok s" "ns_feedback_ok s info" "ns_retx_ok s rbgMap x" "length rbgMap = nat (ns_rbgNum s)"
    "di_harqStatus info = [NACK]" "di_rnti info \<notin> rx_rntiAllocated x"
    "sm_find (di_rnti info) (ns_dlHarqProcessesDciBuffer s) = Some dcis"
    "dcis ! unat (di_harqProcessId info) = dci" "dci_rv dci = [rv]" "rv \<noteq> 3"
    "bit (dci_rbBitmap dci) i" "rx_rbgMap x ! i"
    "card {j. j < length rbgMap \<and> \<not> rx_rbgMap x ! j} < card {j. bit (dci_rbBitmap dci) j}"
  shows "\<exists>s' x' b. ns_feedback (s, x) info = Inr (s', x') \<and> rx_untxed x' = rx_untxed x @ [info] \<and>
    rx_out x' = rx_out x @ [b] \<and> dci_rbBitmap (bd_dci b) = dci_rbBitmap dci \<and> rx_rbgMap x' = rx_rbgMap x"
proof -
  have map: "length (rx_rbgMap x) = nat (ns_rbgNum s)" using assms(3,4) by (simp add: ns_retx_ok_def)
  obtain s' x1 dci1 dci2 pdus where r: "ns_placed info dci x x1 dci1 \<or> ns_waits info dci x x1 dci1" "ns_same_shape dci1 dci2"
    "ns_feedback (s, x) info = Inr (s', x1\<lparr>rx_out := rx_out x1 @ [\<lparr>bd_rnti = di_rnti info, bd_dci = dci2, bd_rlcPduList = pdus\<rparr>],
      rx_rntiAllocated := insert (di_rnti info) (rx_rntiAllocated x1)\<rparr>)"
    by (rule ns_nack_resent [OF assms(1,2) map assms(5-10)])
  have "\<not> ns_placed info dci x x1 dci1"
  proof
    assume "ns_placed info dci x x1 dci1"
    then obtain rbgs m' where t: "ns_taken (rx_rbgMap x) m' rbgs" "length rbgs = length (ns_mask_rbgs (dci_rbBitmap dci))"
      by (auto simp: ns_placed_def)
    have "length rbgs = card (set rbgs)" using t(1) by (simp add: ns_taken_def distinct_card)
    also have "\<dots> \<le> card {j. j < length rbgMap \<and> \<not> rx_rbgMap x ! j}"
      using t(1) map assms(4) by (intro card_mono) (auto simp: ns_taken_def)
    also have "\<dots> < length (ns_mask_rbgs (dci_rbBitmap dci))"
      using assms(13) distinct_card [OF distinct_mask_rbgs, of "dci_rbBitmap dci"] by (simp add: set_mask_rbgs)
    finally show False using t(2) by simp
  qed
  with r show ?thesis by (auto simp: ns_waits_def ns_same_shape_def)
qed

text \<open>A user that is released while its answer waits: the answer stays, and the next subframe stops the program.\<close>

lemma ns_released_user_stops:
  assumes "ns_dlInfoListBuffered s = info # infos" "ns_harqOn s" "di_harqStatus info = [NACK]"
  shows "\<exists>msg. ns_feedbacks [] rbgMap (ns_DoCschedUeReleaseReq (di_rnti info) s) = Inl (Fatal msg)"
  using assms by (simp add: ns_feedbacks_def ns_feedback_def Let_def ns_retx_flags_def ns_DoCschedUeReleaseReq_def)

section \<open>Witnesses\<close>

text \<open>A user whose process 0 has sent a message of one layer in the first two RBGs.\<close>

definition ns_sent_dci :: DlDci where
  "ns_sent_dci = \<lparr>dci_rnti = 1, dci_rbBitmap = 3, dci_resAlloc = 0, dci_tbsSize = [100], dci_mcs = [10], dci_ndi = [1],
    dci_rv = [0], dci_tpc = 1, dci_harqProcess = 0\<rparr>"

definition ns_sent :: NsScheduler where
  "ns_sent = (NsScheduler_new 25 True 1000)\<lparr>ns_flowStatsDl := [(1, nsPfsFlowPerf_new 0)], ns_uesTxMode := [(1, 0)],
    ns_dlHarqCurrentProcessId := [(1, 0)], ns_dlHarqProcessesStatus := [(1, 1 # replicate 7 0)],
    ns_dlHarqProcessesTimer := [(1, replicate 8 0)],
    ns_dlHarqProcessesDciBuffer := [(1, ns_sent_dci # replicate 7 DlDci_new)],
    ns_dlHarqRlcPduBuffer := [(1, [[\<lparr>pdu_lcid = 3, pdu_size = 100\<rparr>] # replicate 7 [], replicate 8 []])]\<rparr>"

definition ns_nack :: DlInfo where
  "ns_nack = \<lparr>di_rnti = 1, di_harqProcessId = 0, di_harqStatus = [NACK]\<rparr>"

definition ns_retx_start :: "bool list \<Rightarrow> NsRetx" where
  "ns_retx_start rbgMap = \<lparr>rx_rbgMap = rbgMap, rx_rbgAllocatedNum = 0, rx_rntiAllocated = {}, rx_untxed = [], rx_out = []\<rparr>"

lemma ns_sent_rbgNum: "ns_rbgNum ns_sent = 12"
  by (simp add: ns_sent_def NsScheduler_new_def ns_rbgNum_def ns_rbgSize_def ns_GetRbgSize_def PfType0AllocationRbg_def upt_rec)

lemma ns_sent_rbgs: "{i. bit (3 :: u32) i} = {0, 1}"
proof -
  have "ns_mask_rbgs 3 = [0, 1]" by code_simp
  then have "set (ns_mask_rbgs 3) = {0, 1}" by simp
  then show ?thesis by (simp only: set_mask_rbgs)
qed

lemma ns_sent_tables:
  "sm_find r (ns_flowStatsDl ns_sent) = (if r = 1 then Some (nsPfsFlowPerf_new 0) else None)"
  "sm_find r (ns_dlHarqCurrentProcessId ns_sent) = (if r = 1 then Some 0 else None)"
  "sm_find r (ns_dlHarqProcessesStatus ns_sent) = (if r = 1 then Some (1 # replicate 7 0) else None)"
  "sm_find r (ns_dlHarqProcessesTimer ns_sent) = (if r = 1 then Some (replicate 8 0) else None)"
  "sm_find r (ns_dlHarqProcessesDciBuffer ns_sent) = (if r = 1 then Some (ns_sent_dci # replicate 7 DlDci_new) else None)"
  "sm_find r (ns_dlHarqRlcPduBuffer ns_sent) =
    (if r = 1 then Some [[\<lparr>pdu_lcid = 3, pdu_size = 100\<rparr>] # replicate 7 [], replicate 8 []] else None)"
  by (simp_all add: ns_sent_def sm_find_def)

lemma ns_sent_ok: "ns_users_ok ns_sent" "ns_feedback_ok ns_sent ns_nack" "ns_retx_ok ns_sent m (ns_retx_start m)"
proof -
  have "ns_harq_ok 1 ns_sent" by (simp add: ns_harq_ok_def ns_sent_tables HARQ_PROC_NUM_def)
  moreover have "ns_tables_ok 1 ns_sent" by (simp add: ns_tables_ok_def ns_sent_tables HARQ_PROC_NUM_def)
  moreover have "uint (ns_dlBandwidth ns_sent) < 110" by (simp add: ns_sent_def NsScheduler_new_def)
  ultimately show "ns_users_ok ns_sent" by (simp add: ns_users_ok_def sm_has_def ns_sent_tables)
  have rbgs: "i < 12" if "bit (3 :: u32) i" for i
  proof -
    have "i \<in> {i. bit (3 :: u32) i}" using that by (rule CollectI)
    then show ?thesis unfolding ns_sent_rbgs by auto
  qed
  have "ns_layers_ok 1 ns_sent_dci" by (simp add: ns_layers_ok_def ns_sent_dci_def)
  moreover have "ns_pdus_ok 1 0 [[\<lparr>pdu_lcid = 3, pdu_size = 100\<rparr>] # replicate 7 [], replicate 8 []]"
    by (simp add: ns_pdus_ok_def)
  ultimately show "ns_feedback_ok ns_sent ns_nack"
    unfolding ns_feedback_ok_def ns_sent_rbgNum
    using rbgs by (simp add: ns_nack_def ns_sent_tables sm_has_def HARQ_PROC_NUM_def) (simp add: ns_sent_dci_def)
  show "ns_retx_ok ns_sent m (ns_retx_start m)" unfolding ns_retx_start_def by (rule ns_retx_ok_start)
qed


lemma ns_retx_without_room_witness:
  "\<exists>s' x' b. ns_feedback (ns_sent, ns_retx_start (replicate 11 True @ [False])) ns_nack = Inr (s', x') \<and>
    rx_untxed x' = [ns_nack] \<and> rx_out x' = [b] \<and> dci_rbBitmap (bd_dci b) = 3"
proof -
  define m where "m = replicate 11 True @ [False]"
  have len: "length m = nat (ns_rbgNum ns_sent)" by (simp add: ns_sent_rbgNum m_def)
  have tables: "di_harqStatus ns_nack = [NACK]" "di_rnti ns_nack \<notin> rx_rntiAllocated (ns_retx_start m)"
    "sm_find (di_rnti ns_nack) (ns_dlHarqProcessesDciBuffer ns_sent) = Some (ns_sent_dci # replicate 7 DlDci_new)"
    "(ns_sent_dci # replicate 7 DlDci_new) ! unat (di_harqProcessId ns_nack) = ns_sent_dci" "dci_rv ns_sent_dci = [0]"
    "(0 :: u8) \<noteq> 3"
    by (simp_all add: ns_nack_def ns_retx_start_def ns_sent_tables ns_sent_dci_def)
  have "0 \<in> {i. bit (3 :: u32) i}" unfolding ns_sent_rbgs by simp
  then have busy: "bit (dci_rbBitmap ns_sent_dci) 0" "rx_rbgMap (ns_retx_start m) ! 0"
    by (simp_all add: ns_sent_dci_def ns_retx_start_def m_def nth_append)
  have "{j. j < length m \<and> \<not> rx_rbgMap (ns_retx_start m) ! j} = {11}"
    by (auto simp: ns_retx_start_def m_def nth_append less_Suc_eq)
  moreover have "{j. bit (dci_rbBitmap ns_sent_dci) j} = {0, 1}"
    using ns_sent_rbgs by (simp only: ns_sent_dci_def DlDci.select_convs)
  ultimately have few: "card {j. j < length m \<and> \<not> rx_rbgMap (ns_retx_start m) ! j} < card {j. bit (dci_rbBitmap ns_sent_dci) j}"
    by simp
  from ns_retx_without_room [OF ns_sent_ok len tables busy few] show ?thesis
    unfolding m_def [symmetric] by (auto simp: ns_retx_start_def ns_sent_dci_def)
qed

end
