(* ===== verification/Ns_Rach.thy ===== *)
theory Ns_Rach
  imports Ns_Scheduler
begin

text \<open>Random access: the part of \<open>DoSchedDlTriggerReq\<close> of \<open>ns-pf-ff-mac-scheduler.cc\<close> that grants uplink resource
  blocks (RBs) to users that asked for access.  The grants follow each other in the longest run of RBs that the frequency
  reuse leaves free.\<close>

section \<open>The longest free run\<close>

text \<open>The variables of the scan: the longest run so far with its start, and the current one.\<close>

record UlScan =
  sc_maxContinuousUlBandwidth :: u8
  sc_ffrRbStartOffset :: u16
  sc_tmpMinBandwidth :: u8
  sc_tmpFfrRbStartOffset :: u16

definition ul_scan_close :: "UlScan \<Rightarrow> UlScan" where
  "ul_scan_close c =
    (if sc_tmpMinBandwidth c > sc_maxContinuousUlBandwidth c then
       c\<lparr>sc_maxContinuousUlBandwidth := sc_tmpMinBandwidth c, sc_ffrRbStartOffset := sc_tmpFfrRbStartOffset c\<rparr>
     else c)"

definition ul_scan_step :: "UlScan \<Rightarrow> nat \<times> bool \<Rightarrow> UlScan" where
  "ul_scan_step c = (\<lambda>(index, used).
    if used then (ul_scan_close c)\<lparr>sc_tmpMinBandwidth := 0\<rparr>
    else
      (let c = (if sc_tmpMinBandwidth c = 0 then c\<lparr>sc_tmpFfrRbStartOffset := of_nat index\<rparr> else c)
       in c\<lparr>sc_tmpMinBandwidth := sc_tmpMinBandwidth c + 1\<rparr>))"

definition ul_scan :: "bool list \<Rightarrow> u8 \<times> u16" where
  "ul_scan ulRbMap =
    (let c = ul_scan_close (foldl ul_scan_step \<lparr>sc_maxContinuousUlBandwidth = 0, sc_ffrRbStartOffset = 0,
           sc_tmpMinBandwidth = 0, sc_tmpFfrRbStartOffset = 0\<rparr> (enumerate 0 ulRbMap))
     in (sc_maxContinuousUlBandwidth c, sc_ffrRbStartOffset c))"

section \<open>A grant\<close>

record BuildRar =
  ra_rnti :: u16
  ra_rbStart :: u8
  ra_rbLen :: u8
  ra_mcs :: u8
  ra_tbSize :: u16

text \<open>The loop for the number of RBs: it stops when the block is large enough or the run is used up.\<close>

function ns_rach_len :: "u8 \<Rightarrow> u16 \<Rightarrow> int \<Rightarrow> int \<Rightarrow> int \<Rightarrow> int \<Rightarrow> (int \<times> int) result" where
  "ns_rach_len mcs estimatedSize rbStart limit rbLen tbSizeBits =
    (if tbSizeBits < uint estimatedSize \<and> rbStart + rbLen < limit then
       rbind (GetUlTbSizeFromMcs (uint mcs) (rbLen + 1)) (\<lambda>tb.
       ns_rach_len mcs estimatedSize rbStart limit (rbLen + 1) (uint (of_int tb :: u16)))
     else Inr (rbLen, tbSizeBits))"
  by pat_completeness auto

termination
  by (relation "measure (\<lambda>(mcs, estimatedSize, rbStart, limit, rbLen, tbSizeBits). nat (limit - (rbStart + rbLen)))") auto

declare ns_rach_len.simps [simp del]

definition ns_rach_dci :: "u16 \<Rightarrow> u16 \<Rightarrow> u16 \<Rightarrow> u8 \<Rightarrow> u16 \<Rightarrow> UlDci" where
  "ns_rach_dci rnti rbStart rbLen mcs tbSize = \<lparr>ul_rnti = rnti, ul_rbStart = ucast rbStart, ul_rbLen = ucast rbLen,
    ul_tbSize = tbSize, ul_mcs = mcs, ul_ndi = 1, ul_cceIndex = 0, ul_aggrLevel = 1, ul_ueTxAntennaSelection = 3,
    ul_hopping = False, ul_n2Dmrs = 0, ul_tpc = 0, ul_cqiRequest = False, ul_ulIndex = 0, ul_dai = 1, ul_freqHopping = 0,
    ul_pdcchPowerOffset = 0\<rparr>"

definition ns_store_ul :: "u16 \<Rightarrow> UlDci \<Rightarrow> NsScheduler \<Rightarrow> NsScheduler result" where
  "ns_store_ul rnti dci s =
    (if \<not> ns_harqOn s then Inr s
     else
       (case sm_find rnti (ns_ulHarqCurrentProcessId s) of
          None \<Rightarrow> Inl (Fatal ''No info find in HARQ buffer for UE '')
        | Some harqId \<Rightarrow>
            (case sm_find rnti (ns_ulHarqProcessesDciBuffer s) of
               None \<Rightarrow> Inl (Fatal ''Unable to find RNTI entry in UL DCI HARQ buffer for RNTI '')
             | Some dcis \<Rightarrow>
                 rbind (vec_upd dcis (unat harqId) dci) (\<lambda>dcis.
                 Inr (s\<lparr>ns_ulHarqProcessesDciBuffer := sm_set rnti dcis (ns_ulHarqProcessesDciBuffer s)\<rparr>)))))"

text \<open>The requests in their order, until one does not fit; \<open>limit\<close> is the end of the free run.\<close>

fun ns_rach_grants :: "int \<Rightarrow> int \<Rightarrow> RachRequest list \<Rightarrow> NsScheduler \<Rightarrow> BuildRar list \<Rightarrow> (NsScheduler \<times> BuildRar list) result" where
  "ns_rach_grants limit rbStart [] s out = Inr (s, out)"
| "ns_rach_grants limit rbStart (req # reqs) s out =
    rbind (GetUlTbSizeFromMcs (uint (ns_ulGrantMcs s)) (uint (ns_ulBandwidth s))) (\<lambda>most.
    rbind (rassert (most > uint (rr_estimatedSize req)) '' Default UL Grant MCS does not allow to send RACH messages'') (\<lambda>_.
    rbind (ns_rach_len (ns_ulGrantMcs s) (rr_estimatedSize req) rbStart limit 1 0) (\<lambda>(rbLen, tbSizeBits).
    if tbSizeBits < uint (rr_estimatedSize req) then Inr (s, out)
    else
      rbind (rfoldl (\<lambda>m i. vec_upd m i (rr_rnti req)) (ns_rachAllocationMap s) [nat rbStart..<nat (rbStart + rbLen)]) (\<lambda>m.
      rbind (ns_store_ul (rr_rnti req) (ns_rach_dci (rr_rnti req) (of_int rbStart) (of_int rbLen) (ns_ulGrantMcs s)
          (of_int (tbSizeBits div 8))) (s\<lparr>ns_rachAllocationMap := m\<rparr>)) (\<lambda>s.
      ns_rach_grants limit (rbStart + rbLen) reqs s
        (out @ [\<lparr>ra_rnti = rr_rnti req, ra_rbStart = of_int rbStart, ra_rbLen = of_int rbLen, ra_mcs = ns_ulGrantMcs s,
          ra_tbSize = of_int (tbSizeBits div 8)\<rparr>]))))))"

definition ns_ul_processes :: "NsScheduler \<Rightarrow> NsScheduler" where
  "ns_ul_processes s = s\<lparr>ns_ulHarqCurrentProcessId :=
    map (\<lambda>(rnti, i). (rnti, (i + 1) mod of_nat HARQ_PROC_NUM)) (ns_ulHarqCurrentProcessId s)\<rparr>"

definition ns_rach :: "bool list \<Rightarrow> NsScheduler \<Rightarrow> (NsScheduler \<times> BuildRar list) result" where
  "ns_rach ulRbMap s =
    (let (maxContinuousUlBandwidth, ffrRbStartOffset) = ul_scan ulRbMap;
         s = s\<lparr>ns_rachAllocationMap := vec_resize (unat (ns_ulBandwidth s)) 0 (ns_rachAllocationMap s)\<rparr>
     in rbind (ns_rach_grants (uint ffrRbStartOffset + uint maxContinuousUlBandwidth) (uint ffrRbStartOffset)
          (ns_rachList s) s []) (\<lambda>(s, out).
        Inr (s\<lparr>ns_rachList := []\<rparr>, out)))"

definition ns_DoSchedDlRachInfoReq :: "RachRequest list \<Rightarrow> NsScheduler \<Rightarrow> NsScheduler" where
  "ns_DoSchedDlRachInfoReq rachList s = s\<lparr>ns_rachList := rachList\<rparr>"

section \<open>The scan finds the longest run\<close>

definition free_run :: "bool list \<Rightarrow> nat \<Rightarrow> nat \<Rightarrow> bool" where
  "free_run m start len \<longleftrightarrow> start + len \<le> length m \<and> (\<forall>i < len. \<not> m ! (start + i))"

lemma free_run_prefix: "start + len \<le> length m \<Longrightarrow> free_run (m @ ys) start len = free_run m start len"
  by (simp add: free_run_def nth_append)

lemma free_run_snoc_True: "free_run (m @ [True]) start len \<Longrightarrow> len > 0 \<Longrightarrow> free_run m start len"
proof -
  assume a: "free_run (m @ [True]) start len" "len > 0"
  have "start + len \<noteq> Suc (length m)"
  proof
    assume "start + len = Suc (length m)"
    with a(2) have "len - 1 < len" "start + (len - 1) = length m" by simp_all
    with a(1) show False unfolding free_run_def by (metis nth_append_length)
  qed
  with a(1) have "start + len \<le> length m" by (simp add: free_run_def)
  with a(1) show ?thesis by (simp add: free_run_prefix)
qed

text \<open>After the flags \<open>m\<close>: the current run is the last one of \<open>m\<close>, and every run fits the longest or the current one.\<close>

definition ul_scan_inv :: "bool list \<Rightarrow> UlScan \<Rightarrow> bool" where
  "ul_scan_inv m c \<longleftrightarrow>
    (let best = unat (sc_maxContinuousUlBandwidth c); t = unat (sc_tmpMinBandwidth c)
     in t \<le> length m \<and> free_run m (length m - t) t \<and> (t < length m \<longrightarrow> m ! (length m - t - 1)) \<and>
       (0 < t \<longrightarrow> unat (sc_tmpFfrRbStartOffset c) = length m - t) \<and>
       free_run m (unat (sc_ffrRbStartOffset c)) best \<and>
       (\<forall>start len. free_run m start len \<longrightarrow> len \<le> best \<or> len \<le> t))"

lemma ul_scan_close_inv:
  assumes "ul_scan_inv m c"
  shows "ul_scan_inv m (ul_scan_close c)" "free_run m start len \<Longrightarrow> len \<le> unat (sc_maxContinuousUlBandwidth (ul_scan_close c))"
proof -
  have "sc_maxContinuousUlBandwidth c < sc_tmpMinBandwidth c \<longleftrightarrow>
      unat (sc_maxContinuousUlBandwidth c) < unat (sc_tmpMinBandwidth c)"
    by (simp add: word_less_nat_alt)
  then show "ul_scan_inv m (ul_scan_close c)"
    "free_run m start len \<Longrightarrow> len \<le> unat (sc_maxContinuousUlBandwidth (ul_scan_close c))"
    using assms by (fastforce simp: ul_scan_inv_def ul_scan_close_def Let_def)+
qed

lemma ul_scan_step_inv:
  assumes inv: "ul_scan_inv m c" and len: "length m < 255"
  shows "ul_scan_inv (m @ [used]) (ul_scan_step c (length m, used))"
proof (cases used)
  case True
  define c1 where "c1 = ul_scan_close c"
  have c1: "ul_scan_inv m c1" "\<And>start len. free_run m start len \<Longrightarrow> len \<le> unat (sc_maxContinuousUlBandwidth c1)"
    using ul_scan_close_inv [OF inv] by (simp_all add: c1_def)
  have "free_run (m @ [True]) (unat (sc_ffrRbStartOffset c1)) (unat (sc_maxContinuousUlBandwidth c1))"
    using c1(1) by (simp add: ul_scan_inv_def Let_def free_run_def nth_append)
  moreover have "len \<le> unat (sc_maxContinuousUlBandwidth c1)" if "free_run (m @ [True]) start len" for start len
    using free_run_snoc_True [OF that] c1(2) by (cases len) auto
  ultimately show ?thesis
    using True by (auto simp: ul_scan_step_def ul_scan_inv_def Let_def free_run_def c1_def [symmetric])
next
  case False
  define t where "t = unat (sc_tmpMinBandwidth c)"
  have t: "t \<le> length m" "free_run m (length m - t) t" "t < length m \<longrightarrow> m ! (length m - t - 1)"
    "0 < t \<longrightarrow> unat (sc_tmpFfrRbStartOffset c) = length m - t"
    "free_run m (unat (sc_ffrRbStartOffset c)) (unat (sc_maxContinuousUlBandwidth c))"
    "\<And>start len. free_run m start len \<Longrightarrow> len \<le> unat (sc_maxContinuousUlBandwidth c) \<or> len \<le> t"
    using inv by (auto simp: ul_scan_inv_def Let_def t_def)
  define c' where "c' = ul_scan_step c (length m, used)"
  have zero: "sc_tmpMinBandwidth c = 0 \<longleftrightarrow> t = 0" by (simp add: t_def unat_eq_0)
  have "unat (sc_tmpMinBandwidth c + 1) = Suc t"
    unfolding t_def by (subst unat_add_lem [THEN iffD1]) (use t(1) len in \<open>simp_all add: t_def\<close>)
  then have c': "unat (sc_tmpMinBandwidth c') = Suc t" "sc_ffrRbStartOffset c' = sc_ffrRbStartOffset c"
    "sc_maxContinuousUlBandwidth c' = sc_maxContinuousUlBandwidth c"
    by (simp_all add: c'_def ul_scan_step_def Let_def False zero)
  have start: "unat (sc_tmpFfrRbStartOffset c') = length m - t"
  proof (cases "t = 0")
    case True
    have "unat (of_nat (length m) :: u16) = length m" using len by (simp add: unat_of_nat)
    then show ?thesis using True zero by (simp add: c'_def ul_scan_step_def Let_def False)
  next
    case nz: False
    then show ?thesis using zero t(4) by (simp add: c'_def ul_scan_step_def Let_def False)
  qed
  have suffix: "free_run (m @ [False]) (length m - t) (Suc t)"
    using t(1,2) by (auto simp: free_run_def nth_append less_Suc_eq)
  have longest: "l \<le> unat (sc_maxContinuousUlBandwidth c) \<or> l \<le> Suc t" if run: "free_run (m @ [False]) s l" for s l
  proof (cases "s + l \<le> length m")
    case True
    with run have "free_run m s l" by (simp add: free_run_prefix)
    from t(6) [OF this] show ?thesis by auto
  next
    case end_: False
    then have e: "s + l = Suc (length m)" using run by (simp add: free_run_def)
    have "l \<le> Suc t"
    proof (rule ccontr)
      assume "\<not> l \<le> Suc t"
      then have "t < length m" "length m - t - 1 - s < l" "s + (length m - t - 1 - s) = length m - t - 1"
        using e by auto
      then have "\<not> (m @ [False]) ! (length m - t - 1)" using run unfolding free_run_def by metis
      moreover have "length m - t - 1 < length m" "m ! (length m - t - 1)" using t(3) \<open>t < length m\<close> by simp_all
      ultimately show False by (simp add: nth_append)
    qed
    then show ?thesis ..
  qed
  have "ul_scan_inv (m @ [False]) c'"
    unfolding ul_scan_inv_def Let_def c' start
    using t(1,3,5) suffix longest by (auto simp: free_run_prefix free_run_def nth_append)
  then show ?thesis using False by (simp add: c'_def)
qed

lemma ul_scan_longest:
  assumes "length m \<le> 255"
  obtains len off where "ul_scan m = (len, off)" "free_run m (unat off) (unat len)"
    "\<And>start l. free_run m start l \<Longrightarrow> l \<le> unat len"
proof -
  define c0 where "c0 = \<lparr>sc_maxContinuousUlBandwidth = 0, sc_ffrRbStartOffset = 0, sc_tmpMinBandwidth = 0,
    sc_tmpFfrRbStartOffset = 0\<rparr>"
  have inv: "ul_scan_inv m (foldl ul_scan_step c0 (enumerate 0 m))" if "length m \<le> 255" for m
    using that
  proof (induction m rule: rev_induct)
    case Nil
    show ?case by (simp add: ul_scan_inv_def c0_def free_run_def)
  next
    case (snoc used m)
    then show ?case using ul_scan_step_inv [of m _ used] by (simp add: enumerate_append_eq)
  qed
  define c where "c = ul_scan_close (foldl ul_scan_step c0 (enumerate 0 m))"
  have "ul_scan_inv m c" "\<And>start l. free_run m start l \<Longrightarrow> l \<le> unat (sc_maxContinuousUlBandwidth c)"
    using ul_scan_close_inv [OF inv [OF assms]] by (simp_all add: c_def)
  moreover have "ul_scan m = (sc_maxContinuousUlBandwidth c, sc_ffrRbStartOffset c)"
    by (simp add: ul_scan_def c_def c0_def Let_def)
  ultimately show thesis using that by (simp add: ul_scan_inv_def Let_def)
qed

section \<open>The grants\<close>

text \<open>The size of a transport block of \<open>n\<close> RBs for the MCS of the grants, in bits; it fits the 16 bits of the code.\<close>

definition ul_bits :: "u8 \<Rightarrow> int \<Rightarrow> int" where
  "ul_bits mcs n = (case GetUlTbSizeFromMcs (uint mcs) n of Inl e \<Rightarrow> 0 | Inr tb \<Rightarrow> tb)"

lemma ul_bits_ok:
  assumes "mcs \<le> 15" "0 < n" "n < 111"
  shows "GetUlTbSizeFromMcs (uint mcs) n = Inr (ul_bits mcs n)" "0 < ul_bits mcs n" "ul_bits mcs n < 65536"
proof -
  have mcs: "uint mcs \<le> 15" using assms(1) by (simp add: word_le_def)
  have itbs: "amc_itbs_ok McsToItbsUl" using Itbs_ok by simp
  obtain tb where tb: "amc_tb_size McsToItbsUl (uint mcs) n = Inr tb" "16 \<le> tb"
    using amc_tb_size_bounds [OF itbs, of "uint mcs" n] mcs assms(2,3) by auto
  have "amc_tb_size McsToItbsUl 15 110 = Inr 31704" by (simp add: amc_tb_size_def McsToItbsUl_def TransportBlockSizeTable_def)
  with amc_tb_size_mono [OF itbs, of "uint mcs" 15 n 110 tb 31704] tb mcs assms(2,3) have "tb \<le> 31704" by simp
  with tb show "GetUlTbSizeFromMcs (uint mcs) n = Inr (ul_bits mcs n)" "0 < ul_bits mcs n" "ul_bits mcs n < 65536"
    by (simp_all add: ul_bits_def GetUlTbSizeFromMcs_def)
qed

text \<open>The number of RBs: with at least two the smallest that is enough, or all that is left.\<close>

lemma ns_rach_len_ok:
  assumes "mcs \<le> 15" "0 \<le> rbStart" "limit < 111" "1 \<le> rbLen"
    "bits = (if rbLen = 1 then 0 else ul_bits mcs rbLen)"
    "\<forall>n. 2 \<le> n \<and> n < rbLen \<longrightarrow> ul_bits mcs n < uint estimatedSize"
  shows "\<exists>n. ns_rach_len mcs estimatedSize rbStart limit rbLen bits = Inr (n, if n = 1 then 0 else ul_bits mcs n) \<and>
    rbLen \<le> n \<and> (n = rbLen \<or> rbStart + n \<le> limit) \<and> (\<forall>k. 2 \<le> k \<and> k < n \<longrightarrow> ul_bits mcs k < uint estimatedSize) \<and>
    ((if n = 1 then 0 else ul_bits mcs n) < uint estimatedSize \<longrightarrow>
      (\<forall>k. 2 \<le> k \<and> rbStart + k \<le> limit \<longrightarrow> ul_bits mcs k < uint estimatedSize))"
  using assms
proof (induction mcs estimatedSize rbStart limit rbLen bits rule: ns_rach_len.induct)
  case (1 mcs estimatedSize rbStart limit rbLen bits)
  show ?case
  proof (cases "bits < uint estimatedSize \<and> rbStart + rbLen < limit")
    case False
    have "ul_bits mcs k < uint estimatedSize" if "bits < uint estimatedSize" "2 \<le> k" "rbStart + k \<le> limit" for k
      using that False "1.prems"(5,6) by (cases "k = rbLen") auto
    then show ?thesis using False "1.prems"(5,6) by (subst ns_rach_len.simps) auto
  next
    case True
    define b where "b = ul_bits mcs (rbLen + 1)"
    have b: "GetUlTbSizeFromMcs (uint mcs) (rbLen + 1) = Inr b" "0 < b" "b < 65536"
      using ul_bits_ok [of mcs "rbLen + 1"] "1.prems" True by (simp_all add: b_def)
    have u: "uint (of_int b :: u16) = b" using b by (simp add: uint_word_of_int)
    have less: "\<forall>n. 2 \<le> n \<and> n < rbLen + 1 \<longrightarrow> ul_bits mcs n < uint estimatedSize"
    proof (intro allI impI)
      fix n
      assume "2 \<le> n \<and> n < rbLen + 1"
      then show "ul_bits mcs n < uint estimatedSize"
        using "1.prems"(4,5,6) True by (cases "n = rbLen") auto
    qed
    have "\<exists>n. ns_rach_len mcs estimatedSize rbStart limit (rbLen + 1) (uint (of_int b :: u16)) =
        Inr (n, if n = 1 then 0 else ul_bits mcs n) \<and> rbLen + 1 \<le> n \<and> (n = rbLen + 1 \<or> rbStart + n \<le> limit) \<and>
        (\<forall>k. 2 \<le> k \<and> k < n \<longrightarrow> ul_bits mcs k < uint estimatedSize) \<and>
        ((if n = 1 then 0 else ul_bits mcs n) < uint estimatedSize \<longrightarrow>
          (\<forall>k. 2 \<le> k \<and> rbStart + k \<le> limit \<longrightarrow> ul_bits mcs k < uint estimatedSize))"
      by (rule "1.IH") (use True "1.prems" less in \<open>simp_all add: u [unfolded b_def] b_def\<close>)
    then obtain n where n: "ns_rach_len mcs estimatedSize rbStart limit (rbLen + 1) (uint (of_int b :: u16)) =
        Inr (n, if n = 1 then 0 else ul_bits mcs n)" "rbLen + 1 \<le> n" "n = rbLen + 1 \<or> rbStart + n \<le> limit"
        "\<forall>k. 2 \<le> k \<and> k < n \<longrightarrow> ul_bits mcs k < uint estimatedSize"
        "(if n = 1 then 0 else ul_bits mcs n) < uint estimatedSize \<longrightarrow>
          (\<forall>k. 2 \<le> k \<and> rbStart + k \<le> limit \<longrightarrow> ul_bits mcs k < uint estimatedSize)" by blast
    have "ns_rach_len mcs estimatedSize rbStart limit rbLen bits = Inr (n, if n = 1 then 0 else ul_bits mcs n)"
      using True n(1) by (subst ns_rach_len.simps) (simp add: b(1))
    with n True show ?thesis by (intro exI [of _ n]) auto
  qed
qed

lemma rfoldl_vec_upd:
  assumes "b \<le> length m"
  shows "\<exists>m'. rfoldl (\<lambda>m i. vec_upd m i v) m [a..<b] = Inr m' \<and> length m' = length m \<and>
    (\<forall>i < length m. m' ! i = (if a \<le> i \<and> i < b then v else m ! i))"
  using assms
proof (induction b)
  case (Suc b)
  then obtain m' where m': "rfoldl (\<lambda>m i. vec_upd m i v) m [a..<b] = Inr m'" "length m' = length m"
    "\<forall>i < length m. m' ! i = (if a \<le> i \<and> i < b then v else m ! i)" by auto
  show ?case
  proof (cases "a \<le> b")
    case True
    then show ?thesis
      using m' Suc.prems by (auto simp: rfoldl_append nth_list_update intro!: exI [of _ "m'[b := v]"])
  qed (use Suc.prems in auto)
qed simp

text \<open>The grants of some requests that begin at \<open>start\<close>, with the marks of the allocation map; they end when the rest of the
  run is too small for the next request.\<close>

fun ns_granted :: "u8 \<Rightarrow> int \<Rightarrow> int \<Rightarrow> RachRequest list \<Rightarrow> u16 list \<Rightarrow> BuildRar list \<Rightarrow> bool" where
  "ns_granted mcs limit start reqs m [] \<longleftrightarrow> (case reqs of [] \<Rightarrow> True
     | r # _ \<Rightarrow> \<forall>n. 2 \<le> n \<and> start + n \<le> limit \<longrightarrow> ul_bits mcs n < uint (rr_estimatedSize r))"
| "ns_granted mcs limit start [] m (g # gs) = False"
| "ns_granted mcs limit start (r # reqs) m (g # gs) =
    (ra_rnti g = rr_rnti r \<and> uint (ra_rbStart g) = start \<and> 2 \<le> uint (ra_rbLen g) \<and> start + uint (ra_rbLen g) \<le> limit \<and>
     ra_mcs g = mcs \<and> uint (rr_estimatedSize r) \<le> ul_bits mcs (uint (ra_rbLen g)) \<and>
     uint (ra_tbSize g) = ul_bits mcs (uint (ra_rbLen g)) div 8 \<and>
     (\<forall>n. 2 \<le> n \<and> n < uint (ra_rbLen g) \<longrightarrow> ul_bits mcs n < uint (rr_estimatedSize r)) \<and>
     (\<forall>i. start \<le> int i \<and> int i < start + uint (ra_rbLen g) \<longrightarrow> m ! i = ra_rnti g) \<and>
     ns_granted mcs limit (start + uint (ra_rbLen g)) reqs m gs)"

lemma ns_granted_map:
  assumes "ns_granted mcs limit start reqs m gs" "\<forall>i. start \<le> int i \<longrightarrow> m' ! i = m ! i"
  shows "ns_granted mcs limit start reqs m' gs"
  using assms by (induction mcs limit start reqs m gs rule: ns_granted.induct) auto

text \<open>Random access for a user with uplink tables.\<close>

definition ns_ul_ok :: "u16 \<Rightarrow> NsScheduler \<Rightarrow> bool" where
  "ns_ul_ok rnti s \<longleftrightarrow>
    (\<exists>harqId dcis. sm_find rnti (ns_ulHarqCurrentProcessId s) = Some harqId \<and> unat harqId < HARQ_PROC_NUM \<and>
      sm_find rnti (ns_ulHarqProcessesDciBuffer s) = Some dcis \<and> length dcis = HARQ_PROC_NUM)"

definition ns_rach_frame :: "NsScheduler \<Rightarrow> NsScheduler \<Rightarrow> bool" where
  "ns_rach_frame s s' \<longleftrightarrow> (\<exists>m d. s' = s\<lparr>ns_rachAllocationMap := m, ns_ulHarqProcessesDciBuffer := d\<rparr> \<and>
    length m = length (ns_rachAllocationMap s) \<and> (\<forall>r. ns_ul_ok r s \<longrightarrow> ns_ul_ok r s'))"

lemma ns_rach_frame_refl: "ns_rach_frame s s"
  unfolding ns_rach_frame_def
  by (intro exI [of _ "ns_rachAllocationMap s"] exI [of _ "ns_ulHarqProcessesDciBuffer s"]) simp

lemma ns_rach_frame_trans: "ns_rach_frame s s' \<Longrightarrow> ns_rach_frame s' s'' \<Longrightarrow> ns_rach_frame s s''"
  unfolding ns_rach_frame_def by (elim exE conjE) (simp, metis)

lemma ns_store_ul_ok:
  assumes "ns_ul_ok rnti s"
  shows "\<exists>d. ns_store_ul rnti dci s = Inr (s\<lparr>ns_ulHarqProcessesDciBuffer := d\<rparr>) \<and>
    (\<forall>r. ns_ul_ok r s \<longrightarrow> ns_ul_ok r (s\<lparr>ns_ulHarqProcessesDciBuffer := d\<rparr>))"
proof (cases "ns_harqOn s")
  case True
  obtain harqId dcis where u: "sm_find rnti (ns_ulHarqCurrentProcessId s) = Some harqId" "unat harqId < HARQ_PROC_NUM"
    "sm_find rnti (ns_ulHarqProcessesDciBuffer s) = Some dcis" "length dcis = HARQ_PROC_NUM"
    using assms by (auto simp: ns_ul_ok_def)
  with True show ?thesis
    by (intro exI [of _ "sm_set rnti (dcis[unat harqId := dci]) (ns_ulHarqProcessesDciBuffer s)"])
      (auto simp: ns_store_ul_def ns_ul_ok_def)
qed (auto simp: ns_store_ul_def intro!: exI [of _ "ns_ulHarqProcessesDciBuffer s"])

lemma ns_rach_mark:
  assumes user: "ns_ul_ok rnti s" and range: "0 \<le> start" "0 \<le> n" "start + n \<le> int (length (ns_rachAllocationMap s))"
  obtains m s2 where "rfoldl (\<lambda>m i. vec_upd m i rnti) (ns_rachAllocationMap s) [nat start..<nat (start + n)] = Inr m"
    "ns_store_ul rnti dci (s\<lparr>ns_rachAllocationMap := m\<rparr>) = Inr s2" "ns_rach_frame s s2" "ns_rachAllocationMap s2 = m"
    "ns_ulGrantMcs s2 = ns_ulGrantMcs s" "ns_ulBandwidth s2 = ns_ulBandwidth s" "length m = length (ns_rachAllocationMap s)"
    "\<forall>i. start \<le> int i \<and> int i < start + n \<longrightarrow> m ! i = rnti"
    "\<forall>i. int i < start \<longrightarrow> m ! i = ns_rachAllocationMap s ! i"
proof -
  have end_: "nat (start + n) \<le> length (ns_rachAllocationMap s)" using range(3) by (simp add: nat_le_iff)
  from rfoldl_vec_upd [OF this, of rnti "nat start"] obtain m where
    m: "rfoldl (\<lambda>m i. vec_upd m i rnti) (ns_rachAllocationMap s) [nat start..<nat (start + n)] = Inr m"
    "length m = length (ns_rachAllocationMap s)"
    "\<forall>i < length m. m ! i = (if nat start \<le> i \<and> i < nat (start + n) then rnti else ns_rachAllocationMap s ! i)"
    by auto
  define s1 where "s1 = s\<lparr>ns_rachAllocationMap := m\<rparr>"
  have "ns_ul_ok rnti s1" using user by (simp add: ns_ul_ok_def s1_def)
  from ns_store_ul_ok [OF this, of dci] obtain d where
    d: "ns_store_ul rnti dci s1 = Inr (s1\<lparr>ns_ulHarqProcessesDciBuffer := d\<rparr>)"
    "\<forall>r. ns_ul_ok r s1 \<longrightarrow> ns_ul_ok r (s1\<lparr>ns_ulHarqProcessesDciBuffer := d\<rparr>)" by blast
  have "\<forall>r. ns_ul_ok r s \<longrightarrow> ns_ul_ok r (s1\<lparr>ns_ulHarqProcessesDciBuffer := d\<rparr>)"
    using d(2) by (simp add: s1_def ns_ul_ok_def)
  then have "ns_rach_frame s (s1\<lparr>ns_ulHarqProcessesDciBuffer := d\<rparr>)"
    unfolding ns_rach_frame_def using m(2) by (intro exI [of _ m] exI [of _ d]) (simp add: s1_def)
  moreover have "m ! i = rnti" if "start \<le> int i" "int i < start + n" for i
  proof -
    have "i < length m" "nat start \<le> i" "i < nat (start + n)" using that end_ m(2) by linarith+
    with m(3) show ?thesis by simp
  qed
  moreover have "m ! i = ns_rachAllocationMap s ! i" if "int i < start" for i
  proof -
    have "i < length m" "\<not> nat start \<le> i" using that end_ m(2) range(2) by linarith+
    with m(3) show ?thesis by simp
  qed
  ultimately show thesis using m(1,2) d(1) by (intro that [of m "s1\<lparr>ns_ulHarqProcessesDciBuffer := d\<rparr>"]) (simp_all add: s1_def)
qed

lemma ns_rach_grants_ok:
  assumes "ns_ulGrantMcs s \<le> 15" "0 < uint (ns_ulBandwidth s)" "uint (ns_ulBandwidth s) < 111" "0 \<le> start" "start \<le> limit"
    "limit \<le> uint (ns_ulBandwidth s)" "length (ns_rachAllocationMap s) = unat (ns_ulBandwidth s)"
    "\<forall>r \<in> set reqs. ns_ul_ok (rr_rnti r) s \<and> 0 < rr_estimatedSize r \<and>
      uint (rr_estimatedSize r) < ul_bits (ns_ulGrantMcs s) (uint (ns_ulBandwidth s))"
  shows "\<exists>s' gs. ns_rach_grants limit start reqs s out = Inr (s', out @ gs) \<and> ns_rach_frame s s' \<and>
    ns_granted (ns_ulGrantMcs s) limit start reqs (ns_rachAllocationMap s') gs \<and>
    (\<forall>i. int i < start \<longrightarrow> ns_rachAllocationMap s' ! i = ns_rachAllocationMap s ! i)"
  using assms
proof (induction reqs arbitrary: start s out)
  case Nil
  show ?case using ns_rach_frame_refl by (intro exI [of _ s] exI [of _ "[]"]) simp
next
  case (Cons r reqs)
  define mcs where "mcs = ns_ulGrantMcs s"
  have r: "ns_ul_ok (rr_rnti r) s" "0 < rr_estimatedSize r" "uint (rr_estimatedSize r) < ul_bits mcs (uint (ns_ulBandwidth s))"
    using Cons.prems(8) by (simp_all add: mcs_def)
  have most: "GetUlTbSizeFromMcs (uint mcs) (uint (ns_ulBandwidth s)) = Inr (ul_bits mcs (uint (ns_ulBandwidth s)))"
    using ul_bits_ok(1) [of mcs "uint (ns_ulBandwidth s)"] Cons.prems(1-3) by (simp add: mcs_def)
  obtain n where n: "ns_rach_len mcs (rr_estimatedSize r) start limit 1 0 = Inr (n, if n = 1 then 0 else ul_bits mcs n)"
    "1 \<le> n" "n = 1 \<or> start + n \<le> limit" "\<forall>k. 2 \<le> k \<and> k < n \<longrightarrow> ul_bits mcs k < uint (rr_estimatedSize r)"
    "(if n = 1 then 0 else ul_bits mcs n) < uint (rr_estimatedSize r) \<longrightarrow>
      (\<forall>k. 2 \<le> k \<and> start + k \<le> limit \<longrightarrow> ul_bits mcs k < uint (rr_estimatedSize r))"
    using ns_rach_len_ok [of mcs start limit 1 0 "rr_estimatedSize r"] Cons.prems unfolding mcs_def by auto
  have est: "0 < uint (rr_estimatedSize r)" using r(2) by (simp add: word_less_def)
  define bits where "bits = (if n = 1 then 0 else ul_bits mcs n)"
  show ?case
  proof (cases "bits < uint (rr_estimatedSize r)")
    case True
    have "ns_rach_grants limit start (r # reqs) s out = Inr (s, out)"
      using True r(3) by (simp add: most n(1) rassert_def flip: mcs_def bits_def)
    moreover have "ns_granted mcs limit start (r # reqs) m []" for m using True n(5) by (simp flip: bits_def)
    ultimately show ?thesis using ns_rach_frame_refl by (intro exI [of _ s] exI [of _ "[]"]) (simp add: mcs_def)
  next
    case enough: False
    then have n1: "n \<noteq> 1" "bits = ul_bits mcs n" "start + n \<le> limit" using est n(3) by (auto simp: bits_def)
    have small: "0 < bits" "bits < 65536" using ul_bits_ok(2,3) [of mcs n] n1 n(2) Cons.prems(1,3,4,6) by (simp_all add: mcs_def)
    define dci where "dci = ns_rach_dci (rr_rnti r) (of_int start) (of_int n) mcs (of_int (bits div 8))"
    have end_: "start + n \<le> int (length (ns_rachAllocationMap s))" using n1(3) Cons.prems(6,7) by simp
    obtain m s2 where m: "rfoldl (\<lambda>m i. vec_upd m i (rr_rnti r)) (ns_rachAllocationMap s) [nat start..<nat (start + n)] = Inr m"
      and d: "ns_store_ul (rr_rnti r) dci (s\<lparr>ns_rachAllocationMap := m\<rparr>) = Inr s2" and f2: "ns_rach_frame s s2"
      and same: "ns_rachAllocationMap s2 = m" "ns_ulGrantMcs s2 = ns_ulGrantMcs s" "ns_ulBandwidth s2 = ns_ulBandwidth s"
        "length m = length (ns_rachAllocationMap s)"
      and marks: "\<forall>i. start \<le> int i \<and> int i < start + n \<longrightarrow> m ! i = rr_rnti r"
        "\<forall>i. int i < start \<longrightarrow> m ! i = ns_rachAllocationMap s ! i"
      by (rule ns_rach_mark [OF r(1) Cons.prems(4) _ end_, of dci]) (use n(2) in simp)
    have ok2: "\<forall>r. ns_ul_ok r s \<longrightarrow> ns_ul_ok r s2" using f2 by (auto simp: ns_rach_frame_def)
    define g where "g = \<lparr>ra_rnti = rr_rnti r, ra_rbStart = of_int start, ra_rbLen = of_int n, ra_mcs = mcs,
      ra_tbSize = of_int (bits div 8)\<rparr>"
    have "\<exists>s' gs. ns_rach_grants limit (start + n) reqs s2 (out @ [g]) = Inr (s', (out @ [g]) @ gs) \<and> ns_rach_frame s2 s' \<and>
        ns_granted (ns_ulGrantMcs s2) limit (start + n) reqs (ns_rachAllocationMap s') gs \<and>
        (\<forall>i. int i < start + n \<longrightarrow> ns_rachAllocationMap s' ! i = ns_rachAllocationMap s2 ! i)"
      by (rule Cons.IH) (use Cons.prems n(2) n1 ok2 in \<open>auto simp: same mcs_def\<close>)
    then obtain s' gs where s': "ns_rach_grants limit (start + n) reqs s2 (out @ [g]) = Inr (s', out @ g # gs)"
      "ns_rach_frame s2 s'" "ns_granted mcs limit (start + n) reqs (ns_rachAllocationMap s') gs"
      "\<forall>i. int i < start + n \<longrightarrow> ns_rachAllocationMap s' ! i = m ! i" by (auto simp: same mcs_def)
    have run: "ns_rach_grants limit start (r # reqs) s out = Inr (s', out @ g # gs)"
      using enough r(3) m d s'(1)
      by (simp add: most n(1) rassert_def g_def dci_def same(2) flip: mcs_def bits_def)
    have lim: "start + n < 256" using n1(3) Cons.prems(3,6) by simp
    have words: "uint (ra_rbStart g) = start" "uint (ra_rbLen g) = n" "uint (ra_tbSize g) = bits div 8"
      using Cons.prems(4) n(2) lim small by (simp_all add: g_def uint_word_of_int)
    have "ns_granted mcs limit start (r # reqs) (ns_rachAllocationMap s') (g # gs)"
      using words n1 n enough s'(3,4) marks(1) by (simp add: g_def)
    moreover have "ns_rachAllocationMap s' ! i = ns_rachAllocationMap s ! i" if "int i < start" for i
      using that s'(4) marks(2) n(2) by simp
    ultimately show ?thesis using run ns_rach_frame_trans [OF f2 s'(2)] by (auto simp: mcs_def)
  qed
qed

lemma ns_granted_each:
  assumes "ns_granted mcs limit start reqs m gs" "j < length gs"
  shows "j < length reqs \<and> ra_rnti (gs ! j) = rr_rnti (reqs ! j) \<and> start \<le> uint (ra_rbStart (gs ! j)) \<and>
    2 \<le> uint (ra_rbLen (gs ! j)) \<and> uint (ra_rbStart (gs ! j)) + uint (ra_rbLen (gs ! j)) \<le> limit \<and>
    uint (rr_estimatedSize (reqs ! j)) \<le> ul_bits mcs (uint (ra_rbLen (gs ! j))) \<and>
    uint (ra_tbSize (gs ! j)) = ul_bits mcs (uint (ra_rbLen (gs ! j))) div 8 \<and>
    (\<forall>n. 2 \<le> n \<and> n < uint (ra_rbLen (gs ! j)) \<longrightarrow> ul_bits mcs n < uint (rr_estimatedSize (reqs ! j))) \<and>
    (\<forall>i. uint (ra_rbStart (gs ! j)) \<le> int i \<and> int i < uint (ra_rbStart (gs ! j)) + uint (ra_rbLen (gs ! j)) \<longrightarrow>
      m ! i = ra_rnti (gs ! j))"
  using assms
proof (induction mcs limit start reqs m gs arbitrary: j rule: ns_granted.induct)
  case (3 mcs limit start r reqs m g gs)
  show ?case
  proof (cases j)
    case 0
    then show ?thesis using "3.prems"(1) by simp
  next
    case (Suc i)
    have "ns_granted mcs limit (start + uint (ra_rbLen g)) reqs m gs" "i < length gs" using "3.prems" Suc by simp_all
    note rest = "3.IH" [OF this]
    moreover have "0 \<le> uint (ra_rbLen g)" by simp
    with rest have "start \<le> uint (ra_rbStart (gs ! i))" by linarith
    ultimately show ?thesis using Suc by simp
  qed
qed simp_all

lemma ns_granted_start:
  assumes "ns_granted mcs limit start reqs m gs" "j < length gs"
  shows "uint (ra_rbStart (gs ! j)) = start + (\<Sum>g\<leftarrow>take j gs. uint (ra_rbLen g))"
  using assms
proof (induction mcs limit start reqs m gs arbitrary: j rule: ns_granted.induct)
  case (3 mcs limit start r reqs m g gs)
  then show ?case by (cases j) simp_all
qed simp_all

lemma ns_granted_end:
  assumes "ns_granted mcs limit start reqs m gs" "length gs < length reqs"
    "2 \<le> n" "start + (\<Sum>g\<leftarrow>gs. uint (ra_rbLen g)) + n \<le> limit"
  shows "ul_bits mcs n < uint (rr_estimatedSize (reqs ! length gs))"
  using assms
proof (induction mcs limit start reqs m gs rule: ns_granted.induct)
  case (1 mcs limit start reqs m)
  then show ?case by (cases reqs) simp_all
qed (simp_all add: add.assoc)

text \<open>Random access does not fail; the run it grants in is the longest one.\<close>

lemma ns_rach_total:
  assumes "ns_ulGrantMcs s \<le> 15" "0 < uint (ns_ulBandwidth s)" "uint (ns_ulBandwidth s) < 111"
    "length ulRbMap = unat (ns_ulBandwidth s)"
    "\<forall>r \<in> set (ns_rachList s). ns_ul_ok (rr_rnti r) s \<and> 0 < rr_estimatedSize r \<and>
      uint (rr_estimatedSize r) < ul_bits (ns_ulGrantMcs s) (uint (ns_ulBandwidth s))"
  obtains s' gs and len :: u8 and off :: u16 where "ns_rach ulRbMap s = Inr (s'\<lparr>ns_rachList := []\<rparr>, gs)"
    "ns_granted (ns_ulGrantMcs s) (uint off + uint len) (uint off) (ns_rachList s) (ns_rachAllocationMap s') gs"
    "free_run ulRbMap (unat off) (unat len)" "\<forall>start l. free_run ulRbMap start l \<longrightarrow> l \<le> unat len"
proof -
  have "length ulRbMap \<le> 255" using assms(3,4) unfolding unat_eq_nat_uint by linarith
  then obtain len off where scan: "ul_scan ulRbMap = (len, off)" "free_run ulRbMap (unat off) (unat len)"
    "\<And>start l. free_run ulRbMap start l \<Longrightarrow> l \<le> unat len"
    using ul_scan_longest by metis
  define s1 where "s1 = s\<lparr>ns_rachAllocationMap := vec_resize (unat (ns_ulBandwidth s)) 0 (ns_rachAllocationMap s)\<rparr>"
  have in_map: "unat off + unat len \<le> unat (ns_ulBandwidth s)" using scan(2) assms(4) by (simp add: free_run_def)
  then have lim: "uint off + uint len \<le> uint (ns_ulBandwidth s)"
    by (metis of_nat_add of_nat_le_iff uint_nat)
  have same: "ns_rachList s1 = ns_rachList s" "ns_ulGrantMcs s1 = ns_ulGrantMcs s" "ns_ulBandwidth s1 = ns_ulBandwidth s" "ns_ul_ok r s1 = ns_ul_ok r s" for r
    by (simp_all add: s1_def ns_ul_ok_def)
  have "length (ns_rachAllocationMap s1) = unat (ns_ulBandwidth s)" by (simp add: s1_def vec_resize_def)
  with lim assms(1-3,5) ns_rach_grants_ok [of s1 "uint off" "uint off + uint len" "ns_rachList s" "[]"]
  obtain s' gs where s': "ns_rach_grants (uint off + uint len) (uint off) (ns_rachList s) s1 [] = Inr (s', gs)"
    "ns_granted (ns_ulGrantMcs s) (uint off + uint len) (uint off) (ns_rachList s) (ns_rachAllocationMap s') gs"
    by (auto simp: same)
  have run: "ns_rach ulRbMap s = Inr (s'\<lparr>ns_rachList := []\<rparr>, gs)"
    using s'(1) by (simp add: ns_rach_def same(1) scan(1) Let_def same(1) add.commute flip: s1_def)
  show thesis using scan(3) by (intro that [OF run s'(2) scan(2)]) blast
qed

text \<open>C5: Random access is granted in the longest run of RBs that the frequency reuse leaves free: with an MCS of at most 15 and
  requests below the size of a whole subframe it does not fail.  The grants go to the first requests in their order, from
  the begin of the run on, each directly behind the one before it; their RBs are free and marked for the user, their number
  is the smallest one of at least two whose block has the requested size, and the grants end exactly at the first request
  for which no such number of RBs is left in the run, or with the last request.  (The comment in front of the loop
  promises the smallest block that fits; one RB is never tried, \<open>ns_rach_two_rbs\<close>.)\<close>

theorem ns_rach_grants_fit:
  assumes "ns_ulGrantMcs s \<le> 15" "0 < uint (ns_ulBandwidth s)" "uint (ns_ulBandwidth s) < 111"
    "length ulRbMap = unat (ns_ulBandwidth s)"
    "\<forall>r \<in> set (ns_rachList s). ns_ul_ok (rr_rnti r) s \<and> 0 < rr_estimatedSize r \<and>
      uint (rr_estimatedSize r) < ul_bits (ns_ulGrantMcs s) (uint (ns_ulBandwidth s))"
  shows "\<exists>s' out off len. ns_rach ulRbMap s = Inr (s', out) \<and>
    free_run ulRbMap off len \<and> (\<forall>off' len'. free_run ulRbMap off' len' \<longrightarrow> len' \<le> len) \<and>
    map ra_rnti out = map rr_rnti (take (length out) (ns_rachList s)) \<and> ns_rachList s' = [] \<and>
    (\<forall>j < length out. off \<le> unat (ra_rbStart (out ! j)) \<and>
      unat (ra_rbStart (out ! j)) + unat (ra_rbLen (out ! j)) \<le> off + len \<and> 2 \<le> unat (ra_rbLen (out ! j)) \<and>
      (\<forall>i. unat (ra_rbStart (out ! j)) \<le> i \<and> i < unat (ra_rbStart (out ! j)) + unat (ra_rbLen (out ! j)) \<longrightarrow>
        ns_rachAllocationMap s' ! i = ra_rnti (out ! j)) \<and>
      uint (rr_estimatedSize (ns_rachList s ! j)) \<le> ul_bits (ns_ulGrantMcs s) (uint (ra_rbLen (out ! j))) \<and>
      (\<forall>n. 2 \<le> n \<and> n < uint (ra_rbLen (out ! j)) \<longrightarrow>
        ul_bits (ns_ulGrantMcs s) n < uint (rr_estimatedSize (ns_rachList s ! j)))) \<and>
    (\<forall>j < length out. unat (ra_rbStart (out ! j)) = off + (\<Sum>g\<leftarrow>take j out. unat (ra_rbLen g))) \<and>
    (length out < length (ns_rachList s) \<longrightarrow>
      (\<forall>n. 2 \<le> n \<and> off + (\<Sum>g\<leftarrow>out. unat (ra_rbLen g)) + n \<le> off + len \<longrightarrow>
        ul_bits (ns_ulGrantMcs s) (int n) < uint (rr_estimatedSize (ns_rachList s ! length out))))"
proof -
  obtain s' gs and len :: u8 and off :: u16 where run: "ns_rach ulRbMap s = Inr (s'\<lparr>ns_rachList := []\<rparr>, gs)"
    and granted: "ns_granted (ns_ulGrantMcs s) (uint off + uint len) (uint off) (ns_rachList s) (ns_rachAllocationMap s') gs"
    and longest: "free_run ulRbMap (unat off) (unat len)" "\<forall>start l. free_run ulRbMap start l \<longrightarrow> l \<le> unat len"
    by (rule ns_rach_total [OF assms])
  note each = ns_granted_each [OF granted]
  have "length gs \<le> length (ns_rachList s)"
  proof (rule ccontr)
    assume "\<not> length gs \<le> length (ns_rachList s)"
    with each [of "length (ns_rachList s)"] show False by simp
  qed
  then have rntis: "map ra_rnti gs = map rr_rnti (take (length gs) (ns_rachList s))"
    using each by (intro nth_equalityI) simp_all
  have lens: "(\<Sum>g\<leftarrow>l. uint (ra_rbLen g)) = int (\<Sum>g\<leftarrow>l. unat (ra_rbLen g))" for l
    by (induction l) simp_all
  have begins: "unat (ra_rbStart (gs ! j)) = unat off + (\<Sum>g\<leftarrow>take j gs. unat (ra_rbLen g))" if "j < length gs" for j
  proof -
    have "int (unat (ra_rbStart (gs ! j))) = int (unat off) + int (\<Sum>g\<leftarrow>take j gs. unat (ra_rbLen g))"
      using ns_granted_start [OF granted that] unfolding lens by simp
    then show ?thesis by linarith
  qed
  have ends: "ul_bits (ns_ulGrantMcs s) (int n) < uint (rr_estimatedSize (ns_rachList s ! length gs))"
    if "length gs < length (ns_rachList s)" "2 \<le> n" "unat off + (\<Sum>g\<leftarrow>gs. unat (ra_rbLen g)) + n \<le> unat off + unat len" for n
  proof -
    have "uint off + int (\<Sum>g\<leftarrow>gs. unat (ra_rbLen g)) + int n \<le> uint off + uint len"
    proof -
      have "uint off = int (unat off)" "uint len = int (unat len)" by simp_all
      with that(3) show ?thesis by linarith
    qed
    with ns_granted_end [OF granted that(1), of "int n"] that(2) show ?thesis unfolding lens by simp
  qed
  have grant: "unat off \<le> unat (ra_rbStart (gs ! j)) \<and>
      unat (ra_rbStart (gs ! j)) + unat (ra_rbLen (gs ! j)) \<le> unat off + unat len \<and> 2 \<le> unat (ra_rbLen (gs ! j)) \<and>
      (\<forall>i. unat (ra_rbStart (gs ! j)) \<le> i \<and> i < unat (ra_rbStart (gs ! j)) + unat (ra_rbLen (gs ! j)) \<longrightarrow>
        ns_rachAllocationMap s' ! i = ra_rnti (gs ! j)) \<and>
      uint (rr_estimatedSize (ns_rachList s ! j)) \<le> ul_bits (ns_ulGrantMcs s) (uint (ra_rbLen (gs ! j))) \<and>
      (\<forall>n. 2 \<le> n \<and> n < uint (ra_rbLen (gs ! j)) \<longrightarrow>
        ul_bits (ns_ulGrantMcs s) n < uint (rr_estimatedSize (ns_rachList s ! j)))" if "j < length gs" for j
  proof -
    define st ln where "st = unat (ra_rbStart (gs ! j))" and "ln = unat (ra_rbLen (gs ! j))"
    have u: "uint (ra_rbStart (gs ! j)) = int st" "uint (ra_rbLen (gs ! j)) = int ln" "uint off = int (unat off)"
      "uint len = int (unat len)"
      by (simp_all add: st_def ln_def)
    note g = each [OF that, unfolded u]
    show ?thesis
      unfolding u st_def [symmetric] ln_def [symmetric]
    proof (intro conjI allI impI)
      show "unat off \<le> st" "st + ln \<le> unat off + unat len" "2 \<le> ln" using g by linarith+
      show "ns_rachAllocationMap s' ! i = ra_rnti (gs ! j)" if "st \<le> i \<and> i < st + ln" for i
      proof -
        have "int st \<le> int i \<and> int i < int st + int ln" using that by linarith
        with g show ?thesis by blast
      qed
    qed (use g in blast)+
  qed
  show ?thesis
    by (rule exI [of _ "s'\<lparr>ns_rachList := []\<rparr>"], rule exI [of _ gs], rule exI [of _ "unat off"], rule exI [of _ "unat len"])
      (use run longest rntis grant begins ends in simp)
qed

text \<open>A request that fits one RB gets two: the loop counts up before it looks at a size.\<close>

lemma ns_rach_two_rbs:
  "ns_rach_len 15 144 0 25 1 0 = Inr (2, 552) \<and> GetUlTbSizeFromMcs 15 1 = Inr 256"
proof -
  have "GetUlTbSizeFromMcs 15 1 = Inr 256" "GetUlTbSizeFromMcs 15 2 = Inr 552"
    by (simp_all add: GetUlTbSizeFromMcs_def amc_tb_size_def McsToItbsUl_def TransportBlockSizeTable_def)
  then show ?thesis by (simp add: ns_rach_len.simps [of _ _ _ _ 1] ns_rach_len.simps [of _ _ _ _ 2])
qed

section \<open>Witness\<close>

definition ns_rach_demo :: NsScheduler where
  "ns_rach_demo = (NsScheduler_new 25 True 1000)\<lparr>ns_ulHarqCurrentProcessId := [(1, 0)],
    ns_ulHarqProcessesDciBuffer := [(1, replicate 8 UlDci_new)],
    ns_rachList := [\<lparr>rr_rnti = 1, rr_estimatedSize = 144\<rparr>]\<rparr>"

lemma ns_rach_grants_fit_witness:
  "\<exists>s' out. ns_rach (replicate 5 True @ replicate 20 False) ns_rach_demo = Inr (s', out) \<and> ns_rachList s' = [] \<and>
    map ra_rnti out = [1]"
proof -
  define m where "m = replicate 5 True @ replicate 20 False"
  have bits: "GetUlTbSizeFromMcs 0 25 = Inr 680"
    by (simp add: GetUlTbSizeFromMcs_def amc_tb_size_def McsToItbsUl_def TransportBlockSizeTable_def rassert_def)
  have fields: "ns_ulGrantMcs ns_rach_demo = 0" "ns_ulBandwidth ns_rach_demo = 25"
    "ns_rachList ns_rach_demo = [\<lparr>rr_rnti = 1, rr_estimatedSize = 144\<rparr>]"
    by (simp_all add: ns_rach_demo_def NsScheduler_new_def)
  have "ns_ul_ok 1 ns_rach_demo" by (simp add: ns_ul_ok_def ns_rach_demo_def sm_find_def HARQ_PROC_NUM_def)
  then have "\<forall>r \<in> set (ns_rachList ns_rach_demo). ns_ul_ok (rr_rnti r) ns_rach_demo \<and> 0 < rr_estimatedSize r \<and>
      uint (rr_estimatedSize r) < ul_bits (ns_ulGrantMcs ns_rach_demo) (uint (ns_ulBandwidth ns_rach_demo))"
    by (simp add: fields ul_bits_def bits)
  moreover have "ns_ulGrantMcs ns_rach_demo \<le> 15" "0 < uint (ns_ulBandwidth ns_rach_demo)"
    "uint (ns_ulBandwidth ns_rach_demo) < 111" "length m = unat (ns_ulBandwidth ns_rach_demo)"
    by (simp_all add: fields m_def)
  ultimately obtain s' out off len where g: "ns_rach m ns_rach_demo = Inr (s', out)" "ns_rachList s' = []"
    "\<forall>off' len'. free_run m off' len' \<longrightarrow> len' \<le> len"
    "map ra_rnti out = map rr_rnti (take (length out) (ns_rachList ns_rach_demo))"
    "length out < length (ns_rachList ns_rach_demo) \<longrightarrow>
      (\<forall>n. 2 \<le> n \<and> off + (\<Sum>g\<leftarrow>out. unat (ra_rbLen g)) + n \<le> off + len \<longrightarrow>
        ul_bits (ns_ulGrantMcs ns_rach_demo) (int n) < uint (rr_estimatedSize (ns_rachList ns_rach_demo ! length out)))"
    using ns_rach_grants_fit [of ns_rach_demo m] by auto
  have "out \<noteq> []"
  proof
    assume "out = []"
    have "free_run m 5 20" by (simp add: free_run_def m_def nth_append)
    with g(3) have "20 \<le> len" by blast
    with g(5) \<open>out = []\<close> have "\<forall>n. 2 \<le> n \<and> n \<le> len \<longrightarrow> ul_bits 0 (int n) < 144" by (simp add: fields)
    from this [rule_format, of 20] \<open>20 \<le> len\<close> have "ul_bits 0 20 < 144" by simp
    then show False by (simp add: ul_bits_def GetUlTbSizeFromMcs_def amc_tb_size_def McsToItbsUl_def TransportBlockSizeTable_def rassert_def)
  qed
  then have "map ra_rnti out = [1]" using g(4) by (cases out) (simp_all add: fields)
  with g(1,2) show ?thesis unfolding m_def by (intro exI conjI)
qed

end
