(* ===== verification/Ns_Subframe.thy ===== *)
theory Ns_Subframe
  imports Ns_Retransmission Ns_Rach
begin

text \<open>A whole downlink subframe of the slicing scheduler: \<open>DoSchedDlTriggerReq\<close> of \<open>ns-pf-ff-mac-scheduler.cc\<close> calls
  its parts in this order, and what each of them leaves alone.\<close>

section \<open>The call\<close>

text \<open>The frequency reuse tells which RBGs and uplink RBs are taken, and the users answer to earlier messages.  The
  indication to the eNB has the grants of random access, the retransmissions and the new messages.\<close>

definition ns_DoSchedDlTriggerReq :: "Ffr \<Rightarrow> bool list \<Rightarrow> bool list \<Rightarrow> DlInfo list \<Rightarrow> NsScheduler
    \<Rightarrow> (NsScheduler \<times> BuildRar list \<times> BuildData list) result" where
  "ns_DoSchedDlTriggerReq ffr availableDlRbg availableUlRbg dlInfoList s =
    rbind (ns_RefreshDlCqiMaps s) (\<lambda>s.
    rbind (ns_rach availableUlRbg (ns_ul_processes s)) (\<lambda>(s, rars).
    rbind (ns_RefreshHarqProcesses s) (\<lambda>s.
    rbind (ns_feedbacks dlInfoList availableDlRbg s) (\<lambda>(s, x).
    rbind (ns_schedule_data ffr (rx_rntiAllocated x) (rx_rbgMap x) (rx_rbgAllocatedNum x) s) (\<lambda>(s, out).
    Inr (s, rars, rx_out x @ out))))))"

section \<open>What the parts leave alone\<close>

text \<open>The reports and their timers, the uplink, and the order of the timers of the HARQ processes.\<close>

definition ns_side :: "NsScheduler \<Rightarrow> NsScheduler \<Rightarrow> bool" where
  "ns_side s s' \<longleftrightarrow> ns_p10CqiRxed s' = ns_p10CqiRxed s \<and> ns_p10CqiTimers s' = ns_p10CqiTimers s \<and>
    ns_a30CqiRxed s' = ns_a30CqiRxed s \<and> ns_a30CqiTimers s' = ns_a30CqiTimers s \<and>
    ns_uesTxMode s' = ns_uesTxMode s \<and> ns_dlBandwidth s' = ns_dlBandwidth s \<and> ns_harqOn s' = ns_harqOn s \<and>
    ns_ulHarqCurrentProcessId s' = ns_ulHarqCurrentProcessId s \<and>
    ns_ulHarqProcessesDciBuffer s' = ns_ulHarqProcessesDciBuffer s \<and> ns_ulGrantMcs s' = ns_ulGrantMcs s \<and>
    ns_ulBandwidth s' = ns_ulBandwidth s \<and> ns_dlInfoListBuffered s' = ns_dlInfoListBuffered s \<and>
    ns_rachList s' = ns_rachList s \<and> (sm_wf (ns_dlHarqProcessesTimer s) \<longrightarrow> sm_wf (ns_dlHarqProcessesTimer s'))"

lemma ns_side_refl: "ns_side s s"
  by (simp add: ns_side_def)

lemma ns_side_trans: "ns_side s s' \<Longrightarrow> ns_side s' s'' \<Longrightarrow> ns_side s s''"
  by (simp add: ns_side_def)

subsection \<open>Retransmissions\<close>

lemma ns_count_harq_side: "ns_count_harq rnti s = Inr s' \<Longrightarrow> ns_side s s'"
  by (auto simp: ns_count_harq_def ns_side_def split: option.splits)

lemma ns_place_side:
  assumes "ns_place info dci (s, x) = Inr (s', x', dci')"
  shows "ns_side s s'"
proof -
  have reserve: "ns_side s (fst sx')" if "rfoldl (ns_reserve rnti) (s, x) rbgs = Inr sx'" for rnti rbgs sx'
    by (rule rfoldl_invariant [OF that])
      (auto simp: ns_side_refl ns_reserve_def dest!: ns_count_harq_side intro: ns_side_trans)
  have move: "ns_side s (fst sx')" if "rfoldl (ns_move rnti) (s, x) rbgs = Inr sx'" for rnti rbgs sx'
    by (rule rfoldl_invariant [OF that])
      (auto simp: ns_side_refl ns_move_def dest!: ns_count_harq_side intro: ns_side_trans)
  show ?thesis
    using assms by (auto simp: ns_place_def Let_def ns_side_refl split: if_splits dest!: reserve move)
qed

lemma ns_free_process_side: "ns_free_process e rnti harqId s = Inr s' \<Longrightarrow> ns_side s s'"
  by (auto simp: ns_free_process_def ns_clear_pdus_def ns_side_def split: option.splits if_splits)

lemma ns_retransmit_side:
  assumes "ns_retransmit info retx dcis dci (s, x) = Inr (s', x')"
  shows "ns_side s s'"
proof -
  obtain s1 x1 dci1 where place: "ns_place info dci (s, x) = Inr (s1, x1, dci1)"
    using assms by (auto simp: ns_retransmit_def Let_def)
  have "ns_side s1 s'"
    using assms by (auto simp: ns_retransmit_def Let_def place ns_side_def smap.wf_set split: option.splits)
  with ns_place_side [OF place] show ?thesis by (rule ns_side_trans)
qed

lemma ns_feedback_side: "ns_feedback (s, x) info = Inr (s', x') \<Longrightarrow> ns_side s s'"
  by (auto simp: ns_feedback_def Let_def ns_side_refl split: if_splits option.splits
      dest!: ns_free_process_side ns_retransmit_side)

lemma ns_feedbacks_side:
  assumes "ns_feedbacks dlInfoList rbgMap s = Inr (s', x)"
  shows "ns_side s (s'\<lparr>ns_dlInfoListBuffered := ns_dlInfoListBuffered s\<rparr>)" "ns_dlInfoListBuffered s' = rx_untxed x"
proof -
  obtain t where run: "rfoldl ns_feedback (s, \<lparr>rx_rbgMap = rbgMap, rx_rbgAllocatedNum = of_nat (length (filter (\<lambda>b. b) rbgMap)),
      rx_rntiAllocated = {}, rx_untxed = [], rx_out = []\<rparr>)
      (if ns_harqOn s then ns_dlInfoListBuffered s @ dlInfoList else []) = Inr (t, x)"
    and s': "s' = t\<lparr>ns_dlInfoListBuffered := rx_untxed x\<rparr>"
    using assms by (auto simp: ns_feedbacks_def)
  have "ns_side s (fst (t, x))"
    by (rule rfoldl_invariant [OF run]) (auto simp: ns_side_refl dest!: ns_feedback_side intro: ns_side_trans)
  then show "ns_side s (s'\<lparr>ns_dlInfoListBuffered := ns_dlInfoListBuffered s\<rparr>)" by (simp add: s' ns_side_def)
  show "ns_dlInfoListBuffered s' = rx_untxed x" by (simp add: s')
qed

subsection \<open>New data\<close>

lemma ns_side_map_flows [simp]: "ns_side s (ns_map_flows g s)"
  by (simp add: ns_side_def ns_map_flows_def)

lemma ns_update_harq_side: "ns_UpdateHarqProcessId rnti s = Inr (i, s') \<Longrightarrow> ns_side s s'"
  by (auto simp: ns_UpdateHarqProcessId_def ns_side_def split: if_splits)

lemma ns_store_pdu_side: "ns_store_pdu rnti j harqId pdu s = Inr s' \<Longrightarrow> ns_side s s'"
  by (auto simp: ns_store_pdu_def ns_side_def split: if_splits option.splits)

lemma ns_rlc_side: "ns_side s (ns_UpdateDlRlcBufferInfo rnti lcid bytes s)"
  by (simp add: ns_UpdateDlRlcBufferInfo_def ns_side_def split: option.split)

lemma ns_serve_bearer_side:
  assumes "ns_serve_bearer rnti harqId tbs lcActives (s, pdus) x = Inr (s', pdus')"
  shows "ns_side s s'"
proof -
  obtain r lcid req where x: "x = ((r, lcid), req)" by (metis prod_cases3 surj_pair)
  have loop: "ns_side s t" if "rfoldl (\<lambda>s j. ns_store_pdu rnti j harqId (pduList ! j)
      (ns_UpdateDlRlcBufferInfo rnti lcid (pdu_size (pduList ! j)) s)) s [0..<n] = Inr t" for pduList n t
    by (rule rfoldl_invariant [OF that])
      (auto simp: ns_side_refl dest!: ns_store_pdu_side intro: ns_side_trans [OF ns_side_trans [OF _ ns_rlc_side]])
  show ?thesis
    using assms by (auto simp: ns_serve_bearer_def x Let_def ns_side_refl split: if_splits dest!: loop)
qed

lemma ns_store_dci_side: "ns_store_dci rnti dci s = Inr s' \<Longrightarrow> ns_side s s'"
  by (auto simp: ns_store_dci_def ns_side_def smap.wf_set split: if_splits option.splits)

lemma ns_note_bytes_side: "ns_note_bytes rnti a b s = Inr s' \<Longrightarrow> ns_side s s'"
  by (auto simp: ns_note_bytes_def ns_side_def split: option.splits)

lemma ns_build_side:
  assumes "ns_build ffr t (s, out) x = Inr (s', out')"
  shows "ns_side s s'"
proof -
  obtain rnti rbgs where x: "x = (rnti, rbgs)" by (cases x)
  obtain harqId s1 tbs lcActives pdus s2 dci s3 a b where parts:
    "ns_UpdateHarqProcessId rnti s = Inr (harqId, s1)"
    "rfoldl (ns_serve_bearer rnti (unat harqId) tbs lcActives) (s1, []) (ns_rlcBufferReq s1) = Inr (s2, pdus)"
    "ns_store_dci rnti dci s2 = Inr s3" "ns_note_bytes rnti a b s3 = Inr s'"
    using assms by (auto simp: ns_build_def x Let_def)
  have "ns_side s1 (fst (s2, pdus))"
    by (rule rfoldl_invariant [OF parts(2)]) (auto simp: ns_side_refl dest!: ns_serve_bearer_side intro: ns_side_trans)
  then have "ns_side s1 s2" by simp
  with parts(1,3,4) show ?thesis
    by (metis ns_side_trans ns_update_harq_side ns_store_dci_side ns_note_bytes_side)
qed

lemma ns_side_core:
  assumes "ns_core s' = ns_core (s\<lparr>ns_totalRbs := k\<rparr>)"
  shows "ns_side s s'"
  using assms by (cases s; cases s') (simp add: ns_core_def ns_side_def)

lemma ns_schedule_data_side:
  assumes "ns_ready s" "length rbgMap = nat (ns_rbgNum s)"
    and run: "ns_schedule_data ffr ra rbgMap allocated s = Inr (s', out)"
  shows "ns_side s s'"
proof (cases "uint allocated = ns_rbgNum s")
  case True
  with run show ?thesis by (simp add: ns_schedule_data_def ns_side_refl)
next
  case False
  obtain s1 t where alloc: "ns_allocate ffr ra rbgMap s = Inr (s1, t)" "ns_core s1 = ns_core (s\<lparr>ns_totalRbs := ns_totalRbs s1\<rparr>)"
    using ns_allocate_ok [OF assms(1,2)] by blast
  from run False alloc(1) obtain s2 where
    build: "rfoldl (ns_build ffr t) (ns_map_flows ns_reset_tti s1, []) (tt_allocation t) = Inr (s2, out)"
    and s': "s' = ns_map_flows (ns_update_stats (ns_timeWindow s2)) s2"
    by (auto simp: ns_schedule_data_def)
  have "ns_side s1 (fst (s2, out))"
    by (rule rfoldl_invariant [OF build]) (auto dest!: ns_build_side intro: ns_side_trans)
  then have "ns_side s1 s2" by simp
  with ns_side_core [OF alloc(2)] show ?thesis
    unfolding s' by (blast intro: ns_side_trans ns_side_map_flows)
qed

section \<open>What waits for the next subframe\<close>

text \<open>What an answer refers to: the messages and PDUs stored for its user.  A message for another user leaves it alone.\<close>

definition ns_stored :: "u16 \<Rightarrow> NsScheduler \<Rightarrow> DlDci list option \<times> RlcPdu list list list option \<times> u8" where
  "ns_stored r s = (sm_find r (ns_dlHarqProcessesDciBuffer s), sm_find r (ns_dlHarqRlcPduBuffer s), ns_dlBandwidth s)"

lemma ns_feedback_ok_stored:
  assumes "ns_feedback_ok s info" "sm_has (di_rnti info) (ns_flowStatsDl s')"
    "sm_find (di_rnti info) (ns_dlHarqProcessesDciBuffer s') = sm_find (di_rnti info) (ns_dlHarqProcessesDciBuffer s)"
    "sm_find (di_rnti info) (ns_dlHarqRlcPduBuffer s') = sm_find (di_rnti info) (ns_dlHarqRlcPduBuffer s)"
    "ns_dlBandwidth s' = ns_dlBandwidth s"
  shows "ns_feedback_ok s' info"
  using assms by (simp add: ns_feedback_ok_def ns_rbgNum_def ns_rbgSize_def Let_def)

lemma ns_store_pdu_stored: "ns_store_pdu rnti j harqId pdu s = Inr s' \<Longrightarrow> r \<noteq> rnti \<Longrightarrow> ns_stored r s' = ns_stored r s"
  by (auto simp: ns_store_pdu_def ns_stored_def split: if_splits option.splits)

lemma ns_rlc_stored [simp]: "ns_stored r (ns_UpdateDlRlcBufferInfo rnti lcid bytes s) = ns_stored r s"
  by (simp add: ns_UpdateDlRlcBufferInfo_def ns_stored_def split: option.split)

lemma ns_serve_bearer_stored:
  assumes "ns_serve_bearer rnti harqId tbs lcActives (s, pdus) x = Inr (s', pdus')" "r \<noteq> rnti"
  shows "ns_stored r s' = ns_stored r s"
proof -
  obtain r' lcid req where x: "x = ((r', lcid), req)" by (metis prod_cases3 surj_pair)
  have loop: "ns_stored r t = ns_stored r s" if "rfoldl (\<lambda>s j. ns_store_pdu rnti j harqId (pduList ! j)
      (ns_UpdateDlRlcBufferInfo rnti lcid (pdu_size (pduList ! j)) s)) s [0..<n] = Inr t" for pduList n t
    by (rule rfoldl_invariant [OF that]) (use assms(2) in \<open>auto dest!: ns_store_pdu_stored\<close>)
  show ?thesis
    using assms(1) by (auto simp: ns_serve_bearer_def x Let_def split: if_splits dest!: loop)
qed

lemma ns_build_stored:
  assumes "ns_build ffr t (s, out) x = Inr (s', out')" "r \<noteq> fst x"
  shows "ns_stored r s' = ns_stored r s"
proof -
  obtain rnti rbgs where x: "x = (rnti, rbgs)" by (cases x)
  have r: "r \<noteq> rnti" using assms(2) by (simp add: x)
  obtain harqId s1 tbs lcActives pdus s2 dci s3 a b where parts:
    "ns_UpdateHarqProcessId rnti s = Inr (harqId, s1)"
    "rfoldl (ns_serve_bearer rnti (unat harqId) tbs lcActives) (s1, []) (ns_rlcBufferReq s1) = Inr (s2, pdus)"
    "ns_store_dci rnti dci s2 = Inr s3" "ns_note_bytes rnti a b s3 = Inr s'"
    using assms(1) by (auto simp: ns_build_def x Let_def)
  have "ns_stored r (fst (s2, pdus)) = ns_stored r s1"
    by (rule rfoldl_invariant [OF parts(2)]) (use ns_serve_bearer_stored [OF _ r] in auto)
  moreover have "ns_stored r s1 = ns_stored r s"
    using parts(1) by (auto simp: ns_UpdateHarqProcessId_def ns_stored_def split: if_splits)
  moreover have "ns_stored r s3 = ns_stored r s2"
    using parts(3) r by (auto simp: ns_store_dci_def ns_stored_def split: if_splits option.splits)
  moreover have "ns_stored r s' = ns_stored r s3"
    using parts(4) by (auto simp: ns_note_bytes_def ns_stored_def split: option.splits)
  ultimately show ?thesis by simp
qed

lemma ns_schedule_data_stored:
  assumes "ns_ready s" "length rbgMap = nat (ns_rbgNum s)"
    and run: "ns_schedule_data ffr ra rbgMap allocated s = Inr (s', out)" and r: "r \<in> ra"
  shows "ns_stored r s' = ns_stored r s"
proof (cases "uint allocated = ns_rbgNum s")
  case True
  with run show ?thesis by (simp add: ns_schedule_data_def)
next
  case False
  obtain s1 t where alloc: "ns_allocate ffr ra rbgMap s = Inr (s1, t)" "ns_core s1 = ns_core (s\<lparr>ns_totalRbs := ns_totalRbs s1\<rparr>)"
    "ns_tti_ok s ffr ra rbgMap t"
    using ns_allocate_ok [OF assms(1,2)] by blast
  from run False alloc(1) obtain s2 where
    build: "rfoldl (ns_build ffr t) (ns_map_flows ns_reset_tti s1, []) (tt_allocation t) = Inr (s2, out)"
    and s': "s' = ns_map_flows (ns_update_stats (ns_timeWindow s2)) s2"
    by (auto simp: ns_schedule_data_def)
  have other: "fst x \<noteq> r" if x: "x \<in> set (tt_allocation t)" for x
  proof -
    have "uint (ns_dlBandwidth s) < 110" using assms(1) by (simp add: ns_ready_def)
    moreover have "(fst x, snd x) \<in> set (tt_allocation t)" using x by simp
    ultimately have "tt_rbgs (fst x) t \<noteq> []" using ns_alloc_rbgs(1,2) [OF alloc(3)] by metis
    then obtain i where "i \<in> set (tt_rbgs (fst x) t)" by (cases "tt_rbgs (fst x) t") auto
    with alloc(3) have "fst x \<notin> ra" unfolding ns_tti_ok_def assms(2) by blast
    with r show ?thesis by blast
  qed
  have "ns_stored r (fst (s2, out)) = ns_stored r s1"
  proof (rule rfoldl_invariant [OF build])
    show "ns_stored r (fst (ns_map_flows ns_reset_tti s1, [])) = ns_stored r s1"
      by (simp add: ns_map_flows_def ns_stored_def)
    fix sx x sx'
    assume "x \<in> set (tt_allocation t)" "ns_stored r (fst sx) = ns_stored r s1" "ns_build ffr t sx x = Inr sx'"
    then show "ns_stored r (fst sx') = ns_stored r s1"
      using ns_build_stored [of ffr t "fst sx" "snd sx" x "fst sx'" "snd sx'" r] other [of x] by simp
  qed
  moreover have "ns_stored r s1 = ns_stored r s"
    using alloc(2) by (cases s; cases s1) (simp add: ns_core_def ns_stored_def)
  ultimately show ?thesis by (simp add: s' ns_map_flows_def ns_stored_def)
qed

text \<open>Only answers that were there wait.\<close>

lemma ns_place_untxed:
  assumes "ns_place info dci (s, x) = Inr (s', x', dci')"
  shows "set (rx_untxed x') \<subseteq> insert info (set (rx_untxed x))"
proof -
  let ?same = "\<lambda>sx. rx_untxed (snd sx) = rx_untxed x"
  have reserve: "?same sx'" if "rfoldl (ns_reserve rnti) (s, x) rbgs = Inr sx'" for rnti rbgs sx'
    by (rule rfoldl_invariant [OF that]) (auto simp: ns_reserve_def)
  have move: "?same sx'" if "rfoldl (ns_move rnti) (s, x) rbgs = Inr sx'" for rnti rbgs sx'
    by (rule rfoldl_invariant [OF that]) (auto simp: ns_move_def)
  show ?thesis
    using assms by (auto simp: ns_place_def Let_def split: if_splits dest!: reserve move)
qed

lemma ns_retransmit_untxed:
  assumes "ns_retransmit info retx dcis dci (s, x) = Inr (s', x')"
  shows "set (rx_untxed x') \<subseteq> insert info (set (rx_untxed x))"
proof -
  obtain s1 x1 dci1 where place: "ns_place info dci (s, x) = Inr (s1, x1, dci1)"
    using assms by (auto simp: ns_retransmit_def Let_def)
  have "rx_untxed x' = rx_untxed x1"
    using assms by (auto simp: ns_retransmit_def Let_def place split: option.splits)
  with ns_place_untxed [OF place] show ?thesis by simp
qed

lemma ns_feedback_untxed:
  assumes "ns_feedback (s, x) info = Inr (s', x')"
  shows "set (rx_untxed x') \<subseteq> insert info (set (rx_untxed x))"
  using assms ns_retransmit_untxed by (fastforce simp: ns_feedback_def Let_def split: if_splits option.splits)

lemma ns_feedbacks_untxed:
  assumes "ns_feedbacks dlInfoList rbgMap s = Inr (s', x)"
  shows "set (rx_untxed x) \<subseteq> set (ns_dlInfoListBuffered s @ dlInfoList)"
proof -
  obtain t where run: "rfoldl ns_feedback (s, \<lparr>rx_rbgMap = rbgMap, rx_rbgAllocatedNum = of_nat (length (filter (\<lambda>b. b) rbgMap)),
      rx_rntiAllocated = {}, rx_untxed = [], rx_out = []\<rparr>)
      (if ns_harqOn s then ns_dlInfoListBuffered s @ dlInfoList else []) = Inr (t, x)"
    and s': "s' = t\<lparr>ns_dlInfoListBuffered := rx_untxed x\<rparr>"
    using assms by (auto simp: ns_feedbacks_def)
  have "set (rx_untxed (snd (t, x))) \<subseteq> set (ns_dlInfoListBuffered s @ dlInfoList)"
    by (rule rfoldl_invariant [OF run]) (fastforce dest!: ns_feedback_untxed split: if_splits)+
  then show ?thesis by simp
qed

section \<open>The timers of the reports\<close>

text \<open>Every report has a timer and the other way round.\<close>

definition ns_cqi_timed :: "(u16, u32) smap \<Rightarrow> (u16, 'v) smap \<Rightarrow> bool" where
  "ns_cqi_timed timers rxed \<longleftrightarrow> sm_wf timers \<and> (\<forall>r. sm_has r timers \<longleftrightarrow> sm_has r rxed)"

lemma ns_expire_keys:
  assumes "distinct (sm_keys timers)" "\<And>r. sm_has r timers \<Longrightarrow> sm_has r rxed"
  shows "\<exists>timers' rxed'. ns_expire timers rxed = Inr (timers', rxed') \<and> set (sm_keys timers') \<subseteq> set (sm_keys timers) \<and>
    (sm_wf timers \<longrightarrow> sm_wf timers') \<and> (\<forall>r. sm_has r rxed' \<longleftrightarrow> sm_has r rxed \<and> (sm_has r timers \<longrightarrow> sm_has r timers'))"
  using assms
proof (induction timers rxed rule: ns_expire.induct)
  case (2 rnti t timers rxed)
  have rest: "distinct (sm_keys timers)" "rnti \<notin> set (sm_keys timers)" using "2.prems"(1) by (simp_all add: sm_keys_def)
  have has: "sm_has r ((rnti, t) # timers) \<longleftrightarrow> r = rnti \<or> sm_has r timers" for r by (auto simp: sm_has_def sm_find_def)
  have new: "\<not> sm_has rnti timers" using rest(2) by (simp add: sm_has_iff)
  show ?case
  proof (cases "t = 0")
    case True
    have rxed: "sm_has rnti rxed" using "2.prems"(2) has by blast
    then have "\<exists>timers' rxed'. ns_expire timers (sm_erase rnti rxed) = Inr (timers', rxed') \<and>
        set (sm_keys timers') \<subseteq> set (sm_keys timers) \<and> (sm_wf timers \<longrightarrow> sm_wf timers') \<and>
        (\<forall>r. sm_has r rxed' \<longleftrightarrow> sm_has r (sm_erase rnti rxed) \<and> (sm_has r timers \<longrightarrow> sm_has r timers'))"
      using "2.IH"(1) [OF True rest(1)] "2.prems"(2) has new by simp metis
    then obtain timers' rxed' where e: "ns_expire timers (sm_erase rnti rxed) = Inr (timers', rxed')"
      "set (sm_keys timers') \<subseteq> set (sm_keys timers)" "sm_wf timers \<longrightarrow> sm_wf timers'"
      "\<forall>r. sm_has r rxed' \<longleftrightarrow> r \<noteq> rnti \<and> sm_has r rxed \<and> (sm_has r timers \<longrightarrow> sm_has r timers')" by auto
    have "\<not> sm_has rnti timers'" using e(2) rest(2) by (auto simp: sm_has_iff)
    moreover have "sm_wf ((rnti, t) # timers) \<Longrightarrow> sm_wf timers" by (simp add: sm_wf_def sm_keys_def)
    moreover have "set (sm_keys timers') \<subseteq> set (sm_keys ((rnti, t) # timers))" using e(2) by (auto simp: sm_keys_def)
    ultimately show ?thesis using True rxed e has by (auto simp: rassert_def)
  next
    case False
    have "\<exists>timers' rxed'. ns_expire timers rxed = Inr (timers', rxed') \<and>
        set (sm_keys timers') \<subseteq> set (sm_keys timers) \<and> (sm_wf timers \<longrightarrow> sm_wf timers') \<and>
        (\<forall>r. sm_has r rxed' \<longleftrightarrow> sm_has r rxed \<and> (sm_has r timers \<longrightarrow> sm_has r timers'))"
      using "2.IH"(2) [OF False rest(1)] "2.prems"(2) has by blast
    then obtain timers' rxed' where e: "ns_expire timers rxed = Inr (timers', rxed')"
      "set (sm_keys timers') \<subseteq> set (sm_keys timers)" "sm_wf timers \<longrightarrow> sm_wf timers'"
      "\<forall>r. sm_has r rxed' \<longleftrightarrow> sm_has r rxed \<and> (sm_has r timers \<longrightarrow> sm_has r timers')" by blast
    have "sm_has r ((rnti, t - 1) # timers') \<longleftrightarrow> r = rnti \<or> sm_has r timers'" for r
      by (auto simp: sm_has_def sm_find_def)
    moreover have "sm_wf ((rnti, t) # timers) \<Longrightarrow> sm_wf ((rnti, t - 1) # timers')"
      using e(3) subsetD [OF e(2)] by (fastforce simp: sm_wf_def sm_keys_def)
    moreover have "set (sm_keys ((rnti, t - 1) # timers')) \<subseteq> set (sm_keys ((rnti, t) # timers))"
      using e(2) by (auto simp: sm_keys_def)
    ultimately show ?thesis using False e has new by auto
  qed
qed simp

lemma ns_expire_ok:
  assumes "ns_cqi_timed timers rxed"
  shows "\<exists>timers' rxed'. ns_expire timers rxed = Inr (timers', rxed') \<and> ns_cqi_timed timers' rxed'"
proof -
  have "distinct (sm_keys timers)" "\<And>r. sm_has r timers \<Longrightarrow> sm_has r rxed"
    using assms by (simp_all add: ns_cqi_timed_def sm_wf_distinct)
  from ns_expire_keys [OF this] obtain timers' rxed' where e: "ns_expire timers rxed = Inr (timers', rxed')"
    "set (sm_keys timers') \<subseteq> set (sm_keys timers)" "sm_wf timers \<longrightarrow> sm_wf timers'"
    "\<forall>r. sm_has r rxed' \<longleftrightarrow> sm_has r rxed \<and> (sm_has r timers \<longrightarrow> sm_has r timers')" by blast
  have "sm_has r timers' \<Longrightarrow> sm_has r timers" for r using e(2) by (auto simp: sm_has_iff)
  with e assms have "ns_cqi_timed timers' rxed'" unfolding ns_cqi_timed_def by metis
  with e(1) show ?thesis by blast
qed

end
