(* ===== verification/Ns_Measurement.thy ===== *)
theory Ns_Measurement
  imports Ns_Messages
begin

text \<open>What an agent observes of the slicing scheduler: \<open>MeasurementEvent\<close> of \<open>ns-pf-ff-mac-scheduler.cc\<close>, for every user
  the rate that all resource blocks (RBs) would give on its worst channel and its share of the RBs since the last
  event, and for every slice the average of the rates and the sum of the shares.\<close>

section \<open>A user\<close>

text \<open>The worst CQI of every layer over the RBGs of the cell.\<close>

definition ns_worst_step :: "nat \<Rightarrow> u8 list list \<Rightarrow> u8 list \<Rightarrow> nat \<Rightarrow> u8 list result" where
  "ns_worst_step nLayer sb worst i =
    rbind (vec_at sb i) (\<lambda>cqis.
    if worst = [] then Inr cqis
    else
      rfoldl (\<lambda>worst k. rbind (vec_at worst k) (\<lambda>a. rbind (vec_at cqis k) (\<lambda>b. Inr (worst[k := min a b]))))
        worst [0..<nLayer])"

definition ns_worstSbCqi :: "u16 \<Rightarrow> nat \<Rightarrow> NsScheduler \<Rightarrow> u8 list result" where
  "ns_worstSbCqi rnti nLayer s =
    (case sm_find rnti (ns_a30CqiRxed s) of
       None \<Rightarrow> Inr (replicate nLayer 1)
     | Some sb \<Rightarrow> rfoldl (ns_worst_step nLayer sb) [] [0..<nat (ns_rbgNum s)])"

text \<open>\<open>std::round\<close> of a rate that is not negative, in Mbit/s.\<close>

definition ns_rateOfAllRbs :: "real \<Rightarrow> real" where
  "ns_rateOfAllRbs achievableRate = (if achievableRate > 0 then of_int \<lfloor>achievableRate / 125000 + 1 / 2\<rfloor> else - 1)"

definition ns_user_rate :: "u16 \<Rightarrow> NsScheduler \<Rightarrow> real result" where
  "ns_user_rate rnti s =
    rbind (ns_nLayer rnti s) (\<lambda>nLayer.
    rbind (ns_worstSbCqi rnti nLayer s) (\<lambda>worst.
    rbind (ns_achievableRate (uint (ns_dlBandwidth s)) nLayer worst) (\<lambda>rate.
    Inr (ns_rateOfAllRbs rate))))"

definition ns_used_rbs :: "u32 \<Rightarrow> NsScheduler \<Rightarrow> int" where
  "ns_used_rbs imsi s = (case sm_find (ucast imsi) (ns_usedHarqRbs s) of None \<Rightarrow> 0 | Some n \<Rightarrow> n) +
    (case sm_find (ucast imsi) (ns_usedDataRbs s) of None \<Rightarrow> 0 | Some n \<Rightarrow> n)"

text \<open>The share in percent.  A division by no RBs at all would report an infinite share.\<close>

definition ns_usagePercent :: "u32 \<Rightarrow> NsScheduler \<Rightarrow> real result" where
  "ns_usagePercent imsi s =
    (if ns_used_rbs imsi s > 0 then
       if ns_totalRbs s = 0 then Inl (Undefined ''division by zero'')
       else Inr (real_of_int (ns_used_rbs imsi s) * 100 / real_of_int (ns_totalRbs s))
     else Inr 0)"

record UeMeasurement =
  um_sliceId :: u32
  um_rate :: real
  um_usage :: real
  um_imsi :: u32

section \<open>The event\<close>

text \<open>A slice: the number of its users, the sum of their rates and of their shares.\<close>

definition ns_measure_user :: "NsScheduler \<Rightarrow> UeMeasurement list \<times> (u32, int \<times> real \<times> real) smap \<Rightarrow> u16 \<times> nsPfsFlowPerf
    \<Rightarrow> (UeMeasurement list \<times> (u32, int \<times> real \<times> real) smap) result" where
  "ns_measure_user s = (\<lambda>(out, m) (rnti, f).
    if fp_imsi f = UINT32_MAX then Inr (out, m)
    else
      rbind (ns_user_rate rnti s) (\<lambda>rate.
      rbind (ns_usagePercent (fp_imsi f) s) (\<lambda>usage.
      let (n, sumRate, sumUsage) = (case sm_find (fp_sliceId f) m of None \<Rightarrow> (0, 0, 0) | Some t \<Rightarrow> t)
      in Inr (out @ [\<lparr>um_sliceId = fp_sliceId f, um_rate = rate, um_usage = usage, um_imsi = fp_imsi f\<rparr>],
           sm_set (fp_sliceId f) (n + 1, sumRate + rate, sumUsage + usage) m))))"

record EnbMeasurement =
  em_sliceId :: "int list"
  em_rate :: "real list"
  em_usage :: "real list"

definition ns_measure_slices :: "(u32, int \<times> real \<times> real) smap \<Rightarrow> EnbMeasurement" where
  "ns_measure_slices m = \<lparr>em_sliceId = map (\<lambda>(k, t). sint k) m,
    em_rate = map (\<lambda>(k, n, sumRate, sumUsage). if n = 0 then 0 else sumRate / real_of_int n) m,
    em_usage = map (\<lambda>(k, n, sumRate, sumUsage). sumUsage) m\<rparr>"

definition ns_MeasurementEvent :: "NsScheduler \<Rightarrow> (NsScheduler \<times> UeMeasurement list \<times> EnbMeasurement) result" where
  "ns_MeasurementEvent s =
    rbind (rfoldl (ns_measure_user s) ([], []) (ns_flowStatsDl s)) (\<lambda>(out, m).
    Inr (s\<lparr>ns_usedHarqRbs := [], ns_usedDataRbs := [], ns_totalRbs := 0\<rparr>, out, ns_measure_slices m))"

section \<open>What is reported\<close>

lemma ns_measure_users:
  assumes "rfoldl (ns_measure_user s) ([], []) flows = Inr (out, m)"
  shows "map (\<lambda>u. (um_sliceId u, um_imsi u)) out =
      map (\<lambda>(r, f). (fp_sliceId f, fp_imsi f)) (filter (\<lambda>(r, f). fp_imsi f \<noteq> UINT32_MAX) flows) \<and>
    sm_wf m \<and> (\<forall>k. sm_find k m =
      (let us = filter (\<lambda>u. um_sliceId u = k) out
       in if us = [] then None else Some (int (length us), sum_list (map um_rate us), sum_list (map um_usage us))))"
  using assms
proof (induction flows arbitrary: out m rule: rev_induct)
  case Nil
  then show ?case by (simp add: Let_def)
next
  case (snoc rf flows)
  obtain r f where rf: "rf = (r, f)" by (cases rf)
  obtain out1 m1 where IH: "rfoldl (ns_measure_user s) ([], []) flows = Inr (out1, m1)"
    and last: "ns_measure_user s (out1, m1) (r, f) = Inr (out, m)"
    using snoc.prems by (auto simp: rfoldl_append rf)
  note known = snoc.IH [OF IH]
  show ?case
  proof (cases "fp_imsi f = UINT32_MAX")
    case True
    with last known show ?thesis by (simp add: ns_measure_user_def rf)
  next
    case False
    define k where "k = fp_sliceId f"
    obtain n sr su where t: "(case sm_find k m1 of None \<Rightarrow> (0, 0, 0) | Some t \<Rightarrow> t) = (n, sr, su)" by (metis prod_cases3)
    obtain rate usage where out: "out = out1 @ [\<lparr>um_sliceId = k, um_rate = rate, um_usage = usage, um_imsi = fp_imsi f\<rparr>]"
      "m = sm_set k (n + 1, sr + rate, su + usage) m1"
      using last False t by (auto simp: ns_measure_user_def k_def [symmetric])
    have sums: "n = int (length (filter (\<lambda>u. um_sliceId u = k) out1))"
      "sr = sum_list (map um_rate (filter (\<lambda>u. um_sliceId u = k) out1))"
      "su = sum_list (map um_usage (filter (\<lambda>u. um_sliceId u = k) out1))"
      using t known by (auto simp: Let_def split: if_splits)
    have "sm_find k' m = (let us = filter (\<lambda>u. um_sliceId u = k') out
        in if us = [] then None else Some (int (length us), sum_list (map um_rate us), sum_list (map um_usage us)))" for k'
      using known by (cases "k' = k") (simp_all add: out sums Let_def)
    moreover have "sm_wf m" using known by (simp add: out(2) smap.wf_set)
    ultimately show ?thesis using known False by (simp add: rf out(1) k_def)
  qed
qed

text \<open>C36: A measurement reports every user that is known by an IMSI, and of every slice with such a user, once, the average of
  the rates and the sum of the shares of its users; and it starts to count anew.\<close>

theorem ns_measurement_of_slices:
  assumes "ns_MeasurementEvent s = Inr (s', ues, enb)"
  shows "map (\<lambda>u. (um_sliceId u, um_imsi u)) ues =
      map (\<lambda>(r, f). (fp_sliceId f, fp_imsi f)) (filter (\<lambda>(r, f). fp_imsi f \<noteq> UINT32_MAX) (ns_flowStatsDl s)) \<and>
    (\<exists>ids. distinct ids \<and> set ids = um_sliceId ` set ues \<and> em_sliceId enb = map sint ids \<and>
      em_rate enb = map (\<lambda>k. let us = filter (\<lambda>u. um_sliceId u = k) ues
        in sum_list (map um_rate us) / real (length us)) ids \<and>
      em_usage enb = map (\<lambda>k. sum_list (map um_usage (filter (\<lambda>u. um_sliceId u = k) ues))) ids) \<and>
    ns_usedHarqRbs s' = [] \<and> ns_usedDataRbs s' = [] \<and> ns_totalRbs s' = 0"
proof -
  obtain m where m: "rfoldl (ns_measure_user s) ([], []) (ns_flowStatsDl s) = Inr (ues, m)"
    and s': "s' = s\<lparr>ns_usedHarqRbs := [], ns_usedDataRbs := [], ns_totalRbs := 0\<rparr>" and enb: "enb = ns_measure_slices m"
    using assms by (auto simp: ns_MeasurementEvent_def)
  note known = ns_measure_users [OF m]
  have wf: "sm_wf m" using known by simp
  have find: "sm_find k m = (let us = filter (\<lambda>u. um_sliceId u = k) ues
      in if us = [] then None else Some (int (length us), sum_list (map um_rate us), sum_list (map um_usage us)))" for k
    using known by blast
  define ids where "ids = map fst m"
  have entry: "t = (int (length (filter (\<lambda>u. um_sliceId u = k) ues)),
      sum_list (map um_rate (filter (\<lambda>u. um_sliceId u = k) ues)),
      sum_list (map um_usage (filter (\<lambda>u. um_sliceId u = k) ues))) \<and> filter (\<lambda>u. um_sliceId u = k) ues \<noteq> []"
    if "(k, t) \<in> set m" for k t
  proof -
    have "sm_find k m = Some t" using that by (simp add: sm_find_mem [OF wf])
    then show ?thesis by (auto simp: find Let_def split: if_splits)
  qed
  have "distinct ids" unfolding ids_def using sm_wf_distinct [OF wf] by (simp add: sm_keys_def)
  moreover have "set ids = um_sliceId ` set ues"
  proof (intro equalityI subsetI)
    fix k
    assume "k \<in> set ids"
    then obtain t where "(k, t) \<in> set m" by (auto simp: ids_def)
    with entry have "filter (\<lambda>u. um_sliceId u = k) ues \<noteq> []" by blast
    then show "k \<in> um_sliceId ` set ues" by (auto simp: filter_empty_conv)
  next
    fix k
    assume "k \<in> um_sliceId ` set ues"
    then have "sm_find k m \<noteq> None" by (auto simp: find Let_def filter_empty_conv)
    then obtain t where "sm_find k m = Some t" by auto
    then have "(k, t) \<in> set m" by (simp add: sm_find_mem [OF wf])
    then show "k \<in> set ids" by (force simp: ids_def)
  qed
  moreover have "em_sliceId enb = map sint ids" by (auto simp: enb ns_measure_slices_def ids_def)
  moreover have "em_rate enb = map (\<lambda>k. let us = filter (\<lambda>u. um_sliceId u = k) ues
      in sum_list (map um_rate us) / real (length us)) ids"
    unfolding enb ns_measure_slices_def ids_def by (auto simp: Let_def dest!: entry)
  moreover have "em_usage enb = map (\<lambda>k. sum_list (map um_usage (filter (\<lambda>u. um_sliceId u = k) ues))) ids"
    unfolding enb ns_measure_slices_def ids_def by (auto dest!: entry)
  ultimately show ?thesis using known s' by auto
qed

text \<open>A report with one layer for a user with two: the allocation takes the worst MCS for the missing layer, the
  measurement reads behind the end of the list.\<close>

lemma ns_measurement_misses_layer:
  assumes "sm_find rnti (ns_uesTxMode s) = Some m" "m = 2 \<or> m = 3 \<or> m = 4"
    "sm_find rnti (ns_a30CqiRxed s) = Some sb" "sb = [c0] # [c1] # sb'" "2 \<le> ns_rbgNum s"
  shows "ns_user_rate rnti s = Inl OutOfRange"
proof -
  have "[0..<nat (ns_rbgNum s)] = 0 # 1 # [2..<nat (ns_rbgNum s)]"
  proof -
    have "2 \<le> nat (ns_rbgNum s)" using assms(5) by simp
    then show ?thesis by (simp add: upt_conv_Cons numeral_2_eq_2)
  qed
  moreover have "ns_nLayer rnti s = Inr 2" using assms(1,2) by (auto simp: ns_nLayer_def ns_TxMode2LayerNum_def)
  ultimately show ?thesis
    using assms(3,4)
    by (simp add: ns_user_rate_def ns_worstSbCqi_def ns_worst_step_def upt_rec vec_at_def)
qed

section \<open>Witness\<close>

text \<open>Two users of two slices; one has used 30 of 100 RBs.\<close>

definition ns_measured :: NsScheduler where
  "ns_measured = ns_two_users\<lparr>ns_flowStatsDl := [(1, (nsPfsFlowPerf_new 0)\<lparr>fp_sliceId := 0, fp_imsi := 7\<rparr>),
    (2, (nsPfsFlowPerf_new 0)\<lparr>fp_sliceId := 1, fp_imsi := 8\<rparr>)], ns_usedDataRbs := [(7, 30)], ns_totalRbs := 100\<rparr>"

lemma ns_measured_returns:
  "case ns_MeasurementEvent ns_measured of Inl e \<Rightarrow> False
   | Inr (s', ues, enb) \<Rightarrow> em_sliceId enb = [0, 1] \<and> em_usage enb = [30, 0] \<and> ns_totalRbs s' = 0"
  by code_simp

lemma ns_measurement_of_slices_witness:
  "\<exists>s' ues enb. ns_MeasurementEvent ns_measured = Inr (s', ues, enb) \<and> map um_imsi ues = [7, 8] \<and> em_usage enb = [30, 0]"
proof -
  obtain s' ues enb where run: "ns_MeasurementEvent ns_measured = Inr (s', ues, enb)" "em_usage enb = [30, 0]"
    using ns_measured_returns by (auto split: sum.splits)
  from ns_measurement_of_slices [OF run(1)]
  have "map (\<lambda>u. (um_sliceId u, um_imsi u)) ues = [(0, 7), (1, 8)]" by (simp add: ns_measured_def)
  then have "map snd (map (\<lambda>u. (um_sliceId u, um_imsi u)) ues) = [7, 8]" by simp
  then have "map um_imsi ues = [7, 8]" by (simp add: comp_def)
  with run show ?thesis by (intro exI conjI)
qed

end
