(* ===== verification/Ns_Invariant.thy ===== *)
theory Ns_Invariant
  imports Ns_Subframe Ns_Measurement Ns_Harq
begin

text \<open>The invariant of the slicing scheduler and that every call of the eNB keeps it: \<open>ns_inv\<close> for the downlink, whose
  tables the messages are built from, and \<open>ns_aux_ok\<close> for the reports, the timers and random access.  With both a whole
  subframe does not fail.\<close>

section \<open>Reports of the channel\<close>

definition ns_cqis_ok :: "NsScheduler \<Rightarrow> u8 list list \<Rightarrow> bool" where
  "ns_cqis_ok s sb \<longleftrightarrow> nat (ns_rbgNum s) \<le> length sb \<and> (\<forall>cqis \<in> set sb. cqis \<noteq> [] \<and> (\<forall>c \<in> set cqis. c \<le> 15))"

definition ns_report_ok :: "NsScheduler \<Rightarrow> CqiReport \<Rightarrow> bool" where
  "ns_report_ok s report = (case report of A30 rnti sb \<Rightarrow> ns_cqis_ok s sb | _ \<Rightarrow> True)"

section \<open>The invariant\<close>

definition ns_inv :: "NsScheduler \<Rightarrow> bool" where
  "ns_inv s \<longleftrightarrow> uint (ns_dlBandwidth s) < 110 \<and> ns_slices_ok s \<and> sm_wf (ns_flowStatsDl s) \<and> ns_users_known s \<and>
    ns_positive s \<and> (\<forall>r. sm_has r (ns_flowStatsDl s) \<longrightarrow> sm_has r (ns_uesTxMode s)) \<and>
    (\<forall>r m. sm_find r (ns_uesTxMode s) = Some m \<longrightarrow> m \<le> 6 \<and> ns_harq_ok r s \<and> ns_tables_ok r s) \<and>
    (\<forall>r. \<not> sm_has r (ns_uesTxMode s) \<longrightarrow> ns_absent r s) \<and>
    (\<forall>r sb. sm_find r (ns_a30CqiRxed s) = Some sb \<longrightarrow> ns_cqis_ok s sb)"

lemma ns_inv_ready:
  assumes "ns_inv s"
  shows "ns_ready s" "\<forall>(rnti, f) \<in> set (ns_flowStatsDl s). ns_tables_ok rnti s"
proof -
  have user: "\<exists>m. sm_find r (ns_uesTxMode s) = Some m" if "(r, f) \<in> set (ns_flowStatsDl s)" for r f
  proof -
    have "sm_has r (ns_flowStatsDl s)" using that by (force simp: sm_has_iff sm_keys_def)
    with assms show ?thesis by (auto simp: ns_inv_def sm_has_def)
  qed
  have "ns_user_ok s r f" if m: "sm_find r (ns_uesTxMode s) = Some m" for r f m
  proof -
    have "m \<le> 6" "ns_harq_ok r s" using assms m unfolding ns_inv_def by blast+
    moreover have "ns_cqis_ok s sb" if "sm_find r (ns_a30CqiRxed s) = Some sb" for sb
      using assms that unfolding ns_inv_def by blast
    ultimately show ?thesis using m by (simp add: ns_user_ok_def ns_cqis_ok_def split: option.splits)
  qed
  with user assms show "ns_ready s" by (fastforce simp: ns_ready_def ns_inv_def)
  show "\<forall>(rnti, f) \<in> set (ns_flowStatsDl s). ns_tables_ok rnti s"
    using user assms unfolding ns_inv_def by blast
qed

text \<open>The parts of the state that the invariant reads.\<close>

lemma ns_inv_cong:
  assumes "ns_dlBandwidth s' = ns_dlBandwidth s" "ns_sliceInfo s' = ns_sliceInfo s" "ns_flowStatsDl s' = ns_flowStatsDl s"
    "ns_rlcBufferReq s' = ns_rlcBufferReq s" "ns_uesTxMode s' = ns_uesTxMode s" "ns_a30CqiRxed s' = ns_a30CqiRxed s"
    "ns_timeWindow s' = ns_timeWindow s" "ns_dlHarqCurrentProcessId s' = ns_dlHarqCurrentProcessId s"
    "ns_dlHarqProcessesStatus s' = ns_dlHarqProcessesStatus s" "ns_dlHarqProcessesTimer s' = ns_dlHarqProcessesTimer s"
    "ns_dlHarqProcessesDciBuffer s' = ns_dlHarqProcessesDciBuffer s" "ns_dlHarqRlcPduBuffer s' = ns_dlHarqRlcPduBuffer s"
  shows "ns_inv s' = ns_inv s"
  unfolding ns_inv_def ns_slices_ok_def ns_rbgNum_def ns_rbgSize_def ns_users_known_def ns_harq_ok_def ns_tables_ok_def
    ns_absent_def ns_cqis_ok_def ns_positive_def by (simp only: assms)

lemma ns_inv_start:
  assumes "uint bw < 110"
  shows "ns_inv (NsScheduler_new bw harqOn threshold)"
proof -
  define s where "s = NsScheduler_new bw harqOn threshold"
  have "uint (ns_dlBandwidth s) < 110" using assms by (simp add: s_def NsScheduler_new_def)
  moreover from ns_rbgSize_range [OF this] have "0 \<le> ns_rbgNum s"
    unfolding ns_rbgNum_def by (intro pos_imp_zdiv_nonneg_iff [THEN iffD2]) simp_all
  ultimately show ?thesis
    unfolding s_def [symmetric]
    by (simp add: ns_inv_def ns_slices_ok_def ns_slices_wf_def ns_users_known_def ns_absent_def ns_positive_def)
      (simp add: s_def NsScheduler_new_def ns_absent_def)
qed

section \<open>Configuration\<close>

lemma ns_inv_ue_config:
  assumes inv: "ns_inv s" and tx: "txMode \<le> 6"
  shows "ns_inv (ns_DoCschedUeConfigReq rnti txMode s)"
proof (cases "sm_has rnti (ns_uesTxMode s)")
  case True
  define s' where "s' = s\<lparr>ns_uesTxMode := sm_set rnti txMode (ns_uesTxMode s)\<rparr>"
  have eq: "ns_DoCschedUeConfigReq rnti txMode s = s'" using True by (simp add: ns_DoCschedUeConfigReq_def s'_def)
  have other: "ns_slices_ok s' = ns_slices_ok s" "ns_users_known s' = ns_users_known s" "ns_rbgNum s' = ns_rbgNum s"
    "\<And>r. ns_harq_ok r s' = ns_harq_ok r s" "\<And>r. ns_tables_ok r s' = ns_tables_ok r s" "\<And>r. ns_absent r s' = ns_absent r s"
    "\<And>sb. ns_cqis_ok s' sb = ns_cqis_ok s sb" "ns_positive s' = ns_positive s"
    by (simp_all add: s'_def ns_slices_ok_def ns_rbgNum_def ns_rbgSize_def ns_users_known_def ns_harq_ok_def
        ns_tables_ok_def ns_absent_def ns_cqis_ok_def ns_positive_def)
  have "ns_harq_ok rnti s \<and> ns_tables_ok rnti s" using inv True by (auto simp: ns_inv_def sm_has_def)
  then show ?thesis
    unfolding eq using inv tx True
    by (simp add: ns_inv_def other) (auto simp: s'_def split: if_splits)
next
  case False
  define s' where "s' = ns_DoCschedUeConfigReq rnti txMode s"
  have absent: "ns_absent rnti s" using inv False by (simp add: ns_inv_def)
  have fields: "ns_dlBandwidth s' = ns_dlBandwidth s" "ns_sliceInfo s' = ns_sliceInfo s" "ns_flowStatsDl s' = ns_flowStatsDl s"
    "ns_rlcBufferReq s' = ns_rlcBufferReq s" "ns_a30CqiRxed s' = ns_a30CqiRxed s" "ns_timeWindow s' = ns_timeWindow s"
    "ns_uesTxMode s' = sm_set rnti txMode (ns_uesTxMode s)"
    "ns_dlHarqCurrentProcessId s' = sm_set rnti 0 (ns_dlHarqCurrentProcessId s)"
    "ns_dlHarqProcessesStatus s' = sm_set rnti (replicate 8 0) (ns_dlHarqProcessesStatus s)"
    "ns_dlHarqProcessesTimer s' = sm_set rnti (replicate 8 0) (ns_dlHarqProcessesTimer s)"
    "ns_dlHarqProcessesDciBuffer s' = sm_set rnti (replicate 8 DlDci_new) (ns_dlHarqProcessesDciBuffer s)"
    "ns_dlHarqRlcPduBuffer s' = sm_set rnti (replicate 2 (replicate 8 [])) (ns_dlHarqRlcPduBuffer s)"
    using False absent by (simp_all add: s'_def ns_DoCschedUeConfigReq_def sm_insert_def ns_absent_def)
  have other: "ns_slices_ok s' = ns_slices_ok s" "ns_users_known s' = ns_users_known s" "ns_rbgNum s' = ns_rbgNum s"
    "ns_positive s' = ns_positive s"
    by (simp_all only: ns_slices_ok_def ns_rbgNum_def ns_rbgSize_def ns_users_known_def ns_positive_def fields)
  have same: "ns_harq_ok r s' = ns_harq_ok r s" "ns_tables_ok r s' = ns_tables_ok r s" "ns_absent r s' = ns_absent r s"
    if "r \<noteq> rnti" for r
    using that by (simp_all add: ns_harq_ok_def ns_tables_ok_def ns_absent_def fields)
  have new: "ns_harq_ok rnti s'" "ns_tables_ok rnti s'"
    by (simp_all add: ns_harq_ok_def ns_tables_ok_def fields HARQ_PROC_NUM_def)
  have "ns_inv s'"
    unfolding ns_inv_def
  proof (intro conjI allI impI)
    show "uint (ns_dlBandwidth s') < 110" "ns_slices_ok s'" "sm_wf (ns_flowStatsDl s')" "ns_users_known s'" "ns_positive s'"
      using inv by (simp_all add: ns_inv_def other) (simp_all add: fields)
    show "sm_has r (ns_uesTxMode s')" if "sm_has r (ns_flowStatsDl s')" for r
      using inv that by (simp add: ns_inv_def fields)
    show "ns_cqis_ok s' sb" if "sm_find r (ns_a30CqiRxed s') = Some sb" for r sb
      using inv that by (auto simp: ns_inv_def ns_cqis_ok_def fields other)
    show "ns_absent r s'" if "\<not> sm_has r (ns_uesTxMode s')" for r
      using inv that same(3) [of r] by (simp add: ns_inv_def fields)
    fix r m
    assume m: "sm_find r (ns_uesTxMode s') = Some m"
    show "m \<le> 6" "ns_harq_ok r s'" "ns_tables_ok r s'"
      using inv m tx new same(1,2) [of r] by (auto simp: ns_inv_def fields split: if_splits)
  qed
  then show ?thesis by (simp add: s'_def)
qed

text \<open>A bearer: the slice of a user is made of four bytes.\<close>

lemma ns_decode_slice_ok:
  assumes "ns_decode_slice v = (k, info, imsi)"
  shows "ns_slice_ok k info"
proof -
  have byte: "unat (x AND 255) < 256" for x :: u64 by (simp add: u64_byte)
  have small: "x AND 255 \<le> ns_rbg_limit" for x :: u64
    using byte [of x] by (simp add: word_le_nat_alt ns_rbg_limit_def)
  have "unat (ucast (v AND 255) :: u32) = unat (v AND 255)"
    using byte [of v] by (simp add: unsigned_ucast_eq take_bit_nat_eq_self_iff)
  then have "(ucast (v AND 255) :: u32) < 256" using byte [of v] by (simp add: word_less_nat_alt)
  with small assms show ?thesis by (auto simp: ns_decode_slice_def Let_def ns_slice_ok_def)
qed

lemma ns_slices_wf_set:
  assumes "ns_slices_wf slices" "ns_slice_ok k info"
  shows "ns_slices_wf (sm_set k info slices)"
proof -
  have wf: "sm_wf slices" "sm_wf (sm_set k info slices)" using assms(1) by (simp_all add: ns_slices_wf_def smap.wf_set)
  have "ns_slice_ok k' info'" if "(k', info') \<in> set (sm_set k info slices)" for k' info'
    using that assms unfolding sm_find_mem [OF wf(2), symmetric]
    by (cases "k' = k") (auto simp: ns_slices_wf_def sm_find_mem [OF wf(1)])
  with wf show ?thesis by (auto simp: ns_slices_wf_def)
qed

text \<open>The parts of the state that a bearer does not change, and what it may do to the users.\<close>

definition ns_bearer_frame :: "u16 \<Rightarrow> NsScheduler \<Rightarrow> NsScheduler \<Rightarrow> bool" where
  "ns_bearer_frame rnti s s' \<longleftrightarrow> ns_dlBandwidth s' = ns_dlBandwidth s \<and> ns_rlcBufferReq s' = ns_rlcBufferReq s \<and>
    ns_uesTxMode s' = ns_uesTxMode s \<and> ns_a30CqiRxed s' = ns_a30CqiRxed s \<and>
    ns_dlHarqCurrentProcessId s' = ns_dlHarqCurrentProcessId s \<and>
    ns_dlHarqProcessesStatus s' = ns_dlHarqProcessesStatus s \<and> ns_dlHarqProcessesTimer s' = ns_dlHarqProcessesTimer s \<and>
    ns_dlHarqProcessesDciBuffer s' = ns_dlHarqProcessesDciBuffer s \<and> ns_dlHarqRlcPduBuffer s' = ns_dlHarqRlcPduBuffer s \<and>
    (ns_slices_wf (ns_sliceInfo s) \<longrightarrow> ns_slices_wf (ns_sliceInfo s')) \<and>
    (sm_wf (ns_flowStatsDl s) \<longrightarrow> sm_wf (ns_flowStatsDl s')) \<and> (ns_positive s \<longrightarrow> ns_positive s') \<and>
    (\<forall>r. sm_has r (ns_flowStatsDl s) \<longrightarrow> sm_has r (ns_flowStatsDl s')) \<and>
    (\<forall>r. sm_has r (ns_flowStatsDl s') \<longrightarrow> r = rnti \<or> sm_has r (ns_flowStatsDl s))"

lemma ns_bearer_frame_refl: "ns_bearer_frame rnti s s"
  by (simp add: ns_bearer_frame_def)

lemma ns_bearer_frame_trans: "ns_bearer_frame rnti s s' \<Longrightarrow> ns_bearer_frame rnti s' s'' \<Longrightarrow> ns_bearer_frame rnti s s''"
  unfolding ns_bearer_frame_def by auto

lemma ns_lc_config_frame: "ns_bearer_frame rnti s (ns_lc_config reconfigure r lc s)"
  by (simp add: ns_lc_config_def ns_bearer_frame_def ns_positive_def)

lemma ns_add_flow_frame: "ns_bearer_frame rnti s (ns_add_flow now rnti s)"
proof (cases "sm_has rnti (ns_flowStatsDl s)")
  case False
  define s' where "s' = ns_add_flow now rnti s"
  have fields: "ns_timeWindow s' = ns_timeWindow s"
    "ns_flowStatsDl s' = sm_set rnti (nsPfsFlowPerf_new now) (ns_flowStatsDl s)"
    using False by (simp_all add: s'_def ns_add_flow_def)
  have "ns_positive s'" if "ns_positive s"
    by (rule ns_positive_set [OF that _ fields]) (simp add: nsPfsFlowPerf_new_def)
  then show ?thesis
    unfolding s'_def using False by (simp add: ns_add_flow_def ns_bearer_frame_def smap.wf_set)
qed (simp add: ns_add_flow_def ns_bearer_frame_refl)

lemma ns_set_slice_frame: "ns_bearer_frame rnti s (ns_set_slice now rnti lc s)"
proof (cases "lc_mbrDl lc = 4294967295")
  case True
  obtain k info imsi where d: "ns_decode_slice (lc_gbrDl lc) = (k, info, imsi)" by (metis prod_cases3)
  define f where "f = (case sm_find rnti (ns_flowStatsDl s) of Some f \<Rightarrow> f | None \<Rightarrow> nsPfsFlowPerf_new now)
    \<lparr>fp_sliceId := k, fp_imsi := imsi\<rparr>"
  define s' where "s' = ns_set_slice now rnti lc s"
  have fields: "ns_timeWindow s' = ns_timeWindow s" "ns_flowStatsDl s' = sm_set rnti f (ns_flowStatsDl s)"
    using True by (simp_all add: s'_def ns_set_slice_def d fp_set_user_def f_def)
  have "ns_positive s'" if "ns_positive s"
    by (rule ns_positive_set [OF that _ fields])
      (use ns_positive_find [OF that, of rnti] in \<open>auto simp: f_def nsPfsFlowPerf_new_def split: option.splits\<close>)
  then show ?thesis
    using True ns_slices_wf_set [OF _ ns_decode_slice_ok [OF d]] unfolding s'_def
    by (simp add: ns_set_slice_def d ns_bearer_frame_def fp_set_user_def smap.wf_set)
qed (simp add: ns_set_slice_def ns_bearer_frame_refl)

lemma ns_inv_lc_config:
  assumes inv: "ns_inv s" and user: "sm_has rnti (ns_uesTxMode s)"
    and conf: "ns_DoCschedLcConfigReq now reconfigure rnti lcs s = Inr s'"
  shows "ns_inv s'"
proof -
  define s1 where "s1 = foldl (\<lambda>s lc. ns_lc_config reconfigure rnti lc s) s lcs"
  have f1: "ns_bearer_frame rnti s s1"
    unfolding s1_def
    by (rule foldl_invariant) (auto intro: ns_bearer_frame_refl ns_bearer_frame_trans ns_lc_config_frame)
  have s': "s' = foldl (\<lambda>s lc. ns_set_slice now rnti lc (ns_add_flow now rnti s)) s1 lcs"
    and total: "ns_total_min (ns_sliceInfo s') \<le> ns_rbgNum s'"
    using conf by (auto simp: ns_DoCschedLcConfigReq_def Let_def s1_def split: if_splits)
  have "ns_bearer_frame rnti s1 s'"
    unfolding s'
    by (rule foldl_invariant)
      (auto intro: ns_bearer_frame_refl ns_bearer_frame_trans [OF _ ns_bearer_frame_trans [OF ns_add_flow_frame ns_set_slice_frame]])
  from ns_bearer_frame_trans [OF f1 this] have f: "ns_bearer_frame rnti s s'" .
  have same: "ns_rbgNum s' = ns_rbgNum s" "\<And>r. ns_harq_ok r s' = ns_harq_ok r s" "\<And>r. ns_tables_ok r s' = ns_tables_ok r s"
    "\<And>r. ns_absent r s' = ns_absent r s"
    using f by (simp_all add: ns_bearer_frame_def ns_rbgNum_def ns_rbgSize_def ns_harq_ok_def ns_tables_ok_def ns_absent_def)
  have wf: "ns_slices_wf (ns_sliceInfo s')" using inv f by (simp add: ns_inv_def ns_slices_ok_def ns_bearer_frame_def)
  then have slices: "ns_slices_ok s'" using total by (simp add: ns_slices_ok_def ns_total_min_eq)
  have known: "ns_users_known s'" using inv f by (simp add: ns_inv_def ns_users_known_iff ns_bearer_frame_def)
  show ?thesis
    using inv f user slices known
    by (auto simp: ns_inv_def ns_bearer_frame_def ns_cqis_ok_def same)
qed

section \<open>Release and reports\<close>

lemma sm_find_filter: "sm_find k (sm_filter P m) = (if P k then sm_find k m else None)"
  unfolding sm_find_def sm_filter_def by (induction m) auto

lemma sm_has_filter: "sm_has k (sm_filter P m) \<longleftrightarrow> P k \<and> sm_has k m"
  by (simp add: sm_has_def sm_find_filter)

lemma ns_users_known_less:
  assumes "ns_users_known s" "ns_flowStatsDl s' = ns_flowStatsDl s"
    "\<And>flow. sm_has flow (ns_rlcBufferReq s') \<Longrightarrow> sm_has flow (ns_rlcBufferReq s)"
  shows "ns_users_known s'"
  using assms unfolding ns_users_known_iff by metis

lemma ns_inv_lc_release:
  assumes "ns_inv s" "ns_DoCschedLcReleaseReq rnti lcids s = Inr s'"
  shows "ns_inv s'"
proof -
  define req where "req = foldl (\<lambda>m lcid. sm_filter (\<lambda>flow. flow \<noteq> (rnti, lcid)) m) (ns_rlcBufferReq s) lcids"
  obtain lcs where s': "s' = s\<lparr>ns_lcConfig := lcs, ns_rlcBufferReq := req\<rparr>"
    using assms(2) by (auto simp: ns_DoCschedLcReleaseReq_def req_def)
  have req: "\<forall>flow. sm_has flow req \<longrightarrow> sm_has flow (ns_rlcBufferReq s)"
    unfolding req_def by (rule foldl_invariant) (auto simp: sm_has_filter)
  define s1 where "s1 = s\<lparr>ns_rlcBufferReq := req\<rparr>"
  have "ns_inv s' = ns_inv s1" by (rule ns_inv_cong) (simp_all add: s' s1_def)
  moreover have "ns_users_known s1"
    by (rule ns_users_known_less [of s]) (use assms(1) req in \<open>auto simp: ns_inv_def s1_def\<close>)
  then have "ns_inv s1"
    using assms(1) by (simp add: ns_inv_def s1_def ns_slices_ok_def ns_rbgNum_def ns_rbgSize_def ns_harq_ok_def
        ns_tables_ok_def ns_absent_def ns_cqis_ok_def ns_positive_def)
  ultimately show ?thesis by simp
qed

lemma ns_inv_ue_release:
  assumes inv: "ns_inv s"
  shows "ns_inv (ns_DoCschedUeReleaseReq rnti s)"
proof -
  define s' where "s' = ns_DoCschedUeReleaseReq rnti s"
  have fields: "ns_dlBandwidth s' = ns_dlBandwidth s" "ns_sliceInfo s' = ns_sliceInfo s"
    "ns_a30CqiRxed s' = ns_a30CqiRxed s" "ns_flowStatsDl s' = sm_erase rnti (ns_flowStatsDl s)"
    "ns_timeWindow s' = ns_timeWindow s"
    "ns_rlcBufferReq s' = sm_filter (\<lambda>(r, lcid). r \<noteq> rnti) (ns_rlcBufferReq s)"
    "ns_uesTxMode s' = sm_erase rnti (ns_uesTxMode s)"
    "ns_dlHarqCurrentProcessId s' = sm_erase rnti (ns_dlHarqCurrentProcessId s)"
    "ns_dlHarqProcessesStatus s' = sm_erase rnti (ns_dlHarqProcessesStatus s)"
    "ns_dlHarqProcessesTimer s' = sm_erase rnti (ns_dlHarqProcessesTimer s)"
    "ns_dlHarqProcessesDciBuffer s' = sm_erase rnti (ns_dlHarqProcessesDciBuffer s)"
    "ns_dlHarqRlcPduBuffer s' = sm_erase rnti (ns_dlHarqRlcPduBuffer s)"
    by (simp_all add: s'_def ns_DoCschedUeReleaseReq_def)
  have other: "ns_slices_ok s' = ns_slices_ok s" "ns_rbgNum s' = ns_rbgNum s"
    by (simp_all only: ns_slices_ok_def ns_rbgNum_def ns_rbgSize_def fields)
  have same: "ns_harq_ok r s' = ns_harq_ok r s" "ns_tables_ok r s' = ns_tables_ok r s" "ns_absent r s' = ns_absent r s"
    if "r \<noteq> rnti" for r
    using that by (simp_all add: ns_harq_ok_def ns_tables_ok_def ns_absent_def fields)
  have gone: "ns_absent rnti s'" by (simp add: ns_absent_def fields)
  have "ns_inv s'"
    unfolding ns_inv_def
  proof (intro conjI allI impI)
    show "uint (ns_dlBandwidth s') < 110" "ns_slices_ok s'" "sm_wf (ns_flowStatsDl s')"
      using inv by (simp_all add: ns_inv_def other) (simp_all add: fields smap.wf_erase)
    show "ns_positive s'" using inv by (auto simp: ns_inv_def ns_positive_def fields sm_erase_def)
    show "ns_users_known s'"
      using inv by (auto simp: ns_inv_def ns_users_known_iff fields sm_has_filter)
    show "sm_has r (ns_uesTxMode s')" if "sm_has r (ns_flowStatsDl s')" for r
      using inv that by (simp add: ns_inv_def fields)
    show "ns_cqis_ok s' sb" if "sm_find r (ns_a30CqiRxed s') = Some sb" for r sb
      using inv that by (auto simp: ns_inv_def ns_cqis_ok_def fields other)
    show "ns_absent r s'" if "\<not> sm_has r (ns_uesTxMode s')" for r
      using inv that same(3) [of r] gone by (cases "r = rnti") (simp_all add: ns_inv_def fields)
    fix r m
    assume m: "sm_find r (ns_uesTxMode s') = Some m"
    then have "r \<noteq> rnti" "sm_find r (ns_uesTxMode s) = Some m" by (auto simp: fields split: if_splits)
    with inv same(1,2) [of r] show "m \<le> 6" "ns_harq_ok r s'" "ns_tables_ok r s'" by (auto simp: ns_inv_def)
  qed
  then show ?thesis by (simp add: s'_def)
qed

lemma ns_inv_rlc_buffer:
  assumes "ns_inv s" "sm_has rnti (ns_flowStatsDl s)"
  shows "ns_inv (ns_DoSchedDlRlcBufferReq rnti lcid req s)"
proof -
  have "ns_users_known (ns_DoSchedDlRlcBufferReq rnti lcid req s)"
    using assms by (auto simp: ns_inv_def ns_users_known_iff ns_DoSchedDlRlcBufferReq_def)
  with assms(1) show ?thesis
    by (simp add: ns_inv_def ns_DoSchedDlRlcBufferReq_def ns_slices_ok_def ns_rbgNum_def ns_rbgSize_def ns_harq_ok_def
        ns_tables_ok_def ns_absent_def ns_cqis_ok_def ns_positive_def)
qed

lemma ns_inv_a30:
  assumes inv: "ns_inv s" and sb: "\<And>r sb. sm_find r a30 = Some sb \<Longrightarrow> ns_cqis_ok s sb"
  shows "ns_inv (s\<lparr>ns_a30CqiRxed := a30\<rparr>)"
proof -
  have "ns_cqis_ok (s\<lparr>ns_a30CqiRxed := a30\<rparr>) sb = ns_cqis_ok s sb" for sb
    by (simp add: ns_cqis_ok_def ns_rbgNum_def ns_rbgSize_def)
  with inv sb show ?thesis
    by (simp add: ns_inv_def ns_slices_ok_def ns_rbgNum_def ns_rbgSize_def ns_users_known_def ns_harq_ok_def
        ns_tables_ok_def ns_absent_def ns_positive_def)
qed

lemma ns_inv_cqi_report:
  assumes inv: "ns_inv s" and ok: "ns_report_ok s report" and s': "ns_cqi_report s report = Inr s'"
  shows "ns_inv s' \<and> ns_dlBandwidth s' = ns_dlBandwidth s"
proof (cases report)
  case (P10 rnti wb)
  then obtain p10 timers where "s' = s\<lparr>ns_p10CqiRxed := p10, ns_p10CqiTimers := timers\<rparr>"
    using s' by (auto simp: ns_cqi_report_def split: if_splits)
  with inv show ?thesis using ns_inv_cong [of s' s] by simp
next
  case (A30 rnti sb)
  define s1 where "s1 = s\<lparr>ns_a30CqiRxed := sm_set rnti sb (ns_a30CqiRxed s)\<rparr>"
  obtain timers where "s' = s1\<lparr>ns_a30CqiTimers := timers\<rparr>"
    using s' A30 by (auto simp: ns_cqi_report_def s1_def split: if_splits)
  moreover have "ns_inv s1"
    unfolding s1_def
    by (rule ns_inv_a30 [OF inv]) (use inv ok A30 in \<open>auto simp: ns_report_ok_def ns_inv_def split: if_splits\<close>)
  ultimately show ?thesis using ns_inv_cong [of s' s1] by (simp add: s1_def)
qed (use inv s' in \<open>simp add: ns_cqi_report_def\<close>)

lemma ns_inv_cqi_info:
  assumes inv: "ns_inv s" and ok: "\<forall>report \<in> set reports. ns_report_ok s report"
    and s': "ns_DoSchedDlCqiInfoReq reports s = Inr s'"
  shows "ns_inv s'"
proof -
  have ok': "ns_report_ok t report" if "report \<in> set reports" "ns_dlBandwidth t = ns_dlBandwidth s" for t report
  proof -
    have "ns_report_ok t report = ns_report_ok s report"
      by (simp add: ns_report_ok_def ns_cqis_ok_def ns_rbgNum_def ns_rbgSize_def that(2) split: CqiReport.split)
    with ok that(1) show ?thesis by simp
  qed
  have "ns_inv s' \<and> ns_dlBandwidth s' = ns_dlBandwidth s"
  proof (rule rfoldl_invariant [OF s' [unfolded ns_DoSchedDlCqiInfoReq_def]])
    fix t report t'
    assume "report \<in> set reports" "ns_inv t \<and> ns_dlBandwidth t = ns_dlBandwidth s" "ns_cqi_report t report = Inr t'"
    with ns_inv_cqi_report [of t report t'] ok' [of report t] show "ns_inv t' \<and> ns_dlBandwidth t' = ns_dlBandwidth s" by simp
  qed (use inv in simp)
  then show ?thesis by simp
qed

lemma ns_expire_sub:
  "ns_expire timers rxed = Inr (timers', rxed') \<Longrightarrow> sm_find k rxed' = Some v \<Longrightarrow> sm_find k rxed = Some v"
  by (induction timers rxed arbitrary: timers' rxed' rule: ns_expire.induct) (auto split: if_splits)

lemma ns_inv_refresh_cqi:
  assumes inv: "ns_inv s" and s': "ns_RefreshDlCqiMaps s = Inr s'"
  shows "ns_inv s'"
proof -
  obtain p10Timers p10 a30Timers a30 where e: "ns_expire (ns_a30CqiTimers s) (ns_a30CqiRxed s) = Inr (a30Timers, a30)"
    "s' = s\<lparr>ns_p10CqiTimers := p10Timers, ns_p10CqiRxed := p10, ns_a30CqiTimers := a30Timers, ns_a30CqiRxed := a30\<rparr>"
    using s' by (auto simp: ns_RefreshDlCqiMaps_def)
  have "ns_inv (s\<lparr>ns_a30CqiRxed := a30\<rparr>)"
  proof (rule ns_inv_a30 [OF inv])
    fix r sb
    assume "sm_find r a30 = Some sb"
    from ns_expire_sub [OF e(1) this] inv show "ns_cqis_ok s sb" unfolding ns_inv_def by blast
  qed
  then show ?thesis using ns_inv_cong [of s' "s\<lparr>ns_a30CqiRxed := a30\<rparr>"] by (simp add: e(2))
qed

lemma ns_inv_action:
  assumes inv: "ns_inv s" and type: "ns_type_ok type"
    "\<forall>ids vals. action = Some (ids, vals) \<longrightarrow> (\<forall>v \<in> set vals. 0 \<le> v \<and> v \<le> 1048576)"
    and s': "ns_UpdateSliceInfo type action s = Inr s'"
  shows "ns_inv s'"
proof -
  have "ns_slices_ok s" using inv by (simp add: ns_inv_def)
  from ns_action_ok [OF s' this type] have slices: "ns_slices_ok s'" .
  obtain slices' where "s' = s\<lparr>ns_sliceInfo := slices'\<rparr>"
  proof (cases action)
    case None
    with s' that [of "ns_sliceInfo s"] show thesis by (simp add: ns_UpdateSliceInfo_def)
  next
    case (Some a)
    with s' that show thesis by (cases a) (auto simp: ns_UpdateSliceInfo_def split: if_splits)
  qed
  with inv slices show ?thesis
    by (simp add: ns_inv_def ns_rbgNum_def ns_rbgSize_def ns_users_known_def ns_harq_ok_def ns_tables_ok_def
        ns_absent_def ns_cqis_ok_def ns_positive_def)
qed

section \<open>The timers of the processes\<close>

abbreviation sm_lengths :: "('k, 'a list) smap \<Rightarrow> 'k \<Rightarrow> nat option" where
  "sm_lengths m r \<equiv> map_option length (sm_find r m)"

lemma ns_harq_tick_lengths:
  assumes "ns_harq_tick rnti (timer, status) i = Inr (timer', status')"
  shows "length timer' = length timer" "sm_lengths status' r = sm_lengths status r"
  using assms by (auto simp: ns_harq_tick_def vec_upd_Inr_iff split: if_splits option.splits)

lemma ns_harq_ticks_lengths:
  assumes "ns_harq_ticks timers status = Inr (timers', status')"
  shows "sm_lengths timers' r = sm_lengths timers r \<and> sm_lengths status' r = sm_lengths status r"
  using assms
proof (induction timers status arbitrary: timers' status' rule: ns_harq_ticks.induct)
  case (2 rnti timer timers status)
  then obtain timer1 status1 timers2 where
    tick: "rfoldl (ns_harq_tick rnti) (timer, status) [0..<HARQ_PROC_NUM] = Inr (timer1, status1)"
    and ticks: "ns_harq_ticks timers status1 = Inr (timers2, status')" "timers' = (rnti, timer1) # timers2"
    by auto
  have "case (timer1, status1) of (t, st) \<Rightarrow> length t = length timer \<and> sm_lengths st r = sm_lengths status r"
  proof (rule rfoldl_invariant [OF tick])
    fix ts x ts'
    assume a: "case ts of (t, st) \<Rightarrow> length t = length timer \<and> sm_lengths st r = sm_lengths status r"
      "ns_harq_tick rnti ts x = Inr ts'"
    obtain t st t' st' where ts: "ts = (t, st)" "ts' = (t', st')" by (cases ts; cases ts')
    from ns_harq_tick_lengths [OF a(2) [unfolded ts]] a(1)
    show "case ts' of (t, st) \<Rightarrow> length t = length timer \<and> sm_lengths st r = sm_lengths status r" by (simp add: ts)
  qed simp
  moreover have "sm_lengths timers2 r = sm_lengths timers r \<and> sm_lengths status' r = sm_lengths status1 r"
    using "2.IH" [OF ticks(1)] by simp
  ultimately show ?case by (simp add: ticks(2) sm_find_def)
qed simp

lemma ns_inv_refresh_harq:
  assumes inv: "ns_inv s" and s': "ns_RefreshHarqProcesses s = Inr s'"
  shows "ns_inv s'"
proof -
  obtain timers status where t: "ns_harq_ticks (ns_dlHarqProcessesTimer s) (ns_dlHarqProcessesStatus s) = Inr (timers, status)"
    and s'_def: "s' = s\<lparr>ns_dlHarqProcessesTimer := timers, ns_dlHarqProcessesStatus := status\<rparr>"
    using s' by (auto simp: ns_RefreshHarqProcesses_def)
  have len: "sm_lengths timers r = sm_lengths (ns_dlHarqProcessesTimer s) r"
    "sm_lengths status r = sm_lengths (ns_dlHarqProcessesStatus s) r" for r
    using ns_harq_ticks_lengths [OF t] by simp_all
  have harq: "ns_harq_ok r s'" if "ns_harq_ok r s" for r
    using that len(2) [of r] by (auto simp: ns_harq_ok_def s'_def split: option.splits)
  have tables: "ns_tables_ok r s'" if "ns_tables_ok r s" for r
    using that len(1) [of r] by (auto simp: ns_tables_ok_def s'_def split: option.splits)
  have absent: "ns_absent r s'" if "ns_absent r s" for r
    using that len [of r] by (auto simp: ns_absent_def s'_def sm_has_def)
  have other: "ns_slices_ok s' = ns_slices_ok s" "ns_users_known s' = ns_users_known s"
    "\<And>sb. ns_cqis_ok s' sb = ns_cqis_ok s sb" "ns_uesTxMode s' = ns_uesTxMode s" "ns_dlBandwidth s' = ns_dlBandwidth s"
    "ns_flowStatsDl s' = ns_flowStatsDl s" "ns_a30CqiRxed s' = ns_a30CqiRxed s" "ns_positive s' = ns_positive s"
    by (simp_all add: s'_def ns_slices_ok_def ns_rbgNum_def ns_rbgSize_def ns_users_known_def ns_cqis_ok_def
        ns_positive_def)
  show ?thesis using inv harq tables absent by (simp add: ns_inv_def other)
qed

section \<open>Subframes\<close>

lemma ns_inv_frame:
  assumes inv: "ns_inv s" and f: "ns_frame A s s'"
  shows "ns_inv s'"
proof -
  have slice: "sm_has r (ns_flowStatsDl s') = sm_has r (ns_flowStatsDl s)" for r
  proof -
    have "ns_slice_of s' r = ns_slice_of s r" using f by (simp add: ns_frame_def)
    then show ?thesis
      by (cases "sm_find r (ns_flowStatsDl s)"; cases "sm_find r (ns_flowStatsDl s')")
        (simp_all add: ns_slice_of_def sm_has_def)
  qed
  have same: "ns_dlBandwidth s' = ns_dlBandwidth s" "ns_sliceInfo s' = ns_sliceInfo s" "ns_uesTxMode s' = ns_uesTxMode s"
    "ns_a30CqiRxed s' = ns_a30CqiRxed s"
    using f by (simp_all add: ns_frame_def)
  have other: "ns_slices_ok s' = ns_slices_ok s" "\<And>sb. ns_cqis_ok s' sb = ns_cqis_ok s sb"
    by (simp_all only: ns_slices_ok_def ns_rbgNum_def ns_rbgSize_def ns_cqis_ok_def same)
  show ?thesis using inv f unfolding ns_inv_def other same slice ns_frame_def by blast
qed

section \<open>Reports, timers and random access\<close>

text \<open>The uplink tables of every user are there; entries that are there have their sizes.\<close>

definition ns_ul_tables_ok :: "NsScheduler \<Rightarrow> bool" where
  "ns_ul_tables_ok s \<longleftrightarrow>
    (\<forall>r i. sm_find r (ns_ulHarqCurrentProcessId s) = Some i \<longrightarrow> unat i < HARQ_PROC_NUM) \<and>
    (\<forall>r dcis. sm_find r (ns_ulHarqProcessesDciBuffer s) = Some dcis \<longrightarrow> length dcis = HARQ_PROC_NUM) \<and>
    (\<forall>r. sm_has r (ns_uesTxMode s) \<longrightarrow>
      sm_has r (ns_ulHarqCurrentProcessId s) \<and> sm_has r (ns_ulHarqProcessesDciBuffer s))"

definition ns_aux_ok :: "NsScheduler \<Rightarrow> bool" where
  "ns_aux_ok s \<longleftrightarrow> ns_cqi_timed (ns_p10CqiTimers s) (ns_p10CqiRxed s) \<and> ns_cqi_timed (ns_a30CqiTimers s) (ns_a30CqiRxed s) \<and>
    sm_wf (ns_dlHarqProcessesTimer s) \<and> ns_ul_tables_ok s \<and> ns_ulGrantMcs s \<le> 15 \<and> ns_ulBandwidth s = ns_dlBandwidth s"

lemma ns_aux_start: "ns_aux_ok (NsScheduler_new bw harqOn threshold)"
  by (simp add: ns_aux_ok_def ns_cqi_timed_def ns_ul_tables_ok_def NsScheduler_new_def)

lemma ns_aux_side: "ns_side s s' \<Longrightarrow> ns_aux_ok s \<Longrightarrow> ns_aux_ok s'"
  by (simp add: ns_side_def ns_aux_ok_def ns_ul_tables_ok_def)

lemma ns_aux_ul_ok: "ns_aux_ok s \<Longrightarrow> sm_has r (ns_uesTxMode s) \<Longrightarrow> ns_ul_ok r s"
  by (auto simp: ns_aux_ok_def ns_ul_tables_ok_def ns_ul_ok_def sm_has_def)

lemma ns_lc_config_side: "ns_side s (ns_lc_config reconfigure rnti lc s)"
  by (simp add: ns_lc_config_def ns_side_def)

lemma ns_set_slice_side: "ns_side s (ns_set_slice now rnti lc (ns_add_flow now rnti s))"
  by (simp add: ns_set_slice_def ns_add_flow_def ns_side_def case_prod_beta Let_def)

lemma ns_DoCschedLcConfigReq_side:
  assumes "ns_DoCschedLcConfigReq now reconfigure rnti lcs s = Inr s'"
  shows "ns_side s s'"
proof -
  define s1 where "s1 = foldl (\<lambda>s lc. ns_lc_config reconfigure rnti lc s) s lcs"
  have "ns_side s s1"
    unfolding s1_def by (rule foldl_invariant) (auto simp: ns_side_refl intro: ns_side_trans ns_lc_config_side)
  moreover have "ns_side s1 (foldl (\<lambda>s lc. ns_set_slice now rnti lc (ns_add_flow now rnti s)) s1 lcs)"
    by (rule foldl_invariant) (auto simp: ns_side_refl intro: ns_side_trans ns_set_slice_side)
  ultimately show ?thesis
    using assms by (auto simp: ns_DoCschedLcConfigReq_def Let_def s1_def split: if_splits intro: ns_side_trans)
qed

lemma ns_DoCschedLcReleaseReq_side: "ns_DoCschedLcReleaseReq rnti lcids s = Inr s' \<Longrightarrow> ns_side s s'"
  by (auto simp: ns_DoCschedLcReleaseReq_def ns_side_def)

lemma ns_rlc_buffer_side: "ns_side s (ns_DoSchedDlRlcBufferReq rnti lcid req s)"
  by (simp add: ns_DoSchedDlRlcBufferReq_def ns_side_def)

lemma ns_UpdateSliceInfo_side: "ns_UpdateSliceInfo type action s = Inr s' \<Longrightarrow> ns_side s s'"
  by (auto simp: ns_UpdateSliceInfo_def ns_side_def split: option.splits if_splits)

lemma ns_aux_rach_info: "ns_aux_ok s \<Longrightarrow> ns_aux_ok (ns_DoSchedDlRachInfoReq reqs s)"
  by (simp add: ns_DoSchedDlRachInfoReq_def ns_aux_ok_def ns_ul_tables_ok_def)

lemma ns_MeasurementEvent_side: "ns_MeasurementEvent s = Inr (s', ues, enb) \<Longrightarrow> ns_side s s'"
  by (auto simp: ns_MeasurementEvent_def ns_side_def)

lemma ns_aux_ue_config:
  assumes "ns_aux_ok s"
  shows "ns_aux_ok (ns_DoCschedUeConfigReq rnti txMode s)"
proof (cases "sm_has rnti (ns_uesTxMode s)")
  case True
  then show ?thesis using assms by (auto simp: ns_aux_ok_def ns_ul_tables_ok_def ns_DoCschedUeConfigReq_def)
next
  case False
  then show ?thesis
    using assms
    by (auto simp: ns_aux_ok_def ns_ul_tables_ok_def ns_DoCschedUeConfigReq_def sm_insert_def smap.wf_set HARQ_PROC_NUM_def
        split: if_splits)
qed

lemma ns_aux_ue_release: "ns_aux_ok s \<Longrightarrow> ns_aux_ok (ns_DoCschedUeReleaseReq rnti s)"
  by (auto simp: ns_aux_ok_def ns_ul_tables_ok_def ns_DoCschedUeReleaseReq_def smap.wf_erase split: if_splits)

lemma ns_cqi_timed_report:
  assumes "ns_cqi_timed timers rxed"
  shows "ns_cqi_timed (sm_set rnti t timers) (sm_set rnti v rxed)"
    "\<not> sm_has rnti rxed \<Longrightarrow> sm_insert rnti t timers = sm_set rnti t timers"
  using assms by (auto simp: ns_cqi_timed_def smap.wf_set sm_insert_def)

lemma ns_aux_cqi_report:
  assumes "ns_aux_ok s" "ns_cqi_report s report = Inr s'"
  shows "ns_aux_ok s'"
proof -
  obtain p10 p10Timers a30 a30Timers where "s' = s\<lparr>ns_p10CqiRxed := p10, ns_p10CqiTimers := p10Timers,
      ns_a30CqiRxed := a30, ns_a30CqiTimers := a30Timers\<rparr>" "ns_cqi_timed p10Timers p10" "ns_cqi_timed a30Timers a30"
  proof (cases report)
    case (P10 rnti wb)
    note timed = assms(1) [unfolded ns_aux_ok_def]
    from assms(2) P10 timed ns_cqi_timed_report [of "ns_p10CqiTimers s" "ns_p10CqiRxed s" rnti] show thesis
      by (intro that [of "ns_a30CqiTimers s" "ns_a30CqiRxed s" "ns_p10CqiTimers s'" "ns_p10CqiRxed s'"])
        (auto simp: ns_cqi_report_def ns_refresh_timer_def split: if_splits)
  next
    case (A30 rnti sb)
    note timed = assms(1) [unfolded ns_aux_ok_def]
    from assms(2) A30 timed ns_cqi_timed_report [of "ns_a30CqiTimers s" "ns_a30CqiRxed s" rnti] show thesis
      by (intro that [of "ns_a30CqiTimers s'" "ns_a30CqiRxed s'" "ns_p10CqiTimers s" "ns_p10CqiRxed s"])
        (auto simp: ns_cqi_report_def ns_refresh_timer_def split: if_splits)
  next
    case OtherCqi
    with assms show thesis
      by (intro that [of "ns_a30CqiTimers s" "ns_a30CqiRxed s" "ns_p10CqiTimers s" "ns_p10CqiRxed s"])
        (auto simp: ns_cqi_report_def ns_aux_ok_def)
  qed
  with assms(1) show ?thesis by (simp add: ns_aux_ok_def ns_ul_tables_ok_def)
qed

lemma ns_aux_cqi_info:
  assumes "ns_aux_ok s" "ns_DoSchedDlCqiInfoReq reports s = Inr s'"
  shows "ns_aux_ok s'"
  by (rule rfoldl_invariant [OF assms(2) [unfolded ns_DoSchedDlCqiInfoReq_def], of ns_aux_ok, OF assms(1)])
    (rule ns_aux_cqi_report)

end
