(* ===== verification/Ns_Progress.thy ===== *)
theory Ns_Progress
  imports Ns_Invariant
begin

text \<open>A whole subframe in a state with the invariant (\<open>Ns_Invariant\<close>): every part of \<open>DoSchedDlTriggerReq\<close> returns and keeps
  the invariant, and the retransmissions and the new messages together do not share RBGs.\<close>

section \<open>A whole subframe\<close>

text \<open>Random access changes the uplink only.\<close>

definition ns_rach_side :: "NsScheduler \<Rightarrow> NsScheduler \<Rightarrow> bool" where
  "ns_rach_side s s' \<longleftrightarrow> (\<exists>m d. s' = s\<lparr>ns_rachAllocationMap := m, ns_ulHarqProcessesDciBuffer := d\<rparr> \<and>
    (\<forall>r. sm_lengths d r = sm_lengths (ns_ulHarqProcessesDciBuffer s) r))"

lemma ns_rach_side_refl: "ns_rach_side s s"
  unfolding ns_rach_side_def
  by (intro exI [of _ "ns_rachAllocationMap s"] exI [of _ "ns_ulHarqProcessesDciBuffer s"]) simp

lemma ns_rach_side_trans: "ns_rach_side s s' \<Longrightarrow> ns_rach_side s' s'' \<Longrightarrow> ns_rach_side s s''"
  unfolding ns_rach_side_def by (elim exE conjE) auto

lemma ns_store_ul_side:
  assumes "ns_store_ul rnti dci s = Inr s'"
  shows "ns_rach_side s s'"
proof -
  define d where "d = ns_ulHarqProcessesDciBuffer s'"
  have "s' = s\<lparr>ns_rachAllocationMap := ns_rachAllocationMap s, ns_ulHarqProcessesDciBuffer := d\<rparr>"
    "sm_lengths d r = sm_lengths (ns_ulHarqProcessesDciBuffer s) r" for r
    using assms by (auto simp: ns_store_ul_def d_def vec_upd_Inr_iff split: if_splits option.splits)
  then show ?thesis unfolding ns_rach_side_def by blast
qed

lemma ns_rach_grants_side:
  "ns_rach_grants limit rbStart reqs s out = Inr (s', out') \<Longrightarrow> ns_rach_side s s'"
proof (induction reqs arbitrary: rbStart s out)
  case Nil
  then show ?case by (simp add: ns_rach_side_refl)
next
  case (Cons req reqs)
  show ?case
  proof (cases "s' = s")
    case True
    then show ?thesis by (simp add: ns_rach_side_refl)
  next
    case False
    with Cons.prems obtain m dci s1 rbStart' out1 where s1: "ns_store_ul (rr_rnti req) dci (s\<lparr>ns_rachAllocationMap := m\<rparr>) = Inr s1"
      "ns_rach_grants limit rbStart' reqs s1 out1 = Inr (s', out')"
      by (auto split: if_splits)
    have "ns_rach_side s (s\<lparr>ns_rachAllocationMap := m\<rparr>)"
      unfolding ns_rach_side_def by (intro exI [of _ m] exI [of _ "ns_ulHarqProcessesDciBuffer s"]) simp
    with ns_store_ul_side [OF s1(1)] Cons.IH [OF s1(2)] show ?thesis by (blast intro: ns_rach_side_trans)
  qed
qed

lemma ns_rach_fields:
  assumes "ns_rach ulRbMap (ns_ul_processes s) = Inr (s', rars)"
  obtains m d c where "s' = s\<lparr>ns_rachAllocationMap := m, ns_ulHarqProcessesDciBuffer := d, ns_ulHarqCurrentProcessId := c,
      ns_rachList := []\<rparr>" "\<forall>r. sm_lengths d r = sm_lengths (ns_ulHarqProcessesDciBuffer s) r"
    "\<forall>r. sm_find r c = map_option (\<lambda>i. (i + 1) mod of_nat HARQ_PROC_NUM) (sm_find r (ns_ulHarqCurrentProcessId s))"
proof -
  obtain len off where scan: "ul_scan ulRbMap = (len, off)" by (cases "ul_scan ulRbMap")
  define s0 where "s0 = ns_ul_processes s"
  define s1 where "s1 = s0\<lparr>ns_rachAllocationMap := vec_resize (unat (ns_ulBandwidth s0)) 0 (ns_rachAllocationMap s0)\<rparr>"
  obtain s2 where s2: "ns_rach_grants (uint off + uint len) (uint off) (ns_rachList s0) s1 [] = Inr (s2, rars)"
    "s' = s2\<lparr>ns_rachList := []\<rparr>"
    using assms by (auto simp: ns_rach_def scan Let_def s0_def s1_def)
  from ns_rach_grants_side [OF s2(1)] obtain m d where md:
    "s2 = s1\<lparr>ns_rachAllocationMap := m, ns_ulHarqProcessesDciBuffer := d\<rparr>"
    "\<forall>r. sm_lengths d r = sm_lengths (ns_ulHarqProcessesDciBuffer s1) r"
    unfolding ns_rach_side_def by blast
  show thesis
  proof (rule that)
    show "s' = s\<lparr>ns_rachAllocationMap := m, ns_ulHarqProcessesDciBuffer := d,
        ns_ulHarqCurrentProcessId := ns_ulHarqCurrentProcessId s0, ns_rachList := []\<rparr>"
      by (simp add: s2(2) md(1) s1_def s0_def ns_ul_processes_def)
    show "\<forall>r. sm_lengths d r = sm_lengths (ns_ulHarqProcessesDciBuffer s) r"
      using md(2) by (simp add: s1_def s0_def ns_ul_processes_def)
    show "\<forall>r. sm_find r (ns_ulHarqCurrentProcessId s0) =
        map_option (\<lambda>i. (i + 1) mod of_nat HARQ_PROC_NUM) (sm_find r (ns_ulHarqCurrentProcessId s))"
      by (simp add: s0_def ns_ul_processes_def sm_find_map)
  qed
qed

lemma ns_rach_keeps:
  assumes "ns_rach ulRbMap (ns_ul_processes s) = Inr (s', rars)" "ns_inv s" "ns_aux_ok s"
  shows "ns_inv s'" "ns_aux_ok s'" "ns_dlInfoListBuffered s' = ns_dlInfoListBuffered s"
    "ns_flowStatsDl s' = ns_flowStatsDl s" "ns_feedback_ok s' info = ns_feedback_ok s info" "ns_dlBandwidth s' = ns_dlBandwidth s"
proof -
  obtain m d c where s': "s' = s\<lparr>ns_rachAllocationMap := m, ns_ulHarqProcessesDciBuffer := d, ns_ulHarqCurrentProcessId := c,
      ns_rachList := []\<rparr>" and d: "\<forall>r. sm_lengths d r = sm_lengths (ns_ulHarqProcessesDciBuffer s) r"
    and c: "\<forall>r. sm_find r c = map_option (\<lambda>i. (i + 1) mod of_nat HARQ_PROC_NUM) (sm_find r (ns_ulHarqCurrentProcessId s))"
    by (rule ns_rach_fields [OF assms(1)])
  show "ns_inv s'" using ns_inv_cong [of s' s] assms(2) by (simp add: s')
  show "ns_dlInfoListBuffered s' = ns_dlInfoListBuffered s" "ns_flowStatsDl s' = ns_flowStatsDl s"
    "ns_feedback_ok s' info = ns_feedback_ok s info" "ns_dlBandwidth s' = ns_dlBandwidth s"
    by (simp_all add: s' ns_feedback_ok_def ns_rbgNum_def ns_rbgSize_def)
  have "unat ((i + 1) mod of_nat HARQ_PROC_NUM :: u8) < HARQ_PROC_NUM" for i :: u8
    by (simp add: HARQ_PROC_NUM_def unat_mod)
  moreover have "sm_has r c = sm_has r (ns_ulHarqCurrentProcessId s)" "sm_has r d = sm_has r (ns_ulHarqProcessesDciBuffer s)" for r
    using c d [rule_format, of r]
    by (cases "sm_find r d"; cases "sm_find r (ns_ulHarqProcessesDciBuffer s)"; simp add: sm_has_def)+
  moreover have "length dcis = HARQ_PROC_NUM" if "sm_find r d = Some dcis" for r dcis
    using d [rule_format, of r] that assms(3)
    by (cases "sm_find r (ns_ulHarqProcessesDciBuffer s)") (auto simp: ns_aux_ok_def ns_ul_tables_ok_def)
  ultimately show "ns_aux_ok s'"
    using assms(3) c by (auto simp: s' ns_aux_ok_def ns_ul_tables_ok_def)
qed

text \<open>A request is for a user that is, of a size that fits a subframe.\<close>

definition ns_rach_ok :: "NsScheduler \<Rightarrow> RachRequest \<Rightarrow> bool" where
  "ns_rach_ok s req \<longleftrightarrow> sm_has (rr_rnti req) (ns_uesTxMode s) \<and> 0 < rr_estimatedSize req \<and>
    uint (rr_estimatedSize req) < ul_bits (ns_ulGrantMcs s) (uint (ns_ulBandwidth s))"

lemma ns_rach_returns:
  assumes "ns_inv s" "ns_aux_ok s" "length ulRbMap = unat (ns_ulBandwidth s)" "\<forall>req \<in> set (ns_rachList s). ns_rach_ok s req"
  shows "\<exists>s' rars. ns_rach ulRbMap (ns_ul_processes s) = Inr (s', rars)"
proof (cases "ns_rachList s")
  case Nil
  obtain len off where "ul_scan ulRbMap = (len, off)" by (cases "ul_scan ulRbMap")
  with Nil show ?thesis by (simp add: ns_rach_def ns_ul_processes_def Let_def)
next
  case (Cons req reqs)
  then have "ns_rach_ok s req" using assms(4) by simp
  moreover have "ul_bits mcs 0 = 0" for mcs by (simp add: ul_bits_def GetUlTbSizeFromMcs_def amc_tb_size_def rassert_def)
  moreover have "0 \<le> uint (rr_estimatedSize req)" "0 \<le> uint (ns_ulBandwidth s)" by simp_all
  ultimately have bw: "0 < uint (ns_ulBandwidth s)" unfolding ns_rach_ok_def by (metis leD le_less)
  define s0 where "s0 = ns_ul_processes s"
  have fields: "ns_ulGrantMcs s0 = ns_ulGrantMcs s" "ns_ulBandwidth s0 = ns_dlBandwidth s" "ns_rachList s0 = ns_rachList s"
    "ns_ulBandwidth s = ns_dlBandwidth s"
    using assms(2) by (simp_all add: s0_def ns_ul_processes_def ns_aux_ok_def)
  have "ns_ul_ok r s0" if "ns_ul_ok r s" for r
    using that by (auto simp: ns_ul_ok_def s0_def ns_ul_processes_def sm_find_map HARQ_PROC_NUM_def unat_mod)
  then have "\<forall>r \<in> set (ns_rachList s0). ns_ul_ok (rr_rnti r) s0 \<and> 0 < rr_estimatedSize r \<and>
      uint (rr_estimatedSize r) < ul_bits (ns_ulGrantMcs s0) (uint (ns_ulBandwidth s0))"
    using assms(2,4) by (auto simp: fields ns_rach_ok_def intro: ns_aux_ul_ok)
  moreover have "ns_ulGrantMcs s0 \<le> 15" using assms(2) by (simp add: fields ns_aux_ok_def)
  moreover have "0 < uint (ns_ulBandwidth s0)" using bw by (simp add: fields)
  moreover have "uint (ns_ulBandwidth s0) < 111" using assms(1) by (simp add: fields ns_inv_def)
  moreover have "length ulRbMap = unat (ns_ulBandwidth s0)" using assms(3) by (simp add: fields)
  ultimately show ?thesis unfolding s0_def [symmetric] by (metis ns_rach_total)
qed

text \<open>The timers.\<close>

lemma ns_RefreshDlCqiMaps_returns:
  assumes "ns_inv s" "ns_aux_ok s"
  shows "\<exists>s'. ns_RefreshDlCqiMaps s = Inr s' \<and> ns_inv s' \<and> ns_aux_ok s' \<and>
    ns_dlInfoListBuffered s' = ns_dlInfoListBuffered s \<and> ns_flowStatsDl s' = ns_flowStatsDl s \<and>
    ns_rachList s' = ns_rachList s \<and> (\<forall>req. ns_rach_ok s' req = ns_rach_ok s req) \<and>
    (\<forall>info. ns_feedback_ok s' info = ns_feedback_ok s info) \<and> ns_dlBandwidth s' = ns_dlBandwidth s"
proof -
  obtain p10Timers p10 where p10: "ns_expire (ns_p10CqiTimers s) (ns_p10CqiRxed s) = Inr (p10Timers, p10)"
    "ns_cqi_timed p10Timers p10"
    using ns_expire_ok assms(2) unfolding ns_aux_ok_def by blast
  obtain a30Timers a30 where a30: "ns_expire (ns_a30CqiTimers s) (ns_a30CqiRxed s) = Inr (a30Timers, a30)"
    "ns_cqi_timed a30Timers a30"
    using ns_expire_ok assms(2) unfolding ns_aux_ok_def by blast
  define s' where "s' = s\<lparr>ns_p10CqiTimers := p10Timers, ns_p10CqiRxed := p10, ns_a30CqiTimers := a30Timers, ns_a30CqiRxed := a30\<rparr>"
  have run: "ns_RefreshDlCqiMaps s = Inr s'" using p10(1) a30(1) by (simp add: ns_RefreshDlCqiMaps_def s'_def)
  moreover have "ns_inv s'" by (rule ns_inv_refresh_cqi [OF assms(1) run])
  moreover have "ns_aux_ok s'" using assms(2) p10(2) a30(2) by (simp add: s'_def ns_aux_ok_def ns_ul_tables_ok_def)
  ultimately show ?thesis
    by (intro exI [of _ s']) (simp add: s'_def ns_rach_ok_def ns_feedback_ok_def ns_rbgNum_def ns_rbgSize_def)
qed

lemma ns_RefreshHarqProcesses_returns:
  assumes "ns_inv s" "ns_aux_ok s"
  shows "\<exists>s'. ns_RefreshHarqProcesses s = Inr s' \<and> ns_inv s' \<and> ns_aux_ok s' \<and>
    ns_dlInfoListBuffered s' = ns_dlInfoListBuffered s \<and> ns_flowStatsDl s' = ns_flowStatsDl s \<and>
    (\<forall>info. ns_feedback_ok s' info = ns_feedback_ok s info) \<and> ns_dlBandwidth s' = ns_dlBandwidth s \<and>
    ns_rachList s' = ns_rachList s"
proof -
  have wf: "sm_wf (ns_dlHarqProcessesTimer s)" using assms(2) by (simp add: ns_aux_ok_def)
  have sizes: "\<forall>(r, timer) \<in> set (ns_dlHarqProcessesTimer s). length timer = HARQ_PROC_NUM \<and>
      (\<exists>st. sm_find r (ns_dlHarqProcessesStatus s) = Some st \<and> length st = HARQ_PROC_NUM)"
  proof (safe)
    fix r timer
    assume "(r, timer) \<in> set (ns_dlHarqProcessesTimer s)"
    then have find: "sm_find r (ns_dlHarqProcessesTimer s) = Some timer" by (simp add: sm_find_mem [OF wf])
    then have "\<not> ns_absent r s" by (simp add: ns_absent_def sm_has_def)
    then have "sm_has r (ns_uesTxMode s)" using assms(1) unfolding ns_inv_def by blast
    then have "ns_tables_ok r s" "ns_harq_ok r s" using assms(1) by (auto simp: ns_inv_def sm_has_def)
    with find show "length timer = HARQ_PROC_NUM"
      "\<exists>st. sm_find r (ns_dlHarqProcessesStatus s) = Some st \<and> length st = HARQ_PROC_NUM"
      by (auto simp: ns_tables_ok_def ns_harq_ok_def split: option.splits)
  qed
  obtain status where t: "ns_harq_ticks (ns_dlHarqProcessesTimer s) (ns_dlHarqProcessesStatus s) =
      Inr (map (\<lambda>(r, timer). (r, map ns_tick timer)) (ns_dlHarqProcessesTimer s), status)"
    using ns_harq_ticks_ok [OF sm_wf_distinct [OF wf] sizes] by blast
  define s' where "s' = s\<lparr>ns_dlHarqProcessesTimer := map (\<lambda>(r, timer). (r, map ns_tick timer)) (ns_dlHarqProcessesTimer s),
    ns_dlHarqProcessesStatus := status\<rparr>"
  have run: "ns_RefreshHarqProcesses s = Inr s'" by (simp add: ns_RefreshHarqProcesses_def t s'_def)
  moreover have "ns_inv s'" by (rule ns_inv_refresh_harq [OF assms(1) run])
  moreover have "sm_wf (ns_dlHarqProcessesTimer s')"
    using wf by (simp add: s'_def sm_wf_def sm_keys_def comp_def case_prod_beta)
  then have "ns_aux_ok s'" using assms(2) by (simp add: s'_def ns_aux_ok_def ns_ul_tables_ok_def)
  ultimately show ?thesis
    by (intro exI [of _ s']) (simp add: s'_def ns_feedback_ok_def ns_rbgNum_def ns_rbgSize_def)
qed

text \<open>What a subframe is given: a flag for every RBG and uplink RB, answers to stored transmissions, and requests of users
  that are.\<close>

definition ns_trigger_ready :: "NsScheduler \<Rightarrow> bool list \<Rightarrow> bool list \<Rightarrow> DlInfo list \<Rightarrow> bool" where
  "ns_trigger_ready s dlRbgs ulRbs infos \<longleftrightarrow> length dlRbgs = nat (ns_rbgNum s) \<and> length ulRbs = unat (ns_ulBandwidth s) \<and>
    (\<forall>info \<in> set (ns_dlInfoListBuffered s @ infos). ns_feedback_ok s info) \<and>
    (\<forall>req \<in> set (ns_rachList s). ns_rach_ok s req)"

text \<open>The messages of a subframe are for different users with a bearer; those whose answer does not wait use free RBGs, and
  no two of these the same.\<close>

definition ns_indication_ok :: "NsScheduler \<Rightarrow> bool list \<Rightarrow> DlInfo list \<Rightarrow> BuildData list \<Rightarrow> bool" where
  "ns_indication_ok s rbgMap waiting out \<longleftrightarrow> distinct (map bd_rnti out) \<and>
    (\<forall>b \<in> set out. sm_has (bd_rnti b) (ns_flowStatsDl s)) \<and>
    (\<forall>b \<in> set out. bd_rnti b \<notin> di_rnti ` set waiting \<longrightarrow>
      (\<forall>i. bit (dci_rbBitmap (bd_dci b)) i \<longrightarrow> i < length rbgMap \<and> \<not> rbgMap ! i)) \<and>
    (\<forall>b \<in> set out. \<forall>b' \<in> set out. bd_rnti b \<notin> di_rnti ` set waiting \<and> bd_rnti b' \<notin> di_rnti ` set waiting \<and>
      bd_rnti b \<noteq> bd_rnti b' \<longrightarrow> dci_rbBitmap (bd_dci b) AND dci_rbBitmap (bd_dci b') = 0)"

lemma and_0_iff: "a AND b = 0 \<longleftrightarrow> (\<forall>i. \<not> (bit a i \<and> bit b i))" for a b :: "'a :: len word"
  by (auto simp: bit_eq_iff bit_and_iff dest: bit_imp_le_length)

lemma ns_indication:
  assumes retx: "ns_retx_ok s rbgMap x" and new: "ns_messages_ok (rx_rntiAllocated x) (rx_rbgMap x) s4 out"
    and users: "\<And>r. sm_has r (ns_flowStatsDl s4) = sm_has r (ns_flowStatsDl s)"
  shows "ns_indication_ok s rbgMap (rx_untxed x) (rx_out x @ out)"
proof -
  have sent: "bd_rnti ` set (rx_out x) = rx_rntiAllocated x" "di_rnti ` set (rx_untxed x) \<subseteq> rx_rntiAllocated x"
    "length (rx_rbgMap x) = length rbgMap"
    using retx by (simp_all add: ns_retx_ok_def)
  have other: "bd_rnti b \<notin> rx_rntiAllocated x" "bd_rnti b \<notin> di_rnti ` set (rx_untxed x)"
    "sm_has (bd_rnti b) (ns_flowStatsDl s)" if "b \<in> set out" for b
    using new that sent(2) by (auto simp: ns_messages_ok_def users)
  have free: "i < length rbgMap \<and> \<not> rx_rbgMap x ! i" if "b \<in> set out" "bit (dci_rbBitmap (bd_dci b)) i" for b i
    using new that sent(3) by (auto simp: ns_messages_ok_def)
  have used: "rx_rbgMap x ! i \<longleftrightarrow> rbgMap ! i \<or> (\<exists>b. ns_in_place x b \<and> i \<in> bd_rbgs b)" if "i < length rbgMap" for i
    using retx that unfolding ns_retx_ok_def by blast
  have placed: "i < length rbgMap \<and> \<not> rbgMap ! i" if "ns_in_place x b" "bit (dci_rbBitmap (bd_dci b)) i" for b i
    using retx that unfolding ns_retx_ok_def bd_rbgs_def by blast
  have apart: "\<not> (bit (dci_rbBitmap (bd_dci b)) i \<and> bit (dci_rbBitmap (bd_dci b')) i)"
    if "ns_in_place x b" "b' \<in> set out" for b b' i
    using free [OF that(2)] used that(1) unfolding bd_rbgs_def by blast
  have both: "dci_rbBitmap (bd_dci b) AND dci_rbBitmap (bd_dci b') = 0"
    if "ns_in_place x b" "ns_in_place x b'" "bd_rnti b \<noteq> bd_rnti b'" for b b'
    using retx that unfolding ns_retx_ok_def bd_rbgs_def and_0_iff by blast
  have "distinct (map bd_rnti (rx_out x @ out))"
    using retx new other(1) sent(1) by (auto simp: ns_retx_ok_def ns_messages_ok_def)
  moreover have "\<forall>b \<in> set (rx_out x @ out). sm_has (bd_rnti b) (ns_flowStatsDl s)"
    using retx other(3) by (auto simp: ns_retx_ok_def)
  moreover have "i < length rbgMap \<and> \<not> rbgMap ! i" if "b \<in> set (rx_out x @ out)" "bd_rnti b \<notin> di_rnti ` set (rx_untxed x)"
    "bit (dci_rbBitmap (bd_dci b)) i" for b i
    using that free [of b i] used [of i] placed [of b i] by (auto simp: ns_in_place_def)
  moreover have "dci_rbBitmap (bd_dci b) AND dci_rbBitmap (bd_dci b') = 0"
    if "b \<in> set (rx_out x @ out)" "b' \<in> set (rx_out x @ out)" "bd_rnti b \<noteq> bd_rnti b'"
      "bd_rnti b \<notin> di_rnti ` set (rx_untxed x)" "bd_rnti b' \<notin> di_rnti ` set (rx_untxed x)" for b b'
  proof -
    have split: "ns_in_place x b \<or> b \<in> set out" "ns_in_place x b' \<or> b' \<in> set out"
      using that by (auto simp: ns_in_place_def)
    have "dci_rbBitmap (bd_dci b) AND dci_rbBitmap (bd_dci b') = 0" if "b \<in> set out" "b' \<in> set out"
      using new that \<open>bd_rnti b \<noteq> bd_rnti b'\<close> by (simp add: ns_messages_ok_def)
    with split both [OF _ _ that(3)] apart [of b b'] apart [of b' b] show ?thesis unfolding and_0_iff by blast
  qed
  ultimately show ?thesis unfolding ns_indication_ok_def by blast
qed

text \<open>The whole call.\<close>

lemma ns_trigger_ok:
  assumes inv: "ns_inv s" "ns_aux_ok s" and ready: "ns_trigger_ready s dlRbgs ulRbs infos"
  shows "\<exists>s' rars out. ns_DoSchedDlTriggerReq ffr dlRbgs ulRbs infos s = Inr (s', rars, out) \<and> ns_inv s' \<and> ns_aux_ok s' \<and>
    ns_dlBandwidth s' = ns_dlBandwidth s \<and> ns_indication_ok s dlRbgs (ns_dlInfoListBuffered s') out \<and>
    (\<forall>info \<in> set (ns_dlInfoListBuffered s'). ns_feedback_ok s' info) \<and> ns_rachList s' = []"
proof -
  obtain s1 where s1: "ns_RefreshDlCqiMaps s = Inr s1" "ns_inv s1" "ns_aux_ok s1"
    "ns_dlInfoListBuffered s1 = ns_dlInfoListBuffered s" "ns_flowStatsDl s1 = ns_flowStatsDl s" "ns_rachList s1 = ns_rachList s"
    "\<And>req. ns_rach_ok s1 req = ns_rach_ok s req" "\<And>info. ns_feedback_ok s1 info = ns_feedback_ok s info"
    "ns_dlBandwidth s1 = ns_dlBandwidth s"
    using ns_RefreshDlCqiMaps_returns [OF inv] by blast
  have ul: "ns_ulBandwidth s1 = ns_ulBandwidth s" using s1(3,9) inv(2) by (simp add: ns_aux_ok_def)
  obtain s2 rars where s2: "ns_rach ulRbs (ns_ul_processes s1) = Inr (s2, rars)"
    using ns_rach_returns [OF s1(2,3), of ulRbs] ready unfolding ns_trigger_ready_def s1(6,7,9) ul by blast
  note keeps = ns_rach_keeps [OF s2 s1(2,3)]
  have rach2: "ns_rachList s2 = []" by (rule ns_rach_fields [OF s2]) simp
  obtain s3 where s3: "ns_RefreshHarqProcesses s2 = Inr s3" "ns_inv s3" "ns_aux_ok s3"
    "ns_dlInfoListBuffered s3 = ns_dlInfoListBuffered s2" "ns_flowStatsDl s3 = ns_flowStatsDl s2"
    "\<And>info. ns_feedback_ok s3 info = ns_feedback_ok s2 info" "ns_dlBandwidth s3 = ns_dlBandwidth s2"
    "ns_rachList s3 = ns_rachList s2"
    using ns_RefreshHarqProcesses_returns [OF keeps(1,2)] by blast
  have bw3: "ns_dlBandwidth s3 = ns_dlBandwidth s" by (simp add: s3(7) keeps(6) s1(9))
  have users: "ns_users_ok s3" using s3(2) by (fastforce simp: ns_users_ok_def ns_inv_def sm_has_def)
  have len: "length dlRbgs = nat (ns_rbgNum s3)" using ready by (simp add: ns_trigger_ready_def ns_rbgNum_def ns_rbgSize_def bw3)
  have answers: "\<forall>info \<in> set (ns_dlInfoListBuffered s3 @ infos). ns_feedback_ok s3 info"
    using ready by (simp add: ns_trigger_ready_def s3(4,6) keeps(3,5) s1(4,8))
  from ns_feedbacks_ok [OF users len answers] obtain t x where
    fb: "ns_feedbacks infos dlRbgs s3 = Inr (t\<lparr>ns_dlInfoListBuffered := rx_untxed x\<rparr>, x)"
    and t: "ns_answered s3 t" and x: "ns_retx_ok s3 dlRbgs x" by blast
  define s4 where "s4 = t\<lparr>ns_dlInfoListBuffered := rx_untxed x\<rparr>"
  have frame: "ns_frame UNIV s3 t" using t by (simp add: ns_answered_def)
  have inv4: "ns_inv s4" using ns_inv_frame [OF s3(2) frame] ns_inv_cong [of s4 t] by (simp add: s4_def)
  have "ns_aux_ok (s4\<lparr>ns_dlInfoListBuffered := ns_dlInfoListBuffered s3\<rparr>)"
    by (rule ns_aux_side [OF ns_feedbacks_side(1) [OF fb, folded s4_def] s3(3)])
  then have aux4: "ns_aux_ok s4" by (simp add: ns_aux_ok_def ns_ul_tables_ok_def)
  have same4: "ns_dlBandwidth s4 = ns_dlBandwidth s3" "ns_flowStatsDl s4 = ns_flowStatsDl s3"
    using frame t by (simp_all add: s4_def ns_frame_def ns_answered_def)
  have len4: "length (rx_rbgMap x) = nat (ns_rbgNum s4)"
    using x len by (simp add: ns_retx_ok_def ns_rbgNum_def ns_rbgSize_def same4(1))
  from ns_subframe_ok [OF ns_inv_ready [OF inv4] len4, of ffr "rx_rntiAllocated x" "rx_rbgAllocatedNum x"]
  obtain s5 out A where s5: "ns_schedule_data ffr (rx_rntiAllocated x) (rx_rbgMap x) (rx_rbgAllocatedNum x) s4 = Inr (s5, out)"
    "ns_messages_ok (rx_rntiAllocated x) (rx_rbgMap x) s4 out" "ns_frame A s4 s5" by blast
  have side5: "ns_side s4 s5" by (rule ns_schedule_data_side [OF ns_inv_ready(1) [OF inv4] len4 s5(1)])
  have "ns_DoSchedDlTriggerReq ffr dlRbgs ulRbs infos s = Inr (s5, rars, rx_out x @ out)"
    using s5(1) by (simp add: ns_DoSchedDlTriggerReq_def s1(1) s2 s3(1) fb flip: s4_def)
  moreover have "ns_inv s5" by (rule ns_inv_frame [OF inv4 s5(3)])
  moreover have "ns_aux_ok s5" by (rule ns_aux_side [OF side5 aux4])
  moreover have "ns_dlBandwidth s5 = ns_dlBandwidth s" using side5 by (simp add: ns_side_def same4 bw3)
  moreover have "ns_dlInfoListBuffered s5 = rx_untxed x" using side5 by (simp add: ns_side_def) (simp add: s4_def)
  moreover have "ns_flowStatsDl s3 = ns_flowStatsDl s" by (simp add: s3(5) keeps(4) s1(5))
  then have "ns_indication_ok s dlRbgs (rx_untxed x) (rx_out x @ out)"
    using ns_indication [OF x s5(2)] by (simp add: same4 ns_indication_ok_def)
  moreover have "\<forall>info \<in> set (ns_dlInfoListBuffered s5). ns_feedback_ok s5 info"
  proof
    fix info assume "info \<in> set (ns_dlInfoListBuffered s5)"
    then have info: "info \<in> set (rx_untxed x)" using side5 by (simp add: ns_side_def) (simp add: s4_def)
    then have ra: "di_rnti info \<in> rx_rntiAllocated x" using x by (auto simp: ns_retx_ok_def)
    have "ns_feedback_ok s3 info" using answers ns_feedbacks_untxed(1) [OF fb] info by blast
    then have "ns_feedback_ok t info" using t by (simp add: ns_answered_def)
    then have ok4: "ns_feedback_ok s4 info" by (simp add: s4_def ns_feedback_ok_def ns_rbgNum_def ns_rbgSize_def)
    have "ns_slice_of s5 (di_rnti info) = ns_slice_of s4 (di_rnti info)" using s5(3) by (simp add: ns_frame_def)
    then have "sm_has (di_rnti info) (ns_flowStatsDl s5)"
      using ok4 by (auto simp: ns_feedback_ok_def Let_def ns_slice_of_def sm_has_def)
    then show "ns_feedback_ok s5 info"
      using ns_feedback_ok_stored [OF ok4] ns_schedule_data_stored [OF ns_inv_ready(1) [OF inv4] len4 s5(1) ra]
      by (simp add: ns_stored_def)
  qed
  moreover have "ns_rachList s5 = []"
    using side5 ns_feedbacks_side(1) [OF fb] s3(8) rach2 by (simp add: ns_side_def s4_def)
  ultimately show ?thesis by auto
qed

end
