(* ===== verification/Ns_Reachable.thy ===== *)
theory Ns_Reachable
  imports Ns_Progress
begin

text \<open>The slicing scheduler as a state machine: the calls of the eNB in any order, and what every reachable state has.

  A step is one call of \<open>NsPfFfMacScheduler\<close> that returned.  The guards are what the eNB keeps to: a bearer is
  configured for a user that is, buffers are reported for a user with a bearer, a report has one CQI up to 15 for every
  RBG, the frequency reuse has one flag for every RBG, answers belong to stored transmissions, and random access is
  granted to users that are.\<close>

section \<open>Steps\<close>

inductive ns_step :: "NsScheduler \<Rightarrow> NsScheduler \<Rightarrow> bool" where
  ue_config: "txMode \<le> 6 \<Longrightarrow> ns_step s (ns_DoCschedUeConfigReq rnti txMode s)"
| lc_config: "sm_has rnti (ns_uesTxMode s) \<Longrightarrow> ns_DoCschedLcConfigReq now reconfigure rnti lcs s = Inr s' \<Longrightarrow> ns_step s s'"
| lc_release: "ns_DoCschedLcReleaseReq rnti lcids s = Inr s' \<Longrightarrow> ns_step s s'"
| ue_release: "ns_step s (ns_DoCschedUeReleaseReq rnti s)"
| rlc_buffer: "sm_has rnti (ns_flowStatsDl s) \<Longrightarrow> ns_step s (ns_DoSchedDlRlcBufferReq rnti lcid req s)"
| cqi_info: "\<forall>report \<in> set reports. ns_report_ok s report \<Longrightarrow> ns_DoSchedDlCqiInfoReq reports s = Inr s' \<Longrightarrow> ns_step s s'"
| action: "ns_type_ok type \<Longrightarrow> \<forall>ids vals. action = Some (ids, vals) \<longrightarrow> (\<forall>v \<in> set vals. 0 \<le> v \<and> v \<le> 1048576) \<Longrightarrow>
    ns_UpdateSliceInfo type action s = Inr s' \<Longrightarrow> ns_step s s'"
| rach_info: "ns_step s (ns_DoSchedDlRachInfoReq reqs s)"
| measurement: "ns_MeasurementEvent s = Inr (s', ues, enb) \<Longrightarrow> ns_step s s'"
| trigger: "ns_trigger_ready s dlRbgs ulRbs infos \<Longrightarrow> ns_DoSchedDlTriggerReq ffr dlRbgs ulRbs infos s = Inr (s', rars, out) \<Longrightarrow>
    ns_step s s'"

inductive ns_reachable :: "u8 \<Rightarrow> NsScheduler \<Rightarrow> bool" for bw :: u8 where
  start: "ns_reachable bw (NsScheduler_new bw harqOn threshold)"
| step: "ns_reachable bw s \<Longrightarrow> ns_step s s' \<Longrightarrow> ns_reachable bw s'"

section \<open>The invariant\<close>

lemma ns_inv_step: "ns_step s s' \<Longrightarrow> ns_inv s \<and> ns_aux_ok s \<Longrightarrow> ns_inv s' \<and> ns_aux_ok s'"
proof (induction rule: ns_step.induct)
  case (rach_info s reqs)
  have "ns_inv (ns_DoSchedDlRachInfoReq reqs s) = ns_inv s"
    by (rule ns_inv_cong) (simp_all add: ns_DoSchedDlRachInfoReq_def)
  with rach_info ns_aux_rach_info show ?case by blast
next
  case (measurement s s' ues enb)
  then have "ns_inv s' = ns_inv s" by (intro ns_inv_cong) (auto simp: ns_MeasurementEvent_def)
  with measurement ns_aux_side [OF ns_MeasurementEvent_side] show ?case by blast
next
  case (trigger s dlRbgs ulRbs infos ffr s' rars out)
  with ns_trigger_ok [of s dlRbgs ulRbs infos ffr] show ?case by auto
qed (blast intro: ns_inv_ue_config ns_inv_lc_config ns_inv_lc_release ns_inv_ue_release ns_inv_rlc_buffer
    ns_inv_cqi_info ns_inv_action ns_aux_ue_config ns_aux_ue_release ns_aux_cqi_info
    ns_aux_side [OF ns_DoCschedLcConfigReq_side] ns_aux_side [OF ns_DoCschedLcReleaseReq_side]
    ns_aux_side [OF ns_rlc_buffer_side] ns_aux_side [OF ns_UpdateSliceInfo_side])+

lemma ns_inv_reachable: "ns_reachable bw s \<Longrightarrow> uint bw < 110 \<Longrightarrow> ns_inv s \<and> ns_aux_ok s"
  by (induction rule: ns_reachable.induct) (simp add: ns_inv_start ns_aux_start, blast dest: ns_inv_step)

text \<open>C37: In every state that the calls of the eNB can lead to, for a bandwidth below 110 resource blocks, a user with a
  bearer has a transmission mode, a current HARQ process below 8, eight entries in each of its HARQ tables and two
  layers of PDUs, all buffered data belongs to a user with a bearer, the averages that the metric divides by are
  positive, and the reserved RBGs of the slices fit.\<close>

theorem ns_reachable_typed:
  assumes "ns_reachable bw s" "uint bw < 110" "sm_has rnti (ns_flowStatsDl s)"
  shows "(\<exists>cur status timer dcis layers. sm_has rnti (ns_uesTxMode s) \<and>
      sm_find rnti (ns_dlHarqCurrentProcessId s) = Some cur \<and> unat cur < 8 \<and>
      sm_find rnti (ns_dlHarqProcessesStatus s) = Some status \<and> length status = 8 \<and>
      sm_find rnti (ns_dlHarqProcessesTimer s) = Some timer \<and> length timer = 8 \<and>
      sm_find rnti (ns_dlHarqProcessesDciBuffer s) = Some dcis \<and> length dcis = 8 \<and>
      sm_find rnti (ns_dlHarqRlcPduBuffer s) = Some layers \<and> map length layers = [8, 8]) \<and>
    (\<forall>(flow, req) \<in> set (ns_rlcBufferReq s). sm_has (fst flow) (ns_flowStatsDl s)) \<and>
    (\<forall>(r, f) \<in> set (ns_flowStatsDl s). 0 < fp_lastAvgSliced f) \<and> ns_reserved (ns_sliceInfo s) \<le> ns_rbgNum s"
proof -
  have inv: "ns_inv s" using ns_inv_reachable [OF assms(1,2)] ..
  have tx: "sm_has rnti (ns_uesTxMode s)" using inv assms(3) by (simp add: ns_inv_def)
  then have "ns_harq_ok rnti s" and tables: "ns_tables_ok rnti s" using inv by (auto simp: ns_inv_def sm_has_def)
  then obtain cur status where "sm_find rnti (ns_dlHarqCurrentProcessId s) = Some cur" "unat cur < 8"
    "sm_find rnti (ns_dlHarqProcessesStatus s) = Some status" "length status = 8"
    by (auto simp: ns_harq_ok_def HARQ_PROC_NUM_def split: option.splits)
  moreover obtain timer dcis layers where "sm_find rnti (ns_dlHarqProcessesTimer s) = Some timer" "length timer = 8"
    "sm_find rnti (ns_dlHarqProcessesDciBuffer s) = Some dcis" "length dcis = 8"
    "sm_find rnti (ns_dlHarqRlcPduBuffer s) = Some layers" "map length layers = [8, 8]"
    using tables
    by (auto simp: ns_tables_ok_def HARQ_PROC_NUM_def numeral_2_eq_2 length_Suc_conv split: option.splits)
  ultimately show ?thesis using tx inv by (auto simp: ns_inv_def ns_users_known_def ns_slices_ok_def ns_positive_def)
qed

section \<open>Answers that wait\<close>

text \<open>The eNB keeps a user as long as one of its answers waits, and random access is asked for by users that are, with a
  size that fits a subframe.  Without the first the next subframe stops the program (\<open>ns_released_user_stops\<close>): the
  scheduler does not forget the answers of a user that is released.\<close>

definition ns_kept :: "NsScheduler \<Rightarrow> bool" where
  "ns_kept s \<longleftrightarrow> (\<forall>info \<in> set (ns_dlInfoListBuffered s). sm_has (di_rnti info) (ns_flowStatsDl s)) \<and>
    (\<forall>req \<in> set (ns_rachList s). ns_rach_ok s req)"

inductive ns_orderly :: "u8 \<Rightarrow> NsScheduler \<Rightarrow> bool" for bw :: u8 where
  orderly_start: "ns_orderly bw (NsScheduler_new bw harqOn threshold)"
| orderly_step: "ns_orderly bw s \<Longrightarrow> ns_step s s' \<Longrightarrow> ns_kept s' \<Longrightarrow> ns_orderly bw s'"

lemma ns_orderly_reachable: "ns_orderly bw s \<Longrightarrow> ns_reachable bw s"
  by (induction rule: ns_orderly.induct) (auto intro: ns_reachable.intros)

lemma ns_orderly_kept: "ns_orderly bw s \<Longrightarrow> ns_kept s"
  by (induction rule: ns_orderly.induct) (simp_all add: ns_kept_def NsScheduler_new_def)

text \<open>Calls other than the subframe leave the waiting answers and what they refer to alone.\<close>

definition ns_same_answers :: "NsScheduler \<Rightarrow> NsScheduler \<Rightarrow> bool" where
  "ns_same_answers s s' \<longleftrightarrow> ns_dlInfoListBuffered s' = ns_dlInfoListBuffered s \<and> ns_dlBandwidth s' = ns_dlBandwidth s \<and>
    ns_dlHarqProcessesDciBuffer s' = ns_dlHarqProcessesDciBuffer s \<and> ns_dlHarqRlcPduBuffer s' = ns_dlHarqRlcPduBuffer s"

lemma ns_same_answers_lc_config:
  assumes "ns_DoCschedLcConfigReq now reconfigure rnti lcs s = Inr s'"
  shows "ns_same_answers s s'"
proof -
  define s1 where "s1 = foldl (\<lambda>s lc. ns_lc_config reconfigure rnti lc s) s lcs"
  have "ns_same_answers s s1"
    unfolding s1_def by (rule foldl_invariant) (auto simp: ns_same_answers_def ns_lc_config_def)
  moreover have "ns_same_answers s1 (foldl (\<lambda>s lc. ns_set_slice now rnti lc (ns_add_flow now rnti s)) s1 lcs)"
    by (rule foldl_invariant)
      (auto simp: ns_same_answers_def ns_set_slice_def ns_add_flow_def case_prod_beta Let_def)
  ultimately show ?thesis
    using assms by (auto simp: ns_same_answers_def ns_DoCschedLcConfigReq_def Let_def s1_def split: if_splits)
qed

lemma ns_same_answers_cqi:
  assumes "ns_DoSchedDlCqiInfoReq reports s = Inr s'"
  shows "ns_same_answers s s'"
  by (rule rfoldl_invariant [OF assms [unfolded ns_DoSchedDlCqiInfoReq_def]])
    (auto simp: ns_same_answers_def ns_cqi_report_def split: CqiReport.splits if_splits)

lemma ns_same_answers_ok:
  assumes "ns_same_answers s s'" "ns_kept s'" "\<forall>info \<in> set (ns_dlInfoListBuffered s). ns_feedback_ok s info"
  shows "\<forall>info \<in> set (ns_dlInfoListBuffered s'). ns_feedback_ok s' info"
  using assms ns_feedback_ok_stored [of s _ s'] unfolding ns_same_answers_def ns_kept_def by simp

lemma ns_answer_kept:
  assumes "ns_feedback_ok s info" "sm_has (di_rnti info) (ns_flowStatsDl s')" "ns_stored (di_rnti info) s' = ns_stored (di_rnti info) s"
  shows "ns_feedback_ok s' info"
  using ns_feedback_ok_stored [OF assms(1,2)] assms(3) by (simp add: ns_stored_def)

lemma ns_waiting_step:
  assumes "ns_step s s'" "ns_inv s" "ns_aux_ok s" "ns_kept s'" "\<forall>info \<in> set (ns_dlInfoListBuffered s). ns_feedback_ok s info"
  shows "\<forall>info \<in> set (ns_dlInfoListBuffered s'). ns_feedback_ok s' info"
  using assms
proof (induction rule: ns_step.induct)
  case (ue_config txMode s rnti)
  let ?s' = "ns_DoCschedUeConfigReq rnti txMode s"
  have known: "sm_has (di_rnti info) (ns_uesTxMode s)" if "info \<in> set (ns_dlInfoListBuffered s)" for info
    using ue_config.prems(1,4) that by (auto simp: ns_inv_def ns_feedback_ok_def Let_def)
  have "ns_stored r ?s' = ns_stored r s" if "sm_has r (ns_uesTxMode s)" for r
    using that by (auto simp: ns_DoCschedUeConfigReq_def ns_stored_def sm_insert_def)
  moreover have "ns_dlInfoListBuffered ?s' = ns_dlInfoListBuffered s" by (simp add: ns_DoCschedUeConfigReq_def)
  ultimately show ?case using ue_config.prems(3,4) known ns_answer_kept [of s _ ?s'] unfolding ns_kept_def by metis
next
  case (ue_release s rnti)
  let ?s' = "ns_DoCschedUeReleaseReq rnti s"
  have "ns_stored r ?s' = ns_stored r s" if "sm_has r (ns_flowStatsDl ?s')" for r
    using that by (auto simp: ns_DoCschedUeReleaseReq_def ns_stored_def)
  moreover have "ns_dlInfoListBuffered ?s' = ns_dlInfoListBuffered s" by (simp add: ns_DoCschedUeReleaseReq_def)
  ultimately show ?case using ue_release.prems(3,4) ns_answer_kept [of s _ ?s'] unfolding ns_kept_def by metis
next
  case (trigger s dlRbgs ulRbs infos ffr s' rars out)
  with ns_trigger_ok [of s dlRbgs ulRbs infos ffr] show ?case by auto
next
  case (lc_config rnti s now reconfigure lcs s')
  then show ?case using ns_same_answers_ok ns_same_answers_lc_config by blast
next
  case (cqi_info reports s s')
  then show ?case using ns_same_answers_ok ns_same_answers_cqi by blast
next
  case (lc_release rnti lcids s s')
  have "ns_same_answers s s'" using lc_release.hyps by (auto simp: ns_same_answers_def ns_DoCschedLcReleaseReq_def)
  then show ?case using ns_same_answers_ok lc_release.prems(3,4) by blast
next
  case (rlc_buffer rnti s lcid req)
  have "ns_same_answers s (ns_DoSchedDlRlcBufferReq rnti lcid req s)" by (simp add: ns_same_answers_def ns_DoSchedDlRlcBufferReq_def)
  then show ?case using ns_same_answers_ok rlc_buffer.prems(3,4) by blast
next
  case (action type action s s')
  have "ns_same_answers s s'" using action.hyps by (auto simp: ns_same_answers_def ns_UpdateSliceInfo_def split: option.splits if_splits)
  then show ?case using ns_same_answers_ok action.prems(3,4) by blast
next
  case (rach_info s reqs)
  have "ns_same_answers s (ns_DoSchedDlRachInfoReq reqs s)" by (simp add: ns_same_answers_def ns_DoSchedDlRachInfoReq_def)
  then show ?case using ns_same_answers_ok rach_info.prems(3,4) by blast
next
  case (measurement s s' ues enb)
  have "ns_same_answers s s'" using measurement.hyps by (auto simp: ns_same_answers_def ns_MeasurementEvent_def)
  then show ?case using ns_same_answers_ok measurement.prems(3,4) by blast
qed

lemma ns_waiting_ok:
  "ns_orderly bw s \<Longrightarrow> uint bw < 110 \<Longrightarrow> \<forall>info \<in> set (ns_dlInfoListBuffered s). ns_feedback_ok s info"
proof (induction rule: ns_orderly.induct)
  case (orderly_step s s')
  then show ?case using ns_waiting_step ns_inv_reachable [OF ns_orderly_reachable] by blast
qed (simp add: NsScheduler_new_def)

text \<open>C1: A run of the calls of the eNB in which a user is not released while one of its answers waits, and random access
  is asked for by users that are, with a size that fits a subframe (\<open>ns_orderly\<close>): in every state of it a whole downlink
  subframe does not fail, whatever the frequency reuse leaves free and the users answer, as long as there is a flag for
  every RBG and RB and every new answer belongs to a stored transmission.  The messages, retransmissions or new, are for
  different users with a bearer; those of users whose answer does not wait name free RBGs only, and no two of them the
  same RBG.  The next state belongs to such a run again: what waits in it still belongs to stored transmissions.\<close>

theorem ns_reachable_subframe:
  assumes "ns_orderly bw s" "uint bw < 110" "length dlRbgs = nat (ns_rbgNum s)" "length ulRbs = unat (ns_ulBandwidth s)"
    and "\<forall>info \<in> set infos. ns_feedback_ok s info"
  shows "\<exists>s' rars out. ns_DoSchedDlTriggerReq ffr dlRbgs ulRbs infos s = Inr (s', rars, out) \<and> ns_orderly bw s' \<and>
    (\<forall>info \<in> set (ns_dlInfoListBuffered s'). ns_feedback_ok s' info) \<and> distinct (map bd_rnti out) \<and>
    (\<forall>b \<in> set out. sm_has (bd_rnti b) (ns_flowStatsDl s)) \<and>
    (let waiting = di_rnti ` set (ns_dlInfoListBuffered s')
     in (\<forall>b \<in> set out. bd_rnti b \<notin> waiting \<longrightarrow>
          (\<forall>i. bit (dci_rbBitmap (bd_dci b)) i \<longrightarrow> i < length dlRbgs \<and> \<not> dlRbgs ! i)) \<and>
        (\<forall>b \<in> set out. \<forall>b' \<in> set out. bd_rnti b \<notin> waiting \<and> bd_rnti b' \<notin> waiting \<and> bd_rnti b \<noteq> bd_rnti b' \<longrightarrow>
          dci_rbBitmap (bd_dci b) AND dci_rbBitmap (bd_dci b') = 0))"
proof -
  have "ns_inv s" "ns_aux_ok s" using ns_inv_reachable [OF ns_orderly_reachable [OF assms(1)] assms(2)] by simp_all
  moreover have ready: "ns_trigger_ready s dlRbgs ulRbs infos"
    using ns_waiting_ok [OF assms(1,2)] ns_orderly_kept [OF assms(1)] assms(3-5)
    unfolding ns_trigger_ready_def ns_kept_def by auto
  ultimately obtain s' rars out where r: "ns_DoSchedDlTriggerReq ffr dlRbgs ulRbs infos s = Inr (s', rars, out)"
    "ns_indication_ok s dlRbgs (ns_dlInfoListBuffered s') out" "\<forall>info \<in> set (ns_dlInfoListBuffered s'). ns_feedback_ok s' info"
    "ns_rachList s' = []"
    using ns_trigger_ok [of s dlRbgs ulRbs infos ffr] by blast
  have "ns_kept s'" using r(3,4) by (auto simp: ns_kept_def ns_feedback_ok_def Let_def)
  with assms(1) ns_step.trigger [OF ready r(1)] have "ns_orderly bw s'" by (rule ns_orderly.orderly_step)
  with r(1-3) show ?thesis unfolding ns_indication_ok_def Let_def by blast
qed

section \<open>Witnesses\<close>

text \<open>A user with a bearer in slice 0 (2 dedicated, 3 prioritized, 4 shared RBGs) and data, by the calls of the eNB.\<close>

definition ns_demo_bearer :: LcConfig where
  "ns_demo_bearer = \<lparr>lc_id = 3, lc_bearerType = QBT_NON_GBR, lc_mbrDl = 4294967295, lc_gbrDl = 4362273280\<rparr>"

definition ns_demo_user :: NsScheduler where
  "ns_demo_user = ns_DoCschedUeConfigReq 1 0 (NsScheduler_new 25 True 1000)"

lemma ns_demo_configured:
  "case ns_DoCschedLcConfigReq 0 False 1 [ns_demo_bearer] ns_demo_user of Inl e \<Rightarrow> False
   | Inr s \<Rightarrow> sm_has 1 (ns_flowStatsDl s) \<and> map (\<lambda>(k, i). (k, si_minRbg i)) (ns_sliceInfo s) = [(0, 5)]"
  by code_simp

text \<open>Its first subframe, and the check that an answer belongs to a stored transmission.\<close>

definition ns_demo_ffr :: Ffr where
  "ns_demo_ffr = \<lparr>ffr_IsDlRbgAvailableForUe = \<lambda>i rnti. True, ffr_GetTpc = \<lambda>rnti. 1\<rparr>"

definition ns_demo_data :: "NsScheduler result" where
  "ns_demo_data = rbind (ns_DoCschedLcConfigReq 0 False 1 [ns_demo_bearer] ns_demo_user) (\<lambda>s.
    Inr (ns_DoSchedDlRlcBufferReq 1 3 \<lparr>rb_txQueue = 1000, rb_retxQueue = 0, rb_statusPdu = 0\<rparr> s))"

definition ns_demo_sent :: "(NsScheduler \<times> BuildRar list \<times> BuildData list) result" where
  "ns_demo_sent = rbind ns_demo_data (ns_DoSchedDlTriggerReq ns_demo_ffr (replicate 12 False) (replicate 25 False) [])"

definition ns_demo_nack :: DlInfo where
  "ns_demo_nack = \<lparr>di_rnti = 1, di_harqProcessId = 1, di_harqStatus = [NACK]\<rparr>"

definition ns_feedback_check :: "NsScheduler \<Rightarrow> DlInfo \<Rightarrow> bool" where
  "ns_feedback_check s info \<longleftrightarrow>
    (let rnti = di_rnti info; harqId = unat (di_harqProcessId info)
     in sm_has rnti (ns_flowStatsDl s) \<and> harqId < 8 \<and> length (di_harqStatus info) = 1 \<and>
       (case (sm_find rnti (ns_dlHarqProcessesDciBuffer s), sm_find rnti (ns_dlHarqRlcPduBuffer s)) of
          (Some dcis, Some buf) \<Rightarrow>
            let dci = dcis ! harqId
            in length dcis = 8 \<and> length (dci_ndi dci) = 1 \<and> length (dci_rv dci) = 1 \<and> length (dci_mcs dci) = 1 \<and>
              length (dci_tbsSize dci) = 1 \<and> unat (dci_harqProcess dci) = harqId \<and>
              list_all (\<lambda>i. int i < ns_rbgNum s) (ns_mask_rbgs (dci_rbBitmap dci)) \<and> map length buf = [8, 8]
        | _ \<Rightarrow> False))"

lemma ns_feedback_checked:
  assumes "ns_feedback_check s info"
  shows "ns_feedback_ok s info"
proof -
  obtain dcis buf where f: "sm_find (di_rnti info) (ns_dlHarqProcessesDciBuffer s) = Some dcis"
    "sm_find (di_rnti info) (ns_dlHarqRlcPduBuffer s) = Some buf"
    using assms by (auto simp: ns_feedback_check_def Let_def split: option.splits)
  define h where "h = unat (di_harqProcessId info)"
  define dci where "dci = dcis ! h"
  note names = h_def [symmetric] dci_def [symmetric]
  have c: "sm_has (di_rnti info) (ns_flowStatsDl s)" "h < 8" "length (di_harqStatus info) = 1" "length dcis = 8"
    "length (dci_ndi dci) = 1" "length (dci_rv dci) = 1" "length (dci_mcs dci) = 1" "length (dci_tbsSize dci) = 1"
    "unat (dci_harqProcess dci) = h" "\<forall>i \<in> set (ns_mask_rbgs (dci_rbBitmap dci)). int i < ns_rbgNum s" "map length buf = [8, 8]"
    using assms by (simp_all add: ns_feedback_check_def Let_def f names list_all_iff)
  obtain a b where buf: "buf = [a, b]" "length a = 8" "length b = 8" using c(11) by auto
  have "ns_layers_ok 1 dci" using c(5-8) by (simp add: ns_layers_ok_def)
  moreover have "\<forall>i. bit (dci_rbBitmap dci) i \<longrightarrow> i < nat (ns_rbgNum s)" using c(10) unfolding set_mask_rbgs by auto
  moreover have "ns_pdus_ok 1 h buf" using c(2) by (simp add: ns_pdus_ok_def buf)
  ultimately show ?thesis
    using c(1-4,9) f by (simp add: ns_feedback_ok_def Let_def names HARQ_PROC_NUM_def)
qed

lemma ns_demo_runs:
  "case ns_demo_data of Inl e \<Rightarrow> False
   | Inr s \<Rightarrow> ns_rbgNum s = 12 \<and> ns_ulBandwidth s = 25 \<and> ns_dlInfoListBuffered s = [] \<and> ns_rachList s = []"
  "case ns_demo_sent of Inl e \<Rightarrow> False
   | Inr (s, rars, out) \<Rightarrow> map bd_rnti out = [1] \<and> ns_feedback_check s ns_demo_nack \<and> ns_rbgNum s = 12 \<and>
       ns_ulBandwidth s = 25 \<and> ns_dlInfoListBuffered s = [] \<and> ns_rachList s = []"
  by code_simp+

lemma ns_demo_orderly:
  obtains s where "ns_orderly 25 s" "sm_has 1 (ns_flowStatsDl s)" "ns_demo_data = Inr s"
proof -
  obtain s where s: "ns_DoCschedLcConfigReq 0 False 1 [ns_demo_bearer] ns_demo_user = Inr s" "sm_has 1 (ns_flowStatsDl s)"
    using ns_demo_configured by (auto split: sum.splits)
  have quiet: "ns_kept t" if "ns_side ns_demo_user t" for t
    using that by (simp add: ns_kept_def ns_side_def ns_demo_user_def ns_DoCschedUeConfigReq_def NsScheduler_new_def)
  have "(0 :: u8) \<le> 6" by simp
  with quiet [OF ns_side_refl] have "ns_orderly 25 ns_demo_user"
    unfolding ns_demo_user_def by (blast intro: ns_orderly.intros ns_step.ue_config)
  moreover have "sm_has 1 (ns_uesTxMode ns_demo_user)"
    by (simp add: ns_demo_user_def ns_DoCschedUeConfigReq_def NsScheduler_new_def sm_insert_def sm_has_def sm_find_def)
  moreover note side = ns_DoCschedLcConfigReq_side [OF s(1)]
  ultimately have "ns_orderly 25 s" using s(1) quiet [OF side] by (blast intro: ns_orderly.orderly_step ns_step.lc_config)
  define s' where "s' = ns_DoSchedDlRlcBufferReq 1 3 \<lparr>rb_txQueue = 1000, rb_retxQueue = 0, rb_statusPdu = 0\<rparr> s"
  have "ns_step s s'" unfolding s'_def by (rule ns_step.rlc_buffer [OF s(2)])
  moreover have "ns_kept s'" unfolding s'_def by (rule quiet [OF ns_side_trans [OF side ns_rlc_buffer_side]])
  ultimately have "ns_orderly 25 s'" using \<open>ns_orderly 25 s\<close> by (blast intro: ns_orderly.orderly_step)
  moreover have "sm_has 1 (ns_flowStatsDl s')" using s(2) by (simp add: s'_def ns_DoSchedDlRlcBufferReq_def)
  moreover have "ns_demo_data = Inr s'" by (simp add: ns_demo_data_def s(1) s'_def)
  ultimately show thesis by (rule that)
qed

lemma ns_reachable_typed_witness:
  "\<exists>s. ns_reachable 25 s \<and> sm_has 1 (ns_flowStatsDl s) \<and> ns_reserved (ns_sliceInfo s) \<le> ns_rbgNum s"
proof -
  obtain s where s: "ns_reachable 25 s" "sm_has 1 (ns_flowStatsDl s)"
    using ns_demo_orderly ns_orderly_reachable by metis
  have "uint (25 :: u8) < 110" by simp
  from ns_reachable_typed [OF s(1) this s(2)] s show ?thesis by blast
qed

text \<open>The user does not receive its first message; the theorem is used on its answer.\<close>

lemma ns_reachable_subframe_witness:
  "\<exists>s s' rars out. ns_orderly 25 s \<and> ns_feedback_ok s ns_demo_nack \<and>
    ns_DoSchedDlTriggerReq ns_demo_ffr (replicate 12 False) (replicate 25 False) [ns_demo_nack] s = Inr (s', rars, out) \<and>
    distinct (map bd_rnti out) \<and> ns_orderly 25 s'"
proof -
  obtain s0 where s0: "ns_orderly 25 s0" "ns_demo_data = Inr s0" using ns_demo_orderly by blast
  have "ns_rbgNum s0 = 12" "ns_ulBandwidth s0 = 25" "ns_dlInfoListBuffered s0 = []" "ns_rachList s0 = []"
    using ns_demo_runs(1) by (simp_all add: s0(2))
  then have ready0: "ns_trigger_ready s0 (replicate 12 False) (replicate 25 False) []" by (simp add: ns_trigger_ready_def)
  obtain s rars out where s: "ns_DoSchedDlTriggerReq ns_demo_ffr (replicate 12 False) (replicate 25 False) [] s0 = Inr (s, rars, out)"
    "ns_feedback_ok s ns_demo_nack" "ns_rbgNum s = 12" "ns_ulBandwidth s = 25" "ns_dlInfoListBuffered s = []" "ns_rachList s = []"
    using ns_demo_runs(2) ns_feedback_checked by (auto simp: ns_demo_sent_def s0(2) split: sum.splits)
  have "ns_kept s" using s(5,6) by (simp add: ns_kept_def)
  with s0(1) ns_step.trigger [OF ready0 s(1)] have orderly: "ns_orderly 25 s" by (rule ns_orderly.orderly_step)
  have "uint (25 :: u8) < 110" "length (replicate 12 False) = nat (ns_rbgNum s)"
    "length (replicate 25 False) = unat (ns_ulBandwidth s)" "\<forall>info \<in> set [ns_demo_nack]. ns_feedback_ok s info"
    using s(2-4) by simp_all
  from ns_reachable_subframe [OF orderly this, of ns_demo_ffr] orderly s(2) show ?thesis by blast
qed

end
