(* ===== verification/Spec2Isabelle.thy ===== *)
theory Spec2Isabelle
  imports Gma_Header Gma_Trailer Mx_Control_Header Link_State Tx_Control Rx_Control Rx_Violation
    Reordering Phy_Access Virtual_Interface Recv_Ctrl Data_Path Configuration End_To_End Retransmission
    Measurement Measurement_Cycle Qos_Measurement Report Queue_Disc Ppp_Aqm Ppp_Aqm_V2
    Ns_Harq Ns_Reachable
begin

text \<open>A verification library for the Generic Multi-Access (GMA) protocol, the queue disciplines and the network
  slicing scheduler of \<open>src/contrib/gma\<close>, the program's own core in a simulator that is otherwise ns-3.

  \<^bold>\<open>The program.\<close>  A GMA tunnel carries one flow over several links (Wi-Fi, LTE, NR), each named by a
  connection id, the cid.  The sender (\<open>GmaTxControl\<close>) puts a header on every packet
  (\<open>GmaHeader\<close>) and picks the link of the packet from the last traffic splitting update, the TSU.
  The receiver measures the links and decides with \<open>GmaRxControl\<close> how many of the next packets of a
  burst go over each link; the decision travels back in a control message (\<open>MxControlHeader\<close>).
  Both sides keep which links are up and which is the default in \<open>LinkState\<close>.

  \<^bold>\<open>Theories.\<close>  Each C++ class is a record with a prefix for its fields, its member functions are
  definitions with the same prefix, and the fields are in the order of the class.
  \<^item> \<open>Prelude\<close>: words, the errors (\<open>NS_FATAL_ERROR\<close>, failed assertions, exceptions of
    \<open>std::vector::at\<close>, undefined behaviour), results and loops over them.
  \<^item> \<open>Std_Map\<close>: \<open>std::map\<close> as a sorted association list, with the laws of its interface as a locale.
  \<^item> \<open>Buffer\<close>: the byte buffer of a packet, from \<open>src/src/network/model/buffer\<close> and \<open>packet\<close>, and the
    locales for field codecs, headers and trailers.
  \<^item> \<open>Gma_Header\<close>, \<open>Gma_Trailer\<close>, \<open>Mx_Control_Header\<close>: the wire formats (\<open>gma-header\<close>, \<open>gma-trailer\<close>,
    \<open>mx-control-header\<close>).  Round trips through a packet, the errors of unimplemented fields and
    types, and two defects of the code (setting a field twice; a vector that accumulates).
  \<^item> \<open>Link_State\<close> (\<open>link-state\<close>): the three reasons a link is down for, the default link, the links
    skipped while their queue drains.  A refinement to a set of reasons, and what the two preferences
    do to the default link.
  \<^item> \<open>Tx_Control\<close> (\<open>gma-tx-control\<close>): the splitting of packets by bit reversed schedules.  Every
    window of a burst carries exactly the numbers of the update; the choice of a link never fails.
  \<^item> \<open>Rx_Control\<close> (\<open>gma-rx-control\<close>): the delay, loss, congestion, QoS and outside decisions, and the
    update after a link failed.  Every decision adds up to the burst as natural numbers; moves go from
    the slowest busy link to the fastest, or, when the delays are close, from the largest loss to the
    smallest; the update flag is set exactly when traffic moves; the loop of a failed link ends and is fair.
  \<^item> \<open>Rx_Violation\<close> (\<open>gma-rx-control\<close>): the delay violation algorithm.  Its four cases give ratios with
    sum 1, the rounding is exact, and none of its errors is reached under conditions on the default link
    and the settings, outside of which two of them are proved reachable (a silent default link; seven links).
  \<^item> \<open>Reordering\<close> (\<open>gma-virtual-interface\<close>): the queues of packets that arrived too early.  Every release
    function is a sequence of three moves; no packet is lost, the loops end, and a run in which the
    links keep their order forwards in order, also behind a switch of the reordering to direct forwarding
    when nothing late follows it.
  \<^item> \<open>Phy_Access\<close> (\<open>phy-access-control\<close>): the address a link sends to, and the roaming of a Wi-Fi link between
    access points on its probes.  Sending never fails, and the access point changes only for a better one.
  \<^item> \<open>Virtual_Interface\<close>, \<open>Recv_Ctrl\<close>, \<open>Data_Path\<close>, \<open>Configuration\<close> (\<open>gma-virtual-interface\<close>): the object that
    owns all the others, as one record \<open>GmaVi\<close>; what it sends and schedules is appended to \<open>vi_out\<close>.
    Sending of control messages with their retransmission; the receiver of control messages; packets
    sent and received; links, settings and the actions of an agent, whose weights are rounded exactly.
  \<^item> \<open>End_To_End\<close>: the sender in its plain mode with the receiver of \<open>Reordering\<close>: a flow arrives as a
    subsequence of what was sent.  \<open>Retransmission\<close>: an unacknowledged message is sent six times, with exactly
    its packets and timers as output, and dropped.
  \<^item> \<open>Report\<close> (\<open>CollectMeasureResults\<close>): what an agent observes; it is what arrived in the interval.
  \<^item> \<open>Measurement\<close> (\<open>measurement-manager\<close>): the delays, losses and round trips of the links, in cycles of intervals
    that end in a decision of \<open>GmaRxControl\<close>, and the equalising of delays.  \<open>Measurement_Cycle\<close>: the calls that
    \<open>vi_out\<close> has for it as a step relation; its invariant, the end of every cycle after at most
    \<open>m_maxMeasureInterval\<close> intervals, and a decision that cannot be sent.  \<open>Qos_Measurement\<close>
    (\<open>qos-measurement-manager\<close>): the sessions, whose reports the decision never accepts; in no run of its
    events does one end with a decision.
  \<^item> \<open>Queue_Disc\<close> (\<open>ppp-queue-disc\<close>, \<open>ppp-delay-queue-disc\<close>), \<open>Ppp_Aqm\<close>, \<open>Ppp_Aqm_V2\<close> (\<open>ppp-aqm-queue-disc\<close>, \<open>-v2\<close>):
    queues that drop packets of low priority first.  One contract, the locale \<open>queue_disc\<close>, gives the order of
    the packets for all four; each is then related to what it may drop, the last one to a list specification.

  The network slicing scheduler of the LTE base station (\<open>ns-pf-ff-mac-scheduler\<close>) is one record \<open>NsScheduler\<close>:
  \<^item> \<open>Lte_Amc\<close> (\<open>src/src/lte/model/lte-amc\<close>): the tables of transport blocks and spectral efficiencies and the CQI of a
    receiver.  A reported CQI is decodable; a size is in bounds and grows with the MCS and the RBs.
  \<^item> \<open>Slicing\<close>: slices in the configuration of a bearer, the resource block groups (RBGs) of each slice as a table,
    the actions of an agent.  \<open>Ns_Users\<close>, \<open>Ns_Harq\<close>: users, their reports, buffers and HARQ processes, of which a free one
    is found and a forgotten one times out.
  \<^item> \<open>Ns_Scheduler\<close> (\<open>DoSchedDlTriggerReq\<close>): the two runs over the RBGs and the messages.  \<open>Ns_Allocation\<close>: what
    the runs promise of slices and users.  \<open>Ns_Messages\<close>: a message can be built for every allocation.
  \<^item> \<open>Ns_Feedback\<close>, \<open>Ns_Retransmission\<close>: the answers of the users to their messages.  A message that was not received
    is sent up to four times, in its old RBGs or in others; retransmissions do not share RBGs unless one has no room.
  \<^item> \<open>Ns_Rach\<close>: random access, granted in the longest run of uplink RBs.  \<open>Ns_Measurement\<close>: what an agent observes.
  \<^item> \<open>Ns_Subframe\<close>: the whole call \<open>DoSchedDlTriggerReq\<close>.  \<open>Ns_Invariant\<close>, \<open>Ns_Progress\<close>: the invariant of the scheduler,
    that every call keeps it, and that with it a subframe returns and what waits for the next one stays valid.
  \<^item> \<open>Ns_Reachable\<close>: the calls of the base station as a step relation and its invariant.  In a run that keeps the
    users whose answers wait (\<open>ns_orderly\<close>) every subframe with its retransmissions and new messages is scheduled
    without an error; a user released too early stops the program.

  \<^bold>\<open>Numbers and loops.\<close>  Integers of fixed width are words and wrap; a C++ \<open>double\<close> is a real, so
  rounding of floating point is not modelled; time is an integer number of nanoseconds.  Loops are
  recursions on the index list; the loops whose end depends on data (\<open>rc_distribute\<close>, the retries of
  the wire codecs) are partial functions or have a measure, and their end is a theorem.  The rounding
  theorem needs \<open>(n - 1) * (scaler + 1/2) \<le> 1\<close>, which the default scaler -0.3 gives for up to six links.
  A send that reports its link down sends a TSU, which is a send again: only a probe can report a link
  down and a TSU is no probe, so \<open>vi_SendByCid\<close> unfolds the recursion twice (\<open>vi_SendByCid_inner\<close>).

  \<^bold>\<open>Not modelled.\<close>  The event scheduler, sockets and traces of ns-3 (a delay handed to the scheduler is
  a returned value), console output, the uplink of the LTE scheduler but for random access (the frequency reuse is an argument of
  \<open>ns_DoSchedDlTriggerReq\<close>, and the error model of the receiver one of \<open>CreateCqiFeedbacks\<close>), and the components listed as not modelled in the manifest: the copies
  of upstream schedulers, queue disciplines, rate managers and TCP, the workload generators and vendored code.\<close>

end
